(* ===== verification/DevPrelude.thy ===== *)
theory DevPrelude
  imports Main "HOL-Library.Word" "HOL-Library.State_Monad" "HOL-Library.Multiset"
begin

text \<open>
  What every component of the development shares: the machine types and status codes the
  sources take from the platform headers, the named collections the proofs use, a weakest
  precondition calculus for the library's state monad, and a few lemmas on lists.

  Pointers are natural numbers, with 0 for NULL: the code compares them and passes them on,
  and what they point to is modelled where a component reads it.
\<close>

section \<open>Machine types and status codes\<close>

type_synonym i32 = "32 word"
type_synonym ptr = nat
type_synonym status = int

abbreviation (input) NULL :: ptr where "NULL \<equiv> 0"

text \<open>The status codes of the platform header utils/Errors.h (negated errno values).\<close>

abbreviation (input) NO_ERROR :: status where "NO_ERROR \<equiv> 0"
abbreviation (input) NO_MEMORY :: status where "NO_MEMORY \<equiv> -12"
abbreviation (input) BAD_VALUE :: status where "BAD_VALUE \<equiv> -22"
abbreviation (input) DEAD_OBJECT :: status where "DEAD_OBJECT \<equiv> -32"
abbreviation (input) INVALID_OPERATION :: status where "INVALID_OPERATION \<equiv> -38"
abbreviation (input) UNKNOWN_ERROR :: status where "UNKNOWN_ERROR \<equiv> -2147483648"

section \<open>Proof collections\<close>

named_theorems wp_rules \<open>introduction rules that run a monadic program symbolically\<close>
named_theorems handler_defs \<open>the definitions of the event handlers\<close>

section \<open>Weakest preconditions for the state monad\<close>

definition reads :: "('s \<Rightarrow> 'a) \<Rightarrow> ('s, 'a) state" where
  "reads f = State (\<lambda>s. (f s, s))"

definition upd :: "('s \<Rightarrow> 's) \<Rightarrow> ('s, unit) state" where
  "upd f = State (\<lambda>s. ((), f s))"

text \<open>A statement guarded by an \<open>if\<close> without an \<open>else\<close>.\<close>

definition whenM :: "bool \<Rightarrow> ('s, unit) state \<Rightarrow> ('s, unit) state" where
  "whenM b m = (if b then m else State_Monad.return ())"

lemma run_state_reads [simp]: "run_state (reads f) s = (f s, s)"
  by (simp add: reads_def)

lemma run_state_upd [simp]: "run_state (upd f) s = ((), f s)"
  by (simp add: upd_def)

definition wp :: "('s, 'a) state \<Rightarrow> ('a \<Rightarrow> 's \<Rightarrow> bool) \<Rightarrow> 's \<Rightarrow> bool" where
  "wp m Q s \<longleftrightarrow> Q (fst (run_state m s)) (snd (run_state m s))"

lemma wp_run: "wp m Q s \<Longrightarrow> run_state m s = (a, s') \<Longrightarrow> Q a s'"
  by (simp add: wp_def)

lemma wp_iff: "wp m Q s \<longleftrightarrow> (\<forall>a s'. run_state m s = (a, s') \<longrightarrow> Q a s')"
  by (auto simp: wp_def split: prod.splits)

lemma wp_return [wp_rules]: "Q a s \<Longrightarrow> wp (State_Monad.return a) Q s"
  by (simp add: wp_def)

lemma wp_reads [wp_rules]: "Q (f s) s \<Longrightarrow> wp (reads f) Q s"
  by (simp add: wp_def)

lemma wp_upd [wp_rules]: "Q () (f s) \<Longrightarrow> wp (upd f) Q s"
  by (simp add: wp_def)

lemma wp_bind [wp_rules]: "wp m (\<lambda>a. wp (f a) Q) s \<Longrightarrow> wp (State_Monad.bind m f) Q s"
  by (simp add: wp_def split_beta)

lemma wp_if [wp_rules]:
  "(b \<Longrightarrow> wp m Q s) \<Longrightarrow> (\<not> b \<Longrightarrow> wp n Q s) \<Longrightarrow> wp (if b then m else n) Q s"
  by simp

lemma wp_whenM [wp_rules]: "(b \<Longrightarrow> wp m Q s) \<Longrightarrow> (\<not> b \<Longrightarrow> Q () s) \<Longrightarrow> wp (whenM b m) Q s"
  by (simp add: whenM_def wp_def)

lemma wp_Let [wp_rules]: "wp (f x) Q s \<Longrightarrow> wp (Let x f) Q s"
  by simp

lemma wp_mono: "wp m P s \<Longrightarrow> (\<And>a t. P a t \<Longrightarrow> Q a t) \<Longrightarrow> wp m Q s"
  by (simp add: wp_def)

section \<open>Lists\<close>

text \<open>Removing the first element that satisfies a predicate.\<close>

fun remove_first :: "('a \<Rightarrow> bool) \<Rightarrow> 'a list \<Rightarrow> 'a list" where
  "remove_first P [] = []"
| "remove_first P (x # xs) = (if P x then xs else x # remove_first P xs)"

lemma remove_first_none [simp]: "\<not> (\<exists>x \<in> set xs. P x) \<Longrightarrow> remove_first P xs = xs"
  by (induction xs) auto

lemma set_remove_first_subset: "set (remove_first P xs) \<subseteq> set xs"
  by (induction xs) auto

lemma remove_first_append:
  "remove_first P (xs @ ys) =
     (if \<exists>x \<in> set xs. P x then remove_first P xs @ ys else xs @ remove_first P ys)"
  by (induction xs) auto

lemma length_remove_first:
  "length (remove_first P xs) = (if \<exists>x \<in> set xs. P x then length xs - 1 else length xs)"
  by (induction xs) (auto split: if_splits dest!: length_pos_if_in_set)

lemma mset_remove_first:
  "find P xs = Some x \<Longrightarrow> mset xs = add_mset x (mset (remove_first P xs))"
  by (induction xs) (auto split: if_splits)

lemma count_list_mset: "count_list xs x = count (mset xs) x"
  by (induction xs) auto

end
