(* ===== verification/SmTypes.thy ===== *)
theory SmTypes
  imports DevPrelude
begin

text \<open>
  The data of the camera state machine: the event, result and state types of
  camera/QCamera2/HAL/QCameraStateMachine.h, the interface to the hardware interface object
  \<open>m_parent\<close> (class QCamera2HardwareInterface), and the primitives the handlers are written in.

  A call on \<open>m_parent\<close> is an element of \<open>hwi_call\<close>. Its outcome is given by an arbitrary
  function \<open>hw\<close> of the calls made so far and of the call: a return value and the values the
  callee stores through by-reference arguments. Calls and outcomes are recorded, newest first,
  in the ghost field \<open>hwi_trace\<close>. Every theorem holds for all \<open>hw\<close>, so for any
  behaviour of the parent.
\<close>

section \<open>Events and results\<close>

datatype sm_evt =
    EVT_SET_PREVIEW_WINDOW
  | EVT_SET_CALLBACKS
  | EVT_ENABLE_MSG_TYPE
  | EVT_DISABLE_MSG_TYPE
  | EVT_MSG_TYPE_ENABLED
  | EVT_SET_PARAMS
  | EVT_SET_PARAMS_STOP
  | EVT_SET_PARAMS_COMMIT
  | EVT_SET_PARAMS_RESTART
  | EVT_GET_PARAMS
  | EVT_PUT_PARAMS
  | EVT_PREPARE_PREVIEW
  | EVT_START_PREVIEW
  | EVT_START_NODISPLAY_PREVIEW
  | EVT_STOP_PREVIEW
  | EVT_PREVIEW_ENABLED
  | EVT_STORE_METADATA_IN_BUFS
  | EVT_PRE_START_RECORDING
  | EVT_START_RECORDING
  | EVT_STOP_RECORDING
  | EVT_RECORDING_ENABLED
  | EVT_RELEASE_RECORIDNG_FRAME
  | EVT_PREPARE_SNAPSHOT
  | EVT_PRE_TAKE_PICTURE
  | EVT_TAKE_PICTURE
  | EVT_CANCEL_PICTURE
  | EVT_START_AUTO_FOCUS
  | EVT_STOP_AUTO_FOCUS
  | EVT_SEND_COMMAND
  | EVT_RELEASE
  | EVT_DUMP
  | EVT_REG_FACE_IMAGE
  | EVT_EVT_INTERNAL
  | EVT_EVT_NOTIFY
  | EVT_JPEG_EVT_NOTIFY
  | EVT_SNAPSHOT_DONE
  | EVT_THERMAL_NOTIFY
  | EVT_STOP_CAPTURE_CHANNEL
  | EVT_RESTART_PERVIEW
  | EVT_DELAYED_RESTART
  | EVT_SEND_COMMAND_RESTART
  | EVT_RESTART_START_PREVIEW
  | EVT_RESTART_STOP_PREVIEW

text \<open>The numeric value of an enumerator; the enumeration starts at 1.\<close>

fun sm_evt_num :: "sm_evt \<Rightarrow> nat" where
  "sm_evt_num EVT_SET_PREVIEW_WINDOW = 1"
| "sm_evt_num EVT_SET_CALLBACKS = 2"
| "sm_evt_num EVT_ENABLE_MSG_TYPE = 3"
| "sm_evt_num EVT_DISABLE_MSG_TYPE = 4"
| "sm_evt_num EVT_MSG_TYPE_ENABLED = 5"
| "sm_evt_num EVT_SET_PARAMS = 6"
| "sm_evt_num EVT_SET_PARAMS_STOP = 7"
| "sm_evt_num EVT_SET_PARAMS_COMMIT = 8"
| "sm_evt_num EVT_SET_PARAMS_RESTART = 9"
| "sm_evt_num EVT_GET_PARAMS = 10"
| "sm_evt_num EVT_PUT_PARAMS = 11"
| "sm_evt_num EVT_PREPARE_PREVIEW = 12"
| "sm_evt_num EVT_START_PREVIEW = 13"
| "sm_evt_num EVT_START_NODISPLAY_PREVIEW = 14"
| "sm_evt_num EVT_STOP_PREVIEW = 15"
| "sm_evt_num EVT_PREVIEW_ENABLED = 16"
| "sm_evt_num EVT_STORE_METADATA_IN_BUFS = 17"
| "sm_evt_num EVT_PRE_START_RECORDING = 18"
| "sm_evt_num EVT_START_RECORDING = 19"
| "sm_evt_num EVT_STOP_RECORDING = 20"
| "sm_evt_num EVT_RECORDING_ENABLED = 21"
| "sm_evt_num EVT_RELEASE_RECORIDNG_FRAME = 22"
| "sm_evt_num EVT_PREPARE_SNAPSHOT = 23"
| "sm_evt_num EVT_PRE_TAKE_PICTURE = 24"
| "sm_evt_num EVT_TAKE_PICTURE = 25"
| "sm_evt_num EVT_CANCEL_PICTURE = 26"
| "sm_evt_num EVT_START_AUTO_FOCUS = 27"
| "sm_evt_num EVT_STOP_AUTO_FOCUS = 28"
| "sm_evt_num EVT_SEND_COMMAND = 29"
| "sm_evt_num EVT_RELEASE = 30"
| "sm_evt_num EVT_DUMP = 31"
| "sm_evt_num EVT_REG_FACE_IMAGE = 32"
| "sm_evt_num EVT_EVT_INTERNAL = 33"
| "sm_evt_num EVT_EVT_NOTIFY = 34"
| "sm_evt_num EVT_JPEG_EVT_NOTIFY = 35"
| "sm_evt_num EVT_SNAPSHOT_DONE = 36"
| "sm_evt_num EVT_THERMAL_NOTIFY = 37"
| "sm_evt_num EVT_STOP_CAPTURE_CHANNEL = 38"
| "sm_evt_num EVT_RESTART_PERVIEW = 39"
| "sm_evt_num EVT_DELAYED_RESTART = 40"
| "sm_evt_num EVT_SEND_COMMAND_RESTART = 41"
| "sm_evt_num EVT_RESTART_START_PREVIEW = 42"
| "sm_evt_num EVT_RESTART_STOP_PREVIEW = 43"

text \<open>The events between the marks BEGIN OF and END OF: API EVT in the header.\<close>

definition is_api_evt :: "sm_evt \<Rightarrow> bool" where
  "is_api_evt evt \<longleftrightarrow> sm_evt_num evt \<le> sm_evt_num EVT_REG_FACE_IMAGE"

datatype api_result_type =
    API_RESULT_TYPE_DEF
  | API_RESULT_TYPE_ENABLE_FLAG
  | API_RESULT_TYPE_PARAMS
  | API_RESULT_TYPE_HANDLE

text \<open>The union of \<open>enabled\<close>, \<open>params\<close> and \<open>handle\<close> is one integer field.\<close>

record api_result =
  status :: status
  request_api :: sm_evt
  result_type :: api_result_type
  res_value :: int

section \<open>Payloads\<close>

datatype internal_evt_type =
    INTERNAL_EVT_FOCUS_UPDATE
  | INTERNAL_EVT_PREP_SNAPSHOT_DONE
  | INTERNAL_EVT_FACE_DETECT_RESULT
  | INTERNAL_EVT_HISTOGRAM_STATS
  | INTERNAL_EVT_CROP_INFO
  | INTERNAL_EVT_ASD_UPDATE
  | INTERNAL_EVT_READY_FOR_SNAPSHOT
  | INTERNAL_EVT_LED_MODE_OVERRIDE
  | INTERNAL_EVT_AWB_UPDATE
  | INTERNAL_EVT_AE_UPDATE
  | INTERNAL_EVT_FOCUS_POS_UPDATE
  | INTERNAL_EVT_HDR_UPDATE
  | INTERNAL_EVT_RETRO_AEC_UNLOCK
  | INTERNAL_EVT_ZSL_CAPTURE_DONE

datatype cam_event_type =
    CAM_EVENT_TYPE_MAP_UNMAP_DONE
  | CAM_EVENT_TYPE_AUTO_FOCUS_DONE
  | CAM_EVENT_TYPE_ZOOM_DONE
  | CAM_EVENT_TYPE_DAEMON_DIED
  | CAM_EVENT_TYPE_INT_TAKE_JPEG
  | CAM_EVENT_TYPE_INT_TAKE_RAW
  | CAM_EVENT_TYPE_DAEMON_PULL_REQ
  | CAM_EVENT_TYPE_CAC_DONE

text \<open>
  The commands of \<open>sendCommand\<close> come from the platform header system/camera.h; the state
  machine compares with two of them.
\<close>

datatype camera_cmd = CAMERA_CMD_LONGSHOT_ON | CAMERA_CMD_LONGSHOT_OFF | CAMERA_CMD_OTHER i32

record setcb_payload =
  notify_cb :: ptr
  data_cb :: ptr
  data_cb_timestamp :: ptr
  get_memory :: ptr
  user :: ptr

record command_payload =
  cmd :: camera_cmd
  arg1 :: i32
  arg2 :: i32

record reg_face_payload =
  img_ptr :: ptr
  config :: ptr

text \<open>The union of the event data is one word that is passed on to the parent.\<close>

record internal_evt_payload =
  evt_type :: internal_evt_type
  evt_data :: nat

text \<open>
  A payload is a \<open>void *\<close>; each handler casts it to the type its event carries. The record
  holds the pointer and what is read through it at each of these types.
\<close>

record payload =
  as_ptr :: ptr
  as_int :: i32
  as_setcb :: setcb_payload
  as_command :: command_payload
  as_reg_face :: reg_face_payload
  as_internal :: internal_evt_payload
  as_cam_evt :: cam_event_type

section \<open>The parent's interface\<close>

text \<open>Accessors of the parent and of its parameters object, read as integers.\<close>

datatype hwi_query =
    Q_mPreviewWindow
  | Q_getRecordingHintValue
  | Q_isZSLMode
  | Q_isLongshotEnabled
  | Q_isPreviewRestartEnabled
  | Q_getManualCaptureMode
  | Q_isRetroPicture
  | Q_isCACEnabled
  | Q_isOEMFeatEnabled
  | Q_isCaptureShutterEnabled

text \<open>The parent's operations on the data of an internal event.\<close>

datatype hwi_proc =
    P_processAutoFocusEvent
  | P_processPrepSnapshotDoneEvent
  | P_processFaceDetectionResult
  | P_processHistogramStats
  | P_processZoomEvent
  | P_processASDUpdate
  | P_updateFlashMode
  | P_transAwbMetaToParams
  | P_processAEInfo
  | P_processFocusPositionInfo
  | P_processHDRData
  | P_processRetroAECUnlock
  | P_processZSLCaptureDone

text \<open>The parent's operations that start, stop and cancel streams and captures.\<close>

datatype hwi_stream_op =
    S_preparePreview
  | S_unpreparePreview
  | S_startPreview
  | S_stopPreview
  | S_preStartRecording
  | S_startRecording
  | S_stopRecording
  | S_preTakePicture
  | S_takePicture
  | S_takeLiveSnapshot
  | S_longShot
  | S_cancelPicture
  | S_cancelLiveSnapshot
  | S_prepareHardwareForSnapshot bool
  | S_stopCaptureChannel bool
  | S_stopZslChannel
  | S_stopPreviewChannel
  | S_unconfigureAdvancedCapture
  | S_set_m_bPreviewStarted bool

datatype hwi_call =
    HW_query hwi_query
  | HW_process hwi_proc nat
  | HW_stream hwi_stream_op
  | HW_setPreviewWindow ptr
  | HW_setCallBacks setcb_payload
  | HW_waitDeferredWork_mParamInitJob
  | HW_enableMsgType i32
  | HW_disableMsgType i32
  | HW_msgTypeEnabled i32
  | HW_updateParameters ptr
  | HW_commitParameterChanges
  | HW_setNeedRestart bool
  | HW_getParameters
  | HW_putParameters ptr
  | HW_malloc nat
  | HW_memoryPool_clear
  | HW_release
  | HW_storeMetaDataInBuffers i32
  | HW_dump i32
  | HW_sendCommand camera_cmd i32 i32
  | HW_closeNativeHandle ptr
  | HW_releaseRecordingFrame ptr
  | HW_autoFocus
  | HW_cancelAutoFocus
  | HW_registerFaceImage ptr ptr
  | HW_updateThermalLevel ptr
  | HW_sendServerDiedNotify
  | HW_updateRecordingHintValue bool
  | HW_updateZSLModeValue bool
  | HW_playShutter
  | HW_set_mCACDoneReceived bool
  | HW_processJpegNotify ptr
  | HW_signalAPIResult api_result
  | HW_signalEvtResult api_result

text \<open>
  An outcome: the return value and the values stored through up to two reference arguments
  (the restart flag of \<open>updateParameters\<close>, the face id of \<open>registerFaceImage\<close>, the two
  arguments of \<open>sendCommand\<close>).
\<close>

type_synonym hwi_outcome = "int \<times> int \<times> int"
type_synonym hwi_event = "hwi_call \<times> hwi_outcome"
type_synonym hwi = "hwi_event list \<Rightarrow> hwi_call \<Rightarrow> hwi_outcome"

section \<open>The state machine object\<close>

datatype qcamera_state =
    STATE_PREVIEW_STOPPED
  | STATE_PREVIEW_READY
  | STATE_PREVIEWING
  | STATE_PREPARE_SNAPSHOT
  | STATE_PIC_TAKING
  | STATE_RECORDING
  | STATE_VIDEO_PIC_TAKING
  | STATE_PREVIEW_PIC_TAKING

record sm =
  m_state :: qcamera_state
  m_bDelayPreviewMsgs :: bool
  m_bPreviewNeedsRestart :: bool
  m_bPreviewDelayedRestart :: bool
  m_DelayedMsgs :: i32
  m_RestoreZSL :: bool
  m_bPreviewCallbackNeeded :: bool
  hwi_trace :: "hwi_event list"

text \<open>
  The constructor leaves \<open>m_bPreviewNeedsRestart\<close> and \<open>m_bPreviewDelayedRestart\<close>
  uninitialised: their initial values are arguments.
\<close>

definition sm_init :: "bool \<Rightarrow> bool \<Rightarrow> sm" where
  "sm_init needsRestart delayedRestart =
     \<lparr>m_state = STATE_PREVIEW_STOPPED,
      m_bDelayPreviewMsgs = False,
      m_bPreviewNeedsRestart = needsRestart,
      m_bPreviewDelayedRestart = delayedRestart,
      m_DelayedMsgs = 0,
      m_RestoreZSL = True,
      m_bPreviewCallbackNeeded = True,
      hwi_trace = []\<rparr>"

text \<open>The public accessors of the preview callback flag (inline in the header).\<close>

definition isPreviewCallbackNeeded :: "sm \<Rightarrow> bool" where
  "isPreviewCallbackNeeded s = m_bPreviewCallbackNeeded s"

definition setPreviewCallbackNeeded :: "bool \<Rightarrow> sm \<Rightarrow> sm" where
  "setPreviewCallbackNeeded enabled s = s\<lparr>m_bPreviewCallbackNeeded := enabled\<rparr>"

section \<open>Primitives of the handlers\<close>

type_synonym 'a sm_prog = "(sm, 'a) state"

text \<open>A call on the parent: its outcome is recorded and returned.\<close>

definition hcall2 :: "hwi \<Rightarrow> hwi_call \<Rightarrow> hwi_outcome sm_prog" where
  "hcall2 hw c = State (\<lambda>s.
     let r = hw (hwi_trace s) c in (r, s\<lparr>hwi_trace := (c, r) # hwi_trace s\<rparr>))"

definition hcall :: "hwi \<Rightarrow> hwi_call \<Rightarrow> int sm_prog" where
  "hcall hw c = State (\<lambda>s.
     let r = hw (hwi_trace s) c in (fst r, s\<lparr>hwi_trace := (c, r) # hwi_trace s\<rparr>))"

abbreviation hstream :: "hwi \<Rightarrow> hwi_stream_op \<Rightarrow> int sm_prog" where
  "hstream hw op \<equiv> hcall hw (HW_stream op)"

definition hquery :: "hwi \<Rightarrow> hwi_query \<Rightarrow> bool sm_prog" where
  "hquery hw q = State (\<lambda>s.
     let r = hw (hwi_trace s) (HW_query q)
     in (fst r \<noteq> 0, s\<lparr>hwi_trace := (HW_query q, r) # hwi_trace s\<rparr>))"

text \<open>The evaluation order of \<open>||\<close> and \<open>&&\<close>: the second call is made only if needed.\<close>

definition hquery_or :: "hwi \<Rightarrow> hwi_query \<Rightarrow> hwi_query \<Rightarrow> bool sm_prog" where
  "hquery_or hw p q = do {
     b \<leftarrow> hquery hw p;
     if b then State_Monad.return True else hquery hw q }"

definition set_m_state :: "qcamera_state \<Rightarrow> unit sm_prog" where
  "set_m_state st = upd (\<lambda>s. s\<lparr>m_state := st\<rparr>)"

text \<open>
  The four statements that end most cases: fill in \<open>result\<close> and signal it. The value is
  the handler's \<open>rc\<close>.
\<close>

definition reply_as :: "hwi \<Rightarrow> sm_evt \<Rightarrow> status \<Rightarrow> api_result_type \<Rightarrow> int \<Rightarrow> unit sm_prog" where
  "reply_as hw evt st ty v = do {
     _ \<leftarrow> hcall hw (HW_signalAPIResult
            \<lparr>status = st, request_api = evt, result_type = ty, res_value = v\<rparr>);
     State_Monad.return () }"

definition reply :: "hwi \<Rightarrow> sm_evt \<Rightarrow> status \<Rightarrow> status sm_prog" where
  "reply hw evt rc = do {
     reply_as hw evt rc API_RESULT_TYPE_DEF 0;
     State_Monad.return rc }"

definition reply_flag :: "hwi \<Rightarrow> sm_evt \<Rightarrow> status \<Rightarrow> int \<Rightarrow> status sm_prog" where
  "reply_flag hw evt rc v = do {
     reply_as hw evt rc API_RESULT_TYPE_ENABLE_FLAG v;
     State_Monad.return rc }"

definition reply_params :: "hwi \<Rightarrow> sm_evt \<Rightarrow> int \<Rightarrow> status sm_prog" where
  "reply_params hw evt params = do {
     let rc = (if params \<noteq> 0 then NO_ERROR else UNKNOWN_ERROR);
     reply_as hw evt rc API_RESULT_TYPE_PARAMS params;
     State_Monad.return rc }"

definition reply_handle :: "hwi \<Rightarrow> sm_evt \<Rightarrow> status \<Rightarrow> int \<Rightarrow> status sm_prog" where
  "reply_handle hw evt rc v = do {
     reply_as hw evt rc API_RESULT_TYPE_HANDLE v;
     State_Monad.return rc }"

definition signalEvtResult :: "hwi \<Rightarrow> sm_evt \<Rightarrow> status \<Rightarrow> status sm_prog" where
  "signalEvtResult hw evt rc = do {
     _ \<leftarrow> hcall hw (HW_signalEvtResult
            \<lparr>status = rc, request_api = evt, result_type = API_RESULT_TYPE_DEF, res_value = 0\<rparr>);
     State_Monad.return rc }"

text \<open>QCameraStateMachine::applyDelayedMsgs; every caller ignores the returned status.\<close>

definition applyDelayedMsgs :: "hwi \<Rightarrow> status sm_prog" where
  "applyDelayedMsgs hw = do {
     delay \<leftarrow> reads m_bDelayPreviewMsgs;
     msgs \<leftarrow> reads m_DelayedMsgs;
     if delay \<and> msgs \<noteq> 0 then do {
       rc \<leftarrow> hcall hw (HW_enableMsgType msgs);
       upd (\<lambda>s. s\<lparr>m_bDelayPreviewMsgs := False, m_DelayedMsgs := 0\<rparr>);
       State_Monad.return rc }
     else if delay then do {
       upd (\<lambda>s. s\<lparr>m_bDelayPreviewMsgs := False\<rparr>);
       State_Monad.return NO_ERROR }
     else State_Monad.return NO_ERROR }"

section \<open>Constants\<close>

text \<open>The message bit of system/camera.h and the capture mode of cam_types.h.\<close>

abbreviation (input) CAMERA_MSG_PREVIEW_FRAME :: i32 where
  "CAMERA_MSG_PREVIEW_FRAME \<equiv> 16"

abbreviation (input) CAM_MANUAL_CAPTURE_TYPE_3 :: int where
  "CAM_MANUAL_CAPTURE_TYPE_3 \<equiv> 3"

section \<open>Symbolic execution rules\<close>

text \<open>
  A call on the parent may have any outcome: the rules forget \<open>hw\<close> and keep the record of
  the call, so that a handler's paths are the branches the code itself takes.
\<close>

lemma wp_hcall2 [wp_rules]:
  "(\<And>r. Q r (s\<lparr>hwi_trace := (c, r) # hwi_trace s\<rparr>)) \<Longrightarrow> wp (hcall2 hw c) Q s"
  by (simp add: wp_def hcall2_def Let_def)

lemma wp_case_prod [wp_rules]:
  "(\<And>a b. r = (a, b) \<Longrightarrow> wp (f a b) Q s) \<Longrightarrow> wp (case r of (a, b) \<Rightarrow> f a b) Q s"
  by (cases r) simp

lemma wp_hcall [wp_rules]:
  "(\<And>r v. Q r (s\<lparr>hwi_trace := (c, r, v) # hwi_trace s\<rparr>)) \<Longrightarrow> wp (hcall hw c) Q s"
  by (simp add: wp_def hcall_def Let_def) (metis prod.collapse)

lemma wp_hquery [wp_rules]:
  "(\<And>r v. Q (r \<noteq> 0) (s\<lparr>hwi_trace := (HW_query q, r, v) # hwi_trace s\<rparr>)) \<Longrightarrow> wp (hquery hw q) Q s"
  by (simp add: wp_def hquery_def Let_def) (metis prod.collapse)

lemma wp_set_m_state [wp_rules]: "Q () (s\<lparr>m_state := st\<rparr>) \<Longrightarrow> wp (set_m_state st) Q s"
  by (simp add: wp_def set_m_state_def)

lemma wp_hquery_or [wp_rules]:
  assumes "\<And>r v. r \<noteq> 0 \<Longrightarrow> Q True (s\<lparr>hwi_trace := (HW_query p, r, v) # hwi_trace s\<rparr>)"
    and "\<And>v r v'. Q (r \<noteq> 0) (s\<lparr>hwi_trace :=
           (HW_query q, r, v') # (HW_query p, 0, v) # hwi_trace s\<rparr>)"
  shows "wp (hquery_or hw p q) Q s"
  unfolding hquery_or_def using assms by (auto intro!: wp_rules)

lemma wp_reply_as [wp_rules]:
  "(\<And>r v. Q () (s\<lparr>hwi_trace := (HW_signalAPIResult
      \<lparr>status = st, request_api = evt, result_type = ty, res_value = x\<rparr>, r, v) # hwi_trace s\<rparr>)) \<Longrightarrow>
   wp (reply_as hw evt st ty x) Q s"
  unfolding reply_as_def by (intro wp_rules) blast

lemma wp_reply [wp_rules]:
  "(\<And>r v. Q rc (s\<lparr>hwi_trace := (HW_signalAPIResult
      \<lparr>status = rc, request_api = evt, result_type = API_RESULT_TYPE_DEF, res_value = 0\<rparr>, r, v)
      # hwi_trace s\<rparr>)) \<Longrightarrow>
   wp (reply hw evt rc) Q s"
  unfolding reply_def by (intro wp_rules) blast

lemma wp_reply_flag [wp_rules]:
  "(\<And>r v. Q rc (s\<lparr>hwi_trace := (HW_signalAPIResult
      \<lparr>status = rc, request_api = evt, result_type = API_RESULT_TYPE_ENABLE_FLAG, res_value = x\<rparr>, r, v)
      # hwi_trace s\<rparr>)) \<Longrightarrow>
   wp (reply_flag hw evt rc x) Q s"
  unfolding reply_flag_def by (intro wp_rules) blast

lemma wp_reply_handle [wp_rules]:
  "(\<And>r v. Q rc (s\<lparr>hwi_trace := (HW_signalAPIResult
      \<lparr>status = rc, request_api = evt, result_type = API_RESULT_TYPE_HANDLE, res_value = x\<rparr>, r, v)
      # hwi_trace s\<rparr>)) \<Longrightarrow>
   wp (reply_handle hw evt rc x) Q s"
  unfolding reply_handle_def by (intro wp_rules) blast

lemma wp_reply_params [wp_rules]:
  assumes "\<And>rc r v. rc = (if params \<noteq> 0 then NO_ERROR else UNKNOWN_ERROR) \<Longrightarrow>
     Q rc (s\<lparr>hwi_trace := (HW_signalAPIResult
      \<lparr>status = rc, request_api = evt, result_type = API_RESULT_TYPE_PARAMS, res_value = params\<rparr>, r, v)
      # hwi_trace s\<rparr>)"
  shows "wp (reply_params hw evt params) Q s"
  unfolding reply_params_def Let_def using assms by (intro wp_rules) blast

lemma wp_signalEvtResult [wp_rules]:
  "(\<And>r v. Q rc (s\<lparr>hwi_trace := (HW_signalEvtResult
      \<lparr>status = rc, request_api = evt, result_type = API_RESULT_TYPE_DEF, res_value = 0\<rparr>, r, v)
      # hwi_trace s\<rparr>)) \<Longrightarrow>
   wp (signalEvtResult hw evt rc) Q s"
  unfolding signalEvtResult_def by (intro wp_rules) blast

lemma wp_applyDelayedMsgs [wp_rules]:
  assumes "\<And>r v. m_bDelayPreviewMsgs s \<Longrightarrow> m_DelayedMsgs s \<noteq> 0 \<Longrightarrow>
      Q r (s\<lparr>hwi_trace := (HW_enableMsgType (m_DelayedMsgs s), r, v) # hwi_trace s,
             m_bDelayPreviewMsgs := False, m_DelayedMsgs := 0\<rparr>)"
    and "m_bDelayPreviewMsgs s \<Longrightarrow> m_DelayedMsgs s = 0 \<Longrightarrow> Q NO_ERROR (s\<lparr>m_bDelayPreviewMsgs := False\<rparr>)"
    and "\<not> m_bDelayPreviewMsgs s \<Longrightarrow> Q NO_ERROR s"
  shows "wp (applyDelayedMsgs hw) Q s"
  unfolding applyDelayedMsgs_def using assms by (auto intro!: wp_rules)

lemmas reply_defs = reply_as_def reply_def reply_flag_def reply_params_def reply_handle_def
  signalEvtResult_def hquery_or_def Let_def

end
