(* ===== verification/SmContract.thy ===== *)
theory SmContract
  imports SmTypes
begin

text \<open>
  What one step of the camera state machine promises, stated without the handlers: which
  events a waiting caller gets an answer for, which transitions exist, which calls on the
  parent each state permits, and the invariants that link the state to the calls made so far.
  SmSteps proves that every handler keeps this contract.
\<close>

section \<open>Answers\<close>

text \<open>The results signalled to waiting API callers, newest first.\<close>

fun api_answers :: "hwi_event list \<Rightarrow> api_result list" where
  "api_answers [] = []"
| "api_answers ((c, _) # t) =
     (case c of HW_signalAPIResult r \<Rightarrow> r # api_answers t | _ \<Rightarrow> api_answers t)"

text \<open>The results signalled to waiting event producers, newest first.\<close>

fun evt_answers :: "hwi_event list \<Rightarrow> api_result list" where
  "evt_answers [] = []"
| "evt_answers ((c, _) # t) =
     (case c of HW_signalEvtResult r \<Rightarrow> r # evt_answers t | _ \<Rightarrow> evt_answers t)"

text \<open>
  The events a caller waits for in \<open>waitAPIResult\<close> whatever the state is: the API events of
  the header and the two preview restart requests of the dual camera mode.
\<close>

definition is_sync_evt :: "sm_evt \<Rightarrow> bool" where
  "is_sync_evt evt \<longleftrightarrow>
     is_api_evt evt \<or> evt = EVT_RESTART_STOP_PREVIEW \<or> evt = EVT_RESTART_START_PREVIEW"

text \<open>
  The cases that signal nothing although a caller waits: a recording frame is returned while
  no recording handler is active, and a face image is registered during a snapshot preparation.
\<close>

definition unanswered :: "qcamera_state \<Rightarrow> sm_evt \<Rightarrow> bool" where
  "unanswered st evt \<longleftrightarrow>
     (evt = EVT_RELEASE_RECORIDNG_FRAME \<and>
        st \<in> {STATE_PREVIEW_STOPPED, STATE_PREVIEW_READY, STATE_PREVIEWING}) \<or>
     (evt = EVT_REG_FACE_IMAGE \<and> st = STATE_PREPARE_SNAPSHOT)"

text \<open>
  The cases whose answer is given by a later event: a snapshot preparation that was started without an error,
  and a picture that was taken without an error when the parent, asked last, said that it is in
  retro mode. \<open>st'\<close> and \<open>t\<close> are the state and the calls afterwards.
\<close>

definition last_said :: "hwi_call \<Rightarrow> (int \<Rightarrow> bool) \<Rightarrow> hwi_event list \<Rightarrow> bool" where
  "last_said c said t \<longleftrightarrow> (case t of [] \<Rightarrow> False | (c', r, v) # t' \<Rightarrow> c' = c \<and> said r)"

definition deferred :: "qcamera_state \<Rightarrow> sm_evt \<Rightarrow> status \<Rightarrow> qcamera_state \<Rightarrow> hwi_event list \<Rightarrow> bool" where
  "deferred st evt rc st' t \<longleftrightarrow> rc = NO_ERROR \<and>
     (evt = EVT_PREPARE_SNAPSHOT \<and> st = STATE_PREVIEWING \<and> st' = STATE_PREPARE_SNAPSHOT \<or>
      evt = EVT_PREPARE_SNAPSHOT \<and> st = STATE_PREVIEW_PIC_TAKING \<and>
        last_said (HW_stream (S_prepareHardwareForSnapshot False)) (\<lambda>r. r = NO_ERROR) t \<or>
      evt = EVT_TAKE_PICTURE \<and> st = STATE_PREVIEWING \<and> last_said (HW_query Q_isRetroPicture) (\<lambda>r. r \<noteq> 0) t)"

definition sync_reply_ok :: "sm_evt \<Rightarrow> status \<Rightarrow> sm \<Rightarrow> sm \<Rightarrow> bool" where
  "sync_reply_ok evt rc s s' \<longleftrightarrow>
     (let old = api_answers (hwi_trace s); new = api_answers (hwi_trace s') in
      if unanswered (m_state s) evt \<or> deferred (m_state s) evt rc (m_state s') (hwi_trace s') then new = old
      else (\<exists>ty v. new = \<lparr>status = rc, request_api = evt, result_type = ty, res_value = v\<rparr> # old))"

text \<open>
  An event of the lower layers answers a waiting caller only to complete a deferred request
  (or all of them, when the server died), or to report the end of a retro capture.
\<close>

definition ok_answer :: "sm_evt \<Rightarrow> status \<Rightarrow> api_result" where
  "ok_answer evt rc =
     \<lparr>status = rc, request_api = evt, result_type = API_RESULT_TYPE_DEF, res_value = 0\<rparr>"

definition async_reply_ok :: "sm_evt \<Rightarrow> status \<Rightarrow> sm \<Rightarrow> sm \<Rightarrow> bool" where
  "async_reply_ok evt rc s s' \<longleftrightarrow>
     (let old = api_answers (hwi_trace s); new = api_answers (hwi_trace s') in
      new = old \<or>
      (evt = EVT_EVT_INTERNAL \<and> m_state s \<in> {STATE_PREPARE_SNAPSHOT, STATE_PREVIEW_PIC_TAKING} \<and>
         (new = ok_answer EVT_PREPARE_SNAPSHOT NO_ERROR # old \<or>
          new = ok_answer EVT_TAKE_PICTURE NO_ERROR # old)) \<or>
      (evt = EVT_EVT_NOTIFY \<and>
         m_state s \<in> {STATE_PREPARE_SNAPSHOT, STATE_PIC_TAKING, STATE_PREVIEW_PIC_TAKING} \<and>
         new = ok_answer EVT_TAKE_PICTURE NO_ERROR # ok_answer EVT_PREPARE_SNAPSHOT NO_ERROR # old) \<or>
      (evt = EVT_SNAPSHOT_DONE \<and> m_state s = STATE_PREVIEW_PIC_TAKING \<and>
         new = ok_answer EVT_SNAPSHOT_DONE rc # old) \<or>
      (evt = EVT_SEND_COMMAND_RESTART \<and> m_state s = STATE_PREVIEWING \<and>
         new = ok_answer EVT_SEND_COMMAND_RESTART rc # old) \<or>
      (evt = EVT_STOP_CAPTURE_CHANNEL \<and> m_state s = STATE_PIC_TAKING \<and>
         new = ok_answer EVT_STOP_CAPTURE_CHANNEL rc # old))"

definition evt_reply_ok :: "sm_evt \<Rightarrow> status \<Rightarrow> sm \<Rightarrow> sm \<Rightarrow> bool" where
  "evt_reply_ok evt rc s s' \<longleftrightarrow>
     evt_answers (hwi_trace s') =
       (if evt = EVT_SNAPSHOT_DONE then [ok_answer EVT_SNAPSHOT_DONE rc] else []) @
       evt_answers (hwi_trace s)"

section \<open>Transitions\<close>

text \<open>The transitions that change the state, with the event that may cause each.\<close>

definition sm_edge :: "qcamera_state \<Rightarrow> sm_evt \<Rightarrow> qcamera_state \<Rightarrow> bool" where
  "sm_edge st evt st' \<longleftrightarrow> (case st of
     STATE_PREVIEW_STOPPED \<Rightarrow>
       (st' = STATE_PREVIEW_READY \<and> evt \<in> {EVT_PREPARE_PREVIEW, EVT_START_PREVIEW}) \<or>
       (st' = STATE_PREVIEWING \<and> evt \<in> {EVT_START_PREVIEW, EVT_START_NODISPLAY_PREVIEW})
   | STATE_PREVIEW_READY \<Rightarrow>
       (st' = STATE_PREVIEWING \<and>
          evt \<in> {EVT_SET_PREVIEW_WINDOW, EVT_START_PREVIEW, EVT_START_NODISPLAY_PREVIEW}) \<or>
       (st' = STATE_PREVIEW_STOPPED \<and>
          evt \<in> {EVT_SET_PREVIEW_WINDOW, EVT_START_PREVIEW, EVT_START_NODISPLAY_PREVIEW,
                 EVT_SET_PARAMS_RESTART, EVT_STOP_PREVIEW})
   | STATE_PREVIEWING \<Rightarrow>
       (st' = STATE_PREVIEW_STOPPED \<and>
          evt \<in> {EVT_SET_PARAMS_RESTART, EVT_STOP_PREVIEW, EVT_TAKE_PICTURE}) \<or>
       (st' = STATE_RECORDING \<and> evt = EVT_START_RECORDING) \<or>
       (st' = STATE_PREPARE_SNAPSHOT \<and> evt = EVT_PREPARE_SNAPSHOT) \<or>
       (st' \<in> {STATE_PIC_TAKING, STATE_PREVIEW_PIC_TAKING} \<and> evt = EVT_TAKE_PICTURE)
   | STATE_PREPARE_SNAPSHOT \<Rightarrow> st' = STATE_PREVIEWING \<and> evt = EVT_EVT_INTERNAL
   | STATE_PIC_TAKING \<Rightarrow>
       (st' = STATE_PREVIEW_STOPPED \<and>
          evt \<in> {EVT_STOP_PREVIEW, EVT_CANCEL_PICTURE, EVT_SNAPSHOT_DONE}) \<or>
       (st' = STATE_PREVIEWING \<and> evt \<in> {EVT_SEND_COMMAND, EVT_SNAPSHOT_DONE})
   | STATE_RECORDING \<Rightarrow>
       (st' = STATE_VIDEO_PIC_TAKING \<and> evt = EVT_TAKE_PICTURE) \<or>
       (st' = STATE_PREVIEWING \<and> evt = EVT_STOP_RECORDING) \<or>
       (st' = STATE_PREVIEW_STOPPED \<and> evt = EVT_STOP_PREVIEW)
   | STATE_VIDEO_PIC_TAKING \<Rightarrow>
       (st' = STATE_RECORDING \<and> evt \<in> {EVT_CANCEL_PICTURE, EVT_SNAPSHOT_DONE}) \<or>
       (st' = STATE_PREVIEWING \<and> evt = EVT_STOP_RECORDING) \<or>
       (st' = STATE_PREVIEW_STOPPED \<and> evt = EVT_STOP_PREVIEW)
   | STATE_PREVIEW_PIC_TAKING \<Rightarrow>
       (st' = STATE_PIC_TAKING \<and> evt = EVT_SET_PARAMS_RESTART) \<or>
       (st' = STATE_PREVIEWING \<and>
          evt \<in> {EVT_SEND_COMMAND, EVT_CANCEL_PICTURE, EVT_SNAPSHOT_DONE}) \<or>
       (st' = STATE_PREVIEW_STOPPED \<and> evt = EVT_STOP_PREVIEW) \<or>
       (st' = STATE_VIDEO_PIC_TAKING \<and> evt = EVT_START_RECORDING))"

section \<open>Permitted calls\<close>

text \<open>In which states a handler may ask the parent for an operation on the streams.\<close>

definition permitted :: "qcamera_state \<Rightarrow> hwi_call \<Rightarrow> bool" where
  "permitted st c \<longleftrightarrow> (case c of
     HW_release \<Rightarrow> st = STATE_PREVIEW_STOPPED
   | HW_stream op \<Rightarrow> (case op of
         S_startRecording \<Rightarrow> st \<in> {STATE_PREVIEWING, STATE_PREVIEW_PIC_TAKING}
       | S_preStartRecording \<Rightarrow> st \<in> {STATE_PREVIEWING, STATE_PREVIEW_PIC_TAKING}
       | S_stopRecording \<Rightarrow> st \<in> {STATE_RECORDING, STATE_VIDEO_PIC_TAKING}
       | S_takePicture \<Rightarrow> st = STATE_PREVIEWING
       | S_takeLiveSnapshot \<Rightarrow> st = STATE_RECORDING
       | S_longShot \<Rightarrow> st \<in> {STATE_PIC_TAKING, STATE_PREVIEW_PIC_TAKING}
       | S_cancelPicture \<Rightarrow> st \<in> {STATE_PIC_TAKING, STATE_PREVIEW_PIC_TAKING}
       | S_cancelLiveSnapshot \<Rightarrow> st \<in> {STATE_VIDEO_PIC_TAKING, STATE_PREVIEW_PIC_TAKING}
       | S_prepareHardwareForSnapshot _ \<Rightarrow> st \<in> {STATE_PREVIEWING, STATE_PREVIEW_PIC_TAKING}
       | S_stopCaptureChannel _ \<Rightarrow> st = STATE_PIC_TAKING
       | _ \<Rightarrow> st \<noteq> STATE_PREPARE_SNAPSHOT)
   | HW_closeNativeHandle _ \<Rightarrow>
       st \<in> {STATE_PREVIEW_STOPPED, STATE_PREVIEW_READY, STATE_PREVIEWING}
   | HW_releaseRecordingFrame _ \<Rightarrow>
       st \<in> {STATE_RECORDING, STATE_VIDEO_PIC_TAKING, STATE_PREVIEW_PIC_TAKING}
   | _ \<Rightarrow> True)"

text \<open>\<open>extends P t0 t\<close>: the trace \<open>t\<close> adds to \<open>t0\<close> only entries that satisfy \<open>P\<close>.\<close>

fun extends :: "('a \<Rightarrow> bool) \<Rightarrow> 'a list \<Rightarrow> 'a list \<Rightarrow> bool" where
  "extends P t0 [] = (t0 = [])"
| "extends P t0 (e # t) = (e # t = t0 \<or> P e \<and> extends P t0 t)"

lemma extends_refl [simp]: "extends P t t"
  by (cases t) auto

lemma extends_iff: "extends P t0 t \<longleftrightarrow> (\<exists>new. t = new @ t0 \<and> (\<forall>e \<in> set new. P e))"
proof (induction t)
  case Nil
  then show ?case by auto
next
  case (Cons e t)
  have "(\<exists>new. e # t = new @ t0 \<and> (\<forall>x \<in> set new. P x)) \<longleftrightarrow>
        e # t = t0 \<or> P e \<and> (\<exists>new. t = new @ t0 \<and> (\<forall>x \<in> set new. P x))"
    by (auto simp: Cons_eq_append_conv)
  with Cons.IH show ?case by simp
qed

lemma extends_Cons: "P e \<Longrightarrow> extends P t0 t \<Longrightarrow> extends P t0 (e # t)"
  by simp

lemma extends_trans: "extends P t0 t1 \<Longrightarrow> extends P t1 t \<Longrightarrow> extends P t0 t"
  by (auto simp: extends_iff)

declare extends.simps [simp del]

section \<open>Invariants\<close>

text \<open>Message types are held back only while the delay flag is set, and only preview frames.\<close>

definition delayed_inv :: "sm \<Rightarrow> bool" where
  "delayed_inv s \<longleftrightarrow>
     m_DelayedMsgs s = 0 \<or>
     (m_DelayedMsgs s = CAMERA_MSG_PREVIEW_FRAME \<and> m_bDelayPreviewMsgs s)"

text \<open>
  A recording is on when the last successful \<open>startRecording\<close> is newer than the last
  \<open>stopRecording\<close>; a capture is on when a \<open>takePicture\<close> or \<open>takeLiveSnapshot\<close> succeeded
  and nothing has been cancelled since.
\<close>

fun recording_on :: "hwi_event list \<Rightarrow> bool" where
  "recording_on [] = False"
| "recording_on ((c, rc, _) # t) =
     (if c = HW_stream S_startRecording \<and> rc = NO_ERROR then True
      else if c = HW_stream S_stopRecording then False
      else recording_on t)"

fun capture_on :: "hwi_event list \<Rightarrow> bool" where
  "capture_on [] = False"
| "capture_on ((c, rc, _) # t) =
     (if (c = HW_stream S_takePicture \<or> c = HW_stream S_takeLiveSnapshot) \<and> rc = NO_ERROR then True
      else if c = HW_stream S_cancelPicture \<or> c = HW_stream S_cancelLiveSnapshot then False
      else capture_on t)"

definition recording_state :: "qcamera_state \<Rightarrow> bool" where
  "recording_state st \<longleftrightarrow> st \<in> {STATE_RECORDING, STATE_VIDEO_PIC_TAKING}"

definition capture_state :: "qcamera_state \<Rightarrow> bool" where
  "capture_state st \<longleftrightarrow> st \<in> {STATE_PIC_TAKING, STATE_VIDEO_PIC_TAKING, STATE_PREVIEW_PIC_TAKING}"

definition sm_inv :: "sm \<Rightarrow> bool" where
  "sm_inv s \<longleftrightarrow>
     delayed_inv s \<and>
     (recording_on (hwi_trace s) \<longleftrightarrow> recording_state (m_state s)) \<and>
     (capture_state (m_state s) \<longrightarrow> capture_on (hwi_trace s))"

section \<open>The step contract\<close>

definition sm_step_ok :: "sm_evt \<Rightarrow> sm \<Rightarrow> status \<Rightarrow> sm \<Rightarrow> bool" where
  "sm_step_ok evt s rc s' \<longleftrightarrow>
     (if is_sync_evt evt then sync_reply_ok evt rc s s' else async_reply_ok evt rc s s') \<and>
     evt_reply_ok evt rc s s' \<and>
     (m_state s' = m_state s \<or> sm_edge (m_state s) evt (m_state s')) \<and>
     extends (\<lambda>e. permitted (m_state s) (fst e)) (hwi_trace s) (hwi_trace s') \<and>
     (sm_inv s \<longrightarrow> sm_inv s')"

lemma is_api_evt_iff:
  "is_api_evt evt \<longleftrightarrow> evt \<notin> {EVT_EVT_INTERNAL, EVT_EVT_NOTIFY, EVT_JPEG_EVT_NOTIFY,
     EVT_SNAPSHOT_DONE, EVT_THERMAL_NOTIFY, EVT_STOP_CAPTURE_CHANNEL, EVT_RESTART_PERVIEW,
     EVT_DELAYED_RESTART, EVT_SEND_COMMAND_RESTART, EVT_RESTART_START_PREVIEW,
     EVT_RESTART_STOP_PREVIEW}"
  by (cases evt) (simp_all add: is_api_evt_def)

lemmas contract_defs = sm_step_ok_def sync_reply_ok_def async_reply_ok_def evt_reply_ok_def
  unanswered_def deferred_def last_said_def ok_answer_def is_sync_evt_def is_api_evt_iff sm_edge_def
  permitted_def extends_Cons sm_inv_def delayed_inv_def recording_state_def capture_state_def

end
