(* ===== verification/SmStopped.thy ===== *)
theory SmStopped
  imports SmTypes
begin

text \<open>
  The handlers of the two states without a running preview,
  \<open>procEvtPreviewStoppedState\<close> and \<open>procEvtPreviewReadyState\<close> of
  QCameraStateMachine.cpp. Each \<open>switch\<close> is cut at case labels into consecutive parts: the
  events a part does not list go on to the next part, the last part ends with the
  \<open>default\<close> label. The first part has the name of the function.
\<close>

section \<open>State PREVIEW_STOPPED\<close>

definition procEvtPreviewStoppedState_3 :: "hwi \<Rightarrow> sm_evt \<Rightarrow> payload \<Rightarrow> status sm_prog" where
  "procEvtPreviewStoppedState_3 hw evt payload = (case evt of
     EVT_SEND_COMMAND \<Rightarrow> do {
       rc \<leftarrow> hcall hw HW_waitDeferredWork_mParamInitJob;
       rc \<leftarrow> (if rc \<noteq> NO_ERROR then State_Monad.return rc
             else let c = as_command payload in hcall hw (HW_sendCommand (cmd c) (arg1 c) (arg2 c)));
       reply hw evt rc }
   | EVT_RELEASE_RECORIDNG_FRAME \<Rightarrow> do {
       _ \<leftarrow> hcall hw (HW_closeNativeHandle (as_ptr payload));
       State_Monad.return NO_ERROR }
   | EVT_PRE_START_RECORDING \<Rightarrow> reply hw evt INVALID_OPERATION
   | EVT_RESTART_STOP_PREVIEW \<Rightarrow> reply hw evt INVALID_OPERATION
   | EVT_RESTART_START_PREVIEW \<Rightarrow> reply hw evt INVALID_OPERATION
   | EVT_START_RECORDING \<Rightarrow> reply hw evt INVALID_OPERATION
   | EVT_STOP_RECORDING \<Rightarrow> reply hw evt INVALID_OPERATION
   | EVT_PREPARE_SNAPSHOT \<Rightarrow> reply hw evt INVALID_OPERATION
   | EVT_PRE_TAKE_PICTURE \<Rightarrow> reply hw evt INVALID_OPERATION
   | EVT_TAKE_PICTURE \<Rightarrow> reply hw evt INVALID_OPERATION
   | EVT_START_AUTO_FOCUS \<Rightarrow> reply hw evt NO_ERROR
   | EVT_CANCEL_PICTURE \<Rightarrow> reply hw evt NO_ERROR
   | EVT_STOP_AUTO_FOCUS \<Rightarrow> do {
       rc \<leftarrow> hcall hw HW_waitDeferredWork_mParamInitJob;
       rc \<leftarrow> (if rc \<noteq> NO_ERROR then State_Monad.return rc else hcall hw HW_cancelAutoFocus);
       reply hw evt rc }
   | EVT_REG_FACE_IMAGE \<Rightarrow> do {
       let reg = as_reg_face payload;
       (rc, faceID, _) \<leftarrow> hcall2 hw (HW_registerFaceImage (img_ptr reg) (config reg));
       reply_handle hw evt rc faceID }
   | EVT_THERMAL_NOTIFY \<Rightarrow> do {
       rc \<leftarrow> hcall hw HW_waitDeferredWork_mParamInitJob;
       if rc \<noteq> NO_ERROR then State_Monad.return rc
       else hcall hw (HW_updateThermalLevel (as_ptr payload)) }
   | EVT_EVT_NOTIFY \<Rightarrow> (case as_cam_evt payload of
         CAM_EVENT_TYPE_DAEMON_DIED \<Rightarrow> do {
           _ \<leftarrow> hcall hw HW_sendServerDiedNotify;
           State_Monad.return NO_ERROR }
       | _ \<Rightarrow> State_Monad.return NO_ERROR)
   | EVT_SNAPSHOT_DONE \<Rightarrow> signalEvtResult hw evt NO_ERROR
   | EVT_EVT_INTERNAL \<Rightarrow> (let ie = as_internal payload in case evt_type ie of
         INTERNAL_EVT_LED_MODE_OVERRIDE \<Rightarrow> do {
           rc \<leftarrow> hcall hw HW_waitDeferredWork_mParamInitJob;
           if rc \<noteq> NO_ERROR then State_Monad.return rc
           else hcall hw (HW_process P_updateFlashMode (evt_data ie)) }
       | _ \<Rightarrow> State_Monad.return NO_ERROR)
   | _ \<Rightarrow> State_Monad.return NO_ERROR)"

definition procEvtPreviewStoppedState_2 :: "hwi \<Rightarrow> sm_evt \<Rightarrow> payload \<Rightarrow> status sm_prog" where
  "procEvtPreviewStoppedState_2 hw evt payload = (case evt of
     EVT_PUT_PARAMS \<Rightarrow> do {
       rc \<leftarrow> hcall hw (HW_putParameters (as_ptr payload));
       reply hw evt rc }
   | EVT_PREPARE_PREVIEW \<Rightarrow> do {
       rc \<leftarrow> hcall hw HW_waitDeferredWork_mParamInitJob;
       rc \<leftarrow> (if rc \<noteq> NO_ERROR then State_Monad.return rc else hstream hw S_preparePreview);
       whenM (rc = NO_ERROR) (set_m_state STATE_PREVIEW_READY);
       reply hw evt rc }
   | EVT_START_PREVIEW \<Rightarrow> do {
       rc \<leftarrow> hcall hw HW_waitDeferredWork_mParamInitJob;
       rc \<leftarrow> (if rc \<noteq> NO_ERROR then State_Monad.return rc
         else do {
           window \<leftarrow> hquery hw Q_mPreviewWindow;
           if \<not> window then do {
             rc \<leftarrow> hstream hw S_preparePreview;
             whenM (rc = NO_ERROR) (set_m_state STATE_PREVIEW_READY);
             State_Monad.return rc }
           else do {
             rc \<leftarrow> hstream hw S_preparePreview;
             if rc = NO_ERROR then do {
               _ \<leftarrow> applyDelayedMsgs hw;
               rc \<leftarrow> hstream hw S_startPreview;
               if rc \<noteq> NO_ERROR then do {
                 _ \<leftarrow> hstream hw S_unpreparePreview;
                 State_Monad.return rc }
               else do {
                 set_m_state STATE_PREVIEWING;
                 State_Monad.return rc } }
             else State_Monad.return rc } });
       reply hw evt rc }
   | EVT_START_NODISPLAY_PREVIEW \<Rightarrow> do {
       rc \<leftarrow> hcall hw HW_waitDeferredWork_mParamInitJob;
       rc \<leftarrow> (if rc \<noteq> NO_ERROR then State_Monad.return rc else hstream hw S_preparePreview);
       rc \<leftarrow> (if rc = NO_ERROR then do {
           _ \<leftarrow> applyDelayedMsgs hw;
           rc \<leftarrow> hstream hw S_startPreview;
           if rc \<noteq> NO_ERROR then do {
             _ \<leftarrow> hstream hw S_unpreparePreview;
             State_Monad.return rc }
           else do {
             set_m_state STATE_PREVIEWING;
             State_Monad.return rc } }
         else State_Monad.return rc);
       reply hw evt rc }
   | EVT_STOP_PREVIEW \<Rightarrow> reply hw evt NO_ERROR
   | EVT_PREVIEW_ENABLED \<Rightarrow> reply_flag hw evt NO_ERROR 0
   | EVT_RECORDING_ENABLED \<Rightarrow> reply_flag hw evt NO_ERROR 0
   | EVT_RELEASE \<Rightarrow> do {
       rc \<leftarrow> hcall hw HW_release;
       reply hw evt rc }
   | EVT_STORE_METADATA_IN_BUFS \<Rightarrow> do {
       rc \<leftarrow> hcall hw (HW_storeMetaDataInBuffers (as_int payload));
       reply hw evt rc }
   | EVT_DUMP \<Rightarrow> do {
       rc \<leftarrow> hcall hw HW_waitDeferredWork_mParamInitJob;
       rc \<leftarrow> (if rc \<noteq> NO_ERROR then State_Monad.return rc
             else hcall hw (HW_dump (as_int payload)));
       reply hw evt rc }
   | _ \<Rightarrow> procEvtPreviewStoppedState_3 hw evt payload)"

definition procEvtPreviewStoppedState :: "hwi \<Rightarrow> sm_evt \<Rightarrow> payload \<Rightarrow> status sm_prog" where
  "procEvtPreviewStoppedState hw evt payload = (case evt of
     EVT_SET_PREVIEW_WINDOW \<Rightarrow> do {
       rc \<leftarrow> hcall hw (HW_setPreviewWindow (as_ptr payload));
       reply hw evt rc }
   | EVT_SET_CALLBACKS \<Rightarrow> do {
       rc \<leftarrow> hcall hw (HW_setCallBacks (as_setcb payload));
       reply hw evt rc }
   | EVT_ENABLE_MSG_TYPE \<Rightarrow> do {
       rc \<leftarrow> hcall hw HW_waitDeferredWork_mParamInitJob;
       rc \<leftarrow> (if rc \<noteq> NO_ERROR then State_Monad.return rc
             else hcall hw (HW_enableMsgType (as_int payload)));
       reply hw evt rc }
   | EVT_DISABLE_MSG_TYPE \<Rightarrow> do {
       rc \<leftarrow> hcall hw HW_waitDeferredWork_mParamInitJob;
       rc \<leftarrow> (if rc \<noteq> NO_ERROR then State_Monad.return rc
             else hcall hw (HW_disableMsgType (as_int payload)));
       reply hw evt rc }
   | EVT_MSG_TYPE_ENABLED \<Rightarrow> do {
       enabled \<leftarrow> hcall hw (HW_msgTypeEnabled (as_int payload));
       reply_flag hw evt NO_ERROR enabled }
   | EVT_SET_PARAMS \<Rightarrow> do {
       rc \<leftarrow> hcall hw HW_waitDeferredWork_mParamInitJob;
       rc \<leftarrow> (if rc \<noteq> NO_ERROR then State_Monad.return rc
             else hcall hw (HW_updateParameters (as_ptr payload)));
       reply hw evt rc }
   | EVT_SET_PARAMS_STOP \<Rightarrow> do {
       _ \<leftarrow> hcall hw HW_memoryPool_clear;
       reply hw evt NO_ERROR }
   | EVT_SET_PARAMS_COMMIT \<Rightarrow> do {
       rc \<leftarrow> hcall hw HW_commitParameterChanges;
       reply hw evt rc }
   | EVT_SET_PARAMS_RESTART \<Rightarrow> do {
       _ \<leftarrow> hcall hw (HW_setNeedRestart False);
       reply hw evt NO_ERROR }
   | EVT_GET_PARAMS \<Rightarrow> do {
       rc \<leftarrow> hcall hw HW_waitDeferredWork_mParamInitJob;
       params \<leftarrow> (if rc \<noteq> NO_ERROR then hcall hw (HW_malloc 1) else hcall hw HW_getParameters);
       reply_params hw evt params }
   | _ \<Rightarrow> procEvtPreviewStoppedState_2 hw evt payload)"

section \<open>State PREVIEW_READY\<close>

definition procEvtPreviewReadyState_3 :: "hwi \<Rightarrow> sm_evt \<Rightarrow> payload \<Rightarrow> status sm_prog" where
  "procEvtPreviewReadyState_3 hw evt payload = (case evt of
     EVT_REG_FACE_IMAGE \<Rightarrow> do {
       let reg = as_reg_face payload;
       (rc, faceID, _) \<leftarrow> hcall2 hw (HW_registerFaceImage (img_ptr reg) (config reg));
       reply_handle hw evt rc faceID }
   | EVT_RELEASE_RECORIDNG_FRAME \<Rightarrow> do {
       _ \<leftarrow> hcall hw (HW_closeNativeHandle (as_ptr payload));
       State_Monad.return NO_ERROR }
   | EVT_PRE_START_RECORDING \<Rightarrow> reply hw evt INVALID_OPERATION
   | EVT_RESTART_STOP_PREVIEW \<Rightarrow> reply hw evt INVALID_OPERATION
   | EVT_RESTART_START_PREVIEW \<Rightarrow> reply hw evt INVALID_OPERATION
   | EVT_START_RECORDING \<Rightarrow> reply hw evt INVALID_OPERATION
   | EVT_STOP_RECORDING \<Rightarrow> reply hw evt INVALID_OPERATION
   | EVT_PREPARE_SNAPSHOT \<Rightarrow> reply hw evt INVALID_OPERATION
   | EVT_PRE_TAKE_PICTURE \<Rightarrow> reply hw evt INVALID_OPERATION
   | EVT_TAKE_PICTURE \<Rightarrow> reply hw evt INVALID_OPERATION
   | EVT_CANCEL_PICTURE \<Rightarrow> reply hw evt INVALID_OPERATION
   | EVT_RELEASE \<Rightarrow> reply hw evt INVALID_OPERATION
   | EVT_EVT_NOTIFY \<Rightarrow> (case as_cam_evt payload of
         CAM_EVENT_TYPE_DAEMON_DIED \<Rightarrow> do {
           _ \<leftarrow> hcall hw HW_sendServerDiedNotify;
           State_Monad.return NO_ERROR }
       | _ \<Rightarrow> State_Monad.return NO_ERROR)
   | EVT_SNAPSHOT_DONE \<Rightarrow> signalEvtResult hw evt NO_ERROR
   | EVT_EVT_INTERNAL \<Rightarrow> (let ie = as_internal payload in case evt_type ie of
         INTERNAL_EVT_LED_MODE_OVERRIDE \<Rightarrow> hcall hw (HW_process P_updateFlashMode (evt_data ie))
       | _ \<Rightarrow> State_Monad.return NO_ERROR)
   | _ \<Rightarrow> State_Monad.return NO_ERROR)"

definition procEvtPreviewReadyState_2 :: "hwi \<Rightarrow> sm_evt \<Rightarrow> payload \<Rightarrow> status sm_prog" where
  "procEvtPreviewReadyState_2 hw evt payload = (case evt of
     EVT_PREPARE_PREVIEW \<Rightarrow> reply hw evt NO_ERROR
   | EVT_START_NODISPLAY_PREVIEW \<Rightarrow> do {
       rc \<leftarrow> hstream hw S_startPreview;
       (if rc \<noteq> NO_ERROR then do {
          _ \<leftarrow> hstream hw S_unpreparePreview;
          set_m_state STATE_PREVIEW_STOPPED }
        else set_m_state STATE_PREVIEWING);
       \<comment> \<open>the code sets \<open>rc\<close> to NO_ERROR here, whatever \<open>startPreview\<close> returned\<close>
       reply hw evt NO_ERROR }
   | EVT_START_PREVIEW \<Rightarrow> do {
       window \<leftarrow> hquery hw Q_mPreviewWindow;
       whenM window (do {
         rc \<leftarrow> hstream hw S_startPreview;
         if rc \<noteq> NO_ERROR then do {
           _ \<leftarrow> hstream hw S_unpreparePreview;
           set_m_state STATE_PREVIEW_STOPPED }
         else set_m_state STATE_PREVIEWING });
       reply hw evt NO_ERROR }
   | EVT_STOP_PREVIEW \<Rightarrow> do {
       _ \<leftarrow> hstream hw S_unpreparePreview;
       set_m_state STATE_PREVIEW_STOPPED;
       reply hw evt NO_ERROR }
   | EVT_PREVIEW_ENABLED \<Rightarrow> reply_flag hw evt NO_ERROR 1
   | EVT_RECORDING_ENABLED \<Rightarrow> reply_flag hw evt NO_ERROR 0
   | EVT_STORE_METADATA_IN_BUFS \<Rightarrow> do {
       rc \<leftarrow> hcall hw (HW_storeMetaDataInBuffers (as_int payload));
       reply hw evt rc }
   | EVT_DUMP \<Rightarrow> do {
       rc \<leftarrow> hcall hw (HW_dump (as_int payload));
       reply hw evt rc }
   | EVT_START_AUTO_FOCUS \<Rightarrow> do {
       rc \<leftarrow> hcall hw HW_autoFocus;
       reply hw evt rc }
   | EVT_STOP_AUTO_FOCUS \<Rightarrow> do {
       rc \<leftarrow> hcall hw HW_cancelAutoFocus;
       reply hw evt rc }
   | EVT_SEND_COMMAND \<Rightarrow> do {
       let c = as_command payload;
       rc \<leftarrow> hcall hw (HW_sendCommand (cmd c) (arg1 c) (arg2 c));
       reply hw evt rc }
   | _ \<Rightarrow> procEvtPreviewReadyState_3 hw evt payload)"

definition procEvtPreviewReadyState :: "hwi \<Rightarrow> sm_evt \<Rightarrow> payload \<Rightarrow> status sm_prog" where
  "procEvtPreviewReadyState hw evt payload = (case evt of
     EVT_SET_PREVIEW_WINDOW \<Rightarrow> do {
       _ \<leftarrow> hcall hw (HW_setPreviewWindow (as_ptr payload));
       window \<leftarrow> hquery hw Q_mPreviewWindow;
       rc \<leftarrow> (if window then do {
           _ \<leftarrow> applyDelayedMsgs hw;
           rc \<leftarrow> hstream hw S_startPreview;
           if rc \<noteq> NO_ERROR then do {
             _ \<leftarrow> hstream hw S_unpreparePreview;
             set_m_state STATE_PREVIEW_STOPPED;
             State_Monad.return rc }
           else do {
             set_m_state STATE_PREVIEWING;
             State_Monad.return rc } }
         else State_Monad.return NO_ERROR);
       reply hw evt rc }
   | EVT_SET_CALLBACKS \<Rightarrow> do {
       rc \<leftarrow> hcall hw (HW_setCallBacks (as_setcb payload));
       reply hw evt rc }
   | EVT_ENABLE_MSG_TYPE \<Rightarrow> do {
       rc \<leftarrow> hcall hw (HW_enableMsgType (as_int payload));
       reply hw evt rc }
   | EVT_DISABLE_MSG_TYPE \<Rightarrow> do {
       rc \<leftarrow> hcall hw (HW_disableMsgType (as_int payload));
       reply hw evt rc }
   | EVT_MSG_TYPE_ENABLED \<Rightarrow> do {
       enabled \<leftarrow> hcall hw (HW_msgTypeEnabled (as_int payload));
       reply_flag hw evt NO_ERROR enabled }
   | EVT_SET_PARAMS \<Rightarrow> do {
       rc \<leftarrow> hcall hw (HW_updateParameters (as_ptr payload));
       reply hw evt rc }
   | EVT_SET_PARAMS_STOP \<Rightarrow> do {
       _ \<leftarrow> hstream hw S_unpreparePreview;
       _ \<leftarrow> hcall hw HW_memoryPool_clear;
       reply hw evt NO_ERROR }
   | EVT_SET_PARAMS_COMMIT \<Rightarrow> do {
       rc \<leftarrow> hcall hw HW_commitParameterChanges;
       reply hw evt rc }
   | EVT_SET_PARAMS_RESTART \<Rightarrow> do {
       rc \<leftarrow> hstream hw S_preparePreview;
       whenM (rc \<noteq> NO_ERROR) (set_m_state STATE_PREVIEW_STOPPED);
       _ \<leftarrow> hcall hw (HW_setNeedRestart False);
       reply hw evt rc }
   | EVT_GET_PARAMS \<Rightarrow> do {
       params \<leftarrow> hcall hw HW_getParameters;
       reply_params hw evt params }
   | EVT_PUT_PARAMS \<Rightarrow> do {
       rc \<leftarrow> hcall hw (HW_putParameters (as_ptr payload));
       reply hw evt rc }
   | _ \<Rightarrow> procEvtPreviewReadyState_2 hw evt payload)"

lemmas procEvtPreviewStoppedState_defs [handler_defs] =
  procEvtPreviewStoppedState_def procEvtPreviewStoppedState_2_def procEvtPreviewStoppedState_3_def

lemmas procEvtPreviewReadyState_defs [handler_defs] =
  procEvtPreviewReadyState_def procEvtPreviewReadyState_2_def procEvtPreviewReadyState_3_def

end
