(* ===== verification/SmPreviewing.thy ===== *)
theory SmPreviewing
  imports SmTypes
begin

text \<open>
  The handlers of the states PREVIEWING and PREPARE_SNAPSHOT of QCameraStateMachine.cpp,
  \<open>procEvtPreviewingState\<close> and \<open>procEvtPrepareSnapshotState\<close>. As in the other handler
  theories the \<open>switch\<close> is cut into consecutive parts, and the nested \<open>switch\<close> on the
  type of an internal event has a definition of its own. The code between
  \<open>#ifndef VANILLA_HAL\<close> is included, as no build file of the repository sets the macro.
\<close>

unbundle bit_operations_syntax

section \<open>State PREVIEWING\<close>

definition previewing_internal :: "hwi \<Rightarrow> payload \<Rightarrow> status sm_prog" where
  "previewing_internal hw payload = (let d = evt_data (as_internal payload) in
     case evt_type (as_internal payload) of
       INTERNAL_EVT_FOCUS_UPDATE \<Rightarrow> hcall hw (HW_process P_processAutoFocusEvent d)
     | INTERNAL_EVT_PREP_SNAPSHOT_DONE \<Rightarrow> State_Monad.return NO_ERROR
     | INTERNAL_EVT_FACE_DETECT_RESULT \<Rightarrow> hcall hw (HW_process P_processFaceDetectionResult d)
     | INTERNAL_EVT_HISTOGRAM_STATS \<Rightarrow> hcall hw (HW_process P_processHistogramStats d)
     | INTERNAL_EVT_CROP_INFO \<Rightarrow> hcall hw (HW_process P_processZoomEvent d)
     | INTERNAL_EVT_ASD_UPDATE \<Rightarrow> hcall hw (HW_process P_processASDUpdate d)
     | INTERNAL_EVT_LED_MODE_OVERRIDE \<Rightarrow> hcall hw (HW_process P_updateFlashMode d)
     | INTERNAL_EVT_AWB_UPDATE \<Rightarrow> hcall hw (HW_process P_transAwbMetaToParams d)
     | INTERNAL_EVT_AE_UPDATE \<Rightarrow> hcall hw (HW_process P_processAEInfo d)
     | INTERNAL_EVT_FOCUS_POS_UPDATE \<Rightarrow> hcall hw (HW_process P_processFocusPositionInfo d)
     | INTERNAL_EVT_HDR_UPDATE \<Rightarrow> hcall hw (HW_process P_processHDRData d)
     | INTERNAL_EVT_RETRO_AEC_UNLOCK \<Rightarrow> hcall hw (HW_process P_processRetroAECUnlock 0)
     | INTERNAL_EVT_ZSL_CAPTURE_DONE \<Rightarrow> hcall hw (HW_process P_processZSLCaptureDone 0)
     | _ \<Rightarrow> State_Monad.return NO_ERROR)"

definition procEvtPreviewingState_5 :: "hwi \<Rightarrow> sm_evt \<Rightarrow> payload \<Rightarrow> status sm_prog" where
  "procEvtPreviewingState_5 hw evt payload = (case evt of
     EVT_EVT_NOTIFY \<Rightarrow> (case as_cam_evt payload of
         CAM_EVENT_TYPE_DAEMON_DIED \<Rightarrow> do {
           _ \<leftarrow> hcall hw HW_sendServerDiedNotify;
           State_Monad.return NO_ERROR }
       | _ \<Rightarrow> State_Monad.return NO_ERROR)
   | EVT_THERMAL_NOTIFY \<Rightarrow> hcall hw (HW_updateThermalLevel (as_ptr payload))
   | EVT_SNAPSHOT_DONE \<Rightarrow> signalEvtResult hw evt NO_ERROR
   | EVT_RESTART_STOP_PREVIEW \<Rightarrow> do {
       _ \<leftarrow> hstream hw S_stopPreview;
       reply hw evt NO_ERROR }
   | EVT_RESTART_START_PREVIEW \<Rightarrow> do {
       rc \<leftarrow> hstream hw S_preparePreview;
       rc \<leftarrow> (if rc = NO_ERROR then hstream hw S_startPreview else State_Monad.return rc);
       reply hw evt rc }
   | _ \<Rightarrow> State_Monad.return NO_ERROR)"

definition procEvtPreviewingState_4 :: "hwi \<Rightarrow> sm_evt \<Rightarrow> payload \<Rightarrow> status sm_prog" where
  "procEvtPreviewingState_4 hw evt payload = (case evt of
     EVT_REG_FACE_IMAGE \<Rightarrow> do {
       let reg = as_reg_face payload;
       (rc, faceID, _) \<leftarrow> hcall2 hw (HW_registerFaceImage (img_ptr reg) (config reg));
       reply_handle hw evt rc faceID }
   | EVT_RELEASE_RECORIDNG_FRAME \<Rightarrow> do {
       _ \<leftarrow> hcall hw (HW_closeNativeHandle (as_ptr payload));
       State_Monad.return NO_ERROR }
   | EVT_RELEASE \<Rightarrow> reply hw evt INVALID_OPERATION
   | EVT_CANCEL_PICTURE \<Rightarrow> reply hw evt NO_ERROR
   | EVT_STOP_RECORDING \<Rightarrow> reply hw evt NO_ERROR
   | EVT_EVT_INTERNAL \<Rightarrow> previewing_internal hw payload
   | _ \<Rightarrow> procEvtPreviewingState_5 hw evt payload)"

text \<open>The failure path of a capture without ZSL: the preview is started again.\<close>

definition takePicture_recover :: "hwi \<Rightarrow> unit sm_prog" where
  "takePicture_recover hw = do {
     _ \<leftarrow> hstream hw S_unconfigureAdvancedCapture;
     _ \<leftarrow> hstream hw S_stopPreview;
     temp_rc \<leftarrow> hstream hw S_preparePreview;
     if temp_rc = NO_ERROR then do {
       temp_rc \<leftarrow> hstream hw S_startPreview;
       if temp_rc \<noteq> NO_ERROR then do {
         _ \<leftarrow> hstream hw S_unpreparePreview;
         set_m_state STATE_PREVIEW_STOPPED }
       else set_m_state STATE_PREVIEWING }
     else set_m_state STATE_PREVIEW_STOPPED }"

text \<open>A set recording hint is cleared first, with the preview stopped and started around it.\<close>

definition takePicture_clearHint :: "hwi \<Rightarrow> unit sm_prog" where
  "takePicture_clearHint hw = do {
     hint \<leftarrow> hquery hw Q_getRecordingHintValue;
     whenM hint (do {
       _ \<leftarrow> hstream hw S_stopPreview;
       _ \<leftarrow> hcall hw (HW_updateRecordingHintValue False);
       rc \<leftarrow> hstream hw S_preparePreview;
       whenM (rc = NO_ERROR) (do {
         rc \<leftarrow> hstream hw S_startPreview;
         whenM (rc \<noteq> NO_ERROR) (do {
           _ \<leftarrow> hstream hw S_unpreparePreview;
           State_Monad.return () }) }) }) }"

definition takePicture_capture :: "hwi \<Rightarrow> sm_evt \<Rightarrow> status sm_prog" where
  "takePicture_capture hw evt = do {
     zsl \<leftarrow> hquery_or hw Q_isZSLMode Q_isLongshotEnabled;
     if zsl then do {
       restartPreview \<leftarrow> hquery hw Q_isPreviewRestartEnabled;
       disableZSL \<leftarrow> (if restartPreview then do {
           mode \<leftarrow> hcall hw (HW_query Q_getManualCaptureMode);
           State_Monad.return (mode \<ge> CAM_MANUAL_CAPTURE_TYPE_3) }
         else State_Monad.return False);
       (if disableZSL then do {
          _ \<leftarrow> hstream hw S_stopPreview;
          _ \<leftarrow> hcall hw (HW_updateZSLModeValue False);
          upd (\<lambda>s. s\<lparr>m_RestoreZSL := True, m_bDelayPreviewMsgs := True\<rparr>);
          set_m_state STATE_PIC_TAKING }
        else do {
          set_m_state STATE_PREVIEW_PIC_TAKING;
          upd (\<lambda>s. s\<lparr>m_bDelayPreviewMsgs := True\<rparr>) });
       rc \<leftarrow> hstream hw S_takePicture;
       whenM (rc \<noteq> NO_ERROR) (do {
         _ \<leftarrow> hstream hw S_unconfigureAdvancedCapture;
         set_m_state STATE_PREVIEWING });
       retro \<leftarrow> hquery hw Q_isRetroPicture;
       if \<not> retro \<or> rc \<noteq> NO_ERROR then reply hw evt rc
       else State_Monad.return rc }
     else do {
       set_m_state STATE_PIC_TAKING;
       rc \<leftarrow> hstream hw S_takePicture;
       whenM (rc \<noteq> NO_ERROR) (takePicture_recover hw);
       reply hw evt rc } }"

definition previewing_takePicture :: "hwi \<Rightarrow> sm_evt \<Rightarrow> status sm_prog" where
  "previewing_takePicture hw evt = do {
     takePicture_clearHint hw;
     takePicture_capture hw evt }"

definition procEvtPreviewingState_3 :: "hwi \<Rightarrow> sm_evt \<Rightarrow> payload \<Rightarrow> status sm_prog" where
  "procEvtPreviewingState_3 hw evt payload = (case evt of
     EVT_PRE_TAKE_PICTURE \<Rightarrow> do {
       rc \<leftarrow> hstream hw S_preTakePicture;
       reply hw evt rc }
   | EVT_TAKE_PICTURE \<Rightarrow> previewing_takePicture hw evt
   | EVT_SEND_COMMAND \<Rightarrow> do {
       let c = as_command payload;
       \<comment> \<open>\<open>sendCommand\<close> stores the restart request through its two last arguments\<close>
       (rc, a1, a2) \<leftarrow> hcall2 hw (HW_sendCommand (cmd c) (arg1 c) (arg2 c));
       upd (\<lambda>s. s\<lparr>
         m_bPreviewNeedsRestart := (a1 = int (sm_evt_num EVT_RESTART_PERVIEW)),
         m_bPreviewDelayedRestart := (a2 = int (sm_evt_num EVT_DELAYED_RESTART))\<rparr>);
       needsRestart \<leftarrow> reads m_bPreviewNeedsRestart;
       rc \<leftarrow> (if cmd c = CAMERA_CMD_LONGSHOT_ON \<and> needsRestart then do {
           _ \<leftarrow> hstream hw S_stopPreview;
           _ \<leftarrow> hcall hw HW_memoryPool_clear;
           delayed \<leftarrow> reads m_bPreviewDelayedRestart;
           if \<not> delayed then do {
             rc \<leftarrow> hstream hw S_preparePreview;
             if rc = NO_ERROR then do {
               _ \<leftarrow> applyDelayedMsgs hw;
               rc \<leftarrow> hstream hw S_startPreview;
               if rc \<noteq> NO_ERROR then do {
                 _ \<leftarrow> hstream hw S_unpreparePreview;
                 State_Monad.return rc }
               else State_Monad.return rc }
             else State_Monad.return rc }
           else State_Monad.return rc }
         else State_Monad.return rc);
       reply hw evt rc }
   | EVT_SEND_COMMAND_RESTART \<Rightarrow> do {
       let c = as_command payload;
       needsRestart \<leftarrow> reads m_bPreviewNeedsRestart;
       delayed \<leftarrow> reads m_bPreviewDelayedRestart;
       rc \<leftarrow> (if cmd c = CAMERA_CMD_LONGSHOT_ON \<and> needsRestart \<and> delayed then do {
           rc \<leftarrow> hstream hw S_preparePreview;
           if rc = NO_ERROR then do {
             rc \<leftarrow> hstream hw S_startPreview;
             if rc \<noteq> NO_ERROR then do {
               _ \<leftarrow> hstream hw S_unpreparePreview;
               State_Monad.return rc }
             else State_Monad.return rc }
           else State_Monad.return rc }
         else State_Monad.return NO_ERROR);
       reply hw evt rc }
   | _ \<Rightarrow> procEvtPreviewingState_4 hw evt payload)"

definition procEvtPreviewingState_2 :: "hwi \<Rightarrow> sm_evt \<Rightarrow> payload \<Rightarrow> status sm_prog" where
  "procEvtPreviewingState_2 hw evt payload = (case evt of
     EVT_PUT_PARAMS \<Rightarrow> do {
       rc \<leftarrow> hcall hw (HW_putParameters (as_ptr payload));
       reply hw evt rc }
   | EVT_PREPARE_PREVIEW \<Rightarrow> reply hw evt NO_ERROR
   | EVT_START_PREVIEW \<Rightarrow> do {
       _ \<leftarrow> applyDelayedMsgs hw;
       reply hw evt NO_ERROR }
   | EVT_START_NODISPLAY_PREVIEW \<Rightarrow> do {
       _ \<leftarrow> applyDelayedMsgs hw;
       reply hw evt NO_ERROR }
   | EVT_STOP_PREVIEW \<Rightarrow> do {
       set_m_state STATE_PREVIEW_STOPPED;
       rc \<leftarrow> hstream hw S_stopPreview;
       _ \<leftarrow> applyDelayedMsgs hw;
       reply hw evt rc }
   | EVT_PREVIEW_ENABLED \<Rightarrow> do {
       _ \<leftarrow> applyDelayedMsgs hw;
       reply_flag hw evt NO_ERROR 1 }
   | EVT_RECORDING_ENABLED \<Rightarrow> reply_flag hw evt NO_ERROR 0
   | EVT_STORE_METADATA_IN_BUFS \<Rightarrow> do {
       rc \<leftarrow> hcall hw (HW_storeMetaDataInBuffers (as_int payload));
       reply hw evt rc }
   | EVT_DUMP \<Rightarrow> do {
       rc \<leftarrow> hcall hw (HW_dump (as_int payload));
       reply hw evt rc }
   | EVT_START_AUTO_FOCUS \<Rightarrow> do {
       rc \<leftarrow> hcall hw HW_autoFocus;
       reply hw evt rc }
   | EVT_STOP_AUTO_FOCUS \<Rightarrow> do {
       rc \<leftarrow> hcall hw HW_cancelAutoFocus;
       reply hw evt rc }
   | EVT_PRE_START_RECORDING \<Rightarrow> do {
       rc \<leftarrow> hstream hw S_preStartRecording;
       reply hw evt rc }
   | EVT_START_RECORDING \<Rightarrow> do {
       rc \<leftarrow> hstream hw S_startRecording;
       whenM (rc = NO_ERROR) (do {
         set_m_state STATE_RECORDING;
         _ \<leftarrow> applyDelayedMsgs hw;
         State_Monad.return () });
       reply hw evt rc }
   | EVT_PREPARE_SNAPSHOT \<Rightarrow> do {
       rc \<leftarrow> hstream hw (S_prepareHardwareForSnapshot False);
       if rc = NO_ERROR then do {
         set_m_state STATE_PREPARE_SNAPSHOT;
         _ \<leftarrow> applyDelayedMsgs hw;
         State_Monad.return rc }
       else reply hw evt rc }
   | _ \<Rightarrow> procEvtPreviewingState_3 hw evt payload)"

definition procEvtPreviewingState :: "hwi \<Rightarrow> sm_evt \<Rightarrow> payload \<Rightarrow> status sm_prog" where
  "procEvtPreviewingState hw evt payload = (case evt of
     EVT_SET_PREVIEW_WINDOW \<Rightarrow> reply hw evt INVALID_OPERATION
   | EVT_SET_CALLBACKS \<Rightarrow> do {
       rc \<leftarrow> hcall hw (HW_setCallBacks (as_setcb payload));
       reply hw evt rc }
   | EVT_ENABLE_MSG_TYPE \<Rightarrow> do {
       let enable_msgs = as_int payload;
       delay \<leftarrow> reads m_bDelayPreviewMsgs;
       let defer = (delay \<and> enable_msgs AND CAMERA_MSG_PREVIEW_FRAME \<noteq> 0);
       whenM defer (upd (\<lambda>s. s\<lparr>m_DelayedMsgs := CAMERA_MSG_PREVIEW_FRAME\<rparr>));
       rc \<leftarrow> hcall hw (HW_enableMsgType
               (if defer then enable_msgs AND NOT CAMERA_MSG_PREVIEW_FRAME else enable_msgs));
       reply hw evt rc }
   | EVT_DISABLE_MSG_TYPE \<Rightarrow> do {
       let disable_msgs = as_int payload;
       delay \<leftarrow> reads m_bDelayPreviewMsgs;
       delayed \<leftarrow> reads m_DelayedMsgs;
       whenM (delay \<and> delayed \<noteq> 0) (do {
         upd (\<lambda>s. s\<lparr>m_DelayedMsgs := delayed AND NOT disable_msgs\<rparr>);
         whenM (delayed AND NOT disable_msgs = 0) (upd (\<lambda>s. s\<lparr>m_bDelayPreviewMsgs := False\<rparr>)) });
       rc \<leftarrow> hcall hw (HW_disableMsgType disable_msgs);
       reply hw evt rc }
   | EVT_MSG_TYPE_ENABLED \<Rightarrow> do {
       let msgs = as_int payload;
       enabled \<leftarrow> hcall hw (HW_msgTypeEnabled msgs);
       delay \<leftarrow> reads m_bDelayPreviewMsgs;
       delayed \<leftarrow> reads m_DelayedMsgs;
       reply_flag hw evt NO_ERROR
         (if delay \<and> delayed \<noteq> 0 then sint (word_of_int enabled OR (msgs AND delayed)) else enabled) }
   | EVT_SET_PARAMS \<Rightarrow> do {
       rc \<leftarrow> hcall hw (HW_updateParameters (as_ptr payload));
       reply hw evt rc }
   | EVT_SET_PARAMS_STOP \<Rightarrow> do {
       rc \<leftarrow> hstream hw S_stopPreview;
       _ \<leftarrow> hcall hw HW_memoryPool_clear;
       reply hw evt rc }
   | EVT_SET_PARAMS_COMMIT \<Rightarrow> do {
       rc \<leftarrow> hcall hw HW_commitParameterChanges;
       reply hw evt rc }
   | EVT_SET_PARAMS_RESTART \<Rightarrow> do {
       rc \<leftarrow> hstream hw S_preparePreview;
       rc \<leftarrow> (if rc = NO_ERROR then do {
           _ \<leftarrow> applyDelayedMsgs hw;
           rc \<leftarrow> hstream hw S_startPreview;
           if rc \<noteq> NO_ERROR then do {
             _ \<leftarrow> hstream hw S_unpreparePreview;
             set_m_state STATE_PREVIEW_STOPPED;
             State_Monad.return rc }
           else State_Monad.return rc }
         else State_Monad.return rc);
       _ \<leftarrow> hcall hw (HW_setNeedRestart False);
       reply hw evt rc }
   | EVT_GET_PARAMS \<Rightarrow> do {
       params \<leftarrow> hcall hw HW_getParameters;
       reply_params hw evt params }
   | _ \<Rightarrow> procEvtPreviewingState_2 hw evt payload)"

lemmas procEvtPreviewingState_defs [handler_defs] =
  procEvtPreviewingState_def procEvtPreviewingState_2_def procEvtPreviewingState_3_def
  procEvtPreviewingState_4_def procEvtPreviewingState_5_def previewing_internal_def

section \<open>State PREPARE_SNAPSHOT\<close>

definition prepareSnapshot_internal :: "hwi \<Rightarrow> payload \<Rightarrow> status sm_prog" where
  "prepareSnapshot_internal hw payload = (let d = evt_data (as_internal payload) in
     case evt_type (as_internal payload) of
       INTERNAL_EVT_FOCUS_UPDATE \<Rightarrow> hcall hw (HW_process P_processAutoFocusEvent d)
     | INTERNAL_EVT_PREP_SNAPSHOT_DONE \<Rightarrow> do {
         _ \<leftarrow> hcall hw (HW_process P_processPrepSnapshotDoneEvent d);
         set_m_state STATE_PREVIEWING;
         _ \<leftarrow> reply hw EVT_PREPARE_SNAPSHOT NO_ERROR;
         State_Monad.return NO_ERROR }
     | INTERNAL_EVT_FACE_DETECT_RESULT \<Rightarrow> hcall hw (HW_process P_processFaceDetectionResult d)
     | INTERNAL_EVT_HISTOGRAM_STATS \<Rightarrow> hcall hw (HW_process P_processHistogramStats d)
     | INTERNAL_EVT_CROP_INFO \<Rightarrow> hcall hw (HW_process P_processZoomEvent d)
     | INTERNAL_EVT_ASD_UPDATE \<Rightarrow> hcall hw (HW_process P_processASDUpdate d)
     | INTERNAL_EVT_LED_MODE_OVERRIDE \<Rightarrow> State_Monad.return NO_ERROR
     | INTERNAL_EVT_AWB_UPDATE \<Rightarrow> hcall hw (HW_process P_transAwbMetaToParams d)
     | INTERNAL_EVT_AE_UPDATE \<Rightarrow> hcall hw (HW_process P_processAEInfo d)
     | INTERNAL_EVT_FOCUS_POS_UPDATE \<Rightarrow> hcall hw (HW_process P_processFocusPositionInfo d)
     | INTERNAL_EVT_HDR_UPDATE \<Rightarrow> hcall hw (HW_process P_processHDRData d)
     | INTERNAL_EVT_RETRO_AEC_UNLOCK \<Rightarrow> hcall hw (HW_process P_processRetroAECUnlock 0)
     | INTERNAL_EVT_ZSL_CAPTURE_DONE \<Rightarrow> hcall hw (HW_process P_processZSLCaptureDone 0)
     | _ \<Rightarrow> State_Monad.return NO_ERROR)"

definition procEvtPrepareSnapshotState_2 :: "hwi \<Rightarrow> sm_evt \<Rightarrow> payload \<Rightarrow> status sm_prog" where
  "procEvtPrepareSnapshotState_2 hw evt payload = (case evt of
     EVT_EVT_INTERNAL \<Rightarrow> prepareSnapshot_internal hw payload
   | EVT_EVT_NOTIFY \<Rightarrow> (case as_cam_evt payload of
         CAM_EVENT_TYPE_DAEMON_DIED \<Rightarrow> do {
           _ \<leftarrow> reply hw EVT_PREPARE_SNAPSHOT NO_ERROR;
           _ \<leftarrow> reply hw EVT_TAKE_PICTURE NO_ERROR;
           _ \<leftarrow> hcall hw HW_sendServerDiedNotify;
           State_Monad.return NO_ERROR }
       | _ \<Rightarrow> State_Monad.return NO_ERROR)
   | EVT_SNAPSHOT_DONE \<Rightarrow> signalEvtResult hw evt NO_ERROR
   | EVT_THERMAL_NOTIFY \<Rightarrow> hcall hw (HW_updateThermalLevel (as_ptr payload))
   | _ \<Rightarrow> State_Monad.return NO_ERROR)"

definition procEvtPrepareSnapshotState :: "hwi \<Rightarrow> sm_evt \<Rightarrow> payload \<Rightarrow> status sm_prog" where
  "procEvtPrepareSnapshotState hw evt payload =
     (if evt \<in> {EVT_SET_PREVIEW_WINDOW, EVT_SET_CALLBACKS, EVT_ENABLE_MSG_TYPE,
                EVT_DISABLE_MSG_TYPE, EVT_MSG_TYPE_ENABLED, EVT_SET_PARAMS, EVT_SET_PARAMS_STOP,
                EVT_SET_PARAMS_COMMIT, EVT_SET_PARAMS_RESTART, EVT_GET_PARAMS, EVT_PUT_PARAMS,
                EVT_PREPARE_PREVIEW, EVT_START_PREVIEW, EVT_START_NODISPLAY_PREVIEW,
                EVT_STOP_PREVIEW, EVT_PREVIEW_ENABLED, EVT_RECORDING_ENABLED,
                EVT_STORE_METADATA_IN_BUFS, EVT_DUMP, EVT_START_AUTO_FOCUS, EVT_STOP_AUTO_FOCUS,
                EVT_PRE_START_RECORDING, EVT_RESTART_STOP_PREVIEW, EVT_RESTART_START_PREVIEW,
                EVT_START_RECORDING, EVT_PRE_TAKE_PICTURE, EVT_TAKE_PICTURE, EVT_PREPARE_SNAPSHOT,
                EVT_SEND_COMMAND, EVT_CANCEL_PICTURE, EVT_STOP_RECORDING,
                EVT_RELEASE_RECORIDNG_FRAME, EVT_RELEASE}
      then reply hw evt INVALID_OPERATION
      else procEvtPrepareSnapshotState_2 hw evt payload)"

lemmas procEvtPrepareSnapshotState_defs [handler_defs] =
  procEvtPrepareSnapshotState_def procEvtPrepareSnapshotState_2_def prepareSnapshot_internal_def

end
