(* ===== verification/SmPicTaking.thy ===== *)
theory SmPicTaking
  imports SmTypes
begin

text \<open>
  The handlers of the two states with a still capture in progress and no recording,
  \<open>procEvtPicTakingState\<close> (preview stopped) and \<open>procEvtPreviewPicTakingState\<close> (preview
  running) of QCameraStateMachine.cpp.
\<close>

section \<open>State PIC_TAKING\<close>

definition procEvtPicTakingState_4 :: "hwi \<Rightarrow> sm_evt \<Rightarrow> payload \<Rightarrow> status sm_prog" where
  "procEvtPicTakingState_4 hw evt payload = (case evt of
     EVT_STOP_CAPTURE_CHANNEL \<Rightarrow> do {
       restartPreview \<leftarrow> hquery hw Q_isPreviewRestartEnabled;
       rc \<leftarrow> hstream hw (S_stopCaptureChannel restartPreview);
       rc \<leftarrow> (if restartPreview \<and> rc = NO_ERROR then do {
           _ \<leftarrow> hstream hw S_unconfigureAdvancedCapture;
           rc \<leftarrow> hstream hw S_preparePreview;
           if rc = NO_ERROR then do {
             _ \<leftarrow> hstream hw (S_set_m_bPreviewStarted True);
             _ \<leftarrow> applyDelayedMsgs hw;
             hstream hw S_startPreview }
           else State_Monad.return rc }
         else State_Monad.return rc);
       reply hw evt rc }
   | EVT_SNAPSHOT_DONE \<Rightarrow> do {
       rc \<leftarrow> hstream hw S_cancelPicture;
       restartPreview \<leftarrow> hquery hw Q_isPreviewRestartEnabled;
       rc \<leftarrow> (if restartPreview then do {
           mode \<leftarrow> hcall hw (HW_query Q_getManualCaptureMode);
           rc \<leftarrow> (if mode \<ge> CAM_MANUAL_CAPTURE_TYPE_3 then do {
               restoreZSL \<leftarrow> reads m_RestoreZSL;
               _ \<leftarrow> hcall hw (HW_updateZSLModeValue restoreZSL);
               upd (\<lambda>s. s\<lparr>m_RestoreZSL := False\<rparr>);
               rc \<leftarrow> hstream hw S_preparePreview;
               if rc = NO_ERROR then do {
                 _ \<leftarrow> hstream hw (S_set_m_bPreviewStarted True);
                 _ \<leftarrow> applyDelayedMsgs hw;
                 hstream hw S_startPreview }
               else State_Monad.return rc }
             else State_Monad.return rc);
           set_m_state STATE_PREVIEWING;
           State_Monad.return rc }
         else do {
           set_m_state STATE_PREVIEW_STOPPED;
           State_Monad.return rc });
       signalEvtResult hw evt rc }
   | EVT_THERMAL_NOTIFY \<Rightarrow> hcall hw (HW_updateThermalLevel (as_ptr payload))
   | _ \<Rightarrow> State_Monad.return NO_ERROR)"

definition picTaking_internal :: "hwi \<Rightarrow> payload \<Rightarrow> status sm_prog" where
  "picTaking_internal hw payload = (let d = evt_data (as_internal payload) in
     case evt_type (as_internal payload) of
       INTERNAL_EVT_FOCUS_UPDATE \<Rightarrow> hcall hw (HW_process P_processAutoFocusEvent d)
     | INTERNAL_EVT_PREP_SNAPSHOT_DONE \<Rightarrow> State_Monad.return NO_ERROR
     | INTERNAL_EVT_FACE_DETECT_RESULT \<Rightarrow> State_Monad.return NO_ERROR
     | INTERNAL_EVT_HISTOGRAM_STATS \<Rightarrow> State_Monad.return NO_ERROR
     | INTERNAL_EVT_CROP_INFO \<Rightarrow> hcall hw (HW_process P_processZoomEvent d)
     | INTERNAL_EVT_ASD_UPDATE \<Rightarrow> hcall hw (HW_process P_processASDUpdate d)
     | INTERNAL_EVT_LED_MODE_OVERRIDE \<Rightarrow> State_Monad.return NO_ERROR
     | INTERNAL_EVT_AWB_UPDATE \<Rightarrow> hcall hw (HW_process P_transAwbMetaToParams d)
     | INTERNAL_EVT_AE_UPDATE \<Rightarrow> hcall hw (HW_process P_processAEInfo d)
     | INTERNAL_EVT_FOCUS_POS_UPDATE \<Rightarrow> hcall hw (HW_process P_processFocusPositionInfo d)
     | INTERNAL_EVT_HDR_UPDATE \<Rightarrow> hcall hw (HW_process P_processHDRData d)
     | INTERNAL_EVT_RETRO_AEC_UNLOCK \<Rightarrow> hcall hw (HW_process P_processRetroAECUnlock 0)
     | INTERNAL_EVT_ZSL_CAPTURE_DONE \<Rightarrow> hcall hw (HW_process P_processZSLCaptureDone 0)
     | _ \<Rightarrow> State_Monad.return NO_ERROR)"

text \<open>
  The server died: both calls that may be waiting for a deferred answer get one.
\<close>

definition picTaking_notify :: "hwi \<Rightarrow> payload \<Rightarrow> status sm_prog" where
  "picTaking_notify hw payload = (case as_cam_evt payload of
     CAM_EVENT_TYPE_DAEMON_DIED \<Rightarrow> do {
       _ \<leftarrow> reply hw EVT_PREPARE_SNAPSHOT NO_ERROR;
       _ \<leftarrow> reply hw EVT_TAKE_PICTURE NO_ERROR;
       _ \<leftarrow> hcall hw HW_sendServerDiedNotify;
       State_Monad.return NO_ERROR }
   | CAM_EVENT_TYPE_CAC_DONE \<Rightarrow> do {
       cac \<leftarrow> hquery_or hw Q_isCACEnabled Q_isOEMFeatEnabled;
       whenM cac (do {
         longshot \<leftarrow> hquery hw Q_isLongshotEnabled;
         whenM longshot (do {
           shutter \<leftarrow> hquery hw Q_isCaptureShutterEnabled;
           whenM (\<not> shutter) (do {
             _ \<leftarrow> hcall hw HW_playShutter;
             State_Monad.return () }) });
         _ \<leftarrow> hcall hw (HW_set_mCACDoneReceived True);
         State_Monad.return () });
       State_Monad.return NO_ERROR }
   | _ \<Rightarrow> State_Monad.return NO_ERROR)"

definition procEvtPicTakingState_3 :: "hwi \<Rightarrow> sm_evt \<Rightarrow> payload \<Rightarrow> status sm_prog" where
  "procEvtPicTakingState_3 hw evt payload = (case evt of
     EVT_EVT_INTERNAL \<Rightarrow> picTaking_internal hw payload
   | EVT_EVT_NOTIFY \<Rightarrow> picTaking_notify hw payload
   | EVT_JPEG_EVT_NOTIFY \<Rightarrow> hcall hw (HW_processJpegNotify (as_ptr payload))
   | _ \<Rightarrow> procEvtPicTakingState_4 hw evt payload)"

definition procEvtPicTakingState_2 :: "hwi \<Rightarrow> sm_evt \<Rightarrow> payload \<Rightarrow> status sm_prog" where
  "procEvtPicTakingState_2 hw evt payload = (case evt of
     EVT_PREVIEW_ENABLED \<Rightarrow> reply_flag hw evt NO_ERROR 0
   | EVT_RECORDING_ENABLED \<Rightarrow> reply_flag hw evt NO_ERROR 0
   | EVT_STORE_METADATA_IN_BUFS \<Rightarrow> do {
       rc \<leftarrow> hcall hw (HW_storeMetaDataInBuffers (as_int payload));
       reply hw evt rc }
   | EVT_DUMP \<Rightarrow> do {
       rc \<leftarrow> hcall hw (HW_dump (as_int payload));
       reply hw evt rc }
   | EVT_START_AUTO_FOCUS \<Rightarrow> do {
       rc \<leftarrow> hcall hw HW_autoFocus;
       reply hw evt rc }
   | EVT_STOP_AUTO_FOCUS \<Rightarrow> do {
       rc \<leftarrow> hcall hw HW_cancelAutoFocus;
       reply hw evt rc }
   | EVT_SEND_COMMAND \<Rightarrow> do {
       let c = as_command payload;
       rc \<leftarrow> hcall hw (HW_sendCommand (cmd c) (arg1 c) (arg2 c));
       whenM (cmd c = CAMERA_CMD_LONGSHOT_OFF) (set_m_state STATE_PREVIEWING);
       reply hw evt rc }
   | EVT_CANCEL_PICTURE \<Rightarrow> do {
       rc \<leftarrow> hstream hw S_cancelPicture;
       set_m_state STATE_PREVIEW_STOPPED;
       reply hw evt rc }
   | EVT_REG_FACE_IMAGE \<Rightarrow> do {
       let reg = as_reg_face payload;
       (rc, faceID, _) \<leftarrow> hcall2 hw (HW_registerFaceImage (img_ptr reg) (config reg));
       reply_handle hw evt rc faceID }
   | EVT_PRE_TAKE_PICTURE \<Rightarrow> do {
       longshot \<leftarrow> hquery hw Q_isLongshotEnabled;
       reply hw evt (if longshot then NO_ERROR else INVALID_OPERATION) }
   | EVT_TAKE_PICTURE \<Rightarrow> do {
       longshot \<leftarrow> hquery hw Q_isLongshotEnabled;
       rc \<leftarrow> (if longshot then hstream hw S_longShot else State_Monad.return INVALID_OPERATION);
       reply hw evt rc }
   | EVT_PREPARE_SNAPSHOT \<Rightarrow> reply hw evt INVALID_OPERATION
   | EVT_PRE_START_RECORDING \<Rightarrow> reply hw evt INVALID_OPERATION
   | EVT_RESTART_STOP_PREVIEW \<Rightarrow> reply hw evt INVALID_OPERATION
   | EVT_RESTART_START_PREVIEW \<Rightarrow> reply hw evt INVALID_OPERATION
   | EVT_START_RECORDING \<Rightarrow> reply hw evt INVALID_OPERATION
   | EVT_STOP_RECORDING \<Rightarrow> reply hw evt INVALID_OPERATION
   | EVT_RELEASE_RECORIDNG_FRAME \<Rightarrow> reply hw evt INVALID_OPERATION
   | EVT_PREPARE_PREVIEW \<Rightarrow> reply hw evt INVALID_OPERATION
   | EVT_START_PREVIEW \<Rightarrow> reply hw evt INVALID_OPERATION
   | EVT_START_NODISPLAY_PREVIEW \<Rightarrow> reply hw evt INVALID_OPERATION
   | EVT_RELEASE \<Rightarrow> reply hw evt INVALID_OPERATION
   | _ \<Rightarrow> procEvtPicTakingState_3 hw evt payload)"

definition procEvtPicTakingState :: "hwi \<Rightarrow> sm_evt \<Rightarrow> payload \<Rightarrow> status sm_prog" where
  "procEvtPicTakingState hw evt payload = (case evt of
     EVT_SET_PREVIEW_WINDOW \<Rightarrow> reply hw evt INVALID_OPERATION
   | EVT_SET_CALLBACKS \<Rightarrow> do {
       rc \<leftarrow> hcall hw (HW_setCallBacks (as_setcb payload));
       reply hw evt rc }
   | EVT_ENABLE_MSG_TYPE \<Rightarrow> do {
       rc \<leftarrow> hcall hw (HW_enableMsgType (as_int payload));
       reply hw evt rc }
   | EVT_DISABLE_MSG_TYPE \<Rightarrow> do {
       rc \<leftarrow> hcall hw (HW_disableMsgType (as_int payload));
       reply hw evt rc }
   | EVT_MSG_TYPE_ENABLED \<Rightarrow> do {
       enabled \<leftarrow> hcall hw (HW_msgTypeEnabled (as_int payload));
       reply_flag hw evt NO_ERROR enabled }
   | EVT_SET_PARAMS \<Rightarrow> do {
       rc \<leftarrow> hcall hw (HW_updateParameters (as_ptr payload));
       reply hw evt rc }
   | EVT_SET_PARAMS_STOP \<Rightarrow> reply hw evt NO_ERROR
   | EVT_SET_PARAMS_COMMIT \<Rightarrow> do {
       rc \<leftarrow> hcall hw HW_commitParameterChanges;
       reply hw evt rc }
   | EVT_SET_PARAMS_RESTART \<Rightarrow> do {
       _ \<leftarrow> hcall hw (HW_setNeedRestart False);
       reply hw evt NO_ERROR }
   | EVT_GET_PARAMS \<Rightarrow> do {
       params \<leftarrow> hcall hw HW_getParameters;
       reply_params hw evt params }
   | EVT_PUT_PARAMS \<Rightarrow> do {
       rc \<leftarrow> hcall hw (HW_putParameters (as_ptr payload));
       reply hw evt rc }
   | EVT_STOP_PREVIEW \<Rightarrow> do {
       rc \<leftarrow> hstream hw S_cancelPicture;
       set_m_state STATE_PREVIEW_STOPPED;
       reply hw evt rc }
   | _ \<Rightarrow> procEvtPicTakingState_2 hw evt payload)"

lemmas procEvtPicTakingState_defs [handler_defs] =
  procEvtPicTakingState_def procEvtPicTakingState_2_def procEvtPicTakingState_3_def
  procEvtPicTakingState_4_def picTaking_internal_def picTaking_notify_def

section \<open>State PREVIEW_PIC_TAKING\<close>

text \<open>The choice of the cancel operation, made in two cases of the handler.\<close>

definition cancelCapture :: "hwi \<Rightarrow> status sm_prog" where
  "cancelCapture hw = do {
     zsl \<leftarrow> hquery_or hw Q_isZSLMode Q_isLongshotEnabled;
     if zsl then hstream hw S_cancelPicture else hstream hw S_cancelLiveSnapshot }"

definition procEvtPreviewPicTakingState_5 :: "hwi \<Rightarrow> sm_evt \<Rightarrow> payload \<Rightarrow> status sm_prog" where
  "procEvtPreviewPicTakingState_5 hw evt payload = (case evt of
     EVT_JPEG_EVT_NOTIFY \<Rightarrow> hcall hw (HW_processJpegNotify (as_ptr payload))
   | EVT_SNAPSHOT_DONE \<Rightarrow> do {
       rc \<leftarrow> cancelCapture hw;
       set_m_state STATE_PREVIEWING;
       retro \<leftarrow> hquery hw Q_isRetroPicture;
       whenM retro (do {
         _ \<leftarrow> reply hw evt rc;
         State_Monad.return () });
       signalEvtResult hw evt rc }
   | EVT_THERMAL_NOTIFY \<Rightarrow> hcall hw (HW_updateThermalLevel (as_ptr payload))
   | EVT_RESTART_STOP_PREVIEW \<Rightarrow> do {
       _ \<leftarrow> hstream hw S_stopPreview;
       reply hw evt NO_ERROR }
   | EVT_RESTART_START_PREVIEW \<Rightarrow> do {
       rc \<leftarrow> hstream hw S_preparePreview;
       rc \<leftarrow> (if rc = NO_ERROR then hstream hw S_startPreview else State_Monad.return rc);
       reply hw evt rc }
   | _ \<Rightarrow> State_Monad.return NO_ERROR)"

definition previewPicTaking_internal :: "hwi \<Rightarrow> payload \<Rightarrow> status sm_prog" where
  "previewPicTaking_internal hw payload = (let d = evt_data (as_internal payload) in
     case evt_type (as_internal payload) of
       INTERNAL_EVT_FOCUS_UPDATE \<Rightarrow> hcall hw (HW_process P_processAutoFocusEvent d)
     | INTERNAL_EVT_PREP_SNAPSHOT_DONE \<Rightarrow> do {
         retro \<leftarrow> hquery hw Q_isRetroPicture;
         whenM retro (do {
           _ \<leftarrow> hcall hw (HW_process P_processPrepSnapshotDoneEvent d);
           _ \<leftarrow> reply hw EVT_PREPARE_SNAPSHOT NO_ERROR;
           State_Monad.return () });
         State_Monad.return NO_ERROR }
     | INTERNAL_EVT_FACE_DETECT_RESULT \<Rightarrow> hcall hw (HW_process P_processFaceDetectionResult d)
     | INTERNAL_EVT_READY_FOR_SNAPSHOT \<Rightarrow> do {
         retro \<leftarrow> hquery hw Q_isRetroPicture;
         whenM retro (do {
           _ \<leftarrow> reply hw EVT_TAKE_PICTURE NO_ERROR;
           State_Monad.return () });
         State_Monad.return NO_ERROR }
     | INTERNAL_EVT_HISTOGRAM_STATS \<Rightarrow> hcall hw (HW_process P_processHistogramStats d)
     | INTERNAL_EVT_CROP_INFO \<Rightarrow> hcall hw (HW_process P_processZoomEvent d)
     | INTERNAL_EVT_ASD_UPDATE \<Rightarrow> hcall hw (HW_process P_processASDUpdate d)
     | INTERNAL_EVT_LED_MODE_OVERRIDE \<Rightarrow> State_Monad.return NO_ERROR
     | INTERNAL_EVT_AWB_UPDATE \<Rightarrow> hcall hw (HW_process P_transAwbMetaToParams d)
     | INTERNAL_EVT_AE_UPDATE \<Rightarrow> hcall hw (HW_process P_processAEInfo d)
     | INTERNAL_EVT_FOCUS_POS_UPDATE \<Rightarrow> hcall hw (HW_process P_processFocusPositionInfo d)
     | INTERNAL_EVT_HDR_UPDATE \<Rightarrow> hcall hw (HW_process P_processHDRData d)
     | INTERNAL_EVT_RETRO_AEC_UNLOCK \<Rightarrow> hcall hw (HW_process P_processRetroAECUnlock 0)
     | INTERNAL_EVT_ZSL_CAPTURE_DONE \<Rightarrow> hcall hw (HW_process P_processZSLCaptureDone 0))"

text \<open>The \<open>EVT_NOTIFY\<close> case has the same code as in state PIC_TAKING.\<close>

definition previewPicTaking_notify :: "hwi \<Rightarrow> payload \<Rightarrow> status sm_prog" where
  "previewPicTaking_notify hw payload = (case as_cam_evt payload of
     CAM_EVENT_TYPE_DAEMON_DIED \<Rightarrow> do {
       _ \<leftarrow> reply hw EVT_PREPARE_SNAPSHOT NO_ERROR;
       _ \<leftarrow> reply hw EVT_TAKE_PICTURE NO_ERROR;
       _ \<leftarrow> hcall hw HW_sendServerDiedNotify;
       State_Monad.return NO_ERROR }
   | CAM_EVENT_TYPE_CAC_DONE \<Rightarrow> do {
       cac \<leftarrow> hquery_or hw Q_isCACEnabled Q_isOEMFeatEnabled;
       whenM cac (do {
         longshot \<leftarrow> hquery hw Q_isLongshotEnabled;
         whenM longshot (do {
           shutter \<leftarrow> hquery hw Q_isCaptureShutterEnabled;
           whenM (\<not> shutter) (do {
             _ \<leftarrow> hcall hw HW_playShutter;
             State_Monad.return () }) });
         _ \<leftarrow> hcall hw (HW_set_mCACDoneReceived True);
         State_Monad.return () });
       State_Monad.return NO_ERROR }
   | _ \<Rightarrow> State_Monad.return NO_ERROR)"

definition procEvtPreviewPicTakingState_4 :: "hwi \<Rightarrow> sm_evt \<Rightarrow> payload \<Rightarrow> status sm_prog" where
  "procEvtPreviewPicTakingState_4 hw evt payload = (case evt of
     EVT_EVT_INTERNAL \<Rightarrow> previewPicTaking_internal hw payload
   | EVT_EVT_NOTIFY \<Rightarrow> previewPicTaking_notify hw payload
   | _ \<Rightarrow> procEvtPreviewPicTakingState_5 hw evt payload)"

definition procEvtPreviewPicTakingState_3 :: "hwi \<Rightarrow> sm_evt \<Rightarrow> payload \<Rightarrow> status sm_prog" where
  "procEvtPreviewPicTakingState_3 hw evt payload = (case evt of
     EVT_REG_FACE_IMAGE \<Rightarrow> do {
       let reg = as_reg_face payload;
       (rc, faceID, _) \<leftarrow> hcall2 hw (HW_registerFaceImage (img_ptr reg) (config reg));
       reply_handle hw evt rc faceID }
   | EVT_PRE_TAKE_PICTURE \<Rightarrow> do {
       longshot \<leftarrow> hquery hw Q_isLongshotEnabled;
       reply hw evt (if longshot then NO_ERROR else INVALID_OPERATION) }
   | EVT_TAKE_PICTURE \<Rightarrow> do {
       longshot \<leftarrow> hquery hw Q_isLongshotEnabled;
       rc \<leftarrow> (if longshot then hstream hw S_longShot else State_Monad.return INVALID_OPERATION);
       reply hw evt rc }
   | EVT_PREPARE_SNAPSHOT \<Rightarrow> do {
       retro \<leftarrow> hquery hw Q_isRetroPicture;
       if retro then do {
         rc \<leftarrow> hstream hw (S_prepareHardwareForSnapshot False);
         if rc \<noteq> NO_ERROR then reply hw evt rc else State_Monad.return rc }
       else reply hw evt INVALID_OPERATION }
   | EVT_STOP_RECORDING \<Rightarrow> reply hw evt INVALID_OPERATION
   | EVT_PREPARE_PREVIEW \<Rightarrow> reply hw evt INVALID_OPERATION
   | EVT_START_PREVIEW \<Rightarrow> reply hw evt INVALID_OPERATION
   | EVT_START_NODISPLAY_PREVIEW \<Rightarrow> reply hw evt INVALID_OPERATION
   | EVT_SET_PREVIEW_WINDOW \<Rightarrow> reply hw evt INVALID_OPERATION
   | EVT_RELEASE \<Rightarrow> reply hw evt INVALID_OPERATION
   | _ \<Rightarrow> procEvtPreviewPicTakingState_4 hw evt payload)"

text \<open>The guard of the two recording requests: ZSL mode or longshot refuse them.\<close>

definition procEvtPreviewPicTakingState_2 :: "hwi \<Rightarrow> sm_evt \<Rightarrow> payload \<Rightarrow> status sm_prog" where
  "procEvtPreviewPicTakingState_2 hw evt payload = (case evt of
     EVT_RECORDING_ENABLED \<Rightarrow> reply_flag hw evt NO_ERROR 0
   | EVT_STORE_METADATA_IN_BUFS \<Rightarrow> do {
       rc \<leftarrow> hcall hw (HW_storeMetaDataInBuffers (as_int payload));
       reply hw evt rc }
   | EVT_DUMP \<Rightarrow> do {
       rc \<leftarrow> hcall hw (HW_dump (as_int payload));
       reply hw evt rc }
   | EVT_START_AUTO_FOCUS \<Rightarrow> do {
       rc \<leftarrow> hcall hw HW_autoFocus;
       reply hw evt rc }
   | EVT_STOP_AUTO_FOCUS \<Rightarrow> do {
       rc \<leftarrow> hcall hw HW_cancelAutoFocus;
       reply hw evt rc }
   | EVT_SEND_COMMAND \<Rightarrow> do {
       let c = as_command payload;
       rc \<leftarrow> hcall hw (HW_sendCommand (cmd c) (arg1 c) (arg2 c));
       whenM (cmd c = CAMERA_CMD_LONGSHOT_OFF) (set_m_state STATE_PREVIEWING);
       reply hw evt rc }
   | EVT_RELEASE_RECORIDNG_FRAME \<Rightarrow> do {
       rc \<leftarrow> hcall hw (HW_releaseRecordingFrame (as_ptr payload));
       reply hw evt rc }
   | EVT_CANCEL_PICTURE \<Rightarrow> do {
       rc \<leftarrow> cancelCapture hw;
       set_m_state STATE_PREVIEWING;
       reply hw evt rc }
   | EVT_STOP_PREVIEW \<Rightarrow> do {
       zsl \<leftarrow> hquery hw Q_isZSLMode;
       rc \<leftarrow> (if zsl then do {
           rc \<leftarrow> hstream hw S_cancelPicture;
           _ \<leftarrow> hstream hw S_stopZslChannel;
           State_Monad.return rc }
         else do {
           longshot \<leftarrow> hquery hw Q_isLongshotEnabled;
           if longshot then hstream hw S_cancelPicture
           else do {
             rc \<leftarrow> hstream hw S_cancelLiveSnapshot;
             _ \<leftarrow> hstream hw S_stopPreviewChannel;
             State_Monad.return rc } });
       _ \<leftarrow> hstream hw S_unpreparePreview;
       set_m_state STATE_PREVIEW_STOPPED;
       reply hw evt rc }
   | EVT_PRE_START_RECORDING \<Rightarrow> do {
       refuse \<leftarrow> hquery_or hw Q_isZSLMode Q_isLongshotEnabled;
       rc \<leftarrow> (if refuse then State_Monad.return INVALID_OPERATION
             else hstream hw S_preStartRecording);
       reply hw evt rc }
   | EVT_START_RECORDING \<Rightarrow> do {
       refuse \<leftarrow> hquery_or hw Q_isZSLMode Q_isLongshotEnabled;
       rc \<leftarrow> (if refuse then State_Monad.return INVALID_OPERATION
             else do {
               rc \<leftarrow> hstream hw S_startRecording;
               whenM (rc = NO_ERROR) (set_m_state STATE_VIDEO_PIC_TAKING);
               State_Monad.return rc });
       reply hw evt rc }
   | _ \<Rightarrow> procEvtPreviewPicTakingState_3 hw evt payload)"

definition procEvtPreviewPicTakingState :: "hwi \<Rightarrow> sm_evt \<Rightarrow> payload \<Rightarrow> status sm_prog" where
  "procEvtPreviewPicTakingState hw evt payload = (case evt of
     EVT_SET_CALLBACKS \<Rightarrow> do {
       rc \<leftarrow> hcall hw (HW_setCallBacks (as_setcb payload));
       reply hw evt rc }
   | EVT_ENABLE_MSG_TYPE \<Rightarrow> do {
       rc \<leftarrow> hcall hw (HW_enableMsgType (as_int payload));
       reply hw evt rc }
   | EVT_DISABLE_MSG_TYPE \<Rightarrow> do {
       rc \<leftarrow> hcall hw (HW_disableMsgType (as_int payload));
       reply hw evt rc }
   | EVT_MSG_TYPE_ENABLED \<Rightarrow> do {
       enabled \<leftarrow> hcall hw (HW_msgTypeEnabled (as_int payload));
       reply_flag hw evt NO_ERROR enabled }
   | EVT_SET_PARAMS \<Rightarrow> do {
       rc \<leftarrow> hcall hw (HW_updateParameters (as_ptr payload));
       reply hw evt rc }
   | EVT_SET_PARAMS_STOP \<Rightarrow> do {
       rc \<leftarrow> hstream hw S_stopPreview;
       _ \<leftarrow> hcall hw HW_memoryPool_clear;
       reply hw evt rc }
   | EVT_SET_PARAMS_COMMIT \<Rightarrow> do {
       rc \<leftarrow> hcall hw HW_commitParameterChanges;
       reply hw evt rc }
   | EVT_SET_PARAMS_RESTART \<Rightarrow> do {
       rc \<leftarrow> hstream hw S_preparePreview;
       rc \<leftarrow> (if rc = NO_ERROR then do {
           _ \<leftarrow> applyDelayedMsgs hw;
           rc \<leftarrow> hstream hw S_startPreview;
           whenM (rc \<noteq> NO_ERROR) (do {
             _ \<leftarrow> hstream hw S_unpreparePreview;
             State_Monad.return () });
           State_Monad.return rc }
         else State_Monad.return rc);
       whenM (rc \<noteq> NO_ERROR) (set_m_state STATE_PIC_TAKING);
       _ \<leftarrow> hcall hw (HW_setNeedRestart False);
       reply hw evt rc }
   | EVT_GET_PARAMS \<Rightarrow> do {
       params \<leftarrow> hcall hw HW_getParameters;
       reply_params hw evt params }
   | EVT_PUT_PARAMS \<Rightarrow> do {
       rc \<leftarrow> hcall hw (HW_putParameters (as_ptr payload));
       reply hw evt rc }
   | EVT_PREVIEW_ENABLED \<Rightarrow> reply_flag hw evt NO_ERROR 1
   | _ \<Rightarrow> procEvtPreviewPicTakingState_2 hw evt payload)"

lemmas procEvtPreviewPicTakingState_defs [handler_defs] =
  procEvtPreviewPicTakingState_def procEvtPreviewPicTakingState_2_def
  procEvtPreviewPicTakingState_3_def procEvtPreviewPicTakingState_4_def
  procEvtPreviewPicTakingState_5_def previewPicTaking_internal_def previewPicTaking_notify_def
  cancelCapture_def

end
