(* ===== verification/SmRecording.thy ===== *)
theory SmRecording
  imports SmTypes
begin

text \<open>
  The handlers of the two states with a recording in progress,
  \<open>procEvtRecordingState\<close> and \<open>procEvtVideoPicTakingState\<close> of QCameraStateMachine.cpp.
\<close>

section \<open>State RECORDING\<close>

definition recording_internal :: "hwi \<Rightarrow> payload \<Rightarrow> status sm_prog" where
  "recording_internal hw payload = (let d = evt_data (as_internal payload) in
     case evt_type (as_internal payload) of
       INTERNAL_EVT_FOCUS_UPDATE \<Rightarrow> hcall hw (HW_process P_processAutoFocusEvent d)
     | INTERNAL_EVT_PREP_SNAPSHOT_DONE \<Rightarrow> State_Monad.return NO_ERROR
     | INTERNAL_EVT_FACE_DETECT_RESULT \<Rightarrow> hcall hw (HW_process P_processFaceDetectionResult d)
     | INTERNAL_EVT_HISTOGRAM_STATS \<Rightarrow> hcall hw (HW_process P_processHistogramStats d)
     | INTERNAL_EVT_CROP_INFO \<Rightarrow> hcall hw (HW_process P_processZoomEvent d)
     | INTERNAL_EVT_ASD_UPDATE \<Rightarrow> hcall hw (HW_process P_processASDUpdate d)
     | INTERNAL_EVT_LED_MODE_OVERRIDE \<Rightarrow> State_Monad.return NO_ERROR
     | INTERNAL_EVT_AWB_UPDATE \<Rightarrow> hcall hw (HW_process P_transAwbMetaToParams d)
     | INTERNAL_EVT_AE_UPDATE \<Rightarrow> hcall hw (HW_process P_processAEInfo d)
     | INTERNAL_EVT_FOCUS_POS_UPDATE \<Rightarrow> hcall hw (HW_process P_processFocusPositionInfo d)
     | INTERNAL_EVT_HDR_UPDATE \<Rightarrow> hcall hw (HW_process P_processHDRData d)
     | INTERNAL_EVT_RETRO_AEC_UNLOCK \<Rightarrow> hcall hw (HW_process P_processRetroAECUnlock 0)
     | INTERNAL_EVT_ZSL_CAPTURE_DONE \<Rightarrow> hcall hw (HW_process P_processZSLCaptureDone 0)
     | _ \<Rightarrow> State_Monad.return NO_ERROR)"

definition procEvtRecordingState_3 :: "hwi \<Rightarrow> sm_evt \<Rightarrow> payload \<Rightarrow> status sm_prog" where
  "procEvtRecordingState_3 hw evt payload = (case evt of
     EVT_PREPARE_SNAPSHOT \<Rightarrow> reply hw evt NO_ERROR
   | EVT_CANCEL_PICTURE \<Rightarrow> reply hw evt INVALID_OPERATION
   | EVT_START_NODISPLAY_PREVIEW \<Rightarrow> reply hw evt INVALID_OPERATION
   | EVT_RELEASE \<Rightarrow> reply hw evt INVALID_OPERATION
   | EVT_EVT_INTERNAL \<Rightarrow> recording_internal hw payload
   | EVT_EVT_NOTIFY \<Rightarrow> (case as_cam_evt payload of
         CAM_EVENT_TYPE_DAEMON_DIED \<Rightarrow> do {
           _ \<leftarrow> hcall hw HW_sendServerDiedNotify;
           State_Monad.return NO_ERROR }
       | _ \<Rightarrow> State_Monad.return NO_ERROR)
   | EVT_THERMAL_NOTIFY \<Rightarrow> hcall hw (HW_updateThermalLevel (as_ptr payload))
   | EVT_SNAPSHOT_DONE \<Rightarrow> signalEvtResult hw evt NO_ERROR
   | _ \<Rightarrow> State_Monad.return NO_ERROR)"

definition procEvtRecordingState_2 :: "hwi \<Rightarrow> sm_evt \<Rightarrow> payload \<Rightarrow> status sm_prog" where
  "procEvtRecordingState_2 hw evt payload = (case evt of
     EVT_RECORDING_ENABLED \<Rightarrow> reply_flag hw evt NO_ERROR 1
   | EVT_STORE_METADATA_IN_BUFS \<Rightarrow> do {
       rc \<leftarrow> hcall hw (HW_storeMetaDataInBuffers (as_int payload));
       reply hw evt rc }
   | EVT_DUMP \<Rightarrow> do {
       rc \<leftarrow> hcall hw (HW_dump (as_int payload));
       reply hw evt rc }
   | EVT_START_AUTO_FOCUS \<Rightarrow> do {
       rc \<leftarrow> hcall hw HW_autoFocus;
       reply hw evt rc }
   | EVT_STOP_AUTO_FOCUS \<Rightarrow> do {
       rc \<leftarrow> hcall hw HW_cancelAutoFocus;
       reply hw evt rc }
   | EVT_SEND_COMMAND \<Rightarrow> do {
       let c = as_command payload;
       rc \<leftarrow> hcall hw (HW_sendCommand (cmd c) (arg1 c) (arg2 c));
       reply hw evt rc }
   | EVT_PRE_TAKE_PICTURE \<Rightarrow> reply hw evt NO_ERROR
   | EVT_TAKE_PICTURE \<Rightarrow> do {
       set_m_state STATE_VIDEO_PIC_TAKING;
       rc \<leftarrow> hstream hw S_takeLiveSnapshot;
       whenM (rc \<noteq> NO_ERROR) (do {
         _ \<leftarrow> hstream hw S_unconfigureAdvancedCapture;
         set_m_state STATE_RECORDING });
       reply hw evt rc }
   | EVT_PRE_START_RECORDING \<Rightarrow> reply hw evt NO_ERROR
   | EVT_RESTART_STOP_PREVIEW \<Rightarrow> reply hw evt NO_ERROR
   | EVT_RESTART_START_PREVIEW \<Rightarrow> reply hw evt NO_ERROR
   | EVT_START_RECORDING \<Rightarrow> reply hw evt NO_ERROR
   | EVT_STOP_RECORDING \<Rightarrow> do {
       rc \<leftarrow> hstream hw S_stopRecording;
       set_m_state STATE_PREVIEWING;
       reply hw evt rc }
   | EVT_STOP_PREVIEW \<Rightarrow> do {
       _ \<leftarrow> hstream hw S_stopRecording;
       set_m_state STATE_PREVIEWING;
       rc \<leftarrow> hstream hw S_stopPreview;
       set_m_state STATE_PREVIEW_STOPPED;
       reply hw evt rc }
   | EVT_RELEASE_RECORIDNG_FRAME \<Rightarrow> do {
       rc \<leftarrow> hcall hw (HW_releaseRecordingFrame (as_ptr payload));
       reply hw evt rc }
   | EVT_REG_FACE_IMAGE \<Rightarrow> do {
       let reg = as_reg_face payload;
       (rc, faceID, _) \<leftarrow> hcall2 hw (HW_registerFaceImage (img_ptr reg) (config reg));
       reply_handle hw evt rc faceID }
   | _ \<Rightarrow> procEvtRecordingState_3 hw evt payload)"

text \<open>
  \<open>SET_PARAMS\<close> while recording: a change that needs a restart is refused, and a failed
  request clears the restart flag of the parent.
\<close>

definition recording_setParams :: "hwi \<Rightarrow> sm_evt \<Rightarrow> payload \<Rightarrow> status sm_prog" where
  "recording_setParams hw evt payload = do {
     (rc, needRestart, _) \<leftarrow> hcall2 hw (HW_updateParameters (as_ptr payload));
     let rc = (if rc = NO_ERROR \<and> needRestart \<noteq> 0 then BAD_VALUE else rc);
     whenM (rc \<noteq> NO_ERROR) (do {
       _ \<leftarrow> hcall hw (HW_setNeedRestart False);
       State_Monad.return () });
     reply hw evt rc }"

definition procEvtRecordingState :: "hwi \<Rightarrow> sm_evt \<Rightarrow> payload \<Rightarrow> status sm_prog" where
  "procEvtRecordingState hw evt payload = (case evt of
     EVT_PREPARE_PREVIEW \<Rightarrow> reply hw evt NO_ERROR
   | EVT_START_PREVIEW \<Rightarrow> reply hw evt NO_ERROR
   | EVT_SET_PREVIEW_WINDOW \<Rightarrow> reply hw evt NO_ERROR
   | EVT_SET_CALLBACKS \<Rightarrow> do {
       rc \<leftarrow> hcall hw (HW_setCallBacks (as_setcb payload));
       reply hw evt rc }
   | EVT_ENABLE_MSG_TYPE \<Rightarrow> do {
       rc \<leftarrow> hcall hw (HW_enableMsgType (as_int payload));
       reply hw evt rc }
   | EVT_DISABLE_MSG_TYPE \<Rightarrow> do {
       rc \<leftarrow> hcall hw (HW_disableMsgType (as_int payload));
       reply hw evt rc }
   | EVT_MSG_TYPE_ENABLED \<Rightarrow> do {
       enabled \<leftarrow> hcall hw (HW_msgTypeEnabled (as_int payload));
       reply_flag hw evt NO_ERROR enabled }
   | EVT_SET_PARAMS \<Rightarrow> recording_setParams hw evt payload
   | EVT_SET_PARAMS_COMMIT \<Rightarrow> do {
       rc \<leftarrow> hcall hw HW_commitParameterChanges;
       reply hw evt rc }
   | EVT_SET_PARAMS_STOP \<Rightarrow> reply hw evt INVALID_OPERATION
   | EVT_SET_PARAMS_RESTART \<Rightarrow> reply hw evt INVALID_OPERATION
   | EVT_GET_PARAMS \<Rightarrow> do {
       params \<leftarrow> hcall hw HW_getParameters;
       reply_params hw evt params }
   | EVT_PUT_PARAMS \<Rightarrow> do {
       rc \<leftarrow> hcall hw (HW_putParameters (as_ptr payload));
       reply hw evt rc }
   | EVT_PREVIEW_ENABLED \<Rightarrow> reply_flag hw evt NO_ERROR 0
   | _ \<Rightarrow> procEvtRecordingState_2 hw evt payload)"

lemmas procEvtRecordingState_defs [handler_defs] =
  procEvtRecordingState_def procEvtRecordingState_2_def procEvtRecordingState_3_def
  recording_internal_def recording_setParams_def

section \<open>State VIDEO_PIC_TAKING\<close>

definition videoPicTaking_internal :: "hwi \<Rightarrow> payload \<Rightarrow> status sm_prog" where
  "videoPicTaking_internal hw payload = (let d = evt_data (as_internal payload) in
     case evt_type (as_internal payload) of
       INTERNAL_EVT_FOCUS_UPDATE \<Rightarrow> hcall hw (HW_process P_processAutoFocusEvent d)
     | INTERNAL_EVT_PREP_SNAPSHOT_DONE \<Rightarrow> State_Monad.return NO_ERROR
     | INTERNAL_EVT_FACE_DETECT_RESULT \<Rightarrow> hcall hw (HW_process P_processFaceDetectionResult d)
     | INTERNAL_EVT_HISTOGRAM_STATS \<Rightarrow> hcall hw (HW_process P_processHistogramStats d)
     | INTERNAL_EVT_CROP_INFO \<Rightarrow> hcall hw (HW_process P_processZoomEvent d)
     | INTERNAL_EVT_ASD_UPDATE \<Rightarrow> hcall hw (HW_process P_processASDUpdate d)
     | INTERNAL_EVT_LED_MODE_OVERRIDE \<Rightarrow> State_Monad.return NO_ERROR
     | INTERNAL_EVT_AWB_UPDATE \<Rightarrow> hcall hw (HW_process P_transAwbMetaToParams d)
     | INTERNAL_EVT_AE_UPDATE \<Rightarrow> hcall hw (HW_process P_processAEInfo d)
     | INTERNAL_EVT_FOCUS_POS_UPDATE \<Rightarrow> hcall hw (HW_process P_processFocusPositionInfo d)
     | INTERNAL_EVT_HDR_UPDATE \<Rightarrow> hcall hw (HW_process P_processHDRData d)
     | INTERNAL_EVT_RETRO_AEC_UNLOCK \<Rightarrow> hcall hw (HW_process P_processRetroAECUnlock 0)
     | INTERNAL_EVT_ZSL_CAPTURE_DONE \<Rightarrow> hcall hw (HW_process P_processZSLCaptureDone 0)
     | _ \<Rightarrow> State_Monad.return NO_ERROR)"

definition procEvtVideoPicTakingState_3 :: "hwi \<Rightarrow> sm_evt \<Rightarrow> payload \<Rightarrow> status sm_prog" where
  "procEvtVideoPicTakingState_3 hw evt payload = (case evt of
     EVT_EVT_INTERNAL \<Rightarrow> videoPicTaking_internal hw payload
   | EVT_EVT_NOTIFY \<Rightarrow> (case as_cam_evt payload of
         CAM_EVENT_TYPE_DAEMON_DIED \<Rightarrow> do {
           _ \<leftarrow> hcall hw HW_sendServerDiedNotify;
           State_Monad.return NO_ERROR }
       | _ \<Rightarrow> State_Monad.return NO_ERROR)
   | EVT_JPEG_EVT_NOTIFY \<Rightarrow> hcall hw (HW_processJpegNotify (as_ptr payload))
   | EVT_SNAPSHOT_DONE \<Rightarrow> do {
       rc \<leftarrow> hstream hw S_cancelLiveSnapshot;
       set_m_state STATE_RECORDING;
       signalEvtResult hw evt rc }
   | EVT_THERMAL_NOTIFY \<Rightarrow> hcall hw (HW_updateThermalLevel (as_ptr payload))
   | _ \<Rightarrow> State_Monad.return NO_ERROR)"

definition procEvtVideoPicTakingState_2 :: "hwi \<Rightarrow> sm_evt \<Rightarrow> payload \<Rightarrow> status sm_prog" where
  "procEvtVideoPicTakingState_2 hw evt payload = (case evt of
     EVT_RECORDING_ENABLED \<Rightarrow> reply_flag hw evt NO_ERROR 1
   | EVT_STORE_METADATA_IN_BUFS \<Rightarrow> do {
       rc \<leftarrow> hcall hw (HW_storeMetaDataInBuffers (as_int payload));
       reply hw evt rc }
   | EVT_DUMP \<Rightarrow> do {
       rc \<leftarrow> hcall hw (HW_dump (as_int payload));
       reply hw evt rc }
   | EVT_START_AUTO_FOCUS \<Rightarrow> do {
       rc \<leftarrow> hcall hw HW_autoFocus;
       reply hw evt rc }
   | EVT_STOP_AUTO_FOCUS \<Rightarrow> do {
       rc \<leftarrow> hcall hw HW_cancelAutoFocus;
       reply hw evt rc }
   | EVT_SEND_COMMAND \<Rightarrow> do {
       let c = as_command payload;
       rc \<leftarrow> hcall hw (HW_sendCommand (cmd c) (arg1 c) (arg2 c));
       reply hw evt rc }
   | EVT_STOP_RECORDING \<Rightarrow> do {
       _ \<leftarrow> hstream hw S_cancelLiveSnapshot;
       set_m_state STATE_RECORDING;
       rc \<leftarrow> hstream hw S_stopRecording;
       set_m_state STATE_PREVIEWING;
       reply hw evt rc }
   | EVT_RELEASE_RECORIDNG_FRAME \<Rightarrow> do {
       rc \<leftarrow> hcall hw (HW_releaseRecordingFrame (as_ptr payload));
       reply hw evt rc }
   | EVT_CANCEL_PICTURE \<Rightarrow> do {
       rc \<leftarrow> hstream hw S_cancelLiveSnapshot;
       set_m_state STATE_RECORDING;
       reply hw evt rc }
   | EVT_REG_FACE_IMAGE \<Rightarrow> do {
       let reg = as_reg_face payload;
       (rc, faceID, _) \<leftarrow> hcall2 hw (HW_registerFaceImage (img_ptr reg) (config reg));
       reply_handle hw evt rc faceID }
   | EVT_STOP_PREVIEW \<Rightarrow> do {
       _ \<leftarrow> hstream hw S_cancelLiveSnapshot;
       set_m_state STATE_RECORDING;
       _ \<leftarrow> hstream hw S_stopRecording;
       set_m_state STATE_PREVIEWING;
       rc \<leftarrow> hstream hw S_stopPreview;
       set_m_state STATE_PREVIEW_STOPPED;
       reply hw evt rc }
   | EVT_PRE_START_RECORDING \<Rightarrow> reply hw evt INVALID_OPERATION
   | EVT_RESTART_STOP_PREVIEW \<Rightarrow> reply hw evt INVALID_OPERATION
   | EVT_RESTART_START_PREVIEW \<Rightarrow> reply hw evt INVALID_OPERATION
   | EVT_START_RECORDING \<Rightarrow> reply hw evt INVALID_OPERATION
   | EVT_PREPARE_PREVIEW \<Rightarrow> reply hw evt INVALID_OPERATION
   | EVT_START_PREVIEW \<Rightarrow> reply hw evt INVALID_OPERATION
   | EVT_START_NODISPLAY_PREVIEW \<Rightarrow> reply hw evt INVALID_OPERATION
   | EVT_PREPARE_SNAPSHOT \<Rightarrow> reply hw evt INVALID_OPERATION
   | EVT_PRE_TAKE_PICTURE \<Rightarrow> reply hw evt INVALID_OPERATION
   | EVT_TAKE_PICTURE \<Rightarrow> reply hw evt INVALID_OPERATION
   | EVT_RELEASE \<Rightarrow> reply hw evt INVALID_OPERATION
   | _ \<Rightarrow> procEvtVideoPicTakingState_3 hw evt payload)"

definition procEvtVideoPicTakingState :: "hwi \<Rightarrow> sm_evt \<Rightarrow> payload \<Rightarrow> status sm_prog" where
  "procEvtVideoPicTakingState hw evt payload = (case evt of
     EVT_SET_PREVIEW_WINDOW \<Rightarrow> reply hw evt INVALID_OPERATION
   | EVT_SET_CALLBACKS \<Rightarrow> do {
       rc \<leftarrow> hcall hw (HW_setCallBacks (as_setcb payload));
       reply hw evt rc }
   | EVT_ENABLE_MSG_TYPE \<Rightarrow> do {
       rc \<leftarrow> hcall hw (HW_enableMsgType (as_int payload));
       reply hw evt rc }
   | EVT_DISABLE_MSG_TYPE \<Rightarrow> do {
       rc \<leftarrow> hcall hw (HW_disableMsgType (as_int payload));
       reply hw evt rc }
   | EVT_MSG_TYPE_ENABLED \<Rightarrow> do {
       enabled \<leftarrow> hcall hw (HW_msgTypeEnabled (as_int payload));
       reply_flag hw evt NO_ERROR enabled }
   | EVT_SET_PARAMS \<Rightarrow> do {
       (rc, needRestart, _) \<leftarrow> hcall2 hw (HW_updateParameters (as_ptr payload));
       let rc = (if rc = NO_ERROR \<and> needRestart \<noteq> 0 then BAD_VALUE else rc);
       whenM (rc \<noteq> NO_ERROR) (do {
         _ \<leftarrow> hcall hw (HW_setNeedRestart False);
         State_Monad.return () });
       reply hw evt rc }
   | EVT_SET_PARAMS_COMMIT \<Rightarrow> do {
       rc \<leftarrow> hcall hw HW_commitParameterChanges;
       reply hw evt rc }
   | EVT_SET_PARAMS_STOP \<Rightarrow> reply hw evt INVALID_OPERATION
   | EVT_SET_PARAMS_RESTART \<Rightarrow> reply hw evt INVALID_OPERATION
   | EVT_GET_PARAMS \<Rightarrow> do {
       params \<leftarrow> hcall hw HW_getParameters;
       reply_params hw evt params }
   | EVT_PUT_PARAMS \<Rightarrow> do {
       rc \<leftarrow> hcall hw (HW_putParameters (as_ptr payload));
       reply hw evt rc }
   | EVT_PREVIEW_ENABLED \<Rightarrow> reply_flag hw evt NO_ERROR 1
   | _ \<Rightarrow> procEvtVideoPicTakingState_2 hw evt payload)"

lemmas procEvtVideoPicTakingState_defs [handler_defs] =
  procEvtVideoPicTakingState_def procEvtVideoPicTakingState_2_def
  procEvtVideoPicTakingState_3_def videoPicTaking_internal_def

end
