(* ===== verification/SmDispatch.thy ===== *)
theory SmDispatch
  imports SmContract SmStopped SmPreviewing SmPicTaking SmRecording
begin

unbundle bit_operations_syntax

text \<open>
  The entry function of the camera state machine, \<open>stateMachine\<close> of QCameraStateMachine.cpp,
  its state predicates and its dump. Every step keeps the contract of SmContract, and so does
  every run over a list of events; the properties of the machine follow from these two facts.
\<close>

section \<open>Dispatch on the state\<close>

definition stateMachine :: "hwi \<Rightarrow> sm_evt \<Rightarrow> payload \<Rightarrow> status sm_prog" where
  "stateMachine hw evt payload = do {
     st \<leftarrow> reads m_state;
     (case st of
        STATE_PREVIEW_STOPPED \<Rightarrow> procEvtPreviewStoppedState hw evt payload
      | STATE_PREVIEW_READY \<Rightarrow> procEvtPreviewReadyState hw evt payload
      | STATE_PREVIEWING \<Rightarrow> procEvtPreviewingState hw evt payload
      | STATE_PREPARE_SNAPSHOT \<Rightarrow> procEvtPrepareSnapshotState hw evt payload
      | STATE_PIC_TAKING \<Rightarrow> procEvtPicTakingState hw evt payload
      | STATE_RECORDING \<Rightarrow> procEvtRecordingState hw evt payload
      | STATE_VIDEO_PIC_TAKING \<Rightarrow> procEvtVideoPicTakingState hw evt payload
      | STATE_PREVIEW_PIC_TAKING \<Rightarrow> procEvtPreviewPicTakingState hw evt payload) }"

definition isRecording :: "sm \<Rightarrow> bool" where
  "isRecording s = (case m_state s of
     STATE_RECORDING \<Rightarrow> True
   | STATE_VIDEO_PIC_TAKING \<Rightarrow> True
   | _ \<Rightarrow> False)"

definition isPreviewRunning :: "sm \<Rightarrow> bool" where
  "isPreviewRunning s = (case m_state s of
     STATE_PREVIEWING \<Rightarrow> True
   | STATE_RECORDING \<Rightarrow> True
   | STATE_VIDEO_PIC_TAKING \<Rightarrow> True
   | STATE_PREVIEW_PIC_TAKING \<Rightarrow> True
   | STATE_PREPARE_SNAPSHOT \<Rightarrow> True
   | STATE_PREVIEW_READY \<Rightarrow> True
   | _ \<Rightarrow> False)"

definition isPreviewReady :: "sm \<Rightarrow> bool" where
  "isPreviewReady s = (case m_state s of STATE_PREVIEW_READY \<Rightarrow> True | _ \<Rightarrow> False)"

definition isCaptureRunning :: "sm \<Rightarrow> bool" where
  "isCaptureRunning s = (case m_state s of
     STATE_PIC_TAKING \<Rightarrow> True
   | STATE_VIDEO_PIC_TAKING \<Rightarrow> True
   | STATE_PREVIEW_PIC_TAKING \<Rightarrow> True
   | _ \<Rightarrow> False)"

definition isNonZSLCaptureRunning :: "sm \<Rightarrow> bool" where
  "isNonZSLCaptureRunning s = (case m_state s of STATE_PIC_TAKING \<Rightarrow> True | _ \<Rightarrow> False)"

text \<open>
  The text \<open>dump\<close> prints: \<open>snprintf\<close> with \<open>%d\<close> of a bool or of the state's enumerator,
  which are single digits, so no line is cut at the 128 characters of the buffer.
\<close>

abbreviation (input) newline :: char where "newline \<equiv> CHR 0x0A"

definition show_bool :: "bool \<Rightarrow> string" where
  "show_bool b = (if b then ''1'' else ''0'')"

fun show_state :: "qcamera_state \<Rightarrow> string" where
  "show_state STATE_PREVIEW_STOPPED = ''0''"
| "show_state STATE_PREVIEW_READY = ''1''"
| "show_state STATE_PREVIEWING = ''2''"
| "show_state STATE_PREPARE_SNAPSHOT = ''3''"
| "show_state STATE_PIC_TAKING = ''4''"
| "show_state STATE_RECORDING = ''5''"
| "show_state STATE_VIDEO_PIC_TAKING = ''6''"
| "show_state STATE_PREVIEW_PIC_TAKING = ''7''"

fun state_label :: "qcamera_state \<Rightarrow> string" where
  "state_label STATE_PREVIEW_STOPPED = '' QCAMERA_SM_STATE_PREVIEW_STOPPED ''"
| "state_label STATE_PREVIEW_READY = '' QCAMERA_SM_STATE_PREVIEW_READY ''"
| "state_label STATE_PREVIEWING = '' QCAMERA_SM_STATE_PREVIEWING ''"
| "state_label STATE_PREPARE_SNAPSHOT = '' QCAMERA_SM_STATE_PREPARE_SNAPSHOT ''"
| "state_label STATE_PIC_TAKING = '' QCAMERA_SM_STATE_PIC_TAKING ''"
| "state_label STATE_RECORDING = '' QCAMERA_SM_STATE_RECORDING ''"
| "state_label STATE_VIDEO_PIC_TAKING = '' QCAMERA_SM_STATE_VIDEO_PIC_TAKING ''"
| "state_label STATE_PREVIEW_PIC_TAKING = '' QCAMERA_SM_STATE_PREVIEW_PIC_TAKING ''"

definition dump :: "sm \<Rightarrow> string" where
  "dump s =
     [newline] @
     ''Is Preview Running: '' @ show_bool (isPreviewRunning s) @ [newline] @
     ''Is Capture Running: '' @ show_bool (isCaptureRunning s) @ [newline] @
     ''Is Non ZSL Capture Running: '' @ show_bool (isNonZSLCaptureRunning s) @ [newline] @
     ''Current State: '' @ show_state (m_state s) @ '' '' @ [newline] @
     state_label (m_state s) @ [newline]"

section \<open>Every step keeps the contract\<close>

text \<open>
  A prefix of a handler is quiet when it only makes calls that answer nobody and start or
  cancel nothing: the rest of the handler may then be judged from the state it leaves.
\<close>

definition quiet :: "hwi_call \<Rightarrow> bool" where
  "quiet c \<longleftrightarrow> (case c of
     HW_signalAPIResult _ \<Rightarrow> False
   | HW_signalEvtResult _ \<Rightarrow> False
   | HW_stream op \<Rightarrow> op \<notin> {S_startRecording, S_stopRecording, S_takePicture, S_takeLiveSnapshot,
                           S_cancelPicture, S_cancelLiveSnapshot}
   | _ \<Rightarrow> True)"

definition quiet_step :: "sm \<Rightarrow> sm \<Rightarrow> bool" where
  "quiet_step s s1 \<longleftrightarrow> s1 = s\<lparr>hwi_trace := hwi_trace s1\<rparr> \<and>
     extends (\<lambda>e. quiet (fst e) \<and> permitted (m_state s) (fst e)) (hwi_trace s) (hwi_trace s1)"

lemma quiet_step_state:
  assumes "quiet_step s s1"
  shows "m_state s1 = m_state s"
proof -
  have s1: "s1 = s\<lparr>hwi_trace := hwi_trace s1\<rparr>" using assms by (simp add: quiet_step_def)
  show ?thesis by (subst s1) simp
qed

lemma quiet_trace:
  assumes "extends (\<lambda>e. quiet (fst e) \<and> P e) t0 t"
  shows "api_answers t = api_answers t0" "evt_answers t = evt_answers t0"
    "recording_on t = recording_on t0" "capture_on t = capture_on t0" "extends P t0 t"
proof -
  obtain new where t: "t = new @ t0" and q: "\<forall>e \<in> set new. quiet (fst e) \<and> P e"
    using assms by (auto simp: extends_iff)
  have "api_answers (new @ t0) = api_answers t0 \<and> evt_answers (new @ t0) = evt_answers t0 \<and>
        recording_on (new @ t0) = recording_on t0 \<and> capture_on (new @ t0) = capture_on t0"
    using q
  proof (induction new)
    case Nil
    then show ?case by simp
  next
    case (Cons e new)
    obtain c r v where "e = (c, r, v)" by (metis prod.collapse)
    with Cons show ?case by (auto simp: quiet_def split: hwi_call.splits)
  qed
  then show "api_answers t = api_answers t0" "evt_answers t = evt_answers t0"
    "recording_on t = recording_on t0" "capture_on t = capture_on t0" by (auto simp: t)
  show "extends P t0 t" using q t by (auto simp: extends_iff)
qed

lemma step_after_quiet:
  assumes q: "quiet_step s s1" and ok: "sm_step_ok evt s1 rc s'"
  shows "sm_step_ok evt s rc s'"
proof -
  from q have s1: "s1 = s\<lparr>hwi_trace := hwi_trace s1\<rparr>"
    and ex: "extends (\<lambda>e. quiet (fst e) \<and> permitted (m_state s) (fst e)) (hwi_trace s) (hwi_trace s1)"
    by (auto simp: quiet_step_def)
  have st: "m_state s1 = m_state s" "m_DelayedMsgs s1 = m_DelayedMsgs s"
    "m_bDelayPreviewMsgs s1 = m_bDelayPreviewMsgs s" by (subst s1, simp)+
  note t = quiet_trace[OF ex]
  have inv: "sm_inv s1 = sm_inv s" by (simp add: sm_inv_def delayed_inv_def st t)
  have ex': "extends (\<lambda>e. permitted (m_state s) (fst e)) (hwi_trace s) (hwi_trace s')"
    using t(5) ok by (auto simp: sm_step_ok_def st intro: extends_trans)
  have "sync_reply_ok evt rc s1 s' = sync_reply_ok evt rc s s'"
    unfolding sync_reply_ok_def Let_def st t ..
  moreover have "async_reply_ok evt rc s1 s' = async_reply_ok evt rc s s'"
    unfolding async_reply_ok_def Let_def st t ..
  moreover have "evt_reply_ok evt rc s1 s' = evt_reply_ok evt rc s s'"
    unfolding evt_reply_ok_def st t ..
  ultimately show ?thesis
    using ok ex' unfolding sm_step_ok_def st inv by (cases "is_sync_evt evt") simp_all
qed

lemma wp_after_quiet:
  assumes "quiet_step s s1" "wp m (sm_step_ok evt s1) s1"
  shows "wp m (sm_step_ok evt s) s1"
  using assms(2) step_after_quiet[OF assms(1)] by (auto simp: wp_def)

lemma clearHint_quiet:
  assumes "\<And>s1. quiet_step s s1 \<Longrightarrow> Q () s1" "m_state s \<noteq> STATE_PREPARE_SNAPSHOT"
  shows "wp (takePicture_clearHint hw) Q s"
  unfolding takePicture_clearHint_def using assms
  by (intro wp_rules) (auto simp: quiet_step_def quiet_def permitted_def extends_Cons)

lemma takePicture_capture_step:
  assumes st: "m_state s = STATE_PREVIEWING"
  shows "wp (takePicture_capture hw EVT_TAKE_PICTURE) (sm_step_ok EVT_TAKE_PICTURE s) s"
  unfolding takePicture_capture_def takePicture_recover_def
  by (intro wp_rules, simp_all add: st contract_defs, auto)

lemma takePicture_step [wp_rules]:
  assumes st: "m_state s = STATE_PREVIEWING"
  shows "wp (previewing_takePicture hw EVT_TAKE_PICTURE) (sm_step_ok EVT_TAKE_PICTURE s) s"
  unfolding previewing_takePicture_def
proof (rule wp_bind, rule clearHint_quiet)
  show "m_state s \<noteq> STATE_PREPARE_SNAPSHOT" using st by simp
  fix s1 assume q: "quiet_step s s1"
  have "m_state s1 = STATE_PREVIEWING" using quiet_step_state[OF q] st by simp
  from takePicture_capture_step[OF this]
  show "wp (takePicture_capture hw EVT_TAKE_PICTURE) (sm_step_ok EVT_TAKE_PICTURE s) s1"
    by (rule wp_after_quiet[OF q])
qed

lemma preview_frame_bit: "(16 :: i32) AND x = 0 \<or> (16 :: i32) AND x = 16"
proof -
  have "(16 :: i32) AND x = (if bit x 4 then 16 else 0)"
  proof (rule bit_word_eqI)
    fix n
    have "bit ((2 :: i32) ^ 4) n \<longleftrightarrow> n = 4" by (auto simp only: bit_exp_iff possible_bit_word) simp
    then show "bit ((16 :: i32) AND x) n \<longleftrightarrow> bit (if bit x 4 then 16 else 0 :: i32) n"
      by (auto simp: bit_and_iff)
  qed
  then show ?thesis by simp
qed

theorem stateMachine_step: "wp (stateMachine hw evt payload) (sm_step_ok evt s) s"
  unfolding stateMachine_def
  apply (rule wp_rules)+
  apply (cases "m_state s"; cases evt; simp add: handler_defs Let_def
     split: cam_event_type.split internal_evt_type.split; (intro wp_rules conjI impI)?)
  using preview_frame_bit apply (simp_all add: contract_defs)
  done

section \<open>Runs\<close>

text \<open>The events of a run are handled one after the other by the state machine thread.\<close>

definition sm_exec :: "hwi \<Rightarrow> sm_evt \<times> payload \<Rightarrow> sm \<Rightarrow> sm" where
  "sm_exec hw ev s = snd (run_state (stateMachine hw (fst ev) (snd ev)) s)"

primrec sm_run :: "hwi \<Rightarrow> (sm_evt \<times> payload) list \<Rightarrow> sm \<Rightarrow> sm" where
  "sm_run hw [] s = s"
| "sm_run hw (ev # evs) s = sm_run hw evs (sm_exec hw ev s)"

lemma stateMachine_ok:
  assumes "run_state (stateMachine hw evt payload) s = (rc, s')"
  shows "sm_step_ok evt s rc s'"
  using wp_run[OF stateMachine_step assms] .

lemma sm_exec_ok: "\<exists>rc. sm_step_ok (fst ev) s rc (sm_exec hw ev s)"
  unfolding sm_exec_def by (metis stateMachine_ok prod.collapse)

lemma sm_run_induct:
  assumes "P s" and "\<And>ev s. ev \<in> set evs \<Longrightarrow> P s \<Longrightarrow> P (sm_exec hw ev s)"
  shows "P (sm_run hw evs s)"
  using assms by (induction evs arbitrary: s) auto

lemma sm_run_append: "sm_run hw (evs @ evs') s = sm_run hw evs' (sm_run hw evs s)"
  by (induction evs arbitrary: s) auto

lemma sm_inv_init: "sm_inv (sm_init b d)"
  by (simp add: sm_init_def contract_defs)

lemma sm_inv_run: "sm_inv s \<Longrightarrow> sm_inv (sm_run hw evs s)"
  by (rule sm_run_induct) (use sm_exec_ok in \<open>auto simp: sm_step_ok_def\<close>)

text \<open>Handlers of one event in one state, run symbolically.\<close>

lemma stateMachine_wp:
  assumes "m_state s = STATE_PREVIEW_STOPPED \<Longrightarrow> wp (procEvtPreviewStoppedState hw evt p) Q s"
    and "m_state s = STATE_PREVIEW_READY \<Longrightarrow> wp (procEvtPreviewReadyState hw evt p) Q s"
    and "m_state s = STATE_PREVIEWING \<Longrightarrow> wp (procEvtPreviewingState hw evt p) Q s"
    and "m_state s = STATE_PREPARE_SNAPSHOT \<Longrightarrow> wp (procEvtPrepareSnapshotState hw evt p) Q s"
    and "m_state s = STATE_PIC_TAKING \<Longrightarrow> wp (procEvtPicTakingState hw evt p) Q s"
    and "m_state s = STATE_RECORDING \<Longrightarrow> wp (procEvtRecordingState hw evt p) Q s"
    and "m_state s = STATE_VIDEO_PIC_TAKING \<Longrightarrow> wp (procEvtVideoPicTakingState hw evt p) Q s"
    and "m_state s = STATE_PREVIEW_PIC_TAKING \<Longrightarrow> wp (procEvtPreviewPicTakingState hw evt p) Q s"
  shows "wp (stateMachine hw evt p) Q s"
  unfolding stateMachine_def by (intro wp_rules) (cases "m_state s"; simp add: assms)

lemma sm_exec_wp: "wp (stateMachine hw evt p) (\<lambda>_. P) s \<Longrightarrow> P (sm_exec hw (evt, p) s)"
  by (simp add: wp_def sm_exec_def)

end
