(* ===== verification/SmProps.thy ===== *)
theory SmProps
  imports SmDispatch
begin

unbundle bit_operations_syntax

text \<open>
  The properties of the camera state machine, for an arbitrary parent \<open>hw\<close>: which callers
  are answered, what the state says about the calls that were made, and what the machine does
  on the requests that start and stop preview, recording and capture.
\<close>

section \<open>Concrete parents and payloads\<close>

text \<open>
  A payload that carries nothing of interest, a parent whose calls all succeed and whose
  flags are all clear, and one that fails a given call.
\<close>

definition no_payload :: payload where
  "no_payload =
     \<lparr>as_ptr = NULL, as_int = 0,
      as_setcb = \<lparr>notify_cb = NULL, data_cb = NULL, data_cb_timestamp = NULL, get_memory = NULL,
                  user = NULL\<rparr>,
      as_command = \<lparr>cmd = CAMERA_CMD_OTHER 0, arg1 = 0, arg2 = 0\<rparr>,
      as_reg_face = \<lparr>img_ptr = NULL, config = NULL\<rparr>,
      as_internal = \<lparr>evt_type = INTERNAL_EVT_PREP_SNAPSHOT_DONE, evt_data = 0\<rparr>,
      as_cam_evt = CAM_EVENT_TYPE_DAEMON_DIED\<rparr>"

definition quiet_hw :: hwi where
  "quiet_hw t c = (0, 0, 0)"

definition hw_with :: "hwi_call \<Rightarrow> int \<Rightarrow> hwi" where
  "hw_with c0 v t c = (if c = c0 then v else 0, 0, 0)"

lemma run_state_hcall [simp]:
  "run_state (hcall hw c) s =
     (fst (hw (hwi_trace s) c), s\<lparr>hwi_trace := (c, hw (hwi_trace s) c) # hwi_trace s\<rparr>)"
  by (simp add: hcall_def Let_def)

lemma run_state_hcall2 [simp]:
  "run_state (hcall2 hw c) s =
     (hw (hwi_trace s) c, s\<lparr>hwi_trace := (c, hw (hwi_trace s) c) # hwi_trace s\<rparr>)"
  by (simp add: hcall2_def Let_def)

lemma run_state_hquery [simp]:
  "run_state (hquery hw q) s =
     (fst (hw (hwi_trace s) (HW_query q)) \<noteq> 0,
      s\<lparr>hwi_trace := (HW_query q, hw (hwi_trace s) (HW_query q)) # hwi_trace s\<rparr>)"
  by (simp add: hquery_def Let_def)

lemma run_state_set_m_state [simp]: "run_state (set_m_state st) s = ((), s\<lparr>m_state := st\<rparr>)"
  by (simp add: set_m_state_def)

text \<open>Evaluation of a step on a concrete parent.\<close>

lemmas sm_eval = sm_exec_def stateMachine_def handler_defs reply_defs applyDelayedMsgs_def whenM_def
  takePicture_clearHint_def previewing_takePicture_def takePicture_capture_def
  takePicture_recover_def quiet_hw_def hw_with_def no_payload_def sm_init_def

section \<open>Answers\<close>



text \<open>
  the two cases that signal nothing. A recording frame that is returned while the preview
  is stopped, ready or running, and a face image registered during a snapshot preparation,
  leave their caller without an answer, whatever the parent does.
\<close>

theorem unanswered_requests:
  assumes "unanswered (m_state s) evt"
  shows "api_answers (hwi_trace (sm_exec hw (evt, payload) s)) = api_answers (hwi_trace s)"
proof -
  have "is_sync_evt evt" using assms by (auto simp: unanswered_def is_sync_evt_def is_api_evt_def)
  with sm_exec_ok[of "(evt, payload)" s hw] assms show ?thesis
    by (auto simp: sm_step_ok_def sync_reply_ok_def)
qed

theorem unanswered_requests_witness:
  "api_answers (hwi_trace (sm_exec quiet_hw (EVT_RELEASE_RECORIDNG_FRAME, no_payload)
     (sm_init False False))) = []"
  using unanswered_requests[of "sm_init False False" EVT_RELEASE_RECORIDNG_FRAME quiet_hw no_payload]
  by (simp add: unanswered_def sm_init_def)

text \<open>
  a finished snapshot is reported exactly once to the thread that waits for it, with the
  status the handler returns, in every state; no other event reports one.
\<close>

theorem snapshot_done_reported_once:
  assumes "run_state (stateMachine hw evt payload) s = (rc, s')"
  shows "evt_answers (hwi_trace s') =
     (if evt = EVT_SNAPSHOT_DONE
      then [\<lparr>status = rc, request_api = EVT_SNAPSHOT_DONE,
             result_type = API_RESULT_TYPE_DEF, res_value = 0\<rparr>] else []) @
     evt_answers (hwi_trace s)"
  using stateMachine_ok[OF assms] by (simp add: sm_step_ok_def evt_reply_ok_def ok_answer_def)

theorem snapshot_done_reported_once_witness:
  "map request_api (evt_answers (hwi_trace (snd (run_state
      (stateMachine quiet_hw EVT_SNAPSHOT_DONE no_payload) (sm_init False False))))) =
     [EVT_SNAPSHOT_DONE]"
  using snapshot_done_reported_once[where hw = quiet_hw and evt = EVT_SNAPSHOT_DONE and
      payload = no_payload and s = "sm_init False False", OF prod.collapse[symmetric]]
  by (simp add: sm_init_def)

text \<open>The number of answers a run has given to requests of one kind.\<close>

definition answer_count :: "sm_evt \<Rightarrow> sm \<Rightarrow> nat" where
  "answer_count e s = count_list (map request_api (api_answers (hwi_trace s))) e"

text \<open>
  The requests that are answered at once in every state: all that callers wait for but the
  four that may be deferred or left without an answer.
\<close>

definition always_answered :: "sm_evt \<Rightarrow> bool" where
  "always_answered e \<longleftrightarrow> is_sync_evt e \<and>
     e \<notin> {EVT_PREPARE_SNAPSHOT, EVT_TAKE_PICTURE, EVT_RELEASE_RECORIDNG_FRAME, EVT_REG_FACE_IMAGE}"

lemma answer_count_exec:
  assumes "always_answered e"
  shows "answer_count e (sm_exec hw ev s) = answer_count e s + (if fst ev = e then 1 else 0)"
proof -
  obtain rc where ok: "sm_step_ok (fst ev) s rc (sm_exec hw ev s)" using sm_exec_ok by blast
  show ?thesis
  proof (cases "is_sync_evt (fst ev)")
    case True
    with ok have reply: "sync_reply_ok (fst ev) rc s (sm_exec hw ev s)" by (simp add: sm_step_ok_def)
    have "\<not> unanswered (m_state s) e" "\<not> deferred (m_state s) e rc st' t" for st' t
      using assms by (auto simp: always_answered_def unanswered_def deferred_def)
    then show ?thesis using reply
      by (cases "fst ev = e") (auto simp: sync_reply_ok_def Let_def answer_count_def split: if_splits)
  next
    case False
    with ok assms show ?thesis
      by (auto simp: sm_step_ok_def async_reply_ok_def Let_def answer_count_def always_answered_def
          ok_answer_def is_sync_evt_def is_api_evt_def)
  qed
qed

text \<open>
  over a whole run, from any state and with any parent, the number of answers to requests
  of one kind is the number of these requests: no answer is lost, doubled or sent to the
  wrong request.
\<close>

theorem run_answers_each_request:
  assumes "always_answered e"
  shows "answer_count e (sm_run hw evs s) = answer_count e s + count_list (map fst evs) e"
proof (induction evs arbitrary: s)
  case Nil
  then show ?case by simp
next
  case (Cons ev evs)
  then show ?case using answer_count_exec[OF assms] by simp
qed

theorem run_answers_each_request_witness:
  "answer_count EVT_START_PREVIEW
     (sm_run quiet_hw [(EVT_START_PREVIEW, no_payload), (EVT_DUMP, no_payload),
        (EVT_START_PREVIEW, no_payload)] (sm_init False False)) = 2"
  using run_answers_each_request[of EVT_START_PREVIEW quiet_hw
     "[(EVT_START_PREVIEW, no_payload), (EVT_DUMP, no_payload), (EVT_START_PREVIEW, no_payload)]"
     "sm_init False False"]
  by (simp add: always_answered_def is_sync_evt_def is_api_evt_def answer_count_def sm_init_def)

section \<open>Transitions and permitted calls\<close>

text \<open>C2: every change of the state is an edge of the transition graph \<open>sm_edge\<close>.\<close>

theorem state_changes_along_edges:
  "m_state (sm_exec hw (evt, payload) s) = m_state s \<or>
   sm_edge (m_state s) evt (m_state (sm_exec hw (evt, payload) s))"
  using sm_exec_ok[of "(evt, payload)" s hw] by (auto simp: sm_step_ok_def)

text \<open>
  a handler only adds calls to those made before it, and asks the parent to start, stop,
  capture, record or release only in the states that permit it: the camera is released only
  with the preview stopped, a live snapshot is taken only while recording, no stream operation
  at all is made during a snapshot preparation.
\<close>

theorem calls_permitted:
  "\<exists>new. hwi_trace (sm_exec hw (evt, payload) s) = new @ hwi_trace s \<and>
     list_all (\<lambda>c. permitted (m_state s) (fst c)) new"
  using sm_exec_ok[of "(evt, payload)" s hw]
  by (auto simp: sm_step_ok_def extends_iff list_all_iff)

section \<open>What the state says about the calls\<close>

text \<open>
  over any run from construction and with any parent, the machine reports a recording
  exactly when the last successful \<open>startRecording\<close> has not been followed by a
  \<open>stopRecording\<close>.
\<close>

theorem isRecording_iff_recording_on:
  "isRecording (sm_run hw evs (sm_init b d)) \<longleftrightarrow>
   recording_on (hwi_trace (sm_run hw evs (sm_init b d)))"
  using sm_inv_run[OF sm_inv_init, of hw evs b d]
  by (auto simp: sm_inv_def isRecording_def recording_state_def split: qcamera_state.splits)

text \<open>
  a state with a capture in progress is only entered by a capture request that succeeded
  and is left when the capture is cancelled.
\<close>

theorem isCaptureRunning_needs_capture:
  assumes "isCaptureRunning (sm_run hw evs (sm_init b d))"
  shows "capture_on (hwi_trace (sm_run hw evs (sm_init b d)))"
  using sm_inv_run[OF sm_inv_init, of hw evs b d] assms
  by (auto simp: sm_inv_def isCaptureRunning_def capture_state_def split: qcamera_state.splits)

theorem isCaptureRunning_needs_capture_witness:
  "capture_on (hwi_trace (sm_run quiet_hw [(EVT_START_NODISPLAY_PREVIEW, no_payload),
      (EVT_TAKE_PICTURE, no_payload)] (sm_init False False)))"
  by (rule isCaptureRunning_needs_capture) (simp add: sm_eval isCaptureRunning_def)

text \<open>
  over any run from construction, message types are held back only while the delay flag is
  set, and only the preview frames.
\<close>

theorem only_preview_frames_delayed:
  "m_DelayedMsgs (sm_run hw evs (sm_init b d)) \<in> {0, CAMERA_MSG_PREVIEW_FRAME} \<and>
   (m_DelayedMsgs (sm_run hw evs (sm_init b d)) = 0 \<or>
    m_bDelayPreviewMsgs (sm_run hw evs (sm_init b d)))"
  using sm_inv_run[OF sm_inv_init, of hw evs b d]
  by (auto simp: sm_inv_def delayed_inv_def)

text \<open>
  while the delay flag is set, a request for preview frames is passed on without them, and
  the next request to start the preview asks for them and clears the flag.
\<close>

theorem delayed_preview_frames_delivered:
  assumes "m_state s = STATE_PREVIEWING" "m_bDelayPreviewMsgs s"
    and "as_int p AND CAMERA_MSG_PREVIEW_FRAME \<noteq> 0"
  shows "\<exists>r1 r2. map fst (hwi_trace
       (sm_run hw [(EVT_ENABLE_MSG_TYPE, p), (EVT_START_PREVIEW, q)] s)) =
     [HW_signalAPIResult r2, HW_enableMsgType CAMERA_MSG_PREVIEW_FRAME,
      HW_signalAPIResult r1, HW_enableMsgType (as_int p AND NOT CAMERA_MSG_PREVIEW_FRAME)] @
     map fst (hwi_trace s)"
  using assms by (simp add: sm_eval)

theorem delayed_preview_frames_delivered_witness:
  "HW_enableMsgType 16 \<in> set (map fst (hwi_trace
     (sm_run quiet_hw [(EVT_ENABLE_MSG_TYPE, no_payload\<lparr>as_int := 17\<rparr>), (EVT_START_PREVIEW, no_payload)]
       ((sm_init False False)\<lparr>m_state := STATE_PREVIEWING, m_bDelayPreviewMsgs := True\<rparr>))))"
  using delayed_preview_frames_delivered[of
     "(sm_init False False)\<lparr>m_state := STATE_PREVIEWING, m_bDelayPreviewMsgs := True\<rparr>"
     "no_payload\<lparr>as_int := 17\<rparr>" quiet_hw no_payload]
  by auto

section \<open>Answers about the state\<close>

text \<open>
  what a caller that asks whether the preview is enabled is told. In a snapshot
  preparation the question is refused; otherwise the flag is that of \<open>isPreviewRunning\<close>,
  except in state RECORDING, where the preview runs and the flag is 0.
\<close>

theorem preview_enabled_answer:
  "\<exists>v. api_answers (hwi_trace (sm_exec hw (EVT_PREVIEW_ENABLED, p) s)) =
     (if m_state s = STATE_PREPARE_SNAPSHOT
      then \<lparr>status = INVALID_OPERATION, request_api = EVT_PREVIEW_ENABLED,
            result_type = API_RESULT_TYPE_DEF, res_value = 0\<rparr>
      else \<lparr>status = NO_ERROR, request_api = EVT_PREVIEW_ENABLED,
            result_type = API_RESULT_TYPE_ENABLE_FLAG,
            res_value = of_bool (isPreviewRunning s \<and> m_state s \<noteq> STATE_RECORDING)\<rparr>) #
     api_answers (hwi_trace s)"
  by (cases "m_state s") (simp_all add: sm_eval isPreviewRunning_def)

text \<open>
  what a caller that asks whether a recording is enabled is told: the flag of
  \<open>isRecording\<close>, except that a snapshot preparation refuses the question.
\<close>

theorem recording_enabled_answer:
  "api_answers (hwi_trace (sm_exec hw (EVT_RECORDING_ENABLED, p) s)) =
     (if m_state s = STATE_PREPARE_SNAPSHOT
      then \<lparr>status = INVALID_OPERATION, request_api = EVT_RECORDING_ENABLED,
            result_type = API_RESULT_TYPE_DEF, res_value = 0\<rparr>
      else \<lparr>status = NO_ERROR, request_api = EVT_RECORDING_ENABLED,
            result_type = API_RESULT_TYPE_ENABLE_FLAG, res_value = of_bool (isRecording s)\<rparr>) #
     api_answers (hwi_trace s)"
  by (cases "m_state s") (simp_all add: sm_eval isRecording_def)

section \<open>Starting and stopping\<close>

text \<open>
  from every state and with any parent, the end of a pending snapshot preparation
  followed by a request to stop the preview leaves the preview stopped, so that the request to
  release the camera that follows reaches the parent and is answered with its status.
\<close>

theorem stop_then_release:
  assumes "evt_type (as_internal p) = INTERNAL_EVT_PREP_SNAPSHOT_DONE"
  shows "m_state (sm_run hw [(EVT_EVT_INTERNAL, p), (EVT_STOP_PREVIEW, q), (EVT_RELEASE, r)] s) =
           STATE_PREVIEW_STOPPED \<and>
         (\<exists>rc v v' old. hwi_trace
            (sm_run hw [(EVT_EVT_INTERNAL, p), (EVT_STOP_PREVIEW, q), (EVT_RELEASE, r)] s) =
          (HW_signalAPIResult \<lparr>status = rc, request_api = EVT_RELEASE,
             result_type = API_RESULT_TYPE_DEF, res_value = 0\<rparr>, v) # (HW_release, rc, v') # old)"
proof -
  define s1 where "s1 = sm_exec hw (EVT_EVT_INTERNAL, p) s"
  define s2 where "s2 = sm_exec hw (EVT_STOP_PREVIEW, q) s1"
  have "wp (stateMachine hw EVT_EVT_INTERNAL p) (\<lambda>_ s'. m_state s' \<noteq> STATE_PREPARE_SNAPSHOT) s"
    by (intro stateMachine_wp; simp add: handler_defs Let_def assms; (intro wp_rules)?; simp)
  then have s1: "m_state s1 \<noteq> STATE_PREPARE_SNAPSHOT"
    unfolding s1_def by (rule sm_exec_wp)
  have "wp (stateMachine hw EVT_STOP_PREVIEW q) (\<lambda>_ s'. m_state s' = STATE_PREVIEW_STOPPED) s1"
    using s1 by (intro stateMachine_wp; simp add: handler_defs; (intro wp_rules)?; simp)
  then have s2: "m_state s2 = STATE_PREVIEW_STOPPED"
    unfolding s2_def by (rule sm_exec_wp)
  have run: "sm_run hw [(EVT_EVT_INTERNAL, p), (EVT_STOP_PREVIEW, q), (EVT_RELEASE, r)] s =
      sm_exec hw (EVT_RELEASE, r) s2"
    by (simp add: s1_def s2_def)
  obtain rc v where "hw (hwi_trace s2) HW_release = (rc, v)" by (meson surj_pair)
  then show ?thesis
    unfolding run using s2
    by (simp add: sm_exec_def stateMachine_def procEvtPreviewStoppedState_defs reply_defs)
       (metis prod_cases3)
qed

theorem stop_then_release_witness:
  "m_state (sm_run quiet_hw [(EVT_EVT_INTERNAL, no_payload), (EVT_STOP_PREVIEW, no_payload),
      (EVT_RELEASE, no_payload)] (sm_init False False)) = STATE_PREVIEW_STOPPED"
  by (rule stop_then_release[THEN conjunct1]) (simp add: no_payload_def)

text \<open>
  a request to start a recording in state PREVIEWING leads to state RECORDING if the
  parent's \<open>startRecording\<close> succeeds, and otherwise leaves the state as it was; the caller
  gets the parent's status.
\<close>

theorem start_recording_outcome:
  assumes "m_state s = STATE_PREVIEWING"
    and "run_state (stateMachine hw EVT_START_RECORDING p) s = (rc, s')"
  shows "rc = fst (hw (hwi_trace s) (HW_stream S_startRecording)) \<and>
         m_state s' = (if rc = NO_ERROR then STATE_RECORDING else STATE_PREVIEWING) \<and>
         (rc = NO_ERROR \<longrightarrow> \<not> m_bDelayPreviewMsgs s')"
  using assms by (auto simp: sm_eval split: if_splits)

theorem start_recording_outcome_witness:
  "m_state (snd (run_state (stateMachine (hw_with (HW_stream S_startRecording) (-1))
     EVT_START_RECORDING no_payload) ((sm_init False False)\<lparr>m_state := STATE_PREVIEWING\<rparr>))) =
   STATE_PREVIEWING"
  using start_recording_outcome[where s = "(sm_init False False)\<lparr>m_state := STATE_PREVIEWING\<rparr>"
     and hw = "hw_with (HW_stream S_startRecording) (-1)" and p = no_payload,
     OF _ prod.collapse[symmetric]]
  by (simp add: hw_with_def)

text \<open>
  a picture requested in state PREVIEWING. If the parent's \<open>takePicture\<close> succeeds the
  machine enters one of the two capture states, and in the one with the preview running it
  holds preview messages back. If it fails no capture state is entered, and the caller is told
  the failure.
\<close>

theorem take_picture_outcome:
  assumes "m_state s = STATE_PREVIEWING"
    and "run_state (stateMachine hw EVT_TAKE_PICTURE p) s = (rc, s')"
  shows "if rc = NO_ERROR
         then m_state s' = STATE_PIC_TAKING \<or>
              m_state s' = STATE_PREVIEW_PIC_TAKING \<and> m_bDelayPreviewMsgs s'
         else m_state s' \<in> {STATE_PREVIEWING, STATE_PREVIEW_STOPPED} \<and>
              (\<exists>old. api_answers (hwi_trace s') = ok_answer EVT_TAKE_PICTURE rc # old)"
proof -
  define Q where "Q = (\<lambda>(rc :: status) (s' :: sm). if rc = NO_ERROR
         then m_state s' = STATE_PIC_TAKING \<or>
              m_state s' = STATE_PREVIEW_PIC_TAKING \<and> m_bDelayPreviewMsgs s'
         else m_state s' \<in> {STATE_PREVIEWING, STATE_PREVIEW_STOPPED} \<and>
              (\<exists>old. api_answers (hwi_trace s') = ok_answer EVT_TAKE_PICTURE rc # old))"
  have capture: "wp (takePicture_capture hw EVT_TAKE_PICTURE) Q s1" for s1
    unfolding takePicture_capture_def takePicture_recover_def Q_def
    by (intro wp_rules, simp_all add: ok_answer_def)
  have "wp (previewing_takePicture hw EVT_TAKE_PICTURE) Q s"
    unfolding previewing_takePicture_def
    by (rule wp_bind, rule clearHint_quiet, rule capture, simp add: assms(1))
  then have "wp (stateMachine hw EVT_TAKE_PICTURE p) Q s"
    by (intro stateMachine_wp; simp add: assms(1) procEvtPreviewingState_defs)
  from wp_run[OF this assms(2)] show ?thesis by (simp only: Q_def)
qed

theorem take_picture_outcome_witness:
  "m_state (snd (run_state (stateMachine (hw_with (HW_stream S_takePicture) (-1))
     EVT_TAKE_PICTURE no_payload) ((sm_init False False)\<lparr>m_state := STATE_PREVIEWING\<rparr>))) \<in>
   {STATE_PREVIEWING, STATE_PREVIEW_STOPPED}"
  using take_picture_outcome[where s = "(sm_init False False)\<lparr>m_state := STATE_PREVIEWING\<rparr>"
     and hw = "hw_with (HW_stream S_takePicture) (-1)" and p = no_payload,
     OF _ prod.collapse[symmetric]]
  by (simp add: sm_eval)

text \<open>
  all eight states are reached from construction, by a parent all of whose calls succeed
  and whose flags \<open>isZSLMode\<close> and \<open>mPreviewWindow\<close> are the given ones.
\<close>

definition event_path :: "qcamera_state \<Rightarrow> sm_evt list" where
  "event_path st = (case st of
     STATE_PREVIEW_STOPPED \<Rightarrow> []
   | STATE_PREVIEW_READY \<Rightarrow> [EVT_START_PREVIEW]
   | STATE_PREVIEWING \<Rightarrow> [EVT_START_NODISPLAY_PREVIEW]
   | STATE_PREPARE_SNAPSHOT \<Rightarrow> [EVT_START_NODISPLAY_PREVIEW, EVT_PREPARE_SNAPSHOT]
   | STATE_PIC_TAKING \<Rightarrow> [EVT_START_NODISPLAY_PREVIEW, EVT_TAKE_PICTURE]
   | STATE_RECORDING \<Rightarrow> [EVT_START_NODISPLAY_PREVIEW, EVT_START_RECORDING]
   | STATE_VIDEO_PIC_TAKING \<Rightarrow> [EVT_START_NODISPLAY_PREVIEW, EVT_START_RECORDING, EVT_TAKE_PICTURE]
   | STATE_PREVIEW_PIC_TAKING \<Rightarrow> [EVT_START_NODISPLAY_PREVIEW, EVT_TAKE_PICTURE])"

theorem every_state_reached:
  "m_state (sm_run (hw_with (HW_query Q_isZSLMode) (of_bool (st = STATE_PREVIEW_PIC_TAKING)))
      (map (\<lambda>e. (e, no_payload)) (event_path st)) (sm_init b d)) = st"
  by (cases st) (simp_all add: event_path_def sm_eval)

section \<open>Where answer, state and preview disagree\<close>

text \<open>
  in state PREVIEW_READY a request to start the preview is always answered with success,
  also when the parent's \<open>startPreview\<close> fails and the machine goes back to PREVIEW_STOPPED.
\<close>

theorem ready_start_preview_always_succeeds:
  assumes "m_state s = STATE_PREVIEW_READY"
    and "evt = EVT_START_PREVIEW \<or> evt = EVT_START_NODISPLAY_PREVIEW"
    and "\<And>t. fst (hw t (HW_query Q_mPreviewWindow)) \<noteq> 0"
    and "\<And>t. fst (hw t (HW_stream S_startPreview)) \<noteq> NO_ERROR"
  shows "m_state (sm_exec hw (evt, p) s) = STATE_PREVIEW_STOPPED \<and>
         api_answers (hwi_trace (sm_exec hw (evt, p) s)) =
           ok_answer evt NO_ERROR # api_answers (hwi_trace s)"
  using assms by (auto simp: sm_eval ok_answer_def)

text \<open>A parent with a preview window that cannot start the preview.\<close>

definition no_preview_hw :: hwi where
  "no_preview_hw t c =
     (if c = HW_query Q_mPreviewWindow then 1
      else if c = HW_stream S_startPreview then UNKNOWN_ERROR else 0, 0, 0)"

theorem ready_start_preview_always_succeeds_witness:
  "m_state (sm_exec no_preview_hw (EVT_START_PREVIEW, no_payload)
     ((sm_init False False)\<lparr>m_state := STATE_PREVIEW_READY\<rparr>)) = STATE_PREVIEW_STOPPED"
  by (rule ready_start_preview_always_succeeds[THEN conjunct1]) (simp_all add: no_preview_hw_def)

text \<open>
  a restart after a parameter change whose \<open>preparePreview\<close> fails is answered with the
  failure, but the machine stays in state PREVIEWING although the stop request before it has
  stopped the preview and nothing started it again.
\<close>

theorem failed_restart_stays_previewing:
  assumes "m_state s = STATE_PREVIEWING"
    and "\<And>t. fst (hw t (HW_stream S_preparePreview)) \<noteq> NO_ERROR"
  shows "m_state (sm_run hw [(EVT_SET_PARAMS_STOP, p), (EVT_SET_PARAMS_RESTART, q)] s) =
           STATE_PREVIEWING \<and>
         filter (\<lambda>c. c \<in> {HW_stream S_stopPreview, HW_stream S_startPreview}) (map fst (hwi_trace
           (sm_run hw [(EVT_SET_PARAMS_STOP, p), (EVT_SET_PARAMS_RESTART, q)] s))) =
         HW_stream S_stopPreview #
         filter (\<lambda>c. c \<in> {HW_stream S_stopPreview, HW_stream S_startPreview}) (map fst (hwi_trace s))"
  using assms by (simp add: sm_eval)

theorem failed_restart_stays_previewing_witness:
  "m_state (sm_run (hw_with (HW_stream S_preparePreview) UNKNOWN_ERROR)
      [(EVT_SET_PARAMS_STOP, no_payload), (EVT_SET_PARAMS_RESTART, no_payload)]
      ((sm_init False False)\<lparr>m_state := STATE_PREVIEWING\<rparr>)) = STATE_PREVIEWING"
  by (rule failed_restart_stays_previewing[THEN conjunct1]) (simp_all add: hw_with_def)

text \<open>the text of \<open>dump\<close> tells any two states apart.\<close>

theorem dump_determines_state: "dump s = dump t \<longleftrightarrow> m_state s = m_state t"
  by (cases "m_state s"; cases "m_state t")
     (simp_all add: dump_def isPreviewRunning_def isCaptureRunning_def
        isNonZSLCaptureRunning_def show_bool_def)

end
