(* ===== verification/CamList.thy ===== *)
theory CamList
  imports DevPrelude "HOL-Library.Monad_Syntax"
begin

text \<open>
  The intrusive list of camera/QCamera2/stack/common/cam_list.h on an explicit heap of queue
  nodes, and the theory of its rings. The heap maps the addresses of the allocated nodes to
  their fields: reading, writing or freeing an address that is not allocated is \<open>None\<close>, so
  that an operation that returns \<open>Some\<close> made no invalid access.
\<close>

section \<open>The heap of nodes\<close>

text \<open>
  \<open>camera_q_node\<close>: the list fields come first, so that \<open>member_of\<close> maps the address of the
  list to the same address.
\<close>

record cnode =
  nd_next :: ptr
  nd_prev :: ptr
  nd_data :: ptr

type_synonym nheap = "ptr \<rightharpoonup> cnode"

definition next_of :: "nheap \<Rightarrow> ptr \<Rightarrow> ptr option" where
  "next_of h p = map_option nd_next (h p)"

definition prev_of :: "nheap \<Rightarrow> ptr \<Rightarrow> ptr option" where
  "prev_of h p = map_option nd_prev (h p)"

definition data_of :: "nheap \<Rightarrow> ptr \<Rightarrow> ptr option" where
  "data_of h p = map_option nd_data (h p)"

definition set_next :: "ptr \<Rightarrow> ptr \<Rightarrow> nheap \<Rightarrow> nheap option" where
  "set_next p v h = do { n \<leftarrow> h p; Some (h(p \<mapsto> n\<lparr>nd_next := v\<rparr>)) }"

definition set_prev :: "ptr \<Rightarrow> ptr \<Rightarrow> nheap \<Rightarrow> nheap option" where
  "set_prev p v h = do { n \<leftarrow> h p; Some (h(p \<mapsto> n\<lparr>nd_prev := v\<rparr>)) }"

text \<open>\<open>malloc\<close> and \<open>memset\<close> of a node with its data stored, and \<open>free\<close> of a node.\<close>

definition new_node :: "ptr \<Rightarrow> ptr \<Rightarrow> nheap \<Rightarrow> nheap" where
  "new_node p d h = h(p \<mapsto> \<lparr>nd_next = NULL, nd_prev = NULL, nd_data = d\<rparr>)"

definition free_node :: "ptr \<Rightarrow> nheap \<Rightarrow> nheap option" where
  "free_node p h = do { _ \<leftarrow> h p; Some (h(p := None)) }"

section \<open>The operations of cam_list.h\<close>

definition cam_list_init :: "ptr \<Rightarrow> nheap \<Rightarrow> nheap option" where
  "cam_list_init p h = do {
     h \<leftarrow> set_next p p h;
     set_prev p p h }"

definition cam_list_add_tail_node :: "ptr \<Rightarrow> ptr \<Rightarrow> nheap \<Rightarrow> nheap option" where
  "cam_list_add_tail_node item head h = do {
     prev \<leftarrow> prev_of h head;
     h \<leftarrow> set_prev head item h;
     h \<leftarrow> set_next item head h;
     h \<leftarrow> set_prev item prev h;
     set_next prev item h }"

definition cam_list_insert_before_node :: "ptr \<Rightarrow> ptr \<Rightarrow> nheap \<Rightarrow> nheap option" where
  "cam_list_insert_before_node item node h = do {
     h \<leftarrow> set_next item node h;
     prev \<leftarrow> prev_of h node;
     h \<leftarrow> set_prev item prev h;
     prev \<leftarrow> prev_of h item;
     h \<leftarrow> set_next prev item h;
     set_prev node item h }"

definition cam_list_del_node :: "ptr \<Rightarrow> nheap \<Rightarrow> nheap option" where
  "cam_list_del_node p h = do {
     prev \<leftarrow> prev_of h p;
     next \<leftarrow> next_of h p;
     pp \<leftarrow> prev_of h p;
     h \<leftarrow> set_prev next pp h;
     pn \<leftarrow> next_of h p;
     h \<leftarrow> set_next prev pn h;
     h \<leftarrow> set_next p p h;
     set_prev p p h }"

section \<open>Heap updates\<close>

lemma next_of_upd [simp]: "next_of (h(p := v)) = (next_of h)(p := map_option nd_next v)"
  by (auto simp: next_of_def)

lemma prev_of_upd [simp]: "prev_of (h(p := v)) = (prev_of h)(p := map_option nd_prev v)"
  by (auto simp: prev_of_def)

lemma data_of_upd [simp]: "data_of (h(p := v)) = (data_of h)(p := map_option nd_data v)"
  by (auto simp: data_of_def)

text \<open>The heap after a write to an allocated node.\<close>

definition wr_next :: "ptr \<Rightarrow> ptr \<Rightarrow> nheap \<Rightarrow> nheap" where
  "wr_next p v h = h(p := map_option (nd_next_update (\<lambda>_. v)) (h p))"

definition wr_prev :: "ptr \<Rightarrow> ptr \<Rightarrow> nheap \<Rightarrow> nheap" where
  "wr_prev p v h = h(p := map_option (nd_prev_update (\<lambda>_. v)) (h p))"

lemma set_next_in [simp]: "p \<in> dom h \<Longrightarrow> set_next p v h = Some (wr_next p v h)"
  by (auto simp: set_next_def wr_next_def)

lemma set_prev_in [simp]: "p \<in> dom h \<Longrightarrow> set_prev p v h = Some (wr_prev p v h)"
  by (auto simp: set_prev_def wr_prev_def)

lemma free_node_in [simp]: "p \<in> dom h \<Longrightarrow> free_node p h = Some (h(p := None))"
  by (auto simp: free_node_def)

lemma dom_wr [simp]: "dom (wr_next p v h) = dom h" "dom (wr_prev p v h) = dom h"
  "dom (new_node p d h) = insert p (dom h)"
  by (auto simp: wr_next_def wr_prev_def new_node_def split: if_splits)

lemma fields_wr [simp]:
  "prev_of (wr_next p v h) = prev_of h" "data_of (wr_next p v h) = data_of h"
  "next_of (wr_prev p v h) = next_of h" "data_of (wr_prev p v h) = data_of h"
  by (auto simp: wr_next_def wr_prev_def next_of_def prev_of_def data_of_def fun_eq_iff option.map_comp o_def)

lemma next_of_wr_next [simp]: "p \<in> dom h \<Longrightarrow> next_of (wr_next p v h) = (next_of h)(p \<mapsto> v)"
  by (auto simp: wr_next_def)

lemma prev_of_wr_prev [simp]: "p \<in> dom h \<Longrightarrow> prev_of (wr_prev p v h) = (prev_of h)(p \<mapsto> v)"
  by (auto simp: wr_prev_def)

lemma fields_new_node [simp]:
  "next_of (new_node p d h) = (next_of h)(p \<mapsto> NULL)"
  "prev_of (new_node p d h) = (prev_of h)(p \<mapsto> NULL)"
  "data_of (new_node p d h) = (data_of h)(p \<mapsto> d)"
  by (simp_all add: new_node_def)

section \<open>Segments and rings\<close>

text \<open>
  \<open>lseg N P a xs b\<close>: following the next pointers \<open>N\<close> from \<open>a\<close> visits \<open>xs\<close> and ends in \<open>b\<close>,
  and the previous pointers \<open>P\<close> lead back.
\<close>

fun lseg :: "(ptr \<rightharpoonup> ptr) \<Rightarrow> (ptr \<rightharpoonup> ptr) \<Rightarrow> ptr \<Rightarrow> ptr list \<Rightarrow> ptr \<Rightarrow> bool" where
  "lseg N P a [] b \<longleftrightarrow> N a = Some b \<and> P b = Some a"
| "lseg N P a (x # xs) b \<longleftrightarrow> N a = Some x \<and> P x = Some a \<and> lseg N P x xs b"

lemma lseg_append: "lseg N P a (xs @ y # ys) b \<longleftrightarrow> lseg N P a xs y \<and> lseg N P y ys b"
  by (induction xs arbitrary: a) auto

lemma lseg_next: "lseg N P a xs b \<Longrightarrow> N a = Some (hd (xs @ [b]))"
  by (cases xs) auto

lemma lseg_prev: "lseg N P a xs b \<Longrightarrow> P b = Some (last (a # xs))"
  by (induction xs arbitrary: a) auto

lemma lseg_upd_next: "c \<notin> set (a # xs) \<Longrightarrow> lseg (N(c := v)) P a xs b = lseg N P a xs b"
  by (induction xs arbitrary: a) auto

lemma lseg_upd_prev: "c \<notin> set xs \<Longrightarrow> c \<noteq> b \<Longrightarrow> lseg N (P(c := v)) a xs b = lseg N P a xs b"
  by (induction xs arbitrary: a) auto

text \<open>Changing what comes before or after a segment.\<close>

lemma lseg_new_first:
  assumes "lseg N P a vs b" "c \<notin> set vs" "distinct vs" "b \<notin> set vs" "a \<notin> set vs"
  shows "lseg (N(c \<mapsto> hd (vs @ [b]))) (P(hd (vs @ [b]) \<mapsto> c)) c vs b"
  using assms by (cases vs) (auto simp: lseg_upd_next lseg_upd_prev)

lemma lseg_new_last:
  assumes "lseg N P a us b" "distinct us" "a \<notin> set us" "c \<notin> set us"
  shows "lseg (N(last (a # us) \<mapsto> c)) (P(c \<mapsto> last (a # us))) a us c"
proof (cases us rule: rev_cases)
  case Nil
  then show ?thesis by simp
next
  case (snoc us' u)
  with assms show ?thesis by (auto simp: lseg_append lseg_upd_next lseg_upd_prev)
qed

lemma last_in: "last (a # ns) \<in> insert a (set ns)"
  by (metis last_in_set list.distinct(1) list.simps(15))

text \<open>Taking a node out of a segment, and putting one in.\<close>

lemma lseg_remove:
  assumes seg: "lseg N P a (us @ p # vs) b"
    and d: "distinct (us @ p # vs)" "a \<notin> set (us @ p # vs)" "b \<notin> set (us @ p # vs)"
  shows "lseg (N(last (a # us) \<mapsto> hd (vs @ [b]))) (P(hd (vs @ [b]) \<mapsto> last (a # us))) a (us @ vs) b"
proof (cases vs)
  case Nil
  then show ?thesis using seg d lseg_new_last[of N P a us p b] by (simp add: lseg_append)
next
  case (Cons v vs')
  have "lseg (N(last (a # us) \<mapsto> v)) (P(v \<mapsto> last (a # us))) a us v"
    using seg d Cons by (intro lseg_new_last[of N P a us p v]) (auto simp: lseg_append)
  moreover have "lseg (N(last (a # us) \<mapsto> v)) (P(v \<mapsto> last (a # us))) v vs' b"
    using seg d Cons last_in[of a us]
    by (subst lseg_upd_next) (auto simp: lseg_upd_prev lseg_append simp del: last.simps)
  ultimately show ?thesis by (simp add: Cons lseg_append)
qed

lemma lseg_insert:
  assumes seg: "lseg N P a (us @ vs) b"
    and d: "distinct (us @ vs)" "a \<notin> set (us @ vs)" "b \<notin> set (us @ vs)"
      "p \<notin> set (us @ vs)" "p \<noteq> a" "p \<noteq> b"
  shows "lseg (N(last (a # us) \<mapsto> p, p \<mapsto> hd (vs @ [b])))
              (P(p \<mapsto> last (a # us), hd (vs @ [b]) \<mapsto> p)) a (us @ p # vs) b"
proof -
  obtain c where left: "lseg N P a us c" and right: "\<exists>e. lseg N P e vs b"
  proof (cases vs)
    case Nil
    show ?thesis
    proof (rule that)
      show "lseg N P a us b" using seg Nil by simp
      show "\<exists>e. lseg N P e vs b" using lseg_prev[OF seg] Nil seg
        by (cases us rule: rev_cases) (auto simp: lseg_append)
    qed
  next
    case (Cons v vs')
    show ?thesis
    proof (rule that)
      show "lseg N P a us v" using seg Cons by (simp add: lseg_append)
      show "\<exists>e. lseg N P e vs b" using seg Cons
        by (cases us rule: rev_cases) (auto simp: lseg_append)
    qed
  qed
  have nx: "hd (vs @ [b]) \<noteq> p" using d by (cases vs) auto
  have "lseg (N(last (a # us) \<mapsto> p)) (P(p \<mapsto> last (a # us))) a us p"
    using left d by (intro lseg_new_last) auto
  moreover have "hd (vs @ [b]) \<notin> set us" using d by (cases vs) auto
  ultimately have 1: "lseg (N(last (a # us) \<mapsto> p, p \<mapsto> hd (vs @ [b])))
      (P(p \<mapsto> last (a # us), hd (vs @ [b]) \<mapsto> p)) a us p"
    using nx d by (auto simp: lseg_upd_next lseg_upd_prev)
  from right obtain e where e: "lseg N P e vs b" by blast
  have "last (a # us) \<notin> set vs" "last (a # us) \<noteq> p"
    using d last_in[of a us] by (auto simp del: last.simps)
  then have 2: "lseg (N(last (a # us) \<mapsto> p, p \<mapsto> hd (vs @ [b])))
      (P(p \<mapsto> last (a # us), hd (vs @ [b]) \<mapsto> p)) p vs b"
    using e d by (cases vs) (auto simp: lseg_upd_next lseg_upd_prev)
  from 1 2 show ?thesis by (simp add: lseg_append)
qed

text \<open>A ring: the head node and the nodes \<open>ns\<close> in queue order are all that is allocated.\<close>

definition ring :: "nheap \<Rightarrow> ptr \<Rightarrow> ptr list \<Rightarrow> bool" where
  "ring h a ns \<longleftrightarrow> lseg (next_of h) (prev_of h) a ns a \<and> distinct ns \<and> a \<notin> set ns \<and>
     dom h = insert a (set ns)"

lemma ring_dom: "ring h a ns \<Longrightarrow> dom h = insert a (set ns)"
  by (simp add: ring_def)

lemma ring_first: "ring h a ns \<Longrightarrow> next_of h a = Some (hd (ns @ [a]))"
  by (auto simp: ring_def lseg_next)

lemma ring_last: "ring h a ns \<Longrightarrow> prev_of h a = Some (last (a # ns))"
  unfolding ring_def using lseg_prev by blast

lemma ring_succ: "ring h a (us @ p # vs) \<Longrightarrow> next_of h p = Some (hd (vs @ [a]))"
  by (auto simp: ring_def lseg_append lseg_next)

lemma ring_pred: "ring h a (us @ p # vs) \<Longrightarrow> prev_of h p = Some (last (a # us))"
  unfolding ring_def lseg_append using lseg_prev by blast

lemma cam_list_init_ring:
  assumes "dom h = {a}"
  shows "\<exists>h'. cam_list_init a h = Some h' \<and> ring h' a []"
  using assms by (simp add: cam_list_init_def ring_def)

lemma add_tail_ring:
  assumes r: "ring h a ns" and p: "p \<notin> dom h"
  shows "\<exists>h'. cam_list_add_tail_node p a (new_node p d h) = Some h' \<and> ring h' a (ns @ [p]) \<and>
     data_of h' = (data_of h)(p \<mapsto> d)"
proof -
  have a: "p \<noteq> a" "p \<notin> set ns" "a \<notin> set ns" and l: "last (a # ns) \<in> insert a (set ns)"
    using r p last_in by (auto simp: ring_def)
  then have lp: "last (a # ns) \<noteq> p" by auto
  have "lseg ((next_of h)(last (a # ns) \<mapsto> p, p \<mapsto> a)) ((prev_of h)(p \<mapsto> last (a # ns), a \<mapsto> p)) a (ns @ [p]) a"
    using lseg_insert[of "next_of h" "prev_of h" a ns "[]" a p] r a by (auto simp: ring_def)
  with lp a have "lseg ((next_of h)(p \<mapsto> a, last (a # ns) \<mapsto> p)) ((prev_of h)(a \<mapsto> p, p \<mapsto> last (a # ns))) a (ns @ [p]) a"
    by (simp add: fun_upd_twist)
  then show ?thesis
    using r a l lp ring_last[OF r] ring_dom[OF r]
    by (auto simp: cam_list_add_tail_node_def ring_def simp del: last.simps)
qed

text \<open>The steps of \<open>enqueueWithPriority\<close> put the node at the front.\<close>

lemma add_front_ring:
  assumes r: "ring h a ns" and p: "p \<notin> dom h" and "f = hd (ns @ [a])"
  shows "ring (wr_prev p a (wr_next p f (wr_prev f p (wr_next a p (new_node p d h))))) a (p # ns)"
proof -
  have a: "p \<noteq> a" "p \<notin> set ns" "a \<notin> set ns" and f: "f \<in> insert a (set ns)"
    using r p assms(3) by (cases ns; auto simp: ring_def)+
  have "lseg ((next_of h)(a \<mapsto> p, p \<mapsto> f)) ((prev_of h)(p \<mapsto> a, f \<mapsto> p)) a (p # ns) a"
    using lseg_insert[of "next_of h" "prev_of h" a "[]" ns a p] r a assms(3) by (auto simp: ring_def)
  moreover have "p \<noteq> f" using a f by auto
  ultimately have "lseg ((next_of h)(a \<mapsto> p, p \<mapsto> f)) ((prev_of h)(f \<mapsto> p, p \<mapsto> a)) a (p # ns) a"
    by (simp only: fun_upd_twist[of f p])
  then show ?thesis
    using r a f by (auto simp: ring_def)
qed

lemma del_ring:
  assumes r: "ring h a (us @ p # vs)"
  shows "\<exists>h'. cam_list_del_node p h = Some h' \<and> p \<in> dom h' \<and> data_of h' = data_of h \<and>
     ring (h'(p := None)) a (us @ vs)"
proof -
  let ?l = "last (a # us)" and ?f = "hd (vs @ [a])"
  have d: "distinct (us @ p # vs)" "a \<notin> set (us @ p # vs)" using r by (auto simp: ring_def)
  have l: "?l \<in> insert a (set us)" "?l \<noteq> p" and f: "?f \<in> insert a (set vs)" "?f \<noteq> p"
    using d last_in[of a us] by (auto simp: hd_append simp del: last.simps split: if_splits)
  have "lseg ((next_of h)(?l \<mapsto> ?f)) ((prev_of h)(?f \<mapsto> ?l)) a (us @ vs) a"
    using lseg_remove[of "next_of h" "prev_of h" a us p vs a] r by (auto simp: ring_def)
  then have "lseg ((next_of h)(?l \<mapsto> ?f, p := None)) ((prev_of h)(?f \<mapsto> ?l, p := None)) a (us @ vs) a"
    using d by (subst lseg_upd_next) (auto simp: lseg_upd_prev)
  then show ?thesis
    using r d l f ring_pred[OF r] ring_succ[OF r] ring_dom[OF r]
    by (auto simp: cam_list_del_node_def ring_def simp del: last.simps)
qed

end
