(* ===== verification/QueueSpec.thy ===== *)
theory QueueSpec
  imports DevPrelude "HOL-Library.Monad_Syntax"
begin

text \<open>
  The contract of a command queue as its users see it, stated as a locale, and what follows
  from the contract for any implementation. An implementation may fail (\<open>None\<close>: an invalid
  memory access), may refuse data (the queue is inactive, or no memory) and may need a
  resource for each element: \<open>usable n q\<close> says that resource \<open>n\<close> may be handed to \<open>enq\<close>, and
  \<open>granted n\<close> that it was obtained.
\<close>

section \<open>The list queue\<close>

text \<open>
  What the queue of QCameraQueue.cpp is to its users: a list of data and the flag \<open>m_active\<close>.
  \<open>mem\<close> says whether the allocation of a node succeeded.
\<close>

record 'd aqueue =
  aq_items :: "'d list"
  aq_active :: bool

definition aq_enqueue :: "bool \<Rightarrow> 'd \<Rightarrow> 'd aqueue \<Rightarrow> bool \<times> 'd aqueue" where
  "aq_enqueue mem d q =
     (if mem \<and> aq_active q then (True, q\<lparr>aq_items := aq_items q @ [d]\<rparr>) else (False, q))"

definition aq_enqueueWithPriority :: "bool \<Rightarrow> 'd \<Rightarrow> 'd aqueue \<Rightarrow> bool \<times> 'd aqueue" where
  "aq_enqueueWithPriority mem d q =
     (if mem \<and> aq_active q then (True, q\<lparr>aq_items := d # aq_items q\<rparr>) else (False, q))"

definition aq_take :: "'d aqueue \<Rightarrow> 'd option \<times> 'd aqueue" where
  "aq_take q =
     (if \<not> aq_active q then (None, q)
      else case aq_items q of [] \<Rightarrow> (None, q) | d # ds \<Rightarrow> (Some d, q\<lparr>aq_items := ds\<rparr>))"

section \<open>The contract\<close>

text \<open>Putting a list of data into a queue, and taking a number of elements out.\<close>

fun produce :: "('q \<Rightarrow> 'n) \<Rightarrow> ('n \<Rightarrow> 'd \<Rightarrow> 'q \<Rightarrow> (bool \<times> 'q) option) \<Rightarrow> 'd list \<Rightarrow> 'q \<Rightarrow>
    ('d list \<times> 'q) option" where
  "produce get enq [] q = Some ([], q)"
| "produce get enq (d # ds) q = do {
     (b, q) \<leftarrow> enq (get q) d q;
     (acc, q) \<leftarrow> produce get enq ds q;
     Some (if b then d # acc else acc, q) }"

fun consume :: "('q \<Rightarrow> ('d \<times> 'q) option) \<Rightarrow> nat \<Rightarrow> 'q \<Rightarrow> ('d list \<times> 'q) option" where
  "consume deq 0 q = Some ([], q)"
| "consume deq (Suc n) q = do {
     (d, q) \<leftarrow> deq q;
     (ds, q) \<leftarrow> consume deq n q;
     Some (d # ds, q) }"

locale fifo_queue =
  fixes holds :: "'q \<Rightarrow> 'd list \<Rightarrow> bool \<Rightarrow> bool"
    and usable :: "'n \<Rightarrow> 'q \<Rightarrow> bool"
    and granted :: "'n \<Rightarrow> bool"
    and enq :: "'n \<Rightarrow> 'd \<Rightarrow> 'q \<Rightarrow> (bool \<times> 'q) option"
    and deq :: "'q \<Rightarrow> ('d \<times> 'q) option"
    and nothing :: 'd
  assumes enq_law: "holds q xs act \<Longrightarrow> usable n q \<Longrightarrow>
      \<exists>q'. enq n d q = Some (granted n \<and> act, q') \<and>
           holds q' (if granted n \<and> act then xs @ [d] else xs) act"
    and deq_Cons: "holds q (x # xs) True \<Longrightarrow> \<exists>q'. deq q = Some (x, q') \<and> holds q' xs True"
    and deq_Nil: "holds q [] True \<Longrightarrow> \<exists>q'. deq q = Some (nothing, q') \<and> holds q' [] True"
begin

text \<open>A producer whose resources are always granted while the queue is active.\<close>

definition supplies :: "('q \<Rightarrow> 'n) \<Rightarrow> bool" where
  "supplies get \<longleftrightarrow> (\<forall>q xs act. holds q xs act \<longrightarrow> usable (get q) q \<and> granted (get q))"

lemma produce_active:
  assumes "supplies get" "holds q xs True"
  shows "\<exists>q'. produce get enq ds q = Some (ds, q') \<and> holds q' (xs @ ds) True"
  using assms(2)
proof (induction ds arbitrary: q xs)
  case Nil
  then show ?case by simp
next
  case (Cons d ds)
  have g: "usable (get q) q" "granted (get q)" using assms(1) Cons.prems by (auto simp: supplies_def)
  obtain q1 where q1: "enq (get q) d q = Some (True, q1)" "holds q1 (xs @ [d]) True"
    using enq_law[OF Cons.prems g(1), of d] g(2) by auto
  from Cons.IH[OF q1(2)] q1(1) show ?case by auto
qed

lemma produce_inactive:
  assumes "supplies get" "holds q xs False"
  shows "\<exists>q'. produce get enq ds q = Some ([], q') \<and> holds q' xs False"
  using assms(2)
proof (induction ds arbitrary: q)
  case Nil
  then show ?case by simp
next
  case (Cons d ds)
  have "usable (get q) q" using assms(1) Cons.prems by (auto simp: supplies_def)
  then obtain q1 where q1: "enq (get q) d q = Some (False, q1)" "holds q1 xs False"
    using enq_law[OF Cons.prems, of "get q" d] by auto
  from Cons.IH[OF q1(2)] q1(1) show ?case by auto
qed

lemma consume_prefix:
  assumes "holds q (ys @ xs) True"
  shows "\<exists>q'. consume deq (length ys) q = Some (ys, q') \<and> holds q' xs True"
  using assms
proof (induction ys arbitrary: q)
  case Nil
  then show ?case by simp
next
  case (Cons y ys)
  then obtain q1 where q1: "deq q = Some (y, q1)" "holds q1 (ys @ xs) True"
    using deq_Cons[of q y "ys @ xs"] by auto
  from Cons.IH[OF q1(2)] q1(1) show ?case by auto
qed

text \<open>First in, first out: what was held and what is produced comes out in this order.\<close>

lemma fifo:
  assumes "supplies get" "holds q xs True"
  shows "\<exists>q' q''. produce get enq ds q = Some (ds, q') \<and>
     consume deq (length xs + length ds) q' = Some (xs @ ds, q'') \<and>
     deq q'' = Some (nothing, snd (the (deq q''))) \<and> holds q'' [] True"
proof -
  obtain q' where q': "produce get enq ds q = Some (ds, q')" "holds q' ((xs @ ds) @ []) True"
    using produce_active[OF assms] by auto
  obtain q'' where q'': "consume deq (length (xs @ ds)) q' = Some (xs @ ds, q'')" "holds q'' [] True"
    using consume_prefix[OF q'(2)] by auto
  with q'(1) deq_Nil[OF q''(2)] show ?thesis by auto
qed

end

text \<open>A queue with a second way in, at the front.\<close>

locale prio_queue = fifo_queue holds usable granted enq deq nothing
  for holds :: "'q \<Rightarrow> 'd list \<Rightarrow> bool \<Rightarrow> bool"
    and usable :: "'n \<Rightarrow> 'q \<Rightarrow> bool"
    and granted :: "'n \<Rightarrow> bool"
    and enq :: "'n \<Rightarrow> 'd \<Rightarrow> 'q \<Rightarrow> (bool \<times> 'q) option"
    and deq :: "'q \<Rightarrow> ('d \<times> 'q) option"
    and nothing :: 'd +
  fixes enq_front :: "'n \<Rightarrow> 'd \<Rightarrow> 'q \<Rightarrow> (bool \<times> 'q) option"
  assumes enq_front_law: "holds q xs act \<Longrightarrow> usable n q \<Longrightarrow>
      \<exists>q'. enq_front n d q = Some (granted n \<and> act, q') \<and>
           holds q' (if granted n \<and> act then d # xs else xs) act"
begin

lemma urgent_overtakes:
  assumes "supplies get" "holds q xs True"
  shows "\<exists>q' q'' q3. produce get enq ds q = Some (ds, q') \<and>
     enq_front (get q') u q' = Some (True, q'') \<and>
     consume deq (Suc (length xs + length ds)) q'' = Some (u # xs @ ds, q3) \<and> holds q3 [] True"
proof -
  obtain q' where q': "produce get enq ds q = Some (ds, q')" "holds q' (xs @ ds) True"
    using produce_active[OF assms] by auto
  have g: "usable (get q') q'" "granted (get q')" using assms(1) q'(2) by (auto simp: supplies_def)
  obtain q'' where q'': "enq_front (get q') u q' = Some (True, q'')" "holds q'' ((u # xs @ ds) @ []) True"
    using enq_front_law[OF q'(2) g(1), of u] g(2) by auto
  have len: "length (u # xs @ ds) = Suc (length xs + length ds)" by simp
  from consume_prefix[OF q''(2)] q'(1) q''(1) show ?thesis unfolding len by blast
qed

end

end
