(* ===== verification/CamQueue.thy ===== *)
theory CamQueue
  imports CamList QueueSpec
begin

text \<open>
  The command queue of camera/QCamera2/util/QCameraQueue.cpp on the node heap of CamList, its
  abstraction to a list of data pointers, and the refinement: every operation computes what its
  list counterpart does, touches no freed node and frees each node it takes out. Each operation
  is one critical section of \<open>m_lock\<close>, so it is one step here.
\<close>

section \<open>The queue object\<close>

text \<open>What happens to data when the queue is flushed: the release callback, then \<open>free\<close>.\<close>

datatype q_event =
    QE_dataFn ptr ptr
  | QE_free ptr

record camq =
  q_nodes :: nheap
  m_head :: ptr
  m_size :: int
  m_active :: bool
  m_dataFn :: ptr
  m_userData :: ptr
  q_log :: "q_event list"

text \<open>The constructors; \<open>head\<close> is the address of the member \<open>m_head\<close>.\<close>

definition camq_new :: "ptr \<Rightarrow> ptr \<Rightarrow> ptr \<Rightarrow> camq option" where
  "camq_new head dataFn userData = do {
     h \<leftarrow> cam_list_init head (new_node head NULL Map.empty);
     Some \<lparr>q_nodes = h, m_head = head, m_size = 0, m_active = True, m_dataFn = dataFn,
           m_userData = userData, q_log = []\<rparr> }"

definition camq_init :: "camq \<Rightarrow> camq" where
  "camq_init q = q\<lparr>m_active := True\<rparr>"

definition camq_isEmpty :: "camq \<Rightarrow> bool" where
  "camq_isEmpty q = (\<not> m_size q > 0)"

definition getCurrentSize :: "camq \<Rightarrow> int" where
  "getCurrentSize q = m_size q"

text \<open>\<open>node\<close> is the address \<open>malloc\<close> returned, NULL when it failed.\<close>

definition camq_enqueue :: "ptr \<Rightarrow> ptr \<Rightarrow> camq \<Rightarrow> (bool \<times> camq) option" where
  "camq_enqueue node data q =
     (if node = NULL then Some (False, q)
      else do {
        let h = new_node node data (q_nodes q);
        if m_active q then do {
          h \<leftarrow> cam_list_add_tail_node node (m_head q) h;
          Some (True, q\<lparr>q_nodes := h, m_size := m_size q + 1\<rparr>) }
        else do {
          h \<leftarrow> free_node node h;
          Some (False, q\<lparr>q_nodes := h\<rparr>) } })"

definition camq_enqueueWithPriority :: "ptr \<Rightarrow> ptr \<Rightarrow> camq \<Rightarrow> (bool \<times> camq) option" where
  "camq_enqueueWithPriority node data q =
     (if node = NULL then Some (False, q)
      else do {
        let h = new_node node data (q_nodes q);
        if m_active q then do {
          p_next \<leftarrow> next_of h (m_head q);
          h \<leftarrow> set_next (m_head q) node h;
          h \<leftarrow> set_prev p_next node h;
          h \<leftarrow> set_next node p_next h;
          h \<leftarrow> set_prev node (m_head q) h;
          Some (True, q\<lparr>q_nodes := h, m_size := m_size q + 1\<rparr>) }
        else do {
          h \<leftarrow> free_node node h;
          Some (False, q\<lparr>q_nodes := h\<rparr>) } })"

definition camq_peek :: "camq \<Rightarrow> ptr option" where
  "camq_peek q =
     (if m_active q then do {
        pos \<leftarrow> next_of (q_nodes q) (m_head q);
        if pos \<noteq> m_head q then data_of (q_nodes q) pos else Some NULL }
      else Some NULL)"

definition camq_dequeue :: "bool \<Rightarrow> camq \<Rightarrow> (ptr \<times> camq) option" where
  "camq_dequeue bFromHead q =
     (if m_active q then do {
        pos \<leftarrow> (if bFromHead then next_of (q_nodes q) (m_head q) else prev_of (q_nodes q) (m_head q));
        if pos \<noteq> m_head q then do {
          h \<leftarrow> cam_list_del_node pos (q_nodes q);
          data \<leftarrow> data_of h pos;
          h \<leftarrow> free_node pos h;
          Some (data, q\<lparr>q_nodes := h, m_size := m_size q - 1\<rparr>) }
        else Some (NULL, q) }
      else Some (NULL, q))"

text \<open>The loops walk until the head is reached; on a damaged list they might not return.\<close>

partial_function (option) match_loop ::
  "(ptr \<Rightarrow> bool) \<Rightarrow> ptr \<Rightarrow> camq \<Rightarrow> (ptr \<times> camq) option" where
  "match_loop match pos q =
     (if pos = m_head q then Some (NULL, q)
      else do {
        next \<leftarrow> next_of (q_nodes q) pos;
        data \<leftarrow> data_of (q_nodes q) pos;
        if match data then do {
          h \<leftarrow> cam_list_del_node pos (q_nodes q);
          h \<leftarrow> free_node pos h;
          Some (data, q\<lparr>q_nodes := h, m_size := m_size q - 1\<rparr>) }
        else match_loop match next q })"

text \<open>A match function is called with the data, the queue's user data and the match data.\<close>

type_synonym match_fn_data = "ptr \<Rightarrow> ptr \<Rightarrow> ptr \<Rightarrow> bool"
type_synonym match_fn = "ptr \<Rightarrow> ptr \<Rightarrow> bool"

definition camq_dequeue_match :: "match_fn_data option \<Rightarrow> ptr \<Rightarrow> camq \<Rightarrow> (ptr \<times> camq) option" where
  "camq_dequeue_match match match_data q = (case match of
     None \<Rightarrow> Some (NULL, q)
   | Some match \<Rightarrow>
       if match_data = NULL then Some (NULL, q)
       else if m_active q then do {
         pos \<leftarrow> next_of (q_nodes q) (m_head q);
         match_loop (\<lambda>d. match d (m_userData q) match_data) pos q }
       else Some (NULL, q))"

definition release_data :: "ptr \<Rightarrow> camq \<Rightarrow> camq" where
  "release_data data q =
     (if data \<noteq> NULL
      then q\<lparr>q_log := QE_free data #
               (if m_dataFn q \<noteq> NULL then [QE_dataFn data (m_userData q)] else []) @ q_log q\<rparr>
      else q)"

partial_function (option) flush_loop :: "ptr \<Rightarrow> camq \<Rightarrow> camq option" where
  "flush_loop pos q =
     (if pos = m_head q then Some q
      else do {
        next \<leftarrow> next_of (q_nodes q) pos;
        h \<leftarrow> cam_list_del_node pos (q_nodes q);
        data \<leftarrow> data_of h pos;
        let q = release_data data (q\<lparr>q_nodes := h, m_size := m_size q - 1\<rparr>);
        h \<leftarrow> free_node pos (q_nodes q);
        flush_loop next (q\<lparr>q_nodes := h\<rparr>) })"

definition camq_flush :: "camq \<Rightarrow> camq option" where
  "camq_flush q =
     (if m_active q then do {
        pos \<leftarrow> next_of (q_nodes q) (m_head q);
        q \<leftarrow> flush_loop pos q;
        Some (q\<lparr>m_size := 0, m_active := False\<rparr>) }
      else Some q)"

partial_function (option) flushNodes_loop :: "(ptr \<Rightarrow> bool) \<Rightarrow> ptr \<Rightarrow> camq \<Rightarrow> camq option" where
  "flushNodes_loop match pos q =
     (if pos = m_head q then Some q
      else do {
        next \<leftarrow> next_of (q_nodes q) pos;
        data \<leftarrow> data_of (q_nodes q) pos;
        if match data then do {
          h \<leftarrow> cam_list_del_node pos (q_nodes q);
          let q = release_data data (q\<lparr>q_nodes := h, m_size := m_size q - 1\<rparr>);
          h \<leftarrow> free_node pos (q_nodes q);
          flushNodes_loop match next (q\<lparr>q_nodes := h\<rparr>) }
        else flushNodes_loop match next q })"

definition camq_flushNodes :: "match_fn option \<Rightarrow> camq \<Rightarrow> camq option" where
  "camq_flushNodes match q = (case match of
     None \<Rightarrow> Some q
   | Some match \<Rightarrow>
       if m_active q then do {
         pos \<leftarrow> next_of (q_nodes q) (m_head q);
         flushNodes_loop (\<lambda>d. match d (m_userData q)) pos q }
       else Some q)"

definition camq_flushNodes_data :: "match_fn_data option \<Rightarrow> ptr \<Rightarrow> camq \<Rightarrow> camq option" where
  "camq_flushNodes_data match match_data q = (case match of
     None \<Rightarrow> Some q
   | Some match \<Rightarrow>
       if m_active q then do {
         pos \<leftarrow> next_of (q_nodes q) (m_head q);
         flushNodes_loop (\<lambda>d. match d (m_userData q) match_data) pos q }
       else Some q)"

section \<open>The list queue on data pointers\<close>

definition aq_dequeue :: "bool \<Rightarrow> ptr aqueue \<Rightarrow> ptr \<times> ptr aqueue" where
  "aq_dequeue fromHead q =
     (if \<not> aq_active q \<or> aq_items q = [] then (NULL, q)
      else if fromHead then (hd (aq_items q), q\<lparr>aq_items := tl (aq_items q)\<rparr>)
      else (last (aq_items q), q\<lparr>aq_items := butlast (aq_items q)\<rparr>))"

text \<open>With NULL for an empty result this is the removal that users of non-NULL data see.\<close>

lemma aq_dequeue_take:
  "aq_dequeue True q =
     (case aq_take q of (None, q') \<Rightarrow> (NULL, q') | (Some d, q') \<Rightarrow> (d, q'))"
  by (cases "aq_items q") (auto simp: aq_dequeue_def aq_take_def)

text \<open>Data that is flushed: handed to the callback, if there is one, and freed, in this order.\<close>

definition release_events :: "ptr \<Rightarrow> ptr \<Rightarrow> ptr \<Rightarrow> q_event list" where
  "release_events fn ud d =
     (if d = NULL then [] else (if fn \<noteq> NULL then [QE_dataFn d ud] else []) @ [QE_free d])"

section \<open>The representation\<close>

definition camq_nodes :: "camq \<Rightarrow> ptr list \<Rightarrow> ptr list \<Rightarrow> bool" where
  "camq_nodes q ns ds \<longleftrightarrow> ring (q_nodes q) (m_head q) ns \<and>
     map (data_of (q_nodes q)) ns = map Some ds \<and> m_size q = int (length ns)"

definition camq_models :: "camq \<Rightarrow> ptr aqueue \<Rightarrow> bool" where
  "camq_models q a \<longleftrightarrow> (\<exists>ns. camq_nodes q ns (aq_items a)) \<and> aq_active a = m_active q \<and>
     (\<not> m_active q \<longrightarrow> aq_items a = [])"

text \<open>\<open>malloc\<close> returns NULL or an address that is not in use.\<close>

definition fresh_node :: "ptr \<Rightarrow> camq \<Rightarrow> bool" where
  "fresh_node node q \<longleftrightarrow> node = NULL \<or> node \<notin> dom (q_nodes q)"

lemma camq_nodesD:
  assumes "camq_nodes q ns ds"
  shows "ring (q_nodes q) (m_head q) ns" "length ns = length ds" "m_size q = int (length ds)"
  using assms by (auto simp: camq_nodes_def dest: map_eq_imp_length_eq)

lemma camq_nodes_split:
  assumes "camq_nodes q ns (ds @ d # es)"
  obtains us p vs where "ns = us @ p # vs" "length us = length ds" "length vs = length es"
    "map (data_of (q_nodes q)) us = map Some ds" "data_of (q_nodes q) p = Some d"
    "map (data_of (q_nodes q)) vs = map Some es"
  using assms
  by (auto simp: camq_nodes_def map_eq_append_conv append_eq_map_conv Cons_eq_map_conv)
     (metis length_map)

text \<open>Taking one node out of the ring, as all removals do.\<close>

lemma camq_remove_node:
  assumes q: "camq_nodes q (us @ p # vs) (ds @ d # es)" "length us = length ds"
  shows "\<exists>h. cam_list_del_node p (q_nodes q) = Some h \<and> p \<in> dom h \<and> data_of h p = Some d \<and>
     free_node p h = Some (h(p := None)) \<and>
     camq_nodes (q\<lparr>q_nodes := h(p := None), m_size := m_size q - 1\<rparr>) (us @ vs) (ds @ es)"
proof -
  have r: "ring (q_nodes q) (m_head q) (us @ p # vs)" using q by (simp add: camq_nodes_def)
  then obtain h where h: "cam_list_del_node p (q_nodes q) = Some h" "p \<in> dom h"
    "data_of h = data_of (q_nodes q)" "ring (h(p := None)) (m_head q) (us @ vs)"
    using del_ring by blast
  have p: "p \<notin> set us" "p \<notin> set vs" using r by (auto simp: ring_def)
  have "map (data_of (q_nodes q)) us = map Some ds" "data_of (q_nodes q) p = Some d"
    "map (data_of (q_nodes q)) vs = map Some es" "m_size q = int (length us + 1 + length vs)"
    using q by (auto simp: camq_nodes_def)
  with h p show ?thesis by (auto simp: camq_nodes_def)
qed

section \<open>The loops\<close>

lemma match_loop_correct:
  assumes "camq_nodes q (us @ ns) (ds @ es)" "length us = length ds"
  shows "case find match es of
      None \<Rightarrow> match_loop match (hd (ns @ [m_head q])) q = Some (NULL, q)
    | Some e \<Rightarrow> \<exists>q' ns'. match_loop match (hd (ns @ [m_head q])) q = Some (e, q') \<and>
        camq_nodes q' ns' (ds @ remove_first match es) \<and> m_active q' = m_active q"
  using assms
proof (induction ns arbitrary: us ds es)
  case Nil
  then have "es = []" using camq_nodesD(2) by fastforce
  with Nil show ?case by (simp add: match_loop.simps)
next
  case (Cons p vs)
  have r: "ring (q_nodes q) (m_head q) (us @ p # vs)" using Cons.prems by (simp add: camq_nodes_def)
  then have p: "p \<noteq> m_head q" by (auto simp: ring_def)
  from Cons.prems obtain e es' where es: "es = e # es'"
    using camq_nodesD(2) by (cases es) fastforce+
  have e: "data_of (q_nodes q) p = Some e" using Cons.prems es by (simp add: camq_nodes_def)
  show ?case
  proof (cases "match e")
    case True
    obtain h where "cam_list_del_node p (q_nodes q) = Some h" "free_node p h = Some (h(p := None))"
      "camq_nodes (q\<lparr>q_nodes := h(p := None), m_size := m_size q - 1\<rparr>) (us @ vs) (ds @ es')"
      using camq_remove_node[of q us p vs ds e es'] Cons.prems es by blast
    with True es show ?thesis
      by (simp add: match_loop.simps[of match p] p ring_succ[OF r] e) blast
  next
    case False
    have "match_loop match p q = match_loop match (hd (vs @ [m_head q])) q"
      using False by (simp add: match_loop.simps[of match p] p ring_succ[OF r] e)
    with Cons.IH[of "us @ [p]" "ds @ [e]" es'] Cons.prems es False show ?thesis
      by (auto split: option.splits)
  qed
qed

lemma release_data_fields [simp]:
  "q_nodes (release_data d q) = q_nodes q" "m_head (release_data d q) = m_head q"
  "m_active (release_data d q) = m_active q" "m_dataFn (release_data d q) = m_dataFn q"
  "m_userData (release_data d q) = m_userData q" "m_size (release_data d q) = m_size q"
  "q_log (release_data d q) = rev (release_events (m_dataFn q) (m_userData q) d) @ q_log q"
  by (auto simp: release_data_def release_events_def)

lemma camq_nodes_cong:
  assumes "q_nodes q' = q_nodes q" "m_head q' = m_head q" "m_size q' = m_size q"
  shows "camq_nodes q' ns ds = camq_nodes q ns ds"
  using assms by (simp add: camq_nodes_def)

lemma flushNodes_loop_correct:
  assumes "camq_nodes q (us @ ns) (ds @ es)" "length us = length ds"
  shows "\<exists>q' ns'. flushNodes_loop match (hd (ns @ [m_head q])) q = Some q' \<and>
     camq_nodes q' ns' (ds @ filter (\<lambda>d. \<not> match d) es) \<and> m_active q' = m_active q \<and>
     q_log q' = rev (concat (map (release_events (m_dataFn q) (m_userData q)) (filter match es))) @ q_log q"
  using assms
proof (induction ns arbitrary: us ds es q)
  case Nil
  then have "es = []" using camq_nodesD(2) by fastforce
  with Nil show ?case by (auto simp: flushNodes_loop.simps)
next
  case (Cons p vs)
  have r: "ring (q_nodes q) (m_head q) (us @ p # vs)" using Cons.prems by (simp add: camq_nodes_def)
  then have p: "p \<noteq> m_head q" by (auto simp: ring_def)
  from Cons.prems obtain e es' where es: "es = e # es'"
    using camq_nodesD(2) by (cases es) fastforce+
  have e: "data_of (q_nodes q) p = Some e" using Cons.prems es by (simp add: camq_nodes_def)
  show ?case
  proof (cases "match e")
    case True
    obtain h where h: "cam_list_del_node p (q_nodes q) = Some h" "free_node p h = Some (h(p := None))"
      "camq_nodes (q\<lparr>q_nodes := h(p := None), m_size := m_size q - 1\<rparr>) (us @ vs) (ds @ es')"
      using camq_remove_node[of q us p vs ds e es'] Cons.prems es by blast
    define q1 where "q1 = (release_data e (q\<lparr>q_nodes := h, m_size := m_size q - 1\<rparr>))\<lparr>q_nodes := h(p := None)\<rparr>"
    have step: "flushNodes_loop match p q = flushNodes_loop match (hd (vs @ [m_head q1])) q1"
      using True h by (simp add: flushNodes_loop.simps[of match p] p ring_succ[OF r] e q1_def)
    have q1: "camq_nodes q1 (us @ vs) (ds @ es')"
      using h(3) by (rule camq_nodes_cong[THEN iffD2, rotated -1]) (simp_all add: q1_def)
    from Cons.IH[OF q1] Cons.prems True es step show ?thesis by (simp add: q1_def)
  next
    case False
    have "flushNodes_loop match p q = flushNodes_loop match (hd (vs @ [m_head q])) q"
      using False by (simp add: flushNodes_loop.simps[of match p] p ring_succ[OF r] e)
    with Cons.IH[of q "us @ [p]" "ds @ [e]" es'] Cons.prems es False show ?thesis by auto
  qed
qed

text \<open>The loop of \<open>flush\<close> reads the data after the node has been unlinked.\<close>

lemma flush_loop_correct:
  assumes "camq_nodes q ns ds"
  shows "\<exists>q'. flush_loop (hd (ns @ [m_head q])) q = Some q' \<and> camq_nodes q' [] [] \<and>
     q_log q' = rev (concat (map (release_events (m_dataFn q) (m_userData q)) ds)) @ q_log q"
  using assms
proof (induction ns arbitrary: ds q)
  case Nil
  then show ?case by (auto simp: flush_loop.simps camq_nodes_def)
next
  case (Cons p vs)
  have r: "ring (q_nodes q) (m_head q) ([] @ p # vs)" using Cons.prems by (simp add: camq_nodes_def)
  then have p: "p \<noteq> m_head q" by (auto simp: ring_def)
  from Cons.prems obtain d ds' where ds: "ds = d # ds'" using camq_nodesD(2) by (cases ds) fastforce+
  obtain h where h: "cam_list_del_node p (q_nodes q) = Some h" "data_of h p = Some d"
    "free_node p h = Some (h(p := None))"
    "camq_nodes (q\<lparr>q_nodes := h(p := None), m_size := m_size q - 1\<rparr>) vs ds'"
    using camq_remove_node[of q "[]" p vs "[]" d ds'] Cons.prems ds by auto
  define q1 where "q1 = (release_data d (q\<lparr>q_nodes := h, m_size := m_size q - 1\<rparr>))\<lparr>q_nodes := h(p := None)\<rparr>"
  have step: "flush_loop p q = flush_loop (hd (vs @ [m_head q1])) q1"
    using h by (simp add: flush_loop.simps[of p] p ring_succ[OF r] q1_def)
  have q1: "camq_nodes q1 vs ds'"
    using h(4) by (rule camq_nodes_cong[THEN iffD2, rotated -1]) (simp_all add: q1_def)
  from Cons.IH[OF q1] ds step show ?case by (simp add: q1_def)
qed

section \<open>Refinement of the abstract queue\<close>

named_theorems queue_refines \<open>each operation of the queue refines its list counterpart\<close>

lemma camq_new_models [queue_refines]:
  "\<exists>q. camq_new head fn ud = Some q \<and> camq_models q \<lparr>aq_items = [], aq_active = True\<rparr> \<and> q_log q = []"
proof -
  have "dom (new_node head NULL Map.empty) = {head}" by simp
  from cam_list_init_ring[OF this] show ?thesis
    by (auto simp: camq_new_def camq_models_def camq_nodes_def)
qed

lemma camq_init_models [queue_refines]:
  "camq_models q a \<Longrightarrow> camq_models (camq_init q) (a\<lparr>aq_active := True\<rparr>)"
  by (auto simp: camq_models_def camq_nodes_def camq_init_def)

lemma camq_isEmpty_models [queue_refines]: "camq_models q a \<Longrightarrow> camq_isEmpty q = (aq_items a = [])"
  by (auto simp: camq_models_def camq_isEmpty_def dest: camq_nodesD(3))

lemma getCurrentSize_models [queue_refines]:
  "camq_models q a \<Longrightarrow> getCurrentSize q = int (length (aq_items a))"
  by (auto simp: camq_models_def getCurrentSize_def dest: camq_nodesD(3))

text \<open>Adding a node to a heap and taking it back leaves the heap as it was.\<close>

lemma free_new_node: "h p = None \<Longrightarrow> (new_node p d h)(p := None) = h"
  by (auto simp: new_node_def fun_eq_iff)

lemma camq_nodes_same [simp]: "q\<lparr>q_nodes := q_nodes q\<rparr> = q"
  by (cases q) simp

lemma camq_enqueue_models [queue_refines]:
  assumes "camq_models q a" "fresh_node node q"
  shows "\<exists>q'. camq_enqueue node d q = Some (fst (aq_enqueue (node \<noteq> NULL) d a), q') \<and>
     camq_models q' (snd (aq_enqueue (node \<noteq> NULL) d a)) \<and> q_log q' = q_log q"
proof (cases "node \<noteq> NULL \<and> m_active q")
  case True
  from assms obtain ns where ns: "camq_nodes q ns (aq_items a)" "aq_active a = m_active q"
    by (auto simp: camq_models_def)
  with assms True obtain h where "cam_list_add_tail_node node (m_head q) (new_node node d (q_nodes q)) = Some h"
    "ring h (m_head q) (ns @ [node])" "data_of h = (data_of (q_nodes q))(node \<mapsto> d)"
    using add_tail_ring[of "q_nodes q" "m_head q" ns node d] by (auto simp: camq_nodes_def fresh_node_def)
  moreover have "node \<notin> set ns" using ns True assms by (auto simp: camq_nodes_def ring_def fresh_node_def)
  ultimately have "camq_enqueue node d q = Some (True, q\<lparr>q_nodes := h, m_size := m_size q + 1\<rparr>)"
    "camq_nodes (q\<lparr>q_nodes := h, m_size := m_size q + 1\<rparr>) (ns @ [node]) (aq_items a @ [d])"
    using ns True by (auto simp: camq_enqueue_def camq_nodes_def)
  with ns True show ?thesis by (auto simp: aq_enqueue_def camq_models_def)
next
  case False
  with assms show ?thesis
    by (auto simp: camq_enqueue_def aq_enqueue_def camq_models_def fresh_node_def free_new_node)
qed

lemma camq_enqueueWithPriority_models [queue_refines]:
  assumes "camq_models q a" "fresh_node node q"
  shows "\<exists>q'. camq_enqueueWithPriority node d q =
       Some (fst (aq_enqueueWithPriority (node \<noteq> NULL) d a), q') \<and>
     camq_models q' (snd (aq_enqueueWithPriority (node \<noteq> NULL) d a)) \<and> q_log q' = q_log q"
proof (cases "node \<noteq> NULL \<and> m_active q")
  case True
  from assms obtain ns where ns: "camq_nodes q ns (aq_items a)" "aq_active a = m_active q"
    by (auto simp: camq_models_def)
  let ?a = "m_head q" and ?f = "hd (ns @ [m_head q])" and ?h = "new_node node d (q_nodes q)"
  let ?h' = "wr_prev node ?a (wr_next node ?f (wr_prev ?f node (wr_next ?a node ?h)))"
  have r: "ring (q_nodes q) ?a ns" using ns by (simp add: camq_nodes_def)
  have fresh: "node \<notin> dom (q_nodes q)" "node \<noteq> ?a" "node \<notin> set ns"
    using assms True r by (auto simp: fresh_node_def ring_def)
  have f: "?f \<in> insert ?a (set ns)" by (cases ns) auto
  have r': "ring ?h' ?a (node # ns)" using add_front_ring[OF r fresh(1) refl] .
  have "camq_enqueueWithPriority node d q = Some (True, q\<lparr>q_nodes := ?h', m_size := m_size q + 1\<rparr>)"
    using True ring_first[OF r] ring_dom[OF r] fresh f by (simp add: camq_enqueueWithPriority_def)
  moreover have "camq_nodes (q\<lparr>q_nodes := ?h', m_size := m_size q + 1\<rparr>) (node # ns) (d # aq_items a)"
    using ns r' fresh(3) by (simp add: camq_nodes_def)
  ultimately show ?thesis
    using ns True by (auto simp: aq_enqueueWithPriority_def camq_models_def)
next
  case False
  with assms show ?thesis
    by (auto simp: camq_enqueueWithPriority_def aq_enqueueWithPriority_def camq_models_def
        fresh_node_def free_new_node)
qed

lemma camq_dequeue_models [queue_refines]:
  assumes "camq_models q a"
  shows "\<exists>q'. camq_dequeue fromHead q = Some (fst (aq_dequeue fromHead a), q') \<and>
     camq_models q' (snd (aq_dequeue fromHead a)) \<and> q_log q' = q_log q"
proof (cases "m_active q \<and> aq_items a \<noteq> []")
  case True
  from assms obtain ns where ns: "camq_nodes q ns (aq_items a)" "aq_active a = m_active q"
    by (auto simp: camq_models_def)
  have r: "ring (q_nodes q) (m_head q) ns" and "ns \<noteq> []"
    using ns True camq_nodesD(2)[OF ns(1)] by (auto simp: camq_nodes_def)
  show ?thesis
  proof (cases fromHead)
    case True': True
    obtain p vs d es where split: "ns = p # vs" "aq_items a = d # es"
      using \<open>ns \<noteq> []\<close> True by (meson neq_Nil_conv)
    then have "p \<noteq> m_head q" using r by (auto simp: ring_def)
    with camq_remove_node[of q "[]" p vs "[]" d es] ns split True True' ring_first[OF r]
    show ?thesis by (auto simp: camq_dequeue_def aq_dequeue_def camq_models_def)
  next
    case False
    obtain us p ds d where split: "ns = us @ [p]" "aq_items a = ds @ [d]"
      using \<open>ns \<noteq> []\<close> True by (meson rev_exhaust)
    then have "p \<noteq> m_head q" using r by (auto simp: ring_def)
    moreover have "length us = length ds" using camq_nodesD(2)[OF ns(1)] split by simp
    ultimately show ?thesis
      using camq_remove_node[of q us p "[]" ds d "[]"] ns split True False ring_last[OF r]
      by (auto simp: camq_dequeue_def aq_dequeue_def camq_models_def)
  qed
next
  case False
  from assms obtain ns where ns: "camq_nodes q ns (aq_items a)" "aq_active a = m_active q"
    by (auto simp: camq_models_def)
  show ?thesis
  proof (cases "m_active q")
    case True
    with False ns have "ns = []" using camq_nodesD(2)[OF ns(1)] by auto
    with ns have "next_of (q_nodes q) (m_head q) = Some (m_head q)"
      "prev_of (q_nodes q) (m_head q) = Some (m_head q)"
      by (auto simp: camq_nodes_def ring_def)
    with False ns(2) assms show ?thesis by (auto simp: camq_dequeue_def aq_dequeue_def)
  next
    case False
    with assms show ?thesis by (auto simp: camq_dequeue_def aq_dequeue_def camq_models_def)
  qed
qed

definition aq_dequeue_match :: "(ptr \<Rightarrow> bool) \<Rightarrow> ptr aqueue \<Rightarrow> ptr \<times> ptr aqueue" where
  "aq_dequeue_match P q =
     (case find P (aq_items q) of
        None \<Rightarrow> (NULL, q)
      | Some d \<Rightarrow> (d, q\<lparr>aq_items := remove_first P (aq_items q)\<rparr>))"

lemma camq_dequeue_match_models [queue_refines]:
  fixes match :: match_fn_data
  assumes "camq_models q a" "match_data \<noteq> NULL"
  defines "P \<equiv> \<lambda>d. match d (m_userData q) match_data"
  shows "\<exists>q'. camq_dequeue_match (Some match) match_data q = Some (fst (aq_dequeue_match P a), q') \<and>
     camq_models q' (snd (aq_dequeue_match P a))"
proof (cases "m_active q")
  case True
  from assms obtain ns where ns: "camq_nodes q ([] @ ns) ([] @ aq_items a)" "aq_active a = m_active q"
    by (auto simp: camq_models_def)
  have r: "ring (q_nodes q) (m_head q) ns" using ns by (simp add: camq_nodes_def)
  show ?thesis
    using match_loop_correct[OF ns(1), of P] ns(2) True assms(1,2) ring_first[OF r]
    by (auto simp: camq_dequeue_match_def aq_dequeue_match_def camq_models_def P_def split: option.splits)
next
  case False
  with assms show ?thesis
    by (auto simp: camq_dequeue_match_def aq_dequeue_match_def camq_models_def split: option.splits)
qed

lemma camq_peek_models [queue_refines]:
  assumes "camq_models q a"
  shows "camq_peek q = Some (fst (aq_dequeue True a))"
proof -
  from assms obtain ns where ns: "camq_nodes q ns (aq_items a)" "aq_active a = m_active q"
    by (auto simp: camq_models_def)
  have r: "ring (q_nodes q) (m_head q) ns" using ns by (simp add: camq_nodes_def)
  then show ?thesis
    using ns ring_first[OF r] by (cases ns) (auto simp: camq_peek_def aq_dequeue_def camq_nodes_def ring_def)
qed

lemma camq_flush_models [queue_refines]:
  assumes "camq_models q a"
  shows "\<exists>q'. camq_flush q = Some q' \<and> camq_models q' \<lparr>aq_items = [], aq_active = False\<rparr> \<and>
     dom (q_nodes q') = {m_head q'} \<and>
     q_log q' = rev (concat (map (release_events (m_dataFn q) (m_userData q)) (aq_items a))) @ q_log q"
proof (cases "m_active q")
  case True
  from assms obtain ns where ns: "camq_nodes q ns (aq_items a)" by (auto simp: camq_models_def)
  have r: "ring (q_nodes q) (m_head q) ns" using ns by (simp add: camq_nodes_def)
  show ?thesis
    using flush_loop_correct[OF ns] True ring_first[OF r]
    by (auto simp: camq_flush_def camq_models_def camq_nodes_def ring_def)
next
  case False
  with assms obtain ns where ns: "camq_nodes q ns []" "aq_items a = []"
    by (auto simp: camq_models_def)
  then have "camq_nodes q [] []" using camq_nodesD(2)[OF ns(1)] by simp
  with ns False show ?thesis by (auto simp: camq_flush_def camq_models_def camq_nodes_def ring_def)
qed

definition aq_filter :: "(ptr \<Rightarrow> bool) \<Rightarrow> ptr aqueue \<Rightarrow> ptr aqueue" where
  "aq_filter P q = q\<lparr>aq_items := filter (\<lambda>d. \<not> P d) (aq_items q)\<rparr>"

text \<open>Both versions of \<open>flushNodes\<close> run the same loop, on a predicate of the data.\<close>

lemma flushNodes_models:
  assumes "camq_models q a" "m_active q"
  shows "\<exists>q' pos. next_of (q_nodes q) (m_head q) = Some pos \<and> flushNodes_loop P pos q = Some q' \<and>
     camq_models q' (aq_filter P a) \<and>
     q_log q' = rev (concat (map (release_events (m_dataFn q) (m_userData q)) (filter P (aq_items a)))) @
                q_log q"
proof -
  from assms obtain ns where ns: "camq_nodes q ([] @ ns) ([] @ aq_items a)" "aq_active a = m_active q"
    by (auto simp: camq_models_def)
  have r: "ring (q_nodes q) (m_head q) ns" using ns by (simp add: camq_nodes_def)
  show ?thesis
    using flushNodes_loop_correct[OF ns(1), of P] ns(2) assms(2) ring_first[OF r]
    by (auto simp: aq_filter_def camq_models_def)
qed

lemma camq_flushNodes_models [queue_refines]:
  assumes "camq_models q a"
  shows "\<exists>q'. camq_flushNodes (Some match) q = Some q' \<and>
     camq_models q' (aq_filter (\<lambda>d. match d (m_userData q)) a)"
proof (cases "m_active q")
  case True
  with flushNodes_models[OF assms] show ?thesis by (fastforce simp: camq_flushNodes_def)
next
  case False
  with assms show ?thesis by (auto simp: camq_flushNodes_def camq_models_def aq_filter_def)
qed

lemma camq_flushNodes_data_models [queue_refines]:
  assumes "camq_models q a"
  shows "\<exists>q'. camq_flushNodes_data (Some match) match_data q = Some q' \<and>
     camq_models q' (aq_filter (\<lambda>d. match d (m_userData q) match_data) a)"
proof (cases "m_active q")
  case True
  with flushNodes_models[OF assms] show ?thesis by (fastforce simp: camq_flushNodes_data_def)
next
  case False
  with assms show ?thesis by (auto simp: camq_flushNodes_data_def camq_models_def aq_filter_def)
qed

section \<open>Scripts of operations\<close>

text \<open>
  A sequence of calls on one queue, with the address \<open>malloc\<close> returns as a function of the
  nodes in use, and the same sequence on the abstract queue. The results are collected: the
  data that was taken out or looked at, and 1 or 0 for the boolean results.
\<close>

datatype q_op =
    Enqueue ptr
  | EnqueueWithPriority ptr
  | Dequeue bool
  | DequeueMatch "ptr \<Rightarrow> bool"
  | Peek
  | IsEmpty
  | Flush
  | FlushNodes "ptr \<Rightarrow> bool"
  | Init

fun camq_exec :: "(nheap \<Rightarrow> ptr) \<Rightarrow> q_op \<Rightarrow> camq \<Rightarrow> (ptr \<times> camq) option" where
  "camq_exec mal (Enqueue d) q =
     map_option (map_prod of_bool id) (camq_enqueue (mal (q_nodes q)) d q)"
| "camq_exec mal (EnqueueWithPriority d) q =
     map_option (map_prod of_bool id) (camq_enqueueWithPriority (mal (q_nodes q)) d q)"
| "camq_exec mal (Dequeue b) q = camq_dequeue b q"
| "camq_exec mal (DequeueMatch P) q = camq_dequeue_match (Some (\<lambda>d _ _. P d)) 1 q"
| "camq_exec mal Peek q = map_option (\<lambda>d. (d, q)) (camq_peek q)"
| "camq_exec mal IsEmpty q = Some (of_bool (camq_isEmpty q), q)"
| "camq_exec mal Flush q = map_option (\<lambda>q. (0, q)) (camq_flush q)"
| "camq_exec mal (FlushNodes P) q = map_option (\<lambda>q. (0, q)) (camq_flushNodes (Some (\<lambda>d _. P d)) q)"
| "camq_exec mal Init q = Some (0, camq_init q)"

fun camq_script :: "(nheap \<Rightarrow> ptr) \<Rightarrow> q_op list \<Rightarrow> camq \<Rightarrow> (ptr list \<times> camq) option" where
  "camq_script mal [] q = Some ([], q)"
| "camq_script mal (op # ops) q = do {
     (r, q) \<leftarrow> camq_exec mal op q;
     (rs, q) \<leftarrow> camq_script mal ops q;
     Some (r # rs, q) }"

fun aq_exec :: "q_op \<Rightarrow> ptr aqueue \<Rightarrow> ptr \<times> ptr aqueue" where
  "aq_exec (Enqueue d) q = map_prod of_bool id (aq_enqueue True d q)"
| "aq_exec (EnqueueWithPriority d) q = map_prod of_bool id (aq_enqueueWithPriority True d q)"
| "aq_exec (Dequeue b) q = aq_dequeue b q"
| "aq_exec (DequeueMatch P) q = aq_dequeue_match P q"
| "aq_exec Peek q = (fst (aq_dequeue True q), q)"
| "aq_exec IsEmpty q = (of_bool (aq_items q = []), q)"
| "aq_exec Flush q = (0, \<lparr>aq_items = [], aq_active = False\<rparr>)"
| "aq_exec (FlushNodes P) q = (0, aq_filter P q)"
| "aq_exec Init q = (0, q\<lparr>aq_active := True\<rparr>)"

fun aq_script :: "q_op list \<Rightarrow> ptr aqueue \<Rightarrow> ptr list \<times> ptr aqueue" where
  "aq_script [] q = ([], q)"
| "aq_script (op # ops) q =
     (let (r, q) = aq_exec op q; (rs, q) = aq_script ops q in (r # rs, q))"

text \<open>\<open>malloc\<close> as the C library documents it when memory does not run out.\<close>

definition malloc_fresh :: "(nheap \<Rightarrow> ptr) \<Rightarrow> bool" where
  "malloc_fresh mal \<longleftrightarrow> (\<forall>h. finite (dom h) \<longrightarrow> mal h \<noteq> NULL \<and> mal h \<notin> dom h)"

lemma camq_models_finite: "camq_models q a \<Longrightarrow> finite (dom (q_nodes q))"
  by (auto simp: camq_models_def camq_nodes_def dest: ring_dom)

lemma camq_exec_models:
  assumes mal: "malloc_fresh mal" and q: "camq_models q a"
  shows "\<exists>q'. camq_exec mal op q = Some (fst (aq_exec op a), q') \<and> camq_models q' (snd (aq_exec op a))"
proof -
  have f: "fresh_node (mal (q_nodes q)) q" "mal (q_nodes q) \<noteq> NULL"
    using mal camq_models_finite[OF q] by (auto simp: malloc_fresh_def fresh_node_def)
  show ?thesis
  proof (cases op)
    case (Enqueue d)
    from camq_enqueue_models[OF q f(1), of d] f(2) show ?thesis unfolding Enqueue by force
  next
    case (EnqueueWithPriority d)
    from camq_enqueueWithPriority_models[OF q f(1), of d] f(2) show ?thesis unfolding EnqueueWithPriority by force
  next
    case (Dequeue b)
    then show ?thesis using camq_dequeue_models[OF q, of b] by auto
  next
    case (DequeueMatch P)
    then show ?thesis using camq_dequeue_match_models[OF q, of 1 "\<lambda>d _ _. P d"] by (simp add: split_paired_Ex)
  next
    case (FlushNodes P)
    then show ?thesis using camq_flushNodes_models[OF q, of "\<lambda>d _. P d"] by auto
  next
    case Flush
    then show ?thesis using camq_flush_models[OF q] by auto
  next
    case Peek
    then show ?thesis using q camq_peek_models[OF q] by simp
  next
    case IsEmpty
    then show ?thesis using q camq_isEmpty_models[OF q] by simp
  next
    case Init
    then show ?thesis using camq_init_models[OF q] by simp
  qed
qed

lemma camq_script_models:
  assumes "malloc_fresh mal" "camq_models q a"
  shows "\<exists>q'. camq_script mal ops q = Some (fst (aq_script ops a), q') \<and>
     camq_models q' (snd (aq_script ops a))"
  using assms(2)
proof (induction ops arbitrary: q a)
  case Nil
  then show ?case by simp
next
  case (Cons op ops)
  from camq_exec_models[OF assms(1) Cons.prems, of op]
  obtain q1 where q1: "camq_exec mal op q = Some (fst (aq_exec op a), q1)" "camq_models q1 (snd (aq_exec op a))"
    by blast
  from Cons.IH[OF q1(2)] q1(1) show ?case by (auto simp: split_beta Let_def)
qed

section \<open>The contract of a command queue\<close>

definition camq_holds :: "camq \<Rightarrow> ptr list \<Rightarrow> bool \<Rightarrow> bool" where
  "camq_holds q ds act \<longleftrightarrow> camq_models q \<lparr>aq_items = ds, aq_active = act\<rparr>"

interpretation cq: prio_queue camq_holds fresh_node "\<lambda>node. node \<noteq> NULL" camq_enqueue
  "camq_dequeue True" NULL camq_enqueueWithPriority
proof unfold_locales
  fix q xs act n and d :: ptr
  assume "camq_holds q xs act" "fresh_node n q"
  then show "\<exists>q'. camq_enqueue n d q = Some (n \<noteq> NULL \<and> act, q') \<and>
      camq_holds q' (if n \<noteq> NULL \<and> act then xs @ [d] else xs) act"
    using camq_enqueue_models[of q "\<lparr>aq_items = xs, aq_active = act\<rparr>" n d]
    by (auto simp: camq_holds_def aq_enqueue_def)
next
  fix q xs act n and d :: ptr
  assume "camq_holds q xs act" "fresh_node n q"
  then show "\<exists>q'. camq_enqueueWithPriority n d q = Some (n \<noteq> NULL \<and> act, q') \<and>
      camq_holds q' (if n \<noteq> NULL \<and> act then d # xs else xs) act"
    using camq_enqueueWithPriority_models[of q "\<lparr>aq_items = xs, aq_active = act\<rparr>" n d]
    by (auto simp: camq_holds_def aq_enqueueWithPriority_def)
next
  fix q x and xs :: "ptr list"
  assume "camq_holds q (x # xs) True"
  then show "\<exists>q'. camq_dequeue True q = Some (x, q') \<and> camq_holds q' xs True"
    using camq_dequeue_models[of q "\<lparr>aq_items = x # xs, aq_active = True\<rparr>" True]
    by (auto simp: camq_holds_def aq_dequeue_def)
next
  fix q
  assume "camq_holds q [] True"
  then show "\<exists>q'. camq_dequeue True q = Some (NULL, q') \<and> camq_holds q' [] True"
    using camq_dequeue_models[of q "\<lparr>aq_items = [], aq_active = True\<rparr>" True]
    by (auto simp: camq_holds_def aq_dequeue_def)
qed

lemma camq_supplies: "malloc_fresh mal \<Longrightarrow> cq.supplies (\<lambda>q. mal (q_nodes q))"
  unfolding cq.supplies_def
  using camq_models_finite by (auto simp: malloc_fresh_def fresh_node_def camq_holds_def)

text \<open>A concrete allocator: the least address above all that are in use.\<close>

definition bump_malloc :: "nheap \<Rightarrow> ptr" where
  "bump_malloc h = Suc (Max (insert 0 (dom h)))"

lemma bump_malloc_fresh: "malloc_fresh bump_malloc"
proof -
  have "bump_malloc h \<notin> dom h" if "finite (dom h)" for h :: nheap
  proof
    assume "bump_malloc h \<in> dom h"
    then have "bump_malloc h \<le> Max (insert 0 (dom h))" using that by (intro Max_ge) auto
    then show False by (simp add: bump_malloc_def)
  qed
  then show ?thesis by (simp add: malloc_fresh_def bump_malloc_def)
qed

section \<open>Properties of the queue\<close>

text \<open>
  C3: any sequence of calls on a new queue, with any \<open>malloc\<close> that does not run out of memory,
  makes no invalid memory access, returns from every loop and gives exactly the results of the
  list queue; what remains is a ring that holds the list, with no other node allocated.
\<close>

theorem camq_refines_list_queue:
  assumes "malloc_fresh mal" "camq_new head fn ud = Some q"
  shows "\<exists>q'. camq_script mal ops q = Some (fst (aq_script ops \<lparr>aq_items = [], aq_active = True\<rparr>), q') \<and>
     camq_models q' (snd (aq_script ops \<lparr>aq_items = [], aq_active = True\<rparr>))"
  using camq_script_models[OF assms(1)] camq_new_models[of head fn ud] assms(2) by auto

theorem camq_refines_list_queue_witness:
  "\<exists>q'. camq_script bump_malloc [Enqueue 7, Enqueue 8, EnqueueWithPriority 9, Dequeue False, Dequeue True,
       Flush, Enqueue 5, Dequeue True] (the (camq_new 1 0 0)) = Some ([1, 1, 1, 8, 9, 0, 0, 0], q')"
proof -
  obtain q where q: "camq_new 1 0 0 = Some q" using camq_new_models by blast
  have res: "fst (aq_script [Enqueue 7, Enqueue 8, EnqueueWithPriority 9, Dequeue False, Dequeue True,
       Flush, Enqueue 5, Dequeue True] \<lparr>aq_items = [], aq_active = True\<rparr>) = [1, 1, 1, 8, 9, 0, 0, 0]"
    by (simp add: aq_enqueue_def aq_enqueueWithPriority_def aq_dequeue_def)
  show ?thesis
    using camq_refines_list_queue[OF bump_malloc_fresh q] unfolding q option.sel res[symmetric] by blast
qed

text \<open>
  data that is put in with priority comes out before everything that was waiting, and
  the rest comes out in the order in which it was put in.
\<close>

theorem camq_priority_then_fifo:
  assumes "malloc_fresh mal" "camq_holds q xs True"
  shows "\<exists>q' q'' q3. produce (\<lambda>q. mal (q_nodes q)) camq_enqueue ds q = Some (ds, q') \<and>
     camq_enqueueWithPriority (mal (q_nodes q')) u q' = Some (True, q'') \<and>
     consume (camq_dequeue True) (Suc (length xs + length ds)) q'' = Some (u # xs @ ds, q3) \<and>
     camq_holds q3 [] True"
  using cq.urgent_overtakes[OF camq_supplies[OF assms(1)] assms(2)] .

theorem camq_priority_then_fifo_witness:
  "\<exists>q' q'' q3. produce (\<lambda>q. bump_malloc (q_nodes q)) camq_enqueue [4, 5] (the (camq_new 1 0 0)) = Some ([4, 5], q') \<and>
     camq_enqueueWithPriority (bump_malloc (q_nodes q')) 6 q' = Some (True, q'') \<and>
     consume (camq_dequeue True) 3 q'' = Some ([6, 4, 5], q3)"
proof -
  obtain q where q: "camq_new 1 0 0 = Some q" "camq_holds q [] True"
    using camq_new_models unfolding camq_holds_def by blast
  have n: "Suc (length [] + length [4, 5 :: ptr]) = 3" by simp
  show ?thesis
    using camq_priority_then_fifo[OF bump_malloc_fresh q(2), of "[4, 5]" 6]
    unfolding q(1) option.sel n append_Nil by blast
qed

text \<open>
  \<open>flush\<close> hands each waiting data pointer to the release callback, if there is one, and
  frees it, in queue order; it leaves the queue empty and inactive with all nodes freed, and
  no further data is accepted until \<open>init\<close>.
\<close>

theorem camq_flush_releases_everything:
  assumes "camq_holds q ds True"
  shows "\<exists>q'. camq_flush q = Some q' \<and>
     q_log q' = rev (concat (map (release_events (m_dataFn q) (m_userData q)) ds)) @ q_log q \<and>
     dom (q_nodes q') = {m_head q'} \<and> camq_isEmpty q' \<and> camq_dequeue b q' = Some (NULL, q') \<and>
     (fresh_node node q' \<longrightarrow> (\<exists>q''. camq_enqueue node d q' = Some (False, q'') \<and> camq_isEmpty q''))"
proof -
  obtain q' where q': "camq_flush q = Some q'" "camq_holds q' [] False" "dom (q_nodes q') = {m_head q'}"
    "q_log q' = rev (concat (map (release_events (m_dataFn q) (m_userData q)) ds)) @ q_log q"
    using camq_flush_models assms(1) unfolding camq_holds_def by fastforce
  have "\<not> m_active q'" using q'(2) by (simp add: camq_holds_def camq_models_def)
  then have "camq_dequeue b q' = Some (NULL, q')" by (simp add: camq_dequeue_def)
  moreover have "\<exists>q''. camq_enqueue node d q' = Some (False, q'') \<and> camq_isEmpty q''"
    if "fresh_node node q'"
    using cq.enq_law[OF q'(2) that, of d] camq_isEmpty_models by (fastforce simp: camq_holds_def)
  ultimately show ?thesis
    using q' camq_isEmpty_models by (fastforce simp: camq_holds_def)
qed

theorem camq_flush_releases_everything_witness:
  "\<exists>q'. camq_flush (the (camq_new 1 0 0)) = Some q' \<and> camq_isEmpty q' \<and> dom (q_nodes q') = {m_head q'}"
proof -
  obtain q where q: "camq_new 1 0 0 = Some q" "camq_holds q [] True"
    using camq_new_models unfolding camq_holds_def by blast
  show ?thesis
    using camq_flush_releases_everything[OF q(2)] unfolding q(1) option.sel by blast
qed

end
