(* ===== verification/SmThread.thy ===== *)
theory SmThread
  imports SmProps QueueSpec
begin

text \<open>
  The thread around the camera state machine and the calls that wait for its answers:
  procAPI, procEvt, releaseThread and smEvtProcRoutine of QCameraStateMachine.cpp and
  processAPI, processEvt, waitAPIResult, signalAPIResult and signalEvtResult of
  QCamera2HWI.cpp. The two command queues are list queues (CamQueue shows that the code's
  queue refines them); each critical section and each round of the thread is one step of a
  transition relation, so that all interleavings of callers, event producers and the thread
  are covered. The memory for an entry of the result list can always be allocated.
\<close>

section \<open>State\<close>

text \<open>A command node: the command type with the event and payload fields it uses.\<close>

datatype sm_cmd =
    CMD_API sm_evt payload
  | CMD_EVT sm_evt payload
  | CMD_EXIT

text \<open>
  The state machine object with its queues and semaphore, the result list and event result of
  the hardware interface, and the payloads freed so far. \<open>waiting\<close> holds the events whose
  callers are blocked in \<open>waitAPIResult\<close>, \<open>unclaimed\<close> those of the calls whose caller does not
  wait for the answer; both are ghost fields.
\<close>

record hwsys =
  machine :: sm
  api_queue :: "sm_cmd aqueue"
  evt_queue :: "sm_cmd aqueue"
  cmd_sem :: nat
  running :: bool
  m_smThreadActive :: bool
  m_apiResultList :: "api_result list"
  m_evtResult :: "api_result option"
  freed_payloads :: "ptr list"
  waiting :: "sm_evt multiset"
  unclaimed :: "sm_evt multiset"

definition hwsys_init :: "sm \<Rightarrow> hwsys" where
  "hwsys_init m =
     \<lparr>machine = m, api_queue = \<lparr>aq_items = [], aq_active = True\<rparr>,
      evt_queue = \<lparr>aq_items = [], aq_active = True\<rparr>, cmd_sem = 0, running = True,
      m_smThreadActive = True, m_apiResultList = [], m_evtResult = None, freed_payloads = [],
      waiting = {#}, unclaimed = {#}\<rparr>"

section \<open>Posting commands\<close>

text \<open>\<open>mem\<close> and \<open>qmem\<close>: the allocations of the command node and of the queue node succeed.\<close>

definition procAPI :: "bool \<Rightarrow> bool \<Rightarrow> sm_evt \<Rightarrow> payload \<Rightarrow> hwsys \<Rightarrow> status \<times> hwsys" where
  "procAPI mem qmem evt api_payload s =
     (if \<not> mem then (NO_MEMORY, s)
      else let (ok, q) = aq_enqueue qmem (CMD_API evt api_payload) (api_queue s) in
        if ok then (NO_ERROR, s\<lparr>api_queue := q, cmd_sem := cmd_sem s + 1\<rparr>)
        else (UNKNOWN_ERROR, s))"

definition procEvt :: "bool \<Rightarrow> bool \<Rightarrow> sm_evt \<Rightarrow> payload \<Rightarrow> hwsys \<Rightarrow> status \<times> hwsys" where
  "procEvt mem qmem evt evt_payload s =
     (if \<not> mem then (NO_MEMORY, s)
      else let (ok, q) = aq_enqueue qmem (CMD_EVT evt evt_payload) (evt_queue s) in
        if ok then (NO_ERROR, s\<lparr>evt_queue := q, cmd_sem := cmd_sem s + 1\<rparr>)
        else (UNKNOWN_ERROR, s))"

text \<open>\<open>releaseThread\<close> up to the \<open>pthread_join\<close>, which waits until the thread has left its loop.\<close>

definition releaseThread :: "bool \<Rightarrow> bool \<Rightarrow> hwsys \<Rightarrow> hwsys" where
  "releaseThread mem qmem s =
     (if \<not> mem then s
      else let (ok, q) = aq_enqueue qmem CMD_EXIT (api_queue s) in
        if ok then s\<lparr>api_queue := q, cmd_sem := cmd_sem s + 1\<rparr> else s)"

definition processAPI :: "bool \<Rightarrow> bool \<Rightarrow> sm_evt \<Rightarrow> payload \<Rightarrow> hwsys \<Rightarrow> status \<times> hwsys" where
  "processAPI mem qmem api api_payload s =
     (if m_smThreadActive s then procAPI mem qmem api api_payload s else (DEAD_OBJECT, s))"

definition processEvt :: "bool \<Rightarrow> bool \<Rightarrow> sm_evt \<Rightarrow> payload \<Rightarrow> hwsys \<Rightarrow> status \<times> hwsys" where
  "processEvt mem qmem evt evt_payload s = procEvt mem qmem evt evt_payload s"

section \<open>Results\<close>

text \<open>A result is appended to the list, unless its node cannot be allocated.\<close>

definition signalAPIResult :: "bool \<Rightarrow> api_result \<Rightarrow> api_result list \<Rightarrow> api_result list" where
  "signalAPIResult mem r l = (if mem then l @ [r] else l)"

text \<open>
  One round of the scan in \<open>waitAPIResult\<close> after a wake-up: the first result for the event is
  unlinked and returned.
\<close>

fun waitAPIResult_scan :: "sm_evt \<Rightarrow> api_result list \<Rightarrow> (api_result \<times> api_result list) option" where
  "waitAPIResult_scan api_evt [] = None"
| "waitAPIResult_scan api_evt (r # rs) =
     (if request_api r = api_evt then Some (r, rs)
      else case waitAPIResult_scan api_evt rs of
             None \<Rightarrow> None
           | Some (x, rest) \<Rightarrow> Some (x, r # rest))"

section \<open>The thread\<close>

text \<open>What a step of the machine signals, oldest first: the calls it added to the trace.\<close>

definition new_of :: "(hwi_event list \<Rightarrow> api_result list) \<Rightarrow> sm \<Rightarrow> sm \<Rightarrow> api_result list" where
  "new_of f m m' = rev (take (length (f (hwi_trace m')) - length (f (hwi_trace m))) (f (hwi_trace m')))"

definition run_machine :: "hwi \<Rightarrow> sm_evt \<Rightarrow> payload \<Rightarrow> hwsys \<Rightarrow> hwsys" where
  "run_machine hw evt p s =
     (let m' = sm_exec hw (evt, p) (machine s);
          evts = new_of evt_answers (machine s) m'
      in s\<lparr>machine := m',
           m_apiResultList := fold (signalAPIResult True) (new_of api_answers (machine s) m') (m_apiResultList s),
           m_evtResult := (if evts = [] then m_evtResult s else Some (last evts))\<rparr>)"

text \<open>
  The \<open>switch\<close> on the command type. The payload of an event command is freed after use, that
  of an API command belongs to the caller.
\<close>

definition process_cmd :: "hwi \<Rightarrow> sm_cmd \<Rightarrow> hwsys \<Rightarrow> hwsys" where
  "process_cmd hw c s = (case c of
     CMD_API evt p \<Rightarrow> run_machine hw evt p s
   | CMD_EVT evt p \<Rightarrow>
       (let s = run_machine hw evt p s in s\<lparr>freed_payloads := as_ptr p # freed_payloads s\<rparr>)
   | CMD_EXIT \<Rightarrow> s\<lparr>running := False\<rparr>)"

text \<open>
  One round of \<open>smEvtProcRoutine\<close>: it blocks (\<open>None\<close>) while the semaphore is 0. The API queue
  is served first.
\<close>

definition sm_thread_step :: "hwi \<Rightarrow> hwsys \<Rightarrow> hwsys option" where
  "sm_thread_step hw s =
     (if \<not> running s \<or> cmd_sem s = 0 then None
      else let
        s = s\<lparr>cmd_sem := cmd_sem s - 1\<rparr>;
        (node, q) = aq_take (api_queue s);
        s = s\<lparr>api_queue := q\<rparr>;
        (node, s) = (case node of
            Some n \<Rightarrow> (Some n, s)
          | None \<Rightarrow> let (node, q) = aq_take (evt_queue s) in (node, s\<lparr>evt_queue := q\<rparr>))
      in Some (case node of None \<Rightarrow> s | Some c \<Rightarrow> process_cmd hw c s))"

section \<open>All interleavings\<close>

text \<open>
  The steps of the system: a caller posts a request and waits, or posts one and goes on; a
  request or event is refused; the lower layers post an event that nobody waits for in
  \<open>waitAPIResult\<close>; the thread makes a round; a waiting caller finds its result and returns;
  the destructor closes the interface and posts the exit command.
\<close>

inductive sys_step :: "hwi \<Rightarrow> hwsys \<Rightarrow> hwsys \<Rightarrow> bool" for hw where
  call: "processAPI True True evt p s = (NO_ERROR, s') \<Longrightarrow>
     sys_step hw s (s'\<lparr>waiting := add_mset evt (waiting s')\<rparr>)"
| call_nowait: "processAPI True True evt p s = (NO_ERROR, s') \<Longrightarrow>
     sys_step hw s (s'\<lparr>unclaimed := add_mset evt (unclaimed s')\<rparr>)"
| refused: "processAPI mem qmem evt p s = (rc, s') \<Longrightarrow> rc \<noteq> NO_ERROR \<Longrightarrow> sys_step hw s s'"
| event: "processEvt mem qmem evt p s = (rc, s') \<Longrightarrow> \<not> is_sync_evt evt \<Longrightarrow> sys_step hw s s'"
| thread: "sm_thread_step hw s = Some s' \<Longrightarrow> sys_step hw s s'"
| answered: "evt \<in># waiting s \<Longrightarrow> waitAPIResult_scan evt (m_apiResultList s) = Some (r, rest) \<Longrightarrow>
     sys_step hw s (s\<lparr>m_apiResultList := rest, waiting := waiting s - {#evt#}\<rparr>)"
| close: "sys_step hw s (releaseThread mem qmem (s\<lparr>m_smThreadActive := False\<rparr>))"

inductive reachable :: "hwi \<Rightarrow> hwsys \<Rightarrow> bool" for hw where
  init: "reachable hw (hwsys_init (sm_init b d))"
| step: "reachable hw s \<Longrightarrow> sys_step hw s s' \<Longrightarrow> reachable hw s'"

inductive_cases sys_step_cases: "sys_step hw s s'"

lemma processAPI_ok:
  "processAPI mem qmem evt p s = (NO_ERROR, s') \<longleftrightarrow>
     m_smThreadActive s \<and> mem \<and> qmem \<and> aq_active (api_queue s) \<and>
     s' = s\<lparr>api_queue := (api_queue s)\<lparr>aq_items := aq_items (api_queue s) @ [CMD_API evt p]\<rparr>,
            cmd_sem := cmd_sem s + 1\<rparr>"
  by (auto simp: processAPI_def procAPI_def aq_enqueue_def)

lemma processAPI_refused:
  "processAPI mem qmem evt p s = (rc, s') \<Longrightarrow> rc \<noteq> NO_ERROR \<Longrightarrow> s' = s"
  by (auto simp: processAPI_def procAPI_def aq_enqueue_def split: if_splits)

lemma processEvt_cases:
  assumes "processEvt mem qmem evt p s = (rc, s')"
  obtains "s' = s" | "aq_active (evt_queue s)"
    "s' = s\<lparr>evt_queue := (evt_queue s)\<lparr>aq_items := aq_items (evt_queue s) @ [CMD_EVT evt p]\<rparr>,
            cmd_sem := cmd_sem s + 1\<rparr>"
proof (cases "mem \<and> qmem \<and> aq_active (evt_queue s)")
  case True
  with assms show ?thesis by (intro that(2)) (auto simp: processEvt_def procEvt_def aq_enqueue_def)
next
  case False
  with assms show ?thesis
    by (intro that(1)) (auto simp: processEvt_def procEvt_def aq_enqueue_def split: if_splits)
qed

text \<open>What a round of the thread does, by the queue it finds its command in.\<close>

lemma thread_api:
  assumes "aq_active (api_queue s)" "aq_items (api_queue s) = c # cs" "running s" "cmd_sem s > 0"
  shows "sm_thread_step hw s = Some (process_cmd hw c
     (s\<lparr>cmd_sem := cmd_sem s - 1, api_queue := (api_queue s)\<lparr>aq_items := cs\<rparr>\<rparr>))"
  using assms by (simp add: sm_thread_step_def aq_take_def Let_def)

lemma thread_evt:
  assumes "aq_items (api_queue s) = []" "aq_active (evt_queue s)" "aq_items (evt_queue s) = c # cs"
    "running s" "cmd_sem s > 0"
  shows "sm_thread_step hw s = Some (process_cmd hw c
     (s\<lparr>cmd_sem := cmd_sem s - 1, evt_queue := (evt_queue s)\<lparr>aq_items := cs\<rparr>\<rparr>))"
proof -
  have "aq_take (api_queue s) = (None, api_queue s)" using assms(1) by (simp add: aq_take_def)
  moreover have "s\<lparr>cmd_sem := n, api_queue := api_queue s\<rparr> = s\<lparr>cmd_sem := n\<rparr>" for n
    by (cases s) simp
  ultimately show ?thesis
    using assms(2-) by (simp add: sm_thread_step_def Let_def) (simp add: aq_take_def)
qed

section \<open>The invariant\<close>

definition queued :: "sm_evt \<Rightarrow> hwsys \<Rightarrow> nat" where
  "queued e s = length (filter (\<lambda>c. case c of CMD_API e' _ \<Rightarrow> e' = e | _ \<Rightarrow> False) (aq_items (api_queue s)))"

definition results :: "sm_evt \<Rightarrow> hwsys \<Rightarrow> nat" where
  "results e s = count_list (map request_api (m_apiResultList s)) e"

text \<open>
  The semaphore counts the queued commands, the queues hold the commands of their lane, and
  each request of a kind that is always answered is queued or has its result in the list until
  its caller takes it.
\<close>

definition sys_inv :: "hwsys \<Rightarrow> bool" where
  "sys_inv s \<longleftrightarrow> aq_active (api_queue s) \<and> aq_active (evt_queue s) \<and>
     cmd_sem s = length (aq_items (api_queue s)) + length (aq_items (evt_queue s)) \<and>
     (\<forall>c \<in> set (aq_items (api_queue s)). \<forall>e p. c \<noteq> CMD_EVT e p) \<and>
     (\<forall>c \<in> set (aq_items (evt_queue s)). \<exists>e p. c = CMD_EVT e p \<and> \<not> is_sync_evt e) \<and>
     (\<forall>e. always_answered e \<longrightarrow>
        queued e s + results e s = count (waiting s) e + count (unclaimed s) e)"

lemma fold_signal: "fold (signalAPIResult True) rs l = l @ rs"
  by (induction rs arbitrary: l) (simp_all add: signalAPIResult_def)

lemma api_answers_append: "api_answers (new @ old) = api_answers new @ api_answers old"
  by (induction new) (auto split: hwi_call.splits)

lemma new_of_answers:
  "api_answers (hwi_trace (sm_exec hw ev m)) =
   rev (new_of api_answers m (sm_exec hw ev m)) @ api_answers (hwi_trace m)"
proof -
  obtain new where "hwi_trace (sm_exec hw ev m) = new @ hwi_trace m"
    using sm_exec_ok[of ev m hw] by (auto simp: sm_step_ok_def extends_iff)
  then show ?thesis by (simp add: new_of_def api_answers_append)
qed

lemma results_run_machine:
  assumes "always_answered e"
  shows "results e (run_machine hw evt p s) = results e s + (if evt = e then 1 else 0)"
proof -
  let ?m = "machine s" and ?m' = "sm_exec hw (evt, p) (machine s)"
  have "answer_count e ?m' = answer_count e ?m + (if evt = e then 1 else 0)"
    using answer_count_exec[OF assms] by simp
  moreover have "answer_count e ?m' =
      count_list (map request_api (new_of api_answers ?m ?m')) e + answer_count e ?m"
    unfolding answer_count_def new_of_answers by (simp add: count_list_mset)
  ultimately show ?thesis by (simp add: run_machine_def Let_def results_def fold_signal)
qed

lemma run_machine_fields [simp]:
  "api_queue (run_machine hw evt p s) = api_queue s" "evt_queue (run_machine hw evt p s) = evt_queue s"
  "cmd_sem (run_machine hw evt p s) = cmd_sem s" "waiting (run_machine hw evt p s) = waiting s"
  "unclaimed (run_machine hw evt p s) = unclaimed s" "running (run_machine hw evt p s) = running s"
  "m_smThreadActive (run_machine hw evt p s) = m_smThreadActive s"
  by (simp_all add: run_machine_def Let_def)

lemma queued_cong: "api_queue s' = api_queue s \<Longrightarrow> queued e s' = queued e s"
  by (simp add: queued_def)

lemma results_cong: "m_apiResultList s' = m_apiResultList s \<Longrightarrow> results e s' = results e s"
  by (simp add: results_def)

lemma process_cmd_fields [simp]:
  "api_queue (process_cmd hw c s) = api_queue s" "evt_queue (process_cmd hw c s) = evt_queue s"
  "cmd_sem (process_cmd hw c s) = cmd_sem s" "waiting (process_cmd hw c s) = waiting s"
  "unclaimed (process_cmd hw c s) = unclaimed s"
  by (cases c; simp add: process_cmd_def Let_def)+

lemma results_process_cmd:
  assumes "always_answered e"
  shows "results e (process_cmd hw c s) =
     results e s + (case c of CMD_API e' _ \<Rightarrow> if e' = e then 1 else 0
                    | CMD_EVT e' _ \<Rightarrow> if e' = e then 1 else 0 | CMD_EXIT \<Rightarrow> 0)"
proof (cases c)
  case (CMD_API e' p)
  then show ?thesis using results_run_machine[OF assms] by (simp add: process_cmd_def)
next
  case (CMD_EVT e' p)
  then show ?thesis
    using results_run_machine[OF assms] by (simp add: process_cmd_def Let_def results_def)
next
  case CMD_EXIT
  then show ?thesis by (simp add: process_cmd_def results_def)
qed

lemma scan_Some:
  "waitAPIResult_scan e l = Some (r, rest) \<Longrightarrow> request_api r = e \<and> mset l = add_mset r (mset rest)"
  by (induction l arbitrary: r rest) (auto split: if_splits option.splits)


lemma results_mset: "results e s = count (image_mset request_api (mset (m_apiResultList s))) e"
  by (simp add: results_def count_list_mset)

lemma thread_cases:
  assumes "sm_thread_step hw s = Some s'" "sys_inv s"
  obtains (api) c cs where "aq_items (api_queue s) = c # cs"
      "s' = process_cmd hw c (s\<lparr>cmd_sem := cmd_sem s - 1, api_queue := (api_queue s)\<lparr>aq_items := cs\<rparr>\<rparr>)"
    | (evt) c cs where "aq_items (api_queue s) = []" "aq_items (evt_queue s) = c # cs"
      "s' = process_cmd hw c (s\<lparr>cmd_sem := cmd_sem s - 1, evt_queue := (evt_queue s)\<lparr>aq_items := cs\<rparr>\<rparr>)"
proof -
  have act: "running s" "cmd_sem s > 0" "aq_active (api_queue s)" "aq_active (evt_queue s)"
    using assms by (auto simp: sm_thread_step_def sys_inv_def split: if_splits)
  show thesis
  proof (cases "aq_items (api_queue s)")
    case (Cons c cs)
    with api[OF Cons] thread_api[OF act(3) Cons act(1,2)] assms(1) show thesis by simp
  next
    case Nil
    then obtain c cs where "aq_items (evt_queue s) = c # cs"
      using assms(2) act(2) by (cases "aq_items (evt_queue s)") (auto simp: sys_inv_def)
    with evt[OF Nil] thread_evt[OF Nil act(4)] act assms(1) show thesis by simp
  qed
qed

lemma sys_inv_thread:
  assumes "sm_thread_step hw s = Some s'" "sys_inv s"
  shows "sys_inv s'"
  using assms
proof (cases rule: thread_cases)
  case (api c cs)
  have "queued e s' + results e s' = queued e s + results e s" if "always_answered e" for e
    using api assms(2) results_process_cmd[OF that]
    by (cases c) (auto simp: queued_def results_def sys_inv_def)
  with api assms(2) show ?thesis by (auto simp: sys_inv_def)
next
  case (evt c cs)
  then obtain e0 p where c: "c = CMD_EVT e0 p" "\<not> is_sync_evt e0" using assms(2) by (auto simp: sys_inv_def)
  have "queued e s' + results e s' = queued e s + results e s" if "always_answered e" for e
  proof -
    have "e0 \<noteq> e" using that c by (auto simp: always_answered_def)
    then show ?thesis
      using evt c results_process_cmd[OF that, of hw c] by (simp add: queued_def results_def)
  qed
  with evt assms(2) show ?thesis by (auto simp: sys_inv_def)
qed

lemma sys_inv_step:
  assumes "sys_step hw s s'" "sys_inv s"
  shows "sys_inv s'"
  using assms
proof (induction rule: sys_step.induct)
  case (call evt p s s')
  then show ?case by (auto simp: processAPI_ok sys_inv_def queued_def results_def)
next
  case (call_nowait evt p s s')
  then show ?case by (auto simp: processAPI_ok sys_inv_def queued_def results_def)
next
  case (refused mem qmem evt p s rc s')
  then show ?case using processAPI_refused by blast
next
  case (event mem qmem evt p s rc s')
  from event(1) show ?case
    by (rule processEvt_cases) (use event in \<open>auto simp: sys_inv_def queued_def results_def\<close>)
next
  case (thread s s')
  then show ?case using sys_inv_thread by blast
next
  case (answered evt s r rest)
  have "results e (s\<lparr>m_apiResultList := rest, waiting := waiting s - {#evt#}\<rparr>) + (if e = evt then 1 else 0) =
      results e s" for e
    using scan_Some[OF answered(2)] by (auto simp: results_mset)
  note res = this
  have "queued e s + results e (s\<lparr>m_apiResultList := rest, waiting := waiting s - {#evt#}\<rparr>) =
      count (waiting s - {#evt#}) e + count (unclaimed s) e" if e: "always_answered e" for e
  proof -
    have "queued e s + results e s = count (waiting s) e + count (unclaimed s) e"
      using answered e by (simp add: sys_inv_def)
    moreover have "count (waiting s) evt > 0" using answered(1) by simp
    ultimately show ?thesis using res[of e] by (cases "e = evt") auto
  qed
  with answered show ?case by (auto simp: sys_inv_def queued_def)
next
  case (close s mem qmem)
  then show ?case
    by (auto simp: releaseThread_def aq_enqueue_def sys_inv_def queued_def results_def)
qed

lemma reachable_inv: "reachable hw s \<Longrightarrow> sys_inv s"
proof (induction rule: reachable.induct)
  case (init b d)
  then show ?case by (simp add: sys_inv_def hwsys_init_def queued_def results_def)
next
  case (step s s')
  then show ?case using sys_inv_step by blast
qed

section \<open>Properties of the thread\<close>

text \<open>The states in which one caller waits for the given event and its request is queued.\<close>

definition called :: "sm_evt \<Rightarrow> payload \<Rightarrow> hwsys \<Rightarrow> hwsys" where
  "called e p s = s\<lparr>api_queue := (api_queue s)\<lparr>aq_items := aq_items (api_queue s) @ [CMD_API e p]\<rparr>,
     cmd_sem := cmd_sem s + 1, waiting := add_mset e (waiting s)\<rparr>"

lemma called_reachable:
  assumes "reachable hw s" "m_smThreadActive s"
  shows "reachable hw (called e p s)"
proof -
  have "aq_active (api_queue s)" using reachable_inv[OF assms(1)] by (simp add: sys_inv_def)
  then have "processAPI True True e p s = (NO_ERROR, s\<lparr>api_queue := (api_queue s)
      \<lparr>aq_items := aq_items (api_queue s) @ [CMD_API e p]\<rparr>, cmd_sem := cmd_sem s + 1\<rparr>)"
    using assms(2) by (simp add: processAPI_ok)
  from sys_step.call[OF this] show ?thesis
    using reachable.step[OF assms(1)] by (simp add: called_def)
qed

text \<open>
  in every reachable state of every interleaving the semaphore counts the queued commands,
  so a round of the running thread is possible exactly when a command is queued, and it takes
  exactly one out.
\<close>

theorem semaphore_counts_commands:
  assumes "reachable hw s"
  shows "cmd_sem s = length (aq_items (api_queue s)) + length (aq_items (evt_queue s)) \<and>
     (running s \<and> aq_items (api_queue s) @ aq_items (evt_queue s) \<noteq> [] \<longleftrightarrow>
      (\<exists>s'. sm_thread_step hw s = Some s' \<and>
         Suc (length (aq_items (api_queue s')) + length (aq_items (evt_queue s'))) = cmd_sem s))"
proof -
  have inv: "sys_inv s" using reachable_inv[OF assms] .
  then have sem: "cmd_sem s = length (aq_items (api_queue s)) + length (aq_items (evt_queue s))"
    by (simp add: sys_inv_def)
  have "\<exists>s'. sm_thread_step hw s = Some s' \<and>
      Suc (length (aq_items (api_queue s')) + length (aq_items (evt_queue s'))) = cmd_sem s"
    if "running s" "cmd_sem s > 0"
  proof -
    have "sm_thread_step hw s \<noteq> None"
      using that by (simp add: sm_thread_step_def Let_def split_beta)
    then obtain s' where s': "sm_thread_step hw s = Some s'" by blast
    from this inv show ?thesis by (cases rule: thread_cases) (use s' sem in auto)
  qed
  moreover have "running s \<and> cmd_sem s > 0" if "sm_thread_step hw s = Some s'" for s'
    using that by (auto simp: sm_thread_step_def split: if_splits)
  ultimately show ?thesis using sem by (metis append_is_Nil_conv length_append length_greater_0_conv)
qed

theorem semaphore_counts_commands_witness:
  "cmd_sem (hwsys_init (sm_init False False)) = 0"
  using semaphore_counts_commands[OF reachable.init[of quiet_hw False False]]
  by (simp add: hwsys_init_def)

text \<open>
  C4: API requests are served before events, and each lane in the order in which it was
  filled; the payload of an event is freed after its handler has run and that of a request is not.
\<close>

theorem requests_before_events:
  assumes "reachable hw s" "sm_thread_step hw s = Some s'"
  shows "case aq_items (api_queue s) of
      c # cs \<Rightarrow> aq_items (api_queue s') = cs \<and> evt_queue s' = evt_queue s \<and>
                freed_payloads s' = freed_payloads s
    | [] \<Rightarrow> (case aq_items (evt_queue s) of
          CMD_EVT evt p # cs \<Rightarrow> aq_items (evt_queue s') = cs \<and>
             machine s' = sm_exec hw (evt, p) (machine s) \<and>
             freed_payloads s' = as_ptr p # freed_payloads s
        | _ \<Rightarrow> False)"
proof -
  have inv: "sys_inv s" using reachable_inv[OF assms(1)] .
  from assms(2) inv show ?thesis
  proof (cases rule: thread_cases)
    case (api c cs)
    then show ?thesis using inv
      by (cases c) (auto simp: sys_inv_def process_cmd_def run_machine_def Let_def)
  next
    case (evt c cs)
    then obtain e p where "c = CMD_EVT e p" using inv by (auto simp: sys_inv_def)
    with evt show ?thesis by (simp add: process_cmd_def run_machine_def Let_def)
  qed
qed

theorem requests_before_events_witness:
  "\<exists>s'. sm_thread_step quiet_hw (called EVT_DUMP no_payload (hwsys_init (sm_init False False))) = Some s' \<and>
     aq_items (api_queue s') = [] \<and> freed_payloads s' = []"
proof -
  let ?s = "called EVT_DUMP no_payload (hwsys_init (sm_init False False))"
  have r: "reachable quiet_hw ?s"
    by (rule called_reachable[OF reachable.init]) (simp add: hwsys_init_def)
  obtain s' where "sm_thread_step quiet_hw ?s = Some s'"
    by (simp add: thread_api called_def hwsys_init_def)
  with requests_before_events[OF r this] show ?thesis by (auto simp: called_def hwsys_init_def)
qed

text \<open>
  in every reachable state, for each kind of request that is always answered, the callers
  that wait and the answers nobody claims are exactly as many as the requests still queued and
  the results in the list.
\<close>

theorem requests_accounted:
  assumes "reachable hw s" "always_answered e"
  shows "queued e s + results e s = count (waiting s) e + count (unclaimed s) e"
  using reachable_inv[OF assms(1)] assms(2) by (simp add: sys_inv_def)

theorem requests_accounted_witness:
  "queued EVT_START_PREVIEW (hwsys_init (sm_init False False)) = 0"
  using requests_accounted[OF reachable.init[of quiet_hw False False], of EVT_START_PREVIEW]
  by (simp add: always_answered_def is_sync_evt_def is_api_evt_def hwsys_init_def)





text \<open>
  a caller of \<open>release_recording_frame\<close> blocks for good when the preview is stopped: a
  state is reachable in which it waits, both queues and the result list are empty, and neither
  the thread nor any caller can make a step.
\<close>

theorem recording_frame_caller_blocks:
  "\<exists>s. reachable quiet_hw s \<and> EVT_RELEASE_RECORIDNG_FRAME \<in># waiting s \<and>
     sm_thread_step quiet_hw s = None \<and>
     aq_items (api_queue s) = [] \<and> aq_items (evt_queue s) = [] \<and>
     (\<forall>e. waitAPIResult_scan e (m_apiResultList s) = None)"
proof -
  let ?s = "called EVT_RELEASE_RECORIDNG_FRAME no_payload (hwsys_init (sm_init False False))"
  have r: "reachable quiet_hw ?s"
    by (rule called_reachable[OF reachable.init]) (simp add: hwsys_init_def)
  obtain s where s: "sm_thread_step quiet_hw ?s = Some s" "EVT_RELEASE_RECORIDNG_FRAME \<in># waiting s"
    "cmd_sem s = 0" "aq_items (api_queue s) = []" "aq_items (evt_queue s) = []" "m_apiResultList s = []"
    by (simp add: thread_api called_def hwsys_init_def process_cmd_def run_machine_def Let_def
        new_of_def sm_eval)
  moreover have "sm_thread_step quiet_hw s = None" using s(3) by (simp add: sm_thread_step_def)
  ultimately show ?thesis using reachable.step[OF r sys_step.thread[OF s(1)]] by auto
qed

text \<open>
  a caller can be given the answer to an older request. When the hardware interface has
  posted a start of the preview without waiting, as it does after an internal snapshot, a state
  is reachable in which the next caller of the same request finds a result while its own
  request has not been handled.
\<close>

theorem answer_of_older_request:
  "\<exists>s r rest. reachable quiet_hw s \<and> EVT_START_PREVIEW \<in># waiting s \<and>
     queued EVT_START_PREVIEW s = 1 \<and> count (waiting s) EVT_START_PREVIEW = 1 \<and>
     waitAPIResult_scan EVT_START_PREVIEW (m_apiResultList s) = Some (r, rest)"
proof -
  let ?s0 = "hwsys_init (sm_init False False)"
  have "processAPI True True EVT_START_PREVIEW no_payload ?s0 = (NO_ERROR, ?s0
      \<lparr>api_queue := \<lparr>aq_items = [CMD_API EVT_START_PREVIEW no_payload], aq_active = True\<rparr>, cmd_sem := 1\<rparr>)"
    by (simp add: processAPI_ok hwsys_init_def)
  from sys_step.call_nowait[OF this] obtain s1 where s1: "sys_step quiet_hw ?s0 s1"
    "s1 = ?s0\<lparr>api_queue := \<lparr>aq_items = [CMD_API EVT_START_PREVIEW no_payload], aq_active = True\<rparr>,
       cmd_sem := 1, unclaimed := {#EVT_START_PREVIEW#}\<rparr>"
    by (simp add: hwsys_init_def)
  then obtain s2 where s2: "sm_thread_step quiet_hw s1 = Some s2" "m_smThreadActive s2"
    "aq_items (api_queue s2) = []" "waiting s2 = {#}"
    "m_apiResultList s2 = [ok_answer EVT_START_PREVIEW NO_ERROR]"
    by (simp add: thread_api hwsys_init_def process_cmd_def run_machine_def Let_def new_of_def
        sm_eval ok_answer_def fold_signal)
  have "reachable quiet_hw s2"
    using reachable.step[OF reachable.step[OF reachable.init s1(1)] sys_step.thread[OF s2(1)]] .
  from called_reachable[OF this s2(2), of EVT_START_PREVIEW no_payload] s2 show ?thesis
    by (intro exI[of _ "called EVT_START_PREVIEW no_payload s2"])
       (auto simp: called_def queued_def ok_answer_def)
qed

end
