(* ===== verification/LocHeap.thy ===== *)
theory LocHeap
  imports DevPrelude "HOL-Library.Log_Nat"
begin

text \<open>
  The heap of gps/utils/LocHeap.cpp. A node owns its two subtrees, so the tree is a datatype
  with a constructor for a null link; the elements are the addresses of the client's objects,
  and their virtual method \<open>ranks\<close> is a parameter, with the laws a ranking needs stated as a
  locale. An object outranks another when \<open>ranks\<close> is positive.
\<close>

section \<open>Rankings\<close>

type_synonym 'a ranking = "'a \<Rightarrow> 'a \<Rightarrow> int"

definition outRanks :: "'a ranking \<Rightarrow> 'a \<Rightarrow> 'a \<Rightarrow> bool" where
  "outRanks ranks x y \<longleftrightarrow> ranks x y > 0"

section \<open>LocHeapNode\<close>

datatype 'a lhn = Null | Node (mSize: int) (mLeft: "'a lhn") (mData: 'a) (mRight: "'a lhn")

definition new_lhn :: "'a \<Rightarrow> 'a lhn" where
  "new_lhn d = Node 1 Null d Null"

text \<open>
  \<open>push\<close> on a node: the lower ranked of the two data goes down, to a missing subtree or else
  to the smaller one. The pushed node is given by its data, as it is a single node.
\<close>

fun node_push :: "'a ranking \<Rightarrow> 'a lhn \<Rightarrow> 'a \<Rightarrow> 'a lhn" where
  "node_push ranks Null x = new_lhn x"
| "node_push ranks (Node s l d r) x =
     (let (d, x) = (if outRanks ranks x d then (x, d) else (d, x)) in
      if l = Null then Node (s + 1) (new_lhn x) d r
      else if r = Null then Node (s + 1) l d (new_lhn x)
      else if mSize l \<le> mSize r then Node (s + 1) (node_push ranks l x) d r
      else Node (s + 1) l d (node_push ranks r x))"

text \<open>
  \<open>pop\<close> on a link: the data of the node is swapped with that of the higher ranked child, all
  the way down to a leaf, which is unlinked. Returned are the data of that leaf and the link.
\<close>

fun node_pop :: "'a ranking \<Rightarrow> 'a lhn \<Rightarrow> 'a option \<times> 'a lhn" where
  "node_pop ranks Null = (None, Null)"
| "node_pop ranks (Node s Null d Null) = (Some d, Null)"
| "node_pop ranks (Node s Null d (Node s2 l2 d2 r2)) =
     (let (p, t) = node_pop ranks (Node s2 l2 d r2) in (p, Node (s - 1) Null d2 t))"
| "node_pop ranks (Node s (Node s1 l1 d1 r1) d Null) =
     (let (p, t) = node_pop ranks (Node s1 l1 d r1) in (p, Node (s - 1) t d1 Null))"
| "node_pop ranks (Node s (Node s1 l1 d1 r1) d (Node s2 l2 d2 r2)) =
     (if outRanks ranks d1 d2
      then let (p, t) = node_pop ranks (Node s1 l1 d r1) in (p, Node (s - 1) t d1 (Node s2 l2 d2 r2))
      else let (p, t) = node_pop ranks (Node s2 l2 d r2) in (p, Node (s - 1) (Node s1 l1 d1 r1) d2 t))"

text \<open>
  \<open>remove\<close> on a link searches the element by address and skips a subtree whose top is
  outranked by it. The result is the data of the removed node.
\<close>

fun node_remove :: "'a ranking \<Rightarrow> 'a \<Rightarrow> 'a lhn \<Rightarrow> 'a option \<times> 'a lhn" where
  "node_remove ranks x Null = (None, Null)"
| "node_remove ranks x (Node s l d r) =
     (if x = d then node_pop ranks (Node s l d r)
      else if \<not> outRanks ranks x d then
        let (p, l') = (if l \<noteq> Null then node_remove ranks x l else (None, l));
            (p, r') = (if p = None \<and> r \<noteq> Null then node_remove ranks x r else (p, r))
        in (p, Node (if p \<noteq> None then s - 1 else s) l' d r')
      else (None, Node s l d r))"

fun checkNodes :: "'a ranking \<Rightarrow> 'a lhn \<Rightarrow> bool" where
  "checkNodes ranks Null = True"
| "checkNodes ranks (Node s l d r) =
     ((l = Null \<or> \<not> outRanks ranks (mData l) d \<and> checkNodes ranks l) \<and>
      (r = Null \<or> \<not> outRanks ranks (mData r) d \<and> checkNodes ranks r) \<and>
      s - (if l = Null then 0 else mSize l) - (if r = Null then 0 else mSize r) = 1)"

section \<open>LocHeap\<close>

text \<open>The heap is its member \<open>mTree\<close>.\<close>

definition heap_push :: "'a ranking \<Rightarrow> 'a \<Rightarrow> 'a lhn \<Rightarrow> 'a lhn" where
  "heap_push ranks x t = (if t = Null then new_lhn x else node_push ranks t x)"

definition heap_peek :: "'a lhn \<Rightarrow> 'a option" where
  "heap_peek t = (case t of Null \<Rightarrow> None | Node s l d r \<Rightarrow> Some d)"

definition heap_pop :: "'a ranking \<Rightarrow> 'a lhn \<Rightarrow> 'a option \<times> 'a lhn" where
  "heap_pop ranks t = (if t = Null then (None, t) else node_pop ranks t)"

definition heap_remove :: "'a ranking \<Rightarrow> 'a \<Rightarrow> 'a lhn \<Rightarrow> 'a option \<times> 'a lhn" where
  "heap_remove ranks x t = (if t = Null then (None, t) else node_remove ranks x t)"

definition checkTree :: "'a ranking \<Rightarrow> 'a lhn \<Rightarrow> bool" where
  "checkTree ranks t = (t = Null \<or> checkNodes ranks t)"

definition getTreeSize :: "'a lhn \<Rightarrow> int" where
  "getTreeSize t = (if t = Null then 0 else mSize t)"

section \<open>Contents and shape\<close>

fun contents :: "'a lhn \<Rightarrow> 'a multiset" where
  "contents Null = {#}"
| "contents (Node s l d r) = add_mset d (contents l + contents r)"

fun height :: "'a lhn \<Rightarrow> nat" where
  "height Null = 0"
| "height (Node s l d r) = Suc (max (height l) (height r))"

text \<open>Taking out up to \<open>n\<close> elements, and putting in a list of elements.\<close>

fun heap_drain :: "'a ranking \<Rightarrow> nat \<Rightarrow> 'a lhn \<Rightarrow> 'a list" where
  "heap_drain ranks 0 t = []"
| "heap_drain ranks (Suc n) t =
     (case heap_pop ranks t of (None, _) \<Rightarrow> [] | (Some x, t') \<Rightarrow> x # heap_drain ranks n t')"

definition heap_fill :: "'a ranking \<Rightarrow> 'a list \<Rightarrow> 'a lhn" where
  "heap_fill ranks xs = fold (heap_push ranks) xs Null"

lemma contents_Null [simp]: "contents t = {#} \<longleftrightarrow> t = Null"
  by (cases t) auto

lemma contents_push: "contents (node_push ranks t x) = add_mset x (contents t)"
  by (induction ranks t x rule: node_push.induct) (auto simp: new_lhn_def)

lemma push_not_Null [simp]: "node_push ranks t x \<noteq> Null"
  by (cases t) (auto simp: new_lhn_def Let_def split: prod.splits)

lemma mData_push:
  "mData (node_push ranks (Node s l d r) x) = (if outRanks ranks x d then x else d)"
  by auto

lemma contents_pop:
  "t \<noteq> Null \<Longrightarrow> fst (node_pop ranks t) = Some (mData t) \<and>
     contents t = add_mset (mData t) (contents (snd (node_pop ranks t)))"
  by (induction ranks t rule: node_pop.induct) (auto simp: split_beta Let_def)

text \<open>Sizes do not depend on the ranking.\<close>

fun sizes_ok :: "'a lhn \<Rightarrow> bool" where
  "sizes_ok Null = True"
| "sizes_ok (Node s l d r) \<longleftrightarrow> sizes_ok l \<and> sizes_ok r \<and> s = int (size (contents l + contents r)) + 1"

lemma checkNodes_sizes: "checkNodes ranks t \<Longrightarrow> getTreeSize t = int (size (contents t)) \<and> sizes_ok t"
proof (induction t)
  case Null
  then show ?case by (simp add: getTreeSize_def)
next
  case (Node s l d r)
  then show ?case by (cases "l = Null"; cases "r = Null") (auto simp: getTreeSize_def)
qed

section \<open>The laws of a ranking and what follows from them\<close>

text \<open>
  The ranking of the code compares truncated time differences, which is transitive only while
  the times are close: the law is asked for the elements that satisfy \<open>ok\<close>.
\<close>

locale rank_order =
  fixes ranks :: "'a ranking"
    and ok :: "'a \<Rightarrow> bool"
  assumes rank_asym: "outRanks ranks x y \<Longrightarrow> \<not> outRanks ranks y x"
    and rank_trans: "ok x \<Longrightarrow> ok y \<Longrightarrow> ok z \<Longrightarrow>
      \<not> outRanks ranks x y \<Longrightarrow> \<not> outRanks ranks y z \<Longrightarrow> \<not> outRanks ranks x z"
begin

definition all_ok :: "'a lhn \<Rightarrow> bool" where
  "all_ok t \<longleftrightarrow> (\<forall>y \<in># contents t. ok y)"

lemma all_ok_Null [simp]: "all_ok Null"
  by (simp add: all_ok_def)

lemma all_ok_Node [simp]: "all_ok (Node s l d r) \<longleftrightarrow> ok d \<and> all_ok l \<and> all_ok r"
  by (auto simp: all_ok_def)

lemma all_okD: "all_ok t \<Longrightarrow> y \<in># contents t \<Longrightarrow> ok y"
  by (simp add: all_ok_def)

lemma all_ok_mData: "all_ok t \<Longrightarrow> t \<noteq> Null \<Longrightarrow> ok (mData t)"
  by (cases t) auto

lemma rank_irrefl [simp]: "\<not> outRanks ranks x x"
  using rank_asym by blast

text \<open>In a consistent tree nothing outranks the top.\<close>

lemma top_outranks:
  assumes "checkNodes ranks t" "all_ok t" "y \<in># contents t"
  shows "\<not> outRanks ranks y (mData t)"
  using assms
proof (induction t)
  case Null
  then show ?case by simp
next
  case (Node s l d r)
  consider "y = d" | "y \<in># contents l" | "y \<in># contents r" using Node.prems(3) by auto
  then show ?case
  proof cases
    case 2
    then have "l \<noteq> Null" by auto
    with 2 Node show ?thesis using rank_trans[of y "mData l" d] all_okD[of l y] all_ok_mData[of l] by auto
  next
    case 3
    then have "r \<noteq> Null" by auto
    with 3 Node show ?thesis using rank_trans[of y "mData r" d] all_okD[of r y] all_ok_mData[of r] by auto
  qed simp
qed

text \<open>Replacing the top by something it does not outrank keeps the tree consistent.\<close>

lemma checkNodes_raise:
  "checkNodes ranks (Node s l d r) \<Longrightarrow> all_ok (Node s l d r) \<Longrightarrow> ok e \<Longrightarrow> \<not> outRanks ranks d e \<Longrightarrow>
   checkNodes ranks (Node s l e r)"
  using rank_trans[of "mData l" d e] rank_trans[of "mData r" d e] all_ok_mData[of l] all_ok_mData[of r]
  by auto

lemma checkNodes_push:
  assumes "checkNodes ranks t" "all_ok t" "ok x"
  shows "checkNodes ranks (node_push ranks t x)"
  using assms
proof (induction t arbitrary: x)
  case Null
  then show ?case by (simp add: new_lhn_def)
next
  case (Node s l d r)
  obtain d' x' where swap: "(if outRanks ranks x d then (x, d) else (d, x)) = (d', x')"
    by (metis prod.collapse)
  then have x': "\<not> outRanks ranks x' d'" "\<not> outRanks ranks d d'" "ok x'" "ok d'"
    using rank_asym Node.prems by (auto split: if_splits)
  then have top: "checkNodes ranks (Node s l d' r)" using Node.prems checkNodes_raise by blast
  have below: "mSize (node_push ranks t x') = mSize t + 1 \<and>
      \<not> outRanks ranks (mData (node_push ranks t x')) d'"
    if "t \<noteq> Null" "\<not> outRanks ranks (mData t) d'" for t :: "'a lhn"
    using that x'(1) by (cases t) (auto simp: Let_def split: prod.splits)
  show ?case
    using top x'(1,3) below[of l] below[of r] Node.IH[of x'] Node.prems(2)
    by (simp add: swap new_lhn_def del: checkNodes.simps(2)) (auto split: if_splits)
qed

text \<open>What is popped from a child after its data has been swapped with that of its parent.\<close>

lemma pop_child:
  assumes sub: "checkNodes ranks (Node s l e r)" "all_ok (Node s l e r)"
    and top: "\<not> outRanks ranks e d" "ok d"
    and IH: "checkNodes ranks (Node s l d r) \<Longrightarrow> checkNodes ranks (snd (node_pop ranks (Node s l d r)))"
  defines "t \<equiv> snd (node_pop ranks (Node s l d r))"
  shows "checkNodes ranks t \<and> (t = Null \<or> \<not> outRanks ranks (mData t) e) \<and> getTreeSize t = s - 1"
proof -
  have raised: "checkNodes ranks (Node s l d r)" using checkNodes_raise[OF sub top(2,1)] .
  then have t: "checkNodes ranks t" using IH by (simp add: t_def)
  have c: "contents t = contents l + contents r"
    using contents_pop[of "Node s l d r" ranks] by (simp add: t_def)
  have "\<not> outRanks ranks (mData t) e" if "t \<noteq> Null"
  proof -
    have "mData t \<in># contents t" using that by (cases t) auto
    then show ?thesis using c top_outranks[OF sub, of "mData t"] by simp
  qed
  moreover have "getTreeSize t = s - 1"
    using checkNodes_sizes[OF t] checkNodes_sizes[OF raised] c by (simp add: getTreeSize_def)
  ultimately show ?thesis using t by blast
qed

lemma checkNodes_pop:
  "checkNodes ranks t \<Longrightarrow> all_ok t \<Longrightarrow> checkNodes ranks (snd (node_pop ranks t))"
proof (induction t rule: measure_induct_rule[of size])
  case (less t)
  show ?case
  proof (cases "(ranks, t)" rule: node_pop.cases)
    case (3 _ s d s2 l2 d2 r2)
    then show ?thesis
      using less pop_child[of s2 l2 d2 r2 d] by (auto simp: split_beta Let_def getTreeSize_def)
  next
    case (4 _ s s1 l1 d1 r1 d)
    then show ?thesis
      using less pop_child[of s1 l1 d1 r1 d] by (auto simp: split_beta Let_def getTreeSize_def)
  next
    case (5 _ s s1 l1 d1 r1 d s2 l2 d2 r2)
    then show ?thesis
      using less pop_child[of s1 l1 d1 r1 d] pop_child[of s2 l2 d2 r2 d] rank_asym[of d1 d2]
      by (auto simp: split_beta Let_def getTreeSize_def)
  qed simp_all
qed

text \<open>What a child is after it has lost a node.\<close>

lemma shrunk_child:
  assumes "checkNodes ranks (Node s l d r)" "t = l \<or> t = r" "checkNodes ranks t'"
    "contents t = add_mset x (contents t')" "all_ok (Node s l d r)"
  shows "(t' = Null \<or> \<not> outRanks ranks (mData t') d) \<and> getTreeSize t' = getTreeSize t - 1"
proof -
  have "\<not> outRanks ranks (mData t') d" if "t' \<noteq> Null"
  proof -
    have "mData t' \<in># contents t'" using that by (cases t') auto
    then have "mData t' \<in># contents (Node s l d r)" using assms(2,4) by auto
    then show ?thesis using top_outranks[OF assms(1,5)] by fastforce
  qed
  moreover have "checkNodes ranks t" using assms(1,2) by auto
  ultimately show ?thesis
    using checkNodes_sizes[OF assms(3)] checkNodes_sizes[of ranks t] assms(4) by auto
qed

text \<open>\<open>remove\<close> finds an element exactly if it is in the heap.\<close>

lemma remove_correct:
  assumes "checkNodes ranks t" "all_ok t"
  shows "(case node_remove ranks x t of
      (None, t') \<Rightarrow> t' = t \<and> x \<notin># contents t
    | (Some y, t') \<Rightarrow> y = x \<and> contents t = add_mset x (contents t') \<and> checkNodes ranks t')"
  using assms
proof (induction t)
  case Null
  then show ?case by simp
next
  case (Node s l d r)
  show ?case
  proof (cases "x = d")
    case True
    then show ?thesis
      using contents_pop[of "Node s l d r" ranks] checkNodes_pop[OF Node.prems]
      by (auto simp: split_beta split: option.splits)
  next
    case ne: False
    show ?thesis
    proof (cases "outRanks ranks x d")
      case True
      then have "x \<notin># contents (Node s l d r)" using top_outranks[OF Node.prems, of x] by auto
      with True ne show ?thesis by simp
    next
      case False
      have sub: "checkNodes ranks l" "checkNodes ranks r" "all_ok l" "all_ok r"
        using Node.prems by auto
      obtain p l' where l: "node_remove ranks x l = (p, l')" by (metis prod.collapse)
      obtain q r' where r: "node_remove ranks x r = (q, r')" by (metis prod.collapse)
      show ?thesis
      proof (cases p)
        case (Some y)
        with Node.IH(1)[OF sub(1,3)] l have "y = x" "contents l = add_mset x (contents l')"
          "checkNodes ranks l'" by auto
        moreover from this have "l \<noteq> Null" by auto
        ultimately show ?thesis
          using ne False l Some Node.prems shrunk_child[OF Node.prems(1), of l l' x]
          by (auto simp: getTreeSize_def split: if_splits)
      next
        case None
        with Node.IH(1)[OF sub(1,3)] l have l': "l' = l" "x \<notin># contents l" by auto
        show ?thesis
        proof (cases q)
          case (Some y)
          with Node.IH(2)[OF sub(2,4)] r have "y = x" "contents r = add_mset x (contents r')"
            "checkNodes ranks r'" by auto
          moreover from this have "r \<noteq> Null" by auto
          ultimately show ?thesis
            using ne False l l' r Some None Node.prems shrunk_child[OF Node.prems(1), of r r' x]
            by (auto simp: getTreeSize_def split: if_splits)
        next
          case q: None
          with Node.IH(2)[OF sub(2,4)] r have "r' = r" "x \<notin># contents r" by auto
          with ne False l l' r q None show ?thesis by auto
        qed
      qed
    qed
  qed
qed

text \<open>Taking elements out until the heap is empty gives them by rank.\<close>

lemma drain_sorted:
  assumes "checkNodes ranks t" "all_ok t" "n = size (contents t)"
  shows "sorted_wrt (\<lambda>x y. \<not> outRanks ranks y x) (heap_drain ranks n t) \<and>
     mset (heap_drain ranks n t) = contents t"
  using assms
proof (induction n arbitrary: t)
  case 0
  then show ?case by simp
next
  case (Suc n)
  then have ne: "t \<noteq> Null" by auto
  obtain t' where t': "node_pop ranks t = (Some (mData t), t')"
    "contents t = add_mset (mData t) (contents t')"
    using contents_pop[OF ne, of ranks] by (metis prod.collapse)
  have "checkNodes ranks t'" using checkNodes_pop[OF Suc.prems(1,2)] t'(1) by simp
  moreover have "all_ok t'" using Suc.prems(2) t'(2) by (simp add: all_ok_def)
  ultimately have IH: "sorted_wrt (\<lambda>x y. \<not> outRanks ranks y x) (heap_drain ranks n t')"
    "mset (heap_drain ranks n t') = contents t'"
    using Suc.IH[of t'] Suc.prems(3) t'(2) by auto
  have "\<not> outRanks ranks y (mData t)" if "y \<in> set (heap_drain ranks n t')" for y
  proof -
    have "y \<in># contents t'" using that IH(2) by (metis set_mset_mset)
    then show ?thesis using top_outranks[OF Suc.prems(1,2)] t'(2) by simp
  qed
  with IH t' ne show ?case by (auto simp: heap_pop_def)
qed

end

section \<open>Balance\<close>

text \<open>
  A tree that only grows is balanced at every node: the left subtree has as many nodes as the
  right one, or one more.
\<close>

fun balanced :: "'a lhn \<Rightarrow> bool" where
  "balanced Null = True"
| "balanced (Node s l d r) \<longleftrightarrow> balanced l \<and> balanced r \<and>
     (size (contents l) = size (contents r) \<or> size (contents l) = Suc (size (contents r)))"

lemma sizes_ok_mSize: "sizes_ok t \<Longrightarrow> t \<noteq> Null \<Longrightarrow> mSize t = int (size (contents t))"
  by (cases t) auto

lemma sizes_ok_push: "sizes_ok t \<Longrightarrow> sizes_ok (node_push ranks t x)"
proof (induction t arbitrary: x)
  case Null
  then show ?case by (simp add: new_lhn_def)
next
  case (Node s l d r)
  then show ?case by (auto simp: Let_def new_lhn_def contents_push split: prod.splits)
qed

lemma balanced_push: "sizes_ok t \<Longrightarrow> balanced t \<Longrightarrow> balanced (node_push ranks t x)"
proof (induction t arbitrary: x)
  case Null
  then show ?case by (simp add: new_lhn_def)
next
  case (Node s l d r)
  then show ?case
    using sizes_ok_mSize[of l] sizes_ok_mSize[of r]
    by (auto simp: Let_def new_lhn_def contents_push split: prod.splits)
qed

lemma balanced_height: "balanced t \<Longrightarrow> t \<noteq> Null \<Longrightarrow> 2 ^ height t \<le> 2 * size (contents t)"
proof (induction t)
  case Null
  then show ?case by simp
next
  case (Node s l d r)
  have bound: "2 ^ height u \<le> 2 * size (contents u) + (if u = Null then 1 else 0)"
    if "u = l \<or> u = r" for u
    using that Node by (cases "u = Null") auto
  have "2 ^ height l \<le> 2 * size (contents l) + (if l = Null then 1 else 0)"
    "2 ^ height r \<le> 2 * size (contents r) + (if r = Null then 1 else 0)"
    using bound by auto
  moreover have "size (contents l) \<le> Suc (size (contents r))" "size (contents r) \<le> size (contents l)"
    using Node.prems(1) by auto
  moreover have "(2 :: nat) ^ height (Node s l d r) = 2 * max (2 ^ height l) (2 ^ height r)"
    by (simp add: max_def)
  ultimately show ?case by (auto simp: max_def split: if_splits)
qed

end
