(* ===== verification/LocTimer.thy ===== *)
theory LocTimer
  imports LocHeap
begin

text \<open>
  The timers of gps/utils/LocTimer.cpp: the ranking of the timer delegates by their time, the
  heap container with the kernel timer it keeps armed for the soonest timer, the messages by
  which clients, the poll thread and the message thread change it, and the client object. The
  target is arm64 (BoardConfig.mk): \<open>time_t\<close> and \<open>long\<close> have 64 bits, \<open>int\<close> has 32.
\<close>

section \<open>Times\<close>

datatype timespec = Timespec (tv_sec: "64 word") (tv_nsec: "64 word")

text \<open>Times in their natural order, seconds first, as signed numbers.\<close>

instantiation timespec :: linorder
begin

definition less_eq_timespec :: "timespec \<Rightarrow> timespec \<Rightarrow> bool" where
  "a \<le> b \<longleftrightarrow> sint (tv_sec a) < sint (tv_sec b) \<or>
     sint (tv_sec a) = sint (tv_sec b) \<and> sint (tv_nsec a) \<le> sint (tv_nsec b)"

definition less_timespec :: "timespec \<Rightarrow> timespec \<Rightarrow> bool" where
  "a < b \<longleftrightarrow> sint (tv_sec a) < sint (tv_sec b) \<or>
     sint (tv_sec a) = sint (tv_sec b) \<and> sint (tv_nsec a) < sint (tv_nsec b)"

instance
proof
  fix a b c :: timespec
  show "a < b \<longleftrightarrow> a \<le> b \<and> \<not> b \<le> a" by (auto simp: less_eq_timespec_def less_timespec_def)
  show "a \<le> a" by (simp add: less_eq_timespec_def)
  show "a \<le> b \<Longrightarrow> b \<le> c \<Longrightarrow> a \<le> c" by (auto simp: less_eq_timespec_def)
  show "a \<le> b \<Longrightarrow> b \<le> a \<Longrightarrow> a = b"
    by (cases a; cases b) (auto simp: less_eq_timespec_def dest: signed_word_eqI)
  show "a \<le> b \<or> b \<le> a" by (auto simp: less_eq_timespec_def)
qed

end

text \<open>
  Times whose seconds fit in an \<open>int\<close> and whose nanoseconds are in range: the seconds count
  from boot, so this holds for some 68 years of uptime.
\<close>

definition close_time :: "timespec \<Rightarrow> bool" where
  "close_time t \<longleftrightarrow> 0 \<le> sint (tv_sec t) \<and> sint (tv_sec t) < 2 ^ 31 \<and>
     0 \<le> sint (tv_nsec t) \<and> sint (tv_nsec t) < 10 ^ 9"

section \<open>LocTimerDelegate\<close>

text \<open>A delegate: its address and its constant time; its other fields are in the state below.\<close>

datatype tdel = Delegate (del_addr: ptr) (mFutureTime: timespec)

text \<open>\<open>ranks\<close>: the differences are computed in 64 bits and stored in an \<open>int\<close>.\<close>

definition time_rank :: "timespec \<Rightarrow> timespec \<Rightarrow> int" where
  "time_rank this timer =
     (let rank = sint (ucast (tv_sec timer - tv_sec this) :: 32 word) in
      if rank = 0 then sint (ucast (tv_nsec timer - tv_nsec this) :: 32 word) else rank)"

definition delegate_ranks :: "tdel ranking" where
  "delegate_ranks x y = time_rank (mFutureTime x) (mFutureTime y)"

text \<open>The difference of two numbers that fit in an \<open>int\<close>, truncated to an \<open>int\<close>.\<close>

lemma signed_take_bit_narrow:
  "signed_take_bit 31 (signed_take_bit 63 b - signed_take_bit 63 a) = signed_take_bit 31 (b - a)"
  for a b :: int
proof -
  have "take_bit 32 (signed_take_bit 63 b - signed_take_bit 63 a) =
      take_bit 32 (take_bit 32 (signed_take_bit 63 b) - take_bit 32 (signed_take_bit 63 a))"
    by (rule take_bit_diff [symmetric])
  also have "\<dots> = take_bit 32 (b - a)"
    by (simp add: take_bit_signed_take_bit take_bit_diff)
  finally show ?thesis by (simp add: signed_take_bit_eq_iff_take_bit_eq)
qed

lemma truncated_difference:
  fixes a b :: "64 word"
  assumes "0 \<le> sint a" "sint a < 2 ^ 31" "0 \<le> sint b" "sint b < 2 ^ 31"
  shows "sint (ucast (b - a) :: 32 word) = sint b - sint a"
proof -
  have "sint (ucast (b - a) :: 32 word) = signed_take_bit 31 (sint b - sint a)"
    by transfer (simp add: signed_take_bit_narrow signed_take_bit_take_bit)
  then show ?thesis using assms by (simp add: signed_take_bit_int_eq_self_iff)
qed

lemma time_rank_close:
  assumes "close_time x" "close_time y"
  shows "time_rank x y > 0 \<longleftrightarrow> x < y"
proof -
  have "sint (ucast (tv_sec y - tv_sec x) :: 32 word) = sint (tv_sec y) - sint (tv_sec x)"
    "sint (ucast (tv_nsec y - tv_nsec x) :: 32 word) = sint (tv_nsec y) - sint (tv_nsec x)"
    using assms by (intro truncated_difference; simp add: close_time_def)+
  then show ?thesis by (auto simp: time_rank_def Let_def less_timespec_def)
qed

text \<open>Without a bound on the times the ranking is at least asymmetric.\<close>

lemma sint_ucast_minus:
  fixes a b :: "64 word"
  assumes "sint (ucast (b - a) :: 32 word) > 0"
  shows "sint (ucast (a - b) :: 32 word) < 0"
proof -
  have u: "(ucast (a - b) :: 32 word) = - ucast (b - a)"
  proof transfer
    fix a b :: int
    have "take_bit 32 (- take_bit 64 (b - a)) = take_bit 32 (- take_bit 32 (take_bit 64 (b - a)))"
      by (rule take_bit_minus [symmetric])
    also have "\<dots> = take_bit 32 (- take_bit 32 (b - a))" by (simp add: take_bit_take_bit)
    also have "\<dots> = take_bit 32 (a - b)" by (simp add: take_bit_minus)
    finally show "take_bit LENGTH(32) (take_bit LENGTH(64) (a - b)) =
        take_bit LENGTH(32) (- take_bit LENGTH(64) (b - a))"
      by simp
  qed
  let ?k = "sint (ucast (b - a) :: 32 word)"
  have "?k < 2 ^ 31" using sint_lt[of "ucast (b - a) :: 32 word"] by simp
  then have "signed_take_bit 31 (- ?k) = - ?k"
    using assms by (intro signed_take_bit_int_eq_self) simp_all
  then have "sint (ucast (a - b) :: 32 word) = - ?k" by (simp add: u sint_word_ariths)
  then show ?thesis using assms by simp
qed

section \<open>LocTimer::start: the time of expiry\<close>

text \<open>\<open>unsigned int\<close> arithmetic on the delay, then \<open>long\<close> arithmetic on the time.\<close>

definition future_time :: "timespec \<Rightarrow> 32 word \<Rightarrow> timespec" where
  "future_time now timeOutInMs =
     (let sec = tv_sec now + ucast (timeOutInMs div 1000);
          nsec = tv_nsec now + ucast ((timeOutInMs mod 1000) * 1000000)
      in if sint nsec \<ge> 1000000000
         then Timespec (sec + word_of_int (sint nsec div 1000000000)) (word_of_int (sint nsec mod 1000000000))
         else Timespec sec nsec)"

text \<open>A time in nanoseconds.\<close>

definition nanos :: "timespec \<Rightarrow> int" where
  "nanos t = sint (tv_sec t) * 10 ^ 9 + sint (tv_nsec t)"

lemma sint_add_small:
  fixes a b :: "64 word"
  assumes "0 \<le> sint a" "sint a < 2 ^ 32" "0 \<le> sint b" "sint b < 2 ^ 32"
  shows "sint (a + b) = sint a + sint b"
  using assms by (simp add: sint_word_ariths signed_take_bit_int_eq_self_iff)

lemma sint_ucast_up: "sint (ucast (x :: 32 word) :: 64 word) = uint x"
proof -
  have x: "0 \<le> uint x" "uint x < 2 ^ 32" using uint_lt2p[of x] by auto
  then have "take_bit 64 (uint x) = uint x" by (simp add: take_bit_int_eq_self_iff)
  moreover have "signed_take_bit 63 (uint x) = uint x"
  proof (rule signed_take_bit_int_eq_self)
    show "- (2 ^ 63) \<le> uint x" by (rule order_trans[OF _ x(1)]) simp
    show "uint x < 2 ^ 63" using x(2) by simp
  qed
  ultimately show ?thesis by (simp add: sint_uint unsigned_ucast_eq)
qed

lemma sint_of_small: "0 \<le> k \<Longrightarrow> k < 2 ^ 32 \<Longrightarrow> sint (word_of_int k :: 64 word) = k"
  by (simp add: sint_sbintrunc' signed_take_bit_int_eq_self_iff)

lemma future_time_parts:
  fixes ms :: "32 word"
  assumes "close_time now"
  defines "n \<equiv> sint (tv_nsec now) + uint ms mod 1000 * 1000000"
  shows "sint (tv_sec (future_time now ms)) = sint (tv_sec now) + uint ms div 1000 + n div 10 ^ 9 \<and>
     sint (tv_nsec (future_time now ms)) = n mod 10 ^ 9"
proof -
  have now: "0 \<le> sint (tv_sec now)" "sint (tv_sec now) < 2 ^ 31" "0 \<le> sint (tv_nsec now)"
    "sint (tv_nsec now) < 10 ^ 9"
    using assms by (auto simp: close_time_def)
  have ms: "0 \<le> uint ms div 1000" "uint ms < 2 ^ 32"
    using uint_lt2p[of ms] by (auto simp: pos_imp_zdiv_nonneg_iff)
  have "uint ((ms mod 1000) * 1000000) = uint ms mod 1000 * 1000000"
    by (simp add: uint_word_ariths uint_mod)
  then have add: "sint (ucast ((ms mod 1000) * 1000000) :: 64 word) = uint ms mod 1000 * 1000000"
    "sint (ucast (ms div 1000) :: 64 word) = uint ms div 1000"
    by (simp_all add: sint_ucast_up uint_div)
  have sec: "sint (tv_sec now + ucast (ms div 1000)) = sint (tv_sec now) + uint ms div 1000"
    using now ms by (subst sint_add_small) (simp_all add: add)
  have nsec: "sint (tv_nsec now + ucast ((ms mod 1000) * 1000000)) = n"
    using now ms by (subst sint_add_small) (simp_all add: add n_def)
  have n: "0 \<le> n" "n < 2 * 10 ^ 9" using now ms by (auto simp: n_def)
  show ?thesis
  proof (cases "n \<ge> 10 ^ 9")
    case True
    then have q: "n div 10 ^ 9 = 1" using n by (simp add: div_pos_geq)
    have "sint (tv_sec now + ucast (ms div 1000) + word_of_int 1) = sint (tv_sec now) + uint ms div 1000 + 1"
      using now ms by (subst sint_add_small) (simp_all add: sec)
    moreover have "sint (word_of_int (n mod 10 ^ 9) :: 64 word) = n mod 10 ^ 9"
      using n by (intro sint_of_small) auto
    ultimately show ?thesis using True q by (simp add: future_time_def Let_def nsec)
  next
    case False
    then show ?thesis using n sec nsec by (simp add: future_time_def Let_def)
  qed
qed

section \<open>The container\<close>

text \<open>
  The messages to the message thread, and the state: the heap of LocTimerContainer, the time
  its timer descriptor is armed for (\<open>None\<close> when disarmed) and whether it is polled, the queue
  of the message thread, \<open>mTimer\<close> of each LocTimer client, \<open>mClient\<close> of each delegate
  (\<open>None\<close> for NULL), whether its \<open>mContainer\<close> is set, the delegates that are allocated, the clients whose
  \<open>timeOutCallback\<close> has been called, newest first, and the clock since boot.
\<close>

datatype tmsg =
    MsgTimerPush tdel
  | MsgTimerRemove tdel
  | MsgTimerExpire

record ltc =
  mTree :: "tdel lhn"
  timerfd :: "timespec option"
  polled :: bool
  msgq :: "tmsg list"
  mTimer :: "ptr \<Rightarrow> tdel option"
  mClient :: "ptr \<Rightarrow> ptr option"
  mContainer :: "ptr \<Rightarrow> bool"
  allocated :: "ptr list"
  callbacks :: "ptr list"
  clock :: timespec

definition ltc_init :: ltc where
  "ltc_init = \<lparr>mTree = Null, timerfd = None, polled = False, msgq = [], mTimer = (\<lambda>_. None),
     mClient = (\<lambda>_. None), mContainer = (\<lambda>_. False), allocated = [], callbacks = [], clock = Timespec 0 0\<rparr>"

definition getSoonestTimer :: "ltc \<Rightarrow> tdel option" where
  "getSoonestTimer s = heap_peek (mTree s)"

definition updateSoonestTime :: "tdel option \<Rightarrow> ltc \<Rightarrow> ltc" where
  "updateSoonestTime priorTop s =
     (let curTop = getSoonestTimer s in
      if curTop \<noteq> priorTop then
        (case curTop of
           None \<Rightarrow> s\<lparr>polled := False, timerfd := None\<rparr>
         | Some cur \<Rightarrow>
             if (case priorTop of None \<Rightarrow> True | Some prior \<Rightarrow> outRanks delegate_ranks cur prior)
             then s\<lparr>polled := True, timerfd := Some (mFutureTime cur)\<rparr>
             else s)
      else s)"

definition popIfOutRanks :: "timespec \<Rightarrow> ltc \<Rightarrow> tdel option \<times> ltc" where
  "popIfOutRanks timer s =
     (case mTree s of
        Null \<Rightarrow> (None, s)
      | Node _ _ first _ \<Rightarrow>
          if \<not> time_rank timer (mFutureTime first) > 0
          then let (d, t) = heap_pop delegate_ranks (mTree s) in (d, s\<lparr>mTree := t\<rparr>)
          else (None, s))"

text \<open>
  \<open>LocTimer::start\<close>: \<open>container\<close> says whether \<open>LocTimerContainer::get\<close> has one, \<open>addr\<close> is the
  address of the new delegate.
\<close>

definition timer_start :: "bool \<Rightarrow> ptr \<Rightarrow> 32 word \<Rightarrow> timespec \<Rightarrow> ptr \<Rightarrow> ltc \<Rightarrow> bool \<times> ltc" where
  "timer_start container client timeOutInMs now addr s =
     (if mTimer s client = None then
        let futureTime = future_time now timeOutInMs in
        if container then
          let d = Delegate addr futureTime in
          (True, s\<lparr>msgq := msgq s @ [MsgTimerPush d], mTimer := (mTimer s)(client := Some d),
                   mClient := (mClient s)(addr := Some client), mContainer := (mContainer s)(addr := True),
                   allocated := addr # allocated s\<rparr>)
        else (False, s)
      else (False, s))"

definition destroyLocked :: "tdel \<Rightarrow> ltc \<Rightarrow> ltc" where
  "destroyLocked d s =
     (let s = s\<lparr>mClient := (mClient s)(del_addr d := None)\<rparr> in
      if mContainer s (del_addr d)
      then s\<lparr>mContainer := (mContainer s)(del_addr d := False), msgq := msgq s @ [MsgTimerRemove d]\<rparr>
      else s)"

definition timer_stop :: "ptr \<Rightarrow> ltc \<Rightarrow> bool \<times> ltc" where
  "timer_stop client s =
     (case mTimer s client of
        None \<Rightarrow> (False, s)
      | Some d \<Rightarrow> (True, destroyLocked d (s\<lparr>mTimer := (mTimer s)(client := None)\<rparr>)))"

definition delegate_expire :: "tdel \<Rightarrow> ltc \<Rightarrow> ltc" where
  "delegate_expire d s =
     (case mClient s (del_addr d) of
        None \<Rightarrow> s
      | Some client \<Rightarrow>
          let (stopped, s) = timer_stop client s in
          if stopped then s\<lparr>callbacks := client # callbacks s\<rparr> else s)"

text \<open>The three messages.\<close>

definition proc_push :: "tdel \<Rightarrow> ltc \<Rightarrow> ltc" where
  "proc_push d s =
     (let priorTop = getSoonestTimer s;
          s = s\<lparr>mTree := heap_push delegate_ranks d (mTree s)\<rparr>
      in updateSoonestTime priorTop s)"

definition proc_remove :: "tdel \<Rightarrow> ltc \<Rightarrow> ltc" where
  "proc_remove d s =
     (let priorTop = getSoonestTimer s;
          (removed, t) = heap_remove delegate_ranks d (mTree s);
          s = s\<lparr>mTree := t\<rparr>;
          s = (if priorTop = removed then updateSoonestTime None s else s)
      in s\<lparr>allocated := remove1 (del_addr d) (allocated s)\<rparr>)"

lemma delegate_expire_mTree [simp]: "mTree (delegate_expire d s) = mTree s"
  by (simp add: delegate_expire_def timer_stop_def destroyLocked_def Let_def split: option.splits)

lemma popIfOutRanks_size:
  "popIfOutRanks now s = (Some d, s') \<Longrightarrow> size (contents (mTree s')) < size (contents (mTree s))"
  using contents_pop[of "mTree s" delegate_ranks]
  by (auto simp: popIfOutRanks_def heap_pop_def split: lhn.splits if_splits prod.splits)

function expire_loop :: "timespec \<Rightarrow> tdel option \<Rightarrow> ltc \<Rightarrow> ltc" where
  "expire_loop now None s = s"
| "expire_loop now (Some d) s =
     (let (nxt, s') = popIfOutRanks now (delegate_expire d s) in expire_loop now nxt s')"
  by pat_completeness auto

termination
proof (relation "measure (\<lambda>(now, d, s). size (contents (mTree s)) + (if d = None then 0 else 1))")
  fix now d s x nxt s'
  assume "x = popIfOutRanks now (delegate_expire d s)" "(nxt, s') = x"
  then have eq: "popIfOutRanks now (delegate_expire d s) = (nxt, s')" by simp
  show "((now, nxt, s'), (now, Some d, s)) \<in>
      measure (\<lambda>(now, d, s). size (contents (mTree s)) + (if d = None then 0 else 1))"
  proof (cases nxt)
    case None
    then have "mTree s' = mTree s"
      using eq by (auto simp: popIfOutRanks_def heap_pop_def split: lhn.splits if_splits prod.splits)
        (metis contents_pop lhn.distinct(1) option.distinct(1) fst_conv)
    then show ?thesis using None by simp
  next
    case (Some d')
    then show ?thesis using popIfOutRanks_size[of now "delegate_expire d s" d' s'] eq by simp
  qed
qed simp

definition proc_expire :: "timespec \<Rightarrow> ltc \<Rightarrow> ltc" where
  "proc_expire now s =
     (let (first, t) = heap_pop delegate_ranks (mTree s)
      in updateSoonestTime None (expire_loop now first (s\<lparr>mTree := t\<rparr>)))"

text \<open>\<open>LocTimerContainer::expire\<close>, called by the poll thread when the descriptor is readable.\<close>

definition container_expire :: "ltc \<Rightarrow> ltc" where
  "container_expire s = s\<lparr>timerfd := None, polled := False, msgq := msgq s @ [MsgTimerExpire]\<rparr>"

section \<open>The ranking of delegates\<close>

definition close_del :: "tdel \<Rightarrow> bool" where
  "close_del d \<longleftrightarrow> close_time (mFutureTime d)"

lemma delegate_outranks:
  "close_del x \<Longrightarrow> close_del y \<Longrightarrow> outRanks delegate_ranks x y \<longleftrightarrow> mFutureTime x < mFutureTime y"
  by (simp add: outRanks_def delegate_ranks_def close_del_def time_rank_close)

lemma time_rank_asym: "time_rank a b > 0 \<Longrightarrow> \<not> time_rank b a > 0"
proof -
  assume pos: "time_rank a b > 0"
  let ?s = "\<lambda>a b. sint (ucast (tv_sec b - tv_sec a) :: 32 word)"
  let ?n = "\<lambda>a b. sint (ucast (tv_nsec b - tv_nsec a) :: 32 word)"
  show ?thesis
  proof (cases "?s a b = 0")
    case True
    then have "?s b a \<le> 0" using sint_ucast_minus[of "tv_sec a" "tv_sec b"] by linarith
    moreover have "?n b a < 0" using pos True sint_ucast_minus by (simp add: time_rank_def Let_def)
    ultimately show ?thesis by (simp add: time_rank_def Let_def)
  next
    case False
    then have "?s b a < 0" using pos sint_ucast_minus by (simp add: time_rank_def Let_def)
    then show ?thesis by (simp add: time_rank_def Let_def)
  qed
qed

interpretation tr: rank_order delegate_ranks close_del
proof
  fix x y z
  show "outRanks delegate_ranks x y \<Longrightarrow> \<not> outRanks delegate_ranks y x"
    using time_rank_asym by (simp add: outRanks_def delegate_ranks_def)
  assume "close_del x" "close_del y" "close_del z" "\<not> outRanks delegate_ranks x y"
    "\<not> outRanks delegate_ranks y z"
  then show "\<not> outRanks delegate_ranks x z"
    by (simp add: delegate_outranks)
qed

section \<open>All interleavings\<close>

text \<open>
  Time passes, clients start and stop timers, the armed descriptor fires when its time has
  come, and the message thread handles its messages in order. A reading of the clock may be
  older than the step that uses it.
\<close>

inductive ltc_step :: "ltc \<Rightarrow> ltc \<Rightarrow> bool" where
  tick: "clock s \<le> t \<Longrightarrow> close_time t \<Longrightarrow> ltc_step s (s\<lparr>clock := t\<rparr>)"
| start: "addr \<notin> set (allocated s) \<Longrightarrow> close_time now \<Longrightarrow> now \<le> clock s \<Longrightarrow>
     close_time (future_time now ms) \<Longrightarrow> ltc_step s (snd (timer_start container c ms now addr s))"
| stop: "ltc_step s (snd (timer_stop c s))"
| fire: "timerfd s = Some t \<Longrightarrow> t \<le> clock s \<Longrightarrow> polled s \<Longrightarrow> ltc_step s (container_expire s)"
| push: "msgq s = MsgTimerPush d # ms \<Longrightarrow> ltc_step s (proc_push d (s\<lparr>msgq := ms\<rparr>))"
| remove: "msgq s = MsgTimerRemove d # ms \<Longrightarrow> ltc_step s (proc_remove d (s\<lparr>msgq := ms\<rparr>))"
| expire: "msgq s = MsgTimerExpire # ms \<Longrightarrow> close_time now \<Longrightarrow> now \<le> clock s \<Longrightarrow>
     ltc_step s (proc_expire now (s\<lparr>msgq := ms\<rparr>))"

inductive ltc_reachable :: "ltc \<Rightarrow> bool" where
  init: "ltc_reachable ltc_init"
| step: "ltc_reachable s \<Longrightarrow> ltc_step s s' \<Longrightarrow> ltc_reachable s'"

end
