(* ===== verification/LocTimerInv.thy ===== *)
theory LocTimerInv
  imports LocTimer
begin

text \<open>
  What holds of the timers in every interleaving of clients, poll thread and message thread:
  the heap is consistent, the kernel timer is armed for the soonest timer unless an expiry is
  on its way, and the delegates are neither used after they are freed, nor freed twice, nor
  leaked, nor lost.
\<close>

section \<open>The soonest timer is armed\<close>

text \<open>The descriptor is armed for the soonest timer, if there is one.\<close>

definition armed :: "ltc \<Rightarrow> bool" where
  "armed s \<longleftrightarrow> (case getSoonestTimer s of
     None \<Rightarrow> True
   | Some d \<Rightarrow> timerfd s = Some (mFutureTime d) \<and> polled s)"

definition heap_inv :: "ltc \<Rightarrow> bool" where
  "heap_inv s \<longleftrightarrow> checkNodes delegate_ranks (mTree s) \<and> tr.all_ok (mTree s) \<and>
     (\<forall>d. MsgTimerPush d \<in> set (msgq s) \<longrightarrow> close_del d)"

text \<open>A delegate that still has a client is the one its client refers to.\<close>

definition client_inv :: "ltc \<Rightarrow> bool" where
  "client_inv s \<longleftrightarrow> (\<forall>a c. mClient s a = Some c \<longrightarrow> (\<exists>t. mTimer s c = Some (Delegate a t)))"

definition timers_inv :: "ltc \<Rightarrow> bool" where
  "timers_inv s \<longleftrightarrow> heap_inv s \<and> client_inv s \<and> (armed s \<or> MsgTimerExpire \<in> set (msgq s))"

lemma updateSoonestTime_fields [simp]:
  "mTree (updateSoonestTime p s) = mTree s" "msgq (updateSoonestTime p s) = msgq s"
  "mTimer (updateSoonestTime p s) = mTimer s" "mClient (updateSoonestTime p s) = mClient s"
  "callbacks (updateSoonestTime p s) = callbacks s" "allocated (updateSoonestTime p s) = allocated s"
  "mContainer (updateSoonestTime p s) = mContainer s"
  by (auto simp: updateSoonestTime_def Let_def split: option.splits)

lemma armed_cong:
  "mTree s' = mTree s \<Longrightarrow> timerfd s' = timerfd s \<Longrightarrow> polled s' = polled s \<Longrightarrow> armed s' = armed s"
  by (simp add: armed_def getSoonestTimer_def split: option.split)

lemma heap_inv_cong:
  "mTree s' = mTree s \<Longrightarrow> msgq s' = msgq s \<Longrightarrow> heap_inv s' = heap_inv s"
  by (simp add: heap_inv_def)

lemma client_inv_cong:
  "mTimer s' = mTimer s \<Longrightarrow> mClient s' = mClient s \<Longrightarrow> client_inv s' = client_inv s"
  by (simp add: client_inv_def)

lemma updateSoonestTime_None: "armed (updateSoonestTime None s)"
  by (auto simp: armed_def updateSoonestTime_def getSoonestTimer_def Let_def split: option.splits)

lemma heap_pop_inv:
  assumes "checkNodes delegate_ranks t" "tr.all_ok t" "heap_pop delegate_ranks t = (d, t')"
  shows "checkNodes delegate_ranks t' \<and> tr.all_ok t' \<and>
     (d = None \<longrightarrow> t' = Null) \<and> contents t' \<subseteq># contents t"
proof (cases "t = Null")
  case True
  with assms show ?thesis by (simp add: heap_pop_def)
next
  case False
  with assms have "node_pop delegate_ranks t = (d, t')" by (simp add: heap_pop_def)
  with contents_pop[OF False, of delegate_ranks] tr.checkNodes_pop[OF assms(1,2)] assms(2)
  show ?thesis by (auto simp: tr.all_ok_def)
qed

lemma delegate_expire_msgs: "set (msgq (delegate_expire d s)) \<subseteq> set (msgq s) \<union> range MsgTimerRemove"
  by (auto simp: delegate_expire_def timer_stop_def destroyLocked_def Let_def split: option.splits)

lemma delegate_expire_heap_inv: "heap_inv s \<Longrightarrow> heap_inv (delegate_expire d s)"
  using delegate_expire_msgs[of d s] by (auto simp: heap_inv_def)

lemma popIfOutRanks_inv:
  assumes "heap_inv s" "popIfOutRanks now s = (d, s')" "close_time now"
  shows "heap_inv s' \<and> mTimer s' = mTimer s \<and> mClient s' = mClient s \<and> callbacks s' = callbacks s \<and>
     msgq s' = msgq s \<and> (d = None \<longrightarrow> (\<forall>x \<in># contents (mTree s'). now < mFutureTime x))"
proof (cases "mTree s")
  case Null
  with assms show ?thesis by (auto simp: popIfOutRanks_def)
next
  case (Node n l first r)
  have inv: "checkNodes delegate_ranks (mTree s)" "tr.all_ok (mTree s)" using assms(1) by (auto simp: heap_inv_def)
  show ?thesis
  proof (cases "time_rank now (mFutureTime first) > 0")
    case True
    then have s': "s' = s" "d = None" using assms(2) Node by (auto simp: popIfOutRanks_def)
    have first: "close_time (mFutureTime first)" using inv(2) Node by (simp add: close_del_def)
    have "now < mFutureTime x" if x: "x \<in># contents (mTree s)" for x
    proof -
      have "\<not> mFutureTime x < mFutureTime first"
        using tr.top_outranks[OF inv x] tr.all_okD[OF inv(2) x] inv(2) Node
        by (simp add: delegate_outranks)
      moreover have "now < mFutureTime first" using True time_rank_close[OF assms(3) first] by simp
      ultimately show ?thesis by simp
    qed
    with s' assms(1) show ?thesis by simp
  next
    case False
    then obtain t' where t': "heap_pop delegate_ranks (mTree s) = (d, t')" "s' = s\<lparr>mTree := t'\<rparr>"
      using assms(2) Node by (auto simp: popIfOutRanks_def split: prod.splits)
    then show ?thesis using heap_pop_inv[OF inv t'(1)] assms(1) by (auto simp: heap_inv_def)
  qed
qed

lemma client_invD: "client_inv s \<Longrightarrow> mClient s a = Some c \<Longrightarrow> \<exists>t. mTimer s c = Some (Delegate a t)"
  by (simp add: client_inv_def)

lemma client_inv_stop: "client_inv s \<Longrightarrow> client_inv (snd (timer_stop c s))"
proof (cases "mTimer s c")
  case None
  then show "client_inv s \<Longrightarrow> ?thesis" by (simp add: timer_stop_def)
next
  case (Some d)
  assume inv: "client_inv s"
  let ?s = "snd (timer_stop c s)"
  have s': "mClient ?s = (mClient s)(del_addr d := None)" "mTimer ?s = (mTimer s)(c := None)"
    using Some by (simp_all add: timer_stop_def destroyLocked_def Let_def)
  have "\<exists>t. mTimer ?s c' = Some (Delegate a t)" if a: "mClient ?s a = Some c'" for a c'
  proof -
    have ne: "a \<noteq> del_addr d" and "mClient s a = Some c'" using a s' by (auto split: if_splits)
    then obtain t where t: "mTimer s c' = Some (Delegate a t)" using client_invD[OF inv] by blast
    then have "c' \<noteq> c" using Some ne by auto
    with t s' show ?thesis by simp
  qed
  then show ?thesis by (simp add: client_inv_def)
qed

lemma client_inv_callbacks [simp]: "client_inv (s\<lparr>callbacks := x\<rparr>) = client_inv s"
  by (simp add: client_inv_def)

lemma delegate_expire_client_inv: "client_inv s \<Longrightarrow> client_inv (delegate_expire d s)"
  using client_inv_stop[of s] by (auto simp: delegate_expire_def split: option.splits prod.splits) (metis snd_conv)+

text \<open>What the loop of an expiry leaves: every timer that is left is in the future.\<close>

lemma expire_loop_inv:
  assumes "heap_inv s" "client_inv s" "close_time now"
    "d = None \<Longrightarrow> \<forall>x \<in># contents (mTree s). now < mFutureTime x"
  shows "heap_inv (expire_loop now d s) \<and> client_inv (expire_loop now d s) \<and>
     (\<forall>x \<in># contents (mTree (expire_loop now d s)). now < mFutureTime x)"
  using assms
proof (induction now d s rule: expire_loop.induct)
  case (1 now s)
  then show ?case by simp
next
  case (2 now d s)
  obtain nxt s' where s': "popIfOutRanks now (delegate_expire d s) = (nxt, s')" by fastforce
  have inv: "heap_inv s'" "client_inv s'" "nxt = None \<longrightarrow> (\<forall>x \<in># contents (mTree s'). now < mFutureTime x)"
    using popIfOutRanks_inv[OF delegate_expire_heap_inv[OF 2(2)] s' 2(4)]
      delegate_expire_client_inv[OF 2(3)] by (auto simp: client_inv_def)
  have "expire_loop now (Some d) s = expire_loop now nxt s'" using s' by simp
  with 2(1)[OF s'[symmetric] refl inv(1,2) 2(4)] inv(3) show ?case by simp
qed

section \<open>The invariant is kept\<close>

lemma heap_push_correct:
  assumes "checkNodes delegate_ranks t" "tr.all_ok t" "close_del d"
  shows "checkNodes delegate_ranks (heap_push delegate_ranks d t) \<and>
     tr.all_ok (heap_push delegate_ranks d t)"
proof (cases "t = Null")
  case True
  then show ?thesis using assms by (simp add: heap_push_def new_lhn_def)
next
  case False
  then show ?thesis
    using tr.checkNodes_push[OF assms] assms
    by (auto simp: heap_push_def tr.all_ok_def contents_push)
qed

lemma peek_push:
  "heap_peek (heap_push delegate_ranks d t) =
     (case heap_peek t of None \<Rightarrow> Some d
      | Some e \<Rightarrow> if outRanks delegate_ranks d e then Some d else Some e)"
  by (cases t) (auto simp: heap_push_def heap_peek_def new_lhn_def Let_def)

lemma armed_push:
  assumes "armed s"
  shows "armed (updateSoonestTime (getSoonestTimer s) (s\<lparr>mTree := heap_push delegate_ranks d (mTree s)\<rparr>))"
  using assms tr.rank_irrefl
  by (auto simp: armed_def updateSoonestTime_def getSoonestTimer_def peek_push Let_def split: option.splits)

lemma heap_remove_inv:
  assumes "checkNodes delegate_ranks t" "tr.all_ok t" "heap_remove delegate_ranks d t = (x, t')"
  shows "checkNodes delegate_ranks t' \<and> tr.all_ok t'"
proof (cases "t = Null")
  case True
  with assms show ?thesis by (simp add: heap_remove_def)
next
  case False
  with assms have "node_remove delegate_ranks d t = (x, t')" by (simp add: heap_remove_def)
  with tr.remove_correct[OF assms(1,2), of d] assms(1,2) show ?thesis
    by (cases x) (auto simp: tr.all_ok_def)
qed

text \<open>Removing something else than the top leaves the top in place.\<close>

lemma peek_remove:
  assumes "heap_remove delegate_ranks d t = (x, t')" "heap_peek t \<noteq> x" "checkNodes delegate_ranks t" "tr.all_ok t"
  shows "heap_peek t' = heap_peek t"
proof (cases t)
  case Null
  with assms show ?thesis by (simp add: heap_remove_def)
next
  case (Node n l first r)
  show ?thesis
  proof (cases "d = first")
    case True
    then have "fst (node_pop delegate_ranks t) = x" using assms(1) Node by (simp add: heap_remove_def)
    then show ?thesis using contents_pop[of t delegate_ranks] Node assms(2) by (simp add: heap_peek_def)
  next
    case False
    then show ?thesis
      using assms(1) Node by (auto simp: heap_remove_def heap_peek_def split_beta Let_def split: if_splits)
  qed
qed

lemma timers_inv_push:
  assumes "timers_inv s" "msgq s = MsgTimerPush d # ms"
  shows "timers_inv (proc_push d (s\<lparr>msgq := ms\<rparr>))"
proof -
  have d: "close_del d" and h: "heap_inv s" using assms by (auto simp: timers_inv_def heap_inv_def)
  have "armed (proc_push d (s\<lparr>msgq := ms\<rparr>))" if "armed s"
    using armed_push[of "s\<lparr>msgq := ms\<rparr>" d] that armed_cong[of "s\<lparr>msgq := ms\<rparr>" s]
    by (simp add: proc_push_def Let_def)
  with assms h heap_push_correct[of "mTree s" d] d show ?thesis
    by (auto simp: timers_inv_def heap_inv_def client_inv_def proc_push_def Let_def)
qed

lemma proc_remove_fields [simp]:
  "msgq (proc_remove d s) = msgq s" "mTimer (proc_remove d s) = mTimer s"
  "mClient (proc_remove d s) = mClient s" "callbacks (proc_remove d s) = callbacks s"
  "mContainer (proc_remove d s) = mContainer s"
  "mTree (proc_remove d s) = snd (heap_remove delegate_ranks d (mTree s))"
  "allocated (proc_remove d s) = remove1 (del_addr d) (allocated s)"
  by (simp_all add: proc_remove_def Let_def split_beta)

lemma armed_remove:
  assumes "heap_inv s" "armed s"
  shows "armed (proc_remove d s)"
proof -
  obtain x t' where rm: "heap_remove delegate_ranks d (mTree s) = (x, t')" by fastforce
  let ?s = "s\<lparr>mTree := t'\<rparr>"
  have eq: "armed (proc_remove d s) =
      armed (if heap_peek (mTree s) = x then updateSoonestTime None ?s else ?s)"
    by (intro armed_cong) (simp_all add: proc_remove_def rm getSoonestTimer_def Let_def)
  show ?thesis
  proof (cases "heap_peek (mTree s) = x")
    case True
    then show ?thesis using eq updateSoonestTime_None by simp
  next
    case False
    have "heap_peek t' = heap_peek (mTree s)"
      using peek_remove[OF rm False] assms(1) by (simp add: heap_inv_def)
    then have "armed ?s = armed s" by (simp add: armed_def getSoonestTimer_def split: option.split)
    with False eq assms(2) show ?thesis by simp
  qed
qed

lemma timers_inv_remove:
  assumes "timers_inv s" "msgq s = MsgTimerRemove d # ms"
  shows "timers_inv (proc_remove d (s\<lparr>msgq := ms\<rparr>))"
proof -
  have h: "heap_inv (s\<lparr>msgq := ms\<rparr>)" using assms by (auto simp: timers_inv_def heap_inv_def)
  have "armed (proc_remove d (s\<lparr>msgq := ms\<rparr>))" if "armed s"
    using armed_remove[OF h] that armed_cong[of "s\<lparr>msgq := ms\<rparr>" s] by simp
  with assms h heap_remove_inv[of "mTree s" d] show ?thesis
    by (auto simp: timers_inv_def heap_inv_def client_inv_def prod_eq_iff)
qed

lemma timers_inv_expire:
  assumes "timers_inv s" "msgq s = MsgTimerExpire # ms" "close_time now"
  shows "timers_inv (proc_expire now (s\<lparr>msgq := ms\<rparr>)) \<and>
     (\<forall>x \<in># contents (mTree (proc_expire now (s\<lparr>msgq := ms\<rparr>))). now < mFutureTime x)"
proof -
  obtain d t' where pop: "heap_pop delegate_ranks (mTree s) = (d, t')" by fastforce
  let ?s = "s\<lparr>msgq := ms, mTree := t'\<rparr>"
  have h: "checkNodes delegate_ranks (mTree s)" "tr.all_ok (mTree s)"
    using assms by (auto simp: timers_inv_def heap_inv_def)
  have "heap_inv ?s" "client_inv ?s" "d = None \<Longrightarrow> \<forall>x \<in># contents (mTree ?s). now < mFutureTime x"
    using heap_pop_inv[OF h pop] assms by (auto simp: timers_inv_def heap_inv_def client_inv_def)
  from expire_loop_inv[OF this(1,2) assms(3) this(3)] show ?thesis
    using updateSoonestTime_None
    by (simp add: proc_expire_def pop timers_inv_def heap_inv_def client_inv_def)
qed

lemma timers_inv_step: "ltc_step s s' \<Longrightarrow> timers_inv s \<Longrightarrow> timers_inv s'"
proof (induction rule: ltc_step.induct)
  case (tick s t)
  have "armed (s\<lparr>clock := t\<rparr>) = armed s" by (rule armed_cong) simp_all
  with tick show ?case by (simp add: timers_inv_def heap_inv_def client_inv_def)
next
  case (start addr s now ms container c)
  show ?case
  proof (cases "mTimer s c")
    case None
    let ?d = "Delegate addr (future_time now ms)" and ?s = "snd (timer_start container c ms now addr s)"
    have ne: "mClient s a \<noteq> Some c" for a
      using None start.prems by (auto simp: timers_inv_def dest: client_invD)
    have "armed ?s = armed s" by (rule armed_cong) (simp_all add: timer_start_def Let_def)
    moreover have "heap_inv ?s"
      using start by (auto simp: timer_start_def Let_def timers_inv_def heap_inv_def close_del_def)
    moreover have "client_inv ?s"
      using None start.prems ne by (auto simp: timer_start_def Let_def timers_inv_def client_inv_def)
    ultimately show ?thesis using start.prems by (auto simp: timer_start_def Let_def timers_inv_def)
  next
    case (Some d)
    with start show ?thesis by (simp add: timer_start_def)
  qed
next
  case (stop s c)
  then have "client_inv (snd (timer_stop c s))" by (intro client_inv_stop) (simp add: timers_inv_def)
  moreover have "armed (snd (timer_stop c s)) = armed s"
    by (rule armed_cong) (simp_all add: timer_stop_def destroyLocked_def Let_def split: option.splits)
  ultimately show ?case using stop
    by (cases "mTimer s c") (auto simp: timer_stop_def destroyLocked_def Let_def timers_inv_def heap_inv_def)
next
  case (fire s t)
  then show ?case by (auto simp: container_expire_def timers_inv_def heap_inv_def client_inv_def)
next
  case (push s d ms)
  then show ?case using timers_inv_push by blast
next
  case (remove s d ms)
  then show ?case using timers_inv_remove by blast
next
  case (expire s ms now)
  then show ?case using timers_inv_expire by blast
qed

lemma timers_inv_reachable: "ltc_reachable s \<Longrightarrow> timers_inv s"
proof (induction rule: ltc_reachable.induct)
  case init
  then show ?case
    by (simp add: ltc_init_def timers_inv_def heap_inv_def client_inv_def armed_def getSoonestTimer_def
        heap_peek_def)
next
  case (step s s')
  then show ?case using timers_inv_step by blast
qed

section \<open>No delegate is used after it is freed, freed twice, leaked or lost\<close>

fun pushes :: "tmsg list \<Rightarrow> tdel list" where
  "pushes [] = []"
| "pushes (m # ms) = (case m of MsgTimerPush d \<Rightarrow> d # pushes ms | _ \<Rightarrow> pushes ms)"

fun removes :: "tmsg list \<Rightarrow> tdel list" where
  "removes [] = []"
| "removes (m # ms) = (case m of MsgTimerRemove d \<Rightarrow> d # removes ms | _ \<Rightarrow> removes ms)"

text \<open>A delegate that is to be freed is not pushed after that.\<close>

fun push_first :: "tmsg list \<Rightarrow> bool" where
  "push_first [] = True"
| "push_first (m # ms) \<longleftrightarrow> push_first ms \<and>
     (case m of MsgTimerRemove d \<Rightarrow> d \<notin> set (pushes ms) | _ \<Rightarrow> True)"

text \<open>
  The delegates that wait for their time: on their way to the heap, in the heap, or just
  popped by the loop of an expiry; and all that the state refers to.
\<close>

definition ticking :: "tdel option \<Rightarrow> ltc \<Rightarrow> tdel multiset" where
  "ticking popped s = mset (pushes (msgq s)) + contents (mTree s) +
     (case popped of None \<Rightarrow> {#} | Some d \<Rightarrow> {#d#})"

definition mentioned :: "tdel option \<Rightarrow> ltc \<Rightarrow> tdel set" where
  "mentioned popped s = set_mset (ticking popped s) \<union> set (removes (msgq s)) \<union> ran (mTimer s)"

definition owned_inv :: "tdel option \<Rightarrow> ltc \<Rightarrow> bool" where
  "owned_inv popped s \<longleftrightarrow> (\<forall>c d. mTimer s c = Some d \<longrightarrow>
     mClient s (del_addr d) = Some c \<and> mContainer s (del_addr d) \<and> d \<notin> set (removes (msgq s)) \<and>
     d \<in># ticking popped s)"

definition freed_inv :: "ltc \<Rightarrow> bool" where
  "freed_inv s \<longleftrightarrow> distinct (allocated s) \<and> distinct (removes (msgq s)) \<and> push_first (msgq s) \<and>
     set (allocated s) = del_addr ` (ran (mTimer s) \<union> set (removes (msgq s)))"

definition mem_inv :: "tdel option \<Rightarrow> ltc \<Rightarrow> bool" where
  "mem_inv popped s \<longleftrightarrow> inj_on del_addr (mentioned popped s) \<and>
     (\<forall>d. count (ticking popped s) d \<le> 1) \<and>
     del_addr ` mentioned popped s \<subseteq> set (allocated s) \<and>
     owned_inv popped s \<and> freed_inv s"

lemma queue_append [simp]:
  "pushes (ms @ ms') = pushes ms @ pushes ms'" "removes (ms @ ms') = removes ms @ removes ms'"
  by (induction ms) (auto split: tmsg.splits)

lemma push_first_append:
  "push_first (ms @ [m]) \<longleftrightarrow> push_first ms \<and> (\<forall>d. m = MsgTimerPush d \<longrightarrow> d \<notin> set (removes ms))"
  by (induction ms) (auto split: tmsg.splits)

lemma ran_upd: "m c = None \<Longrightarrow> ran (m(c := Some d)) = insert d (ran m)"
  by (auto simp: ran_def) (metis option.distinct(1))

lemma ran_drop: "m c = Some d \<Longrightarrow> ran m = insert d (ran (m(c := None)))"
  by (auto simp: ran_def intro: exI[of _ c]) (metis option.inject)

lemma mem_inv_cong:
  "ticking po' s' = ticking po s \<Longrightarrow> mTimer s' = mTimer s \<Longrightarrow> mClient s' = mClient s \<Longrightarrow> mContainer s' = mContainer s \<Longrightarrow>
   removes (msgq s') = removes (msgq s) \<Longrightarrow> push_first (msgq s') = push_first (msgq s) \<Longrightarrow>
   allocated s' = allocated s \<Longrightarrow> mem_inv po' s' = mem_inv po s"
  unfolding mem_inv_def owned_inv_def freed_inv_def mentioned_def by presburger

text \<open>A timer is started.\<close>

lemma mem_inv_start:
  assumes "mem_inv None s" "addr \<notin> set (allocated s)"
  shows "mem_inv None (snd (timer_start container c ms now addr s))"
proof (cases "mTimer s c = None \<and> container")
  case False
  then have "snd (timer_start container c ms now addr s) = s" by (auto simp: timer_start_def Let_def)
  with assms(1) show ?thesis by simp
next
  case True
  then have None: "mTimer s c = None" and container: "container" by auto
  let ?d = "Delegate addr (future_time now ms)" and ?s = "snd (timer_start container c ms now addr s)"
  have new: "addr \<notin> del_addr ` mentioned None s" using assms by (auto simp: mem_inv_def)
  then have d: "?d \<notin> mentioned None s" by force
  then have c0: "count (ticking None s) ?d = 0" by (simp add: mentioned_def not_in_iff)
  have s': "mTree ?s = mTree s" "msgq ?s = msgq s @ [MsgTimerPush ?d]" "allocated ?s = addr # allocated s"
    "mTimer ?s = (mTimer s)(c := Some ?d)" "mClient ?s = (mClient s)(addr := Some c)"
    "mContainer ?s = (mContainer s)(addr := True)"
    using None container by (simp_all add: timer_start_def Let_def)
  have t: "ticking None ?s = add_mset ?d (ticking None s)" using s' by (simp add: ticking_def)
  have m: "mentioned None ?s = insert ?d (mentioned None s)"
    using None by (auto simp: mentioned_def t s' ran_upd)
  have "owned_inv None ?s"
    using assms(1) new d by (auto simp: mem_inv_def owned_inv_def s' t mentioned_def ran_def)
  moreover have "freed_inv ?s"
    using assms None d by (auto simp: mem_inv_def freed_inv_def s' push_first_append mentioned_def ran_upd)
  ultimately show ?thesis
    using assms(1) new c0 unfolding mem_inv_def m t s' by auto
qed

text \<open>A timer is stopped.\<close>

lemma mem_inv_stop:
  assumes "mem_inv po s"
  shows "mem_inv po (snd (timer_stop c s))"
proof (cases "mTimer s c")
  case None
  with assms show ?thesis by (simp add: timer_stop_def)
next
  case (Some d)
  let ?s = "snd (timer_stop c s)"
  have own: "mClient s (del_addr e) = Some c' \<and> mContainer s (del_addr e) \<and> e \<notin> set (removes (msgq s)) \<and> e \<in># ticking po s"
    if "mTimer s c' = Some e" for c' e
    using assms that by (simp add: mem_inv_def owned_inv_def)
  have s': "mTree ?s = mTree s" "msgq ?s = msgq s @ [MsgTimerRemove d]" "allocated ?s = allocated s"
    "mTimer ?s = (mTimer s)(c := None)" "mClient ?s = (mClient s)(del_addr d := None)"
    "mContainer ?s = (mContainer s)(del_addr d := False)"
    using Some own[OF Some] by (simp_all add: timer_stop_def destroyLocked_def Let_def)
  have t: "ticking po ?s = ticking po s" using s' by (simp add: ticking_def)
  have r: "ran (mTimer s) = insert d (ran ((mTimer s)(c := None)))"
    using Some by (rule ran_drop)
  then have m: "mentioned po ?s = mentioned po s"
    by (auto simp: mentioned_def t s')
  have "owned_inv po ?s"
    using own own[OF Some] by (auto simp: owned_inv_def s' t) (metis option.inject)+
  moreover have "freed_inv ?s"
    using assms own[OF Some] r by (auto simp: mem_inv_def freed_inv_def s' push_first_append)
  ultimately show ?thesis using assms by (simp add: mem_inv_def m t s')
qed

text \<open>The popped delegate expires: no client refers to it any more.\<close>

lemma mem_inv_drop:
  assumes "mem_inv (Some d) s" "d \<notin> ran (mTimer s)"
  shows "mem_inv None s"
proof -
  have t: "ticking (Some d) s = add_mset d (ticking None s)" by (simp add: ticking_def)
  have m: "mentioned (Some d) s = insert d (mentioned None s)" by (auto simp: mentioned_def t)
  have c: "count (ticking None s) e \<le> 1" for e
  proof -
    have "count (add_mset d (ticking None s)) e \<le> 1" using assms(1) unfolding mem_inv_def t by blast
    then show ?thesis by (simp split: if_splits)
  qed
  have "e \<in># ticking None s" if "mTimer s ca = Some e" "e \<in># ticking (Some d) s" for ca e
  proof -
    have "e \<noteq> d" using that(1) assms(2) ranI by fastforce
    with that(2) show ?thesis by (simp add: t)
  qed
  with assms(1) have "owned_inv None s" unfolding mem_inv_def owned_inv_def by blast
  moreover have "inj_on del_addr (mentioned None s)" "del_addr ` mentioned None s \<subseteq> set (allocated s)"
    using assms(1) by (auto simp: mem_inv_def m)
  ultimately show ?thesis using assms(1) c unfolding mem_inv_def by blast
qed

lemma mem_inv_delegate_expire:
  assumes "mem_inv (Some d) s" "client_inv s"
  shows "mem_inv None (delegate_expire d s)"
proof (cases "mClient s (del_addr d)")
  case None
  then have "d \<notin> ran (mTimer s)" using assms(1) by (auto simp: mem_inv_def owned_inv_def ran_def)
  with None assms(1) mem_inv_drop show ?thesis by (simp add: delegate_expire_def)
next
  case (Some c)
  then obtain t where c: "mTimer s c = Some (Delegate (del_addr d) t)" using client_invD[OF assms(2)] by blast
  let ?s = "snd (timer_stop c s)"
  have inv: "mem_inv (Some d) ?s" using mem_inv_stop[OF assms(1)] .
  have "mClient ?s (del_addr d) = None" using c by (simp add: timer_stop_def destroyLocked_def Let_def)
  then have "d \<notin> ran (mTimer ?s)" using inv by (auto simp: mem_inv_def owned_inv_def ran_def)
  from mem_inv_drop[OF inv this] have "mem_inv None (?s\<lparr>callbacks := x\<rparr>)" for x
    by (subst mem_inv_cong[where s = ?s and po = None]) (simp_all add: ticking_def)
  then show ?thesis using Some c by (auto simp: delegate_expire_def timer_stop_def)
qed

lemma mem_inv_pop:
  assumes "mem_inv None s" "heap_pop delegate_ranks (mTree s) = (po, t')"
  shows "mem_inv po (s\<lparr>mTree := t'\<rparr>)"
proof -
  have "contents (mTree s) = contents t' + (case po of None \<Rightarrow> {#} | Some d \<Rightarrow> {#d#})"
    using assms(2) contents_pop[of "mTree s" delegate_ranks]
    by (cases "mTree s = Null") (auto simp: heap_pop_def)
  then have "ticking po (s\<lparr>mTree := t'\<rparr>) = ticking None s" by (simp add: ticking_def)
  with assms(1) show ?thesis by (subst mem_inv_cong[where s = s and po = None]) simp_all
qed

lemma mem_inv_popIfOutRanks:
  assumes "mem_inv None s" "popIfOutRanks now s = (po, s')"
  shows "mem_inv po s'"
  using assms mem_inv_pop[OF assms(1)]
  by (auto simp: popIfOutRanks_def split: lhn.splits if_splits prod.splits)

lemma mem_inv_expire_loop:
  assumes "mem_inv po s" "client_inv s"
  shows "mem_inv None (expire_loop now po s)"
  using assms
proof (induction now po s rule: expire_loop.induct)
  case (1 now s)
  then show ?case by simp
next
  case (2 now d s)
  obtain nxt s' where s': "popIfOutRanks now (delegate_expire d s) = (nxt, s')" by fastforce
  have "client_inv s'" using s' delegate_expire_client_inv[OF 2(3), of d] 
    by (auto simp: popIfOutRanks_def client_inv_def split: lhn.splits if_splits prod.splits)
  moreover have "mem_inv nxt s'" using mem_inv_popIfOutRanks[OF mem_inv_delegate_expire[OF 2(2,3)] s'] .
  ultimately show ?case using 2(1)[OF s'[symmetric] refl] s' by simp
qed

text \<open>The message thread.\<close>

lemma mem_inv_push:
  assumes "mem_inv None s" "msgq s = MsgTimerPush d # ms"
  shows "mem_inv None (proc_push d (s\<lparr>msgq := ms\<rparr>))"
proof -
  have "contents (heap_push delegate_ranks d (mTree s)) = add_mset d (contents (mTree s))"
    by (simp add: heap_push_def new_lhn_def contents_push)
  with assms show ?thesis
    by (subst mem_inv_cong[where s = s and po = None])
       (simp_all add: proc_push_def Let_def ticking_def)
qed

lemma mem_inv_remove:
  assumes "mem_inv None s" "heap_inv s" "msgq s = MsgTimerRemove d # ms"
  shows "mem_inv None (proc_remove d (s\<lparr>msgq := ms\<rparr>))"
proof -
  let ?s = "proc_remove d (s\<lparr>msgq := ms\<rparr>)"
  obtain x t' where rm: "node_remove delegate_ranks d (mTree s) = (x, t')" by fastforce
  then have "heap_remove delegate_ranks d (mTree s) = (x, t')" by (auto simp: heap_remove_def)
  then have s': "mTree ?s = t'" "msgq ?s = ms" "allocated ?s = remove1 (del_addr d) (allocated s)"
    "mTimer ?s = mTimer s" "mClient ?s = mClient s" by simp_all
  have d: "d \<notin> set (pushes ms)" "d \<notin> set (removes ms)" "d \<notin> ran (mTimer s)"
    using assms(1,3) by (auto simp: mem_inv_def freed_inv_def owned_inv_def ran_def)
  have "contents (mTree s) = contents t' \<and> d \<notin># contents (mTree s) \<or>
      contents (mTree s) = add_mset d (contents t')"
    using tr.remove_correct[of "mTree s" d] assms(2) rm by (cases x) (auto simp: heap_inv_def)
  then have t: "ticking None s = ticking None ?s \<and> d \<notin># ticking None ?s \<or>
      ticking None s = add_mset d (ticking None ?s)"
    using assms(3) d(1) s' by (auto simp: ticking_def)
  have cnt: "count (ticking None s) e \<le> 1" for e using assms(1) by (simp add: mem_inv_def)
  have t': "d \<notin># ticking None ?s" "\<And>e. count (ticking None ?s) e \<le> count (ticking None s) e"
    "\<And>e. e \<noteq> d \<Longrightarrow> (e \<in># ticking None ?s) = (e \<in># ticking None s)"
    using t cnt[of d] by (auto simp: not_in_iff)
  have m: "mentioned None ?s \<union> {d} = mentioned None s" "d \<notin> mentioned None ?s"
    using t' t d assms(3) s' by (auto simp: mentioned_def)
  have inj: "inj_on del_addr (mentioned None s)" using assms(1) by (simp add: mem_inv_def)
  have "freed_inv s" using assms(1) by (simp add: mem_inv_def)
  moreover have "del_addr d \<notin> del_addr ` (ran (mTimer s) \<union> set (removes ms))"
    using inj d m by (auto simp: mentioned_def s' inj_on_def)
  ultimately have "freed_inv ?s" using assms(3) by (auto simp: freed_inv_def s')
  moreover have "owned_inv None ?s"
    using assms(1,3) d(3) t'(3) by (auto simp: mem_inv_def owned_inv_def s' ran_def)
  moreover have "del_addr ` mentioned None ?s \<subseteq> set (allocated ?s)"
  proof -
    have "del_addr e \<in> set (allocated s) - {del_addr d}" if "e \<in> mentioned None ?s" for e
    proof -
      have "e \<in> mentioned None s" "d \<in> mentioned None s" "e \<noteq> d" using that m by auto
      with inj assms(1) show ?thesis by (auto simp: mem_inv_def inj_on_def)
    qed
    then have "del_addr ` mentioned None ?s \<subseteq> set (allocated s) - {del_addr d}" by (intro image_subsetI)
    then show ?thesis using \<open>freed_inv s\<close> by (simp add: s' freed_inv_def)
  qed
  moreover have "inj_on del_addr (mentioned None ?s)" using inj m(1) by (metis Un_upper1 inj_on_subset)
  moreover have "count (ticking None ?s) e \<le> 1" for e using t'(2)[of e] cnt[of e] by linarith
  ultimately show ?thesis unfolding mem_inv_def by simp
qed

lemma mem_inv_expire:
  assumes "mem_inv None s" "client_inv s" "msgq s = MsgTimerExpire # ms"
  shows "mem_inv None (proc_expire now (s\<lparr>msgq := ms\<rparr>))"
proof -
  let ?q = "s\<lparr>msgq := ms\<rparr>"
  obtain po t' where pop: "heap_pop delegate_ranks (mTree s) = (po, t')" by fastforce
  have "mem_inv None ?q"
    using assms(1,3) by (subst mem_inv_cong[where s = s and po = None]) (simp_all add: ticking_def)
  from mem_inv_pop[OF this] pop have "mem_inv po (?q\<lparr>mTree := t'\<rparr>)" by simp
  from mem_inv_expire_loop[OF this] assms(2)
  have "mem_inv None (expire_loop now po (?q\<lparr>mTree := t'\<rparr>))" by (simp add: client_inv_def)
  then show ?thesis
    by (subst mem_inv_cong[where s = "expire_loop now po (?q\<lparr>mTree := t'\<rparr>)" and po = None])
       (simp_all add: proc_expire_def pop ticking_def)
qed

lemma mem_inv_step: "ltc_step s s' \<Longrightarrow> mem_inv None s \<Longrightarrow> timers_inv s \<Longrightarrow> mem_inv None s'"
proof (induction rule: ltc_step.induct)
  case (tick s t)
  then show ?case by (subst mem_inv_cong[where s = s and po = None]) (simp_all add: ticking_def)
next
  case (fire s t)
  then show ?case
    by (subst mem_inv_cong[where s = s and po = None])
       (simp_all add: container_expire_def ticking_def push_first_append)
qed (simp_all add: mem_inv_start mem_inv_stop mem_inv_push mem_inv_remove mem_inv_expire timers_inv_def)

lemma mem_inv_reachable: "ltc_reachable s \<Longrightarrow> mem_inv None s"
proof (induction rule: ltc_reachable.induct)
  case init
  then show ?case
    by (simp add: ltc_init_def mem_inv_def owned_inv_def freed_inv_def mentioned_def ticking_def)
next
  case (step s s')
  then show ?case using mem_inv_step timers_inv_reachable by blast
qed

section \<open>Whom an expiry calls\<close>

definition due :: "ltc \<Rightarrow> ptr \<Rightarrow> timespec" where
  "due s c = mFutureTime (the (mTimer s c))"

text \<open>
  What one expiry does to the clients when the timers \<open>ds\<close> run out: exactly those whose timer is among
  \<open>ds\<close> are called, once each and by their times (the list has the newest first), and lose their timers; the others keep theirs.
\<close>

definition called :: "tdel set \<Rightarrow> ltc \<Rightarrow> ltc \<Rightarrow> ptr list \<Rightarrow> bool" where
  "called ds s s' cs \<longleftrightarrow> callbacks s' = cs @ callbacks s \<and> distinct cs \<and>
     set cs = {c. \<exists>d \<in> ds. mTimer s c = Some d} \<and>
     mTimer s' = (\<lambda>c. if c \<in> set cs then None else mTimer s c) \<and>
     sorted_wrt (\<lambda>c c'. due s c' \<le> due s c) cs"

lemma called_refl: "callbacks s' = callbacks s \<Longrightarrow> mTimer s' = mTimer s \<Longrightarrow> called {} s s' []"
  by (simp add: called_def)

lemma called_cong:
  "callbacks s1 = callbacks s \<Longrightarrow> mTimer s1 = mTimer s \<Longrightarrow> called ds s1 s' cs = called ds s s' cs"
  by (simp add: called_def due_def[abs_def] cong: if_cong)

lemma called_unowned: "called ds s s' cs \<Longrightarrow> \<forall>c. mTimer s c \<noteq> Some d \<Longrightarrow> called (insert d ds) s s' cs"
  by (auto simp: called_def)

lemma called_first:
  assumes "called ds s1 s' cs" "mTimer s c = Some d" "\<And>c'. mTimer s c' = Some d \<Longrightarrow> c' = c" "mTimer s1 = (mTimer s)(c := None)"
    "callbacks s1 = c # callbacks s" "\<And>e. e \<in> ds \<Longrightarrow> mFutureTime d \<le> mFutureTime e"
  shows "called (insert d ds) s s' (cs @ [c])"
proof -
  have cs: "set cs = {c'. \<exists>e \<in> ds. mTimer s1 c' = Some e}" using assms(1) by (simp add: called_def)
  then have c: "c \<notin> set cs" using assms(4) by simp
  have due: "due s c' = due s1 c'" "mFutureTime d \<le> due s1 c'" if "c' \<in> set cs" for c'
    using that cs c assms(4,6) by (auto simp: due_def split: if_splits)
  have "sorted_wrt (\<lambda>c c'. due s c' \<le> due s c) cs"
    using assms(1) by (auto simp: called_def due intro: sorted_wrt_mono_rel[rotated])
  moreover have "due s c \<le> due s c'" if "c' \<in> set cs" for c'
    using due[OF that] assms(2) by (simp add: due_def)
  moreover have "set (cs @ [c]) = {c'. \<exists>e \<in> insert d ds. mTimer s c' = Some e}"
  proof -
    have "c' \<in> set cs \<longleftrightarrow> (\<exists>e \<in> ds. mTimer s c' = Some e)" if "c' \<noteq> c" for c' using cs assms(4) that by simp
    moreover have "mTimer s c' \<noteq> Some d" if "c' \<noteq> c" for c' using assms(3) that by blast
    ultimately have "c' \<in> set (cs @ [c]) \<longleftrightarrow> (\<exists>e \<in> insert d ds. mTimer s c' = Some e)" for c'
      using assms(2) by (cases "c' = c") simp_all
    then show ?thesis by blast
  qed
  moreover have "mTimer s' = (\<lambda>c'. if c' \<in> set (cs @ [c]) then None else mTimer s c')"
  proof -
    have "mTimer s' = (\<lambda>c'. if c' \<in> set cs then None else mTimer s1 c')" using assms(1) unfolding called_def by blast
    then show ?thesis using assms(4) by (intro ext) simp
  qed
  moreover have "callbacks s' = (cs @ [c]) @ callbacks s" "distinct (cs @ [c])"
    using assms(1,5) c by (auto simp: called_def)
  ultimately show ?thesis unfolding called_def by (simp add: sorted_wrt_append)
qed

lemma pop_soonest:
  assumes "checkNodes delegate_ranks t" "tr.all_ok t" "heap_pop delegate_ranks t = (Some d, t')"
  shows "contents t = add_mset d (contents t') \<and> (\<forall>e \<in># contents t'. mFutureTime d \<le> mFutureTime e)"
proof -
  have ne: "t \<noteq> Null" and t': "d = mData t" "contents t = add_mset d (contents t')"
    using assms(3) contents_pop[of t delegate_ranks] by (auto simp: heap_pop_def split: if_splits)
  have "mFutureTime d \<le> mFutureTime e" if "e \<in># contents t'" for e
    using tr.top_outranks[OF assms(1,2), of e] tr.all_okD[OF assms(2), of e] tr.all_ok_mData[OF assms(2) ne]
      that t' by (simp add: delegate_outranks not_less)
  with t'(2) show ?thesis by blast
qed

lemma popIfOutRanks_due:
  assumes "heap_inv s" "popIfOutRanks now s = (Some d, s')" "close_time now"
  shows "contents (mTree s) = add_mset d (contents (mTree s'))" "mFutureTime d \<le> now"
    "\<forall>e \<in># contents (mTree s'). mFutureTime d \<le> mFutureTime e"
proof -
  obtain n l first r where t: "mTree s = Node n l first r" "\<not> time_rank now (mFutureTime first) > 0"
    "heap_pop delegate_ranks (mTree s) = (Some d, mTree s')"
    using assms(2) by (auto simp: popIfOutRanks_def split: lhn.splits if_splits prod.splits)
  have inv: "checkNodes delegate_ranks (mTree s)" "tr.all_ok (mTree s)" using assms(1) by (auto simp: heap_inv_def)
  show "contents (mTree s) = add_mset d (contents (mTree s'))" "\<forall>e \<in># contents (mTree s'). mFutureTime d \<le> mFutureTime e"
    using pop_soonest[OF inv t(3)] by blast+
  have "d = first" using t(1,3) contents_pop[of "mTree s" delegate_ranks] by (simp add: heap_pop_def)
  moreover have "close_time (mFutureTime first)" using inv(2) t(1) by (simp add: close_del_def)
  ultimately show "mFutureTime d \<le> now" using t(2) assms(3) by (simp add: time_rank_close not_less)
qed

lemma popIfOutRanks_none: "popIfOutRanks now s = (None, s') \<Longrightarrow> contents (mTree s') = contents (mTree s)"
  using contents_pop[of "mTree s" delegate_ranks]
  by (auto simp: popIfOutRanks_def heap_pop_def split: lhn.splits if_splits prod.splits)

lemma mem_inv_owner: "mem_inv po s \<Longrightarrow> mTimer s c = Some d \<Longrightarrow> mClient s (del_addr d) = Some c"
  by (simp add: mem_inv_def owned_inv_def)

lemma delegate_expire_called:
  assumes "mem_inv (Some d) s" "client_inv s"
  shows "mTimer (delegate_expire d s) = mTimer s \<and> callbacks (delegate_expire d s) = callbacks s \<and> (\<forall>c. mTimer s c \<noteq> Some d) \<or>
     (\<exists>c. mTimer s c = Some d \<and> mTimer (delegate_expire d s) = (mTimer s)(c := None) \<and>
       callbacks (delegate_expire d s) = c # callbacks s)"
proof (cases "mClient s (del_addr d)")
  case None
  then show ?thesis using mem_inv_owner[OF assms(1), of _ d] by (auto simp: delegate_expire_def)
next
  case (Some c)
  then obtain t where c: "mTimer s c = Some (Delegate (del_addr d) t)" using client_invD[OF assms(2)] by blast
  have "d \<in> mentioned (Some d) s" "Delegate (del_addr d) t \<in> mentioned (Some d) s"
    using c by (auto simp: mentioned_def ticking_def ran_def)
  then have "Delegate (del_addr d) t = d" using assms(1) by (auto simp: mem_inv_def inj_on_def)
  with c Some show ?thesis by (auto simp: delegate_expire_def timer_stop_def destroyLocked_def Let_def)
qed

text \<open>The timers that run out when \<open>po\<close> was popped.\<close>

definition over :: "timespec \<Rightarrow> tdel option \<Rightarrow> ltc \<Rightarrow> tdel set" where
  "over now po s = set_option po \<union> {e. e \<in># contents (mTree s) \<and> mFutureTime e \<le> now}"

lemma over_pop:
  assumes "heap_inv s" "popIfOutRanks now s = (nxt, s')" "close_time now"
  shows "over now nxt s' = {e. e \<in># contents (mTree s) \<and> mFutureTime e \<le> now}"
    "nxt = Some d \<Longrightarrow> e \<in># contents (mTree s') \<Longrightarrow> mFutureTime d \<le> mFutureTime e"
    "nxt = None \<Longrightarrow> e \<in># contents (mTree s') \<Longrightarrow> now < mFutureTime e"
proof -
  show "over now nxt s' = {e. e \<in># contents (mTree s) \<and> mFutureTime e \<le> now}"
  proof (cases nxt)
    case None
    then show ?thesis using popIfOutRanks_none assms(2) by (simp add: over_def)
  next
    case (Some d)
    then show ?thesis using popIfOutRanks_due[OF assms(1) _ assms(3), of d s'] assms(2) by (auto simp: over_def)
  qed
  show "nxt = Some d \<Longrightarrow> e \<in># contents (mTree s') \<Longrightarrow> mFutureTime d \<le> mFutureTime e"
    using popIfOutRanks_due(3)[OF assms(1) _ assms(3), of d s'] assms(2) by simp
  show "nxt = None \<Longrightarrow> e \<in># contents (mTree s') \<Longrightarrow> now < mFutureTime e"
    using popIfOutRanks_inv[OF assms] by blast
qed

lemma expire_loop_called:
  assumes "heap_inv s" "client_inv s" "mem_inv po s" "close_time now"
    "\<And>d e. po = Some d \<Longrightarrow> e \<in># contents (mTree s) \<Longrightarrow> mFutureTime d \<le> mFutureTime e"
    "\<And>e. po = None \<Longrightarrow> e \<in># contents (mTree s) \<Longrightarrow> now < mFutureTime e"
  shows "\<exists>cs. called (over now po s) s (expire_loop now po s) cs"
  using assms
proof (induction now po s rule: expire_loop.induct)
  case (1 now s)
  have "over now None s = {}" using "1.prems"(6) by (force simp: over_def)
  then show ?case using called_refl[of s s] by auto
next
  case (2 now d s)
  let ?s1 = "delegate_expire d s"
  obtain nxt s' where s': "popIfOutRanks now ?s1 = (nxt, s')" by fastforce
  have h: "heap_inv ?s1" using delegate_expire_heap_inv 2(2) .
  have same: "mTimer s' = mTimer ?s1" "mClient s' = mClient ?s1" "callbacks s' = callbacks ?s1" "heap_inv s'"
    using popIfOutRanks_inv[OF h s' 2(5)] by auto
  have c: "client_inv s'" using delegate_expire_client_inv[OF 2(3), of d] same by (simp add: client_inv_def)
  have m: "mem_inv nxt s'"
    using mem_inv_popIfOutRanks[OF mem_inv_delegate_expire[OF 2(4,3)] s'] .
  note pop = over_pop[OF h s' 2(5)]
  obtain cs where "called (over now nxt s') s' (expire_loop now nxt s') cs"
    using 2(1)[OF s'[symmetric] refl same(4) c m 2(5) pop(2,3)] by blast
  then have IH: "called {e. e \<in># contents (mTree s) \<and> mFutureTime e \<le> now} ?s1 (expire_loop now nxt s') cs"
    using pop(1) called_cong[OF same(3,1)] by simp
  have eq: "expire_loop now (Some d) s = expire_loop now nxt s'" using s' by simp
  have over: "over now (Some d) s = insert d {e. e \<in># contents (mTree s) \<and> mFutureTime e \<le> now}" by (simp add: over_def)
  consider "mTimer ?s1 = mTimer s" "callbacks ?s1 = callbacks s" "\<forall>c. mTimer s c \<noteq> Some d"
    | c where "mTimer s c = Some d" "mTimer ?s1 = (mTimer s)(c := None)" "callbacks ?s1 = c # callbacks s"
    using delegate_expire_called[OF 2(4,3)] by blast
  then show ?case
  proof cases
    case 1
    then have "called {e. e \<in># contents (mTree s) \<and> mFutureTime e \<le> now} s (expire_loop now nxt s') cs"
      using IH called_cong[OF 1(2,1)] by simp
    from called_unowned[OF this 1(3)] show ?thesis unfolding eq over by blast
  next
    case (2 c)
    have "c' = c" if "mTimer s c' = Some d" for c'
      using mem_inv_owner[OF "2.prems"(3) that] mem_inv_owner[OF "2.prems"(3) 2(1)] by simp
    from called_first[OF IH 2(1) this 2(2,3)] "2.prems"(5) show ?thesis unfolding eq over by blast
  qed
qed

lemma proc_expire_called:
  assumes "timers_inv s" "mem_inv None s" "msgq s = MsgTimerExpire # ms" "close_time now"
  shows "\<exists>cs. called {d. d \<in># contents (mTree s) \<and> (heap_peek (mTree s) = Some d \<or> mFutureTime d \<le> now)} s
    (proc_expire now (s\<lparr>msgq := ms\<rparr>)) cs"
proof -
  let ?q = "s\<lparr>msgq := ms\<rparr>"
  obtain po t' where pop: "heap_pop delegate_ranks (mTree s) = (po, t')" by fastforce
  let ?s = "?q\<lparr>mTree := t'\<rparr>"
  have h: "checkNodes delegate_ranks (mTree s)" "tr.all_ok (mTree s)"
    using assms(1) by (auto simp: timers_inv_def heap_inv_def)
  have "mem_inv None ?q"
    using assms(2,3) by (subst mem_inv_cong[where s = s and po = None]) (simp_all add: ticking_def)
  from mem_inv_pop[OF this] pop have m: "mem_inv po ?s" by simp
  have i: "heap_inv ?s" "client_inv ?s"
    using heap_pop_inv[OF h pop] assms(1,3) by (auto simp: timers_inv_def heap_inv_def client_inv_def)
  have none: "po = None \<Longrightarrow> e \<in># contents (mTree ?s) \<Longrightarrow> now < mFutureTime e" for e using heap_pop_inv[OF h pop] by auto
  have some: "po = Some d \<Longrightarrow> e \<in># contents (mTree ?s) \<Longrightarrow> mFutureTime d \<le> mFutureTime e" for d e
    using pop_soonest[OF h, of d t'] pop by auto
  obtain cs where cs: "called (over now po ?s) ?s (expire_loop now po ?s) cs"
    using expire_loop_called[OF i m assms(4) some none] by blast
  have "over now po ?s = {d. d \<in># contents (mTree s) \<and> (heap_peek (mTree s) = Some d \<or> mFutureTime d \<le> now)}"
  proof (cases "mTree s")
    case Null
    then show ?thesis using pop by (auto simp: over_def heap_pop_def heap_peek_def)
  next
    case (Node n l d r)
    then have "po = Some d" "contents (mTree s) = add_mset d (contents t')"
      using pop contents_pop[of "mTree s" delegate_ranks] by (auto simp: heap_pop_def)
    then show ?thesis using Node by (auto simp: over_def heap_peek_def)
  qed
  then have "called {d. d \<in># contents (mTree s) \<and> (heap_peek (mTree s) = Some d \<or> mFutureTime d \<le> now)} s (expire_loop now po ?s) cs"
    using cs called_cong[of ?s s] by simp
  then show ?thesis by (auto simp: proc_expire_def pop called_def)
qed

text \<open>A client without a timer is not called, in no step.\<close>

lemma step_called:
  assumes "ltc_step s s'" "timers_inv s" "mem_inv None s"
  shows "\<exists>cs. callbacks s' = cs @ callbacks s \<and>
    (\<forall>c \<in> set cs. mTimer s c \<noteq> None \<and> mTimer s' c = None \<and> hd (msgq s) = MsgTimerExpire)"
  using assms
proof (induction rule: ltc_step.induct)
  case (expire s ms now)
  then obtain ds cs where "called ds s (proc_expire now (s\<lparr>msgq := ms\<rparr>)) cs"
    using proc_expire_called by blast
  then show ?case using expire.hyps by (intro exI[of _ cs]) (auto simp: called_def)
qed (simp_all add: timer_start_def timer_stop_def destroyLocked_def Let_def container_expire_def proc_push_def
      Let_def split: option.splits)

end
