(* ===== verification/LocTimerProps.thy ===== *)
theory LocTimerProps
  imports LocTimerInv
begin

text \<open>
  The properties of the timer service: the heap as a priority queue of timers, the arithmetic
  of the times, and what holds in every interleaving of the service.
\<close>

section \<open>The heap of timers\<close>

lemma heap_fill_correct:
  "\<forall>d \<in> set xs. close_del d \<Longrightarrow> checkNodes delegate_ranks t \<Longrightarrow> tr.all_ok t \<Longrightarrow>
   checkNodes delegate_ranks (fold (heap_push delegate_ranks) xs t) \<and>
   tr.all_ok (fold (heap_push delegate_ranks) xs t)"
proof (induction xs arbitrary: t)
  case (Cons x xs)
  then show ?case using heap_push_correct[of t x] by simp
qed simp

lemma contents_fill: "contents (fold (heap_push ranks) xs t) = mset xs + contents t"
  by (induction xs arbitrary: t) (auto simp: heap_push_def new_lhn_def contents_push)

lemma fill_shape: "sizes_ok t \<Longrightarrow> balanced t \<Longrightarrow>
   sizes_ok (fold (heap_push ranks) xs t) \<and> balanced (fold (heap_push ranks) xs t)"
proof (induction xs arbitrary: t)
  case (Cons x xs)
  have "sizes_ok (heap_push ranks x t) \<and> balanced (heap_push ranks x t)"
    using Cons.prems by (auto simp: heap_push_def new_lhn_def sizes_ok_push balanced_push)
  with Cons.IH show ?case by simp
qed simp

text \<open>
  C6: Timers put into the heap in any order and popped until it is empty come out soonest
  first, each of them once.
\<close>

theorem heap_sorts_timers:
  assumes "\<forall>d \<in> set ds. close_del d"
  shows "sorted_wrt (\<lambda>x y. mFutureTime x \<le> mFutureTime y)
      (heap_drain delegate_ranks (length ds) (heap_fill delegate_ranks ds)) \<and>
    mset (heap_drain delegate_ranks (length ds) (heap_fill delegate_ranks ds)) = mset ds"
proof -
  let ?t = "heap_fill delegate_ranks ds" and ?out = "heap_drain delegate_ranks (length ds) (heap_fill delegate_ranks ds)"
  have t: "checkNodes delegate_ranks ?t" "tr.all_ok ?t" "contents ?t = mset ds"
    using heap_fill_correct[OF assms, of Null] by (simp_all add: heap_fill_def contents_fill)
  have out: "sorted_wrt (\<lambda>x y. \<not> outRanks delegate_ranks y x) ?out" "mset ?out = mset ds"
    using tr.drain_sorted[OF t(1,2), of "length ds"] t(3) by auto
  then have "set ?out = set ds" by (metis set_mset_mset)
  then have "sorted_wrt (\<lambda>x y. mFutureTime x \<le> mFutureTime y) ?out"
    using assms by (intro sorted_wrt_mono_rel[OF _ out(1)]) (auto simp: delegate_outranks not_less)
  with out(2) show ?thesis by blast
qed

lemma heap_sorts_timers_witness:
  "heap_drain delegate_ranks 3 (heap_fill delegate_ranks
     [Delegate 1 (Timespec 9 0), Delegate 2 (Timespec 4 7), Delegate 3 (Timespec 4 2)]) =
     [Delegate 3 (Timespec 4 2), Delegate 2 (Timespec 4 7), Delegate 1 (Timespec 9 0)] \<and>
   sorted_wrt (\<lambda>x y. mFutureTime x \<le> mFutureTime y) (heap_drain delegate_ranks 3 (heap_fill delegate_ranks
     [Delegate 1 (Timespec 9 0), Delegate 2 (Timespec 4 7), Delegate 3 (Timespec 4 2)]))"
proof -
  let ?ds = "[Delegate 1 (Timespec 9 0), Delegate 2 (Timespec 4 7), Delegate 3 (Timespec 4 2)]"
  have "\<forall>d \<in> set ?ds. close_del d" by (simp add: close_del_def close_time_def)
  note sorted = conjunct1[OF heap_sorts_timers[OF this]]
  have "length ?ds = 3" by simp
  note sorted[unfolded this]
  moreover have "heap_drain delegate_ranks 3 (heap_fill delegate_ranks ?ds) =
      [Delegate 3 (Timespec 4 2), Delegate 2 (Timespec 4 7), Delegate 1 (Timespec 9 0)]" by code_simp
  ultimately show ?thesis by (intro conjI)
qed

text \<open>
  C7: Removing a timer from a consistent heap takes out that timer and nothing else, and
  returns it; it returns NULL and leaves the heap alone exactly if the timer is not in it,
  although the search skips the subtrees whose top the timer outranks. The heap stays
  consistent, its sizes included.
\<close>

theorem heap_remove_exact:
  assumes "checkTree delegate_ranks t" "\<forall>d \<in># contents t. close_del d"
  shows "case heap_remove delegate_ranks x t of
      (None, t') \<Rightarrow> t' = t \<and> x \<notin># contents t
    | (Some y, t') \<Rightarrow> y = x \<and> contents t = add_mset x (contents t') \<and> checkTree delegate_ranks t' \<and>
        getTreeSize t' = getTreeSize t - 1"
proof -
  have c: "checkNodes delegate_ranks t" using assms(1) by (auto simp: checkTree_def)
  have eq: "heap_remove delegate_ranks x t = node_remove delegate_ranks x t" by (simp add: heap_remove_def)
  have "case node_remove delegate_ranks x t of
      (None, t') \<Rightarrow> t' = t \<and> x \<notin># contents t
    | (Some y, t') \<Rightarrow> y = x \<and> contents t = add_mset x (contents t') \<and> checkNodes delegate_ranks t'"
    using assms(2) by (intro tr.remove_correct[OF c]) (simp add: tr.all_ok_def)
  moreover obtain p t' where p: "node_remove delegate_ranks x t = (p, t')" by fastforce
  ultimately show ?thesis
    unfolding eq using checkNodes_sizes[OF c] checkNodes_sizes[of delegate_ranks t']
    by (cases p) (simp_all add: checkTree_def)
qed

lemma heap_remove_exact_witness:
  "fst (heap_remove delegate_ranks (Delegate 2 (Timespec 4 7))
     (heap_fill delegate_ranks [Delegate 1 (Timespec 9 0), Delegate 2 (Timespec 4 7)])) =
   Some (Delegate 2 (Timespec 4 7))"
proof -
  let ?t = "Node 2 (Node 1 Null (Delegate 1 (Timespec 9 0)) Null) (Delegate 2 (Timespec 4 7)) Null"
  have t: "heap_fill delegate_ranks [Delegate 1 (Timespec 9 0), Delegate 2 (Timespec 4 7)] = ?t"
    by code_simp
  have "checkTree delegate_ranks ?t" by code_simp
  then show ?thesis
    using heap_remove_exact[of ?t "Delegate 2 (Timespec 4 7)"]
    unfolding t by (auto simp: close_del_def close_time_def split: option.splits prod.splits)
qed

text \<open>
  C8: A heap that is filled by \<open>push\<close> is balanced, so that the recursion of \<open>push\<close>, \<open>pop\<close> and
  \<open>remove\<close> is at most one call deeper than the binary logarithm of the number of elements.
\<close>

theorem heap_fill_height:
  assumes "xs \<noteq> []"
  shows "2 ^ height (heap_fill ranks xs) \<le> 2 * length xs"
proof -
  have c: "contents (heap_fill ranks xs) = mset xs" by (simp add: heap_fill_def contents_fill)
  then have "heap_fill ranks xs \<noteq> Null" using assms by fastforce
  from balanced_height[OF _ this] fill_shape[of Null ranks xs] c show ?thesis
    by (simp add: heap_fill_def)
qed

lemma heap_fill_height_witness: "height (heap_fill (\<lambda>x y. x - y) [1, 2, 3, 4, 5, 6, 7 :: int]) \<le> 3"
proof -
  have "2 ^ height (heap_fill (\<lambda>x y. x - y) [1, 2, 3, 4, 5, 6, 7 :: int]) < (2 :: nat) ^ 4"
    using heap_fill_height[of "[1, 2, 3, 4, 5, 6, 7 :: int]" "\<lambda>x y. x - y"] by simp
  then show ?thesis using power_less_imp_less_exp[of 2 _ 4] by fastforce
qed

section \<open>Times\<close>

text \<open>
  As long as the times are within 68 years of boot, a timer outranks another exactly if
  it is due sooner. The differences are cut to an \<open>int\<close>: a timer \<open>2\<^sup>3\<^sup>2\<close> seconds later
  in the same nanosecond is ranked as due at the same time.
\<close>

theorem ranks_by_time:
  "(close_del x \<longrightarrow> close_del y \<longrightarrow> (outRanks delegate_ranks x y \<longleftrightarrow> mFutureTime x < mFutureTime y)) \<and>
   delegate_ranks (Delegate a (Timespec 0 0)) (Delegate b (Timespec (2 ^ 32) 0)) = 0"
proof -
  have "delegate_ranks (Delegate a (Timespec 0 0)) (Delegate b (Timespec (2 ^ 32) 0)) = 0"
    by (simp add: delegate_ranks_def time_rank_def Let_def)
  then show ?thesis using delegate_outranks by blast
qed

lemma ranks_by_time_witness:
  "outRanks delegate_ranks (Delegate 1 (Timespec 4 2)) (Delegate 2 (Timespec 4 7))"
  using ranks_by_time[of "Delegate 1 (Timespec 4 2)" "Delegate 2 (Timespec 4 7)"]
  by (simp add: close_del_def close_time_def less_timespec_def)

text \<open>
  The time of expiry is exactly the given number of milliseconds after now, for every
  \<open>unsigned int\<close> delay, and its nanoseconds are in range.
\<close>

theorem future_time_exact:
  assumes "close_time now"
  shows "nanos (future_time now ms) = nanos now + uint ms * 10 ^ 6 \<and>
    0 \<le> sint (tv_nsec (future_time now ms)) \<and> sint (tv_nsec (future_time now ms)) < 10 ^ 9"
proof -
  let ?n = "sint (tv_nsec now) + uint ms mod 1000 * 1000000"
  have parts: "sint (tv_sec (future_time now ms)) = sint (tv_sec now) + uint ms div 1000 + ?n div 10 ^ 9"
    "sint (tv_nsec (future_time now ms)) = ?n mod 10 ^ 9"
    using future_time_parts[OF assms, of ms] by auto
  have "(uint ms div 1000) * 1000000000 + (uint ms mod 1000) * 1000000 = uint ms * 1000000"
    using div_mult_mod_eq[of "uint ms" 1000] by linarith
  moreover have "?n div 10 ^ 9 * 10 ^ 9 + ?n mod 10 ^ 9 = ?n" by simp
  ultimately have "nanos (future_time now ms) = nanos now + uint ms * 10 ^ 6"
    unfolding nanos_def parts by (simp add: algebra_simps)
  then show ?thesis by (simp add: parts)
qed

lemma future_time_exact_witness: "nanos (future_time (Timespec 5 999000000) 1500) = 7499000000"
  using future_time_exact[of "Timespec 5 999000000" 1500]
  by (simp add: close_time_def nanos_def)

section \<open>Every interleaving\<close>

text \<open>The states of the witnesses: a client has started a timer, and the timer has fired.\<close>

definition one_started :: ltc where
  "one_started = snd (timer_start True 1 1000 (Timespec 0 0) 11 ltc_init)"

definition one_pushed :: ltc where
  "one_pushed = proc_push (Delegate 11 (Timespec 1 0)) (one_started\<lparr>msgq := []\<rparr>)"

definition one_fired :: ltc where
  "one_fired = container_expire (one_pushed\<lparr>clock := Timespec 1 0\<rparr>)"

lemma one_started_reachable: "ltc_reachable one_started"
proof -
  have "future_time (Timespec 0 0) 1000 = Timespec 1 0" by code_simp
  then have "ltc_step ltc_init one_started"
    unfolding one_started_def by (intro ltc_step.start) (simp_all add: ltc_init_def close_time_def)
  then show ?thesis by (blast intro: ltc_reachable.intros)
qed

lemma one_pushed_reachable: "ltc_reachable one_pushed"
proof -
  have "msgq one_started = [MsgTimerPush (Delegate 11 (Timespec 1 0))]" by code_simp
  then have "ltc_step one_started one_pushed" unfolding one_pushed_def by (rule ltc_step.push)
  then show ?thesis using one_started_reachable by (blast intro: ltc_reachable.intros)
qed

lemma one_fired_reachable: "ltc_reachable one_fired"
proof -
  let ?s = "one_pushed\<lparr>clock := Timespec 1 0\<rparr>"
  have "clock one_pushed = Timespec 0 0" by code_simp
  then have "ltc_step one_pushed ?s"
    by (intro ltc_step.tick) (simp_all add: close_time_def less_eq_timespec_def)
  moreover have a: "timerfd ?s = Some (Timespec 1 0)" and p: "polled ?s" by code_simp+
  have "ltc_step ?s one_fired" unfolding one_fired_def by (rule ltc_step.fire[OF a _ p]) simp
  ultimately show ?thesis using one_pushed_reachable by (blast intro: ltc_reachable.intros)
qed

text \<open>
  C9: Whatever clients, poll thread and message thread do, the kernel timer is armed and
  polled for the soonest timer of the heap, or the message that handles an expiry is on its
  way: no timer is slept through.
\<close>

theorem soonest_timer_armed:
  assumes "ltc_reachable s"
  shows "armed s \<or> MsgTimerExpire \<in> set (msgq s)"
  using timers_inv_reachable[OF assms] by (simp add: timers_inv_def)

lemma soonest_timer_armed_witness:
  "getSoonestTimer one_pushed = Some (Delegate 11 (Timespec 1 0)) \<and> armed one_pushed"
proof -
  have "msgq one_pushed = []" "getSoonestTimer one_pushed = Some (Delegate 11 (Timespec 1 0))" by code_simp+
  then show ?thesis using soonest_timer_armed[OF one_pushed_reachable] by simp
qed

text \<open>
  C10: The delegates are used safely: whatever is in the heap, in a message or held by a client
  is allocated, no two of these share an address, and no delegate is freed twice.
\<close>

theorem delegates_allocated:
  assumes "ltc_reachable s"
  defines "used \<equiv> set_mset (contents (mTree s)) \<union> set (pushes (msgq s)) \<union> set (removes (msgq s)) \<union> ran (mTimer s)"
  shows "del_addr ` used \<subseteq> set (allocated s) \<and> inj_on del_addr used \<and>
    distinct (allocated s) \<and> distinct (map del_addr (removes (msgq s)))"
proof -
  have inv: "mem_inv None s" using mem_inv_reachable[OF assms(1)] .
  have used: "used = mentioned None s" by (auto simp: used_def mentioned_def ticking_def)
  have "inj_on del_addr (set (removes (msgq s)))"
    using inv by (auto simp: mem_inv_def mentioned_def intro: inj_on_subset)
  moreover have "del_addr ` used \<subseteq> set (allocated s)" "inj_on del_addr used"
    using inv by (simp_all add: used mem_inv_def del: image_subset_iff)
  moreover have "distinct (allocated s)" "distinct (removes (msgq s))"
    using inv by (simp_all add: mem_inv_def freed_inv_def)
  ultimately show ?thesis by (simp add: distinct_map)
qed

lemma delegates_allocated_witness:
  "11 \<in> del_addr ` set_mset (contents (mTree one_pushed)) \<and> 11 \<in> set (allocated one_pushed)"
proof -
  have "contents (mTree one_pushed) = {#Delegate 11 (Timespec 1 0)#}" by code_simp
  then show ?thesis using delegates_allocated[OF one_pushed_reachable] by auto
qed

text \<open>
  C11: No running timer is lost and no delegate leaks: the delegate of a client with a timer is
  in the heap or on its way there, and every allocated delegate belongs to a client or is on
  its way to be freed.
\<close>

theorem timers_not_lost:
  assumes "ltc_reachable s"
  shows "ran (mTimer s) \<subseteq> set_mset (contents (mTree s)) \<union> set (pushes (msgq s)) \<and>
    set (allocated s) = del_addr ` (ran (mTimer s) \<union> set (removes (msgq s)))"
  using mem_inv_reachable[OF assms]
  by (auto simp: mem_inv_def owned_inv_def freed_inv_def ticking_def ran_def)

lemma timers_not_lost_witness: "Delegate 11 (Timespec 1 0) \<in># contents (mTree one_pushed)"
proof -
  have "pushes (msgq one_pushed) = []" "mTimer one_pushed 1 = Some (Delegate 11 (Timespec 1 0))" by code_simp+
  then show ?thesis using timers_not_lost[OF one_pushed_reachable] by (auto dest: ranI)
qed

text \<open>
  C12: An expiry leaves only timers of the future in the heap. It calls exactly the clients whose timer is in the heap and is over, and the
  one whose timer is at the top of the heap, which is popped without a look at its time; each is called once, in the order of
  their times. Those clients have no timer afterwards, and the other clients keep theirs.
\<close>

theorem expiry_calls_in_order:
  assumes "ltc_reachable s" "msgq s = MsgTimerExpire # ms" "close_time now"
  defines "s' \<equiv> proc_expire now (s\<lparr>msgq := ms\<rparr>)"
  shows "(\<forall>x \<in># contents (mTree s'). now < mFutureTime x) \<and>
    (\<exists>cs. callbacks s' = cs @ callbacks s \<and> distinct cs \<and>
      (\<forall>c. c \<in> set cs \<longleftrightarrow> (\<exists>d \<in># contents (mTree s). mTimer s c = Some d \<and> (heap_peek (mTree s) = Some d \<or> mFutureTime d \<le> now))) \<and>
      (\<forall>c. mTimer s' c = (if c \<in> set cs then None else mTimer s c)) \<and>
      sorted_wrt (\<lambda>c c'. due s c' \<le> due s c) cs)"
proof -
  have inv: "timers_inv s" "mem_inv None s"
    using timers_inv_reachable[OF assms(1)] mem_inv_reachable[OF assms(1)] .
  obtain cs where cs: "called {d. d \<in># contents (mTree s) \<and> (heap_peek (mTree s) = Some d \<or> mFutureTime d \<le> now)} s s' cs"
    using proc_expire_called[OF inv assms(2,3)] unfolding s'_def by blast
  have "\<forall>x \<in># contents (mTree s'). now < mFutureTime x"
    using timers_inv_expire[OF inv(1) assms(2,3)] unfolding s'_def by blast
  with cs show ?thesis unfolding called_def by (intro conjI exI[of _ cs]) auto
qed

lemma expiry_calls_in_order_witness:
  "callbacks one_fired = [] \<and> callbacks (proc_expire (Timespec 1 0) (one_fired\<lparr>msgq := []\<rparr>)) = [1] \<and>
   (\<exists>cs. callbacks (proc_expire (Timespec 1 0) (one_fired\<lparr>msgq := []\<rparr>)) = cs @ callbacks one_fired \<and>
     distinct cs)"
proof -
  have q: "msgq one_fired = [MsgTimerExpire]" by code_simp
  have t: "close_time (Timespec 1 0)" by (simp add: close_time_def)
  have "callbacks one_fired = []" "callbacks (proc_expire (Timespec 1 0) (one_fired\<lparr>msgq := []\<rparr>)) = [1]"
    by code_simp+
  then show ?thesis using expiry_calls_in_order[OF one_fired_reachable q t] by blast
qed

text \<open>
  A client is called only by the handling of an expiry, only if it has a timer then, and
  has none afterwards: a client that stopped its timer is never called for it.
\<close>

theorem stopped_not_called:
  assumes "ltc_reachable s" "ltc_step s s'"
  shows "\<exists>cs. callbacks s' = cs @ callbacks s \<and>
    (\<forall>c \<in> set cs. mTimer s c \<noteq> None \<and> mTimer s' c = None \<and> hd (msgq s) = MsgTimerExpire)"
  using step_called[OF assms(2) timers_inv_reachable mem_inv_reachable] assms(1) by blast

lemma stopped_not_called_witness:
  "callbacks (snd (timer_stop 1 one_started)) = callbacks one_started"
proof -
  have "hd (msgq one_started) \<noteq> MsgTimerExpire" by code_simp
  then show ?thesis
    using stopped_not_called[OF one_started_reachable ltc_step.stop[of one_started 1]] by auto
qed

section \<open>A race between a stop and an expiry\<close>

text \<open>
  Client 1 starts a timer of one second, client 2 one of 100 seconds. After a second client 1
  stops its timer while the kernel timer fires: the removal is handled before the expiry.
\<close>

definition race_started :: ltc where
  "race_started = snd (timer_start True 2 100000 (Timespec 0 0) 12 (snd (timer_start True 1 1000 (Timespec 0 0) 11 ltc_init)))"

definition race_pushed :: ltc where
  "race_pushed = proc_push (Delegate 12 (Timespec 100 0)) ((proc_push (Delegate 11 (Timespec 1 0))
     (race_started\<lparr>msgq := tl (msgq race_started)\<rparr>))\<lparr>msgq := []\<rparr>)"

definition race_fired :: ltc where
  "race_fired = container_expire (snd (timer_stop 1 (race_pushed\<lparr>clock := Timespec 1 0\<rparr>)))"

definition race_removed :: ltc where
  "race_removed = proc_remove (Delegate 11 (Timespec 1 0)) (race_fired\<lparr>msgq := [MsgTimerExpire]\<rparr>)"

lemma race_started_queue:
  "msgq race_started = [MsgTimerPush (Delegate 11 (Timespec 1 0)), MsgTimerPush (Delegate 12 (Timespec 100 0))]"
  by code_simp

lemma race_started_reachable: "ltc_reachable race_started"
proof -
  let ?s = "snd (timer_start True 1 1000 (Timespec 0 0) 11 ltc_init)"
  have "future_time (Timespec 0 0) 1000 = Timespec 1 0" "future_time (Timespec 0 0) 100000 = Timespec 100 0"
    by code_simp+
  then have t: "close_time (future_time (Timespec 0 0) 1000)" "close_time (future_time (Timespec 0 0) 100000)"
    "close_time (Timespec 0 0)"
    by (simp_all add: close_time_def)
  have "allocated ?s = [11]" "clock ?s = Timespec 0 0" "allocated ltc_init = []" "clock ltc_init = Timespec 0 0"
    by code_simp+
  with t have "ltc_step ltc_init ?s" "ltc_step ?s race_started"
    unfolding race_started_def by (auto intro: ltc_step.start)
  then show ?thesis by (blast intro: ltc_reachable.intros)
qed

lemma race_pushed_reachable: "ltc_reachable race_pushed"
proof -
  let ?d = "Delegate 12 (Timespec 100 0)"
  let ?s = "proc_push (Delegate 11 (Timespec 1 0)) (race_started\<lparr>msgq := [MsgTimerPush ?d]\<rparr>)"
  have "ltc_step race_started ?s" by (rule ltc_step.push) (simp add: race_started_queue)
  moreover have "ltc_step ?s race_pushed"
    using ltc_step.push[of ?s ?d "[]"]
    by (simp add: race_pushed_def race_started_queue proc_push_def Let_def)
  ultimately show ?thesis using race_started_reachable by (blast intro: ltc_reachable.intros)
qed

lemma race_removed_reachable: "ltc_reachable race_removed"
proof -
  let ?r = "race_pushed\<lparr>clock := Timespec 1 0\<rparr>"
  let ?s = "snd (timer_stop 1 ?r)"
  have c: "clock race_pushed = Timespec 0 0" "clock ?s = Timespec 1 0" by code_simp+
  have "ltc_step race_pushed ?r"
    by (rule ltc_step.tick) (simp_all add: c close_time_def less_eq_timespec_def)
  from ltc_reachable.step[OF race_pushed_reachable this] have "ltc_reachable ?r" .
  from ltc_reachable.step[OF this ltc_step.stop] have s: "ltc_reachable ?s" .
  have a: "timerfd ?s = Some (Timespec 1 0)" and p: "polled ?s" by code_simp+
  have "ltc_step ?s race_fired"
    unfolding race_fired_def by (rule ltc_step.fire[OF a _ p]) (simp only: c order_refl)
  from ltc_reachable.step[OF s this] have fired: "ltc_reachable race_fired" .
  have "msgq race_fired = [MsgTimerRemove (Delegate 11 (Timespec 1 0)), MsgTimerExpire]"
    by code_simp
  from ltc_reachable.step[OF fired ltc_step.remove[OF this]] show ?thesis unfolding race_removed_def .
qed

text \<open>
  \<open>timeOutCallback\<close> can come long before the time: the handling of an expiry pops the
  first timer without looking at the time, and after the race above that is the timer of
  client 2, 99 seconds early.
\<close>

theorem callback_before_time:
  "\<exists>s s' d. ltc_reachable s \<and> ltc_step s s' \<and> mTimer s 2 = Some d \<and>
     nanos (mFutureTime d) - nanos (clock s) = 99 * 10 ^ 9 \<and> callbacks s' = 2 # callbacks s"
proof (intro exI conjI)
  have c: "clock race_removed = Timespec 1 0" by code_simp
  show "ltc_reachable race_removed" by (rule race_removed_reachable)
  have "msgq race_removed = [MsgTimerExpire]" by code_simp
  then show "ltc_step race_removed (proc_expire (Timespec 1 0) (race_removed\<lparr>msgq := []\<rparr>))"
    by (rule ltc_step.expire) (simp_all add: c close_time_def)
  show "mTimer race_removed 2 = Some (Delegate 12 (Timespec 100 0))" by code_simp
  show "nanos (mFutureTime (Delegate 12 (Timespec 100 0))) - nanos (clock race_removed) = 99 * 10 ^ 9"
    by (simp add: c nanos_def)
  show "callbacks (proc_expire (Timespec 1 0) (race_removed\<lparr>msgq := []\<rparr>)) = 2 # callbacks race_removed"
    by code_simp
qed

text \<open>
  After the last timer has been removed the kernel timer may stay armed and polled: the
  branch of \<open>updateSoonestTime\<close> that disarms it is not reached.
\<close>

theorem idle_timer_armed:
  "\<exists>s. ltc_reachable s \<and> mTree s = Null \<and> msgq s = [] \<and> mTimer s = (\<lambda>_. None) \<and> polled s \<and>
     timerfd s \<noteq> None"
proof (intro exI conjI)
  let ?q = "snd (timer_stop 1 one_pushed)"
  let ?s = "proc_remove (Delegate 11 (Timespec 1 0)) (?q\<lparr>msgq := []\<rparr>)"
  have "msgq ?q = [MsgTimerRemove (Delegate 11 (Timespec 1 0))]" by code_simp
  then have "ltc_step ?q ?s" by (rule ltc_step.remove)
  then show "ltc_reachable ?s"
    using one_pushed_reachable ltc_step.stop[of one_pushed 1] by (blast intro: ltc_reachable.intros)
  show "mTree ?s = Null" "msgq ?s = []" "polled ?s" "timerfd ?s \<noteq> None" by code_simp+
  show "mTimer ?s = (\<lambda>_. None)"
    by (simp add: timer_stop_def destroyLocked_def one_pushed_def one_started_def timer_start_def
        proc_push_def ltc_init_def Let_def)
qed

end
