(* ===== verification/AgpsSm.thy ===== *)
theory AgpsSm
  imports DevPrelude "HOL-Library.Monad_Syntax"
begin

unbundle bit_operations_syntax

text \<open>
  The AGPS state machine and its manager, gps/gnss/Agps.cpp and Agps.h. Subscribers live on
  an explicit heap of objects, since the state machine keeps pointers to them, to a local
  variable of the manager among others, and deletes them. Reading a deleted object is
  \<open>None\<close>; an address is not used twice.
\<close>

section \<open>Data\<close>

datatype agps_state =
    AGPS_STATE_INVALID
  | AGPS_STATE_RELEASED
  | AGPS_STATE_PENDING
  | AGPS_STATE_ACQUIRED
  | AGPS_STATE_RELEASING

datatype agps_event =
    AGPS_EVENT_INVALID
  | AGPS_EVENT_SUBSCRIBE
  | AGPS_EVENT_UNSUBSCRIBE
  | AGPS_EVENT_GRANTED
  | AGPS_EVENT_RELEASED
  | AGPS_EVENT_DENIED

datatype agps_notification =
    FOR_ALL_SUBSCRIBERS
  | FOR_INACTIVE_SUBSCRIBERS
  | FOR_ACTIVE_SUBSCRIBERS

text \<open>AGpsType; the sources pass it as an \<open>int\<close>, other values are \<open>AGPS_TYPE_OTHER\<close>.\<close>

datatype agps_type =
    AGPS_TYPE_INVALID
  | AGPS_TYPE_ANY
  | AGPS_TYPE_SUPL
  | AGPS_TYPE_C2K
  | AGPS_TYPE_WWAN_ANY
  | AGPS_TYPE_WIFI
  | AGPS_TYPE_SUPL_ES
  | AGPS_TYPE_OTHER int

record subscriber =
  mConnHandle :: int
  mWaitForCloseComplete :: bool
  mIsInactive :: bool
  sub_mask :: "32 word"

text \<open>
  The callbacks: the request to or the release by the framework (true for
  \<open>AGPS_REQUEST_AGPS_DATA_CONN\<close>) with type, APN mask and subscription; the status of an open
  with handle, success, APN, its length, bearer, type and mask; the status of a close.
\<close>

datatype agps_call =
    StatusV4Cb bool agps_type "32 word" int
  | AtlOpenStatusCb int bool "string option" "32 word" int agps_type "32 word"
  | AtlCloseStatusCb int bool

text \<open>The objects that are alive, and the next address.\<close>

record sub_heap =
  subs :: "ptr \<Rightarrow> subscriber option"
  brk :: ptr

text \<open>The state machine; \<open>sm_calls\<close> are the callbacks it has made, oldest first.\<close>

record agps_sm =
  mSubscriberList :: "ptr list"
  mCurrentSubscriber :: ptr
  mState :: agps_state
  mAgpsType :: agps_type
  mApnTypeMask :: "32 word"
  mSubId :: int
  mAPN :: "string option"
  mAPNLen :: "32 word"
  mBearer :: int
  sm_calls :: "agps_call list"

text \<open>The constructor leaves \<open>mApnTypeMask\<close> and \<open>mSubId\<close> alone: they are arguments.\<close>

definition agps_sm_new :: "agps_type \<Rightarrow> 32 word \<Rightarrow> int \<Rightarrow> agps_sm" where
  "agps_sm_new agpsType mask0 subId0 =
     \<lparr>mSubscriberList = [], mCurrentSubscriber = NULL, mState = AGPS_STATE_RELEASED,
      mAgpsType = agpsType, mApnTypeMask = mask0, mSubId = subId0, mAPN = None, mAPNLen = 0,
      mBearer = 0, sm_calls = []\<rparr>"

definition new_sub :: "subscriber \<Rightarrow> sub_heap \<Rightarrow> ptr \<times> sub_heap" where
  "new_sub s h = (brk h, h\<lparr>subs := (subs h)(brk h := Some s), brk := brk h + 1\<rparr>)"

definition delete_sub :: "ptr \<Rightarrow> sub_heap \<Rightarrow> sub_heap option" where
  "delete_sub p h = (case subs h p of None \<Rightarrow> None | Some _ \<Rightarrow> Some (h\<lparr>subs := (subs h)(p := None)\<rparr>))"

section \<open>The subscriber list\<close>

text \<open>\<open>addSubscriber\<close>: the search, and the copy at the end of the list.\<close>

fun find_equal :: "sub_heap \<Rightarrow> ptr \<Rightarrow> ptr list \<Rightarrow> bool option" where
  "find_equal h p [] = Some False"
| "find_equal h p (q # qs) =
     do { subscriber \<leftarrow> subs h q;
          subscriberToAdd \<leftarrow> subs h p;
          if mConnHandle subscriber = mConnHandle subscriberToAdd then Some True
          else find_equal h p qs }"

definition addSubscriber :: "ptr \<Rightarrow> agps_sm \<times> sub_heap \<Rightarrow> (agps_sm \<times> sub_heap) option" where
  "addSubscriber p = (\<lambda>(sm, h).
     do { present \<leftarrow> find_equal h p (mSubscriberList sm);
          if present then Some (sm, h)
          else do { subscriberToAdd \<leftarrow> subs h p;
                    let (cloned, h) = new_sub subscriberToAdd h in
                    Some (sm\<lparr>mSubscriberList := mSubscriberList sm @ [cloned]\<rparr>, h) } })"

text \<open>\<open>deleteSubscriber\<close>: the list that is kept, the pointer to compare with read every time.\<close>

fun delete_equal :: "ptr \<Rightarrow> ptr list \<Rightarrow> sub_heap \<Rightarrow> (ptr list \<times> sub_heap) option" where
  "delete_equal p [] h = Some ([], h)"
| "delete_equal p (q # qs) h =
     do { equal \<leftarrow> (if q = NULL then Some False
            else do { subscriber \<leftarrow> subs h q;
                      subscriberToDelete \<leftarrow> subs h p;
                      Some (mConnHandle subscriber = mConnHandle subscriberToDelete) });
          if equal then do { h \<leftarrow> delete_sub q h; delete_equal p qs h }
          else do { (qs, h) \<leftarrow> delete_equal p qs h; Some (q # qs, h) } }"

definition deleteSubscriber :: "ptr \<Rightarrow> agps_sm \<times> sub_heap \<Rightarrow> (agps_sm \<times> sub_heap) option" where
  "deleteSubscriber p = (\<lambda>(sm, h).
     do { (qs, h) \<leftarrow> delete_equal p (mSubscriberList sm) h;
          Some (sm\<lparr>mSubscriberList := qs\<rparr>, h) })"

fun any_active :: "sub_heap \<Rightarrow> ptr list \<Rightarrow> bool option" where
  "any_active h [] = Some False"
| "any_active h (q # qs) =
     do { subscriber \<leftarrow> subs h q;
          if \<not> mIsInactive subscriber then Some True else any_active h qs }"

definition anyActiveSubscribers :: "agps_sm \<times> sub_heap \<Rightarrow> bool option" where
  "anyActiveSubscribers = (\<lambda>(sm, h). any_active h (mSubscriberList sm))"

text \<open>\<open>getSubscriber\<close> and \<open>getFirstSubscriber\<close>: NULL if there is none.\<close>

fun get_first :: "(subscriber \<Rightarrow> bool) \<Rightarrow> sub_heap \<Rightarrow> ptr list \<Rightarrow> ptr option" where
  "get_first P h [] = Some NULL"
| "get_first P h (q # qs) =
     do { subscriber \<leftarrow> subs h q; if P subscriber then Some q else get_first P h qs }"

definition getSubscriber :: "int \<Rightarrow> agps_sm \<Rightarrow> sub_heap \<Rightarrow> ptr option" where
  "getSubscriber connHandle sm h = get_first (\<lambda>s. mConnHandle s = connHandle) h (mSubscriberList sm)"

definition getFirstSubscriber :: "bool \<Rightarrow> agps_sm \<Rightarrow> sub_heap \<Rightarrow> ptr option" where
  "getFirstSubscriber isInactive sm h = get_first (\<lambda>s. mIsInactive s = isInactive) h (mSubscriberList sm)"

fun delete_all :: "ptr list \<Rightarrow> sub_heap \<Rightarrow> sub_heap option" where
  "delete_all [] h = Some h"
| "delete_all (q # qs) h = do { h \<leftarrow> delete_sub q h; delete_all qs h }"

definition dropAllSubscribers :: "agps_sm \<times> sub_heap \<Rightarrow> (agps_sm \<times> sub_heap) option" where
  "dropAllSubscribers = (\<lambda>(sm, h).
     do { h \<leftarrow> delete_all (mSubscriberList sm) h; Some (sm\<lparr>mSubscriberList := []\<rparr>, h) })"

section \<open>Notifications\<close>

text \<open>The callback of an event for a subscriber, if the event has one.\<close>

definition notify_call :: "agps_event \<Rightarrow> subscriber \<Rightarrow> agps_sm \<Rightarrow> agps_sm" where
  "notify_call event s sm =
     (case event of
        AGPS_EVENT_GRANTED \<Rightarrow> sm\<lparr>sm_calls := sm_calls sm @
          [AtlOpenStatusCb (mConnHandle s) True (mAPN sm) (mAPNLen sm) (mBearer sm) (mAgpsType sm) (mApnTypeMask sm)]\<rparr>
      | AGPS_EVENT_DENIED \<Rightarrow> sm\<lparr>sm_calls := sm_calls sm @
          [AtlOpenStatusCb (mConnHandle s) False (mAPN sm) (mAPNLen sm) (mBearer sm) (mAgpsType sm) (mApnTypeMask sm)]\<rparr>
      | AGPS_EVENT_UNSUBSCRIBE \<Rightarrow> sm\<lparr>sm_calls := sm_calls sm @ [AtlCloseStatusCb (mConnHandle s) True]\<rparr>
      | AGPS_EVENT_RELEASED \<Rightarrow> sm\<lparr>sm_calls := sm_calls sm @ [AtlCloseStatusCb (mConnHandle s) True]\<rparr>
      | _ \<Rightarrow> sm)"

definition notifyEventToSubscriber ::
    "agps_event \<Rightarrow> ptr \<Rightarrow> bool \<Rightarrow> agps_sm \<times> sub_heap \<Rightarrow> (agps_sm \<times> sub_heap) option" where
  "notifyEventToSubscriber event p deleteSubscriberPostNotify = (\<lambda>(sm, h).
     do { sm \<leftarrow> (if event \<in> {AGPS_EVENT_INVALID, AGPS_EVENT_SUBSCRIBE} then Some sm
            else do { s \<leftarrow> subs h p; Some (notify_call event s sm) });
          if deleteSubscriberPostNotify then deleteSubscriber p (sm, h) else Some (sm, h) })"

definition notifies :: "agps_notification \<Rightarrow> subscriber \<Rightarrow> bool" where
  "notifies notificationType s \<longleftrightarrow>
     notificationType = FOR_ALL_SUBSCRIBERS \<or>
     notificationType = FOR_INACTIVE_SUBSCRIBERS \<and> mIsInactive s \<or>
     notificationType = FOR_ACTIVE_SUBSCRIBERS \<and> \<not> mIsInactive s"

text \<open>The loop of \<open>notifyAllSubscribers\<close>: what is left of the list.\<close>

fun notify_loop :: "agps_event \<Rightarrow> bool \<Rightarrow> agps_notification \<Rightarrow> ptr list \<Rightarrow> agps_sm \<times> sub_heap \<Rightarrow>
    (ptr list \<times> agps_sm \<times> sub_heap) option" where
  "notify_loop event del notificationType [] st = Some ([], st)"
| "notify_loop event del notificationType (q # qs) (sm, h) =
     do { subscriber \<leftarrow> subs h q;
          if notifies notificationType subscriber
          then do { (sm, h) \<leftarrow> notifyEventToSubscriber event q False (sm, h);
                    if del then do { h \<leftarrow> delete_sub q h; notify_loop event del notificationType qs (sm, h) }
                    else do { (qs, st) \<leftarrow> notify_loop event del notificationType qs (sm, h);
                              Some (q # qs, st) } }
          else do { (qs, st) \<leftarrow> notify_loop event del notificationType qs (sm, h);
                    Some (q # qs, st) } }"

definition notifyAllSubscribers ::
    "agps_event \<Rightarrow> bool \<Rightarrow> agps_notification \<Rightarrow> agps_sm \<times> sub_heap \<Rightarrow> (agps_sm \<times> sub_heap) option" where
  "notifyAllSubscribers event del notificationType = (\<lambda>(sm, h).
     do { (qs, sm, h) \<leftarrow> notify_loop event del notificationType (mSubscriberList sm) (sm, h);
          Some (sm\<lparr>mSubscriberList := qs\<rparr>, h) })"

definition transitionState :: "agps_state \<Rightarrow> agps_sm \<times> sub_heap \<Rightarrow> agps_sm \<times> sub_heap" where
  "transitionState newState = (\<lambda>(sm, h). (sm\<lparr>mState := newState\<rparr>, h))"

definition requestOrReleaseDataConn :: "bool \<Rightarrow> agps_sm \<times> sub_heap \<Rightarrow> agps_sm \<times> sub_heap" where
  "requestOrReleaseDataConn request = (\<lambda>(sm, h).
     (sm\<lparr>sm_calls := sm_calls sm @ [StatusV4Cb request (mAgpsType sm) (mApnTypeMask sm) (mSubId sm)]\<rparr>, h))"

text \<open>\<open>MAX_APN_LEN\<close> is 100; the APN is given without its terminating zero.\<close>

definition setAPN :: "string option \<Rightarrow> 32 word \<Rightarrow> agps_sm \<Rightarrow> agps_sm" where
  "setAPN apn len sm =
     (case apn of
        None \<Rightarrow> sm\<lparr>mAPN := None, mAPNLen := 0\<rparr>
      | Some s \<Rightarrow>
          if len > 100 \<or> length s \<noteq> unat len then sm\<lparr>mAPN := None, mAPNLen := 0\<rparr>
          else sm\<lparr>mAPN := Some (take (unat len) s), mAPNLen := len\<rparr>)"

section \<open>Events\<close>

definition processAgpsEventSubscribe :: "agps_sm \<times> sub_heap \<Rightarrow> (agps_sm \<times> sub_heap) option" where
  "processAgpsEventSubscribe st =
     (case mState (fst st) of
        AGPS_STATE_RELEASED \<Rightarrow>
          do { st \<leftarrow> addSubscriber (mCurrentSubscriber (fst st)) st;
               let st = requestOrReleaseDataConn True st;
               Some (transitionState AGPS_STATE_PENDING st) }
      | AGPS_STATE_PENDING \<Rightarrow> addSubscriber (mCurrentSubscriber (fst st)) st
      | AGPS_STATE_ACQUIRED \<Rightarrow>
          do { st \<leftarrow> notifyEventToSubscriber AGPS_EVENT_GRANTED (mCurrentSubscriber (fst st)) False st;
               addSubscriber (mCurrentSubscriber (fst st)) st }
      | AGPS_STATE_RELEASING \<Rightarrow> addSubscriber (mCurrentSubscriber (fst st)) st
      | _ \<Rightarrow> Some st)"

text \<open>What an unsubscription does to the current subscriber in the states with a connection.\<close>

definition retire_current :: "agps_sm \<times> sub_heap \<Rightarrow> (agps_sm \<times> sub_heap) option" where
  "retire_current = (\<lambda>(sm, h).
     do { s \<leftarrow> subs h (mCurrentSubscriber sm);
          if mWaitForCloseComplete s
          then Some (sm, h\<lparr>subs := (subs h)(mCurrentSubscriber sm := Some (s\<lparr>mIsInactive := True\<rparr>))\<rparr>)
          else notifyEventToSubscriber AGPS_EVENT_UNSUBSCRIBE (mCurrentSubscriber sm) True (sm, h) })"

definition processAgpsEventUnsubscribe :: "agps_sm \<times> sub_heap \<Rightarrow> (agps_sm \<times> sub_heap) option" where
  "processAgpsEventUnsubscribe st =
     (case mState (fst st) of
        AGPS_STATE_RELEASED \<Rightarrow>
          notifyEventToSubscriber AGPS_EVENT_UNSUBSCRIBE (mCurrentSubscriber (fst st)) False st
      | state \<Rightarrow>
          if state = AGPS_STATE_PENDING \<or> state = AGPS_STATE_ACQUIRED then
            do { st \<leftarrow> retire_current st;
                 if mSubscriberList (fst st) = [] then
                   Some (requestOrReleaseDataConn False (transitionState AGPS_STATE_RELEASED st))
                 else do {
                   active \<leftarrow> anyActiveSubscribers st;
                   if \<not> active then
                     Some (requestOrReleaseDataConn False (transitionState AGPS_STATE_RELEASING st))
                   else Some st } }
          else if state = AGPS_STATE_RELEASING then
            do { st \<leftarrow> retire_current st;
                 if mSubscriberList (fst st) = [] then Some (transitionState AGPS_STATE_RELEASED st)
                 else Some st }
          else Some st)"

definition processAgpsEventGranted :: "agps_sm \<times> sub_heap \<Rightarrow> (agps_sm \<times> sub_heap) option" where
  "processAgpsEventGranted st =
     (case mState (fst st) of
        AGPS_STATE_PENDING \<Rightarrow>
          notifyAllSubscribers AGPS_EVENT_GRANTED False FOR_ACTIVE_SUBSCRIBERS
            (transitionState AGPS_STATE_ACQUIRED st)
      | _ \<Rightarrow> Some st)"

text \<open>The branch that \<open>processAgpsEventReleased\<close> and \<open>processAgpsEventDenied\<close> have for RELEASING.\<close>

definition finish_release :: "agps_sm \<times> sub_heap \<Rightarrow> (agps_sm \<times> sub_heap) option" where
  "finish_release st =
     do { st \<leftarrow> notifyAllSubscribers AGPS_EVENT_RELEASED True FOR_INACTIVE_SUBSCRIBERS st;
          active \<leftarrow> anyActiveSubscribers st;
          if active then Some (requestOrReleaseDataConn True (transitionState AGPS_STATE_PENDING st))
          else Some (transitionState AGPS_STATE_RELEASED st) }"

definition processAgpsEventReleased :: "agps_sm \<times> sub_heap \<Rightarrow> (agps_sm \<times> sub_heap) option" where
  "processAgpsEventReleased st =
     (case mState (fst st) of
        AGPS_STATE_ACQUIRED \<Rightarrow>
          notifyAllSubscribers AGPS_EVENT_RELEASED True FOR_ALL_SUBSCRIBERS
            (transitionState AGPS_STATE_RELEASED st)
      | AGPS_STATE_RELEASING \<Rightarrow> finish_release st
      | _ \<Rightarrow> Some st)"

definition processAgpsEventDenied :: "agps_sm \<times> sub_heap \<Rightarrow> (agps_sm \<times> sub_heap) option" where
  "processAgpsEventDenied st =
     (case mState (fst st) of
        AGPS_STATE_RELEASING \<Rightarrow> finish_release st
      | AGPS_STATE_PENDING \<Rightarrow>
          notifyAllSubscribers AGPS_EVENT_DENIED True FOR_ALL_SUBSCRIBERS
            (transitionState AGPS_STATE_RELEASED st)
      | _ \<Rightarrow> Some st)"

definition processAgpsEvent :: "agps_event \<Rightarrow> agps_sm \<times> sub_heap \<Rightarrow> (agps_sm \<times> sub_heap) option" where
  "processAgpsEvent event st =
     (case event of
        AGPS_EVENT_SUBSCRIBE \<Rightarrow> processAgpsEventSubscribe st
      | AGPS_EVENT_UNSUBSCRIBE \<Rightarrow> processAgpsEventUnsubscribe st
      | AGPS_EVENT_GRANTED \<Rightarrow> processAgpsEventGranted st
      | AGPS_EVENT_RELEASED \<Rightarrow> processAgpsEventReleased st
      | AGPS_EVENT_DENIED \<Rightarrow> processAgpsEventDenied st
      | AGPS_EVENT_INVALID \<Rightarrow> Some st)"

end
