(* ===== verification/AgpsManager.thy ===== *)
theory AgpsManager
  imports AgpsSm
begin

text \<open>
  AgpsManager of gps/gnss/Agps.cpp: the requests of the modem and the reports of the
  framework, dispatched to the two state machines, and scripts of such operations.
\<close>

section \<open>The manager\<close>

text \<open>The two state machines by the members that hold them.\<close>

datatype nif = AgnssNif | InternetNif

text \<open>
  The manager with the heap of all subscribers; \<open>mgr_calls\<close> are the callbacks it makes itself.
  \<open>agpsCapable\<close> and \<open>emergency_pdn\<close> are what it reads of the configuration.
\<close>

record agps_mgr =
  mAgnssNif :: "agps_sm option"
  mInternetNif :: "agps_sm option"
  sub_objs :: sub_heap
  mgr_calls :: "agps_call list"
  agpsCapable :: bool
  emergency_pdn :: bool

definition agps_mgr_new :: "bool \<Rightarrow> bool \<Rightarrow> agps_mgr" where
  "agps_mgr_new capable emergency =
     \<lparr>mAgnssNif = None, mInternetNif = None, sub_objs = \<lparr>subs = (\<lambda>_. None), brk = 1\<rparr>,
      mgr_calls = [], agpsCapable = capable, emergency_pdn = emergency\<rparr>"

definition nif_of :: "nif \<Rightarrow> agps_mgr \<Rightarrow> agps_sm option" where
  "nif_of n m = (case n of AgnssNif \<Rightarrow> mAgnssNif m | InternetNif \<Rightarrow> mInternetNif m)"

definition put_nif :: "nif \<Rightarrow> agps_sm \<times> sub_heap \<Rightarrow> agps_mgr \<Rightarrow> agps_mgr" where
  "put_nif n = (\<lambda>(sm, h) m.
     (case n of AgnssNif \<Rightarrow> m\<lparr>mAgnssNif := Some sm, sub_objs := h\<rparr>
      | InternetNif \<Rightarrow> m\<lparr>mInternetNif := Some sm, sub_objs := h\<rparr>))"

text \<open>\<open>createAgpsStateMachines\<close>, with the bits of \<open>AGpsTypeBits\<close> in \<open>atlType\<close>.\<close>

definition createAgpsStateMachines :: "32 word \<Rightarrow> 32 word \<Rightarrow> int \<Rightarrow> agps_mgr \<Rightarrow> agps_mgr" where
  "createAgpsStateMachines atlType mask0 subId0 m =
     (let m = (if mInternetNif m = None \<and> atlType AND 4 \<noteq> 0
               then m\<lparr>mInternetNif := Some (agps_sm_new AGPS_TYPE_WWAN_ANY mask0 subId0)\<rparr> else m) in
      if agpsCapable m then
        if mAgnssNif m = None \<and> atlType AND 1 \<noteq> 0 \<and> atlType AND 2 \<noteq> 0
        then m\<lparr>mAgnssNif := Some (agps_sm_new AGPS_TYPE_SUPL mask0 subId0)\<rparr> else m
      else m)"

text \<open>\<open>getAgpsStateMachine\<close>: which one, or none if it has not been created.\<close>

definition getAgpsStateMachine :: "agps_type \<Rightarrow> agps_mgr \<Rightarrow> nif option" where
  "getAgpsStateMachine agpsType m =
     (if agpsType \<in> {AGPS_TYPE_INVALID, AGPS_TYPE_SUPL, AGPS_TYPE_SUPL_ES}
      then if mAgnssNif m = None then None else Some AgnssNif
      else if mInternetNif m = None then None else Some InternetNif)"

text \<open>Sending an event to a state machine, after its members have been set.\<close>

definition nif_event :: "nif \<Rightarrow> (agps_sm \<Rightarrow> agps_sm) \<Rightarrow> agps_event \<Rightarrow> agps_mgr \<Rightarrow> agps_mgr option" where
  "nif_event n setter event m =
     do { sm \<leftarrow> nif_of n m;
          st \<leftarrow> processAgpsEvent event (setter sm, sub_objs m);
          Some (put_nif n st m) }"

text \<open>\<open>requestATL\<close>: the subscriber is a local variable, gone when the function returns.\<close>

definition requestATL :: "int \<Rightarrow> agps_type \<Rightarrow> 32 word \<Rightarrow> int \<Rightarrow> agps_mgr \<Rightarrow> agps_mgr option" where
  "requestATL connHandle agpsType apnTypeMask subId m =
     (let (agpsType, apnTypeMask) =
            (if \<not> emergency_pdn m \<and> agpsType = AGPS_TYPE_SUPL_ES
             then (AGPS_TYPE_SUPL, apnTypeMask AND NOT (push_bit 9 1) OR push_bit 4 1)
             else (agpsType, apnTypeMask)) in
      case getAgpsStateMachine agpsType m of
        None \<Rightarrow> Some (m\<lparr>mgr_calls := mgr_calls m @ [AtlOpenStatusCb connHandle False None 0 0 agpsType apnTypeMask]\<rparr>)
      | Some n \<Rightarrow>
          let (p, h) = new_sub \<lparr>mConnHandle = connHandle, mWaitForCloseComplete = True,
                                mIsInactive = False, sub_mask = apnTypeMask\<rparr> (sub_objs m) in
          do { m \<leftarrow> nif_event n
                 (\<lambda>sm. sm\<lparr>mAgpsType := agpsType, mApnTypeMask := apnTypeMask, mSubId := subId,
                          mCurrentSubscriber := p\<rparr>)
                 AGPS_EVENT_SUBSCRIBE (m\<lparr>sub_objs := h\<rparr>);
               h \<leftarrow> delete_sub p (sub_objs m);
               Some (m\<lparr>sub_objs := h\<rparr>) })"

text \<open>The subscriber with a handle in the given state machine; NULL without one or the other.\<close>

definition find_in_nif :: "nif \<Rightarrow> int \<Rightarrow> agps_mgr \<Rightarrow> ptr option" where
  "find_in_nif n connHandle m =
     (case nif_of n m of None \<Rightarrow> Some NULL | Some sm \<Rightarrow> getSubscriber connHandle sm (sub_objs m))"

definition releaseATL :: "int \<Rightarrow> agps_mgr \<Rightarrow> agps_mgr option" where
  "releaseATL connHandle m =
     do { p \<leftarrow> find_in_nif AgnssNif connHandle m;
          if p \<noteq> NULL
          then nif_event AgnssNif (\<lambda>sm. sm\<lparr>mCurrentSubscriber := p\<rparr>) AGPS_EVENT_UNSUBSCRIBE m
          else do {
            p \<leftarrow> find_in_nif InternetNif connHandle m;
            if p \<noteq> NULL
            then nif_event InternetNif (\<lambda>sm. sm\<lparr>mCurrentSubscriber := p\<rparr>) AGPS_EVENT_UNSUBSCRIBE m
            else Some m } }"

text \<open>The length of an APN is an \<open>int\<close> here and unsigned in \<open>setAPN\<close>.\<close>

definition reportAtlOpenSuccess :: "agps_type \<Rightarrow> string option \<Rightarrow> int \<Rightarrow> int \<Rightarrow> agps_mgr \<Rightarrow> agps_mgr option" where
  "reportAtlOpenSuccess agpsType apnName apnLen bearerType m =
     (case getAgpsStateMachine agpsType m of
        None \<Rightarrow> Some m
      | Some n \<Rightarrow>
          nif_event n (\<lambda>sm. setAPN apnName (word_of_int apnLen) (sm\<lparr>mBearer := bearerType\<rparr>))
            AGPS_EVENT_GRANTED m)"

definition reportAtlOpenFailed :: "agps_type \<Rightarrow> agps_mgr \<Rightarrow> agps_mgr option" where
  "reportAtlOpenFailed agpsType m =
     (case getAgpsStateMachine agpsType m of
        None \<Rightarrow> Some m
      | Some n \<Rightarrow> nif_event n (\<lambda>sm. sm) AGPS_EVENT_DENIED m)"

definition reportAtlClosed :: "agps_type \<Rightarrow> agps_mgr \<Rightarrow> agps_mgr option" where
  "reportAtlClosed agpsType m =
     (case getAgpsStateMachine agpsType m of
        None \<Rightarrow> Some m
      | Some n \<Rightarrow> nif_event n (\<lambda>sm. sm) AGPS_EVENT_RELEASED m)"

definition drop_nif :: "nif \<Rightarrow> agps_mgr \<Rightarrow> agps_mgr option" where
  "drop_nif n m =
     (case nif_of n m of
        None \<Rightarrow> Some m
      | Some sm \<Rightarrow> do { st \<leftarrow> dropAllSubscribers (sm, sub_objs m); Some (put_nif n st m) })"

definition handleModemSSR :: "agps_mgr \<Rightarrow> agps_mgr option" where
  "handleModemSSR m = do { m \<leftarrow> drop_nif AgnssNif m; drop_nif InternetNif m }"

section \<open>Scripts\<close>

datatype agps_op =
    CreateSms "32 word" "32 word" int
  | RequestATL int agps_type "32 word" int
  | ReleaseATL int
  | OpenSuccess agps_type "string option" int int
  | OpenFailed agps_type
  | Closed agps_type
  | ModemSSR

definition mgr_step :: "agps_op \<Rightarrow> agps_mgr \<Rightarrow> agps_mgr option" where
  "mgr_step oper m =
     (case oper of
        CreateSms atlType mask0 subId0 \<Rightarrow> Some (createAgpsStateMachines atlType mask0 subId0 m)
      | RequestATL h t k i \<Rightarrow> requestATL h t k i m
      | ReleaseATL h \<Rightarrow> releaseATL h m
      | OpenSuccess t apn len b \<Rightarrow> reportAtlOpenSuccess t apn len b m
      | OpenFailed t \<Rightarrow> reportAtlOpenFailed t m
      | Closed t \<Rightarrow> reportAtlClosed t m
      | ModemSSR \<Rightarrow> handleModemSSR m)"

fun mgr_run :: "agps_op list \<Rightarrow> agps_mgr \<Rightarrow> agps_mgr option" where
  "mgr_run [] m = Some m"
| "mgr_run (x # xs) m = do { m \<leftarrow> mgr_step x m; mgr_run xs m }"

end
