(* ===== verification/AgpsSpec.thy ===== *)
theory AgpsSpec
  imports AgpsManager
begin

text \<open>
  An abstract AGPS state machine whose subscribers are values in a list, and the proof that
  the state machine on the heap refines it: it never reads a deleted subscriber, and its heap
  is the list.
\<close>

section \<open>The abstract machine\<close>

text \<open>The subscriber list of the record is not used; the subscribers are in the second component.\<close>

definition a_add :: "subscriber \<Rightarrow> subscriber list \<Rightarrow> subscriber list" where
  "a_add s vs = (if mConnHandle s \<in> mConnHandle ` set vs then vs else vs @ [s])"

definition a_retire :: "int \<Rightarrow> subscriber list \<Rightarrow> subscriber list" where
  "a_retire handle vs = map (\<lambda>v. if mConnHandle v = handle then v\<lparr>mIsInactive := True\<rparr> else v) vs"

definition a_notify :: "agps_event \<Rightarrow> subscriber list \<Rightarrow> agps_sm \<Rightarrow> agps_sm" where
  "a_notify event vs sm = fold (notify_call event) vs sm"

definition some_active :: "subscriber list \<Rightarrow> bool" where
  "some_active vs \<longleftrightarrow> (\<exists>v \<in> set vs. \<not> mIsInactive v)"

definition a_conn :: "bool \<Rightarrow> agps_sm \<Rightarrow> agps_sm" where
  "a_conn request sm =
     sm\<lparr>sm_calls := sm_calls sm @ [StatusV4Cb request (mAgpsType sm) (mApnTypeMask sm) (mSubId sm)]\<rparr>"

definition a_subscribe :: "subscriber \<Rightarrow> agps_sm \<times> subscriber list \<Rightarrow> agps_sm \<times> subscriber list" where
  "a_subscribe s = (\<lambda>(sm, vs).
     (case mState sm of
        AGPS_STATE_RELEASED \<Rightarrow> ((a_conn True sm)\<lparr>mState := AGPS_STATE_PENDING\<rparr>, a_add s vs)
      | AGPS_STATE_PENDING \<Rightarrow> (sm, a_add s vs)
      | AGPS_STATE_ACQUIRED \<Rightarrow> (notify_call AGPS_EVENT_GRANTED s sm, a_add s vs)
      | AGPS_STATE_RELEASING \<Rightarrow> (sm, a_add s vs)
      | AGPS_STATE_INVALID \<Rightarrow> (sm, vs)))"

definition a_unsubscribe :: "subscriber \<Rightarrow> agps_sm \<times> subscriber list \<Rightarrow> agps_sm \<times> subscriber list" where
  "a_unsubscribe s = (\<lambda>(sm, vs).
     (case mState sm of
        AGPS_STATE_RELEASED \<Rightarrow> (notify_call AGPS_EVENT_UNSUBSCRIBE s sm, vs)
      | AGPS_STATE_RELEASING \<Rightarrow> (sm, a_retire (mConnHandle s) vs)
      | AGPS_STATE_INVALID \<Rightarrow> (sm, vs)
      | _ \<Rightarrow>
          (if some_active (a_retire (mConnHandle s) vs) then sm
           else (a_conn False sm)\<lparr>mState := AGPS_STATE_RELEASING\<rparr>, a_retire (mConnHandle s) vs)))"

definition a_finish :: "agps_sm \<times> subscriber list \<Rightarrow> agps_sm \<times> subscriber list" where
  "a_finish = (\<lambda>(sm, vs).
     let sm = a_notify AGPS_EVENT_RELEASED (filter mIsInactive vs) sm;
         vs = filter (\<lambda>v. \<not> mIsInactive v) vs
     in (if vs \<noteq> [] then (a_conn True sm)\<lparr>mState := AGPS_STATE_PENDING\<rparr>
         else sm\<lparr>mState := AGPS_STATE_RELEASED\<rparr>, vs))"

definition a_granted :: "agps_sm \<times> subscriber list \<Rightarrow> agps_sm \<times> subscriber list" where
  "a_granted = (\<lambda>(sm, vs).
     if mState sm = AGPS_STATE_PENDING
     then (a_notify AGPS_EVENT_GRANTED (filter (\<lambda>v. \<not> mIsInactive v) vs) (sm\<lparr>mState := AGPS_STATE_ACQUIRED\<rparr>), vs)
     else (sm, vs))"

definition a_released :: "agps_sm \<times> subscriber list \<Rightarrow> agps_sm \<times> subscriber list" where
  "a_released = (\<lambda>(sm, vs).
     if mState sm = AGPS_STATE_ACQUIRED
     then (a_notify AGPS_EVENT_RELEASED vs (sm\<lparr>mState := AGPS_STATE_RELEASED\<rparr>), [])
     else if mState sm = AGPS_STATE_RELEASING then a_finish (sm, vs)
     else (sm, vs))"

definition a_denied :: "agps_sm \<times> subscriber list \<Rightarrow> agps_sm \<times> subscriber list" where
  "a_denied = (\<lambda>(sm, vs).
     if mState sm = AGPS_STATE_PENDING
     then (a_notify AGPS_EVENT_DENIED vs (sm\<lparr>mState := AGPS_STATE_RELEASED\<rparr>), [])
     else if mState sm = AGPS_STATE_RELEASING then a_finish (sm, vs)
     else (sm, vs))"

definition a_event :: "agps_event \<Rightarrow> subscriber \<Rightarrow> agps_sm \<times> subscriber list \<Rightarrow> agps_sm \<times> subscriber list" where
  "a_event event s st =
     (case event of
        AGPS_EVENT_SUBSCRIBE \<Rightarrow> a_subscribe s st
      | AGPS_EVENT_UNSUBSCRIBE \<Rightarrow> a_unsubscribe s st
      | AGPS_EVENT_GRANTED \<Rightarrow> a_granted st
      | AGPS_EVENT_RELEASED \<Rightarrow> a_released st
      | AGPS_EVENT_DENIED \<Rightarrow> a_denied st
      | AGPS_EVENT_INVALID \<Rightarrow> st)"

section \<open>A list of subscribers on the heap\<close>

definition lives :: "sub_heap \<Rightarrow> ptr list \<Rightarrow> subscriber list \<Rightarrow> bool" where
  "lives h qs vs \<longleftrightarrow> map (subs h) qs = map Some vs \<and> distinct qs \<and> (\<forall>q \<in> set qs. q \<noteq> NULL \<and> q < brk h) \<and>
     0 < brk h"

text \<open>What a step of one state machine may do to the heap.\<close>

definition frame :: "ptr list \<Rightarrow> sub_heap \<Rightarrow> ptr list \<Rightarrow> sub_heap \<Rightarrow> bool" where
  "frame qs h qs' h' \<longleftrightarrow> brk h \<le> brk h' \<and> (\<forall>q \<in> set qs' - set qs. brk h \<le> q) \<and>
     (\<forall>p. p \<notin> set qs \<longrightarrow> p \<notin> set qs' \<longrightarrow> subs h' p = subs h p) \<and>
     (\<forall>p \<in> set qs - set qs'. subs h' p = None)"

text \<open>The subscribers of the manager wait for the close, and have different handles.\<close>

definition subs_wf :: "subscriber list \<Rightarrow> bool" where
  "subs_wf vs \<longleftrightarrow> distinct (map mConnHandle vs) \<and> (\<forall>v \<in> set vs. mWaitForCloseComplete v)"

lemma frame_refl: "frame qs h qs h"
  by (simp add: frame_def)

lemma lives_at: "lives h qs vs \<Longrightarrow> q \<in> set qs \<Longrightarrow> \<exists>v \<in> set vs. subs h q = Some v"
proof -
  assume "lives h qs vs" "q \<in> set qs"
  then have "subs h q \<in> set (map Some vs)" unfolding lives_def by (metis imageI set_map)
  then show ?thesis by auto
qed

lemma find_equal_lives:
  "map (subs h) qs = map Some vs \<Longrightarrow> subs h p = Some s \<Longrightarrow>
   find_equal h p qs = Some (mConnHandle s \<in> mConnHandle ` set vs)"
  by (induction qs arbitrary: vs) (auto simp: map_eq_Cons_conv Cons_eq_map_conv)

lemma any_active_lives:
  "map (subs h) qs = map Some vs \<Longrightarrow> any_active h qs = Some (some_active vs)"
  by (induction qs arbitrary: vs) (auto simp: some_active_def Cons_eq_map_conv)

lemma get_first_lives:
  "map (subs h) qs = map Some vs \<Longrightarrow> \<exists>p. get_first P h qs = Some p \<and>
     (p = NULL \<and> (\<forall>v \<in> set vs. \<not> P v) \<or> p \<in> set qs \<and> (\<exists>v \<in> set vs. subs h p = Some v \<and> P v))"
  by (induction qs arbitrary: vs) (fastforce simp: Cons_eq_map_conv)+

lemma delete_all_lives:
  "map (subs h) qs = map Some vs \<Longrightarrow> distinct qs \<Longrightarrow>
   delete_all qs h = Some (h\<lparr>subs := (\<lambda>p. if p \<in> set qs then None else subs h p)\<rparr>)"
proof (induction qs arbitrary: vs h)
  case Nil
  then show ?case by simp
next
  case (Cons q qs)
  then obtain v vs' where v: "subs h q = Some v" "map (subs h) qs = map Some vs'"
    by (auto simp: Cons_eq_map_conv)
  let ?h = "h\<lparr>subs := (subs h)(q := None)\<rparr>"
  have "map (subs ?h) qs = map Some vs'" using v(2) Cons.prems(2) by (auto simp: map_eq_conv)
  from Cons.IH[OF this] Cons.prems(2) v(1) show ?case
    by (auto simp: delete_sub_def fun_eq_iff)
qed

lemma notify_call_list [simp]:
  "mSubscriberList (notify_call e s sm) = mSubscriberList sm"
  "notify_call e s (sm\<lparr>mSubscriberList := qs\<rparr>) = (notify_call e s sm)\<lparr>mSubscriberList := qs\<rparr>"
  "mState (notify_call e s sm) = mState sm"
  by (cases e; simp add: notify_call_def)+

lemma a_notify_list [simp]:
  "mSubscriberList (a_notify e vs sm) = mSubscriberList sm"
  "a_notify e vs (sm\<lparr>mSubscriberList := qs\<rparr>) = (a_notify e vs sm)\<lparr>mSubscriberList := qs\<rparr>"
  "mState (a_notify e vs sm) = mState sm"
  by (induction vs arbitrary: sm; simp add: a_notify_def)+

lemma notify_loop_lives:
  assumes "map (subs h) qs = map Some vs" "distinct qs" "e \<notin> {AGPS_EVENT_INVALID, AGPS_EVENT_SUBSCRIBE}"
  shows "notify_loop e del nt qs (sm, h) =
     Some (if del then filter (\<lambda>q. \<not> notifies nt (the (subs h q))) qs else qs,
           a_notify e (filter (notifies nt) vs) sm,
           if del then h\<lparr>subs := (\<lambda>p. if p \<in> set qs \<and> notifies nt (the (subs h p)) then None else subs h p)\<rparr>
           else h)"
  using assms
proof (induction qs arbitrary: vs h sm)
  case Nil
  then show ?case by (simp add: a_notify_def)
next
  case (Cons q qs)
  then obtain v vs' where v: "subs h q = Some v" "map (subs h) qs = map Some vs'" "vs = v # vs'"
    by (auto simp: Cons_eq_map_conv)
  let ?h = "h\<lparr>subs := (subs h)(q := None)\<rparr>"
  have q: "q \<notin> set qs" using Cons.prems(2) by simp
  have "map (subs ?h) qs = map Some vs'" using v(2) q by (auto simp: map_eq_conv)
  note IH' = Cons.IH[OF this] and IH = Cons.IH[OF v(2)]
  have f: "filter (\<lambda>p. \<not> notifies nt (the (if p = q then None else subs h p))) qs =
      filter (\<lambda>p. \<not> notifies nt (the (subs h p))) qs"
    using q by (auto intro: filter_cong)
  have eq: "?h\<lparr>subs := \<lambda>p. if p \<in> set qs \<and> notifies nt (the (subs ?h p)) then None else subs ?h p\<rparr> =
      h\<lparr>subs := \<lambda>p. if p \<in> set (q # qs) \<and> notifies nt (the (subs h p)) then None else subs h p\<rparr>"
    if "notifies nt v"
    using that v(1) q by (cases h) (auto simp: fun_eq_iff)
  have eq': "(\<lambda>p. if p \<in> set qs \<and> notifies nt (the (subs h p)) then None else subs h p) =
      (\<lambda>p. if p \<in> set (q # qs) \<and> notifies nt (the (subs h p)) then None else subs h p)"
    if "\<not> notifies nt v"
    using that v(1) by auto
  show ?case
    using Cons.prems(2,3) v IH[of sm] IH'[of "notify_call e v sm"] IH[of "notify_call e v sm"] f eq eq'
    by (cases "notifies nt v"; cases del) (simp_all add: notifyEventToSubscriber_def delete_sub_def a_notify_def)
qed

lemma filter_lives:
  "map f qs = map Some vs \<Longrightarrow> map f (filter (\<lambda>q. P (the (f q))) qs) = map Some (filter P vs)"
  by (induction qs arbitrary: vs) (auto simp: Cons_eq_map_conv)

section \<open>Every event refines the abstract machine\<close>

text \<open>
  A step of the machine on the heap: it returns, its state machine is the abstract one up to
  the list of pointers, the new list lives, and the rest of the heap is left alone.
\<close>

definition refined :: "ptr list \<Rightarrow> sub_heap \<Rightarrow> (agps_sm \<times> sub_heap) option \<Rightarrow> agps_sm \<times> subscriber list \<Rightarrow> bool" where
  "refined qs h r ast \<longleftrightarrow> (\<exists>qs' h'. r = Some ((fst ast)\<lparr>mSubscriberList := qs'\<rparr>, h') \<and>
     lives h' qs' (snd ast) \<and> frame qs h qs' h')"

lemma refined_same: "lives h (mSubscriberList sm) vs \<Longrightarrow> refined (mSubscriberList sm) h (Some (sm, h)) (sm, vs)"
  by (auto simp: refined_def frame_refl intro!: exI[of _ "mSubscriberList sm"])

text \<open>What changes the state machine but not its list.\<close>

lemma refined_bind:
  assumes "refined qs h r (sm, vs)"
    "\<And>qs' h'. r = Some (sm\<lparr>mSubscriberList := qs'\<rparr>, h') \<Longrightarrow> lives h' qs' vs \<Longrightarrow>
       f (sm\<lparr>mSubscriberList := qs'\<rparr>, h') = Some (sm'\<lparr>mSubscriberList := qs'\<rparr>, h')"
  shows "refined qs h (Option.bind r f) (sm', vs)"
  using assms by (auto simp: refined_def)

lemma addSubscriber_refined:
  assumes "lives h (mSubscriberList sm) vs" "subs h p = Some s"
  shows "refined (mSubscriberList sm) h (addSubscriber p (sm, h)) (sm, a_add s vs)"
proof (cases "mConnHandle s \<in> mConnHandle ` set vs")
  case True
  with assms show ?thesis
    using find_equal_lives[of h "mSubscriberList sm" vs p s] refined_same[OF assms(1)]
    by (simp add: addSubscriber_def a_add_def lives_def)
next
  case False
  let ?qs = "mSubscriberList sm"
  let ?h = "h\<lparr>subs := (subs h)(brk h := Some s), brk := brk h + 1\<rparr>"
  have new: "brk h \<notin> set ?qs" using assms(1) by (auto simp: lives_def)
  then have "map (subs ?h) ?qs = map (subs h) ?qs" by (auto simp: map_eq_conv)
  then have "lives ?h (?qs @ [brk h]) (vs @ [s])"
    using assms(1) new by (auto simp: lives_def less_Suc_eq)
  moreover have "frame ?qs h (?qs @ [brk h]) ?h" by (auto simp: frame_def)
  moreover have "addSubscriber p (sm, h) = Some (sm\<lparr>mSubscriberList := ?qs @ [brk h]\<rparr>, ?h)"
    using find_equal_lives[of h ?qs vs p s] assms False
    by (simp add: addSubscriber_def new_sub_def lives_def)
  ultimately show ?thesis using False by (auto simp: refined_def a_add_def)
qed

lemma notifyAllSubscribers_refined:
  assumes "lives h (mSubscriberList sm) vs" "e \<notin> {AGPS_EVENT_INVALID, AGPS_EVENT_SUBSCRIBE}"
  shows "refined (mSubscriberList sm) h (notifyAllSubscribers e del nt (sm, h))
     (a_notify e (filter (notifies nt) vs) sm, if del then filter (\<lambda>v. \<not> notifies nt v) vs else vs)"
proof -
  let ?qs = "mSubscriberList sm"
  let ?dead = "\<lambda>q. notifies nt (the (subs h q))"
  have l: "map (subs h) ?qs = map Some vs" "distinct ?qs" using assms(1) by (auto simp: lives_def)
  note loop = notify_loop_lives[OF l assms(2), of del nt sm]
  show ?thesis
  proof (cases del)
    case True
    let ?h = "h\<lparr>subs := (\<lambda>p. if p \<in> set ?qs \<and> ?dead p then None else subs h p)\<rparr>"
    let ?qs' = "filter (\<lambda>q. \<not> ?dead q) ?qs"
    have "map (subs ?h) ?qs' = map (subs h) ?qs'" by (auto simp: map_eq_conv)
    then have "lives ?h ?qs' (filter (\<lambda>v. \<not> notifies nt v) vs)"
      using filter_lives[OF l(1), of "\<lambda>v. \<not> notifies nt v"] assms(1) by (simp add: lives_def)
    moreover have "frame ?qs h ?qs' ?h" by (auto simp: frame_def)
    ultimately show ?thesis
      using loop True by (auto simp: refined_def notifyAllSubscribers_def)
  next
    case False
    then show ?thesis
      using loop assms(1) by (auto simp: refined_def notifyAllSubscribers_def frame_refl)
  qed
qed

lemma notifies_cases [simp]:
  "notifies FOR_ALL_SUBSCRIBERS v" "notifies FOR_INACTIVE_SUBSCRIBERS = mIsInactive"
  "notifies FOR_ACTIVE_SUBSCRIBERS = (\<lambda>v. \<not> mIsInactive v)"
  by (auto simp: notifies_def)

lemma refined_cong: "refined qs h r ast \<Longrightarrow> r = r' \<Longrightarrow> ast = ast' \<Longrightarrow> refined qs h r' ast'"
  by simp

lemma finish_release_refined:
  assumes "lives h (mSubscriberList sm) vs"
  shows "refined (mSubscriberList sm) h (finish_release (sm, h)) (a_finish (sm, vs))"
proof -
  let ?vs = "filter (\<lambda>v. \<not> mIsInactive v) vs"
  let ?sm = "a_notify AGPS_EVENT_RELEASED (filter mIsInactive vs) sm"
  have r: "refined (mSubscriberList sm) h
      (notifyAllSubscribers AGPS_EVENT_RELEASED True FOR_INACTIVE_SUBSCRIBERS (sm, h)) (?sm, ?vs)"
    using notifyAllSubscribers_refined[OF assms, of AGPS_EVENT_RELEASED True FOR_INACTIVE_SUBSCRIBERS] by simp
  have "some_active ?vs \<longleftrightarrow> ?vs \<noteq> []" by (auto simp: some_active_def filter_empty_conv)
  with refined_bind[OF r] show ?thesis
    unfolding finish_release_def a_finish_def
    by (auto simp: Let_def anyActiveSubscribers_def any_active_lives lives_def requestOrReleaseDataConn_def
        transitionState_def a_conn_def cong: option.case_cong)
qed

lemma a_retire_other: "handle \<notin> mConnHandle ` set vs \<Longrightarrow> a_retire handle vs = vs"
  by (induction vs) (auto simp: a_retire_def)

lemma retire_lives:
  assumes "map f qs = map Some vs" "distinct qs" "distinct (map mConnHandle vs)" "p \<in> set qs" "f p = Some s"
  shows "map (f(p := Some (s\<lparr>mIsInactive := True\<rparr>))) qs = map Some (a_retire (mConnHandle s) vs)"
  using assms
proof (induction qs arbitrary: vs)
  case Nil
  then show ?case by simp
next
  case (Cons q qs)
  then obtain v vs' where v: "f q = Some v" "map f qs = map Some vs'" "vs = v # vs'"
    by (auto simp: Cons_eq_map_conv)
  show ?case
  proof (cases "p = q")
    case True
    then have "v = s" "mConnHandle s \<notin> mConnHandle ` set vs'" using Cons.prems v by auto
    then have "a_retire (mConnHandle s) vs = s\<lparr>mIsInactive := True\<rparr> # vs'"
      using a_retire_other v(3) by (auto simp: a_retire_def)
    moreover have "map (f(p := Some (s\<lparr>mIsInactive := True\<rparr>))) qs = map f qs"
      using True Cons.prems(2) by (auto simp: map_eq_conv)
    ultimately show ?thesis using True v(2) by (simp only: list.map fun_upd_same)
  next
    case False
    then have p: "p \<in> set qs" using Cons.prems(4) by simp
    then have "Some s \<in> set (map Some vs')" using v(2) Cons.prems(5) by (metis imageI set_map)
    then have "mConnHandle v \<noteq> mConnHandle s" using Cons.prems(3) v(3) by auto
    then show ?thesis
      using Cons.IH[OF v(2) _ _ p Cons.prems(5)] Cons.prems(2,3) v False by (auto simp: a_retire_def)
  qed
qed

lemma retire_refined:
  assumes "lives h (mSubscriberList sm) vs" "subs_wf vs" "mCurrentSubscriber sm \<in> set (mSubscriberList sm)"
    "subs h (mCurrentSubscriber sm) = Some s"
  shows "refined (mSubscriberList sm) h (retire_current (sm, h)) (sm, a_retire (mConnHandle s) vs)"
proof -
  let ?p = "mCurrentSubscriber sm" and ?qs = "mSubscriberList sm"
  let ?h = "h\<lparr>subs := (subs h)(?p := Some (s\<lparr>mIsInactive := True\<rparr>))\<rparr>"
  obtain v where "v \<in> set vs" "subs h ?p = Some v" using lives_at[OF assms(1,3)] by blast
  then have w: "mWaitForCloseComplete s" using assms(2,4) by (auto simp: subs_wf_def)
  have "lives ?h ?qs (a_retire (mConnHandle s) vs)"
    using retire_lives[of "subs h" ?qs vs ?p s] assms by (auto simp: lives_def subs_wf_def)
  moreover have "frame ?qs h ?qs ?h" using assms(3) by (auto simp: frame_def)
  ultimately show ?thesis
    using w assms(4) by (auto simp: refined_def retire_current_def intro!: exI[of _ ?qs])
qed

lemma lives_Nil: "lives h qs vs \<Longrightarrow> qs = [] \<longleftrightarrow> vs = []"
  by (auto simp: lives_def dest: map_eq_imp_length_eq)

lemma unsubscribe_refined:
  assumes "lives h (mSubscriberList sm) vs" "subs_wf vs" "mCurrentSubscriber sm \<in> set (mSubscriberList sm)"
    "subs h (mCurrentSubscriber sm) = Some s"
  shows "refined (mSubscriberList sm) h (processAgpsEventUnsubscribe (sm, h)) (a_unsubscribe s (sm, vs))"
proof -
  note r = retire_refined[OF assms]
  have ne: "a_retire (mConnHandle s) vs \<noteq> []" using assms(3) lives_Nil[OF assms(1)] by (auto simp: a_retire_def)
  show ?thesis
  proof (cases "mState sm = AGPS_STATE_RELEASED \<or> mState sm = AGPS_STATE_INVALID")
    case True
    have "refined (mSubscriberList sm) h (Some (notify_call AGPS_EVENT_UNSUBSCRIBE s sm, h))
        (notify_call AGPS_EVENT_UNSUBSCRIBE s sm, vs)"
      using refined_same[of h "notify_call AGPS_EVENT_UNSUBSCRIBE s sm" vs] assms(1) by simp
    with True show ?thesis
      using refined_same[OF assms(1)] assms(4)
      by (auto simp: processAgpsEventUnsubscribe_def a_unsubscribe_def notifyEventToSubscriber_def)
  next
    case False
    then consider "mState sm = AGPS_STATE_PENDING \<or> mState sm = AGPS_STATE_ACQUIRED" | "mState sm = AGPS_STATE_RELEASING"
      by (cases "mState sm") auto
    then show ?thesis
    proof cases
      case 1
      have "refined (mSubscriberList sm) h (processAgpsEventUnsubscribe (sm, h))
          (if some_active (a_retire (mConnHandle s) vs) then sm
           else (a_conn False sm)\<lparr>mState := AGPS_STATE_RELEASING\<rparr>, a_retire (mConnHandle s) vs)"
        using 1 lives_Nil ne
        by (auto simp: processAgpsEventUnsubscribe_def anyActiveSubscribers_def any_active_lives lives_def
            requestOrReleaseDataConn_def transitionState_def a_conn_def intro!: refined_bind[OF r])
      with 1 show ?thesis by (auto simp: a_unsubscribe_def)
    next
      case 2
      with lives_Nil ne have "refined (mSubscriberList sm) h (processAgpsEventUnsubscribe (sm, h))
          (sm, a_retire (mConnHandle s) vs)"
        by (auto simp: processAgpsEventUnsubscribe_def intro!: refined_bind[OF r])
      with 2 show ?thesis by (simp add: a_unsubscribe_def)
    qed
  qed
qed

lemma subscribe_refined:
  assumes "lives h (mSubscriberList sm) vs" "subs h (mCurrentSubscriber sm) = Some s"
  shows "refined (mSubscriberList sm) h (processAgpsEventSubscribe (sm, h)) (a_subscribe s (sm, vs))"
proof -
  let ?sm = "notify_call AGPS_EVENT_GRANTED s sm"
  have cur: "mCurrentSubscriber ?sm = mCurrentSubscriber sm" by (simp add: notify_call_def)
  note r = addSubscriber_refined[OF assms]
  have r': "refined (mSubscriberList sm) h (addSubscriber (mCurrentSubscriber sm) (?sm, h)) (?sm, a_add s vs)"
    using addSubscriber_refined[of h ?sm vs] assms by simp
  show ?thesis
    using r r' refined_same[OF assms(1)] assms(2) cur
    by (cases "mState sm")
       (auto simp: processAgpsEventSubscribe_def a_subscribe_def notifyEventToSubscriber_def
         requestOrReleaseDataConn_def transitionState_def a_conn_def Let_def intro!: refined_bind[OF r])
qed

lemma event_refined:
  assumes "lives h (mSubscriberList sm) vs" "subs_wf vs"
    "event \<in> {AGPS_EVENT_SUBSCRIBE, AGPS_EVENT_UNSUBSCRIBE} \<Longrightarrow> subs h (mCurrentSubscriber sm) = Some s"
    "event = AGPS_EVENT_UNSUBSCRIBE \<Longrightarrow> mCurrentSubscriber sm \<in> set (mSubscriberList sm)"
  shows "refined (mSubscriberList sm) h (processAgpsEvent event (sm, h)) (a_event event s (sm, vs))"
proof -
  have n: "refined (mSubscriberList sm) h (notifyAllSubscribers e del nt (transitionState st (sm, h)))
      (a_notify e (filter (notifies nt) vs) (sm\<lparr>mState := st\<rparr>), if del then filter (\<lambda>v. \<not> notifies nt v) vs else vs)"
    if "e \<notin> {AGPS_EVENT_INVALID, AGPS_EVENT_SUBSCRIBE}" for e del nt st
    using notifyAllSubscribers_refined[of h "sm\<lparr>mState := st\<rparr>" vs e del nt] assms(1) that
    by (simp add: transitionState_def)
  note granted = n[of AGPS_EVENT_GRANTED False FOR_ACTIVE_SUBSCRIBERS AGPS_STATE_ACQUIRED]
  note released = n[of AGPS_EVENT_RELEASED True FOR_ALL_SUBSCRIBERS AGPS_STATE_RELEASED]
  note denied = n[of AGPS_EVENT_DENIED True FOR_ALL_SUBSCRIBERS AGPS_STATE_RELEASED]
  note same = refined_same[OF assms(1)] and fin = finish_release_refined[OF assms(1)]
  show ?thesis
  proof (cases event)
    case AGPS_EVENT_INVALID
    with same show ?thesis by (simp add: processAgpsEvent_def a_event_def)
  next
    case AGPS_EVENT_SUBSCRIBE
    with subscribe_refined[OF assms(1)] assms(3) show ?thesis by (simp add: processAgpsEvent_def a_event_def)
  next
    case AGPS_EVENT_UNSUBSCRIBE
    with unsubscribe_refined[OF assms(1,2)] assms(3,4) show ?thesis
      by (simp add: processAgpsEvent_def a_event_def)
  next
    case AGPS_EVENT_GRANTED
    with granted same show ?thesis
      by (cases "mState sm") (auto simp: processAgpsEvent_def a_event_def processAgpsEventGranted_def a_granted_def)
  next
    case AGPS_EVENT_RELEASED
    with released same fin show ?thesis
      by (cases "mState sm") (auto simp: processAgpsEvent_def a_event_def processAgpsEventReleased_def a_released_def)
  next
    case AGPS_EVENT_DENIED
    with denied same fin show ?thesis
      by (cases "mState sm") (auto simp: processAgpsEvent_def a_event_def processAgpsEventDenied_def a_denied_def)
  qed
qed

end
