(* ===== verification/AgpsInv.thy ===== *)
theory AgpsInv
  imports AgpsSpec
begin

text \<open>
  The invariants of the AGPS machines, proved on the abstract machine and carried over to the
  manager with its two machines on one heap.
\<close>

section \<open>Invariants of the abstract machine\<close>

text \<open>What the state says about the subscribers, as long as they are not dropped.\<close>

definition state_inv :: "agps_sm \<Rightarrow> subscriber list \<Rightarrow> bool" where
  "state_inv sm vs \<longleftrightarrow>
     (case mState sm of
        AGPS_STATE_INVALID \<Rightarrow> False
      | AGPS_STATE_RELEASED \<Rightarrow> vs = []
      | AGPS_STATE_PENDING \<Rightarrow> some_active vs
      | AGPS_STATE_ACQUIRED \<Rightarrow> some_active vs
      | AGPS_STATE_RELEASING \<Rightarrow> (\<exists>v \<in> set vs. mIsInactive v))"

text \<open>The requests (true) and releases (false) sent to the framework, oldest first.\<close>

fun conn_calls :: "agps_call list \<Rightarrow> bool list" where
  "conn_calls [] = []"
| "conn_calls (StatusV4Cb request t k i # cs) = request # conn_calls cs"
| "conn_calls (c # cs) = conn_calls cs"

text \<open>Every release follows a request.\<close>

fun releases_matched :: "bool \<Rightarrow> bool list \<Rightarrow> bool" where
  "releases_matched requested [] = True"
| "releases_matched requested (b # bs) \<longleftrightarrow> (b \<or> requested) \<and> releases_matched b bs"

definition conn_inv :: "agps_sm \<Rightarrow> bool" where
  "conn_inv sm \<longleftrightarrow> mState sm \<noteq> AGPS_STATE_INVALID \<and>
     releases_matched False (conn_calls (sm_calls sm)) \<and>
     (mState sm \<in> {AGPS_STATE_PENDING, AGPS_STATE_ACQUIRED} \<longrightarrow>
        conn_calls (sm_calls sm) \<noteq> [] \<and> last (conn_calls (sm_calls sm)))"

text \<open>The last word to a handle: an open that failed, or a close.\<close>

fun final_calls :: "int \<Rightarrow> agps_call list \<Rightarrow> nat" where
  "final_calls k [] = 0"
| "final_calls k (AtlOpenStatusCb h ok a l b t m # cs) = (if h = k \<and> \<not> ok then 1 else 0) + final_calls k cs"
| "final_calls k (AtlCloseStatusCb h ok # cs) = (if h = k then 1 else 0) + final_calls k cs"
| "final_calls k (StatusV4Cb r t m i # cs) = final_calls k cs"

definition listed :: "int \<Rightarrow> subscriber list \<Rightarrow> nat" where
  "listed k vs = (if k \<in> mConnHandle ` set vs then 1 else 0)"

lemma listed_Nil [simp]: "listed k [] = 0"
  by (simp add: listed_def)

lemma conn_calls_append [simp]: "conn_calls (xs @ ys) = conn_calls xs @ conn_calls ys"
  by (induction xs rule: conn_calls.induct) auto

lemma final_calls_append [simp]: "final_calls k (xs @ ys) = final_calls k xs + final_calls k ys"
  by (induction k xs rule: final_calls.induct) auto

lemma releases_matched_append [simp]:
  "releases_matched b (xs @ ys) \<longleftrightarrow>
     releases_matched b xs \<and> releases_matched (if xs = [] then b else last xs) ys"
  by (induction b xs rule: releases_matched.induct) auto

lemma notify_call_conn [simp]: "conn_calls (sm_calls (notify_call e s sm)) = conn_calls (sm_calls sm)"
  by (cases e) (auto simp: notify_call_def)

lemma a_notify_conn [simp]: "conn_calls (sm_calls (a_notify e vs sm)) = conn_calls (sm_calls sm)"
  by (induction vs arbitrary: sm) (auto simp: a_notify_def)

lemma notify_call_final:
  "final_calls k (sm_calls (notify_call e s sm)) = final_calls k (sm_calls sm) +
     (if mConnHandle s = k \<and> e \<in> {AGPS_EVENT_DENIED, AGPS_EVENT_UNSUBSCRIBE, AGPS_EVENT_RELEASED} then 1 else 0)"
  by (cases e) (auto simp: notify_call_def)

lemma a_notify_final:
  assumes "e \<in> {AGPS_EVENT_DENIED, AGPS_EVENT_RELEASED}" "distinct (map mConnHandle vs)"
  shows "final_calls k (sm_calls (a_notify e vs sm)) = final_calls k (sm_calls sm) + listed k vs"
  using assms(2)
proof (induction vs arbitrary: sm)
  case Nil
  then show ?case by (simp add: a_notify_def listed_def)
next
  case (Cons v vs)
  then have "listed k (v # vs) = (if mConnHandle v = k then 1 else 0) + listed k vs"
    by (auto simp: listed_def)
  with Cons assms(1) show ?case by (auto simp: a_notify_def notify_call_final)
qed

lemma a_notify_granted: "final_calls k (sm_calls (a_notify AGPS_EVENT_GRANTED vs sm)) = final_calls k (sm_calls sm)"
  by (induction vs arbitrary: sm) (auto simp: a_notify_def notify_call_final)

lemma a_conn_simps [simp]:
  "mState (a_conn b sm) = mState sm" "conn_calls (sm_calls (a_conn b sm)) = conn_calls (sm_calls sm) @ [b]"
  "final_calls k (sm_calls (a_conn b sm)) = final_calls k (sm_calls sm)"
  "mSubscriberList (a_conn b sm) = mSubscriberList sm"
  by (simp_all add: a_conn_def)

lemma handles_retire [simp]: "map mConnHandle (a_retire k vs) = map mConnHandle vs"
  by (induction vs) (auto simp: a_retire_def)

lemma listed_retire [simp]: "listed j (a_retire k vs) = listed j vs"
proof -
  have "mConnHandle ` set (a_retire k vs) = mConnHandle ` set vs"
    unfolding set_map [symmetric] handles_retire ..
  then show ?thesis by (simp add: listed_def)
qed

lemma subs_wf_retire: "subs_wf vs \<Longrightarrow> subs_wf (a_retire k vs)"
  by (auto simp: subs_wf_def) (auto simp: a_retire_def)

lemma subs_wf_filter: "subs_wf vs \<Longrightarrow> subs_wf (filter P vs)"
  by (auto simp: subs_wf_def distinct_map intro: inj_on_subset)

lemma a_event_wf:
  "subs_wf vs \<Longrightarrow> mWaitForCloseComplete s \<Longrightarrow> subs_wf (snd (a_event e s (sm, vs)))"
  by (cases e; cases "mState sm")
     (auto simp: a_event_def a_subscribe_def a_unsubscribe_def a_granted_def a_released_def a_denied_def
        a_finish_def Let_def a_add_def subs_wf_retire subs_wf_filter, auto simp: subs_wf_def)

lemma a_event_conn: "conn_inv sm \<Longrightarrow> conn_inv (fst (a_event e s (sm, vs)))"
  by (cases e; cases "mState sm")
     (auto simp: a_event_def a_subscribe_def a_unsubscribe_def a_granted_def a_released_def a_denied_def
        a_finish_def Let_def conn_inv_def)

lemma retired_inactive: "k \<in> mConnHandle ` set vs \<Longrightarrow> \<exists>v \<in> set (a_retire k vs). mIsInactive v"
proof -
  assume "k \<in> mConnHandle ` set vs"
  then obtain v where "v \<in> set vs" "mConnHandle v = k" by auto
  then have "v\<lparr>mIsInactive := True\<rparr> \<in> set (a_retire k vs)" by (force simp: a_retire_def)
  then show ?thesis by (intro bexI) auto
qed

lemma not_some_active: "\<not> some_active vs \<Longrightarrow> v \<in> set vs \<Longrightarrow> mIsInactive v"
  by (auto simp: some_active_def)

lemma a_event_state_inv:
  assumes "state_inv sm vs" "e = AGPS_EVENT_SUBSCRIBE \<Longrightarrow> \<not> mIsInactive s"
    "e = AGPS_EVENT_UNSUBSCRIBE \<Longrightarrow> s \<in> set vs"
  shows "state_inv (fst (a_event e s (sm, vs))) (snd (a_event e s (sm, vs)))"
proof (cases e)
  case AGPS_EVENT_UNSUBSCRIBE
  then have "\<exists>v \<in> set (a_retire (mConnHandle s) vs). mIsInactive v"
    using assms(3) by (intro retired_inactive) auto
  with AGPS_EVENT_UNSUBSCRIBE assms show ?thesis
    by (cases "mState sm") (auto simp: a_event_def a_unsubscribe_def state_inv_def)
next
  case AGPS_EVENT_SUBSCRIBE
  with assms show ?thesis
    by (cases "mState sm") (auto simp: a_event_def a_subscribe_def state_inv_def a_add_def some_active_def)
qed (use assms in \<open>cases "mState sm"; auto simp: a_event_def a_granted_def a_released_def a_denied_def
        a_finish_def Let_def state_inv_def some_active_def filter_empty_conv\<close>)+

text \<open>Accounting: the last words to a handle against its subscriptions.\<close>

lemma listed_filter:
  "subs_wf vs \<Longrightarrow> listed k (filter P vs) + listed k (filter (\<lambda>v. \<not> P v) vs) = listed k vs"
proof (induction vs)
  case Nil
  then show ?case by (simp add: listed_def)
next
  case (Cons v vs)
  then have "mConnHandle v \<notin> mConnHandle ` set vs" "subs_wf vs" by (auto simp: subs_wf_def)
  with Cons.IH show ?case by (auto simp: listed_def split: if_splits)
qed

lemma a_finish_final:
  "subs_wf vs \<Longrightarrow> final_calls k (sm_calls (fst (a_finish (sm, vs)))) + listed k (snd (a_finish (sm, vs))) =
     final_calls k (sm_calls sm) + listed k vs"
  using listed_filter[of vs k mIsInactive] subs_wf_filter[of vs mIsInactive]
  by (auto simp: a_finish_def Let_def a_notify_final subs_wf_def)

lemma a_event_final:
  assumes "state_inv sm vs" "subs_wf vs" "e = AGPS_EVENT_UNSUBSCRIBE \<Longrightarrow> s \<in> set vs"
  shows "final_calls k (sm_calls (fst (a_event e s (sm, vs)))) + listed k (snd (a_event e s (sm, vs))) =
    final_calls k (sm_calls sm) + listed k vs +
    (if e = AGPS_EVENT_SUBSCRIBE \<and> mConnHandle s = k \<and> listed k vs = 0 then 1 else 0)"
proof -
  have d: "distinct (map mConnHandle vs)" using assms(2) by (simp add: subs_wf_def)
  show ?thesis
  proof (cases e)
    case AGPS_EVENT_SUBSCRIBE
    with assms(1) show ?thesis
      by (cases "mState sm")
         (auto simp: a_event_def a_subscribe_def state_inv_def a_add_def listed_def notify_call_final)
  next
    case AGPS_EVENT_UNSUBSCRIBE
    with assms show ?thesis by (cases "mState sm") (auto simp: a_event_def a_unsubscribe_def state_inv_def)
  next
    case AGPS_EVENT_GRANTED
    then show ?thesis by (simp add: a_event_def a_granted_def a_notify_granted)
  next
    case AGPS_EVENT_RELEASED
    then show ?thesis
      using d a_finish_final[OF assms(2), of k sm]
      by (simp add: a_event_def a_released_def a_notify_final)
  next
    case AGPS_EVENT_DENIED
    then show ?thesis
      using d a_finish_final[OF assms(2), of k sm]
      by (simp add: a_event_def a_denied_def a_notify_final)
  qed (simp add: a_event_def)
qed

section \<open>The manager\<close>

definition nif_list :: "nif \<Rightarrow> agps_mgr \<Rightarrow> ptr list" where
  "nif_list n m = (case nif_of n m of None \<Rightarrow> [] | Some sm \<Rightarrow> mSubscriberList sm)"

definition nif_subs :: "nif \<Rightarrow> agps_mgr \<Rightarrow> subscriber list" where
  "nif_subs n m = map (\<lambda>q. the (subs (sub_objs m) q)) (nif_list n m)"

text \<open>
  The heap is exactly the two lists and the objects \<open>X\<close> of the running function; the lists
  live and share nothing.
\<close>

definition heap_ok :: "ptr set \<Rightarrow> agps_mgr \<Rightarrow> bool" where
  "heap_ok X m \<longleftrightarrow>
     (\<forall>n. lives (sub_objs m) (nif_list n m) (nif_subs n m) \<and> subs_wf (nif_subs n m)) \<and>
     set (nif_list AgnssNif m) \<inter> set (nif_list InternetNif m) = {} \<and>
     {p. subs (sub_objs m) p \<noteq> None} = set (nif_list AgnssNif m) \<union> set (nif_list InternetNif m) \<union> X \<and>
     X \<inter> (set (nif_list AgnssNif m) \<union> set (nif_list InternetNif m)) = {} \<and> (\<forall>p \<in> X. p < brk (sub_objs m))"

fun other_nif :: "nif \<Rightarrow> nif" where
  "other_nif AgnssNif = InternetNif"
| "other_nif InternetNif = AgnssNif"

lemma nif_cases: "n' = n \<or> n' = other_nif n"
  by (cases n; cases n') auto

lemma other_nif_neq [simp]: "other_nif n \<noteq> n" "n \<noteq> other_nif n"
  by (cases n; simp)+

lemma put_nif_simps [simp]:
  "nif_of n (put_nif n (sm, h) m) = Some sm" "nif_of (other_nif n) (put_nif n (sm, h) m) = nif_of (other_nif n) m"
  "sub_objs (put_nif n (sm, h) m) = h" "mgr_calls (put_nif n (sm, h) m) = mgr_calls m"
  by (cases n; simp add: put_nif_def nif_of_def)+

lemma heap_ok_iff:
  "heap_ok X m \<longleftrightarrow>
     lives (sub_objs m) (nif_list n m) (nif_subs n m) \<and> subs_wf (nif_subs n m) \<and>
     lives (sub_objs m) (nif_list (other_nif n) m) (nif_subs (other_nif n) m) \<and> subs_wf (nif_subs (other_nif n) m) \<and>
     set (nif_list n m) \<inter> set (nif_list (other_nif n) m) = {} \<and>
     {p. subs (sub_objs m) p \<noteq> None} = set (nif_list n m) \<union> set (nif_list (other_nif n) m) \<union> X \<and>
     X \<inter> (set (nif_list n m) \<union> set (nif_list (other_nif n) m)) = {} \<and> (\<forall>p \<in> X. p < brk (sub_objs m))"
proof -
  have all: "(\<forall>n'. P n') \<longleftrightarrow> P n \<and> P (other_nif n)" for P using nif_cases[of _ n] by metis
  show ?thesis by (cases n) (auto simp: heap_ok_def all)
qed

lemma lives_vals: "lives h qs vs \<Longrightarrow> map (\<lambda>q. the (subs h q)) qs = vs"
proof -
  assume "lives h qs vs"
  then have "map the (map (subs h) qs) = map the (map Some vs)" by (simp add: lives_def)
  then show ?thesis by (simp add: comp_def)
qed

lemma lives_mono:
  assumes "lives h qs vs" "\<And>q. q \<in> set qs \<Longrightarrow> subs h' q = subs h q" "brk h \<le> brk h'"
  shows "lives h' qs vs"
proof -
  have "map (subs h') qs = map (subs h) qs" using assms(2) by (rule map_cong[OF refl])
  with assms(1,3) show ?thesis by (auto simp: lives_def)
qed

text \<open>Replacing one machine by the result of one of its steps.\<close>

lemma put_nif_ok:
  assumes ok: "heap_ok X m"
    and step: "lives h' qs' vs'" "frame (nif_list n m) (sub_objs m) qs' h'" "subs_wf vs'"
    and sm: "mSubscriberList sm' = qs'"
  shows "heap_ok X (put_nif n (sm', h') m) \<and> nif_subs n (put_nif n (sm', h') m) = vs' \<and>
    nif_subs (other_nif n) (put_nif n (sm', h') m) = nif_subs (other_nif n) m \<and> (\<forall>p \<in> X. subs h' p = subs (sub_objs m) p)"
proof -
  let ?m = "put_nif n (sm', h') m" and ?o = "other_nif n" and ?h = "sub_objs m"
  let ?qs = "nif_list n m" and ?os = "nif_list (other_nif n) m"
  note ok' = ok[unfolded heap_ok_iff[of X m n]]
  have l: "nif_list n ?m = qs'" "nif_list ?o ?m = ?os" using sm by (simp_all add: nif_list_def)
  have v: "nif_subs n ?m = vs'" using lives_vals[OF step(1)] l by (simp add: nif_subs_def)
  have new: "q \<in> set ?qs \<or> brk ?h \<le> q" if "q \<in> set qs'" for q using step(2) that by (auto simp: frame_def)
  have os: "q < brk ?h" "q \<notin> set ?qs" "q \<notin> X" if "q \<in> set ?os" for q
    using ok' that by (auto simp: lives_def)
  have X: "q < brk ?h" "q \<notin> set ?qs" if "q \<in> X" for q using ok' that by auto
  have d: "set qs' \<inter> set ?os = {}" "X \<inter> (set qs' \<union> set ?os) = {}"
    using new os X by (fastforce simp: disjoint_iff)+
  have same: "subs h' p = subs ?h p" if "p \<in> set ?os \<union> X" for p
  proof -
    have "p \<notin> set ?qs" "p \<notin> set qs'" using that d os X by blast+
    then show ?thesis using step(2) by (simp add: frame_def)
  qed
  have vo: "nif_subs ?o ?m = nif_subs ?o m" using same l by (simp add: nif_subs_def)
  have brk: "brk ?h \<le> brk h'" using step(2) by (simp add: frame_def)
  have lo: "lives h' ?os (nif_subs ?o m)"
    using ok' same brk by (intro lives_mono[of ?h ?os "nif_subs ?o m" h']) auto
  have dom: "subs h' p \<noteq> None \<longleftrightarrow> p \<in> set qs' \<or> p \<in> set ?os \<or> p \<in> X" for p
  proof (cases "p \<in> set qs'")
    case True
    then show ?thesis using lives_at[OF step(1)] by fastforce
  next
    case False
    show ?thesis
    proof (cases "p \<in> set ?qs")
      case True
      then have "subs h' p = None" using step(2) False by (simp add: frame_def)
      then show ?thesis using False True os X by auto
    next
      case not: False
      then have "subs h' p = subs ?h p" using step(2) False by (simp add: frame_def)
      moreover have "subs ?h p \<noteq> None \<longleftrightarrow> p \<in> set ?qs \<or> p \<in> set ?os \<or> p \<in> X" using ok' by blast
      ultimately show ?thesis using False not by simp
    qed
  qed
  then have "{p. subs h' p \<noteq> None} = set qs' \<union> set ?os \<union> X" by blast
  moreover have "\<forall>p \<in> X. p < brk h'" using X(1) brk order_less_le_trans by blast
  ultimately have "heap_ok X ?m"
    unfolding heap_ok_iff[of X ?m n] l v vo put_nif_simps
    using step(1,3) lo ok' d by (intro conjI) auto
  with v vo same show ?thesis by simp
qed

lemma nif_subs_at: "q \<in> set (nif_list n m) \<Longrightarrow> heap_ok X m \<Longrightarrow> \<exists>s \<in> set (nif_subs n m). subs (sub_objs m) q = Some s"
  using lives_at[of "sub_objs m" "nif_list n m"] by (auto simp: heap_ok_def)

text \<open>An event sent to one machine of the manager.\<close>

lemma nif_event_ok:
  assumes ok: "heap_ok X m" and sm: "nif_of n m = Some sm"
    and set: "mSubscriberList (setter sm) = mSubscriberList sm"
    and cur: "e \<in> {AGPS_EVENT_SUBSCRIBE, AGPS_EVENT_UNSUBSCRIBE} \<Longrightarrow> subs (sub_objs m) (mCurrentSubscriber (setter sm)) = Some s"
      "e = AGPS_EVENT_UNSUBSCRIBE \<Longrightarrow> mCurrentSubscriber (setter sm) \<in> set (mSubscriberList sm)"
    and w: "mWaitForCloseComplete s"
  defines "ast \<equiv> a_event e s (setter sm, nif_subs n m)"
  shows "\<exists>m' qs'. nif_event n setter e m = Some m' \<and> heap_ok X m' \<and>
    nif_of n m' = Some ((fst ast)\<lparr>mSubscriberList := qs'\<rparr>) \<and> nif_subs n m' = snd ast \<and>
    nif_of (other_nif n) m' = nif_of (other_nif n) m \<and> nif_subs (other_nif n) m' = nif_subs (other_nif n) m \<and>
    mgr_calls m' = mgr_calls m \<and> (\<forall>p \<in> X. subs (sub_objs m') p = subs (sub_objs m) p)"
proof -
  have l: "nif_list n m = mSubscriberList (setter sm)" using sm set by (simp add: nif_list_def)
  then have live: "lives (sub_objs m) (mSubscriberList (setter sm)) (nif_subs n m)" "subs_wf (nif_subs n m)"
    using ok by (simp_all add: heap_ok_iff[of X m n])
  have "refined (mSubscriberList (setter sm)) (sub_objs m) (processAgpsEvent e (setter sm, sub_objs m)) ast"
    unfolding ast_def using event_refined[OF live, of e s] cur set by auto
  then obtain qs' h' where r: "processAgpsEvent e (setter sm, sub_objs m) = Some ((fst ast)\<lparr>mSubscriberList := qs'\<rparr>, h')"
    "lives h' qs' (snd ast)" "frame (nif_list n m) (sub_objs m) qs' h'"
    unfolding refined_def l by blast
  have "subs_wf (snd ast)" unfolding ast_def by (rule a_event_wf[OF live(2) w])
  from put_nif_ok[OF ok r(2,3) this, of "(fst ast)\<lparr>mSubscriberList := qs'\<rparr>"] r(1) sm show ?thesis
    by (auto simp: nif_event_def)
qed

section \<open>The operations of the manager\<close>

text \<open>One machine has handled an event; \<open>s\<close> is the subscriber it is about.\<close>

definition event_step :: "agps_event \<Rightarrow> subscriber \<Rightarrow> nif \<Rightarrow> agps_mgr \<Rightarrow> agps_mgr \<Rightarrow> bool" where
  "event_step e s n m m' \<longleftrightarrow> (\<exists>sm sm1 qs'. nif_of n m = Some sm \<and> mState sm1 = mState sm \<and>
     sm_calls sm1 = sm_calls sm \<and>
     (e = AGPS_EVENT_SUBSCRIBE \<longrightarrow> \<not> mIsInactive s) \<and> (e = AGPS_EVENT_UNSUBSCRIBE \<longrightarrow> s \<in> set (nif_subs n m)) \<and>
     nif_of n m' = Some ((fst (a_event e s (sm1, nif_subs n m)))\<lparr>mSubscriberList := qs'\<rparr>) \<and>
     nif_subs n m' = snd (a_event e s (sm1, nif_subs n m)) \<and>
     nif_of (other_nif n) m' = nif_of (other_nif n) m \<and> nif_subs (other_nif n) m' = nif_subs (other_nif n) m \<and>
     mgr_calls m' = mgr_calls m)"

lemma nif_of_same [simp]:
  "nif_of n (m\<lparr>sub_objs := h\<rparr>) = nif_of n m" "nif_of n (m\<lparr>mgr_calls := cs\<rparr>) = nif_of n m"
  "nif_list n (m\<lparr>sub_objs := h\<rparr>) = nif_list n m" "nif_list n (m\<lparr>mgr_calls := cs\<rparr>) = nif_list n m"
  "nif_subs n (m\<lparr>mgr_calls := cs\<rparr>) = nif_subs n m"
  by (cases n; simp add: nif_of_def nif_list_def nif_subs_def)+

lemma heap_ok_calls [simp]: "heap_ok X (m\<lparr>mgr_calls := cs\<rparr>) = heap_ok X m"
  by (simp add: heap_ok_def)

text \<open>A local object comes into being and goes.\<close>

lemma heap_ok_local:
  assumes "heap_ok {} m" "new_sub s (sub_objs m) = (p, h)"
  shows "heap_ok {p} (m\<lparr>sub_objs := h\<rparr>) \<and> nif_subs n (m\<lparr>sub_objs := h\<rparr>) = nif_subs n m \<and> subs h p = Some s"
proof -
  have h: "p = brk (sub_objs m)" "h = (sub_objs m)\<lparr>subs := (subs (sub_objs m))(p := Some s), brk := p + 1\<rparr>"
    using assms(2) by (auto simp: new_sub_def)
  have p: "p \<notin> set (nif_list n m)" for n using assms(1) h by (auto simp: heap_ok_def lives_def)
  then have v: "nif_subs n (m\<lparr>sub_objs := h\<rparr>) = nif_subs n m" for n
    using h by (auto simp: nif_subs_def)
  have "lives h (nif_list n m) (nif_subs n m)" for n
    using assms(1) p[of n] h by (intro lives_mono[of "sub_objs m" _ _ h]) (auto simp: heap_ok_def)
  moreover have "{q. subs h q \<noteq> None} = insert p {q. subs (sub_objs m) q \<noteq> None}" using h(2) by auto
  ultimately have "heap_ok {p} (m\<lparr>sub_objs := h\<rparr>)"
    using assms(1) p h v unfolding heap_ok_def by simp
  with v h show ?thesis by simp
qed

lemma heap_ok_local_gone:
  assumes "heap_ok {p} m" "subs (sub_objs m) p \<noteq> None"
  shows "\<exists>h. delete_sub p (sub_objs m) = Some h \<and> heap_ok {} (m\<lparr>sub_objs := h\<rparr>) \<and>
    nif_subs n (m\<lparr>sub_objs := h\<rparr>) = nif_subs n m"
proof -
  let ?h = "(sub_objs m)\<lparr>subs := (subs (sub_objs m))(p := None)\<rparr>"
  have p: "p \<notin> set (nif_list n m)" for n using assms(1) by (cases n) (auto simp: heap_ok_def)
  then have v: "nif_subs n (m\<lparr>sub_objs := ?h\<rparr>) = nif_subs n m" for n by (auto simp: nif_subs_def)
  have "lives ?h (nif_list n m) (nif_subs n m)" for n
    using assms(1) p[of n] by (intro lives_mono[of "sub_objs m" _ _ ?h]) (auto simp: heap_ok_def)
  moreover have "{q. subs ?h q \<noteq> None} = {q. subs (sub_objs m) q \<noteq> None} - {p}" by auto
  ultimately have "heap_ok {} (m\<lparr>sub_objs := ?h\<rparr>)"
    using assms(1) p[of AgnssNif] p[of InternetNif] v unfolding heap_ok_def by simp
  with v assms(2) show ?thesis by (auto simp: delete_sub_def)
qed

lemma getAgpsStateMachine_Some: "getAgpsStateMachine t m = Some n \<Longrightarrow> \<exists>sm. nif_of n m = Some sm"
  by (auto simp: getAgpsStateMachine_def nif_of_def split: if_splits)

lemma requestATL_ok:
  assumes ok: "heap_ok {} m"
  shows "\<exists>m'. requestATL h t k i m = Some m' \<and> heap_ok {} m' \<and>
    (getAgpsStateMachine t m = None \<and>
       (\<exists>t' k'. m' = m\<lparr>mgr_calls := mgr_calls m @ [AtlOpenStatusCb h False None 0 0 t' k']\<rparr>) \<or>
     (\<exists>n s. getAgpsStateMachine t m = Some n \<and> mConnHandle s = h \<and> event_step AGPS_EVENT_SUBSCRIBE s n m m'))"
proof -
  let ?c = "\<not> emergency_pdn m \<and> t = AGPS_TYPE_SUPL_ES"
  define t' where "t' = (if ?c then AGPS_TYPE_SUPL else t)"
  define k' where "k' = (if ?c then k AND NOT (push_bit 9 1) OR push_bit 4 1 else k)"
  have tk: "(if ?c then (AGPS_TYPE_SUPL, k AND NOT (push_bit 9 1) OR push_bit 4 1) else (t, k)) = (t', k')"
    by (simp add: t'_def k'_def)
  have same: "getAgpsStateMachine t' m = getAgpsStateMachine t m"
    by (simp add: t'_def getAgpsStateMachine_def)
  show ?thesis
  proof (cases "getAgpsStateMachine t m")
    case None
    then show ?thesis using ok same by (auto simp: requestATL_def tk)
  next
    case (Some n)
    then obtain sm where sm: "nif_of n m = Some sm" using getAgpsStateMachine_Some by blast
    let ?s = "\<lparr>mConnHandle = h, mWaitForCloseComplete = True, mIsInactive = False, sub_mask = k'\<rparr>"
    obtain p h1 where new: "new_sub ?s (sub_objs m) = (p, h1)" by fastforce
    let ?m1 = "m\<lparr>sub_objs := h1\<rparr>"
    let ?set = "\<lambda>sm. sm\<lparr>mAgpsType := t', mApnTypeMask := k', mSubId := i, mCurrentSubscriber := p\<rparr>"
    have l: "heap_ok {p} ?m1" "nif_subs n ?m1 = nif_subs n m" "nif_subs (other_nif n) ?m1 = nif_subs (other_nif n) m"
      "subs h1 p = Some ?s" using heap_ok_local[OF ok new] by auto
    obtain m2 qs' where m2: "nif_event n ?set AGPS_EVENT_SUBSCRIBE ?m1 = Some m2" "heap_ok {p} m2"
      "nif_of n m2 = Some ((fst (a_event AGPS_EVENT_SUBSCRIBE ?s (?set sm, nif_subs n m)))\<lparr>mSubscriberList := qs'\<rparr>)"
      "nif_subs n m2 = snd (a_event AGPS_EVENT_SUBSCRIBE ?s (?set sm, nif_subs n m))"
      "nif_of (other_nif n) m2 = nif_of (other_nif n) m" "nif_subs (other_nif n) m2 = nif_subs (other_nif n) m"
      "mgr_calls m2 = mgr_calls m" "subs (sub_objs m2) p = Some ?s"
      using nif_event_ok[OF l(1), of n sm ?set AGPS_EVENT_SUBSCRIBE ?s] sm l by auto
    obtain h3 where h3: "delete_sub p (sub_objs m2) = Some h3" "heap_ok {} (m2\<lparr>sub_objs := h3\<rparr>)"
      "\<And>n. nif_subs n (m2\<lparr>sub_objs := h3\<rparr>) = nif_subs n m2"
    proof -
      have "subs (sub_objs m2) p \<noteq> None" using m2(8) by simp
      from heap_ok_local_gone[OF m2(2) this] that show ?thesis by (metis option.inject)
    qed
    have "event_step AGPS_EVENT_SUBSCRIBE ?s n m (m2\<lparr>sub_objs := h3\<rparr>)"
      unfolding event_step_def using sm m2 h3
      by (intro exI[of _ sm] exI[of _ "?set sm"] exI[of _ qs']) simp
    moreover have "requestATL h t k i m = Some (m2\<lparr>sub_objs := h3\<rparr>)"
      using same Some new m2(1) h3(1) by (simp add: requestATL_def tk)
    ultimately show ?thesis using Some h3(2) by (metis subscriber.select_convs(1))
  qed
qed

lemma report_ok:
  assumes "heap_ok {} m" "nif_of n m = Some sm" "e \<in> {AGPS_EVENT_GRANTED, AGPS_EVENT_RELEASED, AGPS_EVENT_DENIED}"
    "mState (setter sm) = mState sm" "sm_calls (setter sm) = sm_calls sm" "mSubscriberList (setter sm) = mSubscriberList sm"
  shows "\<exists>m' s. nif_event n setter e m = Some m' \<and> heap_ok {} m' \<and> event_step e s n m m'"
proof -
  let ?s = "\<lparr>mConnHandle = 0, mWaitForCloseComplete = True, mIsInactive = True, sub_mask = 0\<rparr>"
  obtain m' qs' where m': "nif_event n setter e m = Some m'" "heap_ok {} m'"
    "nif_of n m' = Some ((fst (a_event e ?s (setter sm, nif_subs n m)))\<lparr>mSubscriberList := qs'\<rparr>)"
    "nif_subs n m' = snd (a_event e ?s (setter sm, nif_subs n m))"
    "nif_of (other_nif n) m' = nif_of (other_nif n) m" "nif_subs (other_nif n) m' = nif_subs (other_nif n) m"
    "mgr_calls m' = mgr_calls m"
    using nif_event_ok[of "{}" m n sm setter e ?s] assms(1,2,3,6) by auto
  then have "event_step e ?s n m m'"
    unfolding event_step_def using assms
    by (intro exI[of _ sm] exI[of _ "setter sm"] exI[of _ qs']) auto
  with m' show ?thesis by blast
qed

lemma find_in_nif_ok:
  assumes "heap_ok {} m"
  shows "\<exists>p. find_in_nif n h m = Some p \<and> (p \<noteq> NULL \<longrightarrow> p \<in> set (nif_list n m))"
proof (cases "nif_of n m")
  case None
  then show ?thesis by (simp add: find_in_nif_def)
next
  case (Some sm)
  then have "map (subs (sub_objs m)) (mSubscriberList sm) = map Some (nif_subs n m)"
    using assms by (auto simp: heap_ok_def lives_def nif_list_def dest: spec[of _ n])
  from get_first_lives[OF this, of "\<lambda>s. mConnHandle s = h"] Some show ?thesis
    by (auto simp: find_in_nif_def getSubscriber_def nif_list_def)
qed

lemma unsubscribe_ok:
  assumes ok: "heap_ok {} m" and p: "p \<in> set (nif_list n m)"
  shows "\<exists>m' s. nif_event n (\<lambda>sm. sm\<lparr>mCurrentSubscriber := p\<rparr>) AGPS_EVENT_UNSUBSCRIBE m = Some m' \<and>
    heap_ok {} m' \<and> event_step AGPS_EVENT_UNSUBSCRIBE s n m m'"
proof -
  obtain sm where sm: "nif_of n m = Some sm" using p by (cases "nif_of n m") (auto simp: nif_list_def)
  obtain s where s: "s \<in> set (nif_subs n m)" "subs (sub_objs m) p = Some s"
    using nif_subs_at[OF p ok] by blast
  have w: "mWaitForCloseComplete s" using ok s(1) by (auto simp: heap_ok_def subs_wf_def)
  let ?set = "\<lambda>sm. sm\<lparr>mCurrentSubscriber := p\<rparr>"
  obtain m' qs' where m': "nif_event n ?set AGPS_EVENT_UNSUBSCRIBE m = Some m'" "heap_ok {} m'"
    "nif_of n m' = Some ((fst (a_event AGPS_EVENT_UNSUBSCRIBE s (?set sm, nif_subs n m)))\<lparr>mSubscriberList := qs'\<rparr>)"
    "nif_subs n m' = snd (a_event AGPS_EVENT_UNSUBSCRIBE s (?set sm, nif_subs n m))"
    "nif_of (other_nif n) m' = nif_of (other_nif n) m" "nif_subs (other_nif n) m' = nif_subs (other_nif n) m"
    "mgr_calls m' = mgr_calls m"
    using nif_event_ok[OF ok sm, of ?set AGPS_EVENT_UNSUBSCRIBE s] s(2) w p sm by (auto simp: nif_list_def)
  then have "event_step AGPS_EVENT_UNSUBSCRIBE s n m m'"
    unfolding event_step_def using sm s(1) by (intro exI[of _ sm] exI[of _ "?set sm"] exI[of _ qs']) simp
  with m' show ?thesis by blast
qed

lemma releaseATL_ok:
  assumes ok: "heap_ok {} m"
  shows "\<exists>m'. releaseATL h m = Some m' \<and> heap_ok {} m' \<and>
    (m' = m \<or> (\<exists>n s. event_step AGPS_EVENT_UNSUBSCRIBE s n m m'))"
proof -
  obtain p where p: "find_in_nif AgnssNif h m = Some p" "p \<noteq> NULL \<longrightarrow> p \<in> set (nif_list AgnssNif m)"
    using find_in_nif_ok[OF ok] by blast
  obtain q where q: "find_in_nif InternetNif h m = Some q" "q \<noteq> NULL \<longrightarrow> q \<in> set (nif_list InternetNif m)"
    using find_in_nif_ok[OF ok] by blast
  show ?thesis
  proof (cases "p = NULL \<and> q = NULL")
    case True
    with p q ok show ?thesis by (simp add: releaseATL_def)
  next
    case False
    then show ?thesis
      using unsubscribe_ok[OF ok, of p AgnssNif] unsubscribe_ok[OF ok, of q InternetNif] p q
      by (cases "p = NULL") (fastforce simp: releaseATL_def)+
  qed
qed

lemma setAPN_fields [simp]:
  "mState (setAPN a l sm) = mState sm" "sm_calls (setAPN a l sm) = sm_calls sm"
  "mSubscriberList (setAPN a l sm) = mSubscriberList sm"
  by (auto simp: setAPN_def split: option.splits)

text \<open>A report of the framework.\<close>

lemma reports_ok:
  assumes "heap_ok {} m" "oper \<in> {OpenSuccess t a l b, OpenFailed t, Closed t}"
  shows "\<exists>m'. mgr_step oper m = Some m' \<and> heap_ok {} m' \<and>
    (m' = m \<or> (\<exists>e n s. e \<noteq> AGPS_EVENT_SUBSCRIBE \<and> event_step e s n m m'))"
proof (cases "getAgpsStateMachine t m")
  case None
  with assms show ?thesis
    by (auto simp: mgr_step_def reportAtlOpenSuccess_def reportAtlOpenFailed_def reportAtlClosed_def)
next
  case (Some n)
  then obtain sm where sm: "nif_of n m = Some sm" using getAgpsStateMachine_Some by blast
  obtain e setter where e: "mgr_step oper m = nif_event n setter e m" "e \<in> {AGPS_EVENT_GRANTED, AGPS_EVENT_RELEASED, AGPS_EVENT_DENIED}"
    "mState (setter sm) = mState sm" "sm_calls (setter sm) = sm_calls sm" "mSubscriberList (setter sm) = mSubscriberList sm"
  proof -
    consider "oper = OpenSuccess t a l b" | "oper = OpenFailed t" | "oper = Closed t" using assms(2) by blast
    then show ?thesis
    proof cases
      case 1
      show ?thesis
        by (rule that[of "\<lambda>sm. setAPN a (word_of_int l) (sm\<lparr>mBearer := b\<rparr>)" AGPS_EVENT_GRANTED])
           (use 1 Some in \<open>simp_all add: mgr_step_def reportAtlOpenSuccess_def\<close>)
    next
      case 2
      show ?thesis
        by (rule that[of "\<lambda>sm. sm" AGPS_EVENT_DENIED]) (use 2 Some in \<open>simp_all add: mgr_step_def reportAtlOpenFailed_def\<close>)
    next
      case 3
      show ?thesis
        by (rule that[of "\<lambda>sm. sm" AGPS_EVENT_RELEASED]) (use 3 Some in \<open>simp_all add: mgr_step_def reportAtlClosed_def\<close>)
    qed
  qed
  obtain m' s where "nif_event n setter e m = Some m'" "heap_ok {} m'" "event_step e s n m m'"
    using report_ok[of m n sm e setter] assms(1) sm e(2-5) by blast
  moreover have "e \<noteq> AGPS_EVENT_SUBSCRIBE" using e(2) by auto
  ultimately show ?thesis using e(1) by auto
qed

text \<open>A restart of the modem.\<close>

lemma drop_nif_ok:
  assumes ok: "heap_ok {} m"
  shows "\<exists>m'. drop_nif n m = Some m' \<and> heap_ok {} m' \<and> nif_subs n m' = [] \<and>
    nif_subs (other_nif n) m' = nif_subs (other_nif n) m \<and> mgr_calls m' = mgr_calls m \<and>
    nif_of n m' = map_option (\<lambda>sm. sm\<lparr>mSubscriberList := []\<rparr>) (nif_of n m) \<and>
    nif_of (other_nif n) m' = nif_of (other_nif n) m"
proof (cases "nif_of n m")
  case None
  with ok show ?thesis by (auto simp: drop_nif_def nif_subs_def nif_list_def)
next
  case (Some sm)
  let ?h = "(sub_objs m)\<lparr>subs := (\<lambda>p. if p \<in> set (mSubscriberList sm) then None else subs (sub_objs m) p)\<rparr>"
  let ?sm = "sm\<lparr>mSubscriberList := []\<rparr>"
  have l: "nif_list n m = mSubscriberList sm" using Some by (simp add: nif_list_def)
  then have live: "lives (sub_objs m) (mSubscriberList sm) (nif_subs n m)"
    using ok by (auto simp: heap_ok_iff[of _ m n])
  then have "dropAllSubscribers (sm, sub_objs m) = Some (?sm, ?h)"
    using delete_all_lives[of "sub_objs m" "mSubscriberList sm" "nif_subs n m"]
    by (simp add: dropAllSubscribers_def lives_def)
  then have r: "drop_nif n m = Some (put_nif n (?sm, ?h) m)" using Some by (simp add: drop_nif_def)
  have "lives ?h [] []" using live by (simp add: lives_def)
  moreover have "frame (nif_list n m) (sub_objs m) [] ?h" by (auto simp: frame_def l)
  moreover have "subs_wf []" by (simp add: subs_wf_def)
  ultimately have "heap_ok {} (put_nif n (?sm, ?h) m) \<and> nif_subs n (put_nif n (?sm, ?h) m) = [] \<and>
      nif_subs (other_nif n) (put_nif n (?sm, ?h) m) = nif_subs (other_nif n) m"
    using put_nif_ok[OF ok, of ?h "[]" "[]" n ?sm] by simp
  with r Some show ?thesis by simp
qed

lemma handleModemSSR_ok:
  assumes ok: "heap_ok {} m"
  shows "\<exists>m'. handleModemSSR m = Some m' \<and> heap_ok {} m' \<and> mgr_calls m' = mgr_calls m \<and>
    (\<forall>n. nif_subs n m' = [] \<and> nif_of n m' = map_option (\<lambda>sm. sm\<lparr>mSubscriberList := []\<rparr>) (nif_of n m))"
proof -
  obtain m1 where m1: "drop_nif AgnssNif m = Some m1" "heap_ok {} m1" "nif_subs AgnssNif m1 = []"
    "mgr_calls m1 = mgr_calls m" "nif_of AgnssNif m1 = map_option (\<lambda>sm. sm\<lparr>mSubscriberList := []\<rparr>) (nif_of AgnssNif m)"
    "nif_of InternetNif m1 = nif_of InternetNif m"
    using drop_nif_ok[OF ok, of AgnssNif] by auto
  obtain m2 where m2: "drop_nif InternetNif m1 = Some m2" "heap_ok {} m2" "nif_subs InternetNif m2 = []"
    "nif_subs AgnssNif m2 = nif_subs AgnssNif m1" "mgr_calls m2 = mgr_calls m1"
    "nif_of InternetNif m2 = map_option (\<lambda>sm. sm\<lparr>mSubscriberList := []\<rparr>) (nif_of InternetNif m1)"
    "nif_of AgnssNif m2 = nif_of AgnssNif m1"
    using drop_nif_ok[OF m1(2), of InternetNif] by auto
  have "nif_subs n m2 = [] \<and> nif_of n m2 = map_option (\<lambda>sm. sm\<lparr>mSubscriberList := []\<rparr>) (nif_of n m)" for n
    using m1 m2 by (cases n) auto
  with m1 m2 show ?thesis by (simp add: handleModemSSR_def)
qed

section \<open>Invariants of the manager\<close>

text \<open>Every operation returns and leaves no object behind; the protocol with the framework holds.\<close>

definition mgr_inv :: "agps_mgr \<Rightarrow> bool" where
  "mgr_inv m \<longleftrightarrow> heap_ok {} m \<and> (\<forall>n sm. nif_of n m = Some sm \<longrightarrow> conn_inv sm)"

definition strict_inv :: "agps_mgr \<Rightarrow> bool" where
  "strict_inv m \<longleftrightarrow> (\<forall>n sm. nif_of n m = Some sm \<longrightarrow> state_inv sm (nif_subs n m))"

text \<open>The last words to a handle so far, and its subscriptions.\<close>

definition nif_calls :: "nif \<Rightarrow> agps_mgr \<Rightarrow> agps_call list" where
  "nif_calls n m = (case nif_of n m of None \<Rightarrow> [] | Some sm \<Rightarrow> sm_calls sm)"

definition ended :: "int \<Rightarrow> agps_mgr \<Rightarrow> nat" where
  "ended k m = final_calls k (mgr_calls m) + final_calls k (nif_calls AgnssNif m) + final_calls k (nif_calls InternetNif m)"

definition pending :: "int \<Rightarrow> agps_mgr \<Rightarrow> nat" where
  "pending k m = listed k (nif_subs AgnssNif m) + listed k (nif_subs InternetNif m)"

text \<open>A request that is not a repetition of one that its state machine has listed.\<close>

definition new_request :: "int \<Rightarrow> agps_op \<Rightarrow> agps_mgr \<Rightarrow> bool" where
  "new_request k oper m \<longleftrightarrow>
     (case oper of
        RequestATL h t apnTypeMask i \<Rightarrow> h = k \<and>
          (case getAgpsStateMachine t m of None \<Rightarrow> True | Some n \<Rightarrow> k \<notin> mConnHandle ` set (nif_subs n m))
      | _ \<Rightarrow> False)"

lemma event_step_conn: "event_step e s n m m' \<Longrightarrow> nif_of i m = None \<or> (\<forall>sm. nif_of i m = Some sm \<longrightarrow> conn_inv sm) \<Longrightarrow>
   nif_of i m' = Some sm' \<Longrightarrow> conn_inv sm'"
proof -
  assume ev: "event_step e s n m m'" and inv: "nif_of i m = None \<or> (\<forall>sm. nif_of i m = Some sm \<longrightarrow> conn_inv sm)"
    and sm': "nif_of i m' = Some sm'"
  obtain sm sm1 qs' where s: "nif_of n m = Some sm" "mState sm1 = mState sm" "sm_calls sm1 = sm_calls sm"
    "nif_of n m' = Some ((fst (a_event e s (sm1, nif_subs n m)))\<lparr>mSubscriberList := qs'\<rparr>)"
    "nif_of (other_nif n) m' = nif_of (other_nif n) m"
    using ev unfolding event_step_def by blast
  show ?thesis
  proof (cases "i = n")
    case True
    then have "conn_inv sm1" using inv s by (auto simp: conn_inv_def)
    from a_event_conn[OF this, of e s "nif_subs n m"] show ?thesis
      using s(4) sm' True by (auto simp: conn_inv_def)
  next
    case False
    then have "i = other_nif n" using nif_cases by blast
    then show ?thesis using s inv sm' by auto
  qed
qed

lemma event_step_state:
  assumes ev: "event_step e s n m m'" and inv: "strict_inv m"
  shows "strict_inv m'"
  unfolding strict_inv_def
proof (intro allI impI)
  fix i sm' assume sm': "nif_of i m' = Some sm'"
  obtain sm sm1 qs' where s: "nif_of n m = Some sm" "mState sm1 = mState sm"
    "e = AGPS_EVENT_SUBSCRIBE \<longrightarrow> \<not> mIsInactive s" "e = AGPS_EVENT_UNSUBSCRIBE \<longrightarrow> s \<in> set (nif_subs n m)"
    "nif_of n m' = Some ((fst (a_event e s (sm1, nif_subs n m)))\<lparr>mSubscriberList := qs'\<rparr>)"
    "nif_subs n m' = snd (a_event e s (sm1, nif_subs n m))"
    "nif_of (other_nif n) m' = nif_of (other_nif n) m" "nif_subs (other_nif n) m' = nif_subs (other_nif n) m"
    using ev unfolding event_step_def by blast
  show "state_inv sm' (nif_subs i m')"
  proof (cases "i = n")
    case True
    have "state_inv sm1 (nif_subs n m)" using inv s(1,2) by (auto simp: strict_inv_def state_inv_def)
    from a_event_state_inv[OF this, of e s] show ?thesis
      using s sm' True by (auto simp: state_inv_def)
  next
    case False
    then have "i = other_nif n" using nif_cases by blast
    then show ?thesis using s inv sm' by (auto simp: strict_inv_def)
  qed
qed

lemma both_nifs:
  "ended k m = final_calls k (mgr_calls m) + final_calls k (nif_calls n m) + final_calls k (nif_calls (other_nif n) m)"
  "pending k m = listed k (nif_subs n m) + listed k (nif_subs (other_nif n) m)"
  by (cases n; simp add: ended_def pending_def)+

lemma event_step_ended:
  assumes ev: "event_step e s n m m'" and inv: "strict_inv m" "heap_ok {} m"
  shows "ended k m' + pending k m' = ended k m + pending k m +
    (if e = AGPS_EVENT_SUBSCRIBE \<and> mConnHandle s = k \<and> k \<notin> mConnHandle ` set (nif_subs n m) then 1 else 0)"
proof -
  obtain sm sm1 qs' where s: "nif_of n m = Some sm" "mState sm1 = mState sm" "sm_calls sm1 = sm_calls sm"
    "e = AGPS_EVENT_UNSUBSCRIBE \<longrightarrow> s \<in> set (nif_subs n m)"
    "nif_of n m' = Some ((fst (a_event e s (sm1, nif_subs n m)))\<lparr>mSubscriberList := qs'\<rparr>)"
    "nif_subs n m' = snd (a_event e s (sm1, nif_subs n m))"
    "nif_of (other_nif n) m' = nif_of (other_nif n) m" "nif_subs (other_nif n) m' = nif_subs (other_nif n) m"
    "mgr_calls m' = mgr_calls m"
    using ev unfolding event_step_def by blast
  have "state_inv sm1 (nif_subs n m)" using inv s(1,2) by (auto simp: strict_inv_def state_inv_def)
  moreover have "subs_wf (nif_subs n m)" using inv(2) by (simp add: heap_ok_def)
  ultimately have
    "final_calls k (sm_calls (fst (a_event e s (sm1, nif_subs n m)))) + listed k (snd (a_event e s (sm1, nif_subs n m))) =
     final_calls k (sm_calls sm) + listed k (nif_subs n m) +
     (if e = AGPS_EVENT_SUBSCRIBE \<and> mConnHandle s = k \<and> listed k (nif_subs n m) = 0 then 1 else 0)"
    using a_event_final[of sm1 "nif_subs n m" e s k] s(3,4) by simp
  moreover have "listed k vs = 0 \<longleftrightarrow> k \<notin> mConnHandle ` set vs" for vs by (simp add: listed_def)
  ultimately show ?thesis
    using s by (simp add: both_nifs[of k _ n] nif_calls_def)
qed

end
