(* ===== verification/AgpsProps.thy ===== *)
theory AgpsProps
  imports AgpsInv
begin

text \<open>
  The properties of the AGPS manager and its state machines, over every script of operations,
  and the scripts in which subscribers are lost.
\<close>

section \<open>Scripts\<close>

lemma created_nif:
  "nif_of n (createAgpsStateMachines a k i m) = nif_of n m \<or>
   nif_of n m = None \<and> (\<exists>t. nif_of n (createAgpsStateMachines a k i m) = Some (agps_sm_new t k i))"
  by (cases n) (auto simp: createAgpsStateMachines_def nif_of_def Let_def)

lemma created_same [simp]:
  "sub_objs (createAgpsStateMachines a k i m) = sub_objs m" "mgr_calls (createAgpsStateMachines a k i m) = mgr_calls m"
  "nif_list n (createAgpsStateMachines a k i m) = nif_list n m"
  "nif_subs n (createAgpsStateMachines a k i m) = nif_subs n m"
  "nif_calls n (createAgpsStateMachines a k i m) = nif_calls n m"
proof -
  show l: "nif_list n (createAgpsStateMachines a k i m) = nif_list n m"
    using created_nif[of n a k i m] by (auto simp: nif_list_def agps_sm_new_def)
  show "sub_objs (createAgpsStateMachines a k i m) = sub_objs m" "mgr_calls (createAgpsStateMachines a k i m) = mgr_calls m"
    by (auto simp: createAgpsStateMachines_def Let_def)
  with l show "nif_subs n (createAgpsStateMachines a k i m) = nif_subs n m" by (simp add: nif_subs_def)
  show "nif_calls n (createAgpsStateMachines a k i m) = nif_calls n m"
    using created_nif[of n a k i m] by (auto simp: nif_calls_def agps_sm_new_def)
qed

text \<open>Every operation is one of these.\<close>

lemma step_cases:
  assumes "heap_ok {} m"
  obtains m' where "mgr_step oper m = Some m'" "heap_ok {} m'" "m' = m"
  | m' a k i where "mgr_step oper m = Some m'" "heap_ok {} m'" "m' = createAgpsStateMachines a k i m"
    "oper = CreateSms a k i"
  | m' h t k i t' k' where "mgr_step oper m = Some m'" "heap_ok {} m'" "oper = RequestATL h t k i"
    "getAgpsStateMachine t m = None"
    "m' = m\<lparr>mgr_calls := mgr_calls m @ [AtlOpenStatusCb h False None 0 0 t' k']\<rparr>"
  | m' h t k i n s where "mgr_step oper m = Some m'" "heap_ok {} m'" "oper = RequestATL h t k i"
    "getAgpsStateMachine t m = Some n" "mConnHandle s = h" "event_step AGPS_EVENT_SUBSCRIBE s n m m'"
  | m' e n s where "mgr_step oper m = Some m'" "heap_ok {} m'" "e \<noteq> AGPS_EVENT_SUBSCRIBE" "event_step e s n m m'"
    "\<forall>h t k i. oper \<noteq> RequestATL h t k i"
  | m' where "mgr_step oper m = Some m'" "heap_ok {} m'" "oper = ModemSSR" "mgr_calls m' = mgr_calls m"
    "\<forall>n. nif_subs n m' = [] \<and> nif_of n m' = map_option (\<lambda>sm. sm\<lparr>mSubscriberList := []\<rparr>) (nif_of n m)"
proof -
  note cases = that
  have report: thesis
    if r: "\<exists>m'. mgr_step oper m = Some m' \<and> heap_ok {} m' \<and>
        (m' = m \<or> (\<exists>e n s. e \<noteq> AGPS_EVENT_SUBSCRIBE \<and> event_step e s n m m'))"
      and "\<forall>h t k i. oper \<noteq> RequestATL h t k i"
    using r cases(1,5) that(2) by blast
  show thesis
  proof (cases oper)
  case (CreateSms a k i)
  moreover have "heap_ok {} (createAgpsStateMachines a k i m)" using assms by (simp add: heap_ok_def)
  ultimately show ?thesis using cases(2) by (simp add: mgr_step_def)
next
  case (RequestATL h t k i)
  from requestATL_ok[OF assms, of h t k i] RequestATL cases(3,4) show ?thesis
    by (auto simp: mgr_step_def)
next
  case (ReleaseATL h)
  from releaseATL_ok[OF assms, of h] ReleaseATL show ?thesis
    by (intro report) (auto simp: mgr_step_def)
next
  case (OpenSuccess t a l b)
  from reports_ok[OF assms, of oper t a l b] OpenSuccess show ?thesis by (intro report) simp_all
next
  case (OpenFailed t)
  from reports_ok[OF assms, of oper t] OpenFailed show ?thesis by (intro report) simp_all
next
  case (Closed t)
  from reports_ok[OF assms, of oper t] Closed show ?thesis by (intro report) simp_all
next
  case ModemSSR
  from handleModemSSR_ok[OF assms] ModemSSR cases(6) show ?thesis by (auto simp: mgr_step_def)
qed
qed

lemma step_inv:
  assumes "mgr_inv m"
  shows "\<exists>m'. mgr_step oper m = Some m' \<and> mgr_inv m'"
proof -
  have ok: "heap_ok {} m" and conn: "\<And>n sm. nif_of n m = Some sm \<Longrightarrow> conn_inv sm"
    using assms by (auto simp: mgr_inv_def)
  show ?thesis
  proof (rule step_cases[OF ok, of oper])
    fix m' a k i assume "mgr_step oper m = Some m'" "heap_ok {} m'" "m' = createAgpsStateMachines a k i m"
    moreover have "conn_inv (agps_sm_new t k i)" for t by (simp add: conn_inv_def agps_sm_new_def)
    moreover have "conn_inv sm" if "nif_of n (createAgpsStateMachines a k i m) = Some sm" for n sm
      using created_nif[of n a k i m] that conn calculation(4) by auto
    ultimately show ?thesis by (auto simp: mgr_inv_def)
  next
    fix m' assume m': "mgr_step oper m = Some m'" "heap_ok {} m'"
      "\<forall>n. nif_subs n m' = [] \<and> nif_of n m' = map_option (\<lambda>sm. sm\<lparr>mSubscriberList := []\<rparr>) (nif_of n m)"
    have "conn_inv sm'" if "nif_of n m' = Some sm'" for n sm'
      using m'(3) that conn by (auto simp: conn_inv_def)
    with m' show ?thesis by (auto simp: mgr_inv_def)
  next
    fix m' h t k i n s assume "mgr_step oper m = Some m'" "heap_ok {} m'" "event_step AGPS_EVENT_SUBSCRIBE s n m m'"
    then show ?thesis using event_step_conn conn by (auto simp: mgr_inv_def) metis
  next
    fix m' e n s assume "mgr_step oper m = Some m'" "heap_ok {} m'" "event_step e s n m m'"
    then show ?thesis using event_step_conn conn by (auto simp: mgr_inv_def) metis
  qed (use conn in \<open>auto simp: mgr_inv_def\<close>)
qed

lemma new_inv: "mgr_inv (agps_mgr_new c e) \<and> strict_inv (agps_mgr_new c e)"
proof -
  have n: "nif_of n (agps_mgr_new c e) = None" for n by (cases n) (simp_all add: nif_of_def agps_mgr_new_def)
  then have "nif_list n (agps_mgr_new c e) = []" "nif_subs n (agps_mgr_new c e) = []" for n
    by (simp_all add: nif_list_def nif_subs_def)
  with n show ?thesis
    by (simp add: mgr_inv_def strict_inv_def heap_ok_def lives_def subs_wf_def) (simp add: agps_mgr_new_def)
qed

lemma run_inv: "mgr_inv m \<Longrightarrow> \<exists>m'. mgr_run opers m = Some m' \<and> mgr_inv m'"
proof (induction opers arbitrary: m)
  case (Cons oper opers)
  obtain m1 where m1: "mgr_step oper m = Some m1" "mgr_inv m1" using step_inv[OF Cons.prems] by blast
  with Cons.IH[OF m1(2)] show ?case by simp
qed simp

lemma step_strict:
  assumes "mgr_inv m" "strict_inv m" "mgr_step oper m = Some m'" "oper \<noteq> ModemSSR"
  shows "strict_inv m'"
proof -
  have ok: "heap_ok {} m" using assms(1) by (simp add: mgr_inv_def)
  show ?thesis
  proof (rule step_cases[OF ok, of oper])
    fix m'' a k i assume m'': "mgr_step oper m = Some m''" "m'' = createAgpsStateMachines a k i m"
    have "state_inv sm (nif_subs n m)" if "nif_of n (createAgpsStateMachines a k i m) = Some sm" for n sm
    proof (cases "nif_of n m")
      case None
      then have "nif_subs n m = []" by (simp add: nif_subs_def nif_list_def)
      with created_nif[of n a k i m] that None show ?thesis by (auto simp: state_inv_def agps_sm_new_def)
    next
      case (Some sm0)
      with created_nif[of n a k i m] that assms(2) show ?thesis by (auto simp: strict_inv_def)
    qed
    with m'' assms(3) show ?thesis by (simp add: strict_inv_def)
  next
    fix m'' h t k i t' k' assume "mgr_step oper m = Some m''"
      "m'' = m\<lparr>mgr_calls := mgr_calls m @ [AtlOpenStatusCb h False None 0 0 t' k']\<rparr>"
    with assms(2,3) show ?thesis by (auto simp: strict_inv_def)
  next
    fix m'' n s assume "mgr_step oper m = Some m''" "event_step AGPS_EVENT_SUBSCRIBE s n m m''"
    with event_step_state assms show ?thesis by auto
  next
    fix m'' e n s assume "mgr_step oper m = Some m''" "event_step e s n m m''"
    with event_step_state assms show ?thesis by auto
  qed (use assms in auto)
qed

text \<open>The new requests of a handle in a script.\<close>

fun new_requests :: "int \<Rightarrow> agps_op list \<Rightarrow> agps_mgr \<Rightarrow> nat" where
  "new_requests k [] m = 0"
| "new_requests k (oper # opers) m =
     (if new_request k oper m then 1 else 0) +
     (case mgr_step oper m of None \<Rightarrow> 0 | Some m' \<Rightarrow> new_requests k opers m')"

lemma nif_calls_same [simp]: "nif_calls n (m\<lparr>mgr_calls := cs\<rparr>) = nif_calls n m"
  by (simp add: nif_calls_def)

lemma step_ended:
  assumes "mgr_inv m" "strict_inv m" "mgr_step oper m = Some m'" "oper \<noteq> ModemSSR"
  shows "ended k m' + pending k m' = ended k m + pending k m + (if new_request k oper m then 1 else 0)"
proof -
  have ok: "heap_ok {} m" using assms(1) by (simp add: mgr_inv_def)
  note ev = event_step_ended[OF _ assms(2) ok, of _ _ _ _ k]
  show ?thesis
  proof (rule step_cases[OF ok, of oper])
    fix m'' assume m'': "mgr_step oper m = Some m''" "m'' = m"
    have "\<not> new_request k oper m"
    proof
      assume "new_request k oper m"
      then obtain t j i where r: "oper = RequestATL k t j i"
        "getAgpsStateMachine t m = None \<or> (\<exists>n. getAgpsStateMachine t m = Some n \<and> k \<notin> mConnHandle ` set (nif_subs n m))"
        by (cases oper) (auto simp: new_request_def split: option.splits)
      from requestATL_ok[OF ok, of k t j i] r(1) m'' have
        "(\<exists>t' k'. m = m\<lparr>mgr_calls := mgr_calls m @ [AtlOpenStatusCb k False None 0 0 t' k']\<rparr>) \<or>
         (\<exists>n s. getAgpsStateMachine t m = Some n \<and> mConnHandle s = k \<and> event_step AGPS_EVENT_SUBSCRIBE s n m m)"
        by (auto simp: mgr_step_def)
      moreover have "mgr_calls m \<noteq> mgr_calls m @ [c]" for c by simp
      then have "m \<noteq> m\<lparr>mgr_calls := mgr_calls m @ [c]\<rparr>" for c by (metis agps_mgr.select_convs(4) agps_mgr.surjective agps_mgr.update_convs(4))
      ultimately obtain n s where "getAgpsStateMachine t m = Some n" "mConnHandle s = k" "event_step AGPS_EVENT_SUBSCRIBE s n m m"
        by blast
      with ev[of AGPS_EVENT_SUBSCRIBE s n m] r(2) show False by auto
    qed
    with m'' assms(3) show ?thesis by simp
  next
    fix m'' a c i assume "mgr_step oper m = Some m''" "m'' = createAgpsStateMachines a c i m" "oper = CreateSms a c i"
    with assms(3) show ?thesis by (simp add: new_request_def ended_def pending_def)
  next
    fix m'' h t c i t' k' assume "mgr_step oper m = Some m''" "oper = RequestATL h t c i"
      "getAgpsStateMachine t m = None"
      "m'' = m\<lparr>mgr_calls := mgr_calls m @ [AtlOpenStatusCb h False None 0 0 t' k']\<rparr>"
    with assms(3) show ?thesis by (simp add: new_request_def ended_def pending_def)
  next
    fix m'' h t c i n s assume "mgr_step oper m = Some m''" "oper = RequestATL h t c i"
      "getAgpsStateMachine t m = Some n" "mConnHandle s = h" "event_step AGPS_EVENT_SUBSCRIBE s n m m''"
    with assms(3) ev[of AGPS_EVENT_SUBSCRIBE s n m''] show ?thesis by (simp add: new_request_def)
  next
    fix m'' e n s assume "mgr_step oper m = Some m''" "e \<noteq> AGPS_EVENT_SUBSCRIBE" "event_step e s n m m''"
      "\<forall>h t c i. oper \<noteq> RequestATL h t c i"
    with assms(3) ev[of e s n m''] show ?thesis by (cases oper) (auto simp: new_request_def)
  qed (use assms in auto)
qed

lemma run_strict:
  assumes "mgr_inv m" "strict_inv m" "mgr_run opers m = Some m'" "ModemSSR \<notin> set opers"
  shows "strict_inv m' \<and> ended k m' + pending k m' = ended k m + pending k m + new_requests k opers m"
  using assms
proof (induction opers arbitrary: m)
  case Nil
  then show ?case by simp
next
  case (Cons oper opers)
  obtain m1 where m1: "mgr_step oper m = Some m1" "mgr_inv m1" using step_inv[OF Cons.prems(1)] by blast
  have ne: "oper \<noteq> ModemSSR" "ModemSSR \<notin> set opers" using Cons.prems(4) by auto
  have "mgr_run opers m1 = Some m'" using Cons.prems(3) m1(1) by simp
  from Cons.IH[OF m1(2) step_strict[OF Cons.prems(1,2) m1(1) ne(1)] this ne(2)]
    step_ended[OF Cons.prems(1,2) m1(1) ne(1), of k] m1(1)
  show ?case by simp
qed

section \<open>The properties\<close>

text \<open>
  C13: No script of operations makes the AGPS manager or its state machines read, change or
  delete a subscriber that has been deleted: every script returns. The subscribers alive after
  it are those in the two lists, without duplicates: none leaks, and the local variable of
  \<open>requestATL\<close>, to which the state machine keeps a pointer, is not among them.
\<close>

theorem agps_memory_safe:
  "\<exists>m. mgr_run opers (agps_mgr_new c e) = Some m \<and>
     {p. subs (sub_objs m) p \<noteq> None} = set (nif_list AgnssNif m @ nif_list InternetNif m) \<and>
     distinct (nif_list AgnssNif m @ nif_list InternetNif m)"
proof -
  obtain m where m: "mgr_run opers (agps_mgr_new c e) = Some m" "mgr_inv m"
    using run_inv new_inv by blast
  then have ok: "heap_ok {} m" by (simp add: mgr_inv_def)
  then have "lives (sub_objs m) (nif_list n m) (nif_subs n m)" for n by (simp add: heap_ok_def)
  then have "distinct (nif_list n m)" for n by (simp add: lives_def)
  moreover from ok have "set (nif_list AgnssNif m) \<inter> set (nif_list InternetNif m) = {}"
    unfolding heap_ok_def by (elim conjE)
  moreover from ok have "{p. subs (sub_objs m) p \<noteq> None} = set (nif_list AgnssNif m) \<union> set (nif_list InternetNif m) \<union> {}"
    unfolding heap_ok_def by (elim conjE)
  ultimately show ?thesis
    using m(1) unfolding distinct_append set_append Un_empty_right by (intro exI[of _ m] conjI)
qed

text \<open>
  C14: Handling an event refines the machine on a list of subscribers: on subscribers that are
  alive it returns, makes the same callbacks, takes the same transition and leaves the same
  subscribers, and it touches no other object.
\<close>

theorem agps_event_refines:
  assumes "lives h (mSubscriberList sm) vs" "subs_wf vs"
    "subs h (mCurrentSubscriber sm) = Some s"
    "event = AGPS_EVENT_UNSUBSCRIBE \<longrightarrow> mCurrentSubscriber sm \<in> set (mSubscriberList sm)"
  shows "\<exists>qs' h'. processAgpsEvent event (sm, h) =
      Some ((fst (a_event event s (sm, vs)))\<lparr>mSubscriberList := qs'\<rparr>, h') \<and>
    lives h' qs' (snd (a_event event s (sm, vs))) \<and> frame (mSubscriberList sm) h qs' h'"
  using event_refined[OF assms(1,2), of event s] assms(3,4) by (auto simp: refined_def)

lemma agps_event_refines_witness:
  "\<exists>qs' h'. processAgpsEvent AGPS_EVENT_GRANTED
      (agps_sm_new AGPS_TYPE_SUPL 0 0\<lparr>mCurrentSubscriber := 1\<rparr>,
       \<lparr>subs = (\<lambda>_. None)(1 := Some \<lparr>mConnHandle = 7, mWaitForCloseComplete = True, mIsInactive = False, sub_mask = 0\<rparr>), brk = 2\<rparr>) =
    Some (agps_sm_new AGPS_TYPE_SUPL 0 0\<lparr>mCurrentSubscriber := 1, mSubscriberList := qs'\<rparr>, h')"
  using agps_event_refines[of "\<lparr>subs = (\<lambda>_. None)(1 := Some \<lparr>mConnHandle = 7, mWaitForCloseComplete = True, mIsInactive = False, sub_mask = 0\<rparr>), brk = 2\<rparr>"
      "agps_sm_new AGPS_TYPE_SUPL 0 0\<lparr>mCurrentSubscriber := 1\<rparr>" "[]"
      "\<lparr>mConnHandle = 7, mWaitForCloseComplete = True, mIsInactive = False, sub_mask = 0\<rparr>" AGPS_EVENT_GRANTED]
  by (auto simp: lives_def subs_wf_def agps_sm_new_def a_event_def a_granted_def)

text \<open>
  C15: As long as the modem does not restart, the state of a machine tells what its subscribers
  are: none in RELEASED, at least one that still wants the connection in PENDING and ACQUIRED,
  at least one that waits for its end in RELEASING. Handles do not repeat.
\<close>

theorem agps_state_matches_subscribers:
  assumes "mgr_run opers (agps_mgr_new c e) = Some m" "ModemSSR \<notin> set opers" "nif_of n m = Some sm"
  shows "(case mState sm of
      AGPS_STATE_INVALID \<Rightarrow> False
    | AGPS_STATE_RELEASED \<Rightarrow> nif_subs n m = []
    | AGPS_STATE_RELEASING \<Rightarrow> (\<exists>v \<in> set (nif_subs n m). mIsInactive v)
    | _ \<Rightarrow> (\<exists>v \<in> set (nif_subs n m). \<not> mIsInactive v)) \<and>
    distinct (map mConnHandle (nif_subs n m))"
proof -
  have "strict_inv m" using run_strict[OF _ _ assms(1,2)] new_inv by blast
  moreover have "mgr_inv m" using run_inv[of "agps_mgr_new c e" opers] new_inv assms(1) by auto
  ultimately show ?thesis
    using assms(3) by (cases "mState sm") (auto simp: strict_inv_def state_inv_def some_active_def mgr_inv_def
        heap_ok_def subs_wf_def dest: spec[of _ n])
qed

text \<open>
  C16: The framework is never asked to release a connection that is not requested: in the calls
  of a machine each release comes right after a request, and in PENDING and ACQUIRED the last
  call is a request. This holds through restarts of the modem.
\<close>

theorem agps_release_follows_request:
  assumes "mgr_run opers (agps_mgr_new c e) = Some m" "nif_of n m = Some sm"
  shows "releases_matched False (conn_calls (sm_calls sm)) \<and>
    (mState sm \<in> {AGPS_STATE_PENDING, AGPS_STATE_ACQUIRED} \<longrightarrow>
       conn_calls (sm_calls sm) \<noteq> [] \<and> last (conn_calls (sm_calls sm)))"
proof -
  have "mgr_inv m" using run_inv[of "agps_mgr_new c e" opers] new_inv assms(1) by auto
  then show ?thesis using assms(2) by (simp add: mgr_inv_def conn_inv_def)
qed

text \<open>
  C17: Every new request gets exactly one last word: as long as the modem does not restart, the
  failed opens and the closes reported for a handle, with its subscriptions that are still
  listed, are as many as its new requests. A request of a handle that is still listed is not a new one; it
  adds nothing to either side.
\<close>

theorem agps_requests_answered:
  assumes "mgr_run opers (agps_mgr_new c e) = Some m" "ModemSSR \<notin> set opers"
  shows "ended k m + pending k m = new_requests k opers (agps_mgr_new c e)"
proof -
  have "ended k (agps_mgr_new c e) = 0" "pending k (agps_mgr_new c e) = 0"
    by (simp_all add: ended_def pending_def nif_calls_def nif_subs_def nif_list_def nif_of_def agps_mgr_new_def)
  with run_strict[OF _ _ assms, of k] new_inv show ?thesis by simp
qed

section \<open>Scripts that lose subscribers\<close>

text \<open>What can be seen of a machine after a script: state, handles, calls.\<close>

definition seen :: "nif \<Rightarrow> agps_op list \<Rightarrow> (agps_state \<times> int list \<times> agps_call list) option" where
  "seen n opers =
     (case mgr_run opers (agps_mgr_new True True) of None \<Rightarrow> None
      | Some m \<Rightarrow> map_option (\<lambda>sm. (mState sm, map mConnHandle (nif_subs n m), sm_calls sm)) (nif_of n m))"

definition opened :: "agps_op list" where
  "opened = [CreateSms 7 0 0, RequestATL 1 AGPS_TYPE_SUPL 16 0, OpenSuccess AGPS_TYPE_SUPL (Some ''net'') 3 1]"

text \<open>
  A restart of the modem drops the subscribers but not the state: handle 1 is told nothing,
  the machine stays ACQUIRED without subscribers and never releases the connection, and the next
  request is granted at once although nobody has asked the framework for a connection since.
\<close>

theorem modem_restart_keeps_state:
  "seen AgnssNif (opened @ [ModemSSR, ReleaseATL 1, RequestATL 2 AGPS_TYPE_SUPL 16 0]) =
     Some (AGPS_STATE_ACQUIRED, [2],
       [StatusV4Cb True AGPS_TYPE_SUPL 16 0,
        AtlOpenStatusCb 1 True (Some ''net'') 3 1 AGPS_TYPE_SUPL 16,
        AtlOpenStatusCb 2 True (Some ''net'') 3 1 AGPS_TYPE_SUPL 16])"
  by code_simp

text \<open>
  A request for a handle that is still waiting for its close is lost: it is neither
  answered nor kept, and no connection is requested for it.
\<close>

theorem repeated_request_lost:
  "seen AgnssNif (opened @ [ReleaseATL 1, RequestATL 1 AGPS_TYPE_SUPL 16 0, Closed AGPS_TYPE_SUPL]) =
     Some (AGPS_STATE_RELEASED, [],
       [StatusV4Cb True AGPS_TYPE_SUPL 16 0,
        AtlOpenStatusCb 1 True (Some ''net'') 3 1 AGPS_TYPE_SUPL 16,
        StatusV4Cb False AGPS_TYPE_SUPL 16 0,
        AtlCloseStatusCb 1 True])"
  by code_simp

text \<open>
  The type of the last request is used for every call: a SUPL connection is granted to an
  emergency request and released as one.
\<close>

lemma release_with_other_type:
  "seen AgnssNif (opened @ [RequestATL 2 AGPS_TYPE_SUPL_ES 512 0, ReleaseATL 1, ReleaseATL 2]) =
     Some (AGPS_STATE_RELEASING, [1, 2],
       [StatusV4Cb True AGPS_TYPE_SUPL 16 0,
        AtlOpenStatusCb 1 True (Some ''net'') 3 1 AGPS_TYPE_SUPL 16,
        AtlOpenStatusCb 2 True (Some ''net'') 3 1 AGPS_TYPE_SUPL_ES 512,
        StatusV4Cb False AGPS_TYPE_SUPL_ES 512 0])"
  by code_simp

text \<open>
  The manager only makes subscribers that wait for the close. For one that does not, the loop
  of \<open>deleteSubscriber\<close> deletes the subscriber it compares the rest of the list with.
\<close>

lemma unsubscribe_without_wait_unsafe:
  "processAgpsEvent AGPS_EVENT_UNSUBSCRIBE
     (agps_sm_new AGPS_TYPE_SUPL 0 0\<lparr>mState := AGPS_STATE_ACQUIRED, mSubscriberList := [1, 2], mCurrentSubscriber := 1\<rparr>,
      \<lparr>subs = (\<lambda>_. None)
         (1 := Some \<lparr>mConnHandle = 1, mWaitForCloseComplete = False, mIsInactive = False, sub_mask = 0\<rparr>,
          2 := Some \<lparr>mConnHandle = 2, mWaitForCloseComplete = False, mIsInactive = False, sub_mask = 0\<rparr>),
       brk = 3\<rparr>) = None"
  by code_simp

section \<open>Witnesses\<close>

lemma opened_run: "\<exists>m sm. mgr_run opened (agps_mgr_new True True) = Some m \<and> nif_of AgnssNif m = Some sm \<and>
   mState sm = AGPS_STATE_ACQUIRED \<and> map mConnHandle (nif_subs AgnssNif m) = [1]"
proof -
  have "seen AgnssNif opened = Some (AGPS_STATE_ACQUIRED, [1],
      [StatusV4Cb True AGPS_TYPE_SUPL 16 0, AtlOpenStatusCb 1 True (Some ''net'') 3 1 AGPS_TYPE_SUPL 16])"
    by code_simp
  then show ?thesis by (auto simp: seen_def split: option.splits)
qed

lemma agps_state_matches_subscribers_witness:
  "\<exists>m. mgr_run opened (agps_mgr_new True True) = Some m \<and> (\<exists>v \<in> set (nif_subs AgnssNif m). \<not> mIsInactive v)"
proof -
  obtain m sm where m: "mgr_run opened (agps_mgr_new True True) = Some m" "nif_of AgnssNif m = Some sm"
    "mState sm = AGPS_STATE_ACQUIRED" using opened_run by blast
  have "ModemSSR \<notin> set opened" by (simp add: opened_def)
  from agps_state_matches_subscribers[OF m(1) this m(2)] m(1,3) show ?thesis by auto
qed

lemma agps_release_follows_request_witness:
  "\<exists>m sm. mgr_run opened (agps_mgr_new True True) = Some m \<and> nif_of AgnssNif m = Some sm \<and>
     last (conn_calls (sm_calls sm))"
proof -
  obtain m sm where m: "mgr_run opened (agps_mgr_new True True) = Some m" "nif_of AgnssNif m = Some sm"
    "mState sm = AGPS_STATE_ACQUIRED" using opened_run by blast
  with agps_release_follows_request[OF m(1,2)] show ?thesis by auto
qed

lemma agps_requests_answered_witness:
  "\<exists>m. mgr_run opened (agps_mgr_new True True) = Some m \<and> ended 1 m + pending 1 m = 1"
proof -
  obtain m where m: "mgr_run opened (agps_mgr_new True True) = Some m" using opened_run by blast
  have "ModemSSR \<notin> set opened" by (simp add: opened_def)
  moreover have "new_requests 1 opened (agps_mgr_new True True) = 1" by code_simp
  ultimately show ?thesis using agps_requests_answered[OF m, of 1] m by auto
qed

end
