(* ===== verification/H264Reader.thy ===== *)
theory H264Reader
  imports DevPrelude
begin

unbundle bit_operations_syntax

text \<open>
  The bit reader of h264_stream_parser (vidc/vdec/src/h264_utils.cpp): a window of 32 bits over
  a buffer of bytes, from which emulation prevention bytes are dropped.
\<close>

section \<open>Machine words\<close>

type_synonym byte = "8 word"
type_synonym u32 = "32 word"

text \<open>
  The code shifts words of 32 bits by 32 and more, which C++ leaves undefined. What it does is
  what the shift instruction of the processor does, for 32 and for 64 bit ARM, the two
  architectures the libraries are built for: the former takes the amount modulo 256, so that
  32 and more bits leave nothing, the latter modulo 32.
\<close>

datatype isa = A32 | A64

definition shift_amount :: "isa \<Rightarrow> nat \<Rightarrow> nat" where
  "shift_amount m k = (case m of A32 \<Rightarrow> k mod 256 | A64 \<Rightarrow> k mod 32)"

definition lsl :: "isa \<Rightarrow> u32 \<Rightarrow> nat \<Rightarrow> u32" where
  "lsl m x k = push_bit (shift_amount m k) x"

definition lsr :: "isa \<Rightarrow> u32 \<Rightarrow> nat \<Rightarrow> u32" where
  "lsr m x k = drop_bit (shift_amount m k) x"

section \<open>The reader\<close>

text \<open>
  The members of h264_stream_parser that the reader uses. \<open>bitstream\<close> is what the buffer holds
  from the pointer on, \<open>bitstream_bytes\<close> how much of it the reader may use; \<open>overrun\<close> only
  observes: it is set by a read beyond the end of the buffer, by an index that an array does not
  have and by a call on a missing handler, after which the model means nothing. The counters stay below the size of the buffer in bits.
\<close>

record h264_reader =
  curr_32_bit :: u32
  bits_read :: nat
  zero_cntr :: nat
  emulation_code_skip_cntr :: nat
  bitstream :: "byte list"
  bitstream_bytes :: nat
  emulation_sc_enabled :: bool
  overrun :: bool

definition init_bitstream :: "byte list \<Rightarrow> u32 \<Rightarrow> 'a h264_reader_scheme \<Rightarrow> 'a h264_reader_scheme" where
  "init_bitstream data len s =
     s\<lparr>bitstream := data, bitstream_bytes := unat len, curr_32_bit := 0, bits_read := 0,
       zero_cntr := 0, emulation_code_skip_cntr := 0\<rparr>"

definition more_bits :: "'a h264_reader_scheme \<Rightarrow> bool" where
  "more_bits s \<longleftrightarrow> bitstream_bytes s > 0 \<or> bits_read s > 0"

text \<open>One round of the loop of \<open>read_word\<close>.\<close>

definition read_byte :: "'a h264_reader_scheme \<Rightarrow> 'a h264_reader_scheme" where
  "read_byte s =
     (let (b, bs, s) = (case bitstream s of
            [] \<Rightarrow> (0, [], s\<lparr>overrun := True\<rparr>)
          | b # bs \<Rightarrow> (b, bs, s));
          s = (if b = 3 \<and> zero_cntr s \<ge> 2 \<and> emulation_sc_enabled s
               then s\<lparr>emulation_code_skip_cntr := emulation_code_skip_cntr s + 1\<rparr>
               else s\<lparr>curr_32_bit := push_bit 8 (curr_32_bit s) OR ucast b, bits_read := bits_read s + 8\<rparr>);
          s = s\<lparr>zero_cntr := (if b = 0 then zero_cntr s + 1 else 0)\<rparr>
      in s\<lparr>bitstream := bs, bitstream_bytes := bitstream_bytes s - 1\<rparr>)"

lemma read_byte_bytes [simp]: "bitstream_bytes (read_byte s) = bitstream_bytes s - 1"
  by (simp add: read_byte_def Let_def split: list.split)

function read_loop :: "'a h264_reader_scheme \<Rightarrow> 'a h264_reader_scheme" where
  "read_loop s =
     (if bitstream_bytes s > 0 \<and> bits_read s < 32 then read_loop (read_byte s) else s)"
  by auto
termination by (relation "measure bitstream_bytes") auto

declare read_loop.simps [simp del]

definition read_word :: "isa \<Rightarrow> 'a h264_reader_scheme \<Rightarrow> 'a h264_reader_scheme" where
  "read_word m s =
     (let s = read_loop (s\<lparr>curr_32_bit := 0, bits_read := 0\<rparr>)
      in s\<lparr>curr_32_bit := lsl m (curr_32_bit s) (32 - bits_read s)\<rparr>)"

definition consume :: "isa \<Rightarrow> nat \<Rightarrow> 'a h264_reader_scheme \<Rightarrow> 'a h264_reader_scheme" where
  "consume m n s = s\<lparr>bits_read := bits_read s - n, curr_32_bit := lsl m (curr_32_bit s) n\<rparr>"

definition getbits :: "isa \<Rightarrow> nat \<Rightarrow> 'a h264_reader_scheme \<Rightarrow> u32 \<times> 'a h264_reader_scheme" where
  "getbits m n s =
     (if n > 32 then (0, s)
      else
        let v = lsr m (curr_32_bit s) (32 - n) in
        if bits_read s < n then
          let n = n - bits_read s;
              s = read_word m s;
              v = v OR lsr m (curr_32_bit s) (32 - n) in
          if bits_read s < n
          then (lsr m v (n - bits_read s), consume m (bits_read s) s)
          else (v, consume m n s)
        else (v, consume m n s))"

definition extract_bits :: "isa \<Rightarrow> nat \<Rightarrow> ('a h264_reader_scheme, u32) state" where
  "extract_bits m n = State (getbits m n)"

lemma run_extract_bits [simp]: "run_state (extract_bits m n) s = getbits m n s"
  by (simp add: extract_bits_def)

text \<open>What is left to read, an upper bound in bits.\<close>

definition bits_left :: "'a h264_reader_scheme \<Rightarrow> nat" where
  "bits_left s = bits_read s + 8 * bitstream_bytes s"

lemma more_bits_left: "more_bits s \<longleftrightarrow> bits_left s > 0"
  by (auto simp: more_bits_def bits_left_def)

lemma read_byte_left: "bitstream_bytes s > 0 \<Longrightarrow> bits_left (read_byte s) \<le> bits_left s"
  by (auto simp: bits_left_def read_byte_def Let_def split: list.split)

lemma read_loop_left: "bits_left (read_loop s) \<le> bits_left s"
proof (induction s rule: read_loop.induct)
  case (1 s)
  then show ?case using read_byte_left[of s] by (subst read_loop.simps) auto
qed

lemma read_loop_end: "bits_read (read_loop s) < 32 \<Longrightarrow> bitstream_bytes (read_loop s) = 0"
proof (induction s rule: read_loop.induct)
  case (1 s)
  then show ?case by (subst read_loop.simps) (auto simp: read_loop.simps[of s] split: if_splits)
qed

lemma read_word_left: "bits_left (read_word m s) \<le> bits_left s"
proof -
  have "bits_left (read_loop (s\<lparr>curr_32_bit := 0, bits_read := 0\<rparr>)) \<le> bits_left (s\<lparr>curr_32_bit := 0, bits_read := 0\<rparr>)"
    by (rule read_loop_left)
  then show ?thesis by (simp add: read_word_def Let_def bits_left_def)
qed

lemma read_word_end: "bits_read (read_word m s) < 32 \<Longrightarrow> bitstream_bytes (read_word m s) = 0"
  using read_loop_end[of "s\<lparr>curr_32_bit := 0, bits_read := 0\<rparr>"] by (simp add: read_word_def Let_def)

lemma getbits_left:
  assumes "0 < n" "n \<le> 32"
  shows "bits_left (snd (getbits m n s)) < bits_left s \<or> bits_left (snd (getbits m n s)) = 0"
  using assms read_word_left[of m s] read_word_end[of m s]
  by (auto simp: getbits_def Let_def consume_def bits_left_def)

text \<open>At the end of the stream a byte is 0.\<close>

lemma getbits_8_end:
  assumes "bits_left s = 0"
  shows "fst (getbits m 8 s) = 0"
proof -
  have b: "bits_read (read_word m s) = 0"
    using assms read_word_left[of m s] by (simp add: bits_left_def)
  have z: "curr_32_bit (read_word m s) = 0"
    using assms by (simp add: bits_left_def read_word_def read_loop.simps lsl_def)
  have "drop_bit 8 (drop_bit 24 (x :: u32)) = 0" for x
    by (rule bit_word_eqI) (simp add: bit_drop_bit_eq)
  then have "lsr m (lsr m (curr_32_bit s) 24) 8 = 0"
    by (cases m) (simp_all only: lsr_def shift_amount_def isa.case, simp_all)
  then show ?thesis using assms b z
    by (simp add: getbits_def Let_def bits_left_def lsr_def)
qed

section \<open>Exponential Golomb codes\<close>

text \<open>The loop of \<open>uev\<close>: the zeros before the first one, which it also takes.\<close>

function lead_zeros :: "isa \<Rightarrow> 'a h264_reader_scheme \<Rightarrow> u32 \<times> 'a h264_reader_scheme" where
  "lead_zeros m s =
     (let (b, s) = getbits m 1 s in
      if b = 0 \<and> more_bits s then let (k, s) = lead_zeros m s in (k + 1, s) else (0, s))"
  by auto
termination
proof (relation "measure (\<lambda>(m, s). bits_left s)")
  fix m :: isa and s :: "'a h264_reader_scheme" and x b s'
  assume "x = getbits m 1 s" "(b, s') = x" "b = 0 \<and> more_bits s'"
  then show "((m, s'), m, s) \<in> measure (\<lambda>(m, s). bits_left s)"
    using getbits_left[of 1 m s] more_bits_left[of s'] by (auto dest: sym)
qed simp

declare lead_zeros.simps [simp del]

definition uev :: "isa \<Rightarrow> ('a h264_reader_scheme, u32) state" where
  "uev m = State_Monad.bind (State (lead_zeros m)) (\<lambda>lead_zero_bits.
     if lead_zero_bits = 0 then State_Monad.return 0
     else State_Monad.bind (extract_bits m (unat lead_zero_bits)) (\<lambda>v.
       State_Monad.return (lsl m 1 (unat lead_zero_bits) - 1 + v)))"

definition sev :: "isa \<Rightarrow> ('a h264_reader_scheme, int) state" where
  "sev m = State_Monad.bind (uev m) (\<lambda>code_num.
     let ret = drop_bit 1 (code_num + 1) in
     State_Monad.return (sint (if code_num AND 1 \<noteq> 0 then ret else - ret)))"

definition iv :: "isa \<Rightarrow> nat \<Rightarrow> ('a h264_reader_scheme, int) state" where
  "iv m n_bits = State_Monad.bind (extract_bits m n_bits) (\<lambda>code_num.
     State_Monad.return (sint
       (if lsr m code_num (n_bits - 1) \<noteq> 0
        then - 1 * (NOT (code_num AND NOT (lsl m 1 (n_bits - 1))) + 1)
        else code_num)))"

text \<open>The loop of \<open>get_nal_unit_type\<close> that looks for a start code.\<close>

function find_start_code :: "isa \<Rightarrow> u32 \<Rightarrow> u32 \<Rightarrow> 'a h264_reader_scheme \<Rightarrow> (u32 \<times> u32) \<times> 'a h264_reader_scheme" where
  "find_start_code m v consumed_bytes s =
     (if v \<noteq> 1 \<and> more_bits s then
        let (b, s) = getbits m 8 s in find_start_code m (push_bit 8 v OR b) (consumed_bytes + 1) s
      else ((v, consumed_bytes), s))"
  by auto
termination
proof (relation "measure (\<lambda>(m, v, c, s). bits_left s)")
  fix m :: isa and v c :: u32 and s :: "'a h264_reader_scheme" and x b s'
  assume "v \<noteq> 1 \<and> more_bits s" "x = getbits m 8 s" "(b, s') = x"
  then show "((m, push_bit 8 v OR b, c + 1, s'), m, v, c, s) \<in> measure (\<lambda>(m, v, c, s). bits_left s)"
    using getbits_left[of 8 m s] more_bits_left[of s] by (auto dest: sym)
qed simp

declare find_start_code.simps [simp del]

text \<open>\<open>get_nal_unit_type\<close>: the consumed bytes and the type, 0 if there is no start code.\<close>

definition get_nal_unit_type :: "isa \<Rightarrow> ('a h264_reader_scheme, u32 \<times> u32) state" where
  "get_nal_unit_type m = State_Monad.bind (extract_bits m 24) (\<lambda>v.
     State_Monad.bind (State (find_start_code m v 3)) (\<lambda>(v, consumed_bytes).
       if v \<noteq> 1 then State_Monad.return (consumed_bytes, 0)
       else State_Monad.bind (extract_bits m 1) (\<lambda>_.
         State_Monad.bind (extract_bits m 2) (\<lambda>_.
           State_Monad.bind (extract_bits m 5) (\<lambda>nal_unit_type.
             State_Monad.return (consumed_bytes + 1, nal_unit_type))))))"

end
