(* ===== verification/BitLists.thy ===== *)
theory BitLists
  imports DevPrelude
begin

unbundle bit_operations_syntax

text \<open>
  Bit strings as lists, most significant bit first: their values, the binary digits of a
  number, exponential Golomb codes as ITU-T H.264 defines them (9.1), emulation prevention
  (7.4.1), and the contract of a bit reader with what its clients get from it.
\<close>

section \<open>Values\<close>

text \<open>The value of a bit string, as a word and as a number.\<close>

definition wob :: "bool list \<Rightarrow> 'a::len word" where
  "wob bs = horner_sum of_bool 2 (rev bs)"

definition nob :: "bool list \<Rightarrow> nat" where
  "nob bs = horner_sum of_bool 2 (rev bs)"

lemma horner_sum_word: "(horner_sum of_bool 2 bs :: 'a::len word) = of_nat (horner_sum of_bool 2 bs)"
  by (induction bs) simp_all

lemma wob_nob: "wob bs = of_nat (nob bs)"
  by (simp add: wob_def nob_def horner_sum_word)

lemma wob_Nil [simp]: "wob [] = 0" and nob_Nil [simp]: "nob [] = 0"
  by (simp_all add: wob_def nob_def)

lemma nob_snoc: "nob (bs @ [b]) = 2 * nob bs + of_bool b"
  by (simp add: nob_def)

lemma nob_append: "nob (xs @ ys) = 2 ^ length ys * nob xs + nob ys"
  by (induction ys rule: rev_induct) (simp_all add: nob_snoc algebra_simps flip: append_assoc)

lemma nob_Cons: "nob (b # bs) = 2 ^ length bs * of_bool b + nob bs"
  using nob_append[of "[b]" bs] nob_snoc[of "[]" b] by simp

lemma nob_bound: "nob bs < 2 ^ length bs"
  by (induction bs) (auto simp: nob_Cons)

lemma nob_replicate_False [simp]: "nob (replicate n False) = 0"
  by (induction n) (simp_all add: nob_Cons)

lemma unat_wob: "length bs \<le> LENGTH('a) \<Longrightarrow> unat (wob bs :: 'a::len word) = nob bs"
  using nob_bound[of bs] by (simp add: wob_nob unat_of_nat take_bit_nat_eq_self order_less_le_trans[OF _ power_increasing])

lemma bit_wob: "bit (wob bs :: 'a::len word) i \<longleftrightarrow> i < LENGTH('a) \<and> i < length bs \<and> bs ! (length bs - Suc i)"
  by (auto simp: wob_def bit_horner_sum_bit_iff rev_nth)

lemma wob_append: "wob (xs @ ys) = (push_bit (length ys) (wob xs) OR wob ys :: 'a::len word)"
  by (rule bit_word_eqI) (auto simp: bit_wob bit_or_iff bit_push_bit_iff nth_append)

lemma push_bit_drop: "k \<le> length bs \<Longrightarrow> length bs \<le> LENGTH('a) \<Longrightarrow>
    push_bit k (push_bit (LENGTH('a) - length bs) (wob bs)) =
    (push_bit (LENGTH('a) - (length bs - k)) (wob (drop k bs)) :: 'a::len word)"
  by (rule bit_word_eqI) (auto simp: bit_wob bit_push_bit_iff add.commute)

lemma drop_bit_take: "n \<le> length bs \<Longrightarrow> length bs \<le> LENGTH('a) \<Longrightarrow>
    drop_bit (LENGTH('a) - n) (push_bit (LENGTH('a) - length bs) (wob bs)) = (wob (take n bs) :: 'a::len word)"
  by (rule bit_word_eqI) (auto simp: bit_wob bit_drop_bit_eq bit_push_bit_iff)

lemma drop_bit_all: "length bs \<le> n \<Longrightarrow> n \<le> LENGTH('a) \<Longrightarrow>
    drop_bit (LENGTH('a) - n) (push_bit (LENGTH('a) - length bs) (wob bs)) = (push_bit (n - length bs) (wob bs) :: 'a::len word)"
  by (rule bit_word_eqI) (auto simp: bit_wob bit_drop_bit_eq bit_push_bit_iff)

lemma drop_bit_push_wob: "length bs + n \<le> LENGTH('a) \<Longrightarrow>
    drop_bit n (push_bit n (wob bs)) = (wob bs :: 'a::len word)"
  by (rule bit_word_eqI) (auto simp: bit_wob bit_drop_bit_eq bit_push_bit_iff)

text \<open>The bits of a byte, and of a list of bytes.\<close>

definition bits_of :: "8 word \<Rightarrow> bool list" where
  "bits_of b = map (bit b) (rev [0..<8])"

lemma length_bits_of [simp]: "length (bits_of b) = 8"
  by (simp add: bits_of_def)

lemma wob_bits_of: "wob (bits_of b) = (ucast b :: 32 word)"
proof (rule bit_word_eqI)
  fix i assume "i < LENGTH(32)"
  then show "bit (wob (bits_of b) :: 32 word) i = bit (ucast b :: 32 word) i"
    using bit_imp_le_length[of b i] by (cases "i < 8") (auto simp: bit_wob bit_ucast_iff bits_of_def rev_nth)
qed

definition bytes_bits :: "8 word list \<Rightarrow> bool list" where
  "bytes_bits bs = concat (map bits_of bs)"

lemma bytes_bits_simps [simp]: "bytes_bits [] = []" "bytes_bits (b # bs) = bits_of b @ bytes_bits bs"
  "bytes_bits (xs @ ys) = bytes_bits xs @ bytes_bits ys"
  by (simp_all add: bytes_bits_def)

lemma length_bytes_bits [simp]: "length (bytes_bits bs) = 8 * length bs"
  by (induction bs) simp_all

section \<open>Emulation prevention\<close>

text \<open>
  A byte 3 after two zeros is not data; \<open>z\<close> counts the zeros before. \<open>escape\<close> is what a
  writer does: it puts a 3 between two zeros and a byte of at most 3.
\<close>

fun unescape :: "nat \<Rightarrow> 8 word list \<Rightarrow> 8 word list" where
  "unescape z [] = []"
| "unescape z (b # bs) =
     (if b = 3 \<and> z \<ge> 2 then unescape 0 bs else b # unescape (if b = 0 then z + 1 else 0) bs)"

fun escape :: "nat \<Rightarrow> 8 word list \<Rightarrow> 8 word list" where
  "escape z [] = []"
| "escape z (b # bs) =
     (if b \<le> 3 \<and> z \<ge> 2 then 3 # b # escape (if b = 0 then 1 else 0) bs
      else b # escape (if b = 0 then z + 1 else 0) bs)"

lemma unescape_escape: "unescape z (escape z bs) = bs"
  by (induction z bs rule: escape.induct) auto

section \<open>Exponential Golomb codes\<close>

text \<open>The binary digits of a number without leading zeros.\<close>

fun bin :: "nat \<Rightarrow> bool list" where
  "bin n = (if n = 0 then [] else bin (n div 2) @ [odd n])"

declare bin.simps [simp del]

lemma bin_0 [simp]: "bin 0 = []"
  by (simp add: bin.simps)

lemma nob_bin [simp]: "nob (bin n) = n"
proof (induction n rule: bin.induct)
  case (1 n)
  then show ?case by (subst bin.simps) (auto simp: nob_snoc)
qed

lemma bin_Cons: "n > 0 \<Longrightarrow> \<exists>t. bin n = True # t"
proof (induction n rule: bin.induct)
  case (1 n)
  then show ?case by (subst bin.simps) (cases "n div 2 = 0", auto simp: bin.simps[of 0] div_eq_0_iff)
qed

definition ue_code :: "nat \<Rightarrow> bool list" where
  "ue_code k = replicate (length (bin (k + 1)) - 1) False @ bin (k + 1)"

text \<open>The number of a signed value among 0, 1, -1, 2, -2, ...\<close>

definition se_index :: "int \<Rightarrow> nat" where
  "se_index v = (if v > 0 then nat (2 * v - 1) else nat (- 2 * v))"

definition se_code :: "int \<Rightarrow> bool list" where
  "se_code v = ue_code (se_index v)"

lemma ue_code_tail:
  "\<exists>t. ue_code k = replicate (length t) False @ True # t \<and> k + 1 = 2 ^ length t + nob t"
proof -
  obtain t where t: "bin (k + 1) = True # t" using bin_Cons[of "k + 1"] by auto
  then have "k + 1 = 2 ^ length t + nob t" using nob_bin[of "k + 1"] by (simp add: nob_Cons)
  then show ?thesis using t by (auto simp: ue_code_def)
qed

section \<open>Bit readers\<close>

text \<open>
  The contract of a bit reader as its clients use it. \<open>holds s bs\<close>: the bits still to be read
  from \<open>s\<close> are \<open>bs\<close>; \<open>getb\<close> reads a number of bits, \<open>zeros\<close> counts zeros up to the first one,
  \<open>ue\<close> and \<open>se\<close> read codes; \<open>None\<close> is a read outside of the buffer.
\<close>

locale golomb_reader =
  fixes holds :: "'s \<Rightarrow> bool list \<Rightarrow> bool"
    and getb :: "nat \<Rightarrow> 's \<Rightarrow> (32 word \<times> 's) option"
    and zeros :: "'s \<Rightarrow> (32 word \<times> 's) option"
    and ue :: "'s \<Rightarrow> (32 word \<times> 's) option"
    and se :: "'s \<Rightarrow> (int \<times> 's) option"
  assumes get: "holds s (p @ q) \<Longrightarrow> 0 < length p \<Longrightarrow> length p < 32 \<Longrightarrow>
      \<exists>s'. getb (length p) s = Some (wob p, s') \<and> holds s' q"
    and zeros_True: "holds s (True # q) \<Longrightarrow> \<exists>s'. zeros s = Some (0, s') \<and> holds s' q"
    and zeros_False: "holds s (False # q) \<Longrightarrow> q \<noteq> [] \<Longrightarrow>
      \<exists>s'. holds s' q \<and> zeros s = map_option (\<lambda>(k, t). (k + 1, t)) (zeros s')"
    and ue_0: "zeros s = Some (0, s1) \<Longrightarrow> ue s = Some (0, s1)"
    and ue_pos: "zeros s = Some (of_nat z, s1) \<Longrightarrow> 0 < z \<Longrightarrow> z < 32 \<Longrightarrow> getb z s1 = Some (v, s2) \<Longrightarrow>
      ue s = Some (push_bit z 1 - 1 + v, s2)"
    and se_ue: "ue s = Some (k, s1) \<Longrightarrow> unat k < 2 ^ 32 - 1 \<Longrightarrow>
      se s = Some (if odd (unat k) then int (unat k div 2 + 1) else - int (unat k div 2), s1)"
begin

lemma zeros_read: "holds s (replicate z False @ True # q) \<Longrightarrow> \<exists>s'. zeros s = Some (of_nat z, s') \<and> holds s' q"
proof (induction z arbitrary: s)
  case 0
  then show ?case using zeros_True by simp
next
  case (Suc z)
  then have "holds s (False # replicate z False @ True # q)" by simp
  from zeros_False[OF this] obtain s1 where s1: "holds s1 (replicate z False @ True # q)"
    "zeros s = map_option (\<lambda>(k, t). (k + 1, t)) (zeros s1)" by auto
  from Suc.IH[OF s1(1)] s1(2) show ?case by (auto simp: add.commute)
qed

text \<open>What the writer of a code puts in is what the reader gets.\<close>

lemma ue_read:
  assumes "holds s (ue_code k @ q)" "k < 2 ^ 32 - 1"
  shows "\<exists>s'. ue s = Some (of_nat k, s') \<and> holds s' q"
proof -
  obtain t where t: "ue_code k = replicate (length t) False @ True # t" "k + 1 = 2 ^ length t + nob t"
    using ue_code_tail by blast
  have z: "length t < 32"
  proof (rule ccontr)
    assume "\<not> length t < 32"
    then have "(2::nat) ^ 32 \<le> 2 ^ length t" by (intro power_increasing) auto
    then show False using t(2) assms(2) by simp
  qed
  obtain s1 where s1: "zeros s = Some (of_nat (length t), s1)" "holds s1 (t @ q)"
    using zeros_read[of s "length t" "t @ q"] assms(1) t(1) by auto
  show ?thesis
  proof (cases "t = []")
    case True
    then show ?thesis using s1 ue_0 t(2) by auto
  next
    case False
    then obtain s2 where s2: "getb (length t) s1 = Some (wob t, s2)" "holds s2 q" using get[OF s1(2)] z by auto
    have "(push_bit (length t) 1 - 1 + wob t :: 32 word) = of_nat (2 ^ length t + nob t) - 1"
      by (simp add: push_bit_eq_mult wob_nob)
    also have "\<dots> = of_nat k" by (simp flip: t(2))
    finally show ?thesis using ue_pos[OF s1(1) _ z s2(1)] s2(2) False by auto
  qed
qed

lemma se_read:
  assumes "holds s (se_code v @ q)" "\<bar>v\<bar> < 2 ^ 31"
  shows "\<exists>s'. se s = Some (v, s') \<and> holds s' q"
proof -
  have k: "se_index v < 2 ^ 32 - 1" using assms(2) by (auto simp: se_index_def)
  obtain s1 where s1: "ue s = Some (of_nat (se_index v), s1)" "holds s1 q"
    using ue_read[OF _ k] assms(1) by (auto simp: se_code_def)
  have u: "unat (of_nat (se_index v) :: 32 word) = se_index v"
    using k by (simp add: unat_of_nat take_bit_nat_eq_self)
  have "(if odd (se_index v) then int (se_index v div 2 + 1) else - int (se_index v div 2)) = v"
    by (auto simp: se_index_def nat_div_distrib even_nat_iff)
  then show ?thesis using se_ue[OF s1(1)] k s1(2) unfolding u by auto
qed

end

end
