(* ===== verification/H264ReaderSpec.thy ===== *)
theory H264ReaderSpec
  imports H264Reader BitLists
begin

text \<open>
  The bit reader refines reading from a list of bits: the bits of the window and those of the
  rest of the buffer without the emulation prevention bytes.
\<close>

section \<open>The bits of a reader\<close>

definition rest_bytes :: "'a h264_reader_scheme \<Rightarrow> byte list" where
  "rest_bytes s =
     (if emulation_sc_enabled s then unescape (zero_cntr s) (bitstream s) else bitstream s)"

definition in_buffer :: "'a h264_reader_scheme \<Rightarrow> bool" where
  "in_buffer s \<longleftrightarrow> bitstream_bytes s = length (bitstream s) \<and> \<not> overrun s"

definition reader_holds :: "'a h264_reader_scheme \<Rightarrow> bool list \<Rightarrow> bool" where
  "reader_holds s bs \<longleftrightarrow> in_buffer s \<and>
     (\<exists>pre. length pre = bits_read s \<and> bits_read s \<le> 32 \<and>
        curr_32_bit s = push_bit (32 - length pre) (wob pre) \<and> bs = pre @ bytes_bits (rest_bytes s))"

text \<open>The reader inside the loop of \<open>read_word\<close>: the window is not aligned yet.\<close>

definition loading :: "'a h264_reader_scheme \<Rightarrow> bool list \<Rightarrow> bool" where
  "loading s bs \<longleftrightarrow> in_buffer s \<and>
     (\<exists>pre. length pre = bits_read s \<and> 8 dvd bits_read s \<and> bits_read s \<le> 32 \<and>
        curr_32_bit s = wob pre \<and> bs = pre @ bytes_bits (rest_bytes s))"

lemma read_byte_loading:
  assumes "loading s bs" "bits_read s < 32" "bitstream_bytes s > 0"
  shows "loading (read_byte s) bs"
proof -
  obtain pre where pre: "length pre = bits_read s" "8 dvd bits_read s"
    "curr_32_bit s = wob pre" "bs = pre @ bytes_bits (rest_bytes s)" and ok: "in_buffer s"
    using assms(1) by (auto simp: loading_def)
  obtain b rest where b: "bitstream s = b # rest" using ok assms(3) by (cases "bitstream s") (auto simp: in_buffer_def)
  have le: "bits_read s + 8 \<le> 32" using pre(2) assms(2) by (elim dvdE) simp
  have w: "push_bit 8 (wob pre) OR ucast b = (wob (pre @ bits_of b) :: u32)"
    by (simp add: wob_append wob_bits_of)
  show ?thesis
  proof (cases "b = 3 \<and> zero_cntr s \<ge> 2 \<and> emulation_sc_enabled s")
    case True
    then have "read_byte s = s\<lparr>emulation_code_skip_cntr := emulation_code_skip_cntr s + 1,
        zero_cntr := 0, bitstream := rest, bitstream_bytes := bitstream_bytes s - 1\<rparr>"
      by (simp add: read_byte_def b)
    then show ?thesis using pre ok assms(2) True
      by (auto simp: loading_def in_buffer_def rest_bytes_def b)
  next
    case False
    then have rb: "read_byte s = s\<lparr>curr_32_bit := wob (pre @ bits_of b), bits_read := bits_read s + 8,
        zero_cntr := (if b = 0 then zero_cntr s + 1 else 0), bitstream := rest,
        bitstream_bytes := bitstream_bytes s - 1\<rparr>"
      by (auto simp: read_byte_def b pre(3) w)
    show ?thesis unfolding rb loading_def using pre ok le False
      by (intro conjI exI[of _ "pre @ bits_of b"]) (auto simp: in_buffer_def rest_bytes_def b)
  qed
qed

lemma read_loop_loading: "loading s bs \<Longrightarrow> loading (read_loop s) bs"
proof (induction s rule: read_loop.induct)
  case (1 s)
  then show ?case using read_byte_loading[of s bs] by (subst read_loop.simps) auto
qed

lemma shift_le [simp]: "k < 32 \<Longrightarrow> lsl m x k = push_bit k x" "k < 32 \<Longrightarrow> lsr m x k = drop_bit k x"
  by (cases m; simp add: lsl_def lsr_def shift_amount_def)+

lemma shift_A32 [simp]: "k \<le> 32 \<Longrightarrow> lsl A32 x k = push_bit k x" "k \<le> 32 \<Longrightarrow> lsr A32 x k = drop_bit k x"
  by (simp_all add: lsl_def lsr_def shift_amount_def)

lemma lsl_0 [simp]: "lsl m 0 k = 0" and lsr_0 [simp]: "lsr m 0 k = 0"
  by (simp_all add: lsl_def lsr_def)

lemma read_word_holds:
  assumes "in_buffer s"
  shows "reader_holds (read_word m s) (bytes_bits (rest_bytes s))"
proof -
  let ?s = "s\<lparr>curr_32_bit := 0, bits_read := 0\<rparr>"
  have "loading ?s (bytes_bits (rest_bytes s))"
    using assms by (auto simp: loading_def in_buffer_def rest_bytes_def)
  then have "loading (read_loop ?s) (bytes_bits (rest_bytes s))" by (rule read_loop_loading)
  then obtain pre where pre: "in_buffer (read_loop ?s)" "length pre = bits_read (read_loop ?s)"
    "bits_read (read_loop ?s) \<le> 32" "curr_32_bit (read_loop ?s) = wob pre"
    "bytes_bits (rest_bytes s) = pre @ bytes_bits (rest_bytes (read_loop ?s))"
    by (auto simp: loading_def)
  have "lsl m (wob pre) (32 - length pre) = push_bit (32 - length pre) (wob pre :: u32)"
    by (cases "pre = []") auto
  then show ?thesis using pre
    by (auto simp: reader_holds_def read_word_def Let_def in_buffer_def rest_bytes_def intro!: exI[of _ pre])
qed

text \<open>Whether the shifts of a read of \<open>n\<close> bits are defined, or 32 bit ARM does them.\<close>

definition defined_read :: "isa \<Rightarrow> nat \<Rightarrow> 'a h264_reader_scheme \<Rightarrow> bool" where
  "defined_read m n s \<longleftrightarrow>
     m = A32 \<or> 0 < n \<and> (n < 32 \<or> 0 < bits_read s \<and> bits_read s < 32)"

lemma consume_holds:
  assumes "reader_holds s (p @ q)" "length p = n" "n \<le> bits_read s" "n < 32 \<or> m = A32"
  shows "reader_holds (consume m n s) q"
proof -
  obtain pre where pre: "in_buffer s" "length pre = bits_read s" "bits_read s \<le> 32"
    "curr_32_bit s = push_bit (32 - length pre) (wob pre)" "p @ q = pre @ bytes_bits (rest_bytes s)"
    using assms(1) by (auto simp: reader_holds_def)
  have "lsl m (curr_32_bit s) n = push_bit n (curr_32_bit s)" using assms(3,4) pre(3) by auto
  also have "\<dots> = push_bit (32 - length (drop n pre)) (wob (drop n pre))"
    unfolding pre(4) using push_bit_drop[of n pre, where 'a = 32] pre(2,3) assms(3)
    by (simp del: push_bit_push_bit)
  finally have "lsl m (curr_32_bit s) n = push_bit (32 - length (drop n pre)) (wob (drop n pre))" .
  moreover have "q = drop n pre @ bytes_bits (rest_bytes s)"
    using arg_cong[OF pre(5), of "drop n"] assms(2,3) pre(2) by simp
  ultimately show ?thesis using pre(1,2,3) assms(3)
    by (auto simp: reader_holds_def consume_def in_buffer_def rest_bytes_def intro!: exI[of _ "drop n pre"])
qed

lemma reader_holds_take:
  assumes "reader_holds s bs" "n \<le> bits_read s" "n < 32 \<or> m = A32" "0 < n \<or> m = A32"
  shows "lsr m (curr_32_bit s) (32 - n) = wob (take n bs)" "reader_holds (consume m n s) (drop n bs)"
proof -
  obtain pre where pre: "length pre = bits_read s" "bits_read s \<le> 32"
    "curr_32_bit s = push_bit (32 - length pre) (wob pre)" "bs = pre @ bytes_bits (rest_bytes s)"
    using assms(1) by (auto simp: reader_holds_def)
  have "lsr m (curr_32_bit s) (32 - n) = drop_bit (32 - n) (curr_32_bit s)"
    using assms(2,4) pre(2) by (cases "n = 0") auto
  then show "lsr m (curr_32_bit s) (32 - n) = wob (take n bs)"
    using drop_bit_take[of n pre, where 'a = 32] pre assms(2) by simp
  have "reader_holds s (take n bs @ drop n bs)" using assms(1) by simp
  moreover have "length (take n bs) = n" using pre(1,4) assms(2) by simp
  ultimately show "reader_holds (consume m n s) (drop n bs)" using assms(2,3) by (rule consume_holds)
qed

lemma getbits_holds:
  assumes "reader_holds s bs" "n \<le> 32" "defined_read m n s"
  shows "\<exists>s'. getbits m n s = (wob (take n bs), s') \<and> reader_holds s' (drop n bs)"
proof (cases "n \<le> bits_read s")
  case True
  then show ?thesis
    using reader_holds_take[OF assms(1) True, of m] assms(2,3) by (auto simp: getbits_def Let_def defined_read_def)
next
  case False
  let ?k = "bits_read s" and ?s = "read_word m s"
  define r where "r = bytes_bits (rest_bytes s)"
  obtain pre where pre: "in_buffer s" "length pre = ?k" "curr_32_bit s = push_bit (32 - length pre) (wob pre)"
    "bs = pre @ r"
    using assms(1) by (auto simp: reader_holds_def r_def)
  have s: "reader_holds ?s r" using read_word_holds[OF pre(1)] by (simp add: r_def)
  define d where "d = n - ?k"
  have d: "0 < d" "d \<le> 32" "d < 32 \<or> m = A32"
    using False assms(2,3) by (auto simp: d_def defined_read_def)
  have "lsr m (curr_32_bit s) (32 - n) = drop_bit (32 - n) (curr_32_bit s)" using False by simp
  also have "\<dots> = push_bit d (wob pre)"
    using drop_bit_all[of pre n, where 'a = 32] pre(2,3) False assms(2) by (simp add: d_def)
  finally have v0: "lsr m (curr_32_bit s) (32 - n) = push_bit d (wob pre)" .
  show ?thesis
  proof (cases "d \<le> bits_read ?s")
    case True
    then have len: "length (take d r) = d" using s by (auto simp: reader_holds_def)
    have "push_bit d (wob pre) OR lsr m (curr_32_bit ?s) (32 - d) = wob (pre @ take d r)"
      unfolding wob_append len using reader_holds_take(1)[OF s True d(3)] d(1) by simp
    moreover have "take n bs = pre @ take d r" "drop n bs = drop d r"
      using False pre(2,4) by (simp_all add: d_def)
    ultimately show ?thesis
      using reader_holds_take(2)[OF s True d(3)] d(1) True False assms(2) v0
      by (auto simp: getbits_def Let_def simp flip: d_def)
  next
    case few: False
    obtain pre1 where pre1: "length pre1 = bits_read ?s" "curr_32_bit ?s = push_bit (32 - length pre1) (wob pre1)"
      "r = pre1 @ bytes_bits (rest_bytes ?s)" "in_buffer ?s"
      using s by (auto simp: reader_holds_def)
    have "bitstream_bytes ?s = 0" using few d(2) by (intro read_word_end) simp
    then have "rest_bytes ?s = []" using pre1(4) by (simp add: in_buffer_def rest_bytes_def)
    then have r: "r = pre1" using pre1(3) by simp
    have "lsr m (curr_32_bit ?s) (32 - d) = push_bit (d - length pre1) (wob pre1)"
      using drop_bit_all[of pre1 d, where 'a = 32] pre1(1,2) few d(1,2) by simp
    then have "push_bit d (wob pre) OR lsr m (curr_32_bit ?s) (32 - d) =
        push_bit (d - length pre1) (wob (pre @ pre1))"
      using few pre1(1) by (simp add: wob_append push_bit_or)
    moreover have "lsr m (push_bit (d - length pre1) (wob (pre @ pre1))) (d - length pre1) = (wob (pre @ pre1) :: u32)"
    proof -
      have "d - length pre1 < 32 \<or> m = A32" using d(3) by auto
      then have "lsr m (push_bit (d - length pre1) (wob (pre @ pre1))) (d - length pre1) =
          drop_bit (d - length pre1) (push_bit (d - length pre1) (wob (pre @ pre1)))" using d(2) by auto
      also have "\<dots> = wob (pre @ pre1)"
        using few pre(2) pre1(1) False assms(2) by (intro drop_bit_push_wob) (auto simp: d_def)
      finally show ?thesis .
    qed
    moreover have "take n bs = pre @ pre1" "drop n bs = []"
      using False few pre(2,4) pre1(1) r by (simp_all add: d_def)
    moreover have "reader_holds (consume m (bits_read ?s) ?s) (drop (bits_read ?s) r)"
      using few d(2) s r pre1(1) by (intro consume_holds[of ?s "take (bits_read ?s) r"]) auto
    ultimately show ?thesis
      using few False assms(2) v0 r pre1(1) by (auto simp: getbits_def Let_def simp flip: d_def)
  qed
qed

lemma getbits_read:
  assumes "reader_holds s (p @ q)" "0 < length p" "length p < 32"
  shows "\<exists>s'. getbits m (length p) s = (wob p, s') \<and> reader_holds s' q"
  using getbits_holds[OF assms(1), of "length p" m] assms(2,3) by (simp add: defined_read_def)

section \<open>What a read leaves alone\<close>

lemma read_byte_frame: "h264_reader.more (read_byte s) = h264_reader.more s"
    "emulation_sc_enabled (read_byte s) = emulation_sc_enabled s"
  by (simp_all add: read_byte_def Let_def split: list.split)

lemma read_loop_frame: "h264_reader.more (read_loop s) = h264_reader.more s \<and>
    emulation_sc_enabled (read_loop s) = emulation_sc_enabled s"
proof (induction s rule: read_loop.induct)
  case (1 s)
  then show ?case by (subst (1 2) read_loop.simps) (auto simp: read_byte_frame)
qed

lemma getbits_frame: "getbits m n s = (v, s') \<Longrightarrow>
    h264_reader.more s' = h264_reader.more s \<and> emulation_sc_enabled s' = emulation_sc_enabled s"
  using read_loop_frame[of "s\<lparr>curr_32_bit := 0, bits_read := 0\<rparr>"]
  by (auto simp: getbits_def Let_def consume_def read_word_def split: if_splits)

lemma lead_zeros_frame: "lead_zeros m s = (v, s') \<Longrightarrow>
    h264_reader.more s' = h264_reader.more s \<and> emulation_sc_enabled s' = emulation_sc_enabled s"
proof (induction m s arbitrary: v s' rule: lead_zeros.induct)
  case (1 m s)
  obtain b s1 where s1: "getbits m 1 s = (b, s1)" by (cases "getbits m 1 s")
  have f: "h264_reader.more s1 = h264_reader.more s \<and> emulation_sc_enabled s1 = emulation_sc_enabled s"
    using getbits_frame[OF s1] .
  show ?case
  proof (cases "b = 0 \<and> more_bits s1")
    case True
    obtain k s2 where s2: "lead_zeros m s1 = (k, s2)" by (cases "lead_zeros m s1")
    have "s' = s2" using 1(2) True s1 s2 by (subst (asm) lead_zeros.simps) simp
    then show ?thesis using 1(1)[OF s1[symmetric] refl True s2] f by simp
  next
    case False
    then have "s' = s1" using 1(2) s1 by (subst (asm) lead_zeros.simps) (simp split: if_splits)
    then show ?thesis using f by simp
  qed
qed

section \<open>The reader meets the contract\<close>

lemma more_bits_holds: "reader_holds s q \<Longrightarrow> q \<noteq> [] \<Longrightarrow> more_bits s"
  by (auto simp: reader_holds_def more_bits_def in_buffer_def rest_bytes_def split: if_splits)

lemma wob_single: "wob [b] = (of_bool b :: 'a::len word)"
  by (simp add: wob_def)

lemma run_uev: "run_state (uev m) s =
   (let (z, s1) = lead_zeros m s in
    if z = 0 then (0, s1)
    else let (v, s2) = getbits m (unat z) s1 in (lsl m 1 (unat z) - 1 + v, s2))"
  by (simp add: uev_def split_beta Let_def)

lemma unat_drop_half: "unat (drop_bit 1 x :: 32 word) = unat x div 2"
  by (simp add: drop_bit_eq_div unat_div)

lemma uint_small: "unat (x :: 32 word) < 2 ^ 31 \<Longrightarrow> uint x < 2 ^ 31"
  by (simp only: unat_eq_nat_uint nat_less_iff uint_ge_0) simp

lemma sint_small: "unat (x :: 32 word) < 2 ^ 31 \<Longrightarrow> sint x = int (unat x)"
proof -
  assume "unat x < 2 ^ 31"
  from uint_small[OF this] have "signed_take_bit 31 (uint x) = uint x"
    using uint_ge_0[of x] by (intro signed_take_bit_int_eq_self) linarith+
  then show ?thesis by (simp add: sint_uint)
qed

lemma sint_minus_small: "unat (x :: 32 word) < 2 ^ 31 \<Longrightarrow> sint (- x) = - int (unat x)"
proof -
  assume x: "unat x < 2 ^ 31"
  from uint_small[OF x] have "signed_take_bit 31 (- uint x) = - uint x"
    using uint_ge_0[of x] by (intro signed_take_bit_int_eq_self) linarith+
  then show ?thesis using x by (simp add: sint_word_ariths sint_small)
qed

lemma run_sev:
  assumes "run_state (uev m) s = (k, s1)" "unat k < 2 ^ 32 - 1"
  shows "run_state (sev m) s = (if odd (unat k) then int (unat k div 2 + 1) else - int (unat k div 2), s1)"
proof -
  have k: "unat (k + 1) = unat k + 1" using assms(2) by (simp add: unat_word_ariths)
  have h: "unat (drop_bit 1 (k + 1)) = (unat k + 1) div 2" "(unat k + 1) div 2 < 2 ^ 31"
    using assms(2) unfolding unat_drop_half k by simp_all
  have "k AND 1 \<noteq> 0 \<longleftrightarrow> odd (unat k)"
    by (simp add: and_one_eq odd_iff_mod_2_eq_one unat_mod flip: unat_eq_zero)
  then show ?thesis using assms(1) h
    by (auto simp: sev_def Let_def sint_small sint_minus_small)
qed

interpretation hr: golomb_reader reader_holds "\<lambda>n s. Some (getbits m n s)" "\<lambda>s. Some (lead_zeros m s)"
  "\<lambda>s. Some (run_state (uev m) s)" "\<lambda>s. Some (run_state (sev m) s)" for m :: isa
proof unfold_locales
  fix s :: "'a h264_reader_scheme" and p q
  assume "reader_holds s (p @ q)" "0 < length p" "length p < 32"
  then show "\<exists>s'. Some (getbits m (length p) s) = Some (wob p, s') \<and> reader_holds s' q"
    using getbits_read by simp
next
  fix s :: "'a h264_reader_scheme" and q
  assume "reader_holds s (True # q)"
  then obtain s' where "getbits m 1 s = (1, s')" "reader_holds s' q"
    using getbits_read[of s "[True]" q m] by (auto simp: wob_single)
  then show "\<exists>s'. Some (lead_zeros m s) = Some (0, s') \<and> reader_holds s' q"
    by (subst lead_zeros.simps) simp
next
  fix s :: "'a h264_reader_scheme" and q :: "bool list"
  assume "reader_holds s (False # q)" "q \<noteq> []"
  then obtain s' where "getbits m 1 s = (0, s')" "reader_holds s' q"
    using getbits_read[of s "[False]" q m] by (auto simp: wob_single)
  then show "\<exists>s'. reader_holds s' q \<and> Some (lead_zeros m s) = map_option (\<lambda>(k, t). (k + 1, t)) (Some (lead_zeros m s'))"
    using more_bits_holds[of s' q] \<open>q \<noteq> []\<close> by (subst lead_zeros.simps) auto
next
  fix s s1 :: "'a h264_reader_scheme"
  assume "Some (lead_zeros m s) = Some (0, s1)"
  then show "Some (run_state (uev m) s) = Some (0, s1)" by (simp add: run_uev)
next
  fix s s1 s2 :: "'a h264_reader_scheme" and z v
  assume z: "Some (lead_zeros m s) = Some (of_nat z, s1)" "0 < z" "z < 32" "Some (getbits m z s1) = Some (v, s2)"
  have "unat (of_nat z :: u32) = z" using z(3) by (simp add: unat_of_nat take_bit_nat_eq_self)
  moreover from this have "of_nat z \<noteq> (0 :: u32)" using z(2) by auto
  ultimately show "Some (run_state (uev m) s) = Some (push_bit z 1 - 1 + v, s2)"
    using z by (simp add: run_uev)
next
  fix s s1 :: "'a h264_reader_scheme" and k
  assume "Some (run_state (uev m) s) = Some (k, s1)" and k: "unat k < 2 ^ 32 - 1"
  then have "run_state (uev m) s = (k, s1)" by (simp only: option.inject)
  note run_sev[OF this k]
  then show "Some (run_state (sev m) s) =
      Some (if odd (unat k) then int (unat k div 2 + 1) else - int (unat k div 2), s1)"
    by (simp only:)
qed




end
