(* ===== verification/PanScan.thy ===== *)
theory PanScan
  imports BitLists
begin

text \<open>
  panscan_handler and omx_dl_list (vidc/vdec/src/h264_utils.cpp): the pan scan rectangles that
  are waiting for the frames they apply to, in two doubly linked lists over one array of nodes.
\<close>

section \<open>Data\<close>

text \<open>\<open>h264_pan_scan\<close>; the offsets are signed 32 bit numbers, \<open>MAX_PAN_SCAN_RECT\<close> of each.\<close>

record pan_scan =
  rect_id :: "32 word"
  rect_cancel_flag :: "8 word"
  ps_cnt :: "32 word"
  rect_left_offset :: "int list"
  rect_right_offset :: "int list"
  rect_top_offset :: "int list"
  rect_bottom_offset :: "int list"
  rect_repetition_period :: "32 word"

abbreviation (input) NO_PAN_SCAN_BIT :: "32 word" where "NO_PAN_SCAN_BIT \<equiv> 256"
abbreviation (input) MAX_PAN_SCAN_RECT :: nat where "MAX_PAN_SCAN_RECT \<equiv> 3"
abbreviation (input) LLONG_MAX :: int where "LLONG_MAX \<equiv> 9223372036854775807"

definition VALID_TS :: "int \<Rightarrow> bool" where "VALID_TS ts \<longleftrightarrow> ts < LLONG_MAX"

text \<open>A node of the array; pointers to nodes are their indices, time stamps are 64 bit numbers.\<close>

record ps_node =
  pan_scan_param :: pan_scan
  start_ts :: int
  end_ts :: int
  ps_active :: bool
  node_next :: "nat option"
  node_prev :: "nat option"

type_synonym ps_nodes = "nat \<Rightarrow> ps_node"

record dl_list =
  dl_head :: "nat option"
  dl_tail :: "nat option"

record panscan =
  panscan_data :: ps_nodes
  panscan_used :: dl_list
  panscan_free :: dl_list

section \<open>Lists\<close>

definition set_links :: "nat \<Rightarrow> nat option \<Rightarrow> nat option \<Rightarrow> ps_nodes \<Rightarrow> ps_nodes" where
  "set_links i p n N = N(i := (N i)\<lparr>node_prev := p, node_next := n\<rparr>)"

definition dl_remove_first :: "dl_list \<Rightarrow> ps_nodes \<Rightarrow> nat option \<times> dl_list \<times> ps_nodes" where
  "dl_remove_first l N =
     (case dl_head l of
        None \<Rightarrow> (None, l, N)
      | Some data \<Rightarrow>
          let (l, N) = (case node_next (N data) of
                Some h \<Rightarrow> (l\<lparr>dl_head := Some h\<rparr>, N(h := (N h)\<lparr>node_prev := None\<rparr>))
              | None \<Rightarrow> (\<lparr>dl_head = None, dl_tail = None\<rparr>, N))
          in (Some data, l, set_links data None None N))"

definition dl_remove_last :: "dl_list \<Rightarrow> ps_nodes \<Rightarrow> nat option \<times> dl_list \<times> ps_nodes" where
  "dl_remove_last l N =
     (case dl_tail l of
        None \<Rightarrow> (None, l, N)
      | Some data \<Rightarrow>
          let (l, N) = (case node_prev (N data) of
                Some t \<Rightarrow> (l\<lparr>dl_tail := Some t\<rparr>, N(t := (N t)\<lparr>node_next := None\<rparr>))
              | None \<Rightarrow> (\<lparr>dl_head = None, dl_tail = None\<rparr>, N))
          in (Some data, l, set_links data None None N))"

definition dl_add_last :: "nat option \<Rightarrow> dl_list \<Rightarrow> ps_nodes \<Rightarrow> dl_list \<times> ps_nodes" where
  "dl_add_last data_ptr l N =
     (case data_ptr of
        None \<Rightarrow> (l, N)
      | Some d \<Rightarrow>
          let N = set_links d (dl_tail l) None N in
          case dl_tail l of
            Some t \<Rightarrow> (l\<lparr>dl_tail := Some d\<rparr>, N(t := (N t)\<lparr>node_next := Some d\<rparr>))
          | None \<Rightarrow> (\<lparr>dl_head = Some d, dl_tail = Some d\<rparr>, N))"

definition watch_first :: "dl_list \<Rightarrow> nat option" where "watch_first l = dl_head l"
definition watch_last :: "dl_list \<Rightarrow> nat option" where "watch_last l = dl_tail l"

fun add_multiple :: "nat list \<Rightarrow> dl_list \<Rightarrow> ps_nodes \<Rightarrow> dl_list \<times> ps_nodes" where
  "add_multiple [] l N = (l, N)"
| "add_multiple (i # is) l N = (let (l, N) = dl_add_last (Some i) l N in add_multiple is l N)"

section \<open>The handler\<close>

text \<open>\<open>initialize\<close>, with the array as \<open>malloc\<close> returns it.\<close>

definition ps_initialize :: "nat \<Rightarrow> ps_nodes \<Rightarrow> panscan" where
  "ps_initialize num_data memory =
     (let (l, N) = add_multiple [0..<num_data] \<lparr>dl_head = None, dl_tail = None\<rparr> memory
      in \<lparr>panscan_data = N, panscan_used = \<lparr>dl_head = None, dl_tail = None\<rparr>, panscan_free = l\<rparr>)"

text \<open>The node whose parameters are returned, to be filled in by the caller.\<close>

definition get_free :: "panscan \<Rightarrow> nat option \<times> panscan" where
  "get_free ps =
     (let N = panscan_data ps;
          last = watch_last (panscan_used ps);
          (node, ps) = (if (case last of None \<Rightarrow> True | Some i \<Rightarrow> VALID_TS (start_ts (N i)))
             then let (node, l, N) = dl_remove_first (panscan_free ps) N
                  in (node, ps\<lparr>panscan_free := l, panscan_data := N\<rparr>)
             else let (node, l, N) = dl_remove_last (panscan_used ps) N
                  in (node, ps\<lparr>panscan_used := l, panscan_data := N\<rparr>))
      in case node of
           None \<Rightarrow> (None, ps)
         | Some i \<Rightarrow>
             let N = panscan_data ps;
                 N = N(i := (N i)\<lparr>start_ts := LLONG_MAX, end_ts := LLONG_MAX,
                        pan_scan_param := (pan_scan_param (N i))\<lparr>rect_id := NO_PAN_SCAN_BIT\<rparr>,
                        ps_active := False\<rparr>);
                 (l, N) = dl_add_last (Some i) (panscan_used ps) N
             in (Some i, ps\<lparr>panscan_used := l, panscan_data := N\<rparr>))"

text \<open>The first used node goes to the free ones.\<close>

definition retire_first :: "panscan \<Rightarrow> panscan" where
  "retire_first ps =
     (let (node, u, N) = dl_remove_first (panscan_used ps) (panscan_data ps);
          (f, N) = dl_add_last node (panscan_free ps) N
      in ps\<lparr>panscan_used := u, panscan_free := f, panscan_data := N\<rparr>)"

text \<open>The loop of \<open>get_populated\<close> from a node on.\<close>

partial_function (option) find_populated :: "int \<Rightarrow> nat option \<Rightarrow> panscan \<Rightarrow> (nat option \<times> panscan) option" where
  "find_populated frame_ts node ps =
     (case node of
        None \<Rightarrow> Some (None, ps)
      | Some i \<Rightarrow>
          let n = panscan_data ps i in
          if VALID_TS (start_ts n) then
            let n = (if ps_active n \<and> frame_ts < start_ts n then n\<lparr>start_ts := frame_ts\<rparr> else n);
                ps = ps\<lparr>panscan_data := (panscan_data ps)(i := n)\<rparr> in
            if frame_ts \<ge> start_ts n then
              if frame_ts < end_ts n
              then Some (Some i, ps\<lparr>panscan_data := (panscan_data ps)(i := n\<lparr>ps_active := True\<rparr>)\<rparr>)
              else let ps = retire_first ps in find_populated frame_ts (watch_first (panscan_used ps)) ps
            else Some (None, ps)
          else Some (Some i, ps\<lparr>panscan_data := (panscan_data ps)(i := n\<lparr>ps_active := True\<rparr>)\<rparr>))"

declare find_populated.simps [code]

definition get_populated :: "int \<Rightarrow> panscan \<Rightarrow> (nat option \<times> panscan) option" where
  "get_populated frame_ts ps =
     map_option (\<lambda>(data, ps).
       case data of
         None \<Rightarrow> (None, ps)
       | Some i \<Rightarrow>
           let n = panscan_data ps i; p = pan_scan_param n in
           if rect_repetition_period p = 0 then (Some i, retire_first ps)
           else if rect_repetition_period p > 1 then
             (Some i, ps\<lparr>panscan_data := (panscan_data ps)
                (i := n\<lparr>pan_scan_param := p\<lparr>rect_repetition_period := rect_repetition_period p - 2\<rparr>\<rparr>)\<rparr>)
           else (Some i, ps))
     (find_populated frame_ts (watch_first (panscan_used ps)) ps)"

definition update_last :: "int \<Rightarrow> panscan \<Rightarrow> panscan" where
  "update_last frame_ts ps =
     (case watch_last (panscan_used ps) of
        None \<Rightarrow> ps
      | Some i \<Rightarrow>
          if VALID_TS (start_ts (panscan_data ps i)) then ps
          else
            let N = (panscan_data ps)(i := (panscan_data ps i)\<lparr>start_ts := frame_ts\<rparr>) in
            case node_prev (N i) of
              None \<Rightarrow> ps\<lparr>panscan_data := N\<rparr>
            | Some j \<Rightarrow>
                if frame_ts < end_ts (N j)
                then ps\<lparr>panscan_data := N(j := (N j)\<lparr>end_ts := frame_ts\<rparr>)\<rparr>
                else if \<not> VALID_TS frame_ts
                then ps\<lparr>panscan_data := N(j := (N j)\<lparr>pan_scan_param :=
                       (pan_scan_param (N j))\<lparr>rect_repetition_period := 0\<rparr>\<rparr>)\<rparr>
                else ps\<lparr>panscan_data := N\<rparr>)"

end
