(* ===== verification/H264Params.thy ===== *)
theory H264Params
  imports H264Reader PanScan
begin

text \<open>
  The parameters that h264_stream_parser keeps (vidc/vdec/inc/h264_utils.h) and the parser of
  the usability information of a sequence (vidc/vdec/src/h264_utils.cpp).
\<close>

section \<open>Data\<close>

abbreviation (input) MAX_CPB_COUNT :: nat where "MAX_CPB_COUNT \<equiv> 32"

text \<open>\<open>h264_hrd_param\<close>; the three arrays have \<open>MAX_CPB_COUNT\<close> elements.\<close>

record hrd_param =
  cpb_cnt :: u32
  bit_rate_scale :: byte
  cpb_size_scale :: byte
  bit_rate_value :: "u32 list"
  cpb_size_value :: "u32 list"
  cbr_flag :: "byte list"
  initial_cpb_removal_delay_length :: byte
  cpb_removal_delay_length :: byte
  dpb_output_delay_length :: byte
  time_offset_length :: byte

record aspect_ratio =
  aspect_ratio_idc :: u32
  aspect_ratio_x :: u32
  aspect_ratio_y :: u32

record vui =
  aspect_ratio_info_present_flag :: byte
  aspect_ratio_info :: aspect_ratio
  timing_info_present_flag :: byte
  num_units_in_tick :: u32
  time_scale :: u32
  fixed_frame_rate_flag :: byte
  nal_hrd_parameters_present_flag :: byte
  nal_hrd_parameters :: hrd_param
  vcl_hrd_parameters_present_flag :: byte
  vcl_hrd_parameters :: hrd_param
  low_delay_hrd_flag :: byte
  pic_struct_present_flag :: byte
  fixed_fps_prev_ts :: int

record pic_timing =
  cpb_removal_delay :: u32
  dpb_output_delay :: u32
  pic_struct :: byte
  num_clock_ts :: u32
  clock_ts_flag :: bool
  ct_type :: byte
  nuit_field_based_flag :: u32
  counting_type :: byte
  full_timestamp_flag :: byte
  discontinuity_flag :: byte
  cnt_dropped_flag :: byte
  n_frames :: u32
  seconds_value :: u32
  minutes_value :: u32
  hours_value :: u32
  time_offset :: int
  pt_is_valid :: bool

record buf_period =
  initial_cpb_removal_delay :: "u32 list"
  initial_cpb_removal_delay_offset :: "u32 list"
  au_cntr :: u32
  reference_ts :: int
  bp_is_valid :: bool

text \<open>\<open>OMX_QCOM_FRAME_PACK_ARRANGEMENT\<close> from \<open>id\<close> on.\<close>

record frame_pack =
  fp_id :: u32
  cancel_flag :: u32
  fp_type :: u32
  quincunx_sampling_flag :: u32
  content_interpretation_type :: u32
  spatial_flipping_flag :: u32
  frame0_flipped_flag :: u32
  field_views_flag :: u32
  current_frame_is_frame0_flag :: u32
  frame0_self_contained_flag :: u32
  frame1_self_contained_flag :: u32
  frame0_grid_position_x :: u32
  frame0_grid_position_y :: u32
  frame1_grid_position_x :: u32
  frame1_grid_position_y :: u32
  reserved_byte :: u32
  repetition_period :: u32
  extension_flag :: u32

text \<open>The parser: the reader with what is parsed. Without a handler \<open>panscan_hdl\<close> is \<open>None\<close>.\<close>

record h264_parser = h264_reader +
  vui_param :: vui
  sei_buf_period :: buf_period
  sei_pic_timing :: pic_timing
  panscan_hdl :: "panscan option"
  frame_packing_arrangement :: frame_pack
  mbaff_flag :: bool
  profile :: u32

section \<open>Construction\<close>

definition hrd_zero :: hrd_param where
  "hrd_zero = \<lparr>cpb_cnt = 0, bit_rate_scale = 0, cpb_size_scale = 0,
     bit_rate_value = replicate 32 0, cpb_size_value = replicate 32 0, cbr_flag = replicate 32 0,
     initial_cpb_removal_delay_length = 0, cpb_removal_delay_length = 0,
     dpb_output_delay_length = 0, time_offset_length = 0\<rparr>"

definition vui_zero :: vui where
  "vui_zero = \<lparr>aspect_ratio_info_present_flag = 0,
     aspect_ratio_info = \<lparr>aspect_ratio_idc = 0, aspect_ratio_x = 0, aspect_ratio_y = 0\<rparr>,
     timing_info_present_flag = 0, num_units_in_tick = 0, time_scale = 0, fixed_frame_rate_flag = 0,
     nal_hrd_parameters_present_flag = 0, nal_hrd_parameters = hrd_zero,
     vcl_hrd_parameters_present_flag = 0, vcl_hrd_parameters = hrd_zero,
     low_delay_hrd_flag = 0, pic_struct_present_flag = 0, fixed_fps_prev_ts = LLONG_MAX\<rparr>"

definition buf_period_zero :: buf_period where
  "buf_period_zero = \<lparr>initial_cpb_removal_delay = replicate 32 0,
     initial_cpb_removal_delay_offset = replicate 32 0, au_cntr = 0, reference_ts = 0, bp_is_valid = False\<rparr>"

definition pic_timing_zero :: pic_timing where
  "pic_timing_zero = \<lparr>cpb_removal_delay = 0, dpb_output_delay = 0, pic_struct = 0, num_clock_ts = 0,
     clock_ts_flag = False, ct_type = 0, nuit_field_based_flag = 0, counting_type = 0,
     full_timestamp_flag = 0, discontinuity_flag = 0, cnt_dropped_flag = 0, n_frames = 0,
     seconds_value = 0, minutes_value = 0, hours_value = 0, time_offset = 0, pt_is_valid = False\<rparr>"

text \<open>After the \<open>memset\<close>, \<open>cancel_flag\<close> is set to 1.\<close>

definition frame_pack_reset :: frame_pack where
  "frame_pack_reset = \<lparr>fp_id = 0, cancel_flag = 1, fp_type = 0, quincunx_sampling_flag = 0,
     content_interpretation_type = 0, spatial_flipping_flag = 0, frame0_flipped_flag = 0,
     field_views_flag = 0, current_frame_is_frame0_flag = 0, frame0_self_contained_flag = 0,
     frame1_self_contained_flag = 0, frame0_grid_position_x = 0, frame0_grid_position_y = 0,
     frame1_grid_position_x = 0, frame1_grid_position_y = 0, reserved_byte = 0,
     repetition_period = 0, extension_flag = 0\<rparr>"

definition parser_reset :: "h264_parser \<Rightarrow> h264_parser" where
  "parser_reset s =
     s\<lparr>curr_32_bit := 0, bits_read := 0, zero_cntr := 0, emulation_code_skip_cntr := 0,
       emulation_sc_enabled := True, bitstream := [], bitstream_bytes := 0,
       vui_param := vui_zero, sei_buf_period := buf_period_zero, sei_pic_timing := pic_timing_zero,
       frame_packing_arrangement := frame_pack_reset, mbaff_flag := False\<rparr>"

text \<open>
  The constructor: \<open>reset\<close> leaves \<open>profile\<close> as it is, \<open>memory\<close> is what \<open>malloc\<close> returns for the
  ten nodes of the handler, if it returns any.
\<close>

definition parser_new :: "u32 \<Rightarrow> ps_nodes option \<Rightarrow> h264_parser" where
  "parser_new profile0 memory =
     \<lparr>curr_32_bit = 0, bits_read = 0, zero_cntr = 0, emulation_code_skip_cntr = 0,
       bitstream = [], bitstream_bytes = 0, emulation_sc_enabled = True, overrun = False,
       vui_param = vui_zero, sei_buf_period = buf_period_zero, sei_pic_timing = pic_timing_zero,
       panscan_hdl = map_option (ps_initialize 10) memory,
       frame_packing_arrangement = frame_pack_reset, mbaff_flag = False, profile = profile0\<rparr>"

section \<open>Usability information\<close>

type_synonym 'a parser = "(h264_parser, 'a) state"

definition flag8 :: "isa \<Rightarrow> byte parser" where
  "flag8 m = do { v \<leftarrow> extract_bits m 1; State_Monad.return (ucast v) }"

text \<open>A bit, true if it is set.\<close>

definition flag :: "isa \<Rightarrow> bool parser" where
  "flag m = do { v \<leftarrow> extract_bits m 1; State_Monad.return (v \<noteq> 0) }"

definition skip_bits :: "isa \<Rightarrow> nat \<Rightarrow> unit parser" where
  "skip_bits m n = do { _ \<leftarrow> extract_bits m n; State_Monad.return () }"

definition skip_ue :: "isa \<Rightarrow> unit parser" where
  "skip_ue m = do { _ \<leftarrow> uev m; State_Monad.return () }"

definition skip_se :: "isa \<Rightarrow> unit parser" where
  "skip_se m = do { _ \<leftarrow> sev m; State_Monad.return () }"

text \<open>An index into an array that has to be in range; this only observes, as \<open>overrun\<close> does.\<close>

definition check :: "bool \<Rightarrow> unit parser" where
  "check in_range = upd (\<lambda>s. if in_range then s else s\<lparr>overrun := True\<rparr>)"

text \<open>The aspect ratios that have a number (E.2.1); 0 and the reserved numbers give 0.\<close>

definition aspect_ratio_of :: "u32 \<Rightarrow> u32 \<times> u32" where
  "aspect_ratio_of idc =
     (if idc = 1 then (1, 1) else if idc = 2 then (12, 11) else if idc = 3 then (10, 11)
      else if idc = 4 then (16, 11) else if idc = 5 then (40, 33) else if idc = 6 then (24, 11)
      else if idc = 7 then (20, 11) else if idc = 8 then (32, 11) else if idc = 9 then (80, 33)
      else if idc = 10 then (18, 11) else if idc = 11 then (15, 11) else if idc = 12 then (64, 33)
      else if idc = 13 then (160, 99) else if idc = 14 then (4, 3) else if idc = 15 then (3, 2)
      else if idc = 16 then (2, 1) else (0, 0))"

definition aspect_ratio_info_parse :: "isa \<Rightarrow> unit parser" where
  "aspect_ratio_info_parse m =
     do { idc \<leftarrow> extract_bits m 8;
          (x, y) \<leftarrow> (if idc = 255
             then do { x \<leftarrow> extract_bits m 16; y \<leftarrow> extract_bits m 16; State_Monad.return (x, y) }
             else State_Monad.return (aspect_ratio_of idc));
          upd (\<lambda>s. s\<lparr>vui_param := (vui_param s)
            \<lparr>aspect_ratio_info := \<lparr>aspect_ratio_idc = idc, aspect_ratio_x = x, aspect_ratio_y = y\<rparr>\<rparr>\<rparr>) }"

text \<open>The loop of \<open>hrd_parameters\<close>: \<open>n\<close> elements from index \<open>i\<close> on, while there are bits.\<close>

fun hrd_loop :: "isa \<Rightarrow> nat \<Rightarrow> nat \<Rightarrow> hrd_param \<Rightarrow> hrd_param parser" where
  "hrd_loop m 0 i h = State_Monad.return h"
| "hrd_loop m (Suc n) i h =
     do { more \<leftarrow> reads more_bits;
          if more then do {
            rate \<leftarrow> uev m;
            cpb \<leftarrow> uev m;
            cbr \<leftarrow> flag8 m;
            check (i < 32);
            hrd_loop m n (i + 1) (h\<lparr>bit_rate_value := (bit_rate_value h)[i := rate + 1],
              cpb_size_value := (cpb_size_value h)[i := cpb + 1], cbr_flag := (cbr_flag h)[i := cbr]\<rparr>) }
          else State_Monad.return h }"

text \<open>\<open>hrd_parameters\<close>: what it makes of the parameters it is given.\<close>

definition hrd_parameters :: "isa \<Rightarrow> hrd_param \<Rightarrow> hrd_param parser" where
  "hrd_parameters m h =
     do { cnt \<leftarrow> uev m;
          brs \<leftarrow> extract_bits m 4;
          css \<leftarrow> extract_bits m 4;
          let h = h\<lparr>cpb_cnt := cnt + 1, bit_rate_scale := ucast brs, cpb_size_scale := ucast css\<rparr> in
          if cpb_cnt h > 32 then State_Monad.return h
          else do {
            h \<leftarrow> hrd_loop m (unat (cpb_cnt h)) 0 h;
            a \<leftarrow> extract_bits m 5;
            b \<leftarrow> extract_bits m 5;
            c \<leftarrow> extract_bits m 5;
            d \<leftarrow> extract_bits m 5;
            State_Monad.return (h\<lparr>initial_cpb_removal_delay_length := ucast a + 1,
              cpb_removal_delay_length := ucast b + 1, dpb_output_delay_length := ucast c + 1,
              time_offset_length := ucast d\<rparr>) } }"

text \<open>Assignments to members of \<open>vui_param\<close>.\<close>

definition set_vui :: "(vui \<Rightarrow> vui) \<Rightarrow> unit parser" where
  "set_vui f = upd (\<lambda>s. s\<lparr>vui_param := f (vui_param s)\<rparr>)"

text \<open>The video signal and chroma location, which are skipped.\<close>

definition vui_signal :: "isa \<Rightarrow> unit parser" where
  "vui_signal m =
     do { overscan \<leftarrow> flag m;
          whenM overscan (skip_bits m 1);
          video_signal \<leftarrow> flag m;
          whenM video_signal (do {
            skip_bits m 3;
            skip_bits m 1;
            colour \<leftarrow> flag m;
            whenM colour (do { skip_bits m 8; skip_bits m 8; skip_bits m 8 }) });
          chroma_loc \<leftarrow> flag m;
          whenM chroma_loc (do { skip_ue m; skip_ue m }) }"

definition vui_timing :: "isa \<Rightarrow> unit parser" where
  "vui_timing m =
     do { present \<leftarrow> flag8 m;
          set_vui (\<lambda>v. v\<lparr>timing_info_present_flag := present\<rparr>);
          whenM (present \<noteq> 0) (do {
            units \<leftarrow> extract_bits m 32;
            set_vui (\<lambda>v. v\<lparr>num_units_in_tick := units\<rparr>);
            scale \<leftarrow> extract_bits m 32;
            set_vui (\<lambda>v. v\<lparr>time_scale := scale\<rparr>);
            fixed \<leftarrow> flag8 m;
            set_vui (\<lambda>v. v\<lparr>fixed_frame_rate_flag := fixed\<rparr>) }) }"

definition vui_hrd :: "isa \<Rightarrow> unit parser" where
  "vui_hrd m =
     do { nal \<leftarrow> flag8 m;
          set_vui (\<lambda>v. v\<lparr>nal_hrd_parameters_present_flag := nal\<rparr>);
          whenM (nal \<noteq> 0) (do {
            v \<leftarrow> reads vui_param;
            h \<leftarrow> hrd_parameters m (nal_hrd_parameters v);
            set_vui (\<lambda>v. v\<lparr>nal_hrd_parameters := h\<rparr>) });
          vcl \<leftarrow> flag8 m;
          set_vui (\<lambda>v. v\<lparr>vcl_hrd_parameters_present_flag := vcl\<rparr>);
          whenM (vcl \<noteq> 0) (do {
            v \<leftarrow> reads vui_param;
            h \<leftarrow> hrd_parameters m (vcl_hrd_parameters v);
            set_vui (\<lambda>v. v\<lparr>vcl_hrd_parameters := h\<rparr>) });
          whenM (nal \<noteq> 0 \<or> vcl \<noteq> 0) (do {
            low \<leftarrow> flag8 m;
            set_vui (\<lambda>v. v\<lparr>low_delay_hrd_flag := low\<rparr>) });
          pic \<leftarrow> flag8 m;
          set_vui (\<lambda>v. v\<lparr>pic_struct_present_flag := pic\<rparr>) }"

definition vui_restriction :: "isa \<Rightarrow> unit parser" where
  "vui_restriction m =
     do { present \<leftarrow> flag m;
          whenM present (do {
            skip_bits m 1;
            skip_ue m; skip_ue m; skip_ue m; skip_ue m; skip_ue m; skip_ue m }) }"

definition parse_vui :: "isa \<Rightarrow> bool \<Rightarrow> unit parser" where
  "parse_vui m vui_in_extradata =
     do { whenM vui_in_extradata (do { _ \<leftarrow> State (lead_zeros m); State_Monad.return () });
          more \<leftarrow> reads more_bits;
          whenM more (do {
            present \<leftarrow> flag8 m;
            set_vui (\<lambda>v. v\<lparr>aspect_ratio_info_present_flag := present\<rparr>);
            whenM (present \<noteq> 0) (aspect_ratio_info_parse m);
            vui_signal m;
            vui_timing m;
            vui_hrd m;
            vui_restriction m }) }"

end
