(* ===== verification/H264Stream.thy ===== *)
theory H264Stream
  imports H264Params "HOL-Library.Signed_Division"
begin

unbundle bit_operations_syntax

text \<open>
  h264_stream_parser (vidc/vdec/src/h264_utils.cpp): supplemental enhancement information,
  sequence parameter sets and the dispatch of NAL units.
\<close>

section \<open>Buffering periods and picture timing\<close>

definition set_bp :: "(buf_period \<Rightarrow> buf_period) \<Rightarrow> unit parser" where
  "set_bp f = upd (\<lambda>s. s\<lparr>sei_buf_period := f (sei_buf_period s)\<rparr>)"

text \<open>The loop over the delays of one set of parameters.\<close>

fun bp_loop :: "isa \<Rightarrow> nat \<Rightarrow> nat \<Rightarrow> nat \<Rightarrow> unit parser" where
  "bp_loop m len 0 i = State_Monad.return ()"
| "bp_loop m len (Suc n) i =
     do { check (i < 32);
          set_bp (\<lambda>b. b\<lparr>bp_is_valid := True\<rparr>);
          delay \<leftarrow> extract_bits m len;
          set_bp (\<lambda>b. b\<lparr>initial_cpb_removal_delay := (initial_cpb_removal_delay b)[i := delay]\<rparr>);
          ofs \<leftarrow> extract_bits m len;
          set_bp (\<lambda>b. b\<lparr>initial_cpb_removal_delay_offset := (initial_cpb_removal_delay_offset b)[i := ofs]\<rparr>);
          bp_loop m len n (i + 1) }"

text \<open>False if the number of delays is invalid, which ends the function.\<close>

definition bp_delays :: "isa \<Rightarrow> hrd_param \<Rightarrow> bool parser" where
  "bp_delays m h =
     (if cpb_cnt h > 32 then State_Monad.return False
      else do { bp_loop m (unat (initial_cpb_removal_delay_length h)) (unat (cpb_cnt h)) 0;
                State_Monad.return True })"

definition sei_buffering_period :: "isa \<Rightarrow> unit parser" where
  "sei_buffering_period m =
     do { v \<leftarrow> uev m;
          whenM (\<not> v > 31) (do {
            set_bp (\<lambda>b. b\<lparr>bp_is_valid := False\<rparr>);
            vui \<leftarrow> reads vui_param;
            ok \<leftarrow> (if nal_hrd_parameters_present_flag vui \<noteq> 0
                  then bp_delays m (nal_hrd_parameters vui) else State_Monad.return True);
            whenM ok (do {
              ok \<leftarrow> (if vcl_hrd_parameters_present_flag vui \<noteq> 0
                    then bp_delays m (vcl_hrd_parameters vui) else State_Monad.return True);
              whenM ok (set_bp (\<lambda>b. b\<lparr>au_cntr := 0\<rparr>)) }) }) }"

definition set_pt :: "(pic_timing \<Rightarrow> pic_timing) \<Rightarrow> unit parser" where
  "set_pt f = upd (\<lambda>s. s\<lparr>sei_pic_timing := f (sei_pic_timing s)\<rparr>)"

definition num_clock_ts_of :: "byte \<Rightarrow> u32" where
  "num_clock_ts_of ps =
     (if ps = 0 \<or> ps = 1 \<or> ps = 2 then 1 else if ps = 3 \<or> ps = 4 \<or> ps = 7 then 2
      else if ps = 5 \<or> ps = 6 \<or> ps = 8 then 3 else 0)"

text \<open>The seconds, minutes and hours of a clock time stamp.\<close>

definition clock_hms :: "isa \<Rightarrow> bool \<Rightarrow> unit parser" where
  "clock_hms m full =
     do { set_pt (\<lambda>p. p\<lparr>seconds_value := 0, minutes_value := 0, hours_value := 0\<rparr>);
          if full then do {
            x \<leftarrow> extract_bits m 6; set_pt (\<lambda>p. p\<lparr>seconds_value := x\<rparr>);
            x \<leftarrow> extract_bits m 6; set_pt (\<lambda>p. p\<lparr>minutes_value := x\<rparr>);
            x \<leftarrow> extract_bits m 5; set_pt (\<lambda>p. p\<lparr>hours_value := x\<rparr>) }
          else do {
            sec \<leftarrow> flag m;
            whenM sec (do {
              x \<leftarrow> extract_bits m 6; set_pt (\<lambda>p. p\<lparr>seconds_value := x\<rparr>);
              mins \<leftarrow> flag m;
              whenM mins (do {
                x \<leftarrow> extract_bits m 6; set_pt (\<lambda>p. p\<lparr>minutes_value := x\<rparr>);
                hrs \<leftarrow> flag m;
                whenM hrs (do {
                  x \<leftarrow> extract_bits m 5; set_pt (\<lambda>p. p\<lparr>hours_value := x\<rparr>) }) }) }) } }"

definition clock_timestamp :: "isa \<Rightarrow> nat \<Rightarrow> unit parser" where
  "clock_timestamp m time_offset_len =
     do { x \<leftarrow> extract_bits m 2; set_pt (\<lambda>p. p\<lparr>ct_type := ucast x\<rparr>);
          x \<leftarrow> extract_bits m 1; set_pt (\<lambda>p. p\<lparr>nuit_field_based_flag := x\<rparr>);
          x \<leftarrow> extract_bits m 5; set_pt (\<lambda>p. p\<lparr>counting_type := ucast x\<rparr>);
          full \<leftarrow> flag8 m; set_pt (\<lambda>p. p\<lparr>full_timestamp_flag := full\<rparr>);
          x \<leftarrow> flag8 m; set_pt (\<lambda>p. p\<lparr>discontinuity_flag := x\<rparr>);
          x \<leftarrow> flag8 m; set_pt (\<lambda>p. p\<lparr>cnt_dropped_flag := x\<rparr>);
          x \<leftarrow> extract_bits m 8; set_pt (\<lambda>p. p\<lparr>n_frames := x\<rparr>);
          clock_hms m (full \<noteq> 0);
          set_pt (\<lambda>p. p\<lparr>time_offset := 0\<rparr>);
          whenM (time_offset_len > 0) (do {
            x \<leftarrow> iv m time_offset_len; set_pt (\<lambda>p. p\<lparr>time_offset := x\<rparr>) }) }"

fun clock_loop :: "isa \<Rightarrow> nat \<Rightarrow> nat \<Rightarrow> unit parser" where
  "clock_loop m len 0 = State_Monad.return ()"
| "clock_loop m len (Suc n) =
     do { more \<leftarrow> reads more_bits;
          whenM more (do {
            present \<leftarrow> flag m;
            set_pt (\<lambda>p. p\<lparr>clock_ts_flag := present\<rparr>);
            whenM present (clock_timestamp m len);
            clock_loop m len n }) }"

text \<open>The lengths of the two delays and of the offset: those of the NAL parameters, else of the VCL ones.\<close>

definition timing_lengths :: "vui \<Rightarrow> nat \<times> nat \<times> nat" where
  "timing_lengths v =
     (let lens = (\<lambda>h. (unat (cpb_removal_delay_length h), unat (dpb_output_delay_length h), unat (time_offset_length h))) in
      if nal_hrd_parameters_present_flag v \<noteq> 0 then lens (nal_hrd_parameters v)
      else if vcl_hrd_parameters_present_flag v \<noteq> 0 then lens (vcl_hrd_parameters v)
      else (24, 24, 0))"

definition sei_picture_timing :: "isa \<Rightarrow> unit parser" where
  "sei_picture_timing m =
     do { set_pt (\<lambda>p. p\<lparr>pt_is_valid := True\<rparr>);
          vui \<leftarrow> reads vui_param;
          let (cpb_len, dpb_len, offset_len) = timing_lengths vui in do {
          x \<leftarrow> extract_bits m cpb_len; set_pt (\<lambda>p. p\<lparr>cpb_removal_delay := x\<rparr>);
          x \<leftarrow> extract_bits m dpb_len; set_pt (\<lambda>p. p\<lparr>dpb_output_delay := x\<rparr>);
          whenM (pic_struct_present_flag vui \<noteq> 0) (do {
            x \<leftarrow> extract_bits m 4;
            set_pt (\<lambda>p. p\<lparr>pic_struct := ucast x, num_clock_ts := num_clock_ts_of (ucast x)\<rparr>);
            clock_loop m offset_len (unat (num_clock_ts_of (ucast x))) }) } }"

section \<open>Pan scan rectangles and frame packing\<close>

text \<open>Assignments through the pointer that \<open>get_free\<close> has returned.\<close>

definition set_pan :: "nat \<Rightarrow> (pan_scan \<Rightarrow> pan_scan) \<Rightarrow> unit parser" where
  "set_pan i f = upd (\<lambda>s. s\<lparr>panscan_hdl := map_option (\<lambda>ps. ps\<lparr>panscan_data := (panscan_data ps)
     (i := (panscan_data ps i)\<lparr>pan_scan_param := f (pan_scan_param (panscan_data ps i))\<rparr>)\<rparr>) (panscan_hdl s)\<rparr>)"

definition hdl_get_free :: "nat option parser" where
  "hdl_get_free = State (\<lambda>s.
     case panscan_hdl s of
       None \<Rightarrow> (None, s\<lparr>overrun := True\<rparr>)
     | Some ps \<Rightarrow> let (node, ps) = get_free ps in (node, s\<lparr>panscan_hdl := Some ps\<rparr>))"

fun pan_rects :: "isa \<Rightarrow> nat \<Rightarrow> nat \<Rightarrow> nat \<Rightarrow> unit parser" where
  "pan_rects m node 0 i = State_Monad.return ()"
| "pan_rects m node (Suc n) i =
     do { check (i < 3);
          x \<leftarrow> sev m; set_pan node (\<lambda>p. p\<lparr>rect_left_offset := (rect_left_offset p)[i := x]\<rparr>);
          x \<leftarrow> sev m; set_pan node (\<lambda>p. p\<lparr>rect_right_offset := (rect_right_offset p)[i := x]\<rparr>);
          x \<leftarrow> sev m; set_pan node (\<lambda>p. p\<lparr>rect_top_offset := (rect_top_offset p)[i := x]\<rparr>);
          x \<leftarrow> sev m; set_pan node (\<lambda>p. p\<lparr>rect_bottom_offset := (rect_bottom_offset p)[i := x]\<rparr>);
          pan_rects m node n (i + 1) }"

definition sei_pan_scan :: "isa \<Rightarrow> unit parser" where
  "sei_pan_scan m =
     do { param \<leftarrow> hdl_get_free;
          case param of
            None \<Rightarrow> State_Monad.return ()
          | Some node \<Rightarrow> do {
              x \<leftarrow> uev m;
              set_pan node (\<lambda>p. p\<lparr>rect_id := x\<rparr>);
              if x > 255 then set_pan node (\<lambda>p. p\<lparr>rect_id := NO_PAN_SCAN_BIT\<rparr>)
              else do {
                c \<leftarrow> flag8 m;
                set_pan node (\<lambda>p. p\<lparr>rect_cancel_flag := c\<rparr>);
                if c \<noteq> 0 then set_pan node (\<lambda>p. p\<lparr>rect_id := NO_PAN_SCAN_BIT\<rparr>)
                else do {
                  k \<leftarrow> uev m;
                  set_pan node (\<lambda>p. p\<lparr>ps_cnt := k + 1\<rparr>);
                  if k + 1 > 3 then set_pan node (\<lambda>p. p\<lparr>rect_id := NO_PAN_SCAN_BIT\<rparr>)
                  else do {
                    pan_rects m node (unat (k + 1)) 0;
                    r \<leftarrow> uev m;
                    set_pan node (\<lambda>p. p\<lparr>rect_repetition_period := (if r > 1 then r * 2 else r)\<rparr>) } } } } }"

definition set_fp :: "(frame_pack \<Rightarrow> frame_pack) \<Rightarrow> unit parser" where
  "set_fp f = upd (\<lambda>s. s\<lparr>frame_packing_arrangement := f (frame_packing_arrangement s)\<rparr>)"

definition frame_pack_body :: "isa \<Rightarrow> unit parser" where
  "frame_pack_body m =
     do { ty \<leftarrow> extract_bits m 7; set_fp (\<lambda>p. p\<lparr>fp_type := ty\<rparr>);
          q \<leftarrow> extract_bits m 1; set_fp (\<lambda>p. p\<lparr>quincunx_sampling_flag := q\<rparr>);
          x \<leftarrow> extract_bits m 6; set_fp (\<lambda>p. p\<lparr>content_interpretation_type := x\<rparr>);
          x \<leftarrow> extract_bits m 1; set_fp (\<lambda>p. p\<lparr>spatial_flipping_flag := x\<rparr>);
          x \<leftarrow> extract_bits m 1; set_fp (\<lambda>p. p\<lparr>frame0_flipped_flag := x\<rparr>);
          x \<leftarrow> extract_bits m 1; set_fp (\<lambda>p. p\<lparr>field_views_flag := x\<rparr>);
          x \<leftarrow> extract_bits m 1; set_fp (\<lambda>p. p\<lparr>current_frame_is_frame0_flag := x\<rparr>);
          x \<leftarrow> extract_bits m 1; set_fp (\<lambda>p. p\<lparr>frame0_self_contained_flag := x\<rparr>);
          x \<leftarrow> extract_bits m 1; set_fp (\<lambda>p. p\<lparr>frame1_self_contained_flag := x\<rparr>);
          whenM (q = 0 \<and> ty \<noteq> 5) (do {
            x \<leftarrow> extract_bits m 4; set_fp (\<lambda>p. p\<lparr>frame0_grid_position_x := x\<rparr>);
            x \<leftarrow> extract_bits m 4; set_fp (\<lambda>p. p\<lparr>frame0_grid_position_y := x\<rparr>);
            x \<leftarrow> extract_bits m 4; set_fp (\<lambda>p. p\<lparr>frame1_grid_position_x := x\<rparr>);
            x \<leftarrow> extract_bits m 4; set_fp (\<lambda>p. p\<lparr>frame1_grid_position_y := x\<rparr>) });
          x \<leftarrow> extract_bits m 8; set_fp (\<lambda>p. p\<lparr>reserved_byte := x\<rparr>);
          x \<leftarrow> uev m; set_fp (\<lambda>p. p\<lparr>repetition_period := x\<rparr>) }"

definition parse_frame_pack :: "isa \<Rightarrow> unit parser" where
  "parse_frame_pack m =
     do { x \<leftarrow> uev m; set_fp (\<lambda>p. p\<lparr>fp_id := x\<rparr>);
          c \<leftarrow> extract_bits m 1; set_fp (\<lambda>p. p\<lparr>cancel_flag := c\<rparr>);
          whenM (c = 0) (frame_pack_body m);
          x \<leftarrow> extract_bits m 1; set_fp (\<lambda>p. p\<lparr>extension_flag := x\<rparr>) }"

section \<open>Messages\<close>

text \<open>A type or a size: bytes of 255 and a last byte; with the count of the bytes.\<close>

function sei_value :: "isa \<Rightarrow> u32 \<Rightarrow> u32 \<Rightarrow> 'a h264_reader_scheme \<Rightarrow> (u32 \<times> u32) \<times> 'a h264_reader_scheme" where
  "sei_value m acc processed_bytes s =
     (let (v, s) = getbits m 8 s in
      if v = 255 then sei_value m (acc + v) (processed_bytes + 1) s
      else ((acc + v, processed_bytes + 1), s))"
  by auto
termination
proof (relation "measure (\<lambda>(m, t, p, s). bits_left s)")
  fix m :: isa and t p :: u32 and s :: "'a h264_reader_scheme" and x v s'
  assume "x = getbits m 8 s" "(v, s') = x" "v = 255"
  then have "getbits m 8 s = (255, s')" by simp
  then show "((m, t + v, p + 1, s'), m, t, p, s) \<in> measure (\<lambda>(m, t, p, s). bits_left s)"
    using getbits_left[of 8 m s] getbits_8_end[of s m] by (cases "bits_left s = 0") auto
qed simp

declare sei_value.simps [simp del]

text \<open>The payloads that are parsed, by the numbers of SEI_PAYLOAD_TYPE.\<close>

definition sei_payload :: "isa \<Rightarrow> u32 \<Rightarrow> unit parser" where
  "sei_payload m payload_type =
     (if payload_type = 0 then sei_buffering_period m
      else if payload_type = 1 then sei_picture_timing m
      else if payload_type = 2 then sei_pan_scan m
      else if payload_type = 45 then parse_frame_pack m
      else State_Monad.return ())"

text \<open>One message at \<open>processed_bytes\<close>: where the next one is taken to begin.\<close>

definition sei_message :: "isa \<Rightarrow> byte list \<Rightarrow> u32 \<Rightarrow> u32 \<Rightarrow> h264_parser \<Rightarrow> u32 \<times> h264_parser" where
  "sei_message m sei_msg_start sei_unit_size processed_bytes s =
     (let s = init_bitstream (drop (unat processed_bytes) sei_msg_start) (sei_unit_size - processed_bytes) s;
          ((payload_type, processed_bytes), s) = sei_value m 0 processed_bytes s;
          ((payload_size, processed_bytes), s) = sei_value m 0 processed_bytes s;
          s = (if payload_size > 0 then snd (run_state (sei_payload m payload_type) s) else s)
      in (processed_bytes + payload_size + of_nat (emulation_code_skip_cntr s), s))"

partial_function (option) sei_loop ::
    "isa \<Rightarrow> byte list \<Rightarrow> u32 \<Rightarrow> u32 \<Rightarrow> h264_parser \<Rightarrow> h264_parser option" where
  "sei_loop m sei_msg_start sei_unit_size processed_bytes s =
     (if processed_bytes + 2 < sei_unit_size \<and> more_bits s then
        let (processed_bytes, s) = sei_message m sei_msg_start sei_unit_size processed_bytes s
        in sei_loop m sei_msg_start sei_unit_size processed_bytes s
      else Some s)"

declare sei_loop.simps [code]

definition parse_sei :: "isa \<Rightarrow> h264_parser \<Rightarrow> h264_parser option" where
  "parse_sei m s = sei_loop m (bitstream s) (of_nat (bitstream_bytes s)) 0 s"

section \<open>Sequence parameter sets\<close>

fun repeatM :: "nat \<Rightarrow> unit parser \<Rightarrow> unit parser" where
  "repeatM 0 p = State_Monad.return ()"
| "repeatM (Suc n) p = do { p; repeatM n p }"

text \<open>\<open>scaling_list\<close> with the two scales of the previous round; \<open>smod\<close> is the remainder of C++.\<close>

fun scaling_loop :: "isa \<Rightarrow> nat \<Rightarrow> int \<Rightarrow> int \<Rightarrow> unit parser" where
  "scaling_loop m 0 last_scale next_scale = State_Monad.return ()"
| "scaling_loop m (Suc n) last_scale next_scale =
     do { next_scale \<leftarrow> (if next_scale \<noteq> 0
            then do { delta_scale \<leftarrow> sev m;
                      State_Monad.return (sint (word_of_int (last_scale + delta_scale + 256) :: u32) smod 256) }
            else State_Monad.return next_scale);
          scaling_loop m n (if next_scale = 0 then last_scale else next_scale) next_scale }"

definition scaling_list :: "isa \<Rightarrow> nat \<Rightarrow> unit parser" where
  "scaling_list m size_of_scaling_list = scaling_loop m size_of_scaling_list 8 8"

text \<open>The lists from number \<open>i\<close> on, while there are bits.\<close>

fun scaling_lists :: "isa \<Rightarrow> nat \<Rightarrow> nat \<Rightarrow> unit parser" where
  "scaling_lists m 0 i = State_Monad.return ()"
| "scaling_lists m (Suc n) i =
     do { more \<leftarrow> reads more_bits;
          whenM more (do {
            present \<leftarrow> flag m;
            whenM present (scaling_list m (if i < 6 then 16 else 64));
            scaling_lists m n (i + 1) }) }"

definition has_chroma_info :: "u32 \<Rightarrow> bool" where
  "has_chroma_info p \<longleftrightarrow> p = 100 \<or> p = 110 \<or> p = 122 \<or> p = 244 \<or> p = 44 \<or> p = 83 \<or> p = 86 \<or> p = 118"

definition sps_chroma :: "isa \<Rightarrow> unit parser" where
  "sps_chroma m =
     do { chroma_format_idc \<leftarrow> uev m;
          whenM (chroma_format_idc = 3) (skip_bits m 1);
          skip_ue m;
          skip_ue m;
          skip_bits m 1;
          matrix \<leftarrow> flag m;
          whenM matrix (scaling_lists m 12 0) }"

definition sps_order_count :: "isa \<Rightarrow> unit parser" where
  "sps_order_count m =
     do { skip_ue m;
          v \<leftarrow> uev m;
          if v = 0 then skip_ue m
          else whenM (v = 1) (do {
            skip_bits m 1;
            skip_se m;
            skip_se m;
            n \<leftarrow> uev m;
            repeatM (unat n) (skip_se m) }) }"

definition sps_geometry :: "isa \<Rightarrow> unit parser" where
  "sps_geometry m =
     do { skip_ue m;
          skip_bits m 1;
          skip_ue m;
          skip_ue m;
          mbs_only \<leftarrow> flag m;
          whenM (\<not> mbs_only) (do {
            mbaff \<leftarrow> flag m;
            upd (\<lambda>s. s\<lparr>mbaff_flag := mbaff\<rparr>) });
          skip_bits m 1;
          cropping \<leftarrow> flag m;
          whenM cropping (do { skip_ue m; skip_ue m; skip_ue m; skip_ue m }) }"

definition parse_sps :: "isa \<Rightarrow> unit parser" where
  "parse_sps m =
     do { v \<leftarrow> extract_bits m 8;
          upd (\<lambda>s. s\<lparr>profile := v\<rparr>);
          skip_bits m 8;
          skip_bits m 8;
          skip_ue m;
          whenM (has_chroma_info v) (sps_chroma m);
          sps_order_count m;
          sps_geometry m;
          vui \<leftarrow> flag m;
          whenM vui (parse_vui m False) }"

section \<open>NAL units\<close>

abbreviation (input) NALU_TYPE_UNSPECIFIED :: u32 where "NALU_TYPE_UNSPECIFIED \<equiv> 0"
abbreviation (input) NALU_TYPE_SEI :: u32 where "NALU_TYPE_SEI \<equiv> 6"
abbreviation (input) NALU_TYPE_SPS :: u32 where "NALU_TYPE_SPS \<equiv> 7"
abbreviation (input) NALU_TYPE_VUI :: u32 where "NALU_TYPE_VUI \<equiv> 14"

text \<open>The switch of \<open>parse_nal\<close>.\<close>

definition nal_switch :: "isa \<Rightarrow> byte list \<Rightarrow> u32 \<Rightarrow> u32 \<Rightarrow> u32 \<Rightarrow> h264_parser \<Rightarrow> h264_parser option" where
  "nal_switch m data data_len cons_bytes nal_type s =
     (if nal_type = NALU_TYPE_SPS then
        let s = (if more_bits s then snd (run_state (parse_sps m) s) else s)
        in Some (snd (run_state hdl_get_free s))
      else if nal_type = NALU_TYPE_SEI then
        parse_sei m (init_bitstream (drop (unat cons_bytes) data) (data_len - cons_bytes) s)
      else if nal_type = NALU_TYPE_VUI then Some (snd (run_state (parse_vui m True) s))
      else Some s)"

definition parse_nal :: "isa \<Rightarrow> byte list \<Rightarrow> u32 \<Rightarrow> u32 \<Rightarrow> bool \<Rightarrow> h264_parser \<Rightarrow> h264_parser option" where
  "parse_nal m data data_len nal_type enable_emu_sc s =
     (if data_len = 0 then Some s
      else
        let s = (init_bitstream data data_len s)\<lparr>emulation_sc_enabled := enable_emu_sc\<rparr> in
        if nal_type \<noteq> NALU_TYPE_VUI then
          let ((cons_bytes, nal_unit_type), s) = run_state (get_nal_unit_type m) s in
          if nal_type \<noteq> nal_unit_type \<and> nal_type \<noteq> NALU_TYPE_UNSPECIFIED then Some s
          else nal_switch m data data_len cons_bytes nal_type s
        else nal_switch m data data_len 0 nal_type s)"

section \<open>What the component asks for\<close>

definition get_profile :: "h264_parser \<Rightarrow> u32" where "get_profile s = profile s"
definition is_mbaff :: "h264_parser \<Rightarrow> bool" where "is_mbaff s = mbaff_flag s"
definition get_frame_pack_data :: "h264_parser \<Rightarrow> frame_pack" where
  "get_frame_pack_data s = frame_packing_arrangement s"

text \<open>
  The frame rate, if there is one to report. A divisor of 0, from 2 ^ 31 units in a tick, gives 0
  as the division instruction does.
\<close>

definition get_frame_rate :: "h264_parser \<Rightarrow> u32 option" where
  "get_frame_rate s =
     (if num_units_in_tick (vui_param s) \<noteq> 0
      then Some (time_scale (vui_param s) div (2 * num_units_in_tick (vui_param s))) else None)"

definition fill_aspect_ratio_info :: "h264_parser \<Rightarrow> (u32 \<times> u32) option" where
  "fill_aspect_ratio_info s =
     (if aspect_ratio_info_present_flag (vui_param s) \<noteq> 0
      then Some (aspect_ratio_x (aspect_ratio_info (vui_param s)), aspect_ratio_y (aspect_ratio_info (vui_param s)))
      else None)"

text \<open>The windows for a time stamp, if the destination is written: left, top, right and bottom offsets.\<close>

definition fill_pan_scan_data :: "int \<Rightarrow> panscan \<Rightarrow> ((u32 \<times> (int \<times> int \<times> int \<times> int) list) option \<times> panscan) option" where
  "fill_pan_scan_data timestamp ps =
     map_option (\<lambda>(data, ps).
       case data of
         None \<Rightarrow> (None, ps)
       | Some i \<Rightarrow>
           let n = panscan_data ps i; p = pan_scan_param n in
           if rect_id p AND NO_PAN_SCAN_BIT = 0 then
             (Some (ps_cnt p, map (\<lambda>j. (rect_left_offset p ! j, rect_top_offset p ! j,
                rect_right_offset p ! j, rect_bottom_offset p ! j)) [0..<unat (ps_cnt p)]), ps)
           else (None, ps\<lparr>panscan_data := (panscan_data ps)
                (i := n\<lparr>pan_scan_param := p\<lparr>rect_repetition_period := 0\<rparr>\<rparr>)\<rparr>))
     (get_populated timestamp ps)"

end
