(* ===== verification/H264Syntax.thy ===== *)
theory H264Syntax
  imports H264ReaderSpec H264Stream
begin

text \<open>
  A calculus for parsers that read what a writer has written, and the writer: the syntax of the
  usability information and of sequence parameter sets as ITU-T H.264 has it (7.3.2.1.1, E.1).
\<close>

section \<open>Reading what was written\<close>

text \<open>What a parser has parsed so far: everything but the reader.\<close>

definition params :: "h264_parser \<Rightarrow> h264_parser" where
  "params s = s\<lparr>curr_32_bit := 0, bits_read := 0, zero_cntr := 0, emulation_code_skip_cntr := 0,
     bitstream := [], bitstream_bytes := 0, overrun := False\<rparr>"

lemma params_simps [simp]:
  "vui_param (params s) = vui_param s" "sei_buf_period (params s) = sei_buf_period s"
  "sei_pic_timing (params s) = sei_pic_timing s" "panscan_hdl (params s) = panscan_hdl s"
  "frame_packing_arrangement (params s) = frame_packing_arrangement s"
  "mbaff_flag (params s) = mbaff_flag s" "profile (params s) = profile s"
  "emulation_sc_enabled (params s) = emulation_sc_enabled s" "overrun (params s) = False"
  by (simp_all add: params_def)

lemma params_frame: "h264_reader.more s' = h264_reader.more s \<Longrightarrow>
    emulation_sc_enabled s' = emulation_sc_enabled s \<Longrightarrow> params s' = params s"
  by (cases s; cases s') (simp add: params_def)

text \<open>
  \<open>parses p bs k v k'\<close>: where the bits \<open>bs\<close> come next and \<open>k\<close> has been parsed, \<open>p\<close> reads
  exactly these bits, returns \<open>v\<close> and leaves \<open>k'\<close> parsed.
\<close>

definition parses :: "'a parser \<Rightarrow> bool list \<Rightarrow> h264_parser \<Rightarrow> 'a \<Rightarrow> h264_parser \<Rightarrow> bool" where
  "parses p bs k v k' \<longleftrightarrow> (\<forall>s q. reader_holds s (bs @ q) \<and> params s = k \<longrightarrow>
     (\<exists>s'. run_state p s = (v, s') \<and> reader_holds s' q \<and> params s' = k'))"

named_theorems gives_rules \<open>rules that run a parser on written bits\<close>

lemma parses_return: "parses (State_Monad.return v) [] k v k"
  by (simp add: parses_def)

lemma parses_bind: "parses p bs k v k1 \<Longrightarrow> parses (f v) cs k1 w k2 \<Longrightarrow>
    parses (State_Monad.bind p f) (bs @ cs) k w k2"
  unfolding parses_def by (simp add: split_beta) (metis append_assoc fst_conv snd_conv)

lemma parses_more: "parses (f True) bs k w k' \<Longrightarrow> bs \<noteq> [] \<Longrightarrow>
    parses (State_Monad.bind (reads more_bits) f) bs k w k'"
  by (auto simp: parses_def more_bits_holds)

lemma parses_upd: "(\<And>s. params s = k \<Longrightarrow> params (f s) = k' \<and> (\<forall>q. reader_holds s q \<longrightarrow> reader_holds (f s) q)) \<Longrightarrow>
    parses (upd f) [] k () k'"
  by (simp add: parses_def)

lemma parses_whenM:
  "(b \<Longrightarrow> parses p bs k () k') \<Longrightarrow> (\<not> b \<Longrightarrow> bs = [] \<and> k' = k) \<Longrightarrow> parses (whenM b p) bs k () k'"
  by (auto simp: whenM_def parses_return)

lemma reader_holds_ext:
  "reader_holds (s\<lparr>vui_param := a\<rparr>) q = reader_holds s q"
  "reader_holds (s\<lparr>sei_buf_period := b\<rparr>) q = reader_holds s q"
  "reader_holds (s\<lparr>sei_pic_timing := c\<rparr>) q = reader_holds s q"
  "reader_holds (s\<lparr>panscan_hdl := d\<rparr>) q = reader_holds s q"
  "reader_holds (s\<lparr>frame_packing_arrangement := e\<rparr>) q = reader_holds s q"
  "reader_holds (s\<lparr>mbaff_flag := f\<rparr>) q = reader_holds s q"
  "reader_holds (s\<lparr>profile := g\<rparr>) q = reader_holds s q"
  by (simp_all add: reader_holds_def in_buffer_def rest_bytes_def)

lemma parses_set_vui: "parses (set_vui f) [] k () (k\<lparr>vui_param := f (vui_param k)\<rparr>)"
  unfolding set_vui_def by (rule parses_upd) (auto simp: reader_holds_ext params_def)

lemma parses_set_mbaff: "parses (upd (\<lambda>s. s\<lparr>mbaff_flag := b\<rparr>)) [] k () (k\<lparr>mbaff_flag := b\<rparr>)"
  by (rule parses_upd) (auto simp: reader_holds_ext params_def)

lemma parses_set_profile: "parses (upd (\<lambda>s. s\<lparr>profile := b\<rparr>)) [] k () (k\<lparr>profile := b\<rparr>)"
  by (rule parses_upd) (auto simp: reader_holds_ext params_def)

lemma parses_check: "b \<Longrightarrow> parses (check b) [] k () k"
  by (simp add: check_def parses_def)

text \<open>The bits of a number of fixed length.\<close>

definition ub :: "nat \<Rightarrow> nat \<Rightarrow> bool list" where
  "ub n v = map (bit v) (rev [0..<n])"

lemma length_ub [simp]: "length (ub n v) = n"
  by (simp add: ub_def)

lemma nob_ub [simp]: "nob (ub n v) = v mod 2 ^ n"
  by (simp add: nob_def ub_def rev_map horner_sum_bit_eq_take_bit take_bit_eq_mod)

lemma wob_ub: "v < 2 ^ n \<Longrightarrow> wob (ub n v) = of_nat v"
  by (simp add: wob_nob)

lemma parses_bits:
  assumes "0 < n" "n < 32 \<or> m = A32 \<and> n \<le> 32" "v < 2 ^ n"
  shows "parses (extract_bits m n) (ub n v) k (of_nat v) k"
  unfolding parses_def
proof (intro allI impI, elim conjE)
  fix s :: h264_parser and q assume s: "reader_holds s (ub n v @ q)" "params s = k"
  obtain s' where s': "getbits m n s = (wob (ub n v), s')" "reader_holds s' q"
    using getbits_holds[OF s(1), of n m] assms(1,2) by (auto simp: defined_read_def)
  then show "\<exists>s'. run_state (extract_bits m n) s = (of_nat v, s') \<and> reader_holds s' q \<and> params s' = k"
    using getbits_frame[OF s'(1)] s(2) assms(3) params_frame[of s' s] by (auto simp: wob_ub)
qed

lemma parses_bind0: "parses p bs k v k1 \<Longrightarrow> parses (f v) [] k1 w k2 \<Longrightarrow>
    parses (State_Monad.bind p f) bs k w k2"
  using parses_bind[of p bs k v k1 f "[]" w k2] by simp

lemma ub_1: "ub 1 (of_bool b) = [b]"
  by (simp add: ub_def bit_0)

lemma parses_bit: "parses (extract_bits m 1) [b] k (of_bool b) k"
  using parses_bits[of 1 m "of_bool b" k] unfolding ub_1 by simp

lemma parses_flag: "parses (flag m) [b] k b k"
  unfolding flag_def by (rule parses_bind0[OF parses_bit]) (cases b; simp add: parses_return)

lemma parses_flag8: "parses (flag8 m) [b] k (of_bool b) k"
  unfolding flag8_def by (rule parses_bind0[OF parses_bit]) (cases b; simp add: parses_return)

lemma run_uev_frame: "run_state (uev m) s = (v, s') \<Longrightarrow>
    h264_reader.more s' = h264_reader.more s \<and> emulation_sc_enabled s' = emulation_sc_enabled s"
  by (auto simp: run_uev Let_def split: prod.splits if_splits dest!: lead_zeros_frame getbits_frame)

lemma run_sev_frame: "run_state (sev m) s = (v, s') \<Longrightarrow>
    h264_reader.more s' = h264_reader.more s \<and> emulation_sc_enabled s' = emulation_sc_enabled s"
  by (auto simp: sev_def Let_def split: prod.splits dest!: run_uev_frame)

lemma parses_ue:
  assumes "v < 2 ^ 32 - 1"
  shows "parses (uev m) (ue_code v) k (of_nat v) k"
  unfolding parses_def
proof (intro allI impI, elim conjE)
  fix s :: h264_parser and q assume s: "reader_holds s (ue_code v @ q)" "params s = k"
  obtain s' where s': "run_state (uev m) s = (of_nat v, s')" "reader_holds s' q"
    using hr.ue_read[OF s(1) assms, of m] by auto
  then show "\<exists>s'. run_state (uev m) s = (of_nat v, s') \<and> reader_holds s' q \<and> params s' = k"
    using run_uev_frame[OF s'(1)] s(2) params_frame[of s' s] by auto
qed

lemma parses_se:
  assumes "\<bar>v\<bar> < 2 ^ 31"
  shows "parses (sev m) (se_code v) k v k"
  unfolding parses_def
proof (intro allI impI, elim conjE)
  fix s :: h264_parser and q assume s: "reader_holds s (se_code v @ q)" "params s = k"
  obtain s' where s': "run_state (sev m) s = (v, s')" "reader_holds s' q"
    using hr.se_read[OF s(1) assms, of m] by auto
  then show "\<exists>s'. run_state (sev m) s = (v, s') \<and> reader_holds s' q \<and> params s' = k"
    using run_sev_frame[OF s'(1)] s(2) params_frame[of s' s] by auto
qed

lemma parses_skip_bits: "0 < n \<Longrightarrow> n < 32 \<Longrightarrow> v < 2 ^ n \<Longrightarrow> parses (skip_bits m n) (ub n v) k () k"
  using parses_bind[OF parses_bits[of n m v k] parses_return[of "()" k]] by (simp add: skip_bits_def)

lemma parses_skip_flag: "parses (skip_bits m 1) [b] k () k"
  using parses_skip_bits[of 1 "of_bool b" m k] unfolding ub_1 by simp

lemma parses_skip_ue: "v < 2 ^ 32 - 1 \<Longrightarrow> parses (skip_ue m) (ue_code v) k () k"
  using parses_bind[OF parses_ue[of v m k] parses_return[of "()" k]] by (simp add: skip_ue_def)

lemma parses_skip_se: "\<bar>v\<bar> < 2 ^ 31 \<Longrightarrow> parses (skip_se m) (se_code v) k () k"
  using parses_bind[OF parses_se[of v m k] parses_return[of "()" k]] by (simp add: skip_se_def)

text \<open>
  The same as a weakest precondition: \<open>gives p bs k Q\<close> runs \<open>p\<close> on the bits \<open>bs\<close>, and \<open>Q\<close>
  holds of the value, the bits left and what has been parsed. Its rules follow the program.
\<close>

definition gives :: "'a parser \<Rightarrow> bool list \<Rightarrow> h264_parser \<Rightarrow> ('a \<Rightarrow> bool list \<Rightarrow> h264_parser \<Rightarrow> bool) \<Rightarrow> bool" where
  "gives p bs k Q \<longleftrightarrow> (\<forall>s. reader_holds s bs \<and> params s = k \<longrightarrow>
     (\<exists>v s' q. run_state p s = (v, s') \<and> reader_holds s' q \<and> Q v q (params s')))"

lemma parsesI: "(\<And>q. gives p (bs @ q) k (\<lambda>v' q' k''. v' = v \<and> q' = q \<and> k'' = k')) \<Longrightarrow> parses p bs k v k'"
  unfolding parses_def gives_def by blast

lemma gives_parses: "parses p bs k v k' \<Longrightarrow> Q v q k' \<Longrightarrow> gives p (bs @ q) k Q"
  unfolding parses_def gives_def by blast

lemma gives_parses0: "parses p [] k v k' \<Longrightarrow> Q v q k' \<Longrightarrow> gives p q k Q"
  using gives_parses[of p "[]"] by simp

lemma gives_bind [gives_rules]:
  "gives p bs k (\<lambda>v q k'. gives (f v) q k' Q) \<Longrightarrow> gives (State_Monad.bind p f) bs k Q"
  unfolding gives_def by (simp add: split_beta) (metis fst_conv snd_conv)

lemma gives_return [gives_rules]: "Q v bs k \<Longrightarrow> gives (State_Monad.return v) bs k Q"
  by (auto simp: gives_def)

lemma gives_more [gives_rules]: "bs \<noteq> [] \<Longrightarrow> Q True bs k \<Longrightarrow> gives (reads more_bits) bs k Q"
  by (auto simp: gives_def more_bits_holds)

lemma gives_vui_param [gives_rules]: "Q (vui_param k) bs k \<Longrightarrow> gives (reads vui_param) bs k Q"
  by (auto simp: gives_def)

lemma gives_whenM [gives_rules]:
  "(b \<Longrightarrow> gives p bs k Q) \<Longrightarrow> (\<not> b \<Longrightarrow> Q () bs k) \<Longrightarrow> gives (whenM b p) bs k Q"
  by (auto simp: whenM_def gives_return)

lemma gives_if [gives_rules]:
  "(b \<Longrightarrow> gives p bs k Q) \<Longrightarrow> (\<not> b \<Longrightarrow> gives p' bs k Q) \<Longrightarrow> gives (if b then p else p') bs k Q"
  by simp

lemma gives_Let [gives_rules]: "gives (f x) bs k Q \<Longrightarrow> gives (Let x f) bs k Q"
  by simp

lemmas gives_state [gives_rules] =
  gives_parses0[OF parses_set_vui] gives_parses0[OF parses_set_mbaff] gives_parses0[OF parses_set_profile]
  gives_parses0[OF parses_check]

lemmas gives_flags [gives_rules] =
  gives_parses[OF parses_flag, simplified append.simps] gives_parses[OF parses_flag8, simplified append.simps]
  gives_parses[OF parses_bit, simplified append.simps] gives_parses[OF parses_skip_flag, simplified append.simps]

lemmas gives_Suc_0 [gives_rules] =
  gives_parses[OF parses_bit, simplified append.simps One_nat_def]
  gives_parses[OF parses_skip_flag, simplified append.simps One_nat_def]

lemmas gives_numbers [gives_rules] =
  gives_parses[OF parses_ue] gives_parses[OF parses_se] gives_parses[OF parses_skip_ue]
  gives_parses[OF parses_skip_se]

lemma gives_bits [gives_rules]:
  "0 < n \<Longrightarrow> n < 32 \<or> m = A32 \<and> n \<le> 32 \<Longrightarrow> v < 2 ^ n \<Longrightarrow> Q (of_nat v) q k \<Longrightarrow> gives (extract_bits m n) (ub n v @ q) k Q"
  by (rule gives_parses[OF parses_bits])

lemma gives_skip_bits [gives_rules]:
  "0 < n \<Longrightarrow> n < 32 \<Longrightarrow> v < 2 ^ n \<Longrightarrow> Q () q k \<Longrightarrow> gives (skip_bits m n) (ub n v @ q) k Q"
  by (rule gives_parses[OF parses_skip_bits])

section \<open>Hypothetical reference decoder parameters\<close>

text \<open>The syntax of E.1.2: scales, the bit rates, buffer sizes and flags, and four lengths.\<close>

record hrd_syntax =
  hs_rate_scale :: nat
  hs_size_scale :: nat
  hs_cpbs :: "(nat \<times> nat \<times> bool) list"
  hs_initial_len :: nat
  hs_removal_len :: nat
  hs_output_len :: nat
  hs_offset_len :: nat

definition cpb_bits :: "nat \<times> nat \<times> bool \<Rightarrow> bool list" where
  "cpb_bits = (\<lambda>(r, c, b). ue_code r @ ue_code c @ [b])"

lemma cpb_bits_eq: "cpb_bits (r, c, b) = ue_code r @ ue_code c @ [b]"
  by (simp add: cpb_bits_def)

definition hrd_bits :: "hrd_syntax \<Rightarrow> bool list" where
  "hrd_bits h = ue_code (length (hs_cpbs h) - 1) @ ub 4 (hs_rate_scale h) @ ub 4 (hs_size_scale h) @
     concat (map cpb_bits (hs_cpbs h)) @ ub 5 (hs_initial_len h) @ ub 5 (hs_removal_len h) @
     ub 5 (hs_output_len h) @ ub 5 (hs_offset_len h)"

text \<open>The values the syntax has room for (E.2.2).\<close>

definition hrd_wf :: "hrd_syntax \<Rightarrow> bool" where
  "hrd_wf h \<longleftrightarrow> hs_cpbs h \<noteq> [] \<and> length (hs_cpbs h) \<le> 32 \<and> hs_rate_scale h < 16 \<and> hs_size_scale h < 16 \<and>
     (\<forall>(r, c, b) \<in> set (hs_cpbs h). r < 2 ^ 32 - 1 \<and> c < 2 ^ 32 - 1) \<and>
     hs_initial_len h < 32 \<and> hs_removal_len h < 32 \<and> hs_output_len h < 32 \<and> hs_offset_len h < 32"

text \<open>What the parser makes of it: the arrays keep their elements beyond the last one written.\<close>

definition put_cpbs :: "(nat \<times> nat \<times> bool) list \<Rightarrow> nat \<Rightarrow> hrd_param \<Rightarrow> hrd_param" where
  "put_cpbs cs i h = h\<lparr>
     bit_rate_value := take i (bit_rate_value h) @ map (\<lambda>(r, c, b). of_nat r + 1) cs @ drop (i + length cs) (bit_rate_value h),
     cpb_size_value := take i (cpb_size_value h) @ map (\<lambda>(r, c, b). of_nat c + 1) cs @ drop (i + length cs) (cpb_size_value h),
     cbr_flag := take i (cbr_flag h) @ map (\<lambda>(r, c, b). of_bool b) cs @ drop (i + length cs) (cbr_flag h)\<rparr>"

definition hrd_of :: "hrd_syntax \<Rightarrow> hrd_param \<Rightarrow> hrd_param" where
  "hrd_of x h = (put_cpbs (hs_cpbs x) 0 (h\<lparr>cpb_cnt := of_nat (length (hs_cpbs x)),
       bit_rate_scale := of_nat (hs_rate_scale x), cpb_size_scale := of_nat (hs_size_scale x)\<rparr>))
     \<lparr>initial_cpb_removal_delay_length := of_nat (hs_initial_len x) + 1,
      cpb_removal_delay_length := of_nat (hs_removal_len x) + 1,
      dpb_output_delay_length := of_nat (hs_output_len x) + 1,
      time_offset_length := of_nat (hs_offset_len x)\<rparr>"

definition hrd_arrays :: "hrd_param \<Rightarrow> bool" where
  "hrd_arrays h \<longleftrightarrow> length (bit_rate_value h) = 32 \<and> length (cpb_size_value h) = 32 \<and> length (cbr_flag h) = 32"

lemma update_in: "i < length xs \<Longrightarrow> take i xs @ y # ys @ drop (Suc (i + n)) xs =
    take (Suc i) (xs[i := y]) @ ys @ drop (Suc (i + n)) (xs[i := y])"
  by (simp add: take_Suc_conv_app_nth)

lemma put_cpbs_Cons:
  assumes "hrd_arrays h" "i < 32"
  shows "put_cpbs ((r, c, b) # cs) i h = put_cpbs cs (i + 1) (h\<lparr>bit_rate_value := (bit_rate_value h)[i := of_nat r + 1],
     cpb_size_value := (cpb_size_value h)[i := of_nat c + 1], cbr_flag := (cbr_flag h)[i := of_bool b]\<rparr>)"
  using assms update_in[of i "bit_rate_value h"] update_in[of i "cpb_size_value h"] update_in[of i "cbr_flag h"]
  by (simp add: put_cpbs_def hrd_arrays_def)

lemma parses_cpbs:
  assumes "\<forall>(r, c, b) \<in> set cs. r < 2 ^ 32 - 1 \<and> c < 2 ^ 32 - 1" "i + length cs \<le> 32" "hrd_arrays h"
  shows "parses (hrd_loop m (length cs) i h) (concat (map cpb_bits cs)) k (put_cpbs cs i h) k"
  using assms
proof (induction cs arbitrary: i h)
  case Nil
  then show ?case by (simp add: put_cpbs_def parses_return)
next
  case (Cons x cs)
  obtain r c b where x: "x = (r, c, b)" by (cases x)
  let ?h = "\<lambda>f. h\<lparr>bit_rate_value := (bit_rate_value h)[i := of_nat r + 1],
     cpb_size_value := (cpb_size_value h)[i := of_nat c + 1], cbr_flag := (cbr_flag h)[i := f]\<rparr>"
  have "parses (hrd_loop m (length cs) (Suc i) (?h f)) (concat (map cpb_bits cs)) k (put_cpbs cs (Suc i) (?h f)) k" for f
    using Cons.prems by (intro Cons.IH) (auto simp: hrd_arrays_def)
  note loop = gives_parses[OF this]
  have "ue_code r \<noteq> []" using ue_code_tail[of r] by auto
  then show ?case using Cons.prems put_cpbs_Cons[of h i r c b cs]
    by (intro parsesI) (auto simp: x cpb_bits_eq intro!: gives_rules loop)
qed

lemma ucast_byte: "ucast (of_nat v :: u32) = (of_nat v :: byte)"
  by (simp add: unsigned_of_nat word_of_nat_eq_iff take_bit_take_bit)

lemma parses_hrd:
  assumes "hrd_wf x" "hrd_arrays h"
  shows "parses (hrd_parameters m h) (hrd_bits x) k (hrd_of x h) k"
proof -
  let ?n = "length (hs_cpbs x)"
  let ?h = "h\<lparr>cpb_cnt := of_nat ?n, bit_rate_scale := of_nat (hs_rate_scale x), cpb_size_scale := of_nat (hs_size_scale x)\<rparr>"
  have n: "(of_nat (?n - 1) + 1 :: u32) = of_nat ?n" "unat (of_nat ?n :: u32) = ?n" "\<not> (of_nat ?n :: u32) > 32"
    using assms(1) by (auto simp: hrd_wf_def of_nat_diff Suc_le_eq unat_of_nat take_bit_nat_eq_self word_less_nat_alt)
  have "parses (hrd_loop m ?n 0 ?h) (concat (map cpb_bits (hs_cpbs x))) k (put_cpbs (hs_cpbs x) 0 ?h) k"
    using assms by (intro parses_cpbs) (auto simp: hrd_wf_def hrd_arrays_def)
  note loop = gives_parses[OF this]
  show ?thesis unfolding hrd_parameters_def hrd_bits_def using assms(1) n
    by (intro parsesI) (auto simp: hrd_wf_def ucast_byte hrd_of_def intro!: gives_rules loop)
qed

end
