(* ===== verification/H264Vui.thy ===== *)
theory H264Vui
  imports H264Syntax
begin

text \<open>
  The usability information as a writer writes it (E.1.1) and that the parser reads it back.
\<close>

section \<open>The writer\<close>

definition opt_bits :: "('a \<Rightarrow> bool list) \<Rightarrow> 'a option \<Rightarrow> bool list" where
  "opt_bits f x = [x \<noteq> None] @ (case x of None \<Rightarrow> [] | Some y \<Rightarrow> f y)"

text \<open>
  Every group that may be absent is an option: the aspect ratio with its number and size, the
  overscan flag, format, range flag and colours of the signal, the chroma locations, the timing,
  the two sets of decoder parameters, and a flag and six numbers of bitstream restrictions.
\<close>

record vui_syntax =
  vs_aspect :: "(nat \<times> nat \<times> nat) option"
  vs_overscan :: "bool option"
  vs_signal :: "(nat \<times> bool \<times> (nat \<times> nat \<times> nat) option) option"
  vs_chroma :: "(nat \<times> nat) option"
  vs_timing :: "(nat \<times> nat \<times> bool) option"
  vs_nal :: "hrd_syntax option"
  vs_vcl :: "hrd_syntax option"
  vs_low_delay :: bool
  vs_pic_struct :: bool
  vs_restriction :: "(bool \<times> nat \<times> nat \<times> nat \<times> nat \<times> nat \<times> nat) option"

definition aspect_bits :: "nat \<times> nat \<times> nat \<Rightarrow> bool list" where
  "aspect_bits = (\<lambda>(idc, w, h). ub 8 idc @ (if idc = 255 then ub 16 w @ ub 16 h else []))"

definition colour_bits :: "nat \<times> nat \<times> nat \<Rightarrow> bool list" where
  "colour_bits = (\<lambda>(a, b, c). ub 8 a @ ub 8 b @ ub 8 c)"

definition signal_bits :: "vui_syntax \<Rightarrow> bool list" where
  "signal_bits v = opt_bits (\<lambda>b. [b]) (vs_overscan v) @
     opt_bits (\<lambda>(fmt, full, col). ub 3 fmt @ [full] @ opt_bits colour_bits col) (vs_signal v) @
     opt_bits (\<lambda>(t, b). ue_code t @ ue_code b) (vs_chroma v)"

definition timing_bits :: "vui_syntax \<Rightarrow> bool list" where
  "timing_bits v = opt_bits (\<lambda>(u, t, fixed). ub 32 u @ ub 32 t @ [fixed]) (vs_timing v)"

definition hrds_bits :: "vui_syntax \<Rightarrow> bool list" where
  "hrds_bits v = opt_bits hrd_bits (vs_nal v) @ opt_bits hrd_bits (vs_vcl v) @
     (if vs_nal v \<noteq> None \<or> vs_vcl v \<noteq> None then [vs_low_delay v] else []) @ [vs_pic_struct v]"

definition restriction_bits :: "vui_syntax \<Rightarrow> bool list" where
  "restriction_bits v = opt_bits (\<lambda>(f, a, b, c, d, e, g).
     [f] @ ue_code a @ ue_code b @ ue_code c @ ue_code d @ ue_code e @ ue_code g) (vs_restriction v)"

definition vui_bits :: "vui_syntax \<Rightarrow> bool list" where
  "vui_bits v = opt_bits aspect_bits (vs_aspect v) @ signal_bits v @ timing_bits v @ hrds_bits v @ restriction_bits v"

text \<open>The values the syntax has room for.\<close>

definition colour_wf :: "(nat \<times> nat \<times> nat) option \<Rightarrow> bool" where
  "colour_wf col \<longleftrightarrow> (case col of None \<Rightarrow> True | Some (a, b, c) \<Rightarrow> a < 256 \<and> b < 256 \<and> c < 256)"

definition vui_wf :: "vui_syntax \<Rightarrow> bool" where
  "vui_wf v \<longleftrightarrow>
     (case vs_aspect v of None \<Rightarrow> True | Some (idc, w, h) \<Rightarrow> idc < 256 \<and> w < 65536 \<and> h < 65536) \<and>
     (case vs_signal v of None \<Rightarrow> True | Some (fmt, full, col) \<Rightarrow> fmt < 8 \<and> colour_wf col) \<and>
     (case vs_chroma v of None \<Rightarrow> True | Some (t, b) \<Rightarrow> t < 2 ^ 32 - 1 \<and> b < 2 ^ 32 - 1) \<and>
     (case vs_timing v of None \<Rightarrow> True | Some (u, t, fixed) \<Rightarrow> u < 2 ^ 32 \<and> t < 2 ^ 32) \<and>
     (case vs_nal v of None \<Rightarrow> True | Some h \<Rightarrow> hrd_wf h) \<and>
     (case vs_vcl v of None \<Rightarrow> True | Some h \<Rightarrow> hrd_wf h) \<and>
     (case vs_restriction v of None \<Rightarrow> True | Some (f, a, b, c, d, e, g) \<Rightarrow>
        a < 2 ^ 32 - 1 \<and> b < 2 ^ 32 - 1 \<and> c < 2 ^ 32 - 1 \<and> d < 2 ^ 32 - 1 \<and> e < 2 ^ 32 - 1 \<and> g < 2 ^ 32 - 1)"

section \<open>What is read\<close>

definition aspect_of :: "nat \<times> nat \<times> nat \<Rightarrow> aspect_ratio" where
  "aspect_of = (\<lambda>(idc, w, h).
     let (x, y) = (if idc = 255 then (of_nat w, of_nat h) else aspect_ratio_of (of_nat idc))
     in \<lparr>aspect_ratio_idc = of_nat idc, aspect_ratio_x = x, aspect_ratio_y = y\<rparr>)"

text \<open>What is parsed replaces what was; groups that are absent leave their members alone.\<close>

definition aspect_part :: "vui_syntax \<Rightarrow> vui \<Rightarrow> vui" where
  "aspect_part v p =
     (let p = p\<lparr>aspect_ratio_info_present_flag := of_bool (vs_aspect v \<noteq> None)\<rparr>
      in case vs_aspect v of None \<Rightarrow> p | Some a \<Rightarrow> p\<lparr>aspect_ratio_info := aspect_of a\<rparr>)"

definition timing_part :: "vui_syntax \<Rightarrow> vui \<Rightarrow> vui" where
  "timing_part v p =
     (let p = p\<lparr>timing_info_present_flag := of_bool (vs_timing v \<noteq> None)\<rparr>
      in case vs_timing v of None \<Rightarrow> p | Some (u, t, fixed) \<Rightarrow>
           p\<lparr>num_units_in_tick := of_nat u, time_scale := of_nat t, fixed_frame_rate_flag := of_bool fixed\<rparr>)"

definition nal_part :: "vui_syntax \<Rightarrow> vui \<Rightarrow> vui" where
  "nal_part v p =
     (let p = p\<lparr>nal_hrd_parameters_present_flag := of_bool (vs_nal v \<noteq> None)\<rparr>
      in case vs_nal v of None \<Rightarrow> p | Some h \<Rightarrow> p\<lparr>nal_hrd_parameters := hrd_of h (nal_hrd_parameters p)\<rparr>)"

definition vcl_part :: "vui_syntax \<Rightarrow> vui \<Rightarrow> vui" where
  "vcl_part v p =
     (let p = p\<lparr>vcl_hrd_parameters_present_flag := of_bool (vs_vcl v \<noteq> None)\<rparr>
      in case vs_vcl v of None \<Rightarrow> p | Some h \<Rightarrow> p\<lparr>vcl_hrd_parameters := hrd_of h (vcl_hrd_parameters p)\<rparr>)"

definition pic_part :: "vui_syntax \<Rightarrow> vui \<Rightarrow> vui" where
  "pic_part v p =
     (if vs_nal v \<noteq> None \<or> vs_vcl v \<noteq> None then p\<lparr>low_delay_hrd_flag := of_bool (vs_low_delay v)\<rparr> else p)
     \<lparr>pic_struct_present_flag := of_bool (vs_pic_struct v)\<rparr>"

definition vui_of :: "vui_syntax \<Rightarrow> vui \<Rightarrow> vui" where
  "vui_of v p = pic_part v (vcl_part v (nal_part v (timing_part v (aspect_part v p))))"

definition vui_arrays :: "vui \<Rightarrow> bool" where
  "vui_arrays v \<longleftrightarrow> hrd_arrays (nal_hrd_parameters v) \<and> hrd_arrays (vcl_hrd_parameters v)"

section \<open>The parts\<close>

lemma of_nat_eq_255: "v < 256 \<Longrightarrow> (of_nat v = (255 :: u32)) = (v = 255)"
  by (auto simp: word_unat_eq_iff unat_of_nat)

lemma parses_aspect:
  assumes "idc < 256" "w < 65536" "h < 65536"
  shows "parses (aspect_ratio_info_parse m) (aspect_bits (idc, w, h)) k ()
    (k\<lparr>vui_param := (vui_param k)\<lparr>aspect_ratio_info := aspect_of (idc, w, h)\<rparr>\<rparr>)"
  unfolding aspect_ratio_info_parse_def aspect_bits_def set_vui_def[symmetric] using assms
  by (intro parsesI) (auto simp: of_nat_eq_255 aspect_of_def split_beta intro!: gives_rules)

text \<open>A group that a flag announces, in the middle and at the end of a parser.\<close>

lemma parses_last_group:
  assumes "\<And>y. x = Some y \<Longrightarrow> parses p (f y) k () k1" "x = None \<Longrightarrow> k1 = k"
  shows "parses (State_Monad.bind (flag m) (\<lambda>b. whenM b p)) (opt_bits f x) k () k1"
  unfolding opt_bits_def using assms
  by (intro parses_bind[OF parses_flag]) (auto simp: whenM_def parses_return)

lemma parses_group:
  assumes "\<And>y. x = Some y \<Longrightarrow> parses p (f y) k () k" "parses r bs k w k2"
  shows "parses (State_Monad.bind (flag m) (\<lambda>b. State_Monad.bind (whenM b p) (\<lambda>_. r))) (opt_bits f x @ bs) k w k2"
  unfolding opt_bits_def append_assoc using assms
  by (intro parses_bind[OF parses_flag] parses_bind[where ?k1.0 = k]) (auto simp: whenM_def parses_return)

lemma parses_colour:
  assumes "colour_wf col"
  shows "parses (State_Monad.bind (flag m) (\<lambda>colour. whenM colour (do { skip_bits m 8; skip_bits m 8; skip_bits m 8 })))
    (opt_bits colour_bits col) k () k"
  using assms by (intro parses_last_group parsesI) (auto simp: colour_bits_def colour_wf_def intro!: gives_rules)

lemma vui_wfD:
  assumes "vui_wf v"
  shows "vs_signal v = Some (fmt, full, col) \<Longrightarrow> fmt < 8 \<and> colour_wf col"
    and "vs_chroma v = Some (t, b) \<Longrightarrow> t < 2 ^ 32 - 1 \<and> b < 2 ^ 32 - 1"
    and "vs_aspect v = Some (idc, w, h) \<Longrightarrow> idc < 256 \<and> w < 65536 \<and> h < 65536"
    and "vs_timing v = Some (u, ts, fixed) \<Longrightarrow> u < 2 ^ 32 \<and> ts < 2 ^ 32"
    and "vs_nal v = Some hn \<Longrightarrow> hrd_wf hn" and "vs_vcl v = Some hv \<Longrightarrow> hrd_wf hv"
    and "vs_restriction v = Some (f, n1, n2, n3, n4, n5, n6) \<Longrightarrow>
      n1 < 2 ^ 32 - 1 \<and> n2 < 2 ^ 32 - 1 \<and> n3 < 2 ^ 32 - 1 \<and> n4 < 2 ^ 32 - 1 \<and> n5 < 2 ^ 32 - 1 \<and> n6 < 2 ^ 32 - 1"
  using assms unfolding vui_wf_def by simp_all

lemma parses_video:
  assumes "fmt < 8" "colour_wf col"
  shows "parses (do { skip_bits m 3; skip_bits m 1; colour \<leftarrow> flag m;
      whenM colour (do { skip_bits m 8; skip_bits m 8; skip_bits m 8 }) }) (ub 3 fmt @ [full] @ opt_bits colour_bits col) k () k"
  using assms by (intro parses_bind[OF parses_skip_bits] parses_bind[OF parses_skip_flag] parses_colour) simp_all

lemma parses_signal: "vui_wf v \<Longrightarrow> parses (vui_signal m) (signal_bits v) k () k"
  unfolding vui_signal_def signal_bits_def
  by (intro parses_group parses_last_group)
    (auto dest: vui_wfD(1,2) intro!: parses_skip_flag[unfolded One_nat_def] parses_video[unfolded One_nat_def append.simps]
      parses_bind[OF parses_skip_ue] parses_skip_ue)

lemma parses_restriction: "vui_wf v \<Longrightarrow> parses (vui_restriction m) (restriction_bits v) k () k"
  unfolding vui_restriction_def restriction_bits_def
  by (intro parses_last_group parsesI) (auto dest!: vui_wfD(7) intro!: gives_rules)

lemma parses_timing:
  assumes "vui_wf v" "m = A32 \<or> vs_timing v = None"
  shows "parses (vui_timing m) (timing_bits v) k () (k\<lparr>vui_param := timing_part v (vui_param k)\<rparr>)"
proof (cases "vs_timing v")
  case None
  then show ?thesis unfolding vui_timing_def timing_bits_def opt_bits_def timing_part_def
    by (intro parsesI) (auto intro!: gives_rules)
next
  case (Some x)
  then obtain u t fixed where x: "vs_timing v = Some (u, t, fixed)" by (cases x) auto
  have "u < 2 ^ 32" "t < 2 ^ 32" "m = A32" using assms x by (auto simp: vui_wf_def)
  then show ?thesis unfolding vui_timing_def timing_bits_def opt_bits_def timing_part_def x
    by (intro parsesI) (simp only: option.case prod.case append_assoc append.simps option.distinct not_False_eq_True Let_def,
      (rule gives_rules gives_flags(2) | simp)+)
qed

text \<open>The two groups of decoder parameters, with the flag already in the parameters.\<close>

lemma parses_nal:
  assumes "vui_wf v" "hrd_arrays (nal_hrd_parameters (vui_param k))"
  shows "parses (whenM (vs_nal v \<noteq> None) (do {
       p \<leftarrow> reads vui_param; h \<leftarrow> hrd_parameters m (nal_hrd_parameters p);
       set_vui (\<lambda>v. v\<lparr>nal_hrd_parameters := h\<rparr>) }))
     (case vs_nal v of None \<Rightarrow> [] | Some h \<Rightarrow> hrd_bits h)
     (k\<lparr>vui_param := (vui_param k)\<lparr>nal_hrd_parameters_present_flag := of_bool (vs_nal v \<noteq> None)\<rparr>\<rparr>) ()
     (k\<lparr>vui_param := nal_part v (vui_param k)\<rparr>)"
proof (cases "vs_nal v")
  case (Some x)
  have hrd: "gives (hrd_parameters m (nal_hrd_parameters (vui_param k))) (hrd_bits x @ q) k' Q"
    if "Q (hrd_of x (nal_hrd_parameters (vui_param k))) q k'" for q k' Q
    using gives_parses[OF parses_hrd[OF vui_wfD(5)[OF assms(1) Some] assms(2)]] that by blast
  show ?thesis unfolding Some nal_part_def
    by (intro parsesI) (auto intro!: gives_rules hrd)
qed (simp add: whenM_def parses_return nal_part_def)

lemma parses_vcl:
  assumes "vui_wf v" "hrd_arrays (vcl_hrd_parameters (vui_param k))"
  shows "parses (whenM (vs_vcl v \<noteq> None) (do {
       p \<leftarrow> reads vui_param; h \<leftarrow> hrd_parameters m (vcl_hrd_parameters p);
       set_vui (\<lambda>v. v\<lparr>vcl_hrd_parameters := h\<rparr>) }))
     (case vs_vcl v of None \<Rightarrow> [] | Some h \<Rightarrow> hrd_bits h)
     (k\<lparr>vui_param := (vui_param k)\<lparr>vcl_hrd_parameters_present_flag := of_bool (vs_vcl v \<noteq> None)\<rparr>\<rparr>) ()
     (k\<lparr>vui_param := vcl_part v (vui_param k)\<rparr>)"
proof (cases "vs_vcl v")
  case (Some x)
  have hrd: "gives (hrd_parameters m (vcl_hrd_parameters (vui_param k))) (hrd_bits x @ q) k' Q"
    if "Q (hrd_of x (vcl_hrd_parameters (vui_param k))) q k'" for q k' Q
    using gives_parses[OF parses_hrd[OF vui_wfD(6)[OF assms(1) Some] assms(2)]] that by blast
  show ?thesis unfolding Some vcl_part_def
    by (intro parsesI) (auto intro!: gives_rules hrd)
qed (simp add: whenM_def parses_return vcl_part_def)

lemma nal_part_vcl: "vcl_hrd_parameters (nal_part v p) = vcl_hrd_parameters p"
  by (simp add: nal_part_def Let_def split: option.split)

lemma parses_hrds:
  assumes "vui_wf v" "vui_arrays (vui_param k)"
  shows "parses (vui_hrd m) (hrds_bits v) k ()
    (k\<lparr>vui_param := pic_part v (vcl_part v (nal_part v (vui_param k)))\<rparr>)"
proof -
  let ?k = "k\<lparr>vui_param := nal_part v (vui_param k)\<rparr>"
  have nal: "hrd_arrays (nal_hrd_parameters (vui_param k))" and vcl: "hrd_arrays (vcl_hrd_parameters (vui_param ?k))"
    using assms(2) by (simp_all add: vui_arrays_def nal_part_vcl)
  have f: "((of_bool b :: byte) \<noteq> 0) = b" for b by simp
  note n = gives_parses[OF parses_nal[OF assms(1) nal, of m]]
    and c = gives_parses[OF parses_vcl[OF assms(1) vcl, of m]]
  have last: "gives (do { whenM (vs_nal v \<noteq> None \<or> vs_vcl v \<noteq> None) (do {
        low \<leftarrow> flag8 m; set_vui (\<lambda>v. v\<lparr>low_delay_hrd_flag := low\<rparr>) });
      pic \<leftarrow> flag8 m; set_vui (\<lambda>v. v\<lparr>pic_struct_present_flag := pic\<rparr>) })
      ((if vs_nal v \<noteq> None \<or> vs_vcl v \<noteq> None then [vs_low_delay v] else []) @ vs_pic_struct v # q) k' Q"
    if "Q () q (k'\<lparr>vui_param := pic_part v (vui_param k')\<rparr>)" for q k' Q
    using that by (cases "vs_nal v \<noteq> None \<or> vs_vcl v \<noteq> None") (auto simp: pic_part_def intro!: gives_rules)
  show ?thesis unfolding vui_hrd_def hrds_bits_def opt_bits_def
    by (rule parsesI, simp only: append_assoc append.simps,
      rule gives_bind, rule gives_flags(2), rule gives_bind, rule gives_state(1), rule gives_bind,
      simp only: f, rule n,
      rule gives_bind, rule gives_flags(2), rule gives_bind, rule gives_state(1), rule gives_bind,
      simp only: f, rule c, rule last, simp)
qed

lemma vui_arrays_parts [simp]: "vui_arrays (aspect_part v p) = vui_arrays p" "vui_arrays (timing_part v p) = vui_arrays p"
  by (simp_all add: aspect_part_def timing_part_def vui_arrays_def Let_def split: option.split prod.split)

text \<open>The parser reads what the writer has written.\<close>

lemma parses_vui:
  assumes "vui_wf v" "vui_arrays (vui_param k)" "m = A32 \<or> vs_timing v = None"
  shows "parses (parse_vui m False) (vui_bits v) k () (k\<lparr>vui_param := vui_of v (vui_param k)\<rparr>)"
proof -
  let ?k = "k\<lparr>vui_param := aspect_part v (vui_param k)\<rparr>"
  let ?k' = "?k\<lparr>vui_param := timing_part v (vui_param ?k)\<rparr>"
  have arr: "vui_arrays (vui_param ?k')" using assms(2) by simp
  have aspect: "parses (whenM (vs_aspect v \<noteq> None) (aspect_ratio_info_parse m))
      (case vs_aspect v of None \<Rightarrow> [] | Some a \<Rightarrow> aspect_bits a)
      (k\<lparr>vui_param := (vui_param k)\<lparr>aspect_ratio_info_present_flag := of_bool (vs_aspect v \<noteq> None)\<rparr>\<rparr>) () ?k"
  proof (cases "vs_aspect v")
    case (Some a)
    obtain idc w h where a: "a = (idc, w, h)" by (cases a)
    show ?thesis using parses_aspect[of idc w h m "k\<lparr>vui_param := (vui_param k)\<lparr>aspect_ratio_info_present_flag := 1\<rparr>\<rparr>"]
        vui_wfD(3)[OF assms(1), of idc w h]
      by (simp add: Some a whenM_def aspect_part_def)
  qed (simp add: whenM_def parses_return aspect_part_def)
  have f: "((of_bool b :: byte) \<noteq> 0) = b" for b by simp
  note a = gives_parses[OF aspect] and s = gives_parses[OF parses_signal[OF assms(1)]]
    and t = gives_parses[OF parses_timing[OF assms(1,3)]]
    and h = gives_parses[OF parses_hrds[OF assms(1) arr]]
    and r = gives_parses[OF parses_restriction[OF assms(1)]]
  show ?thesis unfolding parse_vui_def vui_bits_def opt_bits_def
    by (rule parsesI, simp only: append_assoc append.simps,
      rule gives_bind, rule gives_whenM, simp,
      rule gives_bind, rule gives_more, simp, rule gives_whenM,
      rule gives_bind, rule gives_flags(2), rule gives_bind, rule gives_state(1), rule gives_bind,
      simp only: f, rule a, rule gives_bind, rule s, rule gives_bind, rule t, rule gives_bind, rule h, rule r,
      simp_all add: vui_of_def)
qed

end
