(* ===== verification/H264Sps.thy ===== *)
theory H264Sps
  imports H264Vui
begin

text \<open>
  Sequence parameter sets as a writer writes them (7.3.2.1.1), that the parser reads them back,
  and the whole way from the bytes of a NAL unit.
\<close>

section \<open>The writer\<close>

text \<open>
  A scaling list is the differences the syntax has (7.3.2.1.1.1): one for each of the \<open>n\<close>
  elements until the scale becomes 0.
\<close>

fun scaling_wf :: "nat \<Rightarrow> int \<Rightarrow> int \<Rightarrow> int list \<Rightarrow> bool" where
  "scaling_wf 0 prv nxt ds \<longleftrightarrow> ds = []"
| "scaling_wf (Suc n) prv nxt ds \<longleftrightarrow>
     (if nxt = 0 then scaling_wf n prv nxt ds
      else case ds of
          [] \<Rightarrow> False
        | d # ds \<Rightarrow> - 128 \<le> d \<and> d \<le> 127 \<and>
            (let nxt = (prv + d + 256) mod 256 in scaling_wf n (if nxt = 0 then prv else nxt) nxt ds))"

record chroma_syntax =
  cs_format :: nat
  cs_separate :: bool
  cs_luma_depth :: nat
  cs_chroma_depth :: nat
  cs_bypass :: bool
  cs_scaling :: "int list option list option"

datatype order_syntax =
    Order0 nat
  | Order1 bool int int "int list"
  | Order2

text \<open>\<open>ss_mbaff\<close> is None for a sequence of frames only; then there is no such flag.\<close>

record sps_syntax =
  ss_profile :: nat
  ss_constraints :: nat
  ss_level :: nat
  ss_id :: nat
  ss_chroma :: chroma_syntax
  ss_max_frame_num :: nat
  ss_order :: order_syntax
  ss_ref_frames :: nat
  ss_gaps :: bool
  ss_width :: nat
  ss_height :: nat
  ss_mbaff :: "bool option"
  ss_direct :: bool
  ss_cropping :: "(nat \<times> nat \<times> nat \<times> nat) option"
  ss_vui :: "vui_syntax option"

definition scaling_bits :: "int list option list \<Rightarrow> bool list" where
  "scaling_bits ls = concat (map (opt_bits (\<lambda>ds. concat (map se_code ds))) ls)"

definition chroma_bits :: "chroma_syntax \<Rightarrow> bool list" where
  "chroma_bits c = ue_code (cs_format c) @ (if cs_format c = 3 then [cs_separate c] else []) @
     ue_code (cs_luma_depth c) @ ue_code (cs_chroma_depth c) @ [cs_bypass c] @
     opt_bits scaling_bits (cs_scaling c)"

fun order_bits :: "order_syntax \<Rightarrow> bool list" where
  "order_bits (Order0 lsb) = ue_code 0 @ ue_code lsb"
| "order_bits (Order1 z a b rs) = ue_code 1 @ [z] @ se_code a @ se_code b @ ue_code (length rs) @ concat (map se_code rs)"
| "order_bits Order2 = ue_code 2"

definition geometry_bits :: "sps_syntax \<Rightarrow> bool list" where
  "geometry_bits x = ue_code (ss_ref_frames x) @ [ss_gaps x] @ ue_code (ss_width x) @ ue_code (ss_height x) @
     [ss_mbaff x = None] @ (case ss_mbaff x of None \<Rightarrow> [] | Some b \<Rightarrow> [b]) @ [ss_direct x] @
     opt_bits (\<lambda>(l, r, t, b). ue_code l @ ue_code r @ ue_code t @ ue_code b) (ss_cropping x)"

definition sps_bits :: "sps_syntax \<Rightarrow> bool list" where
  "sps_bits x = ub 8 (ss_profile x) @ ub 8 (ss_constraints x) @ ub 8 (ss_level x) @ ue_code (ss_id x) @
     (if has_chroma_info (of_nat (ss_profile x)) then chroma_bits (ss_chroma x) else []) @
     ue_code (ss_max_frame_num x) @ order_bits (ss_order x) @ geometry_bits x @ opt_bits vui_bits (ss_vui x)"

text \<open>The values the syntax has room for; 8 or, for the chroma format 3, 12 scaling lists.\<close>

definition chroma_wf :: "chroma_syntax \<Rightarrow> bool" where
  "chroma_wf c \<longleftrightarrow> cs_format c \<le> 3 \<and> cs_luma_depth c < 2 ^ 32 - 1 \<and> cs_chroma_depth c < 2 ^ 32 - 1 \<and>
     (case cs_scaling c of None \<Rightarrow> True
      | Some ls \<Rightarrow> length ls = (if cs_format c = 3 then 12 else 8) \<and>
          (\<forall>i < length ls. case ls ! i of None \<Rightarrow> True | Some ds \<Rightarrow> scaling_wf (if i < 6 then 16 else 64) 8 8 ds))"

fun order_wf :: "order_syntax \<Rightarrow> bool" where
  "order_wf (Order0 lsb) \<longleftrightarrow> lsb < 2 ^ 32 - 1"
| "order_wf (Order1 z a b rs) \<longleftrightarrow> \<bar>a\<bar> < 2 ^ 31 \<and> \<bar>b\<bar> < 2 ^ 31 \<and> length rs < 256 \<and> (\<forall>r \<in> set rs. \<bar>r\<bar> < 2 ^ 31)"
| "order_wf Order2 \<longleftrightarrow> True"

definition sps_wf :: "sps_syntax \<Rightarrow> bool" where
  "sps_wf x \<longleftrightarrow> ss_profile x < 256 \<and> ss_constraints x < 256 \<and> ss_level x < 256 \<and> ss_id x < 2 ^ 32 - 1 \<and>
     chroma_wf (ss_chroma x) \<and> ss_max_frame_num x < 2 ^ 32 - 1 \<and> order_wf (ss_order x) \<and>
     ss_ref_frames x < 2 ^ 32 - 1 \<and> ss_width x < 2 ^ 32 - 1 \<and> ss_height x < 2 ^ 32 - 1 \<and>
     (case ss_cropping x of None \<Rightarrow> True
      | Some (l, r, t, b) \<Rightarrow> l < 2 ^ 32 - 1 \<and> r < 2 ^ 32 - 1 \<and> t < 2 ^ 32 - 1 \<and> b < 2 ^ 32 - 1) \<and>
     (case ss_vui x of None \<Rightarrow> True | Some v \<Rightarrow> vui_wf v)"

text \<open>What the code reads as the syntax has it: it always expects 12 scaling lists.\<close>

definition scaling_as_read :: "sps_syntax \<Rightarrow> bool" where
  "scaling_as_read x \<longleftrightarrow> has_chroma_info (of_nat (ss_profile x)) \<longrightarrow>
     cs_scaling (ss_chroma x) = None \<or> cs_format (ss_chroma x) = 3"

text \<open>What is parsed: members of groups that are absent keep their values.\<close>

definition sps_of :: "sps_syntax \<Rightarrow> h264_parser \<Rightarrow> h264_parser" where
  "sps_of x k = k\<lparr>profile := of_nat (ss_profile x),
     mbaff_flag := (case ss_mbaff x of None \<Rightarrow> mbaff_flag k | Some b \<Rightarrow> b),
     vui_param := (case ss_vui x of None \<Rightarrow> vui_param k | Some v \<Rightarrow> vui_of v (vui_param k))\<rparr>"

section \<open>The parts\<close>

lemma scaling_step:
  assumes "0 < prv" "prv < 256" "- 128 \<le> d" "d \<le> 127"
  shows "sint (word_of_int (prv + d + 256) :: u32) smod 256 = (prv + d + 256) mod 256"
proof -
  define x where "x = prv + d + 256"
  have x: "0 < x" "x < 1000" using assms by (simp_all add: x_def)
  then have "sint (word_of_int x :: u32) = x" by (simp add: signed_of_int signed_take_bit_int_eq_self)
  then show ?thesis using x by (simp add: signed_modulo_int_def sgn_if flip: x_def)
qed

lemma parses_scaling:
  "scaling_wf n prv nxt ds \<Longrightarrow> 0 < prv \<Longrightarrow> prv < 256 \<Longrightarrow>
   parses (scaling_loop m n prv nxt) (concat (map se_code ds)) k () k"
proof (induction n prv nxt ds rule: scaling_wf.induct)
  case (1 prv nxt ds)
  then show ?case by (simp add: parses_return)
next
  case (2 n prv nxt ds)
  show ?case
  proof (cases "nxt = 0")
    case True
    have "parses (scaling_loop m n prv nxt) (concat (map se_code ds)) k () k" using 2 True by auto
    note loop = gives_parses[OF this[unfolded True]]
    show ?thesis using True by (intro parsesI) (auto intro!: gives_rules loop)
  next
    case False
    then obtain d ds' where ds: "ds = d # ds'" "- 128 \<le> d" "d \<le> 127" using 2(3) by (cases ds) auto
    define nx where "nx = (prv + d + 256) mod 256"
    have "parses (scaling_loop m n (if nx = 0 then prv else nx) nx) (concat (map se_code ds')) k () k"
    proof (rule 2(2)[OF False ds(1) nx_def])
      show "scaling_wf n (if nx = 0 then prv else nx) nx ds'"
        using 2(3) False ds(1) by (simp only: scaling_wf.simps if_False list.case Let_def flip: nx_def)
    qed (use 2(4,5) in \<open>auto simp: nx_def intro: order_neq_le_trans\<close>)
    note loop = gives_parses[OF this]
    have step: "sint (word_of_int (prv + d + 256) :: u32) smod 256 = nx"
      unfolding nx_def using 2(4,5) ds by (intro scaling_step)
    have d: "\<bar>d\<bar> < 2 ^ 31" using ds by simp
    show ?thesis unfolding ds(1) scaling_loop.simps list.map concat.simps
      by (rule parsesI, simp only: append_assoc, rule gives_bind, rule gives_if, rule gives_bind,
        rule gives_numbers(2)[OF d], rule gives_return)
        (simp_all only: step False not_True_eq_False not_False_eq_True, rule loop, simp)
  qed
qed

lemma opt_bits_not_Nil [simp]: "opt_bits f x \<noteq> []"
  by (simp add: opt_bits_def)

lemma parses_scaling_lists:
  assumes "\<forall>j < length ls. case ls ! j of None \<Rightarrow> True | Some ds \<Rightarrow> scaling_wf (if i + j < 6 then 16 else 64) 8 8 ds"
  shows "parses (scaling_lists m (length ls) i) (scaling_bits ls) k () k"
  using assms
proof (induction ls arbitrary: i)
  case Nil
  then show ?case by (simp add: scaling_bits_def parses_return)
next
  case (Cons x ls)
  have "parses (scaling_lists m (length ls) (i + 1)) (scaling_bits ls) k () k"
  proof (intro Cons.IH allI impI)
    fix j assume "j < length ls"
    then show "case ls ! j of None \<Rightarrow> True | Some ds \<Rightarrow> scaling_wf (if i + 1 + j < 6 then 16 else 64) 8 8 ds"
      using Cons.prems[rule_format, of "Suc j"] by (cases "ls ! j") auto
  qed
  note loop = gives_parses[OF this, simplified]
  have x: "gives (scaling_list m n) (concat (map se_code ds) @ q) k' Q"
    if "x = Some ds" "n = (if i < 6 then 16 else 64)" "Q () q k'" for ds q k' Q n
    unfolding scaling_list_def using Cons.prems that by (intro gives_parses[OF parses_scaling]) force+
  have "scaling_bits (x # ls) = [x \<noteq> None] @ (case x of None \<Rightarrow> [] | Some ds \<Rightarrow> concat (map se_code ds)) @ scaling_bits ls"
    by (simp add: scaling_bits_def opt_bits_def)
  then show ?case
    by (intro parsesI) (auto split: option.split intro!: gives_rules loop x simp del: if_split)
qed

lemma parses_chroma:
  assumes "chroma_wf c" "cs_scaling c = None \<or> cs_format c = 3"
  shows "parses (sps_chroma m) (chroma_bits c) k () k"
proof -
  have fmt: "((of_nat (cs_format c) :: u32) = 3) = (cs_format c = 3)" "cs_format c < 2 ^ 32 - 1"
    using assms(1) by (auto simp: chroma_wf_def word_unat_eq_iff unat_of_nat)
  have "parses (do { matrix \<leftarrow> flag m; whenM matrix (scaling_lists m 12 0) }) (opt_bits scaling_bits (cs_scaling c)) k () k"
  proof (rule parses_last_group)
    fix ls assume ls: "cs_scaling c = Some ls"
    then have "length ls = 12" using assms by (auto simp: chroma_wf_def)
    then show "parses (scaling_lists m 12 0) (scaling_bits ls) k () k"
      using parses_scaling_lists[of ls 0 m k, unfolded add_0] assms(1) ls by (simp add: chroma_wf_def)
  qed simp
  note matrix = gives_parses[OF this]
  have depth: "cs_luma_depth c < 2 ^ 32 - 1" "cs_chroma_depth c < 2 ^ 32 - 1"
    using assms(1) by (simp_all add: chroma_wf_def)
  have separate: "gives (whenM (cs_format c = 3) (skip_bits m 1)) ((if cs_format c = 3 then [cs_separate c] else []) @ q) k Q"
    if "Q () q k" for q Q
    using that by (cases "cs_format c = 3") (auto intro!: gives_rules)
  show ?thesis unfolding sps_chroma_def chroma_bits_def
    by (rule parsesI, simp only: append_assoc append.simps,
      rule gives_bind, rule gives_numbers(1)[OF fmt(2)], simp only: fmt(1), rule gives_bind, rule separate,
      rule gives_bind, rule gives_numbers(3)[OF depth(1)], rule gives_bind, rule gives_numbers(3)[OF depth(2)],
      rule gives_bind, rule gives_flags(4), rule matrix, simp)
qed

lemma parses_repeat: "\<forall>r \<in> set rs. \<bar>r\<bar> < 2 ^ 31 \<Longrightarrow>
    parses (repeatM (length rs) (skip_se m)) (concat (map se_code rs)) k () k"
proof (induction rs)
  case Nil
  then show ?case by (simp add: parses_return)
next
  case (Cons r rs)
  then show ?case by (auto intro!: parses_bind[OF parses_skip_se])
qed

lemma parses_order:
  assumes "order_wf x" "n < 2 ^ 32 - 1"
  shows "parses (sps_order_count m) (ue_code n @ order_bits x) k () k"
proof (cases x)
  case (Order0 lsb)
  then show ?thesis unfolding sps_order_count_def using assms
    by (intro parsesI) (auto intro!: gives_rules)
next
  case (Order1 z a b rs)
  have "unat (of_nat (length rs) :: u32) = length rs" using assms(1) Order1 by (simp add: unat_of_nat)
  moreover have "parses (repeatM (length rs) (skip_se m)) (concat (map se_code rs)) k () k"
    using assms(1) Order1 by (intro parses_repeat) simp
  note loop = gives_parses[OF this]
  ultimately show ?thesis unfolding sps_order_count_def using assms Order1
    by (intro parsesI) (auto intro!: gives_rules loop)
next
  case Order2
  have "gives (uev m) (ue_code 2 @ q) k' Q" if "Q 2 q k'" for q k' Q
    using gives_parses[OF parses_ue[of 2 m k'], of Q q] that by simp
  with Order2 show ?thesis unfolding sps_order_count_def using assms
    by (intro parsesI) (auto intro!: gives_rules)
qed

lemma parses_geometry:
  assumes "sps_wf x"
  shows "parses (sps_geometry m) (geometry_bits x) k ()
    (k\<lparr>mbaff_flag := (case ss_mbaff x of None \<Rightarrow> mbaff_flag k | Some b \<Rightarrow> b)\<rparr>)"
proof -
  let ?k = "k\<lparr>mbaff_flag := (case ss_mbaff x of None \<Rightarrow> mbaff_flag k | Some b \<Rightarrow> b)\<rparr>"
  have wf: "ss_ref_frames x < 2 ^ 32 - 1" "ss_width x < 2 ^ 32 - 1" "ss_height x < 2 ^ 32 - 1"
    using assms by (simp_all add: sps_wf_def)
  have "parses (do { cropping \<leftarrow> flag m; whenM cropping (do { skip_ue m; skip_ue m; skip_ue m; skip_ue m }) })
      (opt_bits (\<lambda>(l, r, t, b). ue_code l @ ue_code r @ ue_code t @ ue_code b) (ss_cropping x)) ?k () ?k"
    using assms unfolding sps_wf_def
    by (intro parses_last_group) (auto intro!: parses_bind[OF parses_skip_ue] parses_skip_ue)
  note crop = gives_parses[OF this]
  have mbaff: "gives (whenM (\<not> (ss_mbaff x = None)) (do { b \<leftarrow> flag m; upd (\<lambda>s. s\<lparr>mbaff_flag := b\<rparr>) }))
      ((case ss_mbaff x of None \<Rightarrow> [] | Some b \<Rightarrow> [b]) @ q) k Q" if "Q () q ?k" for q Q
    using that by (cases "ss_mbaff x") (auto intro!: gives_rules)
  show ?thesis unfolding sps_geometry_def geometry_bits_def
    by (rule parsesI, simp only: append_assoc append.simps,
      rule gives_bind, rule gives_numbers(3)[OF wf(1)], rule gives_bind, rule gives_flags(4),
      rule gives_bind, rule gives_numbers(3)[OF wf(2)], rule gives_bind, rule gives_numbers(3)[OF wf(3)],
      rule gives_bind, rule gives_flags(1), rule gives_bind, rule mbaff, rule gives_bind, rule gives_flags(4),
      rule crop, simp)
qed

text \<open>The parser reads what the writer has written, but for the number of scaling lists.\<close>

lemma parses_sps:
  assumes "sps_wf x" "scaling_as_read x" "vui_arrays (vui_param k)"
    "m = A32 \<or> (\<forall>v. ss_vui x = Some v \<longrightarrow> vs_timing v = None)"
  shows "parses (parse_sps m) (sps_bits x) k () (sps_of x k)"
proof -
  let ?p = "of_nat (ss_profile x) :: u32"
  let ?k = "k\<lparr>profile := ?p\<rparr>"
  let ?k' = "?k\<lparr>mbaff_flag := (case ss_mbaff x of None \<Rightarrow> mbaff_flag k | Some b \<Rightarrow> b)\<rparr>"
  have flag: "mbaff_flag ?k = mbaff_flag k" by simp
  have wf: "ss_profile x < 2 ^ 8" "ss_constraints x < 2 ^ 8" "ss_level x < 2 ^ 8" "ss_id x < 2 ^ 32 - 1"
    "order_wf (ss_order x)" "ss_max_frame_num x < 2 ^ 32 - 1"
    using assms(1) by (simp_all add: sps_wf_def)
  have "parses (whenM (has_chroma_info ?p) (sps_chroma m)) (if has_chroma_info ?p then chroma_bits (ss_chroma x) else []) ?k () ?k"
    using parses_chroma[of "ss_chroma x" m ?k] assms(1,2)
    by (intro parses_whenM) (auto simp: sps_wf_def scaling_as_read_def)
  note chroma = gives_parses[OF this]
  note order = gives_parses[OF parses_order[OF wf(5,6), of m ?k], unfolded append_assoc]
    and geometry = gives_parses[OF parses_geometry[OF assms(1), of m ?k], unfolded flag]
  have "parses (do { vui \<leftarrow> flag m; whenM vui (parse_vui m False) }) (opt_bits vui_bits (ss_vui x)) ?k' () (sps_of x k)"
  proof (rule parses_last_group)
    fix v assume v: "ss_vui x = Some v"
    then show "parses (parse_vui m False) (vui_bits v) ?k' () (sps_of x k)"
      using parses_vui[of v ?k' m] assms by (auto simp: sps_wf_def sps_of_def)
  qed (simp add: sps_of_def)
  note vui = gives_parses[OF this]
  show ?thesis unfolding parse_sps_def sps_bits_def
    by (rule parsesI, simp only: append_assoc,
      rule gives_bind, rule gives_bits[OF _ _ wf(1)], simp, simp, rule gives_bind, rule gives_state(3),
      rule gives_bind, rule gives_skip_bits[OF _ _ wf(2)], simp, simp,
      rule gives_bind, rule gives_skip_bits[OF _ _ wf(3)], simp, simp,
      rule gives_bind, rule gives_numbers(3)[OF wf(4)],
      rule gives_bind, rule chroma, rule gives_bind, rule order, rule gives_bind, rule geometry, rule vui, simp)
qed

end
