(* ===== verification/H264Nal.thy ===== *)
theory H264Nal
  imports H264Sps
begin

unbundle bit_operations_syntax

text \<open>
  NAL units: the search for the start code, and sequence parameter sets from their bytes.
\<close>

section \<open>Start codes and headers\<close>

lemma wob_bytes: "wob (bits_of a @ bits_of b @ bits_of c) = (push_bit 16 (ucast a) OR push_bit 8 (ucast b) OR ucast c :: u32)"
  by (simp add: wob_append wob_bits_of push_bit_or or.assoc)

lemma bits_of_parts: "bits_of h = [bit h 7] @ [bit h 6, bit h 5] @ [bit h 4, bit h 3, bit h 2, bit h 1, bit h 0]"
  by (simp add: bits_of_def upt_rec numeral_eq_Suc)

lemma wob_type: "wob [bit h 4, bit h 3, bit h 2, bit h 1, bit h 0] = (ucast (h AND 31 :: byte) :: u32)"
proof (rule bit_word_eqI)
  fix i assume "i < LENGTH(32)"
  have "bit (31 :: byte) i \<longleftrightarrow> i < 5" using bit_mask_iff[of 5 i, where 'a = byte] by (auto simp: mask_numeral)
  then show "bit (wob [bit h 4, bit h 3, bit h 2, bit h 1, bit h 0] :: u32) i = bit (ucast (h AND 31 :: byte) :: u32) i"
    by (cases "i < 5") (auto simp: bit_wob bit_ucast_iff bit_and_iff less_Suc_eq numeral_eq_Suc)
qed

text \<open>A start code of three or four bytes and a header are read as such.\<close>

lemma nal_header_read:
  assumes "reader_holds s (bytes_bits (replicate z 0 @ [1, h]) @ q)" "z = 2 \<or> z = 3"
  shows "\<exists>s'. run_state (get_nal_unit_type m) s = ((of_nat z + 2, ucast (h AND 31)), s') \<and> reader_holds s' q \<and>
    h264_reader.more s' = h264_reader.more s \<and> emulation_sc_enabled s' = emulation_sc_enabled s"
proof -
  let ?b3 = "if z = 2 then 1 else 0 :: byte"
  have code: "\<exists>s1. getbits m 24 s = (ucast ?b3, s1) \<and>
      reader_holds s1 ((if z = 2 then [] else bits_of 1) @ bits_of h @ q)"
    using getbits_read[of s "bits_of 0 @ bits_of 0 @ bits_of ?b3" "(if z = 2 then [] else bits_of 1) @ bits_of h @ q" m] assms
    unfolding wob_bytes by (auto simp: numeral_eq_Suc)
  then obtain s1 where s1: "getbits m 24 s = (ucast ?b3, s1)"
      "reader_holds s1 ((if z = 2 then [] else bits_of 1) @ bits_of h @ q)" by blast
  have "\<exists>s2. find_start_code m (ucast ?b3) 3 s1 = ((1, of_nat z + 1), s2) \<and> reader_holds s2 (bits_of h @ q) \<and>
      h264_reader.more s2 = h264_reader.more s1 \<and> emulation_sc_enabled s2 = emulation_sc_enabled s1"
  proof (cases "z = 2")
    case True
    then show ?thesis using s1(2) by (simp add: find_start_code.simps)
  next
    case False
    then obtain s2 where s2: "getbits m 8 s1 = (1, s2)" "reader_holds s2 (bits_of h @ q)"
      using getbits_read[of s1 "bits_of 1" "bits_of h @ q" m] s1(2) by (auto simp: wob_bits_of)
    have "bits_of 1 @ bits_of h @ q \<noteq> []" by (simp add: bits_of_def)
    then have "more_bits s1" using more_bits_holds s1(2) False by auto
    then have "find_start_code m 0 3 s1 = ((1, 4), s2)"
      using s2(1) by (simp add: find_start_code.simps[of m 0] find_start_code.simps[of m 1])
    then show ?thesis using s2(2) False assms(2) getbits_frame[OF s2(1)] by auto
  qed
  then obtain s2 where s2: "find_start_code m (ucast ?b3) 3 s1 = ((1, of_nat z + 1), s2)" "reader_holds s2 (bits_of h @ q)"
    "h264_reader.more s2 = h264_reader.more s1" "emulation_sc_enabled s2 = emulation_sc_enabled s1" by blast
  obtain s3 where s3: "getbits m 1 s2 = (wob [bit h 7], s3)"
    "reader_holds s3 ([bit h 6, bit h 5] @ [bit h 4, bit h 3, bit h 2, bit h 1, bit h 0] @ q)"
    using getbits_read[of s2 "[bit h 7]" _ m] s2(2) unfolding bits_of_parts by auto
  obtain s4 where s4: "getbits m 2 s3 = (wob [bit h 6, bit h 5], s4)"
    "reader_holds s4 ([bit h 4, bit h 3, bit h 2, bit h 1, bit h 0] @ q)"
    using getbits_read[OF s3(2), of m] by (auto simp: numeral_2_eq_2)
  obtain s5 where s5: "getbits m 5 s4 = (ucast (h AND 31), s5)" "reader_holds s5 q"
    using getbits_read[OF s4(2), of m] unfolding wob_type by (auto simp: numeral_eq_Suc)
  show ?thesis
    using s1(1) s2 s3(1) s4(1) s5 getbits_frame[OF s1(1)] getbits_frame[OF s3(1)] getbits_frame[OF s4(1)]
      getbits_frame[OF s5(1)]
    by (auto simp: get_nal_unit_type_def)
qed

text \<open>The bytes of a NAL unit with their emulation prevention.\<close>

definition nal_bytes :: "nat \<Rightarrow> byte \<Rightarrow> byte list \<Rightarrow> byte list" where
  "nal_bytes z h payload = replicate z 0 @ [1, h] @ escape 0 payload"

lemma unescape_header:
  assumes "h AND 31 \<noteq> 0" "h AND 31 \<noteq> 3" "z = 2 \<or> z = 3"
  shows "unescape 0 (nal_bytes z h payload) = replicate z 0 @ [1, h] @ payload"
proof -
  have "h \<noteq> 0" "h \<noteq> 3" using assms(1,2) by auto
  moreover have "replicate 2 (0 :: byte) = [0, 0]" "replicate 3 (0 :: byte) = [0, 0, 0]"
    by (simp_all add: numeral_eq_Suc)
  ultimately show ?thesis using assms(3) by (auto simp: nal_bytes_def unescape_escape)
qed

lemma init_holds:
  assumes "length data < 2 ^ 32" "\<not> overrun s"
  shows "reader_holds ((init_bitstream data (of_nat (length data)) s)\<lparr>emulation_sc_enabled := True\<rparr>)
    (bytes_bits (unescape 0 data))"
  using assms by (auto simp: reader_holds_def in_buffer_def rest_bytes_def init_bitstream_def unat_of_nat)

section \<open>Sequence parameter sets\<close>

lemma nal_sps_read:
  assumes "h AND 31 = 7" "z = 2 \<or> z = 3" "bytes_bits payload = sps_bits x @ trail"
    "sps_wf x" "scaling_as_read x" "vui_arrays (vui_param s)"
    "m = A32 \<or> (\<forall>v. ss_vui x = Some v \<longrightarrow> vs_timing v = None)"
    "length (nal_bytes z h payload) < 2 ^ 32" "\<not> overrun s" "panscan_hdl s = Some ps"
  shows "\<exists>s'. parse_nal m (nal_bytes z h payload) (of_nat (length (nal_bytes z h payload))) NALU_TYPE_SPS True s = Some s' \<and>
    params s' = sps_of x ((params s)\<lparr>emulation_sc_enabled := True\<rparr>)\<lparr>panscan_hdl := Some (snd (get_free ps))\<rparr> \<and>
    \<not> overrun s'"
proof -
  let ?d = "nal_bytes z h payload"
  let ?s = "(init_bitstream ?d (of_nat (length ?d)) s)\<lparr>emulation_sc_enabled := True\<rparr>"
  have "reader_holds ?s (bytes_bits (replicate z 0 @ [1, h]) @ sps_bits x @ trail)"
    using init_holds[OF assms(8,9)] unescape_header[of h z payload] assms(1,2,3) by simp
  from nal_header_read[OF this assms(2), of m] obtain s1 where
    a: "run_state (get_nal_unit_type m) ?s = ((of_nat z + 2, ucast (h AND 31)), s1)" "reader_holds s1 (sps_bits x @ trail)"
      "h264_reader.more s1 = h264_reader.more ?s" "emulation_sc_enabled s1 = emulation_sc_enabled ?s" by blast
  from a have s1: "run_state (get_nal_unit_type m) ?s = ((of_nat z + 2, 7), s1)" "reader_holds s1 (sps_bits x @ trail)"
    "params s1 = params ?s" using params_frame[OF a(3,4)] assms(1) by simp_all
  have p: "params ?s = (params s)\<lparr>emulation_sc_enabled := True\<rparr>" by (simp add: params_def init_bitstream_def)
  have "parses (parse_sps m) (sps_bits x) (params s1) () (sps_of x (params s1))"
    using assms(4-7) s1(3) p by (intro parses_sps) auto
  then obtain s2 where s2: "run_state (parse_sps m) s1 = ((), s2)" "reader_holds s2 trail" "params s2 = sps_of x (params s1)"
    using s1(2) unfolding parses_def by blast
  have more: "more_bits s1"
    using more_bits_holds[OF s1(2)] by (auto simp: sps_bits_def ub_def)
  have "panscan_hdl (params s2) = Some ps" using s2(3) s1(3) p assms(10) by (simp add: sps_of_def)
  then have ps: "panscan_hdl s2 = Some ps" by simp
  define s3 where "s3 = s2\<lparr>panscan_hdl := Some (snd (get_free ps))\<rparr>"
  have run: "parse_nal m ?d (of_nat (length ?d)) NALU_TYPE_SPS True s = Some s3"
  proof -
    have "unat (of_nat (length ?d) :: u32) = length ?d" using assms(8) by (simp only: unat_of_nat) simp
    moreover have "length ?d \<noteq> 0" by (simp add: nal_bytes_def)
    ultimately have "(of_nat (length ?d) :: u32) \<noteq> 0" by (metis unat_0)
    then show ?thesis using s1(1) s2(1) more ps
      by (simp add: parse_nal_def nal_switch_def hdl_get_free_def s3_def split_beta Let_def)
  qed
  have "params s3 = (params s2)\<lparr>panscan_hdl := Some (snd (get_free ps))\<rparr>" by (simp add: s3_def params_def)
  moreover have "\<not> overrun s3" using s2(2) by (simp add: s3_def reader_holds_def in_buffer_def)
  ultimately show ?thesis using run s2(3) s1(3) p by simp
qed

end
