(* ===== verification/H264Safe.thy ===== *)
theory H264Safe
  imports H264Nal
begin

unbundle bit_operations_syntax

text \<open>
  Whatever the bytes are, the parser stays within the buffer and the arrays, the arrays keep
  their sizes, and it returns.
\<close>

section \<open>What every parser keeps\<close>

text \<open>The arrays of the parser have the sizes they are declared with, \<open>MAX_CPB_COUNT\<close>.\<close>

definition bp_arrays :: "buf_period \<Rightarrow> bool" where
  "bp_arrays b \<longleftrightarrow> length (initial_cpb_removal_delay b) = 32 \<and> length (initial_cpb_removal_delay_offset b) = 32"

definition arrays_ok :: "h264_parser \<Rightarrow> bool" where
  "arrays_ok s \<longleftrightarrow> vui_arrays (vui_param s) \<and> bp_arrays (sei_buf_period s)"

text \<open>
  \<open>usable N s\<close>: the reader is within its buffer of at most \<open>N\<close> bytes, of which it has skipped
  no more than it has passed, and there is a pan scan handler.
\<close>

definition usable :: "nat \<Rightarrow> h264_parser \<Rightarrow> bool" where
  "usable N s \<longleftrightarrow> in_buffer s \<and> emulation_code_skip_cntr s + bitstream_bytes s \<le> N \<and> panscan_hdl s \<noteq> None \<and>
     arrays_ok s"

definition keeps :: "'a parser \<Rightarrow> bool" where
  "keeps p \<longleftrightarrow> (\<forall>N s. usable N s \<longrightarrow> usable N (snd (run_state p s)))"

named_theorems keeps_rules \<open>parsers that stay within the buffer\<close>

lemma keeps_bind [keeps_rules]: "keeps p \<Longrightarrow> (\<And>v. keeps (f v)) \<Longrightarrow> keeps (State_Monad.bind p f)"
  by (simp add: keeps_def split_beta)

lemma keeps_return [keeps_rules]: "keeps (State_Monad.return v)"
  by (simp add: keeps_def)

lemma keeps_reads [keeps_rules]: "keeps (reads f)"
  by (simp add: keeps_def)

lemma keeps_whenM [keeps_rules]: "(b \<Longrightarrow> keeps p) \<Longrightarrow> keeps (whenM b p)"
  by (simp add: whenM_def keeps_return)

lemma keeps_if [keeps_rules]: "(b \<Longrightarrow> keeps p) \<Longrightarrow> (\<not> b \<Longrightarrow> keeps q) \<Longrightarrow> keeps (if b then p else q)"
  by simp

lemma keeps_Let [keeps_rules]: "keeps (f x) \<Longrightarrow> keeps (Let x f)"
  by simp

lemma keeps_check [keeps_rules]: "b \<Longrightarrow> keeps (check b)"
  by (simp add: keeps_def check_def)

lemma keeps_upd:
  "(\<And>s. curr_32_bit (f s) = curr_32_bit s \<and> bits_read (f s) = bits_read s \<and> bitstream (f s) = bitstream s \<and>
     bitstream_bytes (f s) = bitstream_bytes s \<and> overrun (f s) = overrun s \<and>
     emulation_code_skip_cntr (f s) = emulation_code_skip_cntr s \<and> (panscan_hdl s \<noteq> None \<longrightarrow> panscan_hdl (f s) \<noteq> None) \<and>
     (arrays_ok s \<longrightarrow> arrays_ok (f s))) \<Longrightarrow>
   keeps (upd f)"
  by (simp add: keeps_def usable_def in_buffer_def)

lemma keeps_set_vui [keeps_rules]: "(\<And>v. vui_arrays v \<Longrightarrow> vui_arrays (f v)) \<Longrightarrow> keeps (set_vui f)"
  unfolding set_vui_def by (rule keeps_upd) (simp add: arrays_ok_def)

lemma keeps_set_bp [keeps_rules]: "(\<And>v. bp_arrays v \<Longrightarrow> bp_arrays (f v)) \<Longrightarrow> keeps (set_bp f)"
  unfolding set_bp_def by (rule keeps_upd) (simp add: arrays_ok_def)

lemma keeps_sets [keeps_rules]: "keeps (set_pt h)" "keeps (set_fp i)"
  "keeps (set_pan n j)" "keeps (upd (\<lambda>s. s\<lparr>mbaff_flag := b\<rparr>))" "keeps (upd (\<lambda>s. s\<lparr>profile := x\<rparr>))"
  "keeps (upd (\<lambda>s. s\<lparr>vui_param := (vui_param s)\<lparr>aspect_ratio_info := a\<rparr>\<rparr>))"
  unfolding set_pt_def set_fp_def set_pan_def by (rule keeps_upd; simp add: arrays_ok_def vui_arrays_def)+

section \<open>The reader\<close>

lemma read_byte_usable: "usable N s \<Longrightarrow> bitstream_bytes s > 0 \<Longrightarrow> usable N (read_byte s)"
  by (auto simp: usable_def in_buffer_def read_byte_def arrays_ok_def Let_def split: list.split)

lemma read_loop_usable: "usable N s \<Longrightarrow> usable N (read_loop s)"
proof (induction s rule: read_loop.induct)
  case (1 s)
  then show ?case using read_byte_usable[of N s] by (subst read_loop.simps) auto
qed

lemma getbits_usable: "usable N s \<Longrightarrow> usable N (snd (getbits m n s))"
  using read_loop_usable[of N "s\<lparr>curr_32_bit := 0, bits_read := 0\<rparr>"]
  by (auto simp: getbits_def Let_def consume_def read_word_def usable_def in_buffer_def arrays_ok_def)

lemma lead_zeros_usable: "usable N s \<Longrightarrow> usable N (snd (lead_zeros m s))"
proof (induction m s rule: lead_zeros.induct)
  case (1 m s)
  obtain b s1 where s1: "getbits m 1 s = (b, s1)" by (cases "getbits m 1 s")
  have "usable N s1" using getbits_usable[OF 1(2), of m 1] s1 by simp
  then show ?case using 1(1)[OF s1[symmetric] refl] s1
    by (subst lead_zeros.simps) (auto simp: split_beta)
qed

lemma keeps_reader [keeps_rules]: "keeps (extract_bits m n)" "keeps (State (lead_zeros m))" "keeps (uev m)" "keeps (sev m)"
  "keeps (iv m n)"
proof -
  show e: "keeps (extract_bits m n)" for n by (simp add: keeps_def getbits_usable)
  show z: "keeps (State (lead_zeros m))" by (simp add: keeps_def lead_zeros_usable)
  show u: "keeps (uev m)" unfolding uev_def by (intro keeps_rules e z)
  show "keeps (sev m)" unfolding sev_def by (intro keeps_rules u)
  show "keeps (iv m n)" unfolding iv_def by (intro keeps_rules e)
qed

lemma keeps_skips [keeps_rules]: "keeps (flag m)" "keeps (flag8 m)" "keeps (skip_bits m n)" "keeps (skip_ue m)" "keeps (skip_se m)"
  unfolding flag_def flag8_def skip_bits_def skip_ue_def skip_se_def by (intro keeps_rules)+

section \<open>The parsers\<close>

lemma keeps_aspect [keeps_rules]: "keeps (aspect_ratio_info_parse m)"
  unfolding aspect_ratio_info_parse_def by (intro keeps_rules) (auto simp: split_beta intro!: keeps_rules)

lemma keeps_hrd_loop: "i + n \<le> 32 \<Longrightarrow> keeps (hrd_loop m n i h)"
proof (induction n arbitrary: i h)
  case (Suc n)
  then show ?case by (auto intro!: keeps_rules)
qed (simp add: keeps_return)

lemma keeps_hrd [keeps_rules]: "keeps (hrd_parameters m h)"
  unfolding hrd_parameters_def
  by (intro keeps_rules keeps_hrd_loop) (simp add: word_less_nat_alt)

text \<open>What \<open>hrd_parameters\<close> makes of a set of parameters has arrays of the same sizes.\<close>

lemma hrd_loop_arrays: "hrd_arrays h \<Longrightarrow> hrd_arrays (fst (run_state (hrd_loop m n i h) s))"
proof (induction n arbitrary: i h s)
  case (Suc n)
  then show ?case by (auto simp: split_beta hrd_arrays_def intro!: Suc.IH)
qed simp

lemma hrd_parameters_arrays: "hrd_arrays h \<Longrightarrow> hrd_arrays (fst (run_state (hrd_parameters m h) s))"
  using hrd_loop_arrays by (auto simp: hrd_parameters_def split_beta Let_def hrd_arrays_def)

lemma keeps_hrd_set:
  assumes "\<And>v. vui_arrays v \<Longrightarrow> hrd_arrays (g v)" "\<And>h v. hrd_arrays h \<Longrightarrow> vui_arrays v \<Longrightarrow> vui_arrays (f h v)"
  shows "keeps (do { v \<leftarrow> reads vui_param; h \<leftarrow> hrd_parameters m (g v); set_vui (f h) })"
  unfolding keeps_def
proof (intro allI impI)
  fix N s assume u: "usable N s"
  define h s' where "h = fst (run_state (hrd_parameters m (g (vui_param s))) s)"
    and "s' = snd (run_state (hrd_parameters m (g (vui_param s))) s)"
  have "hrd_arrays h" using assms(1) u unfolding h_def by (intro hrd_parameters_arrays) (simp add: usable_def arrays_ok_def)
  then have "keeps (set_vui (f h))" using assms(2) by (intro keeps_set_vui)
  moreover have "usable N s'" using u keeps_hrd by (simp add: keeps_def s'_def)
  ultimately have "usable N (snd (run_state (set_vui (f h)) s'))" by (simp add: keeps_def)
  then show "usable N (snd (run_state (do { v \<leftarrow> reads vui_param; h \<leftarrow> hrd_parameters m (g v); set_vui (f h) }) s))"
    by (simp add: split_beta h_def s'_def)
qed

lemma keeps_vui_hrd [keeps_rules]: "keeps (vui_hrd m)"
  unfolding vui_hrd_def
  by (intro keeps_hrd_set keeps_rules) (simp_all add: vui_arrays_def)

lemma keeps_vui [keeps_rules]: "keeps (parse_vui m b)"
  unfolding parse_vui_def vui_signal_def vui_timing_def vui_restriction_def
  by (intro keeps_rules) (simp_all add: vui_arrays_def)

lemma keeps_bp_loop: "i + n \<le> 32 \<Longrightarrow> keeps (bp_loop m len n i)"
  by (induction n arbitrary: i) (auto simp: bp_arrays_def intro!: keeps_rules)

lemma keeps_bp [keeps_rules]: "keeps (sei_buffering_period m)"
  unfolding sei_buffering_period_def bp_delays_def
  by (intro keeps_rules keeps_bp_loop) (simp_all add: word_less_nat_alt bp_arrays_def)

lemma keeps_clock_loop [keeps_rules]: "keeps (clock_loop m len n)"
  by (induction n) (auto simp: clock_timestamp_def clock_hms_def intro!: keeps_rules)

lemma keeps_pt [keeps_rules]: "keeps (sei_picture_timing m)"
  unfolding sei_picture_timing_def by (auto simp: split_beta intro!: keeps_rules)

lemma keeps_get_free [keeps_rules]: "keeps hdl_get_free"
  by (auto simp: keeps_def hdl_get_free_def usable_def in_buffer_def arrays_ok_def split_beta Let_def)

lemma keeps_pan_rects: "i + n \<le> 3 \<Longrightarrow> keeps (pan_rects m node n i)"
  by (induction n arbitrary: i) (auto intro!: keeps_rules)

lemma keeps_pan [keeps_rules]: "keeps (sei_pan_scan m)"
  unfolding sei_pan_scan_def
  by (intro keeps_rules) (auto simp: word_less_nat_alt split: option.split intro!: keeps_rules keeps_pan_rects)

lemma keeps_fp [keeps_rules]: "keeps (parse_frame_pack m)"
  unfolding parse_frame_pack_def frame_pack_body_def by (intro keeps_rules)

lemma keeps_payload [keeps_rules]: "keeps (sei_payload m ty)"
  unfolding sei_payload_def by (intro keeps_rules)

lemma keeps_scaling_loop: "keeps (scaling_loop m n a b)"
  by (induction n arbitrary: a b) (auto intro!: keeps_rules)

lemma keeps_scaling_lists [keeps_rules]: "keeps (scaling_lists m n i)"
  by (induction n arbitrary: i) (auto simp: scaling_list_def intro!: keeps_rules keeps_scaling_loop)

lemma keeps_repeat [keeps_rules]: "keeps p \<Longrightarrow> keeps (repeatM n p)"
  by (induction n) (auto intro!: keeps_rules)

lemma keeps_sps [keeps_rules]: "keeps (parse_sps m)"
  unfolding parse_sps_def sps_chroma_def sps_order_count_def sps_geometry_def by (intro keeps_rules)

section \<open>Messages\<close>

lemma read_word_left8: "bits_left (read_word m s) \<le> 8 * bitstream_bytes s"
  using read_loop_left[of "s\<lparr>curr_32_bit := 0, bits_read := 0\<rparr>"] by (simp add: read_word_def Let_def bits_left_def)

lemma getbits_left_diff: "n \<le> 32 \<Longrightarrow> bits_left (snd (getbits m n s)) \<le> bits_left s - n"
  using read_word_left8[of m s] read_word_end[of m s]
  by (auto simp: getbits_def Let_def consume_def bits_left_def)

text \<open>Eight bits are at most 255.\<close>

definition byte_sized :: "u32 \<Rightarrow> bool" where
  "byte_sized x \<longleftrightarrow> (\<forall>i. bit x i \<longrightarrow> i < 8)"

lemma byte_sized_unat: "byte_sized x \<Longrightarrow> unat x < 256"
proof -
  assume "byte_sized x"
  then have "x = take_bit 8 x" by (intro bit_word_eqI) (auto simp: byte_sized_def bit_take_bit_iff)
  then have "unat x = take_bit 8 (unat x)" using unsigned_take_bit_eq[of 8 x, where 'a = nat] by simp
  then show ?thesis using take_bit_nat_less_exp[of 8 "unat x"] by simp
qed

lemma byte_sized_drop: "24 \<le> k \<Longrightarrow> byte_sized (drop_bit k x)"
  by (auto simp: byte_sized_def bit_drop_bit_eq dest: bit_imp_le_length)

lemma byte_sized_or: "byte_sized x \<Longrightarrow> byte_sized y \<Longrightarrow> byte_sized (x OR y)"
  by (auto simp: byte_sized_def bit_or_iff)

lemma byte_sized_lsr: "byte_sized x \<Longrightarrow> byte_sized (lsr m x k)"
  by (auto simp: byte_sized_def lsr_def bit_drop_bit_eq dest: le_add_same_cancel2[THEN iffD2])

lemma getbits_byte: "unat (fst (getbits m 8 s)) < 256"
proof (rule byte_sized_unat)
  have "byte_sized (lsr m x (32 - d))" if "0 < d" "d \<le> 8" for d x
    using that byte_sized_drop[of "32 - d" x] by simp
  note this[of 8, simplified] this
  then show "byte_sized (fst (getbits m 8 s))"
    by (auto simp: getbits_def Let_def intro!: byte_sized_or byte_sized_lsr byte_sized_drop)
qed

text \<open>The bytes of a type or a size, and its value.\<close>

lemma sei_value_bounds:
  assumes "sei_value m acc p s = ((acc', p'), s')"
  shows "bits_left s' \<le> bits_left s \<and> (usable N s \<longrightarrow> usable N s') \<and>
    (\<exists>n v. 1 \<le> n \<and> n \<le> bits_left s div 8 + 2 \<and> v \<le> 255 * n \<and> p' = p + of_nat n \<and> acc' = acc + of_nat v)"
  using assms
proof (induction m acc p s arbitrary: acc' p' s' rule: sei_value.induct)
  case (1 m acc p s)
  obtain v s1 where s1: "getbits m 8 s = (v, s1)" by (cases "getbits m 8 s")
  have l: "bits_left s1 \<le> bits_left s - 8" and u: "usable N s \<longrightarrow> usable N s1" and b: "unat v < 256"
    using getbits_left_diff[of 8 m s] getbits_usable[of N s m 8] getbits_byte[of m s] s1 by auto
  show ?case
  proof (cases "v = 255")
    case True
    have pos: "bits_left s > 0" using getbits_8_end[of s m] s1 True by (cases "bits_left s") auto
    have "sei_value m (acc + v) (p + 1) s1 = ((acc', p'), s')"
      using 1(2) s1 True by (subst (asm) sei_value.simps) simp
    from 1(1)[OF s1[symmetric] refl True this] obtain n w where
      n: "bits_left s' \<le> bits_left s1" "usable N s1 \<longrightarrow> usable N s'" "1 \<le> n" "n \<le> bits_left s1 div 8 + 2"
        "w \<le> 255 * n" "p' = p + 1 + of_nat n" "acc' = acc + v + of_nat w" by blast
    show ?thesis
    proof (cases "bits_left s < 8")
      case False
      then have "bits_left s1 div 8 + 1 \<le> bits_left s div 8" using l by linarith
      then show ?thesis using n l u True
        by (intro conjI exI[of _ "n + 1"] exI[of _ "w + 255"]) (auto simp: algebra_simps)
    next
      case True
      then have z: "bits_left s1 = 0" using l by simp
      have "sei_value m (acc + 255) (p + 1) s1 = ((acc', p'), s')" using \<open>sei_value m (acc + v) (p + 1) s1 = _\<close> \<open>v = 255\<close> by simp
      then have "((acc', p'), s') = ((acc + 255 + 0, p + 1 + 1), snd (getbits m 8 s1))"
        using getbits_8_end[OF z, of m] by (subst (asm) sei_value.simps) (auto simp: split_beta Let_def)
      then have "p' = p + of_nat 2" "acc' = acc + of_nat 255" by simp_all
      then show ?thesis using n(1,2) l u z pos by (intro conjI exI[of _ 2] exI[of _ 255]) auto
    qed
  next
    case False
    then have "acc' = acc + v" "p' = p + 1" "s' = s1" using 1(2) s1 by (subst (asm) sei_value.simps, simp)+
    then show ?thesis using l u b by (intro conjI exI[of _ 1] exI[of _ "unat v"]) auto
  qed
qed

definition safe :: "h264_parser \<Rightarrow> bool" where
  "safe s \<longleftrightarrow> \<not> overrun s \<and> panscan_hdl s \<noteq> None \<and> arrays_ok s"

lemma parser_new_safe: "safe (parser_new p (Some mem))"
  by (simp add: safe_def parser_new_def arrays_ok_def vui_arrays_def bp_arrays_def hrd_arrays_def vui_zero_def
      buf_period_zero_def hrd_zero_def)

lemma usable_safe: "usable N s \<Longrightarrow> safe s"
  by (simp add: usable_def safe_def in_buffer_def)

lemma init_usable:
  assumes "safe s" "length data = unat len"
  shows "usable (unat len) (init_bitstream data len s)"
  using assms by (simp add: usable_def safe_def in_buffer_def init_bitstream_def arrays_ok_def)

text \<open>Less than 8 MB: then no sum wraps around.\<close>

lemma sei_message_safe:
  assumes "safe s" "length start = unat len" "unat p + 2 < unat len" "unat len < 2 ^ 23"
    "sei_message m start len p s = (p', s')"
  shows "safe s'" "unat p + 2 \<le> unat p'" "unat p' \<le> 260 * 2 ^ 23"
proof -
  let ?s0 = "init_bitstream (drop (unat p) start) (len - p) s" and ?n = "unat len - unat p"
  have len: "unat (len - p) = ?n" using assms(3) by (simp add: unat_sub word_le_nat_alt)
  have u0: "usable ?n ?s0" using init_usable[OF assms(1), of "drop (unat p) start" "len - p"] assms(2) len by simp
  have b0: "bits_left ?s0 = 8 * ?n" by (simp add: bits_left_def init_bitstream_def len)
  obtain ty p1 s1 where v1: "sei_value m 0 p ?s0 = ((ty, p1), s1)" by (metis surj_pair)
  obtain sz p2 s2 where v2: "sei_value m 0 p1 s1 = ((sz, p2), s2)" by (metis surj_pair)
  define s3 where "s3 = (if sz > 0 then snd (run_state (sei_payload m ty) s2) else s2)"
  obtain n1 where n1: "bits_left s1 \<le> 8 * ?n" "usable ?n s1" "1 \<le> n1" "n1 \<le> ?n + 2" "p1 = p + of_nat n1"
    using sei_value_bounds[OF v1, of ?n] u0 b0 by auto
  obtain n2 w where n2: "usable ?n s2" "1 \<le> n2" "n2 \<le> bits_left s1 div 8 + 2" "w \<le> 255 * n2"
    "p2 = p1 + of_nat n2" "sz = of_nat w"
    using sei_value_bounds[OF v2, of ?n] n1(2) by auto
  have n2': "n2 \<le> ?n + 2" using n2(3) n1(1) by linarith
  have u3: "usable ?n s3" using n2(1) keeps_payload[of m ty] by (simp add: s3_def keeps_def)
  then have skip: "emulation_code_skip_cntr s3 \<le> ?n" by (simp add: usable_def)
  have "p' = p2 + sz + of_nat (emulation_code_skip_cntr s3) \<and> s' = s3"
    using assms(5) v1 v2 by (auto simp: sei_message_def Let_def s3_def)
  then have res: "p' = p + of_nat (n1 + n2 + w + emulation_code_skip_cntr s3)" "s' = s3"
    using n1(5) n2(5,6) by (simp_all add: add.assoc)
  show "safe s'" using u3 res(2) usable_safe by blast
  define k where "k = n1 + n2 + w + emulation_code_skip_cntr s3"
  have k: "k \<le> 258 * ?n + 514" "2 \<le> k" using n1(3,4) n2(2,4) n2' skip by (simp_all add: k_def)
  then have "unat p + k \<le> 260 * 2 ^ 23" using assms(3,4) by simp
  then have "unat p' = unat p + k"
    using res(1) by (simp add: k_def[symmetric] unat_word_ariths unat_of_nat)
  then show "unat p + 2 \<le> unat p'" "unat p' \<le> 260 * 2 ^ 23" using k(2) \<open>unat p + k \<le> _\<close> by simp_all
qed

lemma sei_loop_safe:
  "safe s \<Longrightarrow> length start = unat len \<Longrightarrow> unat p \<le> 260 * 2 ^ 23 \<Longrightarrow> unat len < 2 ^ 23 \<Longrightarrow>
   \<exists>s'. sei_loop m start len p s = Some s' \<and> safe s'"
proof (induction "unat len - unat p" arbitrary: p s rule: less_induct)
  case less
  show ?case
  proof (cases "p + 2 < len \<and> more_bits s")
    case True
    have "unat (p + 2) = unat p + 2" using less.prems(3) by (simp add: unat_word_ariths)
    then have p: "unat p + 2 < unat len" using True by (simp add: word_less_nat_alt)
    obtain p' s' where m: "sei_message m start len p s = (p', s')" by (metis surj_pair)
    note sm = sei_message_safe[OF less.prems(1,2) p less.prems(4) m]
    have "\<exists>s''. sei_loop m start len p' s' = Some s'' \<and> safe s''"
      using sm p less.prems by (intro less.hyps) auto
    then show ?thesis using True m by (subst sei_loop.simps) simp
  next
    case False
    then show ?thesis using less.prems(1) by (subst sei_loop.simps) auto
  qed
qed

section \<open>NAL units\<close>

lemma find_start_code_safe:
  "keeps (State (find_start_code m v c))"
  unfolding keeps_def
proof (intro allI impI)
  fix N and s :: h264_parser assume "usable N s"
  then show "usable N (snd (run_state (State (find_start_code m v c)) s))"
  proof (induction m v c s rule: find_start_code.induct)
    case (1 m v c s)
    obtain b s1 where s1: "getbits m 8 s = (b, s1)" by (cases "getbits m 8 s")
    then have "usable N s1" using getbits_usable[OF 1(2), of m 8] by simp
    then show ?case using 1(1)[OF _ s1[symmetric] refl] 1(2) s1 by (subst (1) find_start_code.simps) (auto simp: split_beta)
  qed
qed

lemma keeps_nal_type: "keeps (get_nal_unit_type m)"
  unfolding get_nal_unit_type_def by (intro keeps_rules find_start_code_safe) (auto simp: split_beta intro!: keeps_rules)

text \<open>The count of the consumed bytes is within the data when a type has been read.\<close>

lemma getbits_rest:
  assumes "reader_holds s bs" "0 < n" "n < 32" "getbits m n s = (v, s')"
  shows "v = wob (take n bs)" "reader_holds s' (drop n bs)"
  using getbits_holds[OF assms(1), of n m] assms(2-4) by (auto simp: defined_read_def)

lemma read_loop_dvd: "8 dvd bits_read s \<Longrightarrow> 8 dvd bits_read (read_loop s)"
proof (induction s rule: read_loop.induct)
  case (1 s)
  moreover have "8 dvd bits_read s \<Longrightarrow> 8 dvd bits_read (read_byte s)"
    by (auto simp: read_byte_def Let_def split: list.split)
  ultimately show ?case by (subst read_loop.simps) auto
qed

lemma getbits_dvd:
  assumes "8 dvd bits_read s" "8 dvd n"
  shows "8 dvd bits_read (snd (getbits m n s))"
  using assms read_loop_dvd[of "s\<lparr>curr_32_bit := 0, bits_read := 0\<rparr>"]
  by (auto simp: getbits_def Let_def consume_def read_word_def)

lemma bits_left_Nil: "reader_holds s bs \<Longrightarrow> bits_left s = 0 \<Longrightarrow> bs = []"
  by (auto simp: reader_holds_def bits_left_def in_buffer_def rest_bytes_def)

lemma find_start_code_count:
  assumes "find_start_code m v c s = ((v', c'), s')" "reader_holds s bs" "8 dvd bits_read s"
    "8 * unat c + bits_left s \<le> 8 * N" "N < 2 ^ 32"
  shows "(\<exists>bs'. reader_holds s' bs') \<and> 8 dvd bits_read s' \<and> 8 * unat c' + bits_left s' \<le> 8 * N"
  using assms
proof (induction m v c s arbitrary: bs rule: find_start_code.induct)
  case (1 m v c s)
  show ?case
  proof (cases "v \<noteq> 1 \<and> more_bits s")
    case True
    obtain b s1 where s1: "getbits m 8 s = (b, s1)" by (cases "getbits m 8 s")
    have "0 < bits_left s" using True more_bits_left by blast
    moreover have "8 dvd bits_left s" using 1(4) by (simp add: bits_left_def)
    ultimately have "8 \<le> bits_left s" by (auto dest: dvd_imp_le)
    moreover have "bits_left s1 \<le> bits_left s - 8" using getbits_left_diff[of 8 m s] s1 by simp
    moreover have "unat (c + 1) = unat c + 1" using calculation 1(5,6) by (simp add: unat_word_ariths)
    ultimately have "8 * unat (c + 1) + bits_left s1 \<le> 8 * N" using 1(5) by simp
    moreover have "8 dvd bits_read s1" using getbits_dvd[of s 8 m] 1(4) s1 by simp
    moreover have "reader_holds s1 (drop 8 bs)" using getbits_rest[OF 1(3) _ _ s1] by simp
    moreover have "find_start_code m (push_bit 8 v OR b) (c + 1) s1 = ((v', c'), s')"
      using 1(2) True s1 by (subst (asm) find_start_code.simps) simp
    ultimately show ?thesis using 1(1)[OF True s1[symmetric] refl] 1(6) by blast
  next
    case False
    then have "c' = c" "s' = s" using 1(2) by (subst (asm) find_start_code.simps, auto)+
    then show ?thesis using 1(3-5) by blast
  qed
qed

lemma nal_type_count:
  assumes "run_state (get_nal_unit_type m) s = ((c, t), s')" "reader_holds s bs" "bits_read s = 0"
    "bitstream_bytes s < 2 ^ 32" "t \<noteq> 0"
  shows "unat c \<le> bitstream_bytes s"
proof -
  let ?N = "bitstream_bytes s"
  obtain v s1 where s1: "getbits m 24 s = (v, s1)" by (cases "getbits m 24 s")
  obtain v2 c2 s2 where s2: "find_start_code m v 3 s1 = ((v2, c2), s2)" by (metis surj_pair)
  have v2: "v2 = 1" using assms(1,5) s1 s2 by (auto simp: get_nal_unit_type_def split: if_splits)
  have h1: "reader_holds s1 (drop 24 bs)" using getbits_rest[OF assms(2) _ _ s1] by simp
  have l1: "bits_left s1 \<le> 8 * ?N - 24"
    using getbits_left_diff[of 24 m s] s1 assms(3) by (simp add: bits_left_def)
  have d1: "8 dvd bits_read s1" using getbits_dvd[of s 24 m] s1 assms(3) by simp
  have zero: "t = 0" if h: "reader_holds s2 []"
  proof -
    obtain a s3 where s3: "getbits m 1 s2 = (a, s3)" by (cases "getbits m 1 s2")
    obtain b s4 where s4: "getbits m 2 s3 = (b, s4)" by (cases "getbits m 2 s3")
    obtain d s5 where s5: "getbits m 5 s4 = (d, s5)" by (cases "getbits m 5 s4")
    have "reader_holds s3 []" using getbits_rest[OF h _ _ s3] by simp
    then have "reader_holds s4 []" using getbits_rest[OF _ _ _ s4, of "[]"] by simp
    then have "d = 0" using getbits_rest[OF _ _ _ s5, of "[]"] by simp
    then show ?thesis using assms(1) s1 s2 s3 s4 s5 v2 by (simp add: get_nal_unit_type_def)
  qed
  show ?thesis
  proof (cases "3 \<le> ?N")
    case True
    then have "8 * unat (3 :: u32) + bits_left s1 \<le> 8 * ?N" using l1 by simp
    from find_start_code_count[OF s2 h1 d1 this assms(4)] obtain bs2 where
      l2: "reader_holds s2 bs2" "8 dvd bits_read s2" "8 * unat c2 + bits_left s2 \<le> 8 * ?N" by blast
    have "bits_left s2 \<noteq> 0" using bits_left_Nil[OF l2(1)] zero l2(1) assms(5) by auto
    moreover have "8 dvd bits_left s2" using l2(2) by (simp add: bits_left_def)
    ultimately have "8 \<le> bits_left s2" by (auto dest: dvd_imp_le)
    then have "unat c2 + 1 \<le> ?N" using l2(3) by simp
    moreover have "c = c2 + 1"
      using assms(1) s1 s2 v2 by (simp add: get_nal_unit_type_def split_beta)
    moreover have "unat (c2 + 1) \<le> unat c2 + 1" by (simp add: unat_word_ariths mod_less_eq_dividend)
    ultimately show ?thesis by simp
  next
    case False
    then have "bits_left s1 = 0" using l1 by simp
    then have "\<not> more_bits s1" "drop 24 bs = []" using more_bits_left[of s1] bits_left_Nil[OF h1] by auto
    then have "reader_holds s1 []" using h1 by simp
    moreover have "s2 = s1" using s2 \<open>\<not> more_bits s1\<close> by (subst (asm) find_start_code.simps) auto
    ultimately show ?thesis using zero assms(5) by simp
  qed
qed

lemma nal_safe:
  assumes "safe s" "length data = unat len" "unat len < 2 ^ 23"
  shows "\<exists>s'. parse_nal m data len nal_type emu s = Some s' \<and> safe s'"
proof (cases "len = 0")
  case True
  then show ?thesis using assms(1) by (simp add: parse_nal_def)
next
  case False
  let ?s = "(init_bitstream data len s)\<lparr>emulation_sc_enabled := emu\<rparr>"
  have u: "usable (unat len) ?s" using init_usable[OF assms(1,2)] by (simp add: usable_def in_buffer_def arrays_ok_def)
  have holds: "reader_holds ?s (bytes_bits (rest_bytes ?s))"
    using u by (simp add: reader_holds_def usable_def init_bitstream_def)
  have run: "safe (snd (run_state p s1))" if "usable N s1" "keeps p" for p :: "unit parser" and N s1
    using that usable_safe by (auto simp: keeps_def)
  obtain c t s1 where s1: "run_state (get_nal_unit_type m) ?s = ((c, t), s1)" by (metis surj_pair)
  have u1: "usable (unat len) s1" using keeps_nal_type[of m, unfolded keeps_def, rule_format, OF u] s1 by simp
  show ?thesis
  proof (cases "nal_type = NALU_TYPE_SPS \<and> nal_type = t")
    case True
    have "usable (unat len) (if more_bits s1 then snd (run_state (parse_sps m) s1) else s1)"
      using u1 keeps_sps[of m] by (simp add: keeps_def)
    then have "usable (unat len) (snd (run_state hdl_get_free (if more_bits s1 then snd (run_state (parse_sps m) s1) else s1)))"
      using keeps_get_free by (simp add: keeps_def)
    then show ?thesis using True False s1 usable_safe by (auto simp: parse_nal_def nal_switch_def Let_def)
  next
    case not_sps: False
    show ?thesis
    proof (cases "nal_type = NALU_TYPE_SEI \<and> nal_type = t")
      case True
      have "unat c \<le> unat len"
        using nal_type_count[OF s1 holds] conjunct1[OF True] conjunct2[OF True] assms(3) by (simp add: init_bitstream_def)
      then have len: "unat (len - c) = unat len - unat c" by (simp add: unat_sub word_le_nat_alt)
      have w: "unat (word_of_nat (unat len - unat c) :: u32) = unat len - unat c"
        unfolding len[symmetric] by simp
      let ?s2 = "init_bitstream (drop (unat c) data) (len - c) s1"
      have "safe ?s2" using usable_safe[OF u1] by (simp add: safe_def init_bitstream_def arrays_ok_def)
      then have "\<exists>s'. parse_sei m ?s2 = Some s' \<and> safe s'"
        unfolding parse_sei_def using assms(2,3) len w
        by (intro sei_loop_safe) (simp_all add: init_bitstream_def)
      then show ?thesis using True False s1 by (auto simp: parse_nal_def nal_switch_def Let_def)
    next
      case False
      then show ?thesis
        using not_sps \<open>len \<noteq> 0\<close> s1 usable_safe[OF u1] run[OF u keeps_vui]
        by (auto simp: parse_nal_def nal_switch_def Let_def)
    qed
  qed
qed

end
