(* ===== verification/H264Utils.thy ===== *)
theory H264Utils
  imports H264Reader "HOL-Library.Monad_Syntax"
begin

unbundle bit_operations_syntax

text \<open>
  RbspParser and H264_Utils (vidc/vdec/src/h264_utils.cpp): the extraction of the payload of a
  NAL unit, a second bit reader, and the detection of frame boundaries. Arrays are the memory
  that is allocated; an access outside of it is \<open>None\<close>, as is a loop that does not end.
\<close>

section \<open>The bit reader of a payload\<close>

text \<open>\<open>rp_end\<close> is only compared for a log message.\<close>

record rbsp_parser =
  rp_begin :: "byte list"
  rp_end :: nat
  rp_pos :: int
  rp_bit :: nat
  rp_cursor :: u32
  rp_advanceNeeded :: bool

definition rbsp_parser_new :: "byte list \<Rightarrow> nat \<Rightarrow> rbsp_parser" where
  "rbsp_parser_new buf e =
     \<lparr>rp_begin = buf, rp_end = e, rp_pos = -1, rp_bit = 0, rp_cursor = 0xFFFFFF, rp_advanceNeeded = True\<rparr>"

partial_function (option) rp_advance :: "rbsp_parser \<Rightarrow> rbsp_parser option" where
  "rp_advance p =
     (let pos = rp_pos p + 1 in
      if 0 \<le> pos \<and> nat pos < length (rp_begin p) then
        let cursor = push_bit 8 (rp_cursor p) OR ucast (rp_begin p ! nat pos);
            p = p\<lparr>rp_pos := pos, rp_cursor := cursor\<rparr> in
        if cursor AND 0xFFFFFF = 3
        then Option.bind (rp_advance p) (\<lambda>p. Some (p\<lparr>rp_advanceNeeded := False\<rparr>))
        else Some (p\<lparr>rp_advanceNeeded := False\<rparr>)
      else None)"

declare rp_advance.simps [code]

definition rp_next :: "rbsp_parser \<Rightarrow> (u32 \<times> rbsp_parser) option" where
  "rp_next p =
     do { p \<leftarrow> (if rp_advanceNeeded p then rp_advance p else Some p);
          if 0 \<le> rp_pos p \<and> nat (rp_pos p) < length (rp_begin p)
          then Some (ucast (rp_begin p ! nat (rp_pos p)), p) else None }"

text \<open>The loop of \<open>u\<close> with \<open>n - i\<close> bits to go.\<close>

partial_function (option) rp_bits :: "nat \<Rightarrow> u32 \<Rightarrow> rbsp_parser \<Rightarrow> (u32 \<times> rbsp_parser) option" where
  "rp_bits togo x p =
     (if togo = 0 then Some (x, p)
      else
        let s = min (8 - rp_bit p) togo in
        do { (w, p) \<leftarrow> rp_next p;
             let x = push_bit s x OR (drop_bit (8 - rp_bit p - s) w AND (push_bit s 1 - 1));
                 p = p\<lparr>rp_bit := (rp_bit p + s) mod 8\<rparr>;
                 p = (if rp_bit p = 0 then p\<lparr>rp_advanceNeeded := True\<rparr> else p) in
             rp_bits (togo - s) x p })"

declare rp_bits.simps [code]

definition rp_u :: "nat \<Rightarrow> rbsp_parser \<Rightarrow> (u32 \<times> rbsp_parser) option" where
  "rp_u n p = rp_bits n 0 p"

text \<open>The loop of \<open>ue\<close>: the zeros before the first one.\<close>

partial_function (option) rp_zeros :: "rbsp_parser \<Rightarrow> (u32 \<times> rbsp_parser) option" where
  "rp_zeros p =
     do { (b, p) \<leftarrow> rp_u 1 p;
          if b = 0 then do { (k, p) \<leftarrow> rp_zeros p; Some (k + 1, p) } else Some (0, p) }"

declare rp_zeros.simps [code]

definition rp_ue :: "isa \<Rightarrow> rbsp_parser \<Rightarrow> (u32 \<times> rbsp_parser) option" where
  "rp_ue m p =
     do { (leadingZeroBits, p) \<leftarrow> rp_zeros p;
          (v, p) \<leftarrow> rp_u (unat leadingZeroBits) p;
          Some (lsl m 1 (unat leadingZeroBits) - 1 + v, p) }"

definition rp_se :: "isa \<Rightarrow> rbsp_parser \<Rightarrow> (int \<times> rbsp_parser) option" where
  "rp_se m p =
     do { (x, p) \<leftarrow> rp_ue m p;
          Some (if x = 0 then 0
                else if x AND 1 \<noteq> 0 then sint (drop_bit 1 x + 1)
                else - sint (drop_bit 1 x), p) }"

section \<open>Extraction of the payload\<close>

record nalu =
  nal_ref_idc :: u32
  nalu_type :: u32
  forbidden_zero_bit :: u32

definition rd :: "byte list \<Rightarrow> u32 \<Rightarrow> byte option" where
  "rd buf i = (if unat i < length buf then Some (buf ! unat i) else None)"

text \<open>The loop that looks for a start code: the position after it, or nothing within the length.\<close>

partial_function (option) find_prefix :: "byte list \<Rightarrow> u32 \<Rightarrow> byte \<Rightarrow> byte \<Rightarrow> u32 \<Rightarrow> u32 option option" where
  "find_prefix buf buffer_length coef2 coef3 pos =
     (if pos \<ge> buffer_length then Some None
      else
        let coef1 = coef2; coef2 = coef3 in
        do { coef3 \<leftarrow> rd buf pos;
             if coef1 \<noteq> 0 \<or> coef2 \<noteq> 0 \<or> coef3 \<noteq> 1
             then find_prefix buf buffer_length coef2 coef3 (pos + 1)
             else Some (Some (pos + 1)) })"

declare find_prefix.simps [code]

text \<open>The length of the NAL unit in the bytes before it.\<close>

fun nal_length_loop :: "isa \<Rightarrow> byte list \<Rightarrow> nat \<Rightarrow> u32 \<Rightarrow> u32 \<Rightarrow> (u32 \<times> u32) option" where
  "nal_length_loop m buf 0 pos nal_len = Some (pos, nal_len)"
| "nal_length_loop m buf (Suc k) pos nal_len =
     do { b \<leftarrow> rd buf pos;
          nal_length_loop m buf k (pos + 1) (nal_len OR lsl m (ucast b) (8 * k)) }"

text \<open>
  The copying loop, with what is written, its length and the result: \<open>pos\<close> cut to a
  \<open>boolean\<close>, an unsigned char, if there is another start code.
\<close>

partial_function (option) copy_rbsp ::
    "byte list \<Rightarrow> bool \<Rightarrow> u32 \<Rightarrow> u32 \<Rightarrow> u32 \<Rightarrow> byte list \<Rightarrow> u32 \<Rightarrow> (byte \<times> byte list \<times> u32) option" where
  "copy_rbsp buf start_code limit pos zero_count rbsp rbsp_length =
     (if pos < limit then
        do { b \<leftarrow> rd buf pos;
             if zero_count = 2 \<and> b = 3 then copy_rbsp buf start_code limit (pos + 1) 0 rbsp rbsp_length
             else if zero_count = 2 \<and> b \<le> 1 \<and> start_code then Some (ucast (pos - 2), rbsp, rbsp_length - 2)
             else
               let zero_count = (if zero_count = 2 then 0 else zero_count);
                   zero_count = zero_count + 1;
                   zero_count = (if b \<noteq> 0 then 0 else zero_count) in
               if unat rbsp_length < length rbsp
               then copy_rbsp buf start_code limit (pos + 1) zero_count (rbsp[unat rbsp_length := b]) (rbsp_length + 1)
               else None }
      else Some (1, rbsp, rbsp_length))"

declare copy_rbsp.simps [code]

abbreviation (input) NALU_TYPE_NON_IDR :: u32 where "NALU_TYPE_NON_IDR \<equiv> 1"
abbreviation (input) NALU_TYPE_IDR :: u32 where "NALU_TYPE_IDR \<equiv> 5"
abbreviation (input) NALU_TYPE_EOSEQ :: u32 where "NALU_TYPE_EOSEQ \<equiv> 10"
abbreviation (input) NALU_TYPE_EOSTREAM :: u32 where "NALU_TYPE_EOSTREAM \<equiv> 11"

text \<open>
  \<open>extract_rbsp\<close> on the memory \<open>buf\<close> of the buffer: the result, the memory of the payload, its
  length and the header. \<open>len0\<close> and \<open>nal0\<close> are what the variables of the caller hold before.
\<close>

definition extract_rbsp ::
    "isa \<Rightarrow> byte list \<Rightarrow> u32 \<Rightarrow> u32 \<Rightarrow> byte list \<Rightarrow> u32 \<Rightarrow> nalu \<Rightarrow> (byte \<times> byte list \<times> u32 \<times> nalu) option" where
  "extract_rbsp m buf buffer_length nal_length_field rbsp len0 nal0 =
     (let start_code = (nal_length_field = 0) in
      do { start \<leftarrow> (if start_code then
             do { coef2 \<leftarrow> rd buf 0; coef3 \<leftarrow> rd buf 1;
                  r \<leftarrow> find_prefix buf buffer_length coef2 coef3 2;
                  Some (map_option (\<lambda>pos. (pos, buffer_length)) r) }
           else
             do { (pos, nal_len) \<leftarrow> nal_length_loop m buf (unat nal_length_field) 0 0;
                  Some (if nal_len \<ge> buffer_length then None else Some (pos, nal_len)) });
           case start of
             None \<Rightarrow> Some (0, rbsp, len0, nal0)
           | Some (pos, nal_len) \<Rightarrow>
               if nal_len > buffer_length \<or> pos + 1 > nal_len + nal_length_field then Some (0, rbsp, len0, nal0)
               else do {
                 b \<leftarrow> rd buf pos;
                 let nal = \<lparr>nal_ref_idc = drop_bit 5 (ucast (b AND 0x60)), nalu_type = ucast (b AND 0x1F),
                            forbidden_zero_bit = ucast (b AND 0x80)\<rparr> in
                 if nalu_type nal = NALU_TYPE_EOSEQ \<or> nalu_type nal = NALU_TYPE_EOSTREAM
                 then Some (ucast (nal_len + nal_length_field), rbsp, 0, nal)
                 else do {
                   (ret, rbsp, len) \<leftarrow> copy_rbsp buf start_code (nal_len + nal_length_field) (pos + 1) 0 rbsp 0;
                   Some (ret, rbsp, len, nal) } } })"

section \<open>Frame boundaries\<close>

text \<open>\<open>H264_Utils\<close>, without the members no function uses.\<close>

record h264_utils =
  m_rbspBytes :: "byte list"
  m_prv_nalu :: nalu
  m_forceToStichNextNAL :: bool
  m_au_data :: bool
  u_nalu_type :: u32

definition initialize_frame_checking_environment :: "h264_utils \<Rightarrow> h264_utils" where
  "initialize_frame_checking_environment u =
     u\<lparr>m_forceToStichNextNAL := False, m_au_data := False,
       m_prv_nalu := (m_prv_nalu u)\<lparr>nal_ref_idc := 0, nalu_type := 0\<rparr>\<rparr>"

definition allocate_rbsp_buffer :: "u32 \<Rightarrow> h264_utils \<Rightarrow> h264_utils" where
  "allocate_rbsp_buffer inputBufferSize u =
     u\<lparr>m_rbspBytes := replicate (unat inputBufferSize) 0,
       m_prv_nalu := (m_prv_nalu u)\<lparr>nal_ref_idc := 0, nalu_type := 0\<rparr>\<rparr>"

text \<open>The condition for a slice to begin a frame; \<open>first_mb_in_slice\<close> is a \<open>uint16\<close>.\<close>

definition begins_frame :: "nalu \<Rightarrow> nalu \<Rightarrow> 16 word \<Rightarrow> bool" where
  "begins_frame prv nal first_mb_in_slice \<longleftrightarrow>
     first_mb_in_slice = 0 \<or>
     nal_ref_idc prv \<noteq> nal_ref_idc nal \<and> nal_ref_idc nal * nal_ref_idc prv = 0 \<or>
     nalu_type prv \<noteq> nalu_type nal \<and> (nalu_type prv = NALU_TYPE_IDR \<or> nalu_type nal = NALU_TYPE_IDR)"

text \<open>
  The switch of \<open>isNewFrame\<close> on the type: whether the NAL unit begins a frame. \<open>len\<close> is the
  length of the payload, whose end the bit reader knows but does not respect.
\<close>

definition new_frame_switch :: "isa \<Rightarrow> nalu \<Rightarrow> u32 \<Rightarrow> h264_utils \<Rightarrow> (bool \<times> h264_utils) option" where
  "new_frame_switch m nal len u =
     (if nalu_type nal = NALU_TYPE_IDR \<or> nalu_type nal = NALU_TYPE_NON_IDR then
        do { new \<leftarrow> (if m_forceToStichNextNAL u then Some False
               else do { (x, p) \<leftarrow> rp_ue m (rbsp_parser_new (m_rbspBytes u) (unat len));
                         Some (begins_frame (m_prv_nalu u) nal (ucast x)) });
             Some (new, u\<lparr>m_au_data := True, m_forceToStichNextNAL := False\<rparr>) }
      else if nalu_type nal = 6 \<or> nalu_type nal = 7 \<or> nalu_type nal = 8 then
        Some (m_au_data u, u\<lparr>m_au_data := False, m_forceToStichNextNAL := True\<rparr>)
      else Some (False, u))"

text \<open>
  \<open>isNewFrame\<close>: the result, the answer and the state. \<open>nal0\<close> is what the variable for the
  header holds before it is written; it is copied to \<open>m_prv_nalu\<close> if nothing is extracted.
\<close>

definition isNewFrame :: "isa \<Rightarrow> nalu \<Rightarrow> byte list \<Rightarrow> u32 \<Rightarrow> u32 \<Rightarrow> h264_utils \<Rightarrow> (bool \<times> bool \<times> h264_utils) option" where
  "isNewFrame m nal0 buf buffer_length nal_length_field u =
     do { (ret, rbsp, len, nal) \<leftarrow> extract_rbsp m buf buffer_length nal_length_field (m_rbspBytes u) 0 nal0;
          let u = u\<lparr>m_rbspBytes := rbsp\<rparr> in
          if ret = 0 then Some (False, False, u\<lparr>m_prv_nalu := nal\<rparr>)
          else do {
            (new, u) \<leftarrow> new_frame_switch m nal len (u\<lparr>u_nalu_type := nalu_type nal\<rparr>);
            Some (True, new, u\<lparr>m_prv_nalu := nal\<rparr>) } }"

end
