(* ===== verification/H264UtilsSpec.thy ===== *)
theory H264UtilsSpec
  imports H264Utils H264ReaderSpec
begin

unbundle bit_operations_syntax

text \<open>
  The bit reader of a payload meets the contract of a bit reader, and the extraction of a
  payload undoes the emulation prevention of a writer.
\<close>

section \<open>The cursor\<close>

text \<open>The cursor holds the last bytes that were passed; of them only two zeros matter.\<close>

definition zc :: "u32 \<Rightarrow> nat" where
  "zc cursor = (if take_bit 16 cursor = 0 then 2 else if take_bit 8 cursor = 0 then 1 else 0)"

lemma unescape_cap: "unescape z bs = unescape (min 2 z) bs"
proof (cases "z \<ge> 2")
  case True
  have "unescape (2 + k) bs = unescape 2 bs" for k
  proof (induction bs arbitrary: k)
    case (Cons b bs)
    have "unescape (2 + (k + 1)) bs = unescape (2 + 1) bs" unfolding Cons ..
    then show ?case by simp
  qed simp
  then show ?thesis using True by (metis le_add_diff_inverse min.absorb1)
qed (simp add: min_def)

lemma bit_shift_in: "bit (push_bit 8 x OR ucast (b :: byte) :: u32) i \<longleftrightarrow>
    i < 32 \<and> (if i < 8 then bit b i else bit x (i - 8))"
  using bit_imp_le_length[of b i] by (auto simp: bit_or_iff bit_push_bit_iff bit_ucast_iff)

lemma take_bit_shift_in:
  fixes b d :: byte
  assumes "n \<le> 24"
  shows "take_bit (n + 8) (push_bit 8 x OR ucast b :: u32) = ucast d \<longleftrightarrow> take_bit n x = 0 \<and> b = d"
proof
  assume a: "take_bit (n + 8) (push_bit 8 x OR ucast b :: u32) = ucast d"
  have e: "bit (take_bit (n + 8) (push_bit 8 x OR ucast b :: u32)) i = bit (ucast d :: u32) i" for i unfolding a ..
  have "b = d"
  proof (rule bit_word_eqI)
    fix i assume "i < LENGTH(8)"
    then show "bit b i = bit d i" using e[of i] by (simp add: bit_take_bit_iff bit_shift_in bit_ucast_iff del: take_bit_or)
  qed
  moreover have "take_bit n x = 0"
  proof (rule bit_word_eqI)
    fix i assume "i < LENGTH(32)"
    show "bit (take_bit n x) i = bit (0 :: u32) i"
      using e[of "i + 8"] assms bit_imp_le_length[of d "i + 8"]
      by (auto simp: bit_take_bit_iff bit_shift_in bit_ucast_iff simp del: take_bit_or)
  qed
  ultimately show "take_bit n x = 0 \<and> b = d" by simp
next
  assume a: "take_bit n x = 0 \<and> b = d"
  have e: "\<not> (i < n \<and> bit x i)" for i
    using a bit_take_bit_iff[of n x i] by auto
  show "take_bit (n + 8) (push_bit 8 x OR ucast b :: u32) = ucast d"
  proof (rule bit_word_eqI)
    fix i assume "i < LENGTH(32)"
    then show "bit (take_bit (n + 8) (push_bit 8 x OR ucast b :: u32)) i = bit (ucast d :: u32) i"
      using a e[of "i - 8"] bit_imp_le_length[of b i] by (auto simp: bit_take_bit_iff bit_shift_in bit_ucast_iff simp del: take_bit_or)
  qed
qed

lemma cursor_emulation: "(push_bit 8 c OR ucast (b :: byte) :: u32) AND 0xFFFFFF = 3 \<longleftrightarrow> zc c \<ge> 2 \<and> b = 3"
proof -
  have "(0xFFFFFF :: u32) = mask 24" by (simp add: mask_eq_exp_minus_1)
  then have "(push_bit 8 c OR ucast b :: u32) AND 0xFFFFFF = take_bit (16 + 8) (push_bit 8 c OR ucast b)"
    by (simp add: take_bit_eq_mask)
  then show ?thesis using take_bit_shift_in[of 16 c b 3] by (simp add: zc_def)
qed

lemma zc_shift_in: "zc (push_bit 8 c OR ucast (b :: byte)) = (if b = 0 then min 2 (zc c + 1) else 0)"
proof -
  define w where "w = push_bit 8 c OR ucast b"
  have "take_bit 16 w = 0 \<longleftrightarrow> take_bit 8 c = 0 \<and> b = 0"
    using take_bit_shift_in[of 8 c b 0] by (simp add: w_def del: take_bit_or)
  moreover have "take_bit 8 w = 0 \<longleftrightarrow> b = 0"
    using take_bit_shift_in[of 0 c b 0] by (simp add: w_def del: take_bit_or)
  moreover have "take_bit 16 c = 0 \<Longrightarrow> take_bit 8 c = 0" using take_bit_take_bit[of 8 16 c] by simp
  ultimately show ?thesis by (auto simp: zc_def simp flip: w_def)
qed

section \<open>The reader meets the contract\<close>

definition rp_rest :: "rbsp_parser \<Rightarrow> byte list" where
  "rp_rest p = unescape (zc (rp_cursor p)) (drop (nat (rp_pos p + 1)) (rp_begin p))"

definition rp_holds :: "rbsp_parser \<Rightarrow> bool list \<Rightarrow> bool" where
  "rp_holds p bs \<longleftrightarrow> rp_bit p < 8 \<and> - 1 \<le> rp_pos p \<and> rp_pos p < int (length (rp_begin p)) \<and>
     (if rp_advanceNeeded p then rp_bit p = 0 \<and> bs = bytes_bits (rp_rest p)
      else 0 \<le> rp_pos p \<and> bs = drop (rp_bit p) (bits_of (rp_begin p ! nat (rp_pos p))) @ bytes_bits (rp_rest p))"

lemma rp_advance_rest:
  assumes "rp_rest p = b # bs" "- 1 \<le> rp_pos p"
  shows "\<exists>p'. rp_advance p = Some p' \<and> 0 \<le> rp_pos p' \<and> rp_pos p' < int (length (rp_begin p')) \<and>
    rp_begin p' ! nat (rp_pos p') = b \<and> rp_rest p' = bs \<and> \<not> rp_advanceNeeded p' \<and> rp_bit p' = rp_bit p"
  using assms
proof (induction "length (rp_begin p) - nat (rp_pos p + 1)" arbitrary: p rule: less_induct)
  case less
  let ?i = "nat (rp_pos p + 1)"
  have i: "?i < length (rp_begin p)" using less.prems(1) by (cases "?i < length (rp_begin p)") (auto simp: rp_rest_def)
  define c where "c = rp_begin p ! ?i"
  have d: "drop ?i (rp_begin p) = c # drop (Suc ?i) (rp_begin p)" using i by (simp add: c_def Cons_nth_drop_Suc)
  have s: "nat (2 + rp_pos p) = Suc ?i" using less.prems(2) by simp
  let ?p = "p\<lparr>rp_pos := rp_pos p + 1, rp_cursor := push_bit 8 (rp_cursor p) OR ucast c\<rparr>"
  have r: "rp_rest ?p = unescape (if c = 0 then zc (rp_cursor p) + 1 else 0) (drop (Suc ?i) (rp_begin p))"
    using unescape_cap[of "zc (rp_cursor p) + 1"] by (simp add: rp_rest_def zc_shift_in s)
  show ?case
  proof (cases "zc (rp_cursor p) \<ge> 2 \<and> c = 3")
    case True
    then have "rp_rest ?p = b # bs" using less.prems(1) r by (simp add: rp_rest_def d)
    moreover have "length (rp_begin ?p) - nat (rp_pos ?p + 1) < length (rp_begin p) - ?i" using i s by simp
    ultimately obtain p' where p': "rp_advance ?p = Some p'" "0 \<le> rp_pos p'" "rp_pos p' < int (length (rp_begin p'))"
      "rp_begin p' ! nat (rp_pos p') = b" "rp_rest p' = bs" "\<not> rp_advanceNeeded p'" "rp_bit p' = rp_bit p"
      using less.hyps[of ?p] less.prems(2) by auto
    have "rp_advance p = Some (p'\<lparr>rp_advanceNeeded := False\<rparr>)"
      using p'(1) less.prems(2) i True cursor_emulation[of "rp_cursor p" 3]
      by (subst rp_advance.simps) (simp add: cursor_emulation Let_def flip: c_def)
    then show ?thesis using p' by (auto simp: rp_rest_def)
  next
    case False
    then have "rp_advance p = Some (?p\<lparr>rp_advanceNeeded := False\<rparr>)"
      using less.prems(2) i by (subst rp_advance.simps) (auto simp: cursor_emulation Let_def simp flip: c_def)
    moreover have "b = c \<and> bs = rp_rest ?p" using less.prems(1) False r by (auto simp: rp_rest_def d)
    ultimately show ?thesis using less.prems(2) i by (auto simp: rp_rest_def c_def)
  qed
qed

lemma rp_next_holds:
  assumes "rp_holds p bs" "bs \<noteq> []"
  shows "\<exists>b p'. rp_next p = Some (ucast b, p') \<and> rp_holds p' bs \<and> \<not> rp_advanceNeeded p' \<and> rp_bit p' = rp_bit p \<and>
    bs = drop (rp_bit p) (bits_of b) @ bytes_bits (rp_rest p') \<and> 0 \<le> rp_pos p' \<and> rp_pos p' < int (length (rp_begin p')) \<and>
    rp_begin p' ! nat (rp_pos p') = b"
proof (cases "rp_advanceNeeded p")
  case True
  then obtain b cs where "rp_rest p = b # cs" using assms by (cases "rp_rest p") (auto simp: rp_holds_def)
  from rp_advance_rest[OF this] obtain p' where p': "rp_advance p = Some p'" "0 \<le> rp_pos p'"
    "rp_pos p' < int (length (rp_begin p'))" "rp_begin p' ! nat (rp_pos p') = b" "rp_rest p' = cs"
    "\<not> rp_advanceNeeded p'" "rp_bit p' = rp_bit p"
    using assms(1) by (auto simp: rp_holds_def)
  moreover have "bs = drop (rp_bit p) (bits_of b) @ bytes_bits cs" "rp_bit p < 8"
    using assms(1) True \<open>rp_rest p = b # cs\<close> by (auto simp: rp_holds_def)
  ultimately show ?thesis using True by (intro exI[of _ b] exI[of _ p']) (auto simp: rp_next_def rp_holds_def)
next
  case False
  then show ?thesis using assms(1)
    by (intro exI[of _ "rp_begin p ! nat (rp_pos p)"] exI[of _ p]) (auto simp: rp_next_def rp_holds_def)
qed

lemma byte_slice:
  assumes "k + s \<le> 8"
  shows "drop_bit (8 - k - s) (ucast b) AND (push_bit s 1 - 1) = (wob (take s (drop k (bits_of b))) :: u32)"
proof (rule bit_word_eqI)
  fix i assume "i < LENGTH(32)"
  have "push_bit s 1 - 1 = (mask s :: u32)" by (simp add: mask_eq_exp_minus_1 push_bit_eq_mult)
  then show "bit (drop_bit (8 - k - s) (ucast b) AND (push_bit s 1 - 1) :: u32) i = bit (wob (take s (drop k (bits_of b))) :: u32) i"
    using assms \<open>i < LENGTH(32)\<close>
    by (auto simp: bit_and_iff bit_drop_bit_eq bit_ucast_iff bit_mask_iff bit_wob bits_of_def rev_nth)
qed

lemma rp_bits_holds:
  assumes "rp_holds p (bs @ q)"
  shows "\<exists>p'. rp_bits (length bs) x p = Some (push_bit (length bs) x OR wob bs, p') \<and> rp_holds p' q"
  using assms
proof (induction "length bs" arbitrary: bs x p rule: less_induct)
  case less
  show ?case
  proof (cases "bs = []")
    case True
    then show ?thesis using less.prems by (subst rp_bits.simps) simp
  next
    case False
    let ?k = "rp_bit p"
    define s where "s = min (8 - ?k) (length bs)"
    from rp_next_holds[OF less.prems] False obtain b p1 where p1: "rp_next p = Some (ucast b, p1)"
      "rp_holds p1 (bs @ q)" "\<not> rp_advanceNeeded p1" "rp_bit p1 = ?k"
      "bs @ q = drop ?k (bits_of b) @ bytes_bits (rp_rest p1)" "0 \<le> rp_pos p1"
      "rp_pos p1 < int (length (rp_begin p1))" "rp_begin p1 ! nat (rp_pos p1) = b" by auto
    have k: "?k < 8" using less.prems by (simp add: rp_holds_def)
    have s: "0 < s" "?k + s \<le> 8" "s \<le> length bs" using False k by (auto simp: s_def)
    have t: "take s (drop ?k (bits_of b)) = take s bs"
      using arg_cong[OF p1(5), of "take s"] s k by simp
    have d: "drop s bs @ q = drop (?k + s) (bits_of b) @ bytes_bits (rp_rest p1)"
      using arg_cong[OF p1(5), of "drop s"] s k by (simp add: add.commute)
    let ?x = "push_bit s x OR wob (take s bs)" and ?p = "p1\<lparr>rp_bit := (?k + s) mod 8\<rparr>"
    define p2 where "p2 = (if rp_bit ?p = 0 then ?p\<lparr>rp_advanceNeeded := True\<rparr> else ?p)"
    have "rp_holds p2 (drop s bs @ q)"
    proof (cases "?k + s = 8")
      case True
      then show ?thesis using d p1(6,7) by (simp add: p2_def rp_holds_def rp_rest_def)
    next
      case False
      then have "(?k + s) mod 8 = ?k + s" "?k + s < 8" using s(2) by auto
      then show ?thesis using d p1(3,6-8) s(1) by (simp add: p2_def rp_holds_def rp_rest_def)
    qed
    moreover have "length (drop s bs) < length bs" using s by simp
    ultimately obtain p' where p':
      "rp_bits (length bs - s) ?x p2 = Some (push_bit (length bs - s) ?x OR wob (drop s bs), p')" "rp_holds p' q"
      using less.hyps[of "drop s bs" p2 ?x] by (auto simp del: push_bit_or)
    have "push_bit (length bs - s) ?x OR wob (drop s bs) = push_bit (length bs) x OR wob (take s bs @ drop s bs)"
      using s(3) by (simp add: wob_append push_bit_or or.assoc del: append_take_drop_id)
    moreover have "rp_bits (length bs) x p = rp_bits (length bs - s) ?x p2"
      using p1(1,4) False byte_slice[OF s(2), of b]
      by (subst rp_bits.simps) (simp add: t p2_def Let_def flip: s_def)
    ultimately show ?thesis using p' by simp
  qed
qed

lemma rp_u_holds: "rp_holds p (bs @ q) \<Longrightarrow> \<exists>p'. rp_u (length bs) p = Some (wob bs, p') \<and> rp_holds p' q"
  using rp_bits_holds[of p bs q 0] by (simp add: rp_u_def)

lemma rp_se_ue:
  assumes "rp_ue m s = Some (k, s1)" "unat k < 2 ^ 32 - 1"
  shows "rp_se m s = Some (if odd (unat k) then int (unat k div 2 + 1) else - int (unat k div 2), s1)"
proof -
  have "k AND 1 \<noteq> 0 \<longleftrightarrow> odd (unat k)"
    by (simp add: and_one_eq odd_iff_mod_2_eq_one unat_mod flip: unat_eq_zero)
  moreover have h: "unat (drop_bit 1 k) = unat k div 2" "unat k div 2 < 2 ^ 31" "odd (unat k) \<Longrightarrow> unat k div 2 + 1 < 2 ^ 31"
    using assms(2) unat_drop_half[of k] by (auto elim: oddE)
  moreover have "odd (unat k) \<Longrightarrow> unat (drop_bit 1 k + 1) = unat k div 2 + 1"
    using h by (simp add: unat_word_ariths)
  ultimately show ?thesis using assms(1)
    by (auto simp: rp_se_def sint_small)
qed

interpretation rp: golomb_reader rp_holds rp_u rp_zeros "rp_ue m" "rp_se m" for m :: isa
proof unfold_locales
  fix s p q
  assume "rp_holds s (p @ q)" "0 < length p" "length p < 32"
  then show "\<exists>s'. rp_u (length p) s = Some (wob p, s') \<and> rp_holds s' q" using rp_u_holds by simp
next
  fix s q
  assume "rp_holds s (True # q)"
  then show "\<exists>s'. rp_zeros s = Some (0, s') \<and> rp_holds s' q"
    using rp_u_holds[of s "[True]" q] by (subst rp_zeros.simps) (auto simp: wob_single)
next
  fix s and q :: "bool list"
  assume "rp_holds s (False # q)"
  then obtain s' where s': "rp_u 1 s = Some (0, s')" "rp_holds s' q"
    using rp_u_holds[of s "[False]" q] by (auto simp: wob_single)
  then have "rp_zeros s = map_option (\<lambda>(k, t). (k + 1, t)) (rp_zeros s')"
    by (subst rp_zeros.simps) (cases "rp_zeros s'"; auto)
  then show "\<exists>s'. rp_holds s' q \<and> rp_zeros s = map_option (\<lambda>(k, t). (k + 1, t)) (rp_zeros s')" using s' by blast
next
  fix s s1
  assume "rp_zeros s = Some (0, s1)"
  then show "rp_ue m s = Some (0, s1)" by (simp add: rp_ue_def rp_u_def rp_bits.simps)
next
  fix s s1 s2 :: rbsp_parser and z v
  assume z: "rp_zeros s = Some (of_nat z, s1)" "0 < z" "z < 32" "rp_u z s1 = Some (v, s2)"
  have "unat (of_nat z :: u32) = z" using z(3) by (simp add: unat_of_nat take_bit_nat_eq_self)
  then show "rp_ue m s = Some (push_bit z 1 - 1 + v, s2)" using z by (simp add: rp_ue_def)
next
  fix s s1 :: rbsp_parser and k
  assume "rp_ue m s = Some (k, s1)" "unat k < 2 ^ 32 - 1"
  then show "rp_se m s = Some (if odd (unat k) then int (unat k div 2 + 1) else - int (unat k div 2), s1)"
    by (rule rp_se_ue)
qed

end
