(* ===== verification/H264Frames.thy ===== *)
theory H264Frames
  imports H264UtilsSpec H264Nal
begin

unbundle bit_operations_syntax

text \<open>
  The extraction of a payload undoes the emulation prevention of a writer, and the detection of
  frames finds the access units of a stream.
\<close>

section \<open>Copying a payload\<close>

text \<open>The zeros that \<open>copy_rbsp\<close> has counted after a payload.\<close>

fun zeros_after :: "nat \<Rightarrow> byte list \<Rightarrow> nat" where
  "zeros_after z [] = z"
| "zeros_after z (b # bs) = zeros_after (if b = 0 then (if z \<ge> 2 then 1 else z + 1) else 0) bs"

definition write_at :: "nat \<Rightarrow> byte list \<Rightarrow> byte list \<Rightarrow> byte list" where
  "write_at i bs mem = take i mem @ bs @ drop (i + length bs) mem"

lemma write_at_Nil [simp]: "write_at i [] mem = mem"
  by (simp add: write_at_def)

lemma length_write_at [simp]: "i + length bs \<le> length mem \<Longrightarrow> length (write_at i bs mem) = length mem"
  by (simp add: write_at_def)

lemma write_at_Cons:
  "i < length mem \<Longrightarrow> write_at (Suc i) bs (mem[i := b]) = write_at i (b # bs) mem"
  by (simp add: write_at_def upd_conv_take_nth_drop take_Suc_conv_app_nth add.commute)

lemma rd_nth: "drop (unat i) buf = b # bs \<Longrightarrow> rd buf i = Some b"
  by (metis drop_all linorder_not_less list.distinct(1) nth_via_drop rd_def)

lemma drop_Suc_of: "drop n xs = b # bs \<Longrightarrow> drop (Suc n) xs = bs"
  by (metis drop_Suc list.sel(3) tl_drop)

lemma unat_Suc: "unat (i :: u32) < 2 ^ 32 - 1 \<Longrightarrow> unat (i + 1) = Suc (unat i)"
  by (simp add: unat_word_ariths)

lemma unat_next: "unat (i :: u32) < unat (l :: u32) \<Longrightarrow> unat (i + 1) = Suc (unat i)"
  using unsigned_less[of l, where ?'a = nat] by (intro unat_Suc) simp

lemma copy_one:
  assumes "drop (unat pos) buf = b # rest" "unat pos < unat limit" "z \<le> 2" "z = 2 \<Longrightarrow> b > 3"
    "unat len < length mem"
  shows "copy_rbsp buf sc limit pos (of_nat z) mem len =
    copy_rbsp buf sc limit (pos + 1) (of_nat (if b = 0 then z + 1 else 0)) (mem[unat len := b]) (len + 1)"
proof -
  have "pos < limit" using assms(2) by (simp add: word_less_nat_alt)
  moreover have "z = 0 \<or> z = 1 \<or> z = 2" using assms(3) by auto
  moreover have "z = 2 \<Longrightarrow> \<not> b \<le> 1 \<and> b \<noteq> 3 \<and> b \<noteq> 0"
    using assms(4) by (auto simp: word_le_nat_alt word_less_nat_alt)
  ultimately show ?thesis using assms(5) rd_nth[OF assms(1)]
    by (subst copy_rbsp.simps) (auto simp: Let_def)
qed

lemma copy_rbsp_escaped:
  assumes "drop (unat pos) buf = escape z payload @ rest" "z \<le> 2"
    "unat pos + length (escape z payload) \<le> unat limit" "unat len + length payload \<le> length mem" "length mem < 2 ^ 32"
  shows "copy_rbsp buf sc limit pos (of_nat z) mem len =
    copy_rbsp buf sc limit (pos + of_nat (length (escape z payload))) (of_nat (zeros_after z payload))
      (write_at (unat len) payload mem) (len + of_nat (length payload))"
  using assms
proof (induction payload arbitrary: z pos len mem)
  case Nil
  then show ?case by simp
next
  case (Cons b payload)
  have len: "unat len < length mem" using Cons.prems(4) by simp
  have len1: "unat (len + 1) = Suc (unat len)" using len Cons.prems(5) by (intro unat_Suc) simp
  define y where "y = (if b = 0 then (if z \<ge> 2 then 1 else z + 1) else 0)"
  have y: "y \<le> 2" "zeros_after z (b # payload) = zeros_after y payload" by (auto simp: y_def)
  have step: "copy_rbsp buf sc limit (p + 1) (of_nat y) (mem[unat len := b]) (len + 1) =
    copy_rbsp buf sc limit (p + of_nat (Suc (length (escape y payload)))) (of_nat (zeros_after y payload))
      (write_at (unat len) (b # payload) mem) (len + of_nat (length (b # payload)))"
    if "drop (unat p) buf = b # escape y payload @ rest" "unat p < unat limit"
      "unat p + Suc (length (escape y payload)) \<le> unat limit" for p
  proof -
    have p1: "unat (p + 1) = Suc (unat p)" using that(2) by (rule unat_next)
    have "drop (unat (p + 1)) buf = escape y payload @ rest" using drop_Suc_of[OF that(1)] by (simp add: p1)
    then have "copy_rbsp buf sc limit (p + 1) (of_nat y) (mem[unat len := b]) (len + 1) =
      copy_rbsp buf sc limit (p + 1 + of_nat (length (escape y payload))) (of_nat (zeros_after y payload))
        (write_at (unat (len + 1)) payload (mem[unat len := b])) (len + 1 + of_nat (length payload))"
      using that(3) Cons.prems(4,5) y(1) by (intro Cons.IH) (auto simp: p1 len1)
    also have "write_at (unat (len + 1)) payload (mem[unat len := b]) = write_at (unat len) (b # payload) mem"
      unfolding len1 using len by (rule write_at_Cons)
    finally show ?thesis by (simp only: list.size(4) of_nat_Suc add_ac add_0 plus_nat.simps One_nat_def)
  qed
  show ?case
  proof (cases "b \<le> 3 \<and> z \<ge> 2")
    case False
    then have e: "escape z (b # payload) = b # escape y payload" by (auto simp: y_def)
    have lim: "unat pos < unat limit" using Cons.prems(3)[unfolded e] by simp
    have "copy_rbsp buf sc limit pos (of_nat z) mem len =
        copy_rbsp buf sc limit (pos + 1) (of_nat (if b = 0 then z + 1 else 0)) (mem[unat len := b]) (len + 1)"
      using Cons.prems(1)[unfolded e] Cons.prems(2) False lim len by (intro copy_one) auto
    moreover have "(if b = 0 then z + 1 else 0) = y" using False by (auto simp: y_def)
    ultimately show ?thesis using step[of pos] Cons.prems(1,3)[unfolded e] lim unfolding e y(2) by simp
  next
    case True
    let ?r = "escape y payload"
    have e: "escape z (b # payload) = 3 # b # ?r" using True by (auto simp: y_def)
    have z: "z = 2" using True Cons.prems(2) by simp
    have lim: "unat pos < unat limit" using Cons.prems(3)[unfolded e] by simp
    have p1: "unat (pos + 1) = Suc (unat pos)" using lim by (rule unat_next)
    have d: "drop (unat (pos + 1)) buf = b # ?r @ rest" using drop_Suc_of[of "unat pos" buf] Cons.prems(1)[unfolded e] by (simp add: p1)
    have lim1: "unat (pos + 1) < unat limit" using Cons.prems(3)[unfolded e] by (simp add: p1)
    have "copy_rbsp buf sc limit pos (of_nat z) mem len = copy_rbsp buf sc limit (pos + 1) (of_nat 0) mem len"
      using rd_nth[of pos buf 3] Cons.prems(1)[unfolded e] lim z
      by (subst copy_rbsp.simps) (simp add: word_less_nat_alt)
    also have "\<dots> = copy_rbsp buf sc limit (pos + 1 + 1) (of_nat (if b = 0 then 0 + 1 else 0)) (mem[unat len := b]) (len + 1)"
      using d lim1 len by (intro copy_one) auto
    also have "(if b = 0 then 0 + 1 else 0) = y" using z by (simp add: y_def)
    also have "copy_rbsp buf sc limit (pos + 1 + 1) (of_nat y) (mem[unat len := b]) (len + 1) =
        copy_rbsp buf sc limit (pos + 1 + of_nat (Suc (length ?r))) (of_nat (zeros_after y payload))
        (write_at (unat len) (b # payload) mem) (len + of_nat (length (b # payload)))"
      using Cons.prems(3)[unfolded e] by (intro step[OF d lim1]) (simp add: p1)
    finally show ?thesis unfolding e y(2) by (simp add: add_ac)
  qed
qed

section \<open>Extraction\<close>

definition header_of :: "byte \<Rightarrow> nalu" where
  "header_of h = \<lparr>nal_ref_idc = drop_bit 5 (ucast (h AND 0x60)), nalu_type = ucast (h AND 0x1F),
     forbidden_zero_bit = ucast (h AND 0x80)\<rparr>"

lemma unat_of_small: "n < 2 ^ 32 \<Longrightarrow> unat (of_nat n :: u32) = n"
  by (simp add: unat_of_nat take_bit_nat_eq_self)

lemma ucast_byte_inj: "ucast (a :: byte) = (ucast b :: u32) \<longleftrightarrow> a = b"
proof -
  have "ucast (ucast x :: u32) = x" for x :: byte
    by (rule ucast_up_ucast_id) (simp add: is_up_def source_size_def target_size_def word_size)
  then show ?thesis by metis
qed

lemma header_end: "nalu_type (header_of h) = 10 \<longleftrightarrow> h AND 31 = 10" "nalu_type (header_of h) = 11 \<longleftrightarrow> h AND 31 = 11"
proof -
  have "ucast (h AND 31) = (10 :: u32) \<longleftrightarrow> h AND 31 = 10" "ucast (h AND 31) = (11 :: u32) \<longleftrightarrow> h AND 31 = 11"
    using ucast_byte_inj[of "h AND 31" 10] ucast_byte_inj[of "h AND 31" 11] by simp_all
  then show "nalu_type (header_of h) = 10 \<longleftrightarrow> h AND 31 = 10" "nalu_type (header_of h) = 11 \<longleftrightarrow> h AND 31 = 11"
    by (simp_all add: header_of_def)
qed

text \<open>The search ends after a start code of three or four bytes.\<close>

lemma find_prefix_start:
  assumes "buf = replicate z 0 @ 1 # rest" "z = 2 \<or> z = 3" "z < unat buffer_length"
  shows "find_prefix buf buffer_length 0 0 2 = Some (Some (of_nat z + 1))"
proof (cases "z = 2")
  case True
  then show ?thesis using assms rd_nth[of 2 buf 1 rest]
    by (subst find_prefix.simps) (simp add: word_le_nat_alt)
next
  case False
  then have z: "z = 3" using assms(2) by simp
  then have "find_prefix buf buffer_length 0 0 3 = Some (Some 4)" using assms rd_nth[of 3 buf 1 rest]
    by (subst find_prefix.simps) (simp add: word_le_nat_alt)
  then show ?thesis using assms z rd_nth[of 2 buf 0 "1 # rest"]
    by (subst find_prefix.simps) (simp add: word_le_nat_alt)
qed

text \<open>What \<open>extract_rbsp\<close> does once the place of the header is known.\<close>

lemma extract_start:
  assumes "drop (unat pos) buf = h # rest" "h AND 31 \<noteq> 10" "h AND 31 \<noteq> 11"
    "nal_len \<le> buffer_length" "pos + 1 \<le> nal_len + field"
    "(if field = 0 then do { coef2 \<leftarrow> rd buf 0; coef3 \<leftarrow> rd buf 1;
                  r \<leftarrow> find_prefix buf buffer_length coef2 coef3 2;
                  Some (map_option (\<lambda>pos. (pos, buffer_length)) r) }
           else do { (pos, nal_len) \<leftarrow> nal_length_loop m buf (unat field) 0 0;
                  Some (if nal_len \<ge> buffer_length then None else Some (pos, nal_len)) }) = Some (Some (pos, nal_len))"
  shows "extract_rbsp m buf buffer_length field mem len0 nal0 =
    map_option (\<lambda>(ret, mem, len). (ret, mem, len, header_of h))
      (copy_rbsp buf (field = 0) (nal_len + field) (pos + 1) 0 mem 0)"
proof -
  have "extract_rbsp m buf buffer_length field mem len0 nal0 =
     Option.bind (copy_rbsp buf (field = 0) (nal_len + field) (pos + 1) 0 mem 0)
      (\<lambda>(ret, mem, len). Some (ret, mem, len, header_of h))"
    using assms(2-5) header_end[of h] rd_nth[OF assms(1)]
    unfolding extract_rbsp_def Let_def assms(6) header_of_def[symmetric]
    by (simp add: leD)
  then show ?thesis by (cases "copy_rbsp buf (field = 0) (nal_len + field) (pos + 1) 0 mem 0") auto
qed

lemma drop_nal_bytes: "drop (z + 1) (nal_bytes z h payload @ rest) = h # escape 0 payload @ rest"
  by (simp add: nal_bytes_def)

lemma extract_start_code:
  assumes "z = 2 \<or> z = 3" "h AND 31 \<noteq> 10" "h AND 31 \<noteq> 11"
    "length (nal_bytes z h payload) \<le> unat buffer_length"
  shows "extract_rbsp m (nal_bytes z h payload @ rest) buffer_length 0 mem len0 nal0 =
    map_option (\<lambda>(ret, mem, len). (ret, mem, len, header_of h))
      (copy_rbsp (nal_bytes z h payload @ rest) True buffer_length (of_nat z + 2) 0 mem 0)"
proof -
  let ?buf = "nal_bytes z h payload @ rest"
  have z: "unat (of_nat z + 1 :: u32) = z + 1" using assms(1) by auto
  have p: "find_prefix ?buf buffer_length 0 0 2 = Some (Some (of_nat z + 1))"
    using assms(1,4) by (intro find_prefix_start) (auto simp: nal_bytes_def)
  have "rd ?buf 0 = Some 0" "rd ?buf 1 = Some 0"
    using assms(1) by (auto simp: rd_def nal_bytes_def nth_append)
  moreover have "of_nat z + 1 + 1 \<le> buffer_length"
    using assms(1,4) by (auto simp: word_le_nat_alt nal_bytes_def)
  moreover have "drop (unat (of_nat z + 1 :: u32)) ?buf = h # escape 0 payload @ rest"
    unfolding z by (rule drop_nal_bytes)
  ultimately show ?thesis using p assms(2,3)
    by (subst extract_start[of "of_nat z + 1" _ h _ buffer_length]) (simp_all add: add.assoc)
qed

lemma nal_unit_copied:
  assumes "z = 2 \<or> z = 3" "length (nal_bytes z h payload) \<le> unat buffer_length"
    "length payload \<le> length mem" "length mem < 2 ^ 32"
  shows "copy_rbsp (nal_bytes z h payload @ rest) sc buffer_length (of_nat z + 2) 0 mem 0 =
    copy_rbsp (nal_bytes z h payload @ rest) sc buffer_length (of_nat (length (nal_bytes z h payload)))
      (of_nat (zeros_after 0 payload)) (write_at 0 payload mem) (of_nat (length payload))"
proof -
  have "unat (of_nat z + 2 :: u32) = z + 2" using assms(1) by auto
  moreover have "length (nal_bytes z h payload) = z + 2 + length (escape 0 payload)" by (simp add: nal_bytes_def)
  moreover have "drop (z + 2) (nal_bytes z h payload @ rest) = escape 0 payload @ rest" by (simp add: nal_bytes_def)
  ultimately show ?thesis
    using copy_rbsp_escaped[of "of_nat z + 2" "nal_bytes z h payload @ rest" 0 payload rest buffer_length 0 mem sc] assms
    by (simp add: add_ac)
qed

lemma extract_alone:
  assumes "z = 2 \<or> z = 3" "h AND 31 \<noteq> 10" "h AND 31 \<noteq> 11" "length (nal_bytes z h payload) < 2 ^ 32"
    "length payload \<le> length mem" "length mem < 2 ^ 32"
  shows "extract_rbsp m (nal_bytes z h payload @ rest) (of_nat (length (nal_bytes z h payload))) 0 mem len0 nal0 =
    Some (1, write_at 0 payload mem, of_nat (length payload), header_of h)"
proof -
  have "length (nal_bytes z h payload) \<le> unat (of_nat (length (nal_bytes z h payload)) :: u32)"
    using assms(4) by (simp add: unat_of_small)
  then show ?thesis using assms
    by (subst extract_start_code, simp_all only:, subst nal_unit_copied, simp_all only:)
      (subst copy_rbsp.simps, simp)
qed

text \<open>
  If another start code follows a payload that does not end in a zero, the payload is the same
  and the result is the position of the start code, cut to a byte.
\<close>

lemma extract_before:
  assumes "z = 2 \<or> z = 3" "h AND 31 \<noteq> 10" "h AND 31 \<noteq> 11"
    "length (nal_bytes z h payload) + 3 \<le> unat buffer_length" "x \<le> 1"
    "length payload + 2 \<le> length mem" "length mem < 2 ^ 32" "zeros_after 0 payload = 0"
  shows "extract_rbsp m (nal_bytes z h payload @ 0 # 0 # x # rest) buffer_length 0 mem len0 nal0 =
    Some (ucast (of_nat (length (nal_bytes z h payload)) :: u32), write_at 0 (payload @ [0, 0]) mem, of_nat (length payload), header_of h)"
proof -
  let ?n = "nal_bytes z h payload" and ?rest = "0 # 0 # x # rest"
  let ?buf = "?n @ ?rest" and ?p = "of_nat (length ?n) :: u32" and ?l = "of_nat (length payload) :: u32"
  have n: "length ?n + 3 < 2 ^ 32" using assms(4) unsigned_less[of buffer_length, where ?'a = nat] by simp
  have p: "unat ?p = length ?n" "unat (?p + 1) = length ?n + 1" "unat (?p + 1 + 1) = length ?n + 2"
    using n unat_of_small[of "length ?n"] unat_of_small[of "length ?n + 1"] unat_of_small[of "length ?n + 2"] by (simp_all add: add_ac)
  have l: "unat ?l = length payload" "unat (?l + 1) = length payload + 1"
    using assms(6,7) unat_of_small[of "length payload"] unat_of_small[of "length payload + 1"] by (simp_all add: add_ac)
  have lim: "unat ?p < unat buffer_length" "unat (?p + 1) < unat buffer_length" "unat (?p + 1 + 1) < unat buffer_length"
    using assms(4) unfolding p by simp_all
  let ?m0 = "write_at 0 payload mem"
  have "copy_rbsp ?buf True buffer_length (of_nat z + 2) 0 mem 0 = copy_rbsp ?buf True buffer_length ?p (of_nat 0) ?m0 ?l"
    using nal_unit_copied[of z h payload buffer_length mem ?rest True] assms by simp
  also have "\<dots> = copy_rbsp ?buf True buffer_length (?p + 1) (of_nat (if 0 = (0 :: byte) then 0 + 1 else 0)) (?m0[unat ?l := 0]) (?l + 1)"
    using assms(6) by (intro copy_one[OF _ lim(1)]) (simp_all add: p l)
  also have "\<dots> = copy_rbsp ?buf True buffer_length (?p + 1) (of_nat 1) (?m0[unat ?l := 0]) (?l + 1)" by simp
  also have "\<dots> = copy_rbsp ?buf True buffer_length (?p + 1 + 1) (of_nat (if 0 = (0 :: byte) then 1 + 1 else 0))
      (?m0[unat ?l := 0, unat (?l + 1) := 0]) (?l + 1 + 1)"
    using assms(6) by (intro copy_one[OF _ lim(2)]) (simp_all add: p l)
  also have "\<dots> = Some (ucast (?p + 1 + 1 - 2), ?m0[unat ?l := 0, unat (?l + 1) := 0], ?l + 1 + 1 - 2)"
  proof -
    have "drop (unat (?p + 1 + 1)) ?buf = x # rest" unfolding p(3) by simp
    then have "rd ?buf (?p + 1 + 1) = Some x" by (rule rd_nth)
    moreover have "x \<noteq> 3" using assms(5) by (auto simp: word_le_nat_alt)
    ultimately show ?thesis using lim(3) assms(5) by (subst copy_rbsp.simps) (simp add: word_less_nat_alt)
  qed
  also have "?m0[unat ?l := 0, unat (?l + 1) := 0] = write_at 0 (payload @ [0, 0]) mem"
    using assms(6) by (simp add: l write_at_def list_update_append upd_conv_take_nth_drop drop_Suc take_Suc_conv_app_nth)
  finally show ?thesis
    using extract_start_code[OF assms(1-3), of payload buffer_length m ?rest mem len0 nal0] assms(4)
    by simp
qed

text \<open>With the length before the NAL unit in one to four bytes, most significant first.\<close>

lemma nal_length_loop_read:
  assumes "drop (unat pos) buf = lb @ rest" "length lb \<le> 4" "unat pos + length lb < 2 ^ 32"
  shows "nal_length_loop m buf (length lb) pos acc = Some (pos + of_nat (length lb), acc OR wob (bytes_bits lb))"
  using assms
proof (induction lb arbitrary: pos acc)
  case (Cons b lb)
  have p: "unat (pos + 1) = Suc (unat pos)" using Cons.prems(3) by (intro unat_Suc) simp
  have d: "drop (unat (pos + 1)) buf = lb @ rest" using drop_Suc_of[of "unat pos" buf] Cons.prems(1) by (simp add: p)
  have "lsl m (ucast b) (8 * length lb) = push_bit (8 * length lb) (ucast b)" using Cons.prems(2) by simp
  then show ?case
    using Cons.IH[OF d] Cons.prems(2,3) p rd_nth[of pos buf b] Cons.prems(1)
    by (simp add: wob_append wob_bits_of or.assoc)
qed simp

lemma extract_with_length:
  assumes "1 \<le> length lb" "length lb \<le> 4" "nob (bytes_bits lb) = 1 + length (escape 0 payload)"
    "h AND 31 \<noteq> 10" "h AND 31 \<noteq> 11" "length lb + 1 + length (escape 0 payload) \<le> unat buffer_length"
    "length payload \<le> length mem" "length mem < 2 ^ 32"
  shows "extract_rbsp m (lb @ h # escape 0 payload @ rest) buffer_length (of_nat (length lb)) mem len0 nal0 =
    Some (1, write_at 0 payload mem, of_nat (length payload), header_of h)"
proof -
  let ?buf = "lb @ h # escape 0 payload @ rest" and ?k = "of_nat (length lb) :: u32"
  let ?n = "length (escape 0 payload)"
  define nal_len :: u32 where "nal_len = of_nat (1 + ?n)"
  have small: "length lb + 1 + ?n < 2 ^ 32" using assms(6) unsigned_less[of buffer_length, where ?'a = nat] by simp
  have k: "unat ?k = length lb" "?k \<noteq> 0" "unat (?k + 1) = length lb + 1"
    using assms(1,2) unat_of_small[of "length lb"] unat_of_small[of "length lb + 1"] by (auto simp: add_ac)
  have n: "unat nal_len = 1 + ?n" "unat (nal_len + ?k) = 1 + ?n + length lb"
    using small unat_of_small[of "1 + ?n"] unat_of_small[of "1 + ?n + length lb"] by (simp_all add: nal_len_def add_ac)
  have "(wob (bytes_bits lb) :: u32) = nal_len" unfolding wob_nob assms(3) nal_len_def ..
  then have loop: "nal_length_loop m ?buf (unat ?k) 0 0 = Some (?k, nal_len)"
    using nal_length_loop_read[of 0 ?buf lb "h # escape 0 payload @ rest" m 0] assms(2) k(1) by simp
  have "copy_rbsp ?buf False (nal_len + ?k) (?k + 1) (of_nat 0) mem 0 =
    copy_rbsp ?buf False (nal_len + ?k) (?k + 1 + of_nat ?n) (of_nat (zeros_after 0 payload))
      (write_at (unat (0 :: u32)) payload mem) (0 + of_nat (length payload))"
    using assms(7,8) by (intro copy_rbsp_escaped[of _ _ _ _ rest]) (auto simp: k(3) n(2))
  also have "\<dots> = Some (1, write_at 0 payload mem, of_nat (length payload))"
    by (subst copy_rbsp.simps) (simp add: nal_len_def add_ac)
  finally have copy: "copy_rbsp ?buf False (nal_len + ?k) (?k + 1) 0 mem 0 =
    Some (1, write_at 0 payload mem, of_nat (length payload))" by simp
  have "extract_rbsp m ?buf buffer_length ?k mem len0 nal0 =
    map_option (\<lambda>(ret, mem, len). (ret, mem, len, header_of h))
      (copy_rbsp ?buf (?k = 0) (nal_len + ?k) (?k + 1) 0 mem 0)"
  proof (rule extract_start)
    show "drop (unat ?k) ?buf = h # escape 0 payload @ rest" by (simp add: k(1))
    show "nal_len \<le> buffer_length" using assms(6) by (simp add: word_le_nat_alt n(1))
    show "?k + 1 \<le> nal_len + ?k" by (simp add: word_le_nat_alt n(2) k(3))
    have "\<not> buffer_length \<le> nal_len" using assms(1,6) by (simp add: word_le_nat_alt n(1))
    then show "(if ?k = 0 then do { coef2 \<leftarrow> rd ?buf 0; coef3 \<leftarrow> rd ?buf 1;
                  r \<leftarrow> find_prefix ?buf buffer_length coef2 coef3 2;
                  Some (map_option (\<lambda>pos. (pos, buffer_length)) r) }
           else do { (pos, nal_len) \<leftarrow> nal_length_loop m ?buf (unat ?k) 0 0;
                  Some (if nal_len \<ge> buffer_length then None else Some (pos, nal_len)) }) = Some (Some (?k, nal_len))"
      unfolding loop using k(2) by simp
  qed (use assms in auto)
  then show ?thesis using copy k(2) by simp
qed

section \<open>The first macroblock of a slice\<close>

text \<open>
  The reader removes emulation prevention again from bytes it was already removed from. That
  does not reach the code of a number below \<open>2\<^sup>1\<^sup>6 - 1\<close>.
\<close>

lemma bytes_bits_take: "bytes_bits (take n bs) = take (8 * n) (bytes_bits bs)"
proof (induction n arbitrary: bs)
  case (Suc n)
  then show ?case by (cases bs) simp_all
qed simp

lemma unescape_first: "\<exists>r. unescape 0 bs = take 2 bs @ r"
  by (cases bs rule: list.exhaust[case_product list.exhaust[of "tl bs"]]; cases bs; cases "tl bs") auto

lemma unescape_second: "length bs > 1 \<Longrightarrow> bs ! 1 \<noteq> 0 \<Longrightarrow> \<exists>r. unescape 0 bs = take 4 bs @ r"
proof -
  assume a: "length bs > 1" "bs ! 1 \<noteq> 0"
  then obtain b0 b1 rest where bs: "bs = b0 # b1 # rest" by (cases bs; cases "tl bs") auto
  show ?thesis
  proof (cases rest)
    case Nil
    then show ?thesis using a bs by auto
  next
    case (Cons b2 rest2)
    then show ?thesis using a bs by (cases rest2) auto
  qed
qed

lemma prefix_keep:
  assumes "bytes_bits bs = c @ q" "length c \<le> 8 * n" "unescape 0 (bs @ junk) = take n (bs @ junk) @ r"
  shows "\<exists>q'. bytes_bits (unescape 0 (bs @ junk)) = c @ q'"
proof -
  have "take (8 * n) (c @ q @ bytes_bits junk) = c @ take (8 * n - length c) (q @ bytes_bits junk)"
    using assms(2) by simp
  then show ?thesis using assms(1,3) by (simp add: bytes_bits_take del: take_append)
qed

lemma ue_code_kept:
  assumes "bytes_bits bs = ue_code k @ q" "k < 2 ^ 16 - 1"
  shows "\<exists>q'. bytes_bits (unescape 0 (bs @ junk)) = ue_code k @ q'"
proof -
  obtain t where t: "ue_code k = replicate (length t) False @ True # t" "k + 1 = 2 ^ length t + nob t"
    using ue_code_tail by blast
  have z: "length t < 16"
  proof (rule ccontr)
    assume "\<not> length t < 16"
    then have "(2::nat) ^ 16 \<le> 2 ^ length t" by (intro power_increasing) auto
    then show False using t(2) assms(2) by simp
  qed
  show ?thesis
  proof (cases "length t < 8")
    case True
    then show ?thesis using prefix_keep[OF assms(1), of 2] unescape_first[of "bs @ junk"] t(1) by auto
  next
    case False
    have l: "length (bytes_bits bs) > 16" using False by (simp add: assms(1) t(1))
    then obtain b0 b1 rest where bs: "bs = b0 # b1 # rest" by (cases bs; cases "tl bs") auto
    have "bytes_bits bs ! length t = True" by (simp add: assms(1) t(1) nth_append)
    moreover have "length t - 8 < 8" using z by linarith
    moreover from this have "bytes_bits bs ! length t = bits_of b1 ! (length t - 8)"
      using False \<open>length t - 8 < 8\<close> by (simp add: bs nth_append)
    ultimately have "bit b1 (7 - (length t - 8))" using False z by (simp add: bits_of_def rev_nth)
    then have "b1 \<noteq> 0" by auto
    then show ?thesis using prefix_keep[OF assms(1), of 4] unescape_second[of "bs @ junk"] t(1) z bs by auto
  qed
qed

section \<open>One NAL unit\<close>

definition starts_with :: "bool list \<Rightarrow> byte list \<Rightarrow> bool" where
  "starts_with c p \<longleftrightarrow> take (length c) (bytes_bits p) = c"

definition slice_type :: "byte \<Rightarrow> bool" where
  "slice_type h \<longleftrightarrow> h AND 31 = 1 \<or> h AND 31 = 5"

definition prefix_type :: "byte \<Rightarrow> bool" where
  "prefix_type h \<longleftrightarrow> h AND 31 = 6 \<or> h AND 31 = 7 \<or> h AND 31 = 8"

definition nal_buffer :: "byte \<times> byte list \<Rightarrow> byte list" where
  "nal_buffer x = nal_bytes 3 (fst x) (snd x)"

definition fits :: "nat \<Rightarrow> byte \<times> byte list \<Rightarrow> bool" where
  "fits n x \<longleftrightarrow> length (snd x) \<le> n \<and> length (nal_buffer x) < 2 ^ 32"

lemma first_mb_read:
  assumes "starts_with (ue_code k) p" "k < 2 ^ 16 - 1"
  shows "\<exists>s. rp_ue m (rbsp_parser_new (write_at 0 p mem) e) = Some (of_nat k, s)"
proof -
  have "bytes_bits p = ue_code k @ drop (length (ue_code k)) (bytes_bits p)"
    using assms(1) unfolding starts_with_def by (metis append_take_drop_id)
  from ue_code_kept[OF this assms(2), of "drop (length p) mem"] obtain q where
    "bytes_bits (unescape 0 (write_at 0 p mem)) = ue_code k @ q" by (auto simp: write_at_def)
  moreover have "zc 0xFFFFFF = 0"
    by (simp add: zc_def take_bit_eq_mod)
  ultimately have "rp_holds (rbsp_parser_new (write_at 0 p mem) e) (ue_code k @ q)"
    by (simp add: rp_holds_def rbsp_parser_new_def rp_rest_def)
  from rp.ue_read[OF this, of m] assms(2) show ?thesis by auto
qed

lemma nal_extracted:
  assumes "slice_type (fst x) \<or> prefix_type (fst x)" "fits (length mem) x" "length mem < 2 ^ 32"
  shows "extract_rbsp m (nal_buffer x) (of_nat (length (nal_buffer x))) 0 mem len0 nal0 =
    Some (1, write_at 0 (snd x) mem, of_nat (length (snd x)), header_of (fst x))"
  using extract_alone[of 3 "fst x" "snd x" mem m "[]" len0 nal0] assms
  by (auto simp: nal_buffer_def fits_def slice_type_def prefix_type_def)

lemma type_of_header:
  "nalu_type (header_of h) = ucast c \<longleftrightarrow> h AND 31 = c"
  by (simp add: header_of_def ucast_byte_inj)

lemma nal_types:
  "slice_type h \<longleftrightarrow> nalu_type (header_of h) = NALU_TYPE_IDR \<or> nalu_type (header_of h) = NALU_TYPE_NON_IDR"
  "prefix_type h \<longleftrightarrow> nalu_type (header_of h) = 6 \<or> nalu_type (header_of h) = 7 \<or> nalu_type (header_of h) = 8"
  using type_of_header[of h 1] type_of_header[of h 5] type_of_header[of h 6] type_of_header[of h 7] type_of_header[of h 8]
  by (auto simp: slice_type_def prefix_type_def)

text \<open>The state between two calls, with what the next answer depends on.\<close>

definition between :: "nat \<Rightarrow> bool \<Rightarrow> bool \<Rightarrow> nalu \<Rightarrow> h264_utils \<Rightarrow> bool" where
  "between n stitch au prv u \<longleftrightarrow> length (m_rbspBytes u) = n \<and> m_forceToStichNextNAL u = stitch \<and> m_au_data u = au \<and>
     m_prv_nalu u = prv"

lemma isNewFrame_slice:
  assumes "between n stitch au prv u" "slice_type h" "starts_with (ue_code k) p" "k < 2 ^ 16 - 1"
    "fits n (h, p)" "n < 2 ^ 32"
  shows "\<exists>u'. isNewFrame m nal0 (nal_buffer (h, p)) (of_nat (length (nal_buffer (h, p)))) 0 u =
      Some (True, \<not> stitch \<and> begins_frame prv (header_of h) (of_nat k), u') \<and>
    between n False True (header_of h) u'"
proof -
  have e: "extract_rbsp m (nal_buffer (h, p)) (of_nat (length (nal_buffer (h, p)))) 0 (m_rbspBytes u) 0 nal0 =
    Some (1, write_at 0 p (m_rbspBytes u), of_nat (length p), header_of h)"
    using nal_extracted[of "(h, p)" "m_rbspBytes u" m 0 nal0] assms(1,2,5,6) by (simp add: between_def)
  obtain s where "rp_ue m (rbsp_parser_new (write_at 0 p (m_rbspBytes u)) (length p)) = Some (of_nat k, s)"
    using first_mb_read[OF assms(3,4)] by blast
  moreover have "unat (of_nat (length p) :: u32) = length p"
    using assms(1,5,6) by (intro unat_of_small) (auto simp: fits_def)
  moreover have "ucast (of_nat k :: u32) = (of_nat k :: 16 word)"
    using assms(4) by (simp add: unsigned_of_nat take_bit_nat_eq_self)
  ultimately show ?thesis
    using e assms(1,2,5) nal_types(1)[of h]
    by (auto simp: isNewFrame_def new_frame_switch_def between_def fits_def)
qed

lemma isNewFrame_prefix:
  assumes "between n stitch au prv u" "prefix_type h" "fits n (h, p)" "n < 2 ^ 32"
  shows "\<exists>u'. isNewFrame m nal0 (nal_buffer (h, p)) (of_nat (length (nal_buffer (h, p)))) 0 u = Some (True, au, u') \<and>
    between n True False (header_of h) u'"
proof -
  have "extract_rbsp m (nal_buffer (h, p)) (of_nat (length (nal_buffer (h, p)))) 0 (m_rbspBytes u) 0 nal0 =
    Some (1, write_at 0 p (m_rbspBytes u), of_nat (length p), header_of h)"
    using nal_extracted[of "(h, p)" "m_rbspBytes u" m 0 nal0] assms by (simp add: between_def)
  then show ?thesis
    using assms(1,2,3) nal_types(2)[of h]
    by (auto simp: isNewFrame_def new_frame_switch_def between_def fits_def)
qed

section \<open>Access units\<close>

text \<open>
  An access unit is given by the NAL units before its slices, the header of its slices, the
  payload of the first one, and the first macroblocks and payloads of the others.
\<close>

type_synonym access_unit = "(byte \<times> byte list) list \<times> byte \<times> byte list \<times> (nat \<times> byte list) list"

definition au_prefix :: "access_unit \<Rightarrow> (byte \<times> byte list) list" where
  "au_prefix = fst"

definition au_nals :: "access_unit \<Rightarrow> (byte \<times> byte list) list" where
  "au_nals = (\<lambda>(pre, h, p, slices). pre @ (h, p) # map (\<lambda>(k, p). (h, p)) slices)"

definition au_wf :: "access_unit \<Rightarrow> bool" where
  "au_wf = (\<lambda>(pre, h, p, slices). list_all (\<lambda>x. prefix_type (fst x)) pre \<and> slice_type h \<and> starts_with (ue_code 0) p \<and>
     list_all (\<lambda>(k, p). 0 < k \<and> k < 2 ^ 16 - 1 \<and> starts_with (ue_code k) p) slices)"

text \<open>The answers of \<open>isNewFrame\<close> for a sequence of buffers with one NAL unit each.\<close>

fun frame_starts :: "isa \<Rightarrow> nalu \<Rightarrow> byte list list \<Rightarrow> h264_utils \<Rightarrow> (bool list \<times> h264_utils) option" where
  "frame_starts m nal0 [] u = Some ([], u)"
| "frame_starts m nal0 (buf # bufs) u =
     do { (ret, new, u) \<leftarrow> isNewFrame m nal0 buf (of_nat (length buf)) 0 u;
          (news, u) \<leftarrow> frame_starts m nal0 bufs u;
          Some (new # news, u) }"

lemma frame_starts_append: "frame_starts m nal0 (xs @ ys) u =
    do { (as, u) \<leftarrow> frame_starts m nal0 xs u; (bs, u) \<leftarrow> frame_starts m nal0 ys u; Some (as @ bs, u) }"
  by (induction xs arbitrary: u) (auto split: Option.bind_split)

lemma starts_prefix:
  assumes "between n stitch au prv u" "list_all (\<lambda>x. prefix_type (fst x)) pre" "list_all (fits n) pre" "n < 2 ^ 32" "pre \<noteq> []"
  shows "\<exists>u' prv'. frame_starts m nal0 (map nal_buffer pre) u = Some (au # replicate (length pre - 1) False, u') \<and>
    between n True False prv' u'"
  using assms
proof (induction pre arbitrary: stitch au prv u)
  case (Cons x pre)
  obtain h p where x: "x = (h, p)" by (cases x)
  from isNewFrame_prefix[OF Cons.prems(1), of h p m nal0] Cons.prems obtain u1 where
    u1: "isNewFrame m nal0 (nal_buffer (h, p)) (of_nat (length (nal_buffer (h, p)))) 0 u = Some (True, au, u1)"
    "between n True False (header_of h) u1" by (auto simp: x)
  show ?case
  proof (cases "pre = []")
    case True
    then show ?thesis using u1 by (auto simp: x)
  next
    case False
    then have "False # replicate (length pre - 1) False = replicate (length pre) False" by (cases pre) auto
    then show ?thesis using Cons.IH[OF u1(2) _ _ Cons.prems(4) False] Cons.prems u1(1) by (auto simp: x)
  qed
qed simp

lemma starts_more:
  assumes "between n False True (header_of h) u" "slice_type h"
    "list_all (\<lambda>(k, p). 0 < k \<and> k < 2 ^ 16 - 1 \<and> starts_with (ue_code k) p) slices"
    "list_all (fits n) (map (\<lambda>(k, p). (h, p)) slices)" "n < 2 ^ 32"
  shows "\<exists>u'. frame_starts m nal0 (map nal_buffer (map (\<lambda>(k, p). (h, p)) slices)) u = Some (replicate (length slices) False, u') \<and>
    between n False True (header_of h) u'"
  using assms
proof (induction slices arbitrary: u)
  case (Cons x slices)
  obtain k p where x: "x = (k, p)" by (cases x)
  have "(of_nat k :: 16 word) \<noteq> 0" using Cons.prems(3) unfolding of_nat_eq_0_iff
    by (auto simp: x word_of_nat_eq_0_iff dest: nat_dvd_not_less)
  then have "\<not> begins_frame (header_of h) (header_of h) (of_nat k)" by (simp add: begins_frame_def)
  with isNewFrame_slice[OF Cons.prems(1,2), of k p m nal0] Cons.prems obtain u1 where
    u1: "isNewFrame m nal0 (nal_buffer (h, p)) (of_nat (length (nal_buffer (h, p)))) 0 u = Some (True, False, u1)"
    "between n False True (header_of h) u1" by (auto simp: x)
  show ?case using Cons.IH[OF u1(2)] Cons.prems u1(1) by (auto simp: x)
qed simp

lemma starts_au:
  assumes "between n False au prv u" "au_wf x" "list_all (fits n) (au_nals x)" "n < 2 ^ 32"
  shows "\<exists>u' prv'. frame_starts m nal0 (map nal_buffer (au_nals x)) u =
      Some ((au \<or> au_prefix x = []) # replicate (length (au_nals x) - 1) False, u') \<and> between n False True prv' u'"
proof -
  obtain pre h p slices where x: "x = (pre, h, p, slices)" by (cases x)
  have wf: "list_all (\<lambda>x. prefix_type (fst x)) pre" "slice_type h" "starts_with (ue_code 0) p"
    "list_all (\<lambda>(k, p). 0 < k \<and> k < 2 ^ 16 - 1 \<and> starts_with (ue_code k) p) slices"
    using assms(2) by (simp_all add: au_wf_def x)
  have fit: "list_all (fits n) pre" "fits n (h, p)" "list_all (fits n) (map (\<lambda>(k, p). (h, p)) slices)"
    using assms(3) by (simp_all add: au_nals_def x)
  have new: "begins_frame prv' (header_of h) (of_nat 0)" for prv' by (simp add: begins_frame_def)
  show ?thesis
  proof (cases "pre = []")
    case True
    from isNewFrame_slice[OF assms(1) wf(2,3) _ fit(2) assms(4), of m nal0] new obtain u1 where
      "isNewFrame m nal0 (nal_buffer (h, p)) (of_nat (length (nal_buffer (h, p)))) 0 u = Some (True, True, u1)"
      "between n False True (header_of h) u1" by auto
    then show ?thesis using starts_more[OF _ wf(2,4) fit(3) assms(4), of u1 m nal0] True
      by (auto simp: x au_nals_def au_prefix_def)
  next
    case False
    from starts_prefix[OF assms(1) wf(1) fit(1) assms(4) False, of m nal0] obtain u1 prv1 where
      u1: "frame_starts m nal0 (map nal_buffer pre) u = Some (au # replicate (length pre - 1) False, u1)"
      "between n True False prv1 u1" by blast
    from isNewFrame_slice[OF u1(2) wf(2,3) _ fit(2) assms(4), of m nal0] obtain u2 where
      u2: "isNewFrame m nal0 (nal_buffer (h, p)) (of_nat (length (nal_buffer (h, p)))) 0 u1 = Some (True, False, u2)"
      "between n False True (header_of h) u2" by auto
    obtain u3 where u3: "frame_starts m nal0 (map nal_buffer (map (\<lambda>(k, p). (h, p)) slices)) u2 =
        Some (replicate (length slices) False, u3)" "between n False True (header_of h) u3"
      using starts_more[OF u2(2) wf(2,4) fit(3) assms(4), of m nal0] by blast
    have "replicate (length pre - 1) False @ False # replicate (length slices) False =
        replicate (length (au_nals x) - 1) False"
    proof -
      have "length (au_nals x) - 1 = (length pre - 1) + Suc (length slices)" using False by (cases pre) (auto simp: x au_nals_def)
      then show ?thesis by (simp add: replicate_add replicate_append_same)
    qed
    then show ?thesis using u1(1) u2(1) u3 False
      by (auto simp: x au_nals_def au_prefix_def frame_starts_append simp del: map_map)
  qed
qed

lemma starts_aus:
  assumes "between n False True prv u" "list_all au_wf xs" "list_all (fits n) (concat (map au_nals xs))" "n < 2 ^ 32"
  shows "\<exists>u'. frame_starts m nal0 (map nal_buffer (concat (map au_nals xs))) u =
      Some (concat (map (\<lambda>x. True # replicate (length (au_nals x) - 1) False) xs), u')"
  using assms
proof (induction xs arbitrary: prv u)
  case (Cons x xs)
  have "\<exists>u' prv'. frame_starts m nal0 (map nal_buffer (au_nals x)) u =
      Some (True # replicate (length (au_nals x) - 1) False, u') \<and> between n False True prv' u'"
    using starts_au[OF Cons.prems(1), of x m nal0] Cons.prems(2-4) by simp
  then obtain u1 prv1 where u1: "frame_starts m nal0 (map nal_buffer (au_nals x)) u =
      Some (True # replicate (length (au_nals x) - 1) False, u1)" "between n False True prv1 u1" by blast
  then show ?case using Cons.IH[OF u1(2)] Cons.prems(2-4) by (auto simp: frame_starts_append)
qed simp

text \<open>A stream from its beginning.\<close>

lemma starts_stream:
  assumes "list_all au_wf (x # xs)" "list_all (fits (length (m_rbspBytes u))) (concat (map au_nals (x # xs)))"
    "length (m_rbspBytes u) < 2 ^ 32"
  shows "\<exists>u'. frame_starts m nal0 (map nal_buffer (concat (map au_nals (x # xs)))) (initialize_frame_checking_environment u) =
    Some (((au_prefix x = []) # replicate (length (au_nals x) - 1) False) @
      concat (map (\<lambda>y. True # replicate (length (au_nals y) - 1) False) xs), u')"
proof -
  let ?u = "initialize_frame_checking_environment u" and ?n = "length (m_rbspBytes u)"
  have "between ?n False False (m_prv_nalu ?u) ?u"
    by (simp add: between_def initialize_frame_checking_environment_def)
  then have "\<exists>u' prv'. frame_starts m nal0 (map nal_buffer (au_nals x)) ?u =
      Some ((False \<or> au_prefix x = []) # replicate (length (au_nals x) - 1) False, u') \<and> between ?n False True prv' u'"
    using assms by (intro starts_au) simp_all
  then obtain u1 prv1 where u1: "frame_starts m nal0 (map nal_buffer (au_nals x)) ?u =
      Some ((au_prefix x = []) # replicate (length (au_nals x) - 1) False, u1)" "between ?n False True prv1 u1" by auto
  then show ?thesis using starts_aus[OF u1(2), of xs m nal0] assms by (auto simp: frame_starts_append)
qed

end
