(* ===== verification/PanScanSpec.thy ===== *)
theory PanScanSpec
  imports PanScan "HOL-Library.Multiset"
begin

text \<open>
  The two linked lists of the pan scan handler are lists of nodes, and every node stays in one
  of them: get_free, get_populated and update_last return in every state that can be reached.
\<close>

section \<open>Linked nodes\<close>

definition first_or :: "nat list \<Rightarrow> nat option \<Rightarrow> nat option" where
  "first_or xs n = (case xs of [] \<Rightarrow> n | x # _ \<Rightarrow> Some x)"

definition last_or :: "nat list \<Rightarrow> nat option \<Rightarrow> nat option" where
  "last_or xs p = (if xs = [] then p else Some (last xs))"

lemma first_or_simps [simp]: "first_or [] n = n" "first_or (x # xs) n = Some x"
  by (simp_all add: first_or_def)

lemma last_or_simps [simp]: "last_or [] p = p" "last_or (x # xs) p = last_or xs (Some x)" "last_or (xs @ [x]) p = Some x"
  by (simp_all add: last_or_def)

text \<open>The nodes \<open>xs\<close> point at each other, the first one back to \<open>p\<close> and the last one on to \<open>n\<close>.\<close>

fun linked :: "ps_nodes \<Rightarrow> nat option \<Rightarrow> nat list \<Rightarrow> nat option \<Rightarrow> bool" where
  "linked N p [] n \<longleftrightarrow> True"
| "linked N p (x # xs) n \<longleftrightarrow> node_prev (N x) = p \<and> node_next (N x) = first_or xs n \<and> linked N (Some x) xs n"

lemma first_or_append [simp]: "first_or (xs @ ys) n = first_or xs (first_or ys n)"
  by (cases xs) simp_all

lemma linked_append: "linked N p (xs @ ys) n \<longleftrightarrow> linked N p xs (first_or ys n) \<and> linked N (last_or xs p) ys n"
  by (induction xs arbitrary: p) auto

definition same_links :: "ps_node \<Rightarrow> ps_node \<Rightarrow> bool" where
  "same_links a b \<longleftrightarrow> node_prev a = node_prev b \<and> node_next a = node_next b"

lemma linked_frame: "(\<And>x. x \<in> set xs \<Longrightarrow> same_links (N x) (N' x)) \<Longrightarrow> linked N p xs n = linked N' p xs n"
  by (induction xs arbitrary: p) (auto simp: same_links_def)

definition dl_seq :: "ps_nodes \<Rightarrow> dl_list \<Rightarrow> nat list \<Rightarrow> bool" where
  "dl_seq N l xs \<longleftrightarrow> distinct xs \<and> dl_head l = first_or xs None \<and> dl_tail l = last_or xs None \<and> linked N None xs None"

lemma dl_seq_frame: "(\<And>x. x \<in> set xs \<Longrightarrow> same_links (N x) (N' x)) \<Longrightarrow> dl_seq N l xs = dl_seq N' l xs"
  using linked_frame[of xs N N'] by (simp add: dl_seq_def)

lemma dl_seq_others:
  assumes "\<And>y. y \<notin> A \<Longrightarrow> same_links (N y) (N' y)"
  shows "\<forall>k ys. set ys \<inter> A = {} \<longrightarrow> dl_seq N k ys \<longrightarrow> dl_seq N' k ys"
proof (intro allI impI)
  fix k ys assume "set ys \<inter> A = {}" "dl_seq N k ys"
  then show "dl_seq N' k ys" using dl_seq_frame[of ys N N' k] assms by blast
qed

lemma relink_first: "linked N p xs n \<Longrightarrow> distinct xs \<Longrightarrow>
    linked (case first_or xs None of Some h \<Rightarrow> N(h := (N h)\<lparr>node_prev := q\<rparr>) | None \<Rightarrow> N) q xs n"
proof (cases xs)
  case (Cons x ys)
  assume a: "linked N p xs n" "distinct xs"
  have "linked N (Some x) ys n = linked (N(x := (N x)\<lparr>node_prev := q\<rparr>)) (Some x) ys n"
    using a Cons by (intro linked_frame) (auto simp: same_links_def)
  then show ?thesis using a Cons by simp
qed simp

lemma relink_last: "linked N p xs n \<Longrightarrow> distinct xs \<Longrightarrow>
    linked (case last_or xs None of Some t \<Rightarrow> N(t := (N t)\<lparr>node_next := q\<rparr>) | None \<Rightarrow> N) p xs q"
proof (cases xs rule: rev_cases)
  case (snoc ys x)
  assume a: "linked N p xs n" "distinct xs"
  have "linked N p ys (Some x) = linked (N(x := (N x)\<lparr>node_next := q\<rparr>)) p ys (Some x)"
    using a snoc by (intro linked_frame) (auto simp: same_links_def)
  then show ?thesis using a snoc by (simp add: linked_append)
qed simp

section \<open>The contract of the lists\<close>

text \<open>
  \<open>seq N l xs\<close>: in the memory \<open>N\<close> the list \<open>l\<close> has the nodes \<open>xs\<close>. An operation on a list
  leaves alone the lists that share no node with it.
\<close>

locale node_lists =
  fixes seq :: "'n \<Rightarrow> 'l \<Rightarrow> nat list \<Rightarrow> bool"
    and remove_first :: "'l \<Rightarrow> 'n \<Rightarrow> nat option \<times> 'l \<times> 'n"
    and remove_last :: "'l \<Rightarrow> 'n \<Rightarrow> nat option \<times> 'l \<times> 'n"
    and add_last :: "nat option \<Rightarrow> 'l \<Rightarrow> 'n \<Rightarrow> 'l \<times> 'n"
  assumes remove_first_Nil: "seq N l [] \<Longrightarrow> remove_first l N = (None, l, N)"
    and remove_first_Cons: "seq N l (x # xs) \<Longrightarrow> \<exists>l' N'. remove_first l N = (Some x, l', N') \<and> seq N' l' xs \<and>
      (\<forall>k ys. set ys \<inter> set (x # xs) = {} \<longrightarrow> seq N k ys \<longrightarrow> seq N' k ys)"
    and remove_last_snoc: "seq N l (xs @ [x]) \<Longrightarrow> \<exists>l' N'. remove_last l N = (Some x, l', N') \<and> seq N' l' xs \<and>
      (\<forall>k ys. set ys \<inter> set (xs @ [x]) = {} \<longrightarrow> seq N k ys \<longrightarrow> seq N' k ys)"
    and add_None: "add_last None l N = (l, N)"
    and add_Some: "seq N l xs \<Longrightarrow> x \<notin> set xs \<Longrightarrow> \<exists>l' N'. add_last (Some x) l N = (l', N') \<and> seq N' l' (xs @ [x]) \<and>
      (\<forall>k ys. set ys \<inter> set (x # xs) = {} \<longrightarrow> seq N k ys \<longrightarrow> seq N' k ys)"
    and seq_distinct: "seq N l xs \<Longrightarrow> distinct xs"
begin

text \<open>Moving the first node of one list to the end of another.\<close>

lemma move_first:
  assumes "seq N a (x # xs)" "seq N b ys" "set (x # xs) \<inter> set ys = {}"
  shows "\<exists>a' N' b' N''. remove_first a N = (Some x, a', N') \<and> seq N' a' xs \<and> seq N' b ys \<and>
    add_last (Some x) b N' = (b', N'') \<and> seq N'' a' xs \<and> seq N'' b' (ys @ [x])"
proof -
  obtain a' N' where r: "remove_first a N = (Some x, a', N')" "seq N' a' xs"
    "\<forall>k ys. set ys \<inter> set (x # xs) = {} \<longrightarrow> seq N k ys \<longrightarrow> seq N' k ys"
    using remove_first_Cons[OF assms(1)] by blast
  have b: "seq N' b ys" using r(3) assms(2,3) by blast
  have "x \<notin> set ys" using assms(3) by auto
  from add_Some[OF b this] obtain b' N'' where s: "add_last (Some x) b N' = (b', N'')" "seq N'' b' (ys @ [x])"
    "\<forall>k zs. set zs \<inter> set (x # ys) = {} \<longrightarrow> seq N' k zs \<longrightarrow> seq N'' k zs" by blast
  have "set xs \<inter> set (x # ys) = {}" using seq_distinct[OF assms(1)] assms(3) by auto
  then have "seq N'' a' xs" using s(3) r(2) by blast
  then show ?thesis using r b s by blast
qed

text \<open>Moving the last node of a list to its end.\<close>

lemma rotate_last:
  assumes "seq N a (xs @ [x])" "seq N b ys" "set (xs @ [x]) \<inter> set ys = {}"
  shows "\<exists>a' N' a'' N''. remove_last a N = (Some x, a', N') \<and> seq N' a' xs \<and> seq N' b ys \<and>
    add_last (Some x) a' N' = (a'', N'') \<and> seq N'' a'' (xs @ [x]) \<and> seq N'' b ys"
proof -
  obtain a' N' where r: "remove_last a N = (Some x, a', N')" "seq N' a' xs"
    "\<forall>k ys. set ys \<inter> set (xs @ [x]) = {} \<longrightarrow> seq N k ys \<longrightarrow> seq N' k ys"
    using remove_last_snoc[OF assms(1)] by blast
  have b: "seq N' b ys" using r(3) assms(2,3) by blast
  have "x \<notin> set xs" using seq_distinct[OF assms(1)] by simp
  from add_Some[OF r(2) this] obtain a'' N'' where s: "add_last (Some x) a' N' = (a'', N'')" "seq N'' a'' (xs @ [x])"
    "\<forall>k zs. set zs \<inter> set (x # xs) = {} \<longrightarrow> seq N' k zs \<longrightarrow> seq N'' k zs" by blast
  have "set ys \<inter> set (x # xs) = {}" using assms(3) by auto
  then have "seq N'' b ys" using s(3) b by blast
  then show ?thesis using r b s by blast
qed

end

interpretation dl: node_lists dl_seq dl_remove_first dl_remove_last dl_add_last
proof unfold_locales
  fix N l
  assume "dl_seq N l []"
  then show "dl_remove_first l N = (None, l, N)" by (simp add: dl_seq_def dl_remove_first_def)
next
  fix N l x xs
  assume a: "dl_seq N l (x # xs)"
  define N1 where "N1 = (case first_or xs None of Some h \<Rightarrow> N(h := (N h)\<lparr>node_prev := None\<rparr>) | None \<Rightarrow> N)"
  define N2 where "N2 = set_links x None None N1"
  define l2 where "l2 = \<lparr>dl_head = first_or xs None, dl_tail = last_or xs None\<rparr>"
  have d: "x \<notin> set xs" "distinct xs" "dl_tail l = last_or xs (Some x)" "dl_head l = Some x"
    "node_next (N x) = first_or xs None" "linked N (Some x) xs None" using a by (auto simp: dl_seq_def)
  have r: "dl_remove_first l N = (Some x, l2, N2)"
    using d by (cases xs) (auto simp: dl_remove_first_def N2_def N1_def l2_def last_or_def)
  have "linked N1 None xs None" unfolding N1_def using d by (intro relink_first)
  then have "linked N2 None xs None"
    using d(1) by (subst linked_frame[of _ _ N1]) (auto simp: N2_def set_links_def same_links_def)
  then have s: "dl_seq N2 l2 xs" using d by (simp add: dl_seq_def l2_def)
  have "same_links (N y) (N2 y)" if "y \<notin> set (x # xs)" for y
    using that by (cases xs) (auto simp: N2_def N1_def set_links_def same_links_def)
  then have "\<forall>k ys. set ys \<inter> set (x # xs) = {} \<longrightarrow> dl_seq N k ys \<longrightarrow> dl_seq N2 k ys"
    by (intro dl_seq_others)
  then show "\<exists>l' N'. dl_remove_first l N = (Some x, l', N') \<and> dl_seq N' l' xs \<and>
      (\<forall>k ys. set ys \<inter> set (x # xs) = {} \<longrightarrow> dl_seq N k ys \<longrightarrow> dl_seq N' k ys)" using r s by blast
next
  fix N l xs x
  assume a: "dl_seq N l (xs @ [x])"
  define N1 where "N1 = (case last_or xs None of Some t \<Rightarrow> N(t := (N t)\<lparr>node_next := None\<rparr>) | None \<Rightarrow> N)"
  define N2 where "N2 = set_links x None None N1"
  define l2 where "l2 = \<lparr>dl_head = first_or xs None, dl_tail = last_or xs None\<rparr>"
  have d: "x \<notin> set xs" "distinct xs" "dl_tail l = Some x" "dl_head l = first_or xs (Some x)"
    "node_prev (N x) = last_or xs None" "linked N None xs (Some x)" using a by (auto simp: dl_seq_def linked_append)
  have r: "dl_remove_last l N = (Some x, l2, N2)"
    using d by (cases xs) (auto simp: dl_remove_last_def N2_def N1_def l2_def last_or_def)
  have "linked N1 None xs None" unfolding N1_def using d by (intro relink_last)
  then have "linked N2 None xs None"
    using d(1) by (subst linked_frame[of _ _ N1]) (auto simp: N2_def set_links_def same_links_def)
  then have s: "dl_seq N2 l2 xs" using d by (simp add: dl_seq_def l2_def)
  have "same_links (N y) (N2 y)" if "y \<notin> set (xs @ [x])" for y
    using that by (cases xs rule: rev_cases) (auto simp: N2_def N1_def set_links_def same_links_def)
  then have "\<forall>k ys. set ys \<inter> set (xs @ [x]) = {} \<longrightarrow> dl_seq N k ys \<longrightarrow> dl_seq N2 k ys"
    by (intro dl_seq_others)
  then show "\<exists>l' N'. dl_remove_last l N = (Some x, l', N') \<and> dl_seq N' l' xs \<and>
      (\<forall>k ys. set ys \<inter> set (xs @ [x]) = {} \<longrightarrow> dl_seq N k ys \<longrightarrow> dl_seq N' k ys)" using r s by blast
next
  fix l N
  show "dl_add_last None l N = (l, N)" by (simp add: dl_add_last_def)
next
  fix N l xs x
  assume a: "dl_seq N l xs" "x \<notin> set xs"
  define N1 where "N1 = set_links x (last_or xs None) None N"
  define N2 where "N2 = (case last_or xs None of Some t \<Rightarrow> N1(t := (N1 t)\<lparr>node_next := Some x\<rparr>) | None \<Rightarrow> N1)"
  define l2 where "l2 = \<lparr>dl_head = first_or xs (Some x), dl_tail = Some x\<rparr>"
  have d: "distinct xs" "dl_head l = first_or xs None" "dl_tail l = last_or xs None" "linked N None xs None"
    using a by (auto simp: dl_seq_def)
  have r: "dl_add_last (Some x) l N = (l2, N2)"
  proof (cases xs rule: rev_cases)
    case Nil
    then show ?thesis using d by (simp add: dl_add_last_def N2_def N1_def l2_def)
  next
    case (snoc ys y)
    then have "dl_tail l = Some y" "dl_head l = first_or ys (Some y)" using d by simp_all
    then show ?thesis using snoc by (cases l) (simp add: dl_add_last_def N2_def N1_def l2_def Let_def)
  qed
  have "linked N1 None xs None" using d a(2)
    by (subst linked_frame[of _ _ N]) (auto simp: N1_def set_links_def same_links_def)
  then have "linked N2 None xs (Some x)" unfolding N2_def using d by (intro relink_last)
  moreover have "node_prev (N2 x) = last_or xs None \<and> node_next (N2 x) = None"
    using a(2) by (cases xs rule: rev_cases) (auto simp: N2_def N1_def set_links_def)
  ultimately have s: "dl_seq N2 l2 (xs @ [x])" using d a(2) by (simp add: dl_seq_def l2_def linked_append)
  have "same_links (N y) (N2 y)" if "y \<notin> set (x # xs)" for y
    using that by (cases xs rule: rev_cases) (auto simp: N2_def N1_def set_links_def same_links_def)
  then have "\<forall>k ys. set ys \<inter> set (x # xs) = {} \<longrightarrow> dl_seq N k ys \<longrightarrow> dl_seq N2 k ys"
    by (intro dl_seq_others)
  then show "\<exists>l' N'. dl_add_last (Some x) l N = (l', N') \<and> dl_seq N' l' (xs @ [x]) \<and>
      (\<forall>k ys. set ys \<inter> set (x # xs) = {} \<longrightarrow> dl_seq N k ys \<longrightarrow> dl_seq N' k ys)" using r s by blast
next
  fix N l xs
  assume "dl_seq N l xs"
  then show "distinct xs" by (simp add: dl_seq_def)
qed

section \<open>The handler\<close>

definition ps_lists :: "panscan \<Rightarrow> nat list \<Rightarrow> nat list \<Rightarrow> bool" where
  "ps_lists ps u f \<longleftrightarrow> dl_seq (panscan_data ps) (panscan_used ps) u \<and> dl_seq (panscan_data ps) (panscan_free ps) f \<and>
     set u \<inter> set f = {}"

text \<open>What a node holds besides its links.\<close>

definition core :: "ps_node \<Rightarrow> pan_scan \<times> int \<times> int \<times> bool" where
  "core n = (pan_scan_param n, start_ts n, end_ts n, ps_active n)"

lemma core_links:
  "dl_remove_first l N = (d, l', N') \<Longrightarrow> core (N' i) = core (N i)"
  "dl_remove_last l N = (d, l', N') \<Longrightarrow> core (N' i) = core (N i)"
  "dl_add_last d l N = (l', N') \<Longrightarrow> core (N' i) = core (N i)"
  by (auto simp: dl_remove_first_def dl_remove_last_def dl_add_last_def set_links_def core_def Let_def
      split: option.splits if_splits)

lemma ps_lists_write:
  assumes "ps_lists ps u f" "same_links (panscan_data ps i) n"
  shows "ps_lists (ps\<lparr>panscan_data := (panscan_data ps)(i := n)\<rparr>) u f"
proof -
  have "same_links (panscan_data ps x) (((panscan_data ps)(i := n)) x)" for x
    using assms(2) by (auto simp: same_links_def)
  then have "dl_seq (panscan_data ps) l xs = dl_seq ((panscan_data ps)(i := n)) l xs" for l xs
    by (intro dl_seq_frame)
  then show ?thesis using assms(1) by (simp add: ps_lists_def)
qed

lemma initialize_lists: "ps_lists (ps_initialize n mem) [] [0..<n]"
proof -
  have "\<exists>l' N'. add_multiple ks l N = (l', N') \<and> dl_seq N' l' (xs @ ks)"
    if "dl_seq N l xs" "distinct (xs @ ks)" for ks xs l N
    using that
  proof (induction ks arbitrary: xs l N)
    case (Cons k ks)
    then obtain l1 N1 where "dl_add_last (Some k) l N = (l1, N1)" "dl_seq N1 l1 (xs @ [k])"
      using dl.add_Some[of N l xs k] by auto
    then show ?case using Cons.IH[of N1 l1 "xs @ [k]"] Cons.prems(2) by simp
  qed simp
  from this[of mem "\<lparr>dl_head = None, dl_tail = None\<rparr>" "[]" "[0..<n]"] show ?thesis
    by (auto simp: dl_seq_def ps_lists_def ps_initialize_def)
qed

lemma retire_first_lists:
  assumes "ps_lists ps (x # u) f"
  shows "ps_lists (retire_first ps) u (f @ [x])" "core (panscan_data (retire_first ps) i) = core (panscan_data ps i)"
proof -
  from assms obtain a' N' b' N'' where m: "dl_remove_first (panscan_used ps) (panscan_data ps) = (Some x, a', N')"
    "dl_add_last (Some x) (panscan_free ps) N' = (b', N'')" "dl_seq N'' a' u" "dl_seq N'' b' (f @ [x])"
    unfolding ps_lists_def using dl.move_first by blast
  have r: "retire_first ps = ps\<lparr>panscan_used := a', panscan_free := b', panscan_data := N''\<rparr>"
    by (simp add: retire_first_def m(1,2))
  have "x \<notin> set u" "set (x # u) \<inter> set f = {}" using assms dl.seq_distinct[of _ _ "x # u"] by (auto simp: ps_lists_def)
  then show "ps_lists (retire_first ps) u (f @ [x])" using m(3,4) by (auto simp: ps_lists_def r)
  show "core (panscan_data (retire_first ps) i) = core (panscan_data ps i)"
    using core_links(1)[OF m(1)] core_links(3)[OF m(2)] by (simp add: r)
qed

lemma retire_first_none: "ps_lists ps [] f \<Longrightarrow> retire_first ps = ps"
  by (simp add: ps_lists_def retire_first_def dl.remove_first_Nil dl.add_None)

text \<open>
  A node comes from the free ones, or is the last used one as long as that has no time; without
  either there is none.
\<close>

lemma get_free_lists:
  assumes "ps_lists ps u f"
  shows "if u \<noteq> [] \<and> \<not> VALID_TS (start_ts (panscan_data ps (last u)))
    then \<exists>ps'. get_free ps = (Some (last u), ps') \<and> ps_lists ps' u f
    else case f of [] \<Rightarrow> get_free ps = (None, ps) | i # fs \<Rightarrow> \<exists>ps'. get_free ps = (Some i, ps') \<and> ps_lists ps' (u @ [i]) fs"
proof -
  let ?N = "panscan_data ps"
  let ?new = "\<lambda>n. n\<lparr>start_ts := LLONG_MAX, end_ts := LLONG_MAX,
                        pan_scan_param := (pan_scan_param n)\<lparr>rect_id := NO_PAN_SCAN_BIT\<rparr>, ps_active := False\<rparr>"
  have a: "dl_seq ?N (panscan_used ps) u" "dl_seq ?N (panscan_free ps) f" "set u \<inter> set f = {}"
    using assms by (auto simp: ps_lists_def)
  have tail: "watch_last (panscan_used ps) = last_or u None" using a(1) by (simp add: watch_last_def dl_seq_def)
  have frm: "dl_seq N l xs = dl_seq (N(i := ?new (N i))) l xs" for N i l xs
    by (intro dl_seq_frame) (auto simp: same_links_def)
  have add: "\<exists>l' N'. dl_add_last (Some i) k (N(i := ?new (N i))) = (l', N') \<and> dl_seq N' l' (xs @ [i]) \<and> dl_seq N' k' ys"
    if "dl_seq N k xs" "dl_seq N k' ys" "i \<notin> set xs" "i \<notin> set ys" "set xs \<inter> set ys = {}" for i k k' N xs ys
  proof -
    note k = that
    obtain l' N' where "dl_add_last (Some i) k (N(i := ?new (N i))) = (l', N')" "dl_seq N' l' (xs @ [i])"
      "\<forall>k ys. set ys \<inter> set (i # xs) = {} \<longrightarrow> dl_seq (N(i := ?new (N i))) k ys \<longrightarrow> dl_seq N' k ys"
      using dl.add_Some[OF k(1)[unfolded frm[of N k xs i]] k(3)] by blast
    moreover have "set ys \<inter> set (i # xs) = {}" using that by auto
    ultimately show ?thesis using that(2)[unfolded frm[of N k' ys i]] by blast
  qed
  show ?thesis
  proof (cases "u \<noteq> [] \<and> \<not> VALID_TS (start_ts (?N (last u)))")
    case True
    then obtain xs x where u: "u = xs @ [x]" by (metis rev_exhaust)
    obtain a' N' where r: "dl_remove_last (panscan_used ps) ?N = (Some x, a', N')" "dl_seq N' a' xs" "dl_seq N' (panscan_free ps) f"
      using dl.rotate_last[of ?N "panscan_used ps" xs x] a u by blast
    have "x \<notin> set xs" "x \<notin> set f" using a dl.seq_distinct[OF a(1)] by (auto simp: u)
    with add[OF r(2,3), of x] a(3) obtain l' N'' where s: "dl_add_last (Some x) a' (N'(x := ?new (N' x))) = (l', N'')"
      "dl_seq N'' l' (xs @ [x])" "dl_seq N'' (panscan_free ps) f" unfolding u by auto
    have "get_free ps = (Some x, ps\<lparr>panscan_used := l', panscan_data := N''\<rparr>)"
      using True tail r(1) s(1) by (simp add: get_free_def u Let_def)
    then show ?thesis using True s a(3) by (simp add: u ps_lists_def)
  next
    case False
    then have c: "case watch_last (panscan_used ps) of None \<Rightarrow> True | Some i \<Rightarrow> VALID_TS (start_ts (?N i))"
      by (auto simp: tail last_or_def)
    show ?thesis
    proof (cases f)
      case Nil
      then have "dl_remove_first (panscan_free ps) ?N = (None, panscan_free ps, ?N)"
        using dl.remove_first_Nil a(2) by simp
      then have "get_free ps = (None, ps)" using c by (simp add: get_free_def)
      then show ?thesis using False Nil by (simp del: de_Morgan_conj)
    next
      case (Cons x fs)
      obtain b' N' where r: "dl_remove_first (panscan_free ps) ?N = (Some x, b', N')" "dl_seq N' b' fs"
          "dl_seq N' (panscan_used ps) u"
        using dl.move_first[of ?N "panscan_free ps" x fs] a Cons by blast
      have "x \<notin> set u" "x \<notin> set fs" "set u \<inter> set fs = {}" using a dl.seq_distinct[OF a(2)] by (auto simp: Cons)
      with add[OF r(3,2), of x] obtain l' N'' where s: "dl_add_last (Some x) (panscan_used ps) (N'(x := ?new (N' x))) = (l', N'')"
        "dl_seq N'' l' (u @ [x])" "dl_seq N'' b' fs" by auto
      have "get_free ps = (Some x, ps\<lparr>panscan_used := l', panscan_free := b', panscan_data := N''\<rparr>)"
        using c r(1) s(1) by (simp add: get_free_def Let_def)
      moreover have "ps_lists (ps\<lparr>panscan_used := l', panscan_free := b', panscan_data := N''\<rparr>) (u @ [x]) fs"
        using s(2,3) \<open>x \<notin> set fs\<close> \<open>set u \<inter> set fs = {}\<close> by (simp add: ps_lists_def)
      ultimately show ?thesis using False Cons by (simp del: de_Morgan_conj)
    qed
  qed
qed

text \<open>
  The nodes whose time is over when a frame is shown, and whether a node applies to it. The
  start of a node that is active is moved back to a frame that is shown earlier.
\<close>

definition ps_over :: "int \<Rightarrow> ps_nodes \<Rightarrow> nat \<Rightarrow> bool" where
  "ps_over ts N i \<longleftrightarrow> VALID_TS (start_ts (N i)) \<and> end_ts (N i) \<le> ts \<and> (ps_active (N i) \<or> start_ts (N i) \<le> ts)"

definition ps_applies :: "int \<Rightarrow> ps_nodes \<Rightarrow> nat \<Rightarrow> bool" where
  "ps_applies ts N i \<longleftrightarrow> \<not> VALID_TS (start_ts (N i)) \<or> ps_active (N i) \<or> start_ts (N i) \<le> ts"

lemma core_eq: "core m = core n \<longleftrightarrow> pan_scan_param m = pan_scan_param n \<and> start_ts m = start_ts n \<and>
    end_ts m = end_ts n \<and> ps_active m = ps_active n"
  by (simp add: core_def)

lemma find_populated_lists:
  assumes "ps_lists ps u f" "\<forall>i \<in> set u. core (panscan_data ps i) = core (N i)"
  shows "\<exists>ps'. find_populated ts (first_or u None) ps =
      Some (case dropWhile (ps_over ts N) u of [] \<Rightarrow> None | i # _ \<Rightarrow> if ps_applies ts N i then Some i else None, ps') \<and>
    ps_lists ps' (dropWhile (ps_over ts N) u) (f @ takeWhile (ps_over ts N) u)"
  using assms
proof (induction u arbitrary: ps f)
  case Nil
  then show ?case by (subst find_populated.simps) simp
next
  case (Cons i u)
  let ?n = "panscan_data ps i"
  have c: "start_ts ?n = start_ts (N i)" "end_ts ?n = end_ts (N i)" "ps_active ?n = ps_active (N i)"
    using Cons.prems(2) by (auto simp: core_eq)
  define n where "n = (if ps_active ?n \<and> ts < start_ts ?n then ?n\<lparr>start_ts := ts\<rparr> else ?n)"
  have n: "same_links ?n n" "same_links ?n (n\<lparr>ps_active := True\<rparr>)" "same_links ?n (?n\<lparr>ps_active := True\<rparr>)"
    by (auto simp: n_def same_links_def)
  have st: "start_ts n = (if ps_active ?n \<and> ts < start_ts ?n then ts else start_ts ?n)" "end_ts n = end_ts ?n"
    by (simp_all add: n_def)
  let ?ps = "ps\<lparr>panscan_data := (panscan_data ps)(i := n)\<rparr>"
  have l1: "ps_lists ?ps (i # u) f" using Cons.prems(1) n(1) by (rule ps_lists_write)
  have find: "find_populated ts (first_or (i # u) None) ps =
     (if VALID_TS (start_ts ?n) then
        if ts \<ge> start_ts n then
          if ts < end_ts n then Some (Some i, ps\<lparr>panscan_data := (panscan_data ps)(i := n\<lparr>ps_active := True\<rparr>)\<rparr>)
          else find_populated ts (watch_first (panscan_used (retire_first ?ps))) (retire_first ?ps)
        else Some (None, ?ps)
      else Some (Some i, ps\<lparr>panscan_data := (panscan_data ps)(i := ?n\<lparr>ps_active := True\<rparr>)\<rparr>))"
    by (subst find_populated.simps) (simp add: Let_def flip: n_def)
  show ?case
  proof (cases "ps_over ts N i")
    case True
    have r: "ps_lists (retire_first ?ps) u (f @ [i])" by (rule retire_first_lists(1)[OF l1])
    have "i \<notin> set u" using Cons.prems(1) dl.seq_distinct[of _ _ "i # u"] by (auto simp: ps_lists_def)
    then have "\<forall>j \<in> set u. core (panscan_data (retire_first ?ps) j) = core (N j)"
      using Cons.prems(2) retire_first_lists(2)[OF l1] by auto
    from Cons.IH[OF r this] obtain ps' where ps': "find_populated ts (first_or u None) (retire_first ?ps) =
        Some (case dropWhile (ps_over ts N) u of [] \<Rightarrow> None | i # _ \<Rightarrow> if ps_applies ts N i then Some i else None, ps')"
      "ps_lists ps' (dropWhile (ps_over ts N) u) (f @ [i] @ takeWhile (ps_over ts N) u)" by auto
    have w: "watch_first (panscan_used (retire_first ?ps)) = first_or u None"
      using r by (simp add: ps_lists_def dl_seq_def watch_first_def)
    have "VALID_TS (start_ts ?n)" "ts \<ge> start_ts n" "\<not> ts < end_ts n"
      using True by (auto simp: ps_over_def st c)
    then have "find_populated ts (first_or (i # u) None) ps = find_populated ts (first_or u None) (retire_first ?ps)"
      unfolding find w by simp
    then show ?thesis using ps' True by simp
  next
    case False
    have "ps_lists (ps\<lparr>panscan_data := (panscan_data ps)(i := n\<lparr>ps_active := True\<rparr>)\<rparr>) (i # u) f"
      "ps_lists (ps\<lparr>panscan_data := (panscan_data ps)(i := ?n\<lparr>ps_active := True\<rparr>)\<rparr>) (i # u) f"
      using ps_lists_write[OF Cons.prems(1)] n by blast+
    then show ?thesis using False l1 unfolding find
      by (auto simp: ps_over_def ps_applies_def st c not_less)
  qed
qed

lemma get_populated_lists:
  fixes ts :: int
  assumes "ps_lists ps u f"
  defines "v \<equiv> dropWhile (ps_over ts (panscan_data ps)) u"
  shows "\<exists>ps' u' f'. get_populated ts ps =
      Some (case v of [] \<Rightarrow> None | i # _ \<Rightarrow> if ps_applies ts (panscan_data ps) i then Some i else None, ps') \<and>
    ps_lists ps' u' f' \<and> mset u' + mset f' = mset u + mset f"
proof -
  let ?d = "case v of [] \<Rightarrow> None | i # _ \<Rightarrow> if ps_applies ts (panscan_data ps) i then Some i else None"
  let ?f = "f @ takeWhile (ps_over ts (panscan_data ps)) u"
  have w: "watch_first (panscan_used ps) = first_or u None"
    using assms(1) by (simp add: ps_lists_def dl_seq_def watch_first_def)
  obtain ps1 where p: "find_populated ts (first_or u None) ps = Some (?d, ps1)" "ps_lists ps1 v ?f"
    using find_populated_lists[OF assms(1), of "panscan_data ps" ts] unfolding v_def by blast
  have ms: "mset v + mset ?f = mset u + mset f"
  proof -
    have "mset u = mset (takeWhile (ps_over ts (panscan_data ps)) u) + mset v" unfolding v_def
      by (metis mset_append takeWhile_dropWhile_id)
    then show ?thesis by simp
  qed
  show ?thesis
  proof (cases ?d)
    case None
    then have "get_populated ts ps = Some (?d, ps1)" using p(1) by (simp add: get_populated_def w)
    then show ?thesis using p(2) ms by blast
  next
    case (Some i)
    then obtain v' where v: "v = i # v'" by (auto split: list.splits if_splits)
    let ?n = "panscan_data ps1 i" let ?p = "pan_scan_param ?n"
    let ?w = "ps1\<lparr>panscan_data := (panscan_data ps1)
                (i := ?n\<lparr>pan_scan_param := ?p\<lparr>rect_repetition_period := rect_repetition_period ?p - 2\<rparr>\<rparr>)\<rparr>"
    have g: "get_populated ts ps = Some (Some i, if rect_repetition_period ?p = 0 then retire_first ps1
        else if rect_repetition_period ?p > 1 then ?w else ps1)"
      using p(1) Some by (simp add: get_populated_def w Let_def)
    have "ps_lists ?w v ?f" using p(2) by (rule ps_lists_write) (simp add: same_links_def)
    moreover have "ps_lists (retire_first ps1) v' (?f @ [i])" 
      using p(2) unfolding v by (rule retire_first_lists(1))
    moreover have "mset v' + mset (?f @ [i]) = mset u + mset f" using ms by (simp add: v)
    ultimately show ?thesis using g p(2) ms Some by (smt (verit, best))
  qed
qed

lemma update_last_lists:
  assumes "ps_lists ps u f"
  shows "ps_lists (update_last ts ps) u f"
proof (cases "watch_last (panscan_used ps)")
  case None
  then show ?thesis using assms by (simp add: update_last_def)
next
  case (Some i)
  define N where "N = (panscan_data ps)(i := (panscan_data ps i)\<lparr>start_ts := ts\<rparr>)"
  have N: "ps_lists (ps\<lparr>panscan_data := N\<rparr>) u f"
    unfolding N_def using assms by (rule ps_lists_write) (simp add: same_links_def)
  have w: "ps_lists (ps\<lparr>panscan_data := N(j := n)\<rparr>) u f" if "same_links (N j) n" for j n
    using ps_lists_write[OF N, of j n] that by simp
  then show ?thesis using assms N Some
    by (auto simp: update_last_def Let_def same_links_def simp flip: N_def split: option.splits)
qed

section \<open>Scripts of operations\<close>

text \<open>The operations of the handler, and what its callers do: they fill in a node.\<close>

datatype ps_op = GetFree | Fill nat pan_scan | GetPopulated int | UpdateLast int

fun ps_step :: "ps_op \<Rightarrow> panscan \<Rightarrow> panscan option" where
  "ps_step GetFree ps = Some (snd (get_free ps))"
| "ps_step (Fill i p) ps = Some (ps\<lparr>panscan_data := (panscan_data ps)(i := (panscan_data ps i)\<lparr>pan_scan_param := p\<rparr>)\<rparr>)"
| "ps_step (GetPopulated ts) ps = map_option snd (get_populated ts ps)"
| "ps_step (UpdateLast ts) ps = Some (update_last ts ps)"

fun ps_run :: "ps_op list \<Rightarrow> panscan \<Rightarrow> panscan option" where
  "ps_run [] ps = Some ps"
| "ps_run (x # xs) ps = Option.bind (ps_step x ps) (ps_run xs)"

lemma ps_step_lists:
  assumes "ps_lists ps u f"
  shows "\<exists>ps' u' f'. ps_step x ps = Some ps' \<and> ps_lists ps' u' f' \<and> mset u' + mset f' = mset u + mset f"
proof (cases x)
  case GetFree
  show ?thesis
  proof (cases "u \<noteq> [] \<and> \<not> VALID_TS (start_ts (panscan_data ps (last u)))")
    case True
    then obtain ps' where "get_free ps = (Some (last u), ps')" "ps_lists ps' u f" using get_free_lists[OF assms] by auto
    then show ?thesis using GetFree by auto
  next
    case False
    then have g: "case f of [] \<Rightarrow> get_free ps = (None, ps)
        | i # fs \<Rightarrow> \<exists>ps'. get_free ps = (Some i, ps') \<and> ps_lists ps' (u @ [i]) fs"
      using get_free_lists[OF assms] by argo
    show ?thesis
    proof (cases f)
      case Nil
      then have "ps_step x ps = Some ps" using g GetFree by simp
      then show ?thesis using assms by blast
    next
      case (Cons i fs)
      then obtain ps' where "get_free ps = (Some i, ps')" "ps_lists ps' (u @ [i]) fs" using g by auto
      then show ?thesis using GetFree Cons by (intro exI[of _ ps'] exI[of _ "u @ [i]"] exI[of _ fs]) simp
    qed
  qed
next
  case (Fill i p)
  then show ?thesis
    using ps_lists_write[OF assms, of i "(panscan_data ps i)\<lparr>pan_scan_param := p\<rparr>"] by (auto simp: same_links_def)
next
  case (GetPopulated ts)
  then show ?thesis using get_populated_lists[OF assms, of ts] by auto
next
  case (UpdateLast ts)
  then show ?thesis using update_last_lists[OF assms] by auto
qed

lemma ps_run_lists:
  assumes "ps_lists ps u f"
  shows "\<exists>ps' u' f'. ps_run xs ps = Some ps' \<and> ps_lists ps' u' f' \<and> mset u' + mset f' = mset u + mset f"
  using assms
proof (induction xs arbitrary: ps u f)
  case (Cons x xs)
  from ps_step_lists[OF Cons.prems] obtain ps1 u1 f1 where
    "ps_step x ps = Some ps1" "ps_lists ps1 u1 f1" "mset u1 + mset f1 = mset u + mset f" by blast
  with Cons.IH[of ps1 u1 f1] show ?case by simp
qed auto

end
