(* ===== verification/H264Props.thy ===== *)
theory H264Props
  imports H264Safe H264Frames PanScanSpec
begin

unbundle bit_operations_syntax

text \<open>
  The properties of the H.264 parsing of the video decoder.
\<close>

section \<open>Reading\<close>

text \<open>A sequence of reads of given numbers of bits, and what it gives.\<close>

fun read_all :: "isa \<Rightarrow> nat list \<Rightarrow> 'a h264_reader_scheme \<Rightarrow> u32 list \<times> 'a h264_reader_scheme" where
  "read_all m [] s = ([], s)"
| "read_all m (n # ns) s =
     (let (v, s) = getbits m n s; (vs, s) = read_all m ns s in (v # vs, s))"

fun chunks :: "nat list \<Rightarrow> bool list \<Rightarrow> bool list list" where
  "chunks [] bs = []"
| "chunks (n # ns) bs = take n bs # chunks ns (drop n bs)"

lemma read_all_holds:
  assumes "reader_holds s bs" "\<forall>n \<in> set ns. n \<le> 32 \<and> (m = A32 \<or> 0 < n \<and> n < 32)"
  shows "fst (read_all m ns s) = map wob (chunks ns bs) \<and> \<not> overrun (snd (read_all m ns s))"
  using assms
proof (induction ns arbitrary: s bs)
  case Nil
  then show ?case by (simp add: reader_holds_def in_buffer_def)
next
  case (Cons n ns)
  then have "defined_read m n s" by (auto simp: defined_read_def)
  then obtain s' where "getbits m n s = (wob (take n bs), s')" "reader_holds s' (drop n bs)"
    using getbits_holds[OF Cons.prems(1)] Cons.prems(2) by fastforce
  then show ?case using Cons.IH[of s' "drop n bs"] Cons.prems(2) by (simp add: split_beta)
qed

definition reader_on :: "byte list \<Rightarrow> bool \<Rightarrow> 'a h264_reader_scheme \<Rightarrow> 'a h264_reader_scheme" where
  "reader_on data emu s = (init_bitstream data (of_nat (length data)) s)\<lparr>emulation_sc_enabled := emu\<rparr>"

lemma reader_on_holds:
  assumes "length data < 2 ^ 32" "\<not> overrun s"
  shows "reader_holds (reader_on data emu s) (bytes_bits (if emu then unescape 0 data else data))"
  using assms by (auto simp: reader_holds_def in_buffer_def rest_bytes_def init_bitstream_def unat_of_nat reader_on_def)

text \<open>
  C18: \<open>extract_bits\<close>, with its 32 bit window that is refilled byte by byte, is the same as taking
  bits from a list: the bits of the bytes without the emulation prevention bytes. Any sequence of
  reads gives the values of the successive pieces of that list, pieces that are cut short at the
  end of the stream included, and never leaves the buffer. This is for reads of up to 32 bits
  where the shifts of 32 bit ARM are used, and of 1 to 31 bits anywhere.
\<close>
theorem reads_are_pieces:
  assumes "length data < 2 ^ 32" "\<not> overrun s" "\<forall>n \<in> set ns. n \<le> 32 \<and> (m = A32 \<or> 0 < n \<and> n < 32)"
  shows "fst (read_all m ns (reader_on data emu s)) = map wob (chunks ns (bytes_bits (if emu then unescape 0 data else data))) \<and>
    \<not> overrun (snd (read_all m ns (reader_on data emu s)))"
  by (rule read_all_holds[OF reader_on_holds[OF assms(1,2)] assms(3)])

theorem reads_are_pieces_witness:
  "fst (read_all A64 [4, 7, 31, 10] (reader_on [0xAB, 0, 0, 3, 1, 0xFF] True (parser_new 0 None))) =
    map wob (chunks [4, 7, 31, 10] (bytes_bits [0xAB, 0, 0, 1, 0xFF]))"
  using reads_are_pieces[of "[0xAB, 0, 0, 3, 1, 0xFF]" "parser_new 0 None" "[4, 7, 31, 10]" A64 True]
  by (simp add: parser_new_def parser_reset_def)

text \<open>Reading as many values as there are.\<close>

fun repeat_read :: "nat \<Rightarrow> ('s \<Rightarrow> ('v \<times> 's) option) \<Rightarrow> 's \<Rightarrow> ('v list \<times> 's) option" where
  "repeat_read 0 f s = Some ([], s)"
| "repeat_read (Suc n) f s = do { (v, s) \<leftarrow> f s; (vs, s) \<leftarrow> repeat_read n f s; Some (v # vs, s) }"

context golomb_reader
begin

lemma se_reads:
  "holds s (concat (map se_code vs) @ q) \<Longrightarrow> \<forall>v \<in> set vs. \<bar>v\<bar> < 2 ^ 31 \<Longrightarrow>
   \<exists>s'. repeat_read (length vs) se s = Some (vs, s') \<and> holds s' q"
proof (induction vs arbitrary: s)
  case (Cons v vs)
  then obtain s1 where "se s = Some (v, s1)" "holds s1 (concat (map se_code vs) @ q)"
    using se_read[of s v "concat (map se_code vs) @ q"] by auto
  then show ?case using Cons by fastforce
qed simp

end

text \<open>
  C20: Both readers, \<open>sev\<close> of the stream parser and \<open>se\<close> of the parser of payloads, read back
  every sequence of signed numbers that is written with the exponential Golomb codes of the
  standard, also across emulation prevention bytes. The numbers are below 2 ^ 31 and the data shorter than 2 ^ 32 bytes.
\<close>
theorem signed_codes_read_back:
  assumes "bytes_bits (unescape 0 data) = concat (map se_code vs) @ q" "\<forall>v \<in> set vs. \<bar>v\<bar> < 2 ^ 31"
    "length data < 2 ^ 32" "\<not> overrun s"
  shows "(\<exists>s'. repeat_read (length vs) (\<lambda>s. Some (run_state (sev m) s)) (reader_on data True s) = Some (vs, s')) \<and>
    (\<exists>p'. repeat_read (length vs) (rp_se m) (rbsp_parser_new data e) = Some (vs, p'))"
proof
  have "reader_holds (reader_on data True s) (concat (map se_code vs) @ q)"
    using reader_on_holds[OF assms(3,4), of True] assms(1) by simp
  from hr.se_reads[OF this assms(2), of m]
  show "\<exists>s'. repeat_read (length vs) (\<lambda>s. Some (run_state (sev m) s)) (reader_on data True s) = Some (vs, s')" by blast
  have "rp_holds (rbsp_parser_new data e) (concat (map se_code vs) @ q)"
    using assms(1) by (simp add: rp_holds_def rbsp_parser_new_def rp_rest_def zc_def take_bit_eq_mod)
  from rp.se_reads[OF this assms(2), of m]
  show "\<exists>p'. repeat_read (length vs) (rp_se m) (rbsp_parser_new data e) = Some (vs, p')" by blast
qed

text \<open>The numbers 0, 3 and -2 written as 1, 00110 and 00101, and zeros after them.\<close>

theorem signed_codes_read_back_witness:
  "(\<exists>s'. repeat_read 3 (\<lambda>s. Some (run_state (sev A64) s)) (reader_on [0x98, 0xA0] True (parser_new 0 None)) = Some ([0, 3, - 2], s')) \<and>
   (\<exists>p'. repeat_read 3 (rp_se A64) (rbsp_parser_new [0x98, 0xA0] 2) = Some ([0, 3, - 2], p'))"
proof -
  have b: "bytes_bits (unescape 0 [0x98, 0xA0]) = concat (map se_code [0, 3, - 2]) @ replicate 5 False"
    by code_simp
  show ?thesis using signed_codes_read_back[OF b, of "parser_new 0 None" A64 2]
    by (simp add: parser_new_def parser_reset_def numeral_3_eq_3)
qed

section \<open>Sequence parameter sets\<close>

text \<open>
  C19: A NAL unit with a sequence parameter set is read as it was written: for every set of values
  the syntax has room for, whatever groups are present, what is parsed is those values, and the
  members of groups that are absent are what they were. Emulation prevention bytes and start
  codes of three and four bytes are included. Excluded are scaling lists in a format other than
  4:4:4, and, where 64 bit ARM is used, timing information.
\<close>
theorem sps_roundtrip:
  assumes "h AND 31 = 7" "z = 2 \<or> z = 3" "bytes_bits payload = sps_bits x @ trail"
    "sps_wf x" "scaling_as_read x" "vui_arrays (vui_param s)"
    "m = A32 \<or> (\<forall>v. ss_vui x = Some v \<longrightarrow> vs_timing v = None)"
    "length (nal_bytes z h payload) < 2 ^ 32" "\<not> overrun s" "panscan_hdl s = Some ps"
  shows "\<exists>s'. parse_nal m (nal_bytes z h payload) (of_nat (length (nal_bytes z h payload))) NALU_TYPE_SPS True s = Some s' \<and>
    params s' = sps_of x ((params s)\<lparr>emulation_sc_enabled := True\<rparr>)\<lparr>panscan_hdl := Some (snd (get_free ps))\<rparr> \<and>
    \<not> overrun s'"
  using assms by (rule nal_sps_read)

text \<open>A baseline profile set of a picture of 20 by 15 macroblocks, without groups.\<close>

definition plain_sps :: sps_syntax where
  "plain_sps = \<lparr>ss_profile = 66, ss_constraints = 0, ss_level = 30, ss_id = 0,
     ss_chroma = \<lparr>cs_format = 0, cs_separate = False, cs_luma_depth = 0, cs_chroma_depth = 0, cs_bypass = False, cs_scaling = None\<rparr>,
     ss_max_frame_num = 0, ss_order = Order2, ss_ref_frames = 1, ss_gaps = False, ss_width = 19, ss_height = 14,
     ss_mbaff = Some True, ss_direct = False, ss_cropping = None,
     ss_vui = Some \<lparr>vs_aspect = Some (255, 0, 3), vs_overscan = None, vs_signal = None, vs_chroma = None, vs_timing = None,
       vs_nal = None, vs_vcl = None, vs_low_delay = False, vs_pic_struct = True, vs_restriction = None\<rparr>\<rparr>"

lemma plain_sps_bytes: "bytes_bits [66, 0, 30, 218, 5, 7, 167, 254, 0, 0, 0, 6, 5] = sps_bits plain_sps @ [True]"
proof -
  have "bytes_bits [66, 0, 30, 218, 5, 7, 167, 254, 0, 0, 0, 6, 5] = map (\<lambda>c. c = CHR ''1'')
    (''01000010'' @ ''00000000'' @ ''00011110'' @ ''11011010'' @ ''00000101'' @ ''00000111'' @ ''10100111'' @
     ''11111110'' @ ''00000000'' @ ''00000000'' @ ''00000000'' @ ''00000110'' @ ''00000101'')"
    by code_simp
  also have "\<dots> = sps_bits plain_sps @ [True]"
    by (simp add: sps_bits_def plain_sps_def ub_def has_chroma_info_def geometry_bits_def vui_bits_def aspect_bits_def
        opt_bits_def ue_code_def bin.simps signal_bits_def timing_bits_def hrds_bits_def restriction_bits_def upt_rec bit_iff_odd)
  finally show ?thesis .
qed

definition blank_nodes :: ps_nodes where
  "blank_nodes = (\<lambda>_. \<lparr>pan_scan_param = \<lparr>rect_id = 0, rect_cancel_flag = 0, ps_cnt = 0, rect_left_offset = [0, 0, 0],
     rect_right_offset = [0, 0, 0], rect_top_offset = [0, 0, 0], rect_bottom_offset = [0, 0, 0], rect_repetition_period = 0\<rparr>,
     start_ts = 0, end_ts = 0, ps_active = False, node_next = None, node_prev = None\<rparr>)"

theorem sps_roundtrip_witness:
  "\<exists>s'. parse_nal A64 (nal_bytes 3 103 [66, 0, 30, 218, 5, 7, 167, 254, 0, 0, 0, 6, 5]) 19 NALU_TYPE_SPS True
      (parser_new 0 (Some blank_nodes)) = Some s' \<and>
    profile s' = 66 \<and> mbaff_flag s' \<and> aspect_ratio_idc (aspect_ratio_info (vui_param s')) = 255 \<and>
    aspect_ratio_y (aspect_ratio_info (vui_param s')) = 3 \<and> pic_struct_present_flag (vui_param s') = 1"
proof -
  let ?p = "[66, 0, 30, 218, 5, 7, 167, 254, 0, 0, 0, 6, 5]" and ?s = "parser_new 0 (Some blank_nodes)"
  have wf: "sps_wf plain_sps" "scaling_as_read plain_sps" "ss_vui plain_sps = Some v \<longrightarrow> vs_timing v = None" for v
    by (auto simp: sps_wf_def plain_sps_def chroma_wf_def vui_wf_def scaling_as_read_def)
  have l: "length (nal_bytes 3 103 ?p) = 19" by (simp add: nal_bytes_def)
  have s: "vui_arrays (vui_param ?s)" "\<not> overrun ?s" "panscan_hdl ?s = Some (ps_initialize 10 blank_nodes)"
    by (simp_all add: parser_new_def vui_zero_def vui_arrays_def hrd_arrays_def hrd_zero_def)
  from sps_roundtrip[of 103 3 ?p plain_sps "[True]" ?s A64 "ps_initialize 10 blank_nodes"] obtain s' where s':
    "parse_nal A64 (nal_bytes 3 103 ?p) (of_nat (length (nal_bytes 3 103 ?p))) NALU_TYPE_SPS True ?s = Some s'"
    "params s' = sps_of plain_sps ((params ?s)\<lparr>emulation_sc_enabled := True\<rparr>)
       \<lparr>panscan_hdl := Some (snd (get_free (ps_initialize 10 blank_nodes)))\<rparr>"
    using wf s plain_sps_bytes by (auto simp: l)
  have "profile (params s') = 66" "mbaff_flag (params s')"
    "aspect_ratio_idc (aspect_ratio_info (vui_param (params s'))) = 255"
    "aspect_ratio_y (aspect_ratio_info (vui_param (params s'))) = 3" "pic_struct_present_flag (vui_param (params s')) = 1"
    unfolding s'(2) by (simp_all add: sps_of_def plain_sps_def vui_of_def pic_part_def vcl_part_def nal_part_def
        timing_part_def aspect_part_def aspect_of_def Let_def)
  then show ?thesis using s'(1) unfolding l by simp
qed

text \<open>
  A read of 32 bits from a full window shifts by 32, which C++ does not define and 64 bit ARM
  takes as a shift by 0. So of timing information that starts at a multiple of 32 bits the second
  number is wrong where 64 bit ARM is used, here 60393 for the 60000 that 32 bit ARM reads.
\<close>
theorem timing_misread:
  "map_option (\<lambda>s. (num_units_in_tick (vui_param s), time_scale (vui_param s)))
     (parse_nal A64 [0, 0, 0, 33, 0, 0, 3, 233, 0, 0, 234, 96, 148] 13 NALU_TYPE_VUI False (parser_new 0 (Some blank_nodes))) =
     Some (1001, 60393) \<and>
   map_option (\<lambda>s. (num_units_in_tick (vui_param s), time_scale (vui_param s)))
     (parse_nal A32 [0, 0, 0, 33, 0, 0, 3, 233, 0, 0, 234, 96, 148] 13 NALU_TYPE_VUI False (parser_new 0 (Some blank_nodes))) =
     Some (1001, 60000)"
  by code_simp

text \<open>A High profile set in the format 4:2:0 with 8 scaling lists that are all left out.\<close>

definition high_sps :: sps_syntax where
  "high_sps = \<lparr>ss_profile = 100, ss_constraints = 0, ss_level = 40, ss_id = 0,
     ss_chroma = \<lparr>cs_format = 1, cs_separate = False, cs_luma_depth = 0, cs_chroma_depth = 0, cs_bypass = False,
       cs_scaling = Some [None, None, None, None, None, None, None, None]\<rparr>,
     ss_max_frame_num = 0, ss_order = Order0 0, ss_ref_frames = 1, ss_gaps = False, ss_width = 119, ss_height = 33,
     ss_mbaff = Some True, ss_direct = True, ss_cropping = None, ss_vui = None\<rparr>"

lemma high_sps_bytes: "bytes_bits [100, 0, 40, 173, 0, 232, 7, 128, 68, 200] = sps_bits high_sps @ [True, False, False, False]"
proof -
  have "bytes_bits [100, 0, 40, 173, 0, 232, 7, 128, 68, 200] = map (\<lambda>c. c = CHR ''1'')
    (''01100100'' @ ''00000000'' @ ''00101000'' @ ''10101101'' @ ''00000000'' @ ''11101000'' @ ''00000111'' @
     ''10000000'' @ ''01000100'' @ ''11001000'')"
    by code_simp
  also have "\<dots> = sps_bits high_sps @ [True, False, False, False]"
    by (simp add: sps_bits_def high_sps_def ub_def has_chroma_info_def chroma_bits_def scaling_bits_def geometry_bits_def
        opt_bits_def ue_code_def bin.simps upt_rec bit_iff_odd)
  finally show ?thesis .
qed

text \<open>
  A High profile set with scaling lists in the format 4:2:0 has 8 of them, but the parser
  reads 12 in every format. The four flags it takes too many shift all that follows: here the
  macroblock adaptive flag is read as unset although the set is well formed and has it set.
\<close>
theorem scaling_lists_overread:
  "sps_wf high_sps \<and> ss_mbaff high_sps = Some True \<and>
   bytes_bits [100, 0, 40, 173, 0, 232, 7, 128, 68, 200] = sps_bits high_sps @ [True, False, False, False] \<and>
   map_option mbaff_flag (parse_nal A64 [0, 0, 0, 1, 103, 100, 0, 40, 173, 0, 232, 7, 128, 68, 200] 15 NALU_TYPE_SPS True
     (parser_new 0 (Some blank_nodes))) = Some False"
proof (intro conjI high_sps_bytes)
  have "(case [None, None, None, None, None, None, None, None] ! i of None \<Rightarrow> True | Some ds \<Rightarrow> P ds)"
    if "i < 8" for i and P :: "int list \<Rightarrow> bool"
    using that by (auto simp: nth_Cons' split: if_splits)
  then show "sps_wf high_sps" by (simp add: sps_wf_def high_sps_def chroma_wf_def)
  show "ss_mbaff high_sps = Some True" by (simp add: high_sps_def)
  show "map_option mbaff_flag (parse_nal A64 [0, 0, 0, 1, 103, 100, 0, 40, 173, 0, 232, 7, 128, 68, 200] 15 NALU_TYPE_SPS True
     (parser_new 0 (Some blank_nodes))) = Some False" by code_simp
qed

text \<open>
  The parser skips the rest of a message it does not know by counting bytes, and it counts an
  emulation prevention byte only if it has already been read into the window. Here a message of
  unknown type has such a byte in its payload, and the frame packing message after it is not
  parsed; without the emulation prevention byte it is.
\<close>
theorem message_after_emulation_lost:
  "map_option (\<lambda>s. (fp_id (frame_packing_arrangement s), cancel_flag (frame_packing_arrangement s)))
     (parse_nal A64 [0, 0, 0, 1, 6, 5, 4, 0, 0, 3, 1, 9, 45, 2, 64, 192, 128] 17 NALU_TYPE_SEI True
       (parser_new 0 (Some blank_nodes))) = Some (0, 1) \<and>
   map_option (\<lambda>s. (fp_id (frame_packing_arrangement s), cancel_flag (frame_packing_arrangement s)))
     (parse_nal A64 [0, 0, 0, 1, 6, 5, 4, 0, 5, 1, 9, 45, 2, 64, 192, 128] 16 NALU_TYPE_SEI True
       (parser_new 0 (Some blank_nodes))) = Some (1, 0)"
  by code_simp

section \<open>Any bytes\<close>

text \<open>A sequence of NAL units, each with the type asked for and whether to remove emulation prevention.\<close>

fun parse_nals :: "isa \<Rightarrow> (byte list \<times> u32 \<times> bool) list \<Rightarrow> h264_parser \<Rightarrow> h264_parser option" where
  "parse_nals m [] s = Some s"
| "parse_nals m ((data, nal_type, emu) # nals) s =
     Option.bind (parse_nal m data (of_nat (length data)) nal_type emu s) (parse_nals m nals)"

lemma parse_nals_safe:
  "safe s \<Longrightarrow> \<forall>x \<in> set nals. length (fst x) < 2 ^ 23 \<Longrightarrow> \<exists>s'. parse_nals m nals s = Some s' \<and> safe s'"
proof (induction nals arbitrary: s)
  case (Cons x nals)
  obtain data nal_type emu where x: "x = (data, nal_type, emu)" by (cases x)
  have l: "length data < 2 ^ 23" using Cons.prems(2) by (simp add: x)
  then have u: "unat (of_nat (length data) :: u32) = length data" by (intro unat_of_small) simp
  obtain s1 where "parse_nal m data (of_nat (length data)) nal_type emu s = Some s1" "safe s1"
    using nal_safe[OF Cons.prems(1), of data "of_nat (length data)" m nal_type emu] l unfolding u by auto
  then show ?case using Cons.IH[of s1] Cons.prems(2) by (simp add: x)
qed simp

text \<open>
  C21: Whatever the bytes of a sequence of NAL units are, the parser returns from every one of
  them: the loops over messages, scaling lists, clock times and reference frames all end, and no
  read is beyond the end of a buffer. Units are below 8 MB, so that sums of positions do not wrap.
\<close>
theorem nal_streams_terminate:
  assumes "\<forall>x \<in> set nals. length (fst x) < 2 ^ 23"
  shows "\<exists>s. parse_nals m nals (parser_new p (Some mem)) = Some s \<and> \<not> overrun s"
  using parse_nals_safe[OF parser_new_safe assms, of m p mem] by (auto simp: safe_def)

theorem nal_streams_terminate_witness:
  "\<exists>s. parse_nals A64 [([0, 0, 1, 6, 255, 255, 255], NALU_TYPE_SEI, True), ([0, 0, 1, 7, 0, 0, 3], NALU_TYPE_SPS, True)]
    (parser_new 0 (Some blank_nodes)) = Some s \<and> \<not> overrun s"
  by (rule nal_streams_terminate) simp

section \<open>Payloads and frames\<close>

text \<open>
  C22: \<open>extract_rbsp\<close> undoes what a writer of NAL units does: it finds the unit after a start code
  of three or four bytes, or after its length in one to four bytes, and what it copies is the
  payload without the emulation prevention bytes, with its length and the fields of the header.
\<close>
theorem extract_roundtrip:
  assumes "h AND 31 \<noteq> 10" "h AND 31 \<noteq> 11" "length payload \<le> length mem" "length mem < 2 ^ 32"
  shows "((z = 2 \<or> z = 3) \<and> length (nal_bytes z h payload) < 2 ^ 32 \<longrightarrow>
      extract_rbsp m (nal_bytes z h payload @ rest) (of_nat (length (nal_bytes z h payload))) 0 mem len0 nal0 =
        Some (1, payload @ drop (length payload) mem, of_nat (length payload), header_of h)) \<and>
    (1 \<le> length lb \<and> length lb \<le> 4 \<and> nob (bytes_bits lb) = 1 + length (escape 0 payload) \<and>
      length lb + 1 + length (escape 0 payload) \<le> unat buffer_length \<longrightarrow>
      extract_rbsp m (lb @ h # escape 0 payload @ rest) buffer_length (of_nat (length lb)) mem len0 nal0 =
        Some (1, payload @ drop (length payload) mem, of_nat (length payload), header_of h))"
proof -
  have w: "write_at 0 payload mem = payload @ drop (length payload) mem" by (simp add: write_at_def)
  show ?thesis
    using extract_alone[of z h payload mem m rest len0 nal0] extract_with_length[of lb payload h buffer_length mem m rest len0 nal0] assms
    unfolding w by blast
qed

theorem extract_roundtrip_witness:
  "extract_rbsp A64 (nal_bytes 3 101 [0, 0, 1] @ []) (of_nat (length (nal_bytes 3 101 [0, 0, 1]))) 0 [9, 9, 9, 9, 9] 0 (header_of 0) =
     Some (1, [0, 0, 1, 9, 9], 3, header_of 101) \<and>
   extract_rbsp A64 ([0, 5] @ 101 # escape 0 [0, 0, 1] @ []) 7 (of_nat (length [0, 5 :: byte])) [9, 9, 9, 9, 9] 0 (header_of 0) =
     Some (1, [0, 0, 1, 9, 9], 3, header_of 101)"
proof -
  have "nob (bytes_bits [0, 5]) = 5" by code_simp
  then show ?thesis
    using extract_roundtrip[of 101 "[0, 0, 1]" "[9, 9, 9, 9, 9]" 3 A64 "[]" 0 "header_of 0" "[0, 5]" 7]
    by (simp add: nal_bytes_def)
qed

text \<open>
  C23: \<open>isNewFrame\<close> finds the access units of a stream without access unit delimiters. Each of them is any number of parameter
  sets and messages, a slice whose first macroblock is number 0, and slices of the same header
  with other first macroblocks. Called for one NAL unit after the other from the start of the stream it says true for
  the first one of every access unit and false for all others, with one exception: for the very first unit of the stream
  it says false if that is not a slice.
\<close>
theorem access_units_found:
  assumes "list_all au_wf (x # xs)" "list_all (fits (length (m_rbspBytes u))) (concat (map au_nals (x # xs)))"
    "length (m_rbspBytes u) < 2 ^ 32"
  shows "\<exists>u'. frame_starts m nal0 (map nal_buffer (concat (map au_nals (x # xs)))) (initialize_frame_checking_environment u) =
    Some (((au_prefix x = []) # replicate (length (au_nals x) - 1) False) @
      concat (map (\<lambda>y. True # replicate (length (au_nals y) - 1) False) xs), u')"
  by (rule starts_stream[OF assms])

theorem access_units_found_witness:
  "\<exists>u'. frame_starts A64 (header_of 0) (map nal_buffer [(103, [66]), (104, [128]), (101, [128]), (65, [128]), (65, [64])])
    (initialize_frame_checking_environment \<lparr>m_rbspBytes = [0, 0, 0, 0], m_prv_nalu = header_of 0, m_forceToStichNextNAL = True,
       m_au_data = True, u_nalu_type = 0\<rparr>) =
    Some ([False, False, False, True, False], u')"
proof -
  let ?x = "([(103, [66]), (104, [128])], 101, [128], [])" and ?y = "([], 65, [128], [(1, [64])])"
  have "ue_code 0 = [True]" "ue_code 1 = [False, True, False]" by (simp_all add: ue_code_def bin.simps)
  moreover have "bytes_bits [128] = [True, False, False, False, False, False, False, False]"
    "bytes_bits [64] = [False, True, False, False, False, False, False, False]"
    by code_simp+
  ultimately have "starts_with (ue_code 0) [128]" "starts_with (ue_code 1) [64]" by (simp_all add: starts_with_def)
  moreover have "prefix_type 103" "prefix_type 104" "slice_type 101" "slice_type 65" by code_simp+
  ultimately have wf: "list_all au_wf [?x, ?y]" by (simp add: au_wf_def)
  let ?u = "\<lparr>m_rbspBytes = [0, 0, 0, 0], m_prv_nalu = header_of 0, m_forceToStichNextNAL = True, m_au_data = True,
    u_nalu_type = 0\<rparr>"
  have fit: "list_all (fits (length (m_rbspBytes ?u))) (concat (map au_nals [?x, ?y]))"
    by (simp add: fits_def au_nals_def nal_buffer_def nal_bytes_def)
  show ?thesis
    using access_units_found[OF wf fit, of A64 "header_of 0"]
    by (simp add: au_nals_def au_prefix_def del: frame_starts.simps)
qed

text \<open>
  If more than the unit is in the buffer, \<open>extract_rbsp\<close> returns the position of the next start
  code cut to a byte. That is 0, which stands for a failure, if it is a multiple of 256.
\<close>

lemma escape_nonzero: "list_all (\<lambda>b. b \<noteq> 0) p \<Longrightarrow> escape 0 p = p \<and> zeros_after 0 p = 0"
  by (induction p) auto

theorem extraction_fails_at_256:
  assumes "length mem < 2 ^ 32" "253 \<le> length mem"
  shows "\<exists>mem'. extract_rbsp m (nal_bytes 3 65 (replicate 251 128) @ [0, 0, 1, 65]) 260 0 mem len0 nal0 =
    Some (0, mem', 251, header_of 65)"
proof -
  have p: "escape 0 (replicate 251 128) = replicate 251 128" "zeros_after 0 (replicate 251 128) = 0"
    using escape_nonzero[of "replicate 251 128"] by (simp_all add: list_all_iff)
  have l: "length (nal_bytes 3 65 (replicate 251 128)) = 256" by (simp add: nal_bytes_def p)
  have b: "length (nal_bytes 3 65 (replicate 251 128)) + 3 \<le> unat (260 :: u32)" by (simp add: l)
  show ?thesis
    using extract_before[of 3 65 "replicate 251 128" 260 1 mem m "[65]" len0 nal0] b assms p(2) by (simp add: l)
qed

section \<open>Pan scan\<close>

text \<open>
  C24: Whatever the order in which nodes are taken, filled in, found for frames and updated, every
  operation of the pan scan handler returns, its two doubly linked lists stay well formed, and
  every one of its nodes is in exactly one of them.
\<close>
theorem panscan_nodes_kept:
  "\<exists>ps used free. ps_run ops (ps_initialize n mem) = Some ps \<and> ps_lists ps used free \<and>
     mset used + mset free = mset [0..<n]"
  using ps_run_lists[OF initialize_lists, of ops n mem] by auto

text \<open>
  \<open>get_populated\<close> on the linked lists is a function of the list of used nodes: the nodes in
  front whose time is over go to the free ones, and the next one is the answer if it applies to
  the frame, which is when it has no time yet, is active, or does not start after the frame.
\<close>
theorem populated_node_applies:
  assumes "ps_lists ps used free"
  shows "\<exists>ps' used' free'. get_populated ts ps =
      Some (case dropWhile (ps_over ts (panscan_data ps)) used of [] \<Rightarrow> None
            | i # _ \<Rightarrow> if ps_applies ts (panscan_data ps) i then Some i else None, ps') \<and>
    ps_lists ps' used' free' \<and> mset used' + mset free' = mset used + mset free"
  by (rule get_populated_lists[OF assms])

theorem populated_node_applies_witness:
  "\<exists>ps' used' free'. get_populated 5 (ps_initialize 2 blank_nodes) = Some (None, ps') \<and> ps_lists ps' used' free'"
  using populated_node_applies[OF initialize_lists, of 5 2 blank_nodes] by auto

end
