(* ===== verification/FrameParser.thy ===== *)
theory FrameParser
  imports H264Reader "HOL-Library.Monad_Syntax"
begin

unbundle bit_operations_syntax

text \<open>
  frame_parse (vidc/vdec/src/frameparser.cpp): the state machines that cut a stream of bytes,
  which arrives in buffers of any size, into frames or NAL units. A result is None if memory
  outside of a buffer is read or written or a table that is not set is used.
\<close>

section \<open>Buffers\<close>

text \<open>
  The members of OMX_BUFFERHEADERTYPE the parser uses; \<open>pBuffer\<close> is the memory the pointer
  refers to. The parser keeps its pointers at the first byte left of the source, and behind the
  last byte of the destination: \<open>src_pos\<close> and \<open>dst_pos\<close>.
\<close>

record omx_buffer =
  pBuffer :: "byte list"
  nAllocLen :: u32
  nFilledLen :: u32
  nOffset :: u32
  nFlags :: u32
  nTimeStamp :: "64 word"

abbreviation (input) OMX_BUFFERFLAG_EOS :: u32 where "OMX_BUFFERFLAG_EOS \<equiv> 1"

definition has_eos :: "omx_buffer \<Rightarrow> bool" where
  "has_eos b \<longleftrightarrow> nFlags b AND OMX_BUFFERFLAG_EOS \<noteq> 0"

definition dest_room :: "omx_buffer \<Rightarrow> u32" where
  "dest_room d = nAllocLen d - (nFilledLen d + nOffset d)"

definition src_pos :: "omx_buffer \<Rightarrow> nat" where
  "src_pos s = unat (nOffset s)"

definition dst_pos :: "omx_buffer \<Rightarrow> nat" where
  "dst_pos d = unat (nFilledLen d + nOffset d)"

definition byte_at :: "byte list \<Rightarrow> nat \<Rightarrow> byte option" where
  "byte_at mem i = (if i < length mem then Some (mem ! i) else None)"

definition bytes_at :: "byte list \<Rightarrow> nat \<Rightarrow> nat \<Rightarrow> byte list option" where
  "bytes_at mem i n = (if i + n \<le> length mem then Some (take n (drop i mem)) else None)"

text \<open>\<open>memcpy\<close> to the end of the destination, and what is used of the source is taken from it.\<close>

definition put :: "byte list \<Rightarrow> omx_buffer \<Rightarrow> omx_buffer option" where
  "put bs d =
     (if dst_pos d + length bs \<le> length (pBuffer d)
      then Some (d\<lparr>pBuffer := take (dst_pos d) (pBuffer d) @ bs @ drop (dst_pos d + length bs) (pBuffer d),
                   nFilledLen := nFilledLen d + of_nat (length bs)\<rparr>)
      else None)"

definition consume :: "nat \<Rightarrow> omx_buffer \<Rightarrow> omx_buffer" where
  "consume n s = s\<lparr>nFilledLen := nFilledLen s - of_nat n, nOffset := nOffset s + of_nat n\<rparr>"

section \<open>Start codes\<close>

datatype start_codes = MPEG4_start_code | H263_start_code | H264_start_code | VC1_AP_start_code | MPEG2_start_code

fun code_bytes :: "start_codes \<Rightarrow> byte list" where
  "code_bytes H264_start_code = [0x00, 0x00, 0x00, 0x01]"
| "code_bytes MPEG4_start_code = [0x00, 0x00, 0x01, 0xB6]"
| "code_bytes H263_start_code = [0x00, 0x00, 0x80, 0x00]"
| "code_bytes VC1_AP_start_code = [0x00, 0x00, 0x01, 0x0C]"
| "code_bytes MPEG2_start_code = [0x00, 0x00, 0x01, 0x00]"

fun mask_bytes :: "start_codes \<Rightarrow> byte list" where
  "mask_bytes H264_start_code = [0xFF, 0xFF, 0xFF, 0xFF]"
| "mask_bytes MPEG4_start_code = [0xFF, 0xFF, 0xFF, 0xFF]"
| "mask_bytes H263_start_code = [0xFF, 0xFF, 0xFC, 0x00]"
| "mask_bytes VC1_AP_start_code = [0xFF, 0xFF, 0xFF, 0xFC]"
| "mask_bytes MPEG2_start_code = [0xFF, 0xFF, 0xFF, 0xFF]"

definition matches_code :: "start_codes \<Rightarrow> nat \<Rightarrow> byte \<Rightarrow> bool" where
  "matches_code c i b \<longleftrightarrow> b AND mask_bytes c ! i = code_bytes c ! i"

section \<open>The parser\<close>

text \<open>The types of codecs as the build numbers them: DivX shares the number of MPEG-4, VP9 that of VP8.\<close>

datatype codec_type =
  CODEC_TYPE_MPEG4 | CODEC_TYPE_H263 | CODEC_TYPE_H264 | CODEC_TYPE_VC1 | CODEC_TYPE_MPEG2 |
  CODEC_TYPE_VP8 | CODEC_TYPE_HEVC | CODEC_TYPE_MAX

datatype state_start_code_parse = A0 | A1 | A2 | A3 | A4 | A5

datatype state_nal_parse = NAL_LENGTH_ACC | NAL_PARSING

text \<open>\<open>start_code\<close> stands for both pointers, which are set together to the tables of one codec.\<close>

record frame_parser =
  parse_state :: state_start_code_parse
  start_code :: "start_codes option"
  last_byte_h263 :: byte
  last_byte :: byte
  header_found :: bool
  skip_frame_boundary :: bool
  state_nal :: state_nal_parse
  f_nal_length :: u32
  accum_length :: u32
  bytes_tobeparsed :: u32

definition frame_parse :: frame_parser where
  "frame_parse = \<lparr>parse_state = A0, start_code = None, last_byte_h263 = 0, last_byte = 0, header_found = False,
     skip_frame_boundary = False, state_nal = NAL_LENGTH_ACC, f_nal_length = 0, accum_length = 0, bytes_tobeparsed = 0\<rparr>"

definition init_start_codes :: "codec_type \<Rightarrow> frame_parser \<Rightarrow> int \<times> frame_parser" where
  "init_start_codes codec p =
     (if parse_state p \<noteq> A0 then (-1, p)
      else case codec of
        CODEC_TYPE_MPEG4 \<Rightarrow> (1, p\<lparr>start_code := Some MPEG4_start_code\<rparr>)
      | CODEC_TYPE_H263 \<Rightarrow> (1, p\<lparr>start_code := Some H263_start_code\<rparr>)
      | CODEC_TYPE_H264 \<Rightarrow> (1, p\<lparr>start_code := Some H264_start_code\<rparr>)
      | CODEC_TYPE_HEVC \<Rightarrow> (1, p\<lparr>start_code := Some H264_start_code\<rparr>)
      | CODEC_TYPE_VC1 \<Rightarrow> (1, p\<lparr>start_code := Some VC1_AP_start_code\<rparr>)
      | CODEC_TYPE_MPEG2 \<Rightarrow> (1, p\<lparr>start_code := Some MPEG2_start_code\<rparr>)
      | CODEC_TYPE_VP8 \<Rightarrow> (1, p)
      | CODEC_TYPE_MAX \<Rightarrow> (-1, p))"

definition init_nal_length :: "u32 \<Rightarrow> frame_parser \<Rightarrow> int \<times> frame_parser" where
  "init_nal_length nal_len p =
     (if nal_len = 0 \<or> nal_len > 4 \<or> state_nal p \<noteq> NAL_LENGTH_ACC then (-1, p)
      else (1, p\<lparr>f_nal_length := nal_len\<rparr>))"

definition flush_parser :: "frame_parser \<Rightarrow> frame_parser" where
  "flush_parser p = p\<lparr>parse_state := A0, state_nal := NAL_LENGTH_ACC, accum_length := 0, bytes_tobeparsed := 0,
     header_found := False, skip_frame_boundary := False\<rparr>"

text \<open>The codecs with a second start code: headers that go with the frame after them.\<close>

definition additional_code :: "frame_parser \<Rightarrow> byte \<Rightarrow> bool" where
  "additional_code p b \<longleftrightarrow>
     start_code p = Some MPEG4_start_code \<and> b AND 0xF0 = 0x20 \<or>
     start_code p = Some MPEG2_start_code \<and> b = 0xB3"

text \<open>\<open>b\<close> is the byte at the index, the result whether the index is moved.\<close>

definition parse_additional_start_code :: "byte \<Rightarrow> frame_parser \<Rightarrow> bool \<times> frame_parser" where
  "parse_additional_start_code b p =
     (if additional_code p b then
        if header_found p then (True, p\<lparr>last_byte := b, parse_state := A4\<rparr>)
        else (False, p\<lparr>header_found := True\<rparr>)
      else (False, p))"

definition check_skip_frame_boundary :: "u32 \<Rightarrow> frame_parser \<Rightarrow> u32 \<times> frame_parser" where
  "check_skip_frame_boundary partialframe p =
     (if start_code p = Some MPEG4_start_code \<or> start_code p = Some MPEG2_start_code
      then (if skip_frame_boundary p then 1 else 0, p\<lparr>skip_frame_boundary := False\<rparr>)
      else (partialframe, p))"

definition update_skip_frame :: "frame_parser \<Rightarrow> frame_parser" where
  "update_skip_frame p = (if additional_code p (last_byte p) then p\<lparr>skip_frame_boundary := True\<rparr> else p)"

section \<open>Parsing by start codes\<close>

text \<open>The start code found by the previous call goes to the destination first.\<close>

definition start_frame :: "frame_parser \<Rightarrow> omx_buffer \<Rightarrow> omx_buffer \<Rightarrow> (frame_parser \<times> omx_buffer) option" where
  "start_frame p s d =
     (if parse_state p = A4 \<or> parse_state p = A5 then
        do { c \<leftarrow> start_code p;
             let d = d\<lparr>nFlags := nFlags s, nTimeStamp := nTimeStamp s\<rparr>;
                 last_is_kept = (c = VC1_AP_start_code \<or> c = MPEG4_start_code \<or> c = MPEG2_start_code);
                 header = (if c = H263_start_code then take 2 (code_bytes c) @ [last_byte_h263 p]
                           else if last_is_kept then (code_bytes c)[3 := last_byte p] else code_bytes c);
                 p = (if last_is_kept then update_skip_frame p else p) in
             do { d \<leftarrow> put header d; Some (p\<lparr>parse_state := A0\<rparr>, d) } }
      else Some (p, d))"

text \<open>
  Where a byte that does not continue a start code leads to, and how many bytes of the start code
  are then known to be no part of one. The byte is looked at again in that state.
\<close>

definition fallback3 :: "start_codes \<Rightarrow> state_start_code_parse \<times> nat" where
  "fallback3 c =
     (if code_bytes c ! 1 = code_bytes c ! 0 \<and> code_bytes c ! 2 = code_bytes c ! 1 then (A2, 1)
      else if code_bytes c ! 2 = code_bytes c ! 0 then (A1, 2) else (A0, 3))"

definition fallback2 :: "start_codes \<Rightarrow> state_start_code_parse \<times> nat" where
  "fallback2 c = (if code_bytes c ! 1 = code_bytes c ! 0 then (A1, 1) else (A0, 2))"

text \<open>
  One turn of both machines on the byte \<open>b\<close>, without what they do to the buffers: whether the byte
  is used up and, if not, how many bytes of the start code the destination of the first machine gets.
\<close>

definition third_byte :: "start_codes \<Rightarrow> byte \<Rightarrow> frame_parser \<Rightarrow> bool \<times> frame_parser" where
  "third_byte c b p =
     (if c = H263_start_code then
        (if matches_code c 2 b then (True, p\<lparr>last_byte_h263 := b, parse_state := A5\<rparr>) else (False, p))
      else if c = H264_start_code \<and> matches_code c 3 b then (True, p\<lparr>parse_state := A5\<rparr>)
      else if matches_code c 2 b then (True, p\<lparr>parse_state := A3\<rparr>) else (False, p))"

definition fourth_byte :: "start_codes \<Rightarrow> byte \<Rightarrow> frame_parser \<Rightarrow> bool \<times> frame_parser" where
  "fourth_byte c b p =
     (let (found, p) = parse_additional_start_code b p in
      if found then (True, p)
      else if matches_code c 3 b then (True, p\<lparr>parse_state := A4, last_byte := b\<rparr>)
      else (False, p))"

definition code_step :: "start_codes \<Rightarrow> byte \<Rightarrow> frame_parser \<Rightarrow> bool \<times> nat \<times> frame_parser" where
  "code_step c b p =
     (case parse_state p of
        A1 \<Rightarrow> if matches_code c 1 b then (True, 0, p\<lparr>parse_state := A2\<rparr>) else (False, 1, p\<lparr>parse_state := A0\<rparr>)
      | A2 \<Rightarrow>
          let (used, p) = third_byte c b p in
          if used then (True, 0, p) else (False, snd (fallback2 c), p\<lparr>parse_state := fst (fallback2 c)\<rparr>)
      | A3 \<Rightarrow>
          let (used, p) = fourth_byte c b p in
          if used then (True, 0, p) else (False, snd (fallback3 c), p\<lparr>parse_state := fst (fallback3 c)\<rparr>)
      | A0 \<Rightarrow> (True, 0, p\<lparr>parse_state := (if matches_code c 0 b then A1 else A0)\<rparr>)
      | _ \<Rightarrow> (True, 0, p))"

fun rank :: "state_start_code_parse \<Rightarrow> nat" where
  "rank A0 = 0" | "rank A1 = 1" | "rank A2 = 2" | "rank A3 = 3" | "rank A4 = 4" | "rank A5 = 5"

lemma code_step_rank: "code_step c b p = (False, k, p') \<Longrightarrow> rank (parse_state p') < rank (parse_state p)"
  by (auto simp: code_step_def third_byte_def fourth_byte_def fallback2_def fallback3_def Let_def
      split: state_start_code_parse.splits prod.splits if_splits)

lemma rank_drop: "i < j \<Longrightarrow> 6 * i + rank st < 6 * j + rank st'"
  by (cases st) auto

text \<open>
  The entry machine, for a start code that began in an earlier buffer: it has not yet written
  the bytes of the code it is in.
\<close>

function entry_loop :: "frame_parser \<Rightarrow> omx_buffer \<Rightarrow> omx_buffer \<Rightarrow> (frame_parser \<times> omx_buffer \<times> omx_buffer) option" where
  "entry_loop p s d =
     (if nFilledLen s > 0 \<and> parse_state p \<notin> {A0, A4, A5} \<and> dest_room d > 0 then
        case start_code p of None \<Rightarrow> None
      | Some c \<Rightarrow>
          (case byte_at (pBuffer s) (src_pos s) of None \<Rightarrow> None
           | Some b \<Rightarrow>
              (case code_step c b p of
                 (True, _, p') \<Rightarrow> entry_loop p' (consume 1 s) d
               | (False, k, p') \<Rightarrow>
                   (case put (take k (code_bytes c)) d of None \<Rightarrow> None
                    | Some d' \<Rightarrow> entry_loop p' s d')))
      else Some (p, s, d))"
  by pat_completeness auto
termination
proof (relation "measure (\<lambda>(p, s, d). 6 * unat (nFilledLen s) + rank (parse_state p))", goal_cases)
  case (2 p s d)
  have "unat (nFilledLen s - 1) < unat (nFilledLen s)"
    using 2(1) by (simp add: word_less_nat_alt unat_sub_if_size)
  then show ?case by (simp add: consume_def rank_drop)
next
  case (3 p s d)
  then show ?case by (auto dest: code_step_rank[OF sym])
qed simp

text \<open>The parsing machine, over \<open>temp_len\<close> bytes of the source; \<open>n\<close> of them are parsed.\<close>

function parse_loop :: "byte list \<Rightarrow> nat \<Rightarrow> nat \<Rightarrow> frame_parser \<Rightarrow> nat \<Rightarrow> (frame_parser \<times> nat) option" where
  "parse_loop mem pos temp_len p n =
     (if n < temp_len then
        case start_code p of None \<Rightarrow> None
      | Some c \<Rightarrow>
          (case byte_at mem (pos + n) of None \<Rightarrow> None
           | Some b \<Rightarrow>
              (case code_step c b p of
                 (used, _, p') \<Rightarrow>
                   let n' = (if used then n + 1 else n) in
                   if parse_state p' = A4 \<or> parse_state p' = A5 then Some (p', n')
                   else parse_loop mem pos temp_len p' n'))
      else Some (p, n))"
  by pat_completeness auto
termination
  by (relation "measure (\<lambda>(mem, pos, temp_len, p, n). 6 * (temp_len - n) + rank (parse_state p))")
    (auto dest!: code_step_rank[OF sym] simp: rank_drop split: if_splits)

declare entry_loop.simps [simp del] parse_loop.simps [simp del]

text \<open>The bytes of a start code that is not complete stay out of the destination unless the stream ends.\<close>

definition bytes_to_skip :: "state_start_code_parse \<Rightarrow> bool \<Rightarrow> nat" where
  "bytes_to_skip st eos =
     (case st of A5 \<Rightarrow> 3 | A4 \<Rightarrow> 4 | A0 \<Rightarrow> 0 | A3 \<Rightarrow> (if eos then 0 else 3)
      | A2 \<Rightarrow> (if eos then 0 else 2) | A1 \<Rightarrow> (if eos then 0 else 1))"

type_synonym parsed = "int \<times> frame_parser \<times> omx_buffer \<times> omx_buffer \<times> u32"

definition exit_machine :: "frame_parser \<Rightarrow> omx_buffer \<Rightarrow> omx_buffer \<Rightarrow> nat \<Rightarrow> parsed option" where
  "exit_machine p s d n =
     (let (partialframe, p) = (if parse_state p = A4 \<or> parse_state p = A5 then check_skip_frame_boundary 0 p else (1, p));
          skip = bytes_to_skip (parse_state p) (has_eos s) in
      if unat (nFilledLen s) < n then Some (-1, p, s, d, partialframe)
      else do {
        d \<leftarrow> (if n > skip then do { bs \<leftarrow> bytes_at (pBuffer s) (src_pos s) (n - skip); put bs d } else Some d);
        Some (1, p, consume n s, d, partialframe) })"

text \<open>
  \<open>parse_sc_frame\<close>: the result, the parser, the source, the destination and the answer whether
  the frame is partial. The pointers are those of the callers, which are never NULL.
\<close>

definition parse_sc_frame :: "frame_parser \<Rightarrow> omx_buffer \<Rightarrow> omx_buffer \<Rightarrow> u32 \<Rightarrow> parsed option" where
  "parse_sc_frame p s d partialframe =
     (if start_code p = Some H263_start_code \<and> dest_room d < 3 \<or>
         start_code p \<noteq> Some H263_start_code \<and> dest_room d < 4 \<or> nFilledLen s = 0 then
        (if nFilledLen s = 0 \<and> has_eos s then Some (1, p, s, d, 0) else Some (-1, p, s, d, partialframe))
      else do {
        (p, d) \<leftarrow> start_frame p s d;
        (p, s, d) \<leftarrow> entry_loop p s d;
        (if parse_state p = A4 \<or> parse_state p = A5 then
           let (partialframe, p) = check_skip_frame_boundary 0 p in Some (1, p, s, d, partialframe)
         else
           let temp_len = (if nFilledLen s < dest_room d then nFilledLen s else dest_room d) in
           if temp_len = 0 then Some (1, p, s, d, 1)
           else do {
             (p, n) \<leftarrow> parse_loop (pBuffer s) (src_pos s) (unat temp_len) p 0;
             exit_machine p s d n }) })"

section \<open>Parsing by lengths\<close>

text \<open>
  The bytes of the length of a NAL unit, at most \<open>k\<close> of them; the start code replaces it in the
  destination.
\<close>

fun length_loop :: "nat \<Rightarrow> frame_parser \<Rightarrow> omx_buffer \<Rightarrow> omx_buffer \<Rightarrow> (frame_parser \<times> omx_buffer \<times> omx_buffer) option" where
  "length_loop 0 p s d = Some (p, s, d)"
| "length_loop (Suc k) p s d =
     do { b \<leftarrow> byte_at (pBuffer s) (src_pos s);
          let p = p\<lparr>bytes_tobeparsed := bytes_tobeparsed p OR
                      push_bit (unat (push_bit 3 (f_nal_length p - accum_length p - 1))) (ucast b),
                    accum_length := accum_length p + 1\<rparr>;
              s = consume 1 s in
          if accum_length p = f_nal_length p then
            do { d \<leftarrow> put (code_bytes H264_start_code) d;
                 Some (p\<lparr>accum_length := 0, state_nal := NAL_PARSING\<rparr>, s, d) }
          else length_loop k p s d }"

definition parse_h264_nallength :: "frame_parser \<Rightarrow> omx_buffer \<Rightarrow> omx_buffer \<Rightarrow> u32 \<Rightarrow> parsed option" where
  "parse_h264_nallength p s d partialframe =
     (if dest_room d < 4 \<or> f_nal_length p = 0 then Some (-1, p, s, d, partialframe)
      else if nFilledLen s = 0 then
        (if has_eos s then Some (1, p, s, d, 0) else Some (-1, p, s, d, partialframe))
      else do {
        (p, s, d) \<leftarrow> (if state_nal p = NAL_LENGTH_ACC
           then length_loop (unat (min (nFilledLen s) (dest_room d))) p s d else Some (p, s, d));
        let temp_len = min (nFilledLen s) (dest_room d);
            d = d\<lparr>nTimeStamp := nTimeStamp s, nFlags := nFlags s\<rparr>;
            n = (if temp_len < bytes_tobeparsed p then temp_len else bytes_tobeparsed p) in
        do {
          (p, s, d) \<leftarrow> (if state_nal p = NAL_PARSING \<and> temp_len > 0 then
             do { bs \<leftarrow> bytes_at (pBuffer s) (src_pos s) (unat n);
                  d \<leftarrow> put bs d;
                  Some (p\<lparr>bytes_tobeparsed := bytes_tobeparsed p - n\<rparr>, consume (unat n) s, d) }
             else Some (p, s, d));
          (if bytes_tobeparsed p = 0 \<and> state_nal p = NAL_PARSING
           then Some (1, p\<lparr>state_nal := NAL_LENGTH_ACC\<rparr>, s, d, 0)
           else Some (1, p, s, d, 1)) } })"

end
