(* ===== verification/FrameScan.thy ===== *)
theory FrameScan
  imports FrameParser
begin

unbundle bit_operations_syntax

text \<open>
  What frame_parse does with a stream: a scanner over lists of bytes that knows nothing of
  buffers, the proof that \<open>parse_sc_frame\<close> is that scanner on what its buffers hold, and what the
  scanner finds, stated over the bytes of the stream alone.
\<close>

section \<open>Buffers as lists\<close>

definition contents :: "omx_buffer \<Rightarrow> byte list" where
  "contents b = take (unat (nFilledLen b)) (drop (unat (nOffset b)) (pBuffer b))"

definition buffer_ok :: "omx_buffer \<Rightarrow> bool" where
  "buffer_ok b \<longleftrightarrow> unat (nOffset b) + unat (nFilledLen b) \<le> unat (nAllocLen b) \<and> unat (nAllocLen b) \<le> length (pBuffer b)"

definition room :: "omx_buffer \<Rightarrow> nat" where
  "room b = unat (nAllocLen b) - (unat (nOffset b) + unat (nFilledLen b))"

definition same_header :: "omx_buffer \<Rightarrow> omx_buffer \<Rightarrow> bool" where
  "same_header b b' \<longleftrightarrow> nAllocLen b' = nAllocLen b \<and> nFlags b' = nFlags b \<and> nTimeStamp b' = nTimeStamp b"

lemma same_header_refl [simp]: "same_header b b"
  by (simp add: same_header_def)

lemma same_header_trans [trans]: "same_header a b \<Longrightarrow> same_header b c \<Longrightarrow> same_header a c"
  by (simp add: same_header_def)

lemma has_eos_same: "same_header b b' \<Longrightarrow> has_eos b' = has_eos b"
  by (simp add: same_header_def has_eos_def)

lemma buffer_ok_sum: "buffer_ok b \<Longrightarrow> unat (nFilledLen b + nOffset b) = unat (nOffset b) + unat (nFilledLen b)"
proof -
  assume "buffer_ok b"
  then have "unat (nOffset b) + unat (nFilledLen b) \<le> unat (nAllocLen b)" by (simp add: buffer_ok_def)
  then have "unat (nFilledLen b) + unat (nOffset b) < 2 ^ 32"
    using unsigned_less[of "nAllocLen b", where ?'a = nat] by simp
  then have "unat (nFilledLen b + nOffset b) = unat (nFilledLen b) + unat (nOffset b)"
    by (simp add: unat_word_ariths(1))
  then show ?thesis by simp
qed

lemma dst_pos_ok: "buffer_ok b \<Longrightarrow> dst_pos b = unat (nOffset b) + unat (nFilledLen b)"
  by (simp add: dst_pos_def buffer_ok_sum)

lemma dest_room_ok: "buffer_ok b \<Longrightarrow> unat (dest_room b) = room b"
proof -
  assume ok: "buffer_ok b"
  then have "nFilledLen b + nOffset b \<le> nAllocLen b"
    unfolding word_le_nat_alt buffer_ok_sum[OF ok] buffer_ok_def by (rule conjunct1)
  then have "unat (dest_room b) = unat (nAllocLen b) - unat (nFilledLen b + nOffset b)"
    unfolding dest_room_def by (rule unat_sub)
  then show ?thesis unfolding room_def buffer_ok_sum[OF ok] .
qed

lemma length_contents: "buffer_ok b \<Longrightarrow> length (contents b) = unat (nFilledLen b)"
  by (auto simp: contents_def buffer_ok_def)

lemma contents_empty: "buffer_ok b \<Longrightarrow> contents b = [] \<longleftrightarrow> nFilledLen b = 0"
  by (metis length_0_conv length_contents unat_eq_zero)

lemma put_ok:
  assumes "buffer_ok d" "length bs \<le> room d"
  shows "\<exists>d'. put bs d = Some d' \<and> contents d' = contents d @ bs \<and> buffer_ok d' \<and> same_header d d' \<and>
    room d' = room d - length bs"
proof -
  let ?o = "unat (nOffset d)" and ?f = "unat (nFilledLen d)" and ?a = "unat (nAllocLen d)"
  have le: "?o + ?f + length bs \<le> ?a" "?a \<le> length (pBuffer d)" "?a < 2 ^ 32"
    using assms unsigned_less[of "nAllocLen d", where ?'a = nat] by (auto simp: room_def buffer_ok_def)
  have f: "unat (nFilledLen d + of_nat (length bs)) = ?f + length bs"
    using le by (simp add: unat_word_ariths unat_of_nat take_bit_nat_eq_self)
  have "drop ?o (take (?o + ?f) (pBuffer d)) = take ?f (drop ?o (pBuffer d))"
    by (simp add: drop_take)
  then have "contents (d\<lparr>pBuffer := take (dst_pos d) (pBuffer d) @ bs @ drop (dst_pos d + length bs) (pBuffer d),
      nFilledLen := nFilledLen d + of_nat (length bs)\<rparr>) = contents d @ bs"
    using le by (simp add: contents_def f dst_pos_ok[OF assms(1)])
  then show ?thesis using le f
    by (auto simp: put_def dst_pos_ok[OF assms(1)] same_header_def buffer_ok_def room_def)
qed

lemma consume_ok:
  assumes "buffer_ok s" "n \<le> unat (nFilledLen s)"
  shows "contents (consume n s) = drop n (contents s)" "buffer_ok (consume n s)" "same_header s (consume n s)"
    "pBuffer (consume n s) = pBuffer s" "unat (nOffset (consume n s)) = unat (nOffset s) + n"
proof -
  have le: "unat (nOffset s) + n < 2 ^ 32" "n < 2 ^ 32"
    using assms unsigned_less[of "nAllocLen s", where ?'a = nat] by (auto simp: buffer_ok_def)
  then have n: "unat (of_nat n :: u32) = n" by (simp add: unat_of_nat take_bit_nat_eq_self)
  have f: "unat (nFilledLen s - of_nat n) = unat (nFilledLen s) - n"
    using assms(2) n by (simp add: unat_sub_if_size)
  have o: "unat (nOffset s + of_nat n) = unat (nOffset s) + n" using le n by (simp add: unat_word_ariths)
  show "contents (consume n s) = drop n (contents s)"
    by (simp add: contents_def consume_def f o drop_take add.commute)
  show "buffer_ok (consume n s)" "same_header s (consume n s)" "pBuffer (consume n s) = pBuffer s"
      "unat (nOffset (consume n s)) = unat (nOffset s) + n"
    using assms by (auto simp: buffer_ok_def consume_def f o same_header_def)
qed

lemma byte_at_nth:
  assumes "buffer_ok s" "n < length (contents s)"
  shows "byte_at (pBuffer s) (src_pos s + n) = Some (contents s ! n)"
  using assms by (auto simp: contents_def byte_at_def src_pos_def buffer_ok_def)

lemma byte_at_contents: "buffer_ok s \<Longrightarrow> contents s = b # bs \<Longrightarrow> byte_at (pBuffer s) (src_pos s) = Some b"
  using byte_at_nth[of s 0] by simp

lemma bytes_at_contents:
  assumes "buffer_ok s" "n \<le> unat (nFilledLen s)"
  shows "bytes_at (pBuffer s) (src_pos s) n = Some (take n (contents s))"
  using assms by (auto simp: bytes_at_def contents_def src_pos_def buffer_ok_def min_def)

section \<open>The scanner\<close>

definition found :: "frame_parser \<Rightarrow> bool" where
  "found p \<longleftrightarrow> parse_state p = A4 \<or> parse_state p = A5"

definition prepend :: "byte list \<Rightarrow> 'a \<times> byte list \<times> 'b \<Rightarrow> 'a \<times> byte list \<times> 'b" where
  "prepend bs r = (fst r, bs @ fst (snd r), snd (snd r))"

lemma prepend_simps [simp]: "prepend bs (p, out, rest) = (p, bs @ out, rest)" "prepend [] r = r"
  "prepend bs (prepend cs r) = prepend (bs @ cs) r"
  by (simp_all add: prepend_def)

text \<open>
  The parser after a part of the stream, the bytes of the frame and, if a start code was found,
  what comes after it.
\<close>

function scan :: "start_codes \<Rightarrow> frame_parser \<Rightarrow> byte list \<Rightarrow> frame_parser \<times> byte list \<times> byte list" where
  "scan c p [] = (p, [], [])"
| "scan c p (b # bs) =
     (if found p then (p, [], b # bs)
      else case code_step c b p of
        (True, _, p') \<Rightarrow> prepend (if parse_state p = A0 \<and> parse_state p' = A0 then [b] else []) (scan c p' bs)
      | (False, k, p') \<Rightarrow> prepend (take k (code_bytes c)) (scan c p' (b # bs)))"
  by pat_completeness auto
termination
  by (relation "measure (\<lambda>(c, p, bs). 6 * length bs + rank (parse_state p))")
    (use rank_drop[of 0 1] in \<open>auto dest!: code_step_rank[OF sym]\<close>)

declare scan.simps(2) [simp del]

text \<open>The bytes of a start code, or of the beginning of one, that the parser has seen and not put out.\<close>

definition held :: "start_codes \<Rightarrow> frame_parser \<Rightarrow> byte list" where
  "held c p =
     (case parse_state p of A0 \<Rightarrow> [] | A1 \<Rightarrow> [0] | A2 \<Rightarrow> [0, 0] | A3 \<Rightarrow> take 3 (code_bytes c)
      | A4 \<Rightarrow> take 3 (code_bytes c) @ [last_byte p]
      | A5 \<Rightarrow> if c = H263_start_code then [0, 0, last_byte_h263 p] else [0, 0, 1])"

text \<open>What the parser can be in: only the codes of the codec are looked for.\<close>

definition parser_ok :: "start_codes \<Rightarrow> frame_parser \<Rightarrow> bool" where
  "parser_ok c p \<longleftrightarrow> start_code p = Some c \<and> (c = H263_start_code \<longrightarrow> parse_state p \<noteq> A3 \<and> parse_state p \<noteq> A4) \<and>
     (parse_state p = A5 \<longrightarrow> c = H263_start_code \<or> c = H264_start_code) \<and>
     (c = H264_start_code \<and> parse_state p = A4 \<longrightarrow> last_byte p = 1)"

lemma and_255 [simp]: "(b :: byte) AND 255 = b"
proof -
  have "(255 :: byte) = - 1" by simp
  then show ?thesis by (metis and.right_neutral)
qed

lemma matches_code_simps:
  "matches_code c 0 b \<longleftrightarrow> b = 0" "matches_code c 1 b \<longleftrightarrow> b = 0"
  "matches_code H264_start_code 2 b \<longleftrightarrow> b = 0" "matches_code H264_start_code 3 b \<longleftrightarrow> b = 1"
  "c \<noteq> H263_start_code \<Longrightarrow> c \<noteq> H264_start_code \<Longrightarrow> matches_code c 2 b \<longleftrightarrow> b = 1"
  by (cases c; simp add: matches_code_def)+

text \<open>The turns of the machines, codec by codec.\<close>

definition is_header :: "start_codes \<Rightarrow> byte \<Rightarrow> bool" where
  "is_header c b \<longleftrightarrow> c = MPEG4_start_code \<and> b AND 0xF0 = 0x20 \<or> c = MPEG2_start_code \<and> b = 0xB3"

definition is_code :: "start_codes \<Rightarrow> bool \<Rightarrow> byte \<Rightarrow> bool" where
  "is_code c hdr b \<longleftrightarrow> matches_code c 3 b \<or> hdr \<and> is_header c b"

lemma header_no_code: "is_header c b \<Longrightarrow> \<not> matches_code c 3 b"
  by (auto simp: is_header_def matches_code_def)

lemma code_step_A0: "parse_state p = A0 \<Longrightarrow> code_step c b p = (True, 0, p\<lparr>parse_state := (if b = 0 then A1 else A0)\<rparr>)"
  by (simp add: code_step_def matches_code_simps)

lemma code_step_A1: "parse_state p = A1 \<Longrightarrow>
  code_step c b p = (if b = 0 then (True, 0, p\<lparr>parse_state := A2\<rparr>) else (False, 1, p\<lparr>parse_state := A0\<rparr>))"
  by (simp add: code_step_def matches_code_simps del: One_nat_def)

lemma fallback2_A1: "fallback2 c = (A1, 1)"
  by (cases c) (simp_all add: fallback2_def)

lemma code_step_A2: "parse_state p = A2 \<Longrightarrow> code_step c b p =
  (case c of
     H263_start_code \<Rightarrow> if b AND 0xFC = 0x80 then (True, 0, p\<lparr>last_byte_h263 := b, parse_state := A5\<rparr>)
       else (False, 1, p\<lparr>parse_state := A1\<rparr>)
   | H264_start_code \<Rightarrow> if b = 1 then (True, 0, p\<lparr>parse_state := A5\<rparr>) else if b = 0 then (True, 0, p\<lparr>parse_state := A3\<rparr>)
       else (False, 1, p\<lparr>parse_state := A1\<rparr>)
   | _ \<Rightarrow> if b = 1 then (True, 0, p\<lparr>parse_state := A3\<rparr>) else (False, 1, p\<lparr>parse_state := A1\<rparr>))"
  by (cases c) (simp_all add: code_step_def third_byte_def fallback2_A1 matches_code_simps, simp add: matches_code_def)

lemma code_step_A3: "parse_state p = A3 \<Longrightarrow> start_code p = Some c \<Longrightarrow> c \<noteq> H263_start_code \<Longrightarrow> code_step c b p =
  (if is_code c (header_found p) b then (True, 0, p\<lparr>parse_state := A4, last_byte := b\<rparr>)
   else (False, if c = H264_start_code then 1 else 3,
         p\<lparr>parse_state := (if c = H264_start_code then A2 else A0), header_found := header_found p \<or> is_header c b\<rparr>))"
proof -
  assume a: "parse_state p = A3" "start_code p = Some c" "c \<noteq> H263_start_code"
  have f: "fallback3 c = (if c = H264_start_code then (A2, 1) else (A0, 3))"
    using a(3) by (cases c) (simp_all add: fallback3_def)
  have "additional_code p b \<longleftrightarrow> is_header c b" using a(2) by (auto simp: additional_code_def is_header_def)
  then show ?thesis using a(1) header_no_code[of c b]
    by (cases "is_header c b"; cases "header_found p"; cases "matches_code c 3 b")
      (simp_all add: code_step_def fourth_byte_def parse_additional_start_code_def f is_code_def)
qed

lemmas code_steps = code_step_A0 code_step_A1 code_step_A2 code_step_A3

text \<open>One turn of a machine keeps the bytes: they are held, put out or used.\<close>

lemma code_step_used:
  assumes "parser_ok c p" "\<not> found p" "code_step c b p = (True, k, p')"
  shows "parser_ok c p' \<and> held c p @ [b] = (if parse_state p = A0 \<and> parse_state p' = A0 then [b] else []) @ held c p'"
  using assms
  by (cases "parse_state p")
    (auto simp: code_steps parser_ok_def found_def held_def is_code_def is_header_def matches_code_simps
      split: if_splits start_codes.splits)

lemma code_step_back:
  assumes "parser_ok c p" "\<not> found p" "code_step c b p = (False, k, p')"
  shows "parser_ok c p' \<and> \<not> found p' \<and> held c p = take k (code_bytes c) @ held c p' \<and> k \<le> 3"
  using assms
  by (cases "parse_state p"; cases c)
    (auto simp: code_steps parser_ok_def found_def held_def split: if_splits)

section \<open>Laws of the scanner\<close>

lemma scan_found: "found p \<Longrightarrow> scan c p bs = (p, [], bs)"
  by (cases bs) (simp_all add: scan.simps(2))

lemma scan_used: "\<not> found p \<Longrightarrow> code_step c b p = (True, k, p') \<Longrightarrow>
  scan c p (b # bs) = prepend (if parse_state p = A0 \<and> parse_state p' = A0 then [b] else []) (scan c p' bs)"
  by (simp add: scan.simps(2))

lemma scan_back: "\<not> found p \<Longrightarrow> code_step c b p = (False, k, p') \<Longrightarrow>
  scan c p (b # bs) = prepend (take k (code_bytes c)) (scan c p' (b # bs))"
  by (simp add: scan.simps(2))

text \<open>Induction along the scanner, from what is true after a turn to what is true before it.\<close>

lemma scan_induct [case_names Nil Found Used Back]:
  assumes "\<And>p. P p []" "\<And>p b bs. found p \<Longrightarrow> P p (b # bs)"
    "\<And>p b bs k p'. \<not> found p \<Longrightarrow> code_step c b p = (True, k, p') \<Longrightarrow> P p' bs \<Longrightarrow> P p (b # bs)"
    "\<And>p b bs k p'. \<not> found p \<Longrightarrow> code_step c b p = (False, k, p') \<Longrightarrow> P p' (b # bs) \<Longrightarrow> P p (b # bs)"
  shows "P p bs"
proof (induction "6 * length bs + rank (parse_state p)" arbitrary: p bs rule: less_induct)
  case less
  show ?case
  proof (cases bs)
    case Nil
    then show ?thesis using assms(1) by simp
  next
    case (Cons b cs)
    obtain used k p' where step: "code_step c b p = (used, k, p')" by (cases "code_step c b p")
    show ?thesis
    proof (cases "found p")
      case True
      then show ?thesis using assms(2) Cons by simp
    next
      case nf: False
      show ?thesis
      proof (cases used)
        case True
        then show ?thesis using assms(3) nf step Cons less[of cs p'] rank_drop[of "length cs" "length bs"] by simp
      next
        case False
        then show ?thesis using assms(4) nf step Cons less[of bs p'] code_step_rank by simp
      qed
    qed
  qed
qed

text \<open>No byte is lost.\<close>

lemma scan_keeps:
  assumes "parser_ok c p" "scan c p bs = (p', out, rest)"
  shows "parser_ok c p' \<and> held c p @ bs = out @ held c p' @ rest \<and> (\<not> found p' \<longrightarrow> rest = [])"
  using assms
proof (induction p bs arbitrary: p' out rest rule: scan_induct[where c = c])
  case (Used p b bs k q)
  obtain out' where r: "scan c q bs = (p', out', rest)"
      "out = (if parse_state p = A0 \<and> parse_state q = A0 then [b] else []) @ out'"
    using Used by (cases "scan c q bs") (simp add: scan_used)
  have "held c p @ b # bs = (if parse_state p = A0 \<and> parse_state q = A0 then [b] else []) @ held c q @ bs"
    using code_step_used[OF Used.prems(1) Used.hyps] by (metis append.assoc append_Cons append_Nil)
  then show ?case using Used.IH[OF _ r(1)] r(2) code_step_used[OF Used.prems(1) Used.hyps] by simp
next
  case (Back p b bs k q)
  obtain out' where r: "scan c q (b # bs) = (p', out', rest)" "out = take k (code_bytes c) @ out'"
    using Back by (cases "scan c q (b # bs)") (simp add: scan_back)
  show ?case using Back.IH[OF _ r(1)] r(2) code_step_back[OF Back.prems(1) Back.hyps] by auto
qed (auto simp: scan_found)

lemma scan_append:
  assumes "scan c p bs = (p', out, rest)"
  shows "scan c p (bs @ cs) = (if found p' then (p', out, rest @ cs) else prepend out (scan c p' cs))"
  using assms
proof (induction p bs arbitrary: p' out rest rule: scan_induct[where c = c])
  case (Used p b bs k q)
  obtain out' where r: "scan c q bs = (p', out', rest)"
      "out = (if parse_state p = A0 \<and> parse_state q = A0 then [b] else []) @ out'"
    using Used by (cases "scan c q bs") (simp add: scan_used)
  show ?case using Used.IH[OF r(1)] r(2) by (simp add: scan_used[OF Used.hyps])
next
  case (Back p b bs k q)
  obtain out' where r: "scan c q (b # bs) = (p', out', rest)" "out = take k (code_bytes c) @ out'"
    using Back by (cases "scan c q (b # bs)") (simp add: scan_back)
  show ?case using Back.IH[OF r(1)] r(2) by (simp add: scan_back[OF Back.hyps])
qed (auto simp: scan_found)

lemma back_not_found: "code_step c b p = (False, k, p') \<Longrightarrow> \<not> found p'"
  by (auto simp: code_step_def third_byte_def fourth_byte_def fallback2_def fallback3_def found_def Let_def
      split: state_start_code_parse.splits prod.splits if_splits)

lemma scan_rest: "scan c p bs = (p', out, rest) \<Longrightarrow> length rest \<le> length bs \<and> (\<not> found p \<and> bs \<noteq> [] \<longrightarrow> length rest < length bs)"
proof (induction p bs arbitrary: p' out rest rule: scan_induct[where c = c])
  case (Used p b bs k q)
  then show ?case by (cases "scan c q bs") (fastforce simp: scan_used)
next
  case (Back p b bs k q)
  then show ?case using back_not_found by (cases "scan c q (b # bs)") (fastforce simp: scan_back)
qed (auto simp: scan_found)

lemma scan_prefix:
  assumes "scan c p bs = (p', out, rest)"
  shows "\<exists>ys. bs = ys @ rest \<and> scan c p ys = (p', out, [])"
  using assms
proof (induction p bs arbitrary: p' out rest rule: scan_induct[where c = c])
  case (Used p b bs k q)
  obtain out' where r: "scan c q bs = (p', out', rest)"
      "out = (if parse_state p = A0 \<and> parse_state q = A0 then [b] else []) @ out'"
    using Used by (cases "scan c q bs") (simp add: scan_used)
  from Used.IH[OF r(1)] obtain ys where "bs = ys @ rest" "scan c q ys = (p', out', [])" by blast
  then show ?case using r(2) by (intro exI[of _ "b # ys"]) (simp add: scan_used[OF Used.hyps])
next
  case (Back p b bs k q)
  obtain out' where r: "scan c q (b # bs) = (p', out', rest)" "out = take k (code_bytes c) @ out'"
    using Back by (cases "scan c q (b # bs)") (simp add: scan_back)
  from Back.IH[OF r(1)] obtain ys where ys: "b # bs = ys @ rest" "scan c q ys = (p', out', [])" by blast
  show ?case
  proof (cases ys)
    case Nil
    then show ?thesis using ys(1) scan_rest[OF r(1)] back_not_found[OF Back.hyps(2)] by simp
  next
    case (Cons y zs)
    then show ?thesis using r(2) ys Back.hyps by (intro exI[of _ ys]) (auto simp: scan_back)
  qed
qed (auto simp: scan_found)

section \<open>The machines are the scanner\<close>

text \<open>
  What the entry machine leads to, if the scanner makes \<open>p'\<close>, \<open>out\<close> and \<open>rest\<close> of the source: a part
  of \<open>out\<close> is in the destination, and the scanner makes the other part of what is left.
\<close>

definition entered where
  "entered c s d p' out rest r \<longleftrightarrow> (\<exists>p1 s1 d1 out1 out2. r = Some (p1, s1, d1) \<and> parser_ok c p1 \<and>
     buffer_ok s1 \<and> buffer_ok d1 \<and> same_header s s1 \<and> same_header d d1 \<and> contents d1 = contents d @ out1 \<and>
     out = out1 @ out2 \<and> scan c p1 (contents s1) = (p', out2, rest) \<and> room d1 = room d - length out1 \<and>
     (contents s1 = [] \<or> parse_state p1 = A0 \<or> found p1))"

lemma entered_here:
  "parser_ok c p \<Longrightarrow> buffer_ok s \<Longrightarrow> buffer_ok d \<Longrightarrow> scan c p (contents s) = (p', out, rest) \<Longrightarrow>
    contents s = [] \<or> parse_state p = A0 \<or> found p \<Longrightarrow> entered c s d p' out rest (Some (p, s, d))"
  unfolding entered_def by (intro exI[of _ p] exI[of _ s] exI[of _ d] exI[of _ "[]"] exI[of _ out]) simp

lemma entered_consume: "entered c s' d p' out rest r \<Longrightarrow> same_header s s' \<Longrightarrow> entered c s d p' out rest r"
  unfolding entered_def using same_header_trans by blast

lemma entered_put:
  assumes "entered c s d' p' out rest r" "same_header d d'" "contents d' = contents d @ bs" "room d' = room d - length bs"
  shows "entered c s d p' (bs @ out) rest r"
proof -
  obtain p1 s1 d1 out1 out2 where r: "r = Some (p1, s1, d1)" "parser_ok c p1" "buffer_ok s1" "buffer_ok d1"
      "same_header s s1" "same_header d' d1" "contents d1 = contents d' @ out1" "out = out1 @ out2"
      "scan c p1 (contents s1) = (p', out2, rest)" "room d1 = room d' - length out1"
      "contents s1 = [] \<or> parse_state p1 = A0 \<or> found p1"
    using assms(1) unfolding entered_def by blast
  then show ?thesis
    unfolding entered_def using assms(2-4) same_header_trans[OF assms(2) r(6)]
    by (intro exI[of _ p1] exI[of _ s1] exI[of _ d1] exI[of _ "bs @ out1"] exI[of _ out2]) simp
qed

lemma entry_loop_exit: "contents s = [] \<or> parse_state p = A0 \<or> found p \<Longrightarrow> buffer_ok s \<Longrightarrow> entry_loop p s d = Some (p, s, d)"
  using contents_empty[of s] by (subst entry_loop.simps) (auto simp: found_def)

lemma entry_loop_turn:
  assumes "parser_ok c p" "\<not> found p" "parse_state p \<noteq> A0" "buffer_ok s" "contents s = b # bs" "0 < room d" "buffer_ok d"
    "code_step c b p = (used, k, q)"
  shows "entry_loop p s d = (if used then entry_loop q (consume 1 s) d else
    (case put (take k (code_bytes c)) d of None \<Rightarrow> None | Some d' \<Rightarrow> entry_loop q s d'))"
proof -
  have "nFilledLen s > 0" using contents_empty[OF assms(4)] assms(5) by (simp add: word_gt_0)
  moreover have "dest_room d > 0" using dest_room_ok[OF assms(7)] assms(6) by (simp add: word_less_nat_alt)
  moreover have "start_code p = Some c" using assms(1) by (simp add: parser_ok_def)
  ultimately show ?thesis using assms(2,3,8) byte_at_contents[OF assms(4,5)]
    by (subst entry_loop.simps) (simp add: found_def split: bool.split)
qed

lemma entry_loop_scan:
  assumes "parser_ok c p" "buffer_ok s" "buffer_ok d" "scan c p (contents s) = (p', out, rest)" "length out + 4 \<le> room d"
  shows "entered c s d p' out rest (entry_loop p s d)"
  using assms
proof (induction "6 * length (contents s) + rank (parse_state p)" arbitrary: p s d out rule: less_induct)
  case less
  show ?case
  proof (cases "contents s = [] \<or> parse_state p = A0 \<or> found p")
    case True
    then show ?thesis using less.prems entry_loop_exit by (simp add: entered_here)
  next
    case False
    then obtain b bs where bs: "contents s = b # bs" by (cases "contents s") auto
    obtain used k q where step: "code_step c b p = (used, k, q)" by (cases "code_step c b p")
    have nf: "\<not> found p" "parse_state p \<noteq> A0" using False by auto
    note loop = entry_loop_turn[OF less.prems(1) nf less.prems(2) bs _ less.prems(3) step]
    have loop: "entry_loop p s d = (if used then entry_loop q (consume 1 s) d else
        (case put (take k (code_bytes c)) d of None \<Rightarrow> None | Some d' \<Rightarrow> entry_loop q s d'))"
      using less.prems(5) by (intro loop) simp
    show ?thesis
    proof (cases used)
      case True
      have "1 \<le> unat (nFilledLen s)" using length_contents[OF less.prems(2)] bs by simp
      note c1 = consume_ok[OF less.prems(2) this]
      have r: "scan c q bs = (p', out, rest)"
        using less.prems(4) step True nf unfolding bs by (cases "scan c q bs") (simp add: scan_used)
      have "entered c (consume 1 s) d p' out rest (entry_loop q (consume 1 s) d)"
        using less.prems(3,5) c1 bs r code_step_used[OF less.prems(1) nf(1)] step True
          rank_drop[of "length bs" "Suc (length bs)"] by (intro less.hyps) auto
      then show ?thesis unfolding loop using True c1(3) entered_consume by auto
    next
      case no: False
      then have step: "code_step c b p = (False, k, q)" using step by simp
      obtain out' where r: "scan c q (b # bs) = (p', out', rest)" "out = take k (code_bytes c) @ out'"
        using less.prems(4) step nf unfolding bs by (cases "scan c q (b # bs)") (simp add: scan_back)
      obtain d' where d': "put (take k (code_bytes c)) d = Some d'" "contents d' = contents d @ take k (code_bytes c)"
          "buffer_ok d'" "same_header d d'" "room d' = room d - length (take k (code_bytes c))"
        using put_ok[OF less.prems(3), of "take k (code_bytes c)"] less.prems(5) r(2) by auto
      have "entered c s d' p' out' rest (entry_loop q s d')"
        using r bs less.prems(2,5) code_step_back[OF less.prems(1) nf(1) step] code_step_rank[OF step] d'(3,5)
        by (intro less.hyps) auto
      then show ?thesis unfolding loop r(2) using no d' by (simp add: entered_put)
    qed
  qed
qed

text \<open>The parsing machine sees what the length allows.\<close>

lemma parse_loop_scan:
  assumes "parser_ok c p" "\<not> found p" "buffer_ok s" "n \<le> temp_len" "temp_len \<le> length (contents s)"
    "scan c p (drop n (take temp_len (contents s))) = (p', out, rest)"
  shows "parse_loop (pBuffer s) (src_pos s) temp_len p n = Some (p', temp_len - length rest)"
  using assms
proof (induction "6 * (temp_len - n) + rank (parse_state p)" arbitrary: p n out rule: less_induct)
  case less
  show ?case
  proof (cases "n < temp_len")
    case False
    then show ?thesis using less.prems by (subst parse_loop.simps) simp
  next
    case True
    let ?b = "contents s ! n" and ?bs = "drop (Suc n) (take temp_len (contents s))"
    have bs: "drop n (take temp_len (contents s)) = ?b # ?bs"
      using True less.prems(5) Cons_nth_drop_Suc[of n "take temp_len (contents s)"] by simp
    obtain used k q where step: "code_step c ?b p = (used, k, q)" by (cases "code_step c ?b p")
    have st: "start_code p = Some c" using less.prems(1) by (simp add: parser_ok_def)
    let ?n = "if used then n + 1 else n"
    have loop: "parse_loop (pBuffer s) (src_pos s) temp_len p n =
        (if found q then Some (q, ?n) else parse_loop (pBuffer s) (src_pos s) temp_len q ?n)"
      using True byte_at_nth[OF less.prems(3), of n] less.prems(5) step st
      by (subst parse_loop.simps) (simp add: found_def Let_def)
    have ok: "parser_ok c q"
      using code_step_used[OF less.prems(1,2), of ?b k q] code_step_back[OF less.prems(1,2), of ?b k q] step
      by (cases used) simp_all
    show ?thesis
    proof (cases used)
      case used: True
      obtain out' where r: "scan c q ?bs = (p', out', rest)"
        using less.prems(2,6) step used unfolding bs by (cases "scan c q ?bs") (simp add: scan_used)
      show ?thesis
      proof (cases "found q")
        case True
        then show ?thesis unfolding loop using r used less.prems(5) \<open>n < temp_len\<close> by (auto simp: scan_found)
      next
        case False
        have "parse_loop (pBuffer s) (src_pos s) temp_len q (n + 1) = Some (p', temp_len - length rest)"
          using True False ok r less.prems(3,5) rank_drop[of "temp_len - (n + 1)" "temp_len - n"] by (intro less.hyps) auto
        then show ?thesis unfolding loop using used False by simp
      qed
    next
      case no: False
      then have step: "code_step c ?b p = (False, k, q)" using step by simp
      obtain out' where r: "scan c q (drop n (take temp_len (contents s))) = (p', out', rest)"
        using less.prems(2,6) step unfolding bs by (cases "scan c q (?b # ?bs)") (simp add: scan_back)
      have "parse_loop (pBuffer s) (src_pos s) temp_len q n = Some (p', temp_len - length rest)"
        using r ok less.prems(3-5) back_not_found[OF step] code_step_rank[OF step] by (intro less.hyps) auto
      then show ?thesis unfolding loop using no back_not_found[OF step] by simp
    qed
  qed
qed

section \<open>One call\<close>

text \<open>The parser as a call begins, and what it puts out of a start code found before.\<close>

definition frame_header :: "start_codes \<Rightarrow> frame_parser \<Rightarrow> byte list" where
  "frame_header c p =
     (if \<not> found p then [] else if c = H263_start_code then [0, 0, last_byte_h263 p]
      else if c = H264_start_code then [0, 0, 0, 1] else [0, 0, 1, last_byte p])"

definition begun :: "frame_parser \<Rightarrow> frame_parser" where
  "begun p = (if found p then (if start_code p \<in> {Some VC1_AP_start_code, Some MPEG4_start_code, Some MPEG2_start_code}
     then update_skip_frame p else p)\<lparr>parse_state := A0\<rparr> else p)"

text \<open>The answer and the parser as a call ends.\<close>

definition answered :: "frame_parser \<Rightarrow> u32 \<times> frame_parser" where
  "answered p = (if found p then check_skip_frame_boundary 0 p else (1, p))"

lemma begun_ok [simp]: "parser_ok c p \<Longrightarrow> parser_ok c (begun p)" "\<not> found (begun p)"
    "header_found (begun p) = header_found p"
  by (auto simp: begun_def parser_ok_def update_skip_frame_def found_def)

lemma answered_ok [simp]: "parser_ok c p \<Longrightarrow> parser_ok c (snd (answered p))" "found (snd (answered p)) = found p"
    "parse_state (snd (answered p)) = parse_state p" "held c (snd (answered p)) = held c p"
    "header_found (snd (answered p)) = header_found p"
  by (auto simp: answered_def parser_ok_def check_skip_frame_boundary_def found_def held_def
      split: state_start_code_parse.split)

lemma start_frame_ok:
  assumes "parser_ok c p" "buffer_ok d" "length (frame_header c p) \<le> room d"
  shows "\<exists>d'. start_frame p s d = Some (begun p, d') \<and> contents d' = contents d @ frame_header c p \<and> buffer_ok d' \<and>
    room d' = room d - length (frame_header c p) \<and>
    same_header (if found p then d\<lparr>nFlags := nFlags s, nTimeStamp := nTimeStamp s\<rparr> else d) d'"
proof (cases "found p")
  case True
  let ?d = "d\<lparr>nFlags := nFlags s, nTimeStamp := nTimeStamp s\<rparr>"
  have d: "buffer_ok ?d" "room ?d = room d" "contents ?d = contents d"
    using assms(2) by (simp_all add: buffer_ok_def room_def contents_def)
  obtain d' where d': "put (frame_header c p) ?d = Some d'" "contents d' = contents d @ frame_header c p" "buffer_ok d'"
      "same_header ?d d'" "room d' = room d - length (frame_header c p)"
    using put_ok[OF d(1), of "frame_header c p"] assms(3) d(2,3) by auto
  have st: "start_code p = Some c" using assms(1) by (simp add: parser_ok_def)
  have "start_frame p s d = Some (begun p, d')"
    using True st d'(1)
    by (cases c) (simp_all add: start_frame_def begun_def frame_header_def found_def[symmetric] Let_def numeral_eq_Suc)
  then show ?thesis using d' True by simp
next
  case False
  then show ?thesis using assms(2) by (simp add: start_frame_def begun_def frame_header_def found_def[symmetric])
qed

lemma held_length: "length (held c p) \<le> 4"
  by (cases c; cases "parse_state p") (simp_all add: held_def)

lemma held_skip: "parser_ok c p \<Longrightarrow> found p \<or> \<not> eos \<Longrightarrow> bytes_to_skip (parse_state p) eos = length (held c p)"
  by (cases c; cases "parse_state p") (simp_all add: held_def bytes_to_skip_def found_def parser_ok_def)

text \<open>The exit machine, after the scanner has parsed \<open>n\<close> bytes of the source from the state A0.\<close>

lemma exit_machine_ok:
  assumes "parser_ok c p" "buffer_ok s" "buffer_ok d" "n = length out + length (held c p)"
    "contents s = out @ held c p @ rest" "length out \<le> room d" "has_eos s \<Longrightarrow> found p \<or> parse_state p = A0"
  shows "\<exists>s' d'. exit_machine p s d n = Some (1, snd (answered p), s', d', fst (answered p)) \<and> contents s' = rest \<and>
    contents d' = contents d @ out \<and> buffer_ok s' \<and> buffer_ok d' \<and> same_header s s' \<and> same_header d d' \<and>
    room d' = room d - length out"
proof -
  have n: "n \<le> unat (nFilledLen s)" using length_contents[OF assms(2)] assms(4,5) by simp
  note s' = consume_ok[OF assms(2) n]
  have skip: "bytes_to_skip (parse_state p) (has_eos s) = length (held c p)"
  proof (cases "parse_state p = A0")
    case True
    then show ?thesis by (simp add: bytes_to_skip_def held_def)
  next
    case False
    then show ?thesis using held_skip[OF assms(1)] assms(7) by blast
  qed
  obtain d' where d': "put out d = Some d'" "contents d' = contents d @ out" "buffer_ok d'"
      "same_header d d'" "room d' = room d - length out"
    using put_ok[OF assms(3,6)] by blast
  have copied: "bytes_at (pBuffer s) (src_pos s) (length out) = Some out"
    using bytes_at_contents[OF assms(2), of "length out"] n assms(4,5) by simp
  have exit: "exit_machine p s d n = do {
        d \<leftarrow> (if out \<noteq> [] then put out d else Some d);
        Some (1, snd (answered p), consume n s, d, fst (answered p)) }"
  proof -
    have "(if parse_state p = A4 \<or> parse_state p = A5 then check_skip_frame_boundary 0 p else (1, p)) = answered p"
      by (simp add: answered_def found_def)
    moreover have "parse_state (snd (answered p)) = parse_state p" by simp
    ultimately show ?thesis
      unfolding exit_machine_def Let_def using n skip copied assms(4)
      by (cases "answered p") (auto simp: leD)
  qed
  show ?thesis
  proof (cases "out = []")
    case True
    then show ?thesis using exit s' assms(3-5) by (intro exI[of _ "consume n s"] exI[of _ d]) simp
  next
    case False
    then show ?thesis using exit s' d' assms(4,5) by (intro exI[of _ "consume n s"] exI[of _ d']) simp
  qed
qed

lemma same_header_stamp: "same_header (d\<lparr>nFlags := f, nTimeStamp := ts\<rparr>) d' \<Longrightarrow> nFlags d' = f \<and> nTimeStamp d' = ts \<and> nAllocLen d' = nAllocLen d"
  by (simp add: same_header_def)

lemma room_check:
  assumes "parser_ok c p" "buffer_ok s" "buffer_ok d" "contents s \<noteq> []" "4 \<le> room d"
  shows "\<not> (start_code p = Some H263_start_code \<and> dest_room d < 3 \<or>
         start_code p \<noteq> Some H263_start_code \<and> dest_room d < 4 \<or> nFilledLen s = 0)"
  using assms dest_room_ok[OF assms(3)] contents_empty[OF assms(2)] by (auto simp: word_less_nat_alt)

text \<open>
  One call is one run of the scanner over what the source holds, if the destination has room for
  the frame and a start code: the destination gets the bytes, the source keeps the rest.
\<close>

lemma parse_sc_scan:
  assumes "parser_ok c p" "buffer_ok s" "buffer_ok d" "contents s \<noteq> []"
    "scan c (begun p) (contents s) = (p', out, rest)" "length (frame_header c p) + length out + 4 \<le> room d"
    "has_eos s \<Longrightarrow> found p' \<or> parse_state p' = A0"
  shows "\<exists>s' d'. parse_sc_frame p s d pf = Some (1, snd (answered p'), s', d', fst (answered p')) \<and>
    contents s' = rest \<and> contents d' = contents d @ frame_header c p @ out \<and> buffer_ok s' \<and> buffer_ok d' \<and>
    same_header s s' \<and> same_header (if found p then d\<lparr>nFlags := nFlags s, nTimeStamp := nTimeStamp s\<rparr> else d) d' \<and>
    room d' = room d - length (frame_header c p @ out)"
proof -
  let ?d = "if found p then d\<lparr>nFlags := nFlags s, nTimeStamp := nTimeStamp s\<rparr> else d"
  obtain d1 where d1: "start_frame p s d = Some (begun p, d1)" "contents d1 = contents d @ frame_header c p" "buffer_ok d1"
      "room d1 = room d - length (frame_header c p)" "same_header ?d d1"
    using start_frame_ok[OF assms(1,3), of s] assms(6) by auto
  have "entered c s d1 p' out rest (entry_loop (begun p) s d1)"
    using assms d1 by (intro entry_loop_scan) auto
  then obtain p2 s2 d2 out1 out2 where r: "entry_loop (begun p) s d1 = Some (p2, s2, d2)" "parser_ok c p2" "buffer_ok s2"
      "buffer_ok d2" "same_header s s2" "same_header d1 d2" "contents d2 = contents d1 @ out1" "out = out1 @ out2"
      "scan c p2 (contents s2) = (p', out2, rest)" "room d2 = room d1 - length out1"
      "contents s2 = [] \<or> parse_state p2 = A0 \<or> found p2"
    unfolding entered_def by blast
  note d2 = same_header_trans[OF d1(5) r(6)]
  have room2: "length out2 + 4 \<le> room d2" using assms(6) r(8,10) d1(4) by simp
  have "4 \<le> room d" using assms(6) by simp
  note rc = room_check[OF assms(1-4) this]
  have run: "parse_sc_frame p s d pf =
      (if found p2 then let (partialframe, p) = check_skip_frame_boundary 0 p2 in Some (1, p, s2, d2, partialframe)
       else let temp_len = (if nFilledLen s2 < dest_room d2 then nFilledLen s2 else dest_room d2) in
           if temp_len = 0 then Some (1, p2, s2, d2, 1)
           else do { (p, n) \<leftarrow> parse_loop (pBuffer s2) (src_pos s2) (unat temp_len) p2 0; exit_machine p s2 d2 n })"
    unfolding parse_sc_frame_def if_not_P[OF rc] found_def using d1(1) r(1) by simp
  show ?thesis
  proof (cases "found p2")
    case True
    then have "p' = p2" "out2 = []" "rest = contents s2" using r(9) by (simp_all add: scan_found)
    then show ?thesis using run True r d1 d2
      by (intro exI[of _ s2] exI[of _ d2]) (simp add: answered_def split_beta)
  next
    case nf: False
    define T where "T = (if nFilledLen s2 < dest_room d2 then nFilledLen s2 else dest_room d2)"
    have T: "unat T = min (length (contents s2)) (room d2)"
      using length_contents[OF r(3)] dest_room_ok[OF r(4)] by (auto simp: T_def word_less_nat_alt)
    show ?thesis
    proof (cases "contents s2 = []")
      case True
      then have "T = 0" using T by (simp add: unat_eq_zero)
      moreover have "p' = p2" "out2 = []" "rest = []" using r(9) True by simp_all
      ultimately show ?thesis using run nf r d1 d2 True
        by (intro exI[of _ s2] exI[of _ d2]) (simp add: answered_def T_def[symmetric])
    next
      case ne: False
      then have A0: "parse_state p2 = A0" using r(11) nf by blast
      then have h: "held c p2 = []" by (simp add: held_def)
      note keep = scan_keeps[OF r(2,9)]
      let ?n = "length out2 + length (held c p')"
      have all: "contents s2 = out2 @ held c p' @ rest" using keep h by simp
      then have n: "?n \<le> unat T" using T room2 held_length[of c p'] by simp
      have T0: "T \<noteq> 0" using ne T room2 by (auto simp: min_def split: if_splits)
      have "scan c p2 (take ?n (contents s2)) = (p', out2, [])"
        using scan_prefix[OF r(9)] all by auto
      then have "scan c p2 (take ?n (contents s2) @ drop ?n (take (unat T) (contents s2))) =
          (p', out2, drop ?n (take (unat T) (contents s2)))"
        by (subst scan_append) (use keep all T in \<open>auto simp: min_def\<close>)
      moreover have "take ?n (contents s2) @ drop ?n (take (unat T) (contents s2)) = take (unat T) (contents s2)"
        using n by (metis append_take_drop_id min.absorb1 take_take)
      ultimately have "parse_loop (pBuffer s2) (src_pos s2) (unat T) p2 0 = Some (p', unat T - length (drop ?n (take (unat T) (contents s2))))"
        using T by (intro parse_loop_scan[OF r(2) nf r(3)]) simp_all
      moreover have "unat T - length (drop ?n (take (unat T) (contents s2))) = ?n" using n T by simp
      ultimately have loop: "parse_loop (pBuffer s2) (src_pos s2) (unat T) p2 0 = Some (p', ?n)" by simp
      obtain s' d' where e: "exit_machine p' s2 d2 ?n = Some (1, snd (answered p'), s', d', fst (answered p'))" "contents s' = rest"
          "contents d' = contents d2 @ out2" "buffer_ok s'" "buffer_ok d'" "same_header s2 s'" "same_header d2 d'"
          "room d' = room d2 - length out2"
        using exit_machine_ok[OF _ r(3,4) refl all] keep room2 assms(7) has_eos_same[OF r(5)] by auto
      show ?thesis using run nf T0 loop e r d1 same_header_trans[OF d2 e(7)] same_header_trans[OF r(5) e(6)]
        by (intro exI[of _ s'] exI[of _ d']) (simp add: T_def[symmetric])
    qed
  qed
qed

end
