(* ===== verification/FrameCodes.thy ===== *)
theory FrameCodes
  imports FrameScan
begin

unbundle bit_operations_syntax

text \<open>
  What the scanner finds: the first start code, and the bytes before it. This is stated over the
  stream alone, without the states of the machines.
\<close>

section \<open>Start codes in a stream\<close>

text \<open>
  The length of the start code a stream begins with. With \<open>hdr\<close> the second start codes of MPEG-4 and
  MPEG-2 count as well: it is set once one of them has gone by.
\<close>

definition code_here :: "start_codes \<Rightarrow> bool \<Rightarrow> byte list \<Rightarrow> nat option" where
  "code_here c hdr bs =
     (case bs of
        x # y # z # r \<Rightarrow>
          if x = 0 \<and> y = 0 then
            case c of
              H263_start_code \<Rightarrow> if z AND 0xFC = 0x80 then Some 3 else None
            | H264_start_code \<Rightarrow> if z = 1 then Some 3 else if z = 0 \<and> r \<noteq> [] \<and> hd r = 1 then Some 4 else None
            | _ \<Rightarrow> if z = 1 \<and> r \<noteq> [] \<and> is_code c hdr (hd r) then Some 4 else None
          else None
      | _ \<Rightarrow> None)"

definition header_here :: "start_codes \<Rightarrow> byte list \<Rightarrow> bool" where
  "header_here c bs \<longleftrightarrow> (case bs of x # y # z # w # r \<Rightarrow> x = 0 \<and> y = 0 \<and> z = 1 \<and> is_header c w | _ \<Rightarrow> False)"

text \<open>The bytes before the first start code, the start code and what comes after it.\<close>

fun split_code :: "start_codes \<Rightarrow> bool \<Rightarrow> byte list \<Rightarrow> (byte list \<times> byte list \<times> byte list) option" where
  "split_code c hdr [] = None"
| "split_code c hdr (b # bs) =
     (case code_here c hdr (b # bs) of
        Some k \<Rightarrow> Some ([], take k (b # bs), drop k (b # bs))
      | None \<Rightarrow> map_option (\<lambda>(out, code, rest). (b # out, code, rest)) (split_code c (hdr \<or> header_here c (b # bs)) bs))"

declare split_code.simps(2) [simp del]

definition put_before :: "byte list \<Rightarrow> (byte list \<times> 'a) option \<Rightarrow> (byte list \<times> 'a) option" where
  "put_before bs r = map_option (\<lambda>(out, y). (bs @ out, y)) r"

lemma put_before_simps [simp]:
  "put_before as (put_before bs r) = put_before (as @ bs) r" "put_before [] r = r" "put_before bs None = None"
  "put_before bs (Some (out, y)) = Some (bs @ out, y)"
  by (cases r; auto simp: put_before_def)+

lemma split_code_here: "code_here c hdr bs = Some k \<Longrightarrow> split_code c hdr bs = Some ([], take k bs, drop k bs)"
  by (cases bs) (simp_all add: split_code.simps(2) code_here_def)

lemma split_code_other:
  "code_here c hdr (b # bs) = None \<Longrightarrow> split_code c hdr (b # bs) = put_before [b] (split_code c (hdr \<or> header_here c (b # bs)) bs)"
  by (simp add: split_code.simps(2) put_before_def)

lemma header_here_simps [simp]: "b \<noteq> 1 \<Longrightarrow> \<not> header_here c (0 # 0 # b # bs)"
  "\<not> header_here H263_start_code cs" "\<not> header_here H264_start_code cs"
  by (auto simp: header_here_def is_header_def split: list.split)

lemma split_code_nonzero: "b \<noteq> 0 \<Longrightarrow> split_code c hdr (b # bs) = put_before [b] (split_code c hdr bs)"
  by (subst split_code_other) (auto simp: code_here_def header_here_def split: list.split)

lemma split_code_one: "b \<noteq> 0 \<Longrightarrow> split_code c hdr (0 # b # bs) = put_before [0] (split_code c hdr (b # bs))"
  by (subst split_code_other) (auto simp: code_here_def header_here_def split: list.split)

text \<open>The bytes the parser holds are looked at together with those to come.\<close>

lemma split_code_used:
  assumes "parser_ok c p" "\<not> found p" "code_step c b p = (True, k, q)"
  shows "split_code c (header_found p) (held c p @ b # bs) =
    (if found q then Some ([], held c q, bs)
     else put_before (if parse_state p = A0 \<and> parse_state q = A0 then [b] else []) (split_code c (header_found q) (held c q @ bs)))"
proof (cases "found q")
  case True
  then have e: "code_here c (header_found p) (held c p @ b # bs) = Some (length (held c q))" "held c p @ b # bs = held c q @ bs"
    using assms
    by (cases "parse_state p"; cases c; auto simp: code_steps parser_ok_def found_def held_def code_here_def
        is_code_def is_header_def matches_code_simps split: if_splits)+
  show ?thesis using True split_code_here[OF e(1)] unfolding e(2) by simp
next
  case False
  then have h: "header_found q = header_found p" "parse_state p = A0 \<and> parse_state q = A0 \<Longrightarrow> b \<noteq> 0 \<and> held c q = []"
    using assms by (cases "parse_state p"; cases c; auto simp: code_steps parser_ok_def found_def held_def split: if_splits)+
  have e: "held c p @ b # bs = (if parse_state p = A0 \<and> parse_state q = A0 then [b] else []) @ held c q @ bs"
    using code_step_used[OF assms] by (metis append.assoc append_Cons append_Nil)
  show ?thesis unfolding e using h False split_code_nonzero[of b c "header_found p" bs] by simp
qed

lemma is_code_H264: "is_code H264_start_code hdr b \<longleftrightarrow> b = 1"
  by (simp add: is_code_def is_header_def matches_code_simps)

lemma split_code_back:
  assumes "parser_ok c p" "\<not> found p" "code_step c b p = (False, k, q)"
  shows "split_code c (header_found p) (held c p @ b # bs) =
    put_before (take k (code_bytes c)) (split_code c (header_found q) (held c q @ b # bs))"
proof (cases "parse_state p")
  case A0
  then show ?thesis using assms(3) by (simp add: code_step_A0)
next
  case A1
  then show ?thesis using assms(3) split_code_one[of b c "header_found p" bs]
    by (cases c) (auto simp: code_step_A1 held_def split: if_splits)
next
  case A2
  then show ?thesis using assms(3)
    by (cases c; auto simp: code_step_A2 held_def split_code_other code_here_def split: if_splits)
next
  case A3
  then show ?thesis using assms(1,3) split_code_nonzero[of 1 c] split_code_one[of 1 c]
    by (cases c; auto simp: code_step_A3 parser_ok_def held_def is_code_H264 split_code_other code_here_def header_here_def is_header_def
        split: if_splits)
qed (use assms in \<open>auto simp: found_def\<close>)

text \<open>The scanner finds the first start code.\<close>

lemma scan_splits:
  assumes "parser_ok c p" "\<not> found p" "scan c p bs = (p', out, rest)"
  shows "split_code c (header_found p) (held c p @ bs) = (if found p' then Some (out, held c p', rest) else None)"
  using assms
proof (induction p bs arbitrary: p' out rest rule: scan_induct[where c = c])
  case (Nil p)
  have "split_code c (header_found p) (held c p) = None"
    using Nil.prems(1,2)
    by (cases "parse_state p"; cases c; simp add: held_def split_code.simps(2) code_here_def found_def parser_ok_def)
  then show ?case using Nil by simp
next
  case (Used p b bs k q)
  obtain out' where r: "scan c q bs = (p', out', rest)"
      "out = (if parse_state p = A0 \<and> parse_state q = A0 then [b] else []) @ out'"
    using Used by (cases "scan c q bs") (simp add: scan_used)
  show ?case
  proof (cases "found q")
    case True
    then show ?thesis using r split_code_used[OF Used.prems(1) Used.hyps, of bs] by (auto simp: scan_found found_def)
  next
    case False
    then show ?thesis
      using Used.IH[OF _ False r(1)] r(2) code_step_used[OF Used.prems(1) Used.hyps] split_code_used[OF Used.prems(1) Used.hyps, of bs]
      by auto
  qed
next
  case (Back p b bs k q)
  obtain out' where r: "scan c q (b # bs) = (p', out', rest)" "out = take k (code_bytes c) @ out'"
    using Back by (cases "scan c q (b # bs)") (simp add: scan_back)
  show ?case
    using Back.IH[OF _ _ r(1)] r(2) code_step_back[OF Back.prems(1) Back.hyps] split_code_back[OF Back.prems(1) Back.hyps, of bs]
    by auto
qed simp

end
