(* ===== verification/ParserProps.thy ===== *)
theory ParserProps
  imports FrameCodes
begin

unbundle bit_operations_syntax

text \<open>The properties of the frame parser.\<close>

section \<open>What one call does\<close>

text \<open>
  C27: One call of \<open>parse_sc_frame\<close> cuts the source at its first start code. The start code that ended
  the frame before goes to the destination first, then the bytes up to the next start code, which the
  parser keeps; the source keeps what follows. If there is no start code, all of the source goes to the
  destination, except the bytes at its end that may begin one, which the parser keeps.
\<close>
theorem parse_call_splits:
  assumes "parser_ok c p" "buffer_ok s" "buffer_ok d" "contents s \<noteq> []" "\<not> has_eos s" "length (contents s) + 12 \<le> room d"
  shows "\<exists>p' s' d' partial. parse_sc_frame p s d pf = Some (1, p', s', d', partial) \<and> parser_ok c p' \<and>
    (case split_code c (header_found p) (held c (begun p) @ contents s) of
       Some (out, code, rest) \<Rightarrow> found p' \<and> held c p' = code \<and> contents s' = rest \<and> contents d' = contents d @ frame_header c p @ out
     | None \<Rightarrow> \<not> found p' \<and> contents s' = [] \<and> contents d' @ held c p' = contents d @ frame_header c p @ held c (begun p) @ contents s)"
proof -
  obtain q out rest where sc: "scan c (begun p) (contents s) = (q, out, rest)" by (cases "scan c (begun p) (contents s)")
  have ok: "parser_ok c (begun p)" "\<not> found (begun p)" using assms(1) by simp_all
  note k = scan_keeps[OF ok(1) sc]
  have "header_found (begun p) = header_found p" by (simp add: begun_def update_skip_frame_def)
  then have sp: "split_code c (header_found p) (held c (begun p) @ contents s) = (if found q then Some (out, held c q, rest) else None)"
    using scan_splits[OF ok sc] by simp
  have "length out \<le> length (held c (begun p) @ contents s)" using arg_cong[OF conjunct1[OF conjunct2[OF k]], of length] by simp
  then have fit: "length (frame_header c p) + length out + 4 \<le> room d"
    using assms(6) held_length[of c "begun p"] by (simp add: frame_header_def)
  obtain s' d' where r: "parse_sc_frame p s d pf = Some (1, snd (answered q), s', d', fst (answered q))"
      "contents s' = rest" "contents d' = contents d @ frame_header c p @ out"
    using parse_sc_scan[OF assms(1-4) sc fit, of pf] assms(5) by blast
  show ?thesis using r k sp by (intro exI[of _ "snd (answered q)"] exI[of _ s'] exI[of _ d'] exI[of _ "fst (answered q)"]) auto
qed

section \<open>The memory of the destination\<close>

lemma code_step_start: "code_step c b p = (u, k, q) \<Longrightarrow> start_code q = start_code p"
  by (auto simp: code_step_def third_byte_def fourth_byte_def parse_additional_start_code_def Let_def split: if_splits state_start_code_parse.splits prod.splits)

lemma code_step_ok: "parser_ok c p \<Longrightarrow> \<not> found p \<Longrightarrow> code_step c b p = (u, k, q) \<Longrightarrow> parser_ok c q"
  using code_step_used[of c p b k q] code_step_back[of c p b k q] by (cases u) auto

lemma parse_loop_total:
  assumes "buffer_ok s" "temp_len \<le> unat (nFilledLen s)" "n \<le> temp_len" "parser_ok c p" "\<not> found p"
  shows "\<exists>q n'. parse_loop (pBuffer s) (src_pos s) temp_len p n = Some (q, n') \<and> n' \<le> temp_len \<and> parser_ok c q"
  using assms(2-5)
proof (induction "6 * (temp_len - n) + rank (parse_state p)" arbitrary: n p rule: less_induct)
  case less
  show ?case
  proof (cases "n < temp_len")
    case False
    then show ?thesis using less.prems by (simp add: parse_loop.simps)
  next
    case True
    then have b: "byte_at (pBuffer s) (src_pos s + n) = Some (contents s ! n)"
      using byte_at_nth[OF assms(1), of n] less.prems(1) length_contents[OF assms(1)] by simp
    obtain u k q where st: "code_step c (contents s ! n) p = (u, k, q)" by (cases "code_step c (contents s ! n) p")
    let ?n = "if u then n + 1 else n"
    have q: "parser_ok c q" using code_step_ok[OF less.prems(3,4) st] .
    have run: "parse_loop (pBuffer s) (src_pos s) temp_len p n =
        (if found q then Some (q, ?n) else parse_loop (pBuffer s) (src_pos s) temp_len q ?n)"
      using True b st less.prems(3) by (subst parse_loop.simps) (simp add: parser_ok_def found_def Let_def)
    have "6 * (temp_len - ?n) + rank (parse_state q) < 6 * (temp_len - n) + rank (parse_state p)"
      using True code_step_rank[of c "contents s ! n" p k q] st rank_drop[of "temp_len - (n + 1)" "temp_len - n"] by (cases u) auto
    then show ?thesis using less.hyps[of ?n q] run q True less.prems(1) by (cases "found q") auto
  qed
qed

lemma put_one:
  assumes "buffer_ok d" "dest_room d > 0" "length bs \<le> 1"
  shows "\<exists>d'. put bs d = Some d' \<and> buffer_ok d' \<and> same_header d d' \<and> contents d' = contents d @ bs"
proof -
  have "0 < room d" using assms(2) dest_room_ok[OF assms(1)] by (simp add: word_less_nat_alt)
  then show ?thesis using put_ok[OF assms(1), of bs] assms(3) by auto
qed

text \<open>With these start codes the entry machine writes at most one byte at a time.\<close>

lemma step_back_one: "parser_ok c p \<Longrightarrow> \<not> found p \<Longrightarrow> c = H264_start_code \<or> c = H263_start_code \<Longrightarrow> code_step c b p = (False, k, q) \<Longrightarrow> k \<le> 1"
  by (cases "parse_state p") (auto simp: code_steps parser_ok_def found_def split: if_splits)

lemma entry_loop_total:
  assumes "c = H264_start_code \<or> c = H263_start_code" "parser_ok c p" "buffer_ok s" "buffer_ok d"
  shows "\<exists>q s' d' bs. entry_loop p s d = Some (q, s', d') \<and> parser_ok c q \<and> buffer_ok s' \<and> buffer_ok d' \<and> same_header s s' \<and>
    same_header d d' \<and> contents d' = contents d @ bs"
  using assms(2-4)
proof (induction "6 * unat (nFilledLen s) + rank (parse_state p)" arbitrary: p s d rule: less_induct)
  case less
  show ?case
  proof (cases "nFilledLen s > 0 \<and> parse_state p \<notin> {A0, A4, A5} \<and> dest_room d > 0")
    case False
    then have "entry_loop p s d = Some (p, s, d)" by (subst entry_loop.simps) (simp only: if_False)
    then show ?thesis using less.prems by simp
  next
    case True
    then have ne: "contents s \<noteq> []" "\<not> found p" using contents_empty[OF less.prems(2)] by (auto simp: found_def)
    then obtain b bs where b: "contents s = b # bs" by (cases "contents s") auto
    obtain u k q where st: "code_step c b p = (u, k, q)" by (cases "code_step c b p")
    have q: "parser_ok c q" using code_step_ok[OF less.prems(1) ne(2) st] .
    have sc: "start_code p = Some c" using less.prems(1) by (simp add: parser_ok_def)
    have run: "entry_loop p s d = (if u then entry_loop q (consume 1 s) d
        else case put (take k (code_bytes c)) d of None \<Rightarrow> None | Some d' \<Rightarrow> entry_loop q s d')"
      using True sc byte_at_contents[OF less.prems(2) b] st by (subst entry_loop.simps) (cases u; simp)
    show ?thesis
    proof (cases u)
      case True
      have l: "1 \<le> unat (nFilledLen s)" using length_contents[OF less.prems(2)] b by (metis length_Cons le_add1 plus_1_eq_Suc)
      note c = consume_ok[OF less.prems(2) l]
      have "unat (nFilledLen (consume 1 s)) < unat (nFilledLen s)"
        using l unat_sub[of 1 "nFilledLen s"] by (simp add: consume_def word_le_nat_alt)
      then have "6 * unat (nFilledLen (consume 1 s)) + rank (parse_state q) < 6 * unat (nFilledLen s) + rank (parse_state p)"
        by (rule rank_drop)
      from less.hyps[OF this q c(2) less.prems(3)] show ?thesis using run True c(3) same_header_trans by auto
    next
      case False
      have "k \<le> 1" using step_back_one[OF less.prems(1) ne(2) assms(1)] st False by simp
      then have k: "length (take k (code_bytes c)) \<le> 1" by (rule order_trans[rotated]) simp
      then obtain d1 where d1: "put (take k (code_bytes c)) d = Some d1" "buffer_ok d1" "same_header d d1" "contents d1 = contents d @ take k (code_bytes c)"
        using put_one[OF less.prems(3) _ k] \<open>nFilledLen s > 0 \<and> _\<close> by blast
      have "6 * unat (nFilledLen s) + rank (parse_state q) < 6 * unat (nFilledLen s) + rank (parse_state p)"
        using code_step_rank st False by simp
      from less.hyps[OF this q less.prems(2) d1(2)] obtain q' s' d' bs' where r: "entry_loop q s d1 = Some (q', s', d')" "parser_ok c q'"
        "buffer_ok s'" "buffer_ok d'" "same_header s s'" "same_header d1 d'" "contents d' = contents d1 @ bs'" by blast
      then show ?thesis using run False d1 same_header_trans[OF d1(3) r(6)] by auto
    qed
  qed
qed

lemma exit_machine_total:
  assumes "parser_ok c p" "buffer_ok s" "buffer_ok d" "n \<le> unat (nFilledLen s)" "n \<le> room d"
  shows "\<exists>q s' d' r bs. exit_machine p s d n = Some (1, q, s', d', r) \<and> parser_ok c q \<and> buffer_ok s' \<and> buffer_ok d' \<and>
    same_header s s' \<and> same_header d d' \<and> contents d' = contents d @ bs"
proof -
  let ?a = "if parse_state p = A4 \<or> parse_state p = A5 then check_skip_frame_boundary 0 p else (1, p)"
  obtain r q where a: "?a = (r, q)" by (cases ?a)
  then have q: "parser_ok c q" "parse_state q = parse_state p"
    using answered_ok(1)[OF assms(1)] answered_ok(3)[of p] by (auto simp: answered_def found_def)
  let ?k = "bytes_to_skip (parse_state q) (has_eos s)"
  let ?bs = "take (n - ?k) (contents s)"
  have "length ?bs \<le> room d" using assms(5) by simp
  then obtain d' where d': "put ?bs d = Some d'" "buffer_ok d'" "same_header d d'" "contents d' = contents d @ ?bs"
    using put_ok[OF assms(3), of ?bs] by auto
  have "bytes_at (pBuffer s) (src_pos s) (n - ?k) = Some ?bs" using bytes_at_contents[OF assms(2), of "n - ?k"] assms(4) by simp
  then have "exit_machine p s d n = Some (1, q, consume n s, if n > ?k then d' else d, r)"
    unfolding exit_machine_def Let_def a using assms(4) d'(1) by simp
  then show ?thesis using consume_ok(2,3)[OF assms(2,4)] d' assms(3) q(1)
    by (intro exI[of _ q] exI[of _ "consume n s"] exI[of _ "if n > ?k then d' else d"] exI[of _ r]
        exI[of _ "if n > ?k then ?bs else []"]) auto
qed

text \<open>The two halves of a call: the start of a frame with the entry machine, and the copying with the exit machine.\<close>

lemma begin_total:
  assumes "parser_ok c p" "c = H264_start_code \<or> c = H263_start_code" "buffer_ok s" "buffer_ok d" "length (frame_header c p) \<le> room d"
  obtains d1 q s2 d2 bs where "start_frame p s d = Some (begun p, d1)" "entry_loop (begun p) s d1 = Some (q, s2, d2)"
    "parser_ok c q" "buffer_ok s2" "buffer_ok d2" "nAllocLen d2 = nAllocLen d" "contents d2 = contents d @ bs"
proof -
  obtain d1 where d1: "start_frame p s d = Some (begun p, d1)" "contents d1 = contents d @ frame_header c p" "buffer_ok d1"
      "same_header (if found p then d\<lparr>nFlags := nFlags s, nTimeStamp := nTimeStamp s\<rparr> else d) d1"
    using start_frame_ok[OF assms(1,4), of s] assms(5) by auto
  obtain q s2 d2 bs where e: "entry_loop (begun p) s d1 = Some (q, s2, d2)" "parser_ok c q" "buffer_ok s2" "buffer_ok d2"
      "same_header d1 d2" "contents d2 = contents d1 @ bs"
    using entry_loop_total[OF assms(2) _ assms(3) d1(3), of "begun p"] assms(1) by auto
  have "nAllocLen d2 = nAllocLen d" using e(5) d1(4) by (auto simp: same_header_def split: if_splits)
  then show ?thesis using that[of d1 q s2 d2 "frame_header c p @ bs"] d1(1,2) e by simp
qed

lemma copy_total:
  assumes "parser_ok c q" "buffer_ok s" "buffer_ok d" "t \<le> unat (nFilledLen s)" "t \<le> room d" "\<not> found q"
  obtains q2 n q3 s3 d3 r bs where "parse_loop (pBuffer s) (src_pos s) t q 0 = Some (q2, n)"
    "exit_machine q2 s d n = Some (1, q3, s3, d3, r)" "parser_ok c q3" "buffer_ok s3" "buffer_ok d3"
    "nAllocLen d3 = nAllocLen d" "contents d3 = contents d @ bs"
proof -
  obtain q2 n where l: "parse_loop (pBuffer s) (src_pos s) t q 0 = Some (q2, n)" "n \<le> t" "parser_ok c q2"
    using parse_loop_total[OF assms(2,4) _ assms(1)] assms(6) by blast
  obtain q3 s3 d3 r bs where x: "exit_machine q2 s d n = Some (1, q3, s3, d3, r)" "parser_ok c q3" "buffer_ok s3" "buffer_ok d3"
      "same_header d d3" "contents d3 = contents d @ bs"
    using exit_machine_total[OF l(3) assms(2,3) le_trans[OF l(2) assms(4)] le_trans[OF l(2) assms(5)]] by blast
  then show ?thesis using that[OF l(1) x(1-4) _ x(6)] by (simp add: same_header_def)
qed

text \<open>
  C28: For H.264, HEVC and H.263 no call of \<open>parse_sc_frame\<close> leaves the memory of its buffers, whatever room
  the destination has: it answers with an error or its result is 1, and then the source and the
  destination are consistent, and what was in the destination is still there.
\<close>
theorem parser_stays_in_destination:
  assumes "parser_ok c p" "c = H264_start_code \<or> c = H263_start_code" "buffer_ok s" "buffer_ok d"
  shows "\<exists>r q s' d' partial bs. parse_sc_frame p s d pf = Some (r, q, s', d', partial) \<and> (r = 1 \<or> r = -1) \<and> parser_ok c q \<and>
    buffer_ok s' \<and> buffer_ok d' \<and> nAllocLen d' = nAllocLen d \<and> contents d' = contents d @ bs"
proof -
  have sc: "start_code p = Some c" using assms(1) by (simp add: parser_ok_def)
  let ?stop = "start_code p = Some H263_start_code \<and> dest_room d < 3 \<or> start_code p \<noteq> Some H263_start_code \<and> dest_room d < 4 \<or> nFilledLen s = 0"
  show ?thesis
  proof (cases ?stop)
    case True
    then have "parse_sc_frame p s d pf = (if nFilledLen s = 0 \<and> has_eos s then Some (1, p, s, d, 0) else Some (-1, p, s, d, pf))"
      unfolding parse_sc_frame_def by (simp only: if_True)
    then show ?thesis using assms by auto
  next
    case False
    then have "length (frame_header c p) \<le> unat (dest_room d)" using assms(2) sc by (auto simp: frame_header_def word_less_nat_alt)
    then have "length (frame_header c p) \<le> room d" using dest_room_ok[OF assms(4)] by simp
    then obtain d1 q s2 d2 bs where b: "start_frame p s d = Some (begun p, d1)" "entry_loop (begun p) s d1 = Some (q, s2, d2)"
        and e: "parser_ok c q" "buffer_ok s2" "buffer_ok d2" "nAllocLen d2 = nAllocLen d" "contents d2 = contents d @ bs"
      using begin_total[OF assms(1-4)] by blast
    let ?t = "if nFilledLen s2 < dest_room d2 then nFilledLen s2 else dest_room d2"
    have run: "parse_sc_frame p s d pf =
        (if found q then let (partialframe, p) = check_skip_frame_boundary 0 q in Some (1, p, s2, d2, partialframe)
         else if ?t = 0 then Some (1, q, s2, d2, 1)
         else do { (p, n) \<leftarrow> parse_loop (pBuffer s2) (src_pos s2) (unat ?t) q 0; exit_machine p s2 d2 n })"
      unfolding parse_sc_frame_def if_not_P[OF False] by (simp add: b found_def Let_def del: split_paired_Ex)
    show ?thesis
    proof (cases "found q \<or> ?t = 0")
      case True
      then show ?thesis using run e answered_ok(1)[OF e(1)]
        by (cases "check_skip_frame_boundary 0 q") (auto simp: answered_def)
    next
      case nf: False
      then have nq: "\<not> found q" and nt: "\<not> ?t = 0" by blast+
      have t: "unat ?t \<le> unat (nFilledLen s2)" "unat ?t \<le> room d2"
        using dest_room_ok[OF e(3)] by (auto simp: word_less_nat_alt)
      obtain q2 n q3 s3 d3 r bs' where l: "parse_loop (pBuffer s2) (src_pos s2) (unat ?t) q 0 = Some (q2, n)"
          and x: "exit_machine q2 s2 d2 n = Some (1, q3, s3, d3, r)" "parser_ok c q3" "buffer_ok s3" "buffer_ok d3"
            "nAllocLen d3 = nAllocLen d2" "contents d3 = contents d2 @ bs'"
        using copy_total[OF e(1-3) t nq] .
      have "parse_sc_frame p s d pf = Some (1, q3, s3, d3, r)"
        unfolding run if_not_P[OF nq] if_not_P[OF nt] l by (simp add: x(1))
      then show ?thesis using x e(4,5) by simp
    qed
  qed
qed

text \<open>The other codecs write three bytes behind a check for one: two of them come after the end of the memory.\<close>

definition test_dest :: omx_buffer where
  "test_dest = \<lparr>pBuffer = [9, 9, 9, 9], nAllocLen = 4, nFilledLen = 0, nOffset = 0, nFlags = 0, nTimeStamp = 0\<rparr>"

definition test_source :: "byte list \<Rightarrow> omx_buffer" where
  "test_source bs = \<lparr>pBuffer = bs, nAllocLen = of_nat (length bs), nFilledLen = of_nat (length bs), nOffset = 0, nFlags = 0, nTimeStamp = 0\<rparr>"

definition test_parser_after :: "codec_type \<Rightarrow> frame_parser" where
  "test_parser_after codec = (snd (init_start_codes codec frame_parse))\<lparr>parse_state := A2\<rparr>"

theorem start_code_overruns_destination:
  "parse_sc_frame (test_parser_after CODEC_TYPE_MPEG4) (test_source [0, 0, 0, 1, 5]) test_dest 1 = None"
  "parse_sc_frame (test_parser_after CODEC_TYPE_VC1) (test_source [0, 0, 0, 1, 5]) test_dest 1 = None"
  "parse_sc_frame (test_parser_after CODEC_TYPE_MPEG2) (test_source [0, 0, 0, 1, 5]) test_dest 1 = None"
  by code_simp+

theorem parse_call_splits_witness:
  "\<exists>p' s' d' partial. parse_sc_frame (test_parser_after CODEC_TYPE_MPEG2) (test_source [1, 0xB3, 7, 0, 0, 1, 0xB3])
      (test_source [5, 6]\<lparr>nAllocLen := 32, pBuffer := [5, 6] @ replicate 30 0\<rparr>) 1 = Some (1, p', s', d', partial)"
proof -
  have "parser_ok MPEG2_start_code (test_parser_after CODEC_TYPE_MPEG2)"
    "buffer_ok (test_source [1, 0xB3, 7, 0, 0, 1, 0xB3])" "buffer_ok (test_source [5, 6]\<lparr>nAllocLen := 32, pBuffer := [5, 6] @ replicate 30 0\<rparr>)"
    "contents (test_source [1, 0xB3, 7, 0, 0, 1, 0xB3]) \<noteq> []" "\<not> has_eos (test_source [1, 0xB3, 7, 0, 0, 1, 0xB3])"
    "length (contents (test_source [1, 0xB3, 7, 0, 0, 1, 0xB3])) + 12 \<le> room (test_source [5, 6]\<lparr>nAllocLen := 32, pBuffer := [5, 6] @ replicate 30 0\<rparr>)"
    by code_simp+
  from parse_call_splits[OF this] show ?thesis by blast
qed

theorem parser_stays_in_destination_witness:
  "\<exists>q s' d' partial. parse_sc_frame (test_parser_after CODEC_TYPE_H264) (test_source [0, 0, 0, 0, 5, 6, 7]) test_dest 1 = Some (1, q, s', d', partial) \<and>
    buffer_ok d'"
proof -
  have ok: "parser_ok H264_start_code (test_parser_after CODEC_TYPE_H264)" "H264_start_code = H264_start_code \<or> H264_start_code = H263_start_code"
    "buffer_ok (test_source [0, 0, 0, 0, 5, 6, 7])" "buffer_ok test_dest" by code_simp+
  have "fst (the (parse_sc_frame (test_parser_after CODEC_TYPE_H264) (test_source [0, 0, 0, 0, 5, 6, 7]) test_dest 1)) \<noteq> -1" by code_simp
  with parser_stays_in_destination[OF ok, of 1] show ?thesis by fastforce
qed

end
