(* ===== verification/InputSpec.thy ===== *)
theory InputSpec
  imports FrameCodes H264Frames
begin

text \<open>
  What becomes of a stream, stated over lists: it is cut at its start codes into units, and the
  units are put together to frames by the answers of \<open>isNewFrame\<close>.
\<close>

section \<open>Cutting a stream\<close>

text \<open>
  The complete units, the parser after the stream and the bytes of the unit that is not complete,
  if \<open>acc\<close> are its first bytes.
\<close>

function cut :: "start_codes \<Rightarrow> frame_parser \<Rightarrow> byte list \<Rightarrow> byte list \<Rightarrow> byte list list \<times> frame_parser \<times> byte list" where
  "cut c p acc [] = ([], p, acc)"
| "cut c p acc (b # bs) =
     (case scan c (begun p) (b # bs) of (p', out, rest) \<Rightarrow>
        if found p' then (case cut c p' [] rest of (us, q, a) \<Rightarrow> ((acc @ frame_header c p @ out) # us, q, a))
        else ([], p', acc @ frame_header c p @ out))"
  by pat_completeness auto
termination
  by (relation "measure (\<lambda>(c, p, acc, bs). length bs)") (auto dest!: scan_rest[OF sym])

declare cut.simps(2) [simp del]

lemma cut_found: "scan c (begun p) bs = (p', out, rest) \<Longrightarrow> found p' \<Longrightarrow> bs \<noteq> [] \<Longrightarrow>
  cut c p acc bs = (case cut c p' [] rest of (us, q, a) \<Rightarrow> ((acc @ frame_header c p @ out) # us, q, a))"
  by (cases bs) (simp_all add: cut.simps(2))

lemma cut_partial: "scan c (begun p) bs = (p', out, rest) \<Longrightarrow> \<not> found p' \<Longrightarrow> bs \<noteq> [] \<Longrightarrow>
  cut c p acc bs = ([], p', acc @ frame_header c p @ out)"
  by (cases bs) (simp_all add: cut.simps(2))

lemma begun_id: "\<not> found p \<Longrightarrow> begun p = p" "\<not> found p \<Longrightarrow> frame_header c p = []"
  by (simp_all add: begun_def frame_header_def)

lemma cut_append:
  "cut c p acc (ys @ zs) =
    (case cut c p acc ys of (us, q, a) \<Rightarrow> case cut c q a zs of (vs, q', a') \<Rightarrow> (us @ vs, q', a'))"
proof (induction c p acc ys rule: cut.induct)
  case (1 c p acc)
  then show ?case by (simp split: prod.split)
next
  case (2 c p acc b bs)
  obtain p' out rest where s: "scan c (begun p) (b # bs) = (p', out, rest)" by (cases "scan c (begun p) (b # bs)")
  note sa = scan_append[OF s, of zs]
  show ?case
  proof (cases "found p'")
    case True
    then have "scan c (begun p) ((b # bs) @ zs) = (p', out, rest @ zs)" using sa by simp
    then show ?thesis
      using 2[OF s[symmetric] refl True] True cut_found[OF s True] cut_found[of c p "(b # bs) @ zs" p' out "rest @ zs"]
      by (simp split: prod.splits)
  next
    case nf: False
    show ?thesis
    proof (cases zs)
      case Nil
      then show ?thesis by (simp split: prod.split)
    next
      case (Cons z zs')
      obtain p2 out2 rest2 where s2: "scan c p' zs = (p2, out2, rest2)" by (cases "scan c p' zs")
      then have "scan c (begun p) ((b # bs) @ zs) = (p2, out @ out2, rest2)" using sa nf by simp
      moreover have "cut c p acc (b # bs) = ([], p', acc @ frame_header c p @ out)" using cut_partial[OF s nf] by simp
      moreover have "scan c (begun p') zs = (p2, out2, rest2)" using s2 begun_id(1)[OF nf] by simp
      ultimately show ?thesis
        using cut_found[of c p "(b # bs) @ zs" p2 "out @ out2" rest2] cut_partial[of c p "(b # bs) @ zs" p2 "out @ out2" rest2]
          cut_found[of c p' zs p2 out2 rest2] cut_partial[of c p' zs p2 out2 rest2] begun_id(2)[OF nf] Cons
        by (cases "found p2") (auto split: prod.split)
    qed
  qed
qed

text \<open>Every cut is at the first start code that is left.\<close>

lemma cut_at_code:
  assumes "parser_ok c p" "bs \<noteq> []" "split_code c (header_found p) (held c (begun p) @ bs) = Some (out, code, rest)"
  shows "\<exists>p'. found p' \<and> parser_ok c p' \<and> held c p' = code \<and>
    cut c p acc bs = (case cut c p' [] rest of (us, q, a) \<Rightarrow> ((acc @ frame_header c p @ out) # us, q, a))"
proof -
  obtain p' out' rest' where s: "scan c (begun p) bs = (p', out', rest')" by (cases "scan c (begun p) bs")
  have ok: "parser_ok c (begun p)" using assms(1) by simp
  have "found p' \<and> out' = out \<and> held c p' = code \<and> rest' = rest"
    using scan_splits[OF ok _ s] assms(3) by (auto split: if_splits)
  then show ?thesis using cut_found[OF s] assms(2) scan_keeps[OF ok s] by blast
qed

lemma cut_no_code:
  assumes "parser_ok c p" "bs \<noteq> []" "split_code c (header_found p) (held c (begun p) @ bs) = None"
  shows "\<exists>p' out. \<not> found p' \<and> parser_ok c p' \<and> held c (begun p) @ bs = out @ held c p' \<and>
    cut c p acc bs = ([], p', acc @ frame_header c p @ out)"
proof -
  obtain p' out rest where s: "scan c (begun p) bs = (p', out, rest)" by (cases "scan c (begun p) bs")
  have ok: "parser_ok c (begun p)" using assms(1) by simp
  have nf: "\<not> found p'" using scan_splits[OF ok _ s] assms(3) by (auto split: if_splits)
  then show ?thesis using cut_partial[OF s nf assms(2)] scan_keeps[OF ok s] by auto
qed

section \<open>NAL units\<close>

text \<open>Emulation prevention keeps start codes out of the bytes of a NAL unit.\<close>

lemma split_code_two: "b \<noteq> 0 \<Longrightarrow> b \<noteq> 1 \<Longrightarrow>
  split_code H264_start_code hdr (0 # 0 # b # bs) = put_before [0] (split_code H264_start_code hdr (0 # b # bs))"
  by (subst split_code_other) (auto simp: code_here_def)

lemma split_code_escape:
  assumes "n \<le> 2" "zeros_after n p = 0" "p = [] \<Longrightarrow> n = 0"
  shows "split_code H264_start_code hdr (replicate n 0 @ escape n p @ zs) =
    put_before (replicate n 0 @ escape n p) (split_code H264_start_code hdr zs)"
  using assms
proof (induction p arbitrary: n)
  case (Cons b p)
  define n' where "n' = (if b = 0 then if n \<ge> 2 then 1 else n + 1 else 0)"
  have n': "n' \<le> 2" "zeros_after n' p = 0" "p = [] \<Longrightarrow> n' = 0" using Cons.prems by (auto simp: n'_def)
  note IH = Cons.IH[OF n']
  have n: "n = 0 \<or> n = 1 \<or> n = 2" using Cons.prems(1) by auto
  have r2: "replicate 2 (0 :: byte) = [0, 0]" by (simp add: numeral_2_eq_2)
  have small: "b \<le> 3 \<Longrightarrow> b \<noteq> 0 \<Longrightarrow> b = 1 \<or> b = 2 \<or> b = 3" by (auto simp: word_le_nat_alt word_unat_eq_iff)
  have one: "(1 :: byte) \<le> 3" "(0 :: byte) \<le> 3" by simp_all
  show ?case
  proof (cases "b = 0")
    case True
    then show ?thesis using n IH split_code_two[of 3 hdr] split_code_one[of 3 H264_start_code hdr] split_code_nonzero[of 3 H264_start_code hdr]
      by (auto simp: n'_def r2)
  next
    case False
    then have "n' = 0" by (simp add: n'_def)
    then show ?thesis using n IH False one
      by (cases "b \<le> 3 \<and> n = 2"; cases "b = 1")
        (auto simp: r2 split_code_two split_code_one split_code_nonzero)
  qed
qed simp

text \<open>
  A unit of a stream has a start code of three or four bytes, a header and a payload whose last
  byte is not zero.
\<close>

type_synonym stream_unit = "nat \<times> byte \<times> byte list"

definition unit_ok :: "stream_unit \<Rightarrow> bool" where
  "unit_ok = (\<lambda>(z, h, p). (z = 2 \<or> z = 3) \<and> h \<noteq> 0 \<and> zeros_after 0 p = 0)"

definition unit_bytes :: "stream_unit \<Rightarrow> byte list" where
  "unit_bytes = (\<lambda>(z, h, p). nal_bytes z h p)"

definition unit_body :: "stream_unit \<Rightarrow> byte list" where
  "unit_body = (\<lambda>(z, h, p). h # escape 0 p)"

lemma unit_bytes_body: "unit_bytes x = replicate (fst x) 0 @ 1 # unit_body x"
  by (simp add: unit_bytes_def unit_body_def nal_bytes_def split: prod.split)

lemma nal_buffer_body: "nal_buffer (snd x) = [0, 0, 0, 1] @ unit_body x"
  by (simp add: nal_buffer_def unit_body_def nal_bytes_def numeral_3_eq_3 split: prod.split)

lemma split_body: "unit_ok x \<Longrightarrow> split_code H264_start_code hdr (unit_body x @ zs) = put_before (unit_body x) (split_code H264_start_code hdr zs)"
  using split_code_escape[of 0 "snd (snd x)" hdr zs]
  by (auto simp: unit_ok_def unit_body_def split_code_nonzero split: prod.splits)

lemma split_at_unit:
  assumes "unit_ok x"
  shows "split_code H264_start_code hdr (unit_bytes x @ zs) = Some ([], replicate (fst x) 0 @ [1], unit_body x @ zs)"
proof -
  have "fst x = 2 \<or> fst x = 3" using assms by (auto simp: unit_ok_def)
  moreover have "replicate 2 (0 :: byte) = [0, 0]" "replicate 3 (0 :: byte) = [0, 0, 0]"
    by (simp_all add: numeral_2_eq_2 numeral_3_eq_3)
  ultimately have "code_here H264_start_code hdr (unit_bytes x @ zs) = Some (fst x + 1)"
    by (auto simp: unit_bytes_body code_here_def)
  then show ?thesis using split_code_here[of H264_start_code hdr "unit_bytes x @ zs" "fst x + 1"] by (simp add: unit_bytes_body)
qed

lemma body_last: "unit_ok x \<Longrightarrow> unit_body x \<noteq> [] \<and> last (unit_body x) \<noteq> 0"
proof -
  have last: "zeros_after n p = 0 \<Longrightarrow> p \<noteq> [] \<Longrightarrow> escape n p \<noteq> [] \<and> last (escape n p) \<noteq> 0" for n p
  proof (induction p arbitrary: n)
    case (Cons b p)
    then show ?case by (cases "p = []") (auto split: if_splits)
  qed simp
  assume "unit_ok x"
  then show ?thesis using last[of 0 "snd (snd x)"]
    by (cases "snd (snd x) = []") (auto simp: unit_ok_def unit_body_def split: prod.splits)
qed

lemma held_zeros: "\<not> found p \<Longrightarrow> set (held H264_start_code p) \<subseteq> {0}"
  by (cases "parse_state p") (auto simp: held_def found_def)

lemma begun_found: "found p \<Longrightarrow> held c (begun p) = []" "found p \<Longrightarrow> frame_header H264_start_code p = [0, 0, 0, 1]"
  by (auto simp: begun_def frame_header_def held_def)

lemma cut_units_after:
  assumes "parser_ok H264_start_code p" "found p" "unit_ok x" "list_all unit_ok xs"
  shows "\<exists>q. \<not> found q \<and> cut H264_start_code p [] (unit_body x @ concat (map unit_bytes xs)) =
    (map (nal_buffer \<circ> snd) (butlast (x # xs)), q, nal_buffer (snd (last (x # xs))))"
  using assms
proof (induction xs arbitrary: p x)
  case Nil
  have "split_code H264_start_code (header_found p) (held H264_start_code (begun p) @ unit_body x) = None"
    using split_body[OF Nil.prems(3), of "header_found p" "[]"] begun_found[OF Nil.prems(2)] by simp
  then obtain q out where q: "\<not> found q" "held H264_start_code (begun p) @ unit_body x = out @ held H264_start_code q"
      "cut H264_start_code p [] (unit_body x) = ([], q, [] @ frame_header H264_start_code p @ out)"
    using cut_no_code[OF Nil.prems(1)] body_last[OF Nil.prems(3)] by blast
  have "held H264_start_code q = []"
  proof (rule ccontr)
    assume ne: "held H264_start_code q \<noteq> []"
    then have "last (unit_body x) = last (held H264_start_code q)" using q(2) begun_found[OF Nil.prems(2)] by simp
    moreover have "last (held H264_start_code q) = 0" using held_zeros[OF q(1)] last_in_set[OF ne] by blast
    ultimately show False using body_last[OF Nil.prems(3)] by simp
  qed
  then show ?case using q begun_found[OF Nil.prems(2)] by (intro exI[of _ q]) (simp add: nal_buffer_body)
next
  case (Cons y ys)
  let ?rest = "unit_body y @ concat (map unit_bytes ys)"
  have "split_code H264_start_code (header_found p) (held H264_start_code (begun p) @ unit_body x @ concat (map unit_bytes (y # ys))) =
      Some (unit_body x, replicate (fst y) 0 @ [1], ?rest)"
    using split_body[OF Cons.prems(3)] split_at_unit[of y] Cons.prems(4) begun_found[OF Cons.prems(2)] by simp
  then obtain q where q: "found q" "parser_ok H264_start_code q"
      "cut H264_start_code p [] (unit_body x @ concat (map unit_bytes (y # ys))) =
        (case cut H264_start_code q [] ?rest of (us, q', a) \<Rightarrow> (([] @ frame_header H264_start_code p @ unit_body x) # us, q', a))"
    using cut_at_code[OF Cons.prems(1)] body_last[OF Cons.prems(3)] by blast
  obtain q' where q': "\<not> found q'" "cut H264_start_code q [] ?rest =
      (map (nal_buffer \<circ> snd) (butlast (y # ys)), q', nal_buffer (snd (last (y # ys))))"
    using Cons.IH[OF q(2,1), of y] Cons.prems(4) by auto
  show ?case using q' begun_found(2)[OF Cons.prems(2)] unfolding q(3) by (intro exI[of _ q']) (simp add: nal_buffer_body)
qed

text \<open>The stream is cut into its units, each with a start code of four bytes.\<close>

lemma cut_units:
  assumes "parser_ok H264_start_code p" "parse_state p = A0" "list_all unit_ok (x # xs)"
  shows "\<exists>q. \<not> found q \<and> cut H264_start_code p [] (concat (map unit_bytes (x # xs))) =
    ([] # map (nal_buffer \<circ> snd) (butlast (x # xs)), q, nal_buffer (snd (last (x # xs))))"
proof -
  have nf: "\<not> found p" and h: "held H264_start_code p = []" using assms(2) by (simp_all add: found_def held_def)
  have ne: "concat (map unit_bytes (x # xs)) \<noteq> []" by (simp add: unit_bytes_body)
  have "split_code H264_start_code (header_found p) (held H264_start_code (begun p) @ concat (map unit_bytes (x # xs))) =
      Some ([], replicate (fst x) 0 @ [1], unit_body x @ concat (map unit_bytes xs))"
    using split_at_unit[of x] assms(3) h begun_id[OF nf] by simp
  then obtain q where "found q" "parser_ok H264_start_code q"
      "cut H264_start_code p [] (concat (map unit_bytes (x # xs))) =
        (case cut H264_start_code q [] (unit_body x @ concat (map unit_bytes xs)) of (us, q', a) \<Rightarrow>
          (([] @ frame_header H264_start_code p @ []) # us, q', a))"
    using cut_at_code[OF assms(1) ne] by blast
  then show ?thesis using cut_units_after[of q x xs] assms(3) begun_id(2)[OF nf] by auto
qed

section \<open>Frames\<close>

text \<open>
  Units are put together until one begins a frame: the complete frames, and the one that is not
  complete, if \<open>d\<close> are its first bytes.
\<close>

fun group_units :: "bool list \<Rightarrow> byte list list \<Rightarrow> byte list \<Rightarrow> byte list list \<times> byte list" where
  "group_units (new # news) (u # us) d =
     (if new \<and> d \<noteq> [] then (case group_units news us u of (fs, d') \<Rightarrow> (d # fs, d'))
      else group_units news us (d @ u))"
| "group_units _ _ d = ([], d)"

lemma group_units_append:
  "length news = length us \<Longrightarrow> group_units (news @ news') (us @ us') d =
    (case group_units news us d of (fs, d') \<Rightarrow> case group_units news' us' d' of (gs, d'') \<Rightarrow> (fs @ gs, d''))"
proof (induction news us d rule: group_units.induct)
  case (1 new news u us d)
  then show ?case by (auto split: prod.splits)
qed (auto split: prod.split)

lemma group_units_ne: "list_all (\<lambda>u. u \<noteq> []) us \<Longrightarrow> length news = length us \<Longrightarrow> us \<noteq> [] \<or> d \<noteq> [] \<Longrightarrow>
  snd (group_units news us d) \<noteq> []"
  by (induction news us d rule: group_units.induct) (auto split: prod.split)

lemma frame_starts_length: "frame_starts m nal0 us u = Some (news, u') \<Longrightarrow> length news = length us"
  by (induction us arbitrary: news u) (auto split: bind_splits)

end
