(* ===== verification/PushInput.thy ===== *)
theory PushInput
  imports FrameParser H264Utils
begin

unbundle bit_operations_syntax

text \<open>
  The input side of omx_vdec (vidc/vdec/src/omx_vdec_v4l2.cpp) when the client sends buffers that
  are cut anywhere: the bytes of a source buffer go through the frame parser, for H.264 and HEVC
  through a scratch buffer and the detection of frames, to a buffer of the driver, which is
  submitted when it holds a frame.

  The driver and the callbacks of the client are outside. The driver's answer to a buffer is a
  parameter \<open>env\<close>; what is submitted to it and what is returned to the client is recorded. The
  build defines PROCESS_EXTRADATA_IN_OUTPUT_PORT and not PANSCAN_HDLR, log output and the rejection
  of profiles are off. \<open>parse_nal\<close> and \<open>mp4_headerparser\<close> only change parsers of their own, and are
  left out here.
\<close>

section \<open>State\<close>

datatype omx_error = OMX_ErrorNone | OMX_ErrorBadParameter | OMX_ErrorStreamCorrupt | OMX_ErrorHardware

datatype vc1_profile = VC1_AP | VC1_SP_MP_RCV

record hevc_utils =
  h_forceToStichNextNAL :: bool
  h_au_data :: bool
  h_nalu_type :: nat

record omx_vdec =
  psource_frame :: "omx_buffer option"
  pdest_frame :: "omx_buffer option"
  m_input_pending_q :: "omx_buffer list"
  m_input_free_q :: "omx_buffer list"
  m_frame_parser :: frame_parser
  mutils :: h264_utils
  m_hevc_utils :: hevc_utils
  h264_scratch :: omx_buffer
  v_nal_length :: u32
  nal_count :: nat
  frame_count :: nat
  look_ahead_nal :: bool
  h264_last_au_ts :: "64 word"
  h264_last_au_flags :: u32
  codec_type_parse :: codec_type
  first_frame :: bool
  m_vendor_config :: "byte list option"
  m_vc1_profile :: vc1_profile
  input_flush_progress :: bool
  codec_config_flag :: bool
  submitted :: "omx_buffer list"
  returned :: "omx_buffer list"
  posted_ebd :: "omx_buffer list"

text \<open>LLONG_MAX stands for a timestamp that is not valid.\<close>

abbreviation (input) LLONG_MAX :: "64 word" where "LLONG_MAX \<equiv> 0x7FFFFFFFFFFFFFFF"

definition valid_ts :: "64 word \<Rightarrow> bool" where
  "valid_ts ts \<longleftrightarrow> ts <s LLONG_MAX"

abbreviation (input) QOMX_VIDEO_BUFFERFLAG_EOSEQ :: u32 where "QOMX_VIDEO_BUFFERFLAG_EOSEQ \<equiv> 0x200000"

abbreviation (input) OMX_BUFFERFLAG_CODECCONFIG :: u32 where "OMX_BUFFERFLAG_CODECCONFIG \<equiv> 0x80"

text \<open>A step answers with an error code; None is an access outside of memory or to no buffer.\<close>

type_synonym step = "(omx_error \<times> omx_vdec) option"

definition andthen :: "step \<Rightarrow> (omx_vdec \<Rightarrow> step) \<Rightarrow> step" where
  "andthen r f = do { (e, st) \<leftarrow> r; (if e = OMX_ErrorNone then f st else Some (e, st)) }"

definition with_dest :: "omx_vdec \<Rightarrow> (omx_buffer \<Rightarrow> 'a option) \<Rightarrow> 'a option" where
  "with_dest st f = Option.bind (pdest_frame st) f"

definition with_source :: "omx_vdec \<Rightarrow> (omx_buffer \<Rightarrow> 'a option) \<Rightarrow> 'a option" where
  "with_source st f = Option.bind (psource_frame st) f"

section \<open>Queues\<close>

text \<open>\<open>omx_cmd_queue\<close>, a ring of 100 entries, as the list of its entries.\<close>

definition insert_entry :: "omx_buffer \<Rightarrow> omx_buffer list \<Rightarrow> bool \<times> omx_buffer list" where
  "insert_entry b q = (if length q < 100 then (True, q @ [b]) else (False, q))"

text \<open>The next free buffer becomes the destination; \<open>f\<close> is how its header is reset.\<close>

definition next_dest :: "(omx_buffer \<Rightarrow> omx_buffer) \<Rightarrow> omx_vdec \<Rightarrow> omx_vdec" where
  "next_dest f st = (case m_input_free_q st of
     [] \<Rightarrow> st\<lparr>pdest_frame := None\<rparr>
   | b # q \<Rightarrow> st\<lparr>pdest_frame := Some (f b), m_input_free_q := q\<rparr>)"

definition next_source :: "omx_vdec \<Rightarrow> omx_vdec" where
  "next_source st = (case m_input_pending_q st of
     [] \<Rightarrow> st\<lparr>psource_frame := None\<rparr>
   | b # q \<Rightarrow> st\<lparr>psource_frame := Some b, m_input_pending_q := q\<rparr>)"

definition EmptyBufferDone :: "omx_buffer \<Rightarrow> omx_vdec \<Rightarrow> omx_vdec" where
  "EmptyBufferDone b st = st\<lparr>returned := returned st @ [b]\<rparr>"

section \<open>Submission to the driver\<close>

text \<open>
  The driver's side of \<open>empty_this_buffer_proxy\<close>: NoBuffer if the header is not one of the input port (the tests before
  that of a flush), Invalid if the tests of its memory after that fail, Rejected if VIDIOC_QBUF does. The stream is
  on. The counter \<open>pending_input_buffers\<close>, which nothing here reads, is left out.
\<close>

datatype driver_answer = Accepted | Rejected | Invalid | NoBuffer

definition reset_input :: "omx_vdec \<Rightarrow> omx_vdec" where
  "reset_input st = st\<lparr>h264_scratch := (h264_scratch st)\<lparr>nFilledLen := 0\<rparr>, nal_count := 0, look_ahead_nal := False,
     frame_count := 0, mutils := initialize_frame_checking_environment (mutils st),
     m_frame_parser := flush_parser (m_frame_parser st), h264_last_au_ts := LLONG_MAX, h264_last_au_flags := 0\<rparr>"

definition empty_this_buffer_proxy :: "(omx_buffer \<Rightarrow> driver_answer) \<Rightarrow> omx_buffer \<Rightarrow> omx_vdec \<Rightarrow> omx_error \<times> omx_vdec" where
  "empty_this_buffer_proxy env b st =
     (if env b = NoBuffer then (OMX_ErrorBadParameter, st)
      else if input_flush_progress st then (OMX_ErrorNone, st\<lparr>posted_ebd := posted_ebd st @ [b]\<rparr>)
      else if env b = Invalid then (OMX_ErrorBadParameter, st)
      else
        let b = b\<lparr>nFlags := nFlags b AND NOT QOMX_VIDEO_BUFFERFLAG_EOSEQ\<rparr>;
            st = (if nFilledLen b = 0 \<or> has_eos b then reset_input st else st) in
        if env b = Rejected then (OMX_ErrorHardware, EmptyBufferDone b st)
        else (OMX_ErrorNone, st\<lparr>submitted := submitted st @ [b],
          codec_config_flag := codec_config_flag st \<and> nFlags b AND OMX_BUFFERFLAG_CODECCONFIG \<noteq> 0\<rparr>))"

text \<open>The callers answer with OMX_ErrorBadParameter for any error, and the destination stays.\<close>

definition submit_dest :: "(omx_buffer \<Rightarrow> driver_answer) \<Rightarrow> omx_vdec \<Rightarrow> step" where
  "submit_dest env st = with_dest st (\<lambda>d.
     let (e, st) = empty_this_buffer_proxy env d st in
     if e \<noteq> OMX_ErrorNone then Some (OMX_ErrorBadParameter, st) else Some (OMX_ErrorNone, st\<lparr>pdest_frame := None\<rparr>))"

text \<open>A source that is used up goes back to the client, and the next one is taken.\<close>

definition return_source :: "omx_vdec \<Rightarrow> step" where
  "return_source st = with_source st (\<lambda>s. Some (OMX_ErrorNone, next_source (EmptyBufferDone s st)))"

section \<open>Codecs with a start code for each frame\<close>

definition complete_frame :: "(omx_buffer \<Rightarrow> driver_answer) \<Rightarrow> omx_vdec \<Rightarrow> step" where
  "complete_frame env st = with_source st (\<lambda>s. with_dest st (\<lambda>d.
     if frame_count st = 0 then Some (OMX_ErrorNone, st\<lparr>frame_count := 1\<rparr>)
     else
       let d = d\<lparr>nFlags := nFlags d AND NOT OMX_BUFFERFLAG_EOS\<rparr>; st = st\<lparr>pdest_frame := Some d\<rparr> in
       if nFilledLen d \<noteq> 0 then
         andthen (submit_dest env st) (\<lambda>st.
           Some (OMX_ErrorNone, next_dest (\<lambda>b. b\<lparr>nFilledLen := 0\<rparr>) (st\<lparr>frame_count := frame_count st + 1\<rparr>)))
       else if \<not> has_eos s then
         Some (OMX_ErrorNone, st\<lparr>m_input_free_q := snd (insert_entry d (m_input_free_q st)), pdest_frame := None\<rparr>)
       else Some (OMX_ErrorNone, st)))"

definition source_consumed :: "(omx_buffer \<Rightarrow> driver_answer) \<Rightarrow> omx_vdec \<Rightarrow> step" where
  "source_consumed env st = with_source st (\<lambda>s.
     if nFilledLen s \<noteq> 0 then Some (OMX_ErrorNone, st)
     else if has_eos s then
       (case pdest_frame st of
          Some d \<Rightarrow>
            andthen (submit_dest env (st\<lparr>pdest_frame := Some (d\<lparr>nFlags := nFlags d OR nFlags s, nTimeStamp := nTimeStamp s\<rparr>)\<rparr>))
              (\<lambda>st. return_source (st\<lparr>frame_count := frame_count st + 1\<rparr>))
        | None \<Rightarrow> Some (OMX_ErrorNone, st))
     else return_source st)"

definition push_input_sc_codec :: "(omx_buffer \<Rightarrow> driver_answer) \<Rightarrow> omx_vdec \<Rightarrow> step" where
  "push_input_sc_codec env st = with_source st (\<lambda>s. with_dest st (\<lambda>d. do {
     (r, p, s, d, partial_frame) \<leftarrow> parse_sc_frame (m_frame_parser st) s d 1;
     let st = st\<lparr>m_frame_parser := p, psource_frame := Some s, pdest_frame := Some d\<rparr> in
     if r = -1 then Some (OMX_ErrorBadParameter, st)
     else andthen
       (if partial_frame = 0 then complete_frame env st
        else if nAllocLen d = nFilledLen d + nOffset d then Some (OMX_ErrorStreamCorrupt, st)
        else Some (OMX_ErrorNone, st))
       (source_consumed env) }))"

text \<open>VC-1: the profile comes from the first buffer or the configuration of the client.\<close>

definition word_of_bytes :: "byte list \<Rightarrow> u32" where
  "word_of_bytes bs = foldr (\<lambda>b w. push_bit 8 w OR ucast b) bs 0"

definition first_vc1_buffer :: "omx_vdec \<Rightarrow> step" where
  "first_vc1_buffer st = with_source st (\<lambda>s. with_dest st (\<lambda>d.
     let st = st\<lparr>first_frame := True\<rparr> in
     case m_vendor_config st of
       None \<Rightarrow> do {
         bs \<leftarrow> bytes_at (pBuffer s) 0 4;
         let w = word_of_bytes bs in
         if w AND 0xFF000000 = 0xC5000000 then Some (OMX_ErrorNone, st\<lparr>m_vc1_profile := VC1_SP_MP_RCV\<rparr>)
         else if w AND 0x0F010000 \<noteq> 0 then Some (OMX_ErrorNone, st\<lparr>m_vc1_profile := VC1_AP\<rparr>)
         else Some (OMX_ErrorStreamCorrupt, st) }
     | Some bs \<Rightarrow>
         if unat (dest_room d) < length bs then Some (OMX_ErrorBadParameter, st)
         else do { d \<leftarrow> put bs d; Some (OMX_ErrorNone, st\<lparr>pdest_frame := Some d\<rparr>) }))"

definition push_input_vc1 :: "(omx_buffer \<Rightarrow> driver_answer) \<Rightarrow> omx_vdec \<Rightarrow> step" where
  "push_input_vc1 env st =
     andthen (if first_frame st then Some (OMX_ErrorNone, st) else first_vc1_buffer st) (\<lambda>st.
       case m_vc1_profile st of
         VC1_AP \<Rightarrow> do {
           (e, st) \<leftarrow> push_input_sc_codec env st;
           Some (if e \<noteq> OMX_ErrorNone then OMX_ErrorBadParameter else OMX_ErrorNone, st) }
       | VC1_SP_MP_RCV \<Rightarrow> Some (OMX_ErrorBadParameter, st))"

section \<open>H.264\<close>

text \<open>
  What is in the scratch buffer goes to the end of the destination, behind the bytes it holds from the
  start of its memory on; \<open>f\<close> is what else is done to the header of the destination.
\<close>

definition store_at :: "nat \<Rightarrow> byte list \<Rightarrow> byte list \<Rightarrow> byte list option" where
  "store_at i bs mem = (if i + length bs \<le> length mem then Some (take i mem @ bs @ drop (i + length bs) mem) else None)"

definition copy_scratch :: "(omx_buffer \<Rightarrow> omx_buffer) \<Rightarrow> omx_vdec \<Rightarrow> step" where
  "copy_scratch f st = with_dest st (\<lambda>d.
     let sc = h264_scratch st in
     if nAllocLen d - nFilledLen d \<ge> nFilledLen sc then do {
       bs \<leftarrow> bytes_at (pBuffer sc) 0 (unat (nFilledLen sc));
       mem \<leftarrow> store_at (unat (nFilledLen d)) bs (pBuffer d);
       Some (OMX_ErrorNone, st\<lparr>pdest_frame := Some (f (d\<lparr>pBuffer := mem, nFilledLen := nFilledLen d + nFilledLen sc\<rparr>)),
                               h264_scratch := sc\<lparr>nFilledLen := 0\<rparr>\<rparr>) }
     else Some (OMX_ErrorBadParameter, st))"

definition copy_look_ahead :: "(omx_buffer \<Rightarrow> omx_buffer) \<Rightarrow> omx_vdec \<Rightarrow> step" where
  "copy_look_ahead f st =
     (if nFilledLen (h264_scratch st) \<noteq> 0 \<and> look_ahead_nal st then copy_scratch f (st\<lparr>look_ahead_nal := False\<rparr>)
      else Some (OMX_ErrorNone, st))"

text \<open>The parser of the session, from the source to the scratch buffer; the answer is whether the unit is partial.\<close>

definition parse_to_scratch :: "omx_vdec \<Rightarrow> (omx_error \<times> u32 \<times> omx_vdec) option" where
  "parse_to_scratch st = with_source st (\<lambda>s. do {
     (r, p, s, sc, partial_frame) \<leftarrow>
       (if v_nal_length st = 0 then parse_sc_frame (m_frame_parser st) s (h264_scratch st) 1
        else parse_h264_nallength (m_frame_parser st) s (h264_scratch st) 1);
     Some (if r = -1 then OMX_ErrorBadParameter else OMX_ErrorNone, partial_frame,
       st\<lparr>m_frame_parser := p, psource_frame := Some s, h264_scratch := sc\<rparr>) })"

definition scratch_full :: "omx_vdec \<Rightarrow> step" where
  "scratch_full st =
     (let sc = h264_scratch st in
      if nAllocLen sc = nFilledLen sc + nOffset sc then Some (OMX_ErrorStreamCorrupt, st) else Some (OMX_ErrorNone, st))"

text \<open>A new access unit: the destination is submitted, and the unit in the scratch buffer waits for the next one.\<close>

definition new_access_unit :: "(omx_buffer \<Rightarrow> driver_answer) \<Rightarrow> (omx_buffer \<Rightarrow> omx_buffer) \<Rightarrow> omx_vdec \<Rightarrow> step" where
  "new_access_unit env f st = with_source st (\<lambda>s. with_dest st (\<lambda>d.
     if nFilledLen d = 0 then copy_scratch f (st\<lparr>look_ahead_nal := False\<rparr>)
     else
       let eos_off = (nFilledLen s \<noteq> 0 \<or> nFilledLen (h264_scratch st) \<noteq> 0);
           d = (if eos_off then d\<lparr>nFlags := nFlags d AND NOT OMX_BUFFERFLAG_EOS\<rparr> else d) in
       andthen (submit_dest env (st\<lparr>look_ahead_nal := True, pdest_frame := Some d\<rparr>)) (\<lambda>st.
         Some (OMX_ErrorNone, next_dest (\<lambda>b. b\<lparr>nFilledLen := 0, nFlags := 0, nTimeStamp := LLONG_MAX\<rparr>) st))))"

definition check_new_frame :: "isa \<Rightarrow> nalu \<Rightarrow> omx_vdec \<Rightarrow> (bool \<times> omx_vdec) option" where
  "check_new_frame m nal0 st = do {
     (ret, new, u) \<leftarrow> isNewFrame m nal0 (pBuffer (h264_scratch st)) (nFilledLen (h264_scratch st)) 0 (mutils st);
     Some (new, st\<lparr>mutils := u\<rparr>) }"

text \<open>The timestamp of an access unit is that of the last slice before.\<close>

definition unit_timestamps :: "omx_vdec \<Rightarrow> omx_vdec option" where
  "unit_timestamps st = with_dest st (\<lambda>d.
     let st = (if valid_ts (h264_last_au_ts st) \<and> \<not> valid_ts (nTimeStamp d)
               then st\<lparr>pdest_frame := Some (d\<lparr>nTimeStamp := h264_last_au_ts st, nFlags := h264_last_au_flags st\<rparr>)\<rparr>
               else st) in
     Some (if u_nalu_type (mutils st) = NALU_TYPE_NON_IDR \<or> u_nalu_type (mutils st) = NALU_TYPE_IDR
           then st\<lparr>h264_last_au_ts := nTimeStamp (h264_scratch st), h264_last_au_flags := nFlags (h264_scratch st)\<rparr>
           else st\<lparr>h264_last_au_ts := LLONG_MAX\<rparr>))"

definition complete_unit :: "isa \<Rightarrow> nalu \<Rightarrow> (omx_buffer \<Rightarrow> driver_answer) \<Rightarrow> omx_vdec \<Rightarrow> step" where
  "complete_unit m nal0 env st = with_source st (\<lambda>s.
     if nal_count st = 0 \<and> nFilledLen (h264_scratch st) = 0 then
       Some (OMX_ErrorNone, st\<lparr>nal_count := 1,
         h264_scratch := (h264_scratch st)\<lparr>nTimeStamp := nTimeStamp s, nFlags := nFlags s\<rparr>\<rparr>)
     else do {
       (new, st) \<leftarrow> (if nFilledLen (h264_scratch st) \<noteq> 0 then do {
           (new, st) \<leftarrow> check_new_frame m nal0 st;
           st \<leftarrow> unit_timestamps (st\<lparr>nal_count := nal_count st + 1\<rparr>);
           Some (new, st) } else Some (False, st));
       (if \<not> new then
          copy_scratch (\<lambda>d. if u_nalu_type (mutils st) = NALU_TYPE_EOSEQ
                            then d\<lparr>nFlags := nFlags d OR QOMX_VIDEO_BUFFERFLAG_EOSEQ\<rparr> else d) st
        else if nFilledLen (h264_scratch st) \<noteq> 0 then new_access_unit env (\<lambda>d. d) st
        else Some (OMX_ErrorNone, st)) })"

text \<open>
  At the end of the stream: what is left in the scratch buffer belongs to the frame in the destination or
  waits for the next destination. The answer is whether the source is used up.
\<close>

definition last_unit :: "isa \<Rightarrow> nalu \<Rightarrow> bool \<Rightarrow> omx_vdec \<Rightarrow> (omx_error \<times> bool \<times> omx_vdec) option" where
  "last_unit m nal0 generate_ebd st = with_dest st (\<lambda>d.
     if nAllocLen d - nFilledLen d \<ge> nFilledLen (h264_scratch st) then
       if nFilledLen d = 0 then do {
         (e, st) \<leftarrow> copy_scratch (\<lambda>d. d\<lparr>nTimeStamp := nTimeStamp (h264_scratch st)\<rparr>) st;
         Some (e, generate_ebd, st) }
       else do {
         (new, st) \<leftarrow> check_new_frame m nal0 st;
         (if \<not> new then do {
            (e, st) \<leftarrow> copy_scratch (\<lambda>d. if h264_last_au_ts st \<noteq> LLONG_MAX then d\<lparr>nTimeStamp := h264_last_au_ts st\<rparr> else d) st;
            Some (e, generate_ebd, st) }
          else with_dest st (\<lambda>d. Some (OMX_ErrorNone, False,
            st\<lparr>pdest_frame := Some (d\<lparr>nTimeStamp := h264_last_au_ts st\<rparr>),
               h264_last_au_ts := nTimeStamp (h264_scratch st)\<rparr>))) }
     else Some (OMX_ErrorBadParameter, generate_ebd, st))"

definition end_of_stream :: "isa \<Rightarrow> nalu \<Rightarrow> (omx_buffer \<Rightarrow> driver_answer) \<Rightarrow> bool \<Rightarrow> omx_vdec \<Rightarrow> step" where
  "end_of_stream m nal0 env generate_ebd st = with_source st (\<lambda>s.
     case pdest_frame st of
       None \<Rightarrow> Some (OMX_ErrorNone, st)
     | Some _ \<Rightarrow> do {
         (e, generate_ebd, st) \<leftarrow> last_unit m nal0 generate_ebd st;
         if e \<noteq> OMX_ErrorNone then Some (e, st)
         else with_dest st (\<lambda>d.
           let st = (if generate_ebd then st\<lparr>pdest_frame := Some (d\<lparr>nFlags := nFlags (h264_scratch st) OR nFlags s\<rparr>)\<rparr> else st) in
           andthen (submit_dest env st) (\<lambda>st.
             let st = st\<lparr>frame_count := frame_count st + 1\<rparr> in
             if generate_ebd then return_source st else Some (OMX_ErrorNone, st))) })"

definition push_input_h264 :: "isa \<Rightarrow> nalu \<Rightarrow> (omx_buffer \<Rightarrow> driver_answer) \<Rightarrow> omx_vdec \<Rightarrow> step" where
  "push_input_h264 m nal0 env st =
     (if pBuffer (h264_scratch st) = [] then Some (OMX_ErrorBadParameter, st)
      else andthen (copy_look_ahead (\<lambda>d. d) st) (\<lambda>st. with_source st (\<lambda>s. with_dest st (\<lambda>d.
        let generate_ebd = \<not> (nFilledLen s = 0 \<and> has_eos s \<and> nFilledLen d \<noteq> 0) in do {
        (e, partial_frame, st) \<leftarrow> parse_to_scratch st;
        if e \<noteq> OMX_ErrorNone then Some (e, st)
        else andthen (if partial_frame = 0 then complete_unit m nal0 env st else scratch_full st) (\<lambda>st. with_source st (\<lambda>s.
          if nFilledLen s \<noteq> 0 then Some (OMX_ErrorNone, st)
          else if has_eos s then end_of_stream m nal0 env generate_ebd st
          else if generate_ebd then return_source st else Some (OMX_ErrorNone, st))) }))))"

section \<open>HEVC\<close>

text \<open>
  \<open>HEVC_Utils::isNewFrame\<close> for units with start codes: the answer, which stays what it was if no
  unit is found, and the state.
\<close>

definition hevc_isNewFrame :: "byte list \<Rightarrow> u32 \<Rightarrow> bool \<Rightarrow> hevc_utils \<Rightarrow> (bool \<times> bool \<times> hevc_utils) option" where
  "hevc_isNewFrame buf buffer_length new0 u = do {
     coef2 \<leftarrow> rd buf 0; coef3 \<leftarrow> rd buf 1;
     r \<leftarrow> find_prefix buf buffer_length coef2 coef3 2;
     case r of
       None \<Rightarrow> Some (False, new0, u)
     | Some pos \<Rightarrow>
         if pos + 2 > buffer_length then Some (False, new0, u)
         else do {
           b \<leftarrow> rd buf pos;
           let t = unat (drop_bit 1 (b AND 0x7E)); u = u\<lparr>h_nalu_type := t\<rparr> in
           if t = 32 \<or> t = 33 \<or> t = 34 \<or> t = 39 then
             Some (True, h_au_data u, u\<lparr>h_au_data := False, h_forceToStichNextNAL := True\<rparr>)
           else if t \<le> 23 then do {
             new \<leftarrow> (if h_forceToStichNextNAL u then Some False
                   else do { b2 \<leftarrow> rd buf (pos + 2); Some (drop_bit 7 (b2 AND 0x80) \<noteq> 0) });
             Some (True, new, u\<lparr>h_au_data := True, h_forceToStichNextNAL := False\<rparr>) }
           else Some (True, False, u) } }"

text \<open>What \<open>copy_buffer\<close> does besides: the destination takes the timestamp if it has none.\<close>

definition take_timestamp :: "omx_buffer \<Rightarrow> omx_buffer \<Rightarrow> omx_buffer" where
  "take_timestamp sc d = (if nTimeStamp d = LLONG_MAX then d\<lparr>nTimeStamp := nTimeStamp sc\<rparr> else d)"

definition complete_hevc_unit :: "(omx_buffer \<Rightarrow> driver_answer) \<Rightarrow> omx_vdec \<Rightarrow> step" where
  "complete_hevc_unit env st = with_source st (\<lambda>s.
     if nal_count st = 0 \<and> nFilledLen (h264_scratch st) = 0 then
       Some (OMX_ErrorNone, st\<lparr>nal_count := 1,
         h264_scratch := (h264_scratch st)\<lparr>nTimeStamp := nTimeStamp s, nFlags := nFlags s\<rparr>\<rparr>)
     else do {
       (new, st) \<leftarrow> (if nFilledLen (h264_scratch st) \<noteq> 0 then do {
           (ret, new, u) \<leftarrow> hevc_isNewFrame (pBuffer (h264_scratch st)) (nFilledLen (h264_scratch st)) False (m_hevc_utils st);
           Some (new, st\<lparr>m_hevc_utils := u, nal_count := nal_count st + 1\<rparr>) } else Some (False, st));
       (if \<not> new then copy_scratch (take_timestamp (h264_scratch st)) st
        else new_access_unit env (take_timestamp (h264_scratch st)) st) })"

definition end_of_hevc_stream :: "(omx_buffer \<Rightarrow> driver_answer) \<Rightarrow> omx_vdec \<Rightarrow> step" where
  "end_of_hevc_stream env st = with_source st (\<lambda>s.
     case pdest_frame st of
       None \<Rightarrow> Some (OMX_ErrorNone, st)
     | Some _ \<Rightarrow>
         let sc = h264_scratch st in
         andthen (copy_scratch (\<lambda>d. d\<lparr>nTimeStamp := nTimeStamp sc, nFlags := nFlags sc OR nFlags s\<rparr>) st)
           (\<lambda>st. andthen (submit_dest env st) (\<lambda>st. return_source (st\<lparr>frame_count := frame_count st + 1\<rparr>))))"

definition push_input_hevc :: "(omx_buffer \<Rightarrow> driver_answer) \<Rightarrow> omx_vdec \<Rightarrow> step" where
  "push_input_hevc env st =
     (if pBuffer (h264_scratch st) = [] then Some (OMX_ErrorBadParameter, st)
      else andthen (copy_look_ahead (take_timestamp (h264_scratch st)) st) (\<lambda>st. do {
        (e, partial_frame, st) \<leftarrow> parse_to_scratch st;
        if e \<noteq> OMX_ErrorNone then Some (e, st)
        else andthen (if partial_frame = 0 then complete_hevc_unit env st else scratch_full st) (\<lambda>st. with_source st (\<lambda>s.
          if nFilledLen s \<noteq> 0 then Some (OMX_ErrorNone, st)
          else if has_eos s then end_of_hevc_stream env st
          else return_source st)) }))"

section \<open>Buffers coming in\<close>

definition push_input :: "isa \<Rightarrow> nalu \<Rightarrow> (omx_buffer \<Rightarrow> driver_answer) \<Rightarrow> omx_vdec \<Rightarrow> step" where
  "push_input m nal0 env st =
     (case codec_type_parse st of
        CODEC_TYPE_MPEG4 \<Rightarrow> push_input_sc_codec env st
      | CODEC_TYPE_H263 \<Rightarrow> push_input_sc_codec env st
      | CODEC_TYPE_MPEG2 \<Rightarrow> push_input_sc_codec env st
      | CODEC_TYPE_H264 \<Rightarrow> push_input_h264 m nal0 env st
      | CODEC_TYPE_HEVC \<Rightarrow> push_input_hevc env st
      | CODEC_TYPE_VC1 \<Rightarrow> push_input_vc1 env st
      | _ \<Rightarrow> Some (OMX_ErrorNone, st))"

text \<open>The loop, which has no result if it never ends.\<close>

partial_function (option) push_loop :: "isa \<Rightarrow> nalu \<Rightarrow> (omx_buffer \<Rightarrow> driver_answer) \<Rightarrow> omx_vdec \<Rightarrow> (omx_error \<times> omx_vdec) option" where
  "push_loop m nal0 env st =
     (if pdest_frame st \<noteq> None \<and> psource_frame st \<noteq> None then do {
        (e, st) \<leftarrow> push_input m nal0 env st;
        (if e \<noteq> OMX_ErrorNone then Some (e, st) else push_loop m nal0 env st) }
      else Some (OMX_ErrorNone, st))"

declare push_loop.simps [code]

definition push_input_buffer :: "isa \<Rightarrow> nalu \<Rightarrow> (omx_buffer \<Rightarrow> driver_answer) \<Rightarrow> omx_vdec \<Rightarrow> step" where
  "push_input_buffer m nal0 env st =
     (let st = (if pdest_frame st = None then next_dest (\<lambda>b. b\<lparr>nFilledLen := 0, nTimeStamp := LLONG_MAX\<rparr>) st else st);
          st = (if psource_frame st = None then next_source st else st) in
      push_loop m nal0 env st)"

text \<open>A buffer of the client. The result of \<open>push_input_buffer\<close> is not looked at.\<close>

definition empty_this_buffer_proxy_arbitrary :: "isa \<Rightarrow> nalu \<Rightarrow> (omx_buffer \<Rightarrow> driver_answer) \<Rightarrow> omx_buffer \<Rightarrow> omx_vdec \<Rightarrow> step" where
  "empty_this_buffer_proxy_arbitrary m nal0 env b st =
     (if input_flush_progress st \<or> nFilledLen b = 0 \<and> \<not> has_eos b then Some (OMX_ErrorNone, EmptyBufferDone b st)
      else andthen
        (if psource_frame st = None then do {
           (e, st) \<leftarrow> push_input_buffer m nal0 env (st\<lparr>psource_frame := Some b\<rparr>);
           Some (OMX_ErrorNone, st) }
         else
           let (ok, q) = insert_entry b (m_input_pending_q st) in
           Some (if ok then OMX_ErrorNone else OMX_ErrorBadParameter, st\<lparr>m_input_pending_q := q\<rparr>))
        (\<lambda>st. Some (OMX_ErrorNone, st\<lparr>codec_config_flag := codec_config_flag st \<and> nFlags b AND OMX_BUFFERFLAG_CODECCONFIG \<noteq> 0\<rparr>)))"

text \<open>A buffer the driver has decoded, in the mode for arbitrary bytes.\<close>

definition empty_buffer_done :: "isa \<Rightarrow> nalu \<Rightarrow> (omx_buffer \<Rightarrow> driver_answer) \<Rightarrow> omx_buffer \<Rightarrow> omx_vdec \<Rightarrow> step" where
  "empty_buffer_done m nal0 env b st =
     (if pdest_frame st = None \<and> \<not> input_flush_progress st then do {
        (e, st) \<leftarrow> push_input_buffer m nal0 env (st\<lparr>pdest_frame := Some (b\<lparr>nFilledLen := 0, nTimeStamp := LLONG_MAX\<rparr>)\<rparr>);
        Some (OMX_ErrorNone, st) }
      else Some (OMX_ErrorNone, st\<lparr>m_input_free_q := snd (insert_entry (b\<lparr>nFilledLen := 0\<rparr>) (m_input_free_q st))\<rparr>))"

text \<open>The part of \<open>execute_input_flush\<close> on the buffers of the client and the parser.\<close>

definition flush_input :: "omx_vdec \<Rightarrow> omx_vdec" where
  "flush_input st =
     (if codec_config_flag st then st
      else
        let st = (reset_input st)\<lparr>returned := returned st @ m_input_pending_q st @ (case psource_frame st of None \<Rightarrow> [] | Some s \<Rightarrow> [s]),
                    m_input_pending_q := [], psource_frame := None\<rparr> in
        (case pdest_frame st of None \<Rightarrow> st
         | Some d \<Rightarrow> st\<lparr>m_input_free_q := snd (insert_entry (d\<lparr>nFilledLen := 0\<rparr>) (m_input_free_q st)), pdest_frame := None\<rparr>))"

end
