(* ===== verification/InputH264.thy ===== *)
theory InputH264
  imports InputSpec PushInput
begin

unbundle bit_operations_syntax

text \<open>
  The input side of the decoder for H.264 follows the specification: whatever the sizes of the
  client's buffers and whenever the driver returns its own, what is submitted are the frames of
  the stream.
\<close>

section \<open>Longer memory\<close>

text \<open>A result that needs no more than a part of the memory is the same with all of it.\<close>

lemma rd_longer: "rd buf i = Some b \<Longrightarrow> rd (buf @ mr) i = Some b"
  by (auto simp: rd_def nth_append split: if_splits)

lemma find_prefix_longer: "find_prefix buf l a b pos = Some r \<Longrightarrow> find_prefix (buf @ mr) l a b pos = Some r"
proof (induction rule: find_prefix.raw_induct[rotated, consumes 1])
  case (1 f buf l a b pos r)
  then show ?case
    by (subst find_prefix.simps) (auto simp: Let_def rd_longer split: if_splits bind_splits)
qed

lemma copy_rbsp_longer: "copy_rbsp buf sc l pos z mem n = Some r \<Longrightarrow> copy_rbsp (buf @ mr) sc l pos z mem n = Some r"
proof (induction rule: copy_rbsp.raw_induct[rotated, consumes 1])
  case (1 f buf sc l pos z mem n r)
  then show ?case
    by (cases r, subst copy_rbsp.simps) (auto simp: Let_def rd_longer split: if_splits bind_splits)
qed

lemma isNewFrame_longer:
  "isNewFrame m nal0 buf l 0 u = Some r \<Longrightarrow> isNewFrame m nal0 (buf @ mr) l 0 u = Some r"
proof -
  have "extract_rbsp m (buf @ mr) l 0 mem len0 nal0 = Some e" if "extract_rbsp m buf l 0 mem len0 nal0 = Some e" for mem len0 e
    using that
    by (auto simp: extract_rbsp_def Let_def rd_longer find_prefix_longer copy_rbsp_longer split: if_splits bind_splits option.splits)
  then show "isNewFrame m nal0 buf l 0 u = Some r \<Longrightarrow> isNewFrame m nal0 (buf @ mr) l 0 u = Some r"
    by (auto simp: isNewFrame_def split: bind_splits)
qed

section \<open>Buffers of the driver\<close>

definition dest_buffer :: "nat \<Rightarrow> omx_buffer \<Rightarrow> bool" where
  "dest_buffer n d \<longleftrightarrow> nOffset d = 0 \<and> buffer_ok d \<and> n \<le> unat (nAllocLen d) \<and> \<not> has_eos d"

lemma dest_buffer_reset [simp]:
  "dest_buffer n d \<Longrightarrow> dest_buffer n (d\<lparr>nFilledLen := 0\<rparr>)"
  "dest_buffer n (d\<lparr>nTimeStamp := ts\<rparr>) = dest_buffer n d"
  "contents (d\<lparr>nFilledLen := 0\<rparr>) = []" "contents (d\<lparr>nTimeStamp := ts\<rparr>) = contents d" "contents (d\<lparr>nFlags := f\<rparr>) = contents d"
  by (simp_all add: dest_buffer_def buffer_ok_def contents_def has_eos_def)

lemma dest_buffer_flags: "dest_buffer n d \<Longrightarrow> f AND 1 = 0 \<Longrightarrow> dest_buffer n (d\<lparr>nFlags := f\<rparr>)"
  by (simp add: dest_buffer_def buffer_ok_def has_eos_def)

lemma eoseq_flag: "(f :: u32) AND 1 = 0 \<Longrightarrow> (f OR 0x200000) AND 1 = 0" "f AND 1 = 0 \<Longrightarrow> (f AND g) AND 1 = 0"
    "(f AND NOT 0x200000) AND 1 = f AND 1" "(f AND NOT 1) AND 1 = 0"
  by (simp add: bit.conj_disj_distrib2, metis and.left_commute and.commute and_zero_eq,
      simp add: and.assoc, simp add: and.assoc)

lemma contents_offset0: "nOffset d = 0 \<Longrightarrow> contents d = take (unat (nFilledLen d)) (pBuffer d)"
  by (simp add: contents_def)

text \<open>The scratch buffer at the end of the destination.\<close>

lemma copy_scratch_ok:
  assumes "pdest_frame st = Some d" "dest_buffer n d" "buffer_ok (h264_scratch st)" "nOffset (h264_scratch st) = 0"
    "length (contents d @ contents (h264_scratch st)) \<le> n"
  shows "\<exists>d'. copy_scratch f st = Some (OMX_ErrorNone, st\<lparr>pdest_frame := Some (f d'),
      h264_scratch := (h264_scratch st)\<lparr>nFilledLen := 0\<rparr>\<rparr>) \<and>
    contents d' = contents d @ contents (h264_scratch st) \<and> dest_buffer n d' \<and> nFlags d' = nFlags d \<and> nTimeStamp d' = nTimeStamp d"
proof -
  let ?sc = "h264_scratch st" and ?f = "unat (nFilledLen d)" and ?k = "unat (nFilledLen (h264_scratch st))"
  have d: "nOffset d = 0" "buffer_ok d" "n \<le> unat (nAllocLen d)" "\<not> has_eos d" using assms(2) by (auto simp: dest_buffer_def)
  have k: "length (contents ?sc) = ?k" "length (contents d) = ?f" using length_contents assms(3) d(2) by auto
  then have fk: "?f + ?k \<le> unat (nAllocLen d)" using assms(5) d(3) by simp
  have al: "unat (nAllocLen d) \<le> length (pBuffer d)" using d(2) by (simp add: buffer_ok_def)
  have "nFilledLen d \<le> nAllocLen d" using fk by (simp add: word_le_nat_alt)
  then have "unat (nAllocLen d - nFilledLen d) = unat (nAllocLen d) - ?f" by (rule unat_sub)
  then have room: "nFilledLen ?sc \<le> nAllocLen d - nFilledLen d" using fk by (simp add: word_le_nat_alt)
  have "bytes_at (pBuffer ?sc) 0 ?k = Some (contents ?sc)"
    using bytes_at_contents[OF assms(3), of ?k] k assms(4) by (simp add: src_pos_def)
  moreover have "store_at ?f (contents ?sc) (pBuffer d) = Some (take ?f (pBuffer d) @ contents ?sc @ drop (?f + ?k) (pBuffer d))"
    using fk al k(1) by (simp add: store_at_def)
  ultimately have c: "copy_scratch f st = Some (OMX_ErrorNone, st\<lparr>pdest_frame := Some (f (d\<lparr>pBuffer := take ?f (pBuffer d) @ contents ?sc @ drop (?f + ?k) (pBuffer d),
      nFilledLen := nFilledLen d + nFilledLen ?sc\<rparr>)), h264_scratch := ?sc\<lparr>nFilledLen := 0\<rparr>\<rparr>)"
    using room assms(1) by (simp add: copy_scratch_def with_dest_def Let_def)
  have "?f + ?k < 2 ^ 32" using fk unsigned_less[of "nAllocLen d", where ?'a = nat] by simp
  then have u: "unat (nFilledLen d + nFilledLen ?sc) = ?f + ?k" by (simp add: unat_word_ariths(1))
  show ?thesis
    using c fk al k d u
    by (intro exI[of _ "d\<lparr>pBuffer := take ?f (pBuffer d) @ contents ?sc @ drop (?f + ?k) (pBuffer d),
      nFilledLen := nFilledLen d + nFilledLen ?sc\<rparr>"])
      (auto simp: contents_offset0 dest_buffer_def buffer_ok_def has_eos_def)
qed

section \<open>The state of the decoder and of the specification\<close>

definition no_eos :: "omx_vdec \<Rightarrow> bool" where
  "no_eos st \<longleftrightarrow> list_all (\<lambda>b. \<not> has_eos b) (submitted st)"

definition input_ok :: "nat \<Rightarrow> nat \<Rightarrow> omx_vdec \<Rightarrow> bool" where
  "input_ok M N st \<longleftrightarrow> codec_type_parse st = CODEC_TYPE_H264 \<and> v_nal_length st = 0 \<and> \<not> input_flush_progress st \<and>
     buffer_ok (h264_scratch st) \<and> nOffset (h264_scratch st) = 0 \<and> unat (nAllocLen (h264_scratch st)) = M \<and>
     8 \<le> M \<and> \<not> has_eos (h264_scratch st) \<and> h264_last_au_flags st AND 1 = 0 \<and>
     list_all (dest_buffer N) (m_input_free_q st) \<and> (\<forall>d. pdest_frame st = Some d \<longrightarrow> dest_buffer N d) \<and> no_eos st"

text \<open>
  \<open>us\<close> are the units so far, \<open>acc\<close> the bytes of the next one, \<open>fs\<close> the frames and \<open>D\<close> the bytes of the
  next one. The last unit waits in the scratch buffer if it begins a frame.
\<close>

definition input_at :: "frame_parser \<Rightarrow> h264_utils \<Rightarrow> byte list list \<Rightarrow> byte list \<Rightarrow> byte list list \<Rightarrow> byte list \<Rightarrow> omx_vdec \<Rightarrow> bool" where
  "input_at p u us acc fs D st \<longleftrightarrow> m_frame_parser st = p \<and> mutils st = u \<and> (nal_count st = 0 \<longleftrightarrow> us = []) \<and>
     map contents (submitted st) = fs \<and>
     (if look_ahead_nal st then D \<noteq> [] \<and> acc = [] \<and> contents (h264_scratch st) = D \<and>
        (\<forall>d. pdest_frame st = Some d \<longrightarrow> contents d = [])
      else contents (h264_scratch st) = acc \<and> (case pdest_frame st of Some d \<Rightarrow> contents d = D | None \<Rightarrow> D = []))"

definition client :: "omx_vdec \<Rightarrow> omx_buffer option \<times> omx_buffer list \<times> omx_buffer list" where
  "client st = (psource_frame st, m_input_pending_q st, returned st)"

lemma scratch_empty: "buffer_ok b \<Longrightarrow> nFilledLen b = 0 \<longleftrightarrow> contents b = []"
  using contents_empty by blast

lemma scratch_reset: "buffer_ok b \<Longrightarrow> buffer_ok (b\<lparr>nFilledLen := 0\<rparr>)" "contents (b\<lparr>nFilledLen := 0\<rparr>) = []"
  by (simp_all add: buffer_ok_def contents_def)

lemma scratch_memory: "input_ok M N st \<Longrightarrow> pBuffer (h264_scratch st) \<noteq> []"
  by (auto simp: input_ok_def no_eos_def buffer_ok_def)

lemma dest_flags_ok: "dest_buffer n d \<Longrightarrow> nFlags d AND 1 = 0"
  by (simp add: dest_buffer_def has_eos_def)

text \<open>First the unit that waits goes to the destination.\<close>

lemma look_ahead_ok:
  assumes "input_ok M N st" "input_at p u us acc fs D st" "pdest_frame st = Some d" "length D \<le> N"
  shows "\<exists>st' d'. copy_look_ahead (\<lambda>d. d) st = Some (OMX_ErrorNone, st') \<and> input_ok M N st' \<and>
    input_at p u us acc fs D st' \<and> \<not> look_ahead_nal st' \<and> client st' = client st \<and> pdest_frame st' = Some d' \<and>
    contents d' = D"
proof (cases "look_ahead_nal st")
  case False
  then show ?thesis using assms by (auto simp: copy_look_ahead_def input_at_def)
next
  case True
  then have a: "D \<noteq> []" "acc = []" "contents (h264_scratch st) = D" "contents d = []"
    using assms(2,3) by (auto simp: input_at_def)
  have ok: "buffer_ok (h264_scratch st)" "nOffset (h264_scratch st) = 0" "dest_buffer N d"
    using assms(1,3) by (auto simp: input_ok_def no_eos_def)
  let ?st = "st\<lparr>look_ahead_nal := False\<rparr>"
  obtain d' where d': "copy_scratch (\<lambda>d. d) ?st = Some (OMX_ErrorNone, ?st\<lparr>pdest_frame := Some d',
      h264_scratch := (h264_scratch st)\<lparr>nFilledLen := 0\<rparr>\<rparr>)" "contents d' = D" "dest_buffer N d'"
    using copy_scratch_ok[of ?st d N "\<lambda>d. d"] assms(3,4) a ok by auto
  have "copy_look_ahead (\<lambda>d. d) st = copy_scratch (\<lambda>d. d) ?st"
    using True a scratch_empty[OF ok(1)] by (auto simp: copy_look_ahead_def)
  then show ?thesis using d' assms a ok scratch_reset
    by (intro exI[of _ "?st\<lparr>pdest_frame := Some d', h264_scratch := (h264_scratch st)\<lparr>nFilledLen := 0\<rparr>\<rparr>"] exI[of _ d'])
      (auto simp: input_ok_def no_eos_def input_at_def client_def has_eos_def)
qed

text \<open>Then the scratch buffer gets what the parser makes of the source.\<close>

lemma parse_ok:
  assumes "input_ok M N st" "input_at p u us acc fs D st" "\<not> look_ahead_nal st" "psource_frame st = Some s"
    "buffer_ok s" "\<not> has_eos s" "contents s \<noteq> []" "parser_ok H264_start_code p"
    "scan H264_start_code (begun p) (contents s) = (p', out, rest)"
    "length (acc @ frame_header H264_start_code p @ out) + 8 \<le> M"
  shows "\<exists>st' s'. parse_to_scratch st = Some (OMX_ErrorNone, if found p' then 0 else 1, st') \<and> input_ok M N st' \<and>
    input_at p' u us (acc @ frame_header H264_start_code p @ out) fs D st' \<and> \<not> look_ahead_nal st' \<and>
    psource_frame st' = Some s' \<and> buffer_ok s' \<and> \<not> has_eos s' \<and> contents s' = rest \<and>
    m_input_pending_q st' = m_input_pending_q st \<and> returned st' = returned st \<and> pdest_frame st' = pdest_frame st"
proof -
  let ?sc = "h264_scratch st"
  have ok: "buffer_ok ?sc" "nOffset ?sc = 0" "unat (nAllocLen ?sc) = M" "\<not> has_eos ?sc" "contents ?sc = acc"
    "m_frame_parser st = p" "v_nal_length st = 0" using assms(1-3) by (auto simp: input_ok_def no_eos_def input_at_def)
  have room: "room ?sc = M - length acc" using ok length_contents[OF ok(1)] by (simp add: room_def)
  have fit: "length (frame_header H264_start_code p) + length out + 4 \<le> room ?sc" using assms(10) room by simp
  have nc: "start_code p' = Some H264_start_code"
    using scan_keeps[OF begun_ok(1)[OF assms(8)] assms(9)] by (simp add: parser_ok_def)
  then have ans: "answered p' = (if found p' then 0 else 1, p')" by (simp add: answered_def check_skip_frame_boundary_def)
  obtain s' sc' where r: "parse_sc_frame p s ?sc 1 = Some (1, snd (answered p'), s', sc', fst (answered p'))"
      "contents s' = rest" "contents sc' = acc @ frame_header H264_start_code p @ out" "buffer_ok s'" "buffer_ok sc'"
      "same_header s s'" "same_header (if found p then ?sc\<lparr>nFlags := nFlags s, nTimeStamp := nTimeStamp s\<rparr> else ?sc) sc'"
      "room sc' = room ?sc - length (frame_header H264_start_code p @ out)"
    using parse_sc_scan[OF assms(8) assms(5) ok(1) assms(7) assms(9) fit, of 1] assms(6) unfolding ok(5) by blast
  have al: "nAllocLen sc' = nAllocLen ?sc" "\<not> has_eos sc'" "\<not> has_eos s'"
    using r(6,7) ok(4) assms(6) has_eos_same by (auto simp: same_header_def has_eos_def split: if_splits)
  have f: "length acc + length (frame_header H264_start_code p @ out) = unat (nFilledLen sc')"
    using length_contents[OF r(5)] r(3) by simp
  then have "room sc' = M - unat (nFilledLen sc')" using r(8) room by simp
  moreover have "room sc' = M - (unat (nOffset sc') + unat (nFilledLen sc'))"
    "unat (nOffset sc') + unat (nFilledLen sc') \<le> M"
    using r(5) ok(3) al(1) by (simp_all add: room_def buffer_ok_def)
  ultimately have "unat (nOffset sc') = 0" using assms(10) f by simp
  then have off: "nOffset sc' = 0" by (simp add: unat_eq_zero)
  show ?thesis
    using r(1,2,3,4,5) ok al off ans assms(1-4)
    by (intro exI[of _ "st\<lparr>m_frame_parser := p', psource_frame := Some s', h264_scratch := sc'\<rparr>"] exI[of _ s'])
      (auto simp: parse_to_scratch_def with_source_def input_ok_def no_eos_def input_at_def)
qed

text \<open>The steps after a unit is complete.\<close>

lemma unit_timestamps_ok:
  assumes "input_ok M N st" "pdest_frame st = Some d"
  shows "\<exists>d' ts fl. unit_timestamps st = Some (st\<lparr>pdest_frame := Some d', h264_last_au_ts := ts, h264_last_au_flags := fl\<rparr>) \<and>
    dest_buffer N d' \<and> contents d' = contents d \<and> fl AND 1 = 0"
proof -
  have d: "dest_buffer N d" "h264_last_au_flags st AND 1 = 0" "nFlags (h264_scratch st) AND 1 = 0"
    using assms by (auto simp: input_ok_def no_eos_def has_eos_def)
  define d' where "d' = (if valid_ts (h264_last_au_ts st) \<and> \<not> valid_ts (nTimeStamp d)
    then d\<lparr>nTimeStamp := h264_last_au_ts st, nFlags := h264_last_au_flags st\<rparr> else d)"
  have d': "dest_buffer N d'" "contents d' = contents d"
    using d dest_buffer_flags[of N "d\<lparr>nTimeStamp := h264_last_au_ts st\<rparr>" "h264_last_au_flags st"] by (simp_all add: d'_def)
  let ?slice = "u_nalu_type (mutils st) = NALU_TYPE_NON_IDR \<or> u_nalu_type (mutils st) = NALU_TYPE_IDR"
  define ts where "ts = (if ?slice then nTimeStamp (h264_scratch st) else LLONG_MAX)"
  define fl where "fl = (if ?slice then nFlags (h264_scratch st) else h264_last_au_flags st)"
  have "unit_timestamps st = Some (st\<lparr>pdest_frame := Some d', h264_last_au_ts := ts, h264_last_au_flags := fl\<rparr>)"
    using assms(2) by (cases st) (simp add: unit_timestamps_def with_dest_def d'_def ts_def fl_def)
  moreover have "fl AND 1 = 0" using d by (simp add: fl_def)
  ultimately show ?thesis using d' by blast
qed

lemma submit_dest_ok:
  assumes "\<forall>b. env b = Accepted" "\<not> input_flush_progress st" "pdest_frame st = Some d" "buffer_ok d" "contents d \<noteq> []" "\<not> has_eos d"
  shows "\<exists>d' c. submit_dest env st = Some (OMX_ErrorNone, st\<lparr>submitted := submitted st @ [d'], codec_config_flag := c, pdest_frame := None\<rparr>) \<and>
    contents d' = contents d \<and> \<not> has_eos d'"
proof -
  let ?d = "d\<lparr>nFlags := nFlags d AND NOT QOMX_VIDEO_BUFFERFLAG_EOSEQ\<rparr>"
  have "\<not> has_eos ?d" using assms(6) by (simp add: has_eos_def eoseq_flag)
  moreover have "nFilledLen d \<noteq> 0" using assms(4,5) contents_empty by blast
  ultimately show ?thesis using assms(1-3)
    by (intro exI[of _ ?d] exI[of _ "codec_config_flag st \<and> nFlags ?d AND OMX_BUFFERFLAG_CODECCONFIG \<noteq> 0"])
      (simp add: submit_dest_def with_dest_def empty_this_buffer_proxy_def Let_def)
qed

lemma check_new_frame_ok:
  assumes "buffer_ok (h264_scratch st)" "nOffset (h264_scratch st) = 0"
    "isNewFrame m nal0 (contents (h264_scratch st)) (of_nat (length (contents (h264_scratch st)))) 0 (mutils st) = Some (ret, new, u')"
  shows "check_new_frame m nal0 st = Some (new, st\<lparr>mutils := u'\<rparr>)"
proof -
  let ?sc = "h264_scratch st"
  have "pBuffer ?sc = contents ?sc @ drop (unat (nFilledLen ?sc)) (pBuffer ?sc)" using assms(2) by (simp add: contents_offset0)
  moreover have "of_nat (length (contents ?sc)) = nFilledLen ?sc" using length_contents[OF assms(1)] by simp
  ultimately have "isNewFrame m nal0 (pBuffer ?sc) (nFilledLen ?sc) 0 (mutils st) = Some (ret, new, u')"
    using isNewFrame_longer[OF assms(3), of "drop (unat (nFilledLen ?sc)) (pBuffer ?sc)"] by simp
  then show ?thesis by (simp add: check_new_frame_def)
qed

lemma next_dest_ok:
  assumes "list_all (dest_buffer N) (m_input_free_q st)" "\<And>b. dest_buffer N b \<Longrightarrow> dest_buffer N (f b) \<and> contents (f b) = []"
  shows "\<exists>d q. next_dest f st = st\<lparr>pdest_frame := d, m_input_free_q := q\<rparr> \<and> list_all (dest_buffer N) q \<and>
    (\<forall>b. d = Some b \<longrightarrow> dest_buffer N b \<and> contents b = [])"
proof (cases "m_input_free_q st")
  case Nil
  then show ?thesis by (intro exI[of _ None] exI[of _ "[]"]) (cases st, simp add: next_dest_def)
next
  case (Cons b q)
  then show ?thesis using assms by (intro exI[of _ "Some (f b)"] exI[of _ q]) (simp add: next_dest_def)
qed

lemma free_buffer_reset: "dest_buffer N b \<Longrightarrow> dest_buffer N (b\<lparr>nFilledLen := 0, nFlags := 0, nTimeStamp := ts\<rparr>) \<and>
    contents (b\<lparr>nFilledLen := 0, nFlags := 0, nTimeStamp := ts\<rparr>) = []"
  by (simp add: dest_buffer_def buffer_ok_def contents_def has_eos_def)

text \<open>What a complete unit makes of the frames: they go on, or the next one begins.\<close>

lemma complete_unit_ok:
  assumes "input_ok M N st" "input_at p u us acc fs D st" "\<not> look_ahead_nal st" "psource_frame st = Some s"
    "pdest_frame st = Some d" "\<forall>b. env b = Accepted"
    "if acc = [] then u' = u \<and> \<not> new else isNewFrame m nal0 acc (of_nat (length acc)) 0 u = Some (ret, new, u')"
    "\<not> (new \<and> D \<noteq> []) \<Longrightarrow> length (D @ acc) \<le> N" "length D \<le> N" "us = [] \<Longrightarrow> \<not> has_eos s"
  shows "\<exists>st'. complete_unit m nal0 env st = Some (OMX_ErrorNone, st') \<and> input_ok M N st' \<and>
    (if new \<and> D \<noteq> [] then input_at p u' (us @ [acc]) [] (fs @ [D]) acc st' \<and> look_ahead_nal st'
     else input_at p u' (us @ [acc]) [] fs (D @ acc) st' \<and> \<not> look_ahead_nal st' \<and> pdest_frame st' \<noteq> None) \<and>
    client st' = client st"
proof -
  let ?sc = "h264_scratch st"
  have ok: "buffer_ok ?sc" "nOffset ?sc = 0" "contents ?sc = acc" "mutils st = u" "dest_buffer N d" "contents d = D"
    "\<not> input_flush_progress st" "list_all (dest_buffer N) (m_input_free_q st)"
    using assms(1-5) by (auto simp: input_ok_def no_eos_def input_at_def)
  have e: "nFilledLen ?sc = 0 \<longleftrightarrow> acc = []" using scratch_empty[OF ok(1)] ok(3) by simp
  show ?thesis
  proof (cases "acc = []")
    case True
    then have n: "u' = u" "\<not> new" using assms(7) by auto
    show ?thesis
    proof (cases "nal_count st = 0")
      case True
      then have eos: "nFlags s AND 1 = 0" using assms(2,10) by (simp add: input_at_def has_eos_def)
      have "complete_unit m nal0 env st = Some (OMX_ErrorNone, st\<lparr>nal_count := 1, h264_scratch := ?sc\<lparr>nTimeStamp := nTimeStamp s, nFlags := nFlags s\<rparr>\<rparr>)"
        using True e \<open>acc = []\<close> assms(4) by (simp add: complete_unit_def with_source_def)
      then show ?thesis using assms n \<open>acc = []\<close> ok eos
        by (auto simp: input_ok_def no_eos_def input_at_def client_def buffer_ok_def contents_def has_eos_def)
    next
      case False
      let ?f = "\<lambda>d. if u_nalu_type (mutils st) = NALU_TYPE_EOSEQ then d\<lparr>nFlags := nFlags d OR QOMX_VIDEO_BUFFERFLAG_EOSEQ\<rparr> else d"
      obtain d' where d': "copy_scratch ?f st = Some (OMX_ErrorNone, st\<lparr>pdest_frame := Some (?f d'), h264_scratch := ?sc\<lparr>nFilledLen := 0\<rparr>\<rparr>)"
          "contents d' = D" "dest_buffer N d'"
        using copy_scratch_ok[of st d N ?f] assms(5,9) ok \<open>acc = []\<close> by auto
      have "complete_unit m nal0 env st = copy_scratch ?f st"
        using False e \<open>acc = []\<close> assms(4) by (simp add: complete_unit_def with_source_def)
      moreover have "dest_buffer N (?f d')" "contents (?f d') = D"
        using d' dest_buffer_flags[OF d'(3)] eoseq_flag(1) dest_flags_ok by auto
      ultimately show ?thesis using assms n \<open>acc = []\<close> ok d' False scratch_reset
        by (auto simp: input_ok_def no_eos_def input_at_def client_def has_eos_def)
    qed
  next
    case ne: False
    then have new: "isNewFrame m nal0 acc (of_nat (length acc)) 0 u = Some (ret, new, u')" using assms(7) by simp
    then have ch: "check_new_frame m nal0 st = Some (new, st\<lparr>mutils := u'\<rparr>)"
      using check_new_frame_ok[OF ok(1,2)] ok(3,4) by simp
    let ?st = "st\<lparr>mutils := u', nal_count := nal_count st + 1\<rparr>"
    have "input_ok M N ?st" "pdest_frame ?st = Some d" using assms(1,5) by (simp_all add: input_ok_def no_eos_def)
    from unit_timestamps_ok[OF this] obtain d1 ts fl where d1:
      "unit_timestamps ?st = Some (?st\<lparr>pdest_frame := Some d1, h264_last_au_ts := ts, h264_last_au_flags := fl\<rparr>)"
      "dest_buffer N d1" "contents d1 = D" "fl AND 1 = 0" using ok(6) by auto
    let ?st1 = "?st\<lparr>pdest_frame := Some d1, h264_last_au_ts := ts, h264_last_au_flags := fl\<rparr>"
    let ?f = "\<lambda>d. if u_nalu_type u' = NALU_TYPE_EOSEQ then d\<lparr>nFlags := nFlags d OR QOMX_VIDEO_BUFFERFLAG_EOSEQ\<rparr> else d"
    have run: "complete_unit m nal0 env st = (if \<not> new then copy_scratch ?f ?st1 else new_access_unit env (\<lambda>d. d) ?st1)"
      using e ne assms(4) ch d1(1) by (simp add: complete_unit_def with_source_def)
    have f1: "nFilledLen d1 = 0 \<longleftrightarrow> D = []" using scratch_empty[of d1] d1(2,3) by (simp add: dest_buffer_def)
    show ?thesis
    proof (cases "new \<and> D \<noteq> []")
      case False
      define g :: "omx_buffer \<Rightarrow> omx_buffer" where "g = (if new then (\<lambda>d. d) else ?f)"
      have g: "dest_buffer N (g b)" "contents (g b) = contents b" if "dest_buffer N b" for b
        using that dest_buffer_flags[OF that] eoseq_flag(1) dest_flags_ok by (auto simp: g_def)
      obtain d2 where d2: "copy_scratch g ?st1 = Some (OMX_ErrorNone, ?st1\<lparr>pdest_frame := Some (g d2), h264_scratch := ?sc\<lparr>nFilledLen := 0\<rparr>\<rparr>)"
          "contents d2 = D @ acc" "dest_buffer N d2"
        using copy_scratch_ok[of ?st1 d1 N g] d1 ok(1-3) assms(8) False by auto
      have "?st1\<lparr>look_ahead_nal := False\<rparr> = ?st1" using assms(3) by (cases st) simp
      then have "complete_unit m nal0 env st = copy_scratch g ?st1"
        unfolding run using False f1 assms(4) by (auto simp: new_access_unit_def with_source_def with_dest_def g_def)
      then show ?thesis using assms(1-4) False d1 d2 g[OF d2(3)] ok scratch_reset ne
        by (auto simp: input_ok_def no_eos_def input_at_def client_def has_eos_def)
    next
      case True
      let ?d = "d1\<lparr>nFlags := nFlags d1 AND NOT OMX_BUFFERFLAG_EOS\<rparr>"
      let ?st2 = "?st1\<lparr>look_ahead_nal := True, pdest_frame := Some ?d\<rparr>"
      have dok: "buffer_ok ?d" "contents ?d \<noteq> []" "\<not> has_eos ?d" "contents ?d = D"
        using d1 True by (auto simp: dest_buffer_def buffer_ok_def has_eos_def eoseq_flag)
      have "\<not> input_flush_progress ?st2" using ok by simp
      from submit_dest_ok[OF assms(6) this _ dok(1-3)] obtain d2 c where d2:
        "submit_dest env ?st2 = Some (OMX_ErrorNone, ?st2\<lparr>submitted := submitted st @ [d2], codec_config_flag := c, pdest_frame := None\<rparr>)"
        "contents d2 = D" "\<not> has_eos d2" using dok(4) by auto
      let ?st3 = "?st2\<lparr>submitted := submitted st @ [d2], codec_config_flag := c, pdest_frame := None\<rparr>"
      have "list_all (dest_buffer N) (m_input_free_q ?st3)" using ok(8) by simp
      from next_dest_ok[OF this, of "\<lambda>b. b\<lparr>nFilledLen := 0, nFlags := 0, nTimeStamp := LLONG_MAX\<rparr>"] free_buffer_reset obtain d3 q where d3:
        "next_dest (\<lambda>b. b\<lparr>nFilledLen := 0, nFlags := 0, nTimeStamp := LLONG_MAX\<rparr>) ?st3 = ?st3\<lparr>pdest_frame := d3, m_input_free_q := q\<rparr>"
        "list_all (dest_buffer N) q" "\<forall>b. d3 = Some b \<longrightarrow> dest_buffer N b \<and> contents b = []" by blast
      have "complete_unit m nal0 env st = Some (OMX_ErrorNone, ?st3\<lparr>pdest_frame := d3, m_input_free_q := q\<rparr>)"
        unfolding run using True f1 assms(4) e ne d2(1) d3(1)
        by (simp add: new_access_unit_def with_source_def with_dest_def andthen_def)
      then show ?thesis using assms(1-4) True d1 d2 d3 ok ne
        by (auto simp: input_ok_def no_eos_def input_at_def client_def)
    qed
  qed
qed

section \<open>A stream that fits\<close>

definition units_of :: "byte list list \<Rightarrow> byte list list" where
  "units_of us = filter (\<lambda>u. u \<noteq> []) us"

lemma units_of_simps [simp]: "units_of [] = []" "units_of (us @ vs) = units_of us @ units_of vs"
  "units_of [[]] = []" "u \<noteq> [] \<Longrightarrow> units_of [u] = [u]" "list_all (\<lambda>u. u \<noteq> []) (units_of us)"
  by (simp_all add: units_of_def list_all_iff)

text \<open>
  The scratch buffer of \<open>M\<close> bytes has room for every unit and two start codes, the buffers of the driver have
  room for every frame, and the detection of frames stays within the memory of the units.
\<close>

definition stream_fits :: "isa \<Rightarrow> nalu \<Rightarrow> nat \<Rightarrow> nat \<Rightarrow> frame_parser \<Rightarrow> h264_utils \<Rightarrow> byte list \<Rightarrow> bool" where
  "stream_fits m nal0 M N p0 u0 X \<longleftrightarrow> (\<exists>us p acc news u. cut H264_start_code p0 [] X = (us, p, acc) \<and>
     (\<forall>x \<in> set (us @ [acc]). length x + 8 \<le> M) \<and>
     frame_starts m nal0 (units_of (us @ [acc])) u0 = Some (news, u) \<and>
     (\<forall>f \<in> set (fst (group_units news (units_of (us @ [acc])) []) @ [snd (group_units news (units_of (us @ [acc])) [])]). length f \<le> N))"

definition follows :: "isa \<Rightarrow> nalu \<Rightarrow> frame_parser \<Rightarrow> h264_utils \<Rightarrow> byte list \<Rightarrow> omx_vdec \<Rightarrow> bool" where
  "follows m nal0 p0 u0 Y st \<longleftrightarrow> (\<exists>us p acc news u fs D. cut H264_start_code p0 [] Y = (us, p, acc) \<and>
     frame_starts m nal0 (units_of us) u0 = Some (news, u) \<and> group_units news (units_of us) [] = (fs, D) \<and>
     input_at p u us acc fs D st)"

lemma cut_acc_prefix: "cut c p acc zs = (vs, q, a) \<Longrightarrow> \<exists>t. hd (vs @ [a]) = acc @ t"
proof (cases zs)
  case (Cons b bs)
  assume c: "cut c p acc zs = (vs, q, a)"
  obtain p' out rest where s: "scan c (begun p) zs = (p', out, rest)" by (cases "scan c (begun p) zs")
  show ?thesis using c cut_found[OF s] cut_partial[OF s] Cons by (cases "found p'") (auto split: prod.splits)
qed simp

lemma cut_parser_ok: "cut c p acc zs = (vs, q, a) \<Longrightarrow> parser_ok c p \<Longrightarrow> parser_ok c q"
proof (induction c p acc zs arbitrary: vs q a rule: cut.induct)
  case (2 c p acc b bs)
  obtain p' out rest where s: "scan c (begun p) (b # bs) = (p', out, rest)" by (cases "scan c (begun p) (b # bs)")
  have "parser_ok c p'" using scan_keeps[OF begun_ok(1)[OF 2(3)] s] by simp
  then show ?case using 2(1)[OF s[symmetric] refl] 2(2) cut_found[OF s] cut_partial[OF s]
    by (cases "found p'") (auto split: prod.splits)
qed simp

lemma group_acc_prefix: "group_units news us d = (fs, d') \<Longrightarrow> \<exists>t. hd (fs @ [d']) = d @ t"
  by (induction news us d arbitrary: fs d' rule: group_units.induct) (fastforce split: if_splits prod.splits)+

lemma frame_starts_append_Some:
  "frame_starts m nal0 (xs @ ys) u = Some (ns, u'') \<longleftrightarrow> (\<exists>as u' bs. frame_starts m nal0 xs u = Some (as, u') \<and>
    frame_starts m nal0 ys u' = Some (bs, u'') \<and> ns = as @ bs)"
  by (auto simp: frame_starts_append split: bind_splits)

text \<open>What fits as a whole fits at every place of it.\<close>

lemma fits_prefix:
  assumes "stream_fits m nal0 M N p0 u0 (Y @ Z)" "cut H264_start_code p0 [] Y = (us, p, acc)"
  shows "\<exists>news u fs D. frame_starts m nal0 (units_of us) u0 = Some (news, u) \<and> group_units news (units_of us) [] = (fs, D) \<and>
    (\<forall>x \<in> set (us @ [acc]). length x + 8 \<le> M) \<and> (\<forall>f \<in> set (fs @ [D]). length f \<le> N)"
proof -
  obtain vs q a where Z: "cut H264_start_code p acc Z = (vs, q, a)" by (cases "cut H264_start_code p acc Z")
  then have X: "cut H264_start_code p0 [] (Y @ Z) = (us @ vs, q, a)" using assms(2) by (simp add: cut_append)
  obtain ns u' where ns: "\<forall>x \<in> set ((us @ vs) @ [a]). length x + 8 \<le> M"
      "frame_starts m nal0 (units_of us @ units_of (vs @ [a])) u0 = Some (ns, u')"
      "\<forall>f \<in> set (fst (group_units ns (units_of us @ units_of (vs @ [a])) []) @ [snd (group_units ns (units_of us @ units_of (vs @ [a])) [])]). length f \<le> N"
    using assms(1) unfolding stream_fits_def X by auto
  obtain as u bs where s: "frame_starts m nal0 (units_of us) u0 = Some (as, u)" "frame_starts m nal0 (units_of (vs @ [a])) u = Some (bs, u')"
      "ns = as @ bs" using ns(2) unfolding frame_starts_append_Some by blast
  obtain fs D where g: "group_units as (units_of us) [] = (fs, D)" by (cases "group_units as (units_of us) []")
  obtain gs D' where g': "group_units bs (units_of (vs @ [a])) D = (gs, D')" by (cases "group_units bs (units_of (vs @ [a])) D")
  have gX: "group_units ns (units_of us @ units_of (vs @ [a])) [] = (fs @ gs, D')"
    unfolding s(3) using group_units_append[OF frame_starts_length[OF s(1)], of bs "units_of (vs @ [a])" "[]"] g g' by simp
  obtain t where t: "hd (gs @ [D']) = D @ t" using group_acc_prefix[OF g'] by blast
  have "hd (gs @ [D']) \<in> set (gs @ [D'])" by (intro hd_in_set) simp
  then have D: "length D \<le> N" using ns(3) t unfolding gX by (cases gs) auto
  obtain t' where t': "hd (vs @ [a]) = acc @ t'" using cut_acc_prefix[OF Z] by blast
  have "hd (vs @ [a]) \<in> set (vs @ [a])" by (intro hd_in_set) simp
  then have acc: "length acc + 8 \<le> M" using ns(1) t' by (cases vs) auto
  show ?thesis using s(1) g D acc ns(1,3) unfolding gX by auto
qed

section \<open>One push\<close>

definition source_ok :: "omx_buffer \<Rightarrow> bool" where
  "source_ok s \<longleftrightarrow> buffer_ok s \<and> \<not> has_eos s \<and> contents s \<noteq> []"

lemma return_source_ok:
  assumes "psource_frame st = Some s"
  shows "\<exists>st'. return_source st = Some (OMX_ErrorNone, st') \<and> (input_ok M N st \<longrightarrow> input_ok M N st') \<and>
    (input_at p u us acc fs D st \<longrightarrow> input_at p u us acc fs D st') \<and> returned st' = returned st @ [s] \<and>
    pdest_frame st' = pdest_frame st \<and>
    (case m_input_pending_q st of [] \<Rightarrow> psource_frame st' = None \<and> m_input_pending_q st' = []
     | b # q \<Rightarrow> psource_frame st' = Some b \<and> m_input_pending_q st' = q)"
  using assms
  by (cases "m_input_pending_q st")
    (auto simp: return_source_def with_source_def next_source_def EmptyBufferDone_def input_ok_def no_eos_def input_at_def)

lemma complete_answer:
  assumes "frame_starts m nal0 (units_of (us @ [unit])) u0 = Some (news', u')"
    "frame_starts m nal0 (units_of us) u0 = Some (news, u)"
  shows "\<exists>ret new. (if unit = [] then u' = u \<and> \<not> new \<and> news' = news
    else isNewFrame m nal0 unit (of_nat (length unit)) 0 u = Some (ret, new, u') \<and> news' = news @ [new])"
proof (cases "unit = []")
  case True
  then show ?thesis using assms by auto
next
  case False
  then obtain bs where bs: "frame_starts m nal0 [unit] u = Some (bs, u')" "news' = news @ bs"
    using assms unfolding units_of_simps(2) frame_starts_append_Some by auto
  then show ?thesis using False by (auto split: bind_splits)
qed

lemma group_one: "group_units [new] [unit] D = (if new \<and> D \<noteq> [] then ([D], unit) else ([], D @ unit))"
  by simp

lemma push_h264_ok:
  assumes "stream_fits m nal0 M N p0 u0 (Y @ contents s @ R)" "follows m nal0 p0 u0 Y st" "input_ok M N st"
    "psource_frame st = Some s" "source_ok s" "pdest_frame st \<noteq> None" "\<forall>b. env b = Accepted" "parser_ok H264_start_code p0"
  shows "\<exists>st' Y1 Y2. contents s = Y1 @ Y2 \<and> Y1 \<noteq> [] \<and> push_input_h264 m nal0 env st = Some (OMX_ErrorNone, st') \<and>
    input_ok M N st' \<and> follows m nal0 p0 u0 (Y @ Y1) st' \<and>
    (if Y2 \<noteq> [] then (\<exists>s'. psource_frame st' = Some s' \<and> source_ok s' \<and> contents s' = Y2) \<and>
       m_input_pending_q st' = m_input_pending_q st \<and> returned st' = returned st
     else (case m_input_pending_q st of [] \<Rightarrow> psource_frame st' = None \<and> m_input_pending_q st' = []
       | b # q \<Rightarrow> psource_frame st' = Some b \<and> m_input_pending_q st' = q) \<and> length (returned st') = length (returned st) + 1)"
proof -
  obtain us p acc news u fs D where f: "cut H264_start_code p0 [] Y = (us, p, acc)"
      "frame_starts m nal0 (units_of us) u0 = Some (news, u)" "group_units news (units_of us) [] = (fs, D)"
      "input_at p u us acc fs D st"
    using assms(2) unfolding follows_def by blast
  obtain d where d: "pdest_frame st = Some d" using assms(6) by auto
  have bound: "length D \<le> N" using fits_prefix[OF assms(1) f(1)] f(2,3) by auto
  obtain st1 d1 where st1: "copy_look_ahead (\<lambda>d. d) st = Some (OMX_ErrorNone, st1)" "input_ok M N st1"
      "input_at p u us acc fs D st1" "\<not> look_ahead_nal st1" "client st1 = client st" "pdest_frame st1 = Some d1" "contents d1 = D"
    using look_ahead_ok[OF assms(3) f(4) d bound] by blast
  have s1: "psource_frame st1 = Some s" using st1(5) assms(4) by (simp add: client_def)
  obtain p' out rest where sc: "scan H264_start_code (begun p) (contents s) = (p', out, rest)"
    by (cases "scan H264_start_code (begun p) (contents s)")
  have pok: "parser_ok H264_start_code p" using cut_parser_ok[OF f(1) assms(8)] .
  obtain Y1 where Y1: "contents s = Y1 @ rest" "scan H264_start_code (begun p) Y1 = (p', out, [])" using scan_prefix[OF sc] by blast
  have sne: "contents s \<noteq> []" "buffer_ok s" "\<not> has_eos s" using assms(5) by (auto simp: source_ok_def)
  have Y1ne: "Y1 \<noteq> []" using scan_rest[OF sc] sne(1) Y1(1) by auto
  let ?unit = "acc @ frame_header H264_start_code p @ out"
  have cutY1: "cut H264_start_code p acc Y1 = (if found p' then ([?unit], p', []) else ([], p', ?unit))"
    using cut_found[OF Y1(2) _ Y1ne] cut_partial[OF Y1(2) _ Y1ne] by simp
  then have cutY: "cut H264_start_code p0 [] (Y @ Y1) = (if found p' then us @ [?unit] else us, p', if found p' then [] else ?unit)"
    using f(1) by (simp add: cut_append)
  have X: "Y @ contents s @ R = (Y @ Y1) @ rest @ R" using Y1(1) by simp
  have ulen: "length ?unit + 8 \<le> M"
    using fits_prefix[OF assms(1)[unfolded X] cutY] by (auto split: if_splits)
  obtain st2 s2 where st2: "parse_to_scratch st1 = Some (OMX_ErrorNone, if found p' then 0 else 1, st2)" "input_ok M N st2"
      "input_at p' u us ?unit fs D st2" "\<not> look_ahead_nal st2" "psource_frame st2 = Some s2" "buffer_ok s2" "\<not> has_eos s2"
      "contents s2 = rest" "m_input_pending_q st2 = m_input_pending_q st1" "returned st2 = returned st1" "pdest_frame st2 = Some d1"
    using parse_ok[OF st1(2,3,4) s1 sne(2,3,1) pok sc ulen] st1(6) by auto
  have "\<exists>st3. (if found p' then complete_unit m nal0 env st2 else scratch_full st2) = Some (OMX_ErrorNone, st3) \<and>
    input_ok M N st3 \<and> follows m nal0 p0 u0 (Y @ Y1) st3 \<and> client st3 = client st2"
  proof (cases "found p'")
    case False
    have "length (contents (h264_scratch st2)) + 8 \<le> unat (nAllocLen (h264_scratch st2))" "buffer_ok (h264_scratch st2)" "nOffset (h264_scratch st2) = 0"
      using st2(2,3,4) ulen by (auto simp: input_ok_def no_eos_def input_at_def)
    then have "nAllocLen (h264_scratch st2) \<noteq> nFilledLen (h264_scratch st2) + nOffset (h264_scratch st2)"
      using length_contents[of "h264_scratch st2"] by auto
    then have "scratch_full st2 = Some (OMX_ErrorNone, st2)" by (simp add: scratch_full_def Let_def)
    moreover have "follows m nal0 p0 u0 (Y @ Y1) st2"
      unfolding follows_def using cutY False f(2,3) st2(3)
      by (intro exI[of _ us] exI[of _ p'] exI[of _ ?unit] exI[of _ news] exI[of _ u] exI[of _ fs] exI[of _ D]) simp
    ultimately show ?thesis using False st2(2) by auto
  next
    case True
    then have cY: "cut H264_start_code p0 [] (Y @ Y1) = (us @ [?unit], p', [])" using cutY by simp
    obtain news' u' fs' D' where n: "frame_starts m nal0 (units_of (us @ [?unit])) u0 = Some (news', u')"
        "group_units news' (units_of (us @ [?unit])) [] = (fs', D')" "\<forall>f\<in>set (fs' @ [D']). length f \<le> N"
      using fits_prefix[OF assms(1)[unfolded X] cY] by blast
    obtain ret new where a: "if ?unit = [] then u' = u \<and> \<not> new \<and> news' = news
        else isNewFrame m nal0 ?unit (of_nat (length ?unit)) 0 u = Some (ret, new, u') \<and> news' = news @ [new]"
      using complete_answer[OF n(1) f(2)] by blast
    have g: "(fs', D') = (if new \<and> D \<noteq> [] then (fs @ [D], ?unit) else (fs, D @ ?unit))"
    proof (cases "?unit = []")
      case True
      then show ?thesis using a n(2) f(3) by auto
    next
      case False
      then have "units_of (us @ [?unit]) = units_of us @ [?unit]" "news' = news @ [new]"
        using a units_of_simps(4)[OF False] by simp_all
      then show ?thesis
        using n(2) group_units_append[OF frame_starts_length[OF f(2)], of "[new]" "[?unit]" "[]"] f(3) by (auto split: if_splits)
    qed
    have fitD: "\<not> (new \<and> D \<noteq> []) \<Longrightarrow> length (D @ ?unit) \<le> N" using n(3) g by (auto split: if_splits)
    have ans: "if ?unit = [] then u' = u \<and> \<not> new else isNewFrame m nal0 ?unit (of_nat (length ?unit)) 0 u = Some (ret, new, u')"
      using a by (auto split: if_splits)
    obtain st3 where st3: "complete_unit m nal0 env st2 = Some (OMX_ErrorNone, st3)" "input_ok M N st3" "client st3 = client st2"
        "if new \<and> D \<noteq> [] then input_at p' u' (us @ [?unit]) [] (fs @ [D]) ?unit st3 \<and> look_ahead_nal st3
         else input_at p' u' (us @ [?unit]) [] fs (D @ ?unit) st3 \<and> \<not> look_ahead_nal st3 \<and> pdest_frame st3 \<noteq> None"
      using complete_unit_ok[OF st2(2,3,4,5,11) assms(7) ans fitD bound st2(7)] by blast
    have "input_at p' u' (us @ [?unit]) [] fs' D' st3" using st3(4) g by (auto split: if_splits)
    then have "follows m nal0 p0 u0 (Y @ Y1) st3" unfolding follows_def using cY n(1,2) by blast
    then show ?thesis using True st3 by auto
  qed
  then obtain st3 where st3: "(if found p' then complete_unit m nal0 env st2 else scratch_full st2) = Some (OMX_ErrorNone, st3)"
    "input_ok M N st3" "follows m nal0 p0 u0 (Y @ Y1) st3" "client st3 = client st2" by blast
  have s3: "psource_frame st3 = Some s2" "m_input_pending_q st3 = m_input_pending_q st" "returned st3 = returned st"
    using st3(4) st2(5,9,10) st1(5) by (auto simp: client_def)
  have run: "push_input_h264 m nal0 env st = (if nFilledLen s2 \<noteq> 0 then Some (OMX_ErrorNone, st3) else return_source st3)"
    using scratch_memory[OF assms(3)] st1(1,6) s1 st2(1,7) st3(1) s3(1) sne(3)
    by (cases "found p'") (simp_all add: push_input_h264_def andthen_def with_source_def with_dest_def Let_def)
  show ?thesis
  proof (cases "rest = []")
    case False
    then have "nFilledLen s2 \<noteq> 0" using contents_empty[OF st2(6)] st2(8) by simp
    then show ?thesis using run False Y1 Y1ne st2(6-8) st3(2,3) s3
      by (intro exI[of _ st3] exI[of _ Y1] exI[of _ rest]) (simp add: source_ok_def)
  next
    case True
    then have z: "nFilledLen s2 = 0" using contents_empty[OF st2(6)] st2(8) by simp
    obtain st4 where st4: "return_source st3 = Some (OMX_ErrorNone, st4)" "input_ok M N st4" "follows m nal0 p0 u0 (Y @ Y1) st4"
        "returned st4 = returned st3 @ [s2]" "case m_input_pending_q st3 of [] \<Rightarrow> psource_frame st4 = None \<and> m_input_pending_q st4 = []
     | b # q \<Rightarrow> psource_frame st4 = Some b \<and> m_input_pending_q st4 = q"
      using return_source_ok[OF s3(1), of M N] st3(2,3) unfolding follows_def by metis
    then show ?thesis using run z True Y1 Y1ne s3
      by (intro exI[of _ st4] exI[of _ Y1] exI[of _ rest]) simp
  qed
qed

end
