(* ===== verification/InputRun.thy ===== *)
theory InputRun
  imports InputH264
begin

unbundle bit_operations_syntax

text \<open>
  Whole runs of the input side for H.264: the client sends the stream in buffers and then an empty
  one that ends it, the driver returns its buffers at any time.
\<close>

section \<open>Sources that wait\<close>

definition sources :: "omx_vdec \<Rightarrow> omx_buffer list" where
  "sources st = (case psource_frame st of None \<Rightarrow> [] | Some s \<Rightarrow> [s]) @ m_input_pending_q st"

definition remaining :: "omx_vdec \<Rightarrow> byte list" where
  "remaining st = concat (map contents (sources st))"

definition eos_source :: "omx_buffer \<Rightarrow> bool" where
  "eos_source s \<longleftrightarrow> buffer_ok s \<and> has_eos s \<and> contents s = []"

text \<open>Parts of the stream, and the end of it behind them.\<close>

fun sources_ok :: "omx_buffer list \<Rightarrow> bool" where
  "sources_ok [] = False"
| "sources_ok (s # ss) \<longleftrightarrow> (if ss = [] then eos_source s else source_ok s \<and> sources_ok ss)"

text \<open>The sources that wait and those to come, \<open>cs\<close>: parts of the stream and the end of it.\<close>

definition queue_ok :: "omx_buffer list \<Rightarrow> omx_vdec \<Rightarrow> bool" where
  "queue_ok cs st \<longleftrightarrow> sources_ok (sources st @ cs) \<and> (psource_frame st = None \<longrightarrow> m_input_pending_q st = [])"

lemma push_loop_turn: "pdest_frame st \<noteq> None \<Longrightarrow> psource_frame st \<noteq> None \<Longrightarrow> codec_type_parse st = CODEC_TYPE_H264 \<Longrightarrow>
  push_input_h264 m nal0 env st = Some (OMX_ErrorNone, st') \<Longrightarrow> push_loop m nal0 env st = push_loop m nal0 env st'"
  by (subst push_loop.simps) (simp add: push_input_def)

lemma push_loop_end: "pdest_frame st = None \<or> psource_frame st = None \<Longrightarrow> push_loop m nal0 env st = Some (OMX_ErrorNone, st)"
  by (subst push_loop.simps) auto

text \<open>The loop up to the point where it ends or comes to the end of the stream.\<close>

definition at_end :: "omx_vdec \<Rightarrow> bool" where
  "at_end st \<longleftrightarrow> (\<exists>s. psource_frame st = Some s \<and> eos_source s) \<and> m_input_pending_q st = []"

lemma push_loop_data:
  assumes "stream_fits m nal0 M N p0 u0 (Y @ remaining st @ R)" "follows m nal0 p0 u0 Y st" "input_ok M N st" "queue_ok cs st"
    "\<forall>b. env b = Accepted" "parser_ok H264_start_code p0"
  shows "\<exists>st' Y'. push_loop m nal0 env st = push_loop m nal0 env st' \<and> follows m nal0 p0 u0 Y' st' \<and> input_ok M N st' \<and> queue_ok cs st' \<and>
    Y' @ remaining st' = Y @ remaining st \<and> length (sources st') \<le> length (sources st) \<and>
    (pdest_frame st' = None \<or> psource_frame st' = None \<or> at_end st' \<and> cs = [])"
  using assms(1-4)
proof (induction "length (remaining st)" arbitrary: st Y rule: less_induct)
  case less
  show ?case
  proof (cases "pdest_frame st = None \<or> psource_frame st = None \<or> at_end st \<and> cs = []")
    case True
    then show ?thesis using less.prems by (intro exI[of _ st] exI[of _ Y]) simp
  next
    case False
    then obtain s where s: "psource_frame st = Some s" "pdest_frame st \<noteq> None" by auto
    have so: "source_ok s" using less.prems(4) False s(1) by (auto simp: queue_ok_def sources_def at_end_def split: if_splits)
    have rem: "remaining st = contents s @ concat (map contents (m_input_pending_q st))" using s(1) by (simp add: remaining_def sources_def)
    then have "stream_fits m nal0 M N p0 u0 (Y @ contents s @ concat (map contents (m_input_pending_q st)) @ R)" using less.prems(1) by simp
    from push_h264_ok[OF this less.prems(2,3) s(1) so s(2) assms(5,6)] obtain st1 Y1 Y2 where st1: "contents s = Y1 @ Y2" "Y1 \<noteq> []"
      "push_input_h264 m nal0 env st = Some (OMX_ErrorNone, st1)" "input_ok M N st1" "follows m nal0 p0 u0 (Y @ Y1) st1"
      "if Y2 \<noteq> [] then (\<exists>s'. psource_frame st1 = Some s' \<and> source_ok s' \<and> contents s' = Y2) \<and>
         m_input_pending_q st1 = m_input_pending_q st \<and> returned st1 = returned st
       else (case m_input_pending_q st of [] \<Rightarrow> psource_frame st1 = None \<and> m_input_pending_q st1 = []
         | b # q \<Rightarrow> psource_frame st1 = Some b \<and> m_input_pending_q st1 = q) \<and> length (returned st1) = length (returned st) + 1" by blast
    have rem1: "remaining st1 = Y2 @ concat (map contents (m_input_pending_q st))" "length (sources st1) \<le> length (sources st)"
      using st1(6) s(1) by (cases "Y2 = []"; cases "m_input_pending_q st"; auto simp: remaining_def sources_def)+
    have q1: "queue_ok cs st1"
      using st1(6) less.prems(4) s(1) so
      by (cases "Y2 = []"; cases "m_input_pending_q st") (auto simp: queue_ok_def sources_def source_ok_def eos_source_def split: if_splits)
    have "push_loop m nal0 env st = push_loop m nal0 env st1"
      using s less.prems(3) st1(3) by (intro push_loop_turn) (auto simp: input_ok_def)
    moreover have "length (remaining st1) < length (remaining st)" using rem rem1 st1(1,2) by simp
    moreover have "(Y @ Y1) @ remaining st1 = Y @ remaining st" using rem rem1 st1(1) by simp
    moreover have "stream_fits m nal0 M N p0 u0 ((Y @ Y1) @ remaining st1 @ R)"
      using less.prems(1) rem rem1 st1(1) by simp
    ultimately show ?thesis using less.hyps[of st1 "Y @ Y1"] st1(4,5) q1 rem1(2) by (metis le_trans)
  qed
qed

section \<open>The end of the stream\<close>

lemma isNewFrame_nothing: "2 \<le> length buf \<Longrightarrow> \<exists>u'. isNewFrame m nal0 buf 0 0 u = Some (False, False, u')"
  by (cases buf) (simp_all add: isNewFrame_def extract_rbsp_def find_prefix.simps rd_def Suc_le_eq)

text \<open>All is submitted but the end of the stream, or that as well.\<close>

definition data_done :: "byte list list \<Rightarrow> omx_vdec \<Rightarrow> bool" where
  "data_done frames st \<longleftrightarrow> map contents (submitted st) = frames \<and> contents (h264_scratch st) = [] \<and>
     nal_count st \<noteq> 0 \<and> (\<exists>s. psource_frame st = Some s \<and> eos_source s) \<and> m_input_pending_q st = [] \<and>
     (\<forall>d. pdest_frame st = Some d \<longrightarrow> contents d = [])"

definition stream_done :: "byte list list \<Rightarrow> omx_vdec \<Rightarrow> bool" where
  "stream_done frames st \<longleftrightarrow> (\<exists>bs b. submitted st = bs @ [b] \<and> has_eos b \<and> list_all (\<lambda>b. \<not> has_eos b) bs \<and>
     filter (\<lambda>f. f \<noteq> []) (map contents (submitted st)) = frames) \<and> psource_frame st = None \<and> m_input_pending_q st = []"

text \<open>An empty source that ends the stream is parsed without an effect.\<close>

lemma parse_eos:
  assumes "v_nal_length st = 0" "psource_frame st = Some s" "eos_source s"
  shows "parse_to_scratch st = Some (OMX_ErrorNone, 0, st)"
proof -
  have "nFilledLen s = 0" "has_eos s" using assms(3) contents_empty by (auto simp: eos_source_def)
  then show ?thesis using assms(1,2)
    by (cases st) (simp add: parse_to_scratch_def with_source_def parse_sc_frame_def)
qed

lemma push_eos_run:
  assumes "input_ok M N st" "copy_look_ahead (\<lambda>d. d) st = Some (OMX_ErrorNone, st1)" "input_ok M N st1"
    "psource_frame st1 = Some s" "eos_source s" "pdest_frame st1 = Some d"
    "complete_unit m nal0 env st1 = Some (OMX_ErrorNone, st2)" "psource_frame st2 = Some s"
  shows "push_input_h264 m nal0 env st = end_of_stream m nal0 env (contents d = []) st2"
proof -
  have s: "nFilledLen s = 0" "has_eos s" using assms(5) contents_empty by (auto simp: eos_source_def)
  have "nFilledLen d = 0 \<longleftrightarrow> contents d = []" using assms(3,6) contents_empty by (auto simp: input_ok_def no_eos_def dest_buffer_def)
  moreover have "parse_to_scratch st1 = Some (OMX_ErrorNone, 0, st1)"
    using parse_eos[OF _ assms(4,5)] assms(3) by (simp add: input_ok_def no_eos_def)
  ultimately show ?thesis using scratch_memory[OF assms(1)] assms(2,4,6-8) s
    by (simp add: push_input_h264_def andthen_def with_source_def with_dest_def Let_def)
qed

text \<open>What \<open>last_unit\<close> does if the scratch buffer is empty, or if the destination is.\<close>

lemma last_unit_nothing:
  assumes "input_ok M N st" "pdest_frame st = Some d" "contents (h264_scratch st) = []" "length (contents d) \<le> N"
  shows "\<exists>d' u'. last_unit m nal0 g st = Some (OMX_ErrorNone, g, st\<lparr>pdest_frame := Some d', mutils := u',
      h264_scratch := (h264_scratch st)\<lparr>nFilledLen := 0\<rparr>\<rparr>) \<and> contents d' = contents d \<and> dest_buffer N d'"
proof -
  have ok: "buffer_ok (h264_scratch st)" "nOffset (h264_scratch st) = 0" "dest_buffer N d"
    using assms(1,2) by (auto simp: input_ok_def no_eos_def)
  have z: "nFilledLen (h264_scratch st) = 0" using contents_empty[OF ok(1)] assms(3) by simp
  show ?thesis
  proof (cases "nFilledLen d = 0")
    case True
    let ?f = "\<lambda>d. d\<lparr>nTimeStamp := nTimeStamp (h264_scratch st)\<rparr>"
    obtain d' where d': "copy_scratch ?f st = Some (OMX_ErrorNone, st\<lparr>pdest_frame := Some (?f d'), h264_scratch := (h264_scratch st)\<lparr>nFilledLen := 0\<rparr>\<rparr>)"
        "contents d' = contents d" "dest_buffer N d'"
      using copy_scratch_ok[OF assms(2) ok(3,1,2), of ?f] assms(3,4) by auto
    have "last_unit m nal0 g st = Some (OMX_ErrorNone, g, st\<lparr>pdest_frame := Some (?f d'), h264_scratch := (h264_scratch st)\<lparr>nFilledLen := 0\<rparr>\<rparr>)"
      using True z assms(2) d'(1) by (simp add: last_unit_def with_dest_def)
    then show ?thesis using d'(2,3) by (intro exI[of _ "?f d'"] exI[of _ "mutils st"]) (cases st, simp)
  next
    case False
    have "2 \<le> length (pBuffer (h264_scratch st))" using assms(1) by (auto simp: input_ok_def no_eos_def buffer_ok_def)
    from isNewFrame_nothing[OF this] obtain u' where u': "isNewFrame m nal0 (pBuffer (h264_scratch st)) 0 0 (mutils st) = Some (False, False, u')" by blast
    let ?st = "st\<lparr>mutils := u'\<rparr>"
    let ?f = "\<lambda>d. if h264_last_au_ts st \<noteq> LLONG_MAX then d\<lparr>nTimeStamp := h264_last_au_ts st\<rparr> else d"
    obtain d' where d': "copy_scratch ?f ?st = Some (OMX_ErrorNone, ?st\<lparr>pdest_frame := Some (?f d'), h264_scratch := (h264_scratch st)\<lparr>nFilledLen := 0\<rparr>\<rparr>)"
        "contents d' = contents d" "dest_buffer N d'"
      using copy_scratch_ok[of ?st d N ?f] assms(2-4) ok by auto
    have "last_unit m nal0 g st = Some (OMX_ErrorNone, g, ?st\<lparr>pdest_frame := Some (?f d'), h264_scratch := (h264_scratch st)\<lparr>nFilledLen := 0\<rparr>\<rparr>)"
      using False z assms(2) d'(1) u'
      by (cases "h264_last_au_ts st = LLONG_MAX") (simp_all add: last_unit_def with_dest_def check_new_frame_def)
    then show ?thesis using d'(2,3) by (intro exI[of _ "?f d'"] exI[of _ u']) (cases st, simp)
  qed
qed

lemma last_unit_copied:
  assumes "input_ok M N st" "pdest_frame st = Some d" "contents d = []" "length (contents (h264_scratch st)) \<le> N"
  shows "\<exists>d'. last_unit m nal0 g st = Some (OMX_ErrorNone, g, st\<lparr>pdest_frame := Some d', mutils := mutils st,
      h264_scratch := (h264_scratch st)\<lparr>nFilledLen := 0\<rparr>\<rparr>) \<and> contents d' = contents (h264_scratch st) \<and> dest_buffer N d'"
proof -
  have ok: "buffer_ok (h264_scratch st)" "nOffset (h264_scratch st) = 0" "dest_buffer N d"
    using assms(1,2) by (auto simp: input_ok_def no_eos_def)
  have z: "nFilledLen d = 0" using contents_empty[of d] ok(3) assms(3) by (simp add: dest_buffer_def)
  let ?f = "\<lambda>d. d\<lparr>nTimeStamp := nTimeStamp (h264_scratch st)\<rparr>"
  obtain d' where d': "copy_scratch ?f st = Some (OMX_ErrorNone, st\<lparr>pdest_frame := Some (?f d'), h264_scratch := (h264_scratch st)\<lparr>nFilledLen := 0\<rparr>\<rparr>)"
      "contents d' = contents (h264_scratch st)" "dest_buffer N d'"
    using copy_scratch_ok[OF assms(2) ok(3,1,2), of ?f] assms(3,4) by auto
  have "nFilledLen (h264_scratch st) \<le> nAllocLen d - nFilledLen d"
    using assms(4) ok(1,3) length_contents[OF ok(1)] z by (simp add: dest_buffer_def word_le_nat_alt)
  then have "last_unit m nal0 g st = Some (OMX_ErrorNone, g, st\<lparr>pdest_frame := Some (?f d'), h264_scratch := (h264_scratch st)\<lparr>nFilledLen := 0\<rparr>\<rparr>)"
    using z assms(2) d'(1) by (simp add: last_unit_def with_dest_def)
  then show ?thesis using d'(2,3) by (intro exI[of _ "?f d'"]) (cases st, simp)
qed

lemma end_data:
  assumes "input_ok M N st" "psource_frame st = Some s" "pdest_frame st = Some d" "\<forall>b. env b = Accepted"
    "last_unit m nal0 False st = Some (OMX_ErrorNone, False, st\<lparr>pdest_frame := Some d', mutils := u',
      h264_scratch := (h264_scratch st)\<lparr>nFilledLen := 0\<rparr>\<rparr>)" "contents d' \<noteq> []" "dest_buffer N d'"
  shows "\<exists>st'. end_of_stream m nal0 env False st = Some (OMX_ErrorNone, st') \<and> input_ok M N st' \<and>
    map contents (submitted st') = map contents (submitted st) @ [contents d'] \<and> contents (h264_scratch st') = [] \<and>
    nal_count st' = nal_count st \<and> psource_frame st' = Some s \<and> m_input_pending_q st' = m_input_pending_q st \<and> pdest_frame st' = None"
proof -
  let ?st = "st\<lparr>pdest_frame := Some d', mutils := u', h264_scratch := (h264_scratch st)\<lparr>nFilledLen := 0\<rparr>\<rparr>"
  have d: "buffer_ok d'" "\<not> has_eos d'" using assms(7) by (auto simp: dest_buffer_def)
  have "\<not> input_flush_progress ?st" using assms(1) by (simp add: input_ok_def no_eos_def)
  from submit_dest_ok[OF assms(4) this _ d(1) assms(6) d(2)] obtain b c where b:
    "submit_dest env ?st = Some (OMX_ErrorNone, ?st\<lparr>submitted := submitted st @ [b], codec_config_flag := c, pdest_frame := None\<rparr>)"
    "contents b = contents d'" "\<not> has_eos b" by auto
  let ?st' = "?st\<lparr>submitted := submitted st @ [b], codec_config_flag := c, pdest_frame := None, frame_count := frame_count st + 1\<rparr>"
  have "end_of_stream m nal0 env False st = Some (OMX_ErrorNone, ?st')"
    using assms(2,3,5) b(1) by (simp add: end_of_stream_def with_source_def with_dest_def andthen_def Let_def)
  then show ?thesis using assms(1,2) b(2,3) scratch_reset
    by (intro exI[of _ ?st']) (auto simp: input_ok_def no_eos_def has_eos_def)
qed

lemma eos_flag_or: "(a OR (b :: u32)) AND 1 \<noteq> 0 \<longleftrightarrow> a AND 1 \<noteq> 0 \<or> b AND 1 \<noteq> 0"
proof -
  have "(x AND 1 \<noteq> 0) \<longleftrightarrow> odd x" for x :: u32 by (simp add: odd_iff_mod_2_eq_one and_one_eq)
  then show ?thesis by (simp add: even_or_iff)
qed

lemma end_final:
  assumes "input_ok M N st" "psource_frame st = Some s" "eos_source s" "pdest_frame st = Some d" "\<forall>b. env b = Accepted"
    "last_unit m nal0 True st = Some (OMX_ErrorNone, True, st\<lparr>pdest_frame := Some d', mutils := u',
      h264_scratch := (h264_scratch st)\<lparr>nFilledLen := 0\<rparr>\<rparr>)" "dest_buffer N d'"
    "m_input_pending_q st = []" "filter (\<lambda>f. f \<noteq> []) (map contents (submitted st) @ [contents d']) = frames"
  shows "\<exists>st'. end_of_stream m nal0 env True st = Some (OMX_ErrorNone, st') \<and> stream_done frames st'"
proof -
  let ?st = "st\<lparr>pdest_frame := Some d', mutils := u', h264_scratch := (h264_scratch st)\<lparr>nFilledLen := 0\<rparr>\<rparr>"
  let ?d = "d'\<lparr>nFlags := nFlags (h264_scratch st) OR nFlags s\<rparr>"
  let ?b = "?d\<lparr>nFlags := nFlags ?d AND NOT QOMX_VIDEO_BUFFERFLAG_EOSEQ\<rparr>"
  have "nFlags ?b AND 1 = nFlags ?d AND 1" using eoseq_flag(3)[of "nFlags ?d"] by simp
  then have eos: "has_eos ?b" using assms(3) eos_flag_or[of "nFlags (h264_scratch st)" "nFlags s"]
    unfolding has_eos_def eos_source_def by simp
  have nf: "\<not> input_flush_progress st" using assms(1) by (simp add: input_ok_def)
  obtain c where sub: "submit_dest env (?st\<lparr>pdest_frame := Some ?d\<rparr>) =
      Some (OMX_ErrorNone, (reset_input (?st\<lparr>pdest_frame := Some ?d\<rparr>))\<lparr>submitted := submitted st @ [?b], codec_config_flag := c, pdest_frame := None\<rparr>)"
    using eos nf assms(5)
    by (simp add: submit_dest_def with_dest_def empty_this_buffer_proxy_def Let_def reset_input_def)
  let ?st1 = "(reset_input (?st\<lparr>pdest_frame := Some ?d\<rparr>))\<lparr>submitted := submitted st @ [?b], codec_config_flag := c, pdest_frame := None\<rparr>"
  let ?st' = "next_source (EmptyBufferDone s (?st1\<lparr>frame_count := frame_count ?st1 + 1\<rparr>))"
  have run: "end_of_stream m nal0 env True st = Some (OMX_ErrorNone, ?st')"
    using assms(2,4,6) sub by (simp add: end_of_stream_def with_source_def with_dest_def andthen_def Let_def return_source_def reset_input_def)
  have "contents ?b = contents d'" by simp
  then have "stream_done frames ?st'"
    using assms(1,8,9) eos unfolding stream_done_def
    by (intro conjI exI[of _ "submitted st"] exI[of _ ?b])
      (simp_all add: next_source_def EmptyBufferDone_def reset_input_def input_ok_def no_eos_def)
  then show ?thesis using run by blast
qed

text \<open>
  The push that finds the end of the stream, with \<open>acc\<close> in the scratch buffer as the last unit: the data is
  submitted or waits for a buffer, or all is submitted.
\<close>

lemma push_eos_ok:
  assumes "input_ok M N st" "input_at p u us acc fs D st" "us \<noteq> []" "psource_frame st = Some s" "eos_source s"
    "m_input_pending_q st = []" "pdest_frame st = Some d" "\<forall>b. env b = Accepted"
    "if acc = [] then u' = u \<and> \<not> new else isNewFrame m nal0 acc (of_nat (length acc)) 0 u = Some (ret, new, u')"
    "if new \<and> D \<noteq> [] then length acc \<le> N else length (D @ acc) \<le> N" "length D \<le> N" "list_all (\<lambda>f. f \<noteq> []) fs"
  shows "\<exists>st'. push_input_h264 m nal0 env st = Some (OMX_ErrorNone, st') \<and>
    (if D = [] then stream_done (fs @ units_of [acc]) st'
     else input_ok M N st' \<and> pdest_frame st' = None \<and> psource_frame st' = Some s \<and> m_input_pending_q st' = [] \<and>
       (if new then data_done (fs @ [D, acc]) st' \<or> input_at p u' (us @ [acc]) [] (fs @ [D]) acc st'
        else data_done (fs @ [D @ acc]) st'))"
proof -
  obtain st1 d1 where st1: "copy_look_ahead (\<lambda>d. d) st = Some (OMX_ErrorNone, st1)" "input_ok M N st1"
      "input_at p u us acc fs D st1" "\<not> look_ahead_nal st1" "client st1 = client st" "pdest_frame st1 = Some d1" "contents d1 = D"
    using look_ahead_ok[OF assms(1,2,7,11)] by blast
  have cl: "psource_frame st1 = Some s" "m_input_pending_q st1 = []" using st1(5) assms(4,6) by (simp_all add: client_def)
  have fit: "\<not> (new \<and> D \<noteq> []) \<Longrightarrow> length (D @ acc) \<le> N" using assms(10) by auto
  obtain st2 where st2: "complete_unit m nal0 env st1 = Some (OMX_ErrorNone, st2)" "input_ok M N st2" "client st2 = client st1"
      "if new \<and> D \<noteq> [] then input_at p u' (us @ [acc]) [] (fs @ [D]) acc st2 \<and> look_ahead_nal st2
       else input_at p u' (us @ [acc]) [] fs (D @ acc) st2 \<and> \<not> look_ahead_nal st2 \<and> pdest_frame st2 \<noteq> None"
    using complete_unit_ok[OF st1(2,3,4) cl(1) st1(6) assms(8,9) fit assms(11)] assms(3) by blast
  have cl2: "psource_frame st2 = Some s" "m_input_pending_q st2 = []" using st2(3) cl by (simp_all add: client_def)
  have run: "push_input_h264 m nal0 env st = end_of_stream m nal0 env (D = []) st2"
    using push_eos_run[OF assms(1) st1(1,2) cl(1) assms(5) st1(6) st2(1) cl2(1)] st1(7) by simp
  show ?thesis
  proof (cases "new \<and> D \<noteq> []")
    case False
    then obtain d2 where d2: "pdest_frame st2 = Some d2" "contents d2 = D @ acc" "contents (h264_scratch st2) = []"
        "map contents (submitted st2) = fs" "nal_count st2 \<noteq> 0"
      using st2(4) by (auto simp: input_at_def)
    from last_unit_nothing[OF st2(2) d2(1,3), of m nal0 "D = []"] fit[OF False] d2(2) obtain d' v where d':
      "last_unit m nal0 (D = []) st2 = Some (OMX_ErrorNone, D = [], st2\<lparr>pdest_frame := Some d', mutils := v,
        h264_scratch := (h264_scratch st2)\<lparr>nFilledLen := 0\<rparr>\<rparr>)" "contents d' = D @ acc" "dest_buffer N d'" by auto
    show ?thesis
    proof (cases "D = []")
      case True
      have "filter (\<lambda>f. f \<noteq> []) (map contents (submitted st2) @ [contents d']) = fs @ units_of [acc]"
        using assms(12) True d2(4) d'(2) by (simp add: units_of_def list_all_iff)
      then show ?thesis using end_final[OF st2(2) cl2(1) assms(5) d2(1) assms(8) _ d'(3) cl2(2)] d'(1) run True by auto
    next
      case ne: False
      then have lu: "last_unit m nal0 False st2 = Some (OMX_ErrorNone, False, st2\<lparr>pdest_frame := Some d', mutils := v,
        h264_scratch := (h264_scratch st2)\<lparr>nFilledLen := 0\<rparr>\<rparr>)" using d'(1) by simp
      have "contents d' \<noteq> []" using d'(2) ne by simp
      then obtain st3 where "end_of_stream m nal0 env False st2 = Some (OMX_ErrorNone, st3)" "input_ok M N st3"
          "map contents (submitted st3) = map contents (submitted st2) @ [contents d']" "contents (h264_scratch st3) = []"
          "nal_count st3 = nal_count st2" "psource_frame st3 = Some s" "m_input_pending_q st3 = m_input_pending_q st2" "pdest_frame st3 = None"
        using end_data[OF st2(2) cl2(1) d2(1) assms(8) lu _ d'(3)] by blast
      then show ?thesis using d'(2) run ne False assms(5) cl2(2) d2(4,5) unfolding data_done_def by simp
    qed
  next
    case True
    have at: "input_at p u' (us @ [acc]) [] (fs @ [D]) acc st2" "look_ahead_nal st2" using st2(4) True by auto
    have ne: "acc \<noteq> []" using assms(9) True by auto
    show ?thesis
    proof (cases "pdest_frame st2")
      case None
      then show ?thesis using run True at st2(2) cl2 by (simp add: end_of_stream_def with_source_def)
    next
      case (Some d2)
      have c: "contents d2 = []" "contents (h264_scratch st2) = acc" "map contents (submitted st2) = fs @ [D]" "nal_count st2 \<noteq> 0"
        using at Some by (auto simp: input_at_def)
      have "length (contents (h264_scratch st2)) \<le> N" using c(2) assms(10) True by simp
      from last_unit_copied[OF st2(2) Some c(1) this, of m nal0 False] obtain d' where d': "last_unit m nal0 False st2 = Some (OMX_ErrorNone, False, st2\<lparr>pdest_frame := Some d', mutils := mutils st2,
        h264_scratch := (h264_scratch st2)\<lparr>nFilledLen := 0\<rparr>\<rparr>)" "contents d' = acc" "dest_buffer N d'"
        unfolding c(2) by blast
      have "contents d' \<noteq> []" using d'(2) ne by simp
      then obtain st3 where "end_of_stream m nal0 env False st2 = Some (OMX_ErrorNone, st3)" "input_ok M N st3"
          "map contents (submitted st3) = map contents (submitted st2) @ [contents d']" "contents (h264_scratch st3) = []"
          "nal_count st3 = nal_count st2" "psource_frame st3 = Some s" "m_input_pending_q st3 = m_input_pending_q st2" "pdest_frame st3 = None"
        using end_data[OF st2(2) cl2(1) Some assms(8) d'(1) _ d'(3)] by blast
      then show ?thesis using d'(2) run True assms(5) cl2(2) c(3,4) unfolding data_done_def by simp
    qed
  qed
qed

text \<open>The last push, with nothing but the end of the stream left.\<close>

lemma push_last_ok:
  assumes "input_ok M N st" "data_done frames st" "pdest_frame st = Some d" "\<forall>b. env b = Accepted" "list_all (\<lambda>f. f \<noteq> []) frames"
  shows "\<exists>st'. push_input_h264 m nal0 env st = Some (OMX_ErrorNone, st') \<and> stream_done frames st'"
proof -
  obtain s where s: "psource_frame st = Some s" "eos_source s" "m_input_pending_q st = []" "map contents (submitted st) = frames"
      "contents (h264_scratch st) = []" "nal_count st \<noteq> 0" "contents d = []"
    using assms(2,3) unfolding data_done_def by blast
  have ok: "buffer_ok (h264_scratch st)" "nOffset (h264_scratch st) = 0" "dest_buffer N d"
    using assms(1,3) by (auto simp: input_ok_def)
  have z: "nFilledLen (h264_scratch st) = 0" using contents_empty[OF ok(1)] s(5) by simp
  let ?f = "\<lambda>d. if u_nalu_type (mutils st) = NALU_TYPE_EOSEQ then d\<lparr>nFlags := nFlags d OR QOMX_VIDEO_BUFFERFLAG_EOSEQ\<rparr> else d"
  obtain d' where d': "copy_scratch ?f st = Some (OMX_ErrorNone, st\<lparr>pdest_frame := Some (?f d'), h264_scratch := (h264_scratch st)\<lparr>nFilledLen := 0\<rparr>\<rparr>)"
      "contents d' = []" "dest_buffer N d'"
    using copy_scratch_ok[OF assms(3) ok(3,1,2), of ?f] s(5,7) by auto
  have fd: "dest_buffer N (?f d')" "contents (?f d') = []"
    using d' dest_buffer_flags[OF d'(3)] eoseq_flag(1) dest_flags_ok by auto
  let ?st = "st\<lparr>pdest_frame := Some (?f d'), h264_scratch := (h264_scratch st)\<lparr>nFilledLen := 0\<rparr>\<rparr>"
  have st: "input_ok M N ?st" "psource_frame ?st = Some s" "m_input_pending_q ?st = []" "contents (h264_scratch ?st) = []"
    using assms(1) fd ok s scratch_reset by (auto simp: input_ok_def no_eos_def has_eos_def)
  have "copy_look_ahead (\<lambda>d. d) st = Some (OMX_ErrorNone, st)" using z by (simp add: copy_look_ahead_def)
  moreover have "complete_unit m nal0 env st = Some (OMX_ErrorNone, ?st)"
    using d'(1) z s(1,6) by (simp add: complete_unit_def with_source_def)
  ultimately have run: "push_input_h264 m nal0 env st = end_of_stream m nal0 env True ?st"
    using push_eos_run[OF assms(1) _ assms(1) s(1,2) assms(3) _ st(2), of m nal0 env] s(7) by simp
  from last_unit_nothing[OF st(1) _ st(4), of "?f d'" m nal0 True] fd obtain d2 v where d2:
    "last_unit m nal0 True ?st = Some (OMX_ErrorNone, True, ?st\<lparr>pdest_frame := Some d2, mutils := v,
      h264_scratch := (h264_scratch ?st)\<lparr>nFilledLen := 0\<rparr>\<rparr>)" "contents d2 = []" "dest_buffer N d2" by auto
  have "filter (\<lambda>f. f \<noteq> []) (map contents (submitted ?st) @ [contents d2]) = frames"
    using assms(5) s(4) d2(2) by (simp add: list_all_iff)
  then show ?thesis using end_final[OF st(1,2) s(2) _ assms(4) d2(1,3) st(3), of "?f d'"] run by auto
qed

section \<open>The frames of a stream\<close>

definition h264_frames :: "isa \<Rightarrow> nalu \<Rightarrow> frame_parser \<Rightarrow> h264_utils \<Rightarrow> byte list \<Rightarrow> byte list list" where
  "h264_frames m nal0 p0 u0 X =
     (case cut H264_start_code p0 [] X of (us, p, acc) \<Rightarrow>
        case frame_starts m nal0 (units_of (us @ [acc])) u0 of
          None \<Rightarrow> []
        | Some (news, u) \<Rightarrow> (case group_units news (units_of (us @ [acc])) [] of (fs, D) \<Rightarrow> fs @ units_of [D]))"

lemma group_frames_ne: "list_all (\<lambda>f. f \<noteq> []) (fst (group_units news us d))"
  by (induction news us d rule: group_units.induct) (auto split: prod.split)

text \<open>The frames of a part of the stream are the first ones of the stream.\<close>

lemma frames_prefix:
  assumes "stream_fits m nal0 M N p0 u0 (Y @ Z)" "cut H264_start_code p0 [] Y = (us, p, acc)"
    "frame_starts m nal0 (units_of us) u0 = Some (news, u)" "group_units news (units_of us) [] = (fs, D)"
  shows "\<exists>gs. h264_frames m nal0 p0 u0 (Y @ Z) = fs @ gs"
proof -
  obtain vs q a where Z: "cut H264_start_code p acc Z = (vs, q, a)" by (cases "cut H264_start_code p acc Z")
  then have X: "cut H264_start_code p0 [] (Y @ Z) = (us @ vs, q, a)" using assms(2) by (simp add: cut_append)
  obtain ns u' where ns: "frame_starts m nal0 (units_of us @ units_of (vs @ [a])) u0 = Some (ns, u')"
    using assms(1) unfolding stream_fits_def X by auto
  obtain bs where s: "frame_starts m nal0 (units_of (vs @ [a])) u = Some (bs, u')" "ns = news @ bs"
    using ns assms(3) unfolding frame_starts_append_Some by auto
  have "\<exists>gs D'. group_units ns (units_of us @ units_of (vs @ [a])) [] = (fs @ gs, D')"
    unfolding s(2) using group_units_append[OF frame_starts_length[OF assms(3)], of bs "units_of (vs @ [a])" "[]"] assms(4)
    by (simp split: prod.splits)
  then show ?thesis using ns by (auto simp: h264_frames_def X simp flip: units_of_simps(2))
qed

section \<open>Runs\<close>

text \<open>The client sends a buffer, or the driver is done with one.\<close>

datatype input_event = Client omx_buffer | Driver omx_buffer

fun input_run :: "isa \<Rightarrow> nalu \<Rightarrow> (omx_buffer \<Rightarrow> driver_answer) \<Rightarrow> input_event list \<Rightarrow> omx_vdec \<Rightarrow> omx_vdec option" where
  "input_run m nal0 env [] st = Some st"
| "input_run m nal0 env (Client b # es) st =
     do { (e, st) \<leftarrow> empty_this_buffer_proxy_arbitrary m nal0 env b st; input_run m nal0 env es st }"
| "input_run m nal0 env (Driver b # es) st =
     do { (e, st) \<leftarrow> empty_buffer_done m nal0 env b st; input_run m nal0 env es st }"

fun client_buffers :: "input_event list \<Rightarrow> omx_buffer list" where
  "client_buffers [] = []"
| "client_buffers (Client b # es) = b # client_buffers es"
| "client_buffers (Driver b # es) = client_buffers es"

fun driver_buffers :: "input_event list \<Rightarrow> omx_buffer list" where
  "driver_buffers [] = []"
| "driver_buffers (Client b # es) = driver_buffers es"
| "driver_buffers (Driver b # es) = b # driver_buffers es"

text \<open>The end of the stream was found while the last frame waits for a buffer.\<close>

definition frame_waits :: "nat \<Rightarrow> byte list list \<Rightarrow> omx_vdec \<Rightarrow> bool" where
  "frame_waits N frames st \<longleftrightarrow> (\<exists>p u us fs D. input_at p u us [] fs D st \<and> us \<noteq> [] \<and> D \<noteq> [] \<and> length D \<le> N \<and>
     list_all (\<lambda>f. f \<noteq> []) fs \<and> fs @ [D] = frames)"

definition ending :: "nat \<Rightarrow> nat \<Rightarrow> byte list list \<Rightarrow> omx_vdec \<Rightarrow> bool" where
  "ending M N frames st \<longleftrightarrow> stream_done frames st \<or>
     input_ok M N st \<and> pdest_frame st = None \<and> at_end st \<and> (data_done frames st \<or> frame_waits N frames st)"

lemma push_at_end:
  assumes "stream_fits m nal0 M N p0 u0 X" "follows m nal0 p0 u0 X st" "fst (cut H264_start_code p0 [] X) \<noteq> []" "input_ok M N st" "at_end st"
    "pdest_frame st \<noteq> None" "\<forall>b. env b = Accepted"
  shows "\<exists>st'. push_loop m nal0 env st = Some (OMX_ErrorNone, st') \<and> ending M N (h264_frames m nal0 p0 u0 X) st'"
proof -
  let ?F = "h264_frames m nal0 p0 u0 X"
  obtain us p acc news u fs D where f: "cut H264_start_code p0 [] X = (us, p, acc)"
      "frame_starts m nal0 (units_of us) u0 = Some (news, u)" "group_units news (units_of us) [] = (fs, D)"
      "input_at p u us acc fs D st"
    using assms(2) unfolding follows_def by blast
  obtain s d where s: "psource_frame st = Some s" "eos_source s" "m_input_pending_q st = []" "pdest_frame st = Some d"
    using assms(5,6) by (auto simp: at_end_def)
  obtain news' u' where n: "frame_starts m nal0 (units_of (us @ [acc])) u0 = Some (news', u')"
      "\<forall>f \<in> set (fst (group_units news' (units_of (us @ [acc])) []) @ [snd (group_units news' (units_of (us @ [acc])) [])]). length f \<le> N"
    using assms(1) unfolding stream_fits_def f(1) by auto
  obtain ret new where a: "if acc = [] then u' = u \<and> \<not> new \<and> news' = news
      else isNewFrame m nal0 acc (of_nat (length acc)) 0 u = Some (ret, new, u') \<and> news' = news @ [new]"
    using complete_answer[OF n(1) f(2)] by blast
  have g: "group_units news' (units_of (us @ [acc])) [] = (if new \<and> D \<noteq> [] then (fs @ [D], acc) else (fs, D @ acc))"
  proof (cases "acc = []")
    case True
    then show ?thesis using a f(3) by auto
  next
    case False
    then have "units_of (us @ [acc]) = units_of us @ [acc]" "news' = news @ [new]" using a units_of_simps(4)[OF False] by simp_all
    then show ?thesis
      using group_units_append[OF frame_starts_length[OF f(2)], of "[new]" "[acc]" "[]"] f(3) by (auto split: if_splits)
  qed
  have ans: "if acc = [] then u' = u \<and> \<not> new else isNewFrame m nal0 acc (of_nat (length acc)) 0 u = Some (ret, new, u')"
    using a by (auto split: if_splits)
  have len: "if new \<and> D \<noteq> [] then length acc \<le> N else length (D @ acc) \<le> N" "length D \<le> N"
    using n(2) fits_prefix[of m nal0 M N p0 u0 X "[]"] assms(1) f(1-3) unfolding g by (auto split: if_splits)
  have ne: "list_all (\<lambda>f. f \<noteq> []) fs" using group_frames_ne[of news "units_of us" "[]"] f(3) by simp
  have F: "?F = (if D = [] then fs @ units_of [acc] else if new then fs @ [D, acc] else fs @ [D @ acc])"
    using n(1) g ans unfolding h264_frames_def f(1) by (auto split: if_splits)
  obtain st' where st': "push_input_h264 m nal0 env st = Some (OMX_ErrorNone, st')"
      "if D = [] then stream_done (fs @ units_of [acc]) st'
       else input_ok M N st' \<and> pdest_frame st' = None \<and> psource_frame st' = Some s \<and> m_input_pending_q st' = [] \<and>
         (if new then data_done (fs @ [D, acc]) st' \<or> input_at p u' (us @ [acc]) [] (fs @ [D]) acc st'
          else data_done (fs @ [D @ acc]) st')"
    using push_eos_ok[OF assms(4) f(4) _ s assms(7) ans len ne] assms(3) f(1) by auto
  have "push_loop m nal0 env st = push_loop m nal0 env st'"
    using s(1,4) st'(1) assms(4) by (intro push_loop_turn) (auto simp: input_ok_def)
  moreover have "pdest_frame st' = None \<or> psource_frame st' = None" using st'(2) by (auto simp: stream_done_def split: if_splits)
  moreover have "ending M N ?F st'"
  proof (cases "D = []")
    case True
    then show ?thesis using st'(2) F by (simp add: ending_def)
  next
    case False
    then have "data_done ?F st' \<or> frame_waits N ?F st'"
    proof (cases new)
      case True
      then have "acc \<noteq> []" using ans by auto
      moreover have "list_all (\<lambda>f. f \<noteq> []) (fs @ [D])" using ne False by simp
      moreover have "length acc \<le> N" using len True False by simp
      ultimately have "frame_waits N ?F st'" if "input_at p u' (us @ [acc]) [] (fs @ [D]) acc st'"
        unfolding frame_waits_def using that F True False
        by (intro exI[of _ p] exI[of _ u'] exI[of _ "us @ [acc]"] exI[of _ "fs @ [D]"] exI[of _ acc]) simp
      then show ?thesis using st'(2) True False F by auto
    qed (use st'(2) F False in auto)
    then show ?thesis using st'(2) False s(2) by (auto simp: ending_def at_end_def)
  qed
  ultimately show ?thesis using push_loop_end by metis
qed

text \<open>A buffer of the driver that comes back at the end.\<close>

lemma push_ending:
  assumes "input_ok M N st" "at_end st" "data_done frames st \<or> frame_waits N frames st" "pdest_frame st = None"
    "dest_buffer N d" "contents d = []" "\<forall>b. env b = Accepted" "list_all (\<lambda>f. f \<noteq> []) frames"
  shows "\<exists>st'. push_loop m nal0 env (st\<lparr>pdest_frame := Some d\<rparr>) = Some (OMX_ErrorNone, st') \<and> ending M N frames st'"
proof -
  let ?st = "st\<lparr>pdest_frame := Some d\<rparr>"
  obtain s where s: "psource_frame ?st = Some s" "eos_source s" "m_input_pending_q ?st = []" using assms(2) by (auto simp: at_end_def)
  have ok: "input_ok M N ?st" using assms(1,5) by (simp add: input_ok_def no_eos_def)
  have turn: "push_loop m nal0 env ?st = push_loop m nal0 env st'" if "push_input_h264 m nal0 env ?st = Some (OMX_ErrorNone, st')" for st'
    using that s assms(1) by (intro push_loop_turn) (auto simp: input_ok_def)
  from assms(3) show ?thesis
  proof
    assume "data_done frames st"
    then have "data_done frames ?st" using assms(6) by (auto simp: data_done_def)
    from push_last_ok[OF ok this _ assms(7,8), of d m nal0] obtain st' where
      "push_input_h264 m nal0 env ?st = Some (OMX_ErrorNone, st')" "stream_done frames st'" by auto
    then show ?thesis using turn push_loop_end[of st' m nal0 env] by (auto simp: ending_def stream_done_def)
  next
    assume "frame_waits N frames st"
    then obtain p u us fs D where w: "input_at p u us [] fs D st" "us \<noteq> []" "D \<noteq> []" "length D \<le> N" "list_all (\<lambda>f. f \<noteq> []) fs"
        "fs @ [D] = frames" unfolding frame_waits_def by blast
    have "input_at p u us [] fs D ?st" using w(1,3) assms(4,6) by (auto simp: input_at_def split: if_splits)
    from push_eos_ok[OF ok this w(2) s _ assms(7), of d u False m nal0 undefined] w(3-5) obtain st' where
      "push_input_h264 m nal0 env ?st = Some (OMX_ErrorNone, st')" "input_ok M N st'" "pdest_frame st' = None" "psource_frame st' = Some s"
      "m_input_pending_q st' = []" "data_done (fs @ [D]) st'" by auto
    then show ?thesis using turn push_loop_end[of st' m nal0 env] w(6) s(2) by (auto simp: ending_def at_end_def)
  qed
qed

end
