(* ===== verification/InputInvariant.thy ===== *)
theory InputInvariant
  imports InputRun
begin

text \<open>
  The invariant of the runs of the input side for H.264, and that every buffer of the driver that
  comes back while a source waits leads to a submission.
\<close>

section \<open>The invariant\<close>

text \<open>The data of the client is being pushed; \<open>cs\<close> are the buffers the client has still to send.\<close>

definition pushing :: "isa \<Rightarrow> nalu \<Rightarrow> nat \<Rightarrow> nat \<Rightarrow> frame_parser \<Rightarrow> h264_utils \<Rightarrow> byte list \<Rightarrow> omx_buffer list \<Rightarrow> omx_vdec \<Rightarrow> bool" where
  "pushing m nal0 M N p0 u0 X cs st \<longleftrightarrow> input_ok M N st \<and> queue_ok cs st \<and> length (sources st @ cs) \<le> 100 \<and>
     (\<exists>Y. follows m nal0 p0 u0 Y st \<and> Y @ remaining st @ concat (map contents cs) = X)"

definition run_ok :: "isa \<Rightarrow> nalu \<Rightarrow> nat \<Rightarrow> nat \<Rightarrow> frame_parser \<Rightarrow> h264_utils \<Rightarrow> byte list \<Rightarrow> omx_buffer list \<Rightarrow> omx_vdec \<Rightarrow> bool" where
  "run_ok m nal0 M N p0 u0 X cs st \<longleftrightarrow> (pdest_frame st = None \<or> psource_frame st = None) \<and>
     (pushing m nal0 M N p0 u0 X cs st \<or> cs = [] \<and> ending M N (h264_frames m nal0 p0 u0 X) st)"

text \<open>What holds of the stream and of the driver throughout.\<close>

definition stream_ok :: "isa \<Rightarrow> nalu \<Rightarrow> nat \<Rightarrow> nat \<Rightarrow> frame_parser \<Rightarrow> h264_utils \<Rightarrow> byte list \<Rightarrow> bool" where
  "stream_ok m nal0 M N p0 u0 X \<longleftrightarrow> stream_fits m nal0 M N p0 u0 X \<and> fst (cut H264_start_code p0 [] X) \<noteq> [] \<and>
     parser_ok H264_start_code p0"

lemma h264_frames_ne: "list_all (\<lambda>f. f \<noteq> []) (h264_frames m nal0 p0 u0 X)"
proof -
  obtain us p acc where c: "cut H264_start_code p0 [] X = (us, p, acc)" by (cases "cut H264_start_code p0 [] X")
  show ?thesis
  proof (cases "frame_starts m nal0 (units_of (us @ [acc])) u0")
    case (Some r)
    obtain fs D where g: "group_units (fst r) (units_of (us @ [acc])) [] = (fs, D)" by (cases "group_units (fst r) (units_of (us @ [acc])) []")
    have "list_all (\<lambda>f. f \<noteq> []) (fs @ units_of [D])"
      using group_frames_ne[of "fst r" "units_of (us @ [acc])" "[]"] g by (simp add: units_of_def)
    then show ?thesis using c Some g by (cases r) (simp add: h264_frames_def)
  qed (simp add: h264_frames_def c)
qed

lemma push_loop_run_ok:
  assumes "stream_ok m nal0 M N p0 u0 X" "pushing m nal0 M N p0 u0 X cs st" "\<forall>b. env b = Accepted"
  shows "\<exists>st'. push_loop m nal0 env st = Some (OMX_ErrorNone, st') \<and> run_ok m nal0 M N p0 u0 X cs st'"
proof -
  obtain Y where Y: "follows m nal0 p0 u0 Y st" "Y @ remaining st @ concat (map contents cs) = X"
      "input_ok M N st" "queue_ok cs st" "length (sources st @ cs) \<le> 100"
    using assms(2) unfolding pushing_def by blast
  have fits: "stream_fits m nal0 M N p0 u0 (Y @ remaining st @ concat (map contents cs))" "parser_ok H264_start_code p0"
    using assms(1) Y(2) unfolding stream_ok_def by auto
  obtain st' Y' where st': "push_loop m nal0 env st = push_loop m nal0 env st'" "follows m nal0 p0 u0 Y' st'" "input_ok M N st'"
      "queue_ok cs st'" "Y' @ remaining st' = Y @ remaining st" "length (sources st') \<le> length (sources st)"
      "pdest_frame st' = None \<or> psource_frame st' = None \<or> at_end st' \<and> cs = []"
    using push_loop_data[OF fits(1) Y(1,3,4) assms(3) fits(2)] by blast
  have "Y' @ remaining st' @ concat (map contents cs) = X" using st'(5) Y(2) by (metis append_assoc)
  then have p: "pushing m nal0 M N p0 u0 X cs st'" using st'(2-4,6) Y(5) unfolding pushing_def by auto
  show ?thesis
  proof (cases "pdest_frame st' = None \<or> psource_frame st' = None")
    case True
    then show ?thesis using p st'(1) push_loop_end[of st' m nal0 env] by (auto simp: run_ok_def)
  next
    case False
    then have e: "at_end st'" "cs = []" "pdest_frame st' \<noteq> None" using st'(7) by auto
    then have "remaining st' = []" by (auto simp: at_end_def remaining_def sources_def eos_source_def)
    then have "Y' = X" using st'(5) Y(2) e(2) by simp
    then show ?thesis using push_at_end[OF _ _ _ st'(3) e(1,3) assms(3), of m nal0 p0 u0 X] assms(1) st'(1,2) e(2)
      by (auto simp: stream_ok_def run_ok_def ending_def stream_done_def)
  qed
qed

lemma follows_dest:
  "follows m nal0 p0 u0 Y st \<Longrightarrow> pdest_frame st = None \<Longrightarrow> contents d = [] \<Longrightarrow>
    follows m nal0 p0 u0 Y (st\<lparr>pdest_frame := Some d, m_input_free_q := q\<rparr>)"
proof -
  assume "pdest_frame st = None" "contents d = []"
  then have "input_at p u us acc fs D st \<Longrightarrow> input_at p u us acc fs D (st\<lparr>pdest_frame := Some d, m_input_free_q := q\<rparr>)" for p u us acc fs D
    by (cases "look_ahead_nal st") (simp_all add: input_at_def)
  then show "follows m nal0 p0 u0 Y st \<Longrightarrow> follows m nal0 p0 u0 Y (st\<lparr>pdest_frame := Some d, m_input_free_q := q\<rparr>)"
    unfolding follows_def by blast
qed

lemma follows_sources [simp]:
  "follows m nal0 p0 u0 Y (st\<lparr>psource_frame := s\<rparr>) = follows m nal0 p0 u0 Y st"
  "follows m nal0 p0 u0 Y (st\<lparr>m_input_pending_q := q\<rparr>) = follows m nal0 p0 u0 Y st"
  "follows m nal0 p0 u0 Y (st\<lparr>m_input_free_q := q\<rparr>) = follows m nal0 p0 u0 Y st"
  "follows m nal0 p0 u0 Y (st\<lparr>codec_config_flag := c\<rparr>) = follows m nal0 p0 u0 Y st"
  by (simp_all add: follows_def input_at_def)

lemma pushing_dest:
  assumes "pushing m nal0 M N p0 u0 X cs st" "pdest_frame st = None" "contents d = []" "dest_buffer N d" "list_all (dest_buffer N) q"
  shows "pushing m nal0 M N p0 u0 X cs (st\<lparr>pdest_frame := Some d, m_input_free_q := q\<rparr>)"
  using assms follows_dest[OF _ assms(2,3)]
  by (auto simp: pushing_def input_ok_def no_eos_def queue_ok_def sources_def remaining_def)

lemma push_input_buffer_ok:
  assumes "stream_ok m nal0 M N p0 u0 X" "pushing m nal0 M N p0 u0 X cs st" "\<forall>b. env b = Accepted" "psource_frame st \<noteq> None"
  shows "\<exists>st'. push_input_buffer m nal0 env st = Some (OMX_ErrorNone, st') \<and> run_ok m nal0 M N p0 u0 X cs st'"
proof -
  let ?f = "\<lambda>b. b\<lparr>nFilledLen := 0, nTimeStamp := LLONG_MAX\<rparr> :: omx_buffer"
  let ?st = "if pdest_frame st = None then next_dest ?f st else st"
  have "pushing m nal0 M N p0 u0 X cs ?st"
  proof (cases "pdest_frame st = None \<and> m_input_free_q st \<noteq> []")
    case True
    then obtain b q where q: "m_input_free_q st = b # q" "pdest_frame st = None" by (cases "m_input_free_q st") auto
    then have "dest_buffer N b" "list_all (dest_buffer N) q" using assms(2) by (auto simp: pushing_def input_ok_def)
    then show ?thesis using q pushing_dest[OF assms(2) q(2), of "?f b" q] by (simp add: next_dest_def)
  next
    case False
    then show ?thesis using assms(2) by (cases st) (auto simp: next_dest_def)
  qed
  moreover have "psource_frame ?st \<noteq> None" using assms(4) by (simp add: next_dest_def split: list.split)
  moreover have "push_input_buffer m nal0 env st = push_loop m nal0 env ?st"
    using assms(4) by (auto simp: push_input_buffer_def next_dest_def split: list.split)
  ultimately show ?thesis using push_loop_run_ok[OF assms(1) _ assms(3), of cs ?st] by metis
qed

lemma run_ok_flag: "run_ok m nal0 M N p0 u0 X cs (st\<lparr>codec_config_flag := c\<rparr>) = run_ok m nal0 M N p0 u0 X cs st"
  by (simp add: run_ok_def pushing_def ending_def input_ok_def no_eos_def queue_ok_def sources_def remaining_def follows_def
      input_at_def stream_done_def at_end_def data_done_def frame_waits_def)

lemma sources_ok_middle: "sources_ok (xs @ b # cs) \<Longrightarrow> source_ok b \<or> eos_source b"
  by (induction xs) (auto split: if_splits)

lemma source_not_empty: "source_ok b \<or> eos_source b \<Longrightarrow> \<not> (nFilledLen b = 0 \<and> \<not> has_eos b)"
  using contents_empty by (auto simp: source_ok_def eos_source_def)

text \<open>A buffer of the client.\<close>

lemma client_ok:
  assumes "stream_ok m nal0 M N p0 u0 X" "run_ok m nal0 M N p0 u0 X (b # cs) st" "\<forall>b. env b = Accepted"
  shows "\<exists>st'. empty_this_buffer_proxy_arbitrary m nal0 env b st = Some (OMX_ErrorNone, st') \<and> run_ok m nal0 M N p0 u0 X cs st'"
proof -
  have p: "pushing m nal0 M N p0 u0 X (b # cs) st" using assms(2) by (simp add: run_ok_def)
  then have ok: "\<not> input_flush_progress st" "queue_ok (b # cs) st" "length (sources st @ b # cs) \<le> 100"
    by (auto simp: pushing_def input_ok_def)
  have nb: "\<not> (input_flush_progress st \<or> nFilledLen b = 0 \<and> \<not> has_eos b)"
    using ok(1,2) sources_ok_middle source_not_empty by (auto simp: queue_ok_def)
  show ?thesis
  proof (cases "psource_frame st = None")
    case True
    have "pushing m nal0 M N p0 u0 X cs (st\<lparr>psource_frame := Some b\<rparr>)"
      using p True by (auto simp: pushing_def input_ok_def no_eos_def queue_ok_def sources_def remaining_def)
    from push_input_buffer_ok[OF assms(1) this assms(3)] obtain st' where
      "push_input_buffer m nal0 env (st\<lparr>psource_frame := Some b\<rparr>) = Some (OMX_ErrorNone, st')" "run_ok m nal0 M N p0 u0 X cs st'" by auto
    then show ?thesis using True unfolding empty_this_buffer_proxy_arbitrary_def if_not_P[OF nb] andthen_def
      by (intro exI[of _ "st'\<lparr>codec_config_flag := codec_config_flag st' \<and> nFlags b AND OMX_BUFFERFLAG_CODECCONFIG \<noteq> 0\<rparr>"] conjI)
        (simp_all add: run_ok_flag)
  next
    case False
    then have len: "length (m_input_pending_q st) < 100" using ok(3) by (auto simp: sources_def)
    have d: "pdest_frame st = None" using False assms(2) unfolding run_ok_def by auto
    have "pushing m nal0 M N p0 u0 X cs (st\<lparr>m_input_pending_q := m_input_pending_q st @ [b]\<rparr>)"
      using p False by (auto simp: pushing_def input_ok_def no_eos_def queue_ok_def sources_def remaining_def)
    then have "run_ok m nal0 M N p0 u0 X cs (st\<lparr>m_input_pending_q := m_input_pending_q st @ [b]\<rparr>)"
      using d by (simp add: run_ok_def)
    then show ?thesis using len unfolding empty_this_buffer_proxy_arbitrary_def if_not_P[OF nb] if_not_P[OF False]
      by (simp add: andthen_def run_ok_flag insert_entry_def)
  qed
qed

text \<open>A buffer of the driver.\<close>

lemma push_no_source:
  "psource_frame st = None \<Longrightarrow> m_input_pending_q st = [] \<Longrightarrow> pdest_frame st \<noteq> None \<Longrightarrow> push_input_buffer m nal0 env st = Some (OMX_ErrorNone, st)"
  by (cases st) (auto simp: push_input_buffer_def next_source_def push_loop_end)

lemma driver_dest_ok:
  assumes "stream_ok m nal0 M N p0 u0 X" "run_ok m nal0 M N p0 u0 X cs st" "\<forall>b. env b = Accepted" "dest_buffer N d" "contents d = []"
    "pdest_frame st = None"
  shows "\<exists>st'. push_input_buffer m nal0 env (st\<lparr>pdest_frame := Some d\<rparr>) = Some (OMX_ErrorNone, st') \<and> run_ok m nal0 M N p0 u0 X cs st'"
proof -
  let ?st = "st\<lparr>pdest_frame := Some d\<rparr>"
  consider (push) "pushing m nal0 M N p0 u0 X cs st" | (fin) "cs = []" "stream_done (h264_frames m nal0 p0 u0 X) st"
    | (last) "cs = []" "input_ok M N st" "at_end st" "data_done (h264_frames m nal0 p0 u0 X) st \<or> frame_waits N (h264_frames m nal0 p0 u0 X) st"
    using assms(2) unfolding run_ok_def ending_def by blast
  then show ?thesis
  proof cases
    case push
    then have "list_all (dest_buffer N) (m_input_free_q st)" by (simp add: pushing_def input_ok_def)
    from pushing_dest[OF push assms(6,5,4) this] have p: "pushing m nal0 M N p0 u0 X cs ?st" by simp
    show ?thesis
    proof (cases "psource_frame st = None")
      case False
      then show ?thesis using push_input_buffer_ok[OF assms(1) p assms(3)] by simp
    next
      case True
      then have "m_input_pending_q st = []" using push by (simp add: pushing_def queue_ok_def)
      then show ?thesis using True p push_no_source[of ?st m nal0 env] by (simp add: run_ok_def)
    qed
  next
    case fin
    then have "stream_done (h264_frames m nal0 p0 u0 X) ?st" "psource_frame ?st = None" by (auto simp: stream_done_def)
    then show ?thesis using fin push_no_source[of ?st m nal0 env] by (simp add: stream_done_def run_ok_def ending_def)
  next
    case last
    obtain st' where st': "push_loop m nal0 env ?st = Some (OMX_ErrorNone, st')" "ending M N (h264_frames m nal0 p0 u0 X) st'"
      using push_ending[OF last(2-4) assms(6,4,5,3) h264_frames_ne] by blast
    have "push_input_buffer m nal0 env ?st = push_loop m nal0 env ?st" using last(3) by (auto simp: push_input_buffer_def at_end_def)
    then show ?thesis using st' last(1) by (auto simp: run_ok_def ending_def stream_done_def)
  qed
qed

lemma ending_free [simp]:
  "input_at p u us acc fs D (st\<lparr>m_input_free_q := q\<rparr>) = input_at p u us acc fs D st"
  "frame_waits N fs (st\<lparr>m_input_free_q := q\<rparr>) = frame_waits N fs st"
  "data_done fs (st\<lparr>m_input_free_q := q\<rparr>) = data_done fs st" "stream_done fs (st\<lparr>m_input_free_q := q\<rparr>) = stream_done fs st"
  "at_end (st\<lparr>m_input_free_q := q\<rparr>) = at_end st"
  by (simp_all add: input_at_def frame_waits_def data_done_def stream_done_def at_end_def)

lemma run_ok_free:
  assumes "run_ok m nal0 M N p0 u0 X cs st" "dest_buffer N b"
  shows "run_ok m nal0 M N p0 u0 X cs (st\<lparr>m_input_free_q := snd (insert_entry b (m_input_free_q st))\<rparr>)"
proof -
  have "input_ok M N (st\<lparr>m_input_free_q := snd (insert_entry b (m_input_free_q st))\<rparr>)" if "input_ok M N st"
    using that assms(2) by (simp add: input_ok_def no_eos_def insert_entry_def)
  note ok = this
  then have "pushing m nal0 M N p0 u0 X cs (st\<lparr>m_input_free_q := snd (insert_entry b (m_input_free_q st))\<rparr>)"
    if "pushing m nal0 M N p0 u0 X cs st"
    using that by (simp add: pushing_def queue_ok_def sources_def remaining_def)
  moreover have "ending M N fs (st\<lparr>m_input_free_q := snd (insert_entry b (m_input_free_q st))\<rparr>)" if "ending M N fs st" for fs
    using that ok by (auto simp: ending_def)
  ultimately show ?thesis using assms(1) unfolding run_ok_def by auto
qed

lemma driver_ok:
  assumes "stream_ok m nal0 M N p0 u0 X" "run_ok m nal0 M N p0 u0 X cs st" "\<forall>b. env b = Accepted" "dest_buffer N b"
  shows "\<exists>st'. empty_buffer_done m nal0 env b st = Some (OMX_ErrorNone, st') \<and> run_ok m nal0 M N p0 u0 X cs st'"
proof -
  have "run_ok m nal0 M N p0 u0 X cs (st\<lparr>m_input_free_q := snd (insert_entry (b\<lparr>nFilledLen := 0\<rparr>) (m_input_free_q st))\<rparr>)"
    by (rule run_ok_free[OF assms(2)]) (use assms(4) in simp)
  then show ?thesis using driver_dest_ok[OF assms(1-3), of "b\<lparr>nFilledLen := 0, nTimeStamp := LLONG_MAX\<rparr>"] assms(4)
    by (auto simp: empty_buffer_done_def)
qed

section \<open>Runs\<close>

lemma input_run_ok:
  assumes "stream_ok m nal0 M N p0 u0 X" "run_ok m nal0 M N p0 u0 X (client_buffers es @ cs) st" "\<forall>b. env b = Accepted"
    "list_all (dest_buffer N) (driver_buffers es)"
  shows "\<exists>st'. input_run m nal0 env es st = Some st' \<and> run_ok m nal0 M N p0 u0 X cs st'"
  using assms(2,4)
proof (induction es arbitrary: st)
  case (Cons e es)
  show ?case
  proof (cases e)
    case (Client b)
    then show ?thesis using client_ok[OF assms(1) _ assms(3), of b "client_buffers es @ cs" st] Cons by fastforce
  next
    case (Driver b)
    then show ?thesis using driver_ok[OF assms(1) _ assms(3), of "client_buffers es @ cs" st b] Cons by fastforce
  qed
qed simp

text \<open>Where a run begins.\<close>

definition input_start :: "nat \<Rightarrow> nat \<Rightarrow> frame_parser \<Rightarrow> h264_utils \<Rightarrow> omx_vdec \<Rightarrow> bool" where
  "input_start M N p0 u0 st \<longleftrightarrow> input_ok M N st \<and> m_frame_parser st = p0 \<and> mutils st = u0 \<and> nal_count st = 0 \<and>
     submitted st = [] \<and> \<not> look_ahead_nal st \<and> contents (h264_scratch st) = [] \<and> psource_frame st = None \<and> m_input_pending_q st = [] \<and>
     (\<forall>d. pdest_frame st = Some d \<longrightarrow> contents d = [])"

lemma input_start_ok:
  assumes "input_start M N p0 u0 st" "sources_ok cs" "length cs \<le> 100" "concat (map contents cs) = X"
  shows "run_ok m nal0 M N p0 u0 X cs st"
proof -
  have "follows m nal0 p0 u0 [] st"
    using assms(1) by (auto simp: follows_def input_start_def input_at_def split: option.split)
  then show ?thesis using assms
    by (auto simp: run_ok_def pushing_def queue_ok_def sources_def remaining_def input_start_def)
qed

lemma run_ok_submitted:
  assumes "run_ok m nal0 M N p0 u0 X cs st" "stream_ok m nal0 M N p0 u0 X"
  shows "\<exists>rest. filter (\<lambda>f. f \<noteq> []) (map contents (submitted st)) @ rest = h264_frames m nal0 p0 u0 X"
proof -
  have ne: "filter (\<lambda>f. f \<noteq> []) fs = fs" if "list_all (\<lambda>f. f \<noteq> []) fs" for fs :: "byte list list"
    using that by (simp add: list_all_iff)
  consider (push) "pushing m nal0 M N p0 u0 X cs st" | (fin) "ending M N (h264_frames m nal0 p0 u0 X) st"
    using assms(1) unfolding run_ok_def by blast
  then show ?thesis
  proof cases
    case push
    then obtain Y us p acc news u fs D where f: "cut H264_start_code p0 [] Y = (us, p, acc)" "X = Y @ remaining st @ concat (map contents cs)"
        "frame_starts m nal0 (units_of us) u0 = Some (news, u)" "group_units news (units_of us) [] = (fs, D)" "input_at p u us acc fs D st"
      unfolding pushing_def follows_def by blast
    have "list_all (\<lambda>f. f \<noteq> []) fs" using group_frames_ne[of news "units_of us" "[]"] f(4) by simp
    moreover have "map contents (submitted st) = fs" using f(5) by (simp add: input_at_def)
    moreover obtain gs where "h264_frames m nal0 p0 u0 X = fs @ gs"
      using frames_prefix[of m nal0 M N p0 u0 Y, OF _ f(1,3,4)] assms(2) f(2) unfolding stream_ok_def by blast
    ultimately show ?thesis using ne[of fs] by simp
  next
    case fin
    then show ?thesis using ne h264_frames_ne
      by (auto simp: ending_def stream_done_def data_done_def frame_waits_def input_at_def)
  qed
qed

text \<open>When no source waits after the last buffer of the client, all is done.\<close>

lemma run_ok_done:
  assumes "run_ok m nal0 M N p0 u0 X [] st" "psource_frame st = None"
  shows "stream_done (h264_frames m nal0 p0 u0 X) st"
proof -
  have "\<not> pushing m nal0 M N p0 u0 X [] st" using assms(2) by (auto simp: pushing_def queue_ok_def sources_def)
  then show ?thesis using assms by (auto simp: run_ok_def ending_def at_end_def)
qed

end
