(* ===== verification/InputProgress.thy ===== *)
theory InputProgress
  imports InputInvariant
begin

unbundle bit_operations_syntax

text \<open>
  Every buffer of the driver that becomes the destination and leaves again was submitted, so that the
  end of a stream is reached after as many buffers of the driver as the stream has frames.
\<close>

section \<open>A destination only leaves by being submitted\<close>

definition grows :: "omx_vdec \<Rightarrow> omx_vdec \<Rightarrow> bool" where
  "grows st st' \<longleftrightarrow> (\<exists>xs. submitted st' = submitted st @ xs \<and> (pdest_frame st \<noteq> None \<and> pdest_frame st' = None \<longrightarrow> xs \<noteq> [])) \<and>
     \<not> input_flush_progress st' \<and> \<not> input_flush_progress st \<and> codec_type_parse st' = codec_type_parse st"

lemma grows_refl: "\<not> input_flush_progress st \<Longrightarrow> grows st st"
  by (auto simp add: grows_def)

lemma grows_trans: "grows a b \<Longrightarrow> grows b c \<Longrightarrow> grows a c"
  by (auto simp: grows_def)

lemma grows_andthen:
  assumes "andthen r f = Some (e, st')" "\<And>e1 st1. r = Some (e1, st1) \<Longrightarrow> grows st st1"
    "\<And>e2 st1 st2. grows st st1 \<Longrightarrow> f st1 = Some (e2, st2) \<Longrightarrow> grows st1 st2"
  shows "grows st st'"
proof -
  obtain e1 st1 where r: "r = Some (e1, st1)" "if e1 = OMX_ErrorNone then f st1 = Some (e, st') else st' = st1"
    using assms(1) by (auto simp: andthen_def split: bind_splits if_splits)
  then show ?thesis using assms(2)[OF r(1)] assms(3) grows_trans by (metis (full_types))
qed

lemma copy_scratch_grows: "copy_scratch f st = Some (e, st') \<Longrightarrow> \<not> input_flush_progress st \<Longrightarrow> grows st st'"
  by (auto simp: copy_scratch_def with_dest_def Let_def grows_def split: bind_splits if_splits)

lemma copy_look_ahead_grows: "copy_look_ahead f st = Some (e, st') \<Longrightarrow> \<not> input_flush_progress st \<Longrightarrow> grows st st'"
  using copy_scratch_grows[of f "st\<lparr>look_ahead_nal := False\<rparr>"]
  by (auto simp: copy_look_ahead_def grows_def split: if_splits)

lemma submit_dest_grows:
  assumes "submit_dest env st = Some (e, st')" "\<forall>b. env b = Accepted" "\<not> input_flush_progress st"
  shows "grows st st'"
  using assms by (auto simp: submit_dest_def with_dest_def empty_this_buffer_proxy_def Let_def reset_input_def grows_def
      split: bind_splits if_splits)

lemma return_source_grows: "return_source st = Some (e, st') \<Longrightarrow> \<not> input_flush_progress st \<Longrightarrow> grows st st'"
  by (auto simp: return_source_def with_source_def next_source_def EmptyBufferDone_def grows_def split: bind_splits list.splits)

lemma grows_flush: "grows st st' \<Longrightarrow> \<not> input_flush_progress st'"
  by (simp add: grows_def)

lemma new_access_unit_grows:
  assumes "new_access_unit env f st = Some (e, st')" "\<forall>b. env b = Accepted" "\<not> input_flush_progress st"
  shows "grows st st'"
proof -
  obtain s d where sd: "psource_frame st = Some s" "pdest_frame st = Some d"
    using assms(1) by (auto simp: new_access_unit_def with_source_def with_dest_def split: bind_splits)
  let ?d = "if nFilledLen s \<noteq> 0 \<or> nFilledLen (h264_scratch st) \<noteq> 0 then d\<lparr>nFlags := nFlags d AND NOT OMX_BUFFERFLAG_EOS\<rparr> else d"
  let ?st = "st\<lparr>look_ahead_nal := True, pdest_frame := Some ?d\<rparr>"
  let ?g = "next_dest (\<lambda>b. b\<lparr>nFilledLen := 0, nFlags := 0, nTimeStamp := LLONG_MAX\<rparr>)"
  have g: "grows st ?st" "grows st (st\<lparr>look_ahead_nal := False\<rparr>)" using assms(3) by (auto simp: grows_def)
  show ?thesis
  proof (cases "nFilledLen d = 0")
    case True
    then have "copy_scratch f (st\<lparr>look_ahead_nal := False\<rparr>) = Some (e, st')"
      using assms(1) sd by (simp add: new_access_unit_def with_source_def with_dest_def)
    then show ?thesis using copy_scratch_grows[of f "st\<lparr>look_ahead_nal := False\<rparr>"] g(2) grows_trans assms(3) by auto
  next
    case False
    then have a: "andthen (submit_dest env ?st) (\<lambda>st. Some (OMX_ErrorNone, ?g st)) = Some (e, st')"
      using assms(1) sd unfolding new_access_unit_def with_source_def with_dest_def Let_def by simp
    then obtain e1 st1 where s1: "submit_dest env ?st = Some (e1, st1)" "e1 = OMX_ErrorNone \<and> st' = ?g st1 \<or> e1 \<noteq> OMX_ErrorNone \<and> st' = st1"
      by (auto simp: andthen_def split: bind_splits if_splits)
    have "grows ?st st1" using submit_dest_grows[OF s1(1) assms(2)] assms(3) by simp
    moreover have "e1 = OMX_ErrorNone \<Longrightarrow> pdest_frame st1 = None"
      using s1(1) by (auto simp: submit_dest_def with_dest_def split: prod.splits if_splits)
    then have "e1 = OMX_ErrorNone \<Longrightarrow> grows st1 (?g st1)"
      using \<open>grows ?st st1\<close> by (simp add: grows_def next_dest_def split: list.split)
    ultimately show ?thesis using s1(2) g(1) grows_trans by blast
  qed
qed

lemma complete_unit_grows:
  assumes "complete_unit m nal0 env st = Some (e, st')" "\<forall>b. env b = Accepted" "\<not> input_flush_progress st"
  shows "grows st st'"
proof -
  have c: "grows st st1" if "check_new_frame m nal0 st = Some (new, st1)" "\<not> input_flush_progress st" for new st st1
    using that by (auto simp: check_new_frame_def grows_def split: bind_splits)
  have t: "grows (st\<lparr>nal_count := n\<rparr>) st1" if "unit_timestamps (st\<lparr>nal_count := n\<rparr>) = Some st1" "\<not> input_flush_progress st" for st n st1
    using that by (auto simp: unit_timestamps_def with_dest_def Let_def grows_def split: bind_splits if_splits)
  have n: "grows st (st\<lparr>nal_count := n\<rparr>)" if "\<not> input_flush_progress st" for n and st :: omx_vdec using that by (auto simp: grows_def)
  have b: "grows st st1" if "do { (new, st) \<leftarrow> check_new_frame m nal0 st; st \<leftarrow> unit_timestamps (st\<lparr>nal_count := nal_count st + 1\<rparr>);
      Some (new, st) } = Some (new, st1)" for new st1
    using that c[OF _ assms(3)] t n grows_flush grows_trans by (auto split: bind_splits) metis
  let ?sc = "\<lambda>st d. if u_nalu_type (mutils st) = NALU_TYPE_EOSEQ then d\<lparr>nFlags := nFlags d OR QOMX_VIDEO_BUFFERFLAG_EOSEQ\<rparr> else d"
  show ?thesis
  proof (cases "nal_count st = 0 \<and> nFilledLen (h264_scratch st) = 0")
    case True
    then show ?thesis using assms(1,3) by (auto simp: complete_unit_def with_source_def grows_def split: bind_splits)
  next
    case False
    then obtain new st1 where s: "(if nFilledLen (h264_scratch st) \<noteq> 0 then do { (new, st) \<leftarrow> check_new_frame m nal0 st;
          st \<leftarrow> unit_timestamps (st\<lparr>nal_count := nal_count st + 1\<rparr>); Some (new, st) } else Some (False, st)) = Some (new, st1)"
        "(if \<not> new then copy_scratch (?sc st1) st1 else if nFilledLen (h264_scratch st1) \<noteq> 0 then new_access_unit env (\<lambda>d. d) st1
          else Some (OMX_ErrorNone, st1)) = Some (e, st')"
      using assms(1) unfolding complete_unit_def with_source_def if_not_P[OF False]
      by (auto split: bind_splits)
    have g: "grows st st1" using s(1) b grows_refl[OF assms(3)] by (auto split: if_splits)
    then have "grows st1 st'" using s(2) copy_scratch_grows[of "?sc st1" st1 e st'] new_access_unit_grows[OF _ assms(2)] grows_flush grows_refl
      by (auto split: if_splits)
    then show ?thesis using g grows_trans by blast
  qed
qed

lemma last_unit_grows:
  assumes "last_unit m nal0 g st = Some (e, g', st')" "\<not> input_flush_progress st"
  shows "grows st st'"
proof -
  obtain d where d: "pdest_frame st = Some d" using assms(1) by (auto simp: last_unit_def with_dest_def split: bind_splits)
  consider "st' = st" | f where "copy_scratch f st = Some (e, st')"
    | new st1 where "check_new_frame m nal0 st = Some (new, st1)" "st' = st1\<lparr>pdest_frame := pdest_frame st'\<rparr> \<or> True"
      "(\<exists>f. copy_scratch f st1 = Some (e, st')) \<or> (\<exists>d t. pdest_frame st1 \<noteq> None \<and> st' = st1\<lparr>pdest_frame := Some d, h264_last_au_ts := t\<rparr>)"
    using assms(1) unfolding last_unit_def with_dest_def
    by (auto split: if_splits bind_splits) blast+
  then show ?thesis
  proof cases
    case 3
    then have "grows st st1" using assms(2) by (auto simp: check_new_frame_def grows_def split: bind_splits)
    moreover have "grows st1 st'" using 3(3) copy_scratch_grows grows_flush[OF calculation] by (auto simp: grows_def)
    ultimately show ?thesis using grows_trans by blast
  qed (use assms(2) copy_scratch_grows grows_refl in blast)+
qed

lemma end_of_stream_grows:
  assumes "end_of_stream m nal0 env g st = Some (e, st')" "\<forall>b. env b = Accepted" "\<not> input_flush_progress st"
  shows "grows st st'"
proof (cases "pdest_frame st = None")
  case True
  then show ?thesis using assms(1,3) grows_refl by (auto simp: end_of_stream_def with_source_def split: bind_splits)
next
  case False
  then obtain s d0 e1 g1 st1 where s: "psource_frame st = Some s" "last_unit m nal0 g st = Some (e1, g1, st1)" "pdest_frame st = Some d0"
    using assms(1) by (auto simp: end_of_stream_def with_source_def split: bind_splits)
  have g1: "grows st st1" by (rule last_unit_grows[OF s(2) assms(3)])
  show ?thesis
  proof (cases "e1 = OMX_ErrorNone")
    case True
    then obtain d where d: "pdest_frame st1 = Some d"
      using assms(1) s False by (auto simp: end_of_stream_def with_source_def with_dest_def split: bind_splits)
    let ?st2 = "if g1 then st1\<lparr>pdest_frame := Some (d\<lparr>nFlags := nFlags (h264_scratch st1) OR nFlags s\<rparr>)\<rparr> else st1"
    have a: "andthen (submit_dest env ?st2) (\<lambda>st. let st = st\<lparr>frame_count := frame_count st + 1\<rparr> in
        if g1 then return_source st else Some (OMX_ErrorNone, st)) = Some (e, st')"
    proof -
      have "end_of_stream m nal0 env g st = with_dest st1 (\<lambda>d.
          let st = (if g1 then st1\<lparr>pdest_frame := Some (d\<lparr>nFlags := nFlags (h264_scratch st1) OR nFlags s\<rparr>)\<rparr> else st1) in
          andthen (submit_dest env st) (\<lambda>st. let st = st\<lparr>frame_count := frame_count st + 1\<rparr> in
            if g1 then return_source st else Some (OMX_ErrorNone, st)))"
        unfolding end_of_stream_def with_source_def s(1,3) Option.bind.bind_lunit option.case s(2) True prod.case by simp
      then show ?thesis using assms(1) unfolding with_dest_def d Option.bind.bind_lunit Let_def by (rule trans[OF sym])
    qed
    have g2: "grows st1 ?st2" using grows_flush[OF g1] d by (simp add: grows_def)
    have "grows ?st2 st'"
    proof (rule grows_andthen[OF a])
      show "grows ?st2 st2" if "submit_dest env ?st2 = Some (e2, st2)" for e2 st2
        using submit_dest_grows[OF that assms(2)] grows_flush[OF g2] by blast
      fix e2 st2 st3
      assume g: "grows ?st2 st2" and r: "(let st = st2\<lparr>frame_count := frame_count st2 + 1\<rparr> in if g1 then return_source st else Some (OMX_ErrorNone, st)) = Some (e2, st3)"
      have f: "grows st2 (st2\<lparr>frame_count := frame_count st2 + 1\<rparr>)" using grows_flush[OF g] by (auto simp: grows_def)
      then have "grows (st2\<lparr>frame_count := frame_count st2 + 1\<rparr>) st3"
        using r return_source_grows[of "st2\<lparr>frame_count := frame_count st2 + 1\<rparr>"] grows_flush grows_refl by (auto simp: Let_def split: if_splits)
      then show "grows st2 st3" using f grows_trans by blast
    qed
    then show ?thesis using g1 g2 grows_trans by blast
  next
    case e: False
    then show ?thesis using assms(1) s False g1 by (auto simp: end_of_stream_def with_source_def)
  qed
qed

lemma parse_to_scratch_grows:
  assumes "parse_to_scratch st = Some (e, r, st')" "\<not> input_flush_progress st"
  shows "grows st st'"
  using assms by (auto simp: parse_to_scratch_def with_source_def grows_def split: bind_splits if_splits)

lemma push_input_h264_grows:
  assumes "push_input_h264 m nal0 env st = Some (e, st')" "\<forall>b. env b = Accepted" "\<not> input_flush_progress st"
  shows "grows st st'"
proof (cases "pBuffer (h264_scratch st) = []")
  case True
  then show ?thesis using assms grows_refl by (simp add: push_input_h264_def)
next
  case False
  let ?unit = "\<lambda>p st. if p = 0 then complete_unit m nal0 env st else scratch_full st"
  let ?tail = "\<lambda>g st. with_source st (\<lambda>s. if nFilledLen s \<noteq> 0 then Some (OMX_ErrorNone, st)
          else if has_eos s then end_of_stream m nal0 env g st
          else if g then return_source st else Some (OMX_ErrorNone, st))"
  have u: "grows st st'" if "?unit p st = Some (e, st')" "\<not> input_flush_progress st" for p :: u32 and st e st'
    using that complete_unit_grows[OF _ assms(2)] grows_refl by (auto simp: scratch_full_def Let_def split: if_splits)
  have t: "grows st st'" if "?tail g st = Some (e, st')" "\<not> input_flush_progress st" for g st e st'
    using that end_of_stream_grows[OF _ assms(2)] return_source_grows grows_refl
    by (auto simp: with_source_def split: if_splits bind_splits)
  show ?thesis
  proof (rule grows_andthen)
    show "andthen (copy_look_ahead (\<lambda>d. d) st) (\<lambda>st. with_source st (\<lambda>s. with_dest st (\<lambda>d.
        let generate_ebd = \<not> (nFilledLen s = 0 \<and> has_eos s \<and> nFilledLen d \<noteq> 0) in do {
        (e, partial_frame, st) \<leftarrow> parse_to_scratch st;
        if e \<noteq> OMX_ErrorNone then Some (e, st) else andthen (?unit partial_frame st) (?tail generate_ebd) }))) = Some (e, st')"
      using assms(1) False by (simp add: push_input_h264_def)
    show "grows st st1" if "copy_look_ahead (\<lambda>d. d) st = Some (e1, st1)" for e1 st1
      using copy_look_ahead_grows[OF that assms(3)] .
    fix e2 st1 st2
    assume g: "grows st st1" and r: "with_source st1 (\<lambda>s. with_dest st1 (\<lambda>d.
        let generate_ebd = \<not> (nFilledLen s = 0 \<and> has_eos s \<and> nFilledLen d \<noteq> 0) in do {
        (e, partial_frame, st) \<leftarrow> parse_to_scratch st1;
        if e \<noteq> OMX_ErrorNone then Some (e, st) else andthen (?unit partial_frame st) (?tail generate_ebd) })) = Some (e2, st2)"
    then obtain ge e3 p st3 where s3: "parse_to_scratch st1 = Some (e3, p, st3)"
        "if e3 \<noteq> OMX_ErrorNone then st2 = st3 else andthen (?unit p st3) (?tail ge) = Some (e2, st2)"
      unfolding with_source_def with_dest_def Let_def by (auto split: bind_splits if_splits)
    have g3: "grows st1 st3" using parse_to_scratch_grows[OF s3(1) grows_flush[OF g]] .
    have "grows st3 st2" if "andthen (?unit p st3) (?tail ge) = Some (e2, st2)"
      by (rule grows_andthen[OF that]) (use u t grows_flush[OF g3] grows_flush in blast)+
    then show "grows st1 st2" using s3(2) g3 grows_trans by (auto split: if_splits)
  qed
qed

lemma push_loop_grows:
  assumes "push_loop m nal0 env st = Some (e, st')" "\<forall>b. env b = Accepted" "\<not> input_flush_progress st" "codec_type_parse st = CODEC_TYPE_H264"
  shows "grows st st'"
  using assms
proof (induction m nal0 env st "(e, st')" arbitrary: e st' rule: push_loop.raw_induct[rotated, consumes 1])
  case (1 f m nal0 env st e st')
  show ?case
  proof (cases "pdest_frame st \<noteq> None \<and> psource_frame st \<noteq> None")
    case True
    then obtain e1 st1 where r: "push_input_h264 m nal0 env st = Some (e1, st1)"
        "if e1 \<noteq> OMX_ErrorNone then st' = st1 else f m nal0 env st1 = Some (e, st')"
      using 1(2) 1(5) True by (auto simp: push_input_def split: bind_splits if_split_asm)
    have g: "grows st st1" using push_input_h264_grows[OF r(1)] 1 by blast
    then have "codec_type_parse st1 = CODEC_TYPE_H264" using 1 by (simp add: grows_def)
    then have h: "f m nal0 env st1 = Some (e, st') \<Longrightarrow> grows st1 st'"
      using 1(1) 1(3) grows_flush[OF g] by blast
    show ?thesis
    proof (cases "e1 = OMX_ErrorNone")
      case True
      then show ?thesis using h r(2) g grows_trans by auto
    qed (use r(2) g in simp)
  next
    case False
    then show ?thesis using 1 grows_refl by auto
  qed
qed

section \<open>The end is reached\<close>

lemma waiting_submitted:
  assumes "run_ok m nal0 M N p0 u0 X [] st" "stream_ok m nal0 M N p0 u0 X" "psource_frame st \<noteq> None"
  shows "length (submitted st) \<le> length (h264_frames m nal0 p0 u0 X)" "pdest_frame st = None" "\<not> input_flush_progress st"
    "codec_type_parse st = CODEC_TYPE_H264"
proof -
  have "\<not> stream_done (h264_frames m nal0 p0 u0 X) st" using assms(3) by (simp add: stream_done_def)
  then consider (push) "pushing m nal0 M N p0 u0 X [] st" | (fin) "input_ok M N st"
      "data_done (h264_frames m nal0 p0 u0 X) st \<or> frame_waits N (h264_frames m nal0 p0 u0 X) st"
    using assms(1) unfolding run_ok_def ending_def by blast
  then have r: "list_all (\<lambda>f. f \<noteq> []) (map contents (submitted st)) \<and> input_ok M N st"
  proof cases
    case push
    then obtain fs news us d where f: "group_units news us [] = (fs, d)" "map contents (submitted st) = fs"
      unfolding pushing_def follows_def input_at_def by blast
    have "list_all (\<lambda>f. f \<noteq> []) fs" using group_frames_ne[of news us "[]"] f(1) by simp
    then show ?thesis using f(2) push by (simp add: pushing_def)
  next
    case fin
    then show ?thesis using h264_frames_ne[of m nal0 p0 u0 X] by (auto simp: data_done_def frame_waits_def input_at_def)
  qed
  then have "filter (\<lambda>f. f \<noteq> []) (map contents (submitted st)) = map contents (submitted st)" by (simp add: list_all_iff)
  then obtain rest where "map contents (submitted st) @ rest = h264_frames m nal0 p0 u0 X"
    using run_ok_submitted[OF assms(1,2)] by auto
  then have "length (submitted st) + length rest = length (h264_frames m nal0 p0 u0 X)" by (metis length_append length_map)
  then show "length (submitted st) \<le> length (h264_frames m nal0 p0 u0 X)" by simp
  show "pdest_frame st = None" "\<not> input_flush_progress st" "codec_type_parse st = CODEC_TYPE_H264"
    using r assms(1,3) unfolding run_ok_def input_ok_def by auto
qed

lemma driver_progress:
  assumes "stream_ok m nal0 M N p0 u0 X" "run_ok m nal0 M N p0 u0 X [] st" "\<forall>b. env b = Accepted" "dest_buffer N b"
  shows "\<exists>st'. empty_buffer_done m nal0 env b st = Some (OMX_ErrorNone, st') \<and> run_ok m nal0 M N p0 u0 X [] st' \<and>
    (psource_frame st' = None \<or> psource_frame st \<noteq> None \<and> length (submitted st) < length (submitted st'))"
proof -
  obtain st' where st': "empty_buffer_done m nal0 env b st = Some (OMX_ErrorNone, st')" "run_ok m nal0 M N p0 u0 X [] st'"
    using driver_ok[OF assms] by blast
  let ?st = "st\<lparr>pdest_frame := Some (b\<lparr>nFilledLen := 0, nTimeStamp := LLONG_MAX\<rparr>)\<rparr>"
  show ?thesis
  proof (cases "psource_frame st")
    case None
    then have "m_input_pending_q st = []" using run_ok_done[OF assms(2)] by (simp add: stream_done_def)
    then have "psource_frame st' = None" using st'(1) None push_no_source[of ?st m nal0 env]
      by (auto simp: empty_buffer_done_def split: if_splits)
    then show ?thesis using st' by simp
  next
    case (Some s)
    note w = waiting_submitted[OF assms(2,1)]
    have "push_loop m nal0 env ?st = Some (OMX_ErrorNone, st') \<or> (\<exists>e. push_loop m nal0 env ?st = Some (e, st'))"
      using st'(1) w(2,3) Some by (auto simp: empty_buffer_done_def push_input_buffer_def split: bind_splits)
    then obtain e where "push_loop m nal0 env ?st = Some (e, st')" by blast
    from push_loop_grows[OF this assms(3)] have g: "grows ?st st'" using w(3,4) Some by simp
    show ?thesis
    proof (cases "psource_frame st' = None")
      case False
      then have "pdest_frame st' = None" using st'(2) unfolding run_ok_def by auto
      then have "length (submitted st) < length (submitted st')" using g by (auto simp: grows_def)
      then show ?thesis using st' Some by simp
    qed (use st' in simp)
  qed
qed

lemma drivers_finish:
  assumes "stream_ok m nal0 M N p0 u0 X" "run_ok m nal0 M N p0 u0 X [] st" "\<forall>b. env b = Accepted" "list_all (dest_buffer N) ds"
    "psource_frame st = None \<or> length (h264_frames m nal0 p0 u0 X) < length ds + length (submitted st)"
  shows "\<exists>st'. input_run m nal0 env (map Driver ds) st = Some st' \<and> stream_done (h264_frames m nal0 p0 u0 X) st'"
  using assms(2,4,5)
proof (induction ds arbitrary: st)
  case Nil
  then have "psource_frame st = None" using waiting_submitted(1)[OF Nil(1) assms(1)] by force
  then show ?case using run_ok_done[OF Nil(1)] by simp
next
  case (Cons d ds)
  obtain st' where st': "empty_buffer_done m nal0 env d st = Some (OMX_ErrorNone, st')" "run_ok m nal0 M N p0 u0 X [] st'"
      "psource_frame st' = None \<or> psource_frame st \<noteq> None \<and> length (submitted st) < length (submitted st')"
    using driver_progress[OF assms(1) Cons.prems(1) assms(3), of d] Cons.prems(2) by auto
  have "psource_frame st' = None \<or> length (h264_frames m nal0 p0 u0 X) < length ds + length (submitted st')"
    using st'(3) Cons.prems(3) by auto
  then show ?case using Cons.IH[OF st'(2)] Cons.prems(2) st'(1) by simp
qed

lemma input_run_append: "input_run m nal0 env (es @ fs) st = Option.bind (input_run m nal0 env es st) (input_run m nal0 env fs)"
proof (induction es arbitrary: st)
  case (Cons e es)
  then show ?case by (cases e) (auto split: bind_splits intro!: Option.bind_cong)
qed simp

end
