(* ===== verification/InputProps.thy ===== *)
theory InputProps
  imports InputProgress
begin

unbundle bit_operations_syntax

text \<open>The properties of the input side of the decoder.\<close>

section \<open>Streams of access units\<close>

text \<open>The bytes of an access unit in a buffer of the driver: each unit with a start code of four bytes.\<close>

definition au_frame :: "access_unit \<Rightarrow> byte list" where
  "au_frame x = concat (map nal_buffer (au_nals x))"

lemma nal_buffer_ne: "nal_buffer x \<noteq> []"
  by (simp add: nal_buffer_def nal_bytes_def)

lemma au_nals_ne: "au_nals x \<noteq> []"
  by (simp add: au_nals_def split: prod.split)

lemma group_rest: "length us = k \<Longrightarrow> group_units (replicate k False) us d = ([], d @ concat us)"
  by (induction us arbitrary: k d) (auto simp: replicate_Suc)

lemma group_one_unit:
  assumes "us \<noteq> []"
  shows "group_units (b # replicate (length us - 1) False) us [] = ([], concat us)"
    "d \<noteq> [] \<Longrightarrow> group_units (True # replicate (length us - 1) False) us d = ([d], concat us)"
  using assms group_rest[of "tl us"] by (cases us; simp)+

lemma au_frame_ne: "au_frame x \<noteq> []"
  using au_nals_ne[of x] nal_buffer_ne by (cases "au_nals x") (auto simp: au_frame_def)

lemma group_access_units:
  assumes "d \<noteq> []"
  shows "group_units (concat (map (\<lambda>y. True # replicate (length (au_nals y) - 1) False) xs)) (map nal_buffer (concat (map au_nals xs))) d =
    (butlast (d # map au_frame xs), last (d # map au_frame xs))"
  using assms
proof (induction xs arbitrary: d)
  case (Cons x xs)
  have l: "length (True # replicate (length (au_nals x) - 1) False) = length (map nal_buffer (au_nals x))"
    using au_nals_ne[of x] by (cases "au_nals x") auto
  have "group_units (True # replicate (length (map nal_buffer (au_nals x)) - 1) False) (map nal_buffer (au_nals x)) d = ([d], au_frame x)"
    using group_one_unit(2)[of "map nal_buffer (au_nals x)" d] au_nals_ne Cons.prems by (simp add: au_frame_def)
  then show ?case using group_units_append[OF l] Cons.IH[OF au_frame_ne, of x] by (simp add: map_concat)
qed simp

lemma group_stream:
  "group_units (((au_prefix x = []) # replicate (length (au_nals x) - 1) False) @
      concat (map (\<lambda>y. True # replicate (length (au_nals y) - 1) False) xs)) (map nal_buffer (concat (map au_nals (x # xs)))) [] =
    (butlast (map au_frame (x # xs)), last (map au_frame (x # xs)))"
proof -
  have l: "length ((au_prefix x = []) # replicate (length (au_nals x) - 1) False) = length (map nal_buffer (au_nals x))"
    using au_nals_ne[of x] by (cases "au_nals x") auto
  have "group_units ((au_prefix x = []) # replicate (length (map nal_buffer (au_nals x)) - 1) False) (map nal_buffer (au_nals x)) [] = ([], au_frame x)"
    using group_one_unit(1)[of "map nal_buffer (au_nals x)"] au_nals_ne by (simp add: au_frame_def)
  then show ?thesis using group_units_append[OF l] group_access_units[OF au_frame_ne[of x], of xs] by simp
qed

lemma units_cut:
  assumes "parser_ok H264_start_code p" "parse_state p = A0" "list_all unit_ok ws" "ws \<noteq> []"
  shows "\<exists>us q acc. cut H264_start_code p [] (concat (map unit_bytes ws)) = (us, q, acc) \<and> us \<noteq> [] \<and>
    units_of (us @ [acc]) = map (nal_buffer \<circ> snd) ws \<and> set (us @ [acc]) \<subseteq> insert [] (set (map (nal_buffer \<circ> snd) ws))"
proof -
  obtain w vs where ws: "ws = w # vs" using assms(4) by (cases ws) auto
  let ?f = "nal_buffer \<circ> snd"
  have "list_all unit_ok (w # vs)" using assms(3) ws by simp
  from cut_units[OF assms(1,2) this] obtain q where "\<not> found q \<and> cut H264_start_code p [] (concat (map unit_bytes (w # vs))) =
      ([] # map ?f (butlast (w # vs)), q, nal_buffer (snd (last (w # vs))))" ..
  from conjunct2[OF this] have q: "cut H264_start_code p [] (concat (map unit_bytes ws)) = ([] # map ?f (butlast ws), q, ?f (last ws))" unfolding ws comp_def .
  have m: "map ?f (butlast ws) @ [?f (last ws)] = map ?f ws" 
    using arg_cong[OF append_butlast_last_id[OF assms(4)], of "map ?f"] by simp
  have "units_of (([] # map ?f (butlast ws)) @ [?f (last ws)]) = filter (\<lambda>u. u \<noteq> []) (map ?f (butlast ws) @ [?f (last ws)])"
    by (simp add: units_of_def)
  also have "\<dots> = map ?f ws" unfolding m using nal_buffer_ne by (simp add: filter_id_conv)
  finally have "units_of (([] # map ?f (butlast ws)) @ [?f (last ws)]) = map ?f ws" .
  moreover have "set (([] # map ?f (butlast ws)) @ [?f (last ws)]) = insert [] (set (map ?f ws))" unfolding m[symmetric] by simp
  ultimately show ?thesis using q by blast
qed

text \<open>A stream of access units with buffers that are large enough.\<close>

definition au_stream :: "nat \<Rightarrow> nat \<Rightarrow> nat \<Rightarrow> access_unit list \<Rightarrow> stream_unit list \<Rightarrow> bool" where
  "au_stream M N n aus ws \<longleftrightarrow> aus \<noteq> [] \<and> list_all au_wf aus \<and> map snd ws = concat (map au_nals aus) \<and> list_all unit_ok ws \<and>
     list_all (fits n) (map snd ws) \<and> n < 2 ^ 32 \<and> 8 \<le> M \<and>
     list_all (\<lambda>x. length (nal_buffer x) + 8 \<le> M) (map snd ws) \<and> list_all (\<lambda>a. length (au_frame a) \<le> N) aus"

lemma au_stream_frames:
  assumes "au_stream M N (length (m_rbspBytes u)) aus ws" "parser_ok H264_start_code p" "parse_state p = A0"
  shows "stream_ok m nal0 M N p (initialize_frame_checking_environment u) (concat (map unit_bytes ws)) \<and>
    h264_frames m nal0 p (initialize_frame_checking_environment u) (concat (map unit_bytes ws)) = map au_frame aus"
proof -
  let ?u = "initialize_frame_checking_environment u" and ?X = "concat (map unit_bytes ws)"
  obtain x xs where aus: "aus = x # xs" using assms(1) by (cases aus) (auto simp: au_stream_def)
  have ws: "map snd ws = concat (map au_nals (x # xs))" "list_all au_wf (x # xs)" "list_all unit_ok ws"
      "list_all (fits (length (m_rbspBytes u))) (concat (map au_nals (x # xs)))" "length (m_rbspBytes u) < 2 ^ 32"
    using assms(1) unfolding au_stream_def aus by auto
  have "ws \<noteq> []" using ws(1) au_nals_ne[of x] by auto
  then obtain us q acc where c: "cut H264_start_code p [] ?X = (us, q, acc)" "us \<noteq> []"
      "units_of (us @ [acc]) = map (nal_buffer \<circ> snd) ws" "set (us @ [acc]) \<subseteq> insert [] (set (map (nal_buffer \<circ> snd) ws))"
    using units_cut[OF assms(2,3) ws(3)] by blast
  have un: "units_of (us @ [acc]) = map nal_buffer (concat (map au_nals (x # xs)))"
    unfolding c(3) ws(1)[symmetric] by simp
  obtain u' where f: "frame_starts m nal0 (units_of (us @ [acc])) ?u = Some (((au_prefix x = []) # replicate (length (au_nals x) - 1) False) @
      concat (map (\<lambda>y. True # replicate (length (au_nals y) - 1) False) xs), u')"
    using starts_stream[OF ws(2,4,5), of m nal0] unfolding un by blast
  note g = group_stream[of x xs, folded un]
  have l: "butlast (map au_frame aus) @ [last (map au_frame aus)] = map au_frame aus" by (simp add: aus)
  have "\<forall>b \<in> set (us @ [acc]). length b + 8 \<le> M"
    using c(4) assms(1) by (auto simp: au_stream_def list_all_iff)
  moreover have "\<forall>b \<in> set (butlast (map au_frame aus) @ [last (map au_frame aus)]). length b \<le> N"
    unfolding l using assms(1) by (auto simp: au_stream_def list_all_iff)
  ultimately have "stream_fits m nal0 M N p ?u ?X"
    unfolding stream_fits_def using c(1) f g by (auto simp: aus)
  moreover have "h264_frames m nal0 p ?u ?X = map au_frame aus"
  proof -
    have "last (map au_frame aus) \<noteq> []" using au_frame_ne by (simp add: aus last_map)
    then have "units_of [last (map au_frame aus)] = [last (map au_frame aus)]" by simp
    then show ?thesis using f g l unfolding h264_frames_def c(1) by (simp add: aus del: units_of_simps)
  qed
  ultimately show ?thesis using c(1,2) assms(2) by (simp add: stream_ok_def)
qed

section \<open>Properties\<close>

text \<open>
  C26: The client sends an H.264 stream in at most 100 buffers cut anywhere, none of them empty, and after them the end of
  the stream in an empty buffer of its own; all units and frames have room in the buffers, and the driver accepts what it gets.
  Then, whenever the driver returns its own buffers, every call returns without an error, what is submitted to the driver are the
  first frames of the stream, in order and each of them whole, and a source only waits if there is no free buffer to fill.
  When no source waits after the end of the stream, all frames are submitted, and the end is marked on
  the last buffer and on no other. (With the end of the stream marked on a buffer that has data a frame can be lost.)
\<close>
theorem input_frames_in_order:
  assumes "stream_ok m nal0 M N p0 u0 (concat (map contents (client_buffers es @ cs)))" "input_start M N p0 u0 st"
    "sources_ok (client_buffers es @ cs)" "length (client_buffers es @ cs) \<le> 100" "list_all (dest_buffer N) (driver_buffers es)"
    "\<forall>b. env b = Accepted"
  shows "\<exists>st' rest. input_run m nal0 env es st = Some st' \<and>
    filter (\<lambda>f. f \<noteq> []) (map contents (submitted st')) @ rest = h264_frames m nal0 p0 u0 (concat (map contents (client_buffers es @ cs))) \<and>
    (psource_frame st' = None \<or> pdest_frame st' = None) \<and>
    (cs = [] \<and> psource_frame st' = None \<longrightarrow> rest = [] \<and>
       (\<exists>bs b. submitted st' = bs @ [b] \<and> has_eos b \<and> list_all (\<lambda>b. \<not> has_eos b) bs))"
proof -
  let ?X = "concat (map contents (client_buffers es @ cs))"
  have "run_ok m nal0 M N p0 u0 ?X (client_buffers es @ cs) st"
    using input_start_ok[OF assms(2,3,4) refl] .
  from input_run_ok[OF assms(1) this assms(6,5)] obtain st' where st': "input_run m nal0 env es st = Some st'"
    "run_ok m nal0 M N p0 u0 ?X cs st'" by blast
  obtain rest where rest: "filter (\<lambda>f. f \<noteq> []) (map contents (submitted st')) @ rest = h264_frames m nal0 p0 u0 ?X"
    using run_ok_submitted[OF st'(2) assms(1)] by blast
  have "rest = [] \<and> (\<exists>bs b. submitted st' = bs @ [b] \<and> has_eos b \<and> list_all (\<lambda>b. \<not> has_eos b) bs)"
    if "cs = []" "psource_frame st' = None"
  proof -
    have d: "stream_done (h264_frames m nal0 p0 u0 ?X) st'" using run_ok_done st'(2) that by blast
    then have "filter (\<lambda>f. f \<noteq> []) (map contents (submitted st')) = h264_frames m nal0 p0 u0 ?X" unfolding stream_done_def by blast
    then show ?thesis using rest d unfolding stream_done_def by (metis append_self_conv)
  qed
  moreover have "psource_frame st' = None \<or> pdest_frame st' = None" using st'(2) unfolding run_ok_def by auto
  ultimately show ?thesis using st'(1) rest by (intro exI[of _ st'] exI[of _ rest]) simp
qed

text \<open>
  C25: A stream of access units without delimiters that the client sends to a decoder just begun, in at most 100 buffers cut anywhere,
  none of them empty, and the end of the stream after them in an empty buffer of its own, reaches the driver as one buffer for
  each access unit, its NAL units with start codes of four bytes, once more buffers of the driver came back than there are
  access units. Units and frames have room in the buffers, and the driver accepts what it gets.
\<close>
theorem access_units_submitted:
  assumes "au_stream M N (length (m_rbspBytes u)) aus ws" "parser_ok H264_start_code p0" "parse_state p0 = A0"
    "input_start M N p0 (initialize_frame_checking_environment u) st" "sources_ok (client_buffers es)"
    "length (client_buffers es) \<le> 100" "concat (map contents (client_buffers es)) = concat (map unit_bytes ws)"
    "list_all (dest_buffer N) (driver_buffers es @ ds)" "length aus < length ds" "\<forall>b. env b = Accepted"
  shows "\<exists>st' bs b. input_run m nal0 env (es @ map Driver ds) st = Some st' \<and> psource_frame st' = None \<and>
    filter (\<lambda>f. f \<noteq> []) (map contents (submitted st')) = map au_frame aus \<and>
    submitted st' = bs @ [b] \<and> has_eos b \<and> list_all (\<lambda>b. \<not> has_eos b) bs"
proof -
  let ?X = "concat (map unit_bytes ws)" and ?u = "initialize_frame_checking_environment u"
  have s: "stream_ok m nal0 M N p0 ?u ?X" "h264_frames m nal0 p0 ?u ?X = map au_frame aus"
    using au_stream_frames[OF assms(1-3)] by auto
  have "run_ok m nal0 M N p0 ?u ?X (client_buffers es @ []) st"
    using input_start_ok[OF assms(4,5,6,7)] by simp
  from input_run_ok[OF s(1) this assms(10)] assms(8) obtain st1 where st1: "input_run m nal0 env es st = Some st1"
    "run_ok m nal0 M N p0 ?u ?X [] st1" by auto
  obtain st' where "input_run m nal0 env (map Driver ds) st1 = Some st'" "stream_done (map au_frame aus) st'"
    using drivers_finish[OF s(1) st1(2) assms(10), of ds] assms(8,9) unfolding s(2) by auto
  moreover from this have "input_run m nal0 env (es @ map Driver ds) st = Some st'" using st1(1) by (simp add: input_run_append)
  ultimately show ?thesis unfolding stream_done_def by blast
qed

text \<open>A decoder that has just begun and its buffers.\<close>

definition test_buffer :: "byte list \<Rightarrow> u32 \<Rightarrow> omx_buffer" where
  "test_buffer bs fl = \<lparr>pBuffer = bs @ replicate (64 - length bs) 0, nAllocLen = 64, nFilledLen = of_nat (length bs), nOffset = 0,
     nFlags = fl, nTimeStamp = 0\<rparr>"

definition test_utils :: h264_utils where
  "test_utils = \<lparr>m_rbspBytes = replicate 64 0, m_prv_nalu = header_of 0, m_forceToStichNextNAL = False, m_au_data = False, u_nalu_type = 0\<rparr>"

definition test_decoder :: "codec_type \<Rightarrow> omx_vdec" where
  "test_decoder codec = \<lparr>psource_frame = None, pdest_frame = None, m_input_pending_q = [],
     m_input_free_q = [test_buffer [] 0, test_buffer [] 0, test_buffer [] 0, test_buffer [] 0],
     m_frame_parser = snd (init_start_codes codec frame_parse), mutils = initialize_frame_checking_environment test_utils,
     m_hevc_utils = \<lparr>h_forceToStichNextNAL = False, h_au_data = False, h_nalu_type = 63\<rparr>, h264_scratch = test_buffer [] 0,
     v_nal_length = 0, nal_count = 0, frame_count = 0, look_ahead_nal = False, h264_last_au_ts = LLONG_MAX, h264_last_au_flags = 0,
     codec_type_parse = codec, first_frame = False, m_vendor_config = None, m_vc1_profile = VC1_AP, input_flush_progress = False,
     codec_config_flag = False, submitted = [], returned = [], posted_ebd = []\<rparr>"

definition test_events :: "input_event list" where
  "test_events = [Client (test_buffer [0, 0, 1, 0x65, 0x80, 0, 0] 0), Client (test_buffer [1, 0x41, 0x80, 0, 0, 1, 0x41] 0),
     Driver (test_buffer [] 0), Client (test_buffer [0x40, 0, 0, 1, 0x41, 0x80] 0), Client (test_buffer [] 1)]"

definition test_units :: "stream_unit list" where
  "test_units = [(2, 0x65, [0x80]), (2, 0x41, [0x80]), (2, 0x41, [0x40]), (2, 0x41, [0x80])]"

definition test_aus :: "access_unit list" where
  "test_aus = [([], 0x65, [0x80], []), ([], 0x41, [0x80], [(1, [0x40])]), ([], 0x41, [0x80], [])]"

lemma test_start: "input_start 64 64 (snd (init_start_codes CODEC_TYPE_H264 frame_parse)) (initialize_frame_checking_environment test_utils)
    (test_decoder CODEC_TYPE_H264)"
  by (simp add: input_start_def input_ok_def test_decoder_def test_buffer_def buffer_ok_def dest_buffer_def has_eos_def contents_def no_eos_def)

lemma test_parser: "parser_ok H264_start_code (snd (init_start_codes CODEC_TYPE_H264 frame_parse))"
    "parse_state (snd (init_start_codes CODEC_TYPE_H264 frame_parse)) = A0"
  by (simp_all add: init_start_codes_def frame_parse_def parser_ok_def)

lemma test_sources: "sources_ok (client_buffers test_events)" "list_all (dest_buffer 64) (driver_buffers test_events @ replicate 4 (test_buffer [] 0))"
    "length (client_buffers test_events) \<le> 100"
    "concat (map contents (client_buffers test_events)) = concat (map unit_bytes test_units)"
  by code_simp+

lemma test_stream: "au_stream 64 64 64 test_aus test_units"
proof -
  have "ue_code 0 = [True]" "ue_code 1 = [False, True, False]" by (simp_all add: ue_code_def bin.simps)
  moreover have "bytes_bits [128] = [True, False, False, False, False, False, False, False]"
    "bytes_bits [64] = [False, True, False, False, False, False, False, False]"
    by code_simp+
  ultimately have "starts_with (ue_code 0) [128]" "starts_with (ue_code 1) [64]" by (simp_all add: starts_with_def)
  moreover have "slice_type 101" "slice_type 65" by code_simp+
  ultimately show ?thesis
    by (simp add: au_stream_def test_aus_def test_units_def au_wf_def au_nals_def au_frame_def unit_ok_def fits_def nal_buffer_def nal_bytes_def)
qed

theorem access_units_submitted_witness:
  "\<exists>st' bs b. input_run A64 (header_of 0) (\<lambda>_. Accepted) (test_events @ map Driver (replicate 4 (test_buffer [] 0))) (test_decoder CODEC_TYPE_H264) = Some st' \<and>
    psource_frame st' = None \<and> filter (\<lambda>f. f \<noteq> []) (map contents (submitted st')) = map au_frame test_aus \<and>
    submitted st' = bs @ [b] \<and> has_eos b \<and> list_all (\<lambda>b. \<not> has_eos b) bs"
proof -
  have "length (m_rbspBytes test_utils) = 64" "length test_aus < length (replicate 4 (test_buffer [] 0))"
    by (simp_all add: test_utils_def test_aus_def)
  then show ?thesis
    using access_units_submitted[OF _ test_parser test_start test_sources(1,3,4,2), of test_aus "\<lambda>_. Accepted" A64 "header_of 0"] test_stream by simp
qed

theorem input_frames_in_order_witness:
  "\<exists>st' rest. input_run A64 (header_of 0) (\<lambda>_. Accepted) test_events (test_decoder CODEC_TYPE_H264) = Some st' \<and>
    filter (\<lambda>f. f \<noteq> []) (map contents (submitted st')) @ rest = map au_frame test_aus"
proof -
  let ?p = "snd (init_start_codes CODEC_TYPE_H264 frame_parse)" and ?u = "initialize_frame_checking_environment test_utils"
  have "au_stream 64 64 (length (m_rbspBytes test_utils)) test_aus test_units" using test_stream by (simp add: test_utils_def)
  from au_stream_frames[OF this test_parser, of A64 "header_of 0"]
  have s: "stream_ok A64 (header_of 0) 64 64 ?p ?u (concat (map contents (client_buffers test_events)))"
    "h264_frames A64 (header_of 0) ?p ?u (concat (map contents (client_buffers test_events))) = map au_frame test_aus"
    using test_sources(4) by simp_all
  have "list_all (dest_buffer 64) (driver_buffers test_events)" using test_sources(2) by simp
  then show ?thesis using input_frames_in_order[of A64 "header_of 0" 64 64 ?p ?u test_events "[]", OF _ test_start _ _ _, of "\<lambda>_. Accepted"] s test_sources(1,3)
    by auto
qed

section \<open>The end of a stream in a buffer with data\<close>

text \<open>What is submitted after one buffer of the client.\<close>

definition submitted_for :: "codec_type \<Rightarrow> omx_buffer \<Rightarrow> (byte list \<times> bool) list option" where
  "submitted_for codec b = map_option (\<lambda>(e, st). map (\<lambda>b. (contents b, has_eos b)) (submitted st))
     (empty_this_buffer_proxy_arbitrary A64 (header_of 0) (\<lambda>_. Accepted) b (test_decoder codec))"

text \<open>
  A buffer that ends the stream and holds its bytes as well can lose a frame. Here, of three access units in one buffer, the one before
  the last is submitted with the mark of the end, which makes \<open>empty_this_buffer_proxy\<close> drop the
  scratch buffer with the last one.
\<close>
theorem last_access_unit_lost:
  "h264_frames A64 (header_of 0) (snd (init_start_codes CODEC_TYPE_H264 frame_parse)) (initialize_frame_checking_environment test_utils)
     (concat (map unit_bytes test_units)) = [[0, 0, 0, 1, 0x65, 0x80], [0, 0, 0, 1, 0x41, 0x80, 0, 0, 0, 1, 0x41, 0x40], [0, 0, 0, 1, 0x41, 0x80]] \<and>
   submitted_for CODEC_TYPE_H264 (test_buffer (concat (map unit_bytes test_units)) 1) =
     Some [([0, 0, 0, 1, 0x65, 0x80], False), ([0, 0, 0, 1, 0x41, 0x80, 0, 0, 0, 1, 0x41, 0x40], True)]"
proof -
  have "au_stream 64 64 (length (m_rbspBytes test_utils)) test_aus test_units" using test_stream by (simp add: test_utils_def)
  then have "h264_frames A64 (header_of 0) (snd (init_start_codes CODEC_TYPE_H264 frame_parse)) (initialize_frame_checking_environment test_utils)
     (concat (map unit_bytes test_units)) = map au_frame test_aus" using au_stream_frames[OF _ test_parser] by blast
  moreover have "map au_frame test_aus = [[0, 0, 0, 1, 0x65, 0x80], [0, 0, 0, 1, 0x41, 0x80, 0, 0, 0, 1, 0x41, 0x40], [0, 0, 0, 1, 0x41, 0x80]]"
    by code_simp
  moreover have "submitted_for CODEC_TYPE_H264 (test_buffer (concat (map unit_bytes test_units)) 1) =
     Some [([0, 0, 0, 1, 0x65, 0x80], False), ([0, 0, 0, 1, 0x41, 0x80, 0, 0, 0, 1, 0x41, 0x40], True)]"
    by code_simp
  ultimately show ?thesis by simp
qed

text \<open>
  For HEVC the last NAL unit is not looked at: here three units that each begin a picture are
  submitted as two frames, the second with two pictures.
\<close>
theorem hevc_last_unit_joined:
  "submitted_for CODEC_TYPE_HEVC (test_buffer [0, 0, 1, 0x26, 1, 0x80, 0, 0, 1, 2, 1, 0x80, 0, 0, 1, 2, 1, 0x80] 1) =
     Some [([0, 0, 0, 1, 0x26, 1, 0x80], False), ([0, 0, 0, 1, 2, 1, 0x80, 0, 0, 0, 1, 2, 1, 0x80], True)] \<and>
   hevc_isNewFrame [0, 0, 0, 1, 2, 1, 0x80] 7 False \<lparr>h_forceToStichNextNAL = False, h_au_data = True, h_nalu_type = 1\<rparr> =
     Some (True, True, \<lparr>h_forceToStichNextNAL = False, h_au_data = True, h_nalu_type = 1\<rparr>)"
  by code_simp

end
