(* ===== verification/OrdMap.thy ===== *)
theory OrdMap
  imports DevPrelude
begin

text \<open>
  \<open>std::map\<close> as the list of its entries in the order of the keys, which is the order of its iterators,
  and the contract its clients rely on as a locale.
\<close>

section \<open>The contract\<close>

locale ordered_map =
  fixes find :: "'m \<Rightarrow> 'k :: linorder \<Rightarrow> 'v option"
    and set_entry :: "'k \<Rightarrow> 'v \<Rightarrow> 'm \<Rightarrow> 'm"
    and erase :: "'k \<Rightarrow> 'm \<Rightarrow> 'm"
    and entries :: "'m \<Rightarrow> ('k \<times> 'v) list"
    and inv :: "'m \<Rightarrow> bool"
  assumes find_set: "inv m \<Longrightarrow> find (set_entry k v m) j = (if j = k then Some v else find m j)"
    and find_erase: "inv m \<Longrightarrow> find (erase k m) j = (if j = k then None else find m j)"
    and inv_set: "inv m \<Longrightarrow> inv (set_entry k v m)"
    and inv_erase: "inv m \<Longrightarrow> inv (erase k m)"
    and entries_sorted: "inv m \<Longrightarrow> sorted_wrt (<) (map fst (entries m))"
    and entries_find: "inv m \<Longrightarrow> (k, v) \<in> set (entries m) \<longleftrightarrow> find m k = Some v"
begin

text \<open>Entries are found in the order of the keys, and each key once.\<close>

lemma entries_distinct: "inv m \<Longrightarrow> distinct (map fst (entries m))"
  using entries_sorted strict_sorted_iff by blast

lemma entries_unique:
  assumes "inv m" "inv n" "\<And>k. find m k = find n k"
  shows "entries m = entries n"
proof -
  have "set (entries m) = set (entries n)" using entries_find assms by (auto simp: set_eq_iff)
  moreover have "sorted (map fst (entries m))" "sorted (map fst (entries n))"
    using entries_sorted assms(1,2) strict_sorted_iff by blast+
  moreover have "inj_on fst (set (entries m))" using entries_distinct[OF assms(1)] by (simp add: distinct_map)
  ultimately show ?thesis using entries_distinct assms(1,2) by (intro map_sorted_distinct_set_unique[of fst]) auto
qed

end

section \<open>The list of entries\<close>

fun map_set :: "'k :: linorder \<Rightarrow> 'v \<Rightarrow> ('k \<times> 'v) list \<Rightarrow> ('k \<times> 'v) list" where
  "map_set k v [] = [(k, v)]"
| "map_set k v ((j, w) # m) = (if k < j then (k, v) # (j, w) # m else if k = j then (k, v) # m else (j, w) # map_set k v m)"

definition map_erase :: "'k \<Rightarrow> ('k \<times> 'v) list \<Rightarrow> ('k \<times> 'v) list" where
  "map_erase k m = filter (\<lambda>e. fst e \<noteq> k) m"

definition map_ok :: "('k :: linorder \<times> 'v) list \<Rightarrow> bool" where
  "map_ok m \<longleftrightarrow> sorted_wrt (<) (map fst m)"

lemma map_ok_simps [simp]: "map_ok []" "map_ok ((k, v) # m) \<longleftrightarrow> (\<forall>j \<in> fst ` set m. k < j) \<and> map_ok m"
  by (auto simp: map_ok_def)

lemma set_map_set: "fst ` set (map_set k v m) = insert k (fst ` set m)"
  by (induction k v m rule: map_set.induct) auto

lemma map_of_set: "map_ok m \<Longrightarrow> map_of (map_set k v m) j = (if j = k then Some v else map_of m j)"
  by (induction k v m rule: map_set.induct) auto

lemma map_of_erase: "map_of (map_erase k m) j = (if j = k then None else map_of m j)"
  by (induction m) (auto simp: map_erase_def)

lemma map_ok_set: "map_ok m \<Longrightarrow> map_ok (map_set k v m)"
  by (induction k v m rule: map_set.induct) (auto simp: set_map_set)

lemma map_ok_erase: "map_ok m \<Longrightarrow> map_ok (map_erase k m)"
  by (induction m) (auto simp: map_erase_def)

lemma map_ok_distinct: "map_ok m \<Longrightarrow> distinct (map fst m)"
  by (simp add: map_ok_def strict_sorted_iff)

interpretation omap: ordered_map map_of map_set map_erase "\<lambda>m. m" map_ok
proof unfold_locales
  show "(k, v) \<in> set m \<longleftrightarrow> map_of m k = Some v" if "map_ok m" for m :: "('a \<times> 'b) list" and k v
    using map_ok_distinct[OF that] by (simp add: eq_commute)
  show "sorted_wrt (<) (map fst m)" if "map_ok m" for m :: "('a \<times> 'b) list" using that by (simp add: map_ok_def)
qed (simp_all add: map_of_set map_of_erase map_ok_set map_ok_erase)

end
