(* ===== verification/GeofenceAdapter.thy ===== *)
theory GeofenceAdapter
  imports OrdMap "HOL-Library.Monad_Syntax"
begin

unbundle bit_operations_syntax

text \<open>
  The geofence adapter (gps/geofence/GeofenceAdapter.cpp) with the client handling of its base class
  (gps/core/LocAdapterBase.cpp). Commands of the clients and events of the modem become messages, which one
  thread handles in order. The modem interface (mLocApi) takes requests and answers each of them later,
  with a message that carries a closure; the closures are the constructors of a datatype.

  The arrays of a command live in memory that its closures share and the last of them frees: an access to
  memory that is not there is None. The C++ pointers of clients are natural numbers, a double is its bits.
  Allocation does not fail. The counter of session ids is static in the code, shared by all adapters; here it is a field of
  the one adapter that is modelled, so ids that other adapters take in between are left out.
\<close>

section \<open>Data\<close>

datatype location_error =
    LOCATION_ERROR_SUCCESS | LOCATION_ERROR_GENERAL_FAILURE | LOCATION_ERROR_CALLBACK_MISSING
  | LOCATION_ERROR_INVALID_PARAMETER | LOCATION_ERROR_ID_EXISTS | LOCATION_ERROR_ID_UNKNOWN
  | LOCATION_ERROR_ALREADY_STARTED | LOCATION_ERROR_GEOFENCES_AT_MAX | LOCATION_ERROR_NOT_SUPPORTED
  | LOCATION_ERROR_TIMEOUT

type_synonym u32 = "32 word"

datatype geofence_key = GeofenceKey (key_client: ptr) (key_id: u32)

text \<open>The order of the keys is by id first.\<close>

definition key_less :: "geofence_key \<Rightarrow> geofence_key \<Rightarrow> bool" where
  "key_less left right \<longleftrightarrow>
     key_id left < key_id right \<or> key_id left = key_id right \<and> key_client left < key_client right"

instantiation geofence_key :: linorder
begin

definition less_geofence_key :: "geofence_key \<Rightarrow> geofence_key \<Rightarrow> bool" where
  "less_geofence_key = key_less"

definition less_eq_geofence_key :: "geofence_key \<Rightarrow> geofence_key \<Rightarrow> bool" where
  "less_eq_geofence_key left right \<longleftrightarrow> left < right \<or> left = right"

instance
  by standard (auto simp: less_geofence_key_def key_less_def less_eq_geofence_key_def geofence_key.expand,
    metis geofence_key.expand linorder_neqE_nat)

end

record geofence_option =
  o_breachTypeMask :: "16 word"
  o_responsiveness :: u32
  o_dwellTime :: u32

record geofence_info =
  i_latitude :: "64 word"
  i_longitude :: "64 word"
  i_radius :: "64 word"

record geofence_object =
  key :: geofence_key
  breachMask :: "16 word"
  responsiveness :: u32
  dwellTime :: u32
  latitude :: "64 word"
  longitude :: "64 word"
  radius :: "64 word"
  paused :: bool

text \<open>Of the callbacks only whether they are there matters.\<close>

record location_callbacks =
  capabilitiesCb :: bool
  collectiveResponseCb :: bool
  geofenceBreachCb :: bool
  geofenceStatusCb :: bool

datatype power_state = POWER_STATE_UNKNOWN | POWER_STATE_SUSPEND | POWER_STATE_RESUME | POWER_STATE_SHUTDOWN

text \<open>
  The closures: for item \<open>i\<close> of the command in block \<open>b\<close>, first the one in the call queue, then the one that
  gets the result; and those of the other requests.
\<close>

datatype geofence_op = AddOp | RemoveOp | PauseOp | ResumeOp | ModifyOp

datatype response =
    ItemCall geofence_op ptr nat nat
  | ItemDone geofence_op ptr nat nat u32
  | StopDone u32 bool
  | RestartDone geofence_object geofence_option geofence_info
  | RestartPaused
  | PowerDone bool u32

datatype api_call =
    CallQueue
  | AddGeofence u32 geofence_option geofence_info
  | RemoveGeofence u32 u32
  | PauseGeofence u32 u32
  | ResumeGeofence u32 u32
  | ModifyGeofence u32 u32 geofence_option

datatype loc_msg =
    MsgAddClient ptr location_callbacks
  | MsgRemoveClient ptr
  | MsgRequestCapabilities ptr
  | MsgGeofences geofence_op ptr nat
  | MsgGeofenceBreach "u32 list" nat
  | MsgGeofenceStatus nat
  | MsgUpdateSystemPowerState power_state
  | MsgSSREvent
  | LocApiResponse response location_error u32

text \<open>
  The arrays of a command. An error that was not written yet is None; the arrays of options and infos are
  None if they are NULL or the command has none.
\<close>

record cmd_block =
  bk_ids :: "u32 list"
  bk_errs :: "location_error option list"
  bk_options :: "geofence_option list option"
  bk_infos :: "geofence_info list option"

text \<open>The last five fields are what the modem and the clients see.\<close>

record adapter =
  mGeofences :: "(u32 \<times> geofence_object) list"
  mGeofenceIds :: "(geofence_key \<times> u32) list"
  mClientData :: "(ptr \<times> location_callbacks) list"
  mSystemPowerState :: power_state
  mEvtMask :: "64 word"
  mSessionIdCounter :: u32
  mIsEngineCapabilitiesKnown :: bool
  mPendingMsgs :: "loc_msg list"
  msg_queue :: "loc_msg list"
  blocks :: "nat \<Rightarrow> cmd_block option"
  next_block :: nat
  outstanding :: "(api_call \<times> response) list"
  answers :: "(nat \<times> ptr \<times> bool \<times> location_error option list \<times> u32 list) list"
  breaches :: "(ptr \<times> u32 list \<times> nat) list"
  statuses :: "(ptr \<times> nat) list"
  capabilities :: "ptr list"

definition sendMsg :: "loc_msg \<Rightarrow> adapter \<Rightarrow> adapter" where
  "sendMsg msg st = st\<lparr>msg_queue := msg_queue st @ [msg]\<rparr>"

definition request :: "api_call \<Rightarrow> response \<Rightarrow> adapter \<Rightarrow> adapter" where
  "request call r st = st\<lparr>outstanding := outstanding st @ [(call, r)]\<rparr>"

section \<open>Clients\<close>

definition LOC_API_ADAPTER_BIT_GEOFENCE_GEN_ALERT :: "64 word" where
  "LOC_API_ADAPTER_BIT_GEOFENCE_GEN_ALERT = push_bit 14 1"

definition LOC_API_ADAPTER_BIT_BATCHED_GENFENCE_BREACH_REPORT :: "64 word" where
  "LOC_API_ADAPTER_BIT_BATCHED_GENFENCE_BREACH_REPORT = push_bit 21 1"

definition LOC_API_ADAPTER_BIT_REPORT_GENFENCE_DWELL :: "64 word" where
  "LOC_API_ADAPTER_BIT_REPORT_GENFENCE_DWELL = push_bit 28 1"

fun clients_mask :: "(ptr \<times> location_callbacks) list \<Rightarrow> 64 word \<Rightarrow> 64 word" where
  "clients_mask [] events = events"
| "clients_mask ((c, cb) # cs) events =
     (let events = (if geofenceBreachCb cb
                  then events OR LOC_API_ADAPTER_BIT_BATCHED_GENFENCE_BREACH_REPORT OR LOC_API_ADAPTER_BIT_REPORT_GENFENCE_DWELL
                  else events);
          events = (if geofenceStatusCb cb then events OR LOC_API_ADAPTER_BIT_GEOFENCE_GEN_ALERT else events) in
      clients_mask cs events)"

definition updateClientsEventMask :: "adapter \<Rightarrow> adapter" where
  "updateClientsEventMask st = st\<lparr>mEvtMask := clients_mask (mClientData st) 0\<rparr>"

definition saveClient :: "ptr \<Rightarrow> location_callbacks \<Rightarrow> adapter \<Rightarrow> adapter" where
  "saveClient client callbacks st = updateClientsEventMask (st\<lparr>mClientData := map_set client callbacks (mClientData st)\<rparr>)"

definition eraseClient :: "ptr \<Rightarrow> adapter \<Rightarrow> adapter" where
  "eraseClient client st = updateClientsEventMask (st\<lparr>mClientData := map_erase client (mClientData st)\<rparr>)"

definition broadcastCapabilities :: "adapter \<Rightarrow> adapter" where
  "broadcastCapabilities st =
     st\<lparr>capabilities := capabilities st @ map fst (filter (\<lambda>(c, cb). capabilitiesCb cb) (mClientData st))\<rparr>"

definition generateSessionId :: "adapter \<Rightarrow> u32 \<times> adapter" where
  "generateSessionId st =
     (let n = (if mSessionIdCounter st + 1 = 0xFFFFFFFF then 1 else mSessionIdCounter st + 1) in
      (n, st\<lparr>mSessionIdCounter := n\<rparr>))"

section \<open>The two maps\<close>

definition getHwIdFromClient :: "ptr \<Rightarrow> u32 \<Rightarrow> adapter \<Rightarrow> u32 option" where
  "getHwIdFromClient client clientId st = map_of (mGeofenceIds st) (GeofenceKey client clientId)"

definition getGeofenceKeyFromHwId :: "u32 \<Rightarrow> adapter \<Rightarrow> geofence_key option" where
  "getGeofenceKeyFromHwId hwId st = map_option key (map_of (mGeofences st) hwId)"

definition saveGeofenceItem :: "ptr \<Rightarrow> u32 \<Rightarrow> u32 \<Rightarrow> geofence_option \<Rightarrow> geofence_info \<Rightarrow> adapter \<Rightarrow> adapter" where
  "saveGeofenceItem client clientId hwId opts info st =
     (let k = GeofenceKey client clientId;
          object = \<lparr>key = k, breachMask = o_breachTypeMask opts, responsiveness = o_responsiveness opts,
            dwellTime = o_dwellTime opts, latitude = i_latitude info, longitude = i_longitude info,
            radius = i_radius info, paused = False\<rparr> in
      st\<lparr>mGeofences := map_set hwId object (mGeofences st), mGeofenceIds := map_set k hwId (mGeofenceIds st)\<rparr>)"

definition removeGeofenceItem :: "u32 \<Rightarrow> adapter \<Rightarrow> adapter" where
  "removeGeofenceItem hwId st =
     (case getGeofenceKeyFromHwId hwId st of
        None \<Rightarrow> st
      | Some k \<Rightarrow>
          if map_of (mGeofenceIds st) k \<noteq> None
          then st\<lparr>mGeofenceIds := map_erase k (mGeofenceIds st), mGeofences := map_erase hwId (mGeofences st)\<rparr>
          else st)"

definition update_item :: "u32 \<Rightarrow> (geofence_object \<Rightarrow> geofence_object) \<Rightarrow> adapter \<Rightarrow> adapter" where
  "update_item hwId f st =
     (case map_of (mGeofences st) hwId of
        None \<Rightarrow> st
      | Some object \<Rightarrow> st\<lparr>mGeofences := map_set hwId (f object) (mGeofences st)\<rparr>)"

definition pauseGeofenceItem :: "u32 \<Rightarrow> adapter \<Rightarrow> adapter" where
  "pauseGeofenceItem hwId = update_item hwId (\<lambda>object. object\<lparr>paused := True\<rparr>)"

definition resumeGeofenceItem :: "u32 \<Rightarrow> adapter \<Rightarrow> adapter" where
  "resumeGeofenceItem hwId = update_item hwId (\<lambda>object. object\<lparr>paused := False\<rparr>)"

definition modifyGeofenceItem :: "u32 \<Rightarrow> geofence_option \<Rightarrow> adapter \<Rightarrow> adapter" where
  "modifyGeofenceItem hwId opts = update_item hwId (\<lambda>object. object\<lparr>breachMask := o_breachTypeMask opts,
     responsiveness := o_responsiveness opts, dwellTime := o_dwellTime opts\<rparr>)"

section \<open>Commands on arrays of geofences\<close>

definition elem :: "'a list \<Rightarrow> nat \<Rightarrow> 'a option" where
  "elem xs i = (if i < length xs then Some (xs ! i) else None)"

definition set_err :: "nat \<Rightarrow> nat \<Rightarrow> location_error \<Rightarrow> adapter \<Rightarrow> adapter option" where
  "set_err b i e st = do {
     bk \<leftarrow> blocks st b;
     (if i < length (bk_errs bk) then Some (st\<lparr>blocks := (blocks st)(b \<mapsto> bk\<lparr>bk_errs := (bk_errs bk)[i := Some e]\<rparr>)\<rparr>)
      else None) }"

text \<open>\<open>reportResponse\<close> calls the client if it has the callback and writes a log message otherwise.\<close>

definition reportResponse :: "ptr \<Rightarrow> nat \<Rightarrow> adapter \<Rightarrow> adapter option" where
  "reportResponse client b st = do {
     bk \<leftarrow> blocks st b;
     let called = (case map_of (mClientData st) client of None \<Rightarrow> False | Some cb \<Rightarrow> collectiveResponseCb cb) in
     Some (st\<lparr>answers := answers st @ [(b, client, called, bk_errs bk, bk_ids bk)]\<rparr>) }"

text \<open>After the last item the client gets the answer and the arrays are freed.\<close>

definition last_item :: "ptr \<Rightarrow> nat \<Rightarrow> nat \<Rightarrow> adapter \<Rightarrow> adapter option" where
  "last_item client b i st = do {
     bk \<leftarrow> blocks st b;
     (if Suc i = length (bk_ids bk) then do {
        st \<leftarrow> reportResponse client b st;
        Some (st\<lparr>blocks := (blocks st)(b := None)\<rparr>) }
      else Some st) }"

definition option_at :: "nat \<Rightarrow> nat \<Rightarrow> adapter \<Rightarrow> geofence_option option" where
  "option_at b i st = do { bk \<leftarrow> blocks st b; opts \<leftarrow> bk_options bk; elem opts i }"

definition info_at :: "nat \<Rightarrow> nat \<Rightarrow> adapter \<Rightarrow> geofence_info option" where
  "info_at b i st = do { bk \<leftarrow> blocks st b; infos \<leftarrow> bk_infos bk; elem infos i }"

definition id_at :: "nat \<Rightarrow> nat \<Rightarrow> adapter \<Rightarrow> u32 option" where
  "id_at b i st = do { bk \<leftarrow> blocks st b; elem (bk_ids bk) i }"

text \<open>The call of the modem for an item.\<close>

definition item_request :: "geofence_op \<Rightarrow> nat \<Rightarrow> nat \<Rightarrow> u32 \<Rightarrow> adapter \<Rightarrow> api_call option" where
  "item_request oper b i hwId st = do {
     clientId \<leftarrow> id_at b i st;
     (case oper of
        AddOp \<Rightarrow> do { opts \<leftarrow> option_at b i st; info \<leftarrow> info_at b i st; Some (AddGeofence clientId opts info) }
      | RemoveOp \<Rightarrow> Some (RemoveGeofence hwId clientId)
      | PauseOp \<Rightarrow> Some (PauseGeofence hwId clientId)
      | ResumeOp \<Rightarrow> Some (ResumeGeofence hwId clientId)
      | ModifyOp \<Rightarrow> do { opts \<leftarrow> option_at b i st; Some (ModifyGeofence hwId clientId opts) }) }"

definition item_call :: "geofence_op \<Rightarrow> ptr \<Rightarrow> nat \<Rightarrow> nat \<Rightarrow> adapter \<Rightarrow> adapter option" where
  "item_call oper client b i st =
     (if oper = AddOp then do {
        call \<leftarrow> item_request oper b i 0 st;
        Some (request call (ItemDone oper client b i 0) st) }
      else do {
        clientId \<leftarrow> id_at b i st;
        (case getHwIdFromClient client clientId st of
           Some hwId \<Rightarrow> do {
             st \<leftarrow> set_err b i LOCATION_ERROR_SUCCESS st;
             call \<leftarrow> item_request oper b i hwId st;
             Some (request call (ItemDone oper client b i hwId) st) }
         | None \<Rightarrow> do {
             st \<leftarrow> set_err b i LOCATION_ERROR_ID_UNKNOWN st;
             last_item client b i st }) })"

text \<open>The result of an item; \<open>data\<close> is the hardware id the modem gives to a new geofence.\<close>

definition item_done :: "geofence_op \<Rightarrow> ptr \<Rightarrow> nat \<Rightarrow> nat \<Rightarrow> u32 \<Rightarrow> location_error \<Rightarrow> u32 \<Rightarrow> adapter \<Rightarrow> adapter option" where
  "item_done oper client b i hwId err data st =
     (case oper of
        AddOp \<Rightarrow> do {
          st \<leftarrow> (if err = LOCATION_ERROR_SUCCESS then do {
                 clientId \<leftarrow> id_at b i st; opts \<leftarrow> option_at b i st; info \<leftarrow> info_at b i st;
                 Some (saveGeofenceItem client clientId data opts info st) } else Some st);
          st \<leftarrow> set_err b i err st;
          last_item client b i st }
      | RemoveOp \<Rightarrow> do {
          st \<leftarrow> set_err b i err (if err = LOCATION_ERROR_SUCCESS then removeGeofenceItem hwId st else st);
          last_item client b i st }
      | PauseOp \<Rightarrow> do {
          st \<leftarrow> set_err b i err (if err = LOCATION_ERROR_SUCCESS then pauseGeofenceItem hwId st else st);
          last_item client b i st }
      | ResumeOp \<Rightarrow>
          if err = LOCATION_ERROR_SUCCESS then do {
            st \<leftarrow> set_err b i err st;
            last_item client b i (resumeGeofenceItem hwId st) }
          else Some st
      | ModifyOp \<Rightarrow> do {
          st \<leftarrow> (if err = LOCATION_ERROR_SUCCESS then do {
                 st \<leftarrow> set_err b i err st;
                 opts \<leftarrow> option_at b i st;
                 Some (modifyGeofenceItem hwId opts st) } else Some st);
          last_item client b i st })"

text \<open>The message of a command: the array of errors, and an entry of the call queue for every item.\<close>

definition arrays_there :: "geofence_op \<Rightarrow> cmd_block \<Rightarrow> bool" where
  "arrays_there oper bk \<longleftrightarrow> (case oper of
     AddOp \<Rightarrow> bk_options bk \<noteq> None \<and> bk_infos bk \<noteq> None
   | ModifyOp \<Rightarrow> bk_options bk \<noteq> None
   | _ \<Rightarrow> True)"

definition proc_geofences :: "geofence_op \<Rightarrow> ptr \<Rightarrow> nat \<Rightarrow> adapter \<Rightarrow> adapter option" where
  "proc_geofences oper client b st = do {
     bk \<leftarrow> blocks st b;
     let n = length (bk_ids bk) in
     if arrays_there oper bk then
       Some (fold (\<lambda>i. request CallQueue (ItemCall oper client b i)) [0..<n]
         (st\<lparr>blocks := (blocks st)(b \<mapsto> bk\<lparr>bk_errs := replicate n None\<rparr>)\<rparr>))
     else Some (st\<lparr>blocks := (blocks st)(b \<mapsto> bk\<lparr>bk_errs := replicate n (Some LOCATION_ERROR_INVALID_PARAMETER)\<rparr>)\<rparr>) }"

definition new_block :: "cmd_block \<Rightarrow> adapter \<Rightarrow> nat \<times> adapter" where
  "new_block bk st = (next_block st, st\<lparr>blocks := (blocks st)(next_block st \<mapsto> bk), next_block := Suc (next_block st)\<rparr>)"

text \<open>Copies of the arrays of the client. \<open>COPY_IF_NOT_NULL\<close> reads as many elements as the client says there are.\<close>

definition copy_array :: "nat \<Rightarrow> 'a list \<Rightarrow> 'a list option" where
  "copy_array mCount xs = (if mCount \<le> length xs then Some (take mCount xs) else None)"

definition copy_if_not_null :: "nat \<Rightarrow> 'a list option \<Rightarrow> 'a list option option" where
  "copy_if_not_null mCount xs = (case xs of None \<Rightarrow> Some None | Some xs \<Rightarrow> map_option Some (copy_array mCount xs))"

fun generate_ids :: "nat \<Rightarrow> adapter \<Rightarrow> u32 list \<times> adapter" where
  "generate_ids 0 st = ([], st)"
| "generate_ids (Suc n) st = (let (k, st) = generateSessionId st; (ks, st) = generate_ids n st in (k # ks, st))"

definition addGeofencesCommand ::
    "ptr \<Rightarrow> nat \<Rightarrow> geofence_option list option \<Rightarrow> geofence_info list option \<Rightarrow> adapter \<Rightarrow> adapter option" where
  "addGeofencesCommand client mCount opts infos st =
     (if mCount = 0 then Some st
      else do {
        let (ids, st) = generate_ids mCount st in do {
        opts \<leftarrow> copy_if_not_null mCount opts;
        infos \<leftarrow> copy_if_not_null mCount infos;
        let (b, st) = new_block \<lparr>bk_ids = ids, bk_errs = [], bk_options = opts, bk_infos = infos\<rparr> st in
        Some (sendMsg (MsgGeofences AddOp client b) st) } })"

text \<open>What the other commands have in common.\<close>

definition geofencesCommand :: "geofence_op \<Rightarrow> ptr \<Rightarrow> nat \<Rightarrow> u32 list \<Rightarrow> geofence_option list option \<Rightarrow> adapter \<Rightarrow> adapter option" where
  "geofencesCommand oper client mCount ids opts st =
     (if mCount = 0 then Some st
      else do {
        ids \<leftarrow> copy_array mCount ids;
        opts \<leftarrow> (if oper = ModifyOp then copy_if_not_null mCount opts else Some None);
        let (b, st) = new_block \<lparr>bk_ids = ids, bk_errs = [], bk_options = opts, bk_infos = None\<rparr> st in
        Some (sendMsg (MsgGeofences oper client b) st) })"

definition removeGeofencesCommand :: "ptr \<Rightarrow> nat \<Rightarrow> u32 list \<Rightarrow> adapter \<Rightarrow> adapter option" where
  "removeGeofencesCommand client mCount ids = geofencesCommand RemoveOp client mCount ids None"

definition pauseGeofencesCommand :: "ptr \<Rightarrow> nat \<Rightarrow> u32 list \<Rightarrow> adapter \<Rightarrow> adapter option" where
  "pauseGeofencesCommand client mCount ids = geofencesCommand PauseOp client mCount ids None"

definition resumeGeofencesCommand :: "ptr \<Rightarrow> nat \<Rightarrow> u32 list \<Rightarrow> adapter \<Rightarrow> adapter option" where
  "resumeGeofencesCommand client mCount ids = geofencesCommand ResumeOp client mCount ids None"

definition modifyGeofencesCommand :: "ptr \<Rightarrow> nat \<Rightarrow> u32 list \<Rightarrow> geofence_option list option \<Rightarrow> adapter \<Rightarrow> adapter option" where
  "modifyGeofencesCommand client mCount ids opts = geofencesCommand ModifyOp client mCount ids opts"

section \<open>Sessions, restart, power\<close>

text \<open>
  The loop of \<open>stopClientSessions\<close> over the entries from the iterator on. Only an erased entry moves the iterator on
  when the client is found.
\<close>

partial_function (option) stop_loop :: "ptr \<Rightarrow> bool \<Rightarrow> (geofence_key \<times> u32) list \<Rightarrow> adapter \<Rightarrow> adapter option" where
  "stop_loop client eraseSession it st =
     (case it of
        [] \<Rightarrow> Some st
      | (k, hwId) # rest \<Rightarrow>
          if client = key_client k then
            let st = (if eraseSession then st\<lparr>mGeofenceIds := map_erase k (mGeofenceIds st)\<rparr> else st);
                st = request (RemoveGeofence hwId (key_id k)) (StopDone hwId eraseSession) st in
            stop_loop client eraseSession (if eraseSession then rest else it) st
          else stop_loop client eraseSession rest st)"

declare stop_loop.simps [code]

definition stopClientSessions :: "ptr \<Rightarrow> bool \<Rightarrow> adapter \<Rightarrow> adapter option" where
  "stopClientSessions client eraseSession st = stop_loop client eraseSession (mGeofenceIds st) st"

definition stop_done :: "u32 \<Rightarrow> bool \<Rightarrow> location_error \<Rightarrow> adapter \<Rightarrow> adapter" where
  "stop_done hwId eraseSession err st =
     (if err = LOCATION_ERROR_SUCCESS \<and> map_of (mGeofences st) hwId \<noteq> None \<and> eraseSession
      then st\<lparr>mGeofences := map_erase hwId (mGeofences st)\<rparr> else st)"

definition object_option :: "geofence_object \<Rightarrow> geofence_option" where
  "object_option object = \<lparr>o_breachTypeMask = breachMask object, o_responsiveness = responsiveness object,
     o_dwellTime = dwellTime object\<rparr>"

definition object_info :: "geofence_object \<Rightarrow> geofence_info" where
  "object_info object = \<lparr>i_latitude = latitude object, i_longitude = longitude object, i_radius = radius object\<rparr>"

definition restart_request :: "geofence_object \<Rightarrow> adapter \<Rightarrow> adapter" where
  "restart_request object = request (AddGeofence (key_id (key object)) (object_option object) (object_info object))
     (RestartDone object (object_option object) (object_info object))"

definition restartGeofences :: "adapter \<Rightarrow> adapter" where
  "restartGeofences st =
     (if mGeofences st = [] then st
      else fold (\<lambda>e. restart_request (snd e)) (mGeofences st) (st\<lparr>mGeofences := [], mGeofenceIds := []\<rparr>))"

definition restart_done :: "geofence_object \<Rightarrow> geofence_option \<Rightarrow> geofence_info \<Rightarrow> location_error \<Rightarrow> u32 \<Rightarrow> adapter \<Rightarrow> adapter" where
  "restart_done object opts info err hwId st =
     (if err = LOCATION_ERROR_SUCCESS then
        let st = (if paused object then request (PauseGeofence hwId (key_id (key object))) RestartPaused st else st) in
        saveGeofenceItem (key_client (key object)) (key_id (key object)) hwId opts info st
      else st)"

definition proc_engine_up :: "adapter \<Rightarrow> adapter" where
  "proc_engine_up st =
     (let st = broadcastCapabilities (st\<lparr>mIsEngineCapabilitiesKnown := True\<rparr>);
          st = (if mSystemPowerState st \<noteq> POWER_STATE_SUSPEND \<and> mSystemPowerState st \<noteq> POWER_STATE_SHUTDOWN
                then restartGeofences st else st) in
      (fold sendMsg (mPendingMsgs st) st)\<lparr>mPendingMsgs := []\<rparr>)"

definition pauseOrResumeGeofences :: "bool \<Rightarrow> adapter \<Rightarrow> adapter" where
  "pauseOrResumeGeofences resume st =
     fold (\<lambda>(k, hwId). request (if resume then ResumeGeofence hwId (key_id k) else PauseGeofence hwId (key_id k)) (PowerDone resume hwId))
       (mGeofenceIds st) st"

definition power_done :: "bool \<Rightarrow> u32 \<Rightarrow> location_error \<Rightarrow> adapter \<Rightarrow> adapter" where
  "power_done resume hwId err st =
     (if err = LOCATION_ERROR_SUCCESS then if resume then resumeGeofenceItem hwId st else pauseGeofenceItem hwId st else st)"

definition updateSystemPowerState :: "power_state \<Rightarrow> adapter \<Rightarrow> adapter" where
  "updateSystemPowerState powerState st =
     (if powerState = POWER_STATE_UNKNOWN then st
      else
        let st = st\<lparr>mSystemPowerState := powerState\<rparr> in
        (case powerState of
           POWER_STATE_RESUME \<Rightarrow> pauseOrResumeGeofences True st
         | _ \<Rightarrow> pauseOrResumeGeofences False st))"

section \<open>Reports\<close>

text \<open>The ids of a client among those breached.\<close>

definition breached_ids :: "ptr \<Rightarrow> u32 list \<Rightarrow> adapter \<Rightarrow> u32 list" where
  "breached_ids client hwIds st =
     concat (map (\<lambda>hwId. case getGeofenceKeyFromHwId hwId st of
       None \<Rightarrow> [] | Some k \<Rightarrow> if key_client k = client then [key_id k] else []) hwIds)"

definition geofenceBreach :: "u32 list \<Rightarrow> nat \<Rightarrow> adapter \<Rightarrow> adapter" where
  "geofenceBreach hwIds breachType st =
     fold (\<lambda>(c, cb) st'. let clientIds = breached_ids c hwIds st in
        if clientIds \<noteq> [] \<and> geofenceBreachCb cb then st'\<lparr>breaches := breaches st' @ [(c, clientIds, breachType)]\<rparr> else st')
       (mClientData st) st"

definition geofenceStatus :: "nat \<Rightarrow> adapter \<Rightarrow> adapter" where
  "geofenceStatus available st =
     fold (\<lambda>(c, cb) st'. if geofenceStatusCb cb then st'\<lparr>statuses := statuses st' @ [(c, available)]\<rparr> else st') (mClientData st) st"

section \<open>The message thread\<close>

definition proc_response :: "response \<Rightarrow> location_error \<Rightarrow> u32 \<Rightarrow> adapter \<Rightarrow> adapter option" where
  "proc_response r err data st =
     (case r of
        ItemCall oper client b i \<Rightarrow> item_call oper client b i st
      | ItemDone oper client b i hwId \<Rightarrow> item_done oper client b i hwId err data st
      | StopDone hwId eraseSession \<Rightarrow> Some (stop_done hwId eraseSession err st)
      | RestartDone object opts info \<Rightarrow> Some (restart_done object opts info err data st)
      | RestartPaused \<Rightarrow> Some st
      | PowerDone resume hwId \<Rightarrow> Some (power_done resume hwId err st))"

definition proc_msg :: "loc_msg \<Rightarrow> adapter \<Rightarrow> adapter option" where
  "proc_msg msg st =
     (case msg of
        MsgAddClient client callbacks \<Rightarrow> Some (saveClient client callbacks st)
      | MsgRemoveClient client \<Rightarrow> do { st \<leftarrow> stopClientSessions client True st; Some (eraseClient client st) }
      | MsgRequestCapabilities client \<Rightarrow>
          if \<not> mIsEngineCapabilitiesKnown st then Some (st\<lparr>mPendingMsgs := mPendingMsgs st @ [MsgRequestCapabilities client]\<rparr>)
          else (case map_of (mClientData st) client of
            Some cb \<Rightarrow> Some (if capabilitiesCb cb then st\<lparr>capabilities := capabilities st @ [client]\<rparr> else st)
          | None \<Rightarrow> Some st)
      | MsgGeofences oper client b \<Rightarrow> proc_geofences oper client b st
      | MsgGeofenceBreach hwIds breachType \<Rightarrow> Some (geofenceBreach hwIds breachType st)
      | MsgGeofenceStatus available \<Rightarrow> Some (geofenceStatus available st)
      | MsgUpdateSystemPowerState powerState \<Rightarrow> Some (updateSystemPowerState powerState st)
      | MsgSSREvent \<Rightarrow> Some (proc_engine_up st)
      | LocApiResponse r err data \<Rightarrow> proc_response r err data st)"

text \<open>
  What can happen: a client or the modem calls, the thread handles the next message, or the modem answers
  one of the outstanding requests.
\<close>

datatype event =
    AddClient ptr location_callbacks
  | RemoveClient ptr
  | RequestCapabilities ptr
  | AddGeofences ptr nat "geofence_option list option" "geofence_info list option"
  | RemoveGeofences ptr nat "u32 list"
  | PauseGeofences ptr nat "u32 list"
  | ResumeGeofences ptr nat "u32 list"
  | ModifyGeofences ptr nat "u32 list" "geofence_option list option"
  | GeofenceBreach "u32 list" nat
  | GeofenceStatus nat
  | SystemPowerState power_state
  | EngineUp
  | Proc
  | Answer nat location_error u32

definition geofence_event :: "event \<Rightarrow> adapter \<Rightarrow> adapter option" where
  "geofence_event e st =
     (case e of
        AddClient client callbacks \<Rightarrow> Some (sendMsg (MsgAddClient client callbacks) st)
      | RemoveClient client \<Rightarrow> Some (sendMsg (MsgRemoveClient client) st)
      | RequestCapabilities client \<Rightarrow> Some (sendMsg (MsgRequestCapabilities client) st)
      | AddGeofences client mCount opts infos \<Rightarrow> addGeofencesCommand client mCount opts infos st
      | RemoveGeofences client mCount ids \<Rightarrow> removeGeofencesCommand client mCount ids st
      | PauseGeofences client mCount ids \<Rightarrow> pauseGeofencesCommand client mCount ids st
      | ResumeGeofences client mCount ids \<Rightarrow> resumeGeofencesCommand client mCount ids st
      | ModifyGeofences client mCount ids opts \<Rightarrow> modifyGeofencesCommand client mCount ids opts st
      | GeofenceBreach hwIds breachType \<Rightarrow> Some (if hwIds = [] then st else sendMsg (MsgGeofenceBreach hwIds breachType) st)
      | GeofenceStatus available \<Rightarrow> Some (sendMsg (MsgGeofenceStatus available) st)
      | SystemPowerState powerState \<Rightarrow> Some (sendMsg (MsgUpdateSystemPowerState powerState) st)
      | EngineUp \<Rightarrow> Some (sendMsg MsgSSREvent st)
      | Proc \<Rightarrow> (case msg_queue st of [] \<Rightarrow> Some st | msg # msgs \<Rightarrow> proc_msg msg (st\<lparr>msg_queue := msgs\<rparr>))
      | Answer i err data \<Rightarrow>
          Some (if i < length (outstanding st)
                then sendMsg (LocApiResponse (snd (outstanding st ! i)) err data)
                  (st\<lparr>outstanding := take i (outstanding st) @ drop (Suc i) (outstanding st)\<rparr>)
                else st))"

fun geofence_run :: "event list \<Rightarrow> adapter \<Rightarrow> adapter option" where
  "geofence_run [] st = Some st"
| "geofence_run (e # es) st = do { st \<leftarrow> geofence_event e st; geofence_run es st }"

definition adapter_init :: adapter where
  "adapter_init = \<lparr>mGeofences = [], mGeofenceIds = [], mClientData = [], mSystemPowerState = POWER_STATE_UNKNOWN, mEvtMask = 0,
     mSessionIdCounter = 1, mIsEngineCapabilitiesKnown = False, mPendingMsgs = [], msg_queue = [], blocks = (\<lambda>_. None), next_block = 0,
     outstanding = [], answers = [], breaches = [], statuses = [], capabilities = []\<rparr>"

end
