(* ===== verification/GeofenceInv.thy ===== *)
theory GeofenceInv
  imports GeofenceAdapter
begin

text \<open>
  A command on an array of geofences as the automaton it is meant to be: queued, its calls made one after the
  other, its results coming in, answered. \<open>in_phase\<close> relates a phase to the state of the adapter, and every
  event takes every command along the transitions of the automaton.
\<close>

section \<open>The pipeline\<close>

text \<open>The closures that still run, in the order they run when the modem answers in order.\<close>

definition response_of :: "loc_msg \<Rightarrow> response list" where
  "response_of msg = (case msg of LocApiResponse r _ _ \<Rightarrow> [r] | _ \<Rightarrow> [])"

definition pipeline :: "adapter \<Rightarrow> response list" where
  "pipeline st = concat (map response_of (msg_queue st)) @ map snd (outstanding st)"

text \<open>The items of the command in block \<open>b\<close> among closures: called or not, the operation, the client, the index.\<close>

definition item_of :: "nat \<Rightarrow> response \<Rightarrow> (bool \<times> geofence_op \<times> ptr \<times> nat) list" where
  "item_of b r = (case r of
     ItemCall oper c b' i \<Rightarrow> if b' = b then [(False, oper, c, i)] else []
   | ItemDone oper c b' i _ \<Rightarrow> if b' = b then [(True, oper, c, i)] else []
   | _ \<Rightarrow> [])"

definition items :: "nat \<Rightarrow> response list \<Rightarrow> (bool \<times> geofence_op \<times> ptr \<times> nat) list" where
  "items b rs = concat (map (item_of b) rs)"

definition command_of :: "nat \<Rightarrow> loc_msg \<Rightarrow> (geofence_op \<times> ptr) list" where
  "command_of b msg = (case msg of MsgGeofences oper c b' \<Rightarrow> if b' = b then [(oper, c)] else [] | _ \<Rightarrow> [])"

definition queued :: "nat \<Rightarrow> loc_msg list \<Rightarrow> (geofence_op \<times> ptr) list" where
  "queued b msgs = concat (map (command_of b) msgs)"

definition answers_of :: "nat \<Rightarrow> adapter \<Rightarrow> (nat \<times> ptr \<times> bool \<times> location_error option list \<times> u32 list) list" where
  "answers_of b st = filter (\<lambda>a. fst a = b) (answers st)"

lemma items_simps [simp]:
  "items b [] = []" "items b (r # rs) = item_of b r @ items b rs" "items b (rs @ rs') = items b rs @ items b rs'"
  by (auto simp: items_def)

lemma queued_simps [simp]:
  "queued b [] = []" "queued b (m # ms) = command_of b m @ queued b ms" "queued b (ms @ ms') = queued b ms @ queued b ms'"
  by (auto simp: queued_def)

lemma response_of_simps [simp]:
  "response_of (LocApiResponse r e d) = [r]" "response_of (MsgGeofences oper c b) = []"
  "response_of (MsgAddClient c cb) = []" "response_of (MsgRemoveClient c) = []" "response_of (MsgRequestCapabilities c) = []"
  "response_of (MsgGeofenceBreach hwIds t) = []" "response_of (MsgGeofenceStatus a) = []"
  "response_of (MsgUpdateSystemPowerState p) = []" "response_of MsgSSREvent = []"
  by (auto simp: response_of_def)

lemma command_of_simps [simp]:
  "command_of b (LocApiResponse r e d) = []" "command_of b (MsgGeofences oper c b') = (if b' = b then [(oper, c)] else [])"
  "command_of b (MsgAddClient c cb) = []" "command_of b (MsgRemoveClient c) = []" "command_of b (MsgRequestCapabilities c) = []"
  "command_of b (MsgGeofenceBreach hwIds t) = []" "command_of b (MsgGeofenceStatus a) = []"
  "command_of b (MsgUpdateSystemPowerState p) = []" "command_of b MsgSSREvent = []"
  by (auto simp: command_of_def)

lemma item_of_simps [simp]:
  "item_of b (ItemCall oper c b' i) = (if b' = b then [(False, oper, c, i)] else [])"
  "item_of b (ItemDone oper c b' i hwId) = (if b' = b then [(True, oper, c, i)] else [])"
  "item_of b (StopDone hwId e) = []" "item_of b (RestartDone object opts info) = []"
  "item_of b RestartPaused = []" "item_of b (PowerDone resume hwId) = []"
  by (auto simp: item_of_def)

section \<open>What an operation leaves alone\<close>

text \<open>Messages that are neither commands nor results.\<close>

definition plain_msg :: "loc_msg \<Rightarrow> bool" where
  "plain_msg m \<longleftrightarrow> response_of m = [] \<and> (\<forall>b. command_of b m = [])"

lemma plain_msg_simps [simp]:
  "plain_msg (MsgAddClient c cb)" "plain_msg (MsgRemoveClient c)" "plain_msg (MsgRequestCapabilities c)"
  "plain_msg (MsgGeofenceBreach hwIds t)" "plain_msg (MsgGeofenceStatus a)"
  "plain_msg (MsgUpdateSystemPowerState p)" "plain_msg MsgSSREvent"
  by (auto simp: plain_msg_def)

text \<open>
  \<open>quiet st st'\<close>: of the commands, \<open>st'\<close> has what \<open>st\<close> has; at most closures that belong to no command were
  appended, and messages that are neither commands nor results.
\<close>

definition capabilities_msg :: "loc_msg \<Rightarrow> bool" where
  "capabilities_msg m \<longleftrightarrow> (\<exists>c. m = MsgRequestCapabilities c)"

lemma capabilities_msg [simp]: "capabilities_msg (MsgRequestCapabilities c)" "capabilities_msg m \<Longrightarrow> plain_msg m"
  by (auto simp: capabilities_msg_def)

definition plain_pending :: "adapter \<Rightarrow> bool" where
  "plain_pending st \<longleftrightarrow> (\<forall>m \<in> set (mPendingMsgs st). capabilities_msg m)"

definition quiet :: "adapter \<Rightarrow> adapter \<Rightarrow> bool" where
  "quiet st st' \<longleftrightarrow> blocks st' = blocks st \<and> next_block st' = next_block st \<and> answers st' = answers st \<and>
     (\<forall>b. items b (pipeline st') = items b (pipeline st) \<and> queued b (msg_queue st') = queued b (msg_queue st)) \<and>
     (plain_pending st \<longrightarrow> plain_pending st')"

lemma quiet_refl [simp]: "quiet st st" by (simp add: quiet_def)

lemma quiet_trans [trans]: "quiet a b \<Longrightarrow> quiet b c \<Longrightarrow> quiet a c" by (simp add: quiet_def)

lemma quiet_fold: "(\<And>x st. quiet st (f x st)) \<Longrightarrow> quiet st (fold f xs st)"
  by (induction xs arbitrary: st) (auto intro: quiet_trans)

lemma quiet_fields:
  assumes "blocks st' = blocks st" "next_block st' = next_block st" "answers st' = answers st"
    "msg_queue st' = msg_queue st" "outstanding st' = outstanding st"
    "\<forall>m \<in> set (mPendingMsgs st'). capabilities_msg m \<or> m \<in> set (mPendingMsgs st)"
  shows "quiet st st'"
  using assms by (simp add: quiet_def pipeline_def plain_pending_def) blast

definition belongs_to_none :: "response \<Rightarrow> bool" where
  "belongs_to_none r \<longleftrightarrow> (\<forall>b. item_of b r = [])"

lemma belongs_to_none [simp]:
  "belongs_to_none (StopDone hwId e)" "belongs_to_none (RestartDone object opts info)" "belongs_to_none RestartPaused"
  "belongs_to_none (PowerDone resume hwId)"
  by (auto simp: belongs_to_none_def)

lemma pipeline_request [simp]: "pipeline (request call r st) = pipeline st @ [r]"
  by (simp add: pipeline_def request_def)

lemma request_fields [simp]:
  "blocks (request call r st) = blocks st" "next_block (request call r st) = next_block st"
  "answers (request call r st) = answers st" "msg_queue (request call r st) = msg_queue st"
  "mGeofenceIds (request call r st) = mGeofenceIds st" "mGeofences (request call r st) = mGeofences st"
  "mPendingMsgs (request call r st) = mPendingMsgs st" "mClientData (request call r st) = mClientData st"
  by (simp_all add: request_def)

lemma plain_pending_same [simp]:
  "plain_pending (request call r st) = plain_pending st" "plain_pending (sendMsg m st) = plain_pending st"
  by (simp_all add: plain_pending_def request_def sendMsg_def)

lemma quiet_request: "belongs_to_none r \<Longrightarrow> quiet st (request call r st)"
  by (simp add: quiet_def belongs_to_none_def)

lemma sendMsg_fields [simp]:
  "blocks (sendMsg m st) = blocks st" "next_block (sendMsg m st) = next_block st" "answers (sendMsg m st) = answers st"
  "msg_queue (sendMsg m st) = msg_queue st @ [m]" "outstanding (sendMsg m st) = outstanding st"
  "mPendingMsgs (sendMsg m st) = mPendingMsgs st" "mGeofenceIds (sendMsg m st) = mGeofenceIds st"
  "mGeofences (sendMsg m st) = mGeofences st"
  by (simp_all add: sendMsg_def)

lemma quiet_sendMsg: "plain_msg m \<Longrightarrow> quiet st (sendMsg m st)"
  by (simp add: quiet_def plain_msg_def pipeline_def)

text \<open>Saving, removing and changing geofences.\<close>

lemma quiet_saveGeofenceItem: "quiet st (saveGeofenceItem client clientId hwId opts info st)"
  by (rule quiet_fields) (simp_all add: saveGeofenceItem_def Let_def)

lemma quiet_removeGeofenceItem: "quiet st (removeGeofenceItem hwId st)"
  by (rule quiet_fields) (simp_all add: removeGeofenceItem_def split: option.split)

lemma quiet_update_item: "quiet st (update_item hwId f st)"
  by (rule quiet_fields) (simp_all add: update_item_def split: option.split)

lemmas item_defs = pauseGeofenceItem_def resumeGeofenceItem_def modifyGeofenceItem_def

lemma quiet_pause_resume_modify:
  "quiet st (pauseGeofenceItem hwId st)" "quiet st (resumeGeofenceItem hwId st)" "quiet st (modifyGeofenceItem hwId opts st)"
  by (simp_all add: item_defs quiet_update_item)

section \<open>Messages that are not commands\<close>

text \<open>With erased entries the loop of \<open>stopClientSessions\<close> ends.\<close>

fun stop_entry :: "ptr \<Rightarrow> geofence_key \<times> u32 \<Rightarrow> adapter \<Rightarrow> adapter" where
  "stop_entry client (k, hwId) st =
     (if client = key_client k
      then request (RemoveGeofence hwId (key_id k)) (StopDone hwId True) (st\<lparr>mGeofenceIds := map_erase k (mGeofenceIds st)\<rparr>)
      else st)"

lemma stop_loop_fold: "stop_loop client True it st = Some (fold (stop_entry client) it st)"
proof (induction it arbitrary: st client)
  case Nil
  show ?case by (simp add: stop_loop.simps)
next
  case (Cons e it)
  obtain k hwId where "e = (k, hwId)" by (cases e)
  then show ?case by (subst stop_loop.simps) (simp add: Cons.IH)
qed

lemma stop_fold: "stopClientSessions client True st = Some (fold (stop_entry client) (mGeofenceIds st) st)"
  by (simp add: stopClientSessions_def stop_loop_fold)

lemma quiet_stop_entry: "quiet st (stop_entry client e st)"
proof -
  obtain k hwId where e: "e = (k, hwId)" by (cases e)
  have "quiet st (st\<lparr>mGeofenceIds := map_erase k (mGeofenceIds st)\<rparr>)" by (rule quiet_fields) simp_all
  from quiet_trans[OF this quiet_request] show ?thesis by (simp add: e)
qed

lemma quiet_saveClient: "quiet st (saveClient client callbacks st)"
  by (rule quiet_fields) (simp_all add: saveClient_def updateClientsEventMask_def)

lemma quiet_eraseClient: "quiet st (eraseClient client st)"
  by (rule quiet_fields) (simp_all add: eraseClient_def updateClientsEventMask_def)

lemma quiet_restartGeofences: "quiet st (restartGeofences st)"
proof -
  have "quiet st (st\<lparr>mGeofences := [], mGeofenceIds := []\<rparr>)" by (rule quiet_fields) simp_all
  moreover have "quiet s (fold (\<lambda>e. restart_request (snd e)) es s)" for es :: "(u32 \<times> geofence_object) list" and s
    by (rule quiet_fold) (simp add: restart_request_def quiet_request)
  ultimately have "quiet st (fold (\<lambda>e. restart_request (snd e)) (mGeofences st) (st\<lparr>mGeofences := [], mGeofenceIds := []\<rparr>))"
    by (rule quiet_trans)
  then show ?thesis by (simp add: restartGeofences_def)
qed

lemma quiet_messages: "(\<forall>m \<in> set ms. plain_msg m) \<Longrightarrow> quiet st (fold sendMsg ms st)"
proof (induction ms arbitrary: st)
  case (Cons m ms)
  then have "quiet st (sendMsg m st)" "quiet (sendMsg m st) (fold sendMsg ms (sendMsg m st))" by (auto intro: quiet_sendMsg)
  then show ?case by (auto intro: quiet_trans)
qed simp

lemma restartGeofences_fields [simp]:
  "mPendingMsgs (restartGeofences st) = mPendingMsgs st" "msg_queue (restartGeofences st) = msg_queue st"
proof -
  have "mPendingMsgs (fold (\<lambda>e. restart_request (snd e)) es s) = mPendingMsgs s
      \<and> msg_queue (fold (\<lambda>e. restart_request (snd e)) es s) = msg_queue s"
    for es :: "(u32 \<times> geofence_object) list" and s
    by (induction es arbitrary: s) (simp_all add: restart_request_def)
  then show "mPendingMsgs (restartGeofences st) = mPendingMsgs st" "msg_queue (restartGeofences st) = msg_queue st"
    by (simp_all add: restartGeofences_def)
qed

lemma quiet_proc_engine_up:
  assumes "plain_pending st"
  shows "quiet st (proc_engine_up st)"
proof -
  let ?a = "broadcastCapabilities (st\<lparr>mIsEngineCapabilitiesKnown := True\<rparr>)"
  let ?b = "if mSystemPowerState ?a \<noteq> POWER_STATE_SUSPEND \<and> mSystemPowerState ?a \<noteq> POWER_STATE_SHUTDOWN
            then restartGeofences ?a else ?a"
  let ?c = "fold sendMsg (mPendingMsgs ?b) ?b"
  have a: "quiet st ?a" by (rule quiet_fields) (simp_all add: broadcastCapabilities_def)
  have b: "quiet ?a ?b" by (simp add: quiet_restartGeofences)
  have "mPendingMsgs ?b = mPendingMsgs st" by (simp add: broadcastCapabilities_def)
  then have c: "quiet ?b ?c" using assms by (intro quiet_messages) (simp add: plain_pending_def)
  have d: "quiet ?c (?c\<lparr>mPendingMsgs := []\<rparr>)" by (rule quiet_fields) simp_all
  show ?thesis unfolding proc_engine_up_def Let_def
    by (rule quiet_trans[OF a quiet_trans[OF b quiet_trans[OF c d]]])
qed

lemma quiet_updateSystemPowerState: "quiet st (updateSystemPowerState powerState st)"
proof -
  have "quiet s (pauseOrResumeGeofences resume s)" for resume s
    by (auto simp: pauseOrResumeGeofences_def intro!: quiet_fold quiet_request split: prod.split)
  moreover have "quiet st (st\<lparr>mSystemPowerState := powerState\<rparr>)" by (rule quiet_fields) simp_all
  ultimately have "quiet st (pauseOrResumeGeofences resume (st\<lparr>mSystemPowerState := powerState\<rparr>))" for resume
    by (rule quiet_trans[rotated])
  then show ?thesis by (cases powerState) (simp_all add: updateSystemPowerState_def)
qed

lemma quiet_geofenceBreach: "quiet st (geofenceBreach hwIds t st)"
  unfolding geofenceBreach_def
  by (rule quiet_fold) (auto simp: Let_def split: prod.split intro: quiet_fields)

lemma quiet_geofenceStatus: "quiet st (geofenceStatus a st)"
  unfolding geofenceStatus_def
  by (rule quiet_fold) (auto split: prod.split intro: quiet_fields)

lemma quiet_responses:
  "quiet st (stop_done hwId e err st)" "quiet st (power_done resume hwId err st)"
  "quiet st (restart_done object opts info err hwId st)"
proof -
  show "quiet st (stop_done hwId e err st)" by (rule quiet_fields) (simp_all add: stop_done_def)
  show "quiet st (power_done resume hwId err st)" by (simp add: power_done_def quiet_pause_resume_modify)
  have "quiet st (saveGeofenceItem c i h opts info (request call RestartPaused st))" for c i h call
    by (rule quiet_trans[OF quiet_request quiet_saveGeofenceItem]) simp
  then show "quiet st (restart_done object opts info err hwId st)"
    by (simp add: restart_done_def Let_def quiet_saveGeofenceItem)
qed

section \<open>The automaton of a command\<close>

datatype phase =
    Unused
  | Queued geofence_op ptr nat
  | Calling geofence_op ptr nat nat
  | Finishing geofence_op ptr nat nat
  | Answered ptr nat
  | Lost geofence_op ptr nat

inductive phase_step :: "phase \<Rightarrow> phase \<Rightarrow> bool" where
  issue: "0 < n \<Longrightarrow> phase_step Unused (Queued oper c n)"
| start: "phase_step (Queued oper c n) (Calling oper c n 0)"
| call: "Suc i < n \<Longrightarrow> phase_step (Calling oper c n i) (Calling oper c n (Suc i))"
| called: "Suc i = n \<Longrightarrow> phase_step (Calling oper c n i) (Finishing oper c n 0)"
| unknown: "oper \<noteq> AddOp \<Longrightarrow> phase_step (Calling oper c 1 0) (Answered c 1)"
| finish: "Suc i < n \<Longrightarrow> phase_step (Finishing oper c n i) (Finishing oper c n (Suc i))"
| answer: "Suc i = n \<Longrightarrow> phase_step (Finishing oper c n i) (Answered c n)"
| lose: "phase_step (Finishing ResumeOp c 1 0) (Lost ResumeOp c 1)"

text \<open>The arrays of the commands that are considered: one item, or any number of geofences to add.\<close>

definition fits :: "geofence_op \<Rightarrow> nat \<Rightarrow> cmd_block \<Rightarrow> bool" where
  "fits oper n bk \<longleftrightarrow> length (bk_ids bk) = n \<and> 0 < n \<and> (oper \<noteq> AddOp \<longrightarrow> n = 1) \<and>
     (case oper of
        AddOp \<Rightarrow> map_option length (bk_options bk) = Some n \<and> map_option length (bk_infos bk) = Some n
      | ModifyOp \<Rightarrow> map_option length (bk_options bk) = Some n
      | _ \<Rightarrow> True)"

definition calls :: "geofence_op \<Rightarrow> ptr \<Rightarrow> nat \<Rightarrow> nat \<Rightarrow> (bool \<times> geofence_op \<times> ptr \<times> nat) list" where
  "calls oper c i n = map (\<lambda>k. (False, oper, c, k)) [i..<n]"

definition results :: "geofence_op \<Rightarrow> ptr \<Rightarrow> nat \<Rightarrow> nat \<Rightarrow> (bool \<times> geofence_op \<times> ptr \<times> nat) list" where
  "results oper c i n = map (\<lambda>k. (True, oper, c, k)) [i..<n]"

lemma calls_results [simp]:
  "calls oper c n n = []" "i < n \<Longrightarrow> calls oper c i n = (False, oper, c, i) # calls oper c (Suc i) n"
  "results oper c n n = []" "i < n \<Longrightarrow> results oper c i n = (True, oper, c, i) # results oper c (Suc i) n"
  "results oper c 0 i @ [(True, oper, c, i)] = results oper c 0 (Suc i)"
  by (auto simp: calls_def results_def upt_conv_Cons)

text \<open>
  The phase of the command in block \<open>b\<close>, given what of it is in the pipeline and in the queue: before the results
  come in the errors of the commands other than adding are written when the call is made.
\<close>

definition no_answer :: "nat \<Rightarrow> adapter \<Rightarrow> bool" where
  "no_answer b st \<longleftrightarrow> answers_of b st = [] \<and> b < next_block st"

fun in_phase :: "phase \<Rightarrow> nat \<Rightarrow> (bool \<times> geofence_op \<times> ptr \<times> nat) list \<Rightarrow> (geofence_op \<times> ptr) list \<Rightarrow> adapter \<Rightarrow> bool" where
  "in_phase Unused b is qs st \<longleftrightarrow>
     blocks st b = None \<and> is = [] \<and> qs = [] \<and> answers_of b st = [] \<and> next_block st \<le> b"
| "in_phase (Queued oper c n) b is qs st \<longleftrightarrow>
     (\<exists>bk. blocks st b = Some bk \<and> fits oper n bk \<and> is = [] \<and> qs = [(oper, c)] \<and> no_answer b st)"
| "in_phase (Calling oper c n i) b is qs st \<longleftrightarrow>
     (\<exists>bk. blocks st b = Some bk \<and> fits oper n bk \<and> length (bk_errs bk) = n \<and> i < n \<and>
        is = calls oper c i n @ results oper c 0 i \<and> qs = [] \<and> no_answer b st)"
| "in_phase (Finishing oper c n i) b is qs st \<longleftrightarrow>
     (\<exists>bk. blocks st b = Some bk \<and> fits oper n bk \<and> length (bk_errs bk) = n \<and> i < n \<and>
        is = results oper c i n \<and> (\<forall>k<n. (k < i \<or> oper \<noteq> AddOp) \<longrightarrow> bk_errs bk ! k \<noteq> None) \<and> qs = [] \<and> no_answer b st)"
| "in_phase (Answered c n) b is qs st \<longleftrightarrow>
     blocks st b = None \<and> is = [] \<and> qs = [] \<and> b < next_block st \<and>
     (\<exists>called errs ids. answers_of b st = [(b, c, called, errs, ids)] \<and> length errs = n \<and> length ids = n \<and> None \<notin> set errs)"
| "in_phase (Lost oper c n) b is qs st \<longleftrightarrow>
     blocks st b \<noteq> None \<and> oper = ResumeOp \<and> is = [] \<and> qs = [] \<and> no_answer b st"

section \<open>One step of a command\<close>

text \<open>\<open>touches b new st st'\<close>: no other command than that in \<open>b\<close> is concerned, and \<open>new\<close> joins the pipeline.\<close>

definition touches :: "nat \<Rightarrow> response list \<Rightarrow> adapter \<Rightarrow> adapter \<Rightarrow> bool" where
  "touches b new st st' \<longleftrightarrow>
     (\<forall>b'. b' \<noteq> b \<longrightarrow> blocks st' b' = blocks st b' \<and> answers_of b' st' = answers_of b' st \<and> items b' new = []) \<and>
     next_block st' = next_block st \<and> msg_queue st' = msg_queue st \<and> pipeline st' = pipeline st @ new \<and>
     mPendingMsgs st' = mPendingMsgs st"

definition takes_step :: "phase \<Rightarrow> nat \<Rightarrow> (bool \<times> geofence_op \<times> ptr \<times> nat) list \<Rightarrow> adapter \<Rightarrow> adapter option \<Rightarrow> bool" where
  "takes_step ph b is st res \<longleftrightarrow>
     (\<exists>st' new ph'. res = Some st' \<and> touches b new st st' \<and> phase_step ph ph' \<and> in_phase ph' b (is @ items b new) [] st')"

lemma pipeline_updates [simp]:
  "pipeline (st\<lparr>blocks := x\<rparr>) = pipeline st" "pipeline (st\<lparr>answers := y\<rparr>) = pipeline st"
  "pipeline (st\<lparr>mGeofences := z\<rparr>) = pipeline st" "pipeline (st\<lparr>mGeofenceIds := w\<rparr>) = pipeline st"
  "pipeline (st\<lparr>next_block := k\<rparr>) = pipeline st"
  by (simp_all add: pipeline_def)

lemma touches_refl: "touches b [] st st" by (simp add: touches_def)

lemma touches_trans: "touches b new st s \<Longrightarrow> touches b new' s s' \<Longrightarrow> touches b (new @ new') st s'"
  by (simp add: touches_def)

lemma touches_blocks: "touches b [] st (st\<lparr>blocks := (blocks st)(b := x)\<rparr>)"
  by (simp add: touches_def answers_of_def)

lemma touches_request: "(\<And>b'. b' \<noteq> b \<Longrightarrow> item_of b' r = []) \<Longrightarrow> touches b [r] st (request call r st)"
  by (simp add: touches_def answers_of_def)

lemma touches_items:
  "touches b [] st (saveGeofenceItem client clientId hwId opts info st)"
  "touches b [] st (removeGeofenceItem hwId st)" "touches b [] st (pauseGeofenceItem hwId st)"
  "touches b [] st (resumeGeofenceItem hwId st)" "touches b [] st (modifyGeofenceItem hwId opts st)"
  by (simp_all add: touches_def saveGeofenceItem_def Let_def removeGeofenceItem_def item_defs update_item_def answers_of_def
      split: option.split)

lemma items_keep_blocks [simp]:
  "blocks (saveGeofenceItem client clientId hwId opts info st) = blocks st"
  "blocks (removeGeofenceItem hwId st) = blocks st" "blocks (pauseGeofenceItem hwId st) = blocks st"
  "blocks (resumeGeofenceItem hwId st) = blocks st" "blocks (modifyGeofenceItem hwId opts st) = blocks st"
  "no_answer b (saveGeofenceItem client clientId hwId opts info st) = no_answer b st"
  "no_answer b (removeGeofenceItem hwId st) = no_answer b st" "no_answer b (pauseGeofenceItem hwId st) = no_answer b st"
  "no_answer b (resumeGeofenceItem hwId st) = no_answer b st" "no_answer b (modifyGeofenceItem hwId opts st) = no_answer b st"
  by (simp_all add: saveGeofenceItem_def Let_def removeGeofenceItem_def item_defs update_item_def no_answer_def answers_of_def
      split: option.split)

lemma no_answer_updates [simp]:
  "no_answer b (st\<lparr>blocks := x\<rparr>) = no_answer b st" "no_answer b (request call r st) = no_answer b st"
  by (simp_all add: no_answer_def answers_of_def)

lemma set_err_some:
  "blocks st b = Some bk \<Longrightarrow> i < length (bk_errs bk) \<Longrightarrow>
   set_err b i e st = Some (st\<lparr>blocks := (blocks st)(b \<mapsto> bk\<lparr>bk_errs := (bk_errs bk)[i := Some e]\<rparr>)\<rparr>)"
  by (simp add: set_err_def)

lemma fits_errs [simp]: "fits oper n (bk\<lparr>bk_errs := es\<rparr>) = fits oper n bk"
  by (simp add: fits_def cong: geofence_op.case_cong)

lemma fits_reads:
  assumes "blocks st b = Some bk" "fits oper n bk" "i < n"
  shows "id_at b i st = Some (bk_ids bk ! i)"
    and "oper \<in> {AddOp, ModifyOp} \<Longrightarrow> \<exists>opts. option_at b i st = Some opts"
    and "oper = AddOp \<Longrightarrow> \<exists>info. info_at b i st = Some info"
  using assms by (auto simp: id_at_def option_at_def info_at_def fits_def elem_def)

lemma takes_stepI:
  "res = Some st' \<Longrightarrow> touches b new st st' \<Longrightarrow> phase_step ph ph' \<Longrightarrow> in_phase ph' b (is @ items b new) [] st' \<Longrightarrow>
   takes_step ph b is st res"
  by (auto simp: takes_step_def)

text \<open>The last thing done for an item: with the last one, the answer.\<close>

definition answered :: "ptr \<Rightarrow> nat \<Rightarrow> cmd_block \<Rightarrow> adapter \<Rightarrow> adapter" where
  "answered c b bk st = st\<lparr>
     answers := answers st @ [(b, c, (case map_of (mClientData st) c of None \<Rightarrow> False | Some cb \<Rightarrow> collectiveResponseCb cb),
       bk_errs bk, bk_ids bk)],
     blocks := (blocks st)(b := None)\<rparr>"

lemma last_item_eq:
  "blocks st b = Some bk \<Longrightarrow>
   last_item c b i st = Some (if Suc i = length (bk_ids bk) then answered c b bk st else st)"
  by (simp add: last_item_def reportResponse_def answered_def Let_def)

lemma answered_facts:
  assumes "no_answer b st" "length (bk_errs bk) = n" "length (bk_ids bk) = n" "None \<notin> set (bk_errs bk)"
  shows "touches b [] st (answered c b bk st)" "in_phase (Answered c n) b [] [] (answered c b bk st)"
proof -
  show "touches b [] st (answered c b bk st)" by (simp add: touches_def answered_def answers_of_def pipeline_def)
  have "answers_of b st = []" "b < next_block st" using assms(1) by (auto simp: no_answer_def)
  then show "in_phase (Answered c n) b [] [] (answered c b bk st)"
    using assms(2-4) by (simp add: answered_def answers_of_def)
qed

lemma last_step:
  assumes "blocks s b = Some bk" "fits oper n bk" "length (bk_errs bk) = n" "i < n" "no_answer b s" "touches b [] st s"
    and written: "\<And>k. k < n \<Longrightarrow> k \<le> i \<or> oper \<noteq> AddOp \<Longrightarrow> bk_errs bk ! k \<noteq> None"
  shows "takes_step (Finishing oper c n i) b (results oper c (Suc i) n) st (last_item c b i s)"
proof (cases "Suc i = n")
  case True
  have ids: "length (bk_ids bk) = n" using assms(2) by (simp add: fits_def)
  have "None \<notin> set (bk_errs bk)" using written assms(3) True by (fastforce simp: in_set_conv_nth)
  note facts = answered_facts[OF assms(5) assms(3) ids this, of c]
  show ?thesis
  proof (rule takes_stepI)
    show "last_item c b i s = Some (answered c b bk s)" using True ids by (simp add: last_item_eq[OF assms(1)])
    show "touches b [] st (answered c b bk s)" using touches_trans[OF assms(6) facts(1)] by simp
    show "phase_step (Finishing oper c n i) (Answered c n)" using True by (rule phase_step.answer)
    show "in_phase (Answered c n) b (results oper c (Suc i) n @ items b []) [] (answered c b bk s)"
      using facts(2) True by simp
  qed
next
  case False
  then have n: "Suc i < n" using assms(4) by simp
  show ?thesis
  proof (rule takes_stepI)
    show "last_item c b i s = Some s" using False assms(2) by (simp add: last_item_eq[OF assms(1)] fits_def)
    show "touches b [] st s" by (rule assms(6))
    show "phase_step (Finishing oper c n i) (Finishing oper c n (Suc i))" using n by (rule phase_step.finish)
    show "in_phase (Finishing oper c n (Suc i)) b (results oper c (Suc i) n @ items b []) [] s"
      using assms n by (auto simp: less_Suc_eq_le simp del: calls_results)
  qed
qed

text \<open>An error is written for the item before.\<close>

lemma write_and_last:
  assumes s: "blocks s b = Some bk" "fits oper n bk" "length (bk_errs bk) = n" "i < n" "no_answer b s" "touches b [] st s"
    and written: "\<And>k. k < n \<Longrightarrow> k < i \<or> oper \<noteq> AddOp \<Longrightarrow> bk_errs bk ! k \<noteq> None"
  shows "takes_step (Finishing oper c n i) b (results oper c (Suc i) n) st
    (Option.bind (set_err b i err s) (last_item c b i))"
proof -
  let ?bk = "bk\<lparr>bk_errs := (bk_errs bk)[i := Some err]\<rparr>"
  let ?s = "s\<lparr>blocks := (blocks s)(b \<mapsto> ?bk)\<rparr>"
  have "takes_step (Finishing oper c n i) b (results oper c (Suc i) n) st (last_item c b i ?s)"
  proof (rule last_step)
    show "touches b [] st ?s" using touches_trans[OF s(6) touches_blocks] by simp
    show "bk_errs ?bk ! k \<noteq> None" if "k < n" "k \<le> i \<or> oper \<noteq> AddOp" for k
      using that written[of k] s(3) by (cases "k = i") auto
  qed (use s in simp_all)
  then show ?thesis using s by (simp add: set_err_some)
qed

lemma done_step:
  assumes "in_phase (Finishing oper c n i) b ((True, oper, c, i) # is) [] st"
  shows "takes_step (Finishing oper c n i) b is st (item_done oper c b i hwId err data st)"
proof -
  obtain bk where bk: "blocks st b = Some bk" "fits oper n bk" "length (bk_errs bk) = n" "i < n" "no_answer b st"
    and all: "\<forall>k<n. (k < i \<or> oper \<noteq> AddOp) \<longrightarrow> bk_errs bk ! k \<noteq> None"
    and eq: "(True, oper, c, i) # is = results oper c i n"
    using assms unfolding in_phase.simps by blast
  have written: "bk_errs bk ! k \<noteq> None" if "k < n" "k < i \<or> oper \<noteq> AddOp" for k using all that by blast
  have is_eq: "is = results oper c (Suc i) n" using eq bk(4) by simp
  note wr = write_and_last[OF _ bk(2,3,4) _ _ written]
  have one: "n = 1" "i = 0" if "oper \<noteq> AddOp" using that bk(2,4) by (auto simp: fits_def)
  have reads: "id_at b i st = Some (bk_ids bk ! i)"
    "oper \<in> {AddOp, ModifyOp} \<Longrightarrow> \<exists>opts. option_at b i st = Some opts" "oper = AddOp \<Longrightarrow> \<exists>info. info_at b i st = Some info"
    using fits_reads[OF bk(1,2,4)] by blast+
  show ?thesis
  proof (cases oper)
    case AddOp
    then obtain opts info where "option_at b i st = Some opts" "info_at b i st = Some info" using reads by auto
    then show ?thesis
      using wr[OF bk(1,5) touches_refl] wr[OF _ _ touches_items(1)] bk reads(1) by (simp add: item_done_def AddOp is_eq)
  next
    case RemoveOp
    then show ?thesis
      using wr[OF bk(1,5) touches_refl] wr[OF _ _ touches_items(2)] bk by (simp add: item_done_def is_eq)
  next
    case PauseOp
    then show ?thesis
      using wr[OF bk(1,5) touches_refl] wr[OF _ _ touches_items(3)] bk by (simp add: item_done_def is_eq)
  next
    case ResumeOp
    note one = one[unfolded ResumeOp, simplified]
    show ?thesis
    proof (cases "err = LOCATION_ERROR_SUCCESS")
      case True
      let ?w = "\<lambda>st. st\<lparr>blocks := (blocks st)(b \<mapsto> bk\<lparr>bk_errs := (bk_errs bk)[i := Some err]\<rparr>)\<rparr>"
      have "resumeGeofenceItem hwId (?w st) = ?w (resumeGeofenceItem hwId st)"
        by (simp add: item_defs update_item_def split: option.split)
      then show ?thesis
        using wr[OF _ _ touches_items(4)] bk True by (simp add: item_done_def ResumeOp set_err_some is_eq)
    next
      case False
      then have "item_done oper c b i hwId err data st = Some st" by (simp add: item_done_def ResumeOp)
      then show ?thesis
      proof (rule takes_stepI)
        show "touches b [] st st" by (rule touches_refl)
        show "phase_step (Finishing oper c n i) (Lost ResumeOp c 1)" using phase_step.lose[of c] by (simp add: one ResumeOp)
        show "in_phase (Lost ResumeOp c 1) b (is @ items b []) [] st" using bk is_eq by (simp add: one)
      qed
    qed
  next
    case ModifyOp
    show ?thesis
    proof (cases "err = LOCATION_ERROR_SUCCESS")
      case True
      let ?w = "\<lambda>st. st\<lparr>blocks := (blocks st)(b \<mapsto> bk\<lparr>bk_errs := (bk_errs bk)[i := Some err]\<rparr>)\<rparr>"
      obtain opts where opts: "option_at b i st = Some opts" using ModifyOp reads by auto
      then have "option_at b i (?w st) = Some opts" using bk(1) by (simp add: option_at_def)
      moreover have "modifyGeofenceItem hwId opts (?w st) = ?w (modifyGeofenceItem hwId opts st)"
        by (simp add: item_defs update_item_def split: option.split)
      ultimately show ?thesis
        using wr[OF _ _ touches_items(5)] bk True by (simp add: item_done_def ModifyOp set_err_some is_eq)
    next
      case False
      have "takes_step (Finishing oper c n i) b is st (last_item c b i st)"
        unfolding is_eq by (rule last_step[OF bk touches_refl]) (use written ModifyOp in auto)
      then show ?thesis using False by (simp add: item_done_def ModifyOp)
    qed
  qed
qed

text \<open>A call is made, or the id is not known.\<close>

lemma call_step:
  assumes "in_phase (Calling oper c n i) b ((False, oper, c, i) # is) [] st"
  shows "takes_step (Calling oper c n i) b is st (item_call oper c b i st)"
proof -
  obtain bk where bk: "blocks st b = Some bk" "fits oper n bk" "length (bk_errs bk) = n" "i < n" "no_answer b st"
    and eq: "(False, oper, c, i) # is = calls oper c i n @ results oper c 0 i"
    using assms unfolding in_phase.simps by blast
  have is_eq: "is = calls oper c (Suc i) n @ results oper c 0 i" using eq bk(4) by simp
  have made: "takes_step (Calling oper c n i) b is st (Some (request api (ItemDone oper c b i hwId) s))"
    if s: "blocks s b = Some bk'" "fits oper n bk'" "length (bk_errs bk') = n" "no_answer b s" "touches b [] st s"
      and w: "\<And>k. k < n \<Longrightarrow> oper \<noteq> AddOp \<Longrightarrow> bk_errs bk' ! k \<noteq> None"
    for api hwId s bk'
  proof (rule takes_stepI)
    let ?r = "ItemDone oper c b i hwId"
    let ?s = "request api ?r s"
    show "Some ?s = Some ?s" by simp
    show "touches b [?r] st ?s" using touches_trans[OF s(5) touches_request] by simp
    let ?ph = "if Suc i < n then Calling oper c n (Suc i) else Finishing oper c n 0"
    show "phase_step (Calling oper c n i) ?ph" using bk(4) by (auto intro: phase_step.intros)
    show "in_phase ?ph b (is @ items b [?r]) [] ?s"
    proof (cases "Suc i < n")
      case True
      then show ?thesis using s is_eq by (simp del: calls_results(2,4))
    next
      case False
      then have "Suc i = n" using bk(4) by simp
      then show ?thesis using s is_eq w bk(4) by (auto simp del: calls_results(2,4))
    qed
  qed
  have reads: "id_at b i st = Some (bk_ids bk ! i)"
    "oper \<in> {AddOp, ModifyOp} \<Longrightarrow> \<exists>opts. option_at b i st = Some opts" "oper = AddOp \<Longrightarrow> \<exists>info. info_at b i st = Some info"
    using fits_reads[OF bk(1,2,4)] by blast+
  show ?thesis
  proof (cases "oper = AddOp")
    case True
    then obtain opts info where "option_at b i st = Some opts" "info_at b i st = Some info" using reads by auto
    then show ?thesis using made[OF bk(1,2,3,5) touches_refl] True reads(1) by (simp add: item_call_def item_request_def)
  next
    case False
    then have n: "n = 1" "i = 0" using bk(2,4) by (auto simp: fits_def)
    let ?bk = "\<lambda>e. bk\<lparr>bk_errs := (bk_errs bk)[i := Some e]\<rparr>"
    let ?s = "\<lambda>e. st\<lparr>blocks := (blocks st)(b \<mapsto> ?bk e)\<rparr>"
    have w: "set_err b i e st = Some (?s e)" for e using bk by (simp add: set_err_some)
    have t: "touches b [] st (?s e)" for e by (rule touches_blocks)
    have e1: "(bk_errs bk)[0 := Some e] = [Some e]" for e using bk(3) n by (cases "bk_errs bk") auto
    show ?thesis
    proof (cases "getHwIdFromClient c (bk_ids bk ! i) st")
      case None
      let ?e = "LOCATION_ERROR_ID_UNKNOWN"
      have ids: "length (bk_ids bk) = n" using bk(2) by (simp add: fits_def)
      have "item_call oper c b i st = Some (answered c b (?bk ?e) (?s ?e))"
        using False None reads(1) w ids n by (simp add: item_call_def last_item_eq)
      moreover note facts = answered_facts[of b "?s ?e" "?bk ?e" n c]
      have "touches b [] st (answered c b (?bk ?e) (?s ?e))"
        using touches_trans[OF t facts(1)] bk ids n e1 by simp
      moreover have "phase_step (Calling oper c n i) (Answered c n)"
        using phase_step.unknown[OF False] n by simp
      moreover have "in_phase (Answered c n) b (is @ items b []) [] (answered c b (?bk ?e) (?s ?e))"
        using facts(2) bk ids n e1 is_eq by simp
      ultimately show ?thesis by (rule takes_stepI)
    next
      case (Some hwId)
      let ?e = "LOCATION_ERROR_SUCCESS"
      have "blocks (?s ?e) b = Some (?bk ?e)" "fits oper n (?bk ?e)" using bk by simp_all
      note reads' = fits_reads[OF this bk(4)]
      have "\<exists>api. item_request oper b i hwId (?s ?e) = Some api"
        using False reads'(1,2) by (cases oper) (auto simp: item_request_def)
      then obtain api where "item_call oper c b i st = Some (request api (ItemDone oper c b i hwId) (?s ?e))"
        using False Some reads(1) w by (auto simp: item_call_def)
      then show ?thesis using made[of "?s ?e" "?bk ?e"] bk n e1 t by simp
    qed
  qed
qed

text \<open>The message of a command makes its calls.\<close>

lemma arrays_there: "fits oper n bk \<Longrightarrow> arrays_there oper bk"
  by (cases oper) (auto simp: fits_def arrays_there_def)

lemma start_step:
  assumes "in_phase (Queued oper c n) b [] [(oper, c)] st"
  shows "\<exists>st' new. proc_geofences oper c b st = Some st' \<and> touches b new st st' \<and>
    in_phase (Calling oper c n 0) b (items b new) [] st'"
proof -
  obtain bk where bk: "blocks st b = Some bk" "fits oper n bk" "no_answer b st" using assms by auto
  let ?st = "st\<lparr>blocks := (blocks st)(b \<mapsto> bk\<lparr>bk_errs := replicate n None\<rparr>)\<rparr>"
  let ?new = "map (ItemCall oper c b) [0..<n]"
  let ?st' = "fold (\<lambda>i. request CallQueue (ItemCall oper c b i)) [0..<n] ?st"
  have n: "length (bk_ids bk) = n" "0 < n" using bk(2) by (auto simp: fits_def)
  have fold: "touches b (map (ItemCall oper c b) ks) s (fold (\<lambda>i. request CallQueue (ItemCall oper c b i)) ks s)
      \<and> blocks (fold (\<lambda>i. request CallQueue (ItemCall oper c b i)) ks s) = blocks s
      \<and> no_answer b (fold (\<lambda>i. request CallQueue (ItemCall oper c b i)) ks s) = no_answer b s" for ks s
  proof (induction ks arbitrary: s)
    case (Cons k ks)
    have "touches b [ItemCall oper c b k] s (request CallQueue (ItemCall oper c b k) s)" by (rule touches_request) simp
    with Cons show ?case using touches_trans by fastforce
  qed (simp add: touches_refl)
  have "items b (map (ItemCall oper c b) ks) = map (\<lambda>k. (False, oper, c, k)) ks" for ks by (induction ks) auto
  then have "in_phase (Calling oper c n 0) b (items b ?new) [] ?st'"
    using fold bk n by (simp add: calls_def)
  moreover have "touches b ?new st ?st'" using touches_trans[OF touches_blocks conjunct1[OF fold]] by simp
  moreover have "proc_geofences oper c b st = Some ?st'" using bk n arrays_there by (simp add: proc_geofences_def)
  ultimately show ?thesis by blast
qed

section \<open>Every event\<close>

text \<open>The operations of a set \<open>S\<close> only, each command with a phase.\<close>

fun phase_in :: "geofence_op set \<Rightarrow> phase \<Rightarrow> bool" where
  "phase_in S Unused = True"
| "phase_in S (Queued oper c n) = (oper \<in> S)"
| "phase_in S (Calling oper c n i) = (oper \<in> S)"
| "phase_in S (Finishing oper c n i) = (oper \<in> S)"
| "phase_in S (Answered c n) = True"
| "phase_in S (Lost oper c n) = (oper \<in> S)"

definition in_phases ::
    "geofence_op set \<Rightarrow> (nat \<Rightarrow> phase) \<Rightarrow> response list \<Rightarrow> loc_msg list \<Rightarrow> adapter \<Rightarrow> bool" where
  "in_phases S f rs ms st \<longleftrightarrow> (\<forall>b. phase_in S (f b) \<and> in_phase (f b) b (items b rs) (queued b ms) st)"

definition commands_ok :: "geofence_op set \<Rightarrow> (nat \<Rightarrow> phase) \<Rightarrow> adapter \<Rightarrow> bool" where
  "commands_ok S f st \<longleftrightarrow>
     in_phases S f (pipeline st) (msg_queue st) st \<and> plain_pending st"

lemma phase_in_step: "phase_step ph ph' \<Longrightarrow> ph \<noteq> Unused \<Longrightarrow> phase_in S ph \<Longrightarrow> phase_in S ph'"
  by (induction rule: phase_step.induct) auto

lemma in_phase_cong:
  "blocks st' b = blocks st b \<Longrightarrow> answers_of b st' = answers_of b st \<Longrightarrow> next_block st' = next_block st \<Longrightarrow>
   in_phase ph b is qs st' = in_phase ph b is qs st"
  by (cases ph) (simp_all add: no_answer_def)

lemma commands_ok_quiet: "commands_ok S f st \<Longrightarrow> quiet st st' \<Longrightarrow> commands_ok S f st'"
  unfolding commands_ok_def in_phases_def quiet_def
  by (metis in_phase_cong answers_of_def)

text \<open>One command takes a step, the others stay.\<close>

lemma commands_ok_touched:
  assumes "commands_ok S f st" "touches b new s st'" "phase_in S ph" "in_phase ph b (items b (pipeline st')) (queued b (msg_queue st')) st'"
    and s: "blocks s = blocks st" "answers s = answers st" "next_block s = next_block st" "mPendingMsgs s = mPendingMsgs st"
      "\<And>b'. b' \<noteq> b \<Longrightarrow> items b' (pipeline s) = items b' (pipeline st)"
      "\<And>b'. b' \<noteq> b \<Longrightarrow> queued b' (msg_queue s) = queued b' (msg_queue st)"
  shows "commands_ok S (f(b := ph)) st'"
proof -
  have "phase_in S (f b') \<and> in_phase (f b') b' (items b' (pipeline st')) (queued b' (msg_queue st')) st'" if "b' \<noteq> b" for b'
  proof -
    have "phase_in S (f b') \<and> in_phase (f b') b' (items b' (pipeline st)) (queued b' (msg_queue st)) st"
      using assms(1) by (simp add: commands_ok_def in_phases_def)
    moreover have "items b' (pipeline st') = items b' (pipeline st)" "queued b' (msg_queue st') = queued b' (msg_queue st)"
      using assms(2) s that by (simp_all add: touches_def)
    moreover have "in_phase (f b') b' is qs st' = in_phase (f b') b' is qs st" for "is" qs
      using assms(2) s that by (intro in_phase_cong) (simp_all add: touches_def answers_of_def)
    ultimately show ?thesis by simp
  qed
  then show ?thesis using assms by (simp add: commands_ok_def in_phases_def touches_def plain_pending_def)
qed

lemma not_unused_issued: "in_phase ph b is qs st \<Longrightarrow> ph \<noteq> Unused \<Longrightarrow> b < next_block st"
  by (cases ph) (auto simp: no_answer_def)

lemma in_phase_later:
  assumes "in_phase ph b is qs st" "blocks st' b = blocks st b" "answers_of b st' = answers_of b st"
    "next_block st' = Suc (next_block st)" "b \<noteq> next_block st"
  shows "in_phase ph b is qs st'"
  using assms by (cases ph) (auto simp: no_answer_def)

lemma issue_step:
  assumes inv: "commands_ok S f st" and "oper \<in> S" "fits oper n bk"
    and st': "blocks st' = (blocks st)(next_block st \<mapsto> bk)" "next_block st' = Suc (next_block st)" "answers st' = answers st"
      "pipeline st' = pipeline st" "msg_queue st' = msg_queue st @ [MsgGeofences oper c (next_block st)]"
      "mPendingMsgs st' = mPendingMsgs st"
  shows "commands_ok S (f(next_block st := Queued oper c n)) st' \<and> phase_step (f (next_block st)) (Queued oper c n)"
proof
  have phases: "phase_in S (f b)" "in_phase (f b) b (items b (pipeline st)) (queued b (msg_queue st)) st" for b
    using inv by (simp_all add: commands_ok_def in_phases_def)
  have unused: "f (next_block st) = Unused" using not_unused_issued[OF phases(2)[of "next_block st"]] by blast
  then show "phase_step (f (next_block st)) (Queued oper c n)"
    using assms(3) by (auto simp: fits_def intro: phase_step.issue)
  have "in_phase (f b) b (items b (pipeline st')) (queued b (msg_queue st')) st'" if "b \<noteq> next_block st" for b
    using in_phase_later[OF phases(2)] st' that by (simp add: answers_of_def)
  moreover have "in_phase (Queued oper c n) b (items b (pipeline st')) (queued b (msg_queue st')) st'" if "b = next_block st" for b
    using phases(2)[of b] st' assms(3) unused that by (simp add: no_answer_def answers_of_def)
  ultimately show "commands_ok S (f(next_block st := Queued oper c n)) st'"
    using phases(1) assms(2) inv st'(6) by (simp add: commands_ok_def in_phases_def plain_pending_def)
qed

text \<open>
  The scripts considered: commands with one item, or any number of geofences to add with the arrays that go with
  them; the modem answers in order.
\<close>

definition has_elements :: "nat \<Rightarrow> 'a list option \<Rightarrow> bool" where
  "has_elements n xs \<longleftrightarrow> (case xs of None \<Rightarrow> False | Some ys \<Rightarrow> n \<le> length ys)"

fun event_ok :: "geofence_op set \<Rightarrow> event \<Rightarrow> bool" where
  "event_ok S (AddGeofences c n opts infos) \<longleftrightarrow> AddOp \<in> S \<and> (n = 0 \<or> has_elements n opts \<and> has_elements n infos)"
| "event_ok S (RemoveGeofences c n ids) \<longleftrightarrow> RemoveOp \<in> S \<and> n \<le> 1 \<and> n \<le> length ids"
| "event_ok S (PauseGeofences c n ids) \<longleftrightarrow> PauseOp \<in> S \<and> n \<le> 1 \<and> n \<le> length ids"
| "event_ok S (ResumeGeofences c n ids) \<longleftrightarrow> ResumeOp \<in> S \<and> n \<le> 1 \<and> n \<le> length ids"
| "event_ok S (ModifyGeofences c n ids opts) \<longleftrightarrow>
     ModifyOp \<in> S \<and> n \<le> 1 \<and> n \<le> length ids \<and> (n = 0 \<or> has_elements n opts)"
| "event_ok S (Answer i err data) \<longleftrightarrow> i = 0"
| "event_ok S _ \<longleftrightarrow> True"

definition next_phases :: "(nat \<Rightarrow> phase) \<Rightarrow> (nat \<Rightarrow> phase) \<Rightarrow> bool" where
  "next_phases f f' \<longleftrightarrow> (\<forall>b. f' b = f b \<or> phase_step (f b) (f' b))"

text \<open>Whose command it is and how many items it has; the command an event issues.\<close>

fun owner :: "phase \<Rightarrow> (ptr \<times> nat) option" where
  "owner Unused = None"
| "owner (Queued oper c n) = Some (c, n)"
| "owner (Calling oper c n i) = Some (c, n)"
| "owner (Finishing oper c n i) = Some (c, n)"
| "owner (Answered c n) = Some (c, n)"
| "owner (Lost oper c n) = Some (c, n)"

lemma owner_step: "phase_step ph ph' \<Longrightarrow> ph \<noteq> Unused \<Longrightarrow> owner ph' = owner ph"
  by (induction rule: phase_step.induct) auto

fun issues :: "event \<Rightarrow> (ptr \<times> nat) option" where
  "issues (AddGeofences c n opts infos) = (if n = 0 then None else Some (c, n))"
| "issues (RemoveGeofences c n ids) = (if n = 0 then None else Some (c, n))"
| "issues (PauseGeofences c n ids) = (if n = 0 then None else Some (c, n))"
| "issues (ResumeGeofences c n ids) = (if n = 0 then None else Some (c, n))"
| "issues (ModifyGeofences c n ids opts) = (if n = 0 then None else Some (c, n))"
| "issues _ = None"

definition step_ok ::
    "geofence_op set \<Rightarrow> (nat \<Rightarrow> phase) \<Rightarrow> adapter \<Rightarrow> (ptr \<times> nat) option \<Rightarrow> adapter option \<Rightarrow> bool" where
  "step_ok S f st q res \<longleftrightarrow> (\<exists>st' f'. res = Some st' \<and> commands_ok S f' st' \<and> next_phases f f' \<and>
     (case q of None \<Rightarrow> next_block st' = next_block st
      | Some w \<Rightarrow> next_block st' = Suc (next_block st) \<and> owner (f' (next_block st)) = Some w))"

lemma step_ok_quiet: "commands_ok S f st \<Longrightarrow> quiet st st' \<Longrightarrow> step_ok S f st None (Some st')"
  unfolding step_ok_def next_phases_def using commands_ok_quiet by (fastforce simp: quiet_def)

lemma generate_ids: "generate_ids n st = (ids, st') \<Longrightarrow> length ids = n \<and> (\<exists>k. st' = st\<lparr>mSessionIdCounter := k\<rparr>)"
proof (induction n arbitrary: st ids st')
  case 0
  then show ?case by (cases st) auto
next
  case (Suc n)
  obtain k st1 where 1: "generateSessionId st = (k, st1)" by fastforce
  obtain ks st2 where 2: "generate_ids n st1 = (ks, st2)" by fastforce
  have "\<exists>k. st1 = st\<lparr>mSessionIdCounter := k\<rparr>" using 1 by (auto simp: generateSessionId_def Let_def)
  then show ?case using Suc.IH[OF 2] Suc.prems 1 2 by auto
qed

lemma issue_ok:
  assumes inv: "commands_ok S f st" and "oper \<in> S" "fits oper n bk" "new_block bk (st\<lparr>mSessionIdCounter := k\<rparr>) = (b, s)"
  shows "step_ok S f st (Some (c, n)) (Some (sendMsg (MsgGeofences oper c b) s))"
proof -
  let ?st' = "sendMsg (MsgGeofences oper c b) s"
  have b: "b = next_block st" using assms(4) by (auto simp: new_block_def)
  have fields: "blocks ?st' = (blocks st)(next_block st \<mapsto> bk)" "next_block ?st' = Suc (next_block st)" "answers ?st' = answers st"
    "pipeline ?st' = pipeline st" "msg_queue ?st' = msg_queue st @ [MsgGeofences oper c (next_block st)]"
    "mPendingMsgs ?st' = mPendingMsgs st"
    using assms(4) by (auto simp: new_block_def sendMsg_def pipeline_def)
  note step = issue_step[OF inv assms(2,3) fields]
  then have "next_phases f (f(next_block st := Queued oper c n))" by (simp add: next_phases_def)
  moreover have "owner ((f(next_block st := Queued oper c n)) (next_block st)) = Some (c, n)" by simp
  ultimately show ?thesis using step fields(2) unfolding step_ok_def by (simp only: option.case) blast
qed

lemma copy_array_ok: "n \<le> length xs \<Longrightarrow> copy_array n xs = Some (take n xs)"
  by (simp add: copy_array_def)

lemma copy_if_ok: "has_elements n xs \<Longrightarrow> \<exists>ys. copy_if_not_null n xs = Some (Some ys) \<and> length ys = n"
  by (auto simp: has_elements_def copy_if_not_null_def copy_array_def split: option.splits)

lemma add_command_ok:
  assumes "commands_ok S f st" "event_ok S (AddGeofences c n opts infos)"
  shows "step_ok S f st (if n = 0 then None else Some (c, n)) (addGeofencesCommand c n opts infos st)"
proof (cases "n = 0")
  case True
  then show ?thesis using step_ok_quiet[OF assms(1) quiet_refl] by (simp add: addGeofencesCommand_def)
next
  case False
  then have S: "AddOp \<in> S" and "has_elements n opts" "has_elements n infos" using assms(2) by auto
  then obtain os "is" where copies: "copy_if_not_null n opts = Some (Some os)" "length os = n"
    "copy_if_not_null n infos = Some (Some is)" "length is = n"
    using copy_if_ok by metis
  obtain ids st1 where ids: "generate_ids n st = (ids, st1)" by fastforce
  then obtain k where k: "st1 = st\<lparr>mSessionIdCounter := k\<rparr>" "length ids = n" using generate_ids by blast
  let ?bk = "\<lparr>bk_ids = ids, bk_errs = [], bk_options = Some os, bk_infos = Some is\<rparr>"
  have fit: "fits AddOp n ?bk" using False copies k by (simp add: fits_def)
  obtain b s where new: "new_block ?bk st1 = (b, s)" by fastforce
  have "step_ok S f st (Some (c, n)) (Some (sendMsg (MsgGeofences AddOp c b) s))" by (rule issue_ok[OF assms(1) S fit new[unfolded k]])
  then show ?thesis using False ids copies new by (simp add: addGeofencesCommand_def)
qed

lemma other_command_ok:
  assumes "commands_ok S f st" "oper \<in> S" "oper \<noteq> AddOp" "n \<le> 1" "n \<le> length ids"
    "oper = ModifyOp \<Longrightarrow> n = 0 \<or> has_elements n opts"
  shows "step_ok S f st (if n = 0 then None else Some (c, n)) (geofencesCommand oper c n ids opts st)"
proof (cases "n = 0")
  case True
  then show ?thesis using step_ok_quiet[OF assms(1) quiet_refl] by (simp add: geofencesCommand_def)
next
  case False
  then have n: "n = 1" using assms(4) by simp
  obtain os where os: "(if oper = ModifyOp then copy_if_not_null n opts else Some None) = Some os"
    "oper = ModifyOp \<Longrightarrow> map_option length os = Some n"
    using assms(6) False copy_if_ok[of n opts] by (cases "oper = ModifyOp") auto
  let ?bk = "\<lparr>bk_ids = take n ids, bk_errs = [], bk_options = os, bk_infos = None\<rparr>"
  have fit: "fits oper n ?bk" using assms(3,5) n os(2) by (cases oper) (simp_all add: fits_def)
  obtain b s where new: "new_block ?bk st = (b, s)" by fastforce
  have "step_ok S f st (Some (c, n)) (Some (sendMsg (MsgGeofences oper c b) s))"
    by (rule issue_ok[OF assms(1,2) fit, of "mSessionIdCounter st"]) (simp add: new)
  then show ?thesis using False os(1) new copy_array_ok[OF assms(5)] by (simp add: geofencesCommand_def)
qed

lemma answer_ok:
  assumes "commands_ok S f st"
  shows "step_ok S f st None (geofence_event (Answer 0 err data) st)"
proof (cases "outstanding st")
  case Nil
  then show ?thesis using step_ok_quiet[OF assms quiet_refl] by (simp add: geofence_event_def)
next
  case (Cons q qs)
  let ?st' = "sendMsg (LocApiResponse (snd q) err data) (st\<lparr>outstanding := qs\<rparr>)"
  have "quiet st ?st'" using Cons by (simp add: quiet_def pipeline_def plain_pending_def)
  then show ?thesis using step_ok_quiet[OF assms] Cons by (simp add: geofence_event_def)
qed

text \<open>The next message.\<close>

lemma quiet_pop:
  assumes "msg_queue st = m # ms" "\<And>b. command_of b m = []" "\<And>b. items b (response_of m) = []"
  shows "quiet st (st\<lparr>msg_queue := ms\<rparr>)"
  using assms by (simp add: quiet_def pipeline_def plain_pending_def)

lemma quiet_proc:
  assumes "\<And>b. command_of b m = []" "\<And>b. items b (response_of m) = []" "plain_pending st"
  shows "\<exists>st'. proc_msg m st = Some st' \<and> quiet st st'"
proof (cases m)
  case (MsgRemoveClient client)
  have "quiet st (eraseClient client (fold (stop_entry client) (mGeofenceIds st) st))"
    by (rule quiet_trans[OF quiet_fold[OF quiet_stop_entry] quiet_eraseClient])
  then show ?thesis by (simp add: MsgRemoveClient proc_msg_def stop_fold)
next
  case (MsgRequestCapabilities client)
  have "quiet st (st\<lparr>mPendingMsgs := mPendingMsgs st @ [MsgRequestCapabilities client]\<rparr>)"
    "quiet st (st\<lparr>capabilities := capabilities st @ [client]\<rparr>)"
    by (rule quiet_fields; auto)+
  then show ?thesis by (simp add: MsgRequestCapabilities proc_msg_def split: option.split)
next
  case (LocApiResponse r err data)
  then have "\<forall>b. item_of b r = []" using assms(2) by simp
  then show ?thesis using LocApiResponse
    by (cases r) (simp_all add: proc_msg_def proc_response_def quiet_responses split: if_splits)
next
  case (MsgGeofences oper c b)
  then show ?thesis using assms(1)[of b] by simp
qed (use assms in \<open>auto simp: proc_msg_def quiet_saveClient quiet_geofenceBreach quiet_geofenceStatus
  quiet_updateSystemPowerState quiet_proc_engine_up\<close>)

lemma item_ok:
  assumes inv: "commands_ok S f st" and msg: "msg_queue st = LocApiResponse r err data # ms"
    and r: "item_of b r = [(called, oper, c, i)]"
  shows "step_ok S f st None (proc_response r err data (st\<lparr>msg_queue := ms\<rparr>))"
proof -
  let ?s = "st\<lparr>msg_queue := ms\<rparr>"
  let ?is = "items b (pipeline ?s)"
  have pop: "pipeline st = r # pipeline ?s" "\<And>b'. queued b' (msg_queue st) = queued b' ms"
    using msg by (simp_all add: pipeline_def)
  have ph: "phase_in S (f b)" "in_phase (f b) b ((called, oper, c, i) # ?is) (queued b ms) st"
    using inv[unfolded commands_ok_def in_phases_def] pop r by (simp_all, metis append_Cons append_Nil)
  then have qs: "queued b ms = []" and used: "f b \<noteq> Unused" by (cases "f b"; auto)+
  have s: "in_phase (f b) b ((called, oper, c, i) # ?is) [] ?s"
    using ph(2) qs in_phase_cong[of ?s b st] by (simp add: answers_of_def)
  have "takes_step (f b) b ?is ?s (proc_response r err data ?s)"
  proof (cases r)
    case (ItemCall o' c' b' i')
    then have r': "r = ItemCall oper c b i" "\<not> called" using r by (auto split: if_splits)
    then have "\<exists>n. f b = Calling oper c n i" using s
      by (cases "f b") (auto simp: calls_def results_def upt_conv_Cons Cons_eq_append_conv Cons_eq_map_conv)
    then show ?thesis using call_step s r' by (auto simp: proc_response_def)
  next
    case (ItemDone o' c' b' i' hwId)
    then have r': "r = ItemDone oper c b i hwId" "called" using r by (auto split: if_splits)
    have "\<exists>n. f b = Finishing oper c n i" using s r'
      by (cases "f b") (auto simp: calls_def results_def upt_conv_Cons Cons_eq_append_conv Cons_eq_map_conv)
    then show ?thesis using done_step s r' by (auto simp: proc_response_def)
  qed (use r in auto)
  then obtain st' new ph' where st': "proc_response r err data ?s = Some st'" "touches b new ?s st'"
    "phase_step (f b) ph'" "in_phase ph' b (?is @ items b new) [] st'"
    by (auto simp: takes_step_def)
  have others: "item_of b' r = []" if "b' \<noteq> b" for b' using r that by (cases r) (auto split: if_splits)
  have "commands_ok S (f(b := ph')) st'"
  proof (rule commands_ok_touched[OF inv st'(2)])
    show "phase_in S ph'" by (rule phase_in_step[OF st'(3) used ph(1)])
    show "in_phase ph' b (items b (pipeline st')) (queued b (msg_queue st')) st'"
      using st'(2,4) qs by (simp add: touches_def)
  qed (use pop others in simp_all)
  moreover have "next_phases f (f(b := ph'))" using st'(3) by (simp add: next_phases_def)
  ultimately show ?thesis using st'(1,2) by (auto simp: step_ok_def touches_def)
qed

lemma command_ok:
  assumes inv: "commands_ok S f st" and msg: "msg_queue st = MsgGeofences oper c b # ms"
  shows "step_ok S f st None (proc_geofences oper c b (st\<lparr>msg_queue := ms\<rparr>))"
proof -
  let ?s = "st\<lparr>msg_queue := ms\<rparr>"
  have ph: "phase_in S (f b)" "in_phase (f b) b (items b (pipeline st)) (queued b (msg_queue st)) st"
    using inv by (simp_all add: commands_ok_def in_phases_def)
  have pop: "pipeline ?s = pipeline st" "\<And>b'. b' \<noteq> b \<Longrightarrow> queued b' (msg_queue st) = queued b' ms"
    "queued b (msg_queue st) = (oper, c) # queued b ms"
    using msg by (simp_all add: pipeline_def)
  then obtain n where n: "f b = Queued oper c n" using ph(2) by (cases "f b") auto
  then have e: "items b (pipeline st) = []" "queued b ms = []" using ph(2) pop by auto
  have "in_phase (f b) b [] [(oper, c)] ?s" using ph(2) pop e in_phase_cong[of ?s b st] by (simp add: answers_of_def)
  then obtain st' new where st': "proc_geofences oper c b ?s = Some st'" "touches b new ?s st'"
    "in_phase (Calling oper c n 0) b (items b new) [] st'"
    using start_step n by metis
  have "commands_ok S (f(b := Calling oper c n 0)) st'"
  proof (rule commands_ok_touched[OF inv st'(2)])
    show "phase_in S (Calling oper c n 0)" using ph(1) n by simp
    show "in_phase (Calling oper c n 0) b (items b (pipeline st')) (queued b (msg_queue st')) st'"
      using st'(2,3) e pop(1) by (simp add: touches_def)
  qed (use pop in simp_all)
  moreover have "next_phases f (f(b := Calling oper c n 0))" using phase_step.start n by (simp add: next_phases_def)
  ultimately show ?thesis using st'(1,2) by (auto simp: step_ok_def touches_def)
qed

lemma proc_ok:
  assumes inv: "commands_ok S f st"
  shows "step_ok S f st None (geofence_event Proc st)"
proof (cases "msg_queue st")
  case Nil
  then show ?thesis using step_ok_quiet[OF inv quiet_refl] by (simp add: geofence_event_def)
next
  case (Cons m ms)
  let ?s = "st\<lparr>msg_queue := ms\<rparr>"
  have ev: "geofence_event Proc st = proc_msg m ?s" using Cons by (simp add: geofence_event_def)
  consider (command) oper c b where "m = MsgGeofences oper c b"
    | (item) r err data b x where "m = LocApiResponse r err data" "item_of b r = [x]"
    | (plain) "\<And>b. command_of b m = []" "\<And>b. items b (response_of m) = []"
  proof (cases m)
    case (LocApiResponse r err data)
    have "(\<forall>b. item_of b r = []) \<or> (\<exists>b x. item_of b r = [x])" by (cases r) auto
    then show ?thesis using that(2,3) LocApiResponse by fastforce
  qed (use that in auto)
  then show ?thesis
  proof cases
    case command
    then show ?thesis using command_ok[OF inv] Cons ev by (simp add: proc_msg_def)
  next
    case item
    then show ?thesis using item_ok[OF inv] Cons ev by (cases x) (simp add: proc_msg_def)
  next
    case plain
    have "plain_pending ?s" using inv by (simp add: commands_ok_def plain_pending_def)
    then obtain st' where "proc_msg m ?s = Some st'" "quiet ?s st'" using quiet_proc plain by metis
    then show ?thesis using step_ok_quiet[OF inv quiet_trans[OF quiet_pop[OF Cons plain]]] ev by simp
  qed
qed

theorem event_step:
  assumes inv: "commands_ok S f st" and ok: "event_ok S e"
  shows "step_ok S f st (issues e) (geofence_event e st)"
proof (cases e)
  case (AddGeofences c n opts infos)
  then show ?thesis using add_command_ok[OF inv] ok by (simp add: geofence_event_def)
next
  case (RemoveGeofences c n ids)
  then show ?thesis using other_command_ok[OF inv, of RemoveOp] ok by (simp add: geofence_event_def removeGeofencesCommand_def)
next
  case (PauseGeofences c n ids)
  then show ?thesis using other_command_ok[OF inv, of PauseOp] ok by (simp add: geofence_event_def pauseGeofencesCommand_def)
next
  case (ResumeGeofences c n ids)
  then show ?thesis using other_command_ok[OF inv, of ResumeOp] ok by (simp add: geofence_event_def resumeGeofencesCommand_def)
next
  case (ModifyGeofences c n ids opts)
  then show ?thesis using other_command_ok[OF inv, of ModifyOp] ok by (simp add: geofence_event_def modifyGeofencesCommand_def)
next
  case (Answer i err data)
  then show ?thesis using answer_ok[OF inv] ok by simp
next
  case Proc
  then show ?thesis using proc_ok[OF inv] by simp
qed (use step_ok_quiet[OF inv quiet_refl] step_ok_quiet[OF inv quiet_sendMsg] in \<open>auto simp: geofence_event_def\<close>)

lemma commands_ok_init: "commands_ok S (\<lambda>b. Unused) adapter_init"
  by (simp add: commands_ok_def in_phases_def adapter_init_def pipeline_def answers_of_def plain_pending_def)

text \<open>Hence every script; the commands it issues have the blocks in order.\<close>

definition issued :: "event list \<Rightarrow> (ptr \<times> nat) list" where
  "issued es = concat (map (\<lambda>e. case issues e of None \<Rightarrow> [] | Some w \<Rightarrow> [w]) es)"

lemma owner_next:
  assumes "next_phases f f'" "commands_ok S f st" "b < next_block st"
  shows "owner (f' b) = owner (f b)"
proof -
  have "in_phase (f b) b (items b (pipeline st)) (queued b (msg_queue st)) st"
    using assms(2) by (simp add: commands_ok_def in_phases_def)
  then have "f b \<noteq> Unused" using assms(3) by auto
  then show ?thesis using assms(1) owner_step unfolding next_phases_def by metis
qed

lemma run_append: "geofence_run (es @ es') st = Option.bind (geofence_run es st) (geofence_run es')"
  by (induction es arbitrary: st) (auto split: Option.bind_split)

definition owners :: "(nat \<Rightarrow> phase) \<Rightarrow> adapter \<Rightarrow> (ptr \<times> nat) option list" where
  "owners f st = map (\<lambda>b. owner (f b)) [0..<next_block st]"

lemma run_ok:
  assumes "commands_ok S f st" "\<forall>e \<in> set es. event_ok S e"
  shows "\<exists>st' f'. geofence_run es st = Some st' \<and> commands_ok S f' st' \<and>
    owners f' st' = owners f st @ map Some (issued es)"
  using assms
proof (induction es arbitrary: f st)
  case (Cons e es)
  then obtain st1 f1 where 1: "geofence_event e st = Some st1" "commands_ok S f1 st1" "next_phases f f1"
    and q: "case issues e of None \<Rightarrow> next_block st1 = next_block st
      | Some w \<Rightarrow> next_block st1 = Suc (next_block st) \<and> owner (f1 (next_block st)) = Some w"
    using event_step[of S f st e] unfolding step_ok_def by auto
  note same = owner_next[OF 1(3) Cons.prems(1)]
  have "owners f1 st1 = owners f st @ map Some (issued [e])"
    using q by (cases "issues e") (auto simp: owners_def issued_def same)
  then show ?case using Cons.IH[OF 1(2)] Cons.prems(2) 1(1) by (auto simp: issued_def)
qed (auto simp: issued_def)

end
