(* ===== verification/GeofenceRest.thy ===== *)
theory GeofenceRest
  imports GeofenceInv
begin

text \<open>
  The adapter comes to rest: if the thread handles its messages and the modem answers, after finitely many
  steps nothing is left to do.
\<close>

text \<open>
  The steps left: an engine restart first, then the other messages that are not results, then what the closures
  still do, an outstanding one one step more than one in the queue.
\<close>

definition weight :: "response \<Rightarrow> nat" where
  "weight r = (case r of ItemCall oper c b i \<Rightarrow> 4 | RestartDone object opts info \<Rightarrow> 4 | _ \<Rightarrow> 2)"

definition restarts :: "loc_msg list \<Rightarrow> nat" where
  "restarts ms = length (filter (\<lambda>m. m = MsgSSREvent) ms)"

definition others :: "loc_msg list \<Rightarrow> nat" where
  "others ms = length (filter (\<lambda>m. response_of m = [] \<and> m \<noteq> MsgSSREvent) ms)"

definition work :: "adapter \<Rightarrow> nat" where
  "work st = sum_list (map (\<lambda>m. sum_list (map (\<lambda>r. weight r - 1) (response_of m))) (msg_queue st)) +
     sum_list (map (\<lambda>q. weight (snd q)) (outstanding st))"

definition rest_measure :: "adapter \<Rightarrow> nat \<times> nat \<times> nat" where
  "rest_measure st = (restarts (msg_queue st), others (msg_queue st), work st)"

definition rest_order :: "(adapter \<times> adapter) set" where
  "rest_order = inv_image (less_than <*lex*> less_than <*lex*> less_than) rest_measure"

lemma wf_rest_order: "wf rest_order"
  unfolding rest_order_def by (intro wf_inv_image wf_lex_prod wf_less_than)

text \<open>Processing a result sends no message, and its requests weigh less than the result did.\<close>

lemma work_simps [simp]:
  "work (request call r st) = work st + weight r" "weight (ItemDone oper c b i hwId) = 2" "weight (ItemCall oper c b i) = 4"
  "weight (StopDone hwId e) = 2" "weight (RestartDone object opts info) = 4" "weight RestartPaused = 2"
  "weight (PowerDone resume hwId) = 2"
  by (simp_all add: work_def request_def weight_def)

definition same_work :: "adapter \<Rightarrow> adapter \<Rightarrow> bool" where
  "same_work st st' \<longleftrightarrow> msg_queue st' = msg_queue st \<and> outstanding st' = outstanding st"

lemma same_work_items:
  "same_work st (saveGeofenceItem client clientId hwId opts info st)" "same_work st (removeGeofenceItem hwId st)"
  "same_work st (update_item hwId f st)"
  by (simp_all add: same_work_def saveGeofenceItem_def Let_def removeGeofenceItem_def update_item_def split: option.split)

lemma same_work_simps [simp]:
  "same_work st st" "same_work s (saveGeofenceItem client clientId hwId opts info st) = same_work s st"
  "same_work s (removeGeofenceItem hwId st) = same_work s st" "same_work s (update_item hwId f st) = same_work s st"
  "same_work (removeGeofenceItem hwId st) s = same_work st s" "same_work (update_item hwId f st) s = same_work st s"
  "same_work (saveGeofenceItem client clientId hwId opts info st) s = same_work st s"
  using same_work_items by (auto simp: same_work_def)

lemma same_work_err: "set_err b i e st = Some st' \<Longrightarrow> same_work st st'"
  by (auto simp: set_err_def same_work_def split: Option.bind_splits if_splits)

lemma same_work_last: "last_item c b i st = Some st' \<Longrightarrow> same_work st st'"
  by (auto simp: last_item_def reportResponse_def same_work_def Let_def split: Option.bind_splits if_splits)

lemma same_work_trans [trans]: "same_work a b \<Longrightarrow> same_work b c \<Longrightarrow> same_work a c"
  by (simp add: same_work_def)

definition grows :: "nat \<Rightarrow> adapter \<Rightarrow> adapter \<Rightarrow> bool" where
  "grows k st st' \<longleftrightarrow> msg_queue st' = msg_queue st \<and> work st' \<le> work st + k"

lemma same_work_grows: "same_work st st' \<Longrightarrow> grows k st st'"
  by (simp add: same_work_def grows_def work_def)

lemma grows_request: "same_work st s \<Longrightarrow> weight r \<le> k \<Longrightarrow> grows k st (request call r s)"
  using same_work_grows[of st s 0] by (simp add: grows_def)

lemma grows_same: "grows k st s \<Longrightarrow> same_work s st' \<Longrightarrow> grows k st st'"
  by (auto simp: same_work_def grows_def work_def)

lemma grows_item_call:
  assumes "item_call oper c b i st = Some st'"
  shows "grows 2 st st'"
proof -
  have "same_work st st' \<or> (\<exists>s api h. same_work st s \<and> st' = request api (ItemDone oper c b i h) s)"
    using assms by (auto simp: item_call_def split: Option.bind_splits if_splits option.splits
        dest!: same_work_err same_work_last intro: same_work_trans same_work_simps(1))
  then show ?thesis by (auto intro: same_work_grows grows_request)
qed

lemma grows_item_done:
  assumes "item_done oper c b i hwId err data st = Some st'"
  shows "grows 0 st st'"
proof -
  have "same_work st st'"
    using assms by (cases oper) (auto simp: item_done_def item_defs split: Option.bind_splits if_splits
        dest!: same_work_last same_work_err intro: same_work_trans)
  then show ?thesis by (rule same_work_grows)
qed

lemma grows_response:
  assumes "proc_response r err data st = Some st'"
  shows "grows (weight r - 2) st st'"
proof (cases r)
  case (ItemCall oper c b i)
  then show ?thesis using assms grows_item_call by (simp add: proc_response_def)
next
  case (ItemDone oper c b i hwId)
  then show ?thesis using assms grows_item_done by (simp add: proc_response_def)
next
  case (StopDone hwId e)
  then show ?thesis using assms by (auto simp: proc_response_def stop_done_def same_work_def intro!: same_work_grows)
next
  case (RestartDone object opts info)
  have "grows 2 st (saveGeofenceItem cl k data opts info (request api RestartPaused st))" for cl k api
    by (rule grows_same[OF grows_request same_work_items(1)]) (simp_all add: same_work_def)
  moreover have "grows 2 st (saveGeofenceItem cl k data opts info st)" for cl k
    by (rule same_work_grows[OF same_work_items(1)])
  moreover have "grows 2 st st" by (simp add: grows_def)
  ultimately show ?thesis using assms RestartDone by (auto simp: proc_response_def restart_done_def Let_def)
next
  case RestartPaused
  then show ?thesis using assms by (auto simp: proc_response_def grows_def)
next
  case (PowerDone resume hwId)
  then show ?thesis using assms
    by (auto simp: proc_response_def power_done_def item_defs split: if_splits intro!: same_work_grows)
qed

section \<open>One step\<close>

definition at_rest :: "adapter \<Rightarrow> bool" where
  "at_rest st \<longleftrightarrow> msg_queue st = [] \<and> outstanding st = []"

text \<open>The thread takes the next message; with none left the modem answers.\<close>

definition next_event :: "adapter \<Rightarrow> event" where
  "next_event st = (if msg_queue st = [] then Answer 0 LOCATION_ERROR_SUCCESS 0 else Proc)"

lemma queue_fold_requests:
  "(\<And>x st. msg_queue (f x st) = msg_queue st) \<Longrightarrow> msg_queue (fold f xs st) = msg_queue st"
  by (induction xs arbitrary: st) simp_all

lemma queue_messages: "msg_queue (fold sendMsg ms st) = msg_queue st @ ms"
  by (induction ms arbitrary: st) simp_all

lemma queue_plain:
  assumes "proc_msg m st = Some st'" "response_of m = []" "m \<noteq> MsgSSREvent"
  shows "msg_queue st' = msg_queue st"
proof (cases m)
  case (MsgRemoveClient client)
  have "msg_queue (stop_entry client e s) = msg_queue s" for e s by (cases e) simp
  then have "msg_queue (fold (stop_entry client) es s) = msg_queue s" for es s by (rule queue_fold_requests)
  then show ?thesis using assms(1) MsgRemoveClient
    by (auto simp: proc_msg_def stop_fold eraseClient_def updateClientsEventMask_def)
next
  case (MsgGeofences oper c b)
  have "msg_queue (fold (\<lambda>i. request CallQueue (ItemCall oper c b i)) is s) = msg_queue s" for "is" s
    by (rule queue_fold_requests) simp
  then show ?thesis using assms(1) MsgGeofences
    by (auto simp: proc_msg_def proc_geofences_def Let_def split: Option.bind_splits if_splits)
next
  case (MsgGeofenceBreach hwIds t)
  have "msg_queue (geofenceBreach hwIds t st) = msg_queue st"
    unfolding geofenceBreach_def by (rule queue_fold_requests) (simp add: Let_def split: prod.split)
  then show ?thesis using assms(1) MsgGeofenceBreach by (auto simp: proc_msg_def)
next
  case (MsgGeofenceStatus a)
  have "msg_queue (geofenceStatus a st) = msg_queue st"
    unfolding geofenceStatus_def by (rule queue_fold_requests) (simp split: prod.split)
  then show ?thesis using assms(1) MsgGeofenceStatus by (auto simp: proc_msg_def)
next
  case (MsgUpdateSystemPowerState p)
  have "msg_queue (pauseOrResumeGeofences resume s) = msg_queue s" for resume s
    unfolding pauseOrResumeGeofences_def by (rule queue_fold_requests) (simp split: prod.split)
  then have "msg_queue (updateSystemPowerState p st) = msg_queue st"
    by (cases p) (simp_all add: updateSystemPowerState_def)
  then show ?thesis using assms(1) MsgUpdateSystemPowerState by (auto simp: proc_msg_def)
qed (use assms in \<open>auto simp: proc_msg_def saveClient_def updateClientsEventMask_def split: option.splits if_splits\<close>)

lemma queue_engine_up: "msg_queue (proc_engine_up st) = msg_queue st @ mPendingMsgs st"
  by (simp add: proc_engine_up_def Let_def queue_messages broadcastCapabilities_def)

lemma restarts_pending: "plain_pending st \<Longrightarrow> restarts (mPendingMsgs st) = 0"
  by (auto simp: plain_pending_def restarts_def capabilities_msg_def filter_empty_conv)

lemma measure_simps [simp]:
  "restarts (m # ms) = (if m = MsgSSREvent then 1 else 0) + restarts ms" "restarts (ms @ ms') = restarts ms + restarts ms'"
  "others (m # ms) = (if response_of m = [] \<and> m \<noteq> MsgSSREvent then 1 else 0) + others ms"
  by (simp_all add: restarts_def others_def)

lemma next_event_decreases:
  assumes inv: "commands_ok S f st" and busy: "\<not> at_rest st" and step: "geofence_event (next_event st) st = Some st'"
  shows "(st', st) \<in> rest_order"
proof (cases "msg_queue st")
  case Nil
  then obtain q qs where "outstanding st = q # qs" using busy by (auto simp: at_rest_def neq_Nil_conv)
  then have "st' = sendMsg (LocApiResponse (snd q) LOCATION_ERROR_SUCCESS 0) (st\<lparr>outstanding := qs\<rparr>)"
    and "work st = weight (snd q) + sum_list (map (\<lambda>q. weight (snd q)) qs)" "0 < weight (snd q)"
    using step Nil by (auto simp: next_event_def geofence_event_def work_def weight_def split: response.split)
  then show ?thesis using Nil
    by (simp add: rest_order_def rest_measure_def restarts_def others_def work_def)
next
  case (Cons m ms)
  let ?s = "st\<lparr>msg_queue := ms\<rparr>"
  have proc: "proc_msg m ?s = Some st'" using step Cons by (simp add: next_event_def geofence_event_def)
  consider (ssr) "m = MsgSSREvent" | (plain) "response_of m = []" "m \<noteq> MsgSSREvent" | (result) r err data where "m = LocApiResponse r err data"
    by (cases m) auto
  then show ?thesis
  proof cases
    case ssr
    then have "st' = proc_engine_up ?s" using proc by (simp add: proc_msg_def)
    moreover have "restarts (mPendingMsgs st) = 0" using inv restarts_pending by (simp add: commands_ok_def)
    ultimately show ?thesis using ssr Cons by (simp add: rest_order_def rest_measure_def queue_engine_up)
  next
    case plain
    then have "msg_queue st' = ms" using queue_plain[OF proc] by simp
    then show ?thesis using plain Cons by (simp add: rest_order_def rest_measure_def)
  next
    case result
    then have "grows (weight r - 2) ?s st'" using proc grows_response by (simp add: proc_msg_def)
    then have "msg_queue st' = ms" "work st' \<le> work ?s + (weight r - 2)" by (simp_all add: grows_def)
    moreover have "work st = weight r - 1 + work ?s" using Cons result by (simp add: work_def)
    moreover have "2 \<le> weight r" by (simp add: weight_def split: response.split)
    ultimately show ?thesis using result Cons by (simp add: rest_order_def rest_measure_def)
  qed
qed

text \<open>Until nothing is left to do.\<close>

lemma comes_to_rest:
  assumes "commands_ok S f st"
  shows "\<exists>es st' f'. (\<forall>e \<in> set es. e = Proc \<or> e = Answer 0 LOCATION_ERROR_SUCCESS 0) \<and> geofence_run es st = Some st' \<and>
    commands_ok S f' st' \<and> at_rest st' \<and> owners f' st' = owners f st"
  using assms
proof (induction st arbitrary: f rule: wf_induct_rule[OF wf_rest_order])
  case (1 st)
  show ?case
  proof (cases "at_rest st")
    case True
    then show ?thesis using 1(2) by (intro exI[of _ "[]"]) auto
  next
    case False
    have e: "next_event st = Proc \<or> next_event st = Answer 0 LOCATION_ERROR_SUCCESS 0" by (simp add: next_event_def)
    then have ok: "\<forall>e \<in> set [next_event st]. event_ok S e" "issued [next_event st] = []" by (auto simp: issued_def)
    obtain st1 f1 where 1: "geofence_event (next_event st) st = Some st1" "commands_ok S f1 st1" "owners f1 st1 = owners f st"
      using run_ok[OF 1(2) ok(1)] ok(2) by (auto split: Option.bind_splits)
    then obtain es st' f' where es: "\<forall>e \<in> set es. e = Proc \<or> e = Answer 0 LOCATION_ERROR_SUCCESS 0"
      "geofence_run es st1 = Some st'" "commands_ok S f' st'" "at_rest st'" "owners f' st' = owners f1 st1"
      using "1.IH"[OF next_event_decreases[OF "1.prems" False 1(1)] 1(2)] by blast
    show ?thesis by (rule exI[of _ "next_event st # es"], rule exI[of _ st'], rule exI[of _ f']) (use es 1 e in auto)
  qed
qed

text \<open>At rest every command is answered, unless it is lost.\<close>

lemma rest_answered:
  assumes "commands_ok S f st" "at_rest st" "b < next_block st" "ResumeOp \<notin> S"
  shows "\<exists>c n. f b = Answered c n"
proof -
  have "in_phase (f b) b [] [] st" "phase_in S (f b)"
    using assms(1,2) by (simp_all add: commands_ok_def in_phases_def at_rest_def pipeline_def)
  then show ?thesis using assms(3,4) by (cases "f b") (auto simp: calls_def results_def)
qed

lemma answers_sound:
  assumes "commands_ok S f st" "(b, c, called, errs, ids) \<in> set (answers st)"
  shows "None \<notin> set errs \<and> length errs = length ids \<and> b < next_block st \<and> owner (f b) = Some (c, length ids) \<and>
    answers_of b st = [(b, c, called, errs, ids)]"
proof -
  have "in_phase (f b) b (items b (pipeline st)) (queued b (msg_queue st)) st"
    using assms(1) by (simp add: commands_ok_def in_phases_def)
  moreover have "(b, c, called, errs, ids) \<in> set (answers_of b st)" using assms(2) by (simp add: answers_of_def)
  ultimately show ?thesis by (cases "f b") (auto simp: no_answer_def)
qed

lemma distinct_filter_keys:
  "(\<And>x. x \<in> set xs \<Longrightarrow> filter (\<lambda>a. fst a = fst x) xs = [x]) \<Longrightarrow> distinct (map fst xs)"
proof (induction xs)
  case (Cons y xs)
  have "fst y \<notin> fst ` set xs" using Cons.prems[of y] by (auto simp: filter_empty_conv)
  moreover have "filter (\<lambda>a. fst a = fst x) xs = [x]" if "x \<in> set xs" for x
    using Cons.prems[of x] that calculation by (auto split: if_splits)
  ultimately show ?case using Cons.IH by simp
qed simp

lemma answers_distinct:
  assumes "commands_ok S f st"
  shows "distinct (map fst (answers st))"
proof (rule distinct_filter_keys)
  fix x assume x: "x \<in> set (answers st)"
  obtain b c called errs ids where eq: "x = (b, c, called, errs, ids)" by (cases x)
  show "filter (\<lambda>a. fst a = fst x) (answers st) = [x]"
    using answers_sound[OF assms x[unfolded eq]] unfolding answers_of_def eq by (simp only: fst_conv)
qed

end
