(* ===== verification/GeofenceMaps.thy ===== *)
theory GeofenceMaps
  imports GeofenceInv
begin

text \<open>
  For every script in which the modem never hands out a hardware id twice, the geofence a client's id stands for is the client's
  own. The other way round it is not so: the geofence of a client that went stays until the modem has removed it.
\<close>

section \<open>The invariant\<close>

definition maps_ok :: "adapter \<Rightarrow> bool" where
  "maps_ok st \<longleftrightarrow> map_ok (mGeofences st) \<and> map_ok (mGeofenceIds st) \<and>
     (\<forall>k hw. map_of (mGeofenceIds st) k = Some hw \<longrightarrow> map_option key (map_of (mGeofences st) hw) = Some k)"

text \<open>The hardware ids to come: those of results in the queue and of the answers of a script.\<close>

definition data_of :: "loc_msg \<Rightarrow> u32 list" where
  "data_of m = (case m of LocApiResponse r err data \<Rightarrow> [data] | _ \<Rightarrow> [])"

definition datas :: "event list \<Rightarrow> u32 list" where
  "datas es = concat (map (\<lambda>e. case e of Answer i err data \<Rightarrow> [data] | _ \<Rightarrow> []) es)"

definition coming :: "u32 list \<Rightarrow> adapter \<Rightarrow> u32 list" where
  "coming ds st = concat (map data_of (msg_queue st)) @ ds"

text \<open>The ids whose removal was requested when their client went.\<close>

definition stopping :: "adapter \<Rightarrow> u32 set" where
  "stopping st = {hw. \<exists>e. StopDone hw e \<in> set (pipeline st)}"

definition hw_inv :: "u32 list \<Rightarrow> adapter \<Rightarrow> bool" where
  "hw_inv ds st \<longleftrightarrow> maps_ok st \<and> distinct (coming ds st) \<and> plain_pending st \<and>
     (\<forall>hw \<in> set (coming ds st). map_of (mGeofences st) hw = None \<and> hw \<notin> stopping st) \<and>
     (\<forall>k hw. map_of (mGeofenceIds st) k = Some hw \<longrightarrow> hw \<notin> stopping st)"

definition new_hw :: "u32 list \<Rightarrow> u32 \<Rightarrow> adapter \<Rightarrow> bool" where
  "new_hw ds hw st \<longleftrightarrow> hw \<notin> set (coming ds st) \<and> map_of (mGeofences st) hw = None \<and> hw \<notin> stopping st"

lemma data_of_simps [simp]:
  "data_of (LocApiResponse r e d) = [d]" "plain_msg m \<Longrightarrow> data_of m = []"
  "data_of (MsgGeofences oper c b) = []"
  by (auto simp: data_of_def plain_msg_def response_of_def split: loc_msg.splits)

section \<open>Operations that leave the maps alone\<close>

definition frames :: "adapter \<Rightarrow> adapter \<Rightarrow> bool" where
  "frames st st' \<longleftrightarrow> mGeofences st' = mGeofences st \<and> mGeofenceIds st' = mGeofenceIds st \<and> stopping st' \<subseteq> stopping st \<and>
     concat (map data_of (msg_queue st')) = concat (map data_of (msg_queue st)) \<and> (plain_pending st \<longrightarrow> plain_pending st')"

lemma frames_refl [simp]: "frames st st" by (simp add: frames_def)

lemma frames_trans [trans]: "frames a b \<Longrightarrow> frames b c \<Longrightarrow> frames a c" by (auto simp: frames_def)

lemma frames_fold: "(\<And>x st. frames st (f x st)) \<Longrightarrow> frames st (fold f xs st)"
  by (induction xs arbitrary: st) (auto intro: frames_trans)

lemma hw_inv_frames:
  assumes "hw_inv ds st" "frames st st'"
  shows "hw_inv ds st'"
proof -
  have "coming ds st' = coming ds st" using assms(2) by (simp add: coming_def frames_def)
  then show ?thesis using assms unfolding hw_inv_def frames_def maps_ok_def by (simp add: subset_iff) blast
qed

lemma new_hw_frames: "new_hw ds hw st \<Longrightarrow> frames st st' \<Longrightarrow> new_hw ds hw st'"
  by (auto simp: new_hw_def frames_def coming_def)

lemma stopping_request [simp]:
  "stopping (request call r st) = (case r of StopDone hw e \<Rightarrow> insert hw (stopping st) | _ \<Rightarrow> stopping st)"
  by (auto simp: stopping_def split: response.split)

lemma frames_request: "(\<And>hw e. r \<noteq> StopDone hw e) \<Longrightarrow> frames st (request call r st)"
  by (simp add: frames_def split: response.split)

lemma frames_sendMsg: "plain_msg m \<or> (\<exists>oper c b. m = MsgGeofences oper c b) \<Longrightarrow> frames st (sendMsg m st)"
  by (auto simp: frames_def stopping_def pipeline_def plain_msg_def)

lemma frames_fields:
  assumes "mGeofences st' = mGeofences st" "mGeofenceIds st' = mGeofenceIds st" "msg_queue st' = msg_queue st"
    "outstanding st' = outstanding st" "\<forall>m \<in> set (mPendingMsgs st'). capabilities_msg m \<or> m \<in> set (mPendingMsgs st)"
  shows "frames st st'"
  using assms by (auto simp: frames_def stopping_def pipeline_def plain_pending_def)

lemma frames_set_err: "set_err b i e st = Some st' \<Longrightarrow> frames st st'"
  by (auto simp: set_err_def split: Option.bind_splits if_splits intro!: frames_fields)

lemma frames_last: "last_item c b i st = Some st' \<Longrightarrow> frames st st'"
  by (auto simp: last_item_def reportResponse_def Let_def split: Option.bind_splits if_splits intro!: frames_fields)

lemma frames_item_call: "item_call oper c b i st = Some st' \<Longrightarrow> frames st st'"
  by (auto simp: item_call_def split: Option.bind_splits if_splits option.splits
      dest!: frames_set_err frames_last intro: frames_trans frames_request)

lemma frames_proc_geofences: "proc_geofences oper c b st = Some st' \<Longrightarrow> frames st st'"
proof -
  have fold: "frames s (fold (\<lambda>i. request CallQueue (ItemCall oper c b i)) is s)" for "is" s
    by (rule frames_fold) (simp add: frames_request)
  have "frames st (st\<lparr>blocks := x\<rparr>)" for x by (rule frames_fields) simp_all
  note this frames_trans[OF this fold]
  then show "proc_geofences oper c b st = Some st' \<Longrightarrow> frames st st'"
    by (auto simp: proc_geofences_def Let_def split: Option.bind_splits if_splits)
qed

section \<open>Operations on the maps\<close>

lemma stopping_items [simp]:
  "stopping (saveGeofenceItem client clientId hwId opts info st) = stopping st"
  "stopping (removeGeofenceItem hwId st) = stopping st" "stopping (update_item hwId f st) = stopping st"
  "coming ds (saveGeofenceItem client clientId hwId opts info st) = coming ds st"
  "coming ds (removeGeofenceItem hwId st) = coming ds st" "coming ds (update_item hwId f st) = coming ds st"
  "plain_pending (saveGeofenceItem client clientId hwId opts info st) = plain_pending st"
  "plain_pending (removeGeofenceItem hwId st) = plain_pending st" "plain_pending (update_item hwId f st) = plain_pending st"
  by (simp_all add: saveGeofenceItem_def Let_def removeGeofenceItem_def update_item_def stopping_def pipeline_def coming_def
      plain_pending_def split: option.split)

lemma hw_inv_key: "hw_inv ds st \<Longrightarrow> map_of (mGeofenceIds st) k = Some hw \<Longrightarrow> map_option key (map_of (mGeofences st) hw) = Some k"
  by (simp add: hw_inv_def maps_ok_def)

lemma key_None: "map_option key x = map_option key y \<Longrightarrow> y = None \<Longrightarrow> x = None"
  by simp

lemma hw_inv_save:
  assumes "hw_inv ds st" "new_hw ds hwId st"
  shows "hw_inv ds (saveGeofenceItem client clientId hwId opts info st)"
proof -
  let ?st' = "saveGeofenceItem client clientId hwId opts info st"
  let ?k = "GeofenceKey client clientId"
  have ok: "map_ok (mGeofences st)" "map_ok (mGeofenceIds st)" using assms(1) by (auto simp: hw_inv_def maps_ok_def)
  have ids: "map_of (mGeofenceIds ?st') k = (if k = ?k then Some hwId else map_of (mGeofenceIds st) k)" for k
    by (simp add: saveGeofenceItem_def Let_def omap.find_set[OF ok(2)])
  have geo: "map_option key (map_of (mGeofences ?st') hw) = (if hw = hwId then Some ?k else map_option key (map_of (mGeofences st) hw))" for hw
    by (simp add: saveGeofenceItem_def Let_def omap.find_set[OF ok(1)])
  have "map_ok (mGeofences ?st')" "map_ok (mGeofenceIds ?st')"
    by (simp_all add: saveGeofenceItem_def Let_def omap.inv_set ok)
  moreover have "map_of (mGeofenceIds st) k \<noteq> Some hwId" for k
    using hw_inv_key[OF assms(1), of k hwId] assms(2) by (auto simp: new_hw_def)
  ultimately have "maps_ok ?st'" using hw_inv_key[OF assms(1)] unfolding maps_ok_def ids geo by auto
  moreover have "map_of (mGeofences ?st') hw = None" if "hw \<in> set (coming ds st)" for hw
  proof (rule key_None)
    have "hw \<noteq> hwId" using assms(2) that by (auto simp: new_hw_def)
    then show "map_option key (map_of (mGeofences ?st') hw) = map_option key (map_of (mGeofences st) hw)" using geo by simp
  qed (use assms(1) that in \<open>simp add: hw_inv_def\<close>)
  ultimately show ?thesis using assms by (auto simp: hw_inv_def new_hw_def ids)
qed

lemma hw_inv_sub:
  assumes "hw_inv ds st" "maps_ok st'" "coming ds st' = coming ds st" "plain_pending st'" "stopping st' \<subseteq> stopping st"
    "\<And>hw. map_of (mGeofences st) hw = None \<Longrightarrow> map_of (mGeofences st') hw = None"
    "\<And>k hw. map_of (mGeofenceIds st') k = Some hw \<Longrightarrow> map_of (mGeofenceIds st) k = Some hw"
  shows "hw_inv ds st'"
  using assms(1) assms(2-) unfolding hw_inv_def assms(3) by blast

lemma hw_inv_remove:
  assumes "hw_inv ds st"
  shows "hw_inv ds (removeGeofenceItem hwId st)"
proof (cases "removeGeofenceItem hwId st = st")
  case False
  then obtain k where k: "getGeofenceKeyFromHwId hwId st = Some k"
    and eq: "removeGeofenceItem hwId st =
      st\<lparr>mGeofenceIds := map_erase k (mGeofenceIds st), mGeofences := map_erase hwId (mGeofences st)\<rparr>"
    by (auto simp: removeGeofenceItem_def split: option.splits if_splits)
  have "maps_ok st" "map_ok (mGeofences st)" "map_ok (mGeofenceIds st)" using assms by (auto simp: hw_inv_def maps_ok_def)
  moreover have "map_of (mGeofenceIds st) k' \<noteq> Some hwId" if "k' \<noteq> k" for k'
    using hw_inv_key[OF assms, of k' hwId] k that by (auto simp: getGeofenceKeyFromHwId_def)
  ultimately have "maps_ok (removeGeofenceItem hwId st)" unfolding maps_ok_def eq
    by (auto simp: omap.find_erase omap.inv_erase)
  then show ?thesis
    by (rule hw_inv_sub[OF assms]) (use assms in \<open>simp_all add: eq map_of_erase hw_inv_def split: if_splits\<close>,
      simp_all add: coming_def plain_pending_def stopping_def pipeline_def)
qed (use assms in simp)

lemma hw_inv_update:
  assumes "hw_inv ds st" "\<And>object. key (f object) = key object"
  shows "hw_inv ds (update_item hwId f st)"
proof -
  let ?st' = "update_item hwId f st"
  have ok: "maps_ok st" "map_ok (mGeofences st)" using assms(1) by (auto simp: hw_inv_def maps_ok_def)
  have key: "map_option key (map_of (mGeofences ?st') hw) = map_option key (map_of (mGeofences st) hw)" for hw
    using assms(2) omap.find_set[OF ok(2)] by (simp add: update_item_def split: option.split)
  have ids: "mGeofenceIds ?st' = mGeofenceIds st" by (simp add: update_item_def split: option.split)
  have "map_ok (mGeofences ?st')" using omap.inv_set[OF ok(2)] ok(2) by (simp add: update_item_def split: option.split)
  then have "maps_ok ?st'" using ok(1) by (simp add: maps_ok_def key ids)
  then show ?thesis
    by (rule hw_inv_sub[OF assms(1)]) (use assms(1) key_None[OF key] in \<open>simp_all add: ids hw_inv_def\<close>)
qed

section \<open>Sessions and restarts\<close>

lemma hw_inv_stop_entry:
  assumes inv: "hw_inv ds st" and e: "map_option key (map_of (mGeofences st) hw) = Some k"
  shows "hw_inv ds (stop_entry client (k, hw) st) \<and> mGeofences (stop_entry client (k, hw) st) = mGeofences st"
proof (cases "client = key_client k")
  case True
  let ?s = "st\<lparr>mGeofenceIds := map_erase k (mGeofenceIds st)\<rparr>"
  have ok: "maps_ok st" "map_ok (mGeofenceIds st)" using inv by (auto simp: hw_inv_def maps_ok_def)
  then have "maps_ok ?s" unfolding maps_ok_def by (auto simp: omap.find_erase omap.inv_erase)
  then have s: "hw_inv ds ?s"
    by (rule hw_inv_sub[OF inv]) (use inv in \<open>simp_all add: map_of_erase hw_inv_def split: if_splits\<close>,
      simp_all add: coming_def plain_pending_def stopping_def)
  have gone: "map_of (mGeofenceIds ?s) k' \<noteq> Some hw" for k'
    using hw_inv_key[OF inv, of k' hw] e by (auto simp: map_of_erase)
  have here: "hw \<notin> set (coming ds ?s)" using s e by (auto simp: hw_inv_def)
  let ?t = "request (RemoveGeofence hw (key_id k)) (StopDone hw True) ?s"
  have "coming ds ?t = coming ds ?s" by (simp add: coming_def)
  then have "hw_inv ds ?t" using s gone here unfolding hw_inv_def maps_ok_def by auto
  then show ?thesis using True by simp
qed (use inv in simp)

lemma hw_inv_stop:
  assumes inv: "hw_inv ds st"
  shows "hw_inv ds (fold (stop_entry client) (mGeofenceIds st) st)"
proof -
  have fold: "hw_inv ds (fold (stop_entry client) es s)"
    if "hw_inv ds s" "\<forall>(k, hw) \<in> set es. map_option key (map_of (mGeofences s) hw) = Some k" for es s
    using that
  proof (induction es arbitrary: s)
    case (Cons e es)
    obtain k hw where e: "e = (k, hw)" by (cases e)
    then have "hw_inv ds (stop_entry client e s) \<and> mGeofences (stop_entry client e s) = mGeofences s"
      using hw_inv_stop_entry Cons.prems by auto
    then show ?case using Cons by simp
  qed simp
  have "map_ok (mGeofenceIds st)" using inv by (simp add: hw_inv_def maps_ok_def)
  then show ?thesis using hw_inv_key[OF inv] by (intro fold inv) (auto simp: omap.entries_find)
qed

lemma hw_inv_restart:
  assumes "hw_inv ds st"
  shows "hw_inv ds (restartGeofences st)"
proof -
  let ?s = "st\<lparr>mGeofences := [], mGeofenceIds := []\<rparr>"
  have "hw_inv ds ?s" by (rule hw_inv_sub[OF assms])
    (use assms in \<open>simp_all add: maps_ok_def hw_inv_def\<close>, simp_all add: coming_def plain_pending_def stopping_def)
  moreover have "frames s (fold (\<lambda>e. restart_request (snd e)) es s)" for es :: "(u32 \<times> geofence_object) list" and s
    by (rule frames_fold) (simp add: restart_request_def frames_request)
  ultimately show ?thesis using assms hw_inv_frames by (simp add: restartGeofences_def)
qed

lemma hw_inv_engine_up:
  assumes "hw_inv ds st"
  shows "hw_inv ds (proc_engine_up st)"
proof -
  let ?a = "broadcastCapabilities (st\<lparr>mIsEngineCapabilitiesKnown := True\<rparr>)"
  let ?b = "if mSystemPowerState ?a \<noteq> POWER_STATE_SUSPEND \<and> mSystemPowerState ?a \<noteq> POWER_STATE_SHUTDOWN
            then restartGeofences ?a else ?a"
  let ?c = "fold sendMsg (mPendingMsgs ?b) ?b"
  have "frames st ?a" by (rule frames_fields) (simp_all add: broadcastCapabilities_def)
  then have a: "hw_inv ds ?a" by (rule hw_inv_frames[OF assms])
  then have b: "hw_inv ds ?b" using hw_inv_restart by simp
  have "frames s (fold sendMsg ms s)" if "\<forall>m \<in> set ms. capabilities_msg m" for ms s
    using that
  proof (induction ms arbitrary: s)
    case (Cons m ms)
    then have "frames s (sendMsg m s)" "frames (sendMsg m s) (fold sendMsg ms (sendMsg m s))"
      by (auto intro: frames_sendMsg)
    then show ?case by (auto intro: frames_trans)
  qed simp
  then have "frames ?b ?c" using b unfolding hw_inv_def plain_pending_def by blast
  moreover have "frames ?c (?c\<lparr>mPendingMsgs := []\<rparr>)" by (rule frames_fields) simp_all
  ultimately have "hw_inv ds (?c\<lparr>mPendingMsgs := []\<rparr>)" using hw_inv_frames[OF b] frames_trans by blast
  then show ?thesis by (simp add: proc_engine_up_def Let_def)
qed

lemma hw_inv_stop_done:
  assumes "hw_inv ds st" "\<And>k. map_of (mGeofenceIds st) k \<noteq> Some hw"
  shows "hw_inv ds (stop_done hw e err st)"
proof (cases "stop_done hw e err st = st")
  case False
  then have eq: "stop_done hw e err st = st\<lparr>mGeofences := map_erase hw (mGeofences st)\<rparr>"
    by (auto simp: stop_done_def split: if_splits)
  have "maps_ok st" "map_ok (mGeofences st)" using assms(1) by (auto simp: hw_inv_def maps_ok_def)
  then have "maps_ok (stop_done hw e err st)" using assms(2) unfolding maps_ok_def eq
    by (auto simp: omap.find_erase omap.inv_erase)
  then show ?thesis
    by (rule hw_inv_sub[OF assms(1)]) (use assms(1) in \<open>simp_all add: eq map_of_erase hw_inv_def\<close>,
      simp_all add: coming_def plain_pending_def stopping_def pipeline_def)
qed (use assms in simp)

section \<open>Every event\<close>

lemma hw_inv_item_done:
  assumes "item_done oper c b i hwId err data st = Some st'" "hw_inv ds st" "new_hw ds data st"
  shows "hw_inv ds st'"
proof -
  have items: "hw_inv ds (pauseGeofenceItem h s)" "hw_inv ds (resumeGeofenceItem h s)" "hw_inv ds (modifyGeofenceItem h opts s)"
    if "hw_inv ds s" for h s opts
    using hw_inv_update[OF that] by (simp_all add: item_defs)
  have last: "hw_inv ds s'" if "last_item c b i s = Some s'" "hw_inv ds s" for s s'
    using hw_inv_frames[OF that(2) frames_last[OF that(1)]] .
  have err: "hw_inv ds s'" if "set_err b i e s = Some s'" "hw_inv ds s" for s s' e
    using hw_inv_frames[OF that(2) frames_set_err[OF that(1)]] .
  show ?thesis using assms
    by (cases oper) (auto simp: item_done_def split: Option.bind_splits if_splits
        intro!: hw_inv_save hw_inv_remove items elim!: last err)
qed

lemma hw_inv_response:
  assumes "proc_response r err data st = Some st'" "hw_inv ds st" "new_hw ds data st"
    "\<And>hw e k. r = StopDone hw e \<Longrightarrow> map_of (mGeofenceIds st) k \<noteq> Some hw"
  shows "hw_inv ds st'"
proof (cases r)
  case (ItemCall oper c b i)
  then show ?thesis using assms hw_inv_frames[OF _ frames_item_call] by (simp add: proc_response_def)
next
  case (ItemDone oper c b i hwId)
  then show ?thesis using assms hw_inv_item_done by (simp add: proc_response_def)
next
  case (StopDone hw e)
  then show ?thesis using assms hw_inv_stop_done[OF assms(2)] by (auto simp: proc_response_def)
next
  case (RestartDone object opts info)
  have "frames st (request call RestartPaused st)" for call by (rule frames_request) simp
  then have "hw_inv ds (request call RestartPaused st)" "new_hw ds data (request call RestartPaused st)" for call
    using assms(2,3) hw_inv_frames new_hw_frames by blast+
  then show ?thesis using assms RestartDone
    by (auto simp: proc_response_def restart_done_def Let_def intro!: hw_inv_save)
next
  case RestartPaused
  then show ?thesis using assms by (simp add: proc_response_def)
next
  case (PowerDone resume hwId)
  then show ?thesis using assms
    by (auto simp: proc_response_def power_done_def item_defs split: if_splits intro!: hw_inv_update)
qed

lemma frames_messages:
  "frames st (saveClient client callbacks st)" "frames st (eraseClient client st)"
  "frames st (geofenceBreach hwIds t st)" "frames st (geofenceStatus a st)" "frames st (updateSystemPowerState p st)"
proof -
  show "frames st (saveClient client callbacks st)" "frames st (eraseClient client st)"
    by (rule frames_fields; simp add: saveClient_def eraseClient_def updateClientsEventMask_def)+
  show "frames st (geofenceBreach hwIds t st)" unfolding geofenceBreach_def
    by (rule frames_fold) (auto simp: Let_def split: prod.split intro: frames_fields)
  show "frames st (geofenceStatus a st)" unfolding geofenceStatus_def
    by (rule frames_fold) (auto split: prod.split intro: frames_fields)
  have "frames s (pauseOrResumeGeofences resume s)" for resume s unfolding pauseOrResumeGeofences_def
    by (rule frames_fold) (auto split: prod.split intro: frames_request)
  moreover have "frames st (st\<lparr>mSystemPowerState := p\<rparr>)" by (rule frames_fields) simp_all
  ultimately have "frames st (pauseOrResumeGeofences resume (st\<lparr>mSystemPowerState := p\<rparr>))" for resume
    by (rule frames_trans[rotated])
  then show "frames st (updateSystemPowerState p st)" by (cases p) (simp_all add: updateSystemPowerState_def)
qed

lemma hw_inv_proc:
  assumes inv: "hw_inv ds st" and msg: "msg_queue st = m # ms" and proc: "proc_msg m (st\<lparr>msg_queue := ms\<rparr>) = Some st'"
  shows "hw_inv ds st'"
proof -
  let ?s = "st\<lparr>msg_queue := ms\<rparr>"
  have sub: "stopping ?s \<subseteq> stopping st" using msg by (auto simp: stopping_def pipeline_def)
  have com: "coming ds st = data_of m @ coming ds ?s" using msg by (simp add: coming_def)
  have s: "hw_inv ds ?s" using inv sub com unfolding hw_inv_def maps_ok_def plain_pending_def by auto
  show ?thesis
  proof (cases m)
    case (MsgRemoveClient client)
    then show ?thesis using proc hw_inv_frames[OF hw_inv_stop[OF s] frames_messages(2)]
      by (auto simp: proc_msg_def stop_fold)
  next
    case (MsgRequestCapabilities client)
    have "frames ?s (?s\<lparr>mPendingMsgs := mPendingMsgs ?s @ [MsgRequestCapabilities client]\<rparr>)"
      "frames ?s (?s\<lparr>capabilities := capabilities ?s @ [client]\<rparr>)"
      by (rule frames_fields; auto)+
    then show ?thesis using proc hw_inv_frames[OF s] MsgRequestCapabilities
      by (auto simp: proc_msg_def split: option.splits if_splits)
  next
    case (MsgGeofences oper c b)
    then show ?thesis using proc hw_inv_frames[OF s frames_proc_geofences] by (simp add: proc_msg_def)
  next
    case MsgSSREvent
    then show ?thesis using proc hw_inv_engine_up[OF s] by (simp add: proc_msg_def)
  next
    case (LocApiResponse r err data)
    have "data \<notin> set (coming ds ?s)" using inv com LocApiResponse by (simp add: hw_inv_def)
    moreover have "data \<in> set (coming ds st)" using com LocApiResponse by simp
    ultimately have "new_hw ds data ?s" using inv sub by (auto simp: new_hw_def hw_inv_def)
    moreover have "map_of (mGeofenceIds ?s) k \<noteq> Some hw" if "r = StopDone hw e" for hw e k
      using inv msg LocApiResponse that by (auto simp: hw_inv_def stopping_def pipeline_def)
    ultimately show ?thesis using proc hw_inv_response[OF _ s] LocApiResponse by (simp add: proc_msg_def)
  qed (use proc s in \<open>auto simp: proc_msg_def intro: hw_inv_frames frames_messages\<close>)
qed

lemma frames_commands:
  "addGeofencesCommand c n opts infos st = Some st' \<Longrightarrow> frames st st'"
  "geofencesCommand oper c n ids opts st = Some st' \<Longrightarrow> frames st st'"
proof -
  have new: "frames st (sendMsg (MsgGeofences oper c b) (st\<lparr>mSessionIdCounter := k, blocks := x, next_block := y\<rparr>))" for oper b k x y
    by (rule frames_trans[OF frames_fields frames_sendMsg]) auto
  have "\<exists>b x y. s' = sendMsg (MsgGeofences oper c b) (st\<lparr>mSessionIdCounter := mSessionIdCounter s, blocks := x, next_block := y\<rparr>)"
    if "new_block bk s = (b, s1)" "s' = sendMsg (MsgGeofences oper c b) s1" "s = st\<lparr>mSessionIdCounter := k\<rparr>" for bk s b s1 s' k oper
    using that by (auto simp: new_block_def)
  note * = this
  show "frames st st'" if add: "addGeofencesCommand c n opts infos st = Some st'"
  proof (cases "n = 0")
    case False
    obtain ids s where ids: "generate_ids n st = (ids, s)" by fastforce
    then obtain k where "s = st\<lparr>mSessionIdCounter := k\<rparr>" using generate_ids by blast
    with add False ids obtain bk b s1 where "new_block bk s = (b, s1)" "st' = sendMsg (MsgGeofences AddOp c b) s1"
      "s = st\<lparr>mSessionIdCounter := k\<rparr>"
      by (auto simp: addGeofencesCommand_def Let_def split: Option.bind_splits prod.splits)
    then show ?thesis using new * by metis
  qed (use add in \<open>simp add: addGeofencesCommand_def\<close>)
  show "frames st st'" if cmd: "geofencesCommand oper c n ids opts st = Some st'"
  proof (cases "n = 0")
    case False
    with cmd obtain bk b s1 where "new_block bk st = (b, s1)" "st' = sendMsg (MsgGeofences oper c b) s1"
      by (auto simp: geofencesCommand_def Let_def split: Option.bind_splits prod.splits)
    moreover have "st = st\<lparr>mSessionIdCounter := mSessionIdCounter st\<rparr>" by simp
    ultimately show ?thesis using new * by metis
  qed (use cmd in \<open>simp add: geofencesCommand_def\<close>)
qed

lemma hw_inv_event:
  assumes inv: "hw_inv (datas [e] @ ds) st" and step: "geofence_event e st = Some st'"
  shows "hw_inv ds st'"
proof (cases "\<exists>i err data. e = Answer i err data")
  case False
  then have ds: "datas [e] = []" by (auto simp: datas_def split: event.split)
  then have inv: "hw_inv ds st" using inv by simp
  have send: "hw_inv ds (sendMsg m st)" if "plain_msg m" for m
    using that by (intro hw_inv_frames[OF inv] frames_sendMsg) simp
  show ?thesis
  proof (cases e)
    case Proc
    then show ?thesis using step inv hw_inv_proc by (cases "msg_queue st") (auto simp: geofence_event_def)
  qed (use False step inv hw_inv_frames[OF inv] frames_commands in \<open>auto simp: geofence_event_def removeGeofencesCommand_def
      pauseGeofencesCommand_def resumeGeofencesCommand_def modifyGeofencesCommand_def split: if_splits intro!: send\<close>)
next
  case True
  then obtain i err data where e: "e = Answer i err data" by blast
  then have inv: "hw_inv (data # ds) st" using inv by (simp add: datas_def)
  show ?thesis
  proof (cases "i < length (outstanding st)")
    case True
    let ?os = "outstanding st"
    let ?s = "st\<lparr>outstanding := take i ?os @ drop (Suc i) ?os\<rparr>"
    have st': "st' = sendMsg (LocApiResponse (snd (?os ! i)) err data) ?s"
      using step True by (simp add: e geofence_event_def)
    have "set ?os = set (take i ?os @ ?os ! i # drop (Suc i) ?os)" using True by (simp flip: id_take_nth_drop)
    then have "set (pipeline st') = set (pipeline st)" by (auto simp: st' pipeline_def)
    then have "stopping st' = stopping st" by (simp add: stopping_def)
    moreover have "set (coming ds st') = set (coming (data # ds) st)" "distinct (coming ds st') = distinct (coming (data # ds) st)"
      by (auto simp: coming_def st')
    ultimately show ?thesis using inv by (simp add: hw_inv_def maps_ok_def st' plain_pending_def)
  next
    case False
    then have "st' = st" using step by (simp add: e geofence_event_def)
    then show ?thesis using inv by (auto simp: hw_inv_def coming_def)
  qed
qed

lemma hw_inv_run: "geofence_run es st = Some st' \<Longrightarrow> hw_inv (datas es @ ds) st \<Longrightarrow> hw_inv ds st'"
proof (induction es arbitrary: st)
  case Nil
  then show ?case by (simp add: datas_def)
next
  case (Cons e es)
  then obtain s where s: "geofence_event e st = Some s" "geofence_run es s = Some st'" by (auto split: Option.bind_splits)
  have "hw_inv (datas [e] @ (datas es @ ds)) st" using Cons.prems(2) by (simp add: datas_def)
  then show ?case using hw_inv_event[OF _ s(1)] Cons.IH[OF s(2)] by blast
qed

lemma hw_inv_init: "distinct ds \<Longrightarrow> hw_inv ds adapter_init"
  by (simp add: hw_inv_def maps_ok_def coming_def adapter_init_def plain_pending_def stopping_def pipeline_def)

end
