(* ===== verification/GeofenceProps.thy ===== *)
theory GeofenceProps
  imports GeofenceRest GeofenceMaps
begin

text \<open>
  What the geofence adapter gives its clients: answers to their commands, breaches of their own geofences; and
  where it does not.
\<close>

section \<open>Answers\<close>

text \<open>A client that adds a geofence, for the witnesses: it gets id 2, the modem calls it 5.\<close>

definition one_geofence :: "event list" where
  "one_geofence = [AddClient 7 \<lparr>capabilitiesCb = True, collectiveResponseCb = True, geofenceBreachCb = True, geofenceStatusCb = True\<rparr>, Proc,
     AddGeofences 7 1 (Some [\<lparr>o_breachTypeMask = 3, o_responsiveness = 1000, o_dwellTime = 0\<rparr>])
       (Some [\<lparr>i_latitude = 1, i_longitude = 2, i_radius = 3\<rparr>]),
     Proc, Answer 0 LOCATION_ERROR_SUCCESS 0, Proc, Answer 0 LOCATION_ERROR_SUCCESS 5, Proc]"

definition geofence_there :: adapter where
  "geofence_there = the (geofence_run one_geofence adapter_init)"

lemma one_geofence_run: "geofence_run one_geofence adapter_init = Some geofence_there"
proof -
  have "geofence_run one_geofence adapter_init \<noteq> None" by code_simp
  then show ?thesis by (simp add: geofence_there_def)
qed

lemma one_geofence_facts:
  "at_rest geofence_there" "getHwIdFromClient 7 2 geofence_there = Some 5" "getHwIdFromClient 7 9 geofence_there = None"
  "distinct (datas one_geofence)" "map fst (mClientData geofence_there) = [7]"
  by code_simp+

text \<open>
  Refinement: every event takes the command in every block along the transitions of the automaton of a
  command (queued, its calls, its results, answered), or leaves it in its phase, and no event is undefined.
\<close>

theorem geofence_event_refines:
  assumes "commands_ok S f st" "event_ok S e"
  shows "\<exists>st' f'. geofence_event e st = Some st' \<and> commands_ok S f' st' \<and> (\<forall>b. f' b = f b \<or> phase_step (f b) (f' b))"
  using event_step[OF assms] unfolding step_ok_def next_phases_def by blast

lemma geofence_event_refines_witness:
  "\<exists>st' f'. geofence_event (RemoveGeofences 7 1 [2]) adapter_init = Some st' \<and> commands_ok {RemoveOp} f' st' \<and>
    (\<forall>b. f' b = Unused \<or> phase_step Unused (f' b))"
  using geofence_event_refines[OF commands_ok_init, of "{RemoveOp}" "RemoveGeofences 7 1 [2]"] by simp

text \<open>
  C30: Safety: whatever clients, modem and thread do, if commands other than adding have one item and the modem answers
  in order, no memory is used after it is freed, and every command is answered at most once, to the client that issued it,
  with as many ids as it has items and an error written for each.
\<close>

theorem geofence_commands_safe:
  assumes "\<forall>e \<in> set es. event_ok S e"
  shows "\<exists>st. geofence_run es adapter_init = Some st \<and> next_block st = length (issued es) \<and> distinct (map fst (answers st)) \<and>
    (\<forall>(b, c, called, errs, ids) \<in> set (answers st).
       b < length (issued es) \<and> issued es ! b = (c, length ids) \<and> length errs = length ids \<and> None \<notin> set errs)"
proof -
  obtain st f where st: "geofence_run es adapter_init = Some st" "commands_ok S f st"
    "owners f st = owners (\<lambda>b. Unused) adapter_init @ map Some (issued es)"
    using run_ok[OF commands_ok_init assms] by blast
  then have own: "owners f st = map Some (issued es)" by (simp add: owners_def adapter_init_def)
  have n: "next_block st = length (issued es)" using arg_cong[OF own, of length] by (simp add: owners_def)
  have "b < length (issued es) \<and> issued es ! b = (c, length ids) \<and> length errs = length ids \<and> None \<notin> set errs"
    if "(b, c, called, errs, ids) \<in> set (answers st)" for b c called errs ids
  proof -
    note a = answers_sound[OF st(2) that]
    then have "owners f st ! b = Some (c, length ids)" by (simp add: owners_def)
    then show ?thesis using a own n by simp
  qed
  moreover have "distinct (map fst (answers st))" using answers_distinct[OF st(2)] .
  ultimately show ?thesis using st(1) n by fast
qed

lemma geofence_commands_safe_witness:
  "\<exists>st. geofence_run one_geofence adapter_init = Some st \<and> next_block st = 1 \<and> distinct (map fst (answers st)) \<and>
    (\<forall>(b, c, called, errs, ids) \<in> set (answers st).
       b < 1 \<and> [(7, 1)] ! b = (c, length ids) \<and> length errs = length ids \<and> None \<notin> set errs)"
proof -
  have "\<forall>e \<in> set one_geofence. event_ok {AddOp} e" by (simp add: one_geofence_def has_elements_def)
  moreover have "issued one_geofence = [(7, 1)]" by (simp add: one_geofence_def issued_def)
  ultimately show ?thesis using geofence_commands_safe[of one_geofence "{AddOp}"] by simp
qed

text \<open>
  C29: Liveness: after a script of commands that add any number of geofences with their arrays of options and infos, or remove,
  pause or modify one geofence (modify with its options), none of them a command to resume, and a modem that answers in order, a finite number of
  messages and answers brings the adapter to rest, and then exactly the commands issued are answered, each once and to its client.
\<close>

theorem geofence_commands_answered:
  assumes "\<forall>e \<in> set es. event_ok {AddOp, RemoveOp, PauseOp, ModifyOp} e"
  shows "\<exists>ds st. set ds \<subseteq> {Proc, Answer 0 LOCATION_ERROR_SUCCESS 0} \<and> geofence_run (es @ ds) adapter_init = Some st \<and>
    at_rest st \<and> distinct (map fst (answers st)) \<and> fst ` set (answers st) = {..<length (issued es)} \<and>
    (\<forall>(b, c, called, errs, ids) \<in> set (answers st). issued es ! b = (c, length ids))"
proof -
  let ?S = "{AddOp, RemoveOp, PauseOp, ModifyOp}"
  obtain st f where st: "geofence_run es adapter_init = Some st" "commands_ok ?S f st"
    "owners f st = owners (\<lambda>b. Unused) adapter_init @ map Some (issued es)"
    using run_ok[OF commands_ok_init assms] by blast
  obtain ds st' f' where ds: "\<forall>e \<in> set ds. e = Proc \<or> e = Answer 0 LOCATION_ERROR_SUCCESS 0"
    "geofence_run ds st = Some st'" "commands_ok ?S f' st'" "at_rest st'" "owners f' st' = owners f st"
    using comes_to_rest[OF st(2)] by blast
  have own: "owners f' st' = map Some (issued es)" using ds(5) st(3) by (simp add: owners_def adapter_init_def)
  have n: "next_block st' = length (issued es)" using arg_cong[OF own, of length] by (simp add: owners_def)
  have answered: "b \<in> fst ` set (answers st')" if "b < next_block st'" for b
  proof -
    have "ResumeOp \<notin> ?S" by simp
    with rest_answered[OF ds(3,4) that] have "\<exists>c k. f' b = Answered c k" by blast
    then obtain c k where "f' b = Answered c k" by blast
    moreover have "in_phase (f' b) b (items b (pipeline st')) (queued b (msg_queue st')) st'"
      using ds(3) by (simp add: commands_ok_def in_phases_def)
    ultimately have "answers_of b st' \<noteq> []" by auto
    then show ?thesis by (force simp: answers_of_def filter_empty_conv)
  qed
  have sound: "b < next_block st' \<and> issued es ! b = (c, length ids)"
    if "(b, c, called, errs, ids) \<in> set (answers st')" for b c called errs ids
  proof -
    note a = answers_sound[OF ds(3) that]
    then have "owners f' st' ! b = Some (c, length ids)" by (simp add: owners_def)
    then show ?thesis using a own n by simp
  qed
  have "geofence_run (es @ ds) adapter_init = Some st'" using st(1) ds(2) by (simp add: run_append)
  moreover have "fst ` set (answers st') = {..<length (issued es)}" using answered sound n by force
  moreover have "distinct (map fst (answers st'))" using answers_distinct[OF ds(3)] .
  moreover have "set ds \<subseteq> {Proc, Answer 0 LOCATION_ERROR_SUCCESS 0}" using ds(1) by blast
  ultimately show ?thesis using ds(4) sound by blast
qed

lemma geofence_commands_answered_witness:
  "\<exists>ds st. set ds \<subseteq> {Proc, Answer 0 LOCATION_ERROR_SUCCESS 0} \<and> geofence_run (one_geofence @ ds) adapter_init = Some st \<and>
    at_rest st \<and> distinct (map fst (answers st)) \<and> fst ` set (answers st) = {..<1} \<and>
    (\<forall>(b, c, called, errs, ids) \<in> set (answers st). [(7, 1)] ! b = (c, length ids))"
proof -
  have "\<forall>e \<in> set one_geofence. event_ok {AddOp, RemoveOp, PauseOp, ModifyOp} e" by (simp add: one_geofence_def has_elements_def)
  moreover have "issued one_geofence = [(7, 1)]" by (simp add: one_geofence_def issued_def)
  ultimately show ?thesis using geofence_commands_answered[of one_geofence] by simp
qed

section \<open>The maps\<close>

text \<open>What the stopping of a client's sessions leaves of the maps.\<close>

lemma stop_entries_maps:
  "mGeofences (fold (stop_entry c) es st) = mGeofences st"
  "map_of (mGeofenceIds (fold (stop_entry c) es st)) k =
     (if k \<in> fst ` set es \<and> key_client k = c then None else map_of (mGeofenceIds st) k)"
proof (induction es arbitrary: st)
  case (Cons e es)
  obtain k' hw where e: "e = (k', hw)" by (cases e)
  { case 1 then show ?case using Cons.IH(1) by (simp add: e) }
  { case 2 then show ?case using Cons.IH(2) by (auto simp: e map_of_erase) }
qed simp_all

lemma stop_sessions_maps:
  assumes "stopClientSessions c True st = Some st'"
  shows "mGeofences st' = mGeofences st" "getHwIdFromClient c' i st' = (if c' = c then None else getHwIdFromClient c' i st)"
proof -
  have st': "st' = fold (stop_entry c) (mGeofenceIds st) st" using assms by (simp add: stop_fold)
  show "mGeofences st' = mGeofences st" unfolding st' by (rule stop_entries_maps(1))
  have "map_of (mGeofenceIds st) k = None" if "k \<notin> fst ` set (mGeofenceIds st)" for k using that by (simp add: map_of_eq_None_iff)
  then show "getHwIdFromClient c' i st' = (if c' = c then None else getHwIdFromClient c' i st)"
    unfolding st' getHwIdFromClient_def stop_entries_maps(2) by auto
qed

lemma remove_item_maps:
  assumes "getGeofenceKeyFromHwId hw st = Some (GeofenceKey c i)" "getHwIdFromClient c i st \<noteq> None"
  shows "getHwIdFromClient c' i' (removeGeofenceItem hw st) = (if c' = c \<and> i' = i then None else getHwIdFromClient c' i' st)"
    "getGeofenceKeyFromHwId hw' (removeGeofenceItem hw st) = (if hw' = hw then None else getGeofenceKeyFromHwId hw' st)"
  using assms by (auto simp: removeGeofenceItem_def getGeofenceKeyFromHwId_def getHwIdFromClient_def map_of_erase)

text \<open>
  C31: Invariant: after any script in which the modem gives every hardware id once, the hardware id that stands for
  a client's geofence leads back to that client and id. Its removal forgets exactly it, in both maps. When the client goes, all its ids
  are forgotten at once and those of the other clients are kept, and the geofence itself is forgotten when the modem reports that it is removed.
\<close>

theorem geofence_of_client:
  assumes "geofence_run es adapter_init = Some st" "distinct (datas es)" "getHwIdFromClient c i st = Some hw"
  shows "getGeofenceKeyFromHwId hw st = Some (GeofenceKey c i) \<and>
    (\<forall>c' i'. getHwIdFromClient c' i' (removeGeofenceItem hw st) = (if c' = c \<and> i' = i then None else getHwIdFromClient c' i' st)) \<and>
    (\<forall>hw'. getGeofenceKeyFromHwId hw' (removeGeofenceItem hw st) = (if hw' = hw then None else getGeofenceKeyFromHwId hw' st)) \<and>
    (\<exists>st'. stopClientSessions c True st = Some st' \<and>
      (\<forall>c' i'. getHwIdFromClient c' i' st' = (if c' = c then None else getHwIdFromClient c' i' st)) \<and>
      (\<forall>hw'. getGeofenceKeyFromHwId hw' (stop_done hw True LOCATION_ERROR_SUCCESS st') =
        (if hw' = hw then None else getGeofenceKeyFromHwId hw' st)))"
proof -
  have "hw_inv [] st" using hw_inv_run[OF assms(1), of "[]"] hw_inv_init[OF assms(2)] by simp
  then have k: "getGeofenceKeyFromHwId hw st = Some (GeofenceKey c i)"
    using hw_inv_key assms(3) by (simp add: getHwIdFromClient_def getGeofenceKeyFromHwId_def)
  obtain st' where st': "stopClientSessions c True st = Some st'" using stop_fold by blast
  note stop = stop_sessions_maps[OF st']
  have "getGeofenceKeyFromHwId hw' (stop_done hw True LOCATION_ERROR_SUCCESS st') =
      (if hw' = hw then None else getGeofenceKeyFromHwId hw' st)" for hw'
    using stop(1) k by (auto simp: stop_done_def getGeofenceKeyFromHwId_def map_of_erase)
  with k remove_item_maps[OF k] assms(3) st' stop(2) show ?thesis by simp
qed

lemma geofence_of_client_witness:
  "getGeofenceKeyFromHwId 5 geofence_there = Some (GeofenceKey 7 2) \<and> getHwIdFromClient 7 2 (removeGeofenceItem 5 geofence_there) = None"
  using geofence_of_client[OF one_geofence_run one_geofence_facts(4,2)] by simp

section \<open>Breaches\<close>

lemma breaches_fold:
  "breaches (geofenceBreach hwIds t st) = breaches st @
     [(c, breached_ids c hwIds st, t). (c, cb) \<leftarrow> mClientData st, geofenceBreachCb cb \<and> breached_ids c hwIds st \<noteq> []]"
proof -
  have "breaches (fold (\<lambda>(c, cb) st'. let clientIds = breached_ids c hwIds st in
        if clientIds \<noteq> [] \<and> geofenceBreachCb cb then st'\<lparr>breaches := breaches st' @ [(c, clientIds, t)]\<rparr> else st') cs s)
      = breaches s @ [(c, breached_ids c hwIds st, t). (c, cb) \<leftarrow> cs, geofenceBreachCb cb \<and> breached_ids c hwIds st \<noteq> []]"
    for cs s
    by (induction cs arbitrary: s) (auto simp: Let_def)
  then show ?thesis by (simp add: geofenceBreach_def)
qed

lemma breached_ids_iff:
  "i \<in> set (breached_ids c hwIds st) \<longleftrightarrow> (\<exists>hw \<in> set hwIds. getGeofenceKeyFromHwId hw st = Some (GeofenceKey c i))"
proof -
  have "i \<in> set (case k of None \<Rightarrow> [] | Some k \<Rightarrow> if key_client k = c then [key_id k] else []) \<longleftrightarrow> k = Some (GeofenceKey c i)" for k
    by (cases k; cases "the k") auto
  then show ?thesis by (simp add: breached_ids_def)
qed

text \<open>
  C32: Functional: a breach is reported to the client that owns the geofence, if it has the callback, under its own id;
  and what a client is told are only ids of its own geofences among those breached.
\<close>

theorem breach_reaches_owner:
  assumes "geofence_run es adapter_init = Some st" "distinct (datas es)"
    and "(c, cb) \<in> set (mClientData st)" "geofenceBreachCb cb" "getHwIdFromClient c i st = Some hw" "hw \<in> set hwIds"
  shows "\<exists>new. breaches (geofenceBreach hwIds t st) = breaches st @ new \<and> (\<exists>ids. (c, ids, t) \<in> set new \<and> i \<in> set ids) \<and>
    (\<forall>(c', ids, t') \<in> set new. t' = t \<and>
       (\<forall>j \<in> set ids. \<exists>hw' \<in> set hwIds. getGeofenceKeyFromHwId hw' st = Some (GeofenceKey c' j)))"
proof -
  have "hw_inv [] st" using hw_inv_run[OF assms(1), of "[]"] hw_inv_init[OF assms(2)] by simp
  then have "getGeofenceKeyFromHwId hw st = Some (GeofenceKey c i)"
    using hw_inv_key assms(5) by (simp add: getHwIdFromClient_def getGeofenceKeyFromHwId_def)
  then have i: "i \<in> set (breached_ids c hwIds st)" using assms(6) by (auto simp: breached_ids_iff)
  let ?new = "[(c, breached_ids c hwIds st, t). (c, cb) \<leftarrow> mClientData st, geofenceBreachCb cb \<and> breached_ids c hwIds st \<noteq> []]"
  have "(c, breached_ids c hwIds st, t) \<in> set ?new" using assms(3,4) i by force
  moreover have "\<forall>(c', ids, t') \<in> set ?new. t' = t \<and>
       (\<forall>j \<in> set ids. \<exists>hw' \<in> set hwIds. getGeofenceKeyFromHwId hw' st = Some (GeofenceKey c' j))"
    by (auto simp: breached_ids_iff split: if_splits)
  ultimately show ?thesis using breaches_fold i by blast
qed

lemma breach_reaches_owner_witness:
  "\<exists>new. breaches (geofenceBreach [3, 5] 1 geofence_there) = breaches geofence_there @ new \<and> (\<exists>ids. (7, ids, 1) \<in> set new \<and> 2 \<in> set ids) \<and>
    (\<forall>(c', ids, t') \<in> set new. t' = 1 \<and>
       (\<forall>j \<in> set ids. \<exists>hw' \<in> set [3, 5]. getGeofenceKeyFromHwId hw' geofence_there = Some (GeofenceKey c' j)))"
proof -
  have "mClientData geofence_there = [(7, \<lparr>capabilitiesCb = True, collectiveResponseCb = True, geofenceBreachCb = True, geofenceStatusCb = True\<rparr>)]"
    by code_simp
  then have "(7, \<lparr>capabilitiesCb = True, collectiveResponseCb = True, geofenceBreachCb = True, geofenceStatusCb = True\<rparr>)
    \<in> set (mClientData geofence_there)" by simp
  then show ?thesis
    by (rule breach_reaches_owner[OF one_geofence_run one_geofence_facts(4) _ _ one_geofence_facts(2)]) simp_all
qed

section \<open>Where the code does not keep its promise\<close>

text \<open>The events of a command on known or unknown items, the modem answering in order.\<close>

definition served :: "event \<Rightarrow> (location_error \<times> u32) list \<Rightarrow> event list" where
  "served e rs = e # Proc # concat (map (\<lambda>(err, data). [Answer 0 err data, Proc]) rs)"

lemma rest_outstanding: "at_rest st \<Longrightarrow> outstanding st = []" "at_rest st \<Longrightarrow> msg_queue st = []"
  by (simp_all add: at_rest_def)

text \<open>
  Error: removing a known and an unknown geofence in one command uses freed memory: the unknown last item answers and
  frees the arrays while the result of the first is still to come.
\<close>

theorem remove_after_unknown_item:
  assumes "at_rest st" "getHwIdFromClient c i st = Some hw" "getHwIdFromClient c j st = None"
  shows "geofence_run (served (RemoveGeofences c 2 [i, j]) [(e0, d0), (e1, d1), (err, data)]) st = None"
  using assms
  by (simp add: served_def geofence_event_def removeGeofencesCommand_def geofencesCommand_def copy_array_def numeral_2_eq_2 new_block_def sendMsg_def
      rest_outstanding proc_msg_def proc_geofences_def arrays_there_def upt_rec request_def proc_response_def item_call_def
      id_at_def elem_def getHwIdFromClient_def set_err_def item_request_def last_item_def reportResponse_def item_done_def)

lemma remove_after_unknown_item_witness:
  "geofence_run (served (RemoveGeofences 7 2 [2, 9])
    [(LOCATION_ERROR_SUCCESS, 0), (LOCATION_ERROR_SUCCESS, 0), (LOCATION_ERROR_SUCCESS, 0)]) geofence_there = None"
  using remove_after_unknown_item[OF one_geofence_facts(1-3)] .

lemmas served_simps = served_def geofence_event_def copy_array_def copy_if_not_null_def new_block_def sendMsg_def
  rest_outstanding proc_msg_def proc_geofences_def arrays_there_def upt_rec request_def proc_response_def item_call_def
  id_at_def option_at_def elem_def getHwIdFromClient_def set_err_def item_request_def last_item_def reportResponse_def item_done_def
  removeGeofencesCommand_def pauseGeofencesCommand_def resumeGeofencesCommand_def modifyGeofencesCommand_def geofencesCommand_def

text \<open>Whether the client has the callback for answers.\<close>

definition called :: "ptr \<Rightarrow> adapter \<Rightarrow> bool" where
  "called c st = (case map_of (mClientData st) c of None \<Rightarrow> False | Some cb \<Rightarrow> collectiveResponseCb cb)"

definition outcome :: "event \<Rightarrow> (location_error \<times> u32) list \<Rightarrow> adapter \<Rightarrow>
    ((nat \<times> ptr \<times> bool \<times> location_error option list \<times> u32 list) list \<times> (u32 \<times> geofence_object) list) option" where
  "outcome e rs st = map_option (\<lambda>st'. (answers st', mGeofences st')) (geofence_run (served e rs) st)"

definition answer_one :: "ptr \<Rightarrow> u32 \<Rightarrow> location_error \<Rightarrow> adapter \<Rightarrow>
    (nat \<times> ptr \<times> bool \<times> location_error option list \<times> u32 list) list" where
  "answer_one c i e st = answers st @ [(next_block st, c, called c st, [Some e], [i])]"

text \<open>
  Error: when the modem fails for the one item of a command, removing and pausing report its error, resuming is never
  answered, and modifying is reported as a success; the geofences stay as they were.
\<close>

theorem failed_items_answered:
  assumes "at_rest st" "getHwIdFromClient c i st = Some hw" "err \<noteq> LOCATION_ERROR_SUCCESS"
  shows "outcome (RemoveGeofences c 1 [i]) [(e0, d0), (err, data)] st = Some (answer_one c i err st, mGeofences st) \<and>
    outcome (PauseGeofences c 1 [i]) [(e0, d0), (err, data)] st = Some (answer_one c i err st, mGeofences st) \<and>
    outcome (ResumeGeofences c 1 [i]) [(e0, d0), (err, data)] st = Some (answers st, mGeofences st) \<and>
    outcome (ModifyGeofences c 1 [i] (Some [opts])) [(e0, d0), (err, data)] st
      = Some (answer_one c i LOCATION_ERROR_SUCCESS st, mGeofences st)"
  using assms(1-3) by (intro conjI) (simp_all add: outcome_def answer_one_def called_def served_simps)

lemma failed_items_answered_witness:
  "outcome (ModifyGeofences 7 1 [2] (Some [\<lparr>o_breachTypeMask = 1, o_responsiveness = 5, o_dwellTime = 0\<rparr>]))
     [(LOCATION_ERROR_SUCCESS, 0), (LOCATION_ERROR_GENERAL_FAILURE, 0)] geofence_there
   = Some (answer_one 7 2 LOCATION_ERROR_SUCCESS geofence_there, mGeofences geofence_there)"
  using failed_items_answered[OF one_geofence_facts(1,2), of LOCATION_ERROR_GENERAL_FAILURE] by simp

text \<open>Without the arrays the client is never answered and the memory stays.\<close>

lemma missing_arrays_unanswered:
  assumes "at_rest st" "0 < n" "opts = None \<or> infos = None" "has_elements n opts \<or> opts = None" "has_elements n infos \<or> infos = None"
  shows "\<exists>st'. geofence_run (served (AddGeofences c n opts infos) []) st = Some st' \<and> at_rest st' \<and> answers st' = answers st \<and>
    blocks st' (next_block st) \<noteq> None"
proof -
  obtain ids s where ids: "generate_ids n st = (ids, s)" by fastforce
  then obtain k where s: "s = st\<lparr>mSessionIdCounter := k\<rparr>" using generate_ids by blast
  obtain os "is" where "copy_if_not_null n opts = Some os" "copy_if_not_null n infos = Some is" "os = None \<or> is = None"
    using assms(3-5) copy_if_ok[of n opts] copy_if_ok[of n infos] by (auto simp: copy_if_not_null_def)
  note arrays = this
  let ?bk = "\<lparr>bk_ids = ids, bk_errs = [], bk_options = os, bk_infos = is\<rparr>"
  let ?t = "st\<lparr>mSessionIdCounter := k, blocks := (blocks st)(next_block st \<mapsto> ?bk), next_block := Suc (next_block st)\<rparr>"
  have add: "addGeofencesCommand c n opts infos st = Some (sendMsg (MsgGeofences AddOp c (next_block st)) ?t)"
    using assms(2) ids arrays(1,2) by (simp add: addGeofencesCommand_def new_block_def s)
  have "\<not> arrays_there AddOp ?bk" using arrays(3) by (auto simp: arrays_there_def)
  then have "proc_geofences AddOp c (next_block st) ?t = Some (?t\<lparr>blocks := (blocks ?t)(next_block st \<mapsto>
      ?bk\<lparr>bk_errs := replicate (length ids) (Some LOCATION_ERROR_INVALID_PARAMETER)\<rparr>)\<rparr>)" (is "_ = Some ?u")
    by (simp add: proc_geofences_def)
  moreover have "(sendMsg (MsgGeofences AddOp c (next_block st)) ?t)\<lparr>msg_queue := []\<rparr> = ?t"
    using assms(1) by (simp add: sendMsg_def at_rest_def)
  ultimately have "geofence_run (served (AddGeofences c n opts infos) []) st = Some ?u"
    using assms(1) add by (simp add: served_def geofence_event_def at_rest_def proc_msg_def)
  then show ?thesis using assms(1) by (intro exI[of _ ?u]) (simp add: at_rest_def)
qed

text \<open>Stopping the sessions of a client without erasing them never ends when there is one.\<close>

lemma stop_loop_returns:
  "stop_loop client eraseSession it st = Some st' \<Longrightarrow> \<not> eraseSession \<Longrightarrow> (k, hw) \<in> set it \<Longrightarrow> key_client k \<noteq> client"
proof (induction arbitrary: k hw rule: stop_loop.raw_induct[rotated, consumes 1])
  case (1 loop client eraseSession it st st')
  obtain k0 h0 rest where it: "it = (k0, h0) # rest" using 1(4) by (cases it) auto
  show ?case
  proof (cases "client = key_client k0")
    case True
    then have "\<exists>s. loop client False it s = Some st'" using 1(2,3) it by auto
    then have "key_client k0 \<noteq> client" using 1(1)[of client False it _ st' k0 h0] it by auto
    then show ?thesis using True by simp
  next
    case False
    then have "loop client False rest st = Some st'" using 1(2,3) it by auto
    then show ?thesis using 1(1)[of client False rest st st' k hw] False 1(4) it by auto
  qed
qed

text \<open>
  Termination: stopping the sessions of a client returns if and only if the entries are erased or the client has
  none; otherwise the loop never moves its iterator.
\<close>

theorem stop_sessions_returns:
  "(\<exists>st'. stopClientSessions c eraseSession st = Some st') \<longleftrightarrow> eraseSession \<or> (\<forall>(k, hw) \<in> set (mGeofenceIds st). key_client k \<noteq> c)"
proof -
  have "\<exists>st'. stop_loop c False it s = Some st'" if "\<forall>(k, hw) \<in> set it. key_client k \<noteq> c" for it s
    using that by (induction it) (auto simp: stop_loop.simps)
  moreover have "key_client k \<noteq> c" if "stop_loop c False (mGeofenceIds st) st = Some st'" "(k, hw) \<in> set (mGeofenceIds st)" for st' k hw
    using stop_loop_returns[OF that(1) _ that(2)] by simp
  ultimately show ?thesis using stop_fold[of c st]
    by (cases eraseSession) (simp_all add: stopClientSessions_def, blast)
qed

lemma stop_sessions_returns_witness: "\<not> (\<exists>st'. stopClientSessions 7 False geofence_there = Some st')"
proof -
  have "(GeofenceKey 7 2, 5) \<in> set (mGeofenceIds geofence_there)"
    using one_geofence_facts(2) by (simp add: getHwIdFromClient_def map_of_SomeD)
  then show ?thesis unfolding stop_sessions_returns by force
qed

text \<open>A pause of the client does not survive the suspending of the system, nor two restarts of the engine.\<close>

definition pause_of :: "event list \<Rightarrow> bool option" where
  "pause_of es = (case geofence_run (served (PauseGeofences 7 1 [2]) [(LOCATION_ERROR_SUCCESS, 0), (LOCATION_ERROR_SUCCESS, 0)] @ es)
     geofence_there of None \<Rightarrow> None | Some st \<Rightarrow> (case mGeofences st of [(hw, object)] \<Rightarrow> Some (paused object) | _ \<Rightarrow> None))"

lemma pause_lost:
  "pause_of [] = Some True"
  "pause_of (served (SystemPowerState POWER_STATE_SUSPEND) [(LOCATION_ERROR_SUCCESS, 0)] @
     served (SystemPowerState POWER_STATE_RESUME) [(LOCATION_ERROR_SUCCESS, 0)]) = Some False"
  "pause_of (served EngineUp [(LOCATION_ERROR_SUCCESS, 6), (LOCATION_ERROR_SUCCESS, 0)]) = Some False"
  by code_simp+

end
