(* ===== verification/BiDict.thy ===== *)
theory BiDict
  imports OrdMap "HOL-Library.Word"
begin

text \<open>
  \<open>BiDict\<close> of gps/location/LocationAPIClientBase.h: the ids of a client and the sessions they stand for, in both
  directions, with a value for each session. Its locks make every operation one step. What its users rely on is
  a locale.
\<close>

lemma option_eqI_iff: "(\<And>t. x = Some t \<longleftrightarrow> y = Some t) \<Longrightarrow> x = y"
  by (metis option.exhaust)

section \<open>The contract\<close>

text \<open>
  Two lookups that are inverse to each other, entered and removed in pairs. A pair is entered if both of its sides
  are new, or entered again with another value.
\<close>

locale two_way =
  fixes session_of :: "'d \<Rightarrow> 'i \<Rightarrow> 's option"
    and id_of :: "'d \<Rightarrow> 's \<Rightarrow> 'i option"
    and ext_of :: "'d \<Rightarrow> 's \<Rightarrow> 'e option"
    and enter :: "'i \<Rightarrow> 's \<Rightarrow> 'e \<Rightarrow> 'd \<Rightarrow> 'd"
    and drop_id :: "'i \<Rightarrow> 'd \<Rightarrow> 'd"
    and drop_session :: "'s \<Rightarrow> 'd \<Rightarrow> 'd"
    and ok :: "'d \<Rightarrow> bool"
    and session_ok :: "'s \<Rightarrow> bool"
  assumes inverse: "ok d \<Longrightarrow> session_of d i = Some s \<longleftrightarrow> id_of d s = Some i"
    and ext_there: "ok d \<Longrightarrow> ext_of d s = None \<longleftrightarrow> id_of d s = None"
    and sessions_ok: "ok d \<Longrightarrow> id_of d s = Some i \<Longrightarrow> session_ok s"
    and enter_ok: "ok d \<Longrightarrow> session_ok s \<Longrightarrow> session_of d i = Some s \<or> session_of d i = None \<and> id_of d s = None \<Longrightarrow> ok (enter i s e d)"
    and session_of_enter: "ok d \<Longrightarrow> session_of (enter i s e d) j = (if j = i then Some s else session_of d j)"
    and id_of_enter: "ok d \<Longrightarrow> id_of (enter i s e d) t = (if t = s then Some i else id_of d t)"
    and ext_of_enter: "ok d \<Longrightarrow> ext_of (enter i s e d) t = (if t = s then Some e else ext_of d t)"
    and drop_id_ok: "ok d \<Longrightarrow> session_of d i \<noteq> None \<Longrightarrow> ok (drop_id i d)"
    and session_of_drop_id: "ok d \<Longrightarrow> session_of d i \<noteq> None \<Longrightarrow> session_of (drop_id i d) j = (if j = i then None else session_of d j)"
    and drop_session_ok: "ok d \<Longrightarrow> id_of d s \<noteq> None \<Longrightarrow> ok (drop_session s d)"
    and id_of_drop_session: "ok d \<Longrightarrow> id_of d s \<noteq> None \<Longrightarrow> id_of (drop_session s d) t = (if t = s then None else id_of d t)"
    and ext_of_drop_session: "ok d \<Longrightarrow> id_of d s \<noteq> None \<Longrightarrow> ext_of (drop_session s d) t = (if t = s then None else ext_of d t)"
begin

lemma ids_unique: "ok d \<Longrightarrow> session_of d i = Some s \<Longrightarrow> session_of d j = Some s \<Longrightarrow> i = j"
  using inverse by fastforce

lemma sessions_unique: "ok d \<Longrightarrow> id_of d s = Some i \<Longrightarrow> id_of d t = Some i \<Longrightarrow> s = t"
  using inverse[of d i s] inverse[of d i t] by simp

lemma enter_new: "ok d \<Longrightarrow> session_ok s \<Longrightarrow> session_of d i = None \<Longrightarrow> id_of d s = None \<Longrightarrow> ok (enter i s e d)"
  by (rule enter_ok) auto

lemma enter_again: "ok d \<Longrightarrow> session_of d i = Some s \<Longrightarrow> ok (enter i s e d)"
  using enter_ok inverse sessions_ok by blast

lemma session_of_drop_session:
  assumes "ok d" "id_of d s = Some i"
  shows "session_of (drop_session s d) j = (if j = i then None else session_of d j)"
proof (rule option_eqI_iff)
  have "id_of d s \<noteq> None" using assms(2) by simp
  note drop = drop_session_ok[OF assms(1) this] id_of_drop_session[OF assms(1) this]
  show "session_of (drop_session s d) j = Some t \<longleftrightarrow> (if j = i then None else session_of d j) = Some t" for t
  proof (cases "j = i")
    case True
    then have "t = s" if "id_of d t = Some j" using sessions_unique[OF assms, of t] that by simp
    then show ?thesis using True inverse[OF drop(1), of j t] drop(2)[of t] by auto
  next
    case False
    then show ?thesis using inverse[OF drop(1), of j t] drop(2)[of t] inverse[OF assms(1), of j t] assms(2) by auto
  qed
qed

text \<open>To move an id to another session.\<close>

lemma move:
  assumes "ok d" "session_of d i = Some s" "session_ok t" "id_of d t = None \<or> t = s"
  shows "ok (enter i t e (drop_id i d))"
proof (rule enter_new)
  have i: "session_of d i \<noteq> None" using assms(2) by simp
  show ok: "ok (drop_id i d)" by (rule drop_id_ok[OF assms(1) i])
  show "session_of (drop_id i d) i = None" using session_of_drop_id[OF assms(1) i] by simp
  have "id_of (drop_id i d) t \<noteq> Some j" for j
  proof
    assume "id_of (drop_id i d) t = Some j"
    then have "j \<noteq> i" "session_of d j = Some t"
      using inverse[OF ok, of j t] session_of_drop_id[OF assms(1) i, of j] by (auto split: if_splits)
    then show False using inverse[OF assms(1), of j t] inverse[OF assms(1), of i s] assms(2,4) by auto
  qed
  then show "id_of (drop_id i d) t = None" by (cases "id_of (drop_id i d) t") auto
qed (rule assms(3))

end

section \<open>The maps\<close>

record 'e bidict =
  mForwardMap :: "(32 word \<times> 32 word) list"
  mBackwardMap :: "(32 word \<times> 32 word) list"
  mExtMap :: "(32 word \<times> 'e) list"

definition bidict_new :: "'e bidict" where
  "bidict_new = \<lparr>mForwardMap = [], mBackwardMap = [], mExtMap = []\<rparr>"

text \<open>The index operator of \<open>std::map\<close> enters 0 for a key that is not there.\<close>

definition map_at :: "'k :: linorder \<Rightarrow> ('k \<times> 32 word) list \<Rightarrow> 32 word \<times> ('k \<times> 32 word) list" where
  "map_at k m = (case map_of m k of Some v \<Rightarrow> (v, m) | None \<Rightarrow> (0, map_set k 0 m))"

definition hasId :: "32 word \<Rightarrow> 'e bidict \<Rightarrow> bool" where
  "hasId i d \<longleftrightarrow> map_of (mForwardMap d) i \<noteq> None"

definition hasSession :: "32 word \<Rightarrow> 'e bidict \<Rightarrow> bool" where
  "hasSession s d \<longleftrightarrow> map_of (mBackwardMap d) s \<noteq> None"

definition bidict_set :: "32 word \<Rightarrow> 32 word \<Rightarrow> 'e \<Rightarrow> 'e bidict \<Rightarrow> 'e bidict" where
  "bidict_set i s e d =
     d\<lparr>mForwardMap := map_set i s (mForwardMap d), mBackwardMap := map_set s i (mBackwardMap d), mExtMap := map_set s e (mExtMap d)\<rparr>"

definition bidict_clear :: "'e bidict \<Rightarrow> 'e bidict" where
  "bidict_clear d = d\<lparr>mForwardMap := [], mBackwardMap := [], mExtMap := []\<rparr>"

definition rmById :: "32 word \<Rightarrow> 'e bidict \<Rightarrow> 'e bidict" where
  "rmById i d =
     (let (s, f) = map_at i (mForwardMap d);
          d = d\<lparr>mForwardMap := f, mBackwardMap := map_erase s (mBackwardMap d)\<rparr>;
          (s, f) = map_at i (mForwardMap d) in
      d\<lparr>mExtMap := map_erase s (mExtMap d), mForwardMap := map_erase i f\<rparr>)"

definition rmBySession :: "32 word \<Rightarrow> 'e bidict \<Rightarrow> 'e bidict" where
  "rmBySession s d =
     (let (i, b) = map_at s (mBackwardMap d) in
      d\<lparr>mForwardMap := map_erase i (mForwardMap d), mBackwardMap := map_erase s b, mExtMap := map_erase s (mExtMap d)\<rparr>)"

definition getId :: "32 word \<Rightarrow> 'e bidict \<Rightarrow> 32 word" where
  "getId s d = (case map_of (mBackwardMap d) s of Some i \<Rightarrow> i | None \<Rightarrow> 0)"

definition getSession :: "32 word \<Rightarrow> 'e bidict \<Rightarrow> 32 word" where
  "getSession i d = (case map_of (mForwardMap d) i of Some s \<Rightarrow> s | None \<Rightarrow> 0)"

text \<open>The values are structures without pointers: \<open>z\<close> is the one whose bytes are 0.\<close>

definition getExtById :: "'e \<Rightarrow> 32 word \<Rightarrow> 'e bidict \<Rightarrow> 'e \<times> 'e bidict" where
  "getExtById z i d =
     (let (s, f) = map_at i (mForwardMap d) in
      (if s > 0 then (case map_of (mExtMap d) s of Some e \<Rightarrow> e | None \<Rightarrow> z) else z, d\<lparr>mForwardMap := f\<rparr>))"

definition getExtBySession :: "'e \<Rightarrow> 32 word \<Rightarrow> 'e bidict \<Rightarrow> 'e" where
  "getExtBySession z s d = (case map_of (mExtMap d) s of Some e \<Rightarrow> e | None \<Rightarrow> z)"

definition getAllSessions :: "'e bidict \<Rightarrow> 32 word list" where
  "getAllSessions d = map fst (mBackwardMap d)"

section \<open>They meet the contract\<close>

definition bidict_ok :: "'e bidict \<Rightarrow> bool" where
  "bidict_ok d \<longleftrightarrow> map_ok (mForwardMap d) \<and> map_ok (mBackwardMap d) \<and> map_ok (mExtMap d) \<and>
     (\<forall>i s. map_of (mForwardMap d) i = Some s \<longleftrightarrow> map_of (mBackwardMap d) s = Some i) \<and>
     (\<forall>s. map_of (mExtMap d) s = None \<longleftrightarrow> map_of (mBackwardMap d) s = None) \<and> map_of (mBackwardMap d) 0 = None"

lemma bidict_ok_new: "bidict_ok bidict_new"
  by (simp add: bidict_ok_def bidict_new_def)

lemma rmById_there:
  "map_of (mForwardMap d) i = Some s \<Longrightarrow> rmById i d =
     d\<lparr>mForwardMap := map_erase i (mForwardMap d), mBackwardMap := map_erase s (mBackwardMap d), mExtMap := map_erase s (mExtMap d)\<rparr>"
  by (simp add: rmById_def map_at_def)

lemma rmBySession_there:
  "map_of (mBackwardMap d) s = Some i \<Longrightarrow> rmBySession s d =
     d\<lparr>mForwardMap := map_erase i (mForwardMap d), mBackwardMap := map_erase s (mBackwardMap d), mExtMap := map_erase s (mExtMap d)\<rparr>"
  by (simp add: rmBySession_def map_at_def)

lemma bidict_ok_erase:
  assumes "bidict_ok d" "map_of (mForwardMap d) i = Some s"
  shows "bidict_ok (d\<lparr>mForwardMap := map_erase i (mForwardMap d), mBackwardMap := map_erase s (mBackwardMap d),
    mExtMap := map_erase s (mExtMap d)\<rparr>)"
proof -
  have "map_of (mForwardMap d) j = Some t \<longleftrightarrow> map_of (mBackwardMap d) t = Some j" for j t
    using assms(1) by (simp add: bidict_ok_def)
  then have "j = i \<longleftrightarrow> t = s" if "map_of (mForwardMap d) j = Some t" for j t
    using assms(2) that by (metis option.inject)
  then show ?thesis using assms(1) by (auto simp: bidict_ok_def map_of_erase map_ok_erase)
qed

lemma bidict_ok_set:
  assumes "bidict_ok d" "s \<noteq> 0"
    "map_of (mForwardMap d) i = Some s \<or> map_of (mForwardMap d) i = None \<and> map_of (mBackwardMap d) s = None"
  shows "bidict_ok (bidict_set i s e d)"
proof -
  have maps: "map_ok (mForwardMap d)" "map_ok (mBackwardMap d)" "map_ok (mExtMap d)" using assms(1) by (auto simp: bidict_ok_def)
  have inv: "map_of (mForwardMap d) j = Some t \<longleftrightarrow> map_of (mBackwardMap d) t = Some j" for j t
    using assms(1) by (simp add: bidict_ok_def)
  have "j = i \<longleftrightarrow> t = s" if "map_of (mForwardMap d) j = Some t" "j = i \<or> t = s" for j t
    using assms(3) inv that by (metis option.distinct(1) option.inject)
  then show ?thesis using assms(1,2) inv
    by (auto simp: bidict_ok_def bidict_set_def omap.find_set[OF maps(1)] omap.find_set[OF maps(2)] omap.find_set[OF maps(3)]
        omap.inv_set[OF maps(1)] omap.inv_set[OF maps(2)] omap.inv_set[OF maps(3)])
qed

interpretation sessions: two_way "\<lambda>d. map_of (mForwardMap d)" "\<lambda>d. map_of (mBackwardMap d)" "\<lambda>d. map_of (mExtMap d)"
  bidict_set rmById rmBySession bidict_ok "\<lambda>s. s \<noteq> 0"
proof unfold_locales
  fix d :: "'e bidict" and i j s t e
  assume d: "bidict_ok d"
  then have maps: "map_ok (mForwardMap d)" "map_ok (mBackwardMap d)" "map_ok (mExtMap d)" by (auto simp: bidict_ok_def)
  show inv: "map_of (mForwardMap d) i = Some s \<longleftrightarrow> map_of (mBackwardMap d) s = Some i" for i s
    using d by (simp add: bidict_ok_def)
  show "map_of (mExtMap d) s = None \<longleftrightarrow> map_of (mBackwardMap d) s = None" using d by (simp add: bidict_ok_def)
  show "s \<noteq> 0" if "map_of (mBackwardMap d) s = Some i" using d that by (auto simp: bidict_ok_def)
  show "map_of (mForwardMap (bidict_set i s e d)) j = (if j = i then Some s else map_of (mForwardMap d) j)"
    "map_of (mBackwardMap (bidict_set i s e d)) t = (if t = s then Some i else map_of (mBackwardMap d) t)"
    "map_of (mExtMap (bidict_set i s e d)) t = (if t = s then Some e else map_of (mExtMap d) t)"
    by (simp_all add: bidict_set_def omap.find_set[OF maps(1)] omap.find_set[OF maps(2)] omap.find_set[OF maps(3)])
  show "bidict_ok (bidict_set i s e d)"
    if "s \<noteq> 0" "map_of (mForwardMap d) i = Some s \<or> map_of (mForwardMap d) i = None \<and> map_of (mBackwardMap d) s = None"
    using bidict_ok_set[OF d that] .
  show "bidict_ok (rmById i d)" "map_of (mForwardMap (rmById i d)) j = (if j = i then None else map_of (mForwardMap d) j)"
    if "map_of (mForwardMap d) i \<noteq> None"
    using bidict_ok_erase[OF d] that by (auto simp: rmById_there map_of_erase)
  show "bidict_ok (rmBySession s d)" "map_of (mBackwardMap (rmBySession s d)) t = (if t = s then None else map_of (mBackwardMap d) t)"
    "map_of (mExtMap (rmBySession s d)) t = (if t = s then None else map_of (mExtMap d) t)"
    if "map_of (mBackwardMap d) s \<noteq> None"
    using bidict_ok_erase[OF d] that inv by (auto simp: rmBySession_there map_of_erase)
qed

end
