(* ===== verification/ApiClient.thy ===== *)
theory ApiClient
  imports BiDict GeofenceAdapter
begin

text \<open>
  The base class of the clients of the location API (gps/location/LocationAPIClientBase.cpp and .h): requests wait in
  queues for the responses of the API, and the ids of the client are mapped to the sessions of the API and back. A method
  holds the mutex of the client, so it is one step; a callback that comes in meanwhile waits. The API itself
  (\<open>ILocationAPI\<close>) is a parameter: what a call returns is an argument of the operation, and the calls are recorded.
  Memory can be allocated.
\<close>

section \<open>Requests and their queues\<close>

datatype api_request =
    StartTrackingRequest | StopTrackingRequest | UpdateTrackingOptionsRequest
  | StartBatchingRequest | StopBatchingRequest | UpdateBatchingOptionsRequest | GetBatchedLocationsRequest
  | AddGeofencesRequest | RemoveGeofencesRequest "16 word bidict" | ModifyGeofencesRequest
  | PauseGeofencesRequest | ResumeGeofencesRequest | GnssNiResponseRequest

record 'r request_queue =
  mSession :: u32
  mSessionArrayPtr :: "ptr option"
  mQueue :: "'r list"

definition queue_new :: "'r request_queue" where
  "queue_new = \<lparr>mSession = 0, mSessionArrayPtr = None, mQueue = []\<rparr>"

definition queue_reset :: "u32 \<Rightarrow> 'r request_queue \<Rightarrow> 'r request_queue" where
  "queue_reset session q = q\<lparr>mQueue := [], mSession := session\<rparr>"

definition queue_reset_array :: "ptr option \<Rightarrow> 'r request_queue \<Rightarrow> 'r request_queue" where
  "queue_reset_array p q = (queue_reset 0 q)\<lparr>mSessionArrayPtr := p\<rparr>"

definition queue_push :: "'r \<Rightarrow> 'r request_queue \<Rightarrow> 'r request_queue" where
  "queue_push r q = q\<lparr>mQueue := mQueue q @ [r]\<rparr>"

definition queue_pop :: "'r request_queue \<Rightarrow> 'r option \<times> 'r request_queue" where
  "queue_pop q = (case mQueue q of [] \<Rightarrow> (None, q) | r # rs \<Rightarrow> (Some r, q\<lparr>mQueue := rs\<rparr>))"

section \<open>The client\<close>

datatype request_type = REQUEST_TRACKING | REQUEST_SESSION | REQUEST_GEOFENCE | REQUEST_NIRESPONSE

text \<open>Of the options only the fields that are read; the others are passed on.\<close>

record location_options =
  minInterval :: u32
  minDistance :: u32
  gnss_mode :: u32

datatype batching_mode = BATCHING_MODE_ROUTINE | BATCHING_MODE_TRIP | BATCHING_MODE_NO_AUTO_REPORT

datatype batching_status = BATCHING_STATUS_TRIP_COMPLETED | BATCHING_STATUS_POSITION_AVAILABE | BATCHING_STATUS_POSITION_UNAVAILABLE

record session_entity =
  entity_id :: u32
  trackingSession :: u32
  batchingSession :: u32
  sessionMode :: u32

datatype client_call =
    ApiCreate | ApiUpdateCallbacks | ApiDestroy
  | ApiStartTracking location_options | ApiStopTracking u32 | ApiUpdateTrackingOptions u32 location_options
  | ApiStartBatching batching_mode location_options | ApiStopBatching u32
  | ApiUpdateBatchingOptions u32 batching_mode location_options | ApiGetBatchedLocations u32 nat
  | ApiAddGeofences nat "geofence_option list" "geofence_info list" | ApiRemoveGeofences "u32 list"
  | ApiModifyGeofences "u32 list" "geofence_option list" | ApiPauseGeofences "u32 list" | ApiResumeGeofences "u32 list"
  | ApiGnssNiResponse u32

datatype client_cb =
    OnStartTracking location_error | OnStopTracking location_error | OnUpdateTrackingOptions location_error
  | OnStartBatching location_error | OnStopBatching location_error | OnUpdateBatchingOptions location_error
  | OnGetBatchedLocations location_error | OnGnssNiResponse location_error
  | OnAddGeofences "location_error list" "u32 list" | OnRemoveGeofences "location_error list" "u32 list"
  | OnModifyGeofences "location_error list" "u32 list" | OnPauseGeofences "location_error list" "u32 list"
  | OnResumeGeofences "location_error list" "u32 list"
  | OnGeofenceBreach "u32 list" nat | OnBatchingStatus batching_status "u32 list"

text \<open>The last two fields are what the API and the derived class see.\<close>

record api_client =
  mLocationAPI :: bool
  mGeofenceBreachCallback :: bool
  mBatchingStatusCallback :: bool
  mRequestQueues :: "request_type \<Rightarrow> api_request request_queue"
  mGeofenceBiDict :: "16 word bidict"
  mSessionBiDict :: "session_entity bidict"
  mBatchSize :: "32 word"
  mTracking :: bool
  api_calls :: "client_call list"
  client_cbs :: "client_cb list"

definition api_client_new :: api_client where
  "api_client_new = \<lparr>mLocationAPI = False, mGeofenceBreachCallback = False, mBatchingStatusCallback = False,
     mRequestQueues = (\<lambda>_. queue_new), mGeofenceBiDict = bidict_new, mSessionBiDict = bidict_new, mBatchSize = -1,
     mTracking = False, api_calls = [], client_cbs = []\<rparr>"

definition GEOFENCE_SESSION_ID :: u32 where
  "GEOFENCE_SESSION_ID = 0xFFFFFFFF"

definition call_api :: "client_call \<Rightarrow> api_client \<Rightarrow> api_client" where
  "call_api c st = st\<lparr>api_calls := api_calls st @ [c]\<rparr>"

definition call_back :: "client_cb \<Rightarrow> api_client \<Rightarrow> api_client" where
  "call_back c st = st\<lparr>client_cbs := client_cbs st @ [c]\<rparr>"

definition on_queue :: "request_type \<Rightarrow> (api_request request_queue \<Rightarrow> api_request request_queue) \<Rightarrow> api_client \<Rightarrow> api_client" where
  "on_queue t f st = st\<lparr>mRequestQueues := (mRequestQueues st)(t := f (mRequestQueues st t))\<rparr>"

text \<open>\<open>api\<close> says whether an instance of the API can be created.\<close>

definition locAPISetCallbacks :: "bool \<Rightarrow> bool \<Rightarrow> bool \<Rightarrow> api_client \<Rightarrow> api_client" where
  "locAPISetCallbacks geofence_cb batching_cb api st =
     (let st = (if geofence_cb then st\<lparr>mGeofenceBreachCallback := True\<rparr> else st);
          st = (if batching_cb then st\<lparr>mBatchingStatusCallback := True\<rparr> else st) in
      if \<not> mLocationAPI st then call_api ApiCreate (st\<lparr>mLocationAPI := api\<rparr>) else call_api ApiUpdateCallbacks st)"

definition client_destroy :: "api_client \<Rightarrow> api_client" where
  "client_destroy st =
     (let st = st\<lparr>mGeofenceBreachCallback := False, mRequestQueues := (\<lambda>t. queue_reset 0 (mRequestQueues st t))\<rparr> in
      if mLocationAPI st then call_api ApiDestroy (st\<lparr>mLocationAPI := False\<rparr>) else st)"

section \<open>Tracking\<close>

definition locAPIStartTracking :: "location_options \<Rightarrow> u32 \<Rightarrow> api_client \<Rightarrow> location_error \<times> api_client" where
  "locAPIStartTracking opts session st =
     (if \<not> mLocationAPI st then (LOCATION_ERROR_GENERAL_FAILURE, st)
      else if mTracking st then (LOCATION_ERROR_SUCCESS, st)
      else
        let st = call_api (ApiStartTracking opts) st;
            st = on_queue REQUEST_TRACKING (queue_push StartTrackingRequest \<circ> queue_reset session) st in
        (LOCATION_ERROR_SUCCESS, st\<lparr>mTracking := True\<rparr>))"

definition locAPIStopTracking :: "api_client \<Rightarrow> api_client" where
  "locAPIStopTracking st =
     (let session = mSession (mRequestQueues st REQUEST_TRACKING) in
      if mLocationAPI st \<and> session > 0
      then (call_api (ApiStopTracking session) (on_queue REQUEST_TRACKING (queue_push StopTrackingRequest) st))\<lparr>mTracking := False\<rparr>
      else st)"

definition locAPIUpdateTrackingOptions :: "location_options \<Rightarrow> api_client \<Rightarrow> api_client" where
  "locAPIUpdateTrackingOptions opts st =
     (let session = mSession (mRequestQueues st REQUEST_TRACKING) in
      if mLocationAPI st \<and> session > 0
      then call_api (ApiUpdateTrackingOptions session opts) (on_queue REQUEST_TRACKING (queue_push UpdateTrackingOptionsRequest) st)
      else st)"

text \<open>\<open>conf\<close> is what the configuration file says, if anything.\<close>

definition locAPIGetBatchSize :: "32 word option \<Rightarrow> api_client \<Rightarrow> 32 word \<times> api_client" where
  "locAPIGetBatchSize conf st =
     (let st = (if mBatchSize st = -1 then
          let size = (case conf of Some n \<Rightarrow> n | None \<Rightarrow> mBatchSize st) in
          st\<lparr>mBatchSize := (if size <s 0 then 0 else size)\<rparr> else st) in
      (mBatchSize st, st))"

section \<open>Sessions\<close>

definition SESSION_MODE_ON_FULL :: u32 where "SESSION_MODE_ON_FULL = 1"
definition SESSION_MODE_ON_FIX :: u32 where "SESSION_MODE_ON_FIX = 2"
definition SESSION_MODE_ON_TRIP_COMPLETED :: u32 where "SESSION_MODE_ON_TRIP_COMPLETED = 3"

definition batching_mode_of :: "u32 \<Rightarrow> batching_mode" where
  "batching_mode_of m =
     (if m = SESSION_MODE_ON_FULL then BATCHING_MODE_ROUTINE
      else if m = SESSION_MODE_ON_TRIP_COMPLETED then BATCHING_MODE_TRIP
      else BATCHING_MODE_NO_AUTO_REPORT)"

definition entity_zero :: session_entity where
  "entity_zero = \<lparr>entity_id = 0, trackingSession = 0, batchingSession = 0, sessionMode = 0\<rparr>"

definition options_zero :: location_options where
  "options_zero = \<lparr>minInterval = 0, minDistance = 0, gnss_mode = 0\<rparr>"

definition set_queue_session :: "u32 \<Rightarrow> api_client \<Rightarrow> api_client" where
  "set_queue_session session = on_queue REQUEST_SESSION (\<lambda>q. q\<lparr>mSession := session\<rparr>)"

definition push_session :: "api_request \<Rightarrow> api_client \<Rightarrow> api_client" where
  "push_session r = on_queue REQUEST_SESSION (queue_push r)"

definition locAPIStartSession :: "u32 \<Rightarrow> u32 \<Rightarrow> location_options \<Rightarrow> u32 \<Rightarrow> api_client \<Rightarrow> location_error \<times> api_client" where
  "locAPIStartSession cid mode opts started st =
     (if \<not> mLocationAPI st then (LOCATION_ERROR_GENERAL_FAILURE, st)
      else if hasId cid (mSessionBiDict st) then (LOCATION_ERROR_ALREADY_STARTED, st)
      else
        let st = (if mode = SESSION_MODE_ON_FIX
               then push_session StartTrackingRequest (call_api (ApiStartTracking opts) st)
               else push_session StartBatchingRequest (set_queue_session started
                 (call_api (ApiStartBatching (batching_mode_of mode) opts) st)));
            entity = \<lparr>entity_id = cid, trackingSession = (if mode = SESSION_MODE_ON_FIX then started else 0),
              batchingSession = (if mode = SESSION_MODE_ON_FIX then 0 else started), sessionMode = mode\<rparr> in
        (LOCATION_ERROR_SUCCESS, st\<lparr>mSessionBiDict := bidict_set cid started entity (mSessionBiDict st)\<rparr>))"

definition locAPIStopSession :: "u32 \<Rightarrow> api_client \<Rightarrow> location_error \<times> api_client" where
  "locAPIStopSession cid st =
     (if \<not> mLocationAPI st then (LOCATION_ERROR_GENERAL_FAILURE, st)
      else if \<not> hasId cid (mSessionBiDict st) then (LOCATION_ERROR_ID_UNKNOWN, st)
      else
        let (entity, d) = getExtById entity_zero cid (mSessionBiDict st);
            st = st\<lparr>mSessionBiDict := d\<rparr> in
        (LOCATION_ERROR_SUCCESS,
         if sessionMode entity = SESSION_MODE_ON_FIX
         then call_api (ApiStopTracking (trackingSession entity)) (push_session StopTrackingRequest st)
         else call_api (ApiStopBatching (batchingSession entity)) (push_session StopBatchingRequest st)))"

text \<open>\<open>started\<close> is the session the API returns if the update starts one.\<close>

definition locAPIUpdateSessionOptions :: "u32 \<Rightarrow> u32 \<Rightarrow> location_options \<Rightarrow> u32 \<Rightarrow> api_client \<Rightarrow> location_error \<times> api_client" where
  "locAPIUpdateSessionOptions cid mode opts started st =
     (if \<not> mLocationAPI st then (LOCATION_ERROR_GENERAL_FAILURE, st)
      else if \<not> hasId cid (mSessionBiDict st) then (LOCATION_ERROR_ID_UNKNOWN, st)
      else
        let (entity, d) = getExtById entity_zero cid (mSessionBiDict st);
            st = st\<lparr>mSessionBiDict := d\<rparr>;
            tracking = trackingSession entity; batching = batchingSession entity; sMode = sessionMode entity;
            (tracking, batching, st) =
             (if mode = SESSION_MODE_ON_FIX then
                let st = push_session UpdateTrackingOptionsRequest st in
                (if sMode = SESSION_MODE_ON_FIX then (tracking, batching, call_api (ApiUpdateTrackingOptions tracking opts) st)
                 else (started, 0, call_api (ApiStartTracking opts) (set_queue_session 0 (call_api (ApiStopBatching batching) st))))
              else
                let st = push_session UpdateBatchingOptionsRequest st in
                (if sMode = SESSION_MODE_ON_FIX
                 then (0, started, set_queue_session started
                   (call_api (ApiStartBatching (batching_mode_of mode) opts) (call_api (ApiStopTracking tracking) st)))
                 else (tracking, batching, call_api (ApiUpdateBatchingOptions batching (batching_mode_of mode) options_zero) st)));
            session = (if mode \<noteq> SESSION_MODE_ON_FIX then batching else tracking);
            entity = entity\<lparr>trackingSession := tracking, batchingSession := batching, sessionMode := mode\<rparr> in
        (LOCATION_ERROR_SUCCESS,
         st\<lparr>mSessionBiDict := bidict_set cid session entity (rmById cid (mSessionBiDict st))\<rparr>))"

definition locAPIGetBatchedLocations :: "u32 \<Rightarrow> nat \<Rightarrow> api_client \<Rightarrow> location_error \<times> api_client" where
  "locAPIGetBatchedLocations cid n st =
     (if \<not> mLocationAPI st then (LOCATION_ERROR_GENERAL_FAILURE, st)
      else if \<not> hasId cid (mSessionBiDict st) then (LOCATION_ERROR_ID_UNKNOWN, st)
      else
        let (entity, d) = getExtById entity_zero cid (mSessionBiDict st);
            st = st\<lparr>mSessionBiDict := d\<rparr> in
        if sessionMode entity \<noteq> SESSION_MODE_ON_FIX
        then (LOCATION_ERROR_SUCCESS,
          call_api (ApiGetBatchedLocations (batchingSession entity) n) (push_session GetBatchedLocationsRequest st))
        else (LOCATION_ERROR_NOT_SUPPORTED, st))"

section \<open>Geofences\<close>

text \<open>The arrays of a command have \<open>count\<close> elements, that of the sessions as the API returns them.\<close>

fun enter_geofences :: "u32 list \<Rightarrow> u32 list \<Rightarrow> geofence_option list \<Rightarrow> 16 word bidict \<Rightarrow> 16 word bidict" where
  "enter_geofences (i # is) (s # ss) (opt # opts) d = enter_geofences is ss opts (bidict_set i s (o_breachTypeMask opt) d)"
| "enter_geofences _ _ _ d = d"

definition locAPIAddGeofences ::
    "u32 list \<Rightarrow> geofence_option list \<Rightarrow> geofence_info list \<Rightarrow> u32 list option \<Rightarrow> api_client \<Rightarrow> location_error \<times> api_client" where
  "locAPIAddGeofences ids opts infos returned st =
     (if \<not> mLocationAPI st then (LOCATION_ERROR_GENERAL_FAILURE, st)
      else
        let st = (if mSession (mRequestQueues st REQUEST_GEOFENCE) \<noteq> GEOFENCE_SESSION_ID
                then on_queue REQUEST_GEOFENCE (queue_reset GEOFENCE_SESSION_ID) st else st);
            st = call_api (ApiAddGeofences (length ids) opts infos) st in
        (case returned of
           None \<Rightarrow> (LOCATION_ERROR_GENERAL_FAILURE, st)
         | Some sessions \<Rightarrow>
             let st = on_queue REQUEST_GEOFENCE (queue_push AddGeofencesRequest) st in
             (LOCATION_ERROR_SUCCESS,
              st\<lparr>mGeofenceBiDict := enter_geofences ids sessions opts (mGeofenceBiDict st)\<rparr>)))"

text \<open>The loops over the ids: those that have a session, in order.\<close>

fun take_geofences :: "u32 list \<Rightarrow> 16 word bidict \<Rightarrow> 16 word bidict \<Rightarrow> u32 list \<times> 16 word bidict \<times> 16 word bidict" where
  "take_geofences [] d removed = ([], d, removed)"
| "take_geofences (i # is) d removed =
     (let s = getSession i d in
      if s > 0 then
        let type = getExtBySession 0 s d;
            (ss, d', removed') = take_geofences is (rmBySession s d) (bidict_set i s type removed) in
        (s # ss, d', removed')
      else take_geofences is d removed)"

fun known_sessions :: "u32 list \<Rightarrow> 16 word bidict \<Rightarrow> u32 list" where
  "known_sessions [] d = []"
| "known_sessions (i # is) d = (let s = getSession i d in if s > 0 then s # known_sessions is d else known_sessions is d)"

text \<open>Modifying and resuming also enter a mask for each of them, the one at the position of the id.\<close>

fun set_masks :: "u32 list \<Rightarrow> 16 word list \<Rightarrow> 16 word bidict \<Rightarrow> u32 list \<times> 16 word bidict" where
  "set_masks (i # is) (m # ms) d =
     (let s = getSession i d in
      if s > 0 then let (ss, d') = set_masks is ms (bidict_set i s m d) in (s # ss, d') else set_masks is ms d)"
| "set_masks _ _ d = ([], d)"

definition geofences_ready :: "api_client \<Rightarrow> bool" where
  "geofences_ready st \<longleftrightarrow> mLocationAPI st \<and> mSession (mRequestQueues st REQUEST_GEOFENCE) = GEOFENCE_SESSION_ID"

definition geofence_request :: "api_request \<Rightarrow> client_call \<Rightarrow> api_client \<Rightarrow> api_client" where
  "geofence_request r call st = call_api call (on_queue REQUEST_GEOFENCE (queue_push r) st)"

definition locAPIRemoveGeofences :: "u32 list \<Rightarrow> api_client \<Rightarrow> api_client" where
  "locAPIRemoveGeofences ids st =
     (if geofences_ready st then
        let (ss, d, removed) = take_geofences ids (mGeofenceBiDict st) bidict_new;
            st = st\<lparr>mGeofenceBiDict := d\<rparr> in
        if ss \<noteq> [] then geofence_request (RemoveGeofencesRequest removed) (ApiRemoveGeofences ss) st else st
      else st)"

definition locAPIModifyGeofences :: "u32 list \<Rightarrow> geofence_option list \<Rightarrow> api_client \<Rightarrow> api_client" where
  "locAPIModifyGeofences ids opts st =
     (if geofences_ready st then
        let (ss, d) = set_masks ids (map o_breachTypeMask opts) (mGeofenceBiDict st);
            st = st\<lparr>mGeofenceBiDict := d\<rparr> in
        if ss \<noteq> [] then geofence_request ModifyGeofencesRequest (ApiModifyGeofences ss opts) st else st
      else st)"

definition locAPIPauseGeofences :: "u32 list \<Rightarrow> api_client \<Rightarrow> api_client" where
  "locAPIPauseGeofences ids st =
     (if geofences_ready st then
        let ss = known_sessions ids (mGeofenceBiDict st) in
        if ss \<noteq> [] then geofence_request PauseGeofencesRequest (ApiPauseGeofences ss) st else st
      else st)"

definition locAPIResumeGeofences :: "u32 list \<Rightarrow> 16 word list option \<Rightarrow> api_client \<Rightarrow> api_client" where
  "locAPIResumeGeofences ids masks st =
     (if geofences_ready st then
        let (ss, d) = (case masks of
               None \<Rightarrow> (known_sessions ids (mGeofenceBiDict st), mGeofenceBiDict st)
             | Some ms \<Rightarrow> set_masks ids ms (mGeofenceBiDict st));
            st = st\<lparr>mGeofenceBiDict := d\<rparr> in
        if ss \<noteq> [] then geofence_request ResumeGeofencesRequest (ApiResumeGeofences ss) st else st
      else st)"

definition locAPIRemoveAllGeofences :: "api_client \<Rightarrow> api_client" where
  "locAPIRemoveAllGeofences st =
     (let sessionsVec = getAllSessions (mGeofenceBiDict st) in
      if length sessionsVec > 0 then locAPIRemoveGeofences sessionsVec st else st)"

definition locAPIGnssNiResponse :: "u32 \<Rightarrow> api_client \<Rightarrow> api_client" where
  "locAPIGnssNiResponse cid st =
     (if mLocationAPI st
      then on_queue REQUEST_NIRESPONSE (queue_push GnssNiResponseRequest \<circ> queue_reset cid) (call_api (ApiGnssNiResponse cid) st)
      else st)"

section \<open>Responses\<close>

definition removeSession :: "u32 \<Rightarrow> api_client \<Rightarrow> api_client" where
  "removeSession session st =
     (if hasSession session (mSessionBiDict st) then st\<lparr>mSessionBiDict := rmBySession session (mSessionBiDict st)\<rparr> else st)"

definition pop_queue :: "request_type \<Rightarrow> api_client \<Rightarrow> api_request option \<times> api_client" where
  "pop_queue t st = (let (r, q) = queue_pop (mRequestQueues st t) in (r, on_queue t (\<lambda>_. q) st))"

definition getRequestBySession :: "u32 \<Rightarrow> api_client \<Rightarrow> api_request option \<times> api_client" where
  "getRequestBySession session st =
     (let (r, st) =
        (if mSession (mRequestQueues st REQUEST_TRACKING) = session then pop_queue REQUEST_TRACKING st
         else if mSession (mRequestQueues st REQUEST_NIRESPONSE) = session then pop_queue REQUEST_NIRESPONSE st
         else (None, st)) in
      if r = None \<and> hasSession session (mSessionBiDict st) then pop_queue REQUEST_SESSION st else (r, st))"

definition onResponse :: "api_request \<Rightarrow> location_error \<Rightarrow> u32 \<Rightarrow> api_client \<Rightarrow> api_client" where
  "onResponse r e cid st =
     (case r of
        StartTrackingRequest \<Rightarrow> call_back (OnStartTracking e) (if e \<noteq> LOCATION_ERROR_SUCCESS then removeSession cid st else st)
      | StopTrackingRequest \<Rightarrow>
          let st = call_back (OnStopTracking e) st in if e = LOCATION_ERROR_SUCCESS then removeSession cid st else st
      | UpdateTrackingOptionsRequest \<Rightarrow> call_back (OnUpdateTrackingOptions e) st
      | StartBatchingRequest \<Rightarrow> call_back (OnStartBatching e) (if e \<noteq> LOCATION_ERROR_SUCCESS then removeSession cid st else st)
      | StopBatchingRequest \<Rightarrow>
          let st = call_back (OnStopBatching e) st in if e = LOCATION_ERROR_SUCCESS then removeSession cid st else st
      | UpdateBatchingOptionsRequest \<Rightarrow> call_back (OnUpdateBatchingOptions e) st
      | GetBatchedLocationsRequest \<Rightarrow> call_back (OnGetBatchedLocations e) st
      | GnssNiResponseRequest \<Rightarrow> call_back (OnGnssNiResponse e) st
      | _ \<Rightarrow> st)"

definition onResponseCb :: "location_error \<Rightarrow> u32 \<Rightarrow> api_client \<Rightarrow> api_client" where
  "onResponseCb e cid st =
     (let (request, st) = getRequestBySession cid st in
      case request of Some r \<Rightarrow> onResponse r e cid st | None \<Rightarrow> st)"

definition onCollectiveResponse :: "api_request \<Rightarrow> location_error list \<Rightarrow> u32 list \<Rightarrow> api_client \<Rightarrow> api_client" where
  "onCollectiveResponse r errors sessions st =
     (let ids = map (\<lambda>s. getId s (mGeofenceBiDict st)) sessions in
      case r of
        AddGeofencesRequest \<Rightarrow> call_back (OnAddGeofences errors ids) st
      | RemoveGeofencesRequest removed \<Rightarrow> call_back (OnRemoveGeofences errors (map (\<lambda>s. getId s removed) sessions)) st
      | ModifyGeofencesRequest \<Rightarrow> call_back (OnModifyGeofences errors ids) st
      | PauseGeofencesRequest \<Rightarrow> call_back (OnPauseGeofences errors ids) st
      | ResumeGeofencesRequest \<Rightarrow> call_back (OnResumeGeofences errors ids) st
      | _ \<Rightarrow> st)"

definition onCollectiveResponseCb :: "location_error list \<Rightarrow> u32 list \<Rightarrow> api_client \<Rightarrow> api_client" where
  "onCollectiveResponseCb errors ids st =
     (let (request, st) = (if mSession (mRequestQueues st REQUEST_GEOFENCE) = GEOFENCE_SESSION_ID
                           then pop_queue REQUEST_GEOFENCE st else (None, st)) in
      case request of Some r \<Rightarrow> onCollectiveResponse r errors ids st | None \<Rightarrow> st)"

section \<open>Reports\<close>

definition GEOFENCE_BREACH_ENTER :: nat where "GEOFENCE_BREACH_ENTER = 0"
definition GEOFENCE_BREACH_EXIT :: nat where "GEOFENCE_BREACH_EXIT = 1"
definition GEOFENCE_BREACH_ENTER_BIT :: "16 word" where "GEOFENCE_BREACH_ENTER_BIT = 1"
definition GEOFENCE_BREACH_EXIT_BIT :: "16 word" where "GEOFENCE_BREACH_EXIT_BIT = 2"

definition breach_wanted :: "nat \<Rightarrow> 16 word \<Rightarrow> bool" where
  "breach_wanted breachType type \<longleftrightarrow>
     breachType = GEOFENCE_BREACH_ENTER \<and> type AND GEOFENCE_BREACH_ENTER_BIT \<noteq> 0 \<or>
     breachType = GEOFENCE_BREACH_EXIT \<and> type AND GEOFENCE_BREACH_EXIT_BIT \<noteq> 0"

definition beforeGeofenceBreachCb :: "u32 list \<Rightarrow> nat \<Rightarrow> api_client \<Rightarrow> api_client" where
  "beforeGeofenceBreachCb sessions breachType st =
     (if mGeofenceBreachCallback st
      then call_back (OnGeofenceBreach (map (\<lambda>s. getId s (mGeofenceBiDict st))
        (filter (\<lambda>s. breach_wanted breachType (getExtBySession 0 s (mGeofenceBiDict st))) sessions)) breachType) st
      else st)"

fun completed_trips :: "u32 list \<Rightarrow> session_entity bidict \<Rightarrow> u32 list \<times> session_entity bidict" where
  "completed_trips [] d = ([], d)"
| "completed_trips (s # ss) d =
     (if hasSession s d then
        let e = getExtBySession entity_zero s d in
        if sessionMode e = SESSION_MODE_ON_TRIP_COMPLETED
        then let (ids, d') = completed_trips ss (rmBySession s d) in (entity_id e # ids, d')
        else completed_trips ss d
      else completed_trips ss d)"

definition beforeBatchingStatusCb :: "batching_status \<Rightarrow> u32 list \<Rightarrow> api_client \<Rightarrow> api_client" where
  "beforeBatchingStatusCb status tripCompletedList st =
     (let (ids, d) = (if status = BATCHING_STATUS_TRIP_COMPLETED then completed_trips tripCompletedList (mSessionBiDict st)
                      else ([], mSessionBiDict st)) in
      call_back (OnBatchingStatus status ids) (st\<lparr>mSessionBiDict := d\<rparr>))"

section \<open>Scripts\<close>

datatype client_event =
    CSetCallbacks bool bool bool
  | CDestroy
  | CStartTracking location_options u32
  | CStopTracking
  | CUpdateTracking location_options
  | CStartSession u32 u32 location_options u32
  | CStopSession u32
  | CUpdateSession u32 u32 location_options u32
  | CGetBatched u32 nat
  | CAddGeofences "u32 list" "geofence_option list" "geofence_info list" "u32 list option"
  | CRemoveGeofences "u32 list"
  | CModifyGeofences "u32 list" "geofence_option list"
  | CPauseGeofences "u32 list"
  | CResumeGeofences "u32 list" "16 word list option"
  | CRemoveAllGeofences
  | CGnssNiResponse u32
  | CResponse location_error u32
  | CCollectiveResponse "location_error list" "u32 list"
  | CBreach "u32 list" nat
  | CBatchingStatus batching_status "u32 list"

definition client_event :: "client_event \<Rightarrow> api_client \<Rightarrow> api_client" where
  "client_event e st =
     (case e of
        CSetCallbacks g b api \<Rightarrow> locAPISetCallbacks g b api st
      | CDestroy \<Rightarrow> client_destroy st
      | CStartTracking opts s \<Rightarrow> snd (locAPIStartTracking opts s st)
      | CStopTracking \<Rightarrow> locAPIStopTracking st
      | CUpdateTracking opts \<Rightarrow> locAPIUpdateTrackingOptions opts st
      | CStartSession cid mode opts s \<Rightarrow> snd (locAPIStartSession cid mode opts s st)
      | CStopSession cid \<Rightarrow> snd (locAPIStopSession cid st)
      | CUpdateSession cid mode opts s \<Rightarrow> snd (locAPIUpdateSessionOptions cid mode opts s st)
      | CGetBatched cid n \<Rightarrow> snd (locAPIGetBatchedLocations cid n st)
      | CAddGeofences ids opts infos returned \<Rightarrow> snd (locAPIAddGeofences ids opts infos returned st)
      | CRemoveGeofences ids \<Rightarrow> locAPIRemoveGeofences ids st
      | CModifyGeofences ids opts \<Rightarrow> locAPIModifyGeofences ids opts st
      | CPauseGeofences ids \<Rightarrow> locAPIPauseGeofences ids st
      | CResumeGeofences ids masks \<Rightarrow> locAPIResumeGeofences ids masks st
      | CRemoveAllGeofences \<Rightarrow> locAPIRemoveAllGeofences st
      | CGnssNiResponse cid \<Rightarrow> locAPIGnssNiResponse cid st
      | CResponse err cid \<Rightarrow> onResponseCb err cid st
      | CCollectiveResponse errs ids \<Rightarrow> onCollectiveResponseCb errs ids st
      | CBreach ids t \<Rightarrow> beforeGeofenceBreachCb ids t st
      | CBatchingStatus status trips \<Rightarrow> beforeBatchingStatusCb status trips st)"

definition client_run :: "client_event list \<Rightarrow> api_client \<Rightarrow> api_client" where
  "client_run es st = fold client_event es st"

end
