(* ===== verification/ApiInv.thy ===== *)
theory ApiInv
  imports ApiClient
begin

text \<open>
  The ids of a client of the location API and its sessions agree, for every script in which the API returns new
  sessions and the client adds new geofences.
\<close>

section \<open>The entities of the sessions\<close>

definition active :: "session_entity \<Rightarrow> u32" where
  "active e = (if sessionMode e = SESSION_MODE_ON_FIX then trackingSession e else batchingSession e)"

definition entities_ok :: "session_entity bidict \<Rightarrow> bool" where
  "entities_ok d \<longleftrightarrow> (\<forall>s e. map_of (mExtMap d) s = Some e \<longrightarrow> map_of (mBackwardMap d) s = Some (entity_id e) \<and> active e = s)"

definition dict_ok :: "session_entity bidict \<Rightarrow> bool" where
  "dict_ok d \<longleftrightarrow> bidict_ok d \<and> entities_ok d"

lemma dict_ok_new: "dict_ok bidict_new"
  using bidict_ok_new by (simp add: dict_ok_def entities_ok_def bidict_new_def)

lemma dict_ok_enter:
  assumes "dict_ok d" "s \<noteq> 0" "map_of (mForwardMap d) i = None" "map_of (mBackwardMap d) s = None" "entity_id e = i" "active e = s"
  shows "dict_ok (bidict_set i s e d)"
proof -
  have d: "bidict_ok d" "entities_ok d" using assms(1) by (auto simp: dict_ok_def)
  have "bidict_ok (bidict_set i s e d)" using d(1) assms(2-4) by (rule sessions.enter_new)
  moreover have "entities_ok (bidict_set i s e d)" using d(2) assms(4,5,6)
    unfolding entities_ok_def sessions.ext_of_enter[OF d(1)] sessions.id_of_enter[OF d(1)] by auto
  ultimately show ?thesis by (simp add: dict_ok_def)
qed

lemma dict_ok_drop:
  assumes "dict_ok d" "hasSession s d"
  shows "dict_ok (rmBySession s d)"
proof -
  have d: "bidict_ok d" "entities_ok d" "map_of (mBackwardMap d) s \<noteq> None" using assms by (auto simp: dict_ok_def hasSession_def)
  have "entities_ok (rmBySession s d)" using d(2)
    unfolding entities_ok_def sessions.ext_of_drop_session[OF d(1,3)] sessions.id_of_drop_session[OF d(1,3)] by auto
  then show ?thesis using sessions.drop_session_ok[OF d(1,3)] by (simp add: dict_ok_def)
qed

lemma dict_ok_rmById:
  assumes "dict_ok d" "map_of (mForwardMap d) i = Some s"
  shows "dict_ok (rmById i d)" "rmById i d = rmBySession s d"
proof -
  have "map_of (mBackwardMap d) s = Some i" using assms sessions.inverse[of d i s] by (simp add: dict_ok_def)
  then show "rmById i d = rmBySession s d" "dict_ok (rmById i d)"
    using dict_ok_drop[OF assms(1), of s] assms(2) by (simp_all add: rmById_there rmBySession_there hasSession_def)
qed

text \<open>What is known of an id that is there.\<close>

lemma dict_known:
  assumes "dict_ok d" "hasId i d"
  obtains s e where "map_of (mForwardMap d) i = Some s" "map_of (mBackwardMap d) s = Some i" "map_of (mExtMap d) s = Some e"
    "entity_id e = i" "active e = s" "s \<noteq> 0" "getExtById z i d = (e, d)"
proof -
  have d: "bidict_ok d" using assms(1) by (simp add: dict_ok_def)
  obtain s where s: "map_of (mForwardMap d) i = Some s" using assms(2) by (auto simp: hasId_def)
  then have b: "map_of (mBackwardMap d) s = Some i" using sessions.inverse[OF d] by simp
  then obtain e where e: "map_of (mExtMap d) s = Some e" using sessions.ext_there[OF d, of s] by auto
  then have "entity_id e = i" "active e = s" using assms(1) b by (auto simp: dict_ok_def entities_ok_def)
  moreover have "s \<noteq> 0" using sessions.sessions_ok[OF d b] .
  moreover have "getExtById z i d = (e, d)" using s e \<open>s \<noteq> 0\<close> by (simp add: getExtById_def map_at_def word_gt_0)
  ultimately show ?thesis using that s b e by blast
qed

lemma dict_ok_update:
  assumes "dict_ok d" "hasId i d" "s \<noteq> 0" "hasSession s d \<Longrightarrow> map_of (mForwardMap d) i = Some s" "entity_id e = i" "active e = s"
  shows "dict_ok (bidict_set i s e (rmById i d))"
proof -
  obtain t where t: "map_of (mForwardMap d) i = Some t" using assms(2) by (auto simp: hasId_def)
  have d: "bidict_ok d" using assms(1) by (simp add: dict_ok_def)
  have bt: "map_of (mBackwardMap d) t \<noteq> None" using sessions.inverse[OF d, of i t] t by simp
  show ?thesis
  proof (rule dict_ok_enter)
    show "dict_ok (rmById i d)" using dict_ok_rmById(1)[OF assms(1) t] .
    show "map_of (mForwardMap (rmById i d)) i = None" using sessions.session_of_drop_id[OF d, of i i] t by simp
    show "map_of (mBackwardMap (rmById i d)) s = None"
      using sessions.id_of_drop_session[OF d bt, of s] assms(4) t
      by (cases "s = t"; cases "map_of (mBackwardMap d) s") (auto simp: dict_ok_rmById(2)[OF assms(1) t] hasSession_def)
  qed (use assms in auto)
qed

section \<open>The loops over geofences\<close>

lemma enter_geofences_ok:
  assumes "bidict_ok d" "distinct ids" "distinct ss" "\<forall>i \<in> set ids. \<not> hasId i d" "\<forall>s \<in> set ss. s \<noteq> 0 \<and> \<not> hasSession s d"
  shows "bidict_ok (enter_geofences ids ss opts d)"
  using assms
proof (induction ids ss opts d rule: enter_geofences.induct)
  case (1 i "is" s ss opt opts d)
  have d: "bidict_ok d" using 1(2) .
  have "map_of (mForwardMap d) i = None" "map_of (mBackwardMap d) s = None" "s \<noteq> 0"
    using 1(5,6) by (auto simp: hasId_def hasSession_def)
  then have ok: "bidict_ok (bidict_set i s (o_breachTypeMask opt) d)" using sessions.enter_new[OF d] by blast
  have "\<forall>j \<in> set is. \<not> hasId j (bidict_set i s (o_breachTypeMask opt) d)"
    using 1(3,5) by (auto simp: hasId_def sessions.session_of_enter[OF d])
  moreover have "\<forall>t \<in> set ss. t \<noteq> 0 \<and> \<not> hasSession t (bidict_set i s (o_breachTypeMask opt) d)"
    using 1(4,6) by (auto simp: hasSession_def sessions.id_of_enter[OF d])
  ultimately show ?case using 1(1)[OF ok] 1(3,4) by simp
qed simp_all

lemma getSession_there:
  assumes "bidict_ok d" "getSession i d > 0"
  shows "map_of (mForwardMap d) i = Some (getSession i d)" "map_of (mBackwardMap d) (getSession i d) = Some i"
proof -
  show "map_of (mForwardMap d) i = Some (getSession i d)" using assms(2) by (auto simp: getSession_def split: option.splits)
  then show "map_of (mBackwardMap d) (getSession i d) = Some i" using sessions.inverse[OF assms(1)] by simp
qed

lemma take_geofences_ok: "bidict_ok d \<Longrightarrow> bidict_ok (fst (snd (take_geofences ids d removed)))"
proof (induction ids d removed rule: take_geofences.induct)
  case (2 i "is" d removed)
  show ?case
  proof (cases "getSession i d > 0")
    case True
    then have "bidict_ok (rmBySession (getSession i d) d)"
      using sessions.drop_session_ok[OF 2(3)] getSession_there[OF 2(3)] by simp
    then show ?thesis using 2(1) True by (auto simp: Let_def split: prod.split)
  qed (use 2 in \<open>simp add: Let_def\<close>)
qed simp

lemma set_masks_ok: "bidict_ok d \<Longrightarrow> bidict_ok (snd (set_masks ids ms d))"
proof (induction ids ms d rule: set_masks.induct)
  case (1 i "is" m ms d)
  show ?case
  proof (cases "getSession i d > 0")
    case True
    then have "bidict_ok (bidict_set i (getSession i d) m d)"
      using sessions.enter_again[OF 1(3)] getSession_there[OF 1(3)] by simp
    then show ?thesis using 1(1) True by (auto simp: Let_def split: prod.split)
  qed (use 1 in \<open>simp add: Let_def\<close>)
qed simp_all

lemma completed_trips_ok: "dict_ok d \<Longrightarrow> dict_ok (snd (completed_trips ss d))"
proof (induction ss d rule: completed_trips.induct)
  case (2 s ss d)
  show ?case using 2 dict_ok_drop[OF 2(4), of s] by (auto simp: Let_def split: prod.split)
qed simp

section \<open>Scripts\<close>

text \<open>What the client and the API have to see to: geofences and sessions that are entered are new.\<close>

definition new_entries :: "client_event \<Rightarrow> api_client \<Rightarrow> bool" where
  "new_entries e st =
     (case e of
        CStartSession cid mode opts s \<Rightarrow> s \<noteq> 0 \<and> \<not> hasSession s (mSessionBiDict st)
      | CUpdateSession cid mode opts s \<Rightarrow> s \<noteq> 0 \<and> \<not> hasSession s (mSessionBiDict st)
      | CAddGeofences ids opts infos (Some ss) \<Rightarrow> distinct ids \<and> distinct ss \<and> (\<forall>i \<in> set ids. \<not> hasId i (mGeofenceBiDict st)) \<and>
          (\<forall>s \<in> set ss. s \<noteq> 0 \<and> \<not> hasSession s (mGeofenceBiDict st))
      | _ \<Rightarrow> True)"

fun all_new :: "client_event list \<Rightarrow> api_client \<Rightarrow> bool" where
  "all_new [] st \<longleftrightarrow> True"
| "all_new (e # es) st \<longleftrightarrow> new_entries e st \<and> all_new es (client_event e st)"

definition client_ok :: "api_client \<Rightarrow> bool" where
  "client_ok st \<longleftrightarrow> dict_ok (mSessionBiDict st) \<and> bidict_ok (mGeofenceBiDict st)"

text \<open>Most steps leave the two maps alone.\<close>

lemma dicts_same [simp]:
  "mSessionBiDict (call_api c st) = mSessionBiDict st" "mGeofenceBiDict (call_api c st) = mGeofenceBiDict st"
  "mSessionBiDict (call_back cb st) = mSessionBiDict st" "mGeofenceBiDict (call_back cb st) = mGeofenceBiDict st"
  "mSessionBiDict (on_queue t f st) = mSessionBiDict st" "mGeofenceBiDict (on_queue t f st) = mGeofenceBiDict st"
  "mSessionBiDict (push_session r st) = mSessionBiDict st" "mGeofenceBiDict (push_session r st) = mGeofenceBiDict st"
  "mSessionBiDict (set_queue_session s st) = mSessionBiDict st" "mGeofenceBiDict (set_queue_session s st) = mGeofenceBiDict st"
  "mSessionBiDict (geofence_request r c st) = mSessionBiDict st" "mGeofenceBiDict (geofence_request r c st) = mGeofenceBiDict st"
  "mSessionBiDict (snd (pop_queue t st)) = mSessionBiDict st" "mGeofenceBiDict (snd (pop_queue t st)) = mGeofenceBiDict st"
  by (simp_all add: call_api_def call_back_def on_queue_def push_session_def set_queue_session_def geofence_request_def
      pop_queue_def split: prod.split)

lemma dicts_getRequest [simp]:
  "mSessionBiDict (snd (getRequestBySession s st)) = mSessionBiDict st"
  "mGeofenceBiDict (snd (getRequestBySession s st)) = mGeofenceBiDict st"
  by (simp_all add: getRequestBySession_def Let_def case_prod_beta)

lemma client_ok_removeSession: "client_ok st \<Longrightarrow> client_ok (removeSession s st)"
  using dict_ok_drop by (simp add: removeSession_def client_ok_def)

lemma client_ok_same:
  "client_ok st \<Longrightarrow> mSessionBiDict st' = mSessionBiDict st \<Longrightarrow> mGeofenceBiDict st' = mGeofenceBiDict st \<Longrightarrow> client_ok st'"
  by (simp add: client_ok_def)

lemma client_ok_simps [simp]:
  "client_ok (call_api c st) = client_ok st" "client_ok (call_back cb st) = client_ok st"
  "client_ok (on_queue t f st) = client_ok st" "client_ok (push_session r st) = client_ok st"
  "client_ok (set_queue_session s st) = client_ok st" "client_ok (geofence_request r c st) = client_ok st"
  "client_ok (snd (pop_queue t st)) = client_ok st" "client_ok (snd (getRequestBySession s st)) = client_ok st"
  by (simp_all add: client_ok_def)

lemma client_ok_onResponse: "client_ok st \<Longrightarrow> client_ok (onResponse r e cid st)"
  by (simp add: onResponse_def Let_def client_ok_removeSession split: api_request.split)

lemma client_ok_onResponseCb: "client_ok st \<Longrightarrow> client_ok (onResponseCb e cid st)"
proof -
  assume ok: "client_ok st"
  obtain r st' where r: "getRequestBySession cid st = (r, st')" by fastforce
  then have "client_ok st'" using ok client_ok_simps(8)[of cid st] by simp
  then show ?thesis using r client_ok_onResponse by (simp add: onResponseCb_def split: option.split)
qed

lemma client_ok_onCollectiveResponseCb: "client_ok st \<Longrightarrow> client_ok (onCollectiveResponseCb errs ids st)"
proof -
  assume ok: "client_ok st"
  obtain r st' where r: "pop_queue REQUEST_GEOFENCE st = (r, st')" by fastforce
  then have "client_ok st'" using ok client_ok_simps(7)[of REQUEST_GEOFENCE st] by simp
  then show ?thesis using ok r
    by (simp add: onCollectiveResponseCb_def onCollectiveResponse_def Let_def split: option.split api_request.split)
qed

lemma client_ok_start:
  assumes "client_ok st" "new_entries (CStartSession cid mode opts s) st"
  shows "client_ok (snd (locAPIStartSession cid mode opts s st))"
proof -
  have "dict_ok (bidict_set cid s \<lparr>entity_id = cid, trackingSession = (if mode = SESSION_MODE_ON_FIX then s else 0),
      batchingSession = (if mode = SESSION_MODE_ON_FIX then 0 else s), sessionMode = mode\<rparr> (mSessionBiDict st))"
    if "\<not> hasId cid (mSessionBiDict st)"
    by (rule dict_ok_enter) (use assms that in \<open>auto simp: client_ok_def new_entries_def hasId_def hasSession_def active_def\<close>)
  then show ?thesis using assms(1)
    by (cases "mode = SESSION_MODE_ON_FIX") (simp_all add: locAPIStartSession_def Let_def client_ok_def)
qed

lemma client_ok_update:
  assumes "client_ok st" "new_entries (CUpdateSession cid mode opts s) st"
  shows "client_ok (snd (locAPIUpdateSessionOptions cid mode opts s st))"
proof (cases "mLocationAPI st \<and> hasId cid (mSessionBiDict st)")
  case True
  have d: "dict_ok (mSessionBiDict st)" using assms(1) by (simp add: client_ok_def)
  obtain t e where t: "map_of (mForwardMap (mSessionBiDict st)) cid = Some t" "entity_id e = cid" "active e = t" "t \<noteq> 0"
    "getExtById entity_zero cid (mSessionBiDict st) = (e, mSessionBiDict st)"
    using dict_known[OF d, of cid entity_zero] True by metis
  have upd: "dict_ok (bidict_set cid s' e' (rmById cid (mSessionBiDict st)))"
    if "s' = s \<or> s' = t" "entity_id e' = cid" "active e' = s'" for s' e'
    by (rule dict_ok_update[OF d]) (use True t that assms(2) in \<open>auto simp: new_entries_def\<close>)
  show ?thesis
  proof (cases "mode = SESSION_MODE_ON_FIX"; cases "sessionMode e = SESSION_MODE_ON_FIX")
  qed (use True t assms(1) in \<open>simp_all add: locAPIUpdateSessionOptions_def Let_def client_ok_def active_def upd\<close>)
qed (use assms(1) in \<open>auto simp: locAPIUpdateSessionOptions_def\<close>)

lemma client_ok_stop: "client_ok st \<Longrightarrow> client_ok (snd (locAPIStopSession cid st))"
proof -
  assume ok: "client_ok st"
  then have d: "dict_ok (mSessionBiDict st)" by (simp add: client_ok_def)
  obtain e where "getExtById entity_zero cid (mSessionBiDict st) = (e, mSessionBiDict st)" if "hasId cid (mSessionBiDict st)"
    using dict_known[OF d, of cid entity_zero] by metis
  then show ?thesis using ok by (simp add: locAPIStopSession_def Let_def client_ok_def split: prod.split)
qed

lemma client_ok_get: "client_ok st \<Longrightarrow> client_ok (snd (locAPIGetBatchedLocations cid n st))"
proof -
  assume ok: "client_ok st"
  then have d: "dict_ok (mSessionBiDict st)" by (simp add: client_ok_def)
  obtain e where "getExtById entity_zero cid (mSessionBiDict st) = (e, mSessionBiDict st)" if "hasId cid (mSessionBiDict st)"
    using dict_known[OF d, of cid entity_zero] by metis
  then show ?thesis using ok by (simp add: locAPIGetBatchedLocations_def Let_def client_ok_def split: prod.split)
qed

lemma client_ok_geofences:
  assumes "client_ok st"
  shows "new_entries (CAddGeofences ids opts infos returned) st \<Longrightarrow> client_ok (snd (locAPIAddGeofences ids opts infos returned st))"
    "client_ok (locAPIRemoveGeofences ids st)" "client_ok (locAPIModifyGeofences ids opts st)"
    "client_ok (locAPIPauseGeofences ids st)" "client_ok (locAPIResumeGeofences ids masks st)"
proof -
  have d: "bidict_ok (mGeofenceBiDict st)" using assms by (simp add: client_ok_def)
  show "client_ok (locAPIRemoveGeofences ids st)"
    using assms take_geofences_ok[OF d, of ids bidict_new]
    by (auto simp: locAPIRemoveGeofences_def client_ok_def Let_def split: prod.split)
  show "client_ok (locAPIModifyGeofences ids opts st)"
    using assms set_masks_ok[OF d, of ids "map o_breachTypeMask opts"]
    by (auto simp: locAPIModifyGeofences_def client_ok_def Let_def split: prod.split)
  show "client_ok (locAPIPauseGeofences ids st)" using assms by (simp add: locAPIPauseGeofences_def Let_def)
  show "client_ok (locAPIResumeGeofences ids masks st)"
  proof (cases masks)
    case (Some ms)
    then show ?thesis using assms set_masks_ok[OF d, of ids ms]
      by (auto simp: locAPIResumeGeofences_def client_ok_def Let_def split: prod.split)
  qed (use assms in \<open>simp add: locAPIResumeGeofences_def client_ok_def Let_def\<close>)
  show "client_ok (snd (locAPIAddGeofences ids opts infos returned st))" if "new_entries (CAddGeofences ids opts infos returned) st"
    using assms that enter_geofences_ok[OF d]
    by (cases returned) (simp_all add: locAPIAddGeofences_def new_entries_def client_ok_def Let_def)
qed

lemma client_ok_event:
  assumes "client_ok st" "new_entries e st"
  shows "client_ok (client_event e st)"
proof (cases e)
  case (CBatchingStatus status trips)
  obtain ids d where "completed_trips trips (mSessionBiDict st) = (ids, d)" by fastforce
  moreover have "dict_ok d" using completed_trips_ok[of "mSessionBiDict st" trips] assms(1) calculation by (simp add: client_ok_def)
  ultimately show ?thesis using assms(1) CBatchingStatus
    by (simp add: client_event_def beforeBatchingStatusCb_def client_ok_def)
next
  case CRemoveAllGeofences
  then show ?thesis using assms(1) client_ok_geofences(2) by (simp add: client_event_def locAPIRemoveAllGeofences_def Let_def)
next
  case (CSetCallbacks g b api)
  then show ?thesis using assms(1) by (simp add: client_event_def locAPISetCallbacks_def Let_def client_ok_def)
next
  case CDestroy
  then show ?thesis using assms(1) by (simp add: client_event_def client_destroy_def Let_def client_ok_def)
next
  case (CStartTracking opts s)
  then show ?thesis using assms(1) by (simp add: client_event_def locAPIStartTracking_def Let_def client_ok_def)
next
  case CStopTracking
  then show ?thesis using assms(1) by (simp add: client_event_def locAPIStopTracking_def Let_def client_ok_def)
next
  case (CUpdateTracking opts)
  then show ?thesis using assms(1) by (simp add: client_event_def locAPIUpdateTrackingOptions_def Let_def)
next
  case (CGnssNiResponse cid)
  then show ?thesis using assms(1) by (simp add: client_event_def locAPIGnssNiResponse_def)
next
  case (CBreach ids t)
  then show ?thesis using assms(1) by (simp add: client_event_def beforeGeofenceBreachCb_def)
qed (use assms in \<open>auto simp: client_event_def client_ok_start client_ok_update client_ok_stop client_ok_get client_ok_geofences
    client_ok_onResponseCb client_ok_onCollectiveResponseCb\<close>)

lemma client_ok_run: "client_ok st \<Longrightarrow> all_new es st \<Longrightarrow> client_ok (client_run es st)"
proof (induction es arbitrary: st)
  case (Cons e es)
  then show ?case using client_ok_event[of st e] by (simp add: client_run_def)
qed (simp add: client_run_def)

lemma client_ok_new: "client_ok api_client_new"
  by (simp add: client_ok_def api_client_new_def dict_ok_new bidict_ok_new)

end
