(* ===== verification/ApiSessions.thy ===== *)
theory ApiSessions
  imports ApiInv
begin

text \<open>
  Sessions of a client: what the derived class is promised, as a machine that knows the ids, their modes and the requests
  that wait, and that the client implements it as long as the API answers in order and a session has one request at
  a time.
\<close>

section \<open>The specification\<close>

text \<open>\<open>opened\<close>: the mode of every open id. \<open>awaiting\<close>: the requests in order, each with its id.\<close>

record session_spec =
  opened :: "u32 \<Rightarrow> u32 option"
  awaiting :: "(u32 \<times> api_request) list"
  reported :: "client_cb list"

definition spec_new :: session_spec where
  "spec_new = \<lparr>opened = (\<lambda>_. None), awaiting = [], reported = []\<rparr>"

definition spec_start :: "u32 \<Rightarrow> u32 \<Rightarrow> session_spec \<Rightarrow> session_spec" where
  "spec_start i mode A =
     (if opened A i \<noteq> None then A
      else A\<lparr>opened := (opened A)(i \<mapsto> mode),
        awaiting := awaiting A @ [(i, if mode = SESSION_MODE_ON_FIX then StartTrackingRequest else StartBatchingRequest)]\<rparr>)"

definition spec_stop :: "u32 \<Rightarrow> session_spec \<Rightarrow> session_spec" where
  "spec_stop i A = (case opened A i of None \<Rightarrow> A | Some mode \<Rightarrow>
     A\<lparr>awaiting := awaiting A @ [(i, if mode = SESSION_MODE_ON_FIX then StopTrackingRequest else StopBatchingRequest)]\<rparr>)"

definition spec_update :: "u32 \<Rightarrow> u32 \<Rightarrow> session_spec \<Rightarrow> session_spec" where
  "spec_update i mode A =
     (if opened A i = None then A
      else A\<lparr>opened := (opened A)(i \<mapsto> mode),
        awaiting := awaiting A @ [(i, if mode = SESSION_MODE_ON_FIX then UpdateTrackingOptionsRequest else UpdateBatchingOptionsRequest)]\<rparr>)"

definition spec_get :: "u32 \<Rightarrow> session_spec \<Rightarrow> session_spec" where
  "spec_get i A = (case opened A i of None \<Rightarrow> A | Some mode \<Rightarrow>
     if mode \<noteq> SESSION_MODE_ON_FIX then A\<lparr>awaiting := awaiting A @ [(i, GetBatchedLocationsRequest)]\<rparr> else A)"

definition report_of :: "api_request \<Rightarrow> location_error \<Rightarrow> client_cb list" where
  "report_of r e = (case r of
     StartTrackingRequest \<Rightarrow> [OnStartTracking e] | StopTrackingRequest \<Rightarrow> [OnStopTracking e]
   | UpdateTrackingOptionsRequest \<Rightarrow> [OnUpdateTrackingOptions e] | StartBatchingRequest \<Rightarrow> [OnStartBatching e]
   | StopBatchingRequest \<Rightarrow> [OnStopBatching e] | UpdateBatchingOptionsRequest \<Rightarrow> [OnUpdateBatchingOptions e]
   | GetBatchedLocationsRequest \<Rightarrow> [OnGetBatchedLocations e] | GnssNiResponseRequest \<Rightarrow> [OnGnssNiResponse e] | _ \<Rightarrow> [])"

text \<open>A start that failed and a stop that did not close the id.\<close>

definition closes :: "api_request \<Rightarrow> location_error \<Rightarrow> bool" where
  "closes r e \<longleftrightarrow> r \<in> {StartTrackingRequest, StartBatchingRequest} \<and> e \<noteq> LOCATION_ERROR_SUCCESS \<or>
     r \<in> {StopTrackingRequest, StopBatchingRequest} \<and> e = LOCATION_ERROR_SUCCESS"

definition spec_answer :: "location_error \<Rightarrow> session_spec \<Rightarrow> session_spec" where
  "spec_answer e A = (case awaiting A of [] \<Rightarrow> A | (i, r) # rs \<Rightarrow>
     A\<lparr>awaiting := rs, reported := reported A @ report_of r e,
       opened := (if closes r e then (opened A)(i := None) else opened A)\<rparr>)"

section \<open>Scripts\<close>

text \<open>
  \<open>SAnswer\<close>: the API answers its oldest request, with the session of its id. \<open>SStray\<close>: an answer for a session that is
  no longer known, as that of a session that an update has replaced.
\<close>

datatype session_event =
    SStart u32 u32 location_options u32
  | SStop u32
  | SUpdate u32 u32 location_options u32
  | SGet u32 nat
  | SAnswer location_error
  | SStray location_error u32

definition spec_event :: "session_event \<Rightarrow> session_spec \<Rightarrow> session_spec" where
  "spec_event e A = (case e of
     SStart i mode opts s \<Rightarrow> spec_start i mode A | SStop i \<Rightarrow> spec_stop i A | SUpdate i mode opts s \<Rightarrow> spec_update i mode A
   | SGet i n \<Rightarrow> spec_get i A | SAnswer err \<Rightarrow> spec_answer err A | SStray err s \<Rightarrow> A)"

definition api_event :: "session_event \<Rightarrow> session_spec \<Rightarrow> api_client \<Rightarrow> api_client" where
  "api_event e A st = (case e of
     SStart i mode opts s \<Rightarrow> client_event (CStartSession i mode opts s) st | SStop i \<Rightarrow> client_event (CStopSession i) st
   | SUpdate i mode opts s \<Rightarrow> client_event (CUpdateSession i mode opts s) st | SGet i n \<Rightarrow> client_event (CGetBatched i n) st
   | SAnswer err \<Rightarrow> (case awaiting A of [] \<Rightarrow> st
       | (i, r) # rs \<Rightarrow> client_event (CResponse err (getSession i (mSessionBiDict st))) st)
   | SStray err s \<Rightarrow> client_event (CResponse err s) st)"

definition orderly :: "session_event \<Rightarrow> session_spec \<Rightarrow> api_client \<Rightarrow> bool" where
  "orderly e A st = (case e of
     SStart i mode opts s \<Rightarrow> s \<noteq> 0 \<and> \<not> hasSession s (mSessionBiDict st)
   | SStop i \<Rightarrow> i \<notin> fst ` set (awaiting A)
   | SUpdate i mode opts s \<Rightarrow> i \<notin> fst ` set (awaiting A) \<and> s \<noteq> 0 \<and> \<not> hasSession s (mSessionBiDict st)
   | SGet i n \<Rightarrow> i \<notin> fst ` set (awaiting A)
   | SAnswer err \<Rightarrow> True
   | SStray err s \<Rightarrow> \<not> hasSession s (mSessionBiDict st))"

fun both_run :: "session_event list \<Rightarrow> session_spec \<times> api_client \<Rightarrow> session_spec \<times> api_client" where
  "both_run [] (A, st) = (A, st)"
| "both_run (e # es) (A, st) = both_run es (spec_event e A, api_event e A st)"

fun orderly_run :: "session_event list \<Rightarrow> session_spec \<times> api_client \<Rightarrow> bool" where
  "orderly_run [] (A, st) \<longleftrightarrow> True"
| "orderly_run (e # es) (A, st) \<longleftrightarrow> orderly e A st \<and> orderly_run es (spec_event e A, api_event e A st)"

section \<open>The simulation\<close>

definition mode_of :: "session_entity bidict \<Rightarrow> u32 \<Rightarrow> u32 option" where
  "mode_of d i = (case map_of (mForwardMap d) i of None \<Rightarrow> None | Some s \<Rightarrow> map_option sessionMode (map_of (mExtMap d) s))"

definition implements :: "session_spec \<Rightarrow> api_client \<Rightarrow> bool" where
  "implements A st \<longleftrightarrow> mLocationAPI st \<and> dict_ok (mSessionBiDict st) \<and>
     mQueue (mRequestQueues st REQUEST_TRACKING) = [] \<and> mQueue (mRequestQueues st REQUEST_NIRESPONSE) = [] \<and>
     mQueue (mRequestQueues st REQUEST_SESSION) = map snd (awaiting A) \<and> opened A = mode_of (mSessionBiDict st) \<and>
     distinct (map fst (awaiting A)) \<and> fst ` set (awaiting A) \<subseteq> dom (mode_of (mSessionBiDict st)) \<and> client_cbs st = reported A"

lemma mode_of_None:
  assumes "dict_ok d"
  shows "mode_of d i = None \<longleftrightarrow> \<not> hasId i d"
proof (cases "hasId i d")
  case True
  obtain s e where "map_of (mForwardMap d) i = Some s" "map_of (mExtMap d) s = Some e"
    using dict_known[OF assms True, of entity_zero] .
  then show ?thesis using True by (simp add: mode_of_def)
qed (simp add: mode_of_def hasId_def)

lemma mode_of_enter:
  assumes "dict_ok d" "map_of (mForwardMap d) i = None" "map_of (mBackwardMap d) s = None"
  shows "mode_of (bidict_set i s e d) = (mode_of d)(i \<mapsto> sessionMode e)"
proof
  fix j
  have d: "bidict_ok d" using assms(1) by (simp add: dict_ok_def)
  have "t \<noteq> s" if "map_of (mForwardMap d) j = Some t" for t using sessions.inverse[OF d, of j t] assms(3) that by auto
  then show "mode_of (bidict_set i s e d) j = ((mode_of d)(i \<mapsto> sessionMode e)) j"
    by (auto simp: mode_of_def sessions.session_of_enter[OF d] sessions.ext_of_enter[OF d] split: option.split)
qed

lemma mode_of_drop:
  assumes "dict_ok d" "map_of (mForwardMap d) i = Some s"
  shows "mode_of (rmBySession s d) = (mode_of d)(i := None)"
proof
  fix j
  have d: "bidict_ok d" using assms(1) by (simp add: dict_ok_def)
  have b: "map_of (mBackwardMap d) s = Some i" using sessions.inverse[OF d] assms(2) by simp
  then have s: "map_of (mBackwardMap d) s \<noteq> None" by simp
  have "t \<noteq> s" if "map_of (mForwardMap d) j = Some t" "j \<noteq> i" for t using sessions.ids_unique[OF d, of i s j] assms(2) that by auto
  then show "mode_of (rmBySession s d) j = ((mode_of d)(i := None)) j"
    by (auto simp: mode_of_def sessions.session_of_drop_session[OF d b] sessions.ext_of_drop_session[OF d s] split: option.split)
qed

lemma mode_of_update:
  assumes "dict_ok d" "hasId i d" "hasSession s d \<Longrightarrow> map_of (mForwardMap d) i = Some s"
  shows "mode_of (bidict_set i s e (rmById i d)) = (mode_of d)(i \<mapsto> sessionMode e)"
proof -
  obtain t where t: "map_of (mForwardMap d) i = Some t" using assms(2) by (auto simp: hasId_def)
  have d: "bidict_ok d" using assms(1) by (simp add: dict_ok_def)
  have bt: "map_of (mBackwardMap d) t \<noteq> None" using sessions.inverse[OF d, of i t] t by simp
  have "map_of (mForwardMap (rmById i d)) i = None" using sessions.session_of_drop_id[OF d, of i i] t by simp
  moreover have "map_of (mBackwardMap (rmById i d)) s = None"
    using sessions.id_of_drop_session[OF d bt, of s] assms(3) t
    by (cases "s = t"; cases "map_of (mBackwardMap d) s") (auto simp: dict_ok_rmById(2)[OF assms(1) t] hasSession_def)
  ultimately have "mode_of (bidict_set i s e (rmById i d)) = (mode_of (rmById i d))(i \<mapsto> sessionMode e)"
    by (rule mode_of_enter[OF dict_ok_rmById(1)[OF assms(1) t]])
  then show ?thesis by (simp add: dict_ok_rmById(2)[OF assms(1) t] mode_of_drop[OF assms(1) t])
qed

lemma mode_of_known: "map_of (mForwardMap d) i = Some s \<Longrightarrow> map_of (mExtMap d) s = Some e \<Longrightarrow> mode_of d i = Some (sessionMode e)"
  by (simp add: mode_of_def)

lemmas queue_defs = on_queue_def push_session_def set_queue_session_def queue_push_def call_api_def call_back_def

lemma implements_start:
  assumes "implements A st" "orderly (SStart i mode opts s) A st"
  shows "implements (spec_start i mode A) (snd (locAPIStartSession i mode opts s st))"
proof (cases "hasId i (mSessionBiDict st)")
  case True
  then show ?thesis using assms(1) mode_of_None[of "mSessionBiDict st" i]
    by (simp add: implements_def spec_start_def locAPIStartSession_def)
next
  case False
  let ?e = "\<lparr>entity_id = i, trackingSession = (if mode = SESSION_MODE_ON_FIX then s else 0),
      batchingSession = (if mode = SESSION_MODE_ON_FIX then 0 else s), sessionMode = mode\<rparr>"
  have d: "dict_ok (mSessionBiDict st)" using assms(1) by (simp add: implements_def)
  have new: "map_of (mForwardMap (mSessionBiDict st)) i = None" "map_of (mBackwardMap (mSessionBiDict st)) s = None" "s \<noteq> 0"
    using False assms(2) by (auto simp: orderly_def hasId_def hasSession_def)
  have "dict_ok (bidict_set i s ?e (mSessionBiDict st))"
    by (rule dict_ok_enter[OF d new(3,1,2)]) (simp_all add: active_def)
  moreover have "mode_of (bidict_set i s ?e (mSessionBiDict st)) = (mode_of (mSessionBiDict st))(i \<mapsto> mode)"
    using mode_of_enter[OF d new(1,2), of ?e] by simp
  moreover have "mode_of (mSessionBiDict st) i = None" using mode_of_None[OF d] False by simp
  ultimately show ?thesis using assms(1) False
    by (cases "mode = SESSION_MODE_ON_FIX")
      (auto simp: implements_def spec_start_def locAPIStartSession_def Let_def queue_defs)
qed

lemma implements_known:
  assumes "implements A st" "hasId i (mSessionBiDict st)"
  obtains s e where "map_of (mForwardMap (mSessionBiDict st)) i = Some s" "map_of (mExtMap (mSessionBiDict st)) s = Some e"
    "entity_id e = i" "active e = s" "s \<noteq> 0" "getExtById entity_zero i (mSessionBiDict st) = (e, mSessionBiDict st)"
    "opened A i = Some (sessionMode e)"
proof -
  have d: "dict_ok (mSessionBiDict st)" "opened A = mode_of (mSessionBiDict st)" using assms(1) by (auto simp: implements_def)
  from dict_known[OF d(1) assms(2), of entity_zero] show ?thesis using that mode_of_known d(2) by metis
qed

lemma implements_closed:
  assumes "implements A st" "\<not> hasId i (mSessionBiDict st)"
  shows "opened A i = None"
  using assms mode_of_None[of "mSessionBiDict st" i] by (simp add: implements_def)

lemma implements_stop:
  assumes "implements A st" "orderly (SStop i) A st"
  shows "implements (spec_stop i A) (snd (locAPIStopSession i st))"
proof (cases "hasId i (mSessionBiDict st)")
  case True
  obtain s e where "getExtById entity_zero i (mSessionBiDict st) = (e, mSessionBiDict st)" "opened A i = Some (sessionMode e)"
    using implements_known[OF assms(1) True] .
  then show ?thesis using assms True
    by (simp add: implements_def spec_stop_def locAPIStopSession_def Let_def queue_defs orderly_def domI)
next
  case False
  then show ?thesis using assms(1) implements_closed[OF assms(1) False] by (simp add: implements_def spec_stop_def locAPIStopSession_def)
qed

lemma implements_get:
  assumes "implements A st" "orderly (SGet i n) A st"
  shows "implements (spec_get i A) (snd (locAPIGetBatchedLocations i n st))"
proof (cases "hasId i (mSessionBiDict st)")
  case True
  obtain s e where "getExtById entity_zero i (mSessionBiDict st) = (e, mSessionBiDict st)" "opened A i = Some (sessionMode e)"
    using implements_known[OF assms(1) True] .
  then show ?thesis using assms True
    by (simp add: implements_def spec_get_def locAPIGetBatchedLocations_def Let_def queue_defs orderly_def domI)
next
  case False
  then show ?thesis using assms(1) implements_closed[OF assms(1) False] by (simp add: implements_def spec_get_def locAPIGetBatchedLocations_def)
qed

lemma implements_update:
  assumes "implements A st" "orderly (SUpdate i mode opts s) A st"
  shows "implements (spec_update i mode A) (snd (locAPIUpdateSessionOptions i mode opts s st))"
proof (cases "hasId i (mSessionBiDict st)")
  case True
  have d: "dict_ok (mSessionBiDict st)" using assms(1) by (simp add: implements_def)
  obtain t e where t: "map_of (mForwardMap (mSessionBiDict st)) i = Some t" "entity_id e = i" "active e = t" "t \<noteq> 0"
    "getExtById entity_zero i (mSessionBiDict st) = (e, mSessionBiDict st)" "opened A i = Some (sessionMode e)"
    using implements_known[OF assms(1) True] by metis
  have upd: "dict_ok (bidict_set i s' e' (rmById i (mSessionBiDict st)))"
    "mode_of (bidict_set i s' e' (rmById i (mSessionBiDict st))) = (mode_of (mSessionBiDict st))(i \<mapsto> sessionMode e')"
    if "s' = s \<or> s' = t" "entity_id e' = i" "active e' = s'" for s' e'
  proof -
    have "hasSession s' (mSessionBiDict st) \<Longrightarrow> map_of (mForwardMap (mSessionBiDict st)) i = Some s'" "s' \<noteq> 0"
      using that(1) t(1,4) assms(2) by (auto simp: orderly_def)
    then show "dict_ok (bidict_set i s' e' (rmById i (mSessionBiDict st)))"
      "mode_of (bidict_set i s' e' (rmById i (mSessionBiDict st))) = (mode_of (mSessionBiDict st))(i \<mapsto> sessionMode e')"
      using dict_ok_update[OF d True _ _ that(2,3)] mode_of_update[OF d True] by blast+
  qed
  show ?thesis
  proof (cases "mode = SESSION_MODE_ON_FIX"; cases "sessionMode e = SESSION_MODE_ON_FIX")
  qed (use True t assms in \<open>simp_all add: implements_def spec_update_def orderly_def locAPIUpdateSessionOptions_def Let_def
      active_def upd queue_defs subset_insertI2\<close>)
next
  case False
  then show ?thesis using assms(1) implements_closed[OF assms(1) False] by (simp add: implements_def spec_update_def locAPIUpdateSessionOptions_def)
qed

text \<open>An answer finds the oldest request if its session is known, and nothing otherwise.\<close>

lemma getRequest_session:
  assumes "mQueue (mRequestQueues st REQUEST_TRACKING) = []" "mQueue (mRequestQueues st REQUEST_NIRESPONSE) = []"
  shows "getRequestBySession s st =
    (if hasSession s (mSessionBiDict st) then pop_queue REQUEST_SESSION st else (None, st))"
proof -
  have "pop_queue t st = (None, st)" if "mQueue (mRequestQueues st t) = []" for t
    using that by (cases st) (simp add: pop_queue_def queue_pop_def on_queue_def)
  then show ?thesis using assms by (simp add: getRequestBySession_def)
qed

lemma implements_stray:
  assumes "implements A st" "orderly (SStray err s) A st"
  shows "implements A (onResponseCb err s st)"
  using assms getRequest_session[of st s] by (simp add: onResponseCb_def implements_def orderly_def)

lemma onResponse_effect:
  assumes "hasSession s (mSessionBiDict st)"
  shows "client_cbs (onResponse r err s st) = client_cbs st @ report_of r err"
    "mSessionBiDict (onResponse r err s st) = (if closes r err then rmBySession s (mSessionBiDict st) else mSessionBiDict st)"
    "mRequestQueues (onResponse r err s st) = mRequestQueues st" "mLocationAPI (onResponse r err s st) = mLocationAPI st"
proof -
  note defs = onResponse_def report_of_def closes_def removeSession_def call_back_def Let_def
  show "client_cbs (onResponse r err s st) = client_cbs st @ report_of r err" by (cases r; simp add: defs)
  show "mSessionBiDict (onResponse r err s st) = (if closes r err then rmBySession s (mSessionBiDict st) else mSessionBiDict st)"
    using assms by (cases r; simp add: defs)
  show "mRequestQueues (onResponse r err s st) = mRequestQueues st" by (cases r; simp add: defs)
  show "mLocationAPI (onResponse r err s st) = mLocationAPI st" by (cases r; simp add: defs)
qed

lemma implements_answer:
  assumes "implements A st" "awaiting A = (i, r) # rs"
  shows "implements (spec_answer err A) (onResponseCb err (getSession i (mSessionBiDict st)) st)"
proof -
  have A: "mQueue (mRequestQueues st REQUEST_TRACKING) = []" "mQueue (mRequestQueues st REQUEST_NIRESPONSE) = []"
    "mQueue (mRequestQueues st REQUEST_SESSION) = r # map snd rs" "dict_ok (mSessionBiDict st)" "opened A i \<noteq> None"
    "opened A = mode_of (mSessionBiDict st)" "i \<notin> fst ` set rs"
    using assms by (auto simp: implements_def)
  then have "hasId i (mSessionBiDict st)" using mode_of_None[OF A(4), of i] by simp
  then obtain s where s: "map_of (mForwardMap (mSessionBiDict st)) i = Some s" "s \<noteq> 0" "map_of (mBackwardMap (mSessionBiDict st)) s = Some i"
    using dict_known[OF A(4), of i entity_zero] by metis
  then have sess: "getSession i (mSessionBiDict st) = s" "hasSession s (mSessionBiDict st)"
    by (simp_all add: getSession_def hasSession_def)
  let ?st = "on_queue REQUEST_SESSION (\<lambda>q. q\<lparr>mQueue := map snd rs\<rparr>) st"
  have "getRequestBySession s st = (Some r, ?st)"
    using getRequest_session[OF A(1,2), of s] sess(2) A(3) by (simp add: pop_queue_def queue_pop_def on_queue_def)
  then have eq: "onResponseCb err (getSession i (mSessionBiDict st)) st = onResponse r err s ?st" by (simp add: onResponseCb_def sess)
  have res: "client_cbs (onResponse r err s ?st) = client_cbs st @ report_of r err"
    "mSessionBiDict (onResponse r err s ?st) = (if closes r err then rmBySession s (mSessionBiDict st) else mSessionBiDict st)"
    "mRequestQueues (onResponse r err s ?st) = mRequestQueues ?st" "mLocationAPI (onResponse r err s ?st) = mLocationAPI st"
    using onResponse_effect[of s ?st r err] sess(2) by (simp_all add: on_queue_def)
  have "dict_ok (rmBySession s (mSessionBiDict st))" "mode_of (rmBySession s (mSessionBiDict st)) = (mode_of (mSessionBiDict st))(i := None)"
    using dict_ok_drop[OF A(4) sess(2)] mode_of_drop[OF A(4) s(1)] by auto
  then have dict: "dict_ok (mSessionBiDict (onResponse r err s ?st))"
    "mode_of (mSessionBiDict (onResponse r err s ?st)) = opened (spec_answer err A)"
    using A(4,6) assms(2) by (simp_all add: res(2) spec_answer_def)
  have "fst ` set rs \<subseteq> dom (opened (spec_answer err A))"
    using assms A(7) by (auto simp: spec_answer_def implements_def)
  then show ?thesis using assms A(1-3) dict unfolding eq implements_def res(1,3,4)
    by (simp add: on_queue_def spec_answer_def)
qed

lemma implements_event:
  assumes "implements A st" "orderly e A st"
  shows "implements (spec_event e A) (api_event e A st)"
proof (cases e)
  case (SAnswer err)
  then show ?thesis using assms(1) implements_answer
    by (cases "awaiting A") (auto simp: spec_event_def api_event_def client_event_def spec_answer_def)
next
  case (SStray err s)
  then show ?thesis using assms implements_stray by (simp add: spec_event_def api_event_def client_event_def)
qed (use assms in \<open>simp_all add: spec_event_def api_event_def client_event_def implements_start implements_stop implements_update
    implements_get\<close>)

lemma implements_run:
  "implements A st \<Longrightarrow> orderly_run es (A, st) \<Longrightarrow> both_run es (A, st) = (A', st') \<Longrightarrow> implements A' st'"
proof (induction es arbitrary: A st)
  case (Cons e es)
  then show ?case using implements_event[of A st e] by simp
qed simp

end
