(* ===== verification/ApiGeofences.thy ===== *)
theory ApiGeofences
  imports ApiInv GeofenceRest
begin

text \<open>
  A client of the location API and the geofence adapter together: the calls of the client are the commands of the adapter
  (gps/location/LocationAPI.cpp and gps/geofence/location_geofence.cpp pass them on), and the answers and breaches
  the adapter reports to the client are its callbacks.
\<close>

section \<open>The system\<close>

datatype geo_op =
    GAdd "u32 list" "geofence_option list" "geofence_info list"
  | GRemove "u32 list"
  | GModify "u32 list" "geofence_option list"
  | GPause "u32 list"
  | GResume "u32 list" "16 word list option"

text \<open>The array of ids that \<open>addGeofencesCommand\<close> returns.\<close>

definition returned_ids :: "nat \<Rightarrow> adapter \<Rightarrow> u32 list option" where
  "returned_ids n ad = (if n = 0 then None else Some (fst (generate_ids n ad)))"

definition client_op :: "geo_op \<Rightarrow> adapter \<Rightarrow> api_client \<Rightarrow> api_client" where
  "client_op oper ad cl =
     (case oper of
        GAdd ids opts infos \<Rightarrow> snd (locAPIAddGeofences ids opts infos (returned_ids (length ids) ad) cl)
      | GRemove ids \<Rightarrow> locAPIRemoveGeofences ids cl
      | GModify ids opts \<Rightarrow> locAPIModifyGeofences ids opts cl
      | GPause ids \<Rightarrow> locAPIPauseGeofences ids cl
      | GResume ids masks \<Rightarrow> locAPIResumeGeofences ids masks cl)"

definition perform :: "ptr \<Rightarrow> client_call \<Rightarrow> adapter \<Rightarrow> adapter option" where
  "perform c call ad =
     (case call of
        ApiAddGeofences n opts infos \<Rightarrow> addGeofencesCommand c n (Some opts) (Some infos) ad
      | ApiRemoveGeofences ss \<Rightarrow> removeGeofencesCommand c (length ss) ss ad
      | ApiModifyGeofences ss opts \<Rightarrow> modifyGeofencesCommand c (length ss) ss (Some opts) ad
      | ApiPauseGeofences ss \<Rightarrow> pauseGeofencesCommand c (length ss) ss ad
      | ApiResumeGeofences ss \<Rightarrow> resumeGeofencesCommand c (length ss) ss ad
      | _ \<Rightarrow> Some ad)"

fun perform_all :: "ptr \<Rightarrow> client_call list \<Rightarrow> adapter \<Rightarrow> adapter option" where
  "perform_all c [] ad = Some ad"
| "perform_all c (call # more_calls) ad = do { ad \<leftarrow> perform c call ad; perform_all c more_calls ad }"

fun deliver_answers ::
    "ptr \<Rightarrow> (nat \<times> ptr \<times> bool \<times> location_error option list \<times> u32 list) list \<Rightarrow> api_client \<Rightarrow> api_client option" where
  "deliver_answers c [] cl = Some cl"
| "deliver_answers c ((b, c', called, errs, ids) # as) cl =
     (if c' = c \<and> called then do { es \<leftarrow> those errs; deliver_answers c as (onCollectiveResponseCb es ids cl) }
      else deliver_answers c as cl)"

definition deliver_breaches :: "ptr \<Rightarrow> (ptr \<times> u32 list \<times> nat) list \<Rightarrow> api_client \<Rightarrow> api_client" where
  "deliver_breaches c bs cl = fold (\<lambda>(c', ids, t). if c' = c then beforeGeofenceBreachCb ids t else (\<lambda>cl. cl)) bs cl"

datatype system_event = Op geo_op | Adapter event

definition system_event :: "ptr \<Rightarrow> system_event \<Rightarrow> api_client \<times> adapter \<Rightarrow> (api_client \<times> adapter) option" where
  "system_event c e sys =
     (let (cl, ad) = sys in
      case e of
        Op oper \<Rightarrow>
          (let cl' = client_op oper ad cl in do {
           ad' \<leftarrow> perform_all c (drop (length (api_calls cl)) (api_calls cl')) ad;
           Some (cl', ad') })
      | Adapter e \<Rightarrow> do {
          ad' \<leftarrow> geofence_event e ad;
          cl' \<leftarrow> deliver_answers c (drop (length (answers ad)) (answers ad')) cl;
          Some (deliver_breaches c (drop (length (breaches ad)) (breaches ad')) cl', ad') })"

fun system_run :: "ptr \<Rightarrow> system_event list \<Rightarrow> api_client \<times> adapter \<Rightarrow> (api_client \<times> adapter) option" where
  "system_run c [] sys = Some sys"
| "system_run c (e # es) sys = do { sys \<leftarrow> system_event c e sys; system_run c es sys }"

lemma system_run_append: "system_run c (es @ es') sys = Option.bind (system_run c es sys) (system_run c es')"
  by (induction es arbitrary: sys) (auto split: Option.bind_split)

section \<open>What processing commands and results leaves alone\<close>

definition listens :: "ptr \<Rightarrow> adapter \<Rightarrow> bool" where
  "listens c st = (case map_of (mClientData st) c of None \<Rightarrow> False | Some cb \<Rightarrow> collectiveResponseCb cb)"

text \<open>The ids of a command stay as they are, and are those of its answer.\<close>

definition keeps :: "adapter \<Rightarrow> adapter \<Rightarrow> bool" where
  "keeps st st' \<longleftrightarrow> mClientData st' = mClientData st \<and> mSessionIdCounter st' = mSessionIdCounter st \<and> breaches st' = breaches st \<and>
     (\<forall>b bk'. blocks st' b = Some bk' \<longrightarrow> (\<exists>bk. blocks st b = Some bk \<and> bk_ids bk = bk_ids bk')) \<and>
     (\<exists>new. answers st' = answers st @ new \<and>
        (\<forall>(b, c, d, errs, ids) \<in> set new. d = listens c st \<and> (\<exists>bk. blocks st b = Some bk \<and> bk_ids bk = ids)))"

lemma keeps_refl [simp]: "keeps st st" by (simp add: keeps_def)

lemma keeps_trans [trans]:
  assumes "keeps a b" "keeps b c"
  shows "keeps a c"
proof -
  obtain n1 where 1: "answers b = answers a @ n1"
    "\<forall>(k, c, d, errs, ids) \<in> set n1. d = listens c a \<and> (\<exists>bk. blocks a k = Some bk \<and> bk_ids bk = ids)"
    using assms(1) by (auto simp: keeps_def)
  obtain n2 where 2: "answers c = answers b @ n2"
    "\<forall>(k, c, d, errs, ids) \<in> set n2. d = listens c b \<and> (\<exists>bk. blocks b k = Some bk \<and> bk_ids bk = ids)"
    using assms(2) by (auto simp: keeps_def)
  have b: "\<exists>bk. blocks a k = Some bk \<and> bk_ids bk = bk_ids bk'" if "blocks b k = Some bk'" for k bk'
    using assms(1) that by (simp add: keeps_def)
  have "listens x b = listens x a" for x using assms(1) by (simp add: keeps_def listens_def)
  then have "\<forall>(k, c, d, errs, ids) \<in> set n2. d = listens c a \<and> (\<exists>bk. blocks a k = Some bk \<and> bk_ids bk = ids)"
    using 2(2) b by (auto; metis)
  then have "answers c = answers a @ (n1 @ n2) \<and>
      (\<forall>(k, c, d, errs, ids) \<in> set (n1 @ n2). d = listens c a \<and> (\<exists>bk. blocks a k = Some bk \<and> bk_ids bk = ids))"
    using 1 2(1) by auto
  moreover have "\<exists>bk. blocks a k = Some bk \<and> bk_ids bk = bk_ids bk'" if "blocks c k = Some bk'" for k bk'
  proof -
    have "\<exists>bk. blocks b k = Some bk \<and> bk_ids bk = bk_ids bk'" using assms(2) that by (simp add: keeps_def)
    then obtain bk where "blocks b k = Some bk" "bk_ids bk = bk_ids bk'" by blast
    then show ?thesis using b by metis
  qed
  moreover have "mClientData c = mClientData a" "mSessionIdCounter c = mSessionIdCounter a" "breaches c = breaches a"
    using assms by (simp_all add: keeps_def)
  ultimately show ?thesis unfolding keeps_def by blast
qed

lemma keeps_same:
  assumes "mClientData st' = mClientData st" "mSessionIdCounter st' = mSessionIdCounter st" "breaches st' = breaches st"
    "blocks st' = blocks st" "answers st' = answers st"
  shows "keeps st st'"
  using assms by (simp add: keeps_def)

lemma keeps_request: "keeps st (request call r st)" by (rule keeps_same) (simp_all add: request_def)

lemma keeps_items:
  "keeps st (saveGeofenceItem client clientId hwId opts info st)" "keeps st (removeGeofenceItem hwId st)"
  "keeps st (update_item hwId f st)"
  by (rule keeps_same; simp add: saveGeofenceItem_def Let_def removeGeofenceItem_def update_item_def split: option.split)+

lemma keeps_set_err: "set_err b i e st = Some st' \<Longrightarrow> keeps st st'"
  by (auto simp: set_err_def keeps_def split: Option.bind_splits if_splits)

lemma keeps_last: "last_item c b i st = Some st' \<Longrightarrow> keeps st st'"
  by (auto simp: last_item_def reportResponse_def keeps_def listens_def Let_def split: Option.bind_splits if_splits)

lemma keeps_fold: "(\<And>x st. keeps st (f x st)) \<Longrightarrow> keeps st (fold f xs st)"
  by (induction xs arbitrary: st) (auto intro: keeps_trans)

lemma keeps_item_call: "item_call oper c b i st = Some st' \<Longrightarrow> keeps st st'"
  by (auto simp: item_call_def split: Option.bind_splits if_splits option.splits
      dest!: keeps_set_err keeps_last intro: keeps_trans keeps_request)

lemma keeps_over: "keeps st s \<Longrightarrow> keeps (update_item hwId f s) st' \<Longrightarrow> keeps st st'"
  by (rule keeps_trans[OF _ keeps_trans[OF keeps_items(3)]])

lemma keeps_item_done: "item_done oper c b i hwId err data st = Some st' \<Longrightarrow> keeps st st'"
  by (cases oper) (auto simp: item_done_def item_defs split: Option.bind_splits if_splits
      dest!: keeps_set_err keeps_last intro: keeps_over keeps_trans keeps_items)

lemma keeps_response:
  assumes "proc_response r err data st = Some st'"
  shows "keeps st st'"
proof (cases r)
  case (StopDone hwId e)
  then show ?thesis using assms by (auto simp: proc_response_def stop_done_def intro!: keeps_same)
next
  case (RestartDone object opts info)
  have "keeps st (saveGeofenceItem cl k data opts info (request call RestartPaused st))" for cl k call
    by (rule keeps_trans[OF keeps_request keeps_items(1)])
  then show ?thesis using assms RestartDone keeps_items(1)
    by (auto simp: proc_response_def restart_done_def Let_def)
qed (use assms in \<open>auto simp: proc_response_def power_done_def item_defs keeps_items intro: keeps_item_call keeps_item_done\<close>)

lemma keeps_proc_geofences: "proc_geofences oper c b st = Some st' \<Longrightarrow> keeps st st'"
proof -
  have fold: "keeps s (fold (\<lambda>i. request CallQueue (ItemCall oper c b i)) is s)" for "is" s
    by (rule keeps_fold) (rule keeps_request)
  have "keeps st (st\<lparr>blocks := (blocks st)(b \<mapsto> bk\<lparr>bk_errs := es\<rparr>)\<rparr>)" if "blocks st b = Some bk" for bk es
    using that by (auto simp: keeps_def)
  note this keeps_trans[OF this fold]
  then show "proc_geofences oper c b st = Some st' \<Longrightarrow> keeps st st'"
    by (auto simp: proc_geofences_def Let_def split: Option.bind_splits if_splits)
qed

section \<open>Serving commands\<close>

text \<open>Only commands and results are queued.\<close>

definition calm :: "adapter \<Rightarrow> bool" where
  "calm st \<longleftrightarrow> (\<forall>m \<in> set (msg_queue st). case m of MsgGeofences oper c b \<Rightarrow> True | LocApiResponse r e d \<Rightarrow> True | _ \<Rightarrow> False)"

definition serving :: "event \<Rightarrow> bool" where
  "serving e \<longleftrightarrow> e = Proc \<or> (\<exists>err data. e = Answer 0 err data)"

lemma same_queue:
  "proc_geofences oper c b st = Some st' \<Longrightarrow> msg_queue st' = msg_queue st"
  "proc_response r err data st = Some st' \<Longrightarrow> msg_queue st' = msg_queue st"
proof -
  show "msg_queue st' = msg_queue st" if "proc_geofences oper c b st = Some st'"
    using queue_plain[of "MsgGeofences oper c b" st st'] that by (simp add: proc_msg_def)
  show "msg_queue st' = msg_queue st" if "proc_response r err data st = Some st'"
    using grows_response[OF that] by (simp add: grows_def)
qed

lemma serving_event:
  assumes "calm st" "serving e" "geofence_event e st = Some st'"
  shows "calm st' \<and> keeps st st'"
proof (cases e)
  case (Answer i err data)
  then have "st' = st \<or> (\<exists>r o'. st' = sendMsg (LocApiResponse r err data) (st\<lparr>outstanding := o'\<rparr>))"
    using assms(3) by (auto simp: geofence_event_def split: if_splits)
  then show ?thesis using assms(1) by (auto simp: calm_def sendMsg_def intro!: keeps_same)
next
  case Proc
  show ?thesis
  proof (cases "msg_queue st")
    case Nil
    then show ?thesis using assms(1,3) Proc by (simp add: geofence_event_def)
  next
    case (Cons m ms)
    have pop: "keeps st (st\<lparr>msg_queue := ms\<rparr>)" by (rule keeps_same) simp_all
    have "proc_msg m (st\<lparr>msg_queue := ms\<rparr>) = Some st'" using assms(3) Proc Cons by (simp add: geofence_event_def)
    moreover have "(\<exists>oper c b. m = MsgGeofences oper c b) \<or> (\<exists>r e d. m = LocApiResponse r e d)"
      using assms(1) Cons by (auto simp: calm_def split: loc_msg.splits)
    ultimately have "keeps (st\<lparr>msg_queue := ms\<rparr>) st' \<and> msg_queue st' = ms"
      using keeps_response keeps_proc_geofences same_queue by (fastforce simp: proc_msg_def)
    then show ?thesis using keeps_trans[OF pop] assms(1) Cons by (simp add: calm_def)
  qed
qed (use assms(2) in \<open>auto simp: serving_def\<close>)

text \<open>What the client is told while commands are served.\<close>

lemma deliver_append:
  "deliver_answers c (as @ bs) cl = Option.bind (deliver_answers c as cl) (deliver_answers c bs)"
  by (induction c as cl rule: deliver_answers.induct) (auto split: Option.bind_split)

lemma serving_run:
  assumes "calm ad" "\<forall>e \<in> set es. serving e" "geofence_run es ad = Some ad'"
  shows "keeps ad ad' \<and> system_run c (map Adapter es) (cl, ad) =
    map_option (\<lambda>cl'. (cl', ad')) (deliver_answers c (drop (length (answers ad)) (answers ad')) cl)"
  using assms
proof (induction es arbitrary: ad cl)
  case (Cons e es)
  obtain ad1 where 1: "geofence_event e ad = Some ad1" "geofence_run es ad1 = Some ad'"
    using Cons.prems(3) by (auto split: Option.bind_splits)
  have k: "calm ad1" "keeps ad ad1" using serving_event[OF Cons.prems(1) _ 1(1)] Cons.prems(2) by auto
  have es: "\<forall>e \<in> set es. serving e" using Cons.prems(2) by simp
  have IH: "keeps ad1 ad'" "\<And>cl. system_run c (map Adapter es) (cl, ad1) =
      map_option (\<lambda>cl'. (cl', ad')) (deliver_answers c (drop (length (answers ad1)) (answers ad')) cl)"
    using Cons.IH[OF k(1) es 1(2)] by auto
  obtain n1 n2 where n: "answers ad1 = answers ad @ n1" "answers ad' = answers ad1 @ n2"
    using k(2) IH(1) by (auto simp: keeps_def)
  have "breaches ad1 = breaches ad" using k(2) by (simp add: keeps_def)
  then have "system_event c (Adapter e) (cl, ad) = map_option (\<lambda>cl'. (cl', ad1)) (deliver_answers c n1 cl)"
    using 1(1) n(1) by (simp add: system_event_def deliver_breaches_def map_option_case split: option.split Option.bind_split)
  then have "system_run c (map Adapter (e # es)) (cl, ad) = map_option (\<lambda>cl'. (cl', ad')) (deliver_answers c (n1 @ n2) cl)"
    using IH(2) n by (simp add: deliver_append map_option_case split: option.split Option.bind_split)
  then show ?case using keeps_trans[OF k(2) IH(1)] n by simp
qed simp

end
