(* ===== verification/ApiRounds.thy ===== *)
theory ApiRounds
  imports ApiGeofences
begin

text \<open>
  A client that waits for the answer to a geofence command before it gives the next: every command is answered with
  exactly one callback, of its kind and with the ids of the client.
\<close>

section \<open>One answer for a command\<close>

abbreviation answered_ops :: "geofence_op set" where
  "answered_ops \<equiv> {AddOp, RemoveOp, PauseOp, ModifyOp}"

definition issued_as :: "ptr \<Rightarrow> u32 list \<Rightarrow> adapter \<Rightarrow> adapter \<Rightarrow> bool" where
  "issued_as c ids ad ad' \<longleftrightarrow> calm ad' \<and> answers ad' = answers ad \<and> breaches ad' = breaches ad \<and> mClientData ad' = mClientData ad \<and>
     (\<exists>bk. blocks ad' (next_block ad) = Some bk \<and> bk_ids bk = ids)"

lemma those_map_Some [simp]: "those (map Some xs) = Some xs"
  by (induction xs) auto

lemma all_Some: "None \<notin> set xs \<Longrightarrow> \<exists>ys. xs = map Some ys"
proof (induction xs)
  case (Cons x xs)
  then obtain y ys where "x = Some y" "xs = map Some ys" by (cases x) auto
  then have "x # xs = map Some (y # ys)" by simp
  then show ?case by (rule exI)
qed simp

lemma filter_new:
  assumes "\<And>x. x \<in> set new \<Longrightarrow> fst x = b" "\<And>x. x \<in> set old \<Longrightarrow> fst x \<noteq> b"
  shows "filter (\<lambda>x. fst x = b) (old @ new) = new"
  using assms by (auto simp: filter_empty_conv filter_id_conv)

lemma one_answer:
  assumes inv: "commands_ok S f ad" and inv': "commands_ok S f' ad'" and rest: "at_rest ad'" and S: "ResumeOp \<notin> S"
    and nb: "next_block ad' = Suc (next_block ad)" and ans: "answers ad' = answers ad @ new"
    and old: "\<And>b. b < next_block ad \<Longrightarrow> answers_of b ad \<noteq> []"
    and own: "owner (f' (next_block ad)) = Some (c, n)"
  shows "\<exists>called errs ids. new = [(next_block ad, c, called, errs, ids)] \<and> length errs = n \<and> length ids = n \<and> None \<notin> set errs"
proof -
  let ?b = "next_block ad"
  have sound: "b < next_block ad'" "answers_of b ad' = [(b, c', called, errs, ids)]"
    if "(b, c', called, errs, ids) \<in> set (answers ad')" for b c' called errs ids
    using answers_sound[OF inv' that] by auto
  have fresh: "fst x \<noteq> ?b" if "x \<in> set (answers ad)" for x
    using answers_sound[OF inv, of "fst x"] that by (cases x) auto
  have new: "fst x = ?b" if x: "x \<in> set new" for x
  proof (rule ccontr)
    assume ne: "fst x \<noteq> ?b"
    obtain b c' called errs ids where eq: "x = (b, c', called, errs, ids)" by (cases x)
    have "b < next_block ad'" "answers_of b ad' = [x]"
      using sound[of b c' called errs ids] x ans eq by simp_all
    then have "answers_of b ad \<noteq> []" "answers_of b ad @ filter (\<lambda>x. fst x = b) new = [x]"
      using old nb ne eq ans by (auto simp: answers_of_def)
    moreover have "filter (\<lambda>x. fst x = b) new \<noteq> []" using x eq by (force simp: filter_empty_conv)
    ultimately show False by (cases "answers_of b ad"; cases "filter (\<lambda>x. fst x = b) new") auto
  qed
  have "answers_of ?b ad' = new" unfolding answers_of_def ans by (rule filter_new[OF new fresh])
  moreover obtain c' n' where "f' ?b = Answered c' n'" using rest_answered[OF inv' rest _ S, of ?b] nb by auto
  moreover have "in_phase (f' ?b) ?b [] [] ad'"
    using inv' rest by (simp add: commands_ok_def in_phases_def at_rest_def pipeline_def)
  ultimately show ?thesis using own by auto
qed

lemma served_once:
  assumes inv: "commands_ok answered_ops f ad" and rest: "at_rest ad" and listens: "listens c ad"
    and e: "event_ok answered_ops e" "issues e = Some (c, length ids)" "geofence_event e ad = Some ad1" "issued_as c ids ad ad1"
    and es: "\<forall>e \<in> set es. serving e" "geofence_run es ad1 = Some ad2" "at_rest ad2"
  shows "\<exists>f2 errs. commands_ok answered_ops f2 ad2 \<and> length errs = length ids \<and> mClientData ad2 = mClientData ad \<and>
    mSessionIdCounter ad2 = mSessionIdCounter ad1 \<and>
    system_run c (map Adapter es) (cl, ad1) = Some (onCollectiveResponseCb errs ids cl, ad2)"
proof -
  have ok: "\<forall>x \<in> set (e # es). event_ok answered_ops x" using e(1) es(1) by (auto simp: serving_def)
  have "issued es = []" using es(1) by (induction es) (auto simp: issued_def serving_def)
  then have "issued (e # es) = [(c, length ids)]" using e(2) by (simp add: issued_def)
  moreover have "geofence_run (e # es) ad = Some ad2" using e(3) es(2) by simp
  ultimately obtain f2 where f2: "commands_ok answered_ops f2 ad2" "owners f2 ad2 = owners f ad @ [Some (c, length ids)]"
    using run_ok[OF inv ok] by auto
  have calm: "calm ad1" "answers ad1 = answers ad" "mClientData ad1 = mClientData ad" using e(4) by (auto simp: issued_as_def)
  note served = serving_run[OF calm(1) es(1,2), of c cl]
  then obtain new where new: "answers ad2 = answers ad1 @ new"
    "\<forall>(b, c, d, errs, ids) \<in> set new. d = listens c ad1 \<and> (\<exists>bk. blocks ad1 b = Some bk \<and> bk_ids bk = ids)"
    by (auto simp: keeps_def)
  have nb: "next_block ad2 = Suc (next_block ad)" using arg_cong[OF f2(2), of length] by (simp add: owners_def)
  have own: "owner (f2 (next_block ad)) = Some (c, length ids)"
    using arg_cong[OF f2(2), of "\<lambda>xs. xs ! next_block ad"] nb by (simp add: owners_def nth_append)
  have old: "answers_of b ad \<noteq> []" if b: "b < next_block ad" for b
  proof -
    obtain c' n where "f b = Answered c' n" using rest_answered[OF inv rest b] by auto
    moreover have "in_phase (f b) b (items b (pipeline ad)) (queued b (msg_queue ad)) ad"
      using inv by (simp add: commands_ok_def in_phases_def)
    ultimately show ?thesis by auto
  qed
  obtain called errs ids' where one: "new = [(next_block ad, c, called, errs, ids')]" "length errs = length ids" "None \<notin> set errs"
    using one_answer[OF inv f2(1) es(3) _ nb _ old own, of new] new(1) calm(2) by auto
  have "called = listens c ad1 \<and> (\<exists>bk. blocks ad1 (next_block ad) = Some bk \<and> bk_ids bk = ids')" using new(2) one(1) by simp
  moreover have "listens c ad1" using listens calm(3) by (simp add: listens_def)
  ultimately have "called" "ids' = ids" using e(4) by (auto simp: issued_as_def)
  moreover obtain es' where "errs = map Some es'" using all_Some[OF one(3)] by blast
  moreover have "mClientData ad2 = mClientData ad" "mSessionIdCounter ad2 = mSessionIdCounter ad1"
    using served calm(3) by (simp_all add: keeps_def)
  ultimately show ?thesis using f2(1) served one new(1) by auto
qed

section \<open>The sessions of new geofences\<close>

lemma unat_suc_below: "unat (k :: u32) + 1 < 2 ^ 32 \<Longrightarrow> unat (k + 1) = unat k + 1"
  by (simp add: unat_plus_if_size word_size)

lemma generate_ids_new:
  assumes "generate_ids n ad = (ids, ad')" "unat (mSessionIdCounter ad) + n < 2 ^ 32 - 1"
  shows "distinct ids \<and> (\<forall>s \<in> set ids. mSessionIdCounter ad < s \<and> s \<le> mSessionIdCounter ad') \<and>
    unat (mSessionIdCounter ad') = unat (mSessionIdCounter ad) + n"
  using assms
proof (induction n arbitrary: ad ids)
  case (Suc n)
  let ?k = "mSessionIdCounter ad + 1"
  have k: "unat ?k = unat (mSessionIdCounter ad) + 1" using Suc.prems(2) by (intro unat_suc_below) simp
  have "?k \<noteq> 0xFFFFFFFF"
  proof
    assume "?k = 0xFFFFFFFF"
    then have "unat ?k = 2 ^ 32 - 1" by simp
    then show False using k Suc.prems(2) by simp
  qed
  then have gen: "generateSessionId ad = (?k, ad\<lparr>mSessionIdCounter := ?k\<rparr>)" by (simp add: generateSessionId_def Let_def)
  obtain rest where rest: "generate_ids n (ad\<lparr>mSessionIdCounter := ?k\<rparr>) = (rest, ad')" "ids = ?k # rest"
    using Suc.prems(1) gen by (auto split: prod.splits)
  have "distinct rest \<and> (\<forall>s \<in> set rest. ?k < s \<and> s \<le> mSessionIdCounter ad') \<and> unat (mSessionIdCounter ad') = unat ?k + n"
    using Suc.IH[OF rest(1)] Suc.prems(2) k by simp
  then show ?case using rest(2) k by (auto simp: word_less_nat_alt word_le_nat_alt)
qed simp

text \<open>Half of what is known of the two maps survives a geofence that is added a second time.\<close>

definition half_ok :: "'e bidict \<Rightarrow> bool" where
  "half_ok d \<longleftrightarrow> map_ok (mForwardMap d) \<and> map_ok (mBackwardMap d) \<and>
     (\<forall>i s. map_of (mForwardMap d) i = Some s \<longrightarrow> map_of (mBackwardMap d) s = Some i \<and> s \<noteq> 0)"

lemma half_ok_set:
  assumes "half_ok d" "s \<noteq> 0" "map_of (mBackwardMap d) s = None \<or> map_of (mBackwardMap d) s = Some i"
  shows "half_ok (bidict_set i s e d)"
    "map_of (mForwardMap (bidict_set i s e d)) = (map_of (mForwardMap d))(i \<mapsto> s)"
    "map_of (mBackwardMap (bidict_set i s e d)) = (map_of (mBackwardMap d))(s \<mapsto> i)"
proof -
  have ok: "map_ok (mForwardMap d)" "map_ok (mBackwardMap d)" using assms(1) by (auto simp: half_ok_def)
  show f: "map_of (mForwardMap (bidict_set i s e d)) = (map_of (mForwardMap d))(i \<mapsto> s)"
    and b: "map_of (mBackwardMap (bidict_set i s e d)) = (map_of (mBackwardMap d))(s \<mapsto> i)"
    by (auto simp: bidict_set_def omap.find_set[OF ok(1)] omap.find_set[OF ok(2)])
  have "map_ok (mForwardMap (bidict_set i s e d))" "map_ok (mBackwardMap (bidict_set i s e d))"
    by (simp_all add: bidict_set_def omap.inv_set ok)
  then show "half_ok (bidict_set i s e d)" using assms unfolding half_ok_def f b by auto
qed

lemma half_ok_drop:
  assumes "half_ok d" "map_of (mForwardMap d) i = Some s"
  shows "half_ok (rmBySession s d)" "map_of (mForwardMap (rmBySession s d)) = (map_of (mForwardMap d))(i := None)"
    "map_of (mBackwardMap (rmBySession s d)) = (map_of (mBackwardMap d))(s := None)"
proof -
  have ok: "map_ok (mForwardMap d)" "map_ok (mBackwardMap d)" "map_of (mBackwardMap d) s = Some i"
    using assms by (auto simp: half_ok_def)
  have eq: "rmBySession s d = d\<lparr>mForwardMap := map_erase i (mForwardMap d), mBackwardMap := map_erase s (mBackwardMap d),
      mExtMap := map_erase s (mExtMap d)\<rparr>" using rmBySession_there[OF ok(3)] .
  show f: "map_of (mForwardMap (rmBySession s d)) = (map_of (mForwardMap d))(i := None)"
    and b: "map_of (mBackwardMap (rmBySession s d)) = (map_of (mBackwardMap d))(s := None)"
    by (auto simp: eq map_of_erase)
  have "map_of (mForwardMap d) j \<noteq> Some s" if "j \<noteq> i" for j
  proof
    assume "map_of (mForwardMap d) j = Some s"
    then have "map_of (mBackwardMap d) s = Some j" using assms(1) by (simp add: half_ok_def)
    then show False using ok(3) that by simp
  qed
  then show "half_ok (rmBySession s d)" using assms(1) ok(1,2) unfolding half_ok_def f b
    by (auto simp: eq map_ok_erase)
qed

lemma enter_geofences_sessions:
  assumes "half_ok d" "distinct ss" "length ids = length ss" "length opts = length ss"
    "\<forall>s \<in> set ss. s \<noteq> 0 \<and> map_of (mBackwardMap d) s = None"
  shows "half_ok (enter_geofences ids ss opts d) \<and>
    dom (map_of (mForwardMap (enter_geofences ids ss opts d))) = dom (map_of (mForwardMap d)) \<union> set ids \<and>
    dom (map_of (mBackwardMap (enter_geofences ids ss opts d))) = dom (map_of (mBackwardMap d)) \<union> set ss \<and>
    (\<forall>t. t \<notin> set ss \<longrightarrow> map_of (mBackwardMap (enter_geofences ids ss opts d)) t = map_of (mBackwardMap d) t) \<and>
    map (\<lambda>s. getId s (enter_geofences ids ss opts d)) ss = ids"
  using assms
proof (induction ids ss opts d rule: enter_geofences.induct)
  case (1 i "is" s ss opt opts d)
  have s: "s \<noteq> 0" "map_of (mBackwardMap d) s = None" using "1.prems"(5) by auto
  let ?d = "bidict_set i s (o_breachTypeMask opt) d"
  note d = half_ok_set[OF "1.prems"(1) s(1) disjI1[OF s(2)], of i "o_breachTypeMask opt"]
  have "\<forall>t \<in> set ss. t \<noteq> 0 \<and> map_of (mBackwardMap ?d) t = None" using "1.prems"(2,5) by (auto simp: d(3))
  then have IH: "half_ok (enter_geofences is ss opts ?d)"
    "dom (map_of (mForwardMap (enter_geofences is ss opts ?d))) = dom (map_of (mForwardMap ?d)) \<union> set is"
    "dom (map_of (mBackwardMap (enter_geofences is ss opts ?d))) = dom (map_of (mBackwardMap ?d)) \<union> set ss"
    "\<forall>t. t \<notin> set ss \<longrightarrow> map_of (mBackwardMap (enter_geofences is ss opts ?d)) t = map_of (mBackwardMap ?d) t"
    "map (\<lambda>s. getId s (enter_geofences is ss opts ?d)) ss = is"
    using "1.IH"[OF d(1)] "1.prems"(2-4) by auto
  have "getId s (enter_geofences is ss opts ?d) = i" using IH(4) "1.prems"(2) by (simp add: getId_def d(3))
  then show ?case using IH "1.prems"(2) by (auto simp: d(2,3))
qed simp_all

section \<open>Rounds\<close>

definition idle :: "ptr \<Rightarrow> u32 set \<Rightarrow> (nat \<Rightarrow> phase) \<Rightarrow> api_client \<times> adapter \<Rightarrow> bool" where
  "idle c K f sys \<longleftrightarrow> (case sys of (cl, ad) \<Rightarrow>
     mLocationAPI cl \<and> mQueue (mRequestQueues cl REQUEST_GEOFENCE) = [] \<and>
     (mSession (mRequestQueues cl REQUEST_GEOFENCE) = GEOFENCE_SESSION_ID \<or> K = {}) \<and>
     half_ok (mGeofenceBiDict cl) \<and> dom (map_of (mForwardMap (mGeofenceBiDict cl))) = K \<and>
     (\<forall>s \<in> dom (map_of (mBackwardMap (mGeofenceBiDict cl))). s \<le> mSessionIdCounter ad) \<and>
     commands_ok answered_ops f ad \<and> at_rest ad \<and> listens c ad)"

text \<open>The commands considered: any number of geofences to add, one for the others, with the arrays they need.\<close>

fun op_ok :: "geo_op \<Rightarrow> bool" where
  "op_ok (GAdd ids opts infos) \<longleftrightarrow> length opts = length ids \<and> length infos = length ids"
| "op_ok (GRemove ids) \<longleftrightarrow> length ids = 1"
| "op_ok (GModify ids opts) \<longleftrightarrow> length ids = 1 \<and> length opts = 1"
| "op_ok (GPause ids) \<longleftrightarrow> length ids = 1"
| "op_ok (GResume ids masks) \<longleftrightarrow> False"

fun adds :: "geo_op \<Rightarrow> nat" where
  "adds (GAdd ids opts infos) = length ids"
| "adds _ = 0"

text \<open>What the client is told, and which geofences it has afterwards.\<close>

fun answer_to :: "u32 set \<Rightarrow> geo_op \<Rightarrow> (geofence_op \<times> u32 list) list" where
  "answer_to K (GAdd ids opts infos) = (if ids = [] then [] else [(AddOp, ids)])"
| "answer_to K (GRemove ids) = (if set ids \<subseteq> K then [(RemoveOp, ids)] else [])"
| "answer_to K (GModify ids opts) = (if set ids \<subseteq> K then [(ModifyOp, ids)] else [])"
| "answer_to K (GPause ids) = (if set ids \<subseteq> K then [(PauseOp, ids)] else [])"
| "answer_to K (GResume ids masks) = []"

fun known_after :: "u32 set \<Rightarrow> geo_op \<Rightarrow> u32 set" where
  "known_after K (GAdd ids opts infos) = K \<union> set ids"
| "known_after K (GRemove ids) = K - set ids"
| "known_after K _ = K"

definition geofence_answer :: "client_cb \<Rightarrow> (geofence_op \<times> u32 list) option" where
  "geofence_answer cb = (case cb of
     OnAddGeofences errs ids \<Rightarrow> Some (AddOp, ids) | OnRemoveGeofences errs ids \<Rightarrow> Some (RemoveOp, ids)
   | OnModifyGeofences errs ids \<Rightarrow> Some (ModifyOp, ids) | OnPauseGeofences errs ids \<Rightarrow> Some (PauseOp, ids)
   | OnResumeGeofences errs ids \<Rightarrow> Some (ResumeOp, ids) | _ \<Rightarrow> None)"

lemma issued_add:
  assumes "at_rest ad" "0 < n" "length opts = n" "length infos = n" "generate_ids n ad = (ids, s)"
  shows "\<exists>ad'. geofence_event (AddGeofences c n (Some opts) (Some infos)) ad = Some ad' \<and> issued_as c ids ad ad' \<and>
    mSessionIdCounter ad' = mSessionIdCounter s"
proof -
  obtain k where "s = ad\<lparr>mSessionIdCounter := k\<rparr>" using generate_ids[OF assms(5)] by blast
  then show ?thesis using assms
    by (simp add: geofence_event_def addGeofencesCommand_def copy_if_not_null_def copy_array_def new_block_def issued_as_def
        calm_def at_rest_def sendMsg_def)
qed

lemma issued_other:
  assumes "at_rest ad" "oper = ModifyOp \<Longrightarrow> length opts = 1"
  shows "\<exists>ad'. geofencesCommand oper c (Suc 0) [s] (if oper = ModifyOp then Some opts else None) ad = Some ad' \<and>
    issued_as c [s] ad ad' \<and> mSessionIdCounter ad' = mSessionIdCounter ad"
  using assms by (simp add: geofencesCommand_def copy_if_not_null_def copy_array_def new_block_def issued_as_def
      calm_def at_rest_def sendMsg_def)

section \<open>A command of the client\<close>

text \<open>What the request at the head of the queue makes of an answer.\<close>

definition told_as :: "api_request \<Rightarrow> u32 list \<Rightarrow> 16 word bidict \<Rightarrow> (geofence_op \<times> u32 list) option" where
  "told_as r ss d = (case r of
     AddGeofencesRequest \<Rightarrow> Some (AddOp, map (\<lambda>s. getId s d) ss)
   | RemoveGeofencesRequest removed \<Rightarrow> Some (RemoveOp, map (\<lambda>s. getId s removed) ss)
   | ModifyGeofencesRequest \<Rightarrow> Some (ModifyOp, map (\<lambda>s. getId s d) ss)
   | PauseGeofencesRequest \<Rightarrow> Some (PauseOp, map (\<lambda>s. getId s d) ss)
   | ResumeGeofencesRequest \<Rightarrow> Some (ResumeOp, map (\<lambda>s. getId s d) ss)
   | _ \<Rightarrow> None)"

definition client_keeps :: "u32 set \<Rightarrow> api_client \<Rightarrow> u32 \<Rightarrow> bool" where
  "client_keeps K cl k \<longleftrightarrow> mLocationAPI cl \<and> half_ok (mGeofenceBiDict cl) \<and>
     dom (map_of (mForwardMap (mGeofenceBiDict cl))) = K \<and> (\<forall>s \<in> dom (map_of (mBackwardMap (mGeofenceBiDict cl))). s \<le> k)"

definition asks :: "ptr \<Rightarrow> u32 set \<Rightarrow> geofence_op \<times> u32 list \<Rightarrow> adapter \<Rightarrow> api_client \<times> adapter \<Rightarrow> bool" where
  "asks c K a ad sys' \<longleftrightarrow> (case sys' of (cl', ad') \<Rightarrow>
     client_keeps K cl' (mSessionIdCounter ad') \<and> mSession (mRequestQueues cl' REQUEST_GEOFENCE) = GEOFENCE_SESSION_ID \<and>
     (\<exists>e ss r. event_ok answered_ops e \<and> issues e = Some (c, length ss) \<and> geofence_event e ad = Some ad' \<and> issued_as c ss ad ad' \<and>
        mQueue (mRequestQueues cl' REQUEST_GEOFENCE) = [r] \<and> told_as r ss (mGeofenceBiDict cl') = Some a))"

lemma asksI:
  assumes "client_keeps K cl' (mSessionIdCounter ad')" "mSession (mRequestQueues cl' REQUEST_GEOFENCE) = GEOFENCE_SESSION_ID"
    "event_ok answered_ops e" "issues e = Some (c, length ss)" "geofence_event e ad = Some ad'" "issued_as c ss ad ad'"
    "mQueue (mRequestQueues cl' REQUEST_GEOFENCE) = [r]" "told_as r ss (mGeofenceBiDict cl') = Some a"
  shows "asks c K a ad (cl', ad')"
  using assms unfolding asks_def by blast

lemma idle_fields:
  assumes "idle c K f (cl, ad)"
  shows "client_keeps K cl (mSessionIdCounter ad)" "mQueue (mRequestQueues cl REQUEST_GEOFENCE) = []"
    "mSession (mRequestQueues cl REQUEST_GEOFENCE) = GEOFENCE_SESSION_ID \<or> K = {}" "at_rest ad"
    "commands_ok answered_ops f ad" "listens c ad"
  using assms by (auto simp: idle_def client_keeps_def)

lemmas client_defs = call_api_def on_queue_def queue_push_def queue_reset_def geofence_request_def

lemma op_add:
  assumes "idle c K f (cl, ad)" "length opts = length ids" "length infos = length ids" "ids \<noteq> []"
    "unat (mSessionIdCounter ad) + length ids < 2 ^ 32 - 1"
  shows "\<exists>cl' ad'. system_event c (Op (GAdd ids opts infos)) (cl, ad) = Some (cl', ad') \<and> client_cbs cl' = client_cbs cl \<and>
    unat (mSessionIdCounter ad') = unat (mSessionIdCounter ad) + length ids \<and> asks c (K \<union> set ids) (AddOp, ids) ad (cl', ad')"
proof -
  note idle = idle_fields[OF assms(1)]
  let ?n = "length ids"
  obtain ss s where gen: "generate_ids ?n ad = (ss, s)" by fastforce
  have len: "length ss = ?n" using generate_ids[OF gen] by simp
  note new = generate_ids_new[OF gen assms(5)]
  obtain ad' where ad': "geofence_event (AddGeofences c ?n (Some opts) (Some infos)) ad = Some ad'" "issued_as c ss ad ad'"
    "mSessionIdCounter ad' = mSessionIdCounter s"
    using issued_add[OF idle(4) _ assms(2,3) gen] assms(4) by auto
  let ?d = "mGeofenceBiDict cl"
  let ?cl = "snd (locAPIAddGeofences ids opts infos (Some ss) cl)"
  have cl: "mLocationAPI cl" "half_ok ?d" "dom (map_of (mForwardMap ?d)) = K"
    "\<And>t. map_of (mBackwardMap ?d) t \<noteq> None \<Longrightarrow> t \<le> mSessionIdCounter ad"
    using idle(1) by (auto simp: client_keeps_def)
  have fresh: "\<forall>t \<in> set ss. t \<noteq> 0 \<and> map_of (mBackwardMap ?d) t = None"
  proof
    fix t assume "t \<in> set ss"
    then have "mSessionIdCounter ad < t" using new by blast
    then show "t \<noteq> 0 \<and> map_of (mBackwardMap ?d) t = None" using cl(4)[of t] by (cases "map_of (mBackwardMap ?d) t") auto
  qed
  note enter = enter_geofences_sessions[OF cl(2) _ _ _ fresh, of ids opts]
  have enter: "half_ok (enter_geofences ids ss opts ?d)"
    "dom (map_of (mForwardMap (enter_geofences ids ss opts ?d))) = K \<union> set ids"
    "dom (map_of (mBackwardMap (enter_geofences ids ss opts ?d))) = dom (map_of (mBackwardMap ?d)) \<union> set ss"
    "map (\<lambda>s. getId s (enter_geofences ids ss opts ?d)) ss = ids"
    using enter new len assms(2) cl(3) by auto
  have f: "mGeofenceBiDict ?cl = enter_geofences ids ss opts ?d" "mLocationAPI ?cl" "client_cbs ?cl = client_cbs cl"
    "mSession (mRequestQueues ?cl REQUEST_GEOFENCE) = GEOFENCE_SESSION_ID"
    "mQueue (mRequestQueues ?cl REQUEST_GEOFENCE) = [AddGeofencesRequest]"
    "drop (length (api_calls cl)) (api_calls ?cl) = [ApiAddGeofences ?n opts infos]"
    using cl(1) idle(2) by (simp_all add: locAPIAddGeofences_def Let_def client_defs)
  have "perform_all c [ApiAddGeofences ?n opts infos] ad = Some ad'" using ad'(1) by (simp add: perform_def geofence_event_def)
  then have sys: "system_event c (Op (GAdd ids opts infos)) (cl, ad) = Some (?cl, ad')"
    using f(6) gen assms(4) by (simp add: system_event_def client_op_def returned_ids_def)
  have "mSessionIdCounter ad \<le> mSessionIdCounter s" using new by (simp add: word_le_nat_alt)
  then have "t \<le> mSessionIdCounter s" if "t \<in> dom (map_of (mBackwardMap ?d)) \<union> set ss" for t
    using that new cl(4)[of t] by (cases "t \<in> set ss") (auto dest: order_trans)
  then have "client_keeps (K \<union> set ids) ?cl (mSessionIdCounter ad')"
    using f(1,2) enter(1-3) ad'(3) by (simp add: client_keeps_def)
  moreover have "event_ok answered_ops (AddGeofences c ?n (Some opts) (Some infos))" using assms(2,3) by (simp add: has_elements_def)
  moreover have "issues (AddGeofences c ?n (Some opts) (Some infos)) = Some (c, length ss)" using assms(4) len by simp
  moreover have "told_as AddGeofencesRequest ss (mGeofenceBiDict ?cl) = Some (AddOp, ids)" using f(1) enter(4) by (simp add: told_as_def)
  ultimately have "asks c (K \<union> set ids) (AddOp, ids) ad (?cl, ad')"
    using asksI[OF _ f(4) _ _ ad'(1,2) f(5)] by blast
  then show ?thesis using sys f(3) ad'(3) new by auto
qed

text \<open>The other commands: of a geofence the client does not know nothing comes.\<close>

lemma known_session:
  assumes "idle c K f (cl, ad)" "i \<in> K"
  obtains s where "getSession i (mGeofenceBiDict cl) = s" "s > 0" "map_of (mForwardMap (mGeofenceBiDict cl)) i = Some s"
    "map_of (mBackwardMap (mGeofenceBiDict cl)) s = Some i" "geofences_ready cl"
proof -
  note idle = idle_fields[OF assms(1)]
  obtain s where "map_of (mForwardMap (mGeofenceBiDict cl)) i = Some s" using idle(1) assms(2) by (auto simp: client_keeps_def)
  moreover from this have "map_of (mBackwardMap (mGeofenceBiDict cl)) s = Some i" "s \<noteq> 0"
    using idle(1) by (auto simp: client_keeps_def half_ok_def)
  ultimately show ?thesis using that idle(1,3) assms(2)
    by (auto simp: getSession_def word_gt_0 geofences_ready_def client_keeps_def)
qed

lemma unknown_session:
  assumes "idle c K f (cl, ad)" "i \<notin> K"
  shows "getSession i (mGeofenceBiDict cl) = 0"
proof -
  have "map_of (mForwardMap (mGeofenceBiDict cl)) i = None" using idle_fields(1)[OF assms(1)] assms(2)
    by (auto simp: client_keeps_def domIff)
  then show ?thesis by (simp add: getSession_def)
qed

text \<open>The three operations on one geofence have this in common.\<close>

lemma op_one:
  assumes idle: "idle c K f (cl, ad)" and oper: "oper \<in> {RemoveOp, ModifyOp, PauseOp}" and opts: "oper = ModifyOp \<Longrightarrow> length opts = 1"
    and ev: "event_ok answered_ops e" "issues e = Some (c, 1)"
      "geofence_event e ad = geofencesCommand oper c (Suc 0) [s] (if oper = ModifyOp then Some opts else None) ad"
    and op: "client_op op ad cl = geofence_request r call (cl\<lparr>mGeofenceBiDict := d\<rparr>)" "\<And>ad. perform c call ad = geofence_event e ad"
    and d: "client_keeps K' (cl\<lparr>mGeofenceBiDict := d\<rparr>) (mSessionIdCounter ad)" "told_as r [s] d = Some a"
    and ready: "geofences_ready cl"
  shows "\<exists>cl' ad'. system_event c (Op op) (cl, ad) = Some (cl', ad') \<and> client_cbs cl' = client_cbs cl \<and>
    mSessionIdCounter ad' = mSessionIdCounter ad \<and> asks c K' a ad (cl', ad')"
proof -
  note fields = idle_fields[OF idle]
  obtain ad' where ad': "geofence_event e ad = Some ad'" "issued_as c [s] ad ad'" "mSessionIdCounter ad' = mSessionIdCounter ad"
    using issued_other[OF fields(4) opts, of oper c s] ev(3) by auto
  let ?cl = "geofence_request r call (cl\<lparr>mGeofenceBiDict := d\<rparr>)"
  have "system_event c (Op op) (cl, ad) = Some (?cl, ad')"
    using op ad'(1) by (simp add: system_event_def client_defs)
  moreover have "client_keeps K' ?cl (mSessionIdCounter ad')" using d(1) ad'(3) by (simp add: client_keeps_def client_defs)
  moreover have "mSession (mRequestQueues ?cl REQUEST_GEOFENCE) = GEOFENCE_SESSION_ID"
    "mQueue (mRequestQueues ?cl REQUEST_GEOFENCE) = [r]" "mGeofenceBiDict ?cl = d" "client_cbs ?cl = client_cbs cl"
    using ready fields(2) by (simp_all add: client_defs geofences_ready_def)
  moreover from calculation have "asks c K' a ad (?cl, ad')"
    using asksI[OF _ _ ev(1) _ ad'(1,2)] ev(2) d(2) by simp
  ultimately show ?thesis using ad'(3) by blast
qed

lemma op_unknown:
  assumes idle: "idle c K f (cl, ad)" and "i \<notin> K" "oper = GRemove [i] \<or> oper = GModify [i] [opt] \<or> oper = GPause [i]"
  shows "system_event c (Op oper) (cl, ad) = Some (cl, ad)"
proof -
  have "client_op oper ad cl = cl"
    using unknown_session[OF assms(1,2)] assms(3)
    by (auto simp: client_op_def locAPIRemoveGeofences_def locAPIModifyGeofences_def locAPIPauseGeofences_def)
  then show ?thesis by (simp add: system_event_def)
qed

lemma op_step:
  assumes idle: "idle c K f (cl, ad)" and ok: "op_ok oper" and room: "unat (mSessionIdCounter ad) + adds oper < 2 ^ 32 - 1"
  shows "\<exists>cl' ad'. system_event c (Op oper) (cl, ad) = Some (cl', ad') \<and> client_cbs cl' = client_cbs cl \<and>
    unat (mSessionIdCounter ad') = unat (mSessionIdCounter ad) + adds oper \<and>
    (answer_to K oper = [] \<and> idle c (known_after K oper) f (cl', ad') \<or>
     (\<exists>a. answer_to K oper = [a] \<and> asks c (known_after K oper) a ad (cl', ad')))"
proof (cases oper)
  case (GAdd ids opts infos)
  show ?thesis
  proof (cases "ids = []")
    case True
    let ?cl = "snd (locAPIAddGeofences ids opts infos None cl)"
    have "system_event c (Op oper) (cl, ad) = Some (?cl, ad)" "client_cbs ?cl = client_cbs cl"
      using True GAdd idle_fields(1)[OF idle]
      by (simp_all add: system_event_def client_op_def returned_ids_def perform_def addGeofencesCommand_def
          locAPIAddGeofences_def Let_def client_defs)
    moreover have "idle c K f (?cl, ad)" using idle by (simp add: idle_def locAPIAddGeofences_def Let_def client_defs)
    ultimately show ?thesis using True GAdd by simp
  next
    case False
    then show ?thesis using op_add[OF idle _ _ False, of opts infos] ok room GAdd by auto
  qed
next
  case (GResume ids masks)
  then show ?thesis using ok by simp
next
  case (GRemove ids)
  then obtain i where i: "ids = [i]" using ok by (auto simp: length_Suc_conv)
  show ?thesis
  proof (cases "i \<in> K")
    case True
    obtain s where s: "getSession i (mGeofenceBiDict cl) = s" "s > 0" "map_of (mForwardMap (mGeofenceBiDict cl)) i = Some s"
      "map_of (mBackwardMap (mGeofenceBiDict cl)) s = Some i" "geofences_ready cl" using known_session[OF idle True] .
    note keeps = idle_fields(1)[OF idle]
    have half: "half_ok (mGeofenceBiDict cl)" using keeps by (simp add: client_keeps_def)
    note drop = half_ok_drop[OF half s(3)]
    let ?r = "RemoveGeofencesRequest (bidict_set i s (getExtBySession 0 s (mGeofenceBiDict cl)) bidict_new)"
    have "client_op oper ad cl = geofence_request ?r (ApiRemoveGeofences [s]) (cl\<lparr>mGeofenceBiDict := rmBySession s (mGeofenceBiDict cl)\<rparr>)"
      using s GRemove i by (simp add: client_op_def locAPIRemoveGeofences_def Let_def)
    moreover have "client_keeps (K - {i}) (cl\<lparr>mGeofenceBiDict := rmBySession s (mGeofenceBiDict cl)\<rparr>) (mSessionIdCounter ad)"
      using keeps drop by (auto simp: client_keeps_def)
    moreover have "told_as ?r [s] (rmBySession s (mGeofenceBiDict cl)) = Some (RemoveOp, [i])"
      by (simp add: told_as_def getId_def bidict_set_def bidict_new_def)
    ultimately show ?thesis
      using op_one[OF idle, of RemoveOp "[]" "RemoveGeofences c 1 [s]" s oper ?r "ApiRemoveGeofences [s]"
          "rmBySession s (mGeofenceBiDict cl)" "K - {i}" "(RemoveOp, [i])"] True GRemove i s(5)
      by (auto simp: perform_def geofence_event_def removeGeofencesCommand_def)
  next
    case False
    then show ?thesis using op_unknown[OF idle False] idle GRemove i by auto
  qed
next
  case (GModify ids opts)
  then obtain i opt where i: "ids = [i]" "opts = [opt]" using ok by (auto simp: length_Suc_conv)
  show ?thesis
  proof (cases "i \<in> K")
    case True
    obtain s where s: "getSession i (mGeofenceBiDict cl) = s" "s > 0" "map_of (mForwardMap (mGeofenceBiDict cl)) i = Some s"
      "map_of (mBackwardMap (mGeofenceBiDict cl)) s = Some i" "geofences_ready cl" using known_session[OF idle True] .
    note keeps = idle_fields(1)[OF idle]
    have half: "half_ok (mGeofenceBiDict cl)" "s \<noteq> 0" using keeps s(2) by (auto simp: client_keeps_def)
    let ?d = "bidict_set i s (o_breachTypeMask opt) (mGeofenceBiDict cl)"
    note set = half_ok_set[OF half disjI2[OF s(4)], of "o_breachTypeMask opt"]
    have "client_op oper ad cl = geofence_request ModifyGeofencesRequest (ApiModifyGeofences [s] opts) (cl\<lparr>mGeofenceBiDict := ?d\<rparr>)"
      using s GModify i by (simp add: client_op_def locAPIModifyGeofences_def Let_def)
    moreover have "client_keeps K (cl\<lparr>mGeofenceBiDict := ?d\<rparr>) (mSessionIdCounter ad)"
      using keeps set s(4) True by (auto simp: client_keeps_def)
    moreover have "told_as ModifyGeofencesRequest [s] ?d = Some (ModifyOp, [i])"
      by (simp add: told_as_def getId_def set(3))
    ultimately show ?thesis
      using op_one[OF idle, of ModifyOp opts "ModifyGeofences c 1 [s] (Some opts)" s oper ModifyGeofencesRequest
          "ApiModifyGeofences [s] opts" ?d K "(ModifyOp, [i])"] True GModify i s(5)
      by (auto simp: perform_def geofence_event_def modifyGeofencesCommand_def has_elements_def)
  next
    case False
    then show ?thesis using op_unknown[OF idle False] idle GModify i by auto
  qed
next
  case (GPause ids)
  then obtain i where i: "ids = [i]" using ok by (auto simp: length_Suc_conv)
  show ?thesis
  proof (cases "i \<in> K")
    case True
    obtain s where s: "getSession i (mGeofenceBiDict cl) = s" "s > 0" "map_of (mForwardMap (mGeofenceBiDict cl)) i = Some s"
      "map_of (mBackwardMap (mGeofenceBiDict cl)) s = Some i" "geofences_ready cl" using known_session[OF idle True] .
    have "client_op oper ad cl = geofence_request PauseGeofencesRequest (ApiPauseGeofences [s]) (cl\<lparr>mGeofenceBiDict := mGeofenceBiDict cl\<rparr>)"
      using s GPause i by (simp add: client_op_def locAPIPauseGeofences_def Let_def)
    moreover have "client_keeps K (cl\<lparr>mGeofenceBiDict := mGeofenceBiDict cl\<rparr>) (mSessionIdCounter ad)"
      using idle_fields(1)[OF idle] by simp
    moreover have "told_as PauseGeofencesRequest [s] (mGeofenceBiDict cl) = Some (PauseOp, [i])"
      using s(4) by (simp add: told_as_def getId_def)
    ultimately show ?thesis
      using op_one[OF idle, of PauseOp "[]" "PauseGeofences c 1 [s]" s oper PauseGeofencesRequest
          "ApiPauseGeofences [s]" "mGeofenceBiDict cl" K "(PauseOp, [i])"] True GPause i s(5)
      by (auto simp: perform_def geofence_event_def pauseGeofencesCommand_def)
  next
    case False
    then show ?thesis using op_unknown[OF idle False] idle GPause i by auto
  qed
qed

section \<open>Its answer\<close>

definition answer_cb :: "geofence_op \<times> u32 list \<Rightarrow> location_error list \<Rightarrow> client_cb" where
  "answer_cb a errs = (case fst a of AddOp \<Rightarrow> OnAddGeofences errs (snd a) | RemoveOp \<Rightarrow> OnRemoveGeofences errs (snd a)
     | PauseOp \<Rightarrow> OnPauseGeofences errs (snd a) | ResumeOp \<Rightarrow> OnResumeGeofences errs (snd a)
     | ModifyOp \<Rightarrow> OnModifyGeofences errs (snd a))"

lemma answer_cb [simp]: "geofence_answer (answer_cb a errs) = Some a"
  by (cases a; cases "fst a") (simp_all add: answer_cb_def geofence_answer_def)

lemma answer_effect:
  assumes "mSession (mRequestQueues cl REQUEST_GEOFENCE) = GEOFENCE_SESSION_ID" "mQueue (mRequestQueues cl REQUEST_GEOFENCE) = [r]"
    "told_as r ss (mGeofenceBiDict cl) = Some a"
  shows "onCollectiveResponseCb errs ss cl = call_back (answer_cb a errs) (on_queue REQUEST_GEOFENCE (\<lambda>q. q\<lparr>mQueue := []\<rparr>) cl)"
  using assms by (cases r) (auto simp: onCollectiveResponseCb_def pop_queue_def queue_pop_def onCollectiveResponse_def told_as_def
      answer_cb_def on_queue_def Let_def)

text \<open>At rest nothing happens until the next command.\<close>

lemma rest_event: "at_rest ad \<Longrightarrow> serving e \<Longrightarrow> system_event c (Adapter e) (cl, ad) = Some (cl, ad)"
  by (auto simp: serving_def at_rest_def system_event_def geofence_event_def deliver_breaches_def)

lemma rest_run: "at_rest ad \<Longrightarrow> \<forall>e \<in> set es. serving e \<Longrightarrow> system_run c (map Adapter es) (cl, ad) = Some (cl, ad)"
  by (induction es) (simp_all add: rest_event)

lemma deliver_some:
  "\<forall>(b, c', d, errs, ids) \<in> set as. None \<notin> set errs \<Longrightarrow> \<exists>cl'. deliver_answers c as cl = Some cl'"
proof (induction c as cl rule: deliver_answers.induct)
  case (2 c b c' called errs ids as cl)
  have "None \<notin> set errs" using 2(3) by simp
  then obtain es where "errs = map Some es" using all_Some by blast
  then show ?case using 2 by auto
qed simp

text \<open>A round: a command, and the adapter until it is at rest.\<close>

definition answered_with :: "ptr \<Rightarrow> u32 set \<Rightarrow> geo_op \<Rightarrow> api_client \<times> adapter \<Rightarrow> api_client \<times> adapter \<Rightarrow> bool" where
  "answered_with c K oper sys sys' \<longleftrightarrow> (\<exists>f. idle c (known_after K oper) f sys') \<and>
     unat (mSessionIdCounter (snd sys')) = unat (mSessionIdCounter (snd sys)) + adds oper \<and>
     map geofence_answer (client_cbs (fst sys')) = map geofence_answer (client_cbs (fst sys)) @ map Some (answer_to K oper)"

lemma round_ok:
  assumes idle: "idle c K f sys" and ok: "op_ok oper" and room: "unat (mSessionIdCounter (snd sys)) + adds oper < 2 ^ 32 - 1"
  shows "\<exists>sys1. system_event c (Op oper) sys = Some sys1 \<and>
    (\<forall>es. (\<forall>e \<in> set es. serving e) \<longrightarrow> (\<exists>sys2. system_run c (map Adapter es) sys1 = Some sys2 \<and>
       (at_rest (snd sys2) \<longrightarrow> answered_with c K oper sys sys2))) \<and>
    (\<exists>es sys2. (\<forall>e \<in> set es. serving e) \<and> system_run c (map Adapter es) sys1 = Some sys2 \<and> at_rest (snd sys2))"
proof -
  obtain cl ad where sys: "sys = (cl, ad)" by (cases sys)
  note idle = idle[unfolded sys]
  note fields = idle_fields[OF idle]
  obtain cl1 ad1 where op: "system_event c (Op oper) (cl, ad) = Some (cl1, ad1)" "client_cbs cl1 = client_cbs cl"
    "unat (mSessionIdCounter ad1) = unat (mSessionIdCounter ad) + adds oper"
    and disj: "answer_to K oper = [] \<and> idle c (known_after K oper) f (cl1, ad1) \<or>
     (\<exists>a. answer_to K oper = [a] \<and> asks c (known_after K oper) a ad (cl1, ad1))"
    using op_step[OF idle ok] room sys by auto
  from disj show ?thesis
  proof
    assume none: "answer_to K oper = [] \<and> idle c (known_after K oper) f (cl1, ad1)"
    then have rest: "at_rest ad1" using idle_fields(4) by blast
    have "answered_with c K oper sys (cl1, ad1)" using none op(2,3) by (auto simp: answered_with_def sys)
    then show ?thesis using op(1) rest_run[OF rest] rest sys
      by (intro exI[of _ "(cl1, ad1)"]) (auto intro: exI[of _ "[]"])
  next
    assume "\<exists>a. answer_to K oper = [a] \<and> asks c (known_after K oper) a ad (cl1, ad1)"
    then obtain a e ss r where a: "answer_to K oper = [a]" and keeps: "client_keeps (known_after K oper) cl1 (mSessionIdCounter ad1)"
      and queue: "mSession (mRequestQueues cl1 REQUEST_GEOFENCE) = GEOFENCE_SESSION_ID"
        "mQueue (mRequestQueues cl1 REQUEST_GEOFENCE) = [r]" "told_as r ss (mGeofenceBiDict cl1) = Some a"
      and e: "event_ok answered_ops e" "issues e = Some (c, length ss)" "geofence_event e ad = Some ad1" "issued_as c ss ad ad1"
      by (auto simp: asks_def)
    have calm: "calm ad1" using e(4) by (simp add: issued_as_def)
    obtain f1 where f1: "commands_ok answered_ops f1 ad1"
      using run_ok[OF fields(5), of "[e]"] e(1,3) by auto
    have "\<exists>sys2. system_run c (map Adapter es) (cl1, ad1) = Some sys2 \<and> geofence_run es ad1 = Some (snd sys2) \<and>
       (at_rest (snd sys2) \<longrightarrow> answered_with c K oper sys sys2)" if es: "\<forall>e \<in> set es. serving e" for es
    proof -
      have "\<forall>e \<in> set es. event_ok answered_ops e" using es by (auto simp: serving_def)
      then obtain ad2 f2 where ad2: "geofence_run es ad1 = Some ad2" "commands_ok answered_ops f2 ad2" using run_ok[OF f1] by blast
      note served = serving_run[OF calm es ad2(1), of c cl1]
      have "\<exists>cl2. deliver_answers c (drop (length (answers ad1)) (answers ad2)) cl1 = Some cl2"
        by (rule deliver_some) (use answers_sound[OF ad2(2)] in \<open>auto dest!: in_set_dropD\<close>)
      then obtain cl2 where cl2: "system_run c (map Adapter es) (cl1, ad1) = Some (cl2, ad2)" using served by auto
      have "answered_with c K oper sys (cl2, ad2)" if rest: "at_rest ad2"
      proof -
        obtain f3 errs where f3: "commands_ok answered_ops f3 ad2" "mClientData ad2 = mClientData ad"
          "mSessionIdCounter ad2 = mSessionIdCounter ad1" "cl2 = onCollectiveResponseCb errs ss cl1"
          using served_once[OF fields(5,4,6) e es ad2(1) rest, of cl1] cl2 by auto
        obtain cb where cb: "geofence_answer cb = Some a" "cl2 = call_back cb (on_queue REQUEST_GEOFENCE (\<lambda>q. q\<lparr>mQueue := []\<rparr>) cl1)"
          using answer_effect[OF queue, of errs] f3(4) answer_cb by blast
        have "listens c ad2" using fields(6) f3(2) by (simp add: listens_def)
        then have "idle c (known_after K oper) f3 (cl2, ad2)"
          using keeps queue(1) f3(1,3) rest cb(2) by (simp add: idle_def client_keeps_def call_back_def on_queue_def)
        then show ?thesis using op(2,3) f3(3) cb a by (auto simp: answered_with_def sys call_back_def on_queue_def)
      qed
      then show ?thesis using cl2 ad2(1) by auto
    qed
    moreover obtain es where "\<forall>e \<in> set es. serving e" "\<exists>st'. geofence_run es ad1 = Some st' \<and> at_rest st'"
      using comes_to_rest[OF f1] by (auto simp: serving_def)
    moreover from calculation obtain sys2 where "system_run c (map Adapter es) (cl1, ad1) = Some sys2" "at_rest (snd sys2)"
      by (metis option.inject)
    ultimately show ?thesis unfolding sys op(1) by blast
  qed
qed

fun rounds_rest :: "ptr \<Rightarrow> (geo_op \<times> event list) list \<Rightarrow> api_client \<times> adapter \<Rightarrow> bool" where
  "rounds_rest c [] sys \<longleftrightarrow> True"
| "rounds_rest c ((oper, es) # rs) sys \<longleftrightarrow>
     (case system_run c (Op oper # map Adapter es) sys of
        None \<Rightarrow> True
      | Some sys' \<Rightarrow> at_rest (snd sys') \<and> rounds_rest c rs sys')"

definition script :: "(geo_op \<times> event list) list \<Rightarrow> system_event list" where
  "script rs = concat (map (\<lambda>(oper, es). Op oper # map Adapter es) rs)"

fun answers_to :: "u32 set \<Rightarrow> geo_op list \<Rightarrow> (geofence_op \<times> u32 list) list" where
  "answers_to K [] = []"
| "answers_to K (oper # opers) = answer_to K oper @ answers_to (known_after K oper) opers"

lemma rounds_ok:
  assumes "idle c K f sys" "\<forall>(oper, es) \<in> set rs. op_ok oper \<and> (\<forall>e \<in> set es. serving e)"
    "unat (mSessionIdCounter (snd sys)) + sum_list (map (adds \<circ> fst) rs) < 2 ^ 32 - 1" "rounds_rest c rs sys"
  shows "\<exists>sys'. system_run c (script rs) sys = Some sys' \<and>
    map geofence_answer (client_cbs (fst sys')) = map geofence_answer (client_cbs (fst sys)) @ map Some (answers_to K (map fst rs))"
  using assms
proof (induction rs arbitrary: K f sys)
  case (Cons r rs)
  obtain oper es where r: "r = (oper, es)" by (cases r)
  have ok: "op_ok oper" "\<forall>e \<in> set es. serving e" "unat (mSessionIdCounter (snd sys)) + adds oper < 2 ^ 32 - 1"
    using Cons.prems(2,3) r by auto
  obtain sys1 sys2 where 1: "system_event c (Op oper) sys = Some sys1" "system_run c (map Adapter es) sys1 = Some sys2"
    "at_rest (snd sys2) \<longrightarrow> answered_with c K oper sys sys2"
    using round_ok[OF Cons.prems(1) ok(1,3)] ok(2) by blast
  then have 2: "at_rest (snd sys2)" "rounds_rest c rs sys2" using Cons.prems(4) r by auto
  then obtain f2 where f2: "idle c (known_after K oper) f2 sys2"
    "unat (mSessionIdCounter (snd sys2)) = unat (mSessionIdCounter (snd sys)) + adds oper"
    "map geofence_answer (client_cbs (fst sys2)) = map geofence_answer (client_cbs (fst sys)) @ map Some (answer_to K oper)"
    using 1(3) by (auto simp: answered_with_def)
  obtain sys' where "system_run c (script rs) sys2 = Some sys'"
    "map geofence_answer (client_cbs (fst sys')) =
       map geofence_answer (client_cbs (fst sys2)) @ map Some (answers_to (known_after K oper) (map fst rs))"
    using Cons.IH[OF f2(1) _ _ 2(2)] Cons.prems(2,3) r f2(2) by auto
  then show ?case using 1(1,2) f2(3) r by (simp add: script_def system_run_append)
qed (simp add: script_def)

lemma rounds_exist:
  assumes "idle c K f sys" "\<forall>oper \<in> set opers. op_ok oper" "unat (mSessionIdCounter (snd sys)) + sum_list (map adds opers) < 2 ^ 32 - 1"
  shows "\<exists>rs. map fst rs = opers \<and> (\<forall>(oper, es) \<in> set rs. \<forall>e \<in> set es. serving e) \<and> rounds_rest c rs sys"
  using assms
proof (induction opers arbitrary: K f sys)
  case (Cons oper opers)
  have ok: "op_ok oper" "unat (mSessionIdCounter (snd sys)) + adds oper < 2 ^ 32 - 1" using Cons.prems(2,3) by auto
  obtain sys1 es sys2 where 1: "system_event c (Op oper) sys = Some sys1" "\<forall>e \<in> set es. serving e"
    "system_run c (map Adapter es) sys1 = Some sys2" "at_rest (snd sys2)" "answered_with c K oper sys sys2"
    using round_ok[OF Cons.prems(1) ok] by (metis option.inject)
  then obtain f2 where "idle c (known_after K oper) f2 sys2"
    "unat (mSessionIdCounter (snd sys2)) = unat (mSessionIdCounter (snd sys)) + adds oper" by (auto simp: answered_with_def)
  then obtain rs where "map fst rs = opers" "\<forall>(oper, es) \<in> set rs. \<forall>e \<in> set es. serving e" "rounds_rest c rs sys2"
    using Cons.IH[of "known_after K oper" f2 sys2] Cons.prems(2,3) by auto
  then show ?case using 1 by (intro exI[of _ "(oper, es) # rs"]) auto
qed simp

text \<open>The system when the client has connected.\<close>

definition connected :: "ptr \<Rightarrow> location_callbacks \<Rightarrow> api_client \<times> adapter" where
  "connected c cb = (locAPISetCallbacks True False True api_client_new, saveClient c cb adapter_init)"

lemma connected_run: "geofence_run [AddClient c cb, Proc] adapter_init = Some (snd (connected c cb))"
  by (simp add: geofence_event_def sendMsg_def proc_msg_def connected_def adapter_init_def saveClient_def updateClientsEventMask_def)

lemma connected_idle:
  assumes "collectiveResponseCb cb"
  shows "\<exists>f. idle c {} f (connected c cb)"
proof -
  obtain f where "commands_ok answered_ops f (saveClient c cb adapter_init)"
    using run_ok[OF commands_ok_init, of "[AddClient c cb, Proc]"] connected_run[of c cb] by (auto simp: connected_def)
  moreover have "listens c (saveClient c cb adapter_init)" using assms
    by (simp add: listens_def saveClient_def updateClientsEventMask_def adapter_init_def)
  moreover have "at_rest (saveClient c cb adapter_init)"
    by (simp add: at_rest_def saveClient_def updateClientsEventMask_def adapter_init_def)
  ultimately show ?thesis
    by (intro exI[of _ f]) (simp add: connected_def idle_def locAPISetCallbacks_def api_client_new_def queue_new_def bidict_new_def
        half_ok_def call_api_def Let_def)
qed

lemma connected_counter: "mSessionIdCounter (snd (connected c cb)) = 1"
  by (simp add: connected_def saveClient_def updateClientsEventMask_def adapter_init_def)

end
