(* ===== verification/ApiProps.thy ===== *)
theory ApiProps
  imports ApiSessions ApiRounds GeofenceProps
begin

text \<open>The properties of the clients of the location API.\<close>

section \<open>Ids and sessions\<close>

lemma getSession_known:
  assumes "bidict_ok d" "hasId i d"
  shows "getSession i d \<noteq> 0" "map_of (mBackwardMap d) (getSession i d) = Some i"
proof -
  obtain s where s: "map_of (mForwardMap d) i = Some s" using assms(2) by (auto simp: hasId_def)
  then have "map_of (mBackwardMap d) s = Some i" using sessions.inverse[OF assms(1)] by simp
  then show "getSession i d \<noteq> 0" "map_of (mBackwardMap d) (getSession i d) = Some i"
    using s sessions.sessions_ok[OF assms(1)] by (simp_all add: getSession_def)
qed

lemma sessions_agree:
  assumes "bidict_ok d" "hasSession s d"
  shows "getSession (getId s d) d = s"
proof -
  obtain i where "map_of (mBackwardMap d) s = Some i" using assms(2) by (auto simp: hasSession_def)
  then show ?thesis using sessions.inverse[OF assms(1), of i s] by (simp add: getSession_def getId_def)
qed

text \<open>
  C35: Invariant: after any script in which the API returns new sessions and the client adds new geofences, ids and sessions
  stand for each other, in both maps; and what is kept for a session is about its id and names it as the session in use.
\<close>

theorem client_ids_agree:
  assumes "all_new es api_client_new"
  shows "let st = client_run es api_client_new in
    (\<forall>i. hasId i (mGeofenceBiDict st) \<longrightarrow> getSession i (mGeofenceBiDict st) \<noteq> 0 \<and>
       getId (getSession i (mGeofenceBiDict st)) (mGeofenceBiDict st) = i) \<and>
    (\<forall>s. hasSession s (mGeofenceBiDict st) \<longrightarrow> getSession (getId s (mGeofenceBiDict st)) (mGeofenceBiDict st) = s) \<and>
    (\<forall>i. hasId i (mSessionBiDict st) \<longrightarrow> (let e = fst (getExtById entity_zero i (mSessionBiDict st)) in
       entity_id e = i \<and> active e = getSession i (mSessionBiDict st) \<and> active e \<noteq> 0 \<and> getId (active e) (mSessionBiDict st) = i)) \<and>
    (\<forall>s. hasSession s (mSessionBiDict st) \<longrightarrow> getSession (getId s (mSessionBiDict st)) (mSessionBiDict st) = s)"
proof -
  let ?st = "client_run es api_client_new"
  have ok: "client_ok ?st" using client_ok_run[OF client_ok_new assms] .
  have geo: "bidict_ok (mGeofenceBiDict ?st)" and sess: "dict_ok (mSessionBiDict ?st)" using ok by (auto simp: client_ok_def)
  have g1: "getSession i d \<noteq> 0 \<and> getId (getSession i d) d = i" if "bidict_ok d" "hasId i d" for i and d :: "16 word bidict"
    using getSession_known[OF that] by (simp add: getId_def)
  have s1: "entity_id (fst (getExtById entity_zero i d)) = i \<and> active (fst (getExtById entity_zero i d)) = getSession i d \<and>
      active (fst (getExtById entity_zero i d)) \<noteq> 0 \<and> getId (active (fst (getExtById entity_zero i d))) d = i"
    if d: "dict_ok d" "hasId i d" for i d
  proof -
    obtain s e where "map_of (mForwardMap d) i = Some s" "map_of (mBackwardMap d) s = Some i" "entity_id e = i" "active e = s" "s \<noteq> 0"
      "getExtById entity_zero i d = (e, d)" using dict_known[OF d, of entity_zero] .
    then show ?thesis by (simp add: getSession_def getId_def)
  qed
  have "bidict_ok (mSessionBiDict ?st)" using sess by (simp add: dict_ok_def)
  note s2 = sessions_agree[OF this]
  show ?thesis unfolding Let_def using g1[OF geo] sessions_agree[OF geo] s1[OF sess] s2 by blast
qed

definition demo_options :: location_options where
  "demo_options = \<lparr>minInterval = 1000, minDistance = 0, gnss_mode = 1\<rparr>"

definition demo_script :: "client_event list" where
  "demo_script = [CSetCallbacks True False True, CStartSession 4 SESSION_MODE_ON_FIX demo_options 9,
     CAddGeofences [1] [\<lparr>o_breachTypeMask = 3, o_responsiveness = 5, o_dwellTime = 0\<rparr>] [\<lparr>i_latitude = 0, i_longitude = 0, i_radius = 9\<rparr>] (Some [2])]"

lemma client_ids_agree_witness:
  "let st = client_run demo_script api_client_new in
    (\<forall>i. hasId i (mGeofenceBiDict st) \<longrightarrow> getSession i (mGeofenceBiDict st) \<noteq> 0 \<and>
       getId (getSession i (mGeofenceBiDict st)) (mGeofenceBiDict st) = i) \<and>
    (\<forall>s. hasSession s (mGeofenceBiDict st) \<longrightarrow> getSession (getId s (mGeofenceBiDict st)) (mGeofenceBiDict st) = s) \<and>
    (\<forall>i. hasId i (mSessionBiDict st) \<longrightarrow> (let e = fst (getExtById entity_zero i (mSessionBiDict st)) in
       entity_id e = i \<and> active e = getSession i (mSessionBiDict st) \<and> active e \<noteq> 0 \<and> getId (active e) (mSessionBiDict st) = i)) \<and>
    (\<forall>s. hasSession s (mSessionBiDict st) \<longrightarrow> getSession (getId s (mSessionBiDict st)) (mSessionBiDict st) = s)"
proof -
  have "all_new demo_script api_client_new" by code_simp
  then show ?thesis by (rule client_ids_agree)
qed

section \<open>Sessions\<close>

text \<open>
  C34: Refinement: as long as a session has one request at a time and the API answers in order, the client implements the
  machine that knows the open ids and their requests: every answer is reported once, in order, as what was asked for, and an id is open until its stop succeeds or its start fails. Answers for sessions that were replaced are ignored.
\<close>

theorem session_requests_answered:
  assumes "orderly_run es (spec_new, locAPISetCallbacks g b True api_client_new)"
    and "both_run es (spec_new, locAPISetCallbacks g b True api_client_new) = (A, st)"
  shows "client_cbs st = reported A \<and> mQueue (mRequestQueues st REQUEST_SESSION) = map snd (awaiting A) \<and>
    (\<forall>i. hasId i (mSessionBiDict st) \<longleftrightarrow> opened A i \<noteq> None)"
proof -
  have "implements spec_new (locAPISetCallbacks g b True api_client_new)"
    using dict_ok_new
    by (auto simp: implements_def spec_new_def locAPISetCallbacks_def api_client_new_def queue_new_def Let_def call_api_def mode_of_def
        bidict_new_def)
  then have "implements A st" by (rule implements_run) (use assms in auto)
  then show ?thesis using mode_of_None by (auto simp: implements_def)
qed

definition demo_sessions :: "session_event list" where
  "demo_sessions = [SStart 4 SESSION_MODE_ON_FIX demo_options 9, SStart 5 SESSION_MODE_ON_FULL demo_options 10,
     SAnswer LOCATION_ERROR_SUCCESS, SAnswer LOCATION_ERROR_SUCCESS, SUpdate 5 SESSION_MODE_ON_FIX demo_options 11,
     SAnswer LOCATION_ERROR_SUCCESS, SStray LOCATION_ERROR_SUCCESS 10, SStop 4, SAnswer LOCATION_ERROR_SUCCESS]"

lemma session_requests_answered_witness:
  "let (A, st) = both_run demo_sessions (spec_new, locAPISetCallbacks True True True api_client_new) in
    client_cbs st = reported A \<and> mQueue (mRequestQueues st REQUEST_SESSION) = map snd (awaiting A) \<and>
    (\<forall>i. hasId i (mSessionBiDict st) \<longleftrightarrow> opened A i \<noteq> None)"
proof -
  have "orderly_run demo_sessions (spec_new, locAPISetCallbacks True True True api_client_new)" by code_simp
  then show ?thesis using session_requests_answered[of demo_sessions True True] by (auto split: prod.split)
qed

text \<open>A client with sessions only, step by step.\<close>

definition with_sessions ::
    "bool \<Rightarrow> bool \<Rightarrow> api_request list \<Rightarrow> session_entity bidict \<Rightarrow> client_call list \<Rightarrow> client_cb list \<Rightarrow> api_client" where
  "with_sessions g b q d cs cbs = api_client_new\<lparr>mLocationAPI := True, mGeofenceBreachCallback := g, mBatchingStatusCallback := b,
     mRequestQueues := (\<lambda>_. queue_new)(REQUEST_SESSION := queue_new\<lparr>mQueue := q\<rparr>), mSessionBiDict := d, api_calls := cs, client_cbs := cbs\<rparr>"

definition tracking_entity :: "u32 \<Rightarrow> u32 \<Rightarrow> session_entity" where
  "tracking_entity i s = \<lparr>entity_id = i, trackingSession = s, batchingSession = 0, sessionMode = SESSION_MODE_ON_FIX\<rparr>"

lemma sessions_connected: "client_event (CSetCallbacks g b True) api_client_new = with_sessions g b [] bidict_new [ApiCreate] []"
proof -
  have "(\<lambda>_. queue_new) = (\<lambda>_. queue_new)(REQUEST_SESSION := queue_new\<lparr>mQueue := []\<rparr>)" by (auto simp: queue_new_def)
  then show ?thesis
    by (simp add: client_event_def locAPISetCallbacks_def Let_def call_api_def with_sessions_def api_client_new_def)
qed

lemma sessions_response:
  "getRequestBySession s (with_sessions g b q d cs cbs) =
     (if hasSession s d then case q of [] \<Rightarrow> (None, with_sessions g b [] d cs cbs) | r # rs \<Rightarrow> (Some r, with_sessions g b rs d cs cbs)
      else (None, with_sessions g b q d cs cbs))"
proof -
  have "mQueue (mRequestQueues (with_sessions g b q d cs cbs) REQUEST_TRACKING) = []"
    "mQueue (mRequestQueues (with_sessions g b q d cs cbs) REQUEST_NIRESPONSE) = []"
    by (simp_all add: with_sessions_def queue_new_def)
  note getRequest_session[OF this, of s]
  then show ?thesis by (cases q) (simp_all add: pop_queue_def queue_pop_def on_queue_def with_sessions_def)
qed

lemma sessions_event:
  "\<not> hasId i d \<Longrightarrow> client_event (CStartSession i SESSION_MODE_ON_FIX opts s) (with_sessions g b q d cs cbs) =
     with_sessions g b (q @ [StartTrackingRequest]) (bidict_set i s (tracking_entity i s) d) (cs @ [ApiStartTracking opts]) cbs"
  "getExtById entity_zero i d = (tracking_entity i s, d) \<Longrightarrow> hasId i d \<Longrightarrow> client_event (CStopSession i) (with_sessions g b q d cs cbs) =
     with_sessions g b (q @ [StopTrackingRequest]) d (cs @ [ApiStopTracking s]) cbs"
  "\<not> hasId i d \<Longrightarrow> locAPIStopSession i (with_sessions g b q d cs cbs) = (LOCATION_ERROR_ID_UNKNOWN, with_sessions g b q d cs cbs)"
  "hasSession s d \<Longrightarrow> client_event (CResponse LOCATION_ERROR_SUCCESS s) (with_sessions g b (StartTrackingRequest # q) d cs cbs) =
     with_sessions g b q d cs (cbs @ [OnStartTracking LOCATION_ERROR_SUCCESS])"
  "hasSession s d \<Longrightarrow> client_event (CResponse LOCATION_ERROR_SUCCESS s) (with_sessions g b (StopTrackingRequest # q) d cs cbs) =
     with_sessions g b q (rmBySession s d) cs (cbs @ [OnStopTracking LOCATION_ERROR_SUCCESS])"
  "\<not> hasSession s d \<Longrightarrow> client_event (CResponse LOCATION_ERROR_SUCCESS s) (with_sessions g b q d cs cbs) = with_sessions g b q d cs cbs"
  "client_cbs (with_sessions g b q d cs cbs) = cbs" "api_calls (with_sessions g b q d cs cbs) = cs"
proof -
  note defs = client_event_def onResponseCb_def sessions_response onResponse_def call_back_def removeSession_def Let_def
  show "hasSession s d \<Longrightarrow> client_event (CResponse LOCATION_ERROR_SUCCESS s) (with_sessions g b (StartTrackingRequest # q) d cs cbs) =
     with_sessions g b q d cs (cbs @ [OnStartTracking LOCATION_ERROR_SUCCESS])"
    by (simp add: defs) (simp add: with_sessions_def)
  show "hasSession s d \<Longrightarrow> client_event (CResponse LOCATION_ERROR_SUCCESS s) (with_sessions g b (StopTrackingRequest # q) d cs cbs) =
     with_sessions g b q (rmBySession s d) cs (cbs @ [OnStopTracking LOCATION_ERROR_SUCCESS])"
    by (simp add: defs) (simp add: with_sessions_def)
  show "\<not> hasSession s d \<Longrightarrow> client_event (CResponse LOCATION_ERROR_SUCCESS s) (with_sessions g b q d cs cbs) = with_sessions g b q d cs cbs"
    by (simp add: defs)
qed (simp_all add: client_event_def locAPIStartSession_def locAPIStopSession_def Let_def with_sessions_def tracking_entity_def
    push_session_def on_queue_def queue_push_def call_api_def)

lemma one_session:
  "\<not> hasId i bidict_new" "\<not> hasSession s bidict_new" "hasId j (bidict_set i s e bidict_new) \<longleftrightarrow> j = i"
  "hasSession t (bidict_set i s e bidict_new) \<longleftrightarrow> t = s" "rmBySession s (bidict_set i s e bidict_new) = bidict_new"
  "s \<noteq> 0 \<Longrightarrow> getExtById z i (bidict_set i s e bidict_new) = (e, bidict_set i s e bidict_new)"
  by (auto simp: hasId_def hasSession_def bidict_new_def bidict_set_def rmBySession_def map_at_def map_erase_def getExtById_def word_gt_0)

text \<open>
  Error: stopping a session a second time before the first stop was answered leaves a request in the queue that meets the
  answer to the next start: the client is told of a stop, and the new session, which runs, is forgotten and
  cannot be stopped any more.
\<close>

theorem second_stop_loses_session:
  assumes "i \<noteq> j" "s \<noteq> t" "s \<noteq> 0" "t \<noteq> 0"
  shows "let st = client_run [CSetCallbacks g b True, CStartSession i SESSION_MODE_ON_FIX opts s, CResponse LOCATION_ERROR_SUCCESS s,
      CStopSession i, CStopSession i, CResponse LOCATION_ERROR_SUCCESS s, CResponse LOCATION_ERROR_SUCCESS s,
      CStartSession j SESSION_MODE_ON_FIX opts t, CResponse LOCATION_ERROR_SUCCESS t] api_client_new in
    client_cbs st = [OnStartTracking LOCATION_ERROR_SUCCESS, OnStopTracking LOCATION_ERROR_SUCCESS, OnStopTracking LOCATION_ERROR_SUCCESS] \<and>
    last (api_calls st) = ApiStartTracking opts \<and> locAPIStopSession j st = (LOCATION_ERROR_ID_UNKNOWN, st)"
  using assms by (simp add: client_run_def sessions_connected sessions_event one_session entity_zero_def)

lemma second_stop_loses_session_witness:
  "let st = client_run [CSetCallbacks False False True, CStartSession 1 SESSION_MODE_ON_FIX demo_options 8, CResponse LOCATION_ERROR_SUCCESS 8,
      CStopSession 1, CStopSession 1, CResponse LOCATION_ERROR_SUCCESS 8, CResponse LOCATION_ERROR_SUCCESS 8,
      CStartSession 2 SESSION_MODE_ON_FIX demo_options 9, CResponse LOCATION_ERROR_SUCCESS 9] api_client_new in
    client_cbs st = [OnStartTracking LOCATION_ERROR_SUCCESS, OnStopTracking LOCATION_ERROR_SUCCESS, OnStopTracking LOCATION_ERROR_SUCCESS] \<and>
    last (api_calls st) = ApiStartTracking demo_options \<and> locAPIStopSession 2 st = (LOCATION_ERROR_ID_UNKNOWN, st)"
  by (rule second_stop_loses_session) simp_all

text \<open>Whatever the client asks for, the options of a batching session are set to 0.\<close>

lemma batching_options_lost:
  assumes "client_ok st" "mLocationAPI st" "hasId i (mSessionBiDict st)" "mode \<noteq> SESSION_MODE_ON_FIX"
    "sessionMode (fst (getExtById entity_zero i (mSessionBiDict st))) \<noteq> SESSION_MODE_ON_FIX"
  shows "api_calls (snd (locAPIUpdateSessionOptions i mode opts s st)) =
    api_calls st @ [ApiUpdateBatchingOptions (getSession i (mSessionBiDict st)) (batching_mode_of mode) options_zero]"
proof -
  have d: "dict_ok (mSessionBiDict st)" using assms(1) by (simp add: client_ok_def)
  obtain t e where "map_of (mForwardMap (mSessionBiDict st)) i = Some t" "active e = t"
    "getExtById entity_zero i (mSessionBiDict st) = (e, mSessionBiDict st)"
    using dict_known[OF d assms(3), of entity_zero] .
  then show ?thesis using assms(2-5)
    by (simp add: locAPIUpdateSessionOptions_def Let_def call_api_def push_session_def on_queue_def getSession_def active_def)
qed

section \<open>Geofences\<close>

text \<open>
  C33: Liveness: the commands are to add any number of geofences, and to remove, modify or pause one; the client has the callback, waits until
  its command is served before it gives the next, and adds fewer than 2 ^ 32 - 2 geofences. It is told exactly once for every
  command on geofences it has and for every adding that is not empty: in the order of the commands, under the kind of the command and
  with its own ids; commands on a geofence it does not have are not answered. And the adapter can always come to rest.
\<close>

theorem geofence_requests_answered:
  assumes "\<forall>oper \<in> set opers. op_ok oper" "sum_list (map adds opers) < 2 ^ 32 - 2" "collectiveResponseCb cb"
  shows "(\<exists>rs. map fst rs = opers \<and> (\<forall>(oper, es) \<in> set rs. \<forall>e \<in> set es. serving e) \<and> rounds_rest c rs (connected c cb)) \<and>
    (\<forall>rs. map fst rs = opers \<and> (\<forall>(oper, es) \<in> set rs. \<forall>e \<in> set es. serving e) \<and> rounds_rest c rs (connected c cb) \<longrightarrow>
       (\<exists>cl ad. system_run c (script rs) (connected c cb) = Some (cl, ad) \<and>
          map geofence_answer (client_cbs cl) = map Some (answers_to {} opers)))"
proof -
  obtain f where idle: "idle c {} f (connected c cb)" using connected_idle[OF assms(3)] by blast
  have room: "unat (mSessionIdCounter (snd (connected c cb))) + sum_list (map adds opers) < 2 ^ 32 - 1"
    using assms(2) by (simp add: connected_counter)
  have start: "client_cbs (fst (connected c cb)) = []" by (simp add: connected_def locAPISetCallbacks_def api_client_new_def Let_def call_api_def)
  show ?thesis
  proof
    show "\<exists>rs. map fst rs = opers \<and> (\<forall>(oper, es) \<in> set rs. \<forall>e \<in> set es. serving e) \<and> rounds_rest c rs (connected c cb)"
      by (rule rounds_exist[OF idle assms(1) room])
    show "\<forall>rs. map fst rs = opers \<and> (\<forall>(oper, es) \<in> set rs. \<forall>e \<in> set es. serving e) \<and> rounds_rest c rs (connected c cb) \<longrightarrow>
       (\<exists>cl ad. system_run c (script rs) (connected c cb) = Some (cl, ad) \<and>
          map geofence_answer (client_cbs cl) = map Some (answers_to {} opers))"
    proof (intro allI impI, elim conjE)
      fix rs assume rs: "map fst rs = opers" "\<forall>(oper, es) \<in> set rs. \<forall>e \<in> set es. serving e" "rounds_rest c rs (connected c cb)"
      have "\<forall>(oper, es) \<in> set rs. op_ok oper \<and> (\<forall>e \<in> set es. serving e)" using rs(1,2) assms(1) by force
      then show "\<exists>cl ad. system_run c (script rs) (connected c cb) = Some (cl, ad) \<and>
          map geofence_answer (client_cbs cl) = map Some (answers_to {} opers)"
        using rounds_ok[OF idle _ _ rs(3)] room rs(1) start by (force simp: map_map[symmetric] simp del: map_map)
    qed
  qed
qed

definition demo_callbacks :: location_callbacks where
  "demo_callbacks = \<lparr>capabilitiesCb = True, collectiveResponseCb = True, geofenceBreachCb = True, geofenceStatusCb = True\<rparr>"

definition demo_option :: geofence_option where
  "demo_option = \<lparr>o_breachTypeMask = 3, o_responsiveness = 5, o_dwellTime = 0\<rparr>"

definition demo_info :: geofence_info where
  "demo_info = \<lparr>i_latitude = 0, i_longitude = 0, i_radius = 9\<rparr>"

definition demo_opers :: "geo_op list" where
  "demo_opers = [GAdd [11, 12] [demo_option, demo_option] [demo_info, demo_info], GPause [12], GRemove [13], GRemove [11], GPause [11]]"

lemma geofence_requests_answered_witness:
  "\<exists>rs cl ad. map fst rs = demo_opers \<and> rounds_rest 7 rs (connected 7 demo_callbacks) \<and>
    system_run 7 (script rs) (connected 7 demo_callbacks) = Some (cl, ad) \<and>
    map geofence_answer (client_cbs cl) = [Some (AddOp, [11, 12]), Some (PauseOp, [12]), Some (RemoveOp, [11])]"
proof -
  have answers: "answers_to {} demo_opers = [(AddOp, [11, 12]), (PauseOp, [12]), (RemoveOp, [11])]" by (simp add: demo_opers_def)
  have told: "map Some (answers_to {} demo_opers) = [Some (AddOp, [11, 12]), Some (PauseOp, [12]), Some (RemoveOp, [11])]"
    unfolding answers list.map by (rule refl)
  note all = geofence_requests_answered[of demo_opers demo_callbacks 7]
  have "\<forall>oper \<in> set demo_opers. op_ok oper" "sum_list (map adds demo_opers) < 2 ^ 32 - 2" "collectiveResponseCb demo_callbacks"
    by (simp_all add: demo_opers_def demo_callbacks_def)
  note all = all[OF this, unfolded told]
  obtain rs where rs: "map fst rs = demo_opers \<and> (\<forall>(oper, es) \<in> set rs. \<forall>e \<in> set es. serving e) \<and> rounds_rest 7 rs (connected 7 demo_callbacks)"
    using conjunct1[OF all] by (rule exE)
  obtain cl ad where "system_run 7 (script rs) (connected 7 demo_callbacks) = Some (cl, ad)"
    "map geofence_answer (client_cbs cl) = [Some (AddOp, [11, 12]), Some (PauseOp, [12]), Some (RemoveOp, [11])]"
    using conjunct2[OF all, rule_format, OF rs] by (elim exE conjE)
  then show ?thesis using conjunct1[OF rs] conjunct2[OF conjunct2[OF rs]] by (intro exI conjI)
qed

text \<open>What a client is told of a breach, and that of the adapter's reports it gets those for itself.\<close>

definition told_ids :: "nat \<Rightarrow> 16 word bidict \<Rightarrow> u32 list \<Rightarrow> u32 list" where
  "told_ids t d ss = map (\<lambda>s. getId s d) (filter (\<lambda>s. breach_wanted t (getExtBySession 0 s d)) ss)"

lemma told_ids_known:
  assumes "bidict_ok d" "j \<in> set (told_ids t d ss)"
  shows "hasId j d \<and> getSession j d \<in> set ss \<and> breach_wanted t (getExtBySession 0 (getSession j d) d)"
proof -
  obtain s where s: "j = getId s d" "breach_wanted t (getExtBySession 0 s d)" "s \<in> set ss" using assms(2) by (auto simp: told_ids_def)
  then have "map_of (mExtMap d) s \<noteq> None" by (auto simp: getExtBySession_def breach_wanted_def split: option.splits)
  then obtain j' where "map_of (mBackwardMap d) s = Some j'" using sessions.ext_there[OF assms(1), of s] by auto
  then have "map_of (mForwardMap d) j = Some s" using s(1) sessions.inverse[OF assms(1), of j' s] by (simp add: getId_def)
  then show ?thesis using s(2,3) by (simp add: hasId_def getSession_def)
qed

lemma deliver_breaches_cbs:
  assumes "\<forall>(c', ids, t') \<in> set bs. t' = t" "mGeofenceBreachCallback cl" "mGeofenceBiDict cl = d"
  shows "client_cbs (deliver_breaches c bs cl) =
    client_cbs cl @ [OnGeofenceBreach (told_ids t d ids) t'. (c', ids, t') \<leftarrow> bs, c' = c]"
  using assms
proof (induction bs arbitrary: cl)
  case (Cons b bs)
  then show ?case by (auto simp: deliver_breaches_def beforeGeofenceBreachCb_def told_ids_def call_back_def split: prod.split)
qed (simp add: deliver_breaches_def)

lemma answers_breach: "answers (geofenceBreach hwIds t ad) = answers ad"
proof -
  have "answers (fold (\<lambda>(c, cb) st'. let clientIds = breached_ids c hwIds ad in
      if clientIds \<noteq> [] \<and> geofenceBreachCb cb then st'\<lparr>breaches := breaches st' @ [(c, clientIds, t)]\<rparr> else st') cs s) = answers s"
    for cs s by (induction cs arbitrary: s) (auto simp: Let_def)
  then show ?thesis by (simp add: geofenceBreach_def)
qed

text \<open>
  C37: Functional: a breach of a geofence reaches its client under the client's own id if its kind is wanted; and all ids in
  the report are geofences of the client that are among the breached ones, and for which that kind is wanted.
\<close>

theorem breach_reported_under_own_id:
  assumes client: "all_new ces api_client_new" "cl = client_run ces api_client_new" "mGeofenceBreachCallback cl"
    and adapter: "geofence_run es adapter_init = Some ad" "distinct (datas es)" "(c, cb) \<in> set (mClientData ad)" "geofenceBreachCb cb"
    and breach: "hasId i (mGeofenceBiDict cl)" "getHwIdFromClient c (getSession i (mGeofenceBiDict cl)) ad = Some hw" "hw \<in> set hwIds"
      "breach_wanted t (getExtBySession 0 (getSession i (mGeofenceBiDict cl)) (mGeofenceBiDict cl))"
    and queue: "msg_queue ad = MsgGeofenceBreach hwIds t # ms"
  shows "\<exists>cl' ad' new. system_event c (Adapter Proc) (cl, ad) = Some (cl', ad') \<and> client_cbs cl' = client_cbs cl @ new \<and>
    (\<exists>ids. OnGeofenceBreach ids t \<in> set new \<and> i \<in> set ids) \<and>
    (\<forall>x \<in> set new. \<exists>ids. x = OnGeofenceBreach ids t \<and> (\<forall>j \<in> set ids. hasId j (mGeofenceBiDict cl) \<and>
       (\<exists>hw' \<in> set hwIds. getGeofenceKeyFromHwId hw' ad = Some (GeofenceKey c (getSession j (mGeofenceBiDict cl)))) \<and>
       breach_wanted t (getExtBySession 0 (getSession j (mGeofenceBiDict cl)) (mGeofenceBiDict cl))))"
proof -
  let ?d = "mGeofenceBiDict cl" and ?ad = "ad\<lparr>msg_queue := ms\<rparr>"
  let ?s = "getSession i ?d"
  have d: "bidict_ok ?d" using client_ok_run[OF client_ok_new client(1)] client(2) by (simp add: client_ok_def)
  let ?new = "[(c, breached_ids c hwIds ?ad, t). (c, cb) \<leftarrow> mClientData ad, geofenceBreachCb cb \<and> breached_ids c hwIds ?ad \<noteq> []]"
  have "geofence_event Proc ad = Some (geofenceBreach hwIds t ?ad)" using queue by (simp add: geofence_event_def proc_msg_def)
  moreover have "breaches (geofenceBreach hwIds t ?ad) = breaches ad @ ?new" using breaches_fold[of hwIds t ?ad] by simp
  ultimately have sys: "system_event c (Adapter Proc) (cl, ad) = Some (deliver_breaches c ?new cl, geofenceBreach hwIds t ?ad)"
    by (simp add: system_event_def answers_breach)
  let ?told = "[OnGeofenceBreach (told_ids t ?d ids) t'. (c', ids, t') \<leftarrow> ?new, c' = c]"
  have cbs: "client_cbs (deliver_breaches c ?new cl) = client_cbs cl @ ?told"
    by (rule deliver_breaches_cbs) (use client(3) in \<open>auto split: if_splits\<close>)
  have "hw_inv [] ad" using hw_inv_run[OF adapter(1), of "[]"] hw_inv_init[OF adapter(2)] by simp
  then have "getGeofenceKeyFromHwId hw ?ad = Some (GeofenceKey c ?s)"
    using hw_inv_key breach(2) by (simp add: getHwIdFromClient_def getGeofenceKeyFromHwId_def)
  then have s: "?s \<in> set (breached_ids c hwIds ?ad)" using breach(3) by (auto simp: breached_ids_iff)
  have "getId ?s ?d = i" using getSession_known[OF d breach(1)] by (simp add: getId_def)
  then have "i \<in> set (told_ids t ?d (breached_ids c hwIds ?ad))" using s breach(4) by (force simp: told_ids_def)
  moreover have "OnGeofenceBreach (told_ids t ?d (breached_ids c hwIds ?ad)) t \<in> set ?told" using adapter(3,4) s by force
  moreover have "\<forall>x \<in> set ?told. \<exists>ids. x = OnGeofenceBreach ids t \<and> (\<forall>j \<in> set ids. hasId j ?d \<and>
      (\<exists>hw' \<in> set hwIds. getGeofenceKeyFromHwId hw' ad = Some (GeofenceKey c (getSession j ?d))) \<and>
      breach_wanted t (getExtBySession 0 (getSession j ?d) ?d))"
  proof
    fix x assume "x \<in> set ?told"
    then have x: "x = OnGeofenceBreach (told_ids t ?d (breached_ids c hwIds ?ad)) t" by (auto split: if_splits)
    have same: "getGeofenceKeyFromHwId hw' ?ad = getGeofenceKeyFromHwId hw' ad" for hw' by (simp add: getGeofenceKeyFromHwId_def)
    have "hasId j ?d \<and> (\<exists>hw' \<in> set hwIds. getGeofenceKeyFromHwId hw' ad = Some (GeofenceKey c (getSession j ?d))) \<and>
      breach_wanted t (getExtBySession 0 (getSession j ?d) ?d)" if "j \<in> set (told_ids t ?d (breached_ids c hwIds ?ad))" for j
      using told_ids_known[OF d that] by (simp add: breached_ids_iff same)
    then show "\<exists>ids. x = OnGeofenceBreach ids t \<and> (\<forall>j \<in> set ids. hasId j ?d \<and>
      (\<exists>hw' \<in> set hwIds. getGeofenceKeyFromHwId hw' ad = Some (GeofenceKey c (getSession j ?d))) \<and>
      breach_wanted t (getExtBySession 0 (getSession j ?d) ?d))" 
      using x by (intro exI[of _ "told_ids t ?d (breached_ids c hwIds ?ad)"] conjI[OF x] ballI)
  qed
  ultimately show ?thesis using sys cbs by blast
qed

definition breach_coming :: "event list" where
  "breach_coming = one_geofence @ [GeofenceBreach [5] 0]"

definition breach_there :: adapter where
  "breach_there = the (geofence_run breach_coming adapter_init)"

lemma breach_there_run: "geofence_run breach_coming adapter_init = Some breach_there"
proof -
  have "geofence_run breach_coming adapter_init \<noteq> None" by code_simp
  then show ?thesis by (simp add: breach_there_def)
qed

lemma breach_there_facts:
  "distinct (datas breach_coming)" "mClientData breach_there = [(7, demo_callbacks)]" "geofenceBreachCb demo_callbacks"
  "getHwIdFromClient 7 (getSession 1 (mGeofenceBiDict (client_run demo_script api_client_new))) breach_there = Some 5"
  "msg_queue breach_there = MsgGeofenceBreach [5] 0 # []"
  by code_simp+

lemma demo_script_facts:
  "all_new demo_script api_client_new" "mGeofenceBreachCallback (client_run demo_script api_client_new)"
  "hasId 1 (mGeofenceBiDict (client_run demo_script api_client_new))"
  "breach_wanted 0 (getExtBySession 0 (getSession 1 (mGeofenceBiDict (client_run demo_script api_client_new)))
    (mGeofenceBiDict (client_run demo_script api_client_new)))"
  by code_simp+

lemma breach_reported_under_own_id_witness:
  "let cl = client_run demo_script api_client_new in
    \<exists>cl' ad' new. system_event 7 (Adapter Proc) (cl, breach_there) = Some (cl', ad') \<and> client_cbs cl' = client_cbs cl @ new \<and>
    (\<exists>ids. OnGeofenceBreach ids 0 \<in> set new \<and> 1 \<in> set ids) \<and>
    (\<forall>x \<in> set new. \<exists>ids. x = OnGeofenceBreach ids 0 \<and> (\<forall>j \<in> set ids. hasId j (mGeofenceBiDict cl) \<and>
       (\<exists>hw' \<in> set [5]. getGeofenceKeyFromHwId hw' breach_there = Some (GeofenceKey 7 (getSession j (mGeofenceBiDict cl)))) \<and>
       breach_wanted 0 (getExtBySession 0 (getSession j (mGeofenceBiDict cl)) (mGeofenceBiDict cl))))"
proof -
  have "(7, demo_callbacks) \<in> set (mClientData breach_there)" by (simp add: breach_there_facts(2))
  then show ?thesis unfolding Let_def
    by (rule breach_reported_under_own_id[OF demo_script_facts(1) refl demo_script_facts(2) breach_there_run breach_there_facts(1) _
          breach_there_facts(3) demo_script_facts(3) breach_there_facts(4) _ demo_script_facts(4) breach_there_facts(5)]) simp
qed

section \<open>Where the client is misled\<close>

definition early_pause :: "u32 \<Rightarrow> geofence_option \<Rightarrow> geofence_info \<Rightarrow> u32 \<Rightarrow> system_event list" where
  "early_pause i opt info hw = [Op (GAdd [i] [opt] [info]), Op (GPause [i])] @
     map Adapter [Proc, Proc, Answer 0 LOCATION_ERROR_SUCCESS 0, Answer 0 LOCATION_ERROR_SUCCESS 0, Proc, Proc,
       Answer 0 LOCATION_ERROR_SUCCESS hw, Proc]"

text \<open>
  Error: a client that pauses a geofence right after adding it, not waiting for the answer, is told that the geofence is
  unknown when asked for the adding, and that the pause succeeded; in fact the geofence was added and is not paused.
  With one geofence, any options, and a modem that does what it is asked in order.
\<close>

theorem early_pause_misreported:
  assumes "collectiveResponseCb cb"
  shows "\<exists>cl ad object. system_run c (early_pause i opt info hw) (connected c cb) = Some (cl, ad) \<and> at_rest ad \<and>
    client_cbs cl = [OnAddGeofences [LOCATION_ERROR_ID_UNKNOWN] [i], OnPauseGeofences [LOCATION_ERROR_SUCCESS] [i]] \<and>
    mGeofences ad = [(hw, object)] \<and> \<not> paused object"
  using assms
  by (simp add: early_pause_def connected_def system_event_def client_op_def returned_ids_def locAPIAddGeofences_def
      locAPISetCallbacks_def api_client_new_def queue_new_def Let_def call_api_def on_queue_def queue_push_def queue_reset_def
      locAPIPauseGeofences_def geofences_ready_def GEOFENCE_SESSION_ID_def geofence_request_def
      perform_def addGeofencesCommand_def generateSessionId_def adapter_init_def saveClient_def updateClientsEventMask_def
      copy_if_not_null_def copy_array_def new_block_def sendMsg_def pauseGeofencesCommand_def geofencesCommand_def
      bidict_new_def bidict_set_def getSession_def getId_def geofence_event_def proc_msg_def proc_geofences_def arrays_there_def
      upt_rec request_def proc_response_def item_call_def item_request_def id_at_def option_at_def info_at_def elem_def getHwIdFromClient_def
      set_err_def last_item_def reportResponse_def item_done_def saveGeofenceItem_def deliver_breaches_def onCollectiveResponseCb_def
      pop_queue_def queue_pop_def onCollectiveResponse_def call_back_def at_rest_def word_gt_0)

lemma early_pause_misreported_witness:
  "\<exists>cl ad object. system_run 7 (early_pause 1 demo_option demo_info 5) (connected 7 demo_callbacks) = Some (cl, ad) \<and> at_rest ad \<and>
    client_cbs cl = [OnAddGeofences [LOCATION_ERROR_ID_UNKNOWN] [1], OnPauseGeofences [LOCATION_ERROR_SUCCESS] [1]] \<and>
    mGeofences ad = [(5, object)] \<and> \<not> paused object"
  by (rule early_pause_misreported) (simp add: demo_callbacks_def)

text \<open>
  Error: removing all geofences takes the sessions for ids: unless a session happens to be the id of another
  geofence, nothing is removed and the modem is not asked.
\<close>

theorem remove_all_misses:
  assumes "\<forall>s. hasSession s (mGeofenceBiDict st) \<longrightarrow> \<not> hasId s (mGeofenceBiDict st)"
  shows "locAPIRemoveAllGeofences st = st"
proof -
  have none: "take_geofences ss d r = ([], d, r)" if "\<forall>s \<in> set ss. getSession s d = 0" for ss d r
    using that by (induction ss) simp_all
  have "getSession s (mGeofenceBiDict st) = 0" if "s \<in> set (getAllSessions (mGeofenceBiDict st))" for s
  proof -
    have "hasSession s (mGeofenceBiDict st)"
      using that map_of_eq_None_iff[of "mBackwardMap (mGeofenceBiDict st)" s] by (auto simp: getAllSessions_def hasSession_def)
    then show ?thesis using assms by (auto simp: hasId_def getSession_def)
  qed
  then show ?thesis using none[of "getAllSessions (mGeofenceBiDict st)"]
    by (simp add: locAPIRemoveAllGeofences_def Let_def locAPIRemoveGeofences_def)
qed

lemma remove_all_misses_witness:
  "locAPIRemoveAllGeofences (client_run demo_script api_client_new) = client_run demo_script api_client_new \<and>
   getAllSessions (mGeofenceBiDict (client_run demo_script api_client_new)) = [2]"
proof
  have "mBackwardMap (mGeofenceBiDict (client_run demo_script api_client_new)) = [(2, 1)]"
    "mForwardMap (mGeofenceBiDict (client_run demo_script api_client_new)) = [(1, 2)]" by code_simp+
  then show "locAPIRemoveAllGeofences (client_run demo_script api_client_new) = client_run demo_script api_client_new"
    "getAllSessions (mGeofenceBiDict (client_run demo_script api_client_new)) = [2]"
    using remove_all_misses[of "client_run demo_script api_client_new"] by (simp_all add: hasSession_def hasId_def getAllSessions_def)
qed

text \<open>Modifying geofences of which the first is unknown gives the second the options of the first.\<close>

lemma modify_shifts_options:
  assumes "geofences_ready st" "getSession i (mGeofenceBiDict st) = 0" "getSession j (mGeofenceBiDict st) = s" "s \<noteq> 0"
  shows "api_calls (locAPIModifyGeofences [i, j] [o1, o2] st) = api_calls st @ [ApiModifyGeofences [s] [o1, o2]]"
  using assms by (simp add: locAPIModifyGeofences_def Let_def geofence_request_def call_api_def on_queue_def word_gt_0)

end
