(* ===== verification/LocApi.thy ===== *)
theory LocApi
  imports ApiClient
begin

text \<open>
  The location API (gps/location/LocationAPI.cpp): its clients, the interfaces it loads on demand, and the destruction of
  clients, which waits until every interface has let go of the client. The mutex makes every function one step;
  loading a library and the adapters behind the interfaces are parameters: \<open>loads\<close> says which libraries are there, and
  an interface answers a request to remove a client once, at any later time. Calls of a function object that is
  empty, deleting an object that is not there, and calling a method of one that is not there are \<open>None\<close>.
\<close>

section \<open>Data\<close>

datatype iface = GnssIf | BatchingIf | GeofenceIf

text \<open>Which of the callbacks are there.\<close>

record api_callbacks = location_callbacks +
  responseCb :: bool
  trackingCb :: bool
  batchingCb :: bool
  gnssLocationInfoCb :: bool
  engineLocationsInfoCb :: bool
  gnssNiCb :: bool
  gnssSvCb :: bool
  gnssNmeaCb :: bool
  gnssDataCb :: bool
  gnssMeasurementsCb :: bool
  gnssNHzMeasurementsCb :: bool
  locationSystemInfoCb :: bool

definition isGnssClient :: "api_callbacks \<Rightarrow> bool" where
  "isGnssClient cb \<longleftrightarrow> gnssNiCb cb \<or> trackingCb cb \<or> gnssLocationInfoCb cb \<or> engineLocationsInfoCb cb \<or> gnssSvCb cb \<or>
     gnssNmeaCb cb \<or> gnssDataCb cb \<or> gnssMeasurementsCb cb \<or> gnssNHzMeasurementsCb cb \<or> locationSystemInfoCb cb"

definition isBatchingClient :: "api_callbacks \<Rightarrow> bool" where
  "isBatchingClient cb \<longleftrightarrow> batchingCb cb"

definition isGeofenceClient :: "api_callbacks \<Rightarrow> bool" where
  "isGeofenceClient cb \<longleftrightarrow> geofenceBreachCb cb \<or> geofenceStatusCb cb"

definition LOCATION_ADAPTER_GNSS_TYPE_BIT :: u32 where "LOCATION_ADAPTER_GNSS_TYPE_BIT = 1"
definition LOCATION_ADAPTER_BATCHING_TYPE_BIT :: u32 where "LOCATION_ADAPTER_BATCHING_TYPE_BIT = 2"
definition LOCATION_ADAPTER_GEOFENCE_TYPE_BIT :: u32 where "LOCATION_ADAPTER_GEOFENCE_TYPE_BIT = 4"

definition adapter_bit :: "iface \<Rightarrow> u32" where
  "adapter_bit i = (case i of GnssIf \<Rightarrow> LOCATION_ADAPTER_GNSS_TYPE_BIT | BatchingIf \<Rightarrow> LOCATION_ADAPTER_BATCHING_TYPE_BIT
     | GeofenceIf \<Rightarrow> LOCATION_ADAPTER_GEOFENCE_TYPE_BIT)"

datatype iface_call =
    IfInitialize iface | IfAddClient iface ptr | IfRequestCapabilities iface ptr | IfRemoveClient iface ptr
  | IfCommand iface ptr client_call

text \<open>
  \<open>loaded\<close> and \<open>load_failed\<close> are the pointers to the interfaces and the flags of failed attempts. The last fields are what
  happens outside: the calls of the interfaces, the removals that are not answered yet, the completions that were
  reported to clients, the objects that are there.
\<close>

record api_data =
  clientData :: "(ptr \<times> api_callbacks) list"
  destroyClientData :: "(ptr \<times> u32) list"
  loaded :: "iface \<Rightarrow> bool"
  load_failed :: "iface \<Rightarrow> bool"
  iface_calls :: "iface_call list"
  removals :: "(iface \<times> ptr) list"
  completed :: "ptr list"
  objects :: "ptr set"

definition api_data_new :: api_data where
  "api_data_new = \<lparr>clientData = [], destroyClientData = [], loaded = (\<lambda>_. False), load_failed = (\<lambda>_. False),
     iface_calls = [], removals = [], completed = [], objects = {}\<rparr>"

definition if_call :: "iface_call \<Rightarrow> api_data \<Rightarrow> api_data" where
  "if_call c g = g\<lparr>iface_calls := iface_calls g @ [c]\<rparr>"

section \<open>Clients\<close>

definition load_interface :: "(iface \<Rightarrow> bool) \<Rightarrow> iface \<Rightarrow> api_data \<Rightarrow> api_data" where
  "load_interface loads i g =
     (if \<not> loaded g i \<and> \<not> load_failed g i then
        if loads i then if_call (IfInitialize i) (g\<lparr>loaded := (loaded g)(i := True)\<rparr>)
        else g\<lparr>load_failed := (load_failed g)(i := True)\<rparr>
      else g)"

text \<open>For one interface: load it, add the client, and ask for the capabilities unless that was done.\<close>

definition join_interface :: "(iface \<Rightarrow> bool) \<Rightarrow> bool \<Rightarrow> iface \<Rightarrow> ptr \<Rightarrow> bool \<times> api_data \<Rightarrow> bool \<times> api_data" where
  "join_interface loads wanted i this s =
     (let (requestedCapabilities, g) = s in
      if wanted then
        let g = load_interface loads i g in
        if loaded g i then
          let g = if_call (IfAddClient i this) g in
          (if \<not> requestedCapabilities then (True, if_call (IfRequestCapabilities i this) g) else (requestedCapabilities, g))
        else (requestedCapabilities, g)
      else (requestedCapabilities, g))"

definition mandatory_there :: "api_callbacks \<Rightarrow> bool" where
  "mandatory_there cb \<longleftrightarrow> capabilitiesCb cb \<and> responseCb cb \<and> collectiveResponseCb cb"

text \<open>\<open>this\<close> is the new object; with another implementation of the API, which \<open>impl\<close> stands for, there is none.\<close>

definition createInstance :: "(iface \<Rightarrow> bool) \<Rightarrow> bool \<Rightarrow> ptr \<Rightarrow> api_callbacks \<Rightarrow> api_data \<Rightarrow> api_data" where
  "createInstance loads impl this cb g =
     (if \<not> mandatory_there cb \<or> impl then g
      else
        let g = g\<lparr>objects := insert this (objects g)\<rparr>;
            s = join_interface loads (isGnssClient cb) GnssIf this (False, g);
            s = join_interface loads (isBatchingClient cb) BatchingIf this s;
            (_, g) = join_interface loads (isGeofenceClient cb) GeofenceIf this s in
        g\<lparr>clientData := map_set this cb (clientData g)\<rparr>)"

definition updateCallbacks :: "(iface \<Rightarrow> bool) \<Rightarrow> ptr \<Rightarrow> api_callbacks \<Rightarrow> api_data \<Rightarrow> api_data" where
  "updateCallbacks loads this cb g =
     (if \<not> mandatory_there cb then g
      else
        let s = join_interface loads (isGnssClient cb) GnssIf this (True, g);
            s = join_interface loads (isBatchingClient cb) BatchingIf this s;
            (_, g) = join_interface loads (isGeofenceClient cb) GeofenceIf this s in
        g\<lparr>clientData := map_set this cb (clientData g)\<rparr>)"

definition remove_from :: "iface \<Rightarrow> ptr \<Rightarrow> api_data \<Rightarrow> api_data" where
  "remove_from i this g =
     (if loaded g i then (if_call (IfRemoveClient i this) g)\<lparr>removals := removals g @ [(i, this)]\<rparr> else g)"

definition wait_mask :: "api_data \<Rightarrow> u32" where
  "wait_mask g = (if loaded g GnssIf then LOCATION_ADAPTER_GNSS_TYPE_BIT else 0) OR
     (if loaded g BatchingIf then LOCATION_ADAPTER_BATCHING_TYPE_BIT else 0) OR
     (if loaded g GeofenceIf then LOCATION_ADAPTER_GEOFENCE_TYPE_BIT else 0)"

text \<open>To call an empty function object throws. The code asks whether it is empty and calls it if so.\<close>

definition call_completion :: "ptr \<Rightarrow> bool \<Rightarrow> api_data \<Rightarrow> api_data option" where
  "call_completion this destroyCompleteCb g = (if destroyCompleteCb then Some (g\<lparr>completed := completed g @ [this]\<rparr>) else None)"

definition complete :: "ptr \<Rightarrow> bool \<Rightarrow> api_data \<Rightarrow> api_data option" where
  "complete this destroyCompleteCb g = (if \<not> destroyCompleteCb then call_completion this destroyCompleteCb g else Some g)"

definition delete_object :: "ptr \<Rightarrow> api_data \<Rightarrow> api_data option" where
  "delete_object this g = (if this \<in> objects g then Some (g\<lparr>objects := objects g - {this}\<rparr>) else None)"

definition api_destroy :: "ptr \<Rightarrow> bool \<Rightarrow> api_data \<Rightarrow> api_data option" where
  "api_destroy this destroyCompleteCb g =
     (if map_of (clientData g) this \<noteq> None then
        let needToWait = loaded g GnssIf \<or> loaded g BatchingIf \<or> loaded g GeofenceIf;
            g = (if destroyCompleteCb \<and> needToWait then g\<lparr>destroyClientData := map_set this (wait_mask g) (destroyClientData g)\<rparr> else g);
            g = remove_from GeofenceIf this (remove_from BatchingIf this (remove_from GnssIf this g));
            g = g\<lparr>clientData := map_erase this (clientData g)\<rparr> in
        if \<not> needToWait then do { g \<leftarrow> complete this destroyCompleteCb g; delete_object this g } else Some g
      else Some g)"

text \<open>An entry of \<open>destroyClientData\<close> always has a completion.\<close>

definition onRemoveClientCompleteCb :: "iface \<Rightarrow> ptr \<Rightarrow> api_data \<Rightarrow> api_data option" where
  "onRemoveClientCompleteCb adapterType this g =
     (case map_of (destroyClientData g) this of
        None \<Rightarrow> Some g
      | Some m \<Rightarrow>
          let m = m AND NOT (adapter_bit adapterType) in
          if m = 0 then do {
            g \<leftarrow> complete this True (g\<lparr>destroyClientData := map_erase this (destroyClientData g)\<rparr>);
            delete_object this g }
          else Some (g\<lparr>destroyClientData := map_set this m (destroyClientData g)\<rparr>))"

text \<open>The interfaces and the clients call methods of an object by its address.\<close>

definition on_object :: "ptr \<Rightarrow> api_data \<Rightarrow> 'a option \<Rightarrow> 'a option" where
  "on_object this g result = (if this \<in> objects g then result else None)"

definition client_removed :: "iface \<Rightarrow> ptr \<Rightarrow> api_data \<Rightarrow> api_data option" where
  "client_removed i client g = on_object client g (onRemoveClientCompleteCb i client g)"

section \<open>Commands\<close>

text \<open>A command goes to its interface if that is loaded; tracking also wants the client to be known.\<close>

definition forward :: "iface \<Rightarrow> ptr \<Rightarrow> client_call \<Rightarrow> api_data \<Rightarrow> bool \<times> api_data" where
  "forward i this call g = (if loaded g i then (True, if_call (IfCommand i this call) g) else (False, g))"

definition forward_known :: "iface \<Rightarrow> ptr \<Rightarrow> client_call \<Rightarrow> api_data \<Rightarrow> bool \<times> api_data" where
  "forward_known i this call g = (if map_of (clientData g) this \<noteq> None then forward i this call g else (False, g))"

text \<open>\<open>session\<close> is what the interface returns.\<close>

definition api_startTracking :: "ptr \<Rightarrow> location_options \<Rightarrow> u32 \<Rightarrow> api_data \<Rightarrow> u32 \<times> api_data" where
  "api_startTracking this opts session g =
     (let (sent, g) = forward_known GnssIf this (ApiStartTracking opts) g in (if sent then session else 0, g))"

definition api_stopTracking :: "ptr \<Rightarrow> u32 \<Rightarrow> api_data \<Rightarrow> api_data" where
  "api_stopTracking this s g = snd (forward_known GnssIf this (ApiStopTracking s) g)"

definition api_updateTrackingOptions :: "ptr \<Rightarrow> u32 \<Rightarrow> location_options \<Rightarrow> api_data \<Rightarrow> api_data" where
  "api_updateTrackingOptions this s opts g = snd (forward_known GnssIf this (ApiUpdateTrackingOptions s opts) g)"

definition api_startBatching :: "ptr \<Rightarrow> batching_mode \<Rightarrow> location_options \<Rightarrow> u32 \<Rightarrow> api_data \<Rightarrow> u32 \<times> api_data" where
  "api_startBatching this mode opts session g =
     (let (sent, g) = forward BatchingIf this (ApiStartBatching mode opts) g in (if sent then session else 0, g))"

definition api_stopBatching :: "ptr \<Rightarrow> u32 \<Rightarrow> api_data \<Rightarrow> api_data" where
  "api_stopBatching this s g = snd (forward BatchingIf this (ApiStopBatching s) g)"

definition api_updateBatchingOptions :: "ptr \<Rightarrow> u32 \<Rightarrow> batching_mode \<Rightarrow> location_options \<Rightarrow> api_data \<Rightarrow> api_data" where
  "api_updateBatchingOptions this s mode opts g = snd (forward BatchingIf this (ApiUpdateBatchingOptions s mode opts) g)"

definition api_getBatchedLocations :: "ptr \<Rightarrow> u32 \<Rightarrow> nat \<Rightarrow> api_data \<Rightarrow> api_data" where
  "api_getBatchedLocations this s n g = snd (forward BatchingIf this (ApiGetBatchedLocations s n) g)"

definition api_addGeofences ::
    "ptr \<Rightarrow> nat \<Rightarrow> geofence_option list \<Rightarrow> geofence_info list \<Rightarrow> u32 list option \<Rightarrow> api_data \<Rightarrow> u32 list option \<times> api_data" where
  "api_addGeofences this n opts infos ids g =
     (let (sent, g) = forward GeofenceIf this (ApiAddGeofences n opts infos) g in (if sent then ids else None, g))"

definition api_removeGeofences :: "ptr \<Rightarrow> u32 list \<Rightarrow> api_data \<Rightarrow> api_data" where
  "api_removeGeofences this ids g = snd (forward GeofenceIf this (ApiRemoveGeofences ids) g)"

definition api_modifyGeofences :: "ptr \<Rightarrow> u32 list \<Rightarrow> geofence_option list \<Rightarrow> api_data \<Rightarrow> api_data" where
  "api_modifyGeofences this ids opts g = snd (forward GeofenceIf this (ApiModifyGeofences ids opts) g)"

definition api_pauseGeofences :: "ptr \<Rightarrow> u32 list \<Rightarrow> api_data \<Rightarrow> api_data" where
  "api_pauseGeofences this ids g = snd (forward GeofenceIf this (ApiPauseGeofences ids) g)"

definition api_resumeGeofences :: "ptr \<Rightarrow> u32 list \<Rightarrow> api_data \<Rightarrow> api_data" where
  "api_resumeGeofences this ids g = snd (forward GeofenceIf this (ApiResumeGeofences ids) g)"

definition api_gnssNiResponse :: "ptr \<Rightarrow> u32 \<Rightarrow> api_data \<Rightarrow> api_data" where
  "api_gnssNiResponse this s g = snd (forward GnssIf this (ApiGnssNiResponse s) g)"

section \<open>Scripts\<close>

text \<open>
  A client is created at a new address, changes its callbacks, gives commands, and is destroyed; an interface reports the
  removal of a client.
\<close>

datatype api_step =
    ACreate bool ptr api_callbacks
  | AUpdate ptr api_callbacks
  | ACommand ptr client_call
  | ADestroy ptr bool
  | ARemoved nat

definition api_command :: "ptr \<Rightarrow> client_call \<Rightarrow> api_data \<Rightarrow> api_data" where
  "api_command this call g = (case call of
     ApiStartTracking opts \<Rightarrow> snd (api_startTracking this opts 1 g) | ApiStopTracking s \<Rightarrow> api_stopTracking this s g
   | ApiUpdateTrackingOptions s opts \<Rightarrow> api_updateTrackingOptions this s opts g
   | ApiStartBatching mode opts \<Rightarrow> snd (api_startBatching this mode opts 1 g) | ApiStopBatching s \<Rightarrow> api_stopBatching this s g
   | ApiUpdateBatchingOptions s mode opts \<Rightarrow> api_updateBatchingOptions this s mode opts g
   | ApiGetBatchedLocations s n \<Rightarrow> api_getBatchedLocations this s n g
   | ApiAddGeofences n opts infos \<Rightarrow> snd (api_addGeofences this n opts infos None g)
   | ApiRemoveGeofences ids \<Rightarrow> api_removeGeofences this ids g | ApiModifyGeofences ids opts \<Rightarrow> api_modifyGeofences this ids opts g
   | ApiPauseGeofences ids \<Rightarrow> api_pauseGeofences this ids g | ApiResumeGeofences ids \<Rightarrow> api_resumeGeofences this ids g
   | ApiGnssNiResponse s \<Rightarrow> api_gnssNiResponse this s g
   | _ \<Rightarrow> g)"

definition api_step :: "(iface \<Rightarrow> bool) \<Rightarrow> api_step \<Rightarrow> api_data \<Rightarrow> api_data option" where
  "api_step loads e g = (case e of
     ACreate impl this cb \<Rightarrow> Some (createInstance loads impl this cb g)
   | AUpdate this cb \<Rightarrow> on_object this g (Some (updateCallbacks loads this cb g))
   | ACommand this call \<Rightarrow> on_object this g (Some (api_command this call g))
   | ADestroy this destroyCompleteCb \<Rightarrow> on_object this g (api_destroy this destroyCompleteCb g)
   | ARemoved k \<Rightarrow>
       if k < length (removals g)
       then (case removals g ! k of (i, this) \<Rightarrow>
         client_removed i this (g\<lparr>removals := take k (removals g) @ drop (Suc k) (removals g)\<rparr>))
       else Some g)"

fun api_steps :: "(iface \<Rightarrow> bool) \<Rightarrow> api_step list \<Rightarrow> api_data \<Rightarrow> api_data option" where
  "api_steps loads [] g = Some g"
| "api_steps loads (e # es) g = do { g \<leftarrow> api_step loads e g; api_steps loads es g }"

end
