(* ===== verification/LocApiProps.thy ===== *)
theory LocApiProps
  imports LocApi
begin

text \<open>
  Destroying a client of the location API: the object is deleted once, when the last interface has let go of it; the
  completion is never reported.
\<close>

section \<open>Masks\<close>

definition mask_of :: "iface set \<Rightarrow> u32" where
  "mask_of X = (if GnssIf \<in> X then LOCATION_ADAPTER_GNSS_TYPE_BIT else 0) OR
     (if BatchingIf \<in> X then LOCATION_ADAPTER_BATCHING_TYPE_BIT else 0) OR
     (if GeofenceIf \<in> X then LOCATION_ADAPTER_GEOFENCE_TYPE_BIT else 0)"

lemmas bit_defs = LOCATION_ADAPTER_GNSS_TYPE_BIT_def LOCATION_ADAPTER_BATCHING_TYPE_BIT_def LOCATION_ADAPTER_GEOFENCE_TYPE_BIT_def

lemma iface_all: "(\<forall>i. P i) \<longleftrightarrow> P GnssIf \<and> P BatchingIf \<and> P GeofenceIf"
  by (metis iface.exhaust)

lemma wait_mask_of: "wait_mask g = mask_of {i. loaded g i}"
  by (simp add: wait_mask_def mask_of_def)

lemma mask_of_drop: "mask_of X AND NOT (adapter_bit i) = mask_of (X - {i})"
  by (cases i; cases "GnssIf \<in> X"; cases "BatchingIf \<in> X"; cases "GeofenceIf \<in> X")
    (simp_all add: mask_of_def adapter_bit_def bit_defs)

lemma mask_of_0: "mask_of X = 0 \<longleftrightarrow> X = {}"
proof -
  have "X = {} \<longleftrightarrow> GnssIf \<notin> X \<and> BatchingIf \<notin> X \<and> GeofenceIf \<notin> X" using iface_all[of "\<lambda>i. i \<notin> X"] by auto
  then show ?thesis
    by (cases "GnssIf \<in> X"; cases "BatchingIf \<in> X"; cases "GeofenceIf \<in> X") (simp_all add: mask_of_def bit_defs)
qed

section \<open>The invariant\<close>

text \<open>The interfaces that still hold a client that was destroyed.\<close>

definition held_by :: "ptr \<Rightarrow> api_data \<Rightarrow> iface set" where
  "held_by p g = {i. (i, p) \<in> set (removals g)}"

definition api_ok :: "api_data \<Rightarrow> bool" where
  "api_ok g \<longleftrightarrow> map_ok (clientData g) \<and> map_ok (destroyClientData g) \<and> distinct (removals g) \<and> completed g = [] \<and>
     (\<forall>p. map_of (clientData g) p \<noteq> None \<longrightarrow> p \<in> objects g \<and> held_by p g = {} \<and> map_of (destroyClientData g) p = None) \<and>
     (\<forall>p m. map_of (destroyClientData g) p = Some m \<longrightarrow> p \<in> objects g \<and> m = mask_of (held_by p g) \<and> m \<noteq> 0) \<and>
     (\<forall>p. held_by p g \<noteq> {} \<longrightarrow> p \<in> objects g)"

text \<open>Every object is a client or waits for its interfaces.\<close>

definition none_leaked :: "api_data \<Rightarrow> bool" where
  "none_leaked g \<longleftrightarrow> (\<forall>p \<in> objects g. map_of (clientData g) p \<noteq> None \<or> map_of (destroyClientData g) p \<noteq> None)"

text \<open>
  Objects are created where there is none, callbacks are changed by clients that were not destroyed, commands are given and
  destruction is asked for by such clients or with an object that is there all the same, and a client that is destroyed gives a completion.
\<close>

definition step_fair :: "api_step \<Rightarrow> api_data \<Rightarrow> bool" where
  "step_fair e g = (case e of ACreate impl this cb \<Rightarrow> this \<notin> objects g | AUpdate this cb \<Rightarrow> map_of (clientData g) this \<noteq> None
     | ACommand this call \<Rightarrow> map_of (clientData g) this \<noteq> None \<or> this \<in> objects g
     | ADestroy this destroyCompleteCb \<Rightarrow> destroyCompleteCb \<and> (map_of (clientData g) this \<noteq> None \<or> this \<in> objects g) | ARemoved k \<Rightarrow> True)"

fun steps_fair :: "(iface \<Rightarrow> bool) \<Rightarrow> api_step list \<Rightarrow> api_data \<Rightarrow> bool" where
  "steps_fair loads [] g \<longleftrightarrow> True"
| "steps_fair loads (e # es) g \<longleftrightarrow> step_fair e g \<and> (case api_step loads e g of None \<Rightarrow> True | Some g' \<Rightarrow> steps_fair loads es g')"

text \<open>What joining interfaces and passing on commands leaves alone.\<close>

definition same_clients :: "api_data \<Rightarrow> api_data \<Rightarrow> bool" where
  "same_clients g g' \<longleftrightarrow> clientData g' = clientData g \<and> destroyClientData g' = destroyClientData g \<and> removals g' = removals g \<and>
     completed g' = completed g \<and> objects g' = objects g"

lemma same_clients_join: "same_clients g g' \<Longrightarrow> same_clients g (snd (join_interface loads wanted i this (b, g')))"
  by (simp add: join_interface_def load_interface_def if_call_def Let_def same_clients_def)

lemma same_clients_joins:
  "join_interface loads w3 i3 this (join_interface loads w2 i2 this (join_interface loads w1 i1 this (b, g))) = (b', g') \<Longrightarrow> same_clients g g'"
proof -
  assume eq: "join_interface loads w3 i3 this (join_interface loads w2 i2 this (join_interface loads w1 i1 this (b, g))) = (b', g')"
  obtain b1 g1 where 1: "join_interface loads w1 i1 this (b, g) = (b1, g1)" by fastforce
  obtain b2 g2 where 2: "join_interface loads w2 i2 this (b1, g1) = (b2, g2)" by fastforce
  have "same_clients g g1" using same_clients_join[of g g loads w1 i1 this b] 1 by (simp add: same_clients_def)
  then have "same_clients g g2" using same_clients_join[of g g1 loads w2 i2 this b1] 2 by simp
  then show "same_clients g g'" using same_clients_join[of g g2 loads w3 i3 this b2] eq 1 2 by simp
qed

lemma same_clients_command: "same_clients g (api_command this call g)"
  by (cases call) (simp_all add: api_command_def same_clients_def api_startTracking_def api_stopTracking_def api_updateTrackingOptions_def
      api_startBatching_def api_stopBatching_def api_updateBatchingOptions_def api_getBatchedLocations_def api_addGeofences_def
      api_removeGeofences_def api_modifyGeofences_def api_pauseGeofences_def api_resumeGeofences_def api_gnssNiResponse_def
      forward_known_def forward_def if_call_def)

lemma api_ok_same: "same_clients g g' \<Longrightarrow> api_ok g' = api_ok g" "same_clients g g' \<Longrightarrow> none_leaked g' = none_leaked g"
  by (simp_all add: same_clients_def api_ok_def none_leaked_def held_by_def)

lemma api_ok_enter:
  assumes "api_ok g" "none_leaked g" "held_by this g = {}" "map_of (destroyClientData g) this = None"
  shows "api_ok (g\<lparr>objects := insert this (objects g), clientData := map_set this cb (clientData g)\<rparr>)" (is "api_ok ?g")
    "none_leaked (g\<lparr>objects := insert this (objects g), clientData := map_set this cb (clientData g)\<rparr>)"
proof -
  have ok: "map_ok (clientData g)" using assms(1) by (simp add: api_ok_def)
  have held: "held_by p ?g = held_by p g" for p by (simp add: held_by_def)
  have "map_ok (clientData ?g)" by (simp add: omap.inv_set ok)
  then show "api_ok ?g" using assms unfolding api_ok_def held by (simp add: omap.find_set[OF ok])
  show "none_leaked ?g" using assms(2) by (simp add: none_leaked_def omap.find_set[OF ok])
qed

lemma api_ok_create:
  assumes "api_ok g" "none_leaked g" "this \<notin> objects g"
  shows "api_ok (createInstance loads impl this cb g) \<and> none_leaked (createInstance loads impl this cb g)"
proof (cases "\<not> mandatory_there cb \<or> impl")
  case False
  let ?g = "g\<lparr>objects := insert this (objects g)\<rparr>"
  obtain b g' where j: "join_interface loads (isGeofenceClient cb) GeofenceIf this (join_interface loads (isBatchingClient cb) BatchingIf this
      (join_interface loads (isGnssClient cb) GnssIf this (False, ?g))) = (b, g')" by fastforce
  have held: "held_by this g = {}" using assms(1,3) by (auto simp: api_ok_def)
  have "map_of (destroyClientData g) this = None"
    using assms(1,3) by (cases "map_of (destroyClientData g) this") (auto simp: api_ok_def)
  note enter = api_ok_enter[OF assms(1,2) held this, of cb]
  have "same_clients ?g g'" using same_clients_joins[OF j] .
  then have "same_clients (g\<lparr>objects := insert this (objects g), clientData := map_set this cb (clientData g)\<rparr>)
      (g'\<lparr>clientData := map_set this cb (clientData g')\<rparr>)" by (simp add: same_clients_def)
  then show ?thesis using enter api_ok_same False j by (simp add: createInstance_def Let_def)
qed (use assms in \<open>auto simp: createInstance_def\<close>)

lemma api_ok_update:
  assumes "api_ok g" "none_leaked g" "map_of (clientData g) this \<noteq> None"
  shows "api_ok (updateCallbacks loads this cb g) \<and> none_leaked (updateCallbacks loads this cb g)"
proof (cases "mandatory_there cb")
  case True
  obtain b g' where j: "join_interface loads (isGeofenceClient cb) GeofenceIf this (join_interface loads (isBatchingClient cb) BatchingIf this
      (join_interface loads (isGnssClient cb) GnssIf this (True, g))) = (b, g')" by fastforce
  have here: "held_by this g = {}" "map_of (destroyClientData g) this = None" "this \<in> objects g"
    using assms(1,3) by (auto simp: api_ok_def)
  note enter = api_ok_enter[OF assms(1,2) here(1,2), of cb]
  have "same_clients g g'" using same_clients_joins[OF j] .
  then have "same_clients (g\<lparr>objects := insert this (objects g), clientData := map_set this cb (clientData g)\<rparr>)
      (g'\<lparr>clientData := map_set this cb (clientData g')\<rparr>)" using here(3) by (auto simp: same_clients_def)
  then show ?thesis using enter api_ok_same True j by (simp add: updateCallbacks_def Let_def)
qed (use assms in \<open>auto simp: updateCallbacks_def\<close>)

section \<open>Destruction\<close>

definition loaded_list :: "api_data \<Rightarrow> iface list" where
  "loaded_list g = filter (loaded g) [GnssIf, BatchingIf, GeofenceIf]"

lemma loaded_list: "set (loaded_list g) = {i. loaded g i}" "distinct (loaded_list g)"
  by (simp_all add: loaded_list_def set_eq_iff iface_all)

lemma remove_from_all:
  "remove_from GeofenceIf this (remove_from BatchingIf this (remove_from GnssIf this g)) =
     g\<lparr>iface_calls := iface_calls g @ map (\<lambda>i. IfRemoveClient i this) (loaded_list g),
       removals := removals g @ map (\<lambda>i. (i, this)) (loaded_list g)\<rparr>"
  by (cases "loaded g GnssIf"; cases "loaded g BatchingIf"; cases "loaded g GeofenceIf")
    (simp_all add: remove_from_def if_call_def loaded_list_def)

lemma distinct_gap: "distinct (ys @ x # zs) \<Longrightarrow> set (ys @ zs) = set (ys @ x # zs) - {x} \<and> distinct (ys @ zs)"
  by auto

lemma api_ok_destroy:
  assumes ok: "api_ok g" "none_leaked g"
  shows "\<exists>g'. api_destroy this True g = Some g' \<and> api_ok g' \<and> none_leaked g'"
proof (cases "map_of (clientData g) this = None")
  case False
  have here: "this \<in> objects g" "held_by this g = {}" "map_of (destroyClientData g) this = None"
    and maps: "map_ok (clientData g)" "map_ok (destroyClientData g)" using ok(1) False by (auto simp: api_ok_def)
  have erase: "map_ok (map_erase this (clientData g))" by (rule omap.inv_erase[OF maps(1)])
  show ?thesis
  proof (cases "loaded g GnssIf \<or> loaded g BatchingIf \<or> loaded g GeofenceIf")
    case True
    let ?d = "g\<lparr>destroyClientData := map_set this (wait_mask g) (destroyClientData g)\<rparr>"
    let ?g = "?d\<lparr>iface_calls := iface_calls g @ map (\<lambda>i. IfRemoveClient i this) (loaded_list g),
      removals := removals g @ map (\<lambda>i. (i, this)) (loaded_list g), clientData := map_erase this (clientData g)\<rparr>"
    have eq: "api_destroy this True g = Some ?g"
      using True False by (simp add: api_destroy_def Let_def remove_from_all loaded_list_def)
    have held: "held_by p ?g = (if p = this then {i. loaded g i} else held_by p g)" for p
      using here(2) loaded_list(1)[of g] by (auto simp: held_by_def)
    have "{i. loaded g i} \<noteq> {}" using True by auto
    then have mask: "wait_mask g = mask_of {i. loaded g i}" "wait_mask g \<noteq> 0" using mask_of_0 by (auto simp: wait_mask_of)
    have "distinct (removals ?g)" using ok(1) here(2) loaded_list(2)[of g]
      by (auto simp: api_ok_def held_by_def distinct_map inj_on_def)
    moreover have "map_ok (destroyClientData ?g)" by (simp add: omap.inv_set maps)
    ultimately have "api_ok ?g" using ok(1) erase here(1) mask unfolding api_ok_def held
      by (simp add: omap.find_set[OF maps(2)] map_of_erase)
    moreover have "none_leaked ?g" using ok(2) by (simp add: none_leaked_def omap.find_set[OF maps(2)] map_of_erase)
    ultimately show ?thesis using eq by blast
  next
    case none: False
    have eq: "api_destroy this True g =
        Some (g\<lparr>clientData := map_erase this (clientData g), objects := objects g - {this}\<rparr>)" (is "_ = Some ?g")
      using none False here(1)
      by (simp add: api_destroy_def Let_def complete_def delete_object_def remove_from_all loaded_list_def)
    have held: "held_by p ?g = held_by p g" for p by (simp add: held_by_def)
    have "held_by p g \<noteq> {} \<Longrightarrow> p \<noteq> this" "map_of (destroyClientData g) p \<noteq> None \<Longrightarrow> p \<noteq> this" for p using here by auto
    then have "api_ok ?g" using ok(1) erase unfolding api_ok_def held by (simp add: map_of_erase)
    moreover have "none_leaked ?g" using ok(2) by (simp add: none_leaked_def map_of_erase)
    ultimately show ?thesis using eq by blast
  qed
qed (use ok in \<open>simp add: api_destroy_def\<close>)

lemma api_ok_removed:
  assumes ok: "api_ok g" "none_leaked g" and k: "k < length (removals g)" "removals g ! k = (i, this)"
  shows "\<exists>g'. onRemoveClientCompleteCb i this (g\<lparr>removals := take k (removals g) @ drop (Suc k) (removals g)\<rparr>) = Some g' \<and>
    api_ok g' \<and> none_leaked g'"
proof -
  let ?g = "g\<lparr>removals := take k (removals g) @ drop (Suc k) (removals g)\<rparr>"
  have split: "removals g = take k (removals g) @ (i, this) # drop (Suc k) (removals g)" using k id_take_nth_drop by metis
  have maps: "map_ok (clientData g)" "map_ok (destroyClientData g)" and dist: "distinct (removals g)" using ok(1) by (auto simp: api_ok_def)
  have set: "set (removals ?g) = set (removals g) - {(i, this)}" "distinct (removals ?g)"
    using distinct_gap[of "take k (removals g)" "(i, this)" "drop (Suc k) (removals g)"] dist split by simp_all
  have held: "held_by p ?g = (if p = this then held_by this g - {i} else held_by p g)" for p
    unfolding held_by_def set(1) by auto
  show ?thesis
  proof (cases "map_of (destroyClientData g) this")
    case None
    then have "onRemoveClientCompleteCb i this ?g = Some ?g" by (simp add: onRemoveClientCompleteCb_def)
    moreover have "api_ok ?g" using ok(1) set(2) None unfolding api_ok_def held by auto
    ultimately show ?thesis using ok(2) by (simp add: none_leaked_def)
  next
    case (Some m)
    then have "m = mask_of (held_by this g)" and there: "this \<in> objects g" using ok(1) by (auto simp: api_ok_def)
    then have m: "m AND NOT (adapter_bit i) = mask_of (held_by this g - {i})" using mask_of_drop by simp
    have no: "map_of (clientData g) this = None" using ok(1) Some by (auto simp: api_ok_def)
    show ?thesis
    proof (cases "held_by this g - {i} = {}")
      case True
      let ?g' = "?g\<lparr>destroyClientData := map_erase this (destroyClientData g), objects := objects g - {this}\<rparr>"
      have run: "onRemoveClientCompleteCb i this ?g = Some ?g'"
        using Some m True there mask_of_0 by (simp add: onRemoveClientCompleteCb_def complete_def delete_object_def)
      have held': "held_by p ?g' = (if p = this then {} else held_by p g)" for p
        using held[of p] True by (simp add: held_by_def)
      have "api_ok ?g'" using ok(1) set(2) no unfolding api_ok_def held' by (simp add: omap.inv_erase[OF maps(2)] map_of_erase)
      moreover have "none_leaked ?g'" using ok(2) by (auto simp: none_leaked_def map_of_erase)
      ultimately show ?thesis using run by blast
    next
      case False
      let ?g' = "?g\<lparr>destroyClientData := map_set this (mask_of (held_by this g - {i})) (destroyClientData g)\<rparr>"
      have nz: "mask_of (held_by this g - {i}) \<noteq> 0" using False mask_of_0[of "held_by this g - {i}"] by simp
      then have run: "onRemoveClientCompleteCb i this ?g = Some ?g'"
        using Some m by (simp add: onRemoveClientCompleteCb_def)
      have held': "held_by p ?g' = (if p = this then held_by this g - {i} else held_by p g)" for p
        using held[of p] by (simp add: held_by_def)
      have "api_ok ?g'" using ok(1) set(2) no there nz unfolding api_ok_def held'
        by (simp add: omap.inv_set[OF maps(2)] omap.find_set[OF maps(2)])
      moreover have "none_leaked ?g'" using ok(2) by (auto simp: none_leaked_def omap.find_set[OF maps(2)])
      ultimately show ?thesis using run by blast
    qed
  qed
qed

lemma api_ok_objects: "api_ok g \<Longrightarrow> map_of (clientData g) p \<noteq> None \<Longrightarrow> p \<in> objects g" "api_ok g \<Longrightarrow> (i, p) \<in> set (removals g) \<Longrightarrow> p \<in> objects g"
  by (auto simp: api_ok_def held_by_def)

lemma api_ok_step:
  assumes "api_ok g" "none_leaked g" "step_fair e g"
  shows "\<exists>g'. api_step loads e g = Some g' \<and> api_ok g' \<and> none_leaked g'"
proof (cases e)
  case (ARemoved k)
  show ?thesis
  proof (cases "k < length (removals g)")
    case True
    obtain i p where p: "removals g ! k = (i, p)" by fastforce
    with True have "p \<in> objects g" using api_ok_objects(2)[OF assms(1), of i p] nth_mem by force
    then show ?thesis using ARemoved True p api_ok_removed[OF assms(1,2) True p] by (simp add: api_step_def client_removed_def on_object_def)
  qed (use ARemoved assms in \<open>simp add: api_step_def\<close>)
qed (use assms api_ok_create api_ok_update api_ok_destroy api_ok_same[OF same_clients_command] api_ok_objects(1)[OF assms(1)] in
    \<open>auto simp: api_step_def step_fair_def on_object_def\<close>)

lemma api_ok_steps:
  "api_ok g \<Longrightarrow> none_leaked g \<Longrightarrow> steps_fair loads es g \<Longrightarrow> \<exists>g'. api_steps loads es g = Some g' \<and> api_ok g' \<and> none_leaked g'"
proof (induction es arbitrary: g)
  case (Cons e es)
  obtain g1 where "api_step loads e g = Some g1" "api_ok g1" "none_leaked g1"
    using api_ok_step[OF Cons.prems(1,2), of e loads] Cons.prems(3) by auto
  then show ?case using Cons.IH[of g1] Cons.prems(3) by simp
qed simp

lemma api_ok_new: "api_ok api_data_new" "none_leaked api_data_new"
  by (simp_all add: api_ok_def none_leaked_def api_data_new_def held_by_def)

text \<open>
  C36: Safety: in every script with fair clients no object is deleted twice, and no client that was not destroyed and no interface that
  reports a removal calls an object that is gone; the clients, and the clients an interface still has to let go, are objects that are
  there; and when the interfaces have answered all removals, the objects that are there are exactly the clients: every
  client that was destroyed is deleted.
\<close>

theorem destroyed_clients_deleted:
  assumes "steps_fair loads es api_data_new"
  shows "\<exists>g. api_steps loads es api_data_new = Some g \<and> (\<forall>p. map_of (clientData g) p \<noteq> None \<longrightarrow> p \<in> objects g) \<and>
    (\<forall>i p. (i, p) \<in> set (removals g) \<longrightarrow> p \<in> objects g) \<and>
    (removals g = [] \<longrightarrow> objects g = {p. map_of (clientData g) p \<noteq> None} \<and> destroyClientData g = [])"
proof -
  obtain g where g: "api_steps loads es api_data_new = Some g" "api_ok g" "none_leaked g"
    using api_ok_steps[OF api_ok_new assms] by blast
  note there = api_ok_objects[OF g(2)]
  have "map_of (destroyClientData g) p = None" if "removals g = []" for p
  proof (rule ccontr)
    assume "map_of (destroyClientData g) p \<noteq> None"
    then have "mask_of (held_by p g) \<noteq> 0" using g(2) by (auto simp: api_ok_def)
    then show False using that mask_of_0[of "held_by p g"] by (simp add: held_by_def)
  qed
  moreover from this have "destroyClientData g = []" if "removals g = []"
    using that by (cases "destroyClientData g") (auto, metis map_of_eq_None_iff list.set_intros(1) image_eqI fst_conv option.distinct(1))
  ultimately show ?thesis using g(1,3) there by (intro exI[of _ g]) (auto simp: none_leaked_def)
qed

definition all_callbacks :: api_callbacks where
  "all_callbacks = \<lparr>capabilitiesCb = True, collectiveResponseCb = True, geofenceBreachCb = True, geofenceStatusCb = True,
     responseCb = True, trackingCb = True, batchingCb = True, gnssLocationInfoCb = False, engineLocationsInfoCb = False, gnssNiCb = False,
     gnssSvCb = False, gnssNmeaCb = False, gnssDataCb = False, gnssMeasurementsCb = False, gnssNHzMeasurementsCb = False,
     locationSystemInfoCb = False\<rparr>"

definition two_clients :: "api_step list" where
  "two_clients = [ACreate False 3 all_callbacks, ACreate False 4 all_callbacks, ADestroy 3 True, ARemoved 1, ARemoved 1, ARemoved 0]"

lemma destroyed_clients_deleted_witness:
  "\<exists>g. api_steps (\<lambda>_. True) two_clients api_data_new = Some g \<and> (\<forall>p. map_of (clientData g) p \<noteq> None \<longrightarrow> p \<in> objects g) \<and>
    (\<forall>i p. (i, p) \<in> set (removals g) \<longrightarrow> p \<in> objects g) \<and>
    (removals g = [] \<longrightarrow> objects g = {p. map_of (clientData g) p \<noteq> None} \<and> destroyClientData g = [])"
proof -
  have "steps_fair (\<lambda>_. True) two_clients api_data_new" by code_simp
  then show ?thesis by (rule destroyed_clients_deleted)
qed

text \<open>
  C38: Error: the test of the completion is the wrong way round: in no script with fair clients is a completion reported, so the client
  object that waits for it is never freed; and to destroy a client without a completion, with no interface loaded, calls an
  empty function.
\<close>

theorem completion_never_reported:
  assumes "steps_fair loads es api_data_new"
  shows "map_option completed (api_steps loads es api_data_new) = Some [] \<and>
    (map_of (clientData g) this \<noteq> None \<and> (\<forall>i. \<not> loaded g i) \<longrightarrow> api_destroy this False g = None)"
proof -
  obtain g' where "api_steps loads es api_data_new = Some g'" "api_ok g'" using api_ok_steps[OF api_ok_new assms] by blast
  then show ?thesis by (auto simp: api_ok_def api_destroy_def Let_def complete_def call_completion_def remove_from_def)
qed

lemma completion_never_reported_witness:
  "map_option completed (api_steps (\<lambda>_. True) two_clients api_data_new) = Some [] \<and>
    api_destroy 3 False (api_data_new\<lparr>clientData := [(3, all_callbacks)]\<rparr>) = None"
proof -
  have "steps_fair (\<lambda>_. True) two_clients api_data_new" by code_simp
  from completion_never_reported[OF this, of "api_data_new\<lparr>clientData := [(3, all_callbacks)]\<rparr>" 3]
  show ?thesis by (simp add: api_data_new_def)
qed

end
