(* ===== verification/CtrlClient.thy ===== *)
theory CtrlClient
  imports ApiClient
begin

text \<open>
  The control client of the location API (\<open>LocationAPIControlClient\<close> of LocationAPIClientBase.cpp). The control
  API is a parameter: the sessions and arrays its calls return are arguments. An array is its address. The
  comparison of configurations and the empty one are parameters, \<open>same\<close> and \<open>zero\<close>.
\<close>

datatype ctrl_request =
    GnssDeleteAidingDataRequest | EnableRequest | DisableRequest | GnssUpdateConfigRequest | GnssGetConfigRequest

datatype ctrl_request_type =
    CTRL_REQUEST_DELETEAIDINGDATA | CTRL_REQUEST_CONTROL | CTRL_REQUEST_CONFIG_UPDATE | CTRL_REQUEST_CONFIG_GET

datatype ctrl_cb =
    OnGnssDeleteAidingData location_error | OnEnable location_error | OnDisable location_error
  | OnGnssUpdateConfig "location_error list" "u32 list" | OnGnssGetConfig "location_error list" "u32 list"

record 'c control_client =
  mLocationControlAPI :: bool
  mCtrlQueues :: "ctrl_request_type \<Rightarrow> ctrl_request request_queue"
  mEnabled :: bool
  mConfig :: 'c
  ctrl_cbs :: "ctrl_cb list"

definition ctrl_new :: "bool \<Rightarrow> 'c \<Rightarrow> 'c control_client" where
  "ctrl_new api zero = \<lparr>mLocationControlAPI = api, mCtrlQueues = (\<lambda>_. queue_new), mEnabled = False, mConfig = zero, ctrl_cbs = []\<rparr>"

definition on_ctrl_queue ::
    "ctrl_request_type \<Rightarrow> (ctrl_request request_queue \<Rightarrow> ctrl_request request_queue) \<Rightarrow> 'c control_client \<Rightarrow> 'c control_client" where
  "on_ctrl_queue t f st = st\<lparr>mCtrlQueues := (mCtrlQueues st)(t := f (mCtrlQueues st t))\<rparr>"

definition locAPIGnssDeleteAidingData :: "u32 \<Rightarrow> 'c control_client \<Rightarrow> location_error \<times> 'c control_client" where
  "locAPIGnssDeleteAidingData session st =
     (if mLocationControlAPI st
      then (LOCATION_ERROR_SUCCESS,
        on_ctrl_queue CTRL_REQUEST_DELETEAIDINGDATA (queue_push GnssDeleteAidingDataRequest \<circ> queue_reset session) st)
      else (LOCATION_ERROR_GENERAL_FAILURE, st))"

definition locAPIEnable :: "u32 \<Rightarrow> 'c control_client \<Rightarrow> location_error \<times> 'c control_client" where
  "locAPIEnable session st =
     (if mEnabled st then (LOCATION_ERROR_SUCCESS, st)
      else if mLocationControlAPI st
      then (LOCATION_ERROR_SUCCESS,
        (on_ctrl_queue CTRL_REQUEST_CONTROL (queue_push EnableRequest \<circ> queue_reset session) st)\<lparr>mEnabled := True\<rparr>)
      else (LOCATION_ERROR_GENERAL_FAILURE, st))"

definition locAPIDisable :: "'c control_client \<Rightarrow> 'c control_client" where
  "locAPIDisable st =
     (if mEnabled st \<and> mLocationControlAPI st \<and> mSession (mCtrlQueues st CTRL_REQUEST_CONTROL) > 0
      then (on_ctrl_queue CTRL_REQUEST_CONTROL (queue_push DisableRequest) st)\<lparr>mEnabled := False\<rparr>
      else st)"

text \<open>The request of a command that got an array: the queue is only set to it if it has one already.\<close>

definition push_config :: "ctrl_request_type \<Rightarrow> ctrl_request \<Rightarrow> ptr \<Rightarrow> 'c control_client \<Rightarrow> 'c control_client" where
  "push_config t r idArray st =
     on_ctrl_queue t (queue_push r \<circ> (if mSessionArrayPtr (mCtrlQueues st t) \<noteq> None then queue_reset_array (Some idArray) else (\<lambda>q. q))) st"

definition locAPIGnssUpdateConfig ::
    "('c \<Rightarrow> 'c \<Rightarrow> bool) \<Rightarrow> 'c \<Rightarrow> ptr option \<Rightarrow> 'c control_client \<Rightarrow> location_error \<times> 'c control_client" where
  "locAPIGnssUpdateConfig same config idArray st =
     (if \<not> mLocationControlAPI st then (LOCATION_ERROR_GENERAL_FAILURE, st)
      else if same (mConfig st) config then (LOCATION_ERROR_SUCCESS, st)
      else
        let st = st\<lparr>mConfig := config\<rparr> in
        (case idArray of
           None \<Rightarrow> (LOCATION_ERROR_GENERAL_FAILURE, st)
         | Some p \<Rightarrow> (LOCATION_ERROR_SUCCESS, push_config CTRL_REQUEST_CONFIG_UPDATE GnssUpdateConfigRequest p st)))"

definition locAPIGnssGetConfig :: "ptr option \<Rightarrow> 'c control_client \<Rightarrow> location_error \<times> 'c control_client" where
  "locAPIGnssGetConfig idArray st =
     (if \<not> mLocationControlAPI st then (LOCATION_ERROR_GENERAL_FAILURE, st)
      else
        (case idArray of
           None \<Rightarrow> (LOCATION_ERROR_GENERAL_FAILURE, st)
         | Some p \<Rightarrow> (LOCATION_ERROR_SUCCESS, push_config CTRL_REQUEST_CONFIG_GET GnssGetConfigRequest p st)))"

definition pop_ctrl :: "ctrl_request_type \<Rightarrow> 'c control_client \<Rightarrow> ctrl_request option \<times> 'c control_client" where
  "pop_ctrl t st = (let (r, q) = queue_pop (mCtrlQueues st t) in (r, on_ctrl_queue t (\<lambda>_. q) st))"

definition ctrl_getRequestBySession :: "u32 \<Rightarrow> 'c control_client \<Rightarrow> ctrl_request option \<times> 'c control_client" where
  "ctrl_getRequestBySession session st =
     (if mSession (mCtrlQueues st CTRL_REQUEST_DELETEAIDINGDATA) = session then pop_ctrl CTRL_REQUEST_DELETEAIDINGDATA st
      else if mSession (mCtrlQueues st CTRL_REQUEST_CONTROL) = session then pop_ctrl CTRL_REQUEST_CONTROL st
      else (None, st))"

definition getRequestBySessionArrayPtr :: "ptr option \<Rightarrow> 'c control_client \<Rightarrow> ctrl_request option \<times> 'c control_client" where
  "getRequestBySessionArrayPtr p st =
     (if mSessionArrayPtr (mCtrlQueues st CTRL_REQUEST_CONFIG_UPDATE) = p then pop_ctrl CTRL_REQUEST_CONFIG_UPDATE st
      else if mSessionArrayPtr (mCtrlQueues st CTRL_REQUEST_CONFIG_GET) = p then pop_ctrl CTRL_REQUEST_CONFIG_GET st
      else (None, st))"

definition tell :: "ctrl_cb \<Rightarrow> 'c control_client \<Rightarrow> 'c control_client" where
  "tell cb st = st\<lparr>ctrl_cbs := ctrl_cbs st @ [cb]\<rparr>"

definition onCtrlResponseCb :: "location_error \<Rightarrow> u32 \<Rightarrow> 'c control_client \<Rightarrow> 'c control_client" where
  "onCtrlResponseCb e session st =
     (let (request, st) = ctrl_getRequestBySession session st in
      case request of
        Some GnssDeleteAidingDataRequest \<Rightarrow> tell (OnGnssDeleteAidingData e) st
      | Some EnableRequest \<Rightarrow> tell (OnEnable e) st
      | Some DisableRequest \<Rightarrow> tell (OnDisable e) st
      | _ \<Rightarrow> st)"

text \<open>The answer comes with the array \<open>ids\<close> at the address \<open>p\<close>.\<close>

definition onCtrlCollectiveResponseCb :: "location_error list \<Rightarrow> ptr option \<Rightarrow> u32 list \<Rightarrow> 'c control_client \<Rightarrow> 'c control_client" where
  "onCtrlCollectiveResponseCb errors p ids st =
     (let (request, st) = getRequestBySessionArrayPtr p st in
      case request of
        Some GnssUpdateConfigRequest \<Rightarrow> tell (OnGnssUpdateConfig errors ids) st
      | Some GnssGetConfigRequest \<Rightarrow> tell (OnGnssGetConfig errors ids) st
      | _ \<Rightarrow> st)"

datatype 'c ctrl_event =
    KDeleteAidingData u32 | KEnable u32 | KDisable | KUpdateConfig 'c "ptr option" | KGetConfig "ptr option"
  | KResponse location_error u32 | KCollectiveResponse "location_error list" "ptr option" "u32 list"

definition ctrl_event :: "('c \<Rightarrow> 'c \<Rightarrow> bool) \<Rightarrow> 'c ctrl_event \<Rightarrow> 'c control_client \<Rightarrow> 'c control_client" where
  "ctrl_event same e st = (case e of
     KDeleteAidingData s \<Rightarrow> snd (locAPIGnssDeleteAidingData s st) | KEnable s \<Rightarrow> snd (locAPIEnable s st) | KDisable \<Rightarrow> locAPIDisable st
   | KUpdateConfig config p \<Rightarrow> snd (locAPIGnssUpdateConfig same config p st) | KGetConfig p \<Rightarrow> snd (locAPIGnssGetConfig p st)
   | KResponse err s \<Rightarrow> onCtrlResponseCb err s st | KCollectiveResponse errs p ids \<Rightarrow> onCtrlCollectiveResponseCb errs p ids st)"

section \<open>Answers about the configuration\<close>

definition config_cb :: "ctrl_cb \<Rightarrow> bool" where
  "config_cb cb = (case cb of OnGnssUpdateConfig errs ids \<Rightarrow> True | OnGnssGetConfig errs ids \<Rightarrow> True | _ \<Rightarrow> False)"

text \<open>No array is ever recorded; \<open>n\<close> requests wait in each of the queues.\<close>

definition no_arrays :: "nat \<Rightarrow> nat \<Rightarrow> 'c control_client \<Rightarrow> bool" where
  "no_arrays n m st \<longleftrightarrow> (\<forall>t. mSessionArrayPtr (mCtrlQueues st t) = None) \<and> (\<forall>cb \<in> set (ctrl_cbs st). \<not> config_cb cb) \<and>
     length (mQueue (mCtrlQueues st CTRL_REQUEST_CONFIG_UPDATE)) = n \<and> length (mQueue (mCtrlQueues st CTRL_REQUEST_CONFIG_GET)) = m"

text \<open>The updates and gets of the configuration that are accepted.\<close>

definition accepted :: "('c \<Rightarrow> 'c \<Rightarrow> bool) \<Rightarrow> 'c ctrl_event \<Rightarrow> 'c control_client \<Rightarrow> nat \<times> nat" where
  "accepted same e st = (case e of
     KUpdateConfig config (Some p) \<Rightarrow> if mLocationControlAPI st \<and> \<not> same (mConfig st) config then (1, 0) else (0, 0)
   | KGetConfig (Some p) \<Rightarrow> if mLocationControlAPI st then (0, 1) else (0, 0)
   | _ \<Rightarrow> (0, 0))"

fun all_accepted :: "('c \<Rightarrow> 'c \<Rightarrow> bool) \<Rightarrow> 'c ctrl_event list \<Rightarrow> 'c control_client \<Rightarrow> nat \<times> nat" where
  "all_accepted same [] st = (0, 0)"
| "all_accepted same (e # es) st =
     (case (accepted same e st, all_accepted same es (ctrl_event same e st)) of ((n, m), (k, l)) \<Rightarrow> (n + k, m + l))"

lemmas ctrl_defs = ctrl_event_def locAPIGnssDeleteAidingData_def locAPIEnable_def locAPIDisable_def locAPIGnssUpdateConfig_def
  locAPIGnssGetConfig_def push_config_def on_ctrl_queue_def queue_push_def queue_reset_def

lemma no_arrays_simps [simp]:
  "no_arrays n m (tell (OnGnssDeleteAidingData e) st) = no_arrays n m st" "no_arrays n m (tell (OnEnable e) st) = no_arrays n m st"
  "no_arrays n m (tell (OnDisable e) st) = no_arrays n m st" "no_arrays n m (st\<lparr>mConfig := c\<rparr>) = no_arrays n m st"
  by (auto simp: tell_def no_arrays_def config_cb_def)

lemma no_arrays_push:
  "no_arrays n m st \<Longrightarrow> no_arrays (Suc n) m (push_config CTRL_REQUEST_CONFIG_UPDATE r p st)"
  "no_arrays n m st \<Longrightarrow> no_arrays n (Suc m) (push_config CTRL_REQUEST_CONFIG_GET r p st)"
  by (simp_all add: push_config_def on_ctrl_queue_def queue_push_def no_arrays_def)

lemma no_arrays_response:
  assumes "no_arrays n m st"
  shows "no_arrays n m (onCtrlResponseCb e s st)"
    "p \<noteq> None \<Longrightarrow> onCtrlCollectiveResponseCb errs p ids st = st"
proof -
  have "no_arrays n m (snd (pop_ctrl t st))" if "t = CTRL_REQUEST_DELETEAIDINGDATA \<or> t = CTRL_REQUEST_CONTROL" for t
    using assms that by (auto simp: pop_ctrl_def queue_pop_def on_ctrl_queue_def no_arrays_def split: list.split)
  then have "no_arrays n m (snd (ctrl_getRequestBySession s st))" using assms by (simp add: ctrl_getRequestBySession_def)
  then show "no_arrays n m (onCtrlResponseCb e s st)"
    by (auto simp: onCtrlResponseCb_def split: prod.split option.split ctrl_request.split)
  show "onCtrlCollectiveResponseCb errs p ids st = st" if "p \<noteq> None"
    using assms that by (auto simp: onCtrlCollectiveResponseCb_def getRequestBySessionArrayPtr_def no_arrays_def)
qed

definition with_array :: "'c ctrl_event \<Rightarrow> bool" where
  "with_array e = (case e of KCollectiveResponse errs p ids \<Rightarrow> p \<noteq> None | _ \<Rightarrow> True)"

lemma no_arrays_event:
  assumes "no_arrays n m st" "with_array e"
  shows "no_arrays (n + fst (accepted same e st)) (m + snd (accepted same e st)) (ctrl_event same e st)"
proof (cases e)
  case (KUpdateConfig config p)
  have "no_arrays (Suc n) m (push_config CTRL_REQUEST_CONFIG_UPDATE r p (st\<lparr>mConfig := c\<rparr>))" for r p c
    by (rule no_arrays_push) (simp add: assms(1))
  then show ?thesis using assms(1) KUpdateConfig
    by (cases p) (simp_all add: ctrl_event_def accepted_def locAPIGnssUpdateConfig_def Let_def)
next
  case (KGetConfig p)
  then show ?thesis using assms(1) no_arrays_push(2)[OF assms(1)]
    by (cases p) (simp_all add: ctrl_event_def accepted_def locAPIGnssGetConfig_def)
next
  case (KResponse err s)
  then show ?thesis using no_arrays_response(1)[OF assms(1)] by (simp add: ctrl_event_def accepted_def)
next
  case (KCollectiveResponse errs p ids)
  then show ?thesis using assms no_arrays_response(2)[OF assms(1)] by (simp add: ctrl_event_def accepted_def with_array_def)
qed (use assms(1) in \<open>auto simp: ctrl_defs accepted_def no_arrays_def\<close>)

lemma no_arrays_run:
  assumes "no_arrays n m st" "\<forall>e \<in> set es. with_array e"
  shows "no_arrays (n + fst (all_accepted same es st)) (m + snd (all_accepted same es st)) (fold (ctrl_event same) es st)"
  using assms
proof (induction es arbitrary: n m st)
  case (Cons e es)
  have "no_arrays (n + fst (accepted same e st)) (m + snd (accepted same e st)) (ctrl_event same e st)"
    by (rule no_arrays_event[OF Cons.prems(1)]) (use Cons.prems(2) in auto)
  from Cons.IH[OF this] Cons.prems(2) show ?case by (simp add: case_prod_beta add.assoc)
qed simp

text \<open>
  C39: Error: the answers about the configuration are dropped: in no script does an answer that comes with an array reach the client,
  and the request of every update and every get that was accepted stays in its queue for ever.
\<close>

theorem config_answers_dropped:
  assumes "\<forall>e \<in> set es. with_array e"
  shows "let st = fold (ctrl_event same) es (ctrl_new api zero) in
    (\<forall>cb \<in> set (ctrl_cbs st). \<not> config_cb cb) \<and>
    (length (mQueue (mCtrlQueues st CTRL_REQUEST_CONFIG_UPDATE)), length (mQueue (mCtrlQueues st CTRL_REQUEST_CONFIG_GET))) =
      all_accepted same es (ctrl_new api zero)"
proof -
  have "no_arrays 0 0 (ctrl_new api zero)" by (simp add: no_arrays_def ctrl_new_def queue_new_def)
  from no_arrays_run[OF this assms, of same] show ?thesis by (simp add: no_arrays_def Let_def)
qed

lemma config_answers_dropped_witness:
  "let es = [KUpdateConfig (1 :: nat) (Some 40), KCollectiveResponse [LOCATION_ERROR_SUCCESS] (Some 40) [3]];
       st = fold (ctrl_event (=)) es (ctrl_new True 0) in
    (\<forall>cb \<in> set (ctrl_cbs st). \<not> config_cb cb) \<and>
    (length (mQueue (mCtrlQueues st CTRL_REQUEST_CONFIG_UPDATE)), length (mQueue (mCtrlQueues st CTRL_REQUEST_CONFIG_GET))) = (1, 0)"
proof -
  let ?es = "[KUpdateConfig (1 :: nat) (Some 40), KCollectiveResponse [LOCATION_ERROR_SUCCESS] (Some 40) [3]]"
  have "all_accepted (=) ?es (ctrl_new True 0) = (1, 0)" by (simp add: ctrl_new_def accepted_def)
  then show ?thesis using config_answers_dropped[of ?es "(=)" True 0] by (simp add: Let_def with_array_def)
qed

end
