(* ===== verification/LocControl.thy ===== *)
theory LocControl
  imports LocApi CtrlClient
begin

text \<open>
  The control part of the location API (\<open>LocationControlAPI\<close> of gps/location/LocationAPI.cpp): the one control object, how it is
  created and deleted, and its requests. The arguments of requests are only passed on and left out. The
  libraries are parameters: \<open>loads\<close> for the interfaces, \<open>impl\<close> for another implementation of the control API,
  \<open>None\<close> if there is none.
\<close>

section \<open>Data\<close>

text \<open>Callbacks are named by the client that set them.\<close>

record control_callbacks =
  c_responseCb :: "ptr option"
  c_collectiveResponseCb :: "ptr option"
  c_gnssConfigCb :: "ptr option"
  c_odcpiReqCb :: "ptr option"
  c_measCorrSetCapabilitiesCb :: "ptr option"
  c_antennaInfoCb :: "ptr option"
  c_agpsStatusIpV4Cb :: "ptr option"
  c_nfwStatusCb :: "ptr option"
  c_isInEmergencyStatusCb :: "ptr option"

definition no_callbacks :: control_callbacks where
  "no_callbacks = \<lparr>c_responseCb = None, c_collectiveResponseCb = None, c_gnssConfigCb = None, c_odcpiReqCb = None,
     c_measCorrSetCapabilitiesCb = None, c_antennaInfoCb = None, c_agpsStatusIpV4Cb = None, c_nfwStatusCb = None,
     c_isInEmergencyStatusCb = None\<rparr>"

text \<open>Requests with an id or an array of ids as their result, and requests without a result.\<close>

datatype id_request =
    IEnable | IGnssDeleteAidingData | IGnssUpdateSvConfig | IGnssUpdateSecondaryBandConfig | ISetConstrainedTunc
  | ISetPositionAssistedClockEstimator | IConfigLeverArm | IConfigRobustLocation | IConfigMinGpsWeek
  | IConfigDeadReckoningEngineParams | IConfigEngineRunState | ISetOptInStatus | IConfigOutputNmeaTypes
  | IConfigEngineIntegrityRisk

datatype ids_request = IGnssUpdateConfig | IGnssGetConfig

datatype plain_request =
    PDisable | POdcpiInject | PResetNetworkInfo | PUpdateBatteryStatus | PInjectLocation | PAgpsDataConnOpen | PAgpsDataConnClosed
  | PAgpsDataConnFailed | PUpdateConnectionStatus | PMeasCorrClose | PGetGnssAntennaeInfo | PAntennaInfoClose | PGetDebugReport
  | PEnableNfwLocationAccess

datatype control_call =
    GSetControlCallbacks control_callbacks | GId id_request | GIds ids_request | GPlain plain_request | GMeasCorrSetCorrections
  | GPowerState iface | GOdcpiInit ptr | GAgpsInit ptr | GAntennaInfoInit ptr | GMeasCorrInit ptr | GNfwInit "ptr option" "ptr option"

record control_data =
  g_data :: api_data
  controlAPI :: "ptr option"
  controlCallbacks :: control_callbacks
  control_objects :: "ptr set"
  control_calls :: "control_call list"

definition control_new :: control_data where
  "control_new = \<lparr>g_data = api_data_new, controlAPI = None, controlCallbacks = no_callbacks, control_objects = {}, control_calls = []\<rparr>"

definition control_call :: "control_call \<Rightarrow> control_data \<Rightarrow> control_data" where
  "control_call c g = g\<lparr>control_calls := control_calls g @ [c]\<rparr>"

definition gnss_there :: "control_data \<Rightarrow> bool" where
  "gnss_there g \<longleftrightarrow> loaded (g_data g) GnssIf"

section \<open>The control object\<close>

definition if_set :: "ptr option \<Rightarrow> ptr option \<Rightarrow> ptr option" where
  "if_set cb old = (if cb \<noteq> None then cb else old)"

text \<open>\<open>this\<close> is the address of a new object; \<open>impl\<close> is what the other implementation returns.\<close>

definition create_control :: "(iface \<Rightarrow> bool) \<Rightarrow> ptr option option \<Rightarrow> ptr \<Rightarrow> control_data \<Rightarrow> control_data" where
  "create_control loads impl this g =
     (case impl of
        Some p \<Rightarrow> g\<lparr>controlAPI := p\<rparr>
      | None \<Rightarrow>
          if \<not> loaded (g_data g) GnssIf \<and> \<not> load_failed (g_data g) GnssIf then
            let g = g\<lparr>g_data := load_interface loads GnssIf (g_data g)\<rparr> in
            if gnss_there g then g\<lparr>controlAPI := Some this, control_objects := insert this (control_objects g)\<rparr> else g
          else g)"

definition control_getInstance ::
    "(iface \<Rightarrow> bool) \<Rightarrow> ptr option option \<Rightarrow> ptr \<Rightarrow> control_callbacks \<Rightarrow> control_data \<Rightarrow> ptr option \<times> control_data" where
  "control_getInstance loads impl this cb g =
     (let g = (if controlAPI g = None then create_control loads impl this g else g);
          g = (if gnss_there g then
            let old = controlCallbacks g;
                cbs = old\<lparr>c_responseCb := if_set (c_responseCb cb) (c_responseCb old),
                  c_collectiveResponseCb := if_set (c_collectiveResponseCb cb) (c_collectiveResponseCb old),
                  c_gnssConfigCb := if_set (c_gnssConfigCb cb) (c_gnssConfigCb old), c_odcpiReqCb := if_set (c_odcpiReqCb cb) (c_odcpiReqCb old)\<rparr> in
            control_call (GSetControlCallbacks cbs) (g\<lparr>controlCallbacks := cbs\<rparr>)
          else g) in
      (controlAPI g, g))"

definition control_instance :: "control_data \<Rightarrow> ptr option" where
  "control_instance g = controlAPI g"

text \<open>To delete or to use an object that is not there is \<open>None\<close>.\<close>

definition control_destroy :: "ptr \<Rightarrow> control_data \<Rightarrow> control_data option" where
  "control_destroy this g =
     (if this \<in> control_objects g then Some (g\<lparr>controlAPI := None, control_objects := control_objects g - {this}\<rparr>) else None)"

section \<open>Requests\<close>

text \<open>Whether the interface is there, and the state afterwards; the result of a request is that of the interface then.\<close>

definition to_gnss :: "control_call \<Rightarrow> control_data \<Rightarrow> bool \<times> control_data" where
  "to_gnss c g = (if gnss_there g then (True, control_call c g) else (False, g))"

definition control_id_request :: "id_request \<Rightarrow> u32 \<Rightarrow> control_data \<Rightarrow> u32 \<times> control_data" where
  "control_id_request r session g = (let (sent, g) = to_gnss (GId r) g in (if sent then session else 0, g))"

definition control_ids_request :: "ids_request \<Rightarrow> ptr option \<Rightarrow> control_data \<Rightarrow> ptr option \<times> control_data" where
  "control_ids_request r ids g = (let (sent, g) = to_gnss (GIds r) g in (if sent then ids else None, g))"

definition control_plain_request :: "plain_request \<Rightarrow> control_data \<Rightarrow> control_data" where
  "control_plain_request r g = snd (to_gnss (GPlain r) g)"

definition measCorrSetCorrections :: "bool \<Rightarrow> control_data \<Rightarrow> bool \<times> control_data" where
  "measCorrSetCorrections result g = (let (sent, g) = to_gnss GMeasCorrSetCorrections g in (sent \<and> result, g))"

definition tell_power :: "iface \<Rightarrow> control_data \<Rightarrow> control_data" where
  "tell_power i g = (if loaded (g_data g) i then control_call (GPowerState i) g else g)"

definition powerStateEvent :: "control_data \<Rightarrow> control_data" where
  "powerStateEvent g = tell_power BatchingIf (tell_power GeofenceIf (tell_power GnssIf g))"

text \<open>\<open>result\<close> is what the interface returns to the two calls that have a result.\<close>

definition control_updateCallbacks :: "control_callbacks \<Rightarrow> u32 \<Rightarrow> control_data \<Rightarrow> u32 \<times> control_data" where
  "control_updateCallbacks cb result g =
     (if \<not> gnss_there g then (0, g)
      else (case c_odcpiReqCb cb of
        Some p \<Rightarrow> (1, control_call (GOdcpiInit p) g)
      | None \<Rightarrow> (case c_agpsStatusIpV4Cb cb of
        Some p \<Rightarrow> (1, control_call (GAgpsInit p) g)
      | None \<Rightarrow> (case c_antennaInfoCb cb of
        Some p \<Rightarrow> (result, control_call (GAntennaInfoInit p) g)
      | None \<Rightarrow> (case c_measCorrSetCapabilitiesCb cb of
        Some p \<Rightarrow> (result, control_call (GMeasCorrInit p) g)
      | None \<Rightarrow>
          if c_nfwStatusCb cb \<noteq> None \<or> c_isInEmergencyStatusCb cb \<noteq> None
          then (1, control_call (GNfwInit (c_nfwStatusCb cb) (c_isInEmergencyStatusCb cb)) g) else (1, g))))))"

section \<open>Scripts\<close>

text \<open>The clients of the API and those of the control object, without another implementation of the latter.\<close>

datatype control_step =
    KApi api_step | KGetInstance ptr control_callbacks | KDestroy ptr | KId ptr id_request u32 | KIds ptr ids_request "ptr option"
  | KPlain ptr plain_request | KMeasCorr ptr bool | KPower ptr | KUpdateCallbacks ptr control_callbacks u32

definition if_there :: "ptr \<Rightarrow> control_data \<Rightarrow> control_data \<Rightarrow> control_data option" where
  "if_there this g g' = (if this \<in> control_objects g then Some g' else None)"

definition control_step :: "(iface \<Rightarrow> bool) \<Rightarrow> control_step \<Rightarrow> control_data \<Rightarrow> control_data option" where
  "control_step loads e g = (case e of
     KApi e \<Rightarrow> map_option (\<lambda>d. g\<lparr>g_data := d\<rparr>) (api_step loads e (g_data g))
   | KGetInstance this cb \<Rightarrow> Some (snd (control_getInstance loads None this cb g))
   | KDestroy this \<Rightarrow> control_destroy this g
   | KId this r session \<Rightarrow> if_there this g (snd (control_id_request r session g))
   | KIds this r ids \<Rightarrow> if_there this g (snd (control_ids_request r ids g))
   | KPlain this r \<Rightarrow> if_there this g (control_plain_request r g)
   | KMeasCorr this result \<Rightarrow> if_there this g (snd (measCorrSetCorrections result g))
   | KPower this \<Rightarrow> if_there this g (powerStateEvent g)
   | KUpdateCallbacks this cb result \<Rightarrow> if_there this g (snd (control_updateCallbacks cb result g)))"

fun control_steps :: "(iface \<Rightarrow> bool) \<Rightarrow> control_step list \<Rightarrow> control_data \<Rightarrow> control_data option" where
  "control_steps loads [] g = Some g"
| "control_steps loads (e # es) g = Option.bind (control_step loads e g) (control_steps loads es)"

lemma control_steps_append: "control_steps loads (es @ es') g = Option.bind (control_steps loads es g) (control_steps loads es')"
  by (induction es arbitrary: g) (auto split: Option.bind_split)

end
