(* ===== verification/LocControlProps.thy ===== *)
theory LocControlProps
  imports LocControl LocApiProps
begin

text \<open>
  There is no second control object: once the GNSS interface is there without one, whoever asks gets none. And
  the clients of the one there is share it, though each of them deletes it.
\<close>

section \<open>The interfaces stay loaded\<close>

lemma loaded_load: "loaded g i \<Longrightarrow> loaded (load_interface loads j g) i"
  by (simp add: load_interface_def if_call_def)

lemma loaded_join: "loaded (snd s) i \<Longrightarrow> loaded (snd (join_interface loads wanted j this s)) i"
  by (cases s) (simp add: join_interface_def if_call_def Let_def loaded_load)

lemma loaded_create: "loaded g i \<Longrightarrow> loaded (createInstance loads impl this cb g) i"
  by (auto simp: createInstance_def Let_def case_prod_beta intro!: loaded_join)

lemma loaded_update: "loaded g i \<Longrightarrow> loaded (updateCallbacks loads this cb g) i"
  by (auto simp: updateCallbacks_def Let_def case_prod_beta intro!: loaded_join)

lemma loaded_command: "loaded (api_command this call g) = loaded g"
  by (cases call) (simp_all add: api_command_def api_startTracking_def api_stopTracking_def api_updateTrackingOptions_def
    api_startBatching_def api_stopBatching_def api_updateBatchingOptions_def api_getBatchedLocations_def api_addGeofences_def
    api_removeGeofences_def api_modifyGeofences_def api_pauseGeofences_def api_resumeGeofences_def api_gnssNiResponse_def
    forward_def forward_known_def if_call_def)

lemma loaded_complete:
  "complete this cb g = Some g' \<Longrightarrow> loaded g' = loaded g" "delete_object this g = Some g' \<Longrightarrow> loaded g' = loaded g"
  by (auto simp: complete_def call_completion_def delete_object_def split: if_splits)

lemma loaded_destroy: "api_destroy this cb g = Some g' \<Longrightarrow> loaded g' = loaded g"
  by (auto simp: api_destroy_def Let_def remove_from_def if_call_def dest!: loaded_complete split: if_splits Option.bind_splits)

lemma loaded_removed: "onRemoveClientCompleteCb i this g = Some g' \<Longrightarrow> loaded g' = loaded g"
  by (auto simp: onRemoveClientCompleteCb_def Let_def dest!: loaded_complete split: if_splits option.splits Option.bind_splits)

lemma loaded_step: "api_step loads e g = Some g' \<Longrightarrow> loaded g i \<Longrightarrow> loaded g' i"
  by (cases e) (auto simp: api_step_def client_removed_def on_object_def loaded_create loaded_update loaded_command loaded_destroy
    dest!: loaded_removed split: if_splits prod.splits)

section \<open>The control object\<close>

definition control_ok :: "control_data \<Rightarrow> bool" where
  "control_ok g \<longleftrightarrow> control_objects g = set_option (controlAPI g) \<and> (controlAPI g \<noteq> None \<longrightarrow> gnss_there g)"

text \<open>No control object, and none to come.\<close>

definition control_lost :: "control_data \<Rightarrow> bool" where
  "control_lost g \<longleftrightarrow> gnss_there g \<and> controlAPI g = None"

lemma control_same:
  "g_data (control_call c g) = g_data g" "controlAPI (control_call c g) = controlAPI g" "control_objects (control_call c g) = control_objects g"
  "gnss_there (control_call c g) = gnss_there g"
  by (simp_all add: control_call_def gnss_there_def)

lemma request_same:
  assumes "\<forall>this cb. e \<noteq> KGetInstance this cb" "\<forall>this. e \<noteq> KDestroy this" "\<forall>x. e \<noteq> KApi x" "control_step loads e g = Some g'"
  shows "g_data g' = g_data g \<and> controlAPI g' = controlAPI g \<and> control_objects g' = control_objects g"
  using assms
  by (cases e) (auto simp: control_step_def if_there_def control_id_request_def control_ids_request_def control_plain_request_def
    measCorrSetCorrections_def powerStateEvent_def tell_power_def control_updateCallbacks_def to_gnss_def control_same
    split: if_splits option.splits)

lemma control_ok_get:
  assumes "control_ok g"
  shows "control_ok (snd (control_getInstance loads None this cb g))"
    "gnss_there g \<Longrightarrow> gnss_there (snd (control_getInstance loads None this cb g))"
    "control_lost g \<Longrightarrow> fst (control_getInstance loads None this cb g) = None \<and> controlAPI (snd (control_getInstance loads None this cb g)) = None"
  using assms
  by (auto simp: control_getInstance_def create_control_def control_ok_def control_lost_def Let_def control_same gnss_there_def
      intro: loaded_load split: if_splits)

lemma control_ok_step:
  assumes "control_step loads e g = Some g'" "control_ok g"
  shows "control_ok g' \<and> (gnss_there g \<longrightarrow> gnss_there g') \<and> (control_lost g \<longrightarrow> control_lost g') \<and>
    ((\<exists>this. e = KDestroy this) \<longrightarrow> control_lost g') \<and> (controlAPI g = None \<and> (\<forall>this cb. e \<noteq> KGetInstance this cb) \<longrightarrow> controlAPI g' = None)"
proof (cases e)
  case (KApi x)
  then obtain d where "api_step loads x (g_data g) = Some d" "g' = g\<lparr>g_data := d\<rparr>" using assms(1) by (auto simp: control_step_def)
  moreover then have "gnss_there g \<longrightarrow> gnss_there g'" using loaded_step[of loads x "g_data g" d GnssIf] by (simp add: gnss_there_def)
  ultimately show ?thesis using assms(2) KApi by (auto simp: control_ok_def control_lost_def)
next
  case (KGetInstance this cb)
  then have g': "g' = snd (control_getInstance loads None this cb g)" using assms(1) by (simp add: control_step_def)
  show ?thesis unfolding g' using control_ok_get[OF assms(2), of loads this cb] KGetInstance by (auto simp: control_lost_def)
next
  case (KDestroy this)
  then show ?thesis using assms by (auto simp: control_step_def control_destroy_def control_ok_def control_lost_def gnss_there_def split: if_splits)
qed (use request_same[OF _ _ _ assms(1)] assms(2) in \<open>auto simp: control_ok_def control_lost_def gnss_there_def\<close>)

lemma control_ok_steps:
  assumes "control_steps loads es g = Some g'" "control_ok g"
  shows "control_ok g' \<and> (control_lost g \<longrightarrow> control_lost g') \<and>
    (controlAPI g = None \<and> (\<forall>this cb. KGetInstance this cb \<notin> set es) \<longrightarrow> controlAPI g' = None)"
  using assms
proof (induction es arbitrary: g)
  case (Cons e es)
  then obtain g1 where g1: "control_step loads e g = Some g1" "control_steps loads es g1 = Some g'" by (auto split: Option.bind_splits)
  note step = control_ok_step[OF g1(1) Cons.prems(2)]
  from Cons.IH[OF g1(2)] step show ?case by auto
qed simp

lemma control_ok_new: "control_ok control_new" "controlAPI control_new = None"
  by (simp_all add: control_ok_def control_new_def)

section \<open>What becomes of control clients\<close>

text \<open>A control client without control API.\<close>

lemma refused_event: "ctrl_event same e (ctrl_new False zero) = ctrl_new False zero"
  by (cases e) (auto simp: ctrl_event_def ctrl_new_def locAPIGnssDeleteAidingData_def locAPIEnable_def locAPIDisable_def
    locAPIGnssUpdateConfig_def locAPIGnssGetConfig_def onCtrlResponseCb_def ctrl_getRequestBySession_def pop_ctrl_def on_ctrl_queue_def
    queue_pop_def queue_new_def onCtrlCollectiveResponseCb_def getRequestBySessionArrayPtr_def fun_eq_iff)

lemma refused_events: "fold (ctrl_event same) es (ctrl_new False zero) = ctrl_new False zero"
  by (induction es) (simp_all add: refused_event)

text \<open>
  C40: Error: when the GNSS interface was loaded for another client before the first control client came, or the control object was
  deleted once, no control object is ever made again: after any further script the next control client gets none. Its callbacks
  replace those of the clients before and are passed to the interface all the same, but no request it makes has any effect on its record: none
  waits for an answer, and none is ever answered.
\<close>

definition registered :: "control_callbacks \<Rightarrow> control_callbacks \<Rightarrow> control_callbacks" where
  "registered cb old = old\<lparr>c_responseCb := if_set (c_responseCb cb) (c_responseCb old),
     c_collectiveResponseCb := if_set (c_collectiveResponseCb cb) (c_collectiveResponseCb old),
     c_gnssConfigCb := if_set (c_gnssConfigCb cb) (c_gnssConfigCb old), c_odcpiReqCb := if_set (c_odcpiReqCb cb) (c_odcpiReqCb old)\<rparr>"

theorem control_api_never_again:
  assumes "control_steps loads es control_new = Some g"
    and "gnss_there g \<and> (\<forall>this cb. KGetInstance this cb \<notin> set es) \<or> (\<exists>es0 this. es = es0 @ [KDestroy this])"
    and "control_steps loads es' g = Some g'"
  shows "control_getInstance loads None this cb g' =
      (None, g'\<lparr>controlCallbacks := registered cb (controlCallbacks g'),
        control_calls := control_calls g' @ [GSetControlCallbacks (registered cb (controlCallbacks g'))]\<rparr>) \<and>
    fold (ctrl_event same) ces (ctrl_new (fst (control_getInstance loads None this cb g') \<noteq> None) zero) = ctrl_new False zero"
proof -
  have ok: "control_ok g" using control_ok_steps[OF assms(1) control_ok_new(1)] by blast
  have "control_lost g" using assms(2)
  proof
    assume "gnss_there g \<and> (\<forall>this cb. KGetInstance this cb \<notin> set es)"
    then show ?thesis using control_ok_steps[OF assms(1) control_ok_new(1)] control_ok_new(2) by (auto simp: control_lost_def)
  next
    assume "\<exists>es0 this. es = es0 @ [KDestroy this]"
    then obtain es0 this g0 where g0: "control_steps loads es0 control_new = Some g0" "control_step loads (KDestroy this) g0 = Some g"
      using assms(1) by (auto simp: control_steps_append split: Option.bind_splits)
    then have "control_ok g0" using control_ok_steps[OF g0(1) control_ok_new(1)] by blast
    from control_ok_step[OF g0(2) this] show ?thesis by blast
  qed
  then have lost: "control_ok g'" "control_lost g'" using control_ok_steps[OF assms(3) ok] by blast+
  then have "control_getInstance loads None this cb g' =
      (None, g'\<lparr>controlCallbacks := registered cb (controlCallbacks g'),
        control_calls := control_calls g' @ [GSetControlCallbacks (registered cb (controlCallbacks g'))]\<rparr>)"
    by (simp add: control_getInstance_def create_control_def control_lost_def gnss_there_def Let_def control_call_def registered_def)
  then show ?thesis by (simp add: refused_events)
qed

lemma control_api_never_again_witness:
  "map_option (\<lambda>g. fst (control_getInstance (\<lambda>_. True) None 5 no_callbacks g))
    (control_steps (\<lambda>_. True) ([KApi (ACreate False 3 all_callbacks)] @ [KApi (AUpdate 3 all_callbacks)]) control_new) = Some None"
proof -
  let ?loads = "\<lambda>_ :: iface. True" and ?es = "[KApi (ACreate False 3 all_callbacks)]" and ?es' = "[KApi (AUpdate 3 all_callbacks)]"
  have ran: "map_option gnss_there (control_steps ?loads ?es control_new) = Some True"
    "map_option (\<lambda>_. ()) (control_steps ?loads (?es @ ?es') control_new) = Some ()" by code_simp+
  obtain g where g: "control_steps ?loads ?es control_new = Some g" "gnss_there g" using ran(1) by fastforce
  moreover obtain g' where g': "control_steps ?loads ?es' g = Some g'"
    using ran(2) unfolding control_steps_append g(1) by fastforce
  ultimately show ?thesis using control_api_never_again[OF g(1) _ g', of 5 no_callbacks "(=)" "[]" "0 :: nat"]
    unfolding control_steps_append by simp
qed

text \<open>
  All clients get the same object: when one of them deletes it, every use of it by another is a use of freed memory.
\<close>

theorem shared_control_deleted:
  assumes "control_steps loads es control_new = Some g" "controlAPI g = Some p"
    and "control_step loads (KGetInstance q cb) g = Some g1" "control_step loads (KDestroy p) g1 = Some g2"
  shows "fst (control_getInstance loads None q cb g) = Some p \<and> control_step loads (KDestroy p) g2 = None \<and>
    control_step loads (KId p r s) g2 = None"
proof -
  have "control_ok g" using control_ok_steps[OF assms(1) control_ok_new(1)] by blast
  have get: "fst (control_getInstance loads None q cb g) = Some p" using assms(2)
    by (simp add: control_getInstance_def control_same Let_def)
  have "p \<notin> control_objects g2" using assms(4) by (auto simp: control_step_def control_destroy_def split: if_splits)
  then show ?thesis using get by (simp add: control_step_def control_destroy_def if_there_def)
qed

end
