(* ===== verification/Spec2Isabelle.thy ===== *)
theory Spec2Isabelle
  imports SmProps CamQueue SmThread LocTimerProps AgpsProps H264Props ParserProps InputProps GeofenceProps
    ApiProps LocApiProps CtrlClient LocControlProps
begin

text \<open>
  Verification of core logic of the device tree for Xiaomi rova (Android): the state machine
  of the camera HAL with its command queue and thread, the timer service of the GPS utilities,
  the state machines for assisted GPS, the geofences from the client of the location API down to the
  modem, the parsing of H.264 streams in the video decoder, and the way from the client's buffers
  to the frames the decoder is given.

  The parts and how they interact.

  The camera HAL (camera/QCamera2/HAL) is driven by one thread. Callers of the camera API
  (QCamera2HWI.cpp) post a command to the API queue of QCameraStateMachine and block until
  the result for their event appears in a list of results; the camera stack posts internal
  events to a second queue. The thread takes one command at a time, API commands first, and
  hands it to the handler of the current state, which calls the hardware interface, signals
  results and changes the state. The queues are QCameraQueue objects over the doubly linked
  lists of cam_list.h.

  The timer service (gps/utils/LocTimer.cpp) keeps the running timers of all clients in a
  heap (LocHeap.cpp). Clients post messages to push and to remove timers; a poll thread posts
  a message when the kernel timer fires; a message thread handles them in order, keeps the
  kernel timer armed for the soonest timer and calls the clients.

  Assisted GPS (gps/gnss/Agps.cpp) needs data connections. The modem requests and releases them
  with handles; AgpsManager has a state machine for each kind of connection, which asks the
  framework for a connection when the first handle subscribes, tells all subscribers what the
  framework answers, and gives the connection back when the last one has gone.

  Geofences pass three layers. A client of the location API (gps/location/LocationAPIClientBase.cpp)
  has ids of its own; it keeps which session of the API each of them stands for in a BiDict, and
  its requests in queues until the responses come. LocationAPI.cpp knows all clients, loads the adapters on
  demand, forwards commands, and deletes a client when every adapter has let go of it.
  GeofenceAdapter (gps/geofence) gives every command to its message thread, which
  asks the modem for one item after the other; it collects the results, answers the client, and keeps
  two maps from clients' ids to those of the modem and back, so that breaches reach their owners
  and geofences can be set again after a restart of the modem. The client base also handles tracking and batching
  sessions and its control client, with the control object of LocationAPI.cpp, the configuration.

  The video decoder looks into H.264 streams (vidc/vdec/src/h264_utils.cpp) before it hands them
  to the hardware. H264_Utils extracts the payload of a NAL unit and finds out with RbspParser
  whether a new frame begins; h264_stream_parser reads sequence parameter sets, usability
  information and supplemental messages; panscan_handler keeps the pan scan rectangles of the
  messages until the frames they apply to are shown.

  A client may send a stream in buffers that are cut anywhere. omx_vdec (omx_vdec_v4l2.cpp) takes one
  of them after the other as the source; frame_parse (frameparser.cpp) copies its bytes up to the next
  start code to a scratch buffer, or to the destination for codecs with a start code for each frame.
  H264_Utils or HEVC_Utils decide whether the unit in the scratch buffer begins a frame. If so, the
  destination, a buffer shared with the driver, is submitted and the unit waits for the next one, which
  the driver returns when it has decoded it.

  The theories.

    DevPrelude: the weakest precondition calculus of the state monad, generic list and
      multiset lemmas.

    SmTypes: events, payloads, results, states and the object of the state machine
      (QCameraStateMachine.h); the calls it makes on its parent, as a trace. The outcome of
      every such call is given by an oracle, an argument \<open>hw\<close> of the handlers that maps the
      trace so far and the call to its results, so that the theorems hold for every
      behaviour of the hardware interface.
    SmStopped, SmPreviewing, SmPicTaking, SmRecording: the eight state handlers
      procEvt...State of QCameraStateMachine.cpp, one definition per handler, cut into
      consecutive groups of cases (suffixes _2, _3, ...) and with the nested switches of the
      internal events as definitions of their own.
    SmContract, SmDispatch: the contract every handler meets (what it may add to the trace,
      how often it answers, where it may go), proved handler by handler; stateMachine, the
      predicates isRecording, isPreviewRunning and so on, dump, and runs of the machine with
      the rules that lift the contract to them.
    SmProps: the properties of the machine: each waiting request is answered exactly once
      and with the status of the handler, with exactly the exceptions found in the code; the graph of
      the states; the calls each state permits; the meaning of isRecording and
      isCaptureRunning; the delay of preview frames; shutdown from every state; and the
      branches in which code and intention differ.

    CamList: cam_list.h on an explicit heap of nodes with next and previous pointers, and the
      theory of list segments and rings.
    QueueSpec: queues as lists, with the laws of a queue and of a queue with priorities as
      locales, and what a client gets from them.
    CamQueue: QCameraQueue.cpp on that heap. Loops are \<open>partial_function (option)\<close>: a bad
      pointer or a loop that does not end is \<open>None\<close>, and the refinement theorem shows that
      every script of operations returns and agrees with the list queue. The locales are
      interpreted on these definitions.
    SmThread: the thread, the two queues and the result list as a transition relation over
      all interleavings of callers, event producers and the thread; what is counted and in
      which order, when callers return, and when they do not.

    LocHeap: LocHeap.cpp, with the laws of a ranking as a locale over the virtual method
      ranks. Nodes own their subtrees, so the tree is a datatype.
    LocTimer: times as pairs of 64 bit words, the ranking of timers, the time of expiry, the
      container, its three messages and the client object; the locale of rankings is
      interpreted on the ranking of the code; all interleavings of clients, clock, poll
      thread and message thread as a transition relation.
    LocTimerInv: the invariants of that relation: heap order, arming of the kernel timer,
      ownership of the delegates, and whom an expiry calls.
    LocTimerProps: the properties of the service, and two runs in which it misbehaves.

    AgpsSm: the state machine of Agps.cpp on a heap of subscribers, with the call of every
      deleted or missing subscriber as \<open>None\<close>. AgpsManager: its operations.
    AgpsSpec: the same machine on lists of subscribers. AgpsInv: the heap implements the lists,
      for every event and operation; what states, subscribers and connections have to do with
      each other. AgpsProps: the properties, and scripts in which requests are lost.

    OrdMap: the laws of std::map as a locale, interpreted on sorted association lists.
    GeofenceAdapter: the adapter. The message thread is a queue of messages; what a command leaves behind for the
      results of the modem is a closure in the list of outstanding calls, and the arrays of a
      command are a block that is freed, after which its use is \<open>None\<close>. The modem may answer any
      outstanding call next.
    GeofenceInv: every event takes every command along the automaton of a command. GeofenceRest: the
      adapter can come to rest. GeofenceMaps: what stands for a client's geofence leads back to it. GeofenceProps: the properties, and what goes wrong
      with failing and unknown items.

    BiDict: the maps of ids and sessions; the contract of lookups in two ways is a locale, interpreted on them.
    ApiClient: LocationAPIClientBase with its queues and requests. ApiInv: its invariant.
      ApiSessions: tracking and batching sessions implement a machine that only knows open ids and waiting
      requests. ApiGeofences, ApiRounds: client and adapter together, the calls of the one being the
      commands of the other, and rounds of a command and what the adapter does until it is served. ApiProps: the properties.
    LocApi: the clients and interfaces of LocationAPI.cpp; a call of a client object that is gone is \<open>None\<close>. LocApiProps: which
      objects are there, and when clients are told of their destruction.
    CtrlClient: LocationAPIControlClient, and what becomes of answers about the configuration.
    LocControl: the control object of LocationAPI.cpp with its requests. LocControlProps: when there is none for ever, and what
      is left to a client then.

    BitLists: bit strings, exponential Golomb codes, emulation prevention, and the contract of a
      bit reader as a locale, with what its clients get from it.
    H264Reader: the bit reader of h264_stream_parser. H264ReaderSpec: it refines reading from a
      list of bits; the locale is interpreted on it.
    PanScan: panscan_handler and omx_dl_list on an array of nodes. PanScanSpec: the contract of
      the lists as a locale, interpreted on them, and the handler on lists of nodes.
    H264Params, H264Stream: the parameters and all parsing functions, in the state monad.
    H264Syntax, H264Vui, H264Sps, H264Nal: what a writer of the standard's syntax writes, and
      that the parsing functions read it back, from the fields up to NAL units.
    H264Safe: rules for parsers that stay within buffer and arrays, and that the parser returns
      for all bytes.
    H264Utils: RbspParser and H264_Utils. H264UtilsSpec: RbspParser is a bit reader as well.
      H264Frames: extraction undoes the writing; the answers for a sequence of access units.
    H264Props: the properties of the H.264 parsing.

    FrameParser: frame_parse on buffer headers with their memory; reading or writing outside of the
      memory is \<open>None\<close>. The two state machines for start codes share the step they take on a byte.
    FrameScan: one call is one run of a scanner over the bytes of the source, however they are cut,
      and loses none of them. FrameCodes: the scanner finds the first start code, stated without states.
    ParserProps: the properties of the frame parser.
    PushInput: the input side of omx_vdec: push_input_buffer with push_input_sc_codec, push_input_vc1,
      push_input_h264 and push_input_hevc, the buffers coming in from client and driver, flushing, and
      HEVC_Utils::isNewFrame.
    InputSpec: what becomes of a stream, over lists: cut into units, put together to frames.
    InputH264, InputRun, InputInvariant, InputProgress: for H.264 the buffers implement that: each
      push, the end of the stream, the invariant of all interleavings of client and driver, and that
      the end is reached. InputProps: the properties, down to access units, and what is lost at the end.

  Correspondence. A definition has the name of the function it models, except where that name
  is taken (camq_ for QCameraQueue, node_ and heap_ for LocHeapNode and LocHeap, timer_ for
  LocTimer, proc_ for messages, bidict_ and queue_ for BiDict and RequestQueue, api_ for LocationAPI, ctrl_ for the control client, ps_ and dl_ for panscan_handler and omx_dl_list, rp_ for
  RbspParser). Parts of long functions have names of their own. Records have the fields of the classes; fields that only
  observe (the trace of calls, the clients called, the callers waiting) are named as such
  where the record is declared. Null pointers and missing results are \<open>None\<close> or a constructor
  of their own. Message masks and times are words of the width of the code (the target is
  arm64); sizes and counters that the code only increments and decrements are integers. A shift
  by the width of a word or more is undefined in C++; in the H.264 parsing \<open>isa\<close> says what it
  does: on 64 bit ARM the amount is taken modulo 32, on 32 bit ARM modulo 256.

  Bounds and termination. Handlers and heap operations are total. The loops of the queue are
  shown to return. The loop of an expiry terminates because each round pops a timer. Times
  are assumed within 68 years of boot where the ranking needs it, and a theorem shows that it
  does need it. The H.264 parser is shown to return for NAL units below 8 MB, the bound from
  which on the sums of positions in a message could wrap around. Its reads are shown exact for
  up to 31 bits everywhere, and for 32 bits where the shifts are those of 32 bit ARM; a theorem
  shows that the second is needed. The loop of push_input_buffer is a \<open>partial_function (option)\<close>; the
  theorems about runs show that it returns. stopClientSessions is one as well; a theorem says exactly when it
  returns. Client and adapter together are shown to work while fewer than 2 ^ 32 - 2 geofences were added, when the counter
  of sessions comes to the values that are reserved. No fuel is used.

  What is not modelled. The bodies of the hardware interface calls, buffers, channels and
  parameters of the camera; the mutexes, which make each queue operation, each posting of a
  command and each handling of a message one step (in LocTimer this hides the unlocked read
  of mClient in LocTimerDelegate::expire); the creation of threads and static objects; log output.
  In the parts for geofences and in the result list of the camera memory can always be allocated; the counter of session ids, which the
  adapters share, belongs to the geofence adapter, as if no other one took ids; and the contents of a position, a measurement or a
  configuration are left out, since they are only passed on. The functions for network
  providers, which call a library that is not part of the tree, are left out, and so are the HIDL services
  above the clients and the adapters for batching and GNSS beside that for geofences.
  In h264_utils.cpp the time stamps that are computed
  with double arithmetic (process_ts_with_sei_vui and what it calls), the performance counters
  and the functions that print are left out. Of the rest of the tree, the camera's crop regions are
  floating point ratios of sensor sizes, gralloc, the display and the OpenMAX components are sequences of
  driver calls whose answers decide everything, the power HAL passes hints to a library, and the
  audio HAL is C. The manifest lists all parts with reasons.
\<close>

end
